(* ===== verification/Prelude.thy ===== *)
theory Prelude
  imports Main "HOL-Library.Word"
begin

text \<open>
  Vocabulary shared by every component of the Tinos3c kernel model: the C integer types as
  machine words, the counting \<open>for\<close> loop of C as a fold over an index range together with
  its proof rules, the arithmetic of page masks (\<open>x & ~(4096 - 1)\<close>), and the effect of the
  C idioms that test, set and clear one bit of a byte.
\<close>

unbundle bit_operations_syntax

section \<open>Integer types of the kernel\<close>

type_synonym u8 = "8 word"
type_synonym u16 = "16 word"
type_synonym u32 = "32 word"
type_synonym u64 = "64 word"

named_theorems frame \<open>which fields of the kernel state an operation leaves alone\<close>

section \<open>Counting loops\<close>

text \<open>
  \<open>for (i = a; i < b; i++) s = f(i, s)\<close>, for a body that neither breaks nor changes \<open>i\<close>.
\<close>

definition for_up :: "nat \<Rightarrow> nat \<Rightarrow> (nat \<Rightarrow> 's \<Rightarrow> 's) \<Rightarrow> 's \<Rightarrow> 's" where
  "for_up a b f s = fold f [a..<b] s"

lemma for_up_done [simp]: "b \<le> a \<Longrightarrow> for_up a b f s = s"
  by (simp add: for_up_def)

lemma for_up_first: "a < b \<Longrightarrow> for_up a b f s = for_up (Suc a) b f (f a s)"
  by (simp add: for_up_def upt_conv_Cons)

lemma for_up_last: "a \<le> b \<Longrightarrow> for_up a (Suc b) f s = f b (for_up a b f s)"
  by (simp add: for_up_def)

lemma for_up_invariant:
  assumes "a \<le> b" and "I a s"
    and "\<And>i t. a \<le> i \<Longrightarrow> i < b \<Longrightarrow> I i t \<Longrightarrow> I (Suc i) (f i t)"
  shows "I b (for_up a b f s)"
  using assms
proof (induction b)
  case 0
  then show ?case by simp
next
  case (Suc b)
  show ?case
  proof (cases "a \<le> b")
    case True
    with Suc show ?thesis by (simp add: for_up_last)
  next
    case False
    with Suc.prems show ?thesis by (simp add: le_Suc_eq)
  qed
qed

lemma for_up_frame: "(\<And>i t. g (f i t) = g t) \<Longrightarrow> g (for_up a b f s) = g s"
proof (induction b)
  case (Suc b)
  then show ?case by (cases "a \<le> b") (simp_all add: for_up_last)
qed simp

lemma for_up_preserves:
  assumes "P s" and "\<And>i t. P t \<Longrightarrow> P (f i t)"
  shows "P (for_up a b f s)"
proof (induction b)
  case (Suc b)
  with assms show ?case by (cases "a \<le> b") (simp_all add: for_up_last)
qed (simp add: assms)

text \<open>A loop whose \<open>i\<close>-th round writes only cell \<open>k i\<close> of an array fills those cells.\<close>

lemma for_up_fill:
  assumes "\<And>i t. arr (f i t) = (arr t)(k i := v i)"
  shows "arr (for_up a b f s) j
    = (if \<exists>i. a \<le> i \<and> i < b \<and> k i = j
       then v (GREATEST i. a \<le> i \<and> i < b \<and> k i = j) else arr s j)"
proof (induction b)
  case 0
  then show ?case by simp
next
  case (Suc b)
  show ?case
  proof (cases "a \<le> b")
    case False
    then show ?thesis by auto
  next
    case True
    have G: "(GREATEST i. a \<le> i \<and> i < Suc b \<and> k i = j)
        = (if k b = j then b else (GREATEST i. a \<le> i \<and> i < b \<and> k i = j))"
    proof (cases "k b = j")
      case True
      with \<open>a \<le> b\<close> show ?thesis by (auto intro: Greatest_equality)
    next
      case False
      then have "(\<lambda>i. a \<le> i \<and> i < Suc b \<and> k i = j) = (\<lambda>i. a \<le> i \<and> i < b \<and> k i = j)"
        by (auto simp: fun_eq_iff less_Suc_eq)
      with False show ?thesis by simp
    qed
    have E: "(\<exists>i. a \<le> i \<and> i < Suc b \<and> k i = j)
        \<longleftrightarrow> k b = j \<or> (\<exists>i. a \<le> i \<and> i < b \<and> k i = j)"
      using True by (auto simp: less_Suc_eq)
    from True show ?thesis
      unfolding G E for_up_last [OF True] assms using Suc by auto
  qed
qed

lemma for_up_fill_inj:
  assumes "\<And>i t. arr (f i t) = (arr t)(k i := v i)" and "inj_on k {a..<b}"
  shows "a \<le> i \<Longrightarrow> i < b \<Longrightarrow> arr (for_up a b f s) (k i) = v i"
    and "j \<notin> k ` {a..<b} \<Longrightarrow> arr (for_up a b f s) j = arr s j"
proof -
  assume i: "a \<le> i" "i < b"
  have "(GREATEST i'. a \<le> i' \<and> i' < b \<and> k i' = k i) = i"
    using i assms(2) by (intro Greatest_equality) (auto dest: inj_onD)
  with i show "arr (for_up a b f s) (k i) = v i"
    by (subst for_up_fill [where arr = arr and k = k and v = v, OF assms(1)]) auto
next
  assume "j \<notin> k ` {a..<b}"
  then show "arr (for_up a b f s) j = arr s j"
    by (subst for_up_fill [where arr = arr and k = k and v = v, OF assms(1)]) auto
qed

section \<open>Searching loops\<close>

text \<open>
  \<open>for (i = a; i < b; i++) if (P(i)) return i;\<close> as the index it stops at, if any.
\<close>

definition scan_up :: "nat \<Rightarrow> nat \<Rightarrow> (nat \<Rightarrow> bool) \<Rightarrow> nat option" where
  "scan_up a b P = find P [a..<b]"

lemma scan_up_None: "scan_up a b P = None \<longleftrightarrow> (\<forall>i. a \<le> i \<and> i < b \<longrightarrow> \<not> P i)"
  by (auto simp: scan_up_def find_None_iff)

lemma scan_up_Some:
  "scan_up a b P = Some i \<longleftrightarrow> a \<le> i \<and> i < b \<and> P i \<and> (\<forall>j. a \<le> j \<and> j < i \<longrightarrow> \<not> P j)"
proof
  assume "scan_up a b P = Some i"
  then obtain k where k: "k < b - a" "P (a + k)" "i = a + k" "\<forall>j<k. \<not> P (a + j)"
    by (auto simp: scan_up_def find_Some_iff)
  have "\<not> P j" if "a \<le> j" "j < i" for j
    using k(4) [rule_format, of "j - a"] k(3) that by auto
  with k show "a \<le> i \<and> i < b \<and> P i \<and> (\<forall>j. a \<le> j \<and> j < i \<longrightarrow> \<not> P j)"
    by auto
next
  assume i: "a \<le> i \<and> i < b \<and> P i \<and> (\<forall>j. a \<le> j \<and> j < i \<longrightarrow> \<not> P j)"
  then have "\<exists>k<length [a..<b]. P ([a..<b] ! k) \<and> i = [a..<b] ! k \<and> (\<forall>j<k. \<not> P ([a..<b] ! j))"
    by (intro exI [of _ "i - a"]) auto
  then show "scan_up a b P = Some i" by (simp add: scan_up_def find_Some_iff)
qed

lemma scan_up_SomeD:
  assumes "scan_up a b P = Some i"
  shows "a \<le> i" "i < b" "P i" "\<And>j. a \<le> j \<Longrightarrow> j < i \<Longrightarrow> \<not> P j"
  using assms by (auto simp: scan_up_Some)

lemma scan_up_unfold: "scan_up a b P = (if a < b then if P a then Some a else scan_up (Suc a) b P else None)"
  by (simp add: scan_up_def upt_conv_Cons)

lemma scan_up_found: "a \<le> i \<Longrightarrow> i < b \<Longrightarrow> P i \<Longrightarrow> \<exists>j. scan_up a b P = Some j"
  using scan_up_None [of a b P] by fastforce

lemma scan_up_cong: "(\<And>i. a \<le> i \<Longrightarrow> i < b \<Longrightarrow> P i = Q i) \<Longrightarrow> scan_up a b P = scan_up a b Q"
  unfolding scan_up_def by (rule find_cong) auto

section \<open>Masks\<close>

lemma and_not_mask_eq: "(x :: 'a::len word) AND NOT (mask n) = push_bit n (drop_bit n x)"
  by (rule bit_word_eqI) (auto simp: bit_simps)

lemma unat_and_not_mask: "unat ((x :: 'a::len word) AND NOT (mask n)) = unat x div 2 ^ n * 2 ^ n"
proof -
  have "x = (x AND NOT (mask n)) + (x AND mask n)"
    by (metis bits_ident and_not_mask_eq take_bit_eq_mask)
  have le: "unat x div 2 ^ n * 2 ^ n < 2 ^ LENGTH('a)"
    using unsigned_less [of x] by (meson div_times_less_eq_dividend le_less_trans)
  have "unat (push_bit n (drop_bit n x)) = take_bit LENGTH('a) (push_bit n (drop_bit n (unat x)))"
    by (simp add: unsigned_push_bit_eq unsigned_drop_bit_eq unat_drop_bit_eq
        take_bit_nat_eq_self)
  also have "\<dots> = unat x div 2 ^ n * 2 ^ n"
    using le by (simp add: push_bit_eq_mult drop_bit_eq_div take_bit_nat_eq_self_iff)
  finally show ?thesis by (simp add: and_not_mask_eq)
qed

lemma and_not_zero: "(x :: 'a::len word) AND NOT m = 0 \<Longrightarrow> x AND m = x"
proof -
  assume "x AND NOT m = 0"
  moreover have "x = (x AND m) OR (x AND NOT m)"
    by (simp flip: bit.conj_disj_distrib)
  ultimately show ?thesis by simp
qed

lemma unat_and_mask: "unat ((x :: 'a::len word) AND mask n) = unat x mod 2 ^ n"
  by (simp add: unsigned_take_bit_eq flip: take_bit_eq_mask take_bit_eq_mod)

lemma unat_u64_less: "unat (w :: u64) < 18446744073709551616"
proof -
  have "unat w < 2 ^ LENGTH(64)" by (rule unsigned_less)
  then show ?thesis by simp
qed

lemma unat_u32_less: "unat (w :: u32) < 4294967296"
proof -
  have "unat w < 2 ^ LENGTH(32)" by (rule unsigned_less)
  then show ?thesis by simp
qed

text \<open>Addition, subtraction and multiplication that do not wrap.\<close>

lemma unat_plus_nowrap: "unat a + unat b < 2 ^ LENGTH('a) \<Longrightarrow> unat (a + b :: 'a::len word) = unat a + unat b"
  by (simp add: unat_add_lem)

lemma unat_times_nowrap: "unat a * unat b < 2 ^ LENGTH('a) \<Longrightarrow> unat (a * b :: 'a::len word) = unat a * unat b"
  by (simp add: unat_mult_lem)

section \<open>One bit of a byte\<close>

text \<open>
  \<open>b & (1 << k)\<close>, \<open>b |= (1 << k)\<close> and \<open>b &= ~(1 << k)\<close> on a \<open>uint8_t\<close>: C promotes
  the byte to a 32-bit integer and stores the low eight bits of the result.
\<close>

definition byte_test :: "u8 \<Rightarrow> nat \<Rightarrow> bool" where
  "byte_test b k \<longleftrightarrow> (ucast b :: u32) AND push_bit k 1 \<noteq> 0"

definition byte_set :: "u8 \<Rightarrow> nat \<Rightarrow> u8" where
  "byte_set b k = ucast ((ucast b :: u32) OR push_bit k 1)"

definition byte_clear :: "u8 \<Rightarrow> nat \<Rightarrow> u8" where
  "byte_clear b k = ucast ((ucast b :: u32) AND NOT (push_bit k 1))"

lemma byte_test_bit: "k < 8 \<Longrightarrow> byte_test b k = bit b k"
  by (simp add: byte_test_def push_bit_of_1 and_exp_eq_0_iff_not_bit bit_simps)

lemma byte_set_bit: "k < 8 \<Longrightarrow> j < 8 \<Longrightarrow> bit (byte_set b k) j \<longleftrightarrow> j = k \<or> bit b j"
  by (auto simp: byte_set_def bit_simps)

lemma byte_clear_bit: "k < 8 \<Longrightarrow> j < 8 \<Longrightarrow> bit (byte_clear b k) j \<longleftrightarrow> j \<noteq> k \<and> bit b j"
  by (auto simp: byte_clear_def bit_simps)

lemma byte_ff_bit: "j < 8 \<Longrightarrow> bit (0xFF :: u8) j"
  by (auto simp: bit_simps eval_nat_numeral less_Suc_eq)

end
