(* ===== verification/Machine.thy ===== *)
theory Machine
  imports Prelude
begin

text \<open>
  The processor and the devices as the kernel sees them.  Every I/O instruction and every
  privileged instruction is recorded in a log, newest first.  What a device answers to a port
  read is not in the repository: it is the component \<open>port_in\<close> of the state, an arbitrary function
  of the log so far and of the port, and the theorems that need a particular device say so in a
  hypothesis.  The same holds for the time-stamp counter and for the faulting address in CR2.
  Later theories extend the record \<open>hw\<close> field by field with the static variables of
  the C files, so an operation of one file runs on any extension of the state it needs.
\<close>

datatype hw_event =
    Out8 u16 u8
  | Out16 u16 u16
  | Out32 u16 u32
  | In8 u16
  | In16 u16
  | In32 u16
  | Rdtsc
  | ReadCr2
  | Invlpg u64
  | LoadCr3 u64
  | LoadGdt u16 u64
  | LoadIdt u16 u64
  | Sti
  | Cli

record hw =
  hw_log :: "hw_event list"
  port_in :: "hw_event list \<Rightarrow> u16 \<Rightarrow> u32"
  tsc_in :: "hw_event list \<Rightarrow> u64"
  cr2_in :: "hw_event list \<Rightarrow> u64"
  if_flag :: bool

text \<open>
  A function that may end in \<open>for (;;) hlt\<close> either returns or stops the machine for good.
\<close>

datatype 's outcome = Returned 's | Halted 's

definition emit :: "hw_event \<Rightarrow> 'a hw_scheme \<Rightarrow> 'a hw_scheme" where
  "emit e s = s\<lparr>hw_log := e # hw_log s\<rparr>"

section \<open>Port instructions (stdio.c, stdio.h, kernel_apis.c)\<close>

definition inb :: "u16 \<Rightarrow> 'a hw_scheme \<Rightarrow> u8 \<times> 'a hw_scheme" where
  "inb port s = (ucast (port_in s (hw_log s) port), emit (In8 port) s)"

definition inw :: "u16 \<Rightarrow> 'a hw_scheme \<Rightarrow> u16 \<times> 'a hw_scheme" where
  "inw port s = (ucast (port_in s (hw_log s) port), emit (In16 port) s)"

definition inl :: "u16 \<Rightarrow> 'a hw_scheme \<Rightarrow> u32 \<times> 'a hw_scheme" where
  "inl port s = (port_in s (hw_log s) port, emit (In32 port) s)"

definition outb :: "u16 \<Rightarrow> u8 \<Rightarrow> 'a hw_scheme \<Rightarrow> 'a hw_scheme" where
  "outb port val = emit (Out8 port val)"

definition outw :: "u16 \<Rightarrow> u16 \<Rightarrow> 'a hw_scheme \<Rightarrow> 'a hw_scheme" where
  "outw port val = emit (Out16 port val)"

definition outl :: "u16 \<Rightarrow> u32 \<Rightarrow> 'a hw_scheme \<Rightarrow> 'a hw_scheme" where
  "outl port val = emit (Out32 port val)"

definition io_wait :: "'a hw_scheme \<Rightarrow> 'a hw_scheme" where
  "io_wait = outb 0x80 0"

section \<open>Privileged instructions\<close>

definition sti :: "'a hw_scheme \<Rightarrow> 'a hw_scheme" where
  "sti s = (emit Sti s)\<lparr>if_flag := True\<rparr>"

definition cli :: "'a hw_scheme \<Rightarrow> 'a hw_scheme" where
  "cli s = (emit Cli s)\<lparr>if_flag := False\<rparr>"

definition rdtsc :: "'a hw_scheme \<Rightarrow> u64 \<times> 'a hw_scheme" where
  "rdtsc s = (tsc_in s (hw_log s), emit Rdtsc s)"

definition read_cr2 :: "'a hw_scheme \<Rightarrow> u64 \<times> 'a hw_scheme" where
  "read_cr2 s = (cr2_in s (hw_log s), emit ReadCr2 s)"

lemmas machine_defs = emit_def inb_def inw_def inl_def outb_def outw_def outl_def io_wait_def
  sti_def cli_def rdtsc_def read_cr2_def

lemma emit_log [simp]:
  "hw_log (emit e s) = e # hw_log s"
  "port_in (emit e s) = port_in s"
  "tsc_in (emit e s) = tsc_in s"
  "cr2_in (emit e s) = cr2_in s"
  "if_flag (emit e s) = if_flag s"
  by (simp_all add: emit_def)

end
