(* ===== verification/Screen.thy ===== *)
theory Screen
  imports Machine
begin

text \<open>
  The VGA text screen of \<open>kernel/lib/std/stdio.c\<close>: the character cells at 0xB8000, the cursor
  variables, \<open>putchar\<close>, \<open>scroll_screen\<close>, \<open>clear_screen\<close> and \<open>update_cursor\<close>.  The cursor is a
  C \<open>int\<close>; the bounds proved here (\<open>cursor_ok\<close>) keep it and every cell index far from
  overflow, so it is modelled by \<open>int\<close>.
\<close>

record screen = hw +
  vga_buffer :: "int \<Rightarrow> u16"
  cursor_x :: int
  cursor_y :: int

definition VGA_WIDTH :: int where "VGA_WIDTH = 80"
definition VGA_HEIGHT :: int where "VGA_HEIGHT = 60"
definition DEFAULT_COLOR :: u8 where "DEFAULT_COLOR = 0x07"

lemmas vga_consts = VGA_WIDTH_def VGA_HEIGHT_def DEFAULT_COLOR_def

definition vga_entry :: "char \<Rightarrow> u8 \<Rightarrow> u16" where
  "vga_entry c color = push_bit 8 (ucast color) OR ucast (of_char c :: u8)"

definition set_cell :: "int \<Rightarrow> u16 \<Rightarrow> 'a screen_scheme \<Rightarrow> 'a screen_scheme" where
  "set_cell i v s = s\<lparr>vga_buffer := (vga_buffer s)(i := v)\<rparr>"

definition update_cursor :: "int \<Rightarrow> int \<Rightarrow> 'a screen_scheme \<Rightarrow> 'a screen_scheme" where
  "update_cursor x y s =
     (let pos = word_of_int (y * VGA_WIDTH + x) :: u16;
          s = outb 0x3D4 0x0F s;
          s = outb 0x3D5 (ucast (pos AND 0xFF)) s;
          s = outb 0x3D4 0x0E s;
          s = outb 0x3D5 (ucast (drop_bit 8 pos AND 0xFF)) s
      in s)"

definition scroll_screen :: "'a screen_scheme \<Rightarrow> 'a screen_scheme" where
  "scroll_screen s =
     (let s = for_up 1 60 (\<lambda>y. for_up 0 80 (\<lambda>x s.
                set_cell ((int y - 1) * VGA_WIDTH + int x)
                  (vga_buffer s (int y * VGA_WIDTH + int x)) s)) s;
          s = for_up 0 80 (\<lambda>x. set_cell ((VGA_HEIGHT - 1) * VGA_WIDTH + int x)
                  (vga_entry CHR '' '' 0x07)) s
      in if cursor_y s > 0 then s\<lparr>cursor_y := cursor_y s - 1\<rparr> else s)"

definition putchar :: "char \<Rightarrow> 'a screen_scheme \<Rightarrow> 'a screen_scheme" where
  "putchar c s =
     (let s =
        (if c = CHR 0x0A then s\<lparr>cursor_x := 0, cursor_y := cursor_y s + 1\<rparr>
         else if c = CHR 0x08 then
           (if cursor_x s > 0 then
              (let s = s\<lparr>cursor_x := cursor_x s - 1\<rparr>
               in set_cell (cursor_y s * VGA_WIDTH + cursor_x s)
                    (vga_entry CHR '' '' DEFAULT_COLOR) s)
            else s)
         else
           (let s = set_cell (cursor_y s * VGA_WIDTH + cursor_x s)
                      (vga_entry c DEFAULT_COLOR) s;
                s = s\<lparr>cursor_x := cursor_x s + 1\<rparr>
            in if cursor_x s \<ge> VGA_WIDTH then s\<lparr>cursor_x := 0, cursor_y := cursor_y s + 1\<rparr>
               else s));
          s = (if cursor_y s \<ge> VGA_HEIGHT then (scroll_screen s)\<lparr>cursor_y := VGA_HEIGHT - 1\<rparr>
               else s)
      in update_cursor (cursor_x s) (cursor_y s) s)"

definition clear_screen :: "'a screen_scheme \<Rightarrow> 'a screen_scheme" where
  "clear_screen s =
     (let s = for_up 0 60 (\<lambda>y. for_up 0 80 (\<lambda>x.
                set_cell (int y * VGA_WIDTH + int x) (vga_entry CHR '' '' DEFAULT_COLOR))) s;
          s = s\<lparr>cursor_x := 0, cursor_y := 0\<rparr>
      in update_cursor (cursor_x s) (cursor_y s) s)"

section \<open>The cursor stays on the screen\<close>

definition cursor_ok :: "'a screen_scheme \<Rightarrow> bool" where
  "cursor_ok s \<longleftrightarrow> 0 \<le> cursor_x s \<and> cursor_x s < VGA_WIDTH \<and> 0 \<le> cursor_y s \<and> cursor_y s < VGA_HEIGHT"

lemma update_cursor_fields [simp]:
  "vga_buffer (update_cursor x y s) = vga_buffer s"
  "cursor_x (update_cursor x y s) = cursor_x s"
  "cursor_y (update_cursor x y s) = cursor_y s"
  by (simp_all add: update_cursor_def machine_defs Let_def)

lemma set_cell_fields [simp]:
  "vga_buffer (set_cell i v s) = (vga_buffer s)(i := v)"
  "cursor_x (set_cell i v s) = cursor_x s"
  "cursor_y (set_cell i v s) = cursor_y s"
  by (simp_all add: set_cell_def)

lemma scroll_cursor [simp]:
  "cursor_x (scroll_screen s) = cursor_x s"
  "cursor_y (scroll_screen s) = (if cursor_y s > 0 then cursor_y s - 1 else cursor_y s)"
  by (simp_all add: scroll_screen_def Let_def for_up_frame [where g = cursor_x]
      for_up_frame [where g = cursor_y])

lemma putchar_cursor_ok: "cursor_ok s \<Longrightarrow> cursor_ok (putchar c s)"
  by (auto simp: putchar_def cursor_ok_def vga_consts Let_def)

text \<open>Outside the 4800 cells of the screen nothing is ever written.\<close>

definition on_screen :: "int \<Rightarrow> bool" where
  "on_screen i \<longleftrightarrow> 0 \<le> i \<and> i < VGA_WIDTH * VGA_HEIGHT"

section \<open>What scrolling and clearing do\<close>

lemma scroll_rows:
  assumes "1 \<le> n" "n \<le> 60"
  shows "vga_buffer (for_up 1 n (\<lambda>y. for_up 0 80 (\<lambda>x s.
      set_cell ((int y - 1) * VGA_WIDTH + int x) (vga_buffer s (int y * VGA_WIDTH + int x)) s)) s) i
    = (if 0 \<le> i \<and> i < (int n - 1) * 80 then vga_buffer s (i + 80) else vga_buffer s i)"
proof -
  let ?row = "\<lambda>y. for_up 0 80 (\<lambda>x s.
      set_cell ((int y - 1) * VGA_WIDTH + int x) (vga_buffer s (int y * VGA_WIDTH + int x)) s)"
  let ?I = "\<lambda>k t. \<forall>i. vga_buffer t i = (if 0 \<le> i \<and> i < k then vga_buffer s (i + 80) else vga_buffer s i)"
  have "?I ((int n - 1) * 80) (for_up 1 n ?row s)"
  proof (rule for_up_invariant [where I = "\<lambda>y. ?I ((int y - 1) * 80)"])
    fix y t assume y: "1 \<le> y" "y < n" and I: "?I ((int y - 1) * 80) t"
    have "?I ((int y - 1) * 80 + int 80) (?row y t)"
    proof (rule for_up_invariant [where I = "\<lambda>x. ?I ((int y - 1) * 80 + int x)"])
      fix x u assume J: "?I ((int y - 1) * 80 + int x) u"
      let ?j = "(int y - 1) * 80 + int x"
      have "int y * VGA_WIDTH + int x = ?j + 80" "(int y - 1) * VGA_WIDTH + int x = ?j"
        by (simp_all add: VGA_WIDTH_def algebra_simps)
      moreover have "0 \<le> ?j" using y(1) by simp
      moreover have "vga_buffer u (?j + 80) = vga_buffer s (?j + 80)" using J by simp
      ultimately show "?I ((int y - 1) * 80 + int (Suc x)) (set_cell ((int y - 1) * VGA_WIDTH + int x)
          (vga_buffer u (int y * VGA_WIDTH + int x)) u)"
        using J by auto
    qed (use I in simp_all)
    then show "?I ((int (Suc y) - 1) * 80) (?row y t)" by (simp add: algebra_simps)
  qed (use assms in auto)
  then show ?thesis by blast
qed

lemma fill_cells:
  "vga_buffer (for_up 0 n (\<lambda>x. set_cell (a + int x) v) s) i
    = (if a \<le> i \<and> i < a + int n then v else vga_buffer s i)"
proof -
  have "\<forall>i. vga_buffer (for_up 0 n (\<lambda>x. set_cell (a + int x) v) s) i
      = (if a \<le> i \<and> i < a + int n then v else vga_buffer s i)"
    by (rule for_up_invariant [where I = "\<lambda>k t. \<forall>i. vga_buffer t i = (if a \<le> i \<and> i < a + int k then v else vga_buffer s i)"])
      auto
  then show ?thesis by blast
qed

lemma scroll_screen_cells:
  "vga_buffer (scroll_screen s) i =
    (if \<not> on_screen i then vga_buffer s i
     else if i < 59 * VGA_WIDTH then vga_buffer s (i + VGA_WIDTH) else vga_entry CHR '' '' 0x07)"
proof -
  have "vga_buffer (scroll_screen s) i = (if 4720 \<le> i \<and> i < 4800 then vga_entry CHR '' '' 0x07
      else if 0 \<le> i \<and> i < 4720 then vga_buffer s (i + 80) else vga_buffer s i)"
  proof -
    have c: "vga_buffer (if P then t\<lparr>cursor_y := k\<rparr> else t) = vga_buffer t" for P k and t :: "'a screen_scheme"
      by simp
    have "(VGA_HEIGHT - 1) * VGA_WIDTH = 4720" by (simp add: vga_consts)
    then show ?thesis
      unfolding scroll_screen_def Let_def c by (simp only: fill_cells scroll_rows [of 60 s i]) simp
  qed
  then show ?thesis by (auto simp: on_screen_def vga_consts)
qed

lemma clear_screen_cells:
  "vga_buffer (clear_screen s) i =
    (if on_screen i then vga_entry CHR '' '' DEFAULT_COLOR else vga_buffer s i)"
proof -
  let ?b = "vga_entry CHR '' '' DEFAULT_COLOR"
  let ?row = "\<lambda>y. for_up 0 80 (\<lambda>x. set_cell (int y * VGA_WIDTH + int x) ?b)"
  have "\<forall>i. vga_buffer (for_up 0 60 ?row s) i = (if 0 \<le> i \<and> i < int 60 * 80 then ?b else vga_buffer s i)"
  proof (rule for_up_invariant [where I = "\<lambda>y t. \<forall>i. vga_buffer t i = (if 0 \<le> i \<and> i < int y * 80 then ?b else vga_buffer s i)"])
    fix y t assume "\<forall>i. vga_buffer t i = (if 0 \<le> i \<and> i < int y * 80 then ?b else vga_buffer s i)"
    then show "\<forall>i. vga_buffer (?row y t) i = (if 0 \<le> i \<and> i < int (Suc y) * 80 then ?b else vga_buffer s i)"
      unfolding fill_cells by (auto simp: VGA_WIDTH_def)
  qed auto
  then show ?thesis by (simp add: clear_screen_def Let_def on_screen_def vga_consts)
qed

lemma on_screen_cursor:
  "cursor_ok s \<Longrightarrow> on_screen (cursor_y s * VGA_WIDTH + cursor_x s)"
  by (auto simp: cursor_ok_def on_screen_def vga_consts)

lemma putchar_off_screen:
  assumes "cursor_ok s" "\<not> on_screen i"
  shows "vga_buffer (putchar c s) i = vga_buffer s i"
proof -
  have "on_screen (cursor_y s * VGA_WIDTH + (cursor_x s - 1))" if "0 < cursor_x s"
    using assms(1) that by (auto simp: cursor_ok_def on_screen_def vga_consts)
  then have "cursor_y s * VGA_WIDTH + (cursor_x s - 1) \<noteq> i" if "0 < cursor_x s" using that assms(2) by auto
  moreover have "cursor_y s * VGA_WIDTH + cursor_x s \<noteq> i" using on_screen_cursor [OF assms(1)] assms(2) by auto
  ultimately show ?thesis using assms(2) by (auto simp: putchar_def Let_def scroll_screen_cells)
qed

end
