(* ===== verification/Printf.thy ===== *)
theory Printf
  imports Screen
begin

text \<open>
  Formatted output and string comparison of \<open>kernel/lib/std/stdio.c\<close>.  A C string is the list
  of its characters before the terminating NUL.  The variadic arguments are a list; reading one
  that is not there, or one of another type, is undefined in C and an error value here, and so is
  reading the format string past its terminator.
\<close>

datatype va_arg = VStr string | VInt u32 | VU64 u64

datatype printf_fault = FormatOverrun | BadArgument

text \<open>A text, character by character: \<open>while (*str) putchar(*str++)\<close>.\<close>

definition put_string :: "string \<Rightarrow> 'a screen_scheme \<Rightarrow> 'a screen_scheme" where
  "put_string cs s = fold putchar cs s"

section \<open>The conversions\<close>

text \<open>
  \<open>while (num > 0) { buf[j++] = '0' + (num % 10); num /= 10; }\<close>: the buffer after the loop,
  for the \<open>int\<close> of \<open>%d\<close> and for the \<open>uint64_t\<close> of \<open>%u\<close>.
\<close>

function digits_int :: "int \<Rightarrow> string \<Rightarrow> string" where
  "digits_int num buf =
     (if num > 0 then digits_int (num div 10) (buf @ [char_of (48 + num mod 10)]) else buf)"
  by pat_completeness auto
termination by (relation "measure (\<lambda>(num, buf). nat num)") auto

function digits_u64 :: "u64 \<Rightarrow> string \<Rightarrow> string" where
  "digits_u64 num buf =
     (if num > 0 then digits_u64 (num div 10) (buf @ [char_of (48 + uint (num mod 10))]) else buf)"
  by pat_completeness auto
termination
proof (relation "measure (\<lambda>(num, buf). unat num)")
  fix num :: u64 and buf :: string
  assume "num > 0"
  then show "((num div 10, buf @ [char_of (48 + uint (num mod 10))]), num, buf)
      \<in> measure (\<lambda>(num, buf). unat num)"
    by (simp add: unat_div_distrib unat_gt_0 word_greater_zero_iff)
qed simp

declare digits_int.simps [simp del] digits_u64.simps [simp del]

text \<open>The three conversions with a number: sign and digits, digits, sixteen hexadecimal digits.\<close>

definition put_d :: "u32 \<Rightarrow> 'a screen_scheme \<Rightarrow> 'a screen_scheme" where
  "put_d w s =
     (let num = sint w in
      if num = 0 then putchar CHR ''0'' s
      else
        (let (num, s) = (if num < 0 then (sint (- w), putchar CHR ''-'' s) else (num, s))
         in fold putchar (rev (digits_int num [])) s))"

definition put_u :: "u64 \<Rightarrow> 'a screen_scheme \<Rightarrow> 'a screen_scheme" where
  "put_u num s =
     (if num = 0 then putchar CHR ''0'' s
      else fold putchar (rev (digits_u64 num [])) s)"

definition hex_digits :: string where
  "hex_digits = ''0123456789ABCDEF''"

definition put_x :: "u64 \<Rightarrow> 'a screen_scheme \<Rightarrow> 'a screen_scheme" where
  "put_x val s =
     (let s = putchar CHR ''0'' s;
          s = putchar CHR ''x'' s
      in fold (\<lambda>j. putchar (hex_digits ! unat (drop_bit (j * 4) val AND 0xF))) (rev [0..<16]) s)"

section \<open>printf\<close>

text \<open>
  The loop over the format string.  A \<open>%\<close> just before the terminator takes the \<open>default\<close>
  branch, prints \<open>%\<close> and the NUL, and the loop's \<open>i++\<close> then steps over the terminator.
\<close>

fun printf :: "string \<Rightarrow> va_arg list \<Rightarrow> 'a screen_scheme \<Rightarrow> printf_fault + 'a screen_scheme" where
  "printf [] args s = Inr s"
| "printf (c # fmt) args s =
     (if c \<noteq> CHR ''%'' then printf fmt args (putchar c s)
      else case fmt of
        [] \<Rightarrow> Inl FormatOverrun
      | d # fmt' \<Rightarrow>
          if d = CHR ''%'' then printf fmt' args (putchar CHR ''%'' s)
          else if d = CHR ''s'' then
            (case args of VStr str # args' \<Rightarrow> printf fmt' args' (put_string str s)
             | _ \<Rightarrow> Inl BadArgument)
          else if d = CHR ''d'' then
            (case args of VInt w # args' \<Rightarrow> printf fmt' args' (put_d w s)
             | _ \<Rightarrow> Inl BadArgument)
          else if d = CHR ''u'' then
            (case args of VU64 w # args' \<Rightarrow> printf fmt' args' (put_u w s)
             | _ \<Rightarrow> Inl BadArgument)
          else if d = CHR ''x'' then
            (case args of VU64 w # args' \<Rightarrow> printf fmt' args' (put_x w s)
             | _ \<Rightarrow> Inl BadArgument)
          else printf fmt' args (putchar d (putchar CHR ''%'' s)))"

section \<open>strcmp\<close>

fun strcmp :: "string \<Rightarrow> string \<Rightarrow> int" where
  "strcmp (c # s1) (d # s2) = (if c = d then strcmp s1 s2 else of_char c - of_char d)"
| "strcmp [] (d # s2) = 0 - of_char d"
| "strcmp (c # s1) [] = of_char c - 0"
| "strcmp [] [] = 0"

section \<open>What printf prints\<close>

text \<open>The text a format string stands for, independent of the screen.\<close>

function decimal :: "nat \<Rightarrow> string" where
  "decimal n = (if n < 10 then [char_of (48 + n)] else decimal (n div 10) @ [char_of (48 + n mod 10)])"
  by pat_completeness auto
termination by (relation "measure id") auto

declare decimal.simps [simp del]

definition decimal_value :: "string \<Rightarrow> nat" where
  "decimal_value cs = foldl (\<lambda>n c. 10 * n + (of_char c - 48)) 0 cs"

definition render_d :: "u32 \<Rightarrow> string" where
  "render_d w =
     (if sint w = - (2 ^ 31) then ''-''
      else if sint w < 0 then CHR ''-'' # decimal (nat (- sint w)) else decimal (nat (sint w)))"

definition render_x :: "u64 \<Rightarrow> string" where
  "render_x w = ''0x'' @ map (\<lambda>j. hex_digits ! unat (drop_bit (j * 4) w AND 0xF)) (rev [0..<16])"

fun render :: "string \<Rightarrow> va_arg list \<Rightarrow> printf_fault + string" where
  "render [] args = Inr []"
| "render (c # fmt) args =
     (if c \<noteq> CHR ''%'' then map_sum id (Cons c) (render fmt args)
      else case fmt of
        [] \<Rightarrow> Inl FormatOverrun
      | d # fmt' \<Rightarrow>
          if d = CHR ''%'' then map_sum id (Cons CHR ''%'') (render fmt' args)
          else if d = CHR ''s'' then
            (case args of VStr str # args' \<Rightarrow> map_sum id (append str) (render fmt' args')
             | _ \<Rightarrow> Inl BadArgument)
          else if d = CHR ''d'' then
            (case args of VInt w # args' \<Rightarrow> map_sum id (append (render_d w)) (render fmt' args')
             | _ \<Rightarrow> Inl BadArgument)
          else if d = CHR ''u'' then
            (case args of VU64 w # args' \<Rightarrow> map_sum id (append (decimal (unat w))) (render fmt' args')
             | _ \<Rightarrow> Inl BadArgument)
          else if d = CHR ''x'' then
            (case args of VU64 w # args' \<Rightarrow> map_sum id (append (render_x w)) (render fmt' args')
             | _ \<Rightarrow> Inl BadArgument)
          else map_sum id (append [CHR ''%'', d]) (render fmt' args))"

lemma put_string_simps [simp]:
  "put_string [] s = s"
  "put_string (c # cs) s = put_string cs (putchar c s)"
  "put_string (cs @ ds) s = put_string ds (put_string cs s)"
  by (simp_all add: put_string_def)

lemma digit_char_int: "0 \<le> n \<Longrightarrow> char_of (48 + n mod 10 :: int) = char_of (48 + nat n mod 10)"
proof -
  assume "0 \<le> n"
  then have "48 + n mod 10 = int (48 + nat n mod 10)" by (simp add: zmod_int)
  then show ?thesis by (metis char_of_nat)
qed

lemma digits_int_decimal: "0 < n \<Longrightarrow> digits_int n buf = buf @ rev (decimal (nat n))"
proof (induction n buf rule: digits_int.induct)
  case (1 n buf)
  then have n: "0 \<le> n" "nat (n div 10) = nat n div 10" by (simp_all add: nat_div_distrib)
  have c: "char_of (48 + n mod 10) = (char_of (48 + nat n mod 10) :: char)"
    using n by (simp add: digit_char_int)
  show ?case
  proof (cases "n < 10")
    case True
    then have "n div 10 = 0" "nat n < 10" "nat n mod 10 = nat n" using n by simp_all
    with 1 c show ?thesis
      by (simp add: digits_int.simps [of n] digits_int.simps [of 0] decimal.simps [of "nat n"])
  next
    case False
    then have "\<not> nat n < 10" "0 < n div 10" by simp_all
    with 1 n c show ?thesis
      by (simp add: digits_int.simps [of n] decimal.simps [of "nat n"])
  qed
qed

lemma digits_u64_decimal: "0 < n \<Longrightarrow> digits_u64 n buf = buf @ rev (decimal (unat n))"
proof (induction n buf rule: digits_u64.induct)
  case (1 n buf)
  have c: "char_of (48 + uint (n mod 10)) = (char_of (48 + unat n mod 10) :: char)"
    using digit_char_int [of "uint n"] by (simp add: uint_mod_distrib)
  have z: "unat (n div 10) = unat n div 10" by (simp add: unat_div_distrib)
  show ?case
  proof (cases "unat n < 10")
    case True
    then have "unat (n div 10) = 0" using z by simp
    then have "n div 10 = 0" by (simp only: unat_eq_0)
    with True 1 c show ?thesis
      by (simp add: digits_u64.simps [of n] digits_u64.simps [of 0] decimal.simps [of "unat n"])
  next
    case False
    then have "0 < unat (n div 10)" unfolding z by simp
    then have p: "0 < n div 10" by (metis unat_gt_0 word_greater_zero_iff)
    have "digits_u64 n buf = digits_u64 (n div 10) (buf @ [char_of (48 + uint (n mod 10))])"
      using "1.prems" by (simp only: digits_u64.simps [of n] if_True)
    also have "\<dots> = (buf @ [char_of (48 + uint (n mod 10))]) @ rev (decimal (unat (n div 10)))"
      by (rule "1.IH" [OF "1.prems" p])
    finally show ?thesis using False by (simp add: decimal.simps [of "unat n"] c z)
  qed
qed

lemma decimal_0: "decimal 0 = ''0''"
  by code_simp

lemma put_u_decimal: "put_u w s = put_string (decimal (unat w)) s"
proof (cases "w = 0")
  case True
  then show ?thesis by (simp add: put_u_def decimal_0)
next
  case False
  then show ?thesis
    by (simp add: put_u_def put_string_def digits_u64_decimal word_greater_zero_iff)
qed

lemma put_d_render: "put_d w s = put_string (render_d w) s"
proof -
  have m: "sint w = - (2 ^ 31) \<Longrightarrow> sint (- w) = - (2 ^ 31)"
    by (simp add: sint_word_minus)
  have n: "sint w < 0 \<Longrightarrow> sint w \<noteq> - (2 ^ 31) \<Longrightarrow> sint (- w) = - sint w"
    using sint_greater_eq [of w] sint_less [of w]
    by (simp add: sint_word_minus signed_take_bit_int_eq_self)
  show ?thesis
    using m n
    by (auto simp: put_d_def render_d_def digits_int.simps [of "- 2147483648"] digits_int_decimal
        put_string_def decimal_0 Let_def)
qed

lemma put_x_render: "put_x w s = put_string (render_x w) s"
  by (simp add: put_x_def render_x_def put_string_def fold_map comp_def Let_def)

lemma printf_render: "printf fmt args s = map_sum id (\<lambda>cs. put_string cs s) (render fmt args)"
proof (induction fmt args s rule: printf.induct)
  case (2 c fmt args s)
  then show ?case
    by (cases fmt; cases args)
      (auto simp: sum.map_comp comp_def id_def put_u_decimal put_d_render put_x_render
         split: va_arg.splits)
qed simp

lemma decimal_value_snoc: "decimal_value (cs @ [c]) = 10 * decimal_value cs + (of_char c - 48)"
  by (simp add: decimal_value_def)

lemma of_char_digit: "k < 10 \<Longrightarrow> of_char (char_of (48 + k) :: char) - 48 = (k :: nat)"
  by (simp add: of_char_of)

lemma decimal_value_decimal: "decimal_value (decimal n) = n"
proof (induction n rule: decimal.induct)
  case (1 n)
  show ?case
  proof (cases "n < 10")
    case True
    then show ?thesis by (simp add: decimal.simps decimal_value_def of_char_digit)
  next
    case False
    with 1 show ?thesis
      by (simp add: decimal.simps [of n] decimal_value_snoc of_char_digit)
  qed
qed

lemma length_decimal: "n < 10 ^ Suc k \<Longrightarrow> length (decimal n) \<le> Suc k"
proof (induction k arbitrary: n)
  case 0
  then show ?case by (simp add: decimal.simps [of n])
next
  case (Suc k)
  then have "n div 10 < 10 ^ Suc k" by (simp add: less_mult_imp_div_less)
  with Suc.IH show ?case by (simp add: decimal.simps [of n])
qed

text \<open>The digits of a 64-bit number fit \<open>char buf[21]\<close>, those of an \<open>int\<close> fit \<open>char buf[16]\<close>.\<close>

lemma digits_u64_fits: "length (digits_u64 w []) \<le> 20"
proof (cases "w = 0")
  case False
  have "unat w < 10 ^ Suc 19" using unat_u64_less [of w] by simp
  with False show ?thesis
    using length_decimal [of "unat w" 19]
    by (simp add: digits_u64_decimal word_greater_zero_iff)
qed (simp add: digits_u64.simps)

lemma digits_int_fits: "n < 2 ^ 31 \<Longrightarrow> length (digits_int n []) \<le> 10"
proof (cases "0 < n")
  case True
  assume "n < 2 ^ 31"
  then have "nat n < 10 ^ Suc 9" by simp
  with True show ?thesis
    using length_decimal [of "nat n" 9] by (simp add: digits_int_decimal)
qed (simp add: digits_int.simps)

lemma strcmp_eq_0: "strcmp a b = 0 \<longleftrightarrow> a = b" if "CHR 0x00 \<notin> set a" "CHR 0x00 \<notin> set b"
  using that
proof (induction a b rule: strcmp.induct)
  case (1 c s1 d s2)
  then show ?case by (auto simp: of_char_eq_iff)
next
  case (2 d s2)
  then have "d \<noteq> CHR 0x00" by auto
  then have "(of_char d :: int) \<noteq> of_char CHR 0x00" by (simp only: of_char_eq_iff) simp
  then show ?case by simp
next
  case (3 c s1)
  then have "c \<noteq> CHR 0x00" by auto
  then have "(of_char c :: int) \<noteq> of_char CHR 0x00" by (simp only: of_char_eq_iff) simp
  then show ?case by simp
qed simp

end
