(* ===== verification/BitArray.thy ===== *)
theory BitArray
  imports Prelude
begin

text \<open>
  The interface of an allocation bitmap: pages (pmm.c) and mapping-window slots (kernel_apis.c)
  are tracked the same way, by a test, a mark and a clear operation on the first \<open>limit\<close>
  positions.  What the clients rely on is how the set of free positions changes.
\<close>

locale bit_array =
  fixes used :: "nat \<Rightarrow> 's \<Rightarrow> bool"
    and mark :: "nat \<Rightarrow> 's \<Rightarrow> 's"
    and clear :: "nat \<Rightarrow> 's \<Rightarrow> 's"
    and limit :: nat
  assumes used_mark: "p < limit \<Longrightarrow> q < limit \<Longrightarrow> used q (mark p s) \<longleftrightarrow> q = p \<or> used q s"
    and used_clear: "p < limit \<Longrightarrow> q < limit \<Longrightarrow> used q (clear p s) \<longleftrightarrow> q \<noteq> p \<and> used q s"
begin

definition free_set :: "'s \<Rightarrow> nat set" where
  "free_set s = {p. p < limit \<and> \<not> used p s}"

lemma free_set_iff: "p \<in> free_set s \<longleftrightarrow> p < limit \<and> \<not> used p s"
  by (simp add: free_set_def)

lemma finite_free_set [simp]: "finite (free_set s)"
  by (rule finite_subset [of _ "{..<limit}"]) (auto simp: free_set_def)

lemma card_free_set: "card (free_set s) \<le> limit"
  using card_mono [of "{..<limit}" "free_set s"] by (auto simp: free_set_def)

lemma free_set_mark: "p < limit \<Longrightarrow> free_set (mark p s) = free_set s - {p}"
  by (auto simp: free_set_def used_mark)

lemma free_set_clear: "p < limit \<Longrightarrow> free_set (clear p s) = insert p (free_set s)"
  by (auto simp: free_set_def used_clear)

lemma card_mark: "p \<in> free_set s \<Longrightarrow> card (free_set (mark p s)) = card (free_set s) - 1"
  by (simp add: free_set_iff free_set_mark card_Diff_singleton)

lemma card_clear: "p < limit \<Longrightarrow> used p s \<Longrightarrow> card (free_set (clear p s)) = Suc (card (free_set s))"
  by (simp add: free_set_clear free_set_iff)

text \<open>Marking or clearing a run of positions one after the other.\<close>

lemma free_set_mark_range:
  "a + n \<le> limit \<Longrightarrow> free_set (for_up 0 n (\<lambda>i. mark (a + i)) s) = free_set s - {a..<a + n}"
proof (induction n)
  case (Suc n)
  then have IH: "free_set (for_up 0 n (\<lambda>i. mark (a + i)) s) = free_set s - {a..<a + n}" and n: "a + n < limit"
    by simp_all
  have "free_set (for_up 0 (Suc n) (\<lambda>i. mark (a + i)) s) = free_set s - {a..<a + n} - {a + n}"
    unfolding for_up_last [OF le0] free_set_mark [OF n] IH ..
  then show ?case by (auto simp: atLeastLessThanSuc)
qed simp

lemma free_set_clear_range:
  "a + n \<le> limit \<Longrightarrow> free_set (for_up 0 n (\<lambda>i. clear (a + i)) s) = free_set s \<union> {a..<a + n}"
proof (induction n)
  case (Suc n)
  then have IH: "free_set (for_up 0 n (\<lambda>i. clear (a + i)) s) = free_set s \<union> {a..<a + n}" and n: "a + n < limit"
    by simp_all
  have "free_set (for_up 0 (Suc n) (\<lambda>i. clear (a + i)) s) = insert (a + n) (free_set s \<union> {a..<a + n})"
    unfolding for_up_last [OF le0] free_set_clear [OF n] IH ..
  then show ?case by (simp add: atLeastLessThanSuc)
qed simp

text \<open>A first-fit search over the positions finds the least free one.\<close>

lemma scan_free:
  "scan_up a b (\<lambda>p. \<not> used p s) = Some p \<Longrightarrow> b \<le> limit \<Longrightarrow>
    p \<in> free_set s \<and> a \<le> p \<and> p < b \<and> (\<forall>q \<in> free_set s. a \<le> q \<longrightarrow> p \<le> q)"
  by (auto simp: scan_up_Some free_set_iff not_less [symmetric])

lemma scan_none:
  "b \<le> limit \<Longrightarrow> scan_up a b (\<lambda>p. \<not> used p s) = None \<longleftrightarrow> free_set s \<inter> {a..<b} = {}"
  unfolding scan_up_None free_set_def by (auto simp: set_eq_iff)

end

end
