(* ===== verification/Pmm.thy ===== *)
theory Pmm
  imports Printf BitArray
begin

text \<open>
  The physical memory manager, \<open>kernel/mm/pmm.c\<close>: one bit per 4 KiB page of the first 64 GiB,
  set when the page is in use, and a counter of free pages.  The abstract view is the set of free
  page frames; every operation is characterised by what it does to that set, and \<open>pmm_inv\<close> says
  that the counter is its cardinality.
\<close>

section \<open>State and operations\<close>

record pmm = screen +
  bitmap :: "u64 \<Rightarrow> u8"
  total_pages :: u64
  free_pages :: u64

definition PMM_PAGE_SIZE :: u64 where "PMM_PAGE_SIZE = 4096"
definition MAX_PHYSICAL_MEMORY :: u64 where "MAX_PHYSICAL_MEMORY = 64 * 1024 * 1024 * 1024"
definition MAX_PAGES :: u64 where "MAX_PAGES = MAX_PHYSICAL_MEMORY div PMM_PAGE_SIZE"
definition BITMAP_SIZE :: u64 where "BITMAP_SIZE = (MAX_PAGES + 7) div 8"

lemma MAX_PAGES_val: "MAX_PAGES = 0x1000000"
  by (simp add: MAX_PAGES_def MAX_PHYSICAL_MEMORY_def PMM_PAGE_SIZE_def)

lemma BITMAP_SIZE_val: "BITMAP_SIZE = 0x200000"
  by (simp add: BITMAP_SIZE_def MAX_PAGES_val)

lemmas pmm_consts = PMM_PAGE_SIZE_def MAX_PAGES_val BITMAP_SIZE_val

definition set_page :: "u64 \<Rightarrow> 'a pmm_scheme \<Rightarrow> 'a pmm_scheme" where
  "set_page page s = s\<lparr>bitmap := (bitmap s)
     (page div 8 := byte_set (bitmap s (page div 8)) (unat (page mod 8)))\<rparr>"

definition clear_page :: "u64 \<Rightarrow> 'a pmm_scheme \<Rightarrow> 'a pmm_scheme" where
  "clear_page page s = s\<lparr>bitmap := (bitmap s)
     (page div 8 := byte_clear (bitmap s (page div 8)) (unat (page mod 8)))\<rparr>"

definition page_used :: "u64 \<Rightarrow> 'a pmm_scheme \<Rightarrow> bool" where
  "page_used page s = byte_test (bitmap s (page div 8)) (unat (page mod 8))"

definition pmm_init :: "'a pmm_scheme \<Rightarrow> 'a pmm_scheme" where
  "pmm_init s =
     (let s = put_string (''[PMM] Initializing Physical Memory Manager...'' @ [CHR 0x0A]) s;
          s = for_up 0 (unat BITMAP_SIZE)
                (\<lambda>i s. s\<lparr>bitmap := (bitmap s)(of_nat i := 0xFF)\<rparr>) s;
          s = s\<lparr>total_pages := MAX_PAGES, free_pages := 0\<rparr>
      in put_string (''[PMM] Physical Memory Manager initialized.'' @ [CHR 0x0A]) s)"

text \<open>
  The loop \<open>for (address = start; address < end; address += PMM_PAGE_SIZE)\<close> of the two region
  operations, on 64-bit addresses.  The break at \<open>MAX_PAGES\<close> comes before the address can wrap.
\<close>

function region_loop :: "(u64 \<Rightarrow> 's \<Rightarrow> 's) \<Rightarrow> u64 \<Rightarrow> u64 \<Rightarrow> 's \<Rightarrow> 's" where
  "region_loop body address stop s =
     (if address < stop then
        (let page = address div PMM_PAGE_SIZE in
         if page \<ge> MAX_PAGES then s
         else region_loop body (address + PMM_PAGE_SIZE) stop (body page s))
      else s)"
  by pat_completeness auto
termination
proof (relation "measure (\<lambda>(body, address, stop, s). 2 ^ 36 - unat address)", goal_cases)
  case (2 body address stop s page)
  then have "unat address div 4096 < 0x1000000"
    by (simp add: pmm_consts word_less_nat_alt unat_div_distrib not_le)
  then have "unat address < 0x1000000000" by (simp add: div_less_iff_less_mult)
  moreover from this have "unat (address + 4096) = unat address + 4096"
    by (simp add: unat_plus_nowrap)
  ultimately show ?case by (simp add: pmm_consts)
qed simp

declare region_loop.simps [simp del]

definition add_body :: "u64 \<Rightarrow> 'a pmm_scheme \<Rightarrow> 'a pmm_scheme" where
  "add_body page s =
     (if page_used page s
      then (let s = clear_page page s in s\<lparr>free_pages := free_pages s + 1\<rparr>) else s)"

definition pmm_add_region :: "u64 \<Rightarrow> u64 \<Rightarrow> 'a pmm_scheme \<Rightarrow> 'a pmm_scheme" where
  "pmm_add_region base len s =
     (let start = (base + PMM_PAGE_SIZE - 1) AND NOT (PMM_PAGE_SIZE - 1);
          stop = (base + len) AND NOT (PMM_PAGE_SIZE - 1)
      in if stop \<le> start then s else region_loop add_body start stop s)"

definition reserve_body :: "u64 \<Rightarrow> 'a pmm_scheme \<Rightarrow> 'a pmm_scheme" where
  "reserve_body page s =
     (if \<not> page_used page s
      then (let s = set_page page s in s\<lparr>free_pages := free_pages s - 1\<rparr>) else s)"

definition pmm_reserve_region :: "u64 \<Rightarrow> u64 \<Rightarrow> 'a pmm_scheme \<Rightarrow> 'a pmm_scheme" where
  "pmm_reserve_region base len s =
     (let start = base AND NOT (PMM_PAGE_SIZE - 1);
          stop = (base + len + PMM_PAGE_SIZE - 1) AND NOT (PMM_PAGE_SIZE - 1)
      in if stop \<le> start then s else region_loop reserve_body start stop s)"

definition pmm_alloc_page :: "'a pmm_scheme \<Rightarrow> u64 \<times> 'a pmm_scheme" where
  "pmm_alloc_page s =
     (case scan_up 1 (unat MAX_PAGES) (\<lambda>page. \<not> page_used (of_nat page) s) of
        Some page \<Rightarrow>
          (let s = set_page (of_nat page) s;
               s = s\<lparr>free_pages := free_pages s - 1\<rparr>
           in (of_nat page * PMM_PAGE_SIZE, s))
      | None \<Rightarrow> (0, s))"

definition pmm_free_page :: "u64 \<Rightarrow> 'a pmm_scheme \<Rightarrow> 'a pmm_scheme" where
  "pmm_free_page address s =
     (if address mod PMM_PAGE_SIZE \<noteq> 0 then s
      else
        (let page = address div PMM_PAGE_SIZE in
         if page \<ge> MAX_PAGES then s
         else if \<not> page_used page s then s
         else (let s = clear_page page s in s\<lparr>free_pages := free_pages s + 1\<rparr>)))"

definition pmm_get_free_pages :: "'a pmm_scheme \<Rightarrow> u64" where
  "pmm_get_free_pages s = free_pages s"

definition pmm_get_total_pages :: "'a pmm_scheme \<Rightarrow> u64" where
  "pmm_get_total_pages s = total_pages s"

definition pmm_alloc_page_low :: "'a pmm_scheme \<Rightarrow> u64 \<times> 'a pmm_scheme" where
  "pmm_alloc_page_low s =
     (case scan_up 1 2048 (\<lambda>page. \<not> page_used (of_nat page) s) of
        Some page \<Rightarrow>
          (let s = set_page (of_nat page) s;
               s = s\<lparr>free_pages := free_pages s - 1\<rparr>
           in (of_nat page * PMM_PAGE_SIZE, s))
      | None \<Rightarrow> (0, s))"

section \<open>The bitmap is an allocation bitmap\<close>

lemma page_used_bit: "page_used page s = bit (bitmap s (page div 8)) (unat page mod 8)"
  by (simp add: page_used_def byte_test_bit unat_mod_distrib)

lemma same_page: "p div 8 = q div 8 \<and> unat p mod 8 = unat q mod 8 \<longleftrightarrow> p = (q :: u64)"
proof
  assume a: "p div 8 = q div 8 \<and> unat p mod 8 = unat q mod 8"
  then have "unat (p div 8) = unat (q div 8)" by simp
  then have "unat p div 8 = unat q div 8" by (simp add: unat_div_distrib)
  with a show "p = q" by (metis div_mult_mod_eq word_unat_eq_iff)
qed simp

lemma page_used_set_page: "page_used q (set_page p s) \<longleftrightarrow> q = p \<or> page_used q s"
proof (cases "q div 8 = p div 8")
  case True
  then show ?thesis using same_page [of q p]
    by (auto simp: page_used_bit set_page_def byte_set_bit unat_mod_distrib)
next
  case False
  then show ?thesis by (auto simp: page_used_bit set_page_def)
qed

lemma page_used_clear_page: "page_used q (clear_page p s) \<longleftrightarrow> q \<noteq> p \<and> page_used q s"
proof (cases "q div 8 = p div 8")
  case True
  then show ?thesis using same_page [of q p]
    by (auto simp: page_used_bit clear_page_def byte_clear_bit unat_mod_distrib)
next
  case False
  then show ?thesis by (auto simp: page_used_bit clear_page_def)
qed

lemma page_used_counter [simp]:
  "page_used p (s\<lparr>free_pages := n\<rparr>) = page_used p s"
  "page_used p (s\<lparr>total_pages := n\<rparr>) = page_used p s"
  by (simp_all add: page_used_def)

lemma page_of_nat [simp]:
  "p < 16777216 \<Longrightarrow> unat (of_nat p :: u64) = p"
  by (simp add: unat_of_nat take_bit_nat_eq_self_iff)

interpretation frames: bit_array
  "\<lambda>p. page_used (of_nat p)" "\<lambda>p. set_page (of_nat p)" "\<lambda>p. clear_page (of_nat p)" 16777216
proof unfold_locales
  fix p q :: nat and s :: "'a pmm_scheme"
  assume "p < 16777216" "q < 16777216"
  then have "(of_nat q :: u64) = of_nat p \<longleftrightarrow> q = p" by (metis page_of_nat)
  then show "page_used (of_nat q) (set_page (of_nat p) s) \<longleftrightarrow> q = p \<or> page_used (of_nat q) s"
    and "page_used (of_nat q) (clear_page (of_nat p) s) \<longleftrightarrow> q \<noteq> p \<and> page_used (of_nat q) s"
    by (simp_all add: page_used_set_page page_used_clear_page)
qed

section \<open>The set of free frames\<close>

text \<open>The abstract state: the numbers of the page frames whose bit is clear.\<close>

definition free_frames :: "'a pmm_scheme \<Rightarrow> nat set" where
  "free_frames s = {p. p < 16777216 \<and> \<not> page_used (of_nat p) s}"

definition pmm_inv :: "'a pmm_scheme \<Rightarrow> bool" where
  "pmm_inv s \<longleftrightarrow> unat (free_pages s) = card (free_frames s)"

lemma free_frames_eq: "free_frames s = frames.free_set s"
  by (simp add: free_frames_def frames.free_set_def)

lemma finite_free_frames [simp]: "finite (free_frames s)"
  unfolding free_frames_eq by (rule frames.finite_free_set)

lemma card_free_frames: "card (free_frames s) \<le> 16777216"
  unfolding free_frames_eq by (rule frames.card_free_set)

lemma free_frames_counter [simp]:
  "free_frames (s\<lparr>free_pages := n\<rparr>) = free_frames s"
  "free_frames (s\<lparr>total_pages := n\<rparr>) = free_frames s"
  by (simp_all add: free_frames_def)

lemma page_lt_iff: "page < MAX_PAGES \<longleftrightarrow> unat page < 16777216"
  by (simp add: pmm_consts word_less_nat_alt)

lemma free_frames_set_page: "page < MAX_PAGES \<Longrightarrow> free_frames (set_page page s) = free_frames s - {unat page}"
  using frames.free_set_mark [of "unat page" s] by (simp add: free_frames_eq page_lt_iff)

lemma free_frames_clear_page: "page < MAX_PAGES \<Longrightarrow> free_frames (clear_page page s) = insert (unat page) (free_frames s)"
  using frames.free_set_clear [of "unat page" s] by (simp add: free_frames_eq page_lt_iff)

lemma free_frames_iff: "page < MAX_PAGES \<Longrightarrow> unat page \<in> free_frames s \<longleftrightarrow> \<not> page_used page s"
  by (simp add: free_frames_def page_lt_iff)

lemma pmm_fields [simp]:
  "free_pages (set_page p s) = free_pages s"
  "free_pages (clear_page p s) = free_pages s"
  "total_pages (set_page p s) = total_pages s"
  "total_pages (clear_page p s) = total_pages s"
  by (simp_all add: set_page_def clear_page_def)

text \<open>Taking a free frame and giving one back keep the counter exact.\<close>

lemma take_frame:
  assumes "page < MAX_PAGES" "\<not> page_used page s"
  defines "t \<equiv> (set_page page s)\<lparr>free_pages := free_pages s - 1\<rparr>"
  shows "free_frames t = free_frames s - {unat page}" and "pmm_inv s \<Longrightarrow> pmm_inv t"
proof -
  show ff: "free_frames t = free_frames s - {unat page}"
    by (simp add: t_def free_frames_set_page assms)
  have mem: "unat page \<in> free_frames s" by (simp add: free_frames_iff assms)
  then have pos: "0 < card (free_frames s)" by (auto simp: card_gt_0_iff)
  assume inv: "pmm_inv s"
  then have "1 \<le> free_pages s" using pos by (simp add: pmm_inv_def word_le_nat_alt)
  then have "unat (free_pages s - 1) = unat (free_pages s) - 1" by (simp add: unat_sub)
  with inv show "pmm_inv t" unfolding pmm_inv_def ff using mem
    by (simp add: t_def card_Diff_singleton)
qed

lemma give_frame:
  assumes "page < MAX_PAGES" "page_used page s"
  defines "t \<equiv> (clear_page page s)\<lparr>free_pages := free_pages s + 1\<rparr>"
  shows "free_frames t = insert (unat page) (free_frames s)" and "pmm_inv s \<Longrightarrow> pmm_inv t"
proof -
  show ff: "free_frames t = insert (unat page) (free_frames s)"
    by (simp add: t_def free_frames_clear_page assms)
  have nmem: "unat page \<notin> free_frames s" by (simp add: free_frames_iff assms)
  assume inv: "pmm_inv s"
  then have "unat (free_pages s) + 1 < 2 ^ LENGTH(64)"
    using card_free_frames [of s] by (simp add: pmm_inv_def)
  then have "unat (free_pages s + 1) = unat (free_pages s) + 1" by (simp add: unat_plus_nowrap)
  with inv nmem show "pmm_inv t" unfolding pmm_inv_def ff by (simp add: t_def)
qed

section \<open>Regions\<close>

text \<open>
  The loop visits the frames from \<open>a\<close> up to \<open>b\<close> that the bitmap covers, in order.  A relation
  that each visit advances by one frame therefore holds after the loop.
\<close>

lemma region_loop_rule:
  assumes "unat address = 4096 * a" and "unat stop = 4096 * b"
    and "I a s"
    and step: "\<And>n page t. a \<le> n \<Longrightarrow> n < b \<Longrightarrow> unat page = n \<Longrightarrow> page < MAX_PAGES \<Longrightarrow> I n t \<Longrightarrow> I (Suc n) (body page t)"
  shows "I (max a (min b 16777216)) (region_loop body address stop s)"
  using assms
proof (induction body address stop s arbitrary: a rule: region_loop.induct)
  case (1 body address stop s)
  note eq = region_loop.simps [of body address stop s]
  have page: "unat (address div PMM_PAGE_SIZE) = a"
    using "1.prems"(1) by (simp add: PMM_PAGE_SIZE_def unat_div_distrib)
  have lt: "address < stop \<longleftrightarrow> a < b"
    using "1.prems"(1,2) by (simp add: word_less_nat_alt)
  show ?case
  proof (cases "a < b \<and> a < 16777216")
    case False
    then have "region_loop body address stop s = s"
      using eq lt page by (auto simp: Let_def pmm_consts word_le_nat_alt)
    moreover from False have "max a (min b 16777216) = a" by arith
    ultimately show ?thesis using "1.prems"(3) by simp
  next
    case True
    then have pl: "address div PMM_PAGE_SIZE < MAX_PAGES" using page by (simp add: page_lt_iff)
    have nxt: "unat (address + PMM_PAGE_SIZE) = 4096 * Suc a"
      using True "1.prems"(1) by (simp add: PMM_PAGE_SIZE_def unat_plus_nowrap)
    have "I (max (Suc a) (min b 16777216))
        (region_loop body (address + PMM_PAGE_SIZE) stop (body (address div PMM_PAGE_SIZE) s))"
    proof (rule "1.IH" [OF _ refl])
      show "address < stop" using True lt by simp
      show "\<not> MAX_PAGES \<le> address div PMM_PAGE_SIZE" using pl by simp
      show "I (Suc a) (body (address div PMM_PAGE_SIZE) s)"
        using True page pl "1.prems"(3) by (intro "1.prems"(4)) simp_all
    qed (use nxt "1.prems" in auto)
    moreover have "region_loop body address stop s
        = region_loop body (address + PMM_PAGE_SIZE) stop (body (address div PMM_PAGE_SIZE) s)"
      using eq True lt pl [folded not_le] by (simp add: Let_def)
    moreover have "max (Suc a) (min b 16777216) = max a (min b 16777216)" using True by auto
    ultimately show ?thesis by simp
  qed
qed

lemma add_body_effect:
  assumes "page < MAX_PAGES"
  shows "free_frames (add_body page s) = insert (unat page) (free_frames s)"
    and "pmm_inv s \<Longrightarrow> pmm_inv (add_body page s)"
  using assms give_frame [of page s] free_frames_iff [of page s]
  by (auto simp: add_body_def Let_def)

lemma reserve_body_effect:
  assumes "page < MAX_PAGES"
  shows "free_frames (reserve_body page s) = free_frames s - {unat page}"
    and "pmm_inv s \<Longrightarrow> pmm_inv (reserve_body page s)"
  using assms take_frame [of page s] free_frames_iff [of page s]
  by (auto simp: reserve_body_def Let_def)

lemma clip_interval: "{a..<max a (min b m)} = {a..<b} \<inter> {..<m}" for a b m :: nat
  by auto

lemma add_loop_effect:
  fixes s :: "'a pmm_scheme"
  assumes "unat address = 4096 * a" and "unat stop = 4096 * b"
  shows "free_frames (region_loop add_body address stop s) = free_frames s \<union> ({a..<b} \<inter> {..<16777216})"
    and "pmm_inv s \<Longrightarrow> pmm_inv (region_loop add_body address stop s)"
proof -
  have "free_frames (region_loop add_body address stop s)
      = free_frames s \<union> {a..<max a (min b 16777216)}"
  proof (rule region_loop_rule [where I = "\<lambda>n t. free_frames t = free_frames s \<union> {a..<n}", OF assms])
    fix n page and t :: "'a pmm_scheme"
    assume "a \<le> n" "unat page = n" "page < MAX_PAGES" "free_frames t = free_frames s \<union> {a..<n}"
    then show "free_frames (add_body page t) = free_frames s \<union> {a..<Suc n}"
      by (simp add: add_body_effect atLeastLessThanSuc)
  qed simp
  then show "free_frames (region_loop add_body address stop s)
      = free_frames s \<union> ({a..<b} \<inter> {..<16777216})" by (simp only: clip_interval)
  show "pmm_inv s \<Longrightarrow> pmm_inv (region_loop add_body address stop s)"
    by (rule region_loop_rule [where I = "\<lambda>n. pmm_inv", OF assms]) (auto simp: add_body_effect)
qed

lemma reserve_loop_effect:
  fixes s :: "'a pmm_scheme"
  assumes "unat address = 4096 * a" and "unat stop = 4096 * b"
  shows "free_frames (region_loop reserve_body address stop s) = free_frames s - ({a..<b} \<inter> {..<16777216})"
    and "pmm_inv s \<Longrightarrow> pmm_inv (region_loop reserve_body address stop s)"
proof -
  have "free_frames (region_loop reserve_body address stop s)
      = free_frames s - {a..<max a (min b 16777216)}"
  proof (rule region_loop_rule [where I = "\<lambda>n t. free_frames t = free_frames s - {a..<n}", OF assms])
    fix n page and t :: "'a pmm_scheme"
    assume "a \<le> n" "unat page = n" "page < MAX_PAGES" "free_frames t = free_frames s - {a..<n}"
    then have "free_frames (reserve_body page t) = free_frames s - {a..<n} - {n}"
      by (simp only: reserve_body_effect)
    with \<open>a \<le> n\<close> show "free_frames (reserve_body page t) = free_frames s - {a..<Suc n}"
      by (auto simp: atLeastLessThanSuc)
  qed simp
  then show "free_frames (region_loop reserve_body address stop s)
      = free_frames s - ({a..<b} \<inter> {..<16777216})" by (simp only: clip_interval)
  show "pmm_inv s \<Longrightarrow> pmm_inv (region_loop reserve_body address stop s)"
    by (rule region_loop_rule [where I = "\<lambda>n. pmm_inv", OF assms]) (auto simp: reserve_body_effect)
qed

lemma ceil_page_le: "(u + 4095) div 4096 \<le> p \<longleftrightarrow> u \<le> 4096 * (p :: nat)"
  using div_less_iff_less_mult [of 4096 "u + 4095" "Suc p"] by (simp add: less_Suc_eq_le mult.commute)

lemma page_less_floor: "p < u div 4096 \<longleftrightarrow> 4096 * (p + 1) \<le> (u :: nat)"
  using less_eq_div_iff_mult_less_eq [of 4096 "Suc p" u] by (simp add: Suc_le_eq algebra_simps)

lemma page_mask: "unat ((x :: u64) AND NOT (PMM_PAGE_SIZE - 1)) = 4096 * (unat x div 4096)"
  using unat_and_not_mask [of x 12] by (simp add: PMM_PAGE_SIZE_def mask_numeral)

text \<open>Rounding up: the frames that start at or after a byte address.\<close>

lemma page_round_up:
  assumes "unat x + 4095 < 2 ^ 64"
  shows "unat ((x + PMM_PAGE_SIZE - 1) AND NOT (PMM_PAGE_SIZE - 1)) = 4096 * ((unat x + 4095) div 4096)"
proof -
  have e: "x + PMM_PAGE_SIZE - 1 = x + 4095" by (simp add: PMM_PAGE_SIZE_def)
  have u: "unat (x + 4095) = unat x + 4095" using assms by (simp add: unat_plus_nowrap)
  show ?thesis unfolding e page_mask u ..
qed

lemma pmm_add_region_frames:
  assumes "unat base + 4095 < 2 ^ 64" and "unat base + unat len < 2 ^ 64"
  shows "free_frames (pmm_add_region base len s)
    = free_frames s \<union> {p. p < 16777216 \<and> unat base \<le> 4096 * p \<and> 4096 * (p + 1) \<le> unat base + unat len}"
proof -
  let ?start = "(base + PMM_PAGE_SIZE - 1) AND NOT (PMM_PAGE_SIZE - 1)"
  let ?stop = "(base + len) AND NOT (PMM_PAGE_SIZE - 1)"
  let ?a = "(unat base + 4095) div 4096" and ?b = "(unat base + unat len) div 4096"
  have a: "unat ?start = 4096 * ?a" using page_round_up [OF assms(1)] .
  have b: "unat ?stop = 4096 * ?b" using assms(2) by (simp add: page_mask unat_plus_nowrap)
  have set: "{p. p < 16777216 \<and> unat base \<le> 4096 * p \<and> 4096 * (p + 1) \<le> unat base + unat len}
      = {?a..<?b} \<inter> {..<16777216}"
  proof -
    have iff: "?a \<le> p \<longleftrightarrow> unat base \<le> 4096 * p"
        "p < ?b \<longleftrightarrow> 4096 * (p + 1) \<le> unat base + unat len" for p
      by (rule ceil_page_le, rule page_less_floor)
    show ?thesis
      by (rule set_eqI)
        (simp only: mem_Collect_eq Int_iff atLeastLessThan_iff lessThan_iff iff conj_ac)
  qed
  show ?thesis
  proof (cases "?stop \<le> ?start")
    case True
    then have "?b \<le> ?a" unfolding word_le_nat_alt a b by simp
    with True show ?thesis unfolding set by (simp add: pmm_add_region_def Let_def)
  next
    case False
    then show ?thesis unfolding set using add_loop_effect(1) [OF a b]
      by (simp add: pmm_add_region_def Let_def)
  qed
qed

lemma pmm_reserve_region_frames:
  assumes "unat base + unat len + 4095 < 2 ^ 64"
  shows "free_frames (pmm_reserve_region base len s)
    = free_frames s - {p. unat base < 4096 * (p + 1) \<and> 4096 * p < unat base + unat len}"
proof -
  let ?start = "base AND NOT (PMM_PAGE_SIZE - 1)"
  let ?stop = "(base + len + PMM_PAGE_SIZE - 1) AND NOT (PMM_PAGE_SIZE - 1)"
  let ?a = "unat base div 4096" and ?b = "(unat base + unat len + 4095) div 4096"
  have l: "unat (base + len) = unat base + unat len" using assms by (simp add: unat_plus_nowrap)
  have a: "unat ?start = 4096 * ?a" by (rule page_mask)
  have b: "unat ?stop = 4096 * ?b" using page_round_up [of "base + len"] assms by (simp add: l)
  have set: "{p. unat base < 4096 * (p + 1) \<and> 4096 * p < unat base + unat len} = {?a..<?b}"
  proof (rule set_eqI)
    fix p
    have "?a \<le> p \<longleftrightarrow> unat base < 4096 * (p + 1)"
      using page_less_floor [of p "unat base"] by linarith
    moreover have "p < ?b \<longleftrightarrow> 4096 * p < unat base + unat len"
      using ceil_page_le [of "unat base + unat len" p] by linarith
    ultimately show "p \<in> {p. unat base < 4096 * (p + 1) \<and> 4096 * p < unat base + unat len}
        \<longleftrightarrow> p \<in> {?a..<?b}" by simp
  qed
  have cut: "free_frames s - ({?a..<?b} \<inter> {..<16777216}) = free_frames s - {?a..<?b}"
    by (auto simp: free_frames_def)
  show ?thesis
  proof (cases "?stop \<le> ?start")
    case True
    then have "?b \<le> ?a" unfolding word_le_nat_alt a b by simp
    with True show ?thesis unfolding set by (simp add: pmm_reserve_region_def Let_def)
  next
    case False
    then show ?thesis unfolding set using reserve_loop_effect(1) [OF a b, of s] cut
      by (simp add: pmm_reserve_region_def Let_def)
  qed
qed

lemma aligned_mask: "\<exists>a. unat ((x :: u64) AND NOT (PMM_PAGE_SIZE - 1)) = 4096 * a"
  using page_mask by blast

lemma pmm_add_region_inv: "pmm_inv s \<Longrightarrow> pmm_inv (pmm_add_region base len s)"
  using aligned_mask [of "base + PMM_PAGE_SIZE - 1"] aligned_mask [of "base + len"]
  by (auto simp: pmm_add_region_def Let_def intro: add_loop_effect(2))

lemma pmm_reserve_region_inv: "pmm_inv s \<Longrightarrow> pmm_inv (pmm_reserve_region base len s)"
  using aligned_mask [of base] aligned_mask [of "base + len + PMM_PAGE_SIZE - 1"]
  by (auto simp: pmm_reserve_region_def Let_def intro: reserve_loop_effect(2))

section \<open>Allocation\<close>

text \<open>What both allocators do: take the least free frame of \<open>[1, hi)\<close>.\<close>

lemma alloc_effect:
  fixes s :: "'a pmm_scheme"
  assumes "hi \<le> 16777216"
  defines "r \<equiv> (case scan_up 1 hi (\<lambda>page. \<not> page_used (of_nat page) s) of
        Some page \<Rightarrow>
          (let s = set_page (of_nat page) s;
               s = s\<lparr>free_pages := free_pages s - 1\<rparr>
           in (of_nat page * PMM_PAGE_SIZE, s))
      | None \<Rightarrow> (0, s))"
  shows "free_frames s \<inter> {1..<hi} = {} \<Longrightarrow> r = (0, s)"
    and "p \<in> free_frames s \<inter> {1..<hi} \<Longrightarrow> (\<And>q. q \<in> free_frames s \<Longrightarrow> 1 \<le> q \<Longrightarrow> p \<le> q) \<Longrightarrow>
      unat (fst r) = 4096 * p \<and> free_frames (snd r) = free_frames s - {p}"
    and "pmm_inv s \<Longrightarrow> pmm_inv (snd r)"
proof -
  note def = r_def
  show "r = (0, s)" if "free_frames s \<inter> {1..<hi} = {}"
    using frames.scan_none [OF assms(1), of 1 s] that
    by (simp add: def free_frames_eq)
  {
    fix page assume some: "scan_up 1 hi (\<lambda>page. \<not> page_used (of_nat page) s) = Some page"
    note least = frames.scan_free [OF some assms(1)]
    then have lim: "page < 16777216" using assms(1) by (auto simp: frames.free_set_iff)
    then have pm: "(of_nat page :: u64) < MAX_PAGES" by (simp add: page_lt_iff)
    have nu: "\<not> page_used (of_nat page) s" using least by (simp add: frames.free_set_iff)
    have a: "unat (of_nat page * PMM_PAGE_SIZE) = 4096 * page"
      using lim by (simp add: PMM_PAGE_SIZE_def unat_times_nowrap mult.commute)
    have f: "free_frames (snd r) = free_frames s - {page}"
      using take_frame(1) [OF pm nu] lim unfolding def some by (simp add: Let_def)
    have i: "pmm_inv s \<Longrightarrow> pmm_inv (snd r)"
      using take_frame(2) [OF pm nu] unfolding def some by (simp add: Let_def)
    have "unat (fst r) = 4096 * page" using a unfolding def some by (simp add: Let_def)
    note this f i least
  } note found = this
  show "unat (fst r) = 4096 * p \<and> free_frames (snd r) = free_frames s - {p}"
    if p: "p \<in> free_frames s \<inter> {1..<hi}" "\<And>q. q \<in> free_frames s \<Longrightarrow> 1 \<le> q \<Longrightarrow> p \<le> q"
  proof -
    have "scan_up 1 hi (\<lambda>page. \<not> page_used (of_nat page) s) \<noteq> None"
      using frames.scan_none [OF assms(1), of 1 s] p(1) by (auto simp: free_frames_eq)
    then obtain page where some: "scan_up 1 hi (\<lambda>page. \<not> page_used (of_nat page) s) = Some page"
      by blast
    have "page = p" using found(4) [OF some] p by (auto simp: free_frames_eq intro: le_antisym)
    then show ?thesis using found(1,2) [OF some] by simp
  qed
  show "pmm_inv (snd r)" if "pmm_inv s"
    using found(3) that by (cases "scan_up 1 hi (\<lambda>page. \<not> page_used (of_nat page) s)") (auto simp: def)
qed

lemma MAX_PAGES_unat: "unat MAX_PAGES = 16777216"
  by (simp add: MAX_PAGES_val)

lemma pmm_alloc_page_inv: "pmm_inv s \<Longrightarrow> pmm_inv (snd (pmm_alloc_page s))"
  unfolding pmm_alloc_page_def MAX_PAGES_unat by (rule alloc_effect(3)) simp

lemma pmm_alloc_page_low_inv: "pmm_inv s \<Longrightarrow> pmm_inv (snd (pmm_alloc_page_low s))"
  unfolding pmm_alloc_page_low_def by (rule alloc_effect(3)) simp

lemma Min_free:
  assumes "finite (F :: nat set)" "F - {0} \<noteq> {}"
  shows "Min (F - {0}) \<in> F" "1 \<le> Min (F - {0})" "q \<in> F \<Longrightarrow> 1 \<le> q \<Longrightarrow> Min (F - {0}) \<le> q"
  using Min_in [of "F - {0}"] assms by auto

lemma pmm_alloc_page_cases:
  "free_frames s - {0} = {} \<Longrightarrow> pmm_alloc_page s = (0, s)"
  "free_frames s - {0} \<noteq> {} \<Longrightarrow>
    unat (fst (pmm_alloc_page s)) = 4096 * Min (free_frames s - {0})
    \<and> free_frames (snd (pmm_alloc_page s)) = free_frames s - {Min (free_frames s - {0})}"
proof -
  show "pmm_alloc_page s = (0, s)" if "free_frames s - {0} = {}"
    unfolding pmm_alloc_page_def MAX_PAGES_unat using that by (intro alloc_effect(1)) auto
  assume ne: "free_frames s - {0} \<noteq> {}"
  note M = Min_free [OF finite_free_frames ne]
  then have "Min (free_frames s - {0}) < 16777216" by (simp add: free_frames_def)
  with M show "unat (fst (pmm_alloc_page s)) = 4096 * Min (free_frames s - {0})
      \<and> free_frames (snd (pmm_alloc_page s)) = free_frames s - {Min (free_frames s - {0})}"
    unfolding pmm_alloc_page_def MAX_PAGES_unat by (intro alloc_effect(2)) auto
qed

text \<open>The low allocator either refuses, leaving everything as it is, or takes a frame below 8 MiB.\<close>

lemma pmm_alloc_page_low_cases:
  obtains (none) "free_frames s \<inter> {1..<2048} = {}" "pmm_alloc_page_low s = (0, s)"
  | (some) p where "p \<in> free_frames s" "1 \<le> p" "p < 2048"
      "\<And>q. q \<in> free_frames s \<Longrightarrow> 1 \<le> q \<Longrightarrow> p \<le> q"
      "unat (fst (pmm_alloc_page_low s)) = 4096 * p"
      "free_frames (snd (pmm_alloc_page_low s)) = free_frames s - {p}"
proof (cases "free_frames s \<inter> {1..<2048} = {}")
  case True
  then show ?thesis using alloc_effect(1) [of 2048 s] none by (simp add: pmm_alloc_page_low_def)
next
  case False
  then obtain x where x: "x \<in> free_frames s" "1 \<le> x" "x < 2048" by auto
  then have ne: "free_frames s - {0} \<noteq> {}" by auto
  note M = Min_free [OF finite_free_frames ne]
  have lt: "Min (free_frames s - {0}) < 2048" using M(3) x by (meson le_less_trans)
  have "unat (fst (pmm_alloc_page_low s)) = 4096 * Min (free_frames s - {0})
      \<and> free_frames (snd (pmm_alloc_page_low s)) = free_frames s - {Min (free_frames s - {0})}"
    unfolding pmm_alloc_page_low_def using M lt by (intro alloc_effect(2)) auto
  then show ?thesis using M lt by (intro some) auto
qed

section \<open>Freeing and initialising\<close>

lemma pmm_free_page_cases:
  "address mod PMM_PAGE_SIZE \<noteq> 0 \<Longrightarrow> pmm_free_page address s = s"
  "MAX_PAGES \<le> address div PMM_PAGE_SIZE \<Longrightarrow> pmm_free_page address s = s"
  "\<not> page_used (address div PMM_PAGE_SIZE) s \<Longrightarrow> pmm_free_page address s = s"
  by (simp_all add: pmm_free_page_def Let_def)

lemma pmm_free_page_frames:
  assumes "unat address = 4096 * p" "p < 16777216"
  shows "free_frames (pmm_free_page address s) = insert p (free_frames s)"
proof -
  have p: "unat (address div PMM_PAGE_SIZE) = p"
    using assms by (simp add: PMM_PAGE_SIZE_def unat_div_distrib)
  have "unat (address mod PMM_PAGE_SIZE) = 0"
    using assms by (simp add: PMM_PAGE_SIZE_def unat_mod_distrib)
  then have m: "address mod PMM_PAGE_SIZE = 0" by (simp only: unat_eq_0)
  have lt: "address div PMM_PAGE_SIZE < MAX_PAGES" using p assms by (simp add: page_lt_iff)
  show ?thesis
    using give_frame(1) [OF lt, of s] free_frames_iff [OF lt, of s] m lt p
    by (auto simp: pmm_free_page_def Let_def)
qed

lemma pmm_free_page_inv: "pmm_inv s \<Longrightarrow> pmm_inv (pmm_free_page address s)"
  using give_frame(2) [of "address div PMM_PAGE_SIZE" s] by (auto simp: pmm_free_page_def Let_def)

lemma put_string_frame:
  "(\<And>c s. g (putchar c s) = g s) \<Longrightarrow> g (put_string cs s) = g s"
  by (induction cs arbitrary: s) simp_all

lemma scroll_screen_pmm [simp]:
  "bitmap (scroll_screen s) = bitmap s"
  "total_pages (scroll_screen s) = total_pages s"
  "free_pages (scroll_screen s) = free_pages s"
  by (simp_all add: scroll_screen_def set_cell_def Let_def for_up_frame [where g = bitmap]
      for_up_frame [where g = total_pages] for_up_frame [where g = free_pages])

lemma putchar_pmm [simp]:
  "bitmap (putchar c s) = bitmap s"
  "total_pages (putchar c s) = total_pages s"
  "free_pages (putchar c s) = free_pages s"
  by (simp_all add: putchar_def set_cell_def update_cursor_def machine_defs Let_def)

lemma put_string_pmm [simp]:
  "bitmap (put_string cs s) = bitmap s"
  "total_pages (put_string cs s) = total_pages s"
  "free_pages (put_string cs s) = free_pages s"
  by (rule put_string_frame, simp)+

lemma BITMAP_SIZE_unat: "unat BITMAP_SIZE = 2097152"
  by (simp add: BITMAP_SIZE_val)

lemma pmm_init_bitmap:
  "bitmap (pmm_init s) i = (if i < BITMAP_SIZE then 0xFF else bitmap s i)"
proof -
  let ?f = "\<lambda>i s. s\<lparr>bitmap := (bitmap s)((of_nat i :: u64) := (0xFF :: u8))\<rparr>"
  have inj: "inj_on (\<lambda>i. of_nat i :: u64) {0..<2097152}"
    by (rule inj_on_inverseI [where g = unat]) simp
  have B: "bitmap (pmm_init s) = bitmap (for_up 0 2097152 ?f
      (put_string (''[PMM] Initializing Physical Memory Manager...'' @ [CHR 0x0A]) s))"
    by (simp only: pmm_init_def Let_def put_string_pmm BITMAP_SIZE_unat) simp
  note fill = for_up_fill_inj [where arr = bitmap and f = ?f and k = "\<lambda>i. of_nat i :: u64"
      and v = "\<lambda>_. 0xFF" and a = 0 and b = 2097152, OF _ inj]
  show ?thesis
  proof (cases "i < BITMAP_SIZE")
    case True
    then have "unat i < 2097152" by (simp add: BITMAP_SIZE_val word_less_nat_alt)
    then have "bitmap (pmm_init s) (of_nat (unat i)) = 0xFF"
      unfolding B by (intro fill(1)) simp_all
    with True show ?thesis by simp
  next
    case False
    then have "i \<notin> (\<lambda>i. of_nat i :: u64) ` {0..<2097152}"
      by (auto simp: BITMAP_SIZE_val word_less_nat_alt)
    then have "bitmap (pmm_init s) i
        = bitmap (put_string (''[PMM] Initializing Physical Memory Manager...'' @ [CHR 0x0A]) s) i"
      unfolding B by (intro fill(2)) simp_all
    with False show ?thesis by simp
  qed
qed

lemma pmm_init_free_frames: "free_frames (pmm_init s) = {}"
proof -
  have "page_used (of_nat p) (pmm_init s)" if "p < 16777216" for p
  proof -
    have "unat (of_nat p div 8 :: u64) < 2097152"
      using that by (simp add: unat_div_distrib div_less_iff_less_mult)
    then have "(of_nat p div 8 :: u64) < BITMAP_SIZE" by (simp add: BITMAP_SIZE_val word_less_nat_alt)
    moreover have "bit (0xFF :: u8) (unat (of_nat p :: u64) mod 8)" by (rule byte_ff_bit) simp
    ultimately show ?thesis by (simp add: page_used_bit pmm_init_bitmap)
  qed
  then show ?thesis by (auto simp: free_frames_def)
qed

lemma pmm_init_counters: "free_pages (pmm_init s) = 0" "total_pages (pmm_init s) = MAX_PAGES"
  by (simp_all add: pmm_init_def Let_def)

lemma pmm_init_inv: "pmm_inv (pmm_init s)"
  by (simp add: pmm_inv_def pmm_init_counters pmm_init_free_frames)

section \<open>Runs of the manager\<close>

text \<open>The calls other code can make, in any order.\<close>

datatype pmm_call =
    AddRegion u64 u64
  | ReserveRegion u64 u64
  | AllocPage
  | AllocPageLow
  | FreePage u64

fun pmm_step :: "pmm_call \<Rightarrow> 'a pmm_scheme \<Rightarrow> 'a pmm_scheme" where
  "pmm_step (AddRegion base len) s = pmm_add_region base len s"
| "pmm_step (ReserveRegion base len) s = pmm_reserve_region base len s"
| "pmm_step AllocPage s = snd (pmm_alloc_page s)"
| "pmm_step AllocPageLow s = snd (pmm_alloc_page_low s)"
| "pmm_step (FreePage address) s = pmm_free_page address s"

definition pmm_run :: "pmm_call list \<Rightarrow> 'a pmm_scheme \<Rightarrow> 'a pmm_scheme" where
  "pmm_run calls s = fold pmm_step calls s"

lemma pmm_step_inv: "pmm_inv s \<Longrightarrow> pmm_inv (pmm_step c s)"
  by (cases c) (simp_all add: pmm_add_region_inv pmm_reserve_region_inv pmm_alloc_page_inv
      pmm_alloc_page_low_inv pmm_free_page_inv)

lemma pmm_run_inv: "pmm_inv s \<Longrightarrow> pmm_inv (pmm_run cs s)"
  unfolding pmm_run_def by (induction cs arbitrary: s) (simp_all add: pmm_step_inv)

text \<open>No call writes outside the bitmap, and the number of pages tracked never changes.\<close>

definition pmm_frame :: "'a pmm_scheme \<Rightarrow> 'a pmm_scheme \<Rightarrow> bool" where
  "pmm_frame s t \<longleftrightarrow> total_pages t = total_pages s \<and> (\<forall>i. BITMAP_SIZE \<le> i \<longrightarrow> bitmap t i = bitmap s i)"

lemma pmm_frame_refl [simp]: "pmm_frame s s"
  by (simp add: pmm_frame_def)

lemma pmm_frame_trans: "pmm_frame s t \<Longrightarrow> pmm_frame t u \<Longrightarrow> pmm_frame s u"
  by (simp add: pmm_frame_def)

lemma page_byte_in_range: "page < MAX_PAGES \<Longrightarrow> page div 8 < BITMAP_SIZE"
  by (simp add: pmm_consts word_less_nat_alt unat_div_distrib div_less_iff_less_mult)

lemma pmm_frame_basic:
  assumes "page < MAX_PAGES"
  shows "pmm_frame s ((set_page page s)\<lparr>free_pages := n\<rparr>)"
    and "pmm_frame s ((clear_page page s)\<lparr>free_pages := n\<rparr>)"
  using page_byte_in_range [OF assms] by (auto simp: pmm_frame_def set_page_def clear_page_def)

lemma region_loop_frame:
  assumes "\<And>page t. page < MAX_PAGES \<Longrightarrow> pmm_frame t (body page t)"
  shows "pmm_frame s (region_loop body address stop s)"
  using assms
proof (induction body address stop s rule: region_loop.induct)
  case (1 body address stop s)
  show ?case
  proof (cases "address < stop \<and> address div PMM_PAGE_SIZE < MAX_PAGES")
    case True
    then have "pmm_frame (body (address div PMM_PAGE_SIZE) s) (region_loop body address stop s)"
      using "1.IH" [OF _ refl] "1.prems" by (auto simp: region_loop.simps [of body address stop s] Let_def not_le)
    then show ?thesis using "1.prems" True by (meson pmm_frame_trans)
  next
    case False
    then show ?thesis by (auto simp: region_loop.simps [of body address stop s] Let_def not_less)
  qed
qed

lemma pmm_step_frame: "pmm_frame s (pmm_step c s)"
proof -
  have b: "pmm_frame t (add_body page t)" "pmm_frame t (reserve_body page t)"
    if "page < MAX_PAGES" for page and t :: "'a pmm_scheme"
    using pmm_frame_basic [OF that, of t] by (auto simp: add_body_def reserve_body_def Let_def)
  have a: "pmm_frame s (snd (case scan_up 1 hi (\<lambda>page. \<not> page_used (of_nat page) s) of
        Some page \<Rightarrow> (of_nat page * PMM_PAGE_SIZE, (set_page (of_nat page) s)\<lparr>free_pages := free_pages s - 1\<rparr>)
      | None \<Rightarrow> (0, s)))" if "hi \<le> 16777216" for hi
    using that by (auto split: option.split intro!: pmm_frame_basic dest!: scan_up_SomeD(2)
        simp: page_lt_iff)
  show ?thesis
    using b a [of 16777216] a [of 2048]
    by (cases c) (auto simp: pmm_add_region_def pmm_reserve_region_def pmm_alloc_page_def
        pmm_alloc_page_low_def pmm_free_page_def MAX_PAGES_unat Let_def
        intro!: region_loop_frame pmm_frame_basic split: option.splits)
qed

lemma pmm_run_frame: "pmm_frame s (pmm_run cs s)"
  unfolding pmm_run_def
  by (induction cs arbitrary: s) (auto intro: pmm_frame_trans pmm_step_frame)

section \<open>Properties\<close>

text \<open>A concrete state for the witnesses: every frame in use.\<close>

definition pmm_all_used :: pmm where
  "pmm_all_used = \<lparr>hw_log = [], port_in = (\<lambda>_ _. 0), tsc_in = (\<lambda>_. 0), cr2_in = (\<lambda>_. 0),
     if_flag = False, vga_buffer = (\<lambda>_. 0), cursor_x = 0, cursor_y = 0,
     bitmap = (\<lambda>_. 0xFF), total_pages = MAX_PAGES, free_pages = 0\<rparr>"

lemma pmm_all_used_frames: "free_frames pmm_all_used = {}"
proof -
  have "page_used q pmm_all_used" for q
  proof -
    have "bit (0xFF :: u8) (unat q mod 8)" by (rule byte_ff_bit) simp
    then show ?thesis by (simp add: page_used_bit pmm_all_used_def)
  qed
  then show ?thesis by (simp add: free_frames_def)
qed

lemma pmm_all_used_inv: "pmm_inv pmm_all_used"
  by (simp add: pmm_inv_def pmm_all_used_frames) (simp add: pmm_all_used_def)

definition pmm_one_free :: pmm where
  "pmm_one_free = pmm_add_region 0x5000 0x1000 pmm_all_used"

lemma pmm_one_free_frames: "free_frames pmm_one_free = {5}"
proof -
  have "{p. p < 16777216 \<and> 20480 \<le> 4096 * p \<and> 4096 * (p + 1) \<le> (20480 + 4096 :: nat)} = {5}"
    by auto
  then show ?thesis
    using pmm_add_region_frames [of "0x5000" "0x1000" pmm_all_used]
    by (simp add: pmm_one_free_def pmm_all_used_frames)
qed

lemma pmm_one_free_inv: "pmm_inv pmm_one_free"
  unfolding pmm_one_free_def by (rule pmm_add_region_inv [OF pmm_all_used_inv])

text \<open>
  \<open>pmm_add_region\<close> makes free exactly the page frames that lie wholly inside the region and
  inside the 64 GiB the bitmap covers; the frames that were free stay free, and the counter is the
  new number of free frames.
\<close>

theorem pmm_add_region_exact:
  assumes "pmm_inv s" and "unat base + 4095 < 2 ^ 64" and "unat base + unat len < 2 ^ 64"
  shows "let t = pmm_add_region base len s;
             F = free_frames s \<union>
               {p. p < 16777216 \<and> unat base \<le> 4096 * p \<and> 4096 * (p + 1) \<le> unat base + unat len}
         in free_frames t = F \<and> unat (pmm_get_free_pages t) = card F"
  using pmm_add_region_frames [OF assms(2,3), of s] pmm_add_region_inv [OF assms(1), of base len]
  by (simp add: Let_def pmm_inv_def pmm_get_free_pages_def)

theorem pmm_add_region_exact_witness:
  "free_frames (pmm_add_region 0x4800 0x2000 pmm_all_used) = {5}"
proof -
  have "{p. p < 16777216 \<and> 18432 \<le> 4096 * p \<and> 4096 * (p + 1) \<le> (18432 + 8192 :: nat)} = {5}"
    by auto
  with pmm_add_region_exact [OF pmm_all_used_inv, of "0x4800" "0x2000"]
  show ?thesis by (simp add: Let_def pmm_all_used_frames)
qed

text \<open>The frames a region reserves: those of its bytes, and the frame of an unaligned base even when it has none.\<close>

definition touched :: "u64 \<Rightarrow> u64 \<Rightarrow> nat set" where
  "touched base len =
     {p. \<exists>a. unat base \<le> a \<and> a < unat base + unat len \<and> a div 4096 = p}
     \<union> (if len = 0 \<and> unat base mod 4096 \<noteq> 0 then {unat base div 4096} else {})"

lemma bytes_of_frame:
  fixes b n p :: nat
  assumes "n \<noteq> 0"
  shows "(\<exists>a. b \<le> a \<and> a < b + n \<and> a div 4096 = p) \<longleftrightarrow> b < 4096 * (p + 1) \<and> 4096 * p < b + n"
proof
  assume "\<exists>a. b \<le> a \<and> a < b + n \<and> a div 4096 = p"
  then obtain a where a: "b \<le> a" "a < b + n" "a div 4096 = p" by blast
  have "4096 * p \<le> a" "a < 4096 * (p + 1)"
    using times_div_less_eq_dividend [of 4096 a] dividend_less_times_div [of 4096 a] by (simp_all add: a(3))
  with a show "b < 4096 * (p + 1) \<and> 4096 * p < b + n" by linarith
next
  assume r: "b < 4096 * (p + 1) \<and> 4096 * p < b + n"
  show "\<exists>a. b \<le> a \<and> a < b + n \<and> a div 4096 = p"
  proof (cases "b \<le> 4096 * p")
    case True
    then show ?thesis using r by (intro exI [of _ "4096 * p"]) simp
  next
    case False
    then have "b div 4096 = p" using r by (intro div_nat_eqI) simp_all
    then show ?thesis using assms by (intro exI [of _ b]) simp
  qed
qed

lemma frame_of_unaligned:
  fixes b p :: nat
  shows "b mod 4096 \<noteq> 0 \<and> p = b div 4096 \<longleftrightarrow> b < 4096 * (p + 1) \<and> 4096 * p < b"
proof
  assume a: "b mod 4096 \<noteq> 0 \<and> p = b div 4096"
  have "4096 * (b div 4096) + b mod 4096 = b" by simp
  with a have "4096 * p < b" by linarith
  with a dividend_less_times_div [of 4096 b] show "b < 4096 * (p + 1) \<and> 4096 * p < b" by simp
next
  assume r: "b < 4096 * (p + 1) \<and> 4096 * p < b"
  then have p: "b div 4096 = p" by (intro div_nat_eqI) simp_all
  have "4096 * (b div 4096) + b mod 4096 = b" by simp
  with r p show "b mod 4096 \<noteq> 0 \<and> p = b div 4096" by auto
qed

lemma touched_interval: "touched base len = {p. unat base < 4096 * (p + 1) \<and> 4096 * p < unat base + unat len}"
proof (intro set_eqI)
  fix p
  let ?b = "unat base" and ?n = "unat len"
  have e: "len = 0 \<longleftrightarrow> ?n = 0" by (simp add: unat_eq_0)
  show "p \<in> touched base len \<longleftrightarrow> p \<in> {p. ?b < 4096 * (p + 1) \<and> 4096 * p < ?b + ?n}"
  proof (cases "?n = 0")
    case True
    then have "p \<in> touched base len \<longleftrightarrow> ?b mod 4096 \<noteq> 0 \<and> p = ?b div 4096"
      by (auto simp: touched_def e)
    also have "\<dots> \<longleftrightarrow> ?b < 4096 * (p + 1) \<and> 4096 * p < ?b" by (rule frame_of_unaligned)
    finally show ?thesis using True by simp
  next
    case False
    then have "p \<in> touched base len \<longleftrightarrow> (\<exists>a. ?b \<le> a \<and> a < ?b + ?n \<and> a div 4096 = p)"
      by (simp add: touched_def e)
    also have "\<dots> \<longleftrightarrow> ?b < 4096 * (p + 1) \<and> 4096 * p < ?b + ?n" using False by (rule bytes_of_frame)
    finally show ?thesis by simp
  qed
qed

text \<open>
  C11. For a region whose end, rounded up to a page, does not pass 2^64, \<open>pmm_reserve_region\<close> takes out of the free
  set the frame of every byte of the region and no other, except that an empty region with an unaligned base still
  takes out the frame of its base; the counter is the new number of free frames.
\<close>

theorem pmm_reserve_region_exact:
  assumes "pmm_inv s" and "unat base + unat len + 4095 < 2 ^ 64"
  shows "let t = pmm_reserve_region base len s; F = free_frames s - touched base len
         in free_frames t = F \<and> unat (pmm_get_free_pages t) = card F"
  using pmm_reserve_region_frames [OF assms(2), of s] pmm_reserve_region_inv [OF assms(1), of base len]
  by (simp add: Let_def pmm_inv_def pmm_get_free_pages_def touched_interval)

theorem pmm_reserve_region_exact_witness:
  "free_frames (pmm_reserve_region 0x5FFF 1 pmm_one_free) = {}"
proof -
  have "5 \<in> touched 0x5FFF 1" by (simp add: touched_interval)
  with pmm_reserve_region_exact [OF pmm_one_free_inv, of "0x5FFF" 1]
  show ?thesis by (simp add: Let_def pmm_one_free_frames)
qed

text \<open>
  \<open>pmm_alloc_page\<close> is first fit over the frames above frame 0: it returns the address of the
  least free frame, which is not free any more and was the only one to change, or, when no frame
  above 0 is free, it returns 0 and changes nothing.  So a non-zero result was free before the
  call, and 0 is never the address of an allocated page.
\<close>

theorem pmm_alloc_page_first_fit:
  assumes "pmm_inv s"
  shows "if free_frames s - {0} = {} then pmm_alloc_page s = (0, s)
    else let p = Min (free_frames s - {0}); (a, t) = pmm_alloc_page s
         in a \<noteq> 0 \<and> unat a = 4096 * p \<and> p \<in> free_frames s \<and> free_frames t = free_frames s - {p}
            \<and> unat (pmm_get_free_pages t) = unat (pmm_get_free_pages s) - 1"
proof (cases "free_frames s - {0} = {}")
  case False
  obtain a t where r: "pmm_alloc_page s = (a, t)" by fastforce
  note M = Min_free [OF finite_free_frames False]
  have a: "unat a = 4096 * Min (free_frames s - {0})"
    and t: "free_frames t = free_frames s - {Min (free_frames s - {0})}"
    using pmm_alloc_page_cases(2) [OF False] by (simp_all only: r fst_conv snd_conv)
  have "0 < unat a" unfolding a using M(2) by simp
  then have "a \<noteq> 0" by (metis unat_gt_0)
  note a t this
  moreover have "pmm_inv t" using pmm_alloc_page_inv [OF assms] by (simp add: r)
  moreover have "card (free_frames s - {Min (free_frames s - {0})}) = card (free_frames s) - 1"
    using M(1) by (rule card_Diff_singleton)
  ultimately have "a \<noteq> 0 \<and> unat a = 4096 * Min (free_frames s - {0}) \<and> Min (free_frames s - {0}) \<in> free_frames s
      \<and> free_frames t = free_frames s - {Min (free_frames s - {0})}
      \<and> unat (pmm_get_free_pages t) = unat (pmm_get_free_pages s) - 1"
    using M(1) assms unfolding pmm_inv_def pmm_get_free_pages_def by simp
  with False show ?thesis by (simp only: if_False Let_def r prod.case simp_thms)
qed (simp add: pmm_alloc_page_cases)

theorem pmm_alloc_page_first_fit_witness:
  "fst (pmm_alloc_page pmm_one_free) = 0x5000"
proof -
  have "unat (fst (pmm_alloc_page pmm_one_free)) = 4096 * 5"
    using pmm_alloc_page_first_fit [OF pmm_one_free_inv]
    by (simp add: pmm_one_free_frames Let_def split: prod.splits)
  then show ?thesis by (simp add: word_unat_eq_iff)
qed

text \<open>
  \<open>pmm_alloc_page_low\<close> never hands out memory at or above 8 MiB: it returns the least free
  frame below frame 2048, or 0 with nothing changed when there is none, also when higher frames
  are free.
\<close>

theorem pmm_alloc_page_low_below_8M:
  shows "(let (a, t) = pmm_alloc_page_low s in
      (a = 0 \<and> t = s \<and> free_frames s \<inter> {1..<2048} = {}) \<or>
      (a \<noteq> 0 \<and> a < 0x800000 \<and> unat a mod 4096 = 0 \<and> unat a div 4096 \<in> free_frames s
       \<and> free_frames t = free_frames s - {unat a div 4096}
       \<and> (\<forall>q \<in> free_frames s. 1 \<le> q \<longrightarrow> unat a div 4096 \<le> q)))"
proof (cases s rule: pmm_alloc_page_low_cases)
  case none
  then show ?thesis by simp
next
  case (some p)
  obtain a t where r: "pmm_alloc_page_low s = (a, t)" by fastforce
  with some have a: "unat a = 4096 * p" by simp
  with some have "a < 0x800000" by (simp add: word_less_nat_alt)
  moreover have "a \<noteq> 0" using a some(2) by auto
  ultimately show ?thesis using some a by (simp add: r)
qed

text \<open>The theorem has implications inside; applied to a state with one free frame it returns it.\<close>

theorem pmm_alloc_page_low_below_8M_witness:
  "fst (pmm_alloc_page_low pmm_one_free) \<noteq> 0 \<and> fst (pmm_alloc_page_low pmm_one_free) < 0x800000"
proof -
  have "free_frames pmm_one_free \<inter> {1..<2048} \<noteq> {}" by (simp add: pmm_one_free_frames)
  with pmm_alloc_page_low_below_8M [of pmm_one_free] show ?thesis
    by (simp add: Let_def split: prod.splits)
qed

text \<open>
  C3. However the manager is called after \<open>pmm_init\<close>, the free-page counter equals the number of
  free frames, the number of tracked pages stays \<open>MAX_PAGES\<close> and no byte outside the bitmap
  is written.
\<close>

theorem pmm_run_consistent:
  "let t = pmm_run calls (pmm_init s) in
     unat (pmm_get_free_pages t) = card (free_frames t)
     \<and> pmm_get_total_pages t = MAX_PAGES
     \<and> unat (pmm_get_free_pages t) \<le> unat (pmm_get_total_pages t)
     \<and> (BITMAP_SIZE \<le> i \<longrightarrow> bitmap t i = bitmap s i)"
proof -
  let ?t = "pmm_run calls (pmm_init s)"
  have inv: "pmm_inv ?t" by (intro pmm_run_inv pmm_init_inv)
  have fr: "pmm_frame (pmm_init s) ?t" by (rule pmm_run_frame)
  show ?thesis
    using inv fr card_free_frames [of ?t]
    by (simp add: Let_def pmm_inv_def pmm_frame_def pmm_get_free_pages_def pmm_get_total_pages_def
        pmm_init_counters pmm_init_bitmap MAX_PAGES_unat leD)
qed

theorem pmm_run_consistent_witness:
  "bitmap (pmm_run [AddRegion 0 0x10000, AllocPage, FreePage 0x1000, FreePage 0x1000]
      (pmm_init pmm_all_used)) BITMAP_SIZE = 0xFF"
proof -
  have "bitmap pmm_all_used BITMAP_SIZE = 0xFF" by (simp add: pmm_all_used_def)
  with pmm_run_consistent [of _ pmm_all_used BITMAP_SIZE] show ?thesis by (simp add: Let_def)
qed

text \<open>
  Allocating a page and freeing it again restores the set of free frames and the counter, and
  freeing it a second time changes nothing: a double free is caught.
\<close>

theorem pmm_alloc_free_roundtrip:
  assumes "pmm_inv s" and "pmm_alloc_page s = (a, t)" and "a \<noteq> 0"
  shows "free_frames (pmm_free_page a t) = free_frames s
    \<and> pmm_get_free_pages (pmm_free_page a t) = pmm_get_free_pages s
    \<and> pmm_free_page a (pmm_free_page a t) = pmm_free_page a t"
proof -
  let ?p = "Min (free_frames s - {0})" and ?u = "pmm_free_page a t"
  have ne: "free_frames s - {0} \<noteq> {}" using pmm_alloc_page_cases(1) [of s] assms(2,3) by auto
  note M = Min_free [OF finite_free_frames ne]
  have a: "unat a = 4096 * ?p" and t: "free_frames t = free_frames s - {?p}"
    using pmm_alloc_page_cases(2) [OF ne] assms(2) by simp_all
  have lim: "?p < 16777216" using M(1) by (simp add: free_frames_def)
  have u: "free_frames ?u = free_frames s"
    using pmm_free_page_frames [OF a lim, of t] M(1) by (auto simp: t)
  have "pmm_inv ?u" using pmm_alloc_page_inv [OF assms(1)] assms(2) by (simp add: pmm_free_page_inv)
  with assms(1) u have c: "free_pages ?u = free_pages s"
    by (simp add: pmm_inv_def word_unat_eq_iff)
  have d: "unat (a div PMM_PAGE_SIZE) = ?p" using a by (simp add: PMM_PAGE_SIZE_def unat_div_distrib)
  then have "a div PMM_PAGE_SIZE < MAX_PAGES" using lim by (simp add: page_lt_iff)
  then have "\<not> page_used (a div PMM_PAGE_SIZE) ?u"
    using free_frames_iff [of "a div PMM_PAGE_SIZE" ?u] M(1) by (simp add: u d)
  then show ?thesis using u c by (simp add: pmm_free_page_cases(3) pmm_get_free_pages_def)
qed

theorem pmm_alloc_free_roundtrip_witness:
  "free_frames (pmm_free_page (fst (pmm_alloc_page pmm_one_free)) (snd (pmm_alloc_page pmm_one_free))) = {5}"
proof -
  have "free_frames pmm_one_free - {0} \<noteq> {}" by (simp add: pmm_one_free_frames)
  then have "unat (fst (pmm_alloc_page pmm_one_free)) = 20480"
    using pmm_alloc_page_cases(2) [of pmm_one_free] by (simp add: pmm_one_free_frames)
  then have "fst (pmm_alloc_page pmm_one_free) \<noteq> 0" by auto
  then show ?thesis
    using pmm_alloc_free_roundtrip [OF pmm_one_free_inv surjective_pairing]
    by (simp add: pmm_one_free_frames)
qed

end
