(* ===== verification/Vmm.thy ===== *)
theory Vmm
  imports Pmm
begin

text \<open>
  The virtual memory manager, \<open>kernel/mm/vmm.c\<close>: four-level x86-64 page tables kept in physical
  memory, reached through the bootstrap identity map.  Physical memory is read and written here in
  aligned 64-bit entries, \<open>mem a\<close> being the entry at byte address \<open>a\<close>; a C table pointer is its
  address and \<open>table[index]\<close> is the entry at \<open>table + 8 * index\<close>.  The addresses of the static tables
  are chosen by the linker and are components of the state that nothing changes.
\<close>

section \<open>State and operations\<close>

record vmm = pmm +
  mem :: "u64 \<Rightarrow> u64"
  initial_pml4 :: u64
  initial_pdpt :: u64
  initial_pd :: u64
  paging_enabled :: bool

definition PAGE_SIZE :: u64 where "PAGE_SIZE = 0x1000"
definition PAGE_ADDRESS_MASK :: u64 where "PAGE_ADDRESS_MASK = 0x000FFFFFFFFFF000"
definition PAGE_FLAG_PRESENT :: u64 where "PAGE_FLAG_PRESENT = 0x001"
definition PAGE_FLAG_WRITABLE :: u64 where "PAGE_FLAG_WRITABLE = 0x002"
definition PAGE_FLAG_MASK :: u64 where "PAGE_FLAG_MASK = 0xFFF"
definition BOOTSTRAP_IDENTITY_LIMIT :: u64 where "BOOTSTRAP_IDENTITY_LIMIT = 1024 * 1024 * 1024"

lemma BOOTSTRAP_IDENTITY_LIMIT_val: "BOOTSTRAP_IDENTITY_LIMIT = 0x40000000"
  by (simp add: BOOTSTRAP_IDENTITY_LIMIT_def)

lemmas vmm_consts = PAGE_SIZE_def PAGE_ADDRESS_MASK_def PAGE_FLAG_PRESENT_def
  PAGE_FLAG_WRITABLE_def PAGE_FLAG_MASK_def BOOTSTRAP_IDENTITY_LIMIT_val

definition entry_addr :: "u64 \<Rightarrow> u16 \<Rightarrow> u64" where
  "entry_addr table index = table + 8 * ucast index"

definition get_entry :: "u64 \<Rightarrow> u16 \<Rightarrow> 'a vmm_scheme \<Rightarrow> u64" where
  "get_entry table index s = mem s (entry_addr table index)"

definition set_entry :: "u64 \<Rightarrow> u16 \<Rightarrow> u64 \<Rightarrow> 'a vmm_scheme \<Rightarrow> 'a vmm_scheme" where
  "set_entry table index v s = s\<lparr>mem := (mem s)(entry_addr table index := v)\<rparr>"

definition page_aligned_address :: "u64 \<Rightarrow> bool" where
  "page_aligned_address address \<longleftrightarrow> address AND (PAGE_SIZE - 1) = 0"

definition canonical_address :: "u64 \<Rightarrow> bool" where
  "canonical_address address \<longleftrightarrow> (let upper = drop_bit 48 address in upper = 0 \<or> upper = 0xFFFF)"

definition zero_page :: "u64 \<Rightarrow> 'a vmm_scheme \<Rightarrow> 'a vmm_scheme" where
  "zero_page page = for_up 0 512 (\<lambda>index. set_entry page (of_nat index) 0)"

definition physical_to_bootstrap_virtual :: "u64 \<Rightarrow> u64" where
  "physical_to_bootstrap_virtual physical_address =
     (if physical_address \<ge> BOOTSTRAP_IDENTITY_LIMIT \<or> \<not> page_aligned_address physical_address
      then 0 else physical_address)"

definition entry_table :: "u64 \<Rightarrow> u64" where
  "entry_table entry =
     (if entry AND PAGE_FLAG_PRESENT = 0 then 0
      else physical_to_bootstrap_virtual (entry AND PAGE_ADDRESS_MASK))"

definition table_entry :: "u64 \<Rightarrow> u64" where
  "table_entry physical_address =
     (physical_address AND PAGE_ADDRESS_MASK) OR PAGE_FLAG_PRESENT OR PAGE_FLAG_WRITABLE"

definition allocate_table :: "'a vmm_scheme \<Rightarrow> u64 \<times> 'a vmm_scheme" where
  "allocate_table s =
     (let (physical_address, s) = pmm_alloc_page_low s in
      if physical_address = 0 then (0, s)
      else
        (let table = physical_to_bootstrap_virtual physical_address in
         if table = 0 then (0, pmm_free_page physical_address s)
         else (table, zero_page table s)))"

definition next_table :: "u64 \<Rightarrow> u16 \<Rightarrow> 'a vmm_scheme \<Rightarrow> u64 \<times> 'a vmm_scheme" where
  "next_table table index s =
     (let next = entry_table (get_entry table index s) in
      if next \<noteq> 0 then (next, s)
      else
        (let (next, s) = allocate_table s in
         if next = 0 then (0, s)
         else (next, set_entry table index (table_entry next) s)))"

definition flush_tlb_page :: "u64 \<Rightarrow> 'a hw_scheme \<Rightarrow> 'a hw_scheme" where
  "flush_tlb_page virtual_address = emit (Invlpg virtual_address)"

definition reload_page_directory :: "'a vmm_scheme \<Rightarrow> 'a vmm_scheme" where
  "reload_page_directory s = emit (LoadCr3 (initial_pml4 s)) s"

definition paging_init :: "'a vmm_scheme \<Rightarrow> 'a vmm_scheme" where
  "paging_init s =
     (if paging_enabled s then s
      else
        (let s = zero_page (initial_pml4 s) s;
             s = zero_page (initial_pdpt s) s;
             s = zero_page (initial_pd s) s;
             s = set_entry (initial_pml4 s) 0 (initial_pdpt s OR 0x003) s;
             s = set_entry (initial_pdpt s) 0 (initial_pd s OR 0x003) s;
             s = for_up 0 512 (\<lambda>index s.
                   set_entry (initial_pd s) (of_nat index)
                     ((of_nat index * 2 * 1024 * 1024) OR 0x083) s) s;
             s = reload_page_directory s;
             s = s\<lparr>paging_enabled := True\<rparr>
         in put_string (''[PAGING] Massive 1 GiB Identity Map installed using 2 MiB Large Pages.''
              @ [CHR 0x0A]) s))"

definition vmm_init :: "'a vmm_scheme \<Rightarrow> 'a vmm_scheme" where
  "vmm_init s =
     (let s = put_string (''[VMM] Initializing x86_64 Virtual Memory Management subsystem...''
                @ [CHR 0x0A]) s;
          s = paging_init s
      in put_string (''[VMM] subsystem initialized successfully.'' @ [CHR 0x0A]) s)"

text \<open>\<open>(uint16_t)((virtual_address >> shift) & 0x1FFULL)\<close>\<close>

definition va_index :: "nat \<Rightarrow> u64 \<Rightarrow> u16" where
  "va_index sh virtual_address = ucast (drop_bit sh virtual_address AND 0x1FF)"

definition map_page :: "u64 \<Rightarrow> u64 \<Rightarrow> u64 \<Rightarrow> 'a vmm_scheme \<Rightarrow> 'a vmm_scheme" where
  "map_page virtual_address physical_address flags s =
     (if \<not> paging_enabled s \<or> \<not> canonical_address virtual_address
         \<or> \<not> page_aligned_address virtual_address
         \<or> \<not> page_aligned_address physical_address
         \<or> physical_address AND NOT PAGE_ADDRESS_MASK \<noteq> 0
         \<or> flags AND NOT PAGE_FLAG_MASK \<noteq> 0
      then s
      else
        (let pml4_index = va_index 39 virtual_address;
             pdpt_index = va_index 30 virtual_address;
             pd_index = va_index 21 virtual_address;
             pt_index = va_index 12 virtual_address;
             (pdpt, s) = next_table (initial_pml4 s) pml4_index s;
             (pd, s) = (if pdpt = 0 then (0, s) else next_table pdpt pdpt_index s);
             (pt, s) = (if pd = 0 then (0, s) else next_table pd pd_index s)
         in if pt = 0 then s
            else
              (let s = set_entry pt pt_index
                     ((physical_address AND PAGE_ADDRESS_MASK) OR (flags AND PAGE_FLAG_MASK)
                      OR PAGE_FLAG_PRESENT) s
               in flush_tlb_page virtual_address s)))"

definition unmap_page :: "u64 \<Rightarrow> 'a vmm_scheme \<Rightarrow> 'a vmm_scheme" where
  "unmap_page virtual_address s =
     (if \<not> paging_enabled s \<or> \<not> canonical_address virtual_address
         \<or> \<not> page_aligned_address virtual_address
      then s
      else
        (let pml4_index = va_index 39 virtual_address;
             pdpt_index = va_index 30 virtual_address;
             pd_index = va_index 21 virtual_address;
             pt_index = va_index 12 virtual_address;
             pdpt = entry_table (get_entry (initial_pml4 s) pml4_index s);
             pd = (if pdpt = 0 then 0 else entry_table (get_entry pdpt pdpt_index s));
             pt = (if pd = 0 then 0 else entry_table (get_entry pd pd_index s))
         in if pt = 0 then s
            else flush_tlb_page virtual_address (set_entry pt pt_index 0 s)))"

definition get_page_table :: "u64 \<Rightarrow> 'a vmm_scheme \<Rightarrow> u64" where
  "get_page_table virtual_address s =
     (if \<not> paging_enabled s \<or> \<not> canonical_address virtual_address then 0
      else
        (let pml4_index = va_index 39 virtual_address;
             pdpt_index = va_index 30 virtual_address;
             pd_index = va_index 21 virtual_address;
             pdpt = entry_table (get_entry (initial_pml4 s) pml4_index s);
             pd = (if pdpt = 0 then 0 else entry_table (get_entry pdpt pdpt_index s))
         in if pd = 0 then 0 else entry_table (get_entry pd pd_index s)))"

definition get_all_pages :: "u64 \<Rightarrow> u64 \<Rightarrow> 'a vmm_scheme \<Rightarrow> 'a vmm_scheme" where
  "get_all_pages page_table page_directory s =
     (if page_table = 0 \<or> page_directory = 0 \<or> page_table = page_directory
         \<or> \<not> page_aligned_address page_table \<or> \<not> page_aligned_address page_directory
      then s
      else
        (let s = for_up 0 512 (\<lambda>index. set_entry page_table (of_nat index)
                   ((of_nat index * PAGE_SIZE) OR PAGE_FLAG_PRESENT OR PAGE_FLAG_WRITABLE)) s;
             s = zero_page page_directory s
         in set_entry page_directory 0 (table_entry page_table) s))"

text \<open>The handler prints the faulting address and stops the machine: it never returns.\<close>

definition vmm_page_fault_handler :: "'a vmm_scheme \<Rightarrow> printf_fault + 'a vmm_scheme outcome" where
  "vmm_page_fault_handler s =
     (let (fault_address, s) = read_cr2 s in
      map_sum id (\<lambda>s. Halted (cli s))
        (printf (''[VMM] Page fault at %x'' @ [CHR 0x0A]) [VU64 fault_address] s))"

section \<open>The processor's translation\<close>

text \<open>
  What the memory management unit does with the tables: an address whose bits 63 to 47 are not
  all the same is not canonical and faults; then four levels, a present bit in each entry,
  1 GiB and 2 MiB pages where bit 7 of a third- or second-level entry is set.  It is the
  architecture's page walk, used as the specification of the code above.
\<close>

definition hw_canonical :: "u64 \<Rightarrow> bool" where
  "hw_canonical va \<longleftrightarrow> drop_bit 47 va = 0 \<or> drop_bit 47 va = 0x1FFFF"

definition page_size_bit :: u64 where "page_size_bit = 0x80"

definition translate :: "'a vmm_scheme \<Rightarrow> u64 \<Rightarrow> u64 option" where
  "translate s va =
     (if \<not> hw_canonical va then None
      else let e4 = get_entry (initial_pml4 s) (va_index 39 va) s in
      if e4 AND PAGE_FLAG_PRESENT = 0 then None
      else let e3 = get_entry (e4 AND PAGE_ADDRESS_MASK) (va_index 30 va) s in
      if e3 AND PAGE_FLAG_PRESENT = 0 then None
      else if e3 AND page_size_bit \<noteq> 0
      then Some ((e3 AND PAGE_ADDRESS_MASK AND NOT (mask 30)) OR (va AND mask 30))
      else let e2 = get_entry (e3 AND PAGE_ADDRESS_MASK) (va_index 21 va) s in
      if e2 AND PAGE_FLAG_PRESENT = 0 then None
      else if e2 AND page_size_bit \<noteq> 0
      then Some ((e2 AND PAGE_ADDRESS_MASK AND NOT (mask 21)) OR (va AND mask 21))
      else let e1 = get_entry (e2 AND PAGE_ADDRESS_MASK) (va_index 12 va) s in
      if e1 AND PAGE_FLAG_PRESENT = 0 then None
      else Some ((e1 AND PAGE_ADDRESS_MASK) OR (va AND mask 12)))"

section \<open>Entries and addresses\<close>

lemma aligned_mask_iff: "page_aligned_address a \<longleftrightarrow> a AND mask 12 = 0"
  by (simp add: page_aligned_address_def PAGE_SIZE_def mask_numeral)

lemma aligned_iff: "page_aligned_address a \<longleftrightarrow> unat a mod 4096 = 0"
proof -
  have "page_aligned_address a \<longleftrightarrow> unat (a AND mask 12) = 0"
    unfolding aligned_mask_iff by (metis unat_0 unat_eq_0)
  then show ?thesis by (simp add: unat_and_mask)
qed

lemma aligned_dvd: "page_aligned_address a \<longleftrightarrow> 4096 dvd unat a"
  by (simp add: aligned_iff dvd_eq_mod_eq_0)

lemma address_mask_eq: "PAGE_ADDRESS_MASK = mask 52 AND NOT (mask 12)"
  by (simp add: PAGE_ADDRESS_MASK_def mask_numeral)

lemma unat_address_mask: "unat (x AND PAGE_ADDRESS_MASK) = unat x mod 2 ^ 52 div 4096 * 4096"
  using unat_and_not_mask [of "x AND mask 52" 12]
  by (simp add: address_mask_eq unat_and_mask and.assoc)

lemma address_mask_aligned [simp]: "page_aligned_address (x AND PAGE_ADDRESS_MASK)"
  by (simp add: aligned_iff unat_address_mask)

lemma address_mask_id:
  assumes "page_aligned_address t" "unat t < 2 ^ 52"
  shows "t AND PAGE_ADDRESS_MASK = t"
proof -
  have "unat t div 4096 * 4096 = unat t" using assms(1) by (simp add: aligned_dvd)
  then have "unat (t AND PAGE_ADDRESS_MASK) = unat t" using assms(2) by (simp add: unat_address_mask)
  then show ?thesis by (simp only: word_unat_eq_iff)
qed

text \<open>The low bits of an entry do not disturb its address, and the address not its low bits.\<close>

lemma entry_address:
  assumes "t AND PAGE_ADDRESS_MASK = t" "f AND PAGE_ADDRESS_MASK = 0"
  shows "(t OR f) AND PAGE_ADDRESS_MASK = t"
  by (simp add: assms bit.conj_disj_distrib2)

lemma entry_low_bits:
  assumes "page_aligned_address t" "m AND mask 12 = m"
  shows "(t OR f) AND m = f AND m"
proof -
  have "t AND m = (t AND mask 12) AND m"
    using assms(2) by (metis and.assoc and.commute)
  then show ?thesis using assms(1) by (simp add: aligned_mask_iff bit.conj_disj_distrib2)
qed

lemma flag_masks [simp]:
  "PAGE_FLAG_PRESENT AND mask 12 = PAGE_FLAG_PRESENT"
  "page_size_bit AND mask 12 = page_size_bit"
  by (simp_all add: PAGE_FLAG_PRESENT_def page_size_bit_def mask_numeral)

lemma va_index_less: "unat (va_index sh va) < 512"
proof -
  have "unat (drop_bit sh va AND mask 9) < 512" by (simp add: unat_and_mask)
  then show ?thesis
    by (simp add: va_index_def mask_numeral unsigned_ucast_eq take_bit_nat_eq_self_iff
        take_bit_nat_less_self_iff le_less_trans [OF take_bit_nat_less_eq_self])
qed

lemma entry_addr_unat:
  assumes "page_aligned_address t" "unat i < 512"
  shows "unat (entry_addr t i) = unat t + 8 * unat i"
proof -
  obtain a where a: "unat t = 4096 * a" using assms(1) unfolding aligned_dvd by (elim dvdE)
  then have "4096 * a < 2 ^ 64" using unat_u64_less [of t] by simp
  then have "4096 * a + 4096 \<le> 2 ^ 64" by simp
  moreover have i: "unat (ucast i :: u64) = unat i"
    by (simp add: unsigned_ucast_eq take_bit_nat_eq_self_iff less_trans [OF assms(2)])
  moreover have "unat (8 * ucast i :: u64) = 8 * unat i"
    using assms(2) i by (simp add: unat_times_nowrap)
  ultimately show ?thesis
    using assms(2) a by (simp add: entry_addr_def unat_plus_nowrap)
qed

lemma entry_addr_inj:
  assumes "page_aligned_address t" "page_aligned_address u" "unat i < 512" "unat j < 512"
  shows "entry_addr t i = entry_addr u j \<longleftrightarrow> t = u \<and> i = j"
proof
  assume "entry_addr t i = entry_addr u j"
  then have e: "unat t + 8 * unat i = unat u + 8 * unat j"
    using entry_addr_unat [OF assms(1,3)] entry_addr_unat [OF assms(2,4)] by simp
  obtain a b where ab: "unat t = 4096 * a" "unat u = 4096 * b"
    using assms(1,2) unfolding aligned_dvd by (elim dvdE) simp
  have "a = (unat t + 8 * unat i) div 4096" "b = (unat u + 8 * unat j) div 4096"
    using ab assms(3,4) by simp_all
  with e have "a = b" by simp
  with e ab show "t = u \<and> i = j" by (simp add: word_unat_eq_iff)
qed simp

lemma get_set_entry:
  assumes "page_aligned_address t" "page_aligned_address u" "unat i < 512" "unat j < 512"
  shows "get_entry t i (set_entry u j v s) = (if t = u \<and> i = j then v else get_entry t i s)"
  using entry_addr_inj [OF assms] by (simp add: get_entry_def set_entry_def)

lemma set_entry_fields [simp]:
  "initial_pml4 (set_entry t i v s) = initial_pml4 s"
  "initial_pdpt (set_entry t i v s) = initial_pdpt s"
  "initial_pd (set_entry t i v s) = initial_pd s"
  "paging_enabled (set_entry t i v s) = paging_enabled s"
  "bitmap (set_entry t i v s) = bitmap s"
  "free_pages (set_entry t i v s) = free_pages s"
  "hw_log (set_entry t i v s) = hw_log s"
  by (simp_all add: set_entry_def)

lemma zero_page_fields [simp]:
  "initial_pml4 (zero_page t s) = initial_pml4 s"
  "initial_pdpt (zero_page t s) = initial_pdpt s"
  "initial_pd (zero_page t s) = initial_pd s"
  "paging_enabled (zero_page t s) = paging_enabled s"
  "bitmap (zero_page t s) = bitmap s"
  "free_pages (zero_page t s) = free_pages s"
  "hw_log (zero_page t s) = hw_log s"
  by (simp_all add: zero_page_def for_up_frame [where g = initial_pml4]
      for_up_frame [where g = initial_pdpt] for_up_frame [where g = initial_pd]
      for_up_frame [where g = paging_enabled] for_up_frame [where g = bitmap]
      for_up_frame [where g = free_pages] for_up_frame [where g = hw_log])

lemma fill_table:
  assumes "page_aligned_address T" "page_aligned_address u" "unat i < 512" "g s = T"
    and step: "\<And>k t. g t = T \<Longrightarrow> f k t = set_entry T (of_nat k) (v k) t \<and> g (f k t) = T"
  shows "get_entry u i (for_up 0 512 f s) = (if u = T then v (unat i) else get_entry u i s)"
proof -
  have "g (for_up 0 512 f s) = T
      \<and> get_entry u i (for_up 0 512 f s) = (if u = T \<and> unat i < 512 then v (unat i) else get_entry u i s)"
  proof (rule for_up_invariant [where I = "\<lambda>k t. g t = T
      \<and> get_entry u i t = (if u = T \<and> unat i < k then v (unat i) else get_entry u i s)"])
    fix k t assume k: "k < (512 :: nat)" and I: "g t = T
      \<and> get_entry u i t = (if u = T \<and> unat i < k then v (unat i) else get_entry u i s)"
    have "unat (of_nat k :: u16) = k" using k by (simp add: unat_of_nat take_bit_nat_eq_self_iff)
    then have "unat (of_nat k :: u16) < 512" "i = of_nat k \<longleftrightarrow> unat i = k"
      using k by (auto simp: word_unat_eq_iff)
    then show "g (f k t) = T
        \<and> get_entry u i (f k t) = (if u = T \<and> unat i < Suc k then v (unat i) else get_entry u i s)"
      using I step [of t k] assms(1-3) by (auto simp: get_set_entry less_Suc_eq)
  qed (simp_all add: assms)
  then show ?thesis using assms(3) by simp
qed

lemma get_entry_zero_page:
  assumes "page_aligned_address t" "page_aligned_address u" "unat i < 512"
  shows "get_entry u i (zero_page t s) = (if u = t then 0 else get_entry u i s)"
  unfolding zero_page_def
  by (rule fill_table [where g = "\<lambda>_. t" and v = "\<lambda>_. 0", OF assms]) simp_all

section \<open>The tree of tables\<close>

text \<open>
  A table is named by the indices that lead to it from the PML4, the last one first: \<open>tbl s []\<close> is
  the PML4, \<open>tbl s [i4]\<close> a page-directory-pointer table, \<open>tbl s [i3, i4]\<close> a page directory and
  \<open>tbl s [i2, i3, i4]\<close> a page table; 0 when there is none.  The paths below the identity directory
  \<open>[0, 0]\<close> are left out: its entries are 2 MiB pages and not tables.
\<close>

fun tbl :: "'a vmm_scheme \<Rightarrow> u16 list \<Rightarrow> u64" where
  "tbl s [] = initial_pml4 s"
| "tbl s (i # p) = (if tbl s p = 0 then 0 else entry_table (get_entry (tbl s p) i s))"

definition path_ok :: "u16 list \<Rightarrow> bool" where
  "path_ok p \<longleftrightarrow> length p \<le> 3 \<and> (\<forall>i \<in> set p. unat i < 512) \<and> (\<forall>i. p \<noteq> [i, 0, 0])"

text \<open>A path one of whose entries may point to a table.\<close>

definition interior :: "u16 list \<Rightarrow> bool" where
  "interior p \<longleftrightarrow> path_ok p \<and> length p \<le> 2 \<and> p \<noteq> [0, 0]"

definition table_frame :: "'a vmm_scheme \<Rightarrow> u64 \<Rightarrow> bool" where
  "table_frame s t \<longleftrightarrow> t \<noteq> 0 \<and> page_aligned_address t \<and> t < BOOTSTRAP_IDENTITY_LIMIT
     \<and> unat t div 4096 \<notin> free_frames s"

definition identity_entry :: "u16 \<Rightarrow> u64" where
  "identity_entry i = (ucast i * 0x200000) OR 0x083"

definition vm_inv :: "'a vmm_scheme \<Rightarrow> bool" where
  "vm_inv s \<longleftrightarrow> paging_enabled s
     \<and> initial_pml4 s \<noteq> 0 \<and> tbl s [0] \<noteq> 0 \<and> tbl s [0, 0] \<noteq> 0
     \<and> (\<forall>i. unat i < 512 \<longrightarrow> get_entry (tbl s [0, 0]) i s = identity_entry i)
     \<and> (\<forall>p. path_ok p \<longrightarrow> tbl s p \<noteq> 0 \<longrightarrow> table_frame s (tbl s p))
     \<and> (\<forall>p q. path_ok p \<longrightarrow> path_ok q \<longrightarrow> tbl s p \<noteq> 0 \<longrightarrow> tbl s p = tbl s q \<longrightarrow> p = q)
     \<and> (\<forall>p i. interior p \<longrightarrow> unat i < 512 \<longrightarrow> tbl s p \<noteq> 0 \<longrightarrow>
          get_entry (tbl s p) i s = 0
          \<or> tbl s (i # p) \<noteq> 0 \<and> get_entry (tbl s p) i s = table_entry (tbl s (i # p)))"

lemma path_ok_simps [simp]: "path_ok []" "path_ok [0]" "path_ok [0, 0]"
  by (simp_all add: path_ok_def)

lemma path_ok_tl: "path_ok (i # p) \<Longrightarrow> interior p \<and> unat i < 512"
  by (auto simp: path_ok_def interior_def)

lemma interior_path_ok: "interior p \<Longrightarrow> path_ok p"
  by (simp add: interior_def)

lemma interior_Cons: "interior p \<Longrightarrow> unat i < 512 \<Longrightarrow> path_ok (i # p)"
  by (auto simp: path_ok_def interior_def)

lemma entry_table_0 [simp]: "entry_table 0 = 0"
  by (simp add: entry_table_def)

lemma vm_invD:
  assumes "vm_inv s"
  shows "paging_enabled s" "initial_pml4 s \<noteq> 0" "tbl s [0] \<noteq> 0" "tbl s [0, 0] \<noteq> 0"
    and "unat i < 512 \<Longrightarrow> get_entry (tbl s [0, 0]) i s = identity_entry i"
    and "path_ok p \<Longrightarrow> tbl s p \<noteq> 0 \<Longrightarrow> table_frame s (tbl s p)"
    and "path_ok p \<Longrightarrow> path_ok q \<Longrightarrow> tbl s p \<noteq> 0 \<Longrightarrow> tbl s p = tbl s q \<Longrightarrow> p = q"
    and "interior p \<Longrightarrow> unat i < 512 \<Longrightarrow> tbl s p \<noteq> 0 \<Longrightarrow>
          get_entry (tbl s p) i s = 0
          \<or> tbl s (i # p) \<noteq> 0 \<and> get_entry (tbl s p) i s = table_entry (tbl s (i # p))"
  using assms unfolding vm_inv_def by blast+

lemma table_frameD:
  assumes "table_frame s t"
  shows "t \<noteq> 0" "page_aligned_address t" "t < BOOTSTRAP_IDENTITY_LIMIT" "unat t < 2 ^ 52"
    "unat t div 4096 \<notin> free_frames s"
  using assms by (auto simp: table_frame_def BOOTSTRAP_IDENTITY_LIMIT_val word_less_nat_alt)

lemma PF_mask: "PAGE_FLAG_PRESENT AND PAGE_ADDRESS_MASK = 0" "PAGE_FLAG_WRITABLE AND PAGE_ADDRESS_MASK = 0"
  by (simp_all add: vmm_consts)

lemma table_entry_facts:
  assumes "page_aligned_address t" "t < BOOTSTRAP_IDENTITY_LIMIT"
  shows "table_entry t AND PAGE_ADDRESS_MASK = t"
    and "table_entry t AND PAGE_FLAG_PRESENT \<noteq> 0"
    and "table_entry t AND page_size_bit = 0"
    and "entry_table (table_entry t) = t"
proof -
  have t52: "unat t < 2 ^ 52"
    using assms(2) by (simp add: BOOTSTRAP_IDENTITY_LIMIT_val word_less_nat_alt)
  have id: "t AND PAGE_ADDRESS_MASK = t" by (rule address_mask_id [OF assms(1) t52])
  have te: "table_entry t = t OR (PAGE_FLAG_PRESENT OR PAGE_FLAG_WRITABLE)"
    by (simp add: table_entry_def id or.assoc)
  show a: "table_entry t AND PAGE_ADDRESS_MASK = t"
    unfolding te by (rule entry_address [OF id]) (simp add: vmm_consts)
  show b: "table_entry t AND PAGE_FLAG_PRESENT \<noteq> 0"
    unfolding te entry_low_bits [OF assms(1) flag_masks(1)] by (simp add: vmm_consts)
  show "table_entry t AND page_size_bit = 0"
    unfolding te entry_low_bits [OF assms(1) flag_masks(2)] by (simp add: vmm_consts page_size_bit_def)
  have "\<not> BOOTSTRAP_IDENTITY_LIMIT \<le> t" using assms(2) by (simp only: not_le)
  then show "entry_table (table_entry t) = t"
    using a b assms by (simp add: entry_table_def physical_to_bootstrap_virtual_def)
qed

section \<open>Allocating a table\<close>

lemma pmm_alloc_low_vmm [simp]:
  "mem (snd (pmm_alloc_page_low s)) = mem s"
  "initial_pml4 (snd (pmm_alloc_page_low s)) = initial_pml4 s"
  "initial_pdpt (snd (pmm_alloc_page_low s)) = initial_pdpt s"
  "initial_pd (snd (pmm_alloc_page_low s)) = initial_pd s"
  "paging_enabled (snd (pmm_alloc_page_low s)) = paging_enabled s"
  "hw_log (snd (pmm_alloc_page_low s)) = hw_log s"
  by (simp_all add: pmm_alloc_page_low_def set_page_def Let_def split: option.split)

lemma free_frames_vmm [simp]:
  "free_frames (set_entry t i v s) = free_frames s"
  "free_frames (zero_page t s) = free_frames s"
  "free_frames (emit e s) = free_frames s"
  by (simp_all add: free_frames_def page_used_def emit_def)

lemma get_entry_mem: "mem t = mem s \<Longrightarrow> get_entry u i t = get_entry u i s"
  by (simp add: get_entry_def)

text \<open>
  Either there is no free frame below 8 MiB and nothing happens, or the new table is such a frame,
  every entry of it reads 0 and no entry of another page changes.  The branch that gives the frame
  back because the identity map does not reach it is never taken.
\<close>

lemma allocate_table_cases:
  obtains (none) "free_frames s \<inter> {1..<2048} = {}" "allocate_table s = (0, s)"
  | (some) t s' p where "allocate_table s = (t, s')" "unat t = 4096 * p" "1 \<le> p" "p < 2048"
      "p \<in> free_frames s" "free_frames s' = free_frames s - {p}"
      "t \<noteq> 0" "page_aligned_address t" "t < BOOTSTRAP_IDENTITY_LIMIT"
      "\<And>u i. page_aligned_address u \<Longrightarrow> unat i < 512 \<Longrightarrow>
         get_entry u i s' = (if u = t then 0 else get_entry u i s)"
      "initial_pml4 s' = initial_pml4 s" "initial_pdpt s' = initial_pdpt s"
      "initial_pd s' = initial_pd s" "paging_enabled s' = paging_enabled s" "hw_log s' = hw_log s"
proof (cases s rule: pmm_alloc_page_low_cases)
  case none
  then show ?thesis using that(1) by (simp add: allocate_table_def)
next
  case (some p)
  obtain t s1 where r: "pmm_alloc_page_low s = (t, s1)" by fastforce
  have t: "unat t = 4096 * p" and ff: "free_frames s1 = free_frames s - {p}"
    using some by (simp_all add: r)
  have lim: "unat t < 8388608" using t some(3) by simp
  have nz: "t \<noteq> 0" using t some(2) by auto
  have al: "page_aligned_address t" using t by (simp add: aligned_iff)
  have lt: "t < BOOTSTRAP_IDENTITY_LIMIT"
    using lim by (simp add: BOOTSTRAP_IDENTITY_LIMIT_val word_less_nat_alt)
  then have "\<not> BOOTSTRAP_IDENTITY_LIMIT \<le> t" by (simp only: not_le)
  then have a: "allocate_table s = (t, zero_page t s1)"
    using al nz by (simp add: allocate_table_def r physical_to_bootstrap_virtual_def)
  have m: "mem s1 = mem s" "initial_pml4 s1 = initial_pml4 s" "initial_pdpt s1 = initial_pdpt s"
    "initial_pd s1 = initial_pd s" "paging_enabled s1 = paging_enabled s" "hw_log s1 = hw_log s"
    using pmm_alloc_low_vmm [of s] unfolding r by simp_all
  show ?thesis
    using a t some(1,2,3) ff nz al lt m
    by (intro that(2) [of t "zero_page t s1" p])
      (simp_all add: get_entry_zero_page get_entry_mem [of s1 s])
qed

text \<open>Adding a fresh table below an empty entry extends the tree by one path.\<close>

lemma tbl_add_table:
  assumes inv: "vm_inv s" and p: "interior p" "unat i < 512" "tbl s p \<noteq> 0" "tbl s (i # p) = 0"
    and t: "t \<noteq> 0" "page_aligned_address t" "t < BOOTSTRAP_IDENTITY_LIMIT"
      "unat t div 4096 \<in> free_frames s"
    and s': "initial_pml4 s' = initial_pml4 s"
    and get: "\<And>u j. page_aligned_address u \<Longrightarrow> unat j < 512 \<Longrightarrow> get_entry u j s'
       = (if u = tbl s p \<and> j = i then table_entry t else if u = t then 0 else get_entry u j s)"
    and q: "path_ok q"
  shows "tbl s' q = (if q = i # p then t else tbl s q)"
  using q
proof (induction q)
  case Nil
  then show ?case using s' by simp
next
  case (Cons j r)
  note jr = path_ok_tl [OF Cons.prems] and r = interior_path_ok [OF conjunct1 [OF path_ok_tl [OF Cons.prems]]]
  have fresh: "tbl s x \<noteq> t" if "path_ok x" "tbl s x \<noteq> 0" for x
    using table_frameD(5) [OF vm_invD(6) [OF inv that]] t(4) by auto
  note IH = Cons.IH [OF r]
  show ?case
  proof (cases "r = i # p")
    case True
    have "tbl s' (j # r) = entry_table (get_entry t j s')" using IH True t(1) by simp
    also have "\<dots> = 0" using fresh [OF interior_path_ok [OF p(1)] p(3)] get [OF t(2), of j] jr by simp
    finally show ?thesis using True p(4) by auto
  next
    case False
    with IH have tr: "tbl s' r = tbl s r" by simp
    show ?thesis
    proof (cases "tbl s r = 0")
      case True
      with tr p(3) show ?thesis by auto
    next
      case False
      note fr = vm_invD(6) [OF inv r False]
      have pr: "tbl s r = tbl s p \<longleftrightarrow> r = p"
        using vm_invD(7) [OF inv r interior_path_ok [OF p(1)] False] by auto
      have "get_entry (tbl s r) j s' = (if r = p \<and> j = i then table_entry t else get_entry (tbl s r) j s)"
        using get [OF table_frameD(2) [OF fr], of j] jr fresh [OF r False] pr by simp
      then show ?thesis using tr False table_entry_facts(4) [OF t(2,3)] by auto
    qed
  qed
qed

declare tbl.simps [simp del]

text \<open>What the caller of \<open>next_table\<close> learns about the tree.\<close>

definition tree_extends :: "'a vmm_scheme \<Rightarrow> 'a vmm_scheme \<Rightarrow> bool" where
  "tree_extends s s' \<longleftrightarrow>
     initial_pml4 s' = initial_pml4 s \<and> hw_log s' = hw_log s
     \<and> (\<forall>q. path_ok q \<longrightarrow> tbl s q \<noteq> 0 \<longrightarrow> tbl s' q = tbl s q)
     \<and> (\<forall>q j. path_ok q \<longrightarrow> length q = 3 \<longrightarrow> tbl s' q \<noteq> 0 \<longrightarrow> unat j < 512 \<longrightarrow>
          get_entry (tbl s' q) j s' = (if tbl s q = 0 then 0 else get_entry (tbl s q) j s))"

lemma tree_extends_refl [simp]: "tree_extends s s"
  by (simp add: tree_extends_def)

lemma tree_extendsD:
  assumes "tree_extends s s'"
  shows "initial_pml4 s' = initial_pml4 s" "hw_log s' = hw_log s"
    "path_ok q \<Longrightarrow> tbl s q \<noteq> 0 \<Longrightarrow> tbl s' q = tbl s q"
    "path_ok q \<Longrightarrow> length q = 3 \<Longrightarrow> tbl s' q \<noteq> 0 \<Longrightarrow> unat j < 512 \<Longrightarrow>
      get_entry (tbl s' q) j s' = (if tbl s q = 0 then 0 else get_entry (tbl s q) j s)"
  using assms unfolding tree_extends_def by blast+

lemma tree_extends_trans:
  assumes "tree_extends s t" "tree_extends t u"
  shows "tree_extends s u"
  unfolding tree_extends_def
proof (intro conjI allI impI)
  fix q j assume q: "path_ok q" "length q = 3" "tbl u q \<noteq> 0" "unat (j :: u16) < 512"
  show "get_entry (tbl u q) j u = (if tbl s q = 0 then 0 else get_entry (tbl s q) j s)"
  proof (cases "tbl t q = 0")
    case True
    then have "tbl s q = 0" using tree_extendsD(3) [OF assms(1) q(1)] by auto
    with True show ?thesis using tree_extendsD(4) [OF assms(2) q] by simp
  next
    case False
    then show ?thesis
      using tree_extendsD(4) [OF assms(2) q] tree_extendsD(4) [OF assms(1) q(1,2) False q(4)] by simp
  qed
qed (use tree_extendsD(1-3) [OF assms(1)] tree_extendsD(1-3) [OF assms(2)] in auto)

lemma vm_inv_add_table:
  assumes inv: "vm_inv s" and p: "interior p" "unat i < 512" "tbl s p \<noteq> 0" "tbl s (i # p) = 0"
    and t: "t \<noteq> 0" "page_aligned_address t" "t < BOOTSTRAP_IDENTITY_LIMIT"
      "unat t div 4096 \<in> free_frames s"
    and s': "initial_pml4 s' = initial_pml4 s" "paging_enabled s' = paging_enabled s"
      "hw_log s' = hw_log s" "free_frames s' = free_frames s - {unat t div 4096}"
    and get: "\<And>u j. page_aligned_address u \<Longrightarrow> unat j < 512 \<Longrightarrow> get_entry u j s'
       = (if u = tbl s p \<and> j = i then table_entry t else if u = t then 0 else get_entry u j s)"
  shows "vm_inv s' \<and> tree_extends s s'"
proof -
  have tb: "tbl s' q = (if q = i # p then t else tbl s q)" if "path_ok q" for q
    by (rule tbl_add_table [OF inv p t s'(1) _ that]) (rule get)
  have fresh: "tbl s x \<noteq> t" if "path_ok x" "tbl s x \<noteq> 0" for x
    using table_frameD(5) [OF vm_invD(6) [OF inv that]] t(4) by auto
  have frame: "table_frame s' u" if "table_frame s u" for u
    using that s'(4) by (simp add: table_frame_def)
  have tframe: "table_frame s' t" using t s'(4) by (simp add: table_frame_def)
  have new: "tbl s' q \<noteq> 0 \<longleftrightarrow> q = i # p \<or> tbl s q \<noteq> 0" if "path_ok q" for q
    using tb [OF that] t(1) p(4) by auto
  note pok = interior_path_ok [OF p(1)]
  have old_get: "get_entry (tbl s q) j s' = (if q = p \<and> j = i then table_entry t else get_entry (tbl s q) j s)"
    if "path_ok q" "tbl s q \<noteq> 0" "unat j < 512" for q j
    using get [OF table_frameD(2) [OF vm_invD(6) [OF inv that(1,2)]] that(3)] fresh [OF that(1,2)]
      vm_invD(7) [OF inv that(1) pok that(2)] by auto
  have ip: "path_ok (i # p)" by (rule interior_Cons [OF p(1,2)])
  have "vm_inv s'"
    unfolding vm_inv_def
  proof (intro conjI allI impI)
    show "paging_enabled s'" "initial_pml4 s' \<noteq> 0" using vm_invD(1,2) [OF inv] s' by simp_all
    show "tbl s' [0] \<noteq> 0" "tbl s' [0, 0] \<noteq> 0" using new vm_invD(3,4) [OF inv] by simp_all
    have "i # p \<noteq> [0, 0]" using p(4) vm_invD(4) [OF inv] by metis
    then have id: "tbl s' [0, 0] = tbl s [0, 0]" using tb [of "[0, 0]"] by auto
    show "get_entry (tbl s' [0, 0]) j s' = identity_entry j" if "unat j < 512" for j
      using old_get [of "[0, 0]" j] vm_invD(4) [OF inv] vm_invD(5) [OF inv, of j] that id p(1)
      by (auto simp: interior_def)
    show "table_frame s' (tbl s' q)" if "path_ok q" "tbl s' q \<noteq> 0" for q
      using tb [OF that(1)] new [OF that(1)] that tframe frame vm_invD(6) [OF inv that(1)] by auto
    show "q = r" if "path_ok q" "path_ok r" "tbl s' q \<noteq> 0" "tbl s' q = tbl s' r" for q r
    proof (rule ccontr)
      assume ne: "q \<noteq> r"
      then consider "q = i # p" "r \<noteq> i # p" | "q \<noteq> i # p" "r = i # p" | "q \<noteq> i # p" "r \<noteq> i # p"
        by blast
      then show False
      proof cases
        case 1
        with tb [OF that(1)] tb [OF that(2)] that(4) have "tbl s r = t" by simp
        with fresh [OF that(2)] t(1) show False by simp
      next
        case 2
        with tb [OF that(1)] tb [OF that(2)] that(4) have "tbl s q = t" by simp
        with fresh [OF that(1)] t(1) show False by simp
      next
        case 3
        with tb [OF that(1)] tb [OF that(2)] that(3,4) have "tbl s q \<noteq> 0" "tbl s q = tbl s r" by simp_all
        with vm_invD(7) [OF inv that(1,2)] ne show False by simp
      qed
    qed
    show "get_entry (tbl s' q) j s' = 0
        \<or> tbl s' (j # q) \<noteq> 0 \<and> get_entry (tbl s' q) j s' = table_entry (tbl s' (j # q))"
      if q: "interior q" "unat j < 512" "tbl s' q \<noteq> 0" for q j
    proof (cases "q = i # p")
      case True
      then show ?thesis using tb [OF ip] get [OF t(2) q(2)] fresh [OF pok p(3)] by auto
    next
      case False
      note qok = interior_path_ok [OF q(1)]
      have ne: "tbl s q \<noteq> 0" using new [OF qok] q(3) False by simp
      have tq: "tbl s' q = tbl s q" using tb [OF qok] False by simp
      show ?thesis
      proof (cases "q = p \<and> j = i")
        case True
        then show ?thesis using old_get [OF qok ne q(2)] tq tb [OF ip] t(1) by simp
      next
        case F: False
        have jq: "path_ok (j # q)" by (rule interior_Cons [OF q(1,2)])
        have "tbl s' (j # q) = tbl s (j # q)" using tb [OF jq] F by auto
        then show ?thesis using old_get [OF qok ne q(2)] tq F vm_invD(8) [OF inv q(1,2) ne] by auto
      qed
    qed
  qed
  moreover have "tree_extends s s'"
    unfolding tree_extends_def
  proof (intro conjI allI impI)
    show "tbl s' q = tbl s q" if "path_ok q" "tbl s q \<noteq> 0" for q
      using tb [OF that(1)] that(2) p(4) by auto
    fix q j assume q: "path_ok q" "length q = 3" "tbl s' q \<noteq> 0" "unat (j :: u16) < 512"
    show "get_entry (tbl s' q) j s' = (if tbl s q = 0 then 0 else get_entry (tbl s q) j s)"
    proof (cases "q = i # p")
      case True
      then show ?thesis using tb [OF ip] get [OF t(2) q(4)] fresh [OF pok p(3)] p(4) by auto
    next
      case False
      have "q \<noteq> p" using p(1) q(2) by (auto simp: interior_def)
      with False show ?thesis using tb [OF q(1)] q(3,4) old_get [OF q(1)] by auto
    qed
  qed (simp_all add: s')
  ultimately show ?thesis ..
qed

lemma next_table_spec:
  assumes inv: "vm_inv s" and p: "interior p" "unat i < 512" "tbl s p \<noteq> 0"
    and n: "next_table (tbl s p) i s = (n, s')"
  shows "vm_inv s'" "tree_extends s s'"
    and "n \<noteq> 0 \<Longrightarrow> tbl s' (i # p) = n"
    and "n = 0 \<Longrightarrow> s' = s \<and> tbl s (i # p) = 0 \<and> free_frames s \<inter> {1..<2048} = {}"
    and "free_frames s' = free_frames s \<or> (\<exists>f. free_frames s' = free_frames s - {f})"
proof -
  note ip = interior_Cons [OF p(1,2)]
  have "vm_inv s' \<and> tree_extends s s' \<and> (n \<noteq> 0 \<longrightarrow> tbl s' (i # p) = n)
      \<and> (n = 0 \<longrightarrow> s' = s \<and> tbl s (i # p) = 0 \<and> free_frames s \<inter> {1..<2048} = {})
      \<and> (free_frames s' = free_frames s \<or> (\<exists>f. free_frames s' = free_frames s - {f}))"
  proof (cases "tbl s (i # p) = 0")
    case False
    then have "n = tbl s (i # p)" "s' = s" using n p(3)
      by (auto simp: next_table_def Let_def tbl.simps split: if_splits)
    with False inv show ?thesis by simp
  next
    case True
    then have e0: "entry_table (get_entry (tbl s p) i s) = 0" using p(3) by (simp add: tbl.simps)
    show ?thesis
    proof (cases s rule: allocate_table_cases)
      case none
      then have "n = 0" "s' = s" using n e0 by (auto simp: next_table_def)
      with none inv True show ?thesis by simp
    next
      case (some t s1 f)
      have n': "n = t" "s' = set_entry (tbl s p) i (table_entry t) s1"
        using n e0 some(1,7) by (auto simp: next_table_def)
      have f: "unat t div 4096 = f" using some(2) by simp
      have pa: "page_aligned_address (tbl s p)"
        by (rule table_frameD(2) [OF vm_invD(6) [OF inv interior_path_ok [OF p(1)] p(3)]])
      have "vm_inv s' \<and> tree_extends s s'"
        by (rule vm_inv_add_table [OF inv p True some(7-9)])
          (use some n' f p(2) pa in \<open>auto simp: get_set_entry\<close>)
      moreover have "tbl s' (i # p) = t"
        using tbl_add_table [OF inv p True some(7-9) _ _ _ ip, of s'] some n' f p(2) pa
        by (simp add: get_set_entry)
      ultimately show ?thesis using some(6,7) n' by auto
    qed
  qed
  then show "vm_inv s'" "tree_extends s s'" "n \<noteq> 0 \<Longrightarrow> tbl s' (i # p) = n"
    "n = 0 \<Longrightarrow> s' = s \<and> tbl s (i # p) = 0 \<and> free_frames s \<inter> {1..<2048} = {}"
    "free_frames s' = free_frames s \<or> (\<exists>f. free_frames s' = free_frames s - {f})"
    by blast+
qed

section \<open>Walking down to a page table\<close>

definition low_frames :: "'a vmm_scheme \<Rightarrow> nat" where
  "low_frames s = card (free_frames s \<inter> {1..<2048})"

lemma low_frames_drop:
  assumes "free_frames s' = free_frames s \<or> (\<exists>f. free_frames s' = free_frames s - {f})"
  shows "low_frames s \<le> Suc (low_frames s')"
  using assms
proof
  assume "\<exists>f. free_frames s' = free_frames s - {f}"
  then obtain f where "free_frames s' = free_frames s - {f}" ..
  then have "free_frames s' \<inter> {1..<2048} = (free_frames s \<inter> {1..<2048}) - {f}" by auto
  then show ?thesis using card_Suc_Diff1 [of "free_frames s \<inter> {1..<2048}" f]
    by (cases "f \<in> free_frames s \<inter> {1..<2048}") (simp_all add: low_frames_def)
qed (simp add: low_frames_def)

text \<open>The three steps of \<open>map_page\<close> below the PML4.\<close>

definition walk_tables :: "u16 \<Rightarrow> u16 \<Rightarrow> u16 \<Rightarrow> 'a vmm_scheme \<Rightarrow> u64 \<times> 'a vmm_scheme" where
  "walk_tables i4 i3 i2 s =
     (let (pdpt, s) = next_table (initial_pml4 s) i4 s;
          (pd, s) = (if pdpt = 0 then (0, s) else next_table pdpt i3 s)
      in if pd = 0 then (0, s) else next_table pd i2 s)"

lemma walk_tables_spec:
  assumes inv: "vm_inv s" and i: "unat i4 < 512" "unat i3 < 512" "unat i2 < 512" "\<not> (i4 = 0 \<and> i3 = 0)"
    and w: "walk_tables i4 i3 i2 s = (pt, s')"
  shows "vm_inv s'" "tree_extends s s'"
    and "pt \<noteq> 0 \<Longrightarrow> tbl s' [i2, i3, i4] = pt"
    and "pt = 0 \<Longrightarrow> low_frames s < 3 \<and> tbl s' [i2, i3, i4] = 0"
proof -
  have p: "interior []" "interior [i4]" "interior [i3, i4]"
    using i by (auto simp: interior_def path_ok_def)
  obtain pdpt s1 where n1: "next_table (initial_pml4 s) i4 s = (pdpt, s1)" by fastforce
  have r: "tbl s [] = initial_pml4 s" "tbl s [] \<noteq> 0"
    using vm_invD(2) [OF inv] by (simp_all add: tbl.simps)
  note S1 = next_table_spec [OF inv p(1) i(1) r(2) n1 [folded r(1)]]
  have none: "low_frames t < 1" if "free_frames t \<inter> {1..<2048} = {}" for t :: "'a vmm_scheme"
    using that by (simp add: low_frames_def)
  have step: "tbl t (j # q) = 0" if "tbl t q = 0" for t :: "'a vmm_scheme" and j q
    using that by (simp add: tbl.simps)
  have "vm_inv s' \<and> tree_extends s s' \<and> (pt \<noteq> 0 \<longrightarrow> tbl s' [i2, i3, i4] = pt)
      \<and> (pt = 0 \<longrightarrow> low_frames s < 3 \<and> tbl s' [i2, i3, i4] = 0)"
  proof (cases "pdpt = 0")
    case True
    then have w': "pt = 0" "s' = s1" using w n1 by (auto simp: walk_tables_def)
    show ?thesis using S1(1,2) S1(4) [OF True] none [of s] w' step by auto
  next
    case pdpt: False
    obtain pd s2 where n2: "next_table pdpt i3 s1 = (pd, s2)" by fastforce
    have t1: "tbl s1 [i4] = pdpt" by (rule S1(3) [OF pdpt])
    then have t1': "tbl s1 [i4] \<noteq> 0" using pdpt by simp
    note S2 = next_table_spec [OF S1(1) p(2) i(2) t1' n2 [folded t1]]
    note E2 = tree_extends_trans [OF S1(2) S2(2)]
    have L1: "low_frames s \<le> Suc (low_frames s1)" by (rule low_frames_drop [OF S1(5)])
    show ?thesis
    proof (cases "pd = 0")
      case True
      then have w': "pt = 0" "s' = s2" using w n1 n2 pdpt by (auto simp: walk_tables_def)
      show ?thesis using S2(1) E2 S2(4) [OF True] none [of s1] L1 w' step by auto
    next
      case pd: False
      have n3: "next_table pd i2 s2 = (pt, s')" using w n1 n2 pdpt pd by (simp add: walk_tables_def)
      have t2: "tbl s2 [i3, i4] = pd" by (rule S2(3) [OF pd])
      then have t2': "tbl s2 [i3, i4] \<noteq> 0" using pd by simp
      note S3 = next_table_spec [OF S2(1) p(3) i(3) t2' n3 [folded t2]]
      have L2: "low_frames s1 \<le> Suc (low_frames s2)" by (rule low_frames_drop [OF S2(5)])
      show ?thesis
        using S3(1) tree_extends_trans [OF E2 S3(2)] S3(3) S3(4) none [of s2] L1 L2 by auto
    qed
  qed
  then show "vm_inv s'" "tree_extends s s'" "pt \<noteq> 0 \<Longrightarrow> tbl s' [i2, i3, i4] = pt"
    "pt = 0 \<Longrightarrow> low_frames s < 3 \<and> tbl s' [i2, i3, i4] = 0"
    by blast+
qed

text \<open>Writing an entry of a page table changes no path and no entry of another page table.\<close>

lemma set_pte_spec:
  assumes inv: "vm_inv s" and q: "path_ok q" "length q = 3" "tbl s q \<noteq> 0" "unat j < 512"
    and s'_def: "s' = set_entry (tbl s q) j v s"
  shows "vm_inv s'" "path_ok r \<Longrightarrow> tbl s' r = tbl s r"
    and "path_ok r \<Longrightarrow> tbl s r \<noteq> 0 \<Longrightarrow> unat k < 512 \<Longrightarrow>
      get_entry (tbl s r) k s' = (if r = q \<and> k = j then v else get_entry (tbl s r) k s)"
proof -
  have aq: "page_aligned_address (tbl s q)"
    by (rule table_frameD(2) [OF vm_invD(6) [OF inv q(1,3)]])
  have get: "get_entry (tbl s r) k s' = (if r = q \<and> k = j then v else get_entry (tbl s r) k s)"
    if "path_ok r" "tbl s r \<noteq> 0" "unat k < 512" for r k
    using vm_invD(7) [OF inv that(1) q(1) that(2)]
    by (auto simp: s'_def get_set_entry [OF table_frameD(2) [OF vm_invD(6) [OF inv that(1,2)]] aq that(3) q(4)])
  have tb: "tbl s' r = tbl s r" if "path_ok r" for r
    using that
  proof (induction r)
    case (Cons k r)
    note kr = path_ok_tl [OF Cons.prems]
    have r: "path_ok r" "r \<noteq> q" using kr q(2) by (auto simp: interior_def)
    then have "tbl s' r = tbl s r" using Cons.IH by simp
    then show ?case using get [OF r(1), of k] r(2) kr by (simp add: tbl.simps)
  qed (simp add: tbl.simps s'_def)
  show "path_ok r \<Longrightarrow> tbl s' r = tbl s r" by (rule tb)
  show "path_ok r \<Longrightarrow> tbl s r \<noteq> 0 \<Longrightarrow> unat k < 512 \<Longrightarrow>
      get_entry (tbl s r) k s' = (if r = q \<and> k = j then v else get_entry (tbl s r) k s)"
    by (rule get)
  have q00: "[0, 0] \<noteq> q" using q(2) by auto
  have fr: "table_frame s' u = table_frame s u" for u by (simp add: table_frame_def s'_def)
  show "vm_inv s'"
    unfolding vm_inv_def
  proof (intro conjI allI impI)
    show "paging_enabled s'" "initial_pml4 s' \<noteq> 0" using vm_invD(1,2) [OF inv] by (simp_all add: s'_def)
    show "tbl s' [0] \<noteq> 0" "tbl s' [0, 0] \<noteq> 0" using vm_invD(3,4) [OF inv] tb by simp_all
    show "get_entry (tbl s' [0, 0]) k s' = identity_entry k" if "unat k < 512" for k
      using get [of "[0, 0]" k] vm_invD(4) [OF inv] vm_invD(5) [OF inv that] that tb q00 by simp
    show "table_frame s' (tbl s' r)" if "path_ok r" "tbl s' r \<noteq> 0" for r
      using vm_invD(6) [OF inv that(1)] that tb fr by simp
    show "r = r'" if "path_ok r" "path_ok r'" "tbl s' r \<noteq> 0" "tbl s' r = tbl s' r'" for r r'
      using vm_invD(7) [OF inv that(1,2)] that(3,4) tb [OF that(1)] tb [OF that(2)] by simp
    show "get_entry (tbl s' r) k s' = 0
        \<or> tbl s' (k # r) \<noteq> 0 \<and> get_entry (tbl s' r) k s' = table_entry (tbl s' (k # r))"
      if r: "interior r" "unat k < 512" "tbl s' r \<noteq> 0" for r k
    proof -
      have "r \<noteq> q" using r(1) q(2) by (auto simp: interior_def)
      then show ?thesis
        using get [OF interior_path_ok [OF r(1)] _ r(2)] tb [OF interior_path_ok [OF r(1)]]
          tb [OF interior_Cons [OF r(1,2)]] vm_invD(8) [OF inv r(1,2)] r(3) by simp
    qed
  qed
qed

section \<open>Translation through the tree\<close>

lemma table_entry_walk:
  assumes "vm_inv s" "path_ok p" "tbl s p \<noteq> 0"
  shows "table_entry (tbl s p) AND PAGE_ADDRESS_MASK = tbl s p"
    "table_entry (tbl s p) AND PAGE_FLAG_PRESENT \<noteq> 0"
    "table_entry (tbl s p) AND page_size_bit = 0"
  using table_entry_facts [OF table_frameD(2,3) [OF vm_invD(6) [OF assms]]] by simp_all

lemma translate_tree:
  assumes inv: "vm_inv s" and va: "hw_canonical va"
    and ni: "\<not> (va_index 39 va = 0 \<and> va_index 30 va = 0)"
  shows "translate s va =
    (let t = tbl s [va_index 21 va, va_index 30 va, va_index 39 va] in
     if t = 0 then None
     else let e = get_entry t (va_index 12 va) s in
       if e AND PAGE_FLAG_PRESENT = 0 then None
       else Some ((e AND PAGE_ADDRESS_MASK) OR (va AND mask 12)))"
proof -
  let ?i4 = "va_index 39 va" and ?i3 = "va_index 30 va" and ?i2 = "va_index 21 va"
  note lt = va_index_less
  have p: "interior []" "interior [?i4]" "interior [?i3, ?i4]"
    using lt ni by (auto simp: interior_def path_ok_def)
  have q: "path_ok [?i4]" "path_ok [?i3, ?i4]" "path_ok [?i2, ?i3, ?i4]"
    by (rule interior_Cons, rule p, rule lt)+
  have r: "tbl s [] = initial_pml4 s" "tbl s [] \<noteq> 0"
    using vm_invD(2) [OF inv] by (simp_all add: tbl.simps)
  have z: "tbl s (i # x) = 0" if "tbl s x = 0 \<or> get_entry (tbl s x) i s = 0" for i x
    using that by (auto simp: tbl.simps)
  note e4 = vm_invD(8) [OF inv p(1) lt [of 39 va] r(2)]
  show ?thesis
  proof (cases "tbl s [?i4] = 0")
    case True
    then have "get_entry (initial_pml4 s) ?i4 s = 0" using e4 r by simp
    then show ?thesis using va True z by (simp add: translate_def Let_def)
  next
    case F4: False
    note w4 = table_entry_walk [OF inv q(1) F4]
    note e3 = vm_invD(8) [OF inv p(2) lt [of 30 va] F4]
    have g4: "get_entry (initial_pml4 s) ?i4 s = table_entry (tbl s [?i4])"
      using e4 r F4 z [of "[]" ?i4] by auto
    show ?thesis
    proof (cases "tbl s [?i3, ?i4] = 0")
      case True
      then have "get_entry (tbl s [?i4]) ?i3 s = 0" using e3 by simp
      then show ?thesis using va True z g4 w4 by (simp add: translate_def Let_def)
    next
      case F3: False
      note w3 = table_entry_walk [OF inv q(2) F3]
      note e2 = vm_invD(8) [OF inv p(3) lt [of 21 va] F3]
      have g3: "get_entry (tbl s [?i4]) ?i3 s = table_entry (tbl s [?i3, ?i4])"
        using e3 F3 z [of "[?i4]" ?i3] by auto
      show ?thesis
      proof (cases "tbl s [?i2, ?i3, ?i4] = 0")
        case True
        then have "get_entry (tbl s [?i3, ?i4]) ?i2 s = 0" using e2 by simp
        then show ?thesis using va True g4 w4 g3 w3 by (simp add: translate_def Let_def)
      next
        case F2: False
        note w2 = table_entry_walk [OF inv q(3) F2]
        have "get_entry (tbl s [?i3, ?i4]) ?i2 s = table_entry (tbl s [?i2, ?i3, ?i4])"
          using e2 F2 z [of "[?i3, ?i4]" ?i2] by auto
        then show ?thesis using va F2 g4 w4 g3 w3 w2 by (simp add: translate_def Let_def)
      qed
    qed
  qed
qed

text \<open>The bits of an address below 48 are the four indices and the offset in the page.\<close>

lemma va_index_bits: "va_index sh a = va_index sh b \<Longrightarrow> k < 9 \<Longrightarrow> bit a (sh + k) = bit b (sh + k)"
proof -
  assume e: "va_index sh a = va_index sh b" and k: "k < 9"
  have "bit (va_index sh x) k \<longleftrightarrow> bit x (sh + k)" for x
  proof -
    have m: "(0x1FF :: u64) = mask 9" by (simp add: mask_numeral)
    show ?thesis unfolding va_index_def m
      using k by (auto simp: bit_simps add.commute dest: bit_imp_le_length)
  qed
  with e show "bit a (sh + k) = bit b (sh + k)" by metis
qed

lemma hw_canonical_bits: "hw_canonical a \<Longrightarrow> 47 \<le> n \<Longrightarrow> n < 64 \<Longrightarrow> bit a n = bit a 47"
proof -
  assume c: "hw_canonical a" and n: "47 \<le> n" "n < 64"
  have m: "(0x1FFFF :: u64) = mask 17" by (simp add: mask_numeral)
  have "bit a j = bit (drop_bit 47 a) (j - 47)" if "47 \<le> j" for j
    using that by (simp add: bit_drop_bit_eq)
  with n have "bit a n = bit (drop_bit 47 a) (n - 47)" "bit a 47 = bit (drop_bit 47 a) 0" by simp_all
  with c n show ?thesis by (auto simp: hw_canonical_def m bit_mask_iff)
qed

lemma same_va_page:
  assumes "hw_canonical a" "hw_canonical b"
    and "va_index 39 a = va_index 39 b" "va_index 30 a = va_index 30 b"
    "va_index 21 a = va_index 21 b" "va_index 12 a = va_index 12 b"
  shows "drop_bit 12 a = drop_bit 12 b"
proof (rule bit_word_eqI)
  fix n assume "n < LENGTH(64)"
  then have n: "n < 64" by simp
  have low: "bit a m = bit b m" if "12 \<le> m" "m < 48" for m
  proof -
    have s: "sh \<le> m \<Longrightarrow> m < sh + 9 \<Longrightarrow> va_index sh a = va_index sh b \<Longrightarrow> ?thesis" for sh
      using va_index_bits [of sh a b "m - sh"] by simp
    show ?thesis using s [of 12] s [of 21] s [of 30] s [of 39] that assms(3-6) by linarith
  qed
  have "bit a (n + 12) = bit b (n + 12)"
  proof (cases "n + 12 < 48")
    case True
    then show ?thesis using low [of "n + 12"] by simp
  next
    case False
    then show ?thesis
      using low [of 47] hw_canonical_bits [OF assms(1), of "n + 12"]
        hw_canonical_bits [OF assms(2), of "n + 12"] bit_imp_le_length [of a "n + 12"]
        bit_imp_le_length [of b "n + 12"] by (cases "n + 12 < 64") auto
  qed
  then show "bit (drop_bit 12 a) n = bit (drop_bit 12 b) n" by (simp add: bit_drop_bit_eq add.commute)
qed

text \<open>The tables depend on memory and on the address of the PML4 only.\<close>

lemma tbl_cong: "initial_pml4 s' = initial_pml4 s \<Longrightarrow> mem s' = mem s \<Longrightarrow> tbl s' p = tbl s p"
  by (induction p) (simp_all add: tbl.simps get_entry_def)

lemma vm_inv_cong:
  assumes "initial_pml4 s' = initial_pml4 s" "mem s' = mem s" "paging_enabled s' = paging_enabled s"
    "bitmap s' = bitmap s"
  shows "vm_inv s' = vm_inv s"
proof -
  have tb: "tbl s' p = tbl s p" for p using assms by (intro tbl_cong)
  have get: "get_entry t i s' = get_entry t i s" for t i using assms by (simp add: get_entry_def)
  have fr: "table_frame s' t = table_frame s t" for t
    using assms by (simp add: table_frame_def free_frames_def page_used_def)
  show ?thesis by (simp only: vm_inv_def tb get fr assms)
qed

lemma translate_cong:
  "initial_pml4 s' = initial_pml4 s \<Longrightarrow> mem s' = mem s \<Longrightarrow> translate s' va = translate s va"
  by (simp add: translate_def get_entry_def Let_def)

lemma emit_vmm [simp]:
  "mem (emit e s) = mem s" "initial_pml4 (emit e s) = initial_pml4 s"
  "paging_enabled (emit e s) = paging_enabled s" "bitmap (emit e s) = bitmap s"
  by (simp_all add: emit_def)

lemma emit_tree [simp]:
  "tbl (emit e s) p = tbl s p" "get_entry u i (emit e s) = get_entry u i s"
  "vm_inv (emit e s) = vm_inv s" "translate (emit e s) va = translate s va"
     apply (rule tbl_cong; simp)
    apply (simp add: get_entry_def)
   apply (rule vm_inv_cong; simp)
  apply (rule translate_cong; simp)
  done

section \<open>Mapping and unmapping one page\<close>

definition map_guard :: "u64 \<Rightarrow> u64 \<Rightarrow> u64 \<Rightarrow> bool" where
  "map_guard va pa flags \<longleftrightarrow> canonical_address va \<and> page_aligned_address va
     \<and> page_aligned_address pa \<and> pa AND NOT PAGE_ADDRESS_MASK = 0 \<and> flags AND NOT PAGE_FLAG_MASK = 0"

definition pte_value :: "u64 \<Rightarrow> u64 \<Rightarrow> u64" where
  "pte_value pa flags = (pa AND PAGE_ADDRESS_MASK) OR (flags AND PAGE_FLAG_MASK) OR PAGE_FLAG_PRESENT"

lemma map_page_walk:
  "map_page va pa flags s =
     (if \<not> (paging_enabled s \<and> map_guard va pa flags) then s
      else (let (pt, s) = walk_tables (va_index 39 va) (va_index 30 va) (va_index 21 va) s
            in if pt = 0 then s
               else emit (Invlpg va) (set_entry pt (va_index 12 va) (pte_value pa flags) s)))"
  by (auto simp: map_page_def map_guard_def walk_tables_def pte_value_def flush_tlb_page_def Let_def
      split: prod.splits)

lemma pte_value_facts:
  assumes "page_aligned_address pa" "pa AND NOT PAGE_ADDRESS_MASK = 0"
  shows "pte_value pa flags AND PAGE_ADDRESS_MASK = pa"
    "pte_value pa flags AND PAGE_FLAG_PRESENT \<noteq> 0"
    "flags AND NOT PAGE_FLAG_MASK = 0 \<Longrightarrow> pte_value pa flags AND PAGE_FLAG_MASK = flags OR PAGE_FLAG_PRESENT"
proof -
  have id: "pa AND PAGE_ADDRESS_MASK = pa"
    by (rule and_not_zero [OF assms(2)])
  have m: "PAGE_FLAG_MASK AND mask 12 = PAGE_FLAG_MASK" "PAGE_FLAG_MASK AND PAGE_ADDRESS_MASK = 0"
    "PAGE_FLAG_PRESENT AND PAGE_FLAG_MASK = PAGE_FLAG_PRESENT"
    by (simp_all add: vmm_consts mask_numeral)
  have v: "pte_value pa flags = pa OR ((flags AND PAGE_FLAG_MASK) OR PAGE_FLAG_PRESENT)"
    by (simp add: pte_value_def id or.assoc)
  have "((flags AND PAGE_FLAG_MASK) OR PAGE_FLAG_PRESENT) AND PAGE_ADDRESS_MASK = 0"
    by (simp add: bit.conj_disj_distrib2 and.assoc m(2) PF_mask)
  then show "pte_value pa flags AND PAGE_ADDRESS_MASK = pa" unfolding v by (rule entry_address [OF id])
  have "((flags AND PAGE_FLAG_MASK) OR PAGE_FLAG_PRESENT) AND PAGE_FLAG_PRESENT = PAGE_FLAG_PRESENT"
    by (rule bit_word_eqI) (auto simp: bit_simps)
  then show "pte_value pa flags AND PAGE_FLAG_PRESENT \<noteq> 0"
    unfolding v entry_low_bits [OF assms(1) flag_masks(1)] by (simp add: PAGE_FLAG_PRESENT_def)
  show "pte_value pa flags AND PAGE_FLAG_MASK = flags OR PAGE_FLAG_PRESENT"
    if "flags AND NOT PAGE_FLAG_MASK = 0"
  proof -
    have "flags AND PAGE_FLAG_MASK = flags"
      by (rule and_not_zero [OF that])
    then show ?thesis unfolding v entry_low_bits [OF assms(1) m(1)]
      by (simp add: bit.conj_disj_distrib2 m(3))
  qed
qed

text \<open>The first GiB is mapped to itself, whatever else is mapped.\<close>

lemma va_index_bit: "k < 9 \<Longrightarrow> bit (va_index sh va) k \<longleftrightarrow> bit va (sh + k)"
proof -
  assume "k < 9"
  have m: "(0x1FF :: u64) = mask 9" by (simp add: mask_numeral)
  show ?thesis unfolding va_index_def m
    using \<open>k < 9\<close> by (auto simp: bit_simps add.commute dest: bit_imp_le_length)
qed

lemma va_index_bit_high: "9 \<le> k \<Longrightarrow> \<not> bit (va_index sh va) k"
proof -
  assume "9 \<le> k"
  have m: "(0x1FF :: u64) = mask 9" by (simp add: mask_numeral)
  show ?thesis unfolding va_index_def m using \<open>9 \<le> k\<close> by (auto simp: bit_simps)
qed

lemma identity_entry_walk:
  "identity_entry i AND PAGE_FLAG_PRESENT \<noteq> 0"
  "identity_entry i AND page_size_bit \<noteq> 0"
  "(identity_entry (va_index 21 va) AND PAGE_ADDRESS_MASK AND NOT (mask 21)) OR (va AND mask 21) = va AND mask 30"
proof -
  have m: "ucast i * (0x200000 :: u64) = push_bit 21 (ucast i)" for i :: u16
    by (simp add: push_bit_eq_mult mult.commute)
  have "page_aligned_address (push_bit 21 x)" for x :: u64
    by (simp add: aligned_mask_iff bit_eq_iff bit_simps)
  note low = entry_low_bits [OF this]
  show "identity_entry i AND PAGE_FLAG_PRESENT \<noteq> 0" "identity_entry i AND page_size_bit \<noteq> 0"
    unfolding identity_entry_def m low [OF flag_masks(1)] low [OF flag_masks(2)]
    by (simp_all add: PAGE_FLAG_PRESENT_def page_size_bit_def)
  let ?i = "va_index 21 va"
  have z: "(0x083 :: u64) AND PAGE_ADDRESS_MASK AND NOT (mask 21) = 0"
    by (simp add: PAGE_ADDRESS_MASK_def mask_numeral)
  have "identity_entry ?i AND PAGE_ADDRESS_MASK AND NOT (mask 21)
      = push_bit 21 (ucast ?i) AND PAGE_ADDRESS_MASK AND NOT (mask 21)"
    unfolding identity_entry_def m by (simp only: bit.conj_disj_distrib2 z or.right_neutral)
  also have "\<dots> OR (va AND mask 21) = va AND mask 30"
  proof (rule bit_word_eqI)
    fix n assume "n < LENGTH(64)"
    have i: "bit ?i (n - 21) \<longleftrightarrow> n < 30 \<and> bit va n" if "21 \<le> n"
      using va_index_bit [of "n - 21" 21 va] va_index_bit_high [of "n - 21" 21 va] that
      by (cases "n < 30") auto
    then show "bit (push_bit 21 (ucast ?i) AND PAGE_ADDRESS_MASK AND NOT (mask 21) OR va AND mask 21) n
        = bit (va AND mask 30) n"
      using \<open>n < LENGTH(64)\<close> by (cases "21 \<le> n") (auto simp: bit_simps address_mask_eq)
  qed
  finally show "(identity_entry ?i AND PAGE_ADDRESS_MASK AND NOT (mask 21)) OR (va AND mask 21) = va AND mask 30" .
qed

lemma identity_path_entries:
  assumes inv: "vm_inv s"
  shows "get_entry (initial_pml4 s) 0 s = table_entry (tbl s [0])"
    "get_entry (tbl s [0]) 0 s = table_entry (tbl s [0, 0])"
proof -
  have r: "tbl s [] = initial_pml4 s" "tbl s [] \<noteq> 0"
    using vm_invD(2) [OF inv] by (simp_all add: tbl.simps)
  have p: "interior []" "interior [0]" by (auto simp: interior_def)
  have z: "tbl s (i # x) = 0" if "get_entry (tbl s x) i s = 0" for i x
    using that by (auto simp: tbl.simps)
  have u0: "unat (0 :: u16) < 512" by simp
  show "get_entry (initial_pml4 s) 0 s = table_entry (tbl s [0])"
    using vm_invD(8) [OF inv p(1) u0 r(2)] vm_invD(3) [OF inv] z [of "[]" 0] unfolding r(1) by blast
  show "get_entry (tbl s [0]) 0 s = table_entry (tbl s [0, 0])"
    using vm_invD(8) [OF inv p(2) u0 vm_invD(3) [OF inv]] vm_invD(4) [OF inv] z [of "[0]" 0] by blast
qed

lemma translate_identity:
  assumes inv: "vm_inv s" and va: "hw_canonical va" "va_index 39 va = 0" "va_index 30 va = 0"
  shows "translate s va = Some (va AND mask 30)"
proof -
  have e2: "get_entry (tbl s [0, 0]) (va_index 21 va) s = identity_entry (va_index 21 va)"
    by (rule vm_invD(5) [OF inv va_index_less])
  have p: "path_ok [0]" "path_ok [0, 0]" by simp_all
  note w4 = table_entry_walk [OF inv p(1) vm_invD(3) [OF inv]]
  note w3 = table_entry_walk [OF inv p(2) vm_invD(4) [OF inv]]
  show ?thesis
    unfolding translate_def Let_def va(2,3)
    by (simp only: identity_path_entries [OF inv] w4 w3 e2 va(1) identity_entry_walk if_True if_False simp_thms)
qed

text \<open>Addresses of one page have the same indices.\<close>

lemma same_page_facts:
  assumes "drop_bit 12 x = drop_bit 12 (va :: u64)"
  shows "hw_canonical x = hw_canonical va" "12 \<le> sh \<Longrightarrow> va_index sh x = va_index sh va"
proof -
  have "drop_bit n x = drop_bit n va" if "12 \<le> n" for n
  proof -
    have d: "drop_bit n y = drop_bit (n - 12) (drop_bit 12 y)" for y :: u64
      using that by (simp add: drop_bit_drop_bit)
    show ?thesis unfolding d [of x] d [of va] assms ..
  qed
  then show "hw_canonical x = hw_canonical va" "12 \<le> sh \<Longrightarrow> va_index sh x = va_index sh va"
    by (simp_all add: hw_canonical_def va_index_def)
qed

text \<open>Outside the first GiB the translation reads one entry of one page table.\<close>

definition pt_path :: "u64 \<Rightarrow> u16 list" where
  "pt_path va = [va_index 21 va, va_index 30 va, va_index 39 va]"

definition in_identity :: "u64 \<Rightarrow> bool" where
  "in_identity va \<longleftrightarrow> va_index 39 va = 0 \<and> va_index 30 va = 0"

definition pte_target :: "u64 \<Rightarrow> u64 \<Rightarrow> u64 option" where
  "pte_target e va = (if e AND PAGE_FLAG_PRESENT = 0 then None
     else Some ((e AND PAGE_ADDRESS_MASK) OR (va AND mask 12)))"

lemma pte_target_0 [simp]: "pte_target 0 va = None"
  by (simp add: pte_target_def)

lemma pt_path_ok: "\<not> in_identity va \<Longrightarrow> path_ok (pt_path va)"
  using va_index_less by (auto simp: path_ok_def pt_path_def in_identity_def)

lemma pt_path_length [simp]: "length (pt_path va) = 3"
  by (simp add: pt_path_def)

lemma translate_pt:
  assumes "vm_inv s" "hw_canonical va" "\<not> in_identity va"
  shows "translate s va = (if tbl s (pt_path va) = 0 then None
    else pte_target (get_entry (tbl s (pt_path va)) (va_index 12 va) s) va)"
  unfolding translate_tree [OF assms(1,2) assms(3) [unfolded in_identity_def]] pt_path_def pte_target_def Let_def
  by (rule refl)

lemma same_page_path:
  assumes "drop_bit 12 x = drop_bit 12 va"
  shows "pt_path x = pt_path va" "in_identity x = in_identity va"
  using same_page_facts(2) [OF assms] by (simp_all add: pt_path_def in_identity_def)

lemma same_path_page:
  assumes "hw_canonical a" "hw_canonical b" "pt_path a = pt_path b" "va_index 12 a = va_index 12 b"
  shows "drop_bit 12 a = drop_bit 12 b"
  using assms by (intro same_va_page) (simp_all add: pt_path_def)

text \<open>Extending the tree by empty tables changes no translation.\<close>

lemma tree_extends_translate:
  assumes inv: "vm_inv s" "vm_inv s'" and ext: "tree_extends s s'"
  shows "translate s' x = translate s x"
proof (cases "hw_canonical x \<and> \<not> in_identity x")
  case True
  then have x: "hw_canonical x" "\<not> in_identity x" by simp_all
  note P = pt_path_ok [OF x(2)]
  show ?thesis
  proof (cases "tbl s (pt_path x) = 0")
    case F: True
    then show ?thesis
      unfolding translate_pt [OF inv(1) x] translate_pt [OF inv(2) x]
      using tree_extendsD(4) [OF ext P pt_path_length _ va_index_less [of 12 x]] by simp
  next
    case F: False
    note e = tree_extendsD(3) [OF ext P F]
    then have F': "tbl s' (pt_path x) \<noteq> 0" using F by simp
    show ?thesis
      unfolding translate_pt [OF inv(1) x] translate_pt [OF inv(2) x]
      using tree_extendsD(4) [OF ext P pt_path_length F' va_index_less [of 12 x]] F
      by (simp only: e if_False)
  qed
next
  case False
  then show ?thesis using translate_identity [OF inv(1)] translate_identity [OF inv(2)]
    by (cases "hw_canonical x") (simp_all add: in_identity_def translate_def)
qed

text \<open>Writing one entry of one page table changes the translation of one page.\<close>

lemma set_pte_translate:
  assumes inv: "vm_inv s" and va: "hw_canonical va" "\<not> in_identity va"
    and t: "tbl s (pt_path va) \<noteq> 0"
    and s': "s' = set_entry (tbl s (pt_path va)) (va_index 12 va) v s"
  shows "vm_inv s'"
    and "drop_bit 12 x \<noteq> drop_bit 12 va \<Longrightarrow> translate s' x = translate s x"
    and "drop_bit 12 x = drop_bit 12 va \<Longrightarrow> translate s' x = pte_target v x"
proof -
  note q = pt_path_ok [OF va(2)]
  note P = set_pte_spec [OF inv q pt_path_length t va_index_less s']
  show inv': "vm_inv s'" by (rule P(1))
  show "translate s' x = translate s x" if ne: "drop_bit 12 x \<noteq> drop_bit 12 va"
  proof (cases "hw_canonical x \<and> \<not> in_identity x")
    case True
    then have x: "hw_canonical x" "\<not> in_identity x" by simp_all
    have n: "\<not> (pt_path x = pt_path va \<and> va_index 12 x = va_index 12 va)"
      using same_path_page [OF x(1) va(1)] ne by blast
    show ?thesis
      unfolding translate_pt [OF inv x] translate_pt [OF inv' x] P(2) [OF pt_path_ok [OF x(2)]]
      using P(3) [OF pt_path_ok [OF x(2)] _ va_index_less [of 12 x]] n by auto
  next
    case False
    then show ?thesis using translate_identity [OF inv] translate_identity [OF inv']
      by (cases "hw_canonical x") (simp_all add: in_identity_def translate_def)
  qed
  show "translate s' x = pte_target v x" if e: "drop_bit 12 x = drop_bit 12 va"
  proof -
    have x: "hw_canonical x" "\<not> in_identity x"
      using va same_page_facts(1) [OF e] same_page_path(2) [OF e] by simp_all
    show ?thesis
      unfolding translate_pt [OF inv' x] same_page_path(1) [OF e] P(2) [OF q]
        same_page_facts(2) [OF e order_refl]
      using P(3) [OF q t va_index_less [of 12 va]] t by simp
  qed
qed

end
