(* ===== verification/Paging.thy ===== *)
theory Paging
  imports Vmm
begin

text \<open>
  What the functions of \<open>kernel/mm/vmm.c\<close> do to the processor's translation: \<open>paging_init\<close>
  installs the identity map of the first GiB, \<open>map_page\<close> and \<open>unmap_page\<close> change the
  translation of one page, \<open>get_page_table\<close> finds the table of an address, and the places where
  the code falls short (pages inside the identity map, addresses that are not canonical).
\<close>

declare put_string_simps [simp del]

section \<open>Installing the identity map\<close>

text \<open>What the linker script and the memory map of the boot loader provide.\<close>

definition tables_placed :: "'a vmm_scheme \<Rightarrow> bool" where
  "tables_placed s \<longleftrightarrow> distinct [initial_pml4 s, initial_pdpt s, initial_pd s]
     \<and> (\<forall>t \<in> {initial_pml4 s, initial_pdpt s, initial_pd s}. table_frame s t)"

lemma vmm_putchar [simp]:
  "mem (putchar c s) = mem s" "initial_pml4 (putchar c s) = initial_pml4 s"
  "initial_pdpt (putchar c s) = initial_pdpt s" "initial_pd (putchar c s) = initial_pd s"
  "paging_enabled (putchar c s) = paging_enabled s"
  by (simp_all add: putchar_def set_cell_def scroll_screen_def update_cursor_def machine_defs Let_def
      for_up_frame [where g = mem] for_up_frame [where g = initial_pml4]
      for_up_frame [where g = initial_pdpt] for_up_frame [where g = initial_pd]
      for_up_frame [where g = paging_enabled])

lemma vmm_put_string [simp]:
  "mem (put_string c s) = mem s" "initial_pml4 (put_string c s) = initial_pml4 s"
  "initial_pdpt (put_string c s) = initial_pdpt s" "initial_pd (put_string c s) = initial_pd s"
  "paging_enabled (put_string c s) = paging_enabled s"
  by (rule put_string_frame, simp)+

lemma put_string_free_frames [simp]: "free_frames (put_string c s) = free_frames s"
  by (simp add: free_frames_def page_used_def)

lemma paging_init_entries:
  assumes "tables_placed s" "\<not> paging_enabled s" "page_aligned_address u" "unat i < 512"
  shows "get_entry u i (paging_init s) =
      (if u = initial_pml4 s then if i = 0 then table_entry (initial_pdpt s) else 0
       else if u = initial_pdpt s then if i = 0 then table_entry (initial_pd s) else 0
       else if u = initial_pd s then identity_entry i
       else get_entry u i s)"
proof -
  let ?A = "initial_pml4 s" and ?B = "initial_pdpt s" and ?C = "initial_pd s"
  have fr: "table_frame s ?A" "table_frame s ?B" "table_frame s ?C" and d: "distinct [?A, ?B, ?C]"
    using assms(1) by (simp_all add: tables_placed_def)
  note al = table_frameD(2) [OF fr(1)] table_frameD(2) [OF fr(2)] table_frameD(2) [OF fr(3)]
  have te: "t OR 3 = table_entry t" if "table_frame s t" for t
  proof -
    have "t AND PAGE_ADDRESS_MASK = t" by (rule address_mask_id [OF table_frameD(2,4) [OF that]])
    moreover have "PAGE_FLAG_PRESENT OR PAGE_FLAG_WRITABLE = 3" by (simp add: vmm_consts)
    ultimately show ?thesis by (simp add: table_entry_def or.assoc)
  qed
  define s1 where "s1 = zero_page ?C (zero_page ?B (zero_page ?A s))"
  define s2 where "s2 = set_entry ?B 0 (?C OR 3) (set_entry ?A 0 (?B OR 3) s1)"
  define s3 where "s3 = for_up 0 512 (\<lambda>index s. set_entry (initial_pd s) (of_nat index)
                     ((of_nat index * 2 * 1024 * 1024) OR 0x083) s) s2"
  have f [simp]: "initial_pml4 s1 = ?A" "initial_pdpt s1 = ?B" "initial_pd s1 = ?C"
      "initial_pml4 s2 = ?A" "initial_pdpt s2 = ?B" "initial_pd s2 = ?C"
    by (simp_all add: s1_def s2_def)
  have "mem (paging_init s) = mem s3"
    unfolding paging_init_def s3_def s2_def s1_def
    using assms(2) by (simp add: Let_def reload_page_directory_def)
  then have "get_entry u i (paging_init s) = get_entry u i s3" by (rule get_entry_mem)
  also have "\<dots> = (if u = ?C then (of_nat (unat i) * 2 * 1024 * 1024) OR 0x083 else get_entry u i s2)"
    unfolding s3_def
    by (rule fill_table [where g = initial_pd, OF al(3) assms(3,4)]) simp_all
  also have "(of_nat (unat i) * 2 * 1024 * 1024) OR 0x083 = identity_entry i"
    by (simp add: identity_entry_def mult.assoc)
  also have "get_entry u i s2 = (if u = ?B \<and> i = 0 then ?C OR 3 else if u = ?A \<and> i = 0 then ?B OR 3
      else get_entry u i s1)"
    unfolding s2_def using assms(3,4) al by (simp add: get_set_entry)
  also have "get_entry u i s1 = (if u = ?A \<or> u = ?B \<or> u = ?C then 0 else get_entry u i s)"
    unfolding s1_def using assms(3,4) al by (simp add: get_entry_zero_page)
  finally show ?thesis using d te [OF fr(2)] te [OF fr(3)] by auto
qed

lemma paging_init_fields:
  "initial_pml4 (paging_init s) = initial_pml4 s" "paging_enabled (paging_init s)"
  "free_frames (paging_init s) = free_frames s"
proof -
  have p: "free_frames (for_up 0 512 (\<lambda>index s. set_entry (initial_pd s) (of_nat index) (v index) s) t)
      = free_frames t" for v and t :: "'a vmm_scheme"
    by (rule for_up_frame) simp
  have q: "free_frames (s\<lparr>paging_enabled := True\<rparr>) = free_frames s" for s :: "'a vmm_scheme"
    by (simp add: free_frames_def page_used_def)
  show "free_frames (paging_init s) = free_frames s"
    by (simp add: paging_init_def Let_def reload_page_directory_def p q)
qed (simp_all add: paging_init_def Let_def reload_page_directory_def for_up_frame [where g = initial_pml4])

lemma paging_init_tree:
  assumes pl: "tables_placed s" and en: "\<not> paging_enabled s" and p: "path_ok p"
  shows "tbl (paging_init s) p = (if p = [] then initial_pml4 s else if p = [0] then initial_pdpt s
      else if p = [0, 0] then initial_pd s else 0)"
  using p
proof (induction p)
  case Nil
  then show ?case by (simp add: tbl.simps paging_init_fields)
next
  case (Cons i r)
  note ir = path_ok_tl [OF Cons.prems]
  note IH = Cons.IH [OF interior_path_ok [OF conjunct1 [OF ir]]]
  have fr: "table_frame s (initial_pml4 s)" "table_frame s (initial_pdpt s)" "table_frame s (initial_pd s)"
    and d: "distinct [initial_pml4 s, initial_pdpt s, initial_pd s]"
    using pl by (simp_all add: tables_placed_def)
  have e: "entry_table (table_entry t) = t" if "table_frame s t" for t
    by (rule table_entry_facts(4) [OF table_frameD(2,3) [OF that]])
  note get = paging_init_entries [OF pl en _ conjunct2 [OF ir]]
  have nz: "initial_pml4 s \<noteq> 0" "initial_pdpt s \<noteq> 0" using fr(1,2) by (auto dest: table_frameD(1))
  have n00: "r \<noteq> [0, 0]" using ir by (simp add: interior_def)
  consider "r = []" | "r = [0]" | "r \<noteq> []" "r \<noteq> [0]" "r \<noteq> [0, 0]" using n00 by blast
  then show ?case
  proof cases
    case 1
    then show ?thesis using IH get [OF table_frameD(2) [OF fr(1)]] nz e [OF fr(2)]
      by (simp add: tbl.simps)
  next
    case 2
    then show ?thesis using IH get [OF table_frameD(2) [OF fr(2)]] nz d e [OF fr(3)]
      by (auto simp: tbl.simps)
  next
    case 3
    then show ?thesis using IH by (simp add: tbl.simps)
  qed
qed

lemma paging_init_inv:
  assumes pl: "tables_placed s" and en: "\<not> paging_enabled s"
  shows "vm_inv (paging_init s)"
proof -
  let ?s = "paging_init s"
  note T = paging_init_tree [OF assms]
  have fr: "table_frame s (initial_pml4 s)" "table_frame s (initial_pdpt s)" "table_frame s (initial_pd s)"
    and d: "distinct [initial_pml4 s, initial_pdpt s, initial_pd s]"
    using pl by (simp_all add: tables_placed_def)
  note nz = table_frameD(1) [OF fr(1)] table_frameD(1) [OF fr(2)] table_frameD(1) [OF fr(3)]
  note get = paging_init_entries [OF assms]
  have frame: "table_frame ?s t" if "table_frame s t" for t
    using that by (simp add: table_frame_def paging_init_fields(3))
  show ?thesis
    unfolding vm_inv_def
  proof (intro conjI allI impI)
    show "paging_enabled ?s" "initial_pml4 ?s \<noteq> 0" "tbl ?s [0] \<noteq> 0" "tbl ?s [0, 0] \<noteq> 0"
      using nz T by (simp_all add: paging_init_fields)
    show "get_entry (tbl ?s [0, 0]) i ?s = identity_entry i" if "unat i < 512" for i
      using T [of "[0, 0]"] get [OF table_frameD(2) [OF fr(3)] that] d by auto
    show "table_frame ?s (tbl ?s p)" if "path_ok p" "tbl ?s p \<noteq> 0" for p
      using that T [OF that(1)] frame fr by (auto split: if_splits)
    show "p = q" if "path_ok p" "path_ok q" "tbl ?s p \<noteq> 0" "tbl ?s p = tbl ?s q" for p q
      using that(3,4) T [OF that(1)] T [OF that(2)] d by (auto split: if_splits)
    show "get_entry (tbl ?s p) i ?s = 0
        \<or> tbl ?s (i # p) \<noteq> 0 \<and> get_entry (tbl ?s p) i ?s = table_entry (tbl ?s (i # p))"
      if p: "interior p" "unat i < 512" "tbl ?s p \<noteq> 0" for p i
    proof -
      note Tp = T [OF interior_path_ok [OF p(1)]] and Ti = T [OF interior_Cons [OF p(1,2)]]
      have "p = [] \<or> p = [0]" using p(1,3) Tp by (auto simp: interior_def split: if_splits)
      then show ?thesis
      proof
        assume "p = []"
        then show ?thesis using Tp Ti nz get [OF table_frameD(2) [OF fr(1)] p(2)] by simp
      next
        assume "p = [0]"
        then show ?thesis using Tp Ti nz d get [OF table_frameD(2) [OF fr(2)] p(2)] by auto
      qed
    qed
  qed
qed

lemma vmm_init_inv:
  assumes "tables_placed s" "\<not> paging_enabled s"
  shows "vm_inv (vmm_init s)"
proof -
  have b: "bitmap (put_string c t) = bitmap t" for c and t :: "'a vmm_scheme" by simp
  have "tables_placed (put_string c s)" for c
    using assms(1) by (simp add: tables_placed_def table_frame_def)
  moreover have "vm_inv (put_string c t) = vm_inv t" for c and t :: "'a vmm_scheme"
    by (rule vm_inv_cong) simp_all
  ultimately show ?thesis using assms(2) by (simp add: vmm_init_def Let_def paging_init_inv)
qed

section \<open>Mapping and unmapping\<close>

lemma get_page_table_tbl:
  assumes "vm_inv s" "canonical_address va"
  shows "get_page_table va s = tbl s (pt_path va)"
  using assms vm_invD(1,2) [OF assms(1)]
  by (simp add: get_page_table_def pt_path_def tbl.simps Let_def)

lemma unmap_page_walk:
  assumes "vm_inv s"
  shows "unmap_page va s =
    (if \<not> canonical_address va \<or> \<not> page_aligned_address va \<or> tbl s (pt_path va) = 0 then s
     else emit (Invlpg va) (set_entry (tbl s (pt_path va)) (va_index 12 va) 0 s))"
  using vm_invD(1,2) [OF assms]
  by (simp add: unmap_page_def flush_tlb_page_def pt_path_def tbl.simps Let_def)

lemma hw_canonical_canonical: "hw_canonical va \<Longrightarrow> canonical_address va"
proof -
  assume c: "hw_canonical va"
  have "drop_bit 48 va = drop_bit 1 (drop_bit 47 va)" by (simp add: drop_bit_drop_bit)
  moreover have "drop_bit 1 (0 :: u64) = 0" "drop_bit 1 (0x1FFFF :: u64) = 0xFFFF" by simp_all
  ultimately show ?thesis using c unfolding canonical_address_def hw_canonical_def Let_def by metis
qed

lemma map_page_effect:
  assumes inv: "vm_inv s" and g: "map_guard va pa flags" and va: "hw_canonical va" "\<not> in_identity va"
    and s': "s' = map_page va pa flags s"
  shows "vm_inv s'"
    and "low_frames s < 3 \<and> tbl s' (pt_path va) = 0 \<and> hw_log s' = hw_log s \<and> translate s' = translate s
      \<or> tbl s' (pt_path va) \<noteq> 0 \<and> hw_log s' = Invlpg va # hw_log s
        \<and> get_entry (tbl s' (pt_path va)) (va_index 12 va) s' = pte_value pa flags
        \<and> translate s' = (\<lambda>x. if drop_bit 12 x = drop_bit 12 va then pte_target (pte_value pa flags) x
                              else translate s x)"
proof -
  obtain pt s1 where w: "walk_tables (va_index 39 va) (va_index 30 va) (va_index 21 va) s = (pt, s1)"
    by fastforce
  note W = walk_tables_spec [OF inv va_index_less va_index_less va_index_less va(2) [unfolded in_identity_def] w,
      folded pt_path_def]
  note T = tree_extends_translate [OF inv W(1,2)]
  have s'_eq: "s' = (if pt = 0 then s1
      else emit (Invlpg va) (set_entry pt (va_index 12 va) (pte_value pa flags) s1))"
    using g vm_invD(1) [OF inv] by (simp add: s' map_page_walk w)
  have "vm_inv s' \<and> (low_frames s < 3 \<and> tbl s' (pt_path va) = 0 \<and> hw_log s' = hw_log s \<and> translate s' = translate s
      \<or> tbl s' (pt_path va) \<noteq> 0 \<and> hw_log s' = Invlpg va # hw_log s
        \<and> get_entry (tbl s' (pt_path va)) (va_index 12 va) s' = pte_value pa flags
        \<and> translate s' = (\<lambda>x. if drop_bit 12 x = drop_bit 12 va then pte_target (pte_value pa flags) x
                              else translate s x))"
  proof (cases "pt = 0")
    case True
    then show ?thesis using W(1) W(4) [OF True] T tree_extendsD(2) [OF W(2)] s'_eq by auto
  next
    case False
    let ?s2 = "set_entry pt (va_index 12 va) (pte_value pa flags) s1"
    have e: "s' = emit (Invlpg va) ?s2" using s'_eq False by simp
    have pt: "tbl s1 (pt_path va) = pt" by (rule W(3) [OF False])
    have t: "tbl s1 (pt_path va) \<noteq> 0" using pt False by simp
    note q = pt_path_ok [OF va(2)]
    note S = set_pte_translate [OF W(1) va t refl, where v = "pte_value pa flags", unfolded pt]
    note P = set_pte_spec [OF W(1) q pt_path_length t va_index_less [of 12 va] refl,
      where v = "pte_value pa flags", unfolded pt]
    have tr: "translate s' x = (if drop_bit 12 x = drop_bit 12 va then pte_target (pte_value pa flags) x
        else translate s x)" for x
      using S(2,3) [of x] T [of x] by (simp add: e)
    have tb: "tbl s' (pt_path va) = pt" using P(2) [OF q] pt by (simp add: e)
    show ?thesis
      using S(1) P(3) [OF q, of "va_index 12 va"] va_index_less False tb pt tr tree_extendsD(2) [OF W(2)]
      by (auto simp: e)
  qed
  then show "vm_inv s'" and "low_frames s < 3 \<and> tbl s' (pt_path va) = 0 \<and> hw_log s' = hw_log s \<and> translate s' = translate s
      \<or> tbl s' (pt_path va) \<noteq> 0 \<and> hw_log s' = Invlpg va # hw_log s
        \<and> get_entry (tbl s' (pt_path va)) (va_index 12 va) s' = pte_value pa flags
        \<and> translate s' = (\<lambda>x. if drop_bit 12 x = drop_bit 12 va then pte_target (pte_value pa flags) x
                              else translate s x)" by blast+
qed

lemma unmap_page_effect:
  assumes inv: "vm_inv s" and va: "hw_canonical va" "page_aligned_address va" "\<not> in_identity va"
    and s': "s' = unmap_page va s"
  shows "vm_inv s'"
    and "translate s' x = (if drop_bit 12 x = drop_bit 12 va then None else translate s x)"
    and "free_frames s' = free_frames s"
proof -
  have c: "canonical_address va" by (rule hw_canonical_canonical [OF va(1)])
  have "vm_inv s' \<and> translate s' x = (if drop_bit 12 x = drop_bit 12 va then None else translate s x)
      \<and> free_frames s' = free_frames s"
  proof (cases "tbl s (pt_path va) = 0")
    case True
    have "translate s x = None" if e: "drop_bit 12 x = drop_bit 12 va"
    proof (cases "hw_canonical x")
      case x: True
      have "\<not> in_identity x" using va(3) same_page_path(2) [OF e] by simp
      from translate_pt [OF inv x this] show ?thesis
        using True unfolding same_page_path(1) [OF e] by simp
    qed (simp add: translate_def)
    then show ?thesis using True inv by (simp add: s' unmap_page_walk [OF inv])
  next
    case False
    note S = set_pte_translate [OF inv va(1,3) False refl, where v = 0]
    show ?thesis using S(1) S(2,3) [of x] c va(2) False
      by (simp add: s' unmap_page_walk [OF inv])
  qed
  then show "vm_inv s'"
    "translate s' x = (if drop_bit 12 x = drop_bit 12 va then None else translate s x)"
    "free_frames s' = free_frames s" by simp_all
qed

lemma pte_target_value:
  assumes "map_guard va pa flags"
  shows "pte_target (pte_value pa flags) x = Some (pa OR (x AND mask 12))"
  using pte_value_facts [of pa flags] assms by (simp add: pte_target_def map_guard_def)

section \<open>Pages inside the identity map\<close>

lemma ucast_u16_unat: "unat (ucast (i :: u16) :: u64) = unat i"
  by (simp add: unsigned_ucast_eq take_bit_nat_eq_self_iff less_trans [OF unsigned_less])

lemma identity_entry_table:
  assumes "unat i < 512"
  shows "entry_table (identity_entry i) = ucast i * 0x200000"
    "unat (ucast i * 0x200000 :: u64) = unat i * 0x200000"
proof -
  show u: "unat (ucast i * 0x200000 :: u64) = unat i * 0x200000"
    using assms by (simp add: unat_times_nowrap ucast_u16_unat)
  have al: "page_aligned_address (ucast i * 0x200000 :: u64)"
    unfolding aligned_iff u by (simp add: mod_eq_0_iff_dvd)
  have "(ucast i * 0x200000 :: u64) AND PAGE_ADDRESS_MASK = ucast i * 0x200000"
    by (rule address_mask_id [OF al]) (use assms u in simp)
  then have "identity_entry i AND PAGE_ADDRESS_MASK = ucast i * 0x200000"
    unfolding identity_entry_def by (rule entry_address) (simp add: PAGE_ADDRESS_MASK_def)
  moreover have "(ucast i * 0x200000 :: u64) < BOOTSTRAP_IDENTITY_LIMIT"
    using u assms by (simp add: BOOTSTRAP_IDENTITY_LIMIT_val word_less_nat_alt)
  ultimately show "entry_table (identity_entry i) = ucast i * 0x200000"
    using identity_entry_walk(1) [of i] al
    by (simp add: entry_table_def physical_to_bootstrap_virtual_def not_le [symmetric])
qed

lemma walk_identity:
  assumes inv: "vm_inv s"
  shows "walk_tables 0 0 i2 s = next_table (tbl s [0, 0]) i2 s"
proof -
  have "next_table (initial_pml4 s) 0 s = (tbl s [0], s)"
    using vm_invD(2,3) [OF inv] by (simp add: next_table_def tbl.simps Let_def split: if_splits)
  moreover have "next_table (tbl s [0]) 0 s = (tbl s [0, 0], s)"
    using vm_invD(3,4) [OF inv] tbl.simps(2) [of s 0 "[0]"] by (simp add: next_table_def Let_def)
  ultimately show ?thesis using vm_invD(3,4) [OF inv] by (simp add: walk_tables_def)
qed

text \<open>Writing an entry of a page that is no table changes no translation.\<close>

lemma set_foreign_translate:
  assumes inv: "vm_inv s" and a: "page_aligned_address u" "unat j < 512"
    and foreign: "\<And>p. path_ok p \<Longrightarrow> tbl s p \<noteq> u" and s': "s' = set_entry u j v s"
  shows "vm_inv s'" "translate s' x = translate s x"
proof -
  have get: "get_entry (tbl s p) k s' = get_entry (tbl s p) k s"
    if "path_ok p" "tbl s p \<noteq> 0" "unat k < 512" for p k
    using foreign [OF that(1)]
    by (simp add: s' get_set_entry [OF table_frameD(2) [OF vm_invD(6) [OF inv that(1,2)]] a(1) that(3) a(2)])
  have tb: "tbl s' p = tbl s p" if "path_ok p" for p
    using that
  proof (induction p)
    case (Cons k r)
    note kr = path_ok_tl [OF Cons.prems]
    show ?case using Cons.IH [OF interior_path_ok] get [OF interior_path_ok, of r k] kr
      by (simp add: tbl.simps)
  qed (simp add: tbl.simps s')
  have fr: "table_frame s' t = table_frame s t" for t by (simp add: table_frame_def s')
  show inv': "vm_inv s'"
    unfolding vm_inv_def
  proof (intro conjI allI impI)
    show "paging_enabled s'" "initial_pml4 s' \<noteq> 0" using vm_invD(1,2) [OF inv] by (simp_all add: s')
    show "tbl s' [0] \<noteq> 0" "tbl s' [0, 0] \<noteq> 0" using vm_invD(3,4) [OF inv] tb by simp_all
    show "get_entry (tbl s' [0, 0]) k s' = identity_entry k" if "unat k < 512" for k
      using get [of "[0, 0]" k] vm_invD(4) [OF inv] vm_invD(5) [OF inv that] that tb by simp
    show "table_frame s' (tbl s' p)" if "path_ok p" "tbl s' p \<noteq> 0" for p
      using vm_invD(6) [OF inv that(1)] that tb fr by simp
    show "p = q" if "path_ok p" "path_ok q" "tbl s' p \<noteq> 0" "tbl s' p = tbl s' q" for p q
      using vm_invD(7) [OF inv that(1,2)] that(3,4) tb [OF that(1)] tb [OF that(2)] by simp
    show "get_entry (tbl s' p) k s' = 0
        \<or> tbl s' (k # p) \<noteq> 0 \<and> get_entry (tbl s' p) k s' = table_entry (tbl s' (k # p))"
      if p: "interior p" "unat k < 512" "tbl s' p \<noteq> 0" for p k
      using get [OF interior_path_ok [OF p(1)] _ p(2)] tb [OF interior_path_ok [OF p(1)]]
        tb [OF interior_Cons [OF p(1,2)]] vm_invD(8) [OF inv p(1,2)] p(3) by simp
  qed
  show "translate s' x = translate s x"
  proof (cases "hw_canonical x \<and> \<not> in_identity x")
    case True
    then have x: "hw_canonical x" "\<not> in_identity x" by simp_all
    note q = pt_path_ok [OF x(2)]
    show ?thesis unfolding translate_pt [OF inv x] translate_pt [OF inv' x] tb [OF q]
      using get [OF q _ va_index_less [of 12 x]] by simp
  next
    case False
    then show ?thesis using translate_identity [OF inv] translate_identity [OF inv']
      by (cases "hw_canonical x") (simp_all add: in_identity_def translate_def)
  qed
qed

lemma map_identity_writes:
  assumes inv: "vm_inv s" and g: "map_guard va pa flags" and va: "in_identity va" "va_index 21 va \<noteq> 0"
  shows "map_page va pa flags s = emit (Invlpg va)
    (set_entry (ucast (va_index 21 va) * 0x200000) (va_index 12 va) (pte_value pa flags) s)"
proof -
  let ?i = "va_index 21 va"
  have e: "entry_table (get_entry (tbl s [0, 0]) ?i s) = ucast ?i * 0x200000"
    using vm_invD(5) [OF inv va_index_less [of 21 va]] identity_entry_table(1) [OF va_index_less [of 21 va]]
    by simp
  have "unat ?i \<noteq> 0" using va(2) by (metis unat_eq_0)
  then have "unat (ucast ?i * 0x200000 :: u64) \<noteq> 0"
    unfolding identity_entry_table(2) [OF va_index_less] by simp
  then have nz: "(ucast ?i * 0x200000 :: u64) \<noteq> 0" by (metis unat_0)
  have "walk_tables (va_index 39 va) (va_index 30 va) ?i s = (ucast ?i * 0x200000, s)"
    using va(1) walk_identity [OF inv] e nz by (simp add: in_identity_def next_table_def Let_def)
  then show ?thesis using g vm_invD(1) [OF inv] nz by (simp add: map_page_walk)
qed

lemma map_low_page_effect:
  assumes inv: "vm_inv s" and g: "map_guard va pa flags"
    and va: "hw_canonical va" "in_identity va" "va_index 21 va = 0"
    and free: "free_frames s \<inter> {1..<2048} \<noteq> {}"
    and x: "hw_canonical x" "in_identity x" "va_index 21 x = 0"
  shows "translate (map_page va pa flags s) x
    = (if drop_bit 12 x = drop_bit 12 va then Some (pa OR (x AND mask 12)) else None)"
proof (cases s rule: allocate_table_cases)
  case none
  with free show ?thesis by simp
next
  case (some t s1 p)
  let ?D = "tbl s [0, 0]" and ?v = "pte_value pa flags"
  have "entry_table (get_entry ?D 0 s) = 0"
    using vm_invD(5) [OF inv, of 0] identity_entry_table(1) [of 0] by simp
  then have "next_table ?D 0 s = (t, set_entry ?D 0 (table_entry t) s1)"
    using some(1,7) by (simp add: next_table_def Let_def)
  then have "walk_tables (va_index 39 va) (va_index 30 va) (va_index 21 va) s
      = (t, set_entry ?D 0 (table_entry t) s1)"
    using va walk_identity [OF inv] by (simp add: in_identity_def)
  then have m: "map_page va pa flags s
      = emit (Invlpg va) (set_entry t (va_index 12 va) ?v (set_entry ?D 0 (table_entry t) s1))"
    (is "_ = emit _ ?s2") using g vm_invD(1) [OF inv] some(7) by (simp add: map_page_walk)
  have pk: "path_ok []" "path_ok [0]" "path_ok [0, 0]" by simp_all
  have r: "tbl s [] = initial_pml4 s" "tbl s [] \<noteq> 0"
    using vm_invD(2) [OF inv] by (simp_all add: tbl.simps)
  note fr = vm_invD(6) [OF inv pk(1) r(2)] vm_invD(6) [OF inv pk(2) vm_invD(3) [OF inv]]
    vm_invD(6) [OF inv pk(3) vm_invD(4) [OF inv]]
  have tp: "unat t div 4096 = p" using some(2) by simp
  have n: "t \<noteq> tbl s []" "t \<noteq> tbl s [0]" "t \<noteq> ?D"
    using fr [THEN table_frameD(5)] some(5) tp by auto
  have d: "tbl s [] \<noteq> ?D" "tbl s [0] \<noteq> ?D"
    using vm_invD(7) [OF inv pk(1,3) r(2)] vm_invD(7) [OF inv pk(2,3) vm_invD(3) [OF inv]] by auto
  have get: "get_entry u i ?s2 = (if u = t \<and> i = va_index 12 va then ?v
      else if u = ?D \<and> i = 0 then table_entry t else if u = t then 0 else get_entry u i s)"
    if "page_aligned_address u" "unat i < 512" for u i
    using that some(8,10) va_index_less table_frameD(2) [OF fr(3)] by (simp add: get_set_entry)
  have e4: "get_entry (initial_pml4 ?s2) 0 ?s2 = table_entry (tbl s [0])"
    using get [OF table_frameD(2) [OF fr(1)], of 0] n(1) d(1) identity_path_entries(1) [OF inv] some(11)
    unfolding r(1) by simp
  have e3: "get_entry (tbl s [0]) 0 ?s2 = table_entry ?D"
    using get [OF table_frameD(2) [OF fr(2)], of 0] n(2) d(2) identity_path_entries(2) [OF inv] by simp
  have e2: "get_entry ?D 0 ?s2 = table_entry t"
    using get [OF table_frameD(2) [OF fr(3)], of 0] n(3) by simp
  have e1: "get_entry t (va_index 12 x) ?s2 = (if va_index 12 x = va_index 12 va then ?v else 0)"
    using get [OF some(8) va_index_less [of 12 x]] n(3) by simp
  have i: "va_index 39 x = 0" "va_index 30 x = 0" using x(2) by (simp_all add: in_identity_def)
  note w4 = table_entry_walk [OF inv pk(2) vm_invD(3) [OF inv]]
  note w3 = table_entry_walk [OF inv pk(3) vm_invD(4) [OF inv]]
  note w2 = table_entry_facts(1,2,3) [OF some(8,9)]
  have "translate ?s2 x = pte_target (if va_index 12 x = va_index 12 va then ?v else 0) x"
    unfolding translate_def pte_target_def Let_def i x(3)
    by (simp only: e4 w4 e3 w3 e2 w2 e1 x(1) if_True if_False simp_thms)
  moreover have "drop_bit 12 x = drop_bit 12 va \<longleftrightarrow> va_index 12 x = va_index 12 va"
    using same_va_page [OF x(1) va(1)] same_page_facts(2) [of x va 12] va x by (auto simp: in_identity_def)
  ultimately show ?thesis using pte_target_value [OF g] by (simp add: m)
qed

section \<open>Properties\<close>

text \<open>A concrete machine before \<open>vmm_init\<close>: eight free frames below 8 MiB, three static tables.\<close>

definition vmm_start :: vmm where
  "vmm_start = \<lparr>hw_log = [], port_in = (\<lambda>_ _. 0), tsc_in = (\<lambda>_. 0), cr2_in = (\<lambda>_. 0x1234),
     if_flag = False, vga_buffer = (\<lambda>_. 0), cursor_x = 0, cursor_y = 0,
     bitmap = (\<lambda>i. if i = 1 then 0 else 0xFF), total_pages = MAX_PAGES, free_pages = 8,
     mem = (\<lambda>_. 0xDEAD), initial_pml4 = 0x101000, initial_pdpt = 0x102000, initial_pd = 0x103000,
     paging_enabled = False\<rparr>"

lemma vmm_start_used: "page_used q vmm_start \<longleftrightarrow> q div 8 \<noteq> 1"
proof -
  have "bit (0xFF :: u8) (unat q mod 8)" by (rule byte_ff_bit) simp
  then show ?thesis by (simp add: page_used_bit vmm_start_def)
qed

lemma vmm_start_placed: "tables_placed vmm_start" "\<not> paging_enabled vmm_start"
proof -
  have "p \<notin> free_frames vmm_start" if "p \<in> {257, 258, 259}" for p
    using that by (auto simp: free_frames_def vmm_start_used)
  then show "tables_placed vmm_start"
    unfolding tables_placed_def table_frame_def
    by (simp add: aligned_mask_iff BOOTSTRAP_IDENTITY_LIMIT_val mask_numeral vmm_start_def)
  show "\<not> paging_enabled vmm_start" by (simp add: vmm_start_def)
qed

definition vmm_booted :: vmm where
  "vmm_booted = paging_init vmm_start"

lemma vmm_booted_inv: "vm_inv vmm_booted"
  unfolding vmm_booted_def by (rule paging_init_inv [OF vmm_start_placed])

lemma vmm_booted_low: "3 \<le> low_frames vmm_booted"
proof -
  have "{8, 9, 10} \<subseteq> free_frames vmm_booted \<inter> {1..<2048}"
    unfolding vmm_booted_def paging_init_fields(3) by (auto simp: free_frames_def vmm_start_used)
  from card_mono [OF _ this] show ?thesis by (simp add: low_frames_def)
qed

lemma low_address:
  assumes "unat va < 2 ^ 30"
  shows "hw_canonical va" "va_index 39 va = 0" "va_index 30 va = 0" "va AND mask 30 = va"
proof -
  have z: "drop_bit n va = 0" if "30 \<le> n" for n
  proof -
    have "unat (drop_bit n va) = unat va div 2 ^ n" by (simp only: unat_drop_bit_eq) (simp only: drop_bit_eq_div)
    also have "\<dots> = 0"
      using less_le_trans [OF assms power_increasing [OF that, of 2]] by (intro div_less) simp
    finally show ?thesis by (simp add: unat_eq_0)
  qed
  then show "hw_canonical va" "va_index 39 va = 0" "va_index 30 va = 0"
    by (simp_all add: hw_canonical_def va_index_def)
  have "unat (va AND mask 30) = unat va" using assms by (simp add: unat_and_mask)
  then show "va AND mask 30 = va" by (simp only: word_unat_eq_iff)
qed

lemma vmm_init_translate:
  assumes "tables_placed s" "\<not> paging_enabled s"
  shows "vm_inv (vmm_init s)
    \<and> translate (vmm_init s) va = (if va < BOOTSTRAP_IDENTITY_LIMIT then Some va else None)"
proof -
  have T: "translate (vmm_init s) va = translate (paging_init (put_string c s)) va"
    if "c = ''[VMM] Initializing x86_64 Virtual Memory Management subsystem...'' @ [CHR 0x0A]" for c
    unfolding vmm_init_def Let_def that by (rule translate_cong) simp_all
  define s0 where "s0 = put_string (''[VMM] Initializing x86_64 Virtual Memory Management subsystem...'' @ [CHR 0x0A]) s"
  have pl: "tables_placed s0" "\<not> paging_enabled s0"
    using assms by (simp_all add: s0_def tables_placed_def table_frame_def)
  note inv = paging_init_inv [OF pl]
  show ?thesis
  proof (cases "va < BOOTSTRAP_IDENTITY_LIMIT")
    case True
    then have "unat va < 2 ^ 30" by (simp add: BOOTSTRAP_IDENTITY_LIMIT_val word_less_nat_alt)
    note c = low_address [OF this]
    show ?thesis
      using vmm_init_inv [OF assms] T [OF refl] translate_identity [OF inv c(1,2,3)] True
      by (simp add: s0_def c(4))
  next
    case False
    have "translate (paging_init s0) va = None"
    proof (cases "hw_canonical va")
      case c: True
      have "\<not> in_identity va"
      proof
        assume "in_identity va"
        have nb: "\<not> bit va n" if n: "30 \<le> n" "n < 64" for n
        proof -
          have low: "\<not> bit va m" if m: "30 \<le> m" "m < 48" for m
            using va_index_bit [of "m - 30" 30 va] va_index_bit [of "m - 39" 39 va] m
              \<open>in_identity va\<close> by (cases "m < 39") (simp_all add: in_identity_def)
          show ?thesis using low [of n] low [of 47] hw_canonical_bits [OF c, of n] n by (cases "n < 48") simp_all
        qed
        have "bit (drop_bit 30 va) n = bit 0 n" for n
          using nb [of "30 + n"] bit_imp_le_length [of va "30 + n"] by (auto simp: bit_drop_bit_eq)
        then have "drop_bit 30 va = 0" by (simp add: bit_eq_iff)
        then have "unat va div 2 ^ 30 = 0" by (metis unat_drop_bit_eq drop_bit_eq_div unat_0)
        then have "unat va < 2 ^ 30" by (simp add: div_eq_0_iff)
        with False show False by (simp add: BOOTSTRAP_IDENTITY_LIMIT_val word_less_nat_alt)
      qed
      with c show ?thesis
        using translate_pt [OF inv c] paging_init_tree [OF pl pt_path_ok] by (simp add: pt_path_def)
    qed (simp add: translate_def)
    then show ?thesis using vmm_init_inv [OF assms] T [OF refl] False by (simp add: s0_def)
  qed
qed

text \<open>
  C9. When the three static tables are distinct page-aligned frames below 1 GiB that are not free,
  \<open>vmm_init\<close> turns paging on with a tree of tables in which every address of the first GiB (and,
  of all addresses, no other) translates to itself.
\<close>

theorem vmm_init_identity_map:
  assumes "tables_placed s" "\<not> paging_enabled s"
  shows "vm_inv (vmm_init s)
    \<and> translate (vmm_init s) va = (if va < BOOTSTRAP_IDENTITY_LIMIT then Some va else None)"
  by (rule vmm_init_translate [OF assms])

theorem vmm_init_identity_map_witness:
  "translate (vmm_init vmm_start) 0xB8000 = Some 0xB8000 \<and> translate (vmm_init vmm_start) 0x40000000 = None"
  using vmm_init_identity_map [OF vmm_start_placed, of "0xB8000"]
    vmm_init_identity_map [OF vmm_start_placed, of "0x40000000"]
  by (simp add: BOOTSTRAP_IDENTITY_LIMIT_val)

text \<open>
  C2. \<open>map_page\<close> on arguments its guard accepts, for a canonical address outside the first GiB and
  with at least three free frames below 8 MiB: the page translates to the given frame, every other
  address translates as before, the TLB entry of the page is flushed, and the tree of tables stays
  well formed.
\<close>

theorem map_page_translates:
  assumes "vm_inv s" "map_guard va pa flags" "hw_canonical va" "\<not> in_identity va" "3 \<le> low_frames s"
  shows "let t = map_page va pa flags s in vm_inv t \<and> hw_log t = Invlpg va # hw_log s
    \<and> (\<forall>x. translate t x =
         (if drop_bit 12 x = drop_bit 12 va then Some (pa OR (x AND mask 12)) else translate s x))"
  using map_page_effect [OF assms(1-4) refl] assms(5) pte_target_value [OF assms(2)]
  by (auto simp: Let_def)

lemma window_page_facts:
  "map_guard 0xFFFF800000003000 0xFEC00000 0x2" "hw_canonical 0xFFFF800000003000"
  "\<not> in_identity 0xFFFF800000003000" "page_aligned_address 0xFFFF800000003000"
  by (simp_all add: map_guard_def canonical_address_def aligned_mask_iff mask_numeral vmm_consts
      hw_canonical_def in_identity_def va_index_def)

theorem map_page_translates_witness:
  "translate (map_page 0xFFFF800000003000 0xFEC00000 0x2 vmm_booted) 0xFFFF800000003010 = Some 0xFEC00010"
  using map_page_translates [OF vmm_booted_inv window_page_facts(1,2,3) vmm_booted_low]
  by (simp add: Let_def mask_numeral)

text \<open>
  What \<open>map_page\<close> wrote can be read back through \<open>get_page_table\<close>: the entry holds the frame's
  address and exactly the flags asked for together with the present bit.
\<close>

theorem map_page_entry_readback:
  assumes "vm_inv s" "map_guard va pa flags" "hw_canonical va" "\<not> in_identity va" "3 \<le> low_frames s"
  shows "let t = map_page va pa flags s; e = get_entry (get_page_table va t) (va_index 12 va) t in
    get_page_table va t \<noteq> 0 \<and> e AND PAGE_ADDRESS_MASK = pa
    \<and> e AND PAGE_FLAG_MASK = flags OR PAGE_FLAG_PRESENT"
proof -
  let ?t = "map_page va pa flags s"
  note E = map_page_effect [OF assms(1-4) refl]
  have "get_page_table va ?t = tbl ?t (pt_path va)"
    by (rule get_page_table_tbl [OF E(1) hw_canonical_canonical [OF assms(3)]])
  then show ?thesis using E(2) assms(5) pte_value_facts [of pa flags] assms(2)
    by (auto simp: Let_def map_guard_def)
qed

theorem map_page_entry_readback_witness:
  "get_page_table 0xFFFF800000003000 (map_page 0xFFFF800000003000 0xFEC00000 0x2 vmm_booted) \<noteq> 0"
  using map_page_entry_readback [OF vmm_booted_inv window_page_facts(1,2,3) vmm_booted_low]
  by (simp add: Let_def)

text \<open>
  When the frames below 8 MiB run out, \<open>map_page\<close> returns without a report: then fewer than
  three were free, no translation has changed, nothing was flushed, and the tree of tables (which may
  have grown by empty tables) is still well formed; \<open>get_page_table\<close> of the address is NULL, which is
  how a caller can tell.
\<close>

theorem map_page_out_of_tables:
  assumes "vm_inv s" "map_guard va pa flags" "hw_canonical va" "\<not> in_identity va"
    and "get_page_table va (map_page va pa flags s) = 0"
  shows "let t = map_page va pa flags s in
    low_frames s < 3 \<and> translate t = translate s \<and> hw_log t = hw_log s \<and> vm_inv t"
proof -
  let ?t = "map_page va pa flags s"
  note E = map_page_effect [OF assms(1-4) refl]
  have "get_page_table va ?t = tbl ?t (pt_path va)"
    by (rule get_page_table_tbl [OF E(1) hw_canonical_canonical [OF assms(3)]])
  then show ?thesis using E assms(5) by (auto simp: Let_def)
qed

definition vmm_full :: vmm where
  "vmm_full = paging_init (vmm_start\<lparr>bitmap := (\<lambda>_. 0xFF)\<rparr>)"

lemma vmm_full_facts:
  "vm_inv vmm_full" "map_page 0xFFFF800000003000 0xFEC00000 0x2 vmm_full = vmm_full"
  "get_page_table 0xFFFF800000003000 vmm_full = 0"
proof -
  let ?s = "vmm_start\<lparr>bitmap := (\<lambda>_. 0xFF)\<rparr>" and ?va = "0xFFFF800000003000 :: u64"
  have "page_used q ?s" for q
  proof -
    have "bit (0xFF :: u8) (unat q mod 8)" by (rule byte_ff_bit) simp
    then show ?thesis by (simp add: page_used_bit)
  qed
  then have f: "free_frames ?s = {}" by (simp add: free_frames_def)
  have pl: "tables_placed ?s" "\<not> paging_enabled ?s"
    by (simp add: tables_placed_def table_frame_def f)
      (simp_all add: aligned_mask_iff BOOTSTRAP_IDENTITY_LIMIT_val mask_numeral vmm_start_def)
  show inv: "vm_inv vmm_full" unfolding vmm_full_def by (rule paging_init_inv [OF pl])
  have ff: "free_frames vmm_full = {}" unfolding vmm_full_def paging_init_fields(3) by (rule f)
  have i: "va_index 39 ?va = 256" by (simp add: va_index_def)
  have z: "tbl vmm_full [256] = 0"
    unfolding vmm_full_def by (subst paging_init_tree [OF pl]) (simp_all add: path_ok_def)
  then have e: "entry_table (get_entry (initial_pml4 vmm_full) 256 vmm_full) = 0"
    using vm_invD(2) [OF inv] by (simp add: tbl.simps)
  have "allocate_table vmm_full = (0, vmm_full)"
    by (cases vmm_full rule: allocate_table_cases) (simp_all add: ff)
  then have "next_table (initial_pml4 vmm_full) 256 vmm_full = (0, vmm_full)"
    by (simp add: next_table_def e)
  then show "map_page ?va 0xFEC00000 0x2 vmm_full = vmm_full"
    using vm_invD(1) [OF inv] by (simp add: map_page_walk walk_tables_def i)
  show "get_page_table ?va vmm_full = 0"
    using e by (simp add: get_page_table_def i)
qed

theorem map_page_out_of_tables_witness:
  "low_frames vmm_full < 3"
  using map_page_out_of_tables [OF vmm_full_facts(1) window_page_facts(1,2,3)]
  by (simp add: vmm_full_facts Let_def)

text \<open>
  \<open>unmap_page\<close> of a canonical, aligned address outside the first GiB leaves the page without a
  translation, mapped before or not, changes the translation of no other address, keeps the tree well
  formed and allocates nothing.
\<close>

theorem unmap_page_removes:
  assumes "vm_inv s" "hw_canonical va" "page_aligned_address va" "\<not> in_identity va"
  shows "let t = unmap_page va s in vm_inv t \<and> free_frames t = free_frames s
    \<and> (\<forall>x. translate t x = (if drop_bit 12 x = drop_bit 12 va then None else translate s x))"
  using unmap_page_effect [OF assms refl] by (simp add: Let_def)

theorem unmap_page_removes_witness:
  "translate (unmap_page 0xFFFF800000003000 (map_page 0xFFFF800000003000 0xFEC00000 0x2 vmm_booted))
     0xFFFF800000003010 = None"
  using unmap_page_removes [OF map_page_effect(1) [OF vmm_booted_inv window_page_facts(1,2,3) refl]
      window_page_facts(2,4,3)]
  by (simp add: Let_def)

text \<open>
  A virtual address in the first 2 MiB: the directory entry of the large page over frame 0 looks
  like an empty one to \<open>next_table\<close> (its address is 0, the NULL table), so \<open>map_page\<close> replaces
  the large page by a fresh page table and the rest of the first 2 MiB, the kernel's own low memory
  and the VGA text buffer included, loses its translation.
\<close>

theorem map_page_first_2M_drops_identity:
  assumes "vm_inv s" "map_guard va pa flags" "hw_canonical va" "in_identity va" "va_index 21 va = 0"
    and "free_frames s \<inter> {1..<2048} \<noteq> {}" "drop_bit 12 va \<noteq> 0xB8"
  shows "translate s 0xB8000 = Some 0xB8000 \<and> translate (map_page va pa flags s) 0xB8000 = None"
proof -
  have x: "hw_canonical 0xB8000" "va_index 39 0xB8000 = 0" "va_index 30 0xB8000 = 0" "va_index 21 0xB8000 = 0"
    by (simp_all add: hw_canonical_def va_index_def)
  have "drop_bit 12 (0xB8000 :: u64) \<noteq> drop_bit 12 va" using assms(7) by simp
  then show ?thesis
    using translate_identity [OF assms(1) x(1-3)]
      map_low_page_effect [OF assms(1-6) x(1) _ x(4)] x(2,3)
    by (simp add: in_identity_def mask_numeral)
qed

lemma low_page_facts: "map_guard 0x1000 0x1000 0x2" "hw_canonical 0x1000" "in_identity 0x1000"
  "va_index 21 0x1000 = 0" "drop_bit 12 (0x1000 :: u64) \<noteq> 0xB8"
  by (simp_all add: map_guard_def canonical_address_def aligned_mask_iff mask_numeral vmm_consts
      hw_canonical_def in_identity_def va_index_def)

theorem map_page_first_2M_drops_identity_witness:
  "translate (map_page 0x1000 0x1000 0x2 vmm_booted) 0xB8000 = None"
proof -
  have "free_frames vmm_booted \<inter> {1..<2048} \<noteq> {}" using vmm_booted_low by (auto simp: low_frames_def)
  from map_page_first_2M_drops_identity [OF vmm_booted_inv low_page_facts(1-4) this low_page_facts(5)]
  show ?thesis ..
qed

text \<open>
  C10. A virtual address in the rest of the first GiB: \<open>map_page\<close> takes the 2 MiB page that maps it
  for a page table, because \<open>entry_table\<close> does not look at the page-size bit, and stores the new entry
  into that page's own memory.  When no table lies there no translation changes: the call corrupts
  eight bytes of memory and maps nothing.
\<close>

theorem map_page_identity_corrupts:
  assumes "vm_inv s" "map_guard va pa flags" "in_identity va" "va_index 21 va \<noteq> 0"
  shows "let t = map_page va pa flags s; u = ucast (va_index 21 va) * 0x200000 in
    mem t = (mem s)(u + 8 * ucast (va_index 12 va) := pte_value pa flags)
    \<and> ((\<forall>p. path_ok p \<longrightarrow> tbl s p \<noteq> u) \<longrightarrow> translate t = translate s)"
proof -
  let ?u = "ucast (va_index 21 va) * 0x200000 :: u64"
  note m = map_identity_writes [OF assms]
  have "unat ?u mod 4096 = 0"
    unfolding identity_entry_table(2) [OF va_index_less] by (simp add: mod_eq_0_iff_dvd)
  then have al: "page_aligned_address ?u" by (simp add: aligned_iff)
  have "translate (map_page va pa flags s) x = translate s x" if "\<forall>p. path_ok p \<longrightarrow> tbl s p \<noteq> ?u" for x
    using set_foreign_translate(2) [OF assms(1) al va_index_less [of 12 va] _ refl] that by (simp add: m)
  moreover have "mem (map_page va pa flags s) = (mem s)(?u + 8 * ucast (va_index 12 va) := pte_value pa flags)"
    unfolding m by (simp add: set_entry_def entry_addr_def)
  ultimately show ?thesis by (auto simp: Let_def)
qed

theorem map_page_identity_corrupts_witness:
  "mem (map_page 0x400000 0x5000 0x2 vmm_booted) 0x400000 = 0x5003"
proof -
  have g: "map_guard 0x400000 0x5000 0x2" "in_identity 0x400000" "va_index 21 0x400000 \<noteq> 0"
    by (simp_all add: map_guard_def canonical_address_def aligned_mask_iff mask_numeral vmm_consts
        in_identity_def va_index_def)
  show ?thesis
    using map_page_identity_corrupts [OF vmm_booted_inv g]
    by (simp add: Let_def va_index_def pte_value_def vmm_consts)
qed

text \<open>
  The test of \<open>canonical_address\<close> leaves out bit 47: 0x0000800000000000 passes it although the
  processor refuses the address, and \<open>map_page\<close> of it installs a translation for another address,
  0xFFFF800000000000, the first page of the ACPI mapping window.
\<close>

theorem map_page_noncanonical_alias:
  assumes "vm_inv s" "map_guard 0xFFFF800000000000 pa flags" "3 \<le> low_frames s"
  shows "canonical_address 0x0000800000000000 \<and> \<not> hw_canonical 0x0000800000000000
    \<and> translate (map_page 0x0000800000000000 pa flags s) 0x0000800000000000 = None
    \<and> translate (map_page 0x0000800000000000 pa flags s) 0xFFFF800000000000 = Some pa"
proof -
  let ?a = "0x0000800000000000 :: u64" and ?b = "0xFFFF800000000000 :: u64"
  have c: "canonical_address ?a" "\<not> hw_canonical ?a" "hw_canonical ?b" "\<not> in_identity ?b"
    by (simp_all add: canonical_address_def hw_canonical_def in_identity_def va_index_def)
  have g: "map_guard ?a pa flags"
    using assms(2) c(1) by (simp add: map_guard_def aligned_mask_iff mask_numeral)
  have i: "va_index 39 ?a = va_index 39 ?b" "va_index 30 ?a = va_index 30 ?b"
    "va_index 21 ?a = va_index 21 ?b" "va_index 12 ?a = va_index 12 ?b"
    by (simp_all add: va_index_def)
  obtain pt s1 where w: "walk_tables (va_index 39 ?b) (va_index 30 ?b) (va_index 21 ?b) s = (pt, s1)"
    by fastforce
  have "mem (map_page ?a pa flags s) = mem (map_page ?b pa flags s)"
    "initial_pml4 (map_page ?a pa flags s) = initial_pml4 (map_page ?b pa flags s)"
    using g assms(2) by (simp_all add: map_page_walk i w)
  then have "translate (map_page ?a pa flags s) ?b = translate (map_page ?b pa flags s) ?b"
    by (intro translate_cong)
  also have "\<dots> = Some pa"
    using map_page_effect(2) [OF assms(1,2) c(3,4) refl] assms(3) pte_target_value [OF assms(2), of ?b]
    by (auto simp: mask_numeral)
  finally show ?thesis using c by (simp add: translate_def)
qed

theorem map_page_noncanonical_alias_witness:
  "translate (map_page 0x0000800000000000 0x5000 0x2 vmm_booted) 0xFFFF800000000000 = Some 0x5000"
proof -
  have "map_guard 0xFFFF800000000000 0x5000 0x2"
    by (simp add: map_guard_def canonical_address_def aligned_mask_iff mask_numeral vmm_consts)
  from map_page_noncanonical_alias [OF vmm_booted_inv this vmm_booted_low] show ?thesis by simp
qed

text \<open>
  The page-fault handler never returns: it prints the faulting address, masks interrupts and
  stops, and no argument of its \<open>printf\<close> is missing.
\<close>

theorem vmm_page_fault_handler_halts:
  "\<exists>t. vmm_page_fault_handler s = Inr (Halted t) \<and> \<not> if_flag t
     \<and> t = cli (put_string (''[VMM] Page fault at '' @ render_x (cr2_in s (hw_log s)) @ [CHR 0x0A])
              (emit ReadCr2 s))"
proof -
  have "render (''[VMM] Page fault at %x'' @ [CHR 0x0A]) [VU64 w]
      = Inr (''[VMM] Page fault at '' @ render_x w @ [CHR 0x0A])" for w
    by simp
  then show ?thesis
    by (simp add: vmm_page_fault_handler_def read_cr2_def printf_render cli_def emit_def)
qed

text \<open>
  \<open>get_all_pages\<close> on two distinct, non-null, aligned pages turns the first into the page table
  that maps the first 2 MiB onto themselves, writable, and the second into a directory whose only
  entry is that table; on any other pair it does nothing.
\<close>

theorem get_all_pages_identity:
  assumes "page_aligned_address u" "unat i < 512"
  shows "get_entry u i (get_all_pages pt pd s) =
    (if pt = 0 \<or> pd = 0 \<or> pt = pd \<or> \<not> page_aligned_address pt \<or> \<not> page_aligned_address pd
     then get_entry u i s
     else if u = pd then if i = 0 then table_entry pt else 0
     else if u = pt then (ucast i * 0x1000) OR 0x3
     else get_entry u i s)"
proof (cases "pt = 0 \<or> pd = 0 \<or> pt = pd \<or> \<not> page_aligned_address pt \<or> \<not> page_aligned_address pd")
  case True
  then show ?thesis by (simp add: get_all_pages_def)
next
  case False
  then have al: "page_aligned_address pt" "page_aligned_address pd" and ne: "pt \<noteq> pd" by simp_all
  have z: "unat (0 :: u16) < 512" by simp
  have c: "(ucast i * PAGE_SIZE) OR PAGE_FLAG_PRESENT OR PAGE_FLAG_WRITABLE = (ucast i * 0x1000) OR (0x3 :: u64)"
    by (simp add: vmm_consts or.assoc)
  have f: "get_entry u i (for_up 0 512 (\<lambda>index. set_entry pt (of_nat index)
        ((of_nat index * PAGE_SIZE) OR PAGE_FLAG_PRESENT OR PAGE_FLAG_WRITABLE)) s)
      = (if u = pt then (ucast i * 0x1000) OR 0x3 else get_entry u i s)"
    using fill_table [where g = "\<lambda>_. pt" and T = pt and s = s and u = u and i = i
        and v = "\<lambda>k. (of_nat k * PAGE_SIZE) OR PAGE_FLAG_PRESENT OR PAGE_FLAG_WRITABLE", OF al(1) assms]
    by (simp add: c)
  show ?thesis
    using False ne f
    by (simp add: get_all_pages_def Let_def get_set_entry [OF assms(1) al(2) assms(2) z]
        get_entry_zero_page [OF al(2) assms] get_entry_zero_page [OF al(2) al(2) assms(2)])
qed

theorem get_all_pages_identity_witness:
  "get_entry 0x2000 3 (get_all_pages 0x2000 0x3000 vmm_start) = 0x3003"
proof -
  have "page_aligned_address 0x2000" "page_aligned_address 0x3000" by (simp_all add: aligned_mask_iff mask_numeral)
  then show ?thesis using get_all_pages_identity [of "0x2000" 3 "0x2000" "0x3000" vmm_start] by simp
qed

end
