(* ===== verification/ScreenProps.thy ===== *)
theory ScreenProps
  imports Printf
begin

text \<open>
  The properties of the text output of \<open>kernel/lib/std/stdio.c\<close>: what a character does to the cells of
  the screen and to the cursor, what \<open>printf\<close> prints for a format and its arguments, and \<open>strcmp\<close>.
\<close>

text \<open>A concrete screen: all cells zero, cursor at the start of the last row.\<close>

definition last_row :: screen where
  "last_row = \<lparr>hw_log = [], port_in = (\<lambda>_ _. 0), tsc_in = (\<lambda>_. 0), cr2_in = (\<lambda>_. 0), if_flag = False,
     vga_buffer = (\<lambda>_. 0), cursor_x = 0, cursor_y = 59\<rparr>"

lemma last_row_ok: "cursor_ok last_row" "cursor_y last_row = 59" "cursor_x last_row = 0"
  by (simp_all add: cursor_ok_def last_row_def vga_consts)

lemma put_string_screen:
  assumes "cursor_ok s"
  shows "cursor_ok (put_string cs s)" "\<not> on_screen i \<Longrightarrow> vga_buffer (put_string cs s) i = vga_buffer s i"
proof -
  have "cursor_ok (put_string cs s) \<and> (\<not> on_screen i \<longrightarrow> vga_buffer (put_string cs s) i = vga_buffer s i)"
    using assms
  proof (induction cs arbitrary: s)
    case (Cons c cs)
    then show ?case
      using Cons.IH [OF putchar_cursor_ok [OF Cons.prems, of c]] putchar_off_screen [OF Cons.prems] by simp
  qed simp
  then show "cursor_ok (put_string cs s)" "\<not> on_screen i \<Longrightarrow> vga_buffer (put_string cs s) i = vga_buffer s i"
    by simp_all
qed

section \<open>Properties\<close>

text \<open>
  C17. \<open>putchar\<close> keeps the cursor on the 80 by 60 screen and writes no cell outside it, whatever the
  character, also when it wraps at the right edge or scrolls.
\<close>

theorem putchar_stays_on_screen:
  assumes "cursor_ok s"
  shows "cursor_ok (putchar c s) \<and> (\<not> on_screen i \<longrightarrow> vga_buffer (putchar c s) i = vga_buffer s i)"
  using putchar_cursor_ok [OF assms] putchar_off_screen [OF assms] by blast

theorem putchar_stays_on_screen_witness:
  "cursor_ok (putchar CHR ''A'' last_row) \<and> vga_buffer (putchar CHR ''A'' last_row) 4800 = 0"
  using putchar_stays_on_screen [OF last_row_ok(1), of "CHR ''A''" 4800]
  by (simp add: on_screen_def vga_consts) (simp add: last_row_def)

text \<open>
  A newline on the last row scrolls: every row takes the contents of the row below it, the last row
  becomes blank and the cursor stands at its start.
\<close>

theorem newline_scrolls:
  assumes "cursor_ok s" "cursor_y s = VGA_HEIGHT - 1" "on_screen i"
  shows "let t = putchar CHR 0x0A s in cursor_x t = 0 \<and> cursor_y t = VGA_HEIGHT - 1
    \<and> vga_buffer t i = (if i < (VGA_HEIGHT - 1) * VGA_WIDTH then vga_buffer s (i + VGA_WIDTH)
                         else vga_entry CHR '' '' 0x07)"
  using assms by (simp add: putchar_def Let_def scroll_screen_cells vga_consts)

theorem newline_scrolls_witness:
  "vga_buffer (putchar CHR 0x0A last_row) 4720 = 0x0720"
  using newline_scrolls [OF last_row_ok(1), of 4720] last_row_ok(2)
  by (simp add: on_screen_def vga_consts Let_def vga_entry_def)

text \<open>
  C16. \<open>printf\<close> prints exactly the text \<open>render\<close> describes, character by character, or fails where
  \<open>render\<close> fails; the cursor stays on the screen and no cell outside it is written.
\<close>

theorem printf_prints_render:
  assumes "cursor_ok s"
  shows "case render fmt args of
      Inl e \<Rightarrow> printf fmt args s = Inl e
    | Inr cs \<Rightarrow> \<exists>t. printf fmt args s = Inr t \<and> t = fold putchar cs s \<and> cursor_ok t
        \<and> (\<forall>i. \<not> on_screen i \<longrightarrow> vga_buffer t i = vga_buffer s i)"
  using put_string_screen [OF assms] by (auto simp: printf_render put_string_def split: sum.split)

theorem printf_prints_render_witness:
  "\<exists>t. printf ''at %x%%'' [VU64 255] last_row = Inr t \<and> t = fold putchar ''at 0x00000000000000FF%'' last_row"
proof -
  have "render ''at %x%%'' [VU64 255] = Inr ''at 0x00000000000000FF%''" by code_simp
  with printf_prints_render [OF last_row_ok(1), of "''at %x%%''" "[VU64 255]"] show ?thesis by auto
qed

text \<open>
  \<open>%u\<close> prints a decimal numeral that reads back as the number, without its sign or leading digits
  lost, for every 64-bit value, and its digits fit the 21-byte buffer.
\<close>

theorem printf_u_roundtrip:
  "\<exists>cs. printf ''%u'' [VU64 w] s = Inr (put_string cs s) \<and> decimal_value cs = unat w
     \<and> length (digits_u64 w []) < 21"
  using digits_u64_fits [of w]
  by (intro exI [of _ "decimal (unat w)"]) (simp add: put_u_decimal decimal_value_decimal)

text \<open>
  \<open>%d\<close> prints a minus sign and the decimal numeral of the absolute value, except for the least
  \<open>int\<close>: negating it overflows, the digit loop does not run, and only the sign is printed.
\<close>

theorem printf_d_signed:
  "\<exists>cs. printf ''%d'' [VInt w] s = Inr (put_string cs s)
     \<and> (if sint w = - (2 ^ 31) then cs = ''-''
        else if sint w < 0 then \<exists>ds. cs = CHR ''-'' # ds \<and> int (decimal_value ds) = - sint w
        else int (decimal_value cs) = sint w)"
  by (intro exI [of _ "render_d w"]) (simp add: put_d_render render_d_def decimal_value_decimal)

text \<open>
  A format that ends in a lone \<open>%\<close> makes \<open>printf\<close> read past the terminator of the format string,
  whatever comes before it, as long as the conversions before it find their arguments.
\<close>

lemma render_overrun:
  "CHR ''%'' \<notin> set fmt \<Longrightarrow> render (fmt @ [CHR ''%'']) args = Inl FormatOverrun"
  by (induction fmt) auto

theorem printf_trailing_percent:
  assumes "CHR ''%'' \<notin> set fmt"
  shows "printf (fmt @ [CHR ''%'']) args s = Inl FormatOverrun"
  by (simp add: printf_render render_overrun [OF assms])

theorem printf_trailing_percent_witness:
  "printf ''100%'' [] last_row = Inl FormatOverrun"
  using printf_trailing_percent [of "''100''" "[]" last_row] by simp

text \<open>
  \<open>strcmp\<close> orders C strings: it is 0 exactly on equal strings, and swapping the arguments negates it.
\<close>

lemma strcmp_swap: "strcmp b a = - strcmp a b"
  by (induction a b rule: strcmp.induct) auto

theorem strcmp_order:
  assumes "CHR 0x00 \<notin> set a" "CHR 0x00 \<notin> set b"
  shows "(strcmp a b = 0 \<longleftrightarrow> a = b) \<and> strcmp b a = - strcmp a b"
  using strcmp_eq_0 [OF assms] strcmp_swap by blast

theorem strcmp_order_witness:
  "strcmp ''help'' ''help'' = 0 \<and> strcmp ''help'' ''hello'' \<noteq> 0"
  using strcmp_order [of "''help''" "''help''"] strcmp_order [of "''help''" "''hello''"] by simp

end
