(* ===== verification/Memory.thy ===== *)
theory Memory
  imports Prelude
begin

text \<open>
  Memory as a function from addresses to bytes, the little-endian loads and stores of up to eight
  bytes that the C code makes through its pointers, \<open>memset\<close> of \<open>kernel/lib/std/string.c\<close>, and
  what a load reads after a store.
\<close>

section \<open>Memory\<close>

primrec load :: "nat \<Rightarrow> u64 \<Rightarrow> (u64 \<Rightarrow> u8) \<Rightarrow> u64" where
  "load 0 a m = 0"
| "load (Suc n) a m = ucast (m a) OR push_bit 8 (load n (a + 1) m)"

primrec store :: "nat \<Rightarrow> u64 \<Rightarrow> u64 \<Rightarrow> (u64 \<Rightarrow> u8) \<Rightarrow> u64 \<Rightarrow> u8" where
  "store 0 a v m = m"
| "store (Suc n) a v m = store n (a + 1) (drop_bit 8 v) (m(a := ucast v))"

section \<open>memset\<close>

text \<open>
  \<open>while (len--) *ptr++ = (unsigned char)val;\<close>: the count is 32 bits wide and the address it
  returns is \<open>dest\<close>.
\<close>

definition memset :: "u64 \<Rightarrow> u32 \<Rightarrow> u32 \<Rightarrow> (u64 \<Rightarrow> u8) \<Rightarrow> u64 \<Rightarrow> u8" where
  "memset dest val len = for_up 0 (unat len) (\<lambda>i m. m(dest + of_nat i := ucast val))"

section \<open>Reading back what was written\<close>

lemma unat_addr: "x < 2 ^ 64 \<Longrightarrow> unat (of_nat x :: u64) = x"
  by (simp add: unat_of_nat take_bit_nat_eq_self_iff)

lemma of_nat_addr_eq: "x < 2 ^ 64 \<Longrightarrow> y < 2 ^ 64 \<Longrightarrow> (of_nat x :: u64) = of_nat y \<longleftrightarrow> x = y"
  by (metis unat_addr)

lemma store_byte:
  assumes "a + n \<le> 2 ^ 64" "x < 2 ^ 64"
  shows "store n (of_nat a) v m (of_nat x)
    = (if a \<le> x \<and> x < a + n then ucast (drop_bit (8 * (x - a)) v) else m (of_nat x))"
  using assms(1)
proof (induction n arbitrary: a v m)
  case (Suc n)
  have "store (Suc n) (of_nat a) v m (of_nat x)
      = store n (of_nat (Suc a)) (drop_bit 8 v) (m(of_nat a := ucast v)) (of_nat x)"
    by (simp add: add.commute)
  also have "\<dots> = (if Suc a \<le> x \<and> x < Suc a + n then ucast (drop_bit (8 * (x - Suc a)) (drop_bit 8 v))
      else (m(of_nat a := ucast v)) (of_nat x))"
    by (rule Suc.IH) (use Suc.prems in simp)
  also have "\<dots> = (if a \<le> x \<and> x < a + Suc n then ucast (drop_bit (8 * (x - a)) v) else m (of_nat x))"
  proof (cases "x = a")
    case False
    then have "(of_nat x :: u64) \<noteq> of_nat a" using assms(2) Suc.prems by (simp add: of_nat_addr_eq)
    moreover have "8 * (x - Suc a) + 8 = 8 * (x - a)" if "Suc a \<le> x" using that by simp
    ultimately show ?thesis using False by (auto simp: drop_bit_drop_bit)
  qed simp
  finally show ?case .
qed auto

lemma load_bit:
  assumes "a + n \<le> 2 ^ 64" "n \<le> 8"
  shows "bit (load n (of_nat a) m) k \<longleftrightarrow> k < 8 * n \<and> bit (m (of_nat (a + k div 8))) (k mod 8)"
  using assms
proof (induction n arbitrary: a k)
  case (Suc n)
  have IH: "bit (load n (of_nat (Suc a)) m) j \<longleftrightarrow> j < 8 * n \<and> bit (m (of_nat (Suc a + j div 8))) (j mod 8)" for j
    by (rule Suc.IH) (use Suc.prems in simp_all)
  have e: "of_nat a + (1 :: u64) = of_nat (Suc a)" by simp
  show ?case
  proof (cases "k < 8")
    case True
    then show ?thesis by (simp add: bit_simps)
  next
    case False
    then have k: "a + k div 8 = Suc a + (k - 8) div 8" "k mod 8 = (k - 8) mod 8"
      by (simp_all add: le_div_geq le_mod_geq)
    have "bit (load (Suc n) (of_nat a) m) k \<longleftrightarrow> k < 64 \<and> bit (load n (of_nat (Suc a)) m) (k - 8)"
      using False by (auto simp: bit_simps e simp del: of_nat_Suc dest: bit_imp_le_length)
    also have "\<dots> \<longleftrightarrow> k < 8 * Suc n \<and> bit (m (of_nat (a + k div 8))) (k mod 8)"
      unfolding IH k using False Suc.prems(2) by auto
    finally show ?thesis .
  qed
qed simp

lemma load_store_same:
  assumes "a + n \<le> 2 ^ 64" "n \<le> 8"
  shows "load n (of_nat a) (store n (of_nat a) v m) = take_bit (8 * n) v"
proof (rule bit_word_eqI)
  fix k assume k: "k < LENGTH(64)"
  show "bit (load n (of_nat a) (store n (of_nat a) v m)) k = bit (take_bit (8 * n) v) k"
  proof (cases "k < 8 * n")
    case True
    then have d: "k div 8 < n" by simp
    have s: "store n (of_nat a) v m (of_nat (a + k div 8)) = ucast (drop_bit (8 * (k div 8)) v)"
      using store_byte [OF assms(1), of "a + k div 8" v m] d assms(1) by simp
    have "bit (load n (of_nat a) (store n (of_nat a) v m)) k
        \<longleftrightarrow> bit (ucast (drop_bit (8 * (k div 8)) v) :: u8) (k mod 8)"
      unfolding load_bit [OF assms] s using True by simp
    also have "\<dots> \<longleftrightarrow> bit v k" by (simp add: bit_simps)
    finally show ?thesis using True by (simp add: bit_take_bit_iff)
  next
    case False
    then show ?thesis unfolding load_bit [OF assms] by (simp add: bit_take_bit_iff)
  qed
qed

lemma load_cong:
  assumes "\<And>x. a \<le> x \<Longrightarrow> x < a + n \<Longrightarrow> m (of_nat x) = m' (of_nat x)" "a + n \<le> 2 ^ 64" "n \<le> 8"
  shows "load n (of_nat a) m = load n (of_nat a) m'"
proof -
  have e: "m (of_nat (a + k div 8)) = m' (of_nat (a + k div 8))" if "k < 8 * n" for k
    using that by (intro assms(1)) auto
  show ?thesis
  proof (rule bit_word_eqI)
    fix k show "bit (load n (of_nat a) m) k = bit (load n (of_nat a) m') k"
      unfolding load_bit [OF assms(2,3)] using e [of k] by auto
  qed
qed

lemma load_store_other:
  assumes "a + n \<le> 2 ^ 64" "b + k \<le> 2 ^ 64" "k \<le> 8" "a + n \<le> b \<or> b + k \<le> a"
  shows "load k (of_nat b) (store n (of_nat a) v m) = load k (of_nat b) m"
proof (rule load_cong)
  fix x assume x: "b \<le> x" "x < b + k"
  then have "x < 2 ^ 64" "\<not> (a \<le> x \<and> x < a + n)" using assms by auto
  then show "store n (of_nat a) v m (of_nat x) = m (of_nat x)"
    by (auto simp: store_byte [OF assms(1)])
qed (use assms in auto)

lemma fill_byte:
  assumes "a + n \<le> 2 ^ 64" "x < 2 ^ 64"
  shows "for_up 0 n (\<lambda>i m. m(of_nat a + of_nat i := v)) m (of_nat x :: u64)
    = (if a \<le> x \<and> x < a + n then v else m (of_nat x))"
proof -
  have inj: "inj_on (\<lambda>i. of_nat a + of_nat i :: u64) {0..<n}"
  proof (rule inj_onI)
    fix i j assume "i \<in> {0..<n}" "j \<in> {0..<n}" "of_nat a + of_nat i = (of_nat a + of_nat j :: u64)"
    then show "i = j"
      using of_nat_addr_eq [of "a + i" "a + j"] assms(1) by simp
  qed
  note F = for_up_fill_inj [where arr = "\<lambda>m. m" and k = "\<lambda>i. of_nat a + of_nat i :: u64" and v = "\<lambda>_. v",
      OF refl inj, of _ m]
  show ?thesis
  proof (cases "a \<le> x \<and> x < a + n")
    case True
    then have "of_nat x = (of_nat a + of_nat (x - a) :: u64)" by (simp flip: of_nat_add)
    moreover have "x - a < n" using True by auto
    ultimately show ?thesis using F(1) [of "x - a"] True by simp
  next
    case False
    have "of_nat x \<notin> (\<lambda>i. of_nat a + of_nat i :: u64) ` {0..<n}"
    proof
      assume "of_nat x \<in> (\<lambda>i. of_nat a + of_nat i :: u64) ` {0..<n}"
      then obtain i where i: "i < n" "(of_nat x :: u64) = of_nat (a + i)" by auto
      then have "x = a + i" using of_nat_addr_eq [of x "a + i"] assms by simp
      with i False show False by simp
    qed
    then show ?thesis using F(2) [of "of_nat x"] False by auto
  qed
qed

lemma memset_byte:
  assumes "a + unat len \<le> 2 ^ 64" "x < 2 ^ 64"
  shows "memset (of_nat a) val len m (of_nat x) = (if a \<le> x \<and> x < a + unat len then ucast val else m (of_nat x))"
  unfolding memset_def by (rule fill_byte [OF assms])

lemma load_zero:
  assumes "\<And>x. a \<le> x \<Longrightarrow> x < a + n \<Longrightarrow> m (of_nat x) = 0" "a + n \<le> 2 ^ 64" "n \<le> 8"
  shows "load n (of_nat a) m = 0"
proof (rule bit_word_eqI)
  fix k show "bit (load n (of_nat a) m) k = bit (0 :: u64) k"
    unfolding load_bit [OF assms(2,3)] using assms(1) [of "a + k div 8"] by auto
qed

lemma load_memset_0:
  assumes "a + unat len \<le> 2 ^ 64" "a \<le> b" "b + n \<le> a + unat len" "n \<le> 8"
  shows "load n (of_nat b) (memset (of_nat a) 0 len m) = 0"
  by (rule load_zero) (use assms memset_byte in auto)

section \<open>Fields of structures\<close>

text \<open>
  A structure of \<open>w\<close> bytes at a word address that does not run over the end of the address space, and
  two such structures that do not overlap.
\<close>

definition room :: "u64 \<Rightarrow> nat \<Rightarrow> bool" where
  "room e w \<longleftrightarrow> unat e + w \<le> 2 ^ 64"

definition apart :: "u64 \<Rightarrow> u64 \<Rightarrow> nat \<Rightarrow> bool" where
  "apart e e' w \<longleftrightarrow> unat e + w \<le> unat e' \<or> unat e' + w \<le> unat e"

lemma field_addr: "room e w \<Longrightarrow> unat p < w \<Longrightarrow> unat (e + p) = unat e + unat p"
  by (simp add: room_def unat_word_ariths)

lemma field_word:
  assumes "room e w" "unat p + n \<le> w" "0 < n"
  shows "of_nat (unat (e + p)) = e + p" "unat (e + p) = unat e + unat p" "unat (e + p) + n \<le> 2 ^ 64"
  using assms field_addr [of e w p] by (auto simp: room_def)

lemma field_same:
  assumes "room e w" "unat p + n \<le> w" "0 < n" "n \<le> 8"
  shows "load n (e + p) (store n (e + p) v m) = take_bit (8 * n) v"
  using load_store_same [of "unat (e + p)" n v m] field_word [OF assms(1-3)] assms(4) by simp

lemma field_other:
  assumes "room e w" "unat p + n \<le> w" "unat q + k \<le> w" "0 < n" "0 < k" "k \<le> 8"
    and "unat p + n \<le> unat q \<or> unat q + k \<le> unat p"
  shows "load k (e + q) (store n (e + p) v m) = load k (e + q) m"
proof -
  note P = field_word [OF assms(1,2,4)] and Q = field_word [OF assms(1,3,5)]
  have "load k (of_nat (unat (e + q))) (store n (of_nat (unat (e + p))) v m) = load k (of_nat (unat (e + q))) m"
    by (rule load_store_other) (use P Q assms in auto)
  then show ?thesis by (simp only: P(1) Q(1))
qed

lemma field_apart:
  assumes "apart e e' w" "room e w" "room e' w" "unat p + n \<le> w" "unat q + k \<le> w" "0 < n" "0 < k" "k \<le> 8"
  shows "load k (e' + q) (store n (e + p) v m) = load k (e' + q) m"
proof -
  note P = field_word [OF assms(2,4,6)] and Q = field_word [OF assms(3,5,7)]
  have "load k (of_nat (unat (e' + q))) (store n (of_nat (unat (e + p))) v m) = load k (of_nat (unat (e' + q))) m"
    by (rule load_store_other) (use P Q assms in \<open>auto simp: apart_def\<close>)
  then show ?thesis by (simp only: P(1) Q(1))
qed

text \<open>The same with a field at offset 0.\<close>

lemmas field_same_0 = field_same [of _ _ 0, simplified]
lemmas field_other_0 = field_other [of _ _ 0, simplified] field_other [of _ _ _ _ 0, simplified]
lemmas field_apart_0 = field_apart [of _ _ _ 0, simplified] field_apart [of _ _ _ _ _ 0, simplified]
  field_apart [of _ _ _ 0 _ 0, simplified]

lemmas field_simps' = field_same field_same_0 field_other field_other_0
lemmas apart_simps = field_apart field_apart_0

end
