(* ===== verification/Heap.thy ===== *)
theory Heap
  imports Memory
begin

text \<open>
  The kernel heap, \<open>kernel/lib/std/stdlib.c\<close>: a pool of 1 MiB cut into blocks, each a header
  (\<open>size\<close>, \<open>free\<close>, \<open>next\<close>) followed by its payload.  Memory is a function from addresses to
  bytes; headers are read and written in it byte by byte, little-endian, with the offsets of
  \<open>struct Block\<close> on x86-64 (0, 8, 16; size 24), so a header and the payload another block
  had there before really overlap.  The address of the pool is chosen by the linker.
\<close>

section \<open>The pool\<close>

record heap =
  heap_bytes :: "u64 \<Rightarrow> u8"
  memory_pool :: u64
  free_list :: u64
  allocator_initialized :: bool

definition POOL_SIZE :: u64 where "POOL_SIZE = 1024 * 1024"
definition sizeof_Block :: u64 where "sizeof_Block = 24"
definition ALLOCATION_ALIGNMENT :: u64 where "ALLOCATION_ALIGNMENT = 8"
definition SIZE_MAX :: u64 where "SIZE_MAX = - 1"

lemma POOL_SIZE_val: "POOL_SIZE = 0x100000"
  by (simp add: POOL_SIZE_def)

lemmas heap_consts = POOL_SIZE_val sizeof_Block_def ALLOCATION_ALIGNMENT_def SIZE_MAX_def

text \<open>\<open>block->size\<close>, \<open>block->free\<close> (an \<open>int\<close>, four bytes) and \<open>block->next\<close>.\<close>

definition bsize :: "u64 \<Rightarrow> heap \<Rightarrow> u64" where
  "bsize b h = load 8 b (heap_bytes h)"

definition bfree :: "u64 \<Rightarrow> heap \<Rightarrow> bool" where
  "bfree b h \<longleftrightarrow> load 4 (b + 8) (heap_bytes h) \<noteq> 0"

definition bnext :: "u64 \<Rightarrow> heap \<Rightarrow> u64" where
  "bnext b h = load 8 (b + 16) (heap_bytes h)"

definition set_bsize :: "u64 \<Rightarrow> u64 \<Rightarrow> heap \<Rightarrow> heap" where
  "set_bsize b v h = h\<lparr>heap_bytes := store 8 b v (heap_bytes h)\<rparr>"

definition set_bfree :: "u64 \<Rightarrow> u64 \<Rightarrow> heap \<Rightarrow> heap" where
  "set_bfree b v h = h\<lparr>heap_bytes := store 4 (b + 8) v (heap_bytes h)\<rparr>"

definition set_bnext :: "u64 \<Rightarrow> u64 \<Rightarrow> heap \<Rightarrow> heap" where
  "set_bnext b v h = h\<lparr>heap_bytes := store 8 (b + 16) v (heap_bytes h)\<rparr>"

definition set_byte :: "u64 \<Rightarrow> u8 \<Rightarrow> heap \<Rightarrow> heap" where
  "set_byte a v h = h\<lparr>heap_bytes := (heap_bytes h)(a := v)\<rparr>"

section \<open>The functions of stdlib.c\<close>

definition align_size :: "u64 \<Rightarrow> u64" where
  "align_size sz =
     (let padding = ALLOCATION_ALIGNMENT - 1 in
      if sz > SIZE_MAX - padding then 0 else (sz + padding) AND NOT padding)"

definition allocator_init :: "heap \<Rightarrow> heap" where
  "allocator_init h =
     (if allocator_initialized h then h
      else
        (let h = h\<lparr>free_list := memory_pool h\<rparr>;
             h = set_bsize (free_list h) (POOL_SIZE - sizeof_Block) h;
             h = set_bfree (free_list h) 1 h;
             h = set_bnext (free_list h) 0 h
         in h\<lparr>allocator_initialized := True\<rparr>))"

definition split_block :: "u64 \<Rightarrow> u64 \<Rightarrow> heap \<Rightarrow> heap" where
  "split_block block sz h =
     (if bsize block h < sz + sizeof_Block + ALLOCATION_ALIGNMENT then h
      else
        (let remainder = block + sizeof_Block + sz;
             h = set_bsize remainder (bsize block h - sz - sizeof_Block) h;
             h = set_bfree remainder 1 h;
             h = set_bnext remainder (bnext block h) h;
             h = set_bsize block sz h
         in set_bnext block remainder h))"

text \<open>The two loops of \<open>coalesce_all\<close>; a loop that does not end is \<open>None\<close>.\<close>

partial_function (option) merge_next :: "u64 \<Rightarrow> heap \<Rightarrow> heap option" where
  "merge_next current h =
     (if bnext current h \<noteq> 0 \<and> bfree (bnext current h) h
      then
        (let h = set_bsize current (bsize current h + (sizeof_Block + bsize (bnext current h) h)) h;
             h = set_bnext current (bnext (bnext current h) h) h
         in merge_next current h)
      else Some h)"

partial_function (option) coalesce_from :: "u64 \<Rightarrow> heap \<Rightarrow> heap option" where
  "coalesce_from current h =
     (if current = 0 then Some h
      else Option.bind (if bfree current h then merge_next current h else Some h)
             (\<lambda>h. coalesce_from (bnext current h) h))"

definition coalesce_all :: "heap \<Rightarrow> heap option" where
  "coalesce_all h = coalesce_from (free_list h) h"

text \<open>The search loop of \<open>malloc\<close>; it ends with the block that fits or with NULL.\<close>

partial_function (option) find_block :: "u64 \<Rightarrow> u64 \<Rightarrow> heap \<Rightarrow> u64 option" where
  "find_block block sz h =
     (if block = 0 then Some 0
      else if bfree block h \<and> bsize block h \<ge> sz then Some block
      else find_block (bnext block h) sz h)"

definition malloc :: "u64 \<Rightarrow> heap \<Rightarrow> (u64 \<times> heap) option" where
  "malloc sz h =
     (if sz = 0 then Some (0, h)
      else
        (let sz = align_size sz in
         if sz = 0 then Some (0, h)
         else
           (let h = allocator_init h in
            Option.bind (find_block (free_list h) sz h)
              (\<lambda>block. if block = 0 then Some (0, h)
                 else
                   (let h = split_block block sz h;
                        h = set_bfree block 0 h
                    in Some (block + sizeof_Block, h))))))"

definition free :: "u64 \<Rightarrow> heap \<Rightarrow> heap option" where
  "free ptr h =
     (if ptr = 0 \<or> \<not> allocator_initialized h then Some h
      else
        (let block = ptr - sizeof_Block in
         if bfree block h then Some h
         else coalesce_all (set_bfree block 1 h)))"

text \<open>\<open>while (copy_size-- != 0) *destination++ = *source++;\<close>\<close>

definition copy_bytes :: "u64 \<Rightarrow> u64 \<Rightarrow> u64 \<Rightarrow> heap \<Rightarrow> heap" where
  "copy_bytes destination source copy_size =
     for_up 0 (unat copy_size) (\<lambda>i h.
       set_byte (destination + of_nat i) (heap_bytes h (source + of_nat i)) h)"

definition realloc :: "u64 \<Rightarrow> u64 \<Rightarrow> heap \<Rightarrow> (u64 \<times> heap) option" where
  "realloc ptr new_size h =
     (if ptr = 0 then malloc new_size h
      else if new_size = 0 then map_option (Pair 0) (free ptr h)
      else
        (let new_size = align_size new_size in
         if new_size = 0 then Some (0, h)
         else
           (let block = ptr - sizeof_Block in
            if bfree block h then Some (0, h)
            else
              (let old_size = bsize block h in
               if new_size \<le> old_size then Some (ptr, split_block block new_size h)
               else
                 (let next = bnext block h in
                  if next \<noteq> 0 \<and> bfree next h \<and> old_size + sizeof_Block + bsize next h \<ge> new_size
                  then
                    (let h = set_bsize block (old_size + sizeof_Block + bsize next h) h;
                         h = set_bnext block (bnext next h) h
                     in Some (ptr, split_block block new_size h))
                  else
                    Option.bind (malloc new_size h)
                      (\<lambda>(new_ptr, h).
                         if new_ptr = 0 then Some (0, h)
                         else
                           (let copy_size = (if old_size < new_size then old_size else new_size);
                                h = copy_bytes new_ptr ptr copy_size h
                            in map_option (Pair new_ptr) (free ptr h))))))))"

definition calloc :: "u64 \<Rightarrow> u64 \<Rightarrow> heap \<Rightarrow> (u64 \<times> heap) option" where
  "calloc num sz h =
     (if num = 0 \<or> sz = 0 then Some (0, h)
      else if num > SIZE_MAX div sz then Some (0, h)
      else
        (let total_size = num * sz in
         Option.bind (malloc total_size h)
           (\<lambda>(memory, h).
              if memory = 0 then Some (0, h)
              else Some (memory, for_up 0 (unat total_size) (\<lambda>index. set_byte (memory + of_nat index) 0) h))))"

section \<open>Reading back what was written\<close>

text \<open>Addresses are natural numbers here; \<open>byte h x\<close> is the byte at address \<open>x\<close>.\<close>

abbreviation byte :: "heap \<Rightarrow> nat \<Rightarrow> u8" where
  "byte h x \<equiv> heap_bytes h (of_nat x)"

text \<open>\<open>changes h h' S\<close>: from \<open>h\<close> to \<open>h'\<close> at most the bytes at the addresses in \<open>S\<close> changed.\<close>

definition changes :: "heap \<Rightarrow> heap \<Rightarrow> nat set \<Rightarrow> bool" where
  "changes h h' S \<longleftrightarrow> (\<forall>x. x < 2 ^ 64 \<longrightarrow> x \<notin> S \<longrightarrow> byte h' x = byte h x)
     \<and> memory_pool h' = memory_pool h \<and> free_list h' = free_list h
     \<and> allocator_initialized h' = allocator_initialized h"

lemma changes_refl [simp]: "changes h h S"
  by (simp add: changes_def)

lemma changes_trans: "changes h h1 S \<Longrightarrow> changes h1 h2 T \<Longrightarrow> S \<union> T \<subseteq> U \<Longrightarrow> changes h h2 U"
  unfolding changes_def by (metis Un_iff subsetD)

lemma changes_mono: "changes h h' S \<Longrightarrow> S \<subseteq> T \<Longrightarrow> changes h h' T"
  unfolding changes_def by blast

lemma set_field_changes:
  assumes "a + 24 \<le> 2 ^ 64"
  shows "changes h (set_bsize (of_nat a) v h) {a..<a + 8}"
    "changes h (set_bfree (of_nat a) v h) {a + 8..<a + 12}"
    "changes h (set_bnext (of_nat a) v h) {a + 16..<a + 24}"
proof -
  have e: "of_nat a + (8 :: u64) = of_nat (a + 8)" "of_nat a + (16 :: u64) = of_nat (a + 16)" by simp_all
  show "changes h (set_bsize (of_nat a) v h) {a..<a + 8}"
    using assms by (auto simp: changes_def set_bsize_def store_byte)
  show "changes h (set_bfree (of_nat a) v h) {a + 8..<a + 12}"
    unfolding changes_def set_bfree_def e using assms by (auto simp: store_byte simp del: of_nat_add)
  show "changes h (set_bnext (of_nat a) v h) {a + 16..<a + 24}"
    unfolding changes_def set_bnext_def e using assms by (auto simp: store_byte simp del: of_nat_add)
qed

text \<open>The header at address \<open>a\<close>.\<close>

definition header :: "heap \<Rightarrow> nat \<Rightarrow> nat \<Rightarrow> bool \<Rightarrow> u64 \<Rightarrow> bool" where
  "header h a n f nx \<longleftrightarrow> bsize (of_nat a) h = of_nat n \<and> bfree (of_nat a) h = f \<and> bnext (of_nat a) h = nx"

lemma fields_cong:
  assumes "changes h h' S" "a + 24 \<le> 2 ^ 64"
  shows "S \<inter> {a..<a + 8} = {} \<Longrightarrow> bsize (of_nat a) h' = bsize (of_nat a) h"
    "S \<inter> {a + 8..<a + 12} = {} \<Longrightarrow> bfree (of_nat a) h' = bfree (of_nat a) h"
    "S \<inter> {a + 16..<a + 24} = {} \<Longrightarrow> bnext (of_nat a) h' = bnext (of_nat a) h"
proof -
  have e: "of_nat a + (8 :: u64) = of_nat (a + 8)" "of_nat a + (16 :: u64) = of_nat (a + 16)" by simp_all
  have b: "byte h' x = byte h x" if "x < a + 24" "x \<notin> S" for x
    using assms that by (simp add: changes_def)
  have "load n (of_nat c) (heap_bytes h') = load n (of_nat c) (heap_bytes h)"
    if "S \<inter> {c..<c + n} = {}" "a \<le> c" "c + n \<le> a + 24" "n \<le> 8" for n c
  proof (rule load_cong)
    fix x assume x: "c \<le> x" "x < c + n"
    then have "x \<notin> S" using that(1) by auto
    with x that(3) show "byte h' x = byte h x" by (intro b) simp_all
  qed (use that assms(2) in auto)
  note L = this [of a 8] this [of "a + 8" 4] this [of "a + 16" 8]
  have "a + 8 + 4 = a + 12" "a + 16 + 8 = a + 24" by simp_all
  note L = L [unfolded this]
  show "S \<inter> {a..<a + 8} = {} \<Longrightarrow> bsize (of_nat a) h' = bsize (of_nat a) h"
    "S \<inter> {a + 8..<a + 12} = {} \<Longrightarrow> bfree (of_nat a) h' = bfree (of_nat a) h"
    "S \<inter> {a + 16..<a + 24} = {} \<Longrightarrow> bnext (of_nat a) h' = bnext (of_nat a) h"
    unfolding bsize_def bfree_def bnext_def e using L by (simp_all del: of_nat_add)
qed

lemma header_cong:
  assumes "changes h h' S" "S \<inter> {a..<a + 24} = {}" "a + 24 \<le> 2 ^ 64"
  shows "header h' a n f nx = header h a n f nx"
proof -
  have "S \<inter> {a..<a + 8} = {}" "S \<inter> {a + 8..<a + 12} = {}" "S \<inter> {a + 16..<a + 24} = {}"
    using assms(2) by auto
  then show ?thesis using fields_cong [OF assms(1,3)] by (simp add: header_def)
qed

lemma set_header:
  assumes "header h a n f nx" "a + 24 \<le> 2 ^ 64"
  shows "header (set_bsize (of_nat a) (of_nat n') h) a n' f nx"
    "header (set_bfree (of_nat a) 1 h) a n True nx" "header (set_bfree (of_nat a) 0 h) a n False nx"
    "header (set_bnext (of_nat a) nx' h) a n f nx'"
proof -
  have e: "of_nat a + (8 :: u64) = of_nat (a + 8)" "of_nat a + (16 :: u64) = of_nat (a + 16)" by simp_all
  have r: "bsize (of_nat a) (set_bsize (of_nat a) v h) = v" "bnext (of_nat a) (set_bnext (of_nat a) v h) = v" for v
    unfolding bsize_def set_bsize_def bnext_def set_bnext_def e
    using load_store_same [of a 8] load_store_same [of "a + 16" 8] assms(2)
    by (simp_all add: take_bit_word_eq_self del: of_nat_add)
  have f: "bfree (of_nat a) (set_bfree (of_nat a) 1 h)" "\<not> bfree (of_nat a) (set_bfree (of_nat a) 0 h)"
    unfolding bfree_def set_bfree_def e
    using load_store_same [of "a + 8" 4] assms(2) by (simp_all del: of_nat_add)
  note c = set_field_changes [OF assms(2), of h]
  note k = fields_cong [OF c(1) assms(2)] fields_cong [OF c(2) assms(2)] fields_cong [OF c(3) assms(2)]
  show "header (set_bsize (of_nat a) (of_nat n') h) a n' f nx"
    "header (set_bfree (of_nat a) 1 h) a n True nx" "header (set_bfree (of_nat a) 0 h) a n False nx"
    "header (set_bnext (of_nat a) nx' h) a n f nx'"
    using assms(1) r f k by (simp_all add: header_def)
qed

lemma new_header:
  assumes "a + 24 \<le> 2 ^ 64"
  shows "header (set_bnext (of_nat a) nx (set_bfree (of_nat a) 1 (set_bsize (of_nat a) (of_nat n) h))) a n True nx"
proof -
  obtain n0 f0 nx0 where "bsize (of_nat a) h = n0" "bfree (of_nat a) h = f0" "bnext (of_nat a) h = nx0" by simp
  then have "header h a (unat n0) f0 nx0" by (simp add: header_def)
  from set_header(4) [OF set_header(2) [OF set_header(1) [OF this assms] assms] assms] show ?thesis .
qed

section \<open>The chain of blocks\<close>

text \<open>
  The abstract heap is the list of its blocks in address order: payload size and whether it is free.
  \<open>chain h a bs e\<close> says that the blocks \<open>bs\<close> lie in memory from address \<open>a\<close> on, each
  header right after the payload before it, linked in order, the last one to \<open>e\<close>.
\<close>

type_synonym block = "nat \<times> bool"

fun span :: "block list \<Rightarrow> nat" where
  "span [] = 0"
| "span ((n, f) # bs) = 24 + n + span bs"

fun chain :: "heap \<Rightarrow> nat \<Rightarrow> block list \<Rightarrow> u64 \<Rightarrow> bool" where
  "chain h a [] e = True"
| "chain h a ((n, f) # bs) e \<longleftrightarrow>
     header h a n f (if bs = [] then e else of_nat (a + 24 + n)) \<and> chain h (a + 24 + n) bs e"

text \<open>The addresses of the headers and of the payloads in use.\<close>

fun headers :: "nat \<Rightarrow> block list \<Rightarrow> nat set" where
  "headers a [] = {}"
| "headers a ((n, f) # bs) = {a..<a + 24} \<union> headers (a + 24 + n) bs"

fun live :: "nat \<Rightarrow> block list \<Rightarrow> nat set" where
  "live a [] = {}"
| "live a ((n, f) # bs) = (if f then {} else {a + 24..<a + 24 + n}) \<union> live (a + 24 + n) bs"

text \<open>Header bytes without the free flag: what merging may write.\<close>

definition link_bytes :: "nat \<Rightarrow> nat set" where
  "link_bytes a = {a..<a + 8} \<union> {a + 16..<a + 24}"

fun links :: "nat \<Rightarrow> block list \<Rightarrow> nat set" where
  "links a [] = {}"
| "links a ((n, f) # bs) = link_bytes a \<union> links (a + 24 + n) bs"

lemma link_bytes_sub: "link_bytes a \<subseteq> {a..<a + 24}"
  by (auto simp: link_bytes_def)

lemma links_headers: "links a bs \<subseteq> headers a bs"
  using link_bytes_sub by (induction a bs rule: links.induct) auto

lemma span_append [simp]: "span (xs @ ys) = span xs + span ys"
  by (induction xs rule: span.induct) simp_all

lemma chain_append:
  "chain h a (xs @ ys) e \<longleftrightarrow> chain h a xs (if ys = [] then e else of_nat (a + span xs)) \<and> chain h (a + span xs) ys e"
  by (induction xs arbitrary: a rule: span.induct) (auto simp: add.assoc)

lemma headers_append [simp]: "headers a (xs @ ys) = headers a xs \<union> headers (a + span xs) ys"
  by (induction xs arbitrary: a rule: span.induct) (auto simp: add.assoc)

lemma live_append [simp]: "live a (xs @ ys) = live a xs \<union> live (a + span xs) ys"
  by (induction xs arbitrary: a rule: span.induct) (auto simp: add.assoc)

lemma headers_bound: "x \<in> headers a bs \<Longrightarrow> a \<le> x \<and> x < a + span bs"
  by (induction a bs rule: headers.induct) fastforce+

lemma live_bound: "x \<in> live a bs \<Longrightarrow> a + 24 \<le> x \<and> x < a + span bs"
  by (induction a bs rule: live.induct) (fastforce split: if_splits)+

lemma live_headers: "live a bs \<inter> headers a bs = {}"
proof (induction a bs rule: live.induct)
  case (2 a n f bs)
  have "x \<notin> headers (a + 24 + n) bs" if "x < a + 24 + n" for x
    using headers_bound [of x "a + 24 + n" bs] that by auto
  moreover have "x \<notin> live (a + 24 + n) bs" if "x < a + 24" for x
    using live_bound [of x "a + 24 + n" bs] that by auto
  ultimately show ?case using 2 by (auto split: if_splits)
qed simp

lemma chain_cong:
  assumes "changes h h' S" "S \<inter> headers a bs = {}" "a + span bs \<le> 2 ^ 64"
  shows "chain h' a bs e = chain h a bs e"
  using assms(2,3)
proof (induction a bs rule: headers.induct)
  case (2 a n f bs)
  have "S \<inter> {a..<a + 24} = {}" "S \<inter> headers (a + 24 + n) bs = {}" using "2.prems"(1) by auto
  then show ?case using header_cong [OF assms(1)] "2.IH" "2.prems"(2) by simp
qed simp

section \<open>Splitting a block\<close>

definition cut :: "nat \<Rightarrow> nat \<Rightarrow> bool \<Rightarrow> block list" where
  "cut n m f = (if m < n + 32 then [(m, f)] else [(n, f), (m - n - 24, True)])"

lemma span_cut [simp]: "n \<le> m \<Longrightarrow> span (cut n m f) = 24 + m"
  by (simp add: cut_def)

lemma of_nat_less_iff: "x < 2 ^ 64 \<Longrightarrow> y < 2 ^ 64 \<Longrightarrow> (of_nat x :: u64) < of_nat y \<longleftrightarrow> x < y"
  by (simp add: word_less_nat_alt unat_addr)

lemma of_nat_le_iff: "x < 2 ^ 64 \<Longrightarrow> y < 2 ^ 64 \<Longrightarrow> (of_nat x :: u64) \<le> of_nat y \<longleftrightarrow> x \<le> y"
  by (simp add: word_le_nat_alt unat_addr)

lemma split_block_chain:
  assumes c: "chain h a ((m, f) # bs) e" and n: "n \<le> m" and lim: "a + 24 + m + span bs \<le> 2 ^ 64" "m + 32 < 2 ^ 64"
  defines "h' \<equiv> split_block (of_nat a) (of_nat n) h"
  shows "chain h' a (cut n m f @ bs) e"
    "changes h h' ({a..<a + 24} \<union> {a + 24 + n..<a + 24 + m})"
proof -
  have sz: "bsize (of_nat a) h = of_nat m" and nx: "bnext (of_nat a) h = (if bs = [] then e else of_nat (a + 24 + m))"
    and hd: "header h a m f (if bs = [] then e else of_nat (a + 24 + m))" and tl: "chain h (a + 24 + m) bs e"
    using c by (simp_all add: header_def)
  have cond: "bsize (of_nat a) h < of_nat n + sizeof_Block + ALLOCATION_ALIGNMENT \<longleftrightarrow> m < n + 32"
    using of_nat_less_iff [of m "n + 32"] n lim by (simp add: sz heap_consts add.assoc)
  have "chain h' a (cut n m f @ bs) e \<and> changes h h' ({a..<a + 24} \<union> {a + 24 + n..<a + 24 + m})"
  proof (cases "m < n + 32")
    case True
    then show ?thesis using c cond by (simp add: h'_def split_block_def cut_def)
  next
    case False
    let ?r = "a + 24 + n"
    define e' :: u64 where "e' = (if bs = [] then e else of_nat (a + 24 + m))"
    define h1 where "h1 = set_bnext (of_nat ?r) e' (set_bfree (of_nat ?r) 1 (set_bsize (of_nat ?r) (of_nat (m - n - 24)) h))"
    define h2 where "h2 = set_bsize (of_nat a) (of_nat n) h1"
    have rl: "?r + 24 \<le> 2 ^ 64" and al: "a + 24 \<le> 2 ^ 64" using lim False by simp_all
    have s: "(of_nat m - of_nat n - sizeof_Block :: u64) = of_nat (m - n - 24)"
      using False by (simp add: heap_consts of_nat_diff)
    have r: "(of_nat a + sizeof_Block + of_nat n :: u64) = of_nat ?r" by (simp add: heap_consts)
    note ch = set_field_changes [OF rl]
    have c0: "changes h (set_bfree (of_nat ?r) 1 (set_bsize (of_nat ?r) (of_nat (m - n - 24)) h)) {?r..<?r + 16}"
      by (rule changes_trans [OF ch(1) ch(2)]) auto
    have bn: "bnext (of_nat a) (set_bfree (of_nat ?r) 1 (set_bsize (of_nat ?r) (of_nat (m - n - 24)) h)) = e'"
      using fields_cong(3) [OF c0 al] nx by (auto simp: e'_def)
    have eq: "h' = set_bnext (of_nat a) (of_nat ?r) h2"
      by (simp only: h'_def split_block_def Let_def cond [unfolded sz] False if_False r sz s bn h2_def h1_def)
    have c1: "changes h h1 {?r..<?r + 24}"
      unfolding h1_def by (rule changes_trans [OF c0 ch(3)]) auto
    have c2: "changes h1 h2 {a..<a + 24}" unfolding h2_def
      by (rule changes_mono [OF set_field_changes(1) [OF al]]) auto
    have c3: "changes h2 h' {a..<a + 24}" unfolding eq
      by (rule changes_mono [OF set_field_changes(3) [OF al]]) auto
    have c23: "changes h1 h' {a..<a + 24}" by (rule changes_trans [OF c2 c3]) simp
    have all: "changes h h' ({a..<a + 24} \<union> {?r..<a + 24 + m})"
      by (rule changes_trans [OF c1 c23]) (use False in auto)
    have "header h1 a m f e'" using header_cong [OF c1 _ al] hd by (auto simp: e'_def)
    then have "header h' a n f (of_nat ?r)"
      unfolding eq h2_def by (rule set_header(4) [OF set_header(1) [OF _ al] al])
    moreover have "header h' ?r (m - n - 24) True e'"
    proof -
      have "header h1 ?r (m - n - 24) True e'" unfolding h1_def by (rule new_header [OF rl])
      then show ?thesis using header_cong [OF c23 _ rl] by auto
    qed
    moreover have "chain h' (a + 24 + m) bs e"
    proof -
      have "({a..<a + 24} \<union> {?r..<a + 24 + m}) \<inter> headers (a + 24 + m) bs = {}"
        using headers_bound [of _ "a + 24 + m" bs] by fastforce
      then show ?thesis using chain_cong [OF all] lim tl by auto
    qed
    moreover have "?r + 24 + (m - n - 24) = a + 24 + m" using False by simp
    ultimately show ?thesis using all
      by (simp only: cut_def e'_def False if_False append.simps chain.simps list.distinct simp_thms)
  qed
  then show "chain h' a (cut n m f @ bs) e"
    "changes h h' ({a..<a + 24} \<union> {a + 24 + n..<a + 24 + m})" by simp_all
qed

section \<open>Merging free blocks\<close>

definition free_run :: "block list \<Rightarrow> block list" where "free_run bs = takeWhile snd bs"
definition after_run :: "block list \<Rightarrow> block list" where "after_run bs = dropWhile snd bs"

lemma run_simps [simp]:
  "free_run [] = []" "after_run [] = []"
  "free_run ((n, f) # bs) = (if f then (n, f) # free_run bs else [])"
  "after_run ((n, f) # bs) = (if f then after_run bs else (n, f) # bs)"
  by (simp_all add: free_run_def after_run_def)

lemma run_length [termination_simp]: "length (after_run bs) < Suc (length bs)"
  using length_dropWhile_le [of snd bs] by (simp add: after_run_def)

fun merge :: "block list \<Rightarrow> block list" where
  "merge [] = []"
| "merge ((n, False) # bs) = (n, False) # merge bs"
| "merge ((n, True) # bs) = (n + span (free_run bs), True) # merge (after_run bs)"

lemma span_runs: "span (free_run bs) + span (after_run bs) = span bs"
  by (induction bs rule: span.induct) auto

lemma headers_runs: "headers (a + span (free_run bs)) (after_run bs) \<subseteq> headers a bs"
  by (induction a bs rule: headers.induct) (auto simp: add.assoc split: if_splits)

lemma links_runs: "links (a + span (free_run bs)) (after_run bs) \<subseteq> links a bs"
  by (induction a bs rule: links.induct) (auto simp: add.assoc split: if_splits)

lemma live_runs: "live (a + span (free_run bs)) (after_run bs) = live a bs"
  by (induction a bs rule: live.induct) (auto simp: add.assoc)

lemma span_merge [simp]: "span (merge bs) = span bs"
  using span_runs by (induction bs rule: merge.induct) (simp_all add: add.assoc)

lemma live_merge [simp]: "live a (merge bs) = live a bs"
proof (induction bs arbitrary: a rule: merge.induct)
  case (3 n bs)
  then show ?case using live_runs [of "a + 24 + n" bs] by (simp add: add.assoc)
qed simp_all

lemma headers_merge: "headers a (merge bs) \<subseteq> headers a bs"
proof (induction bs arbitrary: a rule: merge.induct)
  case (3 n bs)
  have "headers (a + 24 + (n + span (free_run bs))) (merge (after_run bs)) \<subseteq> headers (a + 24 + n) bs"
    using 3 [of "a + 24 + n + span (free_run bs)"] headers_runs [of "a + 24 + n" bs] by (simp add: add.assoc)
  then show ?case by auto
qed auto

text \<open>No two neighbours of a merged list are both free.\<close>

fun no_free_pair :: "block list \<Rightarrow> bool" where
  "no_free_pair ((n, f) # (m, g) # bs) \<longleftrightarrow> \<not> (f \<and> g) \<and> no_free_pair ((m, g) # bs)"
| "no_free_pair _ = True"

lemma no_free_pair_Cons:
  "no_free_pair ((n, f) # bs) \<longleftrightarrow> (f \<longrightarrow> bs = [] \<or> \<not> snd (hd bs)) \<and> no_free_pair bs"
  by (cases bs) auto

lemma hd_after_run: "after_run bs = [] \<or> \<not> snd (hd (after_run bs))"
  by (induction bs rule: span.induct) auto

lemma merge_hd: "merge bs = [] \<longleftrightarrow> bs = []" "bs \<noteq> [] \<Longrightarrow> snd (hd (merge bs)) = snd (hd bs)"
  by (cases bs rule: merge.cases; simp)+

lemma no_free_pair_merge: "no_free_pair (merge bs)"
proof (induction bs rule: merge.induct)
  case (3 n bs)
  then show ?case using hd_after_run [of bs] merge_hd [of "after_run bs"]
    by (auto simp: no_free_pair_Cons)
qed (simp_all add: no_free_pair_Cons)

definition ptr :: "nat \<Rightarrow> block list \<Rightarrow> u64" where
  "ptr a bs = (if bs = [] then 0 else of_nat a)"

lemma addr_nonzero: "0 < a \<Longrightarrow> a < 2 ^ 64 \<Longrightarrow> (of_nat a :: u64) \<noteq> 0"
  using of_nat_addr_eq [of a 0] by simp

lemma merge_next_chain:
  assumes "chain h a ((n, True) # bs) 0" "0 < a" "a + 24 + n + span bs \<le> 2 ^ 64"
  shows "\<exists>h'. merge_next (of_nat a) h = Some h'
    \<and> chain h' a ((n + span (free_run bs), True) # after_run bs) 0 \<and> changes h h' (link_bytes a)"
  using assms
proof (induction bs arbitrary: n h rule: span.induct)
  case 1
  then have "bnext (of_nat a) h = 0" by (simp add: header_def)
  with 1 show ?case by (subst merge_next.simps) simp
next
  case (2 m f bs)
  let ?r = "a + 24 + n"
  have al: "a + 24 \<le> 2 ^ 64" and rl: "?r + 24 \<le> 2 ^ 64" "?r < 2 ^ 64" using "2.prems" by simp_all
  have ha: "header h a n True (of_nat ?r)" and hr: "header h ?r m f (ptr (?r + 24 + m) bs)"
    and tl: "chain h (?r + 24 + m) bs 0"
    using "2.prems"(1) by (simp_all only: chain.simps ptr_def list.distinct if_False simp_thms)
  have nx: "bnext (of_nat a) h = of_nat ?r" and fr: "bfree (of_nat ?r) h = f"
    using ha hr by (simp_all add: header_def)
  have nz: "(of_nat ?r :: u64) \<noteq> 0" by (rule addr_nonzero) (use "2.prems"(2) rl in auto)
  show ?case
  proof (cases f)
    case False
    then have "merge_next (of_nat a) h = Some h"
      using nx fr by (subst merge_next.simps) simp
    with False "2.prems"(1) show ?thesis by simp
  next
    case True
    define h1 where "h1 = set_bsize (of_nat a) (of_nat (n + 24 + m)) h"
    define h2 where "h2 = set_bnext (of_nat a) (ptr (?r + 24 + m) bs) h1"
    have c1: "changes h h1 {a..<a + 8}" unfolding h1_def by (rule set_field_changes(1) [OF al])
    have c2: "changes h1 h2 {a + 16..<a + 24}" unfolding h2_def by (rule set_field_changes(3) [OF al])
    have c: "changes h h2 (link_bytes a)" by (rule changes_trans [OF c1 c2]) (simp add: link_bytes_def)
    have ha1: "header h1 a (n + 24 + m) True (of_nat ?r)" unfolding h1_def by (rule set_header(1) [OF ha al])
    have hr1: "header h1 ?r m f (ptr (?r + 24 + m) bs)" using header_cong [OF c1 _ rl(1)] hr by auto
    have s: "bsize (of_nat a) h + (sizeof_Block + bsize (of_nat ?r) h) = of_nat (n + 24 + m)"
      using ha hr by (simp add: header_def heap_consts)
    have n2: "bnext (of_nat a) h1 = of_nat ?r" "bnext (of_nat ?r) h1 = ptr (?r + 24 + m) bs"
      using ha1 hr1 by (simp_all only: header_def)
    have step: "merge_next (of_nat a) h = merge_next (of_nat a) h2"
      by (subst merge_next.simps)
        (simp only: Let_def nx fr True nz s h1_def [symmetric] n2 h2_def [symmetric] if_True simp_thms not_False_eq_True)
    have ha2: "header h2 a (n + 24 + m) True (ptr (?r + 24 + m) bs)"
      unfolding h2_def by (rule set_header(4) [OF ha1 al])
    have "link_bytes a \<inter> headers (?r + 24 + m) bs = {}"
      using headers_bound [of _ "?r + 24 + m" bs] link_bytes_sub [of a] by fastforce
    then have "chain h2 (?r + 24 + m) bs 0" using chain_cong [OF c] "2.prems"(3) tl by simp
    then have "chain h2 a ((n + 24 + m, True) # bs) 0"
      using ha2 by (auto simp: ptr_def add.assoc add.commute add.left_commute split: if_splits)
    from "2.IH" [OF this "2.prems"(2)] obtain h' where h': "merge_next (of_nat a) h2 = Some h'"
        "chain h' a ((n + 24 + m + span (free_run bs), True) # after_run bs) 0" "changes h2 h' (link_bytes a)"
      using "2.prems"(3) by auto
    have "changes h h' (link_bytes a)" by (rule changes_trans [OF c h'(3)]) simp
    with h' step True show ?thesis by (simp add: add.assoc)
  qed
qed

lemma coalesce_from_chain:
  assumes "chain h a bs 0" "0 < a" "a + span bs \<le> 2 ^ 64"
  shows "\<exists>h'. coalesce_from (ptr a bs) h = Some h' \<and> chain h' a (merge bs) 0 \<and> changes h h' (links a bs)"
  using assms
proof (induction bs arbitrary: a h rule: merge.induct)
  case 1
  then show ?case by (simp add: ptr_def coalesce_from.simps)
next
  case (2 n bs)
  let ?r = "a + 24 + n"
  have ha: "header h a n False (ptr ?r bs)" and tl: "chain h ?r bs 0"
    using "2.prems"(1) by (simp_all add: ptr_def)
  have nz: "(of_nat a :: u64) \<noteq> 0" by (rule addr_nonzero) (use "2.prems" in auto)
  obtain h' where h': "coalesce_from (ptr ?r bs) h = Some h'" "chain h' ?r (merge bs) 0"
      "changes h h' (links ?r bs)"
    using "2.IH" [OF tl] "2.prems"(2,3) by auto
  have "header h' a n False (ptr ?r bs)"
    using header_cong [OF h'(3), of a] headers_bound [of _ ?r bs] links_headers [of ?r bs] "2.prems"(3) ha by fastforce
  moreover have "coalesce_from (ptr a ((n, False) # bs)) h = Some h'"
    unfolding ptr_def by (subst coalesce_from.simps) (use nz ha h'(1) in \<open>simp add: header_def\<close>)
  moreover have "changes h h' (links a ((n, False) # bs))"
    by (rule changes_mono [OF h'(3)]) simp
  ultimately show ?case using h'(2) by (auto simp: ptr_def merge_hd)
next
  case (3 n bs)
  let ?m = "n + span (free_run bs)"
  let ?r = "a + 24 + ?m"
  have nz: "(of_nat a :: u64) \<noteq> 0" by (rule addr_nonzero) (use "3.prems" in auto)
  have sp: "?r + span (after_run bs) = a + span ((n, True) # bs)" using span_runs [of bs] by simp
  obtain h1 where h1: "merge_next (of_nat a) h = Some h1"
      "chain h1 a ((?m, True) # after_run bs) 0" "changes h h1 (link_bytes a)"
    using merge_next_chain [OF "3.prems"(1,2)] "3.prems"(3) by (auto simp: add.assoc)
  have ha: "header h1 a ?m True (ptr ?r (after_run bs))" and tl: "chain h1 ?r (after_run bs) 0"
    using h1(2) by (simp_all add: ptr_def)
  obtain h' where h': "coalesce_from (ptr ?r (after_run bs)) h1 = Some h'" "chain h' ?r (merge (after_run bs)) 0"
      "changes h1 h' (links ?r (after_run bs))"
    using "3.IH" [OF tl] "3.prems"(2,3) sp by auto
  have "header h' a ?m True (ptr ?r (after_run bs))"
    using header_cong [OF h'(3), of a] headers_bound [of _ ?r "after_run bs"] links_headers [of ?r "after_run bs"] "3.prems"(3) ha by fastforce
  moreover have "coalesce_from (ptr a ((n, True) # bs)) h = Some h'"
  proof -
    have "bfree (of_nat a) h" using "3.prems"(1) by (simp add: header_def)
    then show ?thesis
      unfolding ptr_def by (subst coalesce_from.simps) (use nz ha h1(1) h'(1) in \<open>simp add: header_def\<close>)
  qed
  moreover have "changes h h' (links a ((n, True) # bs))"
  proof (rule changes_trans [OF h1(3) h'(3)])
    show "link_bytes a \<union> links ?r (after_run bs) \<subseteq> links a ((n, True) # bs)"
      using links_runs [of "a + 24 + n" bs] by (auto simp: add.assoc)
  qed
  ultimately show ?case using h'(2) by (auto simp: ptr_def merge_hd)
qed

section \<open>The abstract allocator\<close>

text \<open>First fit with splitting: the offset of the payload in the pool and the new list of blocks.\<close>

definition fits :: "nat \<Rightarrow> block \<Rightarrow> bool" where
  "fits n = (\<lambda>(m, f). f \<and> n \<le> m)"

definition a_malloc :: "nat \<Rightarrow> block list \<Rightarrow> (nat \<times> block list) option" where
  "a_malloc n bs = (case List.extract (fits n) bs of None \<Rightarrow> None
     | Some (xs, (m, f), ys) \<Rightarrow> Some (span xs + 24, xs @ cut n m False @ ys))"

definition round8 :: "nat \<Rightarrow> nat" where
  "round8 n = (n + 7) div 8 * 8"

definition pool_ok :: "heap \<Rightarrow> nat \<Rightarrow> bool" where
  "pool_ok h base \<longleftrightarrow> memory_pool h = of_nat base \<and> 0 < base \<and> base + 0x100000 \<le> 2 ^ 64 \<and> 8 dvd base"

definition sizes_ok :: "block list \<Rightarrow> bool" where
  "sizes_ok bs \<longleftrightarrow> (\<forall>(n, f) \<in> set bs. 8 dvd n \<and> 0 < n)"

definition heap_inv :: "heap \<Rightarrow> nat \<Rightarrow> block list \<Rightarrow> bool" where
  "heap_inv h base bs \<longleftrightarrow> pool_ok h base \<and> allocator_initialized h \<and> free_list h = memory_pool h
     \<and> span bs = 0x100000 \<and> sizes_ok bs \<and> chain h base bs 0"

text \<open>Before the first \<open>malloc\<close> the pool stands for one free block.\<close>

definition heap_rep :: "heap \<Rightarrow> nat \<Rightarrow> block list \<Rightarrow> bool" where
  "heap_rep h base bs \<longleftrightarrow>
     (if allocator_initialized h then heap_inv h base bs
      else pool_ok h base \<and> bs = [(0x100000 - 24, True)])"

lemma round8_facts: "n \<le> round8 n" "8 dvd round8 n" "0 < n \<Longrightarrow> 0 < round8 n" "round8 n < n + 8"
  unfolding round8_def by presburger+

lemma align_size_round: "align_size sz = (if 2 ^ 64 \<le> unat sz + 7 then 0 else of_nat (round8 (unat sz)))"
proof -
  have m: "SIZE_MAX - (ALLOCATION_ALIGNMENT - 1) = 0xFFFFFFFFFFFFFFF8" by (simp add: heap_consts)
  have g: "sz > SIZE_MAX - (ALLOCATION_ALIGNMENT - 1) \<longleftrightarrow> 2 ^ 64 \<le> unat sz + 7"
    unfolding m by (auto simp: word_less_nat_alt)
  have p: "ALLOCATION_ALIGNMENT - 1 = mask 3" by (simp add: heap_consts mask_numeral)
  have "(sz + mask 3) AND NOT (mask 3) = of_nat (round8 (unat sz))" if "unat sz + 7 < 2 ^ 64"
  proof -
    have "unat (mask 3 :: u64) = 7" by (simp add: mask_numeral)
    then have "unat (sz + mask 3) = unat sz + 7" using that by (simp add: unat_plus_nowrap)
    then have "unat ((sz + mask 3) AND NOT (mask 3)) = round8 (unat sz)"
      by (simp add: unat_and_not_mask round8_def)
    moreover have "round8 (unat sz) \<le> unat sz + 7" by (simp add: round8_def)
    ultimately show ?thesis using that by (simp add: word_unat_eq_iff unat_addr)
  qed
  then show ?thesis using g unfolding align_size_def Let_def p by auto
qed

lemma sizes_ok_simps [simp]:
  "sizes_ok []" "sizes_ok ((n, f) # bs) \<longleftrightarrow> 8 dvd n \<and> 0 < n \<and> sizes_ok bs"
  "sizes_ok (xs @ ys) \<longleftrightarrow> sizes_ok xs \<and> sizes_ok ys"
  by (auto simp: sizes_ok_def)

lemma sizes_ok_cut: "8 dvd n \<Longrightarrow> 8 dvd m \<Longrightarrow> 0 < n \<Longrightarrow> n \<le> m \<Longrightarrow> sizes_ok (cut n m f)"
  by (auto simp: cut_def dvd_diff_nat)

lemma span_runs_dvd: "sizes_ok bs \<Longrightarrow> 8 dvd span (free_run bs) \<and> sizes_ok (after_run bs)"
  by (induction bs rule: span.induct) auto

lemma sizes_ok_merge: "sizes_ok bs \<Longrightarrow> sizes_ok (merge bs)"
  using span_runs_dvd by (induction bs rule: merge.induct) auto

lemma allocator_init_inv:
  assumes "heap_rep h base bs"
  shows "heap_inv (allocator_init h) base bs"
    "x \<in> live base bs \<Longrightarrow> byte (allocator_init h) x = byte h x"
proof -
  have "heap_inv (allocator_init h) base bs" if "\<not> allocator_initialized h"
  proof -
    let ?h = "h\<lparr>free_list := memory_pool h\<rparr>"
    have p: "pool_ok h base" "bs = [(0xFFFE8, True)]" using assms that by (simp_all add: heap_rep_def)
    then have al: "base + 24 \<le> 2 ^ 64" and b: "memory_pool h = of_nat base" by (simp_all add: pool_ok_def)
    define h1 where "h1 = set_bnext (of_nat base) 0 (set_bfree (of_nat base) 1 (set_bsize (of_nat base) (of_nat 0xFFFE8) ?h))"
    have e: "allocator_init h = h1\<lparr>allocator_initialized := True\<rparr>"
      using that b
      by (simp add: allocator_init_def Let_def h1_def heap_consts set_bsize_def set_bfree_def set_bnext_def)
    have "header h1 base 0xFFFE8 True 0" unfolding h1_def by (rule new_header [OF al])
    then have "header (allocator_init h) base 0xFFFE8 True 0"
      by (simp add: e header_def bsize_def bfree_def bnext_def)
    moreover have "free_list h1 = memory_pool h" "memory_pool h1 = memory_pool h"
      by (simp_all add: h1_def set_bsize_def set_bfree_def set_bnext_def)
    ultimately show ?thesis using p by (simp add: heap_inv_def e pool_ok_def)
  qed
  then show "heap_inv (allocator_init h) base bs"
    using assms by (cases "allocator_initialized h") (simp_all add: heap_rep_def allocator_init_def)
  show "x \<in> live base bs \<Longrightarrow> byte (allocator_init h) x = byte h x"
    using assms by (auto simp: heap_rep_def allocator_init_def split: if_splits)
qed

lemma find_block_chain:
  assumes "chain h a bs 0" "0 < a" "a + span bs \<le> 2 ^ 64" "n < 2 ^ 64"
  shows "find_block (ptr a bs) (of_nat n) h
    = Some (case List.extract (fits n) bs of None \<Rightarrow> 0 | Some (xs, _, _) \<Rightarrow> of_nat (a + span xs))"
  using assms(1-3)
proof (induction bs arbitrary: a rule: span.induct)
  case 1
  then show ?case by (simp add: ptr_def find_block.simps extract_Nil_code)
next
  case (2 m f bs)
  let ?r = "a + 24 + m"
  have nz: "(of_nat a :: u64) \<noteq> 0" by (rule addr_nonzero) (use "2.prems" in auto)
  have hd: "bfree (of_nat a) h = f" "bsize (of_nat a) h = of_nat m" "bnext (of_nat a) h = ptr ?r bs"
    using "2.prems"(1) by (simp_all add: header_def ptr_def)
  have le: "of_nat n \<le> (of_nat m :: u64) \<longleftrightarrow> n \<le> m"
    by (rule of_nat_le_iff) (use assms(4) "2.prems"(3) in auto)
  have IH: "find_block (ptr ?r bs) (of_nat n) h
      = Some (case List.extract (fits n) bs of None \<Rightarrow> 0 | Some (xs, _, _) \<Rightarrow> of_nat (?r + span xs))"
    by (rule "2.IH") (use "2.prems" in auto)
  have step: "find_block (of_nat a) (of_nat n) h
      = (if f \<and> n \<le> m then Some (of_nat a) else find_block (ptr ?r bs) (of_nat n) h)"
    by (subst find_block.simps) (simp add: nz hd le)
  show ?case
    by (simp add: ptr_def step [simplified ptr_def] fits_def extract_Cons_code split: option.split)
      (use IH in \<open>auto simp: ptr_def fits_def add.assoc split: option.splits\<close>)
qed

text \<open>Replacing one block by other blocks that fill the same space.\<close>

lemma chain_replace:
  assumes "chain h a (xs @ (m, f) # ys) e" "a + span (xs @ (m, f) # ys) \<le> 2 ^ 64"
    and "changes h h' S" "S \<subseteq> {a + span xs..<a + span xs + 24 + m}"
    and "chain h' (a + span xs) (mid @ ys) e" "mid \<noteq> []"
  shows "chain h' a (xs @ mid @ ys) e"
proof -
  have "S \<inter> headers a xs = {}" using headers_bound [of _ a xs] assms(4) by fastforce
  then show ?thesis using assms(1,2,5,6) chain_cong [OF assms(3)] by (simp add: chain_append)
qed

lemma live_block: "live a ((n, False) # bs) = {a + 24..<a + 24 + n} \<union> live (a + 24 + n) bs"
  "live a ((n, True) # bs) = live (a + 24 + n) bs"
  by simp_all

lemma live_cut: "n \<le> m \<Longrightarrow> live a (cut n m False) = {a + 24..<a + 24 + (if m < n + 32 then m else n)}"
  by (simp add: cut_def)

lemma heap_invD:
  assumes "heap_inv h base bs"
  shows "allocator_initialized h" "free_list h = of_nat base" "span bs = 0x100000" "sizes_ok bs"
    "chain h base bs 0" "0 < base" "base + span bs \<le> 2 ^ 64" "8 dvd base"
    "free_list h = ptr base bs" "memory_pool h = of_nat base"
  using assms by (auto simp: heap_inv_def pool_ok_def ptr_def)

lemma heap_inv_changes:
  assumes "heap_inv h base bs" "changes h h' S" "span bs' = span bs" "sizes_ok bs'" "chain h' base bs' 0"
  shows "heap_inv h' base bs'"
  using assms by (simp add: heap_inv_def pool_ok_def changes_def)

lemma extract_fits:
  assumes "List.extract (fits n) bs = Some (xs, b, ys)"
  obtains m where "b = (m, True)" "bs = xs @ (m, True) # ys" "n \<le> m" "\<forall>c \<in> set xs. \<not> fits n c"
  using assms by (cases b) (auto simp: extract_Some_iff fits_def)

lemma block_in_pool:
  assumes "heap_inv h base (xs @ (m, f) # ys)"
  shows "base + span xs + 24 + m + span ys \<le> 2 ^ 64" "m + 32 < 2 ^ 64" "base + span xs + 24 \<le> 2 ^ 64"
    "base + span xs < 2 ^ 64" "0 < base + span xs"
    "chain h (base + span xs) ((m, f) # ys) 0" "8 dvd m" "0 < m"
  using heap_invD(3-8) [OF assms] by (simp_all add: chain_append)

lemma take_block:
  assumes inv: "heap_inv h base (xs @ (m, True) # ys)" and n: "8 dvd n" "0 < n" "n \<le> m"
  defines "a \<equiv> base + span xs"
  defines "h' \<equiv> set_bfree (of_nat a) 0 (split_block (of_nat a) (of_nat n) h)"
  shows "heap_inv h' base (xs @ cut n m False @ ys)"
    and "changes h h' ({a..<a + 24} \<union> {a + 24 + n..<a + 24 + m})"
proof -
  note B = block_in_pool [OF inv, folded a_def]
  note S = split_block_chain [OF B(6) n(3) B(1,2)]
  let ?h1 = "split_block (of_nat a) (of_nat n) h"
  have c1: "changes ?h1 h' {a..<a + 24}"
    unfolding h'_def by (rule changes_mono [OF set_field_changes(2) [OF B(3)]]) auto
  show c: "changes h h' ({a..<a + 24} \<union> {a + 24 + n..<a + 24 + m})"
    by (rule changes_trans [OF S(2) c1]) auto
  obtain k rest where k: "cut n m True @ ys = (k, True) # rest" "cut n m False @ ys = (k, False) # rest"
    by (cases "m < n + 32") (auto simp: cut_def)
  have kn: "n \<le> k" using k(1) n(3) by (auto simp: cut_def split: if_splits)
  have sp: "a + 24 + k + span rest \<le> 2 ^ 64"
  proof -
    have "span (cut n m True @ ys) = 24 + m + span ys" using n(3) by simp
    then show ?thesis using B(1) unfolding k(1) by simp
  qed
  have hd: "header ?h1 a k True (ptr (a + 24 + k) rest)" and tl: "chain ?h1 (a + 24 + k) rest 0"
    using S(1) unfolding k(1) by (simp_all add: ptr_def)
  have "header h' a k False (ptr (a + 24 + k) rest)"
    unfolding h'_def by (rule set_header(3) [OF hd B(3)])
  moreover have "chain h' (a + 24 + k) rest 0"
  proof -
    have "{a..<a + 24} \<inter> headers (a + 24 + k) rest = {}"
      using headers_bound [of _ "a + 24 + k" rest] by fastforce
    then show ?thesis using chain_cong [OF c1] sp tl by simp
  qed
  ultimately have ch: "chain h' a (cut n m False @ ys) 0" unfolding k(2) by (simp add: ptr_def)
  show "heap_inv h' base (xs @ cut n m False @ ys)"
  proof (rule heap_inv_changes [OF inv c])
    show "span (xs @ cut n m False @ ys) = span (xs @ (m, True) # ys)" using n(3) by simp
    show "sizes_ok (xs @ cut n m False @ ys)"
      using heap_invD(4) [OF inv] sizes_ok_cut [OF n(1) _ n(2,3)] by simp
    show "chain h' base (xs @ cut n m False @ ys) 0"
      by (rule chain_replace [OF heap_invD(5,7) [OF inv] c])
        (use ch n(3) in \<open>auto simp: a_def cut_def\<close>)
  qed
qed

lemma malloc_bad_size: "sz = 0 \<or> 2 ^ 64 \<le> unat sz + 7 \<Longrightarrow> malloc sz h = Some (0, h)"
  by (auto simp: malloc_def align_size_round Let_def)

lemma malloc_refines:
  assumes rep: "heap_rep h base bs" and sz: "sz \<noteq> 0" "unat sz + 7 < 2 ^ 64"
  defines "n \<equiv> round8 (unat sz)"
  shows "case a_malloc n bs of
      None \<Rightarrow> malloc sz h = Some (0, allocator_init h) \<and> heap_inv (allocator_init h) base bs
    | Some (off, bs') \<Rightarrow> \<exists>h' xs m ys. malloc sz h = Some (of_nat (base + off), h') \<and> heap_inv h' base bs'
        \<and> bs = xs @ (m, True) # ys \<and> n \<le> m \<and> off = span xs + 24 \<and> bs' = xs @ cut n m False @ ys
        \<and> (\<forall>c \<in> set xs. \<not> fits n c)
        \<and> changes (allocator_init h) h' ({base + span xs..<base + off} \<union> {base + off + n..<base + off + m})"
proof -
  let ?h0 = "allocator_init h"
  note inv = allocator_init_inv(1) [OF rep]
  have n: "8 dvd n" "0 < n" "n < 2 ^ 64" "of_nat n \<noteq> (0 :: u64)"
  proof -
    have "0 < unat sz" using sz(1) by (simp add: unat_gt_0)
    then show "8 dvd n" "0 < n" using round8_facts by (simp_all add: n_def)
    show "n < 2 ^ 64" using sz(2) by (simp add: n_def round8_def)
    then show "of_nat n \<noteq> (0 :: u64)" using \<open>0 < n\<close> by (intro addr_nonzero)
  qed
  have al: "align_size sz = of_nat n" using sz(2) by (simp add: align_size_round n_def)
  have fb: "find_block (free_list ?h0) (of_nat n) ?h0
      = Some (case List.extract (fits n) bs of None \<Rightarrow> 0 | Some (xs, _, _) \<Rightarrow> of_nat (base + span xs))"
    unfolding heap_invD(9) [OF inv] by (rule find_block_chain [OF heap_invD(5-7) [OF inv] n(3)])
  have M: "malloc sz h = Option.bind (find_block (free_list ?h0) (of_nat n) ?h0)
      (\<lambda>block. if block = 0 then Some (0, ?h0)
        else Some (block + sizeof_Block, set_bfree block 0 (split_block block (of_nat n) ?h0)))"
    using sz(1) n(4) unfolding malloc_def al Let_def by simp
  show ?thesis
  proof (cases "List.extract (fits n) bs")
    case None
    then show ?thesis using inv by (simp add: a_malloc_def M fb)
  next
    case (Some r)
    obtain xs b ys where "r = (xs, b, ys)" by (cases r)
    with Some have ex: "List.extract (fits n) bs = Some (xs, b, ys)" by simp
    from extract_fits [OF this] obtain m where m: "b = (m, True)" "bs = xs @ (m, True) # ys" "n \<le> m"
      "\<forall>c \<in> set xs. \<not> fits n c" .
    note inv' = inv [unfolded m(2)]
    note B = block_in_pool [OF inv']
    have nz: "(of_nat (base + span xs) :: u64) \<noteq> 0" by (rule addr_nonzero [OF B(5,4)])
    have am: "a_malloc n bs = Some (span xs + 24, xs @ cut n m False @ ys)"
      by (simp add: a_malloc_def ex m(1))
    have ml: "malloc sz h = Some (of_nat (base + span xs + 24),
        set_bfree (of_nat (base + span xs)) 0 (split_block (of_nat (base + span xs)) (of_nat n) ?h0))"
      unfolding M fb using nz by (simp add: ex heap_consts)
    show ?thesis
      unfolding am option.case prod.case
      by (intro exI [of _ "set_bfree (of_nat (base + span xs)) 0 (split_block (of_nat (base + span xs)) (of_nat n) ?h0)"]
          exI [of _ xs] exI [of _ m] exI [of _ ys])
        (use ml m take_block [OF inv' n(1,2) m(3)] in \<open>simp add: add.assoc\<close>)
  qed
qed

section \<open>free\<close>

lemma set_flag:
  assumes inv: "heap_inv h base (xs @ (n, f) # ys)"
  shows "heap_inv (set_bfree (of_nat (base + span xs)) 1 h) base (xs @ (n, True) # ys)"
    "changes h (set_bfree (of_nat (base + span xs)) 1 h) {base + span xs + 8..<base + span xs + 12}"
proof -
  let ?a = "base + span xs" and ?h = "set_bfree (of_nat (base + span xs)) 1 h"
  note B = block_in_pool [OF inv]
  show c: "changes h ?h {?a + 8..<?a + 12}" by (rule set_field_changes(2) [OF B(3)])
  have hd: "header h ?a n f (ptr (?a + 24 + n) ys)" and tl: "chain h (?a + 24 + n) ys 0"
    using B(6) by (simp_all add: ptr_def)
  have "{?a + 8..<?a + 12} \<inter> headers (?a + 24 + n) ys = {}"
    using headers_bound [of _ "?a + 24 + n" ys] by fastforce
  then have "chain ?h (?a + 24 + n) ys 0" using chain_cong [OF c] B(1) tl by simp
  moreover have "header ?h ?a n True (ptr (?a + 24 + n) ys)" by (rule set_header(2) [OF hd B(3)])
  ultimately have ch: "chain ?h ?a ([(n, True)] @ ys) 0" by (simp add: ptr_def)
  show "heap_inv ?h base (xs @ (n, True) # ys)"
  proof (rule heap_inv_changes [OF inv c])
    show "chain ?h base (xs @ (n, True) # ys) 0"
      using chain_replace [OF heap_invD(5,7) [OF inv] c _ ch] by auto
  qed (use heap_invD(4) [OF inv] in simp_all)
qed

lemma flag_not_link:
  "{a + span xs + 8..<a + span xs + 12} \<inter> links a (xs @ (n, f) # ys) = {}"
proof (induction xs arbitrary: a rule: span.induct)
  case 1
  have "x \<notin> links (a + 24 + n) ys" if "x < a + 12" for x
    using headers_bound [of x "a + 24 + n" ys] links_headers [of "a + 24 + n" ys] that by auto
  then show ?case by (auto simp: link_bytes_def)
next
  case (2 m g xs)
  have "x \<notin> link_bytes a" if "a + 24 \<le> x" for x
    using that link_bytes_sub [of a] by auto
  then show ?case using "2.IH" [of "a + 24 + m"] by (auto simp: add.assoc)
qed

lemma free_refines:
  assumes inv: "heap_inv h base (xs @ (n, False) # ys)"
  defines "p \<equiv> of_nat (base + span xs + 24)"
  shows "\<exists>h'. free p h = Some h' \<and> heap_inv h' base (merge (xs @ (n, True) # ys))
    \<and> changes h h' (headers base (xs @ (n, False) # ys)) \<and> free p h' = Some h'"
proof -
  let ?a = "base + span xs" and ?bs = "xs @ (n, True) # ys"
  let ?h1 = "set_bfree (of_nat ?a) 1 h"
  note B = block_in_pool [OF inv]
  note F = set_flag [OF inv]
  have pa: "p - sizeof_Block = of_nat ?a" by (simp add: p_def heap_consts)
  have nz: "p \<noteq> 0" unfolding p_def by (rule addr_nonzero) (use B(1,8) in auto)
  have used: "\<not> bfree (of_nat ?a) h" using B(6) by (simp add: header_def)
  note I = heap_invD [OF F(1)]
  obtain h' where h': "coalesce_from (ptr base ?bs) ?h1 = Some h'" "chain h' base (merge ?bs) 0"
      "changes ?h1 h' (links base ?bs)"
    using coalesce_from_chain [OF I(5-7)] by blast
  have co: "coalesce_all ?h1 = Some h'" unfolding coalesce_all_def I(9) by (rule h'(1))
  have fr: "free p h = Some h'"
    using nz used co heap_invD(1) [OF inv] by (simp add: free_def pa Let_def)
  have inv': "heap_inv h' base (merge ?bs)"
    by (rule heap_inv_changes [OF F(1) h'(3) _ sizes_ok_merge [OF I(4)] h'(2)]) simp
  have hs: "headers base ?bs = headers base (xs @ (n, False) # ys)" by simp
  have ch: "changes h h' (headers base (xs @ (n, False) # ys))"
  proof (rule changes_trans [OF F(2) h'(3)])
    show "{?a + 8..<?a + 12} \<union> links base ?bs \<subseteq> headers base (xs @ (n, False) # ys)"
      using links_headers [of base ?bs] unfolding hs by auto
  qed
  have "bfree (of_nat ?a) ?h1" using block_in_pool(6) [OF F(1)] by (simp add: header_def)
  moreover have "bfree (of_nat ?a) h' = bfree (of_nat ?a) ?h1"
    by (rule fields_cong(2) [OF h'(3) B(3)]) (use flag_not_link [of base xs n True ys] in auto)
  ultimately have "free p h' = Some h'" by (simp add: free_def pa Let_def)
  with fr inv' ch show ?thesis by blast
qed

section \<open>realloc\<close>

lemma split_inv:
  assumes inv: "heap_inv h base (xs @ (m, f) # ys)" and n: "8 dvd n" "0 < n" "n \<le> m"
  defines "a \<equiv> base + span xs"
  shows "heap_inv (split_block (of_nat a) (of_nat n) h) base (xs @ cut n m f @ ys)"
    and "changes h (split_block (of_nat a) (of_nat n) h) ({a..<a + 24} \<union> {a + 24 + n..<a + 24 + m})"
proof -
  note B = block_in_pool [OF inv, folded a_def]
  note S = split_block_chain [OF B(6) n(3) B(1,2)]
  show "changes h (split_block (of_nat a) (of_nat n) h) ({a..<a + 24} \<union> {a + 24 + n..<a + 24 + m})"
    by (rule S(2))
  show "heap_inv (split_block (of_nat a) (of_nat n) h) base (xs @ cut n m f @ ys)"
  proof (rule heap_inv_changes [OF inv S(2)])
    show "span (xs @ cut n m f @ ys) = span (xs @ (m, f) # ys)" using n(3) by simp
    show "sizes_ok (xs @ cut n m f @ ys)"
      using heap_invD(4) [OF inv] sizes_ok_cut [OF n(1) _ n(2,3)] by simp
    show "chain (split_block (of_nat a) (of_nat n) h) base (xs @ cut n m f @ ys) 0"
      by (rule chain_replace [OF heap_invD(5,7) [OF inv] S(2)])
        (use S(1) n(3) in \<open>auto simp: a_def cut_def\<close>)
  qed
qed

text \<open>Absorbing the free block after a block in use.\<close>

lemma absorb_inv:
  assumes inv: "heap_inv h base (xs @ (n, False) # (m, True) # zs)"
  defines "a \<equiv> base + span xs"
  defines "h' \<equiv> set_bnext (of_nat a) (ptr (a + 48 + n + m) zs) (set_bsize (of_nat a) (of_nat (n + 24 + m)) h)"
  shows "heap_inv h' base (xs @ (n + 24 + m, False) # zs)" "changes h h' (link_bytes a)"
proof -
  note B = block_in_pool [OF inv, folded a_def]
  note f = set_field_changes [OF B(3)]
  show c: "changes h h' (link_bytes a)"
    unfolding h'_def by (rule changes_trans [OF f(1) f(3)]) (simp add: link_bytes_def)
  have hd: "header h a n False (of_nat (a + 24 + n))" and tl: "chain h (a + 48 + n + m) zs 0"
    using B(6) by (simp_all add: add.assoc add.commute add.left_commute)
  have "header h' a (n + 24 + m) False (ptr (a + 48 + n + m) zs)"
    unfolding h'_def by (rule set_header(4) [OF set_header(1) [OF hd B(3)] B(3)])
  moreover have "chain h' (a + 48 + n + m) zs 0"
  proof -
    have "link_bytes a \<inter> headers (a + 48 + n + m) zs = {}"
      using headers_bound [of _ "a + 48 + n + m" zs] link_bytes_sub [of a] by fastforce
    then show ?thesis using chain_cong [OF c] B(1) tl by simp
  qed
  moreover have "a + 24 + (n + 24 + m) = a + 48 + n + m" by simp
  ultimately have ch: "chain h' a ([(n + 24 + m, False)] @ zs) 0"
    by (simp only: append.simps chain.simps ptr_def simp_thms)
  show "heap_inv h' base (xs @ (n + 24 + m, False) # zs)"
  proof (rule heap_inv_changes [OF inv c])
    have c0: "chain h base (xs @ [(n, False), (m, True)] @ zs) 0" using heap_invD(5) [OF inv] by simp
    have "link_bytes a \<inter> headers base xs = {}"
      using headers_bound [of _ base xs] link_bytes_sub [of a] by (fastforce simp: a_def)
    then have "chain h' base xs (of_nat a)"
      using c0 chain_cong [OF c] heap_invD(7) [OF inv] by (simp add: chain_append a_def)
    then show "chain h' base (xs @ (n + 24 + m, False) # zs) 0"
      using ch by (simp add: chain_append a_def)
  qed (use heap_invD(4) [OF inv] in simp_all)
qed

lemma copy_bytes_effect:
  assumes lim: "s + n \<le> 2 ^ 64" "d + n \<le> 2 ^ 64" and dis: "{d..<d + n} \<inter> {s..<s + n} = {}" and n: "n < 2 ^ 64"
    and h'_def: "h' = copy_bytes (of_nat d) (of_nat s) (of_nat n) h"
  shows "changes h h' {d..<d + n}" "\<And>i. i < n \<Longrightarrow> byte h' (d + i) = byte h (s + i)"
proof -
  define f where "f i h = set_byte (of_nat d + of_nat i) (heap_bytes h (of_nat s + of_nat i)) h" for i h
  have "changes h (for_up 0 n f h) {d..<d + n} \<and> (\<forall>i < n. byte (for_up 0 n f h) (d + i) = byte h (s + i))"
  proof (rule for_up_invariant [where I = "\<lambda>k t. changes h t {d..<d + k} \<and> (\<forall>i < k. byte t (d + i) = byte h (s + i))"])
    fix k t assume k: "k < n" and I: "changes h t {d..<d + k} \<and> (\<forall>i < k. byte t (d + i) = byte h (s + i))"
    have src: "byte t (s + k) = byte h (s + k)"
    proof -
      have "s + k \<notin> {d..<d + k}"
      proof
        assume "s + k \<in> {d..<d + k}"
        then have "s + k \<in> {d..<d + n} \<inter> {s..<s + n}" using k by simp
        with dis show False by simp
      qed
      then show ?thesis using conjunct1 [OF I, unfolded changes_def] k lim by (simp del: of_nat_add)
    qed
    have eq: "byte (f k t) x = (if x = d + k then byte h (s + k) else byte t x)" if "x < 2 ^ 64" for x
      using of_nat_addr_eq [OF that, of "d + k"] k lim src by (simp add: f_def set_byte_def)
    have fl: "memory_pool (f k t) = memory_pool t" "free_list (f k t) = free_list t"
      "allocator_initialized (f k t) = allocator_initialized t"
      by (simp_all add: f_def set_byte_def)
    show "changes h (f k t) {d..<d + Suc k} \<and> (\<forall>i < Suc k. byte (f k t) (d + i) = byte h (s + i))"
    proof (intro conjI allI impI)
      show "changes h (f k t) {d..<d + Suc k}" using I by (auto simp: changes_def eq fl)
      show "byte (f k t) (d + i) = byte h (s + i)" if "i < Suc k" for i
        using eq [of "d + i"] that k lim I by (auto simp: less_Suc_eq)
    qed
  qed simp_all
  moreover have "h' = for_up 0 n f h" by (simp add: h'_def copy_bytes_def f_def [abs_def] unat_addr [OF n])
  ultimately show "changes h h' {d..<d + n}" "\<And>i. i < n \<Longrightarrow> byte h' (d + i) = byte h (s + i)" by simp_all
qed

text \<open>Writing into a payload in use keeps the chain.\<close>

lemma payload_write_inv:
  assumes inv: "heap_inv h base bs" and c: "changes h h' S" "S \<subseteq> live base bs"
  shows "heap_inv h' base bs"
proof (rule heap_inv_changes [OF inv c(1) refl heap_invD(4) [OF inv]])
  have "S \<inter> headers base bs = {}" using c(2) live_headers [of base bs] by blast
  then show "chain h' base bs 0" using chain_cong [OF c(1)] heap_invD(5,7) [OF inv] by simp
qed

lemma live_others:
  "live base (xs @ (n, False) # ys) - {base + span xs + 24..<base + span xs + 24 + n}
    = live base xs \<union> live (base + span xs + 24 + n) ys"
  using live_bound [of _ base xs] live_bound [of _ "base + span xs + 24 + n" ys] by fastforce

text \<open>The old block is still there after \<open>malloc\<close> took another one.\<close>

lemma other_block:
  assumes "xs @ (n, False) # ys = us @ (m, True) # vs" "0 < m" "k \<le> m"
  obtains us' vs' where "us @ cut k m False @ vs = us' @ (n, False) # vs'" "span us' = span xs"
proof -
  from assms(1) consider (after) w where "us = xs @ (n, False) # w" "ys = w @ (m, True) # vs"
    | (before) w where "xs = us @ (m, True) # w" "vs = w @ (n, False) # ys"
    by (auto simp: append_eq_append_conv2 append_eq_Cons_conv Cons_eq_append_conv)
  then show ?thesis
  proof cases
    case after
    then show ?thesis using that [of xs "w @ cut k m False @ vs"] by simp
  next
    case before
    then show ?thesis using that [of "us @ cut k m False @ w" ys] assms(3) by simp
  qed
qed

text \<open>
  What \<open>realloc\<close> promises for a block in use: NULL and nothing changed, or a payload of at least the
  new size that starts with the old contents, disjoint from all other payloads, whose contents stay.
\<close>

definition realloc_ok :: "heap \<Rightarrow> nat \<Rightarrow> block list \<Rightarrow> nat \<Rightarrow> nat \<Rightarrow> nat \<Rightarrow> u64 \<Rightarrow> heap \<Rightarrow> bool" where
  "realloc_ok h base bs p n k q h' \<longleftrightarrow>
     q = 0 \<and> h' = h
     \<or> (\<exists>a j bs'. q = of_nat a \<and> 0 < a \<and> a < 2 ^ 64 \<and> k \<le> j \<and> heap_inv h' base bs'
         \<and> live base bs' = (live base bs - {p..<p + n}) \<union> {a..<a + j}
         \<and> (live base bs - {p..<p + n}) \<inter> {a..<a + j} = {}
         \<and> (\<forall>i < min n k. byte h' (a + i) = byte h (p + i))
         \<and> (\<forall>x \<in> live base bs - {p..<p + n}. byte h' x = byte h x))"

lemma realloc_in_place:
  assumes inv: "heap_inv h base (xs @ (n, False) # ys)" and inv1: "heap_inv h1 base (xs @ (m, False) # zs)"
    and k: "8 dvd k" "0 < k" "k \<le> m" and nm: "min n k \<le> m"
    and c: "changes h h1 (link_bytes (base + span xs))" and zs: "live (base + span xs + 24 + n) ys = live (base + span xs + 24 + m) zs"
    and nk: "n \<le> m"
  defines "a \<equiv> base + span xs"
  shows "realloc_ok h base (xs @ (n, False) # ys) (a + 24) n k (of_nat (a + 24)) (split_block (of_nat a) (of_nat k) h1)"
proof -
  let ?h = "split_block (of_nat a) (of_nat k) h1" and ?O = "live base xs \<union> live (a + 24 + n) ys"
  note S = split_inv [OF inv1 k, folded a_def]
  note B = block_in_pool [OF inv1, folded a_def]
  have O: "live base (xs @ (n, False) # ys) - {a + 24..<a + 24 + n} = ?O"
    using live_others [of base xs n ys] by (simp add: a_def)
  have ch: "changes h ?h ({a..<a + 24} \<union> {a + 24 + k..<a + 24 + m})"
    by (rule changes_trans [OF c [folded a_def] S(2)]) (use link_bytes_sub [of a] in auto)
  have bd: "x < a \<or> a + 24 + m \<le> x" "x < 2 ^ 64" if "x \<in> ?O" for x
    using that live_bound [of x base xs] live_bound [of x "a + 24 + m" zs] B(1) unfolding zs [folded a_def]
    by (auto simp: a_def)
  define j where "j = (if m < k + 32 then m else k)"
  have j: "k \<le> j" "j \<le> m" using k(3) by (auto simp: j_def)
  have lv: "live base (xs @ cut k m False @ zs) = ?O \<union> {a + 24..<a + 24 + j}"
    using k(3) zs [folded a_def] by (auto simp: live_cut j_def a_def add.assoc)
  have keep: "byte ?h x = byte h x" if "x < 2 ^ 64" "x \<notin> {a..<a + 24} \<union> {a + 24 + k..<a + 24 + m}" for x
    using ch that unfolding changes_def by blast
  show ?thesis
    unfolding realloc_ok_def O
  proof (intro disjI2 exI conjI)
    show "of_nat (a + 24) = (of_nat (a + 24) :: u64)" "0 < a + 24" "k \<le> j" using j by simp_all
    show "a + 24 < 2 ^ 64" using B(1,8) by simp
    show "heap_inv ?h base (xs @ cut k m False @ zs)" by (rule S(1))
    show "live base (xs @ cut k m False @ zs) = ?O \<union> {a + 24..<a + 24 + j}" by (rule lv)
    show "?O \<inter> {a + 24..<a + 24 + j} = {}" using bd j by fastforce
    show "\<forall>i < min n k. byte ?h (a + 24 + i) = byte h (a + 24 + i)"
      using keep B(1) nm k(3) by (auto simp del: of_nat_add)
    show "\<forall>x \<in> ?O. byte ?h x = byte h x"
    proof
      fix x assume "x \<in> ?O"
      then show "byte ?h x = byte h x" using keep [of x] bd [of x] k(3) by fastforce
    qed
  qed
qed

text \<open>The part of \<open>realloc\<close> that moves the block: \<open>malloc\<close>, copy, \<open>free\<close>.\<close>

lemma live_free_block:
  "live base (us @ (m, True) # vs) \<inter> {base + span us..<base + span us + 24 + m} = {}"
  using live_bound [of _ base us] live_bound [of _ "base + span us + 24 + m" vs] by fastforce

lemma live_take_block:
  assumes "k \<le> m"
  obtains j rest where "k \<le> j" "j \<le> m" "cut k m False = (j, False) # rest"
    "live base (us @ cut k m False @ vs) = live base (us @ (m, True) # vs) \<union> {base + span us + 24..<base + span us + 24 + j}"
proof
  show "k \<le> (if m < k + 32 then m else k)" "(if m < k + 32 then m else k) \<le> m" using assms by auto
  show "live base (us @ cut k m False @ vs) = live base (us @ (m, True) # vs)
      \<union> {base + span us + 24..<base + span us + 24 + (if m < k + 32 then m else k)}"
    using assms by (auto simp: live_cut add.assoc)
  show "cut k m False = (if m < k + 32 then m else k, False) # (if m < k + 32 then [] else [(m - k - 24, True)])"
    by (simp add: cut_def)
qed

lemma realloc_move:
  assumes inv: "heap_inv h base bs" and bs: "bs = xs @ (n, False) # ys" "bs = us @ (m, True) # vs"
    and inv1: "heap_inv h1 base (us @ cut k m False @ vs)" and nk: "n \<le> k" "k \<le> m" "0 < n"
    and ch: "changes h h1 ({base + span us..<base + span us + 24} \<union> {base + span us + 24 + k..<base + span us + 24 + m})"
  defines "p \<equiv> base + span xs + 24" and "d \<equiv> base + span us + 24"
  shows "\<exists>h'. free (of_nat p) (copy_bytes (of_nat d) (of_nat p) (of_nat n) h1) = Some h'
    \<and> realloc_ok h base bs p n k (of_nat d) h'"
proof -
  let ?P = "{p..<p + n}" and ?bs1 = "us @ cut k m False @ vs"
  have m: "0 < m" using nk by simp
  obtain us' vs' where o: "?bs1 = us' @ (n, False) # vs'" "span us' = span xs"
    using other_block [OF _ m nk(2)] bs by metis
  obtain j where j: "k \<le> j" "j \<le> m" "live base ?bs1 = live base bs \<union> {d..<d + j}"
    using live_take_block [OF nk(2), of base us vs] unfolding d_def bs(2) by blast
  note B = block_in_pool [OF inv [unfolded bs(1)], folded p_def]
  note C = block_in_pool [OF inv [unfolded bs(2)], folded d_def]
  have free0: "live base bs \<inter> {base + span us..<d + m} = {}"
    using live_free_block [of base us m vs] by (simp add: bs(2) d_def)
  have P: "?P \<subseteq> live base bs" unfolding bs(1) p_def by auto
  have dis: "{d..<d + j} \<inter> live base bs = {}" using free0 j(2) by (fastforce simp: d_def)
  have sub: "{d..<d + n} \<subseteq> {d..<d + j}" using nk(1) j(1) by auto
  have lim: "p + n \<le> 2 ^ 64" "d + n \<le> 2 ^ 64" "n < 2 ^ 64" using B C nk by (simp_all add: p_def d_def)
  define h2 where "h2 = copy_bytes (of_nat d) (of_nat p) (of_nat n) h1"
  have "{d..<d + n} \<inter> ?P = {}" using dis sub P by blast
  note cp = copy_bytes_effect [OF lim(1,2) this lim(3) h2_def]
  have inv2: "heap_inv h2 base (us' @ (n, False) # vs')"
    using payload_write_inv [OF inv1 cp(1)] sub unfolding j(3) o(1) [symmetric] by blast
  have pe: "p = base + span us' + 24" by (simp add: p_def o(2))
  obtain h' where h': "free (of_nat p) h2 = Some h'" "heap_inv h' base (merge (us' @ (n, True) # vs'))"
      "changes h2 h' (headers base ?bs1)"
    using free_refines [OF inv2, folded pe] unfolding o(1) by blast
  have lv: "live base (merge (us' @ (n, True) # vs')) = (live base bs - ?P) \<union> {d..<d + j}"
  proof -
    have "live base (merge (us' @ (n, True) # vs')) = live base ?bs1 - ?P"
      unfolding o(1) using live_others [of base us' n vs'] by (simp add: pe)
    then show ?thesis unfolding j(3) using dis P by blast
  qed
  have old: "byte h1 x = byte h x" if "x \<in> live base bs" "x < 2 ^ 64" for x
  proof -
    have "x \<notin> {base + span us..<base + span us + 24} \<union> {base + span us + 24 + k..<base + span us + 24 + m}"
      using free0 that(1) nk(2) by (fastforce simp: d_def)
    then show ?thesis using ch that(2) unfolding changes_def by blast
  qed
  have small: "x < 2 ^ 64" if "x \<in> live base ?bs1" for x
    using live_bound [OF that] heap_invD(7) [OF inv1] by simp
  have new: "byte h' x = byte h2 x" if "x \<in> live base ?bs1" for x
    using h'(3) small [OF that] live_headers [of base ?bs1] that unfolding changes_def by blast
  have "realloc_ok h base bs p n k (of_nat d) h'"
    unfolding realloc_ok_def
  proof (intro disjI2 exI conjI)
    show "(of_nat d :: u64) = of_nat d" "0 < d" "k \<le> j" by (simp_all add: d_def j(1))
    show "d < 2 ^ 64" using C m by (simp add: d_def)
    show "heap_inv h' base (merge (us' @ (n, True) # vs'))" by (rule h'(2))
    show "live base (merge (us' @ (n, True) # vs')) = (live base bs - ?P) \<union> {d..<d + j}" by (rule lv)
    show "(live base bs - ?P) \<inter> {d..<d + j} = {}" using dis by blast
    show "\<forall>i < min n k. byte h' (d + i) = byte h (p + i)"
    proof (intro allI impI)
      fix i assume i: "i < min n k"
      then have m: "d + i \<in> {d..<d + n}" "p + i \<in> ?P" by simp_all
      then have "d + i \<in> live base ?bs1" "p + i \<in> live base bs" using sub P unfolding j(3) by blast+
      moreover have "p + i < 2 ^ 64" using m(2) lim(1) by simp
      ultimately show "byte h' (d + i) = byte h (p + i)"
        using new [of "d + i"] old [of "p + i"] cp(2) [of i] i by (simp del: of_nat_add live_append)
    qed
    show "\<forall>x \<in> live base bs - ?P. byte h' x = byte h x"
    proof
      fix x assume x: "x \<in> live base bs - ?P"
      then have l: "x \<in> live base ?bs1" unfolding j(3) by blast
      have "x \<notin> {d..<d + n}" using x dis sub by blast
      then have "byte h2 x = byte h1 x" using cp(1) small [OF l] unfolding changes_def by blast
      then show "byte h' x = byte h x" using new [OF l] old x small [OF l] by simp
    qed
  qed
  with h'(1) show ?thesis unfolding h2_def by blast
qed

lemma realloc_refines:
  assumes inv: "heap_inv h base (xs @ (n, False) # ys)" and sz: "sz \<noteq> 0" "unat sz + 7 < 2 ^ 64"
  defines "p \<equiv> base + span xs + 24" and "k \<equiv> round8 (unat sz)"
  shows "\<exists>q h'. realloc (of_nat p) sz h = Some (q, h')
    \<and> realloc_ok h base (xs @ (n, False) # ys) p n k q h'"
proof -
  let ?bs = "xs @ (n, False) # ys" and ?a = "base + span xs"
  note B = block_in_pool [OF inv]
  have p: "p = ?a + 24" by (simp add: p_def)
  have k: "8 dvd k" "0 < k" "k < 2 ^ 64" "of_nat k \<noteq> (0 :: u64)"
  proof -
    have "0 < unat sz" using sz(1) by (simp add: unat_gt_0)
    then show "8 dvd k" "0 < k" using round8_facts by (simp_all add: k_def)
    show "k < 2 ^ 64" using sz(2) by (simp add: k_def round8_def)
    then show "of_nat k \<noteq> (0 :: u64)" using \<open>0 < k\<close> by (intro addr_nonzero)
  qed
  have al: "align_size sz = of_nat k" using sz(2) by (simp add: align_size_round k_def)
  have pa: "of_nat p - sizeof_Block = of_nat ?a" by (simp add: p heap_consts)
  have pz: "(of_nat p :: u64) \<noteq> 0" unfolding p by (rule addr_nonzero) (use B(1,8) in auto)
  have hd: "bsize (of_nat ?a) h = of_nat n" "\<not> bfree (of_nat ?a) h" "bnext (of_nat ?a) h = ptr (?a + 24 + n) ys"
    using B(6) by (simp_all add: header_def ptr_def)
  have n64: "n < 2 ^ 64" using B(2) by simp
  show ?thesis
  proof (cases "k \<le> n")
    case True
    have "of_nat k \<le> (of_nat n :: u64)" using True of_nat_le_iff [OF k(3) n64] by simp
    then have "realloc (of_nat p) sz h = Some (of_nat p, split_block (of_nat ?a) (of_nat k) h)"
      using pz sz(1) k(4) by (simp only: realloc_def al pa hd Let_def if_False if_True simp_thms)
    moreover have "realloc_ok h base ?bs p n k (of_nat p) (split_block (of_nat ?a) (of_nat k) h)"
      unfolding p by (rule realloc_in_place [OF inv inv k(1,2) True]) (use True in simp_all)
    ultimately show ?thesis by blast
  next
    case kn: False
    have le1: "\<not> of_nat k \<le> (of_nat n :: u64)" using kn of_nat_le_iff [OF k(3) n64] by simp
    let ?absorb = "\<lambda>h. bnext (of_nat ?a) h \<noteq> 0 \<and> bfree (bnext (of_nat ?a) h) h
      \<and> bsize (of_nat ?a) h + sizeof_Block + bsize (bnext (of_nat ?a) h) h \<ge> of_nat k"
    show ?thesis
    proof (cases "?absorb h")
      case True
      then obtain m g zs where ys: "ys = (m, g) # zs" using hd(3) by (cases ys) (auto simp: ptr_def)
      have hy: "header h (?a + 24 + n) m g (ptr (?a + 48 + n + m) zs)"
      proof -
        have "?a + 24 + n + 24 + m = ?a + 48 + n + m" by simp
        with B(6) show ?thesis unfolding ys by (simp only: chain.simps ptr_def simp_thms)
      qed
      have nx: "bnext (of_nat ?a) h = of_nat (?a + 24 + n)" using hd(3) by (simp add: ys ptr_def)
      have g: "g" using True hy unfolding nx header_def by simp
      have sum: "bsize (of_nat ?a) h + sizeof_Block + bsize (of_nat (?a + 24 + n)) h = of_nat (n + 24 + m)"
        using hy hd(1) by (simp add: header_def heap_consts)
      have lim: "n + 24 + m < 2 ^ 64" using B(1) by (simp add: ys)
      have km: "k \<le> n + 24 + m" using True of_nat_le_iff [OF k(3) lim] unfolding nx sum by simp
      note inv' = inv [unfolded ys g [THEN eqTrueI]]
      define h1 where "h1 = set_bnext (of_nat ?a) (ptr (?a + 48 + n + m) zs) (set_bsize (of_nat ?a) (of_nat (n + 24 + m)) h)"
      note A = absorb_inv [OF inv', folded h1_def]
      have bn: "bnext (of_nat (?a + 24 + n)) (set_bsize (of_nat ?a) (of_nat (n + 24 + m)) h) = ptr (?a + 48 + n + m) zs"
      proof -
        have "?a + 24 + n + 24 \<le> 2 ^ 64" using B(1) by (simp add: ys)
        from fields_cong(3) [OF set_field_changes(1) [OF B(3)] this] hy show ?thesis by (auto simp: header_def)
      qed
      have r: "realloc (of_nat p) sz h = Some (of_nat p, split_block (of_nat ?a) (of_nat k) h1)"
        using pz sz(1) k(4) le1 True [unfolded nx sum]
        by (simp only: realloc_def al pa hd(1,2) nx sum [unfolded hd(1)] bn Let_def if_False if_True simp_thms h1_def)
      have "realloc_ok h base ?bs p n k (of_nat p) (split_block (of_nat ?a) (of_nat k) h1)"
        unfolding p
        by (rule realloc_in_place [OF inv A(1) k(1,2) km _ A(2)])
          (use kn in \<open>simp_all add: ys g add.assoc add.commute add.left_commute\<close>)
      with r show ?thesis by blast
    next
      case False
      have rep: "heap_rep h base ?bs" and init: "allocator_init h = h"
        using inv heap_invD(1) [OF inv] by (simp_all add: heap_rep_def allocator_init_def)
      have uk: "unat (of_nat k :: u64) = k" by (rule unat_addr [OF k(3)])
      have rk: "round8 k = k" using k(1) unfolding round8_def by presburger
      have k7: "unat (of_nat k :: u64) + 7 < 2 ^ 64"
      proof -
        obtain q where "k = 8 * q" using k(1) by (elim dvdE)
        with k(3) show ?thesis unfolding uk by simp
      qed
      note M = malloc_refines [OF rep k(4) k7, unfolded uk rk init]
      have cs: "(if bsize (of_nat ?a) h < of_nat k then bsize (of_nat ?a) h else of_nat k) = of_nat n"
        using of_nat_less_iff [OF n64 k(3)] kn unfolding hd(1) by simp
      have r: "realloc (of_nat p) sz h = Option.bind (malloc (of_nat k) h)
          (\<lambda>(new_ptr, h). if new_ptr = 0 then Some (0, h)
             else map_option (Pair new_ptr) (free (of_nat p) (copy_bytes new_ptr (of_nat p) (of_nat n) h)))"
        using pz sz(1) k(4) le1 False cs
        by (simp only: realloc_def al pa hd(1,2) Let_def if_False if_True simp_thms)
      show ?thesis
      proof (cases "a_malloc k ?bs")
        case None
        then have "realloc (of_nat p) sz h = Some (0, h)" using M r by simp
        then show ?thesis by (auto simp: realloc_ok_def)
      next
        case (Some z)
        obtain off bs' where z: "z = (off, bs')" by (cases z)
        from M obtain h1 us m vs where m: "malloc (of_nat k) h = Some (of_nat (base + off), h1)"
            "heap_inv h1 base bs'" "?bs = us @ (m, True) # vs" "k \<le> m" "off = span us + 24"
            "bs' = us @ cut k m False @ vs"
            "changes h h1 ({base + span us..<base + off} \<union> {base + off + k..<base + off + m})"
          unfolding Some z option.case prod.case by blast
        have d: "base + off = base + span us + 24" by (simp add: m(5))
        have "base + span us + 24 < 2 ^ 64"
          using block_in_pool(1,8) [OF inv [unfolded m(3)]] by simp
        then have nz: "(of_nat (base + span us + 24) :: u64) \<noteq> 0" by (intro addr_nonzero) simp_all
        have "n \<le> k" using kn by simp
        from realloc_move [OF inv refl m(3) m(2) [unfolded m(6)] this m(4) B(8) m(7) [unfolded d], folded p_def]
        obtain h' where "free (of_nat p) (copy_bytes (of_nat (base + span us + 24)) (of_nat p) (of_nat n) h1) = Some h'"
            "realloc_ok h base ?bs p n k (of_nat (base + span us + 24)) h'" by blast
        then show ?thesis using m(1) nz unfolding r d by simp
      qed
    qed
  qed
qed

section \<open>calloc\<close>

lemma zero_fill_effect:
  assumes lim: "d + n \<le> 2 ^ 64"
    and h'_def: "h' = for_up 0 n (\<lambda>index. set_byte (of_nat d + of_nat index) 0) h"
  shows "changes h h' {d..<d + n}" "\<And>i. i < n \<Longrightarrow> byte h' (d + i) = 0"
proof -
  define f where "f = (\<lambda>index. set_byte (of_nat d + of_nat index) 0)"
  have "changes h (for_up 0 n f h) {d..<d + n} \<and> (\<forall>i < n. byte (for_up 0 n f h) (d + i) = 0)"
  proof (rule for_up_invariant [where I = "\<lambda>k t. changes h t {d..<d + k} \<and> (\<forall>i < k. byte t (d + i) = 0)"])
    fix k t assume k: "k < n" and I: "changes h t {d..<d + k} \<and> (\<forall>i < k. byte t (d + i) = 0)"
    have eq: "byte (f k t) x = (if x = d + k then 0 else byte t x)" if "x < 2 ^ 64" for x
      using of_nat_addr_eq [OF that, of "d + k"] k lim by (simp add: f_def set_byte_def)
    have fl: "memory_pool (f k t) = memory_pool t" "free_list (f k t) = free_list t"
      "allocator_initialized (f k t) = allocator_initialized t"
      by (simp_all add: f_def set_byte_def)
    show "changes h (f k t) {d..<d + Suc k} \<and> (\<forall>i < Suc k. byte (f k t) (d + i) = 0)"
    proof (intro conjI allI impI)
      show "changes h (f k t) {d..<d + Suc k}" using I by (auto simp: changes_def eq fl)
      show "byte (f k t) (d + i) = 0" if "i < Suc k" for i
        using eq [of "d + i"] that k lim I by (auto simp: less_Suc_eq)
    qed
  qed simp_all
  then show "changes h h' {d..<d + n}" "\<And>i. i < n \<Longrightarrow> byte h' (d + i) = 0"
    by (simp_all add: h'_def f_def)
qed

definition used_at :: "nat \<Rightarrow> block list \<Rightarrow> nat \<Rightarrow> nat \<Rightarrow> bool" where
  "used_at base bs a j \<longleftrightarrow> (\<exists>us vs. bs = us @ (j, False) # vs \<and> a = base + span us + 24)"

text \<open>
  What \<open>malloc\<close> and \<open>calloc\<close> promise: NULL, or a payload of at least the size asked for, at an
  8-aligned address in the pool, disjoint from every payload in use, whose contents stay.
\<close>

definition alloc_ok :: "heap \<Rightarrow> nat \<Rightarrow> block list \<Rightarrow> nat \<Rightarrow> u64 \<Rightarrow> heap \<Rightarrow> bool" where
  "alloc_ok h base bs sz q h' \<longleftrightarrow>
     q = 0 \<and> heap_rep h' base bs \<and> (\<forall>x \<in> live base bs. byte h' x = byte h x)
     \<or> (\<exists>a j bs'. q = of_nat a \<and> base < a \<and> a + j \<le> base + 0x100000 \<and> 8 dvd a \<and> sz \<le> j \<and> 0 < j
         \<and> heap_inv h' base bs' \<and> used_at base bs' a j
         \<and> live base bs' = live base bs \<union> {a..<a + j} \<and> live base bs \<inter> {a..<a + j} = {}
         \<and> (\<forall>x \<in> live base bs. byte h' x = byte h x))"

lemma heap_inv_rep: "heap_inv h base bs \<Longrightarrow> heap_rep h base bs"
  by (simp add: heap_rep_def heap_inv_def)

lemma span_dvd: "sizes_ok bs \<Longrightarrow> 8 dvd span bs"
  by (induction bs rule: span.induct) auto

lemma malloc_ok:
  assumes rep: "heap_rep h base bs"
  shows "\<exists>q h'. malloc sz h = Some (q, h') \<and> alloc_ok h base bs (unat sz) q h'"
proof (cases "sz = 0 \<or> 2 ^ 64 \<le> unat sz + 7")
  case True
  then show ?thesis using malloc_bad_size [OF True] rep by (auto simp: alloc_ok_def)
next
  case False
  then have sz: "sz \<noteq> 0" "unat sz + 7 < 2 ^ 64" by simp_all
  let ?n = "round8 (unat sz)" and ?h0 = "allocator_init h"
  note inv = allocator_init_inv(1) [OF rep]
  note keep0 = allocator_init_inv(2) [OF rep]
  note M = malloc_refines [OF rep sz]
  show ?thesis
  proof (cases "a_malloc ?n bs")
    case None
    then show ?thesis using M keep0 heap_inv_rep by (auto simp: alloc_ok_def)
  next
    case (Some z)
    obtain off bs' where z: "z = (off, bs')" by (cases z)
    from M obtain h' xs m ys where m: "malloc sz h = Some (of_nat (base + off), h')" "heap_inv h' base bs'"
        "bs = xs @ (m, True) # ys" "?n \<le> m" "off = span xs + 24" "bs' = xs @ cut ?n m False @ ys"
        "changes ?h0 h' ({base + span xs..<base + off} \<union> {base + off + ?n..<base + off + m})"
      unfolding Some z option.case prod.case by blast
    have d: "base + off = base + span xs + 24" by (simp add: m(5))
    obtain j rest where j: "?n \<le> j" "j \<le> m" "cut ?n m False = (j, False) # rest" "live base bs' = live base bs \<union> {base + off..<base + off + j}"
      using live_take_block [OF m(4), of base xs ys] unfolding m(3,6) d by blast
    note I = heap_invD [OF inv]
    have fr: "live base bs \<inter> {base + span xs..<base + off + m} = {}"
      using live_free_block [of base xs m ys] unfolding m(3,5) by (simp add: add.assoc)
    have "0 < unat sz" using sz(1) by (simp add: unat_gt_0)
    then have n: "0 < ?n" "unat sz \<le> ?n" using round8_facts by simp_all
    have "alloc_ok h base bs (unat sz) (of_nat (base + off)) h'"
      unfolding alloc_ok_def
    proof (intro disjI2 exI conjI)
      show "(of_nat (base + off) :: u64) = of_nat (base + off)" "base < base + off" by (simp_all add: m(5))
      show "base + off + j \<le> base + 0x100000" using I(3) j(2) by (simp add: m(3,5))
      show "8 dvd base + off" using I(4,8) span_dvd [of xs] by (simp add: m(3,5))
      show "unat sz \<le> j" "0 < j" using n j(1) by simp_all
      show "heap_inv h' base bs'" "live base bs' = live base bs \<union> {base + off..<base + off + j}"
        by (rule m(2), rule j(4))
      show "used_at base bs' (base + off) j"
        unfolding used_at_def using j(3) by (intro exI [of _ xs] exI [of _ "rest @ ys"]) (simp add: m(6) d)
      show "live base bs \<inter> {base + off..<base + off + j} = {}" using fr j(2) by (fastforce simp: m(5))
      show "\<forall>x \<in> live base bs. byte h' x = byte h x"
      proof
        fix x assume x: "x \<in> live base bs"
        then have "x \<notin> {base + span xs..<base + off} \<union> {base + off + ?n..<base + off + m}"
          using fr m(4) by (fastforce simp: m(5))
        moreover have "x < 2 ^ 64" using live_bound [OF x] I(7) by simp
        ultimately have "byte h' x = byte ?h0 x" using m(7) unfolding changes_def by blast
        then show "byte h' x = byte h x" using keep0 [OF x] by simp
      qed
    qed
    with m(1) show ?thesis by blast
  qed
qed

lemma unat_div_SIZE_MAX: "sz \<noteq> 0 \<Longrightarrow> \<not> num > SIZE_MAX div sz \<Longrightarrow> unat num * unat sz < 2 ^ 64"
proof -
  assume z: "sz \<noteq> 0" and "\<not> num > SIZE_MAX div sz"
  then have "unat num \<le> unat SIZE_MAX div unat sz" by (simp add: word_le_nat_alt unat_div_distrib not_less)
  then have "unat num * unat sz \<le> unat SIZE_MAX div unat sz * unat sz" by simp
  also have "\<dots> \<le> unat SIZE_MAX" by simp
  finally show ?thesis using unat_u64_less [of SIZE_MAX] by simp
qed

lemma calloc_ok:
  assumes rep: "heap_rep h base bs"
  shows "\<exists>q h'. calloc num sz h = Some (q, h') \<and> alloc_ok h base bs (unat num * unat sz) q h'
    \<and> (q \<noteq> 0 \<longrightarrow> (\<forall>i < unat num * unat sz. heap_bytes h' (q + of_nat i) = 0))"
proof (cases "num = 0 \<or> sz = 0 \<or> num > SIZE_MAX div sz")
  case True
  then show ?thesis using rep by (auto simp: calloc_def alloc_ok_def)
next
  case False
  then have z: "num \<noteq> 0" "sz \<noteq> 0" "\<not> num > SIZE_MAX div sz" by simp_all
  let ?n = "unat num * unat sz"
  have n: "unat (num * sz) = ?n" using unat_div_SIZE_MAX [OF z(2,3)] by (simp add: unat_times_nowrap)
  obtain q h1 where m: "malloc (num * sz) h = Some (q, h1)" "alloc_ok h base bs ?n q h1"
    using malloc_ok [OF rep, of "num * sz"] unfolding n by blast
  show ?thesis
  proof (cases "q = 0")
    case True
    then show ?thesis using z m by (auto simp: calloc_def Let_def)
  next
    case q: False
    from m(2) q obtain a j bs' where a: "q = of_nat a" "base < a" "a + j \<le> base + 0x100000" "8 dvd a" "?n \<le> j" "0 < j"
        "heap_inv h1 base bs'" "live base bs' = live base bs \<union> {a..<a + j}" "live base bs \<inter> {a..<a + j} = {}"
        "\<forall>x \<in> live base bs. byte h1 x = byte h x" "used_at base bs' a j"
      unfolding alloc_ok_def by blast
    note I = heap_invD [OF a(7)]
    define h' where "h' = for_up 0 ?n (\<lambda>index. set_byte (of_nat a + of_nat index) 0) h1"
    have lim: "a + ?n \<le> 2 ^ 64" using a(3,5) I(3,7) by simp
    note Z = zero_fill_effect [OF lim h'_def]
    have c: "calloc num sz h = Some (q, h')"
      using z m(1) q by (simp add: calloc_def Let_def n a(1) h'_def)
    have sub: "{a..<a + ?n} \<subseteq> live base bs'" using a(5) unfolding a(8) by auto
    have "alloc_ok h base bs ?n q h'"
      unfolding alloc_ok_def
    proof (intro disjI2 exI conjI)
      show "q = of_nat a" "base < a" "a + j \<le> base + 0x100000" "8 dvd a" "?n \<le> j" "0 < j"
        "live base bs' = live base bs \<union> {a..<a + j}" "live base bs \<inter> {a..<a + j} = {}"
        "used_at base bs' a j" by fact+
      show "heap_inv h' base bs'" by (rule payload_write_inv [OF a(7) Z(1) sub])
      show "\<forall>x \<in> live base bs. byte h' x = byte h x"
      proof
        fix x assume x: "x \<in> live base bs"
        then have "x \<notin> {a..<a + ?n}" using a(5,9) by fastforce
        moreover have "x < 2 ^ 64" using live_bound [of x base bs'] x I(7) unfolding a(8) by auto
        ultimately have "byte h' x = byte h1 x" using Z(1) unfolding changes_def by blast
        then show "byte h' x = byte h x" using a(10) x by simp
      qed
    qed
    then show ?thesis using c Z(2) by (auto simp: a(1))
  qed
qed

end
