(* ===== verification/HeapProps.thy ===== *)
theory HeapProps
  imports Heap
begin

text \<open>
  The contract of \<open>kernel/lib/std/stdlib.c\<close>: \<open>blocks\<close> reads the list of blocks out of memory, so
  each function of the allocator is described by what it does to that list, to the set of payload
  addresses in use and to their contents.  The contract is packed as the locale \<open>allocator\<close> for
  clients, interpreted on the code's \<open>malloc\<close> and \<open>free\<close>.
\<close>

section \<open>The abstraction function\<close>

fun walk :: "nat \<Rightarrow> u64 \<Rightarrow> heap \<Rightarrow> block list" where
  "walk 0 b h = []"
| "walk (Suc fuel) b h =
     (if b = 0 then [] else (unat (bsize b h), bfree b h) # walk fuel (bnext b h) h)"

text \<open>Every block has a header of 24 bytes, so 1 MiB holds fewer than 43691 of them.\<close>

definition blocks :: "heap \<Rightarrow> block list" where
  "blocks h = (if allocator_initialized h then walk 43691 (free_list h) h else [(0x100000 - 24, True)])"

definition pool :: "heap \<Rightarrow> nat" where
  "pool h = unat (memory_pool h)"

definition heap_ok :: "heap \<Rightarrow> bool" where
  "heap_ok h \<longleftrightarrow> heap_rep h (pool h) (blocks h)"

definition live_bytes :: "heap \<Rightarrow> nat set" where
  "live_bytes h = live (pool h) (blocks h)"

lemma walk_chain:
  assumes "chain h a bs 0" "0 < a" "a + span bs \<le> 2 ^ 64" "length bs \<le> fuel"
  shows "walk fuel (ptr a bs) h = bs"
  using assms
proof (induction bs arbitrary: a fuel rule: span.induct)
  case 1
  then show ?case by (cases fuel) (simp_all add: ptr_def)
next
  case (2 n f bs)
  then obtain k where k: "fuel = Suc k" by (cases fuel) auto
  have nz: "(of_nat a :: u64) \<noteq> 0" by (rule addr_nonzero) (use "2.prems" in auto)
  have n: "unat (of_nat n :: u64) = n" by (rule unat_addr) (use "2.prems"(2,3) in simp)
  have hd: "bsize (of_nat a) h = of_nat n" "bfree (of_nat a) h = f" "bnext (of_nat a) h = ptr (a + 24 + n) bs"
    using "2.prems"(1) by (simp_all add: header_def ptr_def)
  have "walk k (ptr (a + 24 + n) bs) h = bs" by (rule "2.IH") (use "2.prems" k in auto)
  then show ?case using hd n nz by (simp add: k ptr_def [of a])
qed

lemma length_span: "24 * length bs \<le> span bs"
  by (induction bs rule: span.induct) auto

lemma heap_rep_unique:
  assumes "heap_rep h base bs"
  shows "pool h = base" "blocks h = bs" "heap_ok h"
proof -
  have p: "pool_ok h base" using assms by (auto simp: heap_rep_def heap_inv_def split: if_splits)
  then show b: "pool h = base" by (simp add: pool_ok_def pool_def unat_addr)
  show "blocks h = bs"
  proof (cases "allocator_initialized h")
    case True
    then have inv: "heap_inv h base bs" using assms by (simp add: heap_rep_def)
    have "length bs \<le> 43691" using length_span [of bs] heap_invD(3) [OF inv] by simp
    from walk_chain [OF heap_invD(5-7) [OF inv] this] show ?thesis
      using True by (simp add: blocks_def heap_invD(9) [OF inv])
  next
    case False
    then show ?thesis using assms by (simp add: heap_rep_def blocks_def)
  qed
  with b assms show "heap_ok h" by (simp add: heap_ok_def)
qed

lemma heap_inv_unique:
  assumes "heap_inv h base bs"
  shows "pool h = base" "blocks h = bs" "heap_ok h"
  using heap_rep_unique [OF heap_inv_rep [OF assms]] by simp_all

lemma heap_ok_rep: "heap_ok h \<Longrightarrow> heap_rep h (pool h) (blocks h)"
  by (simp add: heap_ok_def)

lemma heap_ok_pool:
  assumes "heap_ok h"
  shows "memory_pool h = of_nat (pool h)" "pool h + 0x100000 \<le> 2 ^ 64" "0 < pool h"
proof -
  have "pool_ok h (pool h)"
    using assms by (auto simp: heap_ok_def heap_rep_def heap_inv_def split: if_splits)
  then show "memory_pool h = of_nat (pool h)" "pool h + 0x100000 \<le> 2 ^ 64" "0 < pool h"
    by (simp_all add: pool_ok_def)
qed

lemma heap_ok_used:
  assumes "heap_ok h" "blocks h = xs @ (n, False) # ys"
  shows "heap_inv h (pool h) (xs @ (n, False) # ys)"
proof -
  have "allocator_initialized h"
    using assms by (auto simp: blocks_def Cons_eq_append_conv split: if_splits)
  then show ?thesis using assms by (simp add: heap_ok_def heap_rep_def)
qed

lemma heap_ok_span:
  assumes "heap_ok h"
  shows "span (blocks h) = 0x100000" "sizes_ok (blocks h)"
  using allocator_init_inv(1) [OF heap_ok_rep [OF assms]] heap_invD(3,4) by blast+

lemma live_bytes_small: "heap_ok h \<Longrightarrow> x \<in> live_bytes h \<Longrightarrow> x < 2 ^ 64"
  using live_bound [of x "pool h" "blocks h"] heap_ok_span(1) heap_ok_pool(2) by (fastforce simp: live_bytes_def)

section \<open>The interface of an allocator\<close>

text \<open>
  \<open>regions\<close> are the addresses in use, \<open>peek\<close> reads memory, \<open>extent\<close> is the length of the region
  that starts at a pointer (0 when none does).
\<close>

locale allocator =
  fixes ok :: "'s \<Rightarrow> bool"
    and regions :: "'s \<Rightarrow> nat set"
    and peek :: "'s \<Rightarrow> nat \<Rightarrow> 'v"
    and extent :: "'s \<Rightarrow> u64 \<Rightarrow> nat"
    and alloc :: "u64 \<Rightarrow> 's \<Rightarrow> (u64 \<times> 's) option"
    and release :: "u64 \<Rightarrow> 's \<Rightarrow> 's option"
  assumes alloc_law: "ok s \<Longrightarrow> \<exists>q s'. alloc n s = Some (q, s') \<and> ok s'
      \<and> (\<forall>x \<in> regions s. peek s' x = peek s x)
      \<and> (q = 0 \<and> regions s' = regions s
         \<or> q \<noteq> 0 \<and> unat n \<le> extent s' q \<and> 0 < extent s' q
           \<and> regions s' = regions s \<union> {unat q..<unat q + extent s' q}
           \<and> regions s \<inter> {unat q..<unat q + extent s' q} = {})"
    and release_law: "ok s \<Longrightarrow> 0 < extent s q \<Longrightarrow> \<exists>s'. release q s = Some s' \<and> ok s'
      \<and> regions s' = regions s - {unat q..<unat q + extent s q}
      \<and> (\<forall>x \<in> regions s'. peek s' x = peek s x)"
begin

definition region :: "u64 \<Rightarrow> u64 \<Rightarrow> nat set" where
  "region q n = (if q = 0 then {} else {unat q..<unat q + unat n})"

lemma alloc_region:
  assumes "ok s" "alloc n s = Some (q, s')"
  shows "ok s'" "regions s \<subseteq> regions s'" "region q n \<subseteq> regions s'" "region q n \<inter> regions s = {}"
    "x \<in> regions s \<Longrightarrow> peek s' x = peek s x"
  using alloc_law [OF assms(1), of n] assms(2) by (auto simp: region_def)

text \<open>Allocating one size after the other.\<close>

fun allocs :: "u64 list \<Rightarrow> 's \<Rightarrow> (u64 list \<times> 's) option" where
  "allocs [] s = Some ([], s)"
| "allocs (n # ns) s = Option.bind (alloc n s) (\<lambda>(q, s).
     Option.bind (allocs ns s) (\<lambda>(qs, s). Some (q # qs, s)))"

lemma allocs_disjoint:
  "ok s \<Longrightarrow> \<exists>qs s'. allocs ns s = Some (qs, s') \<and> ok s' \<and> regions s \<subseteq> regions s'
     \<and> (\<forall>x \<in> regions s. peek s' x = peek s x)
     \<and> (\<forall>R \<in> set (map2 region qs ns). R \<subseteq> regions s' - regions s)
     \<and> sorted_wrt (\<lambda>R S. R \<inter> S = {}) (map2 region qs ns)"
proof (induction ns arbitrary: s)
  case (Cons n ns)
  obtain q s1 where q: "alloc n s = Some (q, s1)" using alloc_law [OF Cons.prems, of n] by blast
  note A = alloc_region [OF Cons.prems q]
  from Cons.IH [OF A(1)] obtain qs s2 where I: "allocs ns s1 = Some (qs, s2)" "ok s2" "regions s1 \<subseteq> regions s2"
      "\<forall>x \<in> regions s1. peek s2 x = peek s1 x"
      "\<forall>R \<in> set (map2 region qs ns). R \<subseteq> regions s2 - regions s1"
      "sorted_wrt (\<lambda>R S. R \<inter> S = {}) (map2 region qs ns)" by blast
  have "allocs (n # ns) s = Some (q # qs, s2)" using q I(1) by simp
  moreover have "\<forall>R \<in> set (map2 region (q # qs) (n # ns)). R \<subseteq> regions s2 - regions s"
    using A(2-4) I(3,5) by (simp only: list.map zip_Cons_Cons prod.case list.set ball_simps) blast
  moreover have "sorted_wrt (\<lambda>R S. R \<inter> S = {}) (map2 region (q # qs) (n # ns))"
    using A(3) I(5,6) by (simp only: list.map zip_Cons_Cons prod.case sorted_wrt.simps) blast
  moreover have "\<forall>x \<in> regions s. peek s2 x = peek s x" using A(2,5) I(4) by auto
  moreover have "regions s \<subseteq> regions s2" using A(2) I(3) by blast
  ultimately show ?case using I(2) by blast
qed simp

lemma alloc_release:
  assumes "ok s" "alloc n s = Some (q, s1)" "q \<noteq> 0"
  shows "\<exists>s2. release q s1 = Some s2 \<and> ok s2 \<and> regions s2 = regions s \<and> (\<forall>x \<in> regions s. peek s2 x = peek s x)"
proof -
  have l: "ok s1" "0 < extent s1 q" "regions s1 = regions s \<union> {unat q..<unat q + extent s1 q}"
    "regions s \<inter> {unat q..<unat q + extent s1 q} = {}" "\<forall>x \<in> regions s. peek s1 x = peek s x"
    using alloc_law [OF assms(1), of n] assms(2,3) by auto
  obtain s2 where r: "release q s1 = Some s2" "ok s2" "regions s2 = regions s1 - {unat q..<unat q + extent s1 q}"
      "\<forall>x \<in> regions s2. peek s2 x = peek s1 x"
    using release_law [OF l(1,2)] by blast
  have e: "regions s2 = regions s" unfolding r(3) l(3) using l(4) by blast
  have "\<forall>x \<in> regions s. peek s2 x = peek s x" using r(4) l(5) unfolding e by simp
  with r(1,2) e show ?thesis by blast
qed

end

section \<open>malloc and free implement it\<close>

fun extent_in :: "nat \<Rightarrow> block list \<Rightarrow> nat \<Rightarrow> nat" where
  "extent_in a [] p = 0"
| "extent_in a ((n, f) # bs) p =
     (if p = a + 24 then if f then 0 else n else extent_in (a + 24 + n) bs p)"

definition extent :: "heap \<Rightarrow> u64 \<Rightarrow> nat" where
  "extent h q = extent_in (pool h) (blocks h) (unat q)"

lemma extent_inD:
  "0 < extent_in a bs p \<Longrightarrow> \<exists>xs n ys. bs = xs @ (n, False) # ys \<and> p = a + span xs + 24 \<and> extent_in a bs p = n"
proof (induction a bs p rule: extent_in.induct)
  case (2 a n f bs p)
  show ?case
  proof (cases "p = a + 24")
    case True
    then show ?thesis using 2 by (intro exI [of _ "[]"]) auto
  next
    case False
    then obtain xs m ys where "bs = xs @ (m, False) # ys" "p = a + 24 + n + span xs + 24"
        "extent_in (a + 24 + n) bs p = m"
      using 2 by auto
    then show ?thesis using False by (intro exI [of _ "(n, f) # xs"] exI [of _ m] exI [of _ ys]) simp
  qed
qed simp

lemma extent_in_block: "extent_in a (xs @ (n, False) # ys) (a + span xs + 24) = n"
proof (induction xs arbitrary: a rule: span.induct)
  case (2 m f xs)
  have "a + span ((m, f) # xs) + 24 = (a + 24 + m) + span xs + 24" by simp
  then show ?case using "2.IH" [of "a + 24 + m"] by simp
qed simp

lemma extent_in_beyond: "a + span bs \<le> p \<Longrightarrow> extent_in a bs p = 0"
  by (induction a bs p rule: extent_in.induct) auto

text \<open>\<open>malloc\<close> on the list of blocks.\<close>

lemma malloc_blocks:
  assumes ok: "heap_ok h" and sz: "sz \<noteq> 0" "unat sz + 7 < 2 ^ 64"
  shows "case a_malloc (round8 (unat sz)) (blocks h) of
      None \<Rightarrow> \<exists>h'. malloc sz h = Some (0, h') \<and> heap_ok h' \<and> blocks h' = blocks h
    | Some (off, bs') \<Rightarrow> \<exists>h'. malloc sz h = Some (memory_pool h + of_nat off, h') \<and> heap_ok h'
        \<and> pool h' = pool h \<and> blocks h' = bs'"
proof -
  note M = malloc_refines [OF heap_ok_rep [OF ok] sz]
  show ?thesis
  proof (cases "a_malloc (round8 (unat sz)) (blocks h)")
    case None
    then show ?thesis using M heap_inv_unique by auto
  next
    case (Some z)
    then obtain off bs' where z: "z = (off, bs')" by (cases z)
    from M obtain h' where "malloc sz h = Some (of_nat (pool h + off), h')" "heap_inv h' (pool h) bs'"
      unfolding Some z option.case prod.case by blast
    then show ?thesis
      using heap_inv_unique [of h' "pool h" bs'] heap_ok_pool(1) [OF ok] unfolding Some z by auto
  qed
qed

lemma malloc_contract:
  assumes ok: "heap_ok h"
  shows "\<exists>q h'. malloc sz h = Some (q, h') \<and> heap_ok h' \<and> pool h' = pool h
    \<and> (\<forall>x \<in> live_bytes h. byte h' x = byte h x)
    \<and> (q = 0 \<and> live_bytes h' = live_bytes h
       \<or> q \<noteq> 0 \<and> unat sz \<le> extent h' q \<and> 0 < extent h' q \<and> unat q mod 8 = 0
         \<and> pool h < unat q \<and> unat q + extent h' q \<le> pool h + 0x100000
         \<and> live_bytes h' = live_bytes h \<union> {unat q..<unat q + extent h' q}
         \<and> live_bytes h \<inter> {unat q..<unat q + extent h' q} = {})"
proof -
  obtain q h' where m: "malloc sz h = Some (q, h')" and a: "alloc_ok h (pool h) (blocks h) (unat sz) q h'"
    using malloc_ok [OF heap_ok_rep [OF ok], of sz] by blast
  from a consider (null) "q = 0" "heap_rep h' (pool h) (blocks h)" "\<forall>x \<in> live_bytes h. byte h' x = byte h x"
    | (new) a j bs' us vs where "q = of_nat a" "pool h < a" "a + j \<le> pool h + 0x100000" "8 dvd a" "unat sz \<le> j" "0 < j"
        "heap_inv h' (pool h) bs'" "live (pool h) bs' = live_bytes h \<union> {a..<a + j}"
        "live_bytes h \<inter> {a..<a + j} = {}" "\<forall>x \<in> live_bytes h. byte h' x = byte h x"
        "bs' = us @ (j, False) # vs" "a = pool h + span us + 24"
    unfolding alloc_ok_def used_at_def live_bytes_def by blast
  then show ?thesis
  proof cases
    case null
    then show ?thesis using m heap_rep_unique [OF null(2)] by (simp add: live_bytes_def)
  next
    case new
    note U = heap_inv_unique [OF new(7)]
    have a64: "a < 2 ^ 64" using new(3,6) heap_ok_pool(2) [OF ok] by simp
    have u: "unat q = a" unfolding new(1) by (rule unat_addr [OF a64])
    have nz: "q \<noteq> 0" unfolding new(1) by (rule addr_nonzero) (use new(2) a64 in auto)
    have e: "extent h' q = j" unfolding extent_def u U(1,2) new(11,12) by (rule extent_in_block)
    have l: "live_bytes h' = live_bytes h \<union> {a..<a + j}" unfolding live_bytes_def U(1,2) new(8) [unfolded live_bytes_def] ..
    show ?thesis using m U(1,3) new(2-6,9,10) nz l by (intro exI conjI) (auto simp: u e)
  qed
qed

lemma free_contract:
  assumes ok: "heap_ok h" and q: "0 < extent h q"
  shows "\<exists>h'. free q h = Some h' \<and> heap_ok h' \<and> pool h' = pool h
    \<and> live_bytes h' = live_bytes h - {unat q..<unat q + extent h q}
    \<and> (\<forall>x \<in> live_bytes h'. byte h' x = byte h x)"
proof -
  obtain xs n ys where b: "blocks h = xs @ (n, False) # ys" "unat q = pool h + span xs + 24" "extent h q = n"
    using extent_inD [OF q [unfolded extent_def]] unfolding extent_def by blast
  note inv = heap_ok_used [OF ok b(1)]
  have qa: "q = of_nat (pool h + span xs + 24)" unfolding b(2) [symmetric] by simp
  obtain h' where h': "free q h = Some h'" "heap_inv h' (pool h) (merge (xs @ (n, True) # ys))"
      "changes h h' (headers (pool h) (xs @ (n, False) # ys))"
    using free_refines [OF inv] unfolding qa by blast
  note U = heap_inv_unique [OF h'(2)]
  have l: "live_bytes h' = live_bytes h - {unat q..<unat q + extent h q}"
    unfolding live_bytes_def U(1,2) b live_merge using live_others [of "pool h" xs n ys] by simp
  have "byte h' x = byte h x" if "x \<in> live_bytes h'" for x
  proof -
    have x: "x \<in> live_bytes h" using that l by blast
    then have "x \<notin> headers (pool h) (xs @ (n, False) # ys)"
      using live_headers [of "pool h" "blocks h"] unfolding live_bytes_def b(1) by blast
    then show ?thesis using h'(3) live_bytes_small [OF ok x] unfolding changes_def by blast
  qed
  with h'(1) U l show ?thesis by blast
qed

interpretation kheap: allocator heap_ok live_bytes byte extent malloc free
proof unfold_locales
  fix s n assume "heap_ok s"
  from malloc_contract [OF this, of n]
  show "\<exists>q s'. malloc n s = Some (q, s') \<and> heap_ok s' \<and> (\<forall>x \<in> live_bytes s. byte s' x = byte s x)
      \<and> (q = 0 \<and> live_bytes s' = live_bytes s
         \<or> q \<noteq> 0 \<and> unat n \<le> extent s' q \<and> 0 < extent s' q
           \<and> live_bytes s' = live_bytes s \<union> {unat q..<unat q + extent s' q}
           \<and> live_bytes s \<inter> {unat q..<unat q + extent s' q} = {})" by blast
next
  fix s q assume "heap_ok s" "0 < extent s q"
  from free_contract [OF this]
  show "\<exists>s'. free q s = Some s' \<and> heap_ok s' \<and> live_bytes s' = live_bytes s - {unat q..<unat q + extent s q}
      \<and> (\<forall>x \<in> live_bytes s'. byte s' x = byte s x)" by blast
qed

section \<open>Runs of the allocator\<close>

lemma calloc_contract:
  assumes ok: "heap_ok h"
  shows "\<exists>q h'. calloc num sz h = Some (q, h') \<and> heap_ok h' \<and> pool h' = pool h
    \<and> (\<forall>x \<in> live_bytes h. byte h' x = byte h x) \<and> live_bytes h \<subseteq> live_bytes h'
    \<and> (q \<noteq> 0 \<longrightarrow> unat num * unat sz \<le> extent h' q
        \<and> (\<forall>i < unat num * unat sz. heap_bytes h' (q + of_nat i) = 0))"
proof -
  obtain q h' where m: "calloc num sz h = Some (q, h')" "alloc_ok h (pool h) (blocks h) (unat num * unat sz) q h'"
      "q \<noteq> 0 \<longrightarrow> (\<forall>i < unat num * unat sz. heap_bytes h' (q + of_nat i) = 0)"
    using calloc_ok [OF heap_ok_rep [OF ok], of num sz] by blast
  from m(2) consider (null) "q = 0" "heap_rep h' (pool h) (blocks h)" "\<forall>x \<in> live_bytes h. byte h' x = byte h x"
    | (new) a j bs' us vs where "q = of_nat a" "a + j \<le> pool h + 0x100000" "unat num * unat sz \<le> j" "0 < j"
        "heap_inv h' (pool h) bs'" "live (pool h) bs' = live_bytes h \<union> {a..<a + j}"
        "\<forall>x \<in> live_bytes h. byte h' x = byte h x"
        "bs' = us @ (j, False) # vs" "a = pool h + span us + 24"
    unfolding alloc_ok_def used_at_def live_bytes_def by blast
  then show ?thesis
  proof cases
    case null
    then show ?thesis using m(1) heap_rep_unique [OF null(2)] by (simp add: live_bytes_def)
  next
    case new
    note U = heap_inv_unique [OF new(5)]
    have u: "unat q = a" unfolding new(1)
      by (rule unat_addr) (use new(2,4) heap_ok_pool(2) [OF ok] in simp)
    have e: "extent h' q = j" unfolding extent_def u U(1,2) new(8,9) by (rule extent_in_block)
    have l: "live_bytes h \<subseteq> live_bytes h'" unfolding live_bytes_def [of h'] U(1,2) new(6) by blast
    show ?thesis using m(1,3) U(1,3) new(3,7) l by (auto simp: e)
  qed
qed

lemma free_blocks:
  assumes ok: "heap_ok h" and b: "blocks h = xs @ (n, False) # ys"
    and q: "q = memory_pool h + of_nat (span xs + 24)"
  shows "\<exists>h'. free q h = Some h' \<and> heap_ok h' \<and> pool h' = pool h
    \<and> blocks h' = merge (xs @ (n, True) # ys) \<and> free q h' = Some h'"
proof -
  note inv = heap_ok_used [OF ok b]
  have qa: "q = of_nat (pool h + span xs + 24)" unfolding q heap_ok_pool(1) [OF ok] by (simp add: add.assoc)
  obtain h' where h': "free q h = Some h'" "heap_inv h' (pool h) (merge (xs @ (n, True) # ys))" "free q h' = Some h'"
    using free_refines [OF inv] unfolding qa by blast
  then show ?thesis using heap_inv_unique [OF h'(2)] by simp
qed

lemma realloc_contract:
  assumes ok: "heap_ok h" and q: "0 < extent h q" and sz: "sz \<noteq> 0" "unat sz + 7 < 2 ^ 64"
  shows "\<exists>r h'. realloc q sz h = Some (r, h') \<and> heap_ok h' \<and> pool h' = pool h
    \<and> (r = 0 \<and> h' = h
       \<or> r \<noteq> 0 \<and> (\<exists>j. unat sz \<le> j
           \<and> live_bytes h' = (live_bytes h - {unat q..<unat q + extent h q}) \<union> {unat r..<unat r + j}
           \<and> (live_bytes h - {unat q..<unat q + extent h q}) \<inter> {unat r..<unat r + j} = {})
         \<and> (\<forall>i < min (extent h q) (unat sz). byte h' (unat r + i) = byte h (unat q + i))
         \<and> (\<forall>x \<in> live_bytes h - {unat q..<unat q + extent h q}. byte h' x = byte h x))"
proof -
  obtain xs n ys where b: "blocks h = xs @ (n, False) # ys" "unat q = pool h + span xs + 24" "extent h q = n"
    using extent_inD [OF q [unfolded extent_def]] unfolding extent_def by blast
  note inv = heap_ok_used [OF ok b(1)]
  have qa: "q = of_nat (pool h + span xs + 24)" unfolding b(2) [symmetric] by simp
  let ?k = "round8 (unat sz)" and ?P = "{unat q..<unat q + extent h q}"
  obtain r h' where r: "realloc q sz h = Some (r, h')"
      "realloc_ok h (pool h) (blocks h) (unat q) (extent h q) ?k r h'"
    using realloc_refines [OF inv sz, unfolded qa [symmetric], folded b(2)] unfolding b(1,3) by blast
  from r(2) consider (null) "r = 0" "h' = h"
    | (new) a j bs' where "r = of_nat a" "0 < a" "a < 2 ^ 64" "?k \<le> j" "heap_inv h' (pool h) bs'"
        "live (pool h) bs' = (live_bytes h - ?P) \<union> {a..<a + j}" "(live_bytes h - ?P) \<inter> {a..<a + j} = {}"
        "\<forall>i < min (extent h q) ?k. byte h' (a + i) = byte h (unat q + i)"
        "\<forall>x \<in> live_bytes h - ?P. byte h' x = byte h x"
    unfolding realloc_ok_def live_bytes_def by blast
  then show ?thesis
  proof cases
    case null
    then show ?thesis using r(1) ok by simp
  next
    case new
    note U = heap_inv_unique [OF new(5)]
    have u: "unat r = a" unfolding new(1) by (rule unat_addr [OF new(3)])
    have nz: "r \<noteq> 0" unfolding new(1) by (rule addr_nonzero [OF new(2,3)])
    have k: "unat sz \<le> ?k" by (rule round8_facts(1))
    have l: "live_bytes h' = (live_bytes h - ?P) \<union> {a..<a + j}"
      unfolding live_bytes_def [of h'] U(1,2) by (rule new(6))
    show ?thesis
      using r(1) U(1,3) nz new(7-9) l k new(4)
      by (intro exI [of _ r] exI [of _ h']) (auto simp: u intro!: exI [of _ j])
  qed
qed

text \<open>
  The states the kernel can bring the heap into when it only gives live pointers to \<open>free\<close> and
  \<open>realloc\<close> and only writes into payloads it owns.
\<close>

inductive heap_reach :: "heap \<Rightarrow> bool" where
  boot: "pool_ok h (pool h) \<Longrightarrow> \<not> allocator_initialized h \<Longrightarrow> heap_reach h"
| do_malloc: "heap_reach h \<Longrightarrow> malloc sz h = Some (q, h') \<Longrightarrow> heap_reach h'"
| do_calloc: "heap_reach h \<Longrightarrow> calloc num sz h = Some (q, h') \<Longrightarrow> heap_reach h'"
| do_free: "heap_reach h \<Longrightarrow> q = 0 \<or> 0 < extent h q \<Longrightarrow> free q h = Some h' \<Longrightarrow> heap_reach h'"
| do_realloc: "heap_reach h \<Longrightarrow> q = 0 \<or> 0 < extent h q \<Longrightarrow> realloc q sz h = Some (r, h') \<Longrightarrow> heap_reach h'"
| do_write: "heap_reach h \<Longrightarrow> x \<in> live_bytes h \<Longrightarrow> heap_reach (set_byte (of_nat x) v h)"

lemma free_null: "free 0 h = Some h"
  by (simp add: free_def)

lemma free_total: "heap_ok h \<Longrightarrow> q = 0 \<or> 0 < extent h q \<Longrightarrow> \<exists>h'. free q h = Some h' \<and> heap_ok h'"
  using free_contract [of h q] free_null [of h] by auto

lemma realloc_total:
  assumes "heap_ok h" "q = 0 \<or> 0 < extent h q"
  shows "\<exists>r h'. realloc q sz h = Some (r, h') \<and> heap_ok h'"
proof (cases "q = 0 \<or> sz = 0 \<or> 2 ^ 64 \<le> unat sz + 7")
  case True
  then consider "q = 0" | "q \<noteq> 0" "sz = 0" | "q \<noteq> 0" "sz \<noteq> 0" "2 ^ 64 \<le> unat sz + 7" by blast
  then show ?thesis
  proof cases
    case 1
    then show ?thesis using malloc_contract [OF assms(1), of sz] by (auto simp: realloc_def)
  next
    case 2
    then show ?thesis using free_total [OF assms] by (auto simp: realloc_def)
  next
    case 3
    then show ?thesis using assms(1) by (simp add: realloc_def align_size_round)
  qed
next
  case False
  then show ?thesis using realloc_contract [OF assms(1), of q sz] assms(2) by auto
qed

text \<open>A write that leaves the headers alone: into payloads in use, or outside the pool.\<close>

lemma heap_write:
  assumes ok: "heap_ok h" and c: "changes h h' S"
    and S: "\<And>x. x \<in> S \<Longrightarrow> x \<in> live_bytes h \<or> x < pool h \<or> pool h + 0x100000 \<le> x"
  shows "heap_ok h'" "pool h' = pool h" "blocks h' = blocks h" "live_bytes h' = live_bytes h" "extent h' q = extent h q"
proof -
  have C: "pool h' = pool h" "memory_pool h' = memory_pool h" "allocator_initialized h' = allocator_initialized h"
    using c by (simp_all add: changes_def pool_def)
  have "heap_ok h' \<and> blocks h' = blocks h"
  proof (cases "allocator_initialized h")
    case True
    then have inv: "heap_inv h (pool h) (blocks h)" using ok by (simp add: heap_ok_def heap_rep_def)
    have "S \<inter> headers (pool h) (blocks h) = {}"
      using S live_headers [of "pool h" "blocks h"] headers_bound [of _ "pool h" "blocks h"] heap_ok_span(1) [OF ok]
      unfolding live_bytes_def by (metis disjoint_iff not_less)
    then have "chain h' (pool h) (blocks h) 0"
      using chain_cong [OF c] heap_invD(5,7) [OF inv] by simp
    then have "heap_inv h' (pool h) (blocks h)"
      by (rule heap_inv_changes [OF inv c refl heap_invD(4) [OF inv]])
    then show ?thesis using heap_inv_unique by blast
  next
    case False
    then show ?thesis using ok C by (simp add: heap_ok_def heap_rep_def blocks_def pool_ok_def)
  qed
  then show "heap_ok h'" "blocks h' = blocks h" "live_bytes h' = live_bytes h" "extent h' q = extent h q"
    by (simp_all add: C live_bytes_def extent_def)
qed (use c in \<open>simp add: changes_def pool_def\<close>)

lemma write_ok:
  assumes ok: "heap_ok h" and x: "x \<in> live_bytes h"
  shows "heap_ok (set_byte (of_nat x) v h)"
proof (rule heap_write(1) [OF ok])
  show "changes h (set_byte (of_nat x) v h) {x}"
    using live_bytes_small [OF ok x] of_nat_addr_eq by (auto simp: changes_def set_byte_def)
qed (use x in simp)

lemma heap_reach_ok: "heap_reach h \<Longrightarrow> heap_ok h"
proof (induction rule: heap_reach.induct)
  case (boot h)
  then show ?case by (simp add: heap_ok_def heap_rep_def blocks_def)
next
  case (do_malloc h sz q h')
  then show ?case using malloc_contract [of h sz] by auto
next
  case (do_calloc h num sz q h')
  then show ?case using calloc_contract [of h num sz] by auto
next
  case (do_free h q h')
  then show ?case using free_total [of h q] by auto
next
  case (do_realloc h q sz r h')
  then show ?case using realloc_total [of h q sz] by auto
next
  case (do_write h x v)
  then show ?case by (intro write_ok) simp_all
qed

section \<open>Properties\<close>

text \<open>A concrete heap: the pool at 2 MiB, filled with garbage, before the first \<open>malloc\<close>.\<close>

definition heap_start :: heap where
  "heap_start = \<lparr>heap_bytes = (\<lambda>_. 0xAA), memory_pool = 0x200000, free_list = 0, allocator_initialized = False\<rparr>"

lemma heap_start_facts: "pool_ok heap_start (pool heap_start)" "\<not> allocator_initialized heap_start"
  "pool heap_start = 0x200000" "blocks heap_start = [(0xFFFE8, True)]" "memory_pool heap_start = 0x200000"
  by (simp_all add: pool_ok_def pool_def heap_start_def blocks_def)

lemma heap_start_ok: "heap_ok heap_start"
  using heap_start_facts(1,2) by (intro heap_reach_ok heap_reach.boot)

lemma start_a_malloc: "a_malloc 104 [(0xFFFE8, True)] = Some (24, [(104, False), (1048424, True)])"
  by (simp add: a_malloc_def extract_Cons_code fits_def cut_def)

text \<open>A heap with one block of 104 bytes in use.\<close>

definition heap_one :: heap where
  "heap_one = snd (the (malloc 100 heap_start))"

lemma heap_one_facts:
  "malloc 100 heap_start = Some (0x200018, heap_one)" "heap_ok heap_one"
  "blocks heap_one = [(104, False), (1048424, True)]" "pool heap_one = 0x200000"
  "memory_pool heap_one = 0x200000" "extent heap_one 0x200018 = 104"
proof -
  have "round8 (unat (100 :: u64)) = 104" by (simp add: round8_def)
  then obtain h' where h': "malloc 100 heap_start = Some (memory_pool heap_start + of_nat 24, h')" "heap_ok h'"
      "pool h' = 0x200000" "blocks h' = [(104, False), (1048424, True)]"
    using malloc_blocks [OF heap_start_ok, of 100] by (auto simp: heap_start_facts start_a_malloc)
  then have o: "heap_one = h'" by (simp add: heap_one_def)
  show "malloc 100 heap_start = Some (0x200018, heap_one)" using h'(1) by (simp add: o heap_start_def)
  show "heap_ok heap_one" "blocks heap_one = [(104, False), (1048424, True)]" "pool heap_one = 0x200000"
    using h' by (simp_all add: o)
  then show "memory_pool heap_one = 0x200000" "extent heap_one 0x200018 = 104"
    using heap_ok_pool(1) [of heap_one] by (simp_all add: extent_def)
qed

text \<open>
  C5. \<open>malloc\<close> refines first fit on the list of blocks: for a size above 0 that can be rounded up to a
  multiple of 8, it returns NULL exactly when no free block has that many bytes, and then the blocks stay as they
  are; otherwise it returns the payload of the first free block that is large enough, which is split when
  the rest has room for a header and eight bytes.
\<close>

theorem malloc_first_fit:
  assumes "heap_ok h" "sz \<noteq> 0" "unat sz + 7 < 2 ^ 64"
  shows "case a_malloc (round8 (unat sz)) (blocks h) of
      None \<Rightarrow> \<exists>h'. malloc sz h = Some (0, h') \<and> heap_ok h' \<and> blocks h' = blocks h
    | Some (off, bs') \<Rightarrow> \<exists>h'. malloc sz h = Some (memory_pool h + of_nat off, h') \<and> heap_ok h' \<and> blocks h' = bs'"
  using malloc_blocks [OF assms] by (auto split: option.splits)

theorem malloc_first_fit_witness:
  "\<exists>h'. malloc 100 heap_start = Some (0x200018, h') \<and> blocks h' = [(104, False), (1048424, True)]"
proof -
  have "round8 (unat (100 :: u64)) = 104" by (simp add: round8_def)
  then show ?thesis using malloc_first_fit [OF heap_start_ok, of 100]
    by (auto simp: heap_start_facts start_a_malloc)
qed

text \<open>
  Whatever \<open>malloc\<close> returns is safe to use: it returns, and a non-null result is an 8-aligned payload
  inside the pool of at least the size asked for, disjoint from every payload in use, whose contents are
  all unchanged.
\<close>

theorem malloc_fresh:
  assumes "heap_ok h"
  shows "\<exists>q h'. malloc sz h = Some (q, h') \<and> heap_ok h'
    \<and> (\<forall>x \<in> live_bytes h. byte h' x = byte h x)
    \<and> (q = 0 \<and> live_bytes h' = live_bytes h
       \<or> q \<noteq> 0 \<and> unat sz \<le> extent h' q \<and> unat q mod 8 = 0
         \<and> pool h < unat q \<and> unat q + extent h' q \<le> pool h + 0x100000
         \<and> live_bytes h' = live_bytes h \<union> {unat q..<unat q + extent h' q}
         \<and> live_bytes h \<inter> {unat q..<unat q + extent h' q} = {})"
  using malloc_contract [OF assms, of sz] by (elim ex_forward) (elim conjE disjE; simp)

theorem malloc_fresh_witness:
  "\<exists>q h'. malloc 64 heap_one = Some (q, h') \<and> heap_ok h' \<and> live_bytes heap_one \<subseteq> live_bytes h'"
  using malloc_fresh [OF heap_one_facts(2), of 64] by blast

text \<open>
  C6. \<open>free\<close> of a block in use ends, marks it free and merges every run of neighbouring free blocks, so no
  two neighbours are free afterwards; freeing the same pointer again changes nothing.
\<close>

theorem free_coalesces:
  assumes "heap_ok h" "blocks h = xs @ (n, False) # ys" "q = memory_pool h + of_nat (span xs + 24)"
  shows "\<exists>h'. free q h = Some h' \<and> heap_ok h' \<and> blocks h' = merge (xs @ (n, True) # ys)
    \<and> no_free_pair (blocks h') \<and> free q h' = Some h'"
  using free_blocks [OF assms] no_free_pair_merge by metis

theorem free_coalesces_witness:
  "\<exists>h'. free 0x200018 heap_one = Some h' \<and> blocks h' = [(0xFFFE8, True)]"
  using free_coalesces [OF heap_one_facts(2), of "[]" 104 "[(1048424, True)]" "0x200018"]
  by (auto simp: heap_one_facts)

text \<open>
  \<open>free\<close> of a pointer that starts a payload in use gives back exactly that payload: the other
  payloads stay in use with their contents.
\<close>

theorem free_releases:
  assumes "heap_ok h" "0 < extent h q"
  shows "\<exists>h'. free q h = Some h' \<and> heap_ok h'
    \<and> live_bytes h' = live_bytes h - {unat q..<unat q + extent h q}
    \<and> (\<forall>x \<in> live_bytes h'. byte h' x = byte h x)"
  using free_contract [OF assms] by blast

theorem free_releases_witness:
  "\<exists>h'. free 0x200018 heap_one = Some h' \<and> live_bytes h' = {}"
proof -
  have "live_bytes heap_one = {0x200018..<0x200018 + 104}"
    by (simp add: live_bytes_def heap_one_facts)
  then show ?thesis using free_releases [OF heap_one_facts(2), of "0x200018"]
    by (auto simp: heap_one_facts)
qed

text \<open>
  C7. \<open>realloc\<close> of a block in use to a size above 0 that can be rounded up to a multiple of 8 either returns NULL with the heap untouched, or a
  payload of at least the new size that starts with the old contents up to the smaller of the two sizes;
  the other payloads keep their place and their contents.
\<close>

theorem realloc_preserves:
  assumes "heap_ok h" "0 < extent h q" "sz \<noteq> 0" "unat sz + 7 < 2 ^ 64"
  shows "\<exists>r h'. realloc q sz h = Some (r, h') \<and> heap_ok h'
    \<and> (r = 0 \<and> h' = h
       \<or> r \<noteq> 0 \<and> (\<exists>j. unat sz \<le> j
           \<and> live_bytes h' = (live_bytes h - {unat q..<unat q + extent h q}) \<union> {unat r..<unat r + j}
           \<and> (live_bytes h - {unat q..<unat q + extent h q}) \<inter> {unat r..<unat r + j} = {})
         \<and> (\<forall>i < min (extent h q) (unat sz). byte h' (unat r + i) = byte h (unat q + i))
         \<and> (\<forall>x \<in> live_bytes h - {unat q..<unat q + extent h q}. byte h' x = byte h x))"
  using realloc_contract [OF assms] by blast

theorem realloc_preserves_witness:
  "\<exists>r h'. realloc 0x200018 300 heap_one = Some (r, h') \<and> heap_ok h'"
  using realloc_preserves [OF heap_one_facts(2), of "0x200018" 300] by (auto simp: heap_one_facts)

text \<open>
  C8. \<open>calloc\<close> multiplies without overflow or returns NULL, and a non-null result has all
  \<open>num * size\<close> bytes zero; the payloads in use keep their contents.
\<close>

theorem calloc_zeroed:
  assumes "heap_ok h"
  shows "\<exists>q h'. calloc num sz h = Some (q, h') \<and> heap_ok h'
    \<and> (2 ^ 64 \<le> unat num * unat sz \<longrightarrow> q = 0)
    \<and> (q \<noteq> 0 \<longrightarrow> unat num * unat sz \<le> extent h' q
        \<and> (\<forall>i < unat num * unat sz. heap_bytes h' (q + of_nat i) = 0))
    \<and> (\<forall>x \<in> live_bytes h. byte h' x = byte h x)"
proof -
  obtain q h' where c: "calloc num sz h = Some (q, h')" "heap_ok h'"
      "\<forall>x \<in> live_bytes h. byte h' x = byte h x"
      "q \<noteq> 0 \<longrightarrow> unat num * unat sz \<le> extent h' q \<and> (\<forall>i < unat num * unat sz. heap_bytes h' (q + of_nat i) = 0)"
    using calloc_contract [OF assms, of num sz] by blast
  moreover have "q = 0" if "2 ^ 64 \<le> unat num * unat sz"
    using unat_div_SIZE_MAX [of sz num] that c(1) by (auto simp: calloc_def split: if_splits)
  ultimately show ?thesis by blast
qed

theorem calloc_zeroed_witness:
  "\<exists>h'. calloc 0x8000000000000000 2 heap_start = Some (0, h')"
  using calloc_zeroed [OF heap_start_ok, of "0x8000000000000000" 2] by auto

text \<open>
  The regions handed out by any sequence of \<open>malloc\<close> calls are pairwise disjoint, disjoint from what
  was in use before, and what was in use keeps its contents.
\<close>

theorem mallocs_disjoint:
  assumes "heap_ok h"
  shows "\<exists>qs h'. kheap.allocs ns h = Some (qs, h') \<and> heap_ok h' \<and> live_bytes h \<subseteq> live_bytes h'
     \<and> (\<forall>x \<in> live_bytes h. byte h' x = byte h x)
     \<and> (\<forall>R \<in> set (map2 kheap.region qs ns). R \<subseteq> live_bytes h' - live_bytes h)
     \<and> sorted_wrt (\<lambda>R S. R \<inter> S = {}) (map2 kheap.region qs ns)"
  by (rule kheap.allocs_disjoint [OF assms])

theorem mallocs_disjoint_witness:
  "\<exists>qs h'. kheap.allocs [8, 16, 24] heap_start = Some (qs, h') \<and> heap_ok h'
     \<and> sorted_wrt (\<lambda>R S. R \<inter> S = {}) (map2 kheap.region qs [8, 16, 24])"
  using mallocs_disjoint [OF heap_start_ok, of "[8, 16, 24]"] by blast

text \<open>
  C1. However the kernel uses the heap, as long as it gives only NULL or live pointers to \<open>free\<close> and
  \<open>realloc\<close> and writes only into payloads it owns, the blocks tile the whole pool in multiples of 8
  bytes, and every call of the four functions ends: no list walk runs forever.
\<close>

theorem heap_runs_end:
  assumes "heap_reach h"
  shows "span (blocks h) = 0x100000 \<and> sizes_ok (blocks h)
    \<and> malloc sz h \<noteq> None \<and> calloc num sz h \<noteq> None
    \<and> (q = 0 \<or> 0 < extent h q \<longrightarrow> free q h \<noteq> None \<and> realloc q sz h \<noteq> None)"
proof -
  note ok = heap_reach_ok [OF assms]
  show ?thesis
    using heap_ok_span [OF ok] malloc_contract [OF ok, of sz] calloc_contract [OF ok, of num sz]
      free_total [OF ok, of q] realloc_total [OF ok, of q sz] by auto
qed

theorem heap_runs_end_witness:
  "free 0x200018 heap_one \<noteq> None \<and> realloc 0x200018 (2 ^ 40) heap_one \<noteq> None"
proof -
  have "heap_reach heap_one"
    using heap_reach.do_malloc [OF heap_reach.boot [OF heap_start_facts(1,2)] heap_one_facts(1)] .
  from heap_runs_end [OF this, of "2 ^ 40" 0 "0x200018"] show ?thesis by (simp add: heap_one_facts)
qed

lemma merge_all_free: "bs \<noteq> [] \<Longrightarrow> live a bs = {} \<Longrightarrow> sizes_ok bs \<Longrightarrow> merge bs = [(span bs - 24, True)]"
proof (cases bs rule: merge.cases)
  case (3 n cs)
  assume l: "live a bs = {}" "sizes_ok bs"
  have "\<forall>b \<in> set cs. snd b" if "live c cs = {}" "sizes_ok cs" for c cs
    using that by (induction cs arbitrary: c rule: span.induct) (auto split: if_splits)
  then have "\<forall>b \<in> set cs. snd b" using l 3 by auto
  then have "free_run cs = cs" "after_run cs = []" by (simp_all add: free_run_def after_run_def)
  then show ?thesis using 3 by simp
qed auto

text \<open>
  Nothing leaks into the headers: when the last payload in use is freed the heap is one free block
  over the whole pool again, whatever the history.
\<close>

theorem free_last_restores_pool:
  assumes "heap_ok h" "blocks h = xs @ (n, False) # ys" "live (pool h) (xs @ (n, True) # ys) = {}"
    and "q = memory_pool h + of_nat (span xs + 24)"
  shows "\<exists>h'. free q h = Some h' \<and> blocks h' = [(0x100000 - 24, True)]"
proof -
  have s: "sizes_ok (xs @ (n, True) # ys)" "span (xs @ (n, True) # ys) = 0x100000"
    using heap_ok_span [OF assms(1)] assms(2) by simp_all
  obtain h' where "free q h = Some h'" "blocks h' = merge (xs @ (n, True) # ys)"
    using free_blocks [OF assms(1,2,4)] by blast
  then show ?thesis using merge_all_free [OF _ assms(3) s(1)] s(2) by simp
qed

theorem free_last_restores_pool_witness:
  "\<exists>h'. free 0x200018 heap_one = Some h' \<and> blocks h' = [(0xFFFE8, True)]"
  using free_last_restores_pool [OF heap_one_facts(2), of "[]" 104 "[(1048424, True)]" "0x200018"]
  by (auto simp: heap_one_facts)

text \<open>
  \<open>realloc\<close> to a smaller size does not merge: when the block after is free, the tail it cuts off and
  that block stay two neighbouring free blocks until the next \<open>free\<close>, and a \<open>malloc\<close> that needs both
  together fails.
\<close>

lemma realloc_shrink_blocks:
  assumes ok: "heap_ok h" and b: "blocks h = xs @ (n, False) # ys"
    and sz: "sz \<noteq> 0" "round8 (unat sz) + 32 \<le> n" and q: "q = memory_pool h + of_nat (span xs + 24)"
  shows "\<exists>h'. realloc q sz h = Some (q, h') \<and> heap_ok h'
    \<and> blocks h' = xs @ (round8 (unat sz), False) # (n - round8 (unat sz) - 24, True) # ys"
proof -
  let ?k = "round8 (unat sz)" and ?a = "pool h + span xs"
  note inv = heap_ok_used [OF ok b]
  note B = block_in_pool [OF inv]
  have qa: "q = of_nat (?a + 24)" unfolding q heap_ok_pool(1) [OF ok] by (simp add: add.assoc)
  have "0 < unat sz" using sz(1) by (simp add: unat_gt_0)
  moreover have "unat sz \<le> ?k" by (rule round8_facts(1))
  ultimately have k: "8 dvd ?k" "0 < ?k" "?k \<le> n" "unat sz + 7 < 2 ^ 64"
    using round8_facts(2,3) sz(2) B(2) by simp_all
  have k64: "?k < 2 ^ 64" "n < 2 ^ 64" using k(3) B(2) by simp_all
  have nz: "q \<noteq> 0" "of_nat ?k \<noteq> (0 :: u64)"
    unfolding qa using addr_nonzero [of "?a + 24"] addr_nonzero [OF k(2) k64(1)] B(1,8) by simp_all
  have al: "align_size sz = of_nat ?k" using k(4) by (simp add: align_size_round)
  have pa: "q - sizeof_Block = of_nat ?a" by (simp add: qa heap_consts)
  have hd: "bsize (of_nat ?a) h = of_nat n" "\<not> bfree (of_nat ?a) h" using B(6) by (simp_all add: header_def)
  have le: "of_nat ?k \<le> (of_nat n :: u64)" using of_nat_le_iff [OF k64] k(3) by simp
  have "realloc q sz h = Some (q, split_block (of_nat ?a) (of_nat ?k) h)"
    using nz sz(1) le by (simp only: realloc_def al pa hd Let_def if_False if_True simp_thms)
  moreover have "cut ?k n False = [(?k, False), (n - ?k - 24, True)]" using sz(2) by (simp add: cut_def)
  ultimately show ?thesis using heap_inv_unique [OF split_inv(1) [OF inv k(1-3)]] by simp
qed

theorem realloc_shrink_fragments:
  assumes "heap_ok h" "blocks h = [(n, False), (m, True)]" "sz \<noteq> 0" "round8 (unat sz) + 32 \<le> n"
    and "q = memory_pool h + 24"
  shows "\<exists>h'. realloc q sz h = Some (q, h') \<and> \<not> no_free_pair (blocks h')
    \<and> (let l = n - round8 (unat sz) - 24 in
        8 \<le> l \<longrightarrow> l \<le> m \<longrightarrow> a_malloc (l + 24 + m) (blocks h') = None
        \<and> a_malloc (l + 24 + m) (merge (blocks h')) \<noteq> None)"
proof -
  obtain h' where "realloc q sz h = Some (q, h')"
      "blocks h' = [(round8 (unat sz), False), (n - round8 (unat sz) - 24, True), (m, True)]"
    using realloc_shrink_blocks [OF assms(1), of "[]" n "[(m, True)]" sz q] assms by auto
  then show ?thesis
    by (auto simp: Let_def a_malloc_def extract_Cons_code extract_Nil_code fits_def add.assoc
        split: option.splits)
qed

theorem realloc_shrink_fragments_witness:
  "\<exists>h'. realloc 0x200018 8 heap_one = Some (0x200018, h') \<and> \<not> no_free_pair (blocks h')"
  using realloc_shrink_fragments [OF heap_one_facts(2), of 104 1048424 8 "0x200018"]
  by (auto simp: heap_one_facts round8_def)

end
