(* ===== verification/Queue.thy ===== *)
theory Queue
  imports Prelude
begin

text \<open>
  The interface of a bounded first-in first-out queue, as the keyboard driver provides it to the
  console: \<open>push\<close> drops the element when the queue is full and \<open>pop\<close> of an empty queue answers a
  fixed value.
\<close>

locale bounded_queue =
  fixes ok :: "'s \<Rightarrow> bool"
    and contents :: "'s \<Rightarrow> 'a list"
    and push :: "'a \<Rightarrow> 's \<Rightarrow> 's"
    and pop :: "'s \<Rightarrow> 'a \<times> 's"
    and capacity :: nat
    and nothing :: 'a
  assumes push_ok: "ok s \<Longrightarrow> ok (push x s)"
    and pop_ok: "ok s \<Longrightarrow> ok (snd (pop s))"
    and contents_bound: "ok s \<Longrightarrow> length (contents s) \<le> capacity"
    and push_contents: "ok s \<Longrightarrow>
      contents (push x s) = (if length (contents s) < capacity then contents s @ [x] else contents s)"
    and pop_empty: "ok s \<Longrightarrow> contents s = [] \<Longrightarrow> pop s = (nothing, s)"
    and pop_contents: "ok s \<Longrightarrow> contents s = x # xs \<Longrightarrow> fst (pop s) = x \<and> contents (snd (pop s)) = xs"
begin

lemma push_all_ok: "ok s \<Longrightarrow> ok (fold push xs s)"
  by (induction xs arbitrary: s) (simp_all add: push_ok)

text \<open>Of a burst of pushes the queue keeps as many as there is room for, the earliest ones.\<close>

lemma push_all:
  "ok s \<Longrightarrow> contents (fold push xs s) = contents s @ take (capacity - length (contents s)) xs"
proof (induction xs arbitrary: s)
  case (Cons x xs)
  note IH = Cons.IH [OF push_ok [OF Cons.prems]]
  show ?case
  proof (cases "length (contents s) < capacity")
    case True
    then obtain k where "capacity - length (contents s) = Suc k" by (metis Suc_diff_Suc)
    moreover from this have "capacity - Suc (length (contents s)) = k" by simp
    ultimately show ?thesis using True IH [of x] push_contents [OF Cons.prems, of x] by simp
  next
    case False
    then show ?thesis using IH [of x] push_contents [OF Cons.prems, of x] contents_bound [OF Cons.prems] by simp
  qed
qed simp

fun pops :: "nat \<Rightarrow> 's \<Rightarrow> 'a list \<times> 's" where
  "pops 0 s = ([], s)"
| "pops (Suc n) s = (let (x, s) = pop s; (xs, s) = pops n s in (x # xs, s))"

text \<open>Popping gives the contents in order, then the value for nothing.\<close>

lemma pops_fifo:
  "ok s \<Longrightarrow> fst (pops n s) = take n (contents s) @ replicate (n - length (contents s)) nothing
     \<and> contents (snd (pops n s)) = drop n (contents s) \<and> ok (snd (pops n s))"
proof (induction n arbitrary: s)
  case (Suc n)
  obtain x t where p: "pop s = (x, t)" by fastforce
  have okt: "ok t" using pop_ok [OF Suc.prems] by (simp add: p)
  obtain xs u where ps: "pops n t = (xs, u)" by fastforce
  note IH = Suc.IH [OF okt, unfolded ps fst_conv snd_conv]
  show ?case
  proof (cases "contents s")
    case Nil
    then have "x = nothing" "t = s" using pop_empty [OF Suc.prems Nil] by (simp_all add: p)
    then show ?thesis using IH Nil ps by (simp add: p)
  next
    case (Cons y ys)
    then have "x = y" "contents t = ys" using pop_contents [OF Suc.prems Cons] by (simp_all add: p)
    then show ?thesis using IH Cons by (simp add: p ps)
  qed
qed simp

lemma push_then_pop_all:
  assumes "ok s" "contents s = []" "length xs \<le> capacity"
  shows "fst (pops (length xs) (fold push xs s)) = xs \<and> contents (snd (pops (length xs) (fold push xs s))) = []"
  using pops_fifo [OF push_all_ok [OF assms(1)], of "length xs" xs] push_all [OF assms(1), of xs] assms(2,3)
  by simp

end

end
