(* ===== verification/Keyboard.thy ===== *)
theory Keyboard
  imports Vmm Queue
begin

text \<open>
  The keyboard: the scancode ring of \<open>kernel/drivers/keyboard/kb.c\<close>, filled by the interrupt handler
  and emptied by the console, the polled keyboard port and the scancode tables of
  \<open>kernel/lib/scancodes.c\<close>, and the input functions \<open>scanf\<close> and \<open>getchar\<close> of \<open>stdio.c\<close>.
\<close>

section \<open>The ring\<close>

record kbd = vmm +
  kbd_buffer :: "u32 \<Rightarrow> u8"
  kbd_head :: u32
  kbd_tail :: u32

definition KBD_BUF_SIZE :: u32 where "KBD_BUF_SIZE = 256"

definition kbd_push :: "u8 \<Rightarrow> 'a kbd_scheme \<Rightarrow> 'a kbd_scheme" where
  "kbd_push scancode s =
     (let next = (kbd_head s + 1) mod KBD_BUF_SIZE in
      if next \<noteq> kbd_tail s
      then (let s = s\<lparr>kbd_buffer := (kbd_buffer s)(kbd_head s := scancode)\<rparr> in s\<lparr>kbd_head := next\<rparr>)
      else s)"

definition kbd_pop :: "'a kbd_scheme \<Rightarrow> u8 \<times> 'a kbd_scheme" where
  "kbd_pop s =
     (if kbd_head s = kbd_tail s then (0, s)
      else
        (let scancode = kbd_buffer s (kbd_tail s);
             s = s\<lparr>kbd_tail := (kbd_tail s + 1) mod KBD_BUF_SIZE\<rparr>
         in (scancode, s)))"

section \<open>Scancode tables\<close>

text \<open>The table of \<open>kbd_read_blocking\<close> and \<open>read_char\<close>: 58 entries, the rest of the 128 are 0.\<close>

definition scancode_table :: string where
  "scancode_table =
     [CHR 0x00, CHR 27, CHR ''1'', CHR ''2'', CHR ''3'', CHR ''4'', CHR ''5'', CHR ''6'', CHR ''7'', CHR ''8'',
      CHR ''9'', CHR ''0'', CHR ''-'', CHR ''='', CHR 0x08]
     @ [CHR 0x09] @ ''qwertyuiop[]'' @ [CHR 0x0A, CHR 0x00]
     @ ''asdfghjkl;'' @ [CHR 0x27, CHR 0x60, CHR 0x00, CHR 0x5C]
     @ ''zxcvbnm,./'' @ [CHR 0x00, CHR ''*'', CHR 0x00, CHR '' '']
     @ replicate 70 (CHR 0x00)"

text \<open>The table of \<open>scancode_to_ascii\<close>, without the trailing zeros.\<close>

definition kbd_map :: string where
  "kbd_map =
     [CHR 0x00, CHR 27, CHR ''1'', CHR ''2'', CHR ''3'', CHR ''4'', CHR ''5'', CHR ''6'', CHR ''7'', CHR ''8'',
      CHR ''9'', CHR ''0'', CHR ''-'', CHR ''='', CHR 0x08,
      CHR 0x09, CHR ''q'', CHR ''w'', CHR ''e'', CHR ''r'', CHR ''t'', CHR ''y'', CHR ''u'', CHR ''i'', CHR ''o'',
      CHR ''p'', CHR ''['', CHR '']'', CHR 0x0A,
      CHR 0x00, CHR ''a'', CHR ''s'', CHR ''d'', CHR ''f'', CHR ''g'', CHR ''h'', CHR ''j'', CHR ''k'', CHR ''l'',
      CHR '';'', CHR 0x27, CHR 0x60, CHR 0x00,
      CHR 0x5C, CHR ''z'', CHR ''x'', CHR ''c'', CHR ''v'', CHR ''b'', CHR ''n'', CHR ''m'', CHR '','', CHR ''.'',
      CHR ''/'', CHR 0x00, CHR ''*'',
      CHR 0x00, CHR '' '']"

definition table_char :: "u8 \<Rightarrow> char" where
  "table_char sc = (if sc < 128 then scancode_table ! unat sc else CHR 0x00)"

definition scancode_to_ascii :: "u8 \<Rightarrow> char" where
  "scancode_to_ascii scancode =
     (if unat scancode < length kbd_map then kbd_map ! unat scancode else CHR 0x00)"

section \<open>Reading characters\<close>

definition read_char :: "'a kbd_scheme \<Rightarrow> char \<times> 'a kbd_scheme" where
  "read_char s =
     (let (sc, s) = kbd_pop s in
      if sc = 0 then (CHR 0x00, s) else (table_char sc, s))"

text \<open>
  The interrupts that reach the processor: a scancode pushed by the keyboard handler, or an interrupt of another kind.
\<close>

fun wake :: "u8 option \<Rightarrow> 'a kbd_scheme \<Rightarrow> 'a kbd_scheme" where
  "wake None s = s"
| "wake (Some scancode) s = kbd_push scancode s"

text \<open>
  The two blocking loops look at the ring and then execute \<open>hlt\<close> with interrupts enabled.  One turn of such a loop
  is a pair: the interrupts taken after the ring was found empty and before \<open>hlt\<close>, which do not wake it, and
  the interrupt after which \<open>hlt\<close> returns.  When there is none, or the list of turns runs out, the processor stays
  halted: the value \<open>None\<close>.
\<close>

type_synonym turn = "u8 option list \<times> u8 option option"

fun kbd_read_blocking :: "turn list \<Rightarrow> 'a kbd_scheme \<Rightarrow> (char \<times> turn list \<times> 'a kbd_scheme) option" where
  "kbd_read_blocking turns s =
     (if kbd_head s = kbd_tail s
      then (case turns of
          (early, Some irq) # turns \<Rightarrow> kbd_read_blocking turns (wake irq (fold wake early s))
        | _ \<Rightarrow> None)
      else (let (sc, s) = kbd_pop s in Some (table_char sc, turns, s)))"

fun getchar :: "turn list \<Rightarrow> 'a kbd_scheme \<Rightarrow> (char \<times> turn list \<times> 'a kbd_scheme) option" where
  "getchar turns s =
     (let (scancode, s) = kbd_pop s in
      if scancode = 0
      then (case turns of
          (early, Some irq) # turns \<Rightarrow> getchar turns (wake irq (fold wake early s))
        | _ \<Rightarrow> None)
      else Some (scancode_to_ascii scancode, turns, s))"

declare kbd_read_blocking.simps [simp del] getchar.simps [simp del]

section \<open>Polled input\<close>

text \<open>\<open>while ((inb(STATUS_PORT) & 1) == 0); return inb(KEYBOARD_PORT);\<close>\<close>

partial_function (option) keyboard_read_scancode :: "'a hw_scheme \<Rightarrow> (u8 \<times> 'a hw_scheme) option" where
  "keyboard_read_scancode s =
     (let (status, s) = inb 0x64 s in
      if status AND 1 = 0 then keyboard_read_scancode s else Some (inb 0x60 s))"

text \<open>
  The caller's buffer is a function from indices to characters; \<open>max_len - 1\<close> is computed in
  \<open>size_t\<close>.
\<close>

partial_function (option) scanf_loop ::
  "u64 \<Rightarrow> u64 \<Rightarrow> (u64 \<Rightarrow> char) \<Rightarrow> 'a hw_scheme \<Rightarrow> (u64 \<times> (u64 \<Rightarrow> char) \<times> 'a hw_scheme) option" where
  "scanf_loop max_len i buffer s =
     (if i < max_len - 1 then
        Option.bind (keyboard_read_scancode s) (\<lambda>(scancode, s).
          if scancode = 0x1C then Some (i, buffer, s)
          else if scancode = 0x0E \<and> i > 0
          then scanf_loop max_len (i - 1) (buffer(i - 1 := CHR 0x00)) s
          else
            (let c = scancode_to_ascii scancode in
             if c \<noteq> CHR 0x00 then scanf_loop max_len (i + 1) (buffer(i := c)) s
             else scanf_loop max_len i buffer s))
      else Some (i, buffer, s))"

definition scanf :: "u64 \<Rightarrow> (u64 \<Rightarrow> char) \<Rightarrow> 'a hw_scheme \<Rightarrow> ((u64 \<Rightarrow> char) \<times> 'a hw_scheme) option" where
  "scanf max_len buffer s =
     map_option (\<lambda>(i, buffer, s). (buffer(i := CHR 0x00), s)) (scanf_loop max_len 0 buffer s)"

end
