(* ===== verification/KeyboardProps.thy ===== *)
theory KeyboardProps
  imports Keyboard
begin

text \<open>
  The keyboard ring is a queue of at most 255 scancodes (\<open>bounded_queue\<close>, interpreted on the driver's
  \<open>kbd_push\<close> and \<open>kbd_pop\<close>), also when the keyboard interrupt arrives in the middle of
  \<open>kbd_pop\<close>; the two scancode tables agree; \<open>scanf\<close> is a line editor that stays inside its buffer.
\<close>

section \<open>The ring as a queue\<close>

definition kbd_ok :: "'a kbd_scheme \<Rightarrow> bool" where
  "kbd_ok s \<longleftrightarrow> kbd_head s < 256 \<and> kbd_tail s < 256"

definition kbd_count :: "'a kbd_scheme \<Rightarrow> nat" where
  "kbd_count s = (unat (kbd_head s) + 256 - unat (kbd_tail s)) mod 256"

definition kbd_slot :: "'a kbd_scheme \<Rightarrow> nat \<Rightarrow> u32" where
  "kbd_slot s i = of_nat ((unat (kbd_tail s) + i) mod 256)"

definition kbd_contents :: "'a kbd_scheme \<Rightarrow> u8 list" where
  "kbd_contents s = map (\<lambda>i. kbd_buffer s (kbd_slot s i)) [0..<kbd_count s]"

lemma kbd_ok_unat: "kbd_ok s \<longleftrightarrow> unat (kbd_head s) < 256 \<and> unat (kbd_tail s) < 256"
  by (simp add: kbd_ok_def word_less_nat_alt)

lemma ring_next: "unat (x :: u32) < 256 \<Longrightarrow> unat ((x + 1) mod KBD_BUF_SIZE) = (unat x + 1) mod 256"
  by (simp add: KBD_BUF_SIZE_def unat_mod_distrib unat_plus_nowrap)

lemma ring_next_less: "(x :: u32) mod KBD_BUF_SIZE < 256"
  by (simp add: KBD_BUF_SIZE_def word_mod_less_divisor)

lemma ring_count:
  assumes "h < (256 :: nat)" "t < 256"
  shows "(h + 1) mod 256 = t \<longleftrightarrow> (h + 256 - t) mod 256 = 255"
    "(h + 256 - t) mod 256 = 0 \<longleftrightarrow> h = t"
    "(h + 1) mod 256 \<noteq> t \<Longrightarrow> ((h + 1) mod 256 + 256 - t) mod 256 = (h + 256 - t) mod 256 + 1"
    "h \<noteq> t \<Longrightarrow> (h + 256 - t) mod 256 = (h + 256 - (t + 1) mod 256) mod 256 + 1"
    "(t + (h + 256 - t) mod 256) mod 256 = h"
proof -
  consider "t \<le> h" | "h < t" by linarith
  note split = this
  have n: "(h + 256 - t) mod 256 = (if t \<le> h then h - t else h + 256 - t)"
    using assms by (auto simp: mod_if)
  have h1: "(h + 1) mod 256 = (if h = 255 then 0 else h + 1)" and t1: "(t + 1) mod 256 = (if t = 255 then 0 else t + 1)"
    using assms by (auto simp: mod_if)
  show "(h + 1) mod 256 = t \<longleftrightarrow> (h + 256 - t) mod 256 = 255" unfolding n h1 using assms by auto
  show "(h + 256 - t) mod 256 = 0 \<longleftrightarrow> h = t" unfolding n using assms by auto
  show "((h + 1) mod 256 + 256 - t) mod 256 = (h + 256 - t) mod 256 + 1" if "(h + 1) mod 256 \<noteq> t"
    using that assms unfolding n h1 by (auto simp: mod_if split: if_splits)
  show "(h + 256 - t) mod 256 = (h + 256 - (t + 1) mod 256) mod 256 + 1" if "h \<noteq> t"
    using that assms unfolding n t1 by (auto simp: mod_if split: if_splits)
  show "(t + (h + 256 - t) mod 256) mod 256 = h" unfolding n using assms by (auto simp: mod_if)
qed

lemma slot_inj: "i < 256 \<Longrightarrow> j < 256 \<Longrightarrow> kbd_slot s i = kbd_slot s j \<longleftrightarrow> i = j"
proof -
  assume ij: "i < 256" "j < 256"
  have "unat (kbd_slot s k) = (unat (kbd_tail s) + k) mod 256" for k
    by (simp add: kbd_slot_def unat_of_nat take_bit_nat_eq_self_iff less_trans [of _ 256])
  then have "kbd_slot s i = kbd_slot s j \<longleftrightarrow> (unat (kbd_tail s) + i) mod 256 = (unat (kbd_tail s) + j) mod 256"
    by (metis word_unat_eq_iff)
  also have "\<dots> \<longleftrightarrow> i = j" using ij by (simp add: nat_mod_eq_iff) (metis mod_less nat_mod_eq_iff add_left_cancel mod_add_left_eq)
  finally show ?thesis .
qed

lemma head_slot: "kbd_ok s \<Longrightarrow> kbd_slot s (kbd_count s) = kbd_head s"
  using ring_count(5) [of "unat (kbd_head s)" "unat (kbd_tail s)"]
  by (simp add: kbd_ok_unat kbd_slot_def kbd_count_def)

lemma tail_slot: "kbd_ok s \<Longrightarrow> kbd_slot s 0 = kbd_tail s"
  by (simp add: kbd_ok_unat kbd_slot_def)

lemma kbd_count_less: "kbd_count s < 256"
  by (simp add: kbd_count_def)

lemma length_kbd_contents [simp]: "length (kbd_contents s) = kbd_count s"
  by (simp add: kbd_contents_def)

lemma kbd_empty: "kbd_ok s \<Longrightarrow> kbd_contents s = [] \<longleftrightarrow> kbd_head s = kbd_tail s"
  using ring_count(2) [of "unat (kbd_head s)" "unat (kbd_tail s)"]
  by (simp add: kbd_ok_unat kbd_contents_def kbd_count_def word_unat_eq_iff)

lemma kbd_push_contents:
  assumes "kbd_ok s"
  shows "kbd_contents (kbd_push sc s) = (if kbd_count s < 255 then kbd_contents s @ [sc] else kbd_contents s)"
    "kbd_tail (kbd_push sc s) = kbd_tail s" "kbd_ok (kbd_push sc s)"
    "kbd_count s \<noteq> 0 \<Longrightarrow> kbd_buffer (kbd_push sc s) (kbd_tail s) = kbd_buffer s (kbd_tail s)"
proof -
  note ok = assms [unfolded kbd_ok_unat]
  note R = ring_count [OF conjunct1 [OF ok] conjunct2 [OF ok]]
  have nx: "unat ((kbd_head s + 1) mod KBD_BUF_SIZE) = (unat (kbd_head s) + 1) mod 256"
    using ok by (intro ring_next) simp
  have full: "(kbd_head s + 1) mod KBD_BUF_SIZE = kbd_tail s \<longleftrightarrow> kbd_count s = 255"
    using R(1) by (simp add: word_unat_eq_iff nx kbd_count_def)
  show "kbd_tail (kbd_push sc s) = kbd_tail s" by (simp add: kbd_push_def Let_def)
  show "kbd_ok (kbd_push sc s)" using assms ring_next_less by (simp add: kbd_push_def Let_def kbd_ok_def)
  show "kbd_buffer (kbd_push sc s) (kbd_tail s) = kbd_buffer s (kbd_tail s)" if "kbd_count s \<noteq> 0"
  proof -
    have "kbd_head s \<noteq> kbd_tail s"
      using that R(2) by (auto simp: kbd_count_def)
    then show ?thesis by (simp add: kbd_push_def Let_def)
  qed
  show "kbd_contents (kbd_push sc s) = (if kbd_count s < 255 then kbd_contents s @ [sc] else kbd_contents s)"
  proof (cases "kbd_count s = 255")
    case True
    then show ?thesis using full by (simp add: kbd_push_def)
  next
    case False
    let ?s = "kbd_push sc s"
    have lt: "kbd_count s < 255" using False kbd_count_less [of s] by simp
    have hd: "kbd_head ?s = (kbd_head s + 1) mod KBD_BUF_SIZE" "kbd_tail ?s = kbd_tail s"
      "kbd_buffer ?s = (kbd_buffer s)(kbd_head s := sc)"
      using False full by (simp_all add: kbd_push_def Let_def)
    have cnt: "kbd_count ?s = Suc (kbd_count s)"
      using R(3) full False by (simp add: kbd_count_def hd nx word_unat_eq_iff)
    have sl: "kbd_slot ?s i = kbd_slot s i" for i by (simp add: kbd_slot_def hd)
    have old: "kbd_slot s i \<noteq> kbd_head s" if "i < kbd_count s" for i
      using slot_inj [of i "kbd_count s" s] head_slot [OF assms] that kbd_count_less [of s] by auto
    have "kbd_contents ?s = map (\<lambda>i. kbd_buffer ?s (kbd_slot ?s i)) ([0..<kbd_count s] @ [kbd_count s])"
      by (simp add: kbd_contents_def cnt)
    also have "\<dots> = kbd_contents s @ [sc]"
      using old by (simp add: kbd_contents_def hd sl head_slot [OF assms])
    finally show ?thesis using lt by simp
  qed
qed

text \<open>Advancing the tail drops the oldest scancode.\<close>

definition advance :: "'a kbd_scheme \<Rightarrow> 'a kbd_scheme" where
  "advance s = s\<lparr>kbd_tail := (kbd_tail s + 1) mod KBD_BUF_SIZE\<rparr>"

lemma advance_contents:
  assumes "kbd_ok s" "kbd_head s \<noteq> kbd_tail s"
  shows "kbd_contents s = kbd_buffer s (kbd_tail s) # kbd_contents (advance s)" "kbd_ok (advance s)"
proof -
  note ok = assms(1) [unfolded kbd_ok_unat]
  note R = ring_count [OF conjunct1 [OF ok] conjunct2 [OF ok]]
  let ?s = "advance s"
  have nx: "unat (kbd_tail ?s) = (unat (kbd_tail s) + 1) mod 256"
    using ring_next [of "kbd_tail s"] ok by (simp add: advance_def)
  have f: "kbd_head ?s = kbd_head s" "kbd_buffer ?s = kbd_buffer s" by (simp_all add: advance_def)
  have "unat (kbd_head s) \<noteq> unat (kbd_tail s)" using assms(2) by (simp add: word_unat_eq_iff)
  then have cnt: "kbd_count s = Suc (kbd_count ?s)" using R(4) by (simp add: kbd_count_def f nx)
  have sl: "kbd_slot ?s i = kbd_slot s (Suc i)" for i by (simp add: kbd_slot_def nx mod_simps)
  have "kbd_contents s = map (\<lambda>i. kbd_buffer s (kbd_slot s i)) (0 # map Suc [0..<kbd_count ?s])"
    unfolding kbd_contents_def cnt by (simp only: upt_conv_Cons zero_less_Suc map_Suc_upt)
  then show "kbd_contents s = kbd_buffer s (kbd_tail s) # kbd_contents ?s"
    by (simp add: kbd_contents_def f sl tail_slot [OF assms(1)] comp_def)
  show "kbd_ok ?s" using assms(1) ring_next_less by (simp add: kbd_ok_def advance_def)
qed

lemma kbd_pop_advance:
  "kbd_pop s = (if kbd_head s = kbd_tail s then (0, s) else (kbd_buffer s (kbd_tail s), advance s))"
  by (simp add: kbd_pop_def advance_def Let_def)

interpretation kbd: bounded_queue kbd_ok kbd_contents kbd_push kbd_pop 255 0
proof unfold_locales
  fix s :: "'a kbd_scheme" and x xs
  assume ok: "kbd_ok s"
  show "kbd_ok (kbd_push x s)" by (rule kbd_push_contents(3) [OF ok])
  show "kbd_ok (snd (kbd_pop s))" using ok advance_contents(2) [OF ok] by (simp add: kbd_pop_advance)
  show "length (kbd_contents s) \<le> 255" using kbd_count_less [of s] by simp
  show "kbd_contents (kbd_push x s) = (if length (kbd_contents s) < 255 then kbd_contents s @ [x] else kbd_contents s)"
    using kbd_push_contents(1) [OF ok] by simp
  show "kbd_pop s = (0, s)" if "kbd_contents s = []" using that kbd_empty [OF ok] by (simp add: kbd_pop_advance)
  show "fst (kbd_pop s) = x \<and> kbd_contents (snd (kbd_pop s)) = xs" if "kbd_contents s = x # xs"
  proof -
    have "kbd_head s \<noteq> kbd_tail s" using that kbd_empty [OF ok] by auto
    with advance_contents(1) [OF ok this] that show ?thesis by (simp add: kbd_pop_advance)
  qed
qed

section \<open>Interrupts in the middle of kbd_pop\<close>

text \<open>
  The keyboard interrupt may come between any two of the three statements of \<open>kbd_pop\<close>; the handler
  itself runs to its end.  The consumer is about to test the ring, about to read the slot, or about to
  advance the tail; \<open>accepted\<close> are the scancodes that \<open>kbd_push\<close> stored, \<open>popped\<close> those that
  \<open>kbd_pop\<close> returned.
\<close>

datatype consumer = Testing | Reading | Advancing u8

record ring =
  rkbd :: kbd
  consumer :: consumer
  accepted :: "u8 list"
  popped :: "u8 list"

inductive ring_step :: "ring \<Rightarrow> ring \<Rightarrow> bool" where
  irq_stored: "kbd_push sc (rkbd r) \<noteq> rkbd r \<Longrightarrow>
    ring_step r (r\<lparr>rkbd := kbd_push sc (rkbd r), accepted := accepted r @ [sc]\<rparr>)"
| irq_dropped: "kbd_push sc (rkbd r) = rkbd r \<Longrightarrow> ring_step r r"
| test_empty: "consumer r = Testing \<Longrightarrow> kbd_head (rkbd r) = kbd_tail (rkbd r) \<Longrightarrow> ring_step r r"
| test_nonempty: "consumer r = Testing \<Longrightarrow> kbd_head (rkbd r) \<noteq> kbd_tail (rkbd r) \<Longrightarrow>
    ring_step r (r\<lparr>consumer := Reading\<rparr>)"
| read_slot: "consumer r = Reading \<Longrightarrow>
    ring_step r (r\<lparr>consumer := Advancing (kbd_buffer (rkbd r) (kbd_tail (rkbd r)))\<rparr>)"
| advance_tail: "consumer r = Advancing sc \<Longrightarrow>
    ring_step r (r\<lparr>consumer := Testing, rkbd := advance (rkbd r), popped := popped r @ [sc]\<rparr>)"

definition ring_inv :: "ring \<Rightarrow> bool" where
  "ring_inv r \<longleftrightarrow> kbd_ok (rkbd r) \<and> accepted r = popped r @ kbd_contents (rkbd r)
     \<and> (case consumer r of
          Testing \<Rightarrow> True
        | Reading \<Rightarrow> kbd_head (rkbd r) \<noteq> kbd_tail (rkbd r)
        | Advancing sc \<Rightarrow> kbd_head (rkbd r) \<noteq> kbd_tail (rkbd r) \<and> sc = kbd_buffer (rkbd r) (kbd_tail (rkbd r)))"

lemma kbd_push_stored:
  assumes "kbd_ok s"
  shows "kbd_push sc s \<noteq> s \<Longrightarrow> kbd_contents (kbd_push sc s) = kbd_contents s @ [sc]"
    "kbd_head s \<noteq> kbd_tail s \<Longrightarrow> kbd_head (kbd_push sc s) \<noteq> kbd_tail (kbd_push sc s)
      \<and> kbd_buffer (kbd_push sc s) (kbd_tail (kbd_push sc s)) = kbd_buffer s (kbd_tail s)"
proof -
  note P = kbd_push_contents [OF assms, of sc]
  have "kbd_push sc s = s" if "kbd_count s = 255"
  proof -
    have "unat (kbd_head s) < 256" "unat (kbd_tail s) < 256" using assms by (simp_all add: kbd_ok_unat)
    from ring_count(1) [OF this] that ring_next [OF this(1)] show ?thesis
      by (simp add: kbd_push_def word_unat_eq_iff kbd_count_def)
  qed
  then show "kbd_push sc s \<noteq> s \<Longrightarrow> kbd_contents (kbd_push sc s) = kbd_contents s @ [sc]"
    using P(1) kbd_count_less [of s] by (cases "kbd_count s = 255") auto
  assume ne: "kbd_head s \<noteq> kbd_tail s"
  then have "kbd_contents s \<noteq> []" using kbd_empty [OF assms] by simp
  then have "kbd_contents (kbd_push sc s) \<noteq> []" "kbd_count s \<noteq> 0"
    using P(1) by (auto simp flip: length_kbd_contents)
  then show "kbd_head (kbd_push sc s) \<noteq> kbd_tail (kbd_push sc s)
      \<and> kbd_buffer (kbd_push sc s) (kbd_tail (kbd_push sc s)) = kbd_buffer s (kbd_tail s)"
    using kbd_empty [OF P(3)] P(2,4) by simp
qed

lemma ring_step_inv: "ring_step r r' \<Longrightarrow> ring_inv r \<Longrightarrow> ring_inv r'"
proof (induction rule: ring_step.induct)
  case (irq_stored sc r)
  then have ok: "kbd_ok (rkbd r)" by (simp add: ring_inv_def)
  show ?case
    using irq_stored kbd_push_stored [OF ok, of sc] kbd_push_contents(3) [OF ok, of sc]
    by (auto simp: ring_inv_def split: consumer.splits)
next
  case (advance_tail r sc)
  then have ok: "kbd_ok (rkbd r)" "kbd_head (rkbd r) \<noteq> kbd_tail (rkbd r)" by (simp_all add: ring_inv_def)
  show ?case using advance_tail advance_contents [OF ok] by (simp add: ring_inv_def)
qed (auto simp: ring_inv_def)

lemma ring_steps_inv: "ring_step\<^sup>*\<^sup>* r r' \<Longrightarrow> ring_inv r \<Longrightarrow> ring_inv r'"
  by (induction rule: rtranclp_induct) (auto intro: ring_step_inv)

section \<open>The tables\<close>

lemma scancode_table_map: "scancode_table = kbd_map @ replicate 70 (CHR 0x00)"
  by (simp add: scancode_table_def kbd_map_def)

lemma length_kbd_map: "length kbd_map = 58"
  by (simp add: kbd_map_def)

lemma table_char_ascii: "table_char sc = scancode_to_ascii sc"
proof (cases "unat sc < 58")
  case True
  then have "sc < 128" by (simp add: word_less_nat_alt)
  with True show ?thesis
    by (simp add: table_char_def scancode_to_ascii_def scancode_table_map length_kbd_map nth_append)
next
  case False
  then show ?thesis
    by (auto simp: table_char_def scancode_to_ascii_def scancode_table_map length_kbd_map nth_append word_less_nat_alt)
qed

section \<open>Blocking reads\<close>

text \<open>The scancodes among some interrupts, in their order.\<close>

fun keys :: "u8 option list \<Rightarrow> u8 list" where
  "keys [] = []"
| "keys (None # irqs) = keys irqs"
| "keys (Some sc # irqs) = sc # keys irqs"

lemma keys_append [simp]: "keys (xs @ ys) = keys xs @ keys ys"
  by (induction xs rule: keys.induct) simp_all

lemma fold_wake:
  assumes "kbd_ok s"
  shows "kbd_ok (fold wake irqs s) \<and> kbd_contents (fold wake irqs s) = take 255 (kbd_contents s @ keys irqs)"
  using assms
proof (induction irqs arbitrary: s rule: keys.induct)
  case 1
  then show ?case using kbd_count_less [of s] by simp
next
  case (3 sc irqs)
  note P = kbd_push_contents [OF 3(2), of sc]
  have "kbd_count s = 255 \<Longrightarrow> length (kbd_contents s) = 255" by simp
  then show ?case using 3(1) [OF P(3)] P(1) kbd_count_less [of s] by (cases "kbd_count s = 255") auto
qed simp

text \<open>A turn in which the processor wakes and no key has come.\<close>

definition quiet :: "turn \<Rightarrow> bool" where
  "quiet t \<longleftrightarrow> keys (fst t) = [] \<and> snd t = Some None"

lemma fold_wake_no_key: "keys irqs = [] \<Longrightarrow> fold wake irqs s = s"
  by (induction irqs rule: keys.induct) simp_all

lemma getchar_quiet:
  assumes "kbd_ok s" "kbd_contents s = []" "\<forall>t \<in> set ts. quiet t"
  shows "getchar (ts @ rest) s = getchar rest s"
  using assms(3)
proof (induction ts)
  case (Cons t ts)
  then obtain early where t: "t = (early, Some None)" and k: "keys early = []"
    by (cases t) (auto simp: quiet_def)
  show ?case using Cons kbd.pop_empty [OF assms(1,2)]
    by (simp add: getchar.simps [of "(early, Some None) # ts @ rest"] t fold_wake_no_key [OF k])
qed simp

lemma getchar_waits:
  assumes "kbd_ok s" "kbd_contents s = []" "keys (early @ [irq]) = sc # later" "sc \<noteq> 0"
  shows "\<exists>s'. getchar ((early, Some irq) # rest) s = Some (scancode_to_ascii sc, rest, s')
    \<and> kbd_ok s' \<and> kbd_contents s' = take 254 later"
proof -
  let ?t = "wake irq (fold wake early s)"
  have t: "?t = fold wake (early @ [irq]) s" by simp
  have okt: "kbd_ok ?t" and ct: "kbd_contents ?t = sc # take 254 later"
    using fold_wake [OF assms(1), of "early @ [irq]"] unfolding t assms(2,3) by (simp_all add: take_Cons')
  obtain x t' where p: "kbd_pop ?t = (x, t')" by fastforce
  have "x = sc" "kbd_contents t' = take 254 later" "kbd_ok t'"
    using kbd.pop_contents [OF okt ct] kbd.pop_ok [OF okt] by (simp_all add: p)
  moreover have "getchar ((early, Some irq) # rest) s = getchar rest ?t"
    using kbd.pop_empty [OF assms(1,2)] by (simp add: getchar.simps [of "(early, Some irq) # rest"])
  ultimately show ?thesis using assms(4) by (simp add: getchar.simps [of rest] p)
qed

lemma getchar_sleeps:
  assumes "kbd_ok s" "kbd_contents s = []"
  shows "getchar ((early, None) # rest) s = None" "getchar [] s = None"
  using kbd.pop_empty [OF assms] by (simp_all add: getchar.simps)

section \<open>The line editor scanf\<close>

text \<open>
  A keyboard that is always ready and answers the scancodes \<open>data\<close> one after the other: the number of
  reads of the data port so far says which.
\<close>

definition data_reads :: "hw_event list \<Rightarrow> nat" where
  "data_reads log = length (filter (\<lambda>e. e = In8 0x60) log)"

definition serves :: "'a hw_scheme \<Rightarrow> (nat \<Rightarrow> u8) \<Rightarrow> bool" where
  "serves s data \<longleftrightarrow> (\<forall>l. (ucast (port_in s l 0x64) :: u8) AND 1 \<noteq> 0
     \<and> (ucast (port_in s l 0x60) :: u8) = data (data_reads l))"

lemma read_scancode_serves:
  assumes "serves s data"
  shows "\<exists>s'. keyboard_read_scancode s = Some (data (data_reads (hw_log s)), s') \<and> serves s' data
    \<and> data_reads (hw_log s') = Suc (data_reads (hw_log s))"
  using assms
  by (subst keyboard_read_scancode.simps) (simp add: inb_def serves_def data_reads_def)

text \<open>What the line becomes: Enter ends it, backspace on a non-empty line shortens it, a full line ends.\<close>

fun edit :: "nat \<Rightarrow> string \<Rightarrow> u8 list \<Rightarrow> string" where
  "edit m line [] = line"
| "edit m line (sc # scs) =
     (if m \<le> length line \<or> sc = 0x1C then line
      else if sc = 0x0E \<and> line \<noteq> [] then edit m (butlast line) scs
      else if scancode_to_ascii sc \<noteq> CHR 0x00 then edit m (line @ [scancode_to_ascii sc]) scs
      else edit m line scs)"

definition holds :: "(u64 \<Rightarrow> char) \<Rightarrow> string \<Rightarrow> bool" where
  "holds buffer line \<longleftrightarrow> (\<forall>i < length line. buffer (of_nat i) = line ! i)"

lemma u64_of_nat_eq: "i < 2 ^ 64 \<Longrightarrow> j < 2 ^ 64 \<Longrightarrow> (of_nat i :: u64) = of_nat j \<longleftrightarrow> i = j"
proof -
  have u: "unat (of_nat k :: u64) = k" if "k < 2 ^ 64" for k
    using that by (simp add: unat_of_nat take_bit_nat_eq_self_iff)
  show "i < 2 ^ 64 \<Longrightarrow> j < 2 ^ 64 \<Longrightarrow> ?thesis" by (metis u)
qed

lemma scanf_loop_edit:
  assumes "serves s data" "scs = map data [n..<n + length scs]" "0x1C \<in> set scs"
    and "n = data_reads (hw_log s)" "m = unat (max_len - 1)" "length line \<le> m" "holds buffer line"
  shows "\<exists>buffer' s'. scanf_loop max_len (of_nat (length line)) buffer s
      = Some (of_nat (length (edit m line scs)), buffer', s')
    \<and> length (edit m line scs) \<le> m \<and> holds buffer' (edit m line scs)
    \<and> (\<forall>j. m \<le> unat j \<longrightarrow> buffer' j = buffer j)"
  using assms
proof (induction scs arbitrary: s n line buffer)
  case (Cons sc scs)
  have m64: "m < 2 ^ 64" using unat_u64_less [of "max_len - 1"] Cons.prems(5) by simp
  have u: "unat (of_nat (length line) :: u64) = length line"
    using m64 Cons.prems(6) by (simp add: unat_of_nat take_bit_nat_eq_self_iff)
  have lt: "of_nat (length line) < max_len - 1 \<longleftrightarrow> length line < m"
    by (simp add: word_less_nat_alt u Cons.prems(5))
  show ?case
  proof (cases "length line < m")
    case False
    then have "scanf_loop max_len (of_nat (length line)) buffer s = Some (of_nat (length line), buffer, s)"
      by (subst scanf_loop.simps) (simp add: lt)
    then show ?thesis using False Cons.prems(6,7) by auto
  next
    case True
    have l: "[n..<n + length (sc # scs)] = n # [Suc n..<Suc n + length scs]"
      by (subst upt_conv_Cons) simp_all
    have sc: "data n = sc" and scs: "scs = map data [Suc n..<Suc n + length scs]"
      using Cons.prems(2) unfolding l by simp_all
    obtain s1 where r: "keyboard_read_scancode s = Some (sc, s1)" "serves s1 data" "Suc n = data_reads (hw_log s1)"
      using read_scancode_serves [OF Cons.prems(1)] Cons.prems(4) sc by auto
    note IH = Cons.IH [OF r(2) scs _ r(3) Cons.prems(5)]
    have step: "scanf_loop max_len (of_nat (length line)) buffer s =
        (if sc = 0x1C then Some (of_nat (length line), buffer, s1)
         else if sc = 0x0E \<and> of_nat (length line) > (0 :: u64)
         then scanf_loop max_len (of_nat (length line) - 1) (buffer(of_nat (length line) - 1 := CHR 0x00)) s1
         else if scancode_to_ascii sc \<noteq> CHR 0x00
         then scanf_loop max_len (of_nat (length line) + 1) (buffer(of_nat (length line) := scancode_to_ascii sc)) s1
         else scanf_loop max_len (of_nat (length line)) buffer s1)"
      by (subst scanf_loop.simps) (simp add: lt True r(1) Let_def)
    have pos: "of_nat (length line) > (0 :: u64) \<longleftrightarrow> line \<noteq> []"
      by (simp add: word_less_nat_alt u)
    have eq: "of_nat i = (of_nat k :: u64) \<longleftrightarrow> i = k" if "i \<le> m" "k \<le> m" for i k
      using that m64 by (intro u64_of_nat_eq) simp_all
    consider "sc = 0x1C" | "sc \<noteq> 0x1C" "sc = 0x0E" "line \<noteq> []"
      | "sc \<noteq> 0x1C" "\<not> (sc = 0x0E \<and> line \<noteq> [])" "scancode_to_ascii sc \<noteq> CHR 0x00"
      | "sc \<noteq> 0x1C" "\<not> (sc = 0x0E \<and> line \<noteq> [])" "scancode_to_ascii sc = CHR 0x00" by blast
    then show ?thesis
    proof cases
      case 1
      then show ?thesis using step True Cons.prems(6,7) by auto
    next
      case 2
      define k where "k = length (butlast line)"
      have k: "length line = Suc k" using 2(3) by (cases line rule: rev_cases) (simp_all add: k_def)
      have o: "of_nat (length line) - (1 :: u64) = of_nat k" by (simp add: k)
      have "holds (buffer(of_nat k := CHR 0x00)) (butlast line)"
        using Cons.prems(7) eq True by (auto simp: holds_def k nth_butlast k_def [symmetric])
      moreover have "0x1C \<in> set scs" using 2(2) Cons.prems(3) by simp
      moreover have "k \<le> m" using True k by simp
      ultimately obtain b' s' where
        "scanf_loop max_len (of_nat k) (buffer(of_nat k := CHR 0x00)) s1 = Some (of_nat (length (edit m (butlast line) scs)), b', s')"
        "length (edit m (butlast line) scs) \<le> m" "holds b' (edit m (butlast line) scs)"
        "\<forall>j. m \<le> unat j \<longrightarrow> b' j = (buffer(of_nat k := CHR 0x00)) j"
        using IH [of "butlast line" "buffer(of_nat k := CHR 0x00)", folded k_def] by blast
      moreover have "unat (of_nat k :: u64) < m"
        using True k m64 by (simp add: unat_of_nat take_bit_nat_eq_self_iff)
      ultimately show ?thesis using step 2 pos True o by auto
    next
      case 3
      let ?c = "scancode_to_ascii sc"
      have o: "of_nat (length line) + (1 :: u64) = of_nat (length (line @ [?c]))" by simp
      have "holds (buffer(of_nat (length line) := ?c)) (line @ [?c])"
        using Cons.prems(7) eq True by (auto simp: holds_def nth_append less_Suc_eq)
      moreover have "0x1C \<in> set scs" using 3(1) Cons.prems(3) by simp
      moreover have "length (line @ [?c]) \<le> m" using True by simp
      ultimately obtain b' s' where
        "scanf_loop max_len (of_nat (length (line @ [?c]))) (buffer(of_nat (length line) := ?c)) s1
          = Some (of_nat (length (edit m (line @ [?c]) scs)), b', s')"
        "length (edit m (line @ [?c]) scs) \<le> m" "holds b' (edit m (line @ [?c]) scs)"
        "\<forall>j. m \<le> unat j \<longrightarrow> b' j = (buffer(of_nat (length line) := ?c)) j"
        using IH [of "line @ [?c]" "buffer(of_nat (length line) := ?c)"] by blast
      then show ?thesis using step 3 pos True o u by auto
    next
      case 4
      have "0x1C \<in> set scs" using 4(1) Cons.prems(3) by simp
      from IH [OF this Cons.prems(6,7)] show ?thesis using step 4 pos True by auto
    qed
  qed
qed simp

section \<open>Properties\<close>

text \<open>A concrete machine whose keyboard ring is empty, head and tail near the wrap-around.\<close>

definition kbd_start :: kbd where
  "kbd_start = \<lparr>hw_log = [], port_in = (\<lambda>_ _. 1), tsc_in = (\<lambda>_. 0), cr2_in = (\<lambda>_. 0),
     if_flag = False, vga_buffer = (\<lambda>_. 0), cursor_x = 0, cursor_y = 0,
     bitmap = (\<lambda>_. 0), total_pages = MAX_PAGES, free_pages = 0, mem = (\<lambda>_. 0), initial_pml4 = 0x101000,
     initial_pdpt = 0x102000, initial_pd = 0x103000, paging_enabled = False,
     kbd_buffer = (\<lambda>_. 0), kbd_head = 254, kbd_tail = 254\<rparr>"

lemma kbd_start_facts: "kbd_ok kbd_start" "kbd_contents kbd_start = []"
  by (simp_all add: kbd_ok_def kbd_contents_def kbd_count_def kbd_start_def)

text \<open>
  C12. Up to 255 scancodes pushed into the empty ring come out of \<open>kbd_pop\<close> in the order they went in,
  and leave it empty, wherever head and tail stand.
\<close>

theorem kbd_fifo:
  assumes "kbd_ok s" "kbd_contents s = []" "length scs \<le> 255"
  shows "fst (kbd.pops (length scs) (fold kbd_push scs s)) = scs
    \<and> kbd_contents (snd (kbd.pops (length scs) (fold kbd_push scs s))) = []"
  by (rule kbd.push_then_pop_all [OF assms])

theorem kbd_fifo_witness:
  "fst (kbd.pops 3 (fold kbd_push [0x1E, 0x30, 0x2E] kbd_start)) = [0x1E, 0x30, 0x2E]"
proof -
  have l: "length [0x1E, 0x30, 0x2E :: u8] = 3" by simp
  from kbd_fifo [OF kbd_start_facts, of "[0x1E, 0x30, 0x2E]", unfolded l] show ?thesis by simp
qed

text \<open>
  When more arrive than there is room for, \<open>kbd_push\<close> keeps the oldest and drops the newest
  scancodes; nothing that was stored is overwritten.
\<close>

theorem kbd_overflow_drops_newest:
  assumes "kbd_ok s"
  shows "kbd_contents (fold kbd_push scs s) = kbd_contents s @ take (255 - length (kbd_contents s)) scs"
  by (rule kbd.push_all [OF assms])

theorem kbd_overflow_drops_newest_witness:
  "kbd_contents (fold kbd_push (replicate 255 0x1E @ [0x30]) kbd_start) = replicate 255 0x1E"
  using kbd_overflow_drops_newest [OF kbd_start_facts(1), of "replicate 255 0x1E @ [0x30]"]
  by (simp add: kbd_start_facts)

text \<open>
  C4. The ring needs no lock: when the keyboard interrupt comes between any of the statements of
  \<open>kbd_pop\<close>, any number of times, what was popped followed by what the ring holds is what was stored,
  in order; no scancode is lost, repeated or reordered.
\<close>

theorem kbd_ring_interleaving:
  assumes "kbd_ok (rkbd r)" "kbd_contents (rkbd r) = []" "consumer r = Testing" "accepted r = []" "popped r = []"
    and "ring_step\<^sup>*\<^sup>* r r'"
  shows "accepted r' = popped r' @ kbd_contents (rkbd r') \<and> kbd_ok (rkbd r')"
proof -
  have "ring_inv r" using assms(1-5) by (simp add: ring_inv_def)
  then have "ring_inv r'" by (rule ring_steps_inv [OF assms(6)])
  then show ?thesis by (simp add: ring_inv_def)
qed

theorem kbd_ring_interleaving_witness:
  "\<exists>r'. ring_step\<^sup>*\<^sup>* \<lparr>rkbd = kbd_start, consumer = Testing, accepted = [], popped = []\<rparr> r'
     \<and> accepted r' = [0x1E] \<and> popped r' @ kbd_contents (rkbd r') = [0x1E]"
proof -
  let ?r = "\<lparr>rkbd = kbd_start, consumer = Testing, accepted = [], popped = []\<rparr>"
  let ?r' = "?r\<lparr>rkbd := kbd_push 0x1E kbd_start, accepted := [0x1E]\<rparr>"
  have "kbd_push 0x1E kbd_start \<noteq> kbd_start"
    using kbd_push_contents(1) [OF kbd_start_facts(1), of "0x1E"] kbd_start_facts(2)
    by (auto simp flip: length_kbd_contents)
  then have "ring_step ?r ?r'" using ring_step.irq_stored [of "0x1E" ?r] by simp
  then have s: "ring_step\<^sup>*\<^sup>* ?r ?r'" by simp
  have "accepted ?r' = popped ?r' @ kbd_contents (rkbd ?r') \<and> kbd_ok (rkbd ?r')"
    by (rule kbd_ring_interleaving [OF _ _ _ _ _ s]) (simp_all add: kbd_start_facts)
  with s show ?thesis by (intro exI [of _ ?r']) simp
qed

text \<open>
  The two scancode tables of the kernel agree: the table in \<open>kb.c\<close> behind \<open>read_char\<close> and
  \<open>kbd_read_blocking\<close> and the shorter one of \<open>scancode_to_ascii\<close> give every scancode the same
  character.
\<close>

theorem scancode_tables_agree:
  "table_char sc = scancode_to_ascii sc"
  by (rule table_char_ascii)

text \<open>
  C13. \<open>getchar\<close> called on an empty ring.  Through any number of turns in which the processor wakes and no key has
  come it sleeps on.  In the first turn with a key, before the \<open>hlt\<close> or as the interrupt that ends it: when an
  interrupt ends the \<open>hlt\<close>, it returns the character of the first key (whose scancode is not 0), consumes exactly
  that scancode and leaves the later keys of the turn in the ring, as far as they fit.  When the keys came
  between the look at the ring and the \<open>hlt\<close> and no interrupt follows, it never returns.
\<close>

theorem getchar_returns_key:
  assumes "kbd_ok s" "kbd_contents s = []" "\<forall>t \<in> set ts. quiet t"
  shows "(keys (early @ [irq]) = sc # later \<and> sc \<noteq> 0 \<longrightarrow>
      (\<exists>s'. getchar (ts @ (early, Some irq) # rest) s = Some (scancode_to_ascii sc, rest, s')
        \<and> kbd_contents s' = take 254 later))
    \<and> getchar (ts @ [(early, None)]) s = None"
  using getchar_waits [OF assms(1,2), of early irq sc later rest] getchar_sleeps [OF assms(1,2)]
  by (auto simp: getchar_quiet [OF assms])

theorem getchar_returns_key_witness:
  "(\<exists>s'. getchar [([], Some None), ([Some 0x1E, None], Some (Some 0x30))] kbd_start = Some (CHR ''a'', [], s')
      \<and> kbd_contents s' = [0x30])
    \<and> getchar [([], Some None), ([Some 0x1E], None)] kbd_start = None"
proof -
  have a: "scancode_to_ascii 0x1E = CHR ''a''" by code_simp
  have q: "\<forall>t \<in> set [([], Some None)]. quiet t" by (simp add: quiet_def)
  note G = getchar_returns_key [OF kbd_start_facts(1,2) q]
  from G [of "[Some 0x1E, None]" "Some 0x30" "0x1E" "[0x30]" "[]"] G [of "[Some 0x1E]"]
  show ?thesis by (simp add: a)
qed

text \<open>
  C14. \<open>scanf\<close> with \<open>max_len\<close> not 0 is a line editor: from a keyboard that answers a sequence of scancodes
  containing Enter it returns, the buffer holds the edited line and its terminating NUL, the NUL is within the first
  \<open>max_len\<close> characters, and no character at \<open>max_len\<close> or beyond is written.
\<close>

theorem scanf_edits_line:
  assumes "serves s data" "scs = map data [data_reads (hw_log s)..<data_reads (hw_log s) + length scs]"
    and "0x1C \<in> set scs" "max_len \<noteq> 0"
  shows "let line = edit (unat max_len - 1) [] scs in \<exists>buffer' s'. scanf max_len buffer s = Some (buffer', s')
    \<and> holds buffer' line \<and> buffer' (of_nat (length line)) = CHR 0x00 \<and> length line < unat max_len
    \<and> (\<forall>j. max_len \<le> j \<longrightarrow> buffer' j = buffer j)"
proof -
  let ?m = "unat (max_len - 1)" and ?line = "edit (unat max_len - 1) [] scs"
  have p: "0 < unat max_len" using assms(4) by (simp add: unat_gt_0)
  have m: "?m = unat max_len - 1" using assms(4) by (simp add: unat_minus_one)
  obtain b s' where L: "scanf_loop max_len 0 buffer s = Some (of_nat (length ?line), b, s')"
      "length ?line \<le> ?m" "holds b ?line" "\<forall>j. ?m \<le> unat j \<longrightarrow> b j = buffer j"
    using scanf_loop_edit [OF assms(1-3) refl refl,
        where max_len = max_len and line = "[]" and buffer = buffer] by (auto simp: holds_def m)
  have m64: "?m < 2 ^ 64" using unat_u64_less [of "max_len - 1"] by simp
  have u: "unat (of_nat (length ?line) :: u64) = length ?line"
    using L(2) m64 by (simp add: unat_of_nat take_bit_nat_eq_self_iff)
  let ?b = "b(of_nat (length ?line) := CHR 0x00)"
  have "holds ?b ?line"
    using L(2,3) m64 u64_of_nat_eq by (auto simp: holds_def)
  moreover have "?b j = buffer j" if "max_len \<le> j" for j
  proof -
    have "unat max_len \<le> unat j" using that by (simp add: word_le_nat_alt)
    then have "j \<noteq> of_nat (length ?line)" "?m \<le> unat j" using L(2) u m p by auto
    then show ?thesis using L(4) by simp
  qed
  moreover have "length ?line < unat max_len" using L(2) m p by simp
  ultimately show ?thesis using L(1) by (simp add: scanf_def Let_def)
qed

definition key_machine :: "u8 list \<Rightarrow> hw" where
  "key_machine scs = \<lparr>hw_log = [], port_in = (\<lambda>l p. if p = 0x64 then 1
       else if data_reads l < length scs then ucast (scs ! data_reads l) else 0x1C),
     tsc_in = (\<lambda>_. 0), cr2_in = (\<lambda>_. 0), if_flag = False\<rparr>"

lemma ucast_u8_u32: "ucast (ucast (w :: u8) :: u32) = w"
  by (rule bit_word_eqI) (simp add: bit_simps)

lemma key_machine_serves:
  "serves (key_machine scs) (\<lambda>k. if k < length scs then scs ! k else 0x1C)"
  by (simp add: serves_def key_machine_def ucast_u8_u32)

lemma key_machine_reads [simp]: "data_reads (hw_log (key_machine scs)) = 0"
  by (simp add: key_machine_def data_reads_def)

theorem scanf_edits_line_witness:
  "\<exists>b s'. scanf 16 (\<lambda>_. CHR ''?'') (key_machine [0x1E, 0x30, 0x0E, 0x2E, 0x1C]) = Some (b, s')
     \<and> holds b ''ac'' \<and> b 2 = CHR 0x00 \<and> b 16 = CHR ''?''"
proof -
  let ?scs = "[0x1E, 0x30, 0x0E, 0x2E, 0x1C] :: u8 list"
  have "edit 15 [] ?scs = ''ac''" by code_simp
  moreover have "?scs = map (\<lambda>k. if k < length ?scs then ?scs ! k else 0x1C) [0..<0 + length ?scs]"
    by (simp add: upt_rec)
  ultimately show ?thesis
    using scanf_edits_line [OF key_machine_serves, of ?scs ?scs 16 "\<lambda>_. CHR ''?''"] by (auto simp: Let_def)
qed

text \<open>
  With \<open>max_len\<close> 0 the bound \<open>max_len - 1\<close> wraps around to the largest \<open>size_t\<close>: \<open>scanf\<close> stores
  the whole line and its terminator behind the start of a buffer that has no room at all.
\<close>

theorem scanf_zero_length_overflows:
  assumes "serves s data" "scs = map data [data_reads (hw_log s)..<data_reads (hw_log s) + length scs]"
    and "0x1C \<in> set scs"
  shows "let line = edit (2 ^ 64 - 1) [] scs in \<exists>buffer' s'. scanf 0 buffer s = Some (buffer', s')
    \<and> (\<forall>i < length line. buffer' (of_nat i) = line ! i) \<and> buffer' (of_nat (length line)) = CHR 0x00"
proof -
  let ?line = "edit (2 ^ 64 - 1) [] scs"
  have m: "unat (0 - 1 :: u64) = 2 ^ 64 - 1" by (simp add: unsigned_minus_1_eq_mask mask_eq_exp_minus_1)
  obtain b s' where L: "scanf_loop 0 0 buffer s = Some (of_nat (length ?line), b, s')"
      "length ?line \<le> 2 ^ 64 - 1" "holds b ?line"
    using scanf_loop_edit [OF assms refl m [symmetric],
        where line = "[]" and buffer = buffer] by (auto simp: holds_def)
  have "of_nat i \<noteq> (of_nat (length ?line) :: u64)" if "i < length ?line" for i
    using that L(2) u64_of_nat_eq [of i "length ?line"] by simp
  then show ?thesis using L(1,3) by (auto simp: scanf_def Let_def holds_def)
qed

theorem scanf_zero_length_overflows_witness:
  "\<exists>b s'. scanf 0 (\<lambda>_. CHR ''?'') (key_machine [0x1E, 0x1C]) = Some (b, s') \<and> b 0 = CHR ''a'' \<and> b 1 = CHR 0x00"
proof -
  let ?scs = "[0x1E, 0x1C] :: u8 list"
  have "scancode_to_ascii 0x1E = CHR ''a''" by code_simp
  then have "edit (2 ^ 64 - 1) [] ?scs = ''a''" by simp
  moreover have "?scs = map (\<lambda>k. if k < length ?scs then ?scs ! k else 0x1C) [0..<0 + length ?scs]"
    by (simp add: upt_rec)
  ultimately show ?thesis
    using scanf_zero_length_overflows [OF key_machine_serves, of ?scs ?scs "\<lambda>_. CHR ''?''"] by (auto simp: Let_def)
qed

text \<open>
  Backspace on an empty line does not stay without effect: \<open>scanf\<close> falls through to the table, which
  has the backspace character for that scancode, and stores it as the first character of the line.
\<close>

theorem scanf_backspace_on_empty_line:
  assumes "serves s data" "data (data_reads (hw_log s)) = 0x0E" "data (Suc (data_reads (hw_log s))) = 0x1C"
    and "2 \<le> max_len"
  shows "\<exists>buffer' s'. scanf max_len buffer s = Some (buffer', s') \<and> buffer' 0 = CHR 0x08 \<and> buffer' 1 = CHR 0x00"
proof -
  let ?n = "data_reads (hw_log s)" and ?m = "unat (max_len - 1)"
  have d: "[0x0E, 0x1C] = map data [?n..<?n + length [0x0E :: u8, 0x1C]]"
    using assms(2,3) by (simp add: upt_rec)
  have z: "max_len \<noteq> 0" using assms(4) by auto
  have "2 \<le> unat max_len" using assms(4) by (simp add: word_le_nat_alt)
  then have m: "1 \<le> ?m" using z by (simp add: unat_minus_one)
  have a: "scancode_to_ascii 0x0E = CHR 0x08" by code_simp
  have e: "edit ?m [] [0x0E, 0x1C] = [CHR 0x08]" using m by (simp add: a)
  obtain b s' where L: "scanf_loop max_len 0 buffer s = Some (1, b, s')" "b 0 = CHR 0x08"
    using scanf_loop_edit [OF assms(1) d _ refl refl,
        where max_len = max_len and line = "[]" and buffer = buffer, unfolded e] by (auto simp: holds_def)
  then show ?thesis by (simp add: scanf_def)
qed

theorem scanf_backspace_on_empty_line_witness:
  "\<exists>b s'. scanf 16 (\<lambda>_. CHR ''?'') (key_machine [0x0E]) = Some (b, s') \<and> b 0 = CHR 0x08"
  using scanf_backspace_on_empty_line [OF key_machine_serves, of "[0x0E]" 16 "\<lambda>_. CHR ''?''"] by auto

end
