(* ===== verification/Pci.thy ===== *)
theory Pci
  imports Machine
begin

text \<open>
  PCI configuration access through the ports 0xCF8 and 0xCFC (\<open>kernel/drivers/pci/pci_config.c\<close>)
  and the bus scan of \<open>kernel/drivers/pci/pci.c\<close>.  The configuration space itself is a device: what
  it answers is described by a hypothesis, \<open>pci_device\<close>.
\<close>

section \<open>pci_config.c\<close>

definition PCI_CONFIG_ADDRESS :: u16 where "PCI_CONFIG_ADDRESS = 0xCF8"
definition PCI_CONFIG_DATA :: u16 where "PCI_CONFIG_DATA = 0xCFC"

definition pci_config_address :: "u8 \<Rightarrow> u8 \<Rightarrow> u8 \<Rightarrow> u8 \<Rightarrow> u32" where
  "pci_config_address bus device function offset =
     0x80000000 OR push_bit 16 (ucast bus) OR push_bit 11 (ucast device) OR push_bit 8 (ucast function)
     OR ucast (offset AND 0xFC)"

definition pci_config_read32 :: "u8 \<Rightarrow> u8 \<Rightarrow> u8 \<Rightarrow> u8 \<Rightarrow> 'a hw_scheme \<Rightarrow> u32 \<times> 'a hw_scheme" where
  "pci_config_read32 bus device function offset s =
     (let address = push_bit 31 1 OR push_bit 16 (ucast bus) OR push_bit 11 (ucast device)
            OR push_bit 8 (ucast function) OR ucast (offset AND 0xFC);
          s = outl PCI_CONFIG_ADDRESS address s
      in inl PCI_CONFIG_DATA s)"

definition pci_config_read16 :: "u8 \<Rightarrow> u8 \<Rightarrow> u8 \<Rightarrow> u8 \<Rightarrow> 'a hw_scheme \<Rightarrow> u16 \<times> 'a hw_scheme" where
  "pci_config_read16 bus device function offset s =
     (let (v, s) = pci_config_read32 bus device function offset s
      in (ucast (drop_bit (unat (offset AND 2) * 8) v AND 0xFFFF), s))"

definition pci_config_read8 :: "u8 \<Rightarrow> u8 \<Rightarrow> u8 \<Rightarrow> u8 \<Rightarrow> 'a hw_scheme \<Rightarrow> u8 \<times> 'a hw_scheme" where
  "pci_config_read8 bus device function offset s =
     (let (v, s) = pci_config_read32 bus device function offset s
      in (ucast (drop_bit (unat (offset AND 3) * 8) v AND 0xFF), s))"

definition pci_config_write32 :: "u8 \<Rightarrow> u8 \<Rightarrow> u8 \<Rightarrow> u8 \<Rightarrow> u32 \<Rightarrow> 'a hw_scheme \<Rightarrow> 'a hw_scheme" where
  "pci_config_write32 bus device function offset v s =
     (let address = push_bit 31 1 OR push_bit 16 (ucast bus) OR push_bit 11 (ucast device)
            OR push_bit 8 (ucast function) OR ucast (offset AND 0xFC);
          s = outl PCI_CONFIG_ADDRESS address s
      in outl PCI_CONFIG_DATA v s)"

definition pci_config_write8 :: "u8 \<Rightarrow> u8 \<Rightarrow> u8 \<Rightarrow> u8 \<Rightarrow> u8 \<Rightarrow> 'a hw_scheme \<Rightarrow> 'a hw_scheme" where
  "pci_config_write8 bus device function offset v s =
     (let address = 0x80000000 OR push_bit 16 (ucast bus) OR push_bit 11 (ucast device)
            OR push_bit 8 (ucast function) OR ucast (offset AND 0xFC);
          s = outl 0xCF8 address s;
          shift = unat (offset AND 3) * 8;
          (current, s) = inl 0xCFC s;
          current = current AND NOT (push_bit shift 0xFF);
          current = current OR push_bit shift (ucast v)
      in outl 0xCFC current s)"

definition pci_config_write16 :: "u8 \<Rightarrow> u8 \<Rightarrow> u8 \<Rightarrow> u8 \<Rightarrow> u16 \<Rightarrow> 'a hw_scheme \<Rightarrow> 'a hw_scheme" where
  "pci_config_write16 bus device function offset v s =
     (let address = 0x80000000 OR push_bit 16 (ucast bus) OR push_bit 11 (ucast device)
            OR push_bit 8 (ucast function) OR ucast (offset AND 0xFC);
          s = outl 0xCF8 address s;
          shift = unat (offset AND 2) * 8;
          (current, s) = inl 0xCFC s;
          current = current AND NOT (push_bit shift 0xFFFF);
          current = current OR push_bit shift (ucast v)
      in outl 0xCFC current s)"

section \<open>pci.c\<close>

text \<open>\<open>pci_scan\<close> reads the identification registers of a function and keeps nothing.\<close>

definition pci_scan :: "u8 \<Rightarrow> u8 \<Rightarrow> u8 \<Rightarrow> 'a hw_scheme \<Rightarrow> 'a hw_scheme" where
  "pci_scan bus device function s =
     (let (vendor, s) = pci_config_read16 bus device function 0x00 s in
      if vendor = 0xFFFF then s
      else
        (let (device_id, s) = pci_config_read16 bus device function 0x02 s;
             (revision, s) = pci_config_read8 bus device function 0x08 s;
             (prog_if, s) = pci_config_read8 bus device function 0x09 s;
             (subclass, s) = pci_config_read8 bus device function 0x0A s;
             (class_code, s) = pci_config_read8 bus device function 0x0B s;
             (header, s) = pci_config_read8 bus device function 0x0E s
         in s))"

definition pci_scan_device :: "u8 \<Rightarrow> u8 \<Rightarrow> 'a hw_scheme \<Rightarrow> 'a hw_scheme" where
  "pci_scan_device bus device s =
     (let (vendor, s) = pci_config_read16 bus device 0 0x00 s in
      if vendor = 0xFFFF then s
      else
        (let (header, s) = pci_config_read8 bus device 0 0x0E s;
             functions = (if header AND 0x80 \<noteq> 0 then 8 else 1)
         in for_up 0 functions (\<lambda>function. pci_scan bus device (of_nat function)) s))"

definition pci_init :: "'a hw_scheme \<Rightarrow> 'a hw_scheme" where
  "pci_init = for_up 0 256 (\<lambda>bus. for_up 0 32 (\<lambda>device. pci_scan_device (of_nat bus) (of_nat device)))"

section \<open>The configuration space\<close>

text \<open>
  Mechanism 1 of the PCI specification: a write to 0xCF8 selects a register, a write to 0xCFC goes to that register,
  a read of 0xCFC answers its value.  What a write does is up to the register: \<open>upd a old new\<close> is the value register
  \<open>a\<close> takes when it held \<open>old\<close> and \<open>new\<close> is written, so a plain storage register, a read-only one and one whose bits
  are cleared by writing 1 all have their own \<open>upd\<close>.  Registers that change by themselves are not covered.
\<close>

fun pci_selected :: "hw_event list \<Rightarrow> u32" where
  "pci_selected [] = 0"
| "pci_selected (Out32 p v # l) = (if p = 0xCF8 then v else pci_selected l)"
| "pci_selected (_ # l) = pci_selected l"

fun pci_space :: "(u32 \<Rightarrow> u32 \<Rightarrow> u32 \<Rightarrow> u32) \<Rightarrow> (u32 \<Rightarrow> u32) \<Rightarrow> hw_event list \<Rightarrow> u32 \<Rightarrow> u32" where
  "pci_space upd c [] = c"
| "pci_space upd c (Out32 p v # l) = (let r = pci_space upd c l; a = pci_selected l in
     if p = 0xCFC then r(a := upd a (r a) v) else r)"
| "pci_space upd c (_ # l) = pci_space upd c l"

definition pci_device :: "'a hw_scheme \<Rightarrow> (u32 \<Rightarrow> u32 \<Rightarrow> u32 \<Rightarrow> u32) \<Rightarrow> (u32 \<Rightarrow> u32) \<Rightarrow> bool" where
  "pci_device s upd c \<longleftrightarrow> (\<forall>l. port_in s l 0xCFC = pci_space upd c l (pci_selected l))"

text \<open>The register a function has at an offset, as the device holds it after the log of \<open>s\<close>.\<close>

definition pci_reg :: "(u32 \<Rightarrow> u32 \<Rightarrow> u32 \<Rightarrow> u32) \<Rightarrow> (u32 \<Rightarrow> u32) \<Rightarrow> 'a hw_scheme \<Rightarrow> u32 \<Rightarrow> u32" where
  "pci_reg upd c s a = pci_space upd c (hw_log s) a"

section \<open>Addresses\<close>

lemma bit_field:
  "k + 8 \<le> 32 \<Longrightarrow> bit (push_bit k (ucast (x :: u8)) :: u32) n \<longleftrightarrow> k \<le> n \<and> n < k + 8 \<and> bit x (n - k)"
  using bit_imp_le_length [of x "n - k"] by (auto simp: bit_push_bit_iff bit_ucast_iff)

lemma pci_address_bit:
  "bit (pci_config_address b d f off) n \<longleftrightarrow>
     n = 31 \<or> 16 \<le> n \<and> n < 24 \<and> bit b (n - 16) \<or> 11 \<le> n \<and> n < 19 \<and> bit d (n - 11)
     \<or> 8 \<le> n \<and> n < 16 \<and> bit f (n - 8) \<or> 2 \<le> n \<and> n < 8 \<and> bit off n"
proof -
  have c: "bit (0x80000000 :: u32) n \<longleftrightarrow> n = 31"
  proof -
    have "(0x80000000 :: u32) = 2 ^ 31" by simp
    then show ?thesis by (simp only: bit_exp_iff) auto
  qed
  have o: "bit (ucast (off AND 0xFC) :: u32) n \<longleftrightarrow> 2 \<le> n \<and> n < 8 \<and> bit off n"
  proof -
    have m: "(0xFC :: u8) = NOT (mask 2)" by (simp add: mask_numeral)
    show ?thesis unfolding m using bit_imp_le_length [of off n] by (auto simp: bit_simps)
  qed
  show ?thesis
    unfolding pci_config_address_def bit_or_iff c o by (simp add: bit_field)
qed

lemma u8_small_bit: "unat (x :: u8) < 2 ^ k \<Longrightarrow> k \<le> n \<Longrightarrow> \<not> bit x n"
proof -
  assume x: "unat x < 2 ^ k" "k \<le> n"
  have "unat x < 2 ^ n" using less_le_trans [OF x(1) power_increasing [OF x(2), of 2]] by simp
  then have "\<not> bit (unat x) n" by (simp add: bit_iff_odd)
  then show ?thesis by (auto simp: bit_unsigned_iff dest: bit_imp_le_length)
qed

lemma pci_address_fields:
  assumes "d < 32" "f < 8"
  shows "k < 8 \<Longrightarrow> bit (pci_config_address b d f off) (16 + k) = bit b k"
    "k < 5 \<Longrightarrow> bit (pci_config_address b d f off) (11 + k) = bit d k"
    "k < 3 \<Longrightarrow> bit (pci_config_address b d f off) (8 + k) = bit f k"
    "2 \<le> k \<Longrightarrow> k < 8 \<Longrightarrow> bit (pci_config_address b d f off) k = bit off k"
proof -
  have d: "\<not> bit d n" if "5 \<le> n" for n using u8_small_bit [of d 5 n] assms(1) that by (simp add: word_less_nat_alt)
  have f: "\<not> bit f n" if "3 \<le> n" for n using u8_small_bit [of f 3 n] assms(2) that by (simp add: word_less_nat_alt)
  show "k < 8 \<Longrightarrow> bit (pci_config_address b d f off) (16 + k) = bit b k"
    using d [of "5 + k"] by (auto simp: pci_address_bit)
  show "k < 5 \<Longrightarrow> bit (pci_config_address b d f off) (11 + k) = bit d k"
    using f [of "3 + k"] by (auto simp: pci_address_bit)
  show "k < 3 \<Longrightarrow> bit (pci_config_address b d f off) (8 + k) = bit f k"
    by (auto simp: pci_address_bit)
  show "2 \<le> k \<Longrightarrow> k < 8 \<Longrightarrow> bit (pci_config_address b d f off) k = bit off k"
    by (auto simp: pci_address_bit)
qed

lemma pci_address_inj:
  assumes "d < 32" "f < 8" "d' < 32" "f' < 8"
  shows "pci_config_address b d f off = pci_config_address b' d' f' off' \<longleftrightarrow>
    b = b' \<and> d = d' \<and> f = f' \<and> off AND 0xFC = off' AND 0xFC"
proof
  assume e: "pci_config_address b d f off = pci_config_address b' d' f' off'"
  note F = pci_address_fields [OF assms(1,2), of _ b off] and F' = pci_address_fields [OF assms(3,4), of _ b' off']
  have "b = b'" by (rule bit_word_eqI) (use F(1) F'(1) e in auto)
  moreover have "d = d'"
  proof (rule bit_word_eqI)
    fix n show "bit d n = bit d' n"
      using F(2) [of n] F'(2) [of n] e u8_small_bit [of d 5 n] u8_small_bit [of d' 5 n] assms by (cases "n < 5") (auto simp: word_less_nat_alt)
  qed
  moreover have "f = f'"
  proof (rule bit_word_eqI)
    fix n show "bit f n = bit f' n"
      using F(3) [of n] F'(3) [of n] e u8_small_bit [of f 3 n] u8_small_bit [of f' 3 n] assms by (cases "n < 3") (auto simp: word_less_nat_alt)
  qed
  moreover have "off AND 0xFC = off' AND 0xFC"
  proof -
    have m: "(0xFC :: u8) = NOT (mask 2)" by (simp add: mask_numeral)
    show ?thesis unfolding m
      by (rule bit_word_eqI) (use F(4) F'(4) e in \<open>auto simp: bit_simps\<close>)
  qed
  ultimately show "b = b' \<and> d = d' \<and> f = f' \<and> off AND 0xFC = off' AND 0xFC" by blast
qed (simp add: pci_config_address_def)

section \<open>Reads and writes against the device\<close>

lemma pci_address_31: "push_bit 31 1 OR push_bit 16 (ucast b) OR push_bit 11 (ucast d) OR push_bit 8 (ucast f)
    OR ucast (off AND 0xFC) = pci_config_address b d f off"
  by (simp add: pci_config_address_def)

lemma pci_address_80: "0x80000000 OR push_bit 16 (ucast b) OR push_bit 11 (ucast d) OR push_bit 8 (ucast f)
    OR ucast (off AND 0xFC) = pci_config_address b d f off"
  by (simp only: pci_config_address_def)

lemmas pci_access_defs = pci_config_read32_def pci_config_write32_def pci_config_write8_def
  pci_config_write16_def pci_address_31 pci_address_80 PCI_CONFIG_ADDRESS_def PCI_CONFIG_DATA_def
  inl_def outl_def Let_def

lemma pci_device_emit [simp]: "pci_device (emit e s) upd c = pci_device s upd c"
  by (simp add: pci_device_def)

lemma pci_read32_spec:
  assumes "pci_device s upd c"
  shows "pci_config_read32 b d f off s = (pci_reg upd c s (pci_config_address b d f off),
    emit (In32 0xCFC) (emit (Out32 0xCF8 (pci_config_address b d f off)) s))"
  using assms by (simp add: pci_access_defs pci_device_def pci_reg_def)

lemma pci_read_reg:
  "pci_reg upd c (snd (pci_config_read32 b d f off s)) = pci_reg upd c s"
  "pci_reg upd c (snd (pci_config_read16 b d f off s)) = pci_reg upd c s"
  "pci_reg upd c (snd (pci_config_read8 b d f off s)) = pci_reg upd c s"
  "pci_device (snd (pci_config_read32 b d f off s)) upd c = pci_device s upd c"
  by (simp_all add: pci_config_read16_def pci_config_read8_def pci_access_defs pci_reg_def fun_eq_iff)

definition insert_field :: "nat \<Rightarrow> nat \<Rightarrow> u32 \<Rightarrow> u32 \<Rightarrow> u32" where
  "insert_field sh n v old = (old AND NOT (push_bit sh (mask n))) OR push_bit sh v"

lemma pci_write_reg:
  assumes "pci_device s upd c"
  shows "pci_reg upd c (pci_config_write32 b d f off v s) = (let A = pci_config_address b d f off; old = pci_reg upd c s A
      in (pci_reg upd c s)(A := upd A old v))"
    "pci_reg upd c (pci_config_write8 b d f off w s) = (let A = pci_config_address b d f off; old = pci_reg upd c s A
      in (pci_reg upd c s)(A := upd A old (insert_field (unat (off AND 3) * 8) 8 (ucast w) old)))"
    "pci_reg upd c (pci_config_write16 b d f off z s) = (let A = pci_config_address b d f off; old = pci_reg upd c s A
      in (pci_reg upd c s)(A := upd A old (insert_field (unat (off AND 2) * 8) 16 (ucast z) old)))"
    "pci_device (pci_config_write32 b d f off v s) upd c" "pci_device (pci_config_write8 b d f off w s) upd c"
    "pci_device (pci_config_write16 b d f off z s) upd c"
  using assms
  by (simp_all add: pci_access_defs pci_device_def pci_reg_def insert_field_def mask_numeral fun_eq_iff)

text \<open>The byte and the half word of a register that an offset selects.\<close>

definition byte_at :: "nat \<Rightarrow> u32 \<Rightarrow> u8" where "byte_at k v = ucast (drop_bit (k * 8) v)"
definition half_at :: "nat \<Rightarrow> u32 \<Rightarrow> u16" where "half_at k v = ucast (drop_bit (k * 8) v)"

lemma pci_read8_spec:
  "pci_device s upd c \<Longrightarrow> fst (pci_config_read8 b d f off s)
    = byte_at (unat (off AND 3)) (pci_reg upd c s (pci_config_address b d f off))"
  "pci_device s upd c \<Longrightarrow> fst (pci_config_read16 b d f off s)
    = half_at (unat (off AND 2)) (pci_reg upd c s (pci_config_address b d f off))"
proof -
  have m: "(0xFF :: u32) = mask 8" "(0xFFFF :: u32) = mask 16" by (simp_all add: mask_numeral)
  show "pci_device s upd c \<Longrightarrow> fst (pci_config_read8 b d f off s)
      = byte_at (unat (off AND 3)) (pci_reg upd c s (pci_config_address b d f off))"
    unfolding pci_config_read8_def byte_at_def m
    by (simp add: pci_read32_spec) (rule bit_word_eqI, auto simp: bit_simps)
  show "pci_device s upd c \<Longrightarrow> fst (pci_config_read16 b d f off s)
      = half_at (unat (off AND 2)) (pci_reg upd c s (pci_config_address b d f off))"
    unfolding pci_config_read16_def half_at_def m
    by (simp add: pci_read32_spec) (rule bit_word_eqI, auto simp: bit_simps)
qed

lemma byte_at_insert:
  "j < 4 \<Longrightarrow> k < 4 \<Longrightarrow> byte_at j (insert_field (k * 8) 8 (ucast w) v) = (if j = k then w else byte_at j v)"
proof -
  assume jk: "j < 4" "k < 4"
  have "bit (byte_at j (insert_field (k * 8) 8 (ucast w) v)) n = bit (if j = k then w else byte_at j v) n"
    if n: "n < 8" for n
  proof (cases "j = k")
    case True
    then show ?thesis using jk n by (simp add: byte_at_def insert_field_def bit_simps)
  next
    case False
    then have "j < k \<or> k < j" by auto
    then have "j * 8 + n < k * 8 \<or> k * 8 + 8 \<le> j * 8 + n" using n by auto
    then have o: "\<not> (k * 8 \<le> j * 8 + n \<and> j * 8 + n < k * 8 + 8)" by auto
    have "\<not> bit w (j * 8 + n - k * 8)" if "k * 8 + 8 \<le> j * 8 + n"
      using that bit_imp_le_length [of w "j * 8 + n - k * 8"] by auto
    then show ?thesis using False o jk n
      by (auto simp: byte_at_def insert_field_def bit_simps)
  qed
  then show ?thesis by (intro bit_word_eqI) simp
qed

lemma half_at_insert:
  "j \<in> {0, 2} \<Longrightarrow> k \<in> {0, 2} \<Longrightarrow> half_at j (insert_field (k * 8) 16 (ucast w) v) = (if j = k then w else half_at j v)"
proof -
  assume jk: "j \<in> {0, 2}" "k \<in> {0, 2}"
  have "bit (half_at j (insert_field (k * 8) 16 (ucast w) v)) n = bit (if j = k then w else half_at j v) n"
    if n: "n < 16" for n
    using jk n bit_imp_le_length [of w "16 + n"] by (auto simp: half_at_def insert_field_def bit_simps)
  then show ?thesis by (intro bit_word_eqI) simp
qed

lemma low_offset: "unat ((off :: u8) AND 3) < 4" "unat (off AND 2) \<in> {0, 2}"
  "off AND 0xFC = off' AND 0xFC \<and> unat (off AND 3) = unat (off' AND 3) \<longleftrightarrow> off = (off' :: u8)"
  "off AND 0xFC = off' AND 0xFC \<and> unat (off AND 2) = unat (off' AND 2) \<longleftrightarrow> off AND 0xFE = (off' :: u8) AND 0xFE"
proof -
  have "(3 :: u8) = mask 2" by (simp add: mask_numeral)
  then have m: "unat (off AND 3) = unat off mod 4" by (simp only: unat_and_mask) simp
  show "unat (off AND 3) < 4" unfolding m by simp
  have b: "(0xFC :: u8) = NOT (mask 2)" "(3 :: u8) = mask 2" "(0xFE :: u8) = NOT (mask 1)" "(2 :: u8) = push_bit 1 1"
    by (simp_all add: mask_numeral)
  have "off AND 2 = (if bit off 1 then 2 else 0)"
    unfolding b(4) by (rule bit_word_eqI) (auto simp: bit_simps)
  then show "unat (off AND 2) \<in> {0, 2}" by simp
  show "off AND 0xFC = off' AND 0xFC \<and> unat (off AND 3) = unat (off' AND 3) \<longleftrightarrow> off = off'"
  proof
    assume "off AND 0xFC = off' AND 0xFC \<and> unat (off AND 3) = unat (off' AND 3)"
    then have "(off AND NOT (mask 2)) OR (off AND mask 2) = (off' AND NOT (mask 2)) OR (off' AND mask 2)"
      unfolding b word_unat_eq_iff [symmetric] by simp
    then show "off = off'" by (simp flip: bit.conj_disj_distrib)
  qed simp
  show "off AND 0xFC = off' AND 0xFC \<and> unat (off AND 2) = unat (off' AND 2) \<longleftrightarrow> off AND 0xFE = off' AND 0xFE"
    unfolding word_unat_eq_iff [symmetric] b bit_eq_iff
    by (auto simp: bit_simps) (metis One_nat_def Suc_leI le_antisym not_less_eq_eq numeral_2_eq_2)+
qed

section \<open>The scan\<close>

text \<open>Events that select a register and read it.\<close>

definition pci_read_event :: "hw_event \<Rightarrow> bool" where
  "pci_read_event e \<longleftrightarrow> e = In32 0xCFC \<or> (\<exists>a. e = Out32 0xCF8 a)"

definition only_reads :: "'a hw_scheme \<Rightarrow> 'a hw_scheme \<Rightarrow> bool" where
  "only_reads s s' \<longleftrightarrow> (\<exists>evs. hw_log s' = evs @ hw_log s \<and> (\<forall>e \<in> set evs. pci_read_event e))"

lemma only_reads_refl [simp]: "only_reads s s"
  by (simp add: only_reads_def)

lemma only_reads_trans: "only_reads s t \<Longrightarrow> only_reads t u \<Longrightarrow> only_reads s u"
  unfolding only_reads_def by fastforce

lemma only_reads_step: "only_reads s t \<Longrightarrow> pci_read_event e \<Longrightarrow> only_reads s (emit e t)"
  by (auto simp: only_reads_def)

lemma read_only_reads:
  "only_reads s (snd (pci_config_read32 b d f off s))" "only_reads s (snd (pci_config_read16 b d f off s))"
  "only_reads s (snd (pci_config_read8 b d f off s))"
proof -
  have "snd (pci_config_read32 b d f off s)
      = emit (In32 0xCFC) (emit (Out32 0xCF8 (pci_config_address b d f off)) s)"
    by (simp add: pci_access_defs)
  moreover have "only_reads s (emit (In32 0xCFC) (emit (Out32 0xCF8 (pci_config_address b d f off)) s))"
    by (intro only_reads_step only_reads_refl) (simp_all add: pci_read_event_def)
  ultimately show r: "only_reads s (snd (pci_config_read32 b d f off s))" by simp
  show "only_reads s (snd (pci_config_read16 b d f off s))" "only_reads s (snd (pci_config_read8 b d f off s))"
    using r by (simp_all add: pci_config_read16_def pci_config_read8_def case_prod_beta)
qed

lemma read_then:
  "only_reads s t \<Longrightarrow> only_reads s (snd (pci_config_read16 b d f off t))"
  "only_reads s t \<Longrightarrow> only_reads s (snd (pci_config_read8 b d f off t))"
  using only_reads_trans read_only_reads by blast+

lemma pci_scan_only_reads: "only_reads s (pci_scan b d f s)"
  unfolding pci_scan_def Let_def case_prod_beta by (auto intro!: read_then)

lemma for_up_only_reads: "(\<And>i t. only_reads t (f i t)) \<Longrightarrow> only_reads s (for_up a b f s)"
  by (rule for_up_preserves [where P = "only_reads s"]) (auto intro: only_reads_trans)

lemma pci_scan_device_after:
  fixes s :: "'a hw_scheme"
  shows "only_reads (snd (pci_config_read16 b d 0 0 s)) (pci_scan_device b d s)"
proof -
  have "only_reads u (for_up 0 n (\<lambda>f. pci_scan b d (of_nat f)) (snd (pci_config_read8 b d 0 0x0E u)))"
    for u :: "'a hw_scheme" and n
    using only_reads_trans [OF read_then(2) [OF only_reads_refl] for_up_only_reads [OF pci_scan_only_reads]] .
  from this [of _ 8] this [of _ 1] show ?thesis
    unfolding pci_scan_device_def Let_def case_prod_beta by simp
qed

lemma pci_scan_device_only_reads: "only_reads s (pci_scan_device b d s)"
  using only_reads_trans [OF read_then(1) [OF only_reads_refl] pci_scan_device_after] .

lemma only_reads_space:
  assumes "only_reads s s'"
  shows "pci_space upd c (hw_log s') = pci_space upd c (hw_log s)"
proof -
  have "pci_space upd c (evs @ l) = pci_space upd c l" if "\<forall>e \<in> set evs. pci_read_event e" for evs l
    using that by (induction evs) (auto simp: pci_read_event_def)
  with assms show ?thesis by (auto simp: only_reads_def)
qed

lemma only_reads_mem: "only_reads s t \<Longrightarrow> e \<in> set (hw_log s) \<Longrightarrow> e \<in> set (hw_log t)"
  by (auto simp: only_reads_def)

lemma scan_device_probes: "Out32 0xCF8 (pci_config_address b d 0 0) \<in> set (hw_log (pci_scan_device b d s))"
proof -
  have "Out32 0xCF8 (pci_config_address b d 0 0) \<in> set (hw_log (snd (pci_config_read16 b d 0 0 s)))"
    by (simp add: pci_config_read16_def pci_access_defs pci_config_address_def)
  then show ?thesis by (rule only_reads_mem [OF pci_scan_device_after])
qed

lemma for_up_logs:
  fixes f :: "nat \<Rightarrow> 'a hw_scheme \<Rightarrow> 'a hw_scheme"
  assumes "\<And>i t. only_reads t (f i t)" "a \<le> i" "i < b" "\<And>t. e \<in> set (hw_log (f i t))"
  shows "e \<in> set (hw_log (for_up a b f s))"
proof -
  have "i < b \<longrightarrow> e \<in> set (hw_log (for_up a b f s))"
  proof (rule for_up_invariant [where I = "\<lambda>k t. i < k \<longrightarrow> e \<in> set (hw_log t)"])
    fix k and t :: "'a hw_scheme" assume "i < k \<longrightarrow> e \<in> set (hw_log t)"
    then show "i < Suc k \<longrightarrow> e \<in> set (hw_log (f k t))"
      using only_reads_mem [OF assms(1)] assms(4) by (auto simp: less_Suc_eq)
  qed (use assms in auto)
  with assms(3) show ?thesis by simp
qed

section \<open>Properties\<close>

text \<open>
  A concrete function whose registers are all zero at first and store what is written, except its command and status
  register: the upper half, the status, is cleared bit by bit by writing 1 and holds one pending bit.
\<close>

definition machine_upd :: "u32 \<Rightarrow> u32 \<Rightarrow> u32 \<Rightarrow> u32" where
  "machine_upd a old new = (if a AND 0xFF = 4 then (new AND 0xFFFF) OR (old AND NOT new AND 0xFFFF0000) else new)"

definition machine_regs :: "u32 \<Rightarrow> u32" where
  "machine_regs a = (if a AND 0xFF = 4 then 0x10000000 else 0)"

definition pci_machine :: hw where
  "pci_machine = \<lparr>hw_log = [], port_in = (\<lambda>l p. pci_space machine_upd machine_regs l (pci_selected l)),
     tsc_in = (\<lambda>_. 0), cr2_in = (\<lambda>_. 0), if_flag = False\<rparr>"

lemma pci_machine_device: "pci_device pci_machine machine_upd machine_regs"
  by (simp add: pci_device_def pci_machine_def)

lemma pci_machine_reg: "pci_reg machine_upd machine_regs pci_machine = machine_regs"
  by (simp add: pci_reg_def pci_machine_def fun_eq_iff)

lemma pci_machine_read:
  "fst (pci_config_read32 b d f off pci_machine) = machine_regs (pci_config_address b d f off)"
  "fst (pci_config_read8 b d f off pci_machine) = byte_at (unat (off AND 3)) (machine_regs (pci_config_address b d f off))"
  by (simp_all add: pci_read32_spec [OF pci_machine_device] pci_read8_spec(1) [OF pci_machine_device] pci_machine_reg)

text \<open>
  Distinct registers have distinct addresses: for device numbers below 32 and function numbers below
  8 the configuration address determines bus, device, function and the dword of the offset.
\<close>

theorem pci_address_unique:
  assumes "d < 32" "f < 8" "d' < 32" "f' < 8"
    and "pci_config_address b d f off = pci_config_address b' d' f' off'"
  shows "b = b' \<and> d = d' \<and> f = f' \<and> off AND 0xFC = off' AND 0xFC"
  using pci_address_inj [OF assms(1-4)] assms(5) by blast

theorem pci_address_unique_witness:
  "(1 :: u8) = 1 \<and> (2 :: u8) = 2 \<and> (0 :: u8) = 0 \<and> (0x41 :: u8) AND 0xFC = 0x43 AND 0xFC"
  by (rule pci_address_unique [of 2 0 2 0 1 "0x41" 1 "0x43"]) (simp_all add: pci_config_address_def)

text \<open>
  C15. Byte access, for device numbers below 32 and function numbers below 8, on a device whose registers change only
  when they are written, each in its own way.  \<open>pci_config_write8\<close> is a read, modify, write of the whole dword: it
  writes back the value \<open>pci_config_read32\<close> gives with one byte replaced, and what any byte reads as afterwards is
  what the register made of that dword; bytes of every other dword read as before.  So when the register stores
  the dword, the byte reads as written and the three others as before; a status register in the same dword whose
  bits are cleared by writing 1 loses its pending bits.
\<close>

theorem pci_write8_read8:
  assumes "pci_device s upd c" "d < 32" "f < 8" "d' < 32" "f' < 8"
  shows "let A = pci_config_address b d f off;
             old = fst (pci_config_read32 b d f off s);
             dword = insert_field (unat (off AND 3) * 8) 8 (ucast v) old;
             same = (b' = b \<and> d' = d \<and> f' = f);
             now = fst (pci_config_read8 b' d' f' off' (pci_config_write8 b d f off v s));
             before = fst (pci_config_read8 b' d' f' off' s)
    in now = (if same \<and> off' AND 0xFC = off AND 0xFC then byte_at (unat (off' AND 3)) (upd A old dword) else before)
     \<and> (upd A old dword = dword \<longrightarrow> now = (if same \<and> off' = off then v else before))"
proof -
  let ?A = "pci_config_address b d f off" and ?A' = "pci_config_address b' d' f' off'"
  let ?old = "pci_reg upd c s ?A"
  let ?new = "insert_field (unat (off AND 3) * 8) 8 (ucast v) ?old"
  note W = pci_write_reg(2,5) [OF assms(1), of b d f off v]
  have old: "fst (pci_config_read32 b d f off s) = ?old" by (simp add: pci_read32_spec [OF assms(1)])
  have now: "fst (pci_config_read8 b' d' f' off' (pci_config_write8 b d f off v s))
      = byte_at (unat (off' AND 3)) (if ?A' = ?A then upd ?A ?old ?new else pci_reg upd c s ?A')"
    using pci_read8_spec(1) [OF W(2)] by (simp add: W(1) Let_def)
  have A: "?A' = ?A \<longleftrightarrow> (b' = b \<and> d' = d \<and> f' = f) \<and> off' AND 0xFC = off AND 0xFC"
    using pci_address_inj [OF assms(4,5,2,3), of b' off' b off] by blast
  have "byte_at (unat (off' AND 3)) ?new = (if off' = off then v else byte_at (unat (off' AND 3)) ?old)"
    if "off' AND 0xFC = off AND 0xFC"
    using byte_at_insert [OF low_offset(1) low_offset(1), of off' off v ?old] low_offset(3) [of off' off] that by auto
  then show ?thesis
    unfolding Let_def old now A pci_read8_spec(1) [OF assms(1)] using A by (auto simp: if_distrib)
qed

theorem pci_write8_read8_witness:
  "fst (pci_config_read8 0 31 2 0x3C (pci_config_write8 0 31 2 0x3D 0x7F pci_machine)) = 0
   \<and> fst (pci_config_read8 0 31 2 0x3D (pci_config_write8 0 31 2 0x3D 0x7F pci_machine)) = 0x7F
   \<and> fst (pci_config_read8 0 31 2 7 pci_machine) = 0x10
   \<and> fst (pci_config_read8 0 31 2 7 (pci_config_write8 0 31 2 4 2 pci_machine)) = 0"
proof -
  note W = pci_write8_read8 [OF pci_machine_device, where d = 31 and f = 2 and d' = 31 and f' = 2 and b = 0 and b' = 0]
  note D = pci_machine_read pci_config_address_def machine_regs_def machine_upd_def byte_at_def insert_field_def mask_numeral
  show ?thesis
    using W [of "0x3D" "0x7F" "0x3D"] W [of "0x3D" "0x7F" "0x3C"] W [of 4 2 7] by (simp add: D Let_def)
qed

text \<open>
  Word access likewise on a register that stores what is written, except that bit 0 of the offset is ignored:
  \<open>pci_config_write16\<close> at an odd offset stores into the aligned half word below it.
\<close>

theorem pci_write16_read16:
  assumes "pci_device s upd c" "d < 32" "f < 8" "d' < 32" "f' < 8"
    and "\<forall>old new. upd (pci_config_address b d f off) old new = new"
  shows "fst (pci_config_read16 b' d' f' off' (pci_config_write16 b d f off v s))
    = (if b' = b \<and> d' = d \<and> f' = f \<and> off' AND 0xFE = off AND 0xFE then v
       else fst (pci_config_read16 b' d' f' off' s))"
proof -
  let ?A = "pci_config_address b d f off" and ?A' = "pci_config_address b' d' f' off'"
  note W = pci_write_reg(3,6) [OF assms(1), of b d f off v]
  have "fst (pci_config_read16 b' d' f' off' (pci_config_write16 b d f off v s))
      = half_at (unat (off' AND 2)) (if ?A' = ?A
          then insert_field (unat (off AND 2) * 8) 16 (ucast v) (pci_reg upd c s ?A) else pci_reg upd c s ?A')"
    using pci_read8_spec(2) [OF W(2)] assms(6) by (simp add: W(1) Let_def)
  also have "\<dots> = (if ?A' = ?A \<and> unat (off' AND 2) = unat (off AND 2) then v
      else half_at (unat (off' AND 2)) (pci_reg upd c s ?A'))"
    using half_at_insert [OF low_offset(2) low_offset(2), of off' off v "pci_reg upd c s ?A"] by auto
  also have "?A' = ?A \<and> unat (off' AND 2) = unat (off AND 2)
      \<longleftrightarrow> b' = b \<and> d' = d \<and> f' = f \<and> off' AND 0xFE = off AND 0xFE"
    using pci_address_inj [OF assms(4,5,2,3), of b' off' b off] low_offset(4) [of off' off] by blast
  finally show ?thesis by (simp add: pci_read8_spec(2) [OF assms(1)])
qed

theorem pci_write16_read16_witness:
  "fst (pci_config_read16 0 31 2 0x3C (pci_config_write16 0 31 2 0x3D 0x0107 pci_machine)) = 0x0107"
  using pci_write16_read16 [OF pci_machine_device, of 31 2 31 2 0 "0x3D" 0 "0x3C" "0x0107"]
  by (simp add: machine_upd_def pci_config_address_def)

text \<open>
  \<open>pci_init\<close> probes the vendor register of every one of the 256 * 32 devices and does nothing but
  read: no register of the configuration space changes, whatever the devices answer.  (Nothing it
  reads is kept, either: only the log of the ports tells that it ran.)
\<close>

theorem pci_init_probes:
  assumes "d < 32"
  shows "Out32 0xCF8 (pci_config_address b d 0 0) \<in> set (hw_log (pci_init s))
    \<and> pci_reg upd c (pci_init s) = pci_reg upd c s"
proof -
  define row :: "nat \<Rightarrow> 'a hw_scheme \<Rightarrow> 'a hw_scheme" where
    "row bus = for_up 0 32 (\<lambda>device. pci_scan_device (of_nat bus) (of_nat device))" for bus
  have init: "pci_init s = for_up 0 256 row s" by (simp add: pci_init_def row_def [abs_def])
  have row: "only_reads t (row bus t)" for bus t
    unfolding row_def by (rule for_up_only_reads) (rule pci_scan_device_only_reads)
  have "unat d < 32" using assms by (simp add: word_less_nat_alt)
  then have "Out32 0xCF8 (pci_config_address b d 0 0) \<in> set (hw_log (row (unat b) t))" for t
    unfolding row_def
    by (intro for_up_logs [where i = "unat d"] pci_scan_device_only_reads)
      (simp_all add: scan_device_probes)
  moreover have "unat b < 256" using unsigned_less [of b] by simp
  ultimately have p: "Out32 0xCF8 (pci_config_address b d 0 0) \<in> set (hw_log (pci_init s))"
    unfolding init by (intro for_up_logs [OF row, where i = "unat b"]) simp_all
  have "only_reads s (pci_init s)" unfolding init by (rule for_up_only_reads [OF row])
  then show ?thesis using p by (simp add: pci_reg_def fun_eq_iff only_reads_space)
qed

theorem pci_init_probes_witness:
  "Out32 0xCF8 0x8000F800 \<in> set (hw_log (pci_init pci_machine))"
proof -
  have "pci_config_address 0 31 0 0 = 0x8000F800" by (simp add: pci_config_address_def)
  then show ?thesis using pci_init_probes [of 31 0 pci_machine] by simp
qed

end
