(* ===== verification/Status.thy ===== *)
theory Status
  imports Prelude
begin

text \<open>
  The status codes of the ACPI library (\<open>include/uacpi/status.h\<close>), their numeric values and their texts
  (\<open>uacpi_status_to_string\<close> of \<open>source/uacpi.c\<close>).  The enumeration is closed here; a number outside it,
  which only a cast can produce, is not a value of the type.
\<close>

datatype uacpi_status =
    UACPI_STATUS_OK
  | UACPI_STATUS_MAPPING_FAILED
  | UACPI_STATUS_OUT_OF_MEMORY
  | UACPI_STATUS_BAD_CHECKSUM
  | UACPI_STATUS_INVALID_SIGNATURE
  | UACPI_STATUS_INVALID_TABLE_LENGTH
  | UACPI_STATUS_NOT_FOUND
  | UACPI_STATUS_INVALID_ARGUMENT
  | UACPI_STATUS_UNIMPLEMENTED
  | UACPI_STATUS_ALREADY_EXISTS
  | UACPI_STATUS_INTERNAL_ERROR
  | UACPI_STATUS_TYPE_MISMATCH
  | UACPI_STATUS_INIT_LEVEL_MISMATCH
  | UACPI_STATUS_NAMESPACE_NODE_DANGLING
  | UACPI_STATUS_NO_HANDLER
  | UACPI_STATUS_NO_RESOURCE_END_TAG
  | UACPI_STATUS_COMPILED_OUT
  | UACPI_STATUS_HARDWARE_TIMEOUT
  | UACPI_STATUS_TIMEOUT
  | UACPI_STATUS_OVERRIDDEN
  | UACPI_STATUS_DENIED
  | UACPI_STATUS_AML_UNDEFINED_REFERENCE
  | UACPI_STATUS_AML_INVALID_NAMESTRING
  | UACPI_STATUS_AML_OBJECT_ALREADY_EXISTS
  | UACPI_STATUS_AML_INVALID_OPCODE
  | UACPI_STATUS_AML_INCOMPATIBLE_OBJECT_TYPE
  | UACPI_STATUS_AML_BAD_ENCODING
  | UACPI_STATUS_AML_OUT_OF_BOUNDS_INDEX
  | UACPI_STATUS_AML_SYNC_LEVEL_TOO_HIGH
  | UACPI_STATUS_AML_INVALID_RESOURCE
  | UACPI_STATUS_AML_LOOP_TIMEOUT
  | UACPI_STATUS_AML_CALL_STACK_DEPTH_LIMIT

text \<open>The value the enumeration gives each code.\<close>

fun status_value :: "uacpi_status \<Rightarrow> u32" where
  "status_value UACPI_STATUS_OK = 0"
| "status_value UACPI_STATUS_MAPPING_FAILED = 1"
| "status_value UACPI_STATUS_OUT_OF_MEMORY = 2"
| "status_value UACPI_STATUS_BAD_CHECKSUM = 3"
| "status_value UACPI_STATUS_INVALID_SIGNATURE = 4"
| "status_value UACPI_STATUS_INVALID_TABLE_LENGTH = 5"
| "status_value UACPI_STATUS_NOT_FOUND = 6"
| "status_value UACPI_STATUS_INVALID_ARGUMENT = 7"
| "status_value UACPI_STATUS_UNIMPLEMENTED = 8"
| "status_value UACPI_STATUS_ALREADY_EXISTS = 9"
| "status_value UACPI_STATUS_INTERNAL_ERROR = 10"
| "status_value UACPI_STATUS_TYPE_MISMATCH = 11"
| "status_value UACPI_STATUS_INIT_LEVEL_MISMATCH = 12"
| "status_value UACPI_STATUS_NAMESPACE_NODE_DANGLING = 13"
| "status_value UACPI_STATUS_NO_HANDLER = 14"
| "status_value UACPI_STATUS_NO_RESOURCE_END_TAG = 15"
| "status_value UACPI_STATUS_COMPILED_OUT = 16"
| "status_value UACPI_STATUS_HARDWARE_TIMEOUT = 17"
| "status_value UACPI_STATUS_TIMEOUT = 18"
| "status_value UACPI_STATUS_OVERRIDDEN = 19"
| "status_value UACPI_STATUS_DENIED = 20"
| "status_value UACPI_STATUS_AML_UNDEFINED_REFERENCE = 0x0EFF0000"
| "status_value UACPI_STATUS_AML_INVALID_NAMESTRING = 0x0EFF0001"
| "status_value UACPI_STATUS_AML_OBJECT_ALREADY_EXISTS = 0x0EFF0002"
| "status_value UACPI_STATUS_AML_INVALID_OPCODE = 0x0EFF0003"
| "status_value UACPI_STATUS_AML_INCOMPATIBLE_OBJECT_TYPE = 0x0EFF0004"
| "status_value UACPI_STATUS_AML_BAD_ENCODING = 0x0EFF0005"
| "status_value UACPI_STATUS_AML_OUT_OF_BOUNDS_INDEX = 0x0EFF0006"
| "status_value UACPI_STATUS_AML_SYNC_LEVEL_TOO_HIGH = 0x0EFF0007"
| "status_value UACPI_STATUS_AML_INVALID_RESOURCE = 0x0EFF0008"
| "status_value UACPI_STATUS_AML_LOOP_TIMEOUT = 0x0EFF0009"
| "status_value UACPI_STATUS_AML_CALL_STACK_DEPTH_LIMIT = 0x0EFF000A"

fun uacpi_status_to_string :: "uacpi_status \<Rightarrow> string" where
  "uacpi_status_to_string UACPI_STATUS_OK =
     ''no error''"
| "uacpi_status_to_string UACPI_STATUS_MAPPING_FAILED =
     ''failed to map memory''"
| "uacpi_status_to_string UACPI_STATUS_OUT_OF_MEMORY =
     ''out of memory''"
| "uacpi_status_to_string UACPI_STATUS_BAD_CHECKSUM =
     ''bad table checksum''"
| "uacpi_status_to_string UACPI_STATUS_INVALID_SIGNATURE =
     ''invalid table signature''"
| "uacpi_status_to_string UACPI_STATUS_INVALID_TABLE_LENGTH =
     ''invalid table length''"
| "uacpi_status_to_string UACPI_STATUS_NOT_FOUND =
     ''not found''"
| "uacpi_status_to_string UACPI_STATUS_INVALID_ARGUMENT =
     ''invalid argument''"
| "uacpi_status_to_string UACPI_STATUS_UNIMPLEMENTED =
     ''unimplemented''"
| "uacpi_status_to_string UACPI_STATUS_ALREADY_EXISTS =
     ''already exists''"
| "uacpi_status_to_string UACPI_STATUS_INTERNAL_ERROR =
     ''internal error''"
| "uacpi_status_to_string UACPI_STATUS_TYPE_MISMATCH =
     ''object type mismatch''"
| "uacpi_status_to_string UACPI_STATUS_INIT_LEVEL_MISMATCH =
     ''init level too low/high for this action''"
| "uacpi_status_to_string UACPI_STATUS_NAMESPACE_NODE_DANGLING =
     ''attempting to use a dangling namespace node''"
| "uacpi_status_to_string UACPI_STATUS_NO_HANDLER =
     ''no handler found''"
| "uacpi_status_to_string UACPI_STATUS_NO_RESOURCE_END_TAG =
     ''resource template without an end tag''"
| "uacpi_status_to_string UACPI_STATUS_COMPILED_OUT =
     ''this functionality has been compiled out of this build''"
| "uacpi_status_to_string UACPI_STATUS_HARDWARE_TIMEOUT =
     ''timed out waiting for hardware response''"
| "uacpi_status_to_string UACPI_STATUS_TIMEOUT =
     ''wait timed out''"
| "uacpi_status_to_string UACPI_STATUS_OVERRIDDEN =
     ''the requested action has been overridden''"
| "uacpi_status_to_string UACPI_STATUS_DENIED =
     ''the requested action has been denied''"
| "uacpi_status_to_string UACPI_STATUS_AML_UNDEFINED_REFERENCE =
     ''AML referenced an undefined object''"
| "uacpi_status_to_string UACPI_STATUS_AML_INVALID_NAMESTRING =
     ''invalid AML name string''"
| "uacpi_status_to_string UACPI_STATUS_AML_OBJECT_ALREADY_EXISTS =
     ''object already exists''"
| "uacpi_status_to_string UACPI_STATUS_AML_INVALID_OPCODE =
     ''invalid AML opcode''"
| "uacpi_status_to_string UACPI_STATUS_AML_INCOMPATIBLE_OBJECT_TYPE =
     ''incompatible AML object type''"
| "uacpi_status_to_string UACPI_STATUS_AML_BAD_ENCODING =
     ''bad AML instruction encoding''"
| "uacpi_status_to_string UACPI_STATUS_AML_OUT_OF_BOUNDS_INDEX =
     ''out of bounds AML index''"
| "uacpi_status_to_string UACPI_STATUS_AML_SYNC_LEVEL_TOO_HIGH =
     ''AML attempted to acquire a mutex with a lower sync level''"
| "uacpi_status_to_string UACPI_STATUS_AML_INVALID_RESOURCE =
     ''invalid resource template encoding or type''"
| "uacpi_status_to_string UACPI_STATUS_AML_LOOP_TIMEOUT =
     ''hanging AML while loop''"
| "uacpi_status_to_string UACPI_STATUS_AML_CALL_STACK_DEPTH_LIMIT =
     ''reached maximum AML call stack depth''"

text \<open>\<open>uacpi_unlikely_error(ret)\<close>\<close>

definition unlikely_error :: "uacpi_status \<Rightarrow> bool" where
  "unlikely_error ret \<longleftrightarrow> ret \<noteq> UACPI_STATUS_OK"

end
