(* ===== verification/Console.thy ===== *)
theory Console
  imports KeyboardProps Status
begin

text \<open>
  The debug console, \<open>kernel/console/console.c\<close>, with \<open>system_shutdown\<close> of
  \<open>kernel/console/test_cmds/sleep.c\<close>.  The local variables of \<open>console\<close> are a record, one turn of its
  endless loop is a step, and interrupts arrive between the turns.  The call that powers the machine off,
  \<open>uacpi_enter_sleep_state_simple\<close>, is a parameter.
\<close>

section \<open>sleep.c\<close>

definition EIO :: int where "EIO = 5"

definition system_shutdown ::
  "('a kbd_scheme \<Rightarrow> uacpi_status \<times> 'a kbd_scheme) \<Rightarrow> 'a kbd_scheme \<Rightarrow> printf_fault + int \<times> 'a kbd_scheme" where
  "system_shutdown enter_sleep s =
     (let (ret, s) = enter_sleep s in
      if unlikely_error ret
      then map_sum id (Pair (- EIO))
        (printf ''failed to enter sleep: %s'' [VStr (uacpi_status_to_string ret)] s)
      else Inr (0, s))"

section \<open>console.c\<close>

record console_vars =
  buffer :: "int \<Rightarrow> char"
  pos :: int

text \<open>
  A C string in the 128-byte buffer, and the comparison \<open>pos < sizeof(buffer) - 1\<close>, which C makes in
  \<open>size_t\<close>.
\<close>

definition c_string :: "(int \<Rightarrow> char) \<Rightarrow> string" where
  "c_string b = takeWhile (\<lambda>c. c \<noteq> CHR 0x00) (map (b \<circ> int) [0..<128])"

definition has_room :: "int \<Rightarrow> bool" where
  "has_room p \<longleftrightarrow> (word_of_int p :: u64) < 128 - 1"

definition bindE :: "'e + 'x \<Rightarrow> ('x \<Rightarrow> 'e + 'y) \<Rightarrow> 'e + 'y" where
  "bindE x f = (case x of Inl e \<Rightarrow> Inl e | Inr a \<Rightarrow> f a)"

text \<open>The commands, the three branches of the comparison of the line.\<close>

definition console_command ::
  "('a kbd_scheme \<Rightarrow> uacpi_status \<times> 'a kbd_scheme) \<Rightarrow> string \<Rightarrow> 'a kbd_scheme \<Rightarrow> printf_fault + 'a kbd_scheme outcome" where
  "console_command enter_sleep line s =
     (if strcmp line ''ver'' = 0 then map_sum id Returned (printf (''Tinos3 C edition'' @ [CHR 0x0A]) [] s)
      else if strcmp line ''halt'' = 0 then Inr (Halted s)
      else if strcmp line ''poweroff'' = 0
      then map_sum id (Returned \<circ> snd) (system_shutdown enter_sleep s)
      else map_sum id Returned (printf (''Unknown command: %s'' @ [CHR 0x0A]) [VStr line] s))"

definition console_turn ::
  "('a kbd_scheme \<Rightarrow> uacpi_status \<times> 'a kbd_scheme) \<Rightarrow> console_vars \<times> 'a kbd_scheme
    \<Rightarrow> printf_fault + (console_vars \<times> 'a kbd_scheme) outcome" where
  "console_turn enter_sleep = (\<lambda>(v, s).
     (let (c, s) = read_char s in
      if c = CHR 0x00 then Inr (Returned (v, s))
      else if c = CHR 0x08 then
        (if pos v > 0
         then Inr (Returned (v\<lparr>pos := pos v - 1\<rparr>,
           putchar CHR 0x08 (putchar CHR '' '' (putchar CHR 0x08 s))))
         else Inr (Returned (v, s)))
      else if c = CHR 0x0A then
        (let v = v\<lparr>buffer := (buffer v)(pos v := CHR 0x00)\<rparr> in
         bindE (printf [CHR 0x0A] [] s) (\<lambda>s.
         bindE (console_command enter_sleep (c_string (buffer v)) s) (\<lambda>r.
           case r of
             Halted s \<Rightarrow> Inr (Halted (v, s))
           | Returned s \<Rightarrow>
               bindE (printf ''>'' [] (scroll_screen s)) (\<lambda>s. Inr (Returned (v\<lparr>pos := 0\<rparr>, s))))))
      else if has_room (pos v)
      then Inr (Returned (\<lparr>buffer = (buffer v)(pos v := c), pos = pos v + 1\<rparr>, putchar c s))
      else Inr (Returned (v, s))))"

text \<open>
  The loop, for a list of interrupts: before each turn one of them, or none, delivers a scancode.  The
  uninitialized buffer is an argument.
\<close>

fun console_loop ::
  "('a kbd_scheme \<Rightarrow> uacpi_status \<times> 'a kbd_scheme) \<Rightarrow> u8 option list \<Rightarrow> console_vars \<times> 'a kbd_scheme
    \<Rightarrow> printf_fault + (console_vars \<times> 'a kbd_scheme) outcome" where
  "console_loop enter_sleep [] vs = Inr (Returned vs)"
| "console_loop enter_sleep (irq # irqs) (v, s) =
     bindE (console_turn enter_sleep (v, wake irq s)) (\<lambda>r.
       case r of Halted vs \<Rightarrow> Inr (Halted vs) | Returned vs \<Rightarrow> console_loop enter_sleep irqs vs)"

definition console ::
  "('a kbd_scheme \<Rightarrow> uacpi_status \<times> 'a kbd_scheme) \<Rightarrow> (int \<Rightarrow> char) \<Rightarrow> u8 option list \<Rightarrow> 'a kbd_scheme
    \<Rightarrow> printf_fault + (console_vars \<times> 'a kbd_scheme) outcome" where
  "console enter_sleep b irqs s =
     bindE (printf (''This console is the Tinos3c kernel Debug Console.'' @ [CHR 0x0A]) [] s) (\<lambda>s.
     bindE (printf ''>'' [] s) (\<lambda>s.
       console_loop enter_sleep irqs (\<lparr>buffer = b, pos = 0\<rparr>, s)))"

section \<open>The line editor it implements\<close>

text \<open>
  The abstract console is the line typed so far, at most 127 characters.  Backspace drops the last
  character, Enter runs the line, any other character is appended and echoed while there is room.
\<close>

definition run_line ::
  "('a kbd_scheme \<Rightarrow> uacpi_status \<times> 'a kbd_scheme) \<Rightarrow> string \<Rightarrow> 'a kbd_scheme \<Rightarrow> 'a kbd_scheme outcome" where
  "run_line enter_sleep line s =
     (if line = ''ver'' then Returned (put_string (''Tinos3 C edition'' @ [CHR 0x0A]) s)
      else if line = ''halt'' then Halted s
      else if line = ''poweroff'' then
        (case enter_sleep s of (ret, s) \<Rightarrow> Returned
          (if ret = UACPI_STATUS_OK then s
           else put_string (''failed to enter sleep: '' @ uacpi_status_to_string ret) s))
      else Returned (put_string (''Unknown command: '' @ line @ [CHR 0x0A]) s))"

definition edit ::
  "('a kbd_scheme \<Rightarrow> uacpi_status \<times> 'a kbd_scheme) \<Rightarrow> char \<Rightarrow> string \<times> 'a kbd_scheme
    \<Rightarrow> (string \<times> 'a kbd_scheme) outcome" where
  "edit enter_sleep c = (\<lambda>(line, s).
     if c = CHR 0x00 then Returned (line, s)
     else if c = CHR 0x08 then
       (if line = [] then Returned (line, s)
        else Returned (butlast line, put_string [CHR 0x08, CHR '' '', CHR 0x08] s))
     else if c = CHR 0x0A then
       (case run_line enter_sleep line (put_string [CHR 0x0A] s) of
          Halted s \<Rightarrow> Halted (line, s)
        | Returned s \<Rightarrow> Returned ([], put_string ''>'' (scroll_screen s)))
     else if length line < 127 then Returned (line @ [c], putchar c s)
     else Returned (line, s))"

definition typed :: "console_vars \<Rightarrow> string" where
  "typed v = map (buffer v \<circ> int) [0..<nat (pos v)]"

definition console_ok :: "console_vars \<Rightarrow> bool" where
  "console_ok v \<longleftrightarrow> 0 \<le> pos v \<and> pos v \<le> 127 \<and> CHR 0x00 \<notin> set (typed v)"

section \<open>The code follows the editor\<close>

lemma typed_terminate [simp]: "typed (v\<lparr>buffer := (buffer v)(pos v := c)\<rparr>) = typed v"
  by (auto simp: typed_def)

lemma c_string_typed:
  assumes "console_ok v"
  shows "c_string ((buffer v)(pos v := CHR 0x00)) = typed v"
proof -
  let ?n = "nat (pos v)" and ?b = "(buffer v)(pos v := CHR 0x00)"
  have n: "?n < 128" "int ?n = pos v" using assms by (auto simp: console_ok_def)
  have "[0..<128] = [0..<?n] @ [?n..<128]" using n(1) upt_add_eq_append [of 0 ?n "128 - ?n"] by simp
  then have u: "[0..<128] = [0..<?n] @ ?n # [Suc ?n..<128]" using n(1) by (simp add: upt_conv_Cons)
  have t: "map (?b \<circ> int) [0..<?n] = typed v" using n(2) by (auto simp: typed_def)
  have "\<forall>c \<in> set (typed v). c \<noteq> CHR 0x00" using assms by (auto simp: console_ok_def)
  then show ?thesis
    unfolding c_string_def u map_append list.map t using n(2) by (simp add: takeWhile_append)
qed

lemma has_room_iff: "0 \<le> p \<Longrightarrow> p \<le> 127 \<Longrightarrow> has_room p \<longleftrightarrow> p < 127"
  by (simp add: has_room_def word_less_def uint_word_of_int take_bit_int_eq_self)

lemma length_typed: "console_ok v \<Longrightarrow> int (length (typed v)) = pos v"
  by (simp add: typed_def console_ok_def)

lemma typed_push: "0 \<le> pos v \<Longrightarrow> typed \<lparr>buffer = (buffer v)(pos v := c), pos = pos v + 1\<rparr> = typed v @ [c]"
  by (auto simp: typed_def nat_add_distrib)

lemma typed_pop: "0 < pos v \<Longrightarrow> typed (v\<lparr>pos := pos v - 1\<rparr>) = butlast (typed v)"
proof -
  assume "0 < pos v"
  then have "nat (pos v) = Suc (nat (pos v - 1))" by simp
  then show ?thesis by (simp only: typed_def) simp
qed

lemma command_run_line:
  assumes "CHR 0x00 \<notin> set line"
  shows "console_command es line s = Inr (run_line es line s)"
  using assms
  by (auto simp: console_command_def run_line_def system_shutdown_def unlikely_error_def strcmp_eq_0
      printf_render sum.map_comp comp_def Let_def split: prod.split)

lemma console_turn_edit:
  assumes "console_ok v" "read_char s = (c, s')"
  shows "\<exists>r. console_turn es (v, s) = Inr r
    \<and> map_outcome (\<lambda>(v, s). (typed v, s)) r = edit es c (typed v, s')
    \<and> (\<forall>v' t. r = Returned (v', t) \<longrightarrow> console_ok v')"
proof -
  have p: "0 \<le> pos v" "pos v \<le> 127" "CHR 0x00 \<notin> set (typed v)" using assms(1) by (simp_all add: console_ok_def)
  have e: "typed v = [] \<longleftrightarrow> pos v = 0" using length_typed [OF assms(1)] by auto
  consider "c = CHR 0x00" | "c = CHR 0x08" | "c = CHR 0x0A" | "c \<notin> {CHR 0x00, CHR 0x08, CHR 0x0A}" by auto
  then show ?thesis
  proof cases
    case 1
    then show ?thesis using assms by (simp add: console_turn_def edit_def)
  next
    case 2
    have "console_ok (v\<lparr>pos := pos v - 1\<rparr>)" if "pos v > 0"
      using p that by (auto simp: console_ok_def typed_pop dest: in_set_butlastD)
    with 2 show ?thesis using assms p e by (auto simp: console_turn_def edit_def typed_pop)
  next
    case 3
    let ?v = "v\<lparr>buffer := (buffer v)(pos v := CHR 0x00)\<rparr>"
    have "console_ok (?v\<lparr>pos := 0\<rparr>)" by (simp add: console_ok_def typed_def)
    moreover have "typed (?v\<lparr>pos := 0\<rparr>) = []" by (simp add: typed_def)
    ultimately show ?thesis using 3 assms(2) c_string_typed [OF assms(1)] p(3)
      by (auto simp: console_turn_def edit_def bindE_def printf_render command_run_line Let_def
          split: outcome.split)
  next
    case 4
    have "console_ok \<lparr>buffer = (buffer v)(pos v := c), pos = pos v + 1\<rparr>" if "pos v < 127"
      using p that 4 by (auto simp: console_ok_def typed_push)
    with 4 show ?thesis using assms(2) p length_typed [OF assms(1)]
      by (auto simp: console_turn_def edit_def typed_push has_room_iff assms(1))
  qed
qed

section \<open>Keys and the screen\<close>

text \<open>What a key does to the ring and to the screen.\<close>

definition same_screen :: "'a kbd_scheme \<Rightarrow> 'b kbd_scheme \<Rightarrow> bool" where
  "same_screen s t \<longleftrightarrow> vga_buffer s = vga_buffer t \<and> cursor_x s = cursor_x t \<and> cursor_y s = cursor_y t"

lemma scroll_same:
  assumes "same_screen s t"
  shows "same_screen (scroll_screen s) (scroll_screen t)"
proof -
  have "vga_buffer (scroll_screen s) i = vga_buffer (scroll_screen t) i" for i
    using assms by (simp add: scroll_screen_cells same_screen_def)
  then show ?thesis using assms by (simp add: same_screen_def fun_eq_iff)
qed

lemma putchar_same: "same_screen s t \<Longrightarrow> same_screen (putchar c s) (putchar c t)"
  using scroll_same by (auto simp: putchar_def Let_def same_screen_def)

lemma put_string_same: "same_screen s t \<Longrightarrow> same_screen (put_string cs s) (put_string cs t)"
  by (induction cs arbitrary: s t) (auto intro: putchar_same)

lemma scroll_ring [simp]:
  "kbd_buffer (scroll_screen s) = kbd_buffer s" "kbd_head (scroll_screen s) = kbd_head s"
  "kbd_tail (scroll_screen s) = kbd_tail s"
  by (simp_all add: scroll_screen_def set_cell_def Let_def for_up_frame [where g = kbd_buffer]
      for_up_frame [where g = kbd_head] for_up_frame [where g = kbd_tail])

lemma putchar_ring [simp]:
  "kbd_buffer (putchar c s) = kbd_buffer s" "kbd_head (putchar c s) = kbd_head s"
  "kbd_tail (putchar c s) = kbd_tail s"
  by (simp_all add: putchar_def update_cursor_def machine_defs set_cell_def Let_def)

lemma put_string_ring [simp]:
  "kbd_ok (put_string cs s) = kbd_ok s" "kbd_contents (put_string cs s) = kbd_contents s"
proof -
  have "kbd_buffer (put_string cs s) = kbd_buffer s \<and> kbd_head (put_string cs s) = kbd_head s
      \<and> kbd_tail (put_string cs s) = kbd_tail s"
    by (induction cs arbitrary: s) simp_all
  then show "kbd_ok (put_string cs s) = kbd_ok s" "kbd_contents (put_string cs s) = kbd_contents s"
    by (simp_all add: kbd_ok_def kbd_contents_def kbd_count_def kbd_slot_def)
qed

lemma table_char_0: "table_char 0 = CHR 0x00" "table_char 0x1C = CHR 0x0A"
  by (simp_all add: table_char_def scancode_table_def)

lemma turn_key:
  assumes "kbd_ok s" "kbd_contents s = []"
  obtains s' where "read_char (wake (Some sc) s) = (table_char sc, s')" "kbd_ok s'" "kbd_contents s' = []" "same_screen s' s"
proof -
  let ?t = "kbd_push sc s"
  have c: "kbd_contents ?t = [sc]" and ok: "kbd_ok ?t"
    using kbd.push_contents [OF assms(1), of sc] kbd.push_ok [OF assms(1), of sc] assms(2) by simp_all
  obtain s' where p: "kbd_pop ?t = (sc, s')" "kbd_contents s' = []" "kbd_ok s'"
    using kbd.pop_contents [OF ok c] kbd.pop_ok [OF ok] by (metis prod.collapse)
  have "same_screen (snd (kbd_pop ?t)) s"
    by (simp add: kbd_pop_def kbd_push_def Let_def same_screen_def)
  moreover have "read_char (wake (Some sc) s) = (table_char sc, s')"
    using p(1) by (simp add: read_char_def table_char_0)
  ultimately show ?thesis using that p by simp
qed

definition ordinary :: "char \<Rightarrow> bool" where
  "ordinary c \<longleftrightarrow> c \<notin> {CHR 0x00, CHR 0x08, CHR 0x0A}"

lemma ordinary_turn:
  assumes "kbd_ok s" "kbd_contents s = []" "console_ok v" "ordinary (table_char sc)" "length (typed v) < 127"
  obtains v' s' where "console_turn es (v, wake (Some sc) s) = Inr (Returned (v', s'))" "console_ok v'"
    "typed v' = typed v @ [table_char sc]" "kbd_ok s'" "kbd_contents s' = []"
    "same_screen s' (putchar (table_char sc) s)"
proof -
  obtain t where t: "read_char (wake (Some sc) s) = (table_char sc, t)" "kbd_ok t" "kbd_contents t = []" "same_screen t s"
    by (rule turn_key [OF assms(1,2)])
  obtain r where r: "console_turn es (v, wake (Some sc) s) = Inr r"
    "map_outcome (\<lambda>(v, s). (typed v, s)) r = edit es (table_char sc) (typed v, t)"
    "\<forall>v' t. r = Returned (v', t) \<longrightarrow> console_ok v'"
    using console_turn_edit [OF assms(3) t(1), of es] by blast
  have "edit es (table_char sc) (typed v, t) = Returned (typed v @ [table_char sc], putchar (table_char sc) t)"
    using assms(4,5) by (simp add: edit_def ordinary_def)
  then obtain v' where v: "r = Returned (v', putchar (table_char sc) t)" "typed v' = typed v @ [table_char sc]"
    using r(2) by (cases r) auto
  have "kbd_ok (put_string [table_char sc] t)" "kbd_contents (put_string [table_char sc] t) = []"
    unfolding put_string_ring by (rule t(2), rule t(3))
  then show ?thesis
    using that [OF r(1) [unfolded v(1)]] r(3) v putchar_same [OF t(4)] by simp
qed

lemma ordinary_turns:
  assumes "kbd_ok s" "kbd_contents s = []" "console_ok v" "\<forall>sc \<in> set scs. ordinary (table_char sc)"
    and "length (typed v) + length scs \<le> 127"
  shows "\<exists>v' s'. (\<forall>irqs. console_loop es (map Some scs @ irqs) (v, s) = console_loop es irqs (v', s'))
    \<and> console_ok v' \<and> typed v' = typed v @ map table_char scs \<and> kbd_ok s' \<and> kbd_contents s' = []
    \<and> same_screen s' (put_string (map table_char scs) s)"
  using assms
proof (induction scs arbitrary: v s)
  case Nil
  then show ?case by (auto simp: same_screen_def)
next
  case (Cons sc scs)
  obtain v1 s1 where 1: "console_turn es (v, wake (Some sc) s) = Inr (Returned (v1, s1))" "console_ok v1"
    "typed v1 = typed v @ [table_char sc]" "kbd_ok s1" "kbd_contents s1 = []"
    "same_screen s1 (putchar (table_char sc) s)"
    by (rule ordinary_turn [OF Cons.prems(1-3)]) (use Cons.prems(4,5) in auto)
  obtain v2 s2 where 2: "\<forall>irqs. console_loop es (map Some scs @ irqs) (v1, s1) = console_loop es irqs (v2, s2)"
    "console_ok v2" "typed v2 = typed v1 @ map table_char scs" "kbd_ok s2" "kbd_contents s2 = []"
    "same_screen s2 (put_string (map table_char scs) s1)"
    using Cons.IH [OF 1(4,5,2)] Cons.prems(4,5) 1(3) by auto
  have "same_screen s2 (put_string (map table_char (sc # scs)) s)"
    using 2(6) put_string_same [OF 1(6), of "map table_char scs"] by (simp add: same_screen_def)
  moreover have "console_loop es (map Some (sc # scs) @ irqs) (v, s) = console_loop es irqs (v2, s2)" for irqs
    using 1(1) 2(1) by (simp add: bindE_def)
  ultimately show ?case using 2 1(3) by (intro exI [of _ v2] exI [of _ s2]) simp
qed

section \<open>Properties\<close>

lemma console_turn_buffer:
  assumes "console_ok v" "console_turn es (v, s) = Inr r" "r = Returned (v', t) \<or> r = Halted (v', t)" "i < 0 \<or> 128 \<le> i"
  shows "buffer v' i = buffer v i"
proof -
  have p: "0 \<le> pos v" "pos v < 128" using assms(1) by (simp_all add: console_ok_def)
  obtain c u where c: "read_char s = (c, u)" by fastforce
  have i: "i \<noteq> pos v" using p assms(4) by auto
  show ?thesis using assms(2,3) i
    by (auto simp: console_turn_def c bindE_def Let_def split: if_splits sum.splits outcome.splits)
qed

text \<open>
  C23. One turn of the console implements one key of the line editor: from variables that represent a line of at
  most 127 characters it reads the next character and acts on the line as the editor does, prints what the
  editor prints, stops the machine exactly when the editor does, and leaves variables that represent the
  new line.  No cell outside the 128 bytes of the buffer changes.
\<close>

theorem console_turn_refines:
  assumes "console_ok v" "read_char s = (c, s')"
  shows "\<exists>r. console_turn es (v, s) = Inr r
    \<and> map_outcome (\<lambda>(v, s). (typed v, s)) r = edit es c (typed v, s')
    \<and> (\<forall>v' t. r = Returned (v', t) \<longrightarrow> console_ok v')
    \<and> (\<forall>v' t i. r = Returned (v', t) \<or> r = Halted (v', t) \<longrightarrow> i < 0 \<or> 128 \<le> i \<longrightarrow> buffer v' i = buffer v i)"
  using console_turn_edit [OF assms, of es] console_turn_buffer [OF assms(1), of es s] by blast

theorem console_turn_refines_witness:
  "\<exists>v' t. console_turn (Pair UACPI_STATUS_OK) (\<lparr>buffer = (\<lambda>_. CHR ''x''), pos = 3\<rparr>, kbd_push 0x1E kbd_start)
      = Inr (Returned (v', t)) \<and> typed v' = ''xxxa'' \<and> buffer v' 128 = CHR ''x''"
proof -
  let ?v = "\<lparr>buffer = (\<lambda>_. CHR ''x''), pos = 3\<rparr>"
  obtain s' where s: "read_char (wake (Some 0x1E) kbd_start) = (table_char 0x1E, s')"
    by (rule turn_key [OF kbd_start_facts])
  have a: "table_char 0x1E = CHR ''a''" by (simp add: table_char_def scancode_table_def)
  have v: "console_ok ?v" "typed ?v = ''xxx''" by (simp_all add: console_ok_def typed_def numeral_3_eq_3)
  obtain r where r: "console_turn (Pair UACPI_STATUS_OK) (?v, kbd_push 0x1E kbd_start) = Inr r"
    "map_outcome (\<lambda>(v, s). (typed v, s)) r = edit (Pair UACPI_STATUS_OK) CHR ''a'' (''xxx'', s')"
    "\<forall>v' t i. r = Returned (v', t) \<or> r = Halted (v', t) \<longrightarrow> i < 0 \<or> 128 \<le> i \<longrightarrow> buffer v' i = CHR ''x''"
    using console_turn_refines [OF v(1) s, of "Pair UACPI_STATUS_OK"] by (auto simp: a v(2))
  from r(2) obtain v' t where "r = Returned (v', t)" "typed v' = ''xxxa''"
    by (cases r) (auto simp: edit_def)
  with r(1,3) show ?thesis by auto
qed

text \<open>
  A line typed at the prompt is run.  Whatever is typed, one key per turn, as long as it is at most 127
  ordinary characters, Enter runs exactly the line these keys spell, on the screen that shows it, and the
  console either has stopped the machine or is at its prompt again.
\<close>

theorem console_runs_typed_line:
  assumes "kbd_ok s" "kbd_contents s = []" "console_ok v" "pos v = 0"
    and "\<forall>sc \<in> set scs. ordinary (table_char sc)" "length scs \<le> 127"
  shows "\<exists>v' t. kbd_ok t \<and> kbd_contents t = []
    \<and> same_screen t (put_string (map table_char scs @ [CHR 0x0A]) s)
    \<and> console_loop es (map Some scs @ [Some 0x1C]) (v, s) = Inr (case run_line es (map table_char scs) t of
        Halted u \<Rightarrow> Halted (v', u)
      | Returned u \<Rightarrow> Returned (v', put_string ''>'' (scroll_screen u)))"
proof -
  have e: "typed v = []" using assms(4) by (simp add: typed_def)
  then have l: "length (typed v) + length scs \<le> 127" using assms(6) by simp
  obtain v1 s1 where 1: "\<forall>irqs. console_loop es (map Some scs @ irqs) (v, s) = console_loop es irqs (v1, s1)"
    "console_ok v1" "typed v1 = map table_char scs" "kbd_ok s1" "kbd_contents s1 = []"
    "same_screen s1 (put_string (map table_char scs) s)"
    using ordinary_turns [OF assms(1,2,3,5) l, of es] unfolding e append_Nil by (elim exE conjE) blast
  obtain t where t: "read_char (wake (Some 0x1C) s1) = (CHR 0x0A, t)" "kbd_ok t" "kbd_contents t = []" "same_screen t s1"
    by (rule turn_key [OF 1(4,5), of "0x1C", unfolded table_char_0])
  obtain r where r: "console_turn es (v1, wake (Some 0x1C) s1) = Inr r"
    "map_outcome (\<lambda>(v, s). (typed v, s)) r = edit es CHR 0x0A (typed v1, t)"
    using console_turn_edit [OF 1(2) t(1), of es] by blast
  let ?t = "put_string [CHR 0x0A] t"
  have "\<exists>v'. r = (case run_line es (map table_char scs) ?t of
      Halted u \<Rightarrow> Halted (v', u) | Returned u \<Rightarrow> Returned (v', put_string ''>'' (scroll_screen u)))"
    using r(2) unfolding 1(3) by (cases r) (auto simp: edit_def split: outcome.splits)
  then obtain v' where "r = (case run_line es (map table_char scs) ?t of
      Halted u \<Rightarrow> Halted (v', u) | Returned u \<Rightarrow> Returned (v', put_string ''>'' (scroll_screen u)))" by blast
  moreover have "console_loop es (map Some scs @ [Some 0x1C]) (v, s) = Inr r"
    using 1(1) r(1) by (auto simp: bindE_def split: outcome.splits)
  moreover have "same_screen ?t (put_string (map table_char scs @ [CHR 0x0A]) s)"
    using put_string_same [OF t(4), of "[CHR 0x0A]"] put_string_same [OF 1(6), of "[CHR 0x0A]"]
    by (simp add: same_screen_def)
  moreover have "kbd_ok ?t" "kbd_contents ?t = []" unfolding put_string_ring by (rule t(2), rule t(3))
  ultimately show ?thesis by (intro exI [of _ v'] exI [of _ ?t]) simp
qed

theorem console_runs_typed_line_witness:
  "\<exists>v' t. console_loop (Pair UACPI_STATUS_OK) (map Some [0x23, 0x1E, 0x26, 0x14] @ [Some 0x1C])
     (\<lparr>buffer = (\<lambda>_. CHR ''x''), pos = 0\<rparr>, kbd_start) = Inr (Halted (v', t))"
proof -
  let ?scs = "[0x23, 0x1E, 0x26, 0x14] :: u8 list"
  have l: "map table_char ?scs = ''halt''" by (simp add: table_char_def scancode_table_def)
  then have o: "\<forall>sc \<in> set ?scs. ordinary (table_char sc)" by (simp add: ordinary_def)
  have "console_ok \<lparr>buffer = (\<lambda>_. CHR ''x''), pos = 0\<rparr>" by (simp add: console_ok_def typed_def)
  from console_runs_typed_line [OF kbd_start_facts this _ o, of "Pair UACPI_STATUS_OK"] show ?thesis
    unfolding l by (auto simp: run_line_def)
qed

end
