(* ===== verification/Descriptors.thy ===== *)
theory Descriptors
  imports Keyboard Heap
begin

text \<open>
  The descriptor tables and the interrupt controller: \<open>kernel/gdt/gdt.c\<close>, \<open>kernel/idt/idt.c\<close>,
  \<open>kernel/idt/interrupt.c\<close> and \<open>kernel/pic/pic.c\<close>.  The two tables live in the byte memory of the
  kernel, at addresses the linker chooses, and are written field by field at the offsets of the packed
  structures; what the processor and the two controllers make of them is given by reference
  definitions taken from their manuals.
\<close>

section \<open>State\<close>

record tables = kbd +
  kheap :: heap
  gdt :: u64
  idt :: u64
  gdt_p :: "u16 \<times> u64"
  idt_p :: "u16 \<times> u64"

abbreviation bytes :: "'a tables_scheme \<Rightarrow> u64 \<Rightarrow> u8" where
  "bytes s \<equiv> heap_bytes (kheap s)"

definition set_bytes :: "(u64 \<Rightarrow> u8) \<Rightarrow> 'a tables_scheme \<Rightarrow> 'a tables_scheme" where
  "set_bytes m s = s\<lparr>kheap := (kheap s)\<lparr>heap_bytes := m\<rparr>\<rparr>"

text \<open>An assignment to a field of \<open>n\<close> bytes at an address.\<close>

definition poke :: "nat \<Rightarrow> u64 \<Rightarrow> u64 \<Rightarrow> 'a tables_scheme \<Rightarrow> 'a tables_scheme" where
  "poke n a v s = set_bytes (store n a v (bytes s)) s"

section \<open>gdt.c\<close>

text \<open>
  \<open>struct gdt_entry_struct\<close>: limit_low at 0, base_low at 2, base_middle at 4, access at 5, granularity
  at 6, base_high at 7; eight bytes.
\<close>

definition gdt_set_gate :: "u32 \<Rightarrow> u64 \<Rightarrow> u32 \<Rightarrow> u8 \<Rightarrow> u8 \<Rightarrow> 'a tables_scheme \<Rightarrow> 'a tables_scheme" where
  "gdt_set_gate num base limit access gran s =
     (let e = gdt s + 8 * scast num;
          s = poke 2 (e + 2) (base AND 0xFFFF) s;
          s = poke 1 (e + 4) (drop_bit 16 base AND 0xFF) s;
          s = poke 1 (e + 7) (drop_bit 24 base AND 0xFF) s;
          s = poke 2 e (ucast (limit AND 0xFFFF)) s;
          s = poke 1 (e + 6) (ucast (drop_bit 16 limit AND 0x0F)) s;
          s = poke 1 (e + 6) (load 1 (e + 6) (bytes s) OR ucast (gran AND 0xF0)) s
      in poke 1 (e + 5) (ucast access) s)"

definition gdt_flush :: "'a tables_scheme \<Rightarrow> 'a tables_scheme" where
  "gdt_flush s = emit (LoadGdt (fst (gdt_p s)) (snd (gdt_p s))) s"

definition init_gdt :: "'a tables_scheme \<Rightarrow> 'a tables_scheme" where
  "init_gdt s =
     (let s = s\<lparr>gdt_p := (8 * 3 - 1, snd (gdt_p s))\<rparr>;
          s = s\<lparr>gdt_p := (fst (gdt_p s), gdt s)\<rparr>;
          s = gdt_set_gate 0 0 0 0 0 s;
          s = gdt_set_gate 1 0 0 0x9A 0xA0 s;
          s = gdt_set_gate 2 0 0xFFFFFFFF 0x92 0xCF s
      in gdt_flush s)"

section \<open>idt.c\<close>

text \<open>
  \<open>struct idt_entry_struct\<close>: offset_low at 0, sel at 2, ist at 4, flags at 5, offset_middle at 6,
  offset_high at 8, reserved at 12; sixteen bytes.
\<close>

definition idt_set_gate :: "u8 \<Rightarrow> u64 \<Rightarrow> u16 \<Rightarrow> u8 \<Rightarrow> 'a tables_scheme \<Rightarrow> 'a tables_scheme" where
  "idt_set_gate num offset sel flags s =
     (let e = idt s + 16 * ucast num;
          s = poke 2 e (offset AND 0xFFFF) s;
          s = poke 2 (e + 6) (drop_bit 16 offset AND 0xFFFF) s;
          s = poke 4 (e + 8) (drop_bit 32 offset) s;
          s = poke 2 (e + 2) (ucast sel) s;
          s = poke 1 (e + 4) 0 s;
          s = poke 1 (e + 5) (ucast flags) s
      in poke 4 (e + 12) 0 s)"

definition idt_flush :: "'a tables_scheme \<Rightarrow> 'a tables_scheme" where
  "idt_flush s = emit (LoadIdt (fst (idt_p s)) (snd (idt_p s))) s"

text \<open>\<open>isr0\<close>, \<open>isr1\<close> and \<open>isr14\<close> are the addresses of the stubs of \<open>interrupt.S\<close>.\<close>

definition init_idt :: "u64 \<Rightarrow> u64 \<Rightarrow> u64 \<Rightarrow> 'a tables_scheme \<Rightarrow> 'a tables_scheme" where
  "init_idt isr0 isr1 isr14 s =
     (let s = s\<lparr>idt_p := (16 * 256 - 1, snd (idt_p s))\<rparr>;
          s = s\<lparr>idt_p := (fst (idt_p s), idt s)\<rparr>;
          s = set_bytes (memset (idt s) 0 (16 * 256) (bytes s)) s;
          s = idt_set_gate 14 isr14 0x08 0x8E s;
          s = idt_set_gate 32 isr0 0x08 0x8E s;
          s = idt_set_gate 33 isr1 0x08 0x8E s
      in idt_flush s)"

section \<open>pic.c\<close>

definition PIC1_COMMAND :: u16 where "PIC1_COMMAND = 0x20"
definition PIC1_DATA :: u16 where "PIC1_DATA = PIC1_COMMAND + 1"
definition PIC2_COMMAND :: u16 where "PIC2_COMMAND = 0xA0"
definition PIC2_DATA :: u16 where "PIC2_DATA = PIC2_COMMAND + 1"
definition ICW1_ICW4 :: u8 where "ICW1_ICW4 = 0x01"
definition ICW1_INIT :: u8 where "ICW1_INIT = 0x10"

definition pic_remap :: "u32 \<Rightarrow> u32 \<Rightarrow> 'a hw_scheme \<Rightarrow> 'a hw_scheme" where
  "pic_remap offset1 offset2 s =
     (let s = outb PIC1_COMMAND (ICW1_INIT OR ICW1_ICW4) s;
          s = io_wait s;
          s = outb PIC2_COMMAND (ICW1_INIT OR ICW1_ICW4) s;
          s = io_wait s;
          s = outb PIC1_DATA (ucast offset1) s;
          s = io_wait s;
          s = outb PIC2_DATA (ucast offset2) s;
          s = io_wait s;
          s = outb PIC1_DATA 4 s;
          s = io_wait s;
          s = outb PIC2_DATA 2 s;
          s = io_wait s;
          s = outb PIC1_DATA 0x01 s;
          s = io_wait s;
          s = outb PIC2_DATA 0x01 s;
          s = io_wait s;
          s = outb PIC1_DATA 0x0 s
      in outb PIC2_DATA 0x0 s)"

section \<open>interrupt.c\<close>

text \<open>The frame \<open>isr_common_stub\<close> leaves on the stack.\<close>

record regs =
  rax :: u64
  rbx :: u64
  rcx :: u64
  rdx :: u64
  rbp :: u64
  rdi :: u64
  rsi :: u64
  r8 :: u64
  r9 :: u64
  r10 :: u64
  r11 :: u64
  r12 :: u64
  r13 :: u64
  r14 :: u64
  r15 :: u64
  int_no :: u64
  err_code :: u64
  rip :: u64
  cs :: u64
  rflags :: u64
  rsp :: u64
  ss :: u64

definition isr_handler :: "regs \<Rightarrow> 'a kbd_scheme \<Rightarrow> printf_fault + 'a kbd_scheme outcome" where
  "isr_handler r s =
     (case (if int_no r = 14 then vmm_page_fault_handler s else Inr (Returned s)) of
        Inl e \<Rightarrow> Inl e
      | Inr (Halted s) \<Rightarrow> Inr (Halted s)
      | Inr (Returned s) \<Rightarrow>
          (let s =
             (if int_no r = 33
              then (let (scancode, s) = inb 0x60 s in
                    if scancode AND 0x80 = 0 then kbd_push scancode s else s)
              else s)
           in Inr (Returned
             (if int_no r \<ge> 32
              then outb 0x20 0x20 (if int_no r \<ge> 40 then outb 0xA0 0x20 s else s)
              else s))))"

section \<open>What the processor reads\<close>

text \<open>
  An 8-byte segment descriptor and a 16-byte gate at an address, as the processor decodes them.  A
  gate whose present bit is clear is \<open>None\<close>: the vector it belongs to faults.
\<close>

record segment =
  seg_base :: u64
  seg_limit :: u64
  seg_access :: u64
  seg_flags :: u64

definition hw_segment :: "u64 \<Rightarrow> (u64 \<Rightarrow> u8) \<Rightarrow> segment" where
  "hw_segment e m =
     \<lparr>seg_base = load 2 (e + 2) m OR push_bit 16 (load 1 (e + 4) m) OR push_bit 24 (load 1 (e + 7) m),
      seg_limit = load 2 e m OR push_bit 16 (load 1 (e + 6) m AND 0x0F),
      seg_access = load 1 (e + 5) m,
      seg_flags = drop_bit 4 (load 1 (e + 6) m)\<rparr>"

record gate =
  gate_offset :: u64
  gate_sel :: u64
  gate_ist :: u64
  gate_type :: u64

definition hw_gate :: "u64 \<Rightarrow> (u64 \<Rightarrow> u8) \<Rightarrow> gate option" where
  "hw_gate e m =
     (if bit (load 1 (e + 5) m) 7
      then Some \<lparr>gate_offset = load 2 e m OR push_bit 16 (load 2 (e + 6) m) OR push_bit 32 (load 4 (e + 8) m),
        gate_sel = load 2 (e + 2) m, gate_ist = load 1 (e + 4) m AND 7,
        gate_type = load 1 (e + 5) m AND 0x0F\<rparr>
      else None)"

text \<open>
  One 8259 controller: where it is in its initialization sequence (0 when it is not in one), the vector
  base, the cascade word, the mode word and the mask.  A command with bit 4 starts the sequence.
\<close>

record pic =
  icw :: nat
  vector_base :: u8
  cascade :: u8
  mode_word :: u8
  irq_mask :: u8

definition pic_command :: "u8 \<Rightarrow> pic \<Rightarrow> pic" where
  "pic_command v p = (if bit v 4 then p\<lparr>icw := 1, irq_mask := 0\<rparr> else p)"

definition pic_data :: "u8 \<Rightarrow> pic \<Rightarrow> pic" where
  "pic_data v p =
     (if icw p = 1 then p\<lparr>icw := 2, vector_base := v AND 0xF8\<rparr>
      else if icw p = 2 then p\<lparr>icw := 3, cascade := v\<rparr>
      else if icw p = 3 then p\<lparr>icw := 0, mode_word := v\<rparr>
      else p\<lparr>irq_mask := v\<rparr>)"

text \<open>A controller at a command port after the events of a log (newest first).\<close>

fun pic_after :: "u16 \<Rightarrow> pic \<Rightarrow> hw_event list \<Rightarrow> pic" where
  "pic_after port p [] = p"
| "pic_after port p (Out8 q v # l) =
     (if q = port then pic_command v (pic_after port p l)
      else if q = port + 1 then pic_data v (pic_after port p l)
      else pic_after port p l)"
| "pic_after port p (_ # l) = pic_after port p l"

section \<open>Descriptors in memory\<close>

declare load.simps [simp del] store.simps [simp del]

lemma poke_fields [simp]:
  "bytes (poke n a v s) = store n a v (bytes s)" "gdt (poke n a v s) = gdt s" "idt (poke n a v s) = idt s"
  "gdt_p (poke n a v s) = gdt_p s" "idt_p (poke n a v s) = idt_p s" "hw_log (poke n a v s) = hw_log s"
  by (simp_all add: poke_def set_bytes_def)

lemma gdt_set_gate_fields [simp]:
  "gdt (gdt_set_gate n b l a g s) = gdt s" "gdt_p (gdt_set_gate n b l a g s) = gdt_p s"
  "hw_log (gdt_set_gate n b l a g s) = hw_log s"
  by (simp_all add: gdt_set_gate_def Let_def)

lemma idt_set_gate_fields [simp]:
  "idt (idt_set_gate n f sel t s) = idt s" "idt_p (idt_set_gate n f sel t s) = idt_p s"
  "hw_log (idt_set_gate n f sel t s) = hw_log s"
  by (simp_all add: idt_set_gate_def Let_def)

lemma word_masks:
  "(0xFFFF :: u64) = mask 16" "(0xFFFF :: u32) = mask 16" "(0xFF0000 :: u64) = push_bit 16 (mask 8)"
  "(0xFF000000 :: u64) = push_bit 24 (mask 8)" "(0xF0000 :: u64) = push_bit 16 (mask 4)"
  "(0xF :: u64) = mask 4" "(0xF :: u32) = mask 4" "(0xF :: u8) = mask 4" "(0xF0 :: u8) = push_bit 4 (mask 4)"
  "(0xFFFF0000 :: u64) = push_bit 16 (mask 16)"
  by (simp_all add: mask_numeral)

lemma segment_words:
  fixes base :: u64 and limit :: u32 and gran access :: u8
  shows "take_bit 16 base AND 65535 OR push_bit 16 (take_bit 8 (drop_bit 16 base)) AND 16711680 OR
     push_bit 24 (take_bit 8 (drop_bit 24 base)) AND 4278190080 = take_bit 32 base"
    "take_bit 16 (ucast (limit AND 65535) :: u64) OR
     (push_bit 16 (take_bit 8 (ucast (drop_bit 16 limit AND 15))) OR
      push_bit 16 (take_bit 8 (ucast (gran AND 240)))) AND 983040 = ucast (take_bit 20 limit)"
    "drop_bit 4 (take_bit 8 (ucast (drop_bit 16 limit AND 15))) OR
     drop_bit 4 (take_bit 8 (ucast (gran AND 240))) = (ucast (drop_bit 4 gran) :: u64)"
    "take_bit 8 (ucast access :: u64) = ucast access"
  unfolding word_masks
proof -
  show "take_bit 16 base AND mask 16 OR push_bit 16 (take_bit 8 (drop_bit 16 base)) AND push_bit 16 (mask 8) OR
     push_bit 24 (take_bit 8 (drop_bit 24 base)) AND push_bit 24 (mask 8) = take_bit 32 base"
  proof (rule bit_word_eqI)
    fix n show "bit (take_bit 16 base AND mask 16 OR push_bit 16 (take_bit 8 (drop_bit 16 base)) AND push_bit 16 (mask 8) OR
        push_bit 24 (take_bit 8 (drop_bit 24 base)) AND push_bit 24 (mask 8)) n = bit (take_bit 32 base) n"
      by (cases "n < 24") (auto simp: bit_simps)
  qed
qed (rule bit_word_eqI; auto simp: bit_simps dest: bit_imp_le_length)+

lemma gate_words:
  fixes offset :: u64 and sel :: u16 and flags :: u8
  shows "take_bit 16 offset AND 65535 OR push_bit 16 (take_bit 16 (drop_bit 16 offset)) AND 4294901760 OR
       push_bit 32 (take_bit 32 (drop_bit 32 offset)) = offset"
    "take_bit 16 (ucast sel :: u64) = ucast sel"
    "take_bit 8 (ucast flags) AND 15 = (ucast (flags AND 15) :: u64)"
    "bit (take_bit 8 (ucast flags :: u64)) 7 = bit flags 7"
  unfolding word_masks
proof -
  show "take_bit 16 offset AND mask 16 OR push_bit 16 (take_bit 16 (drop_bit 16 offset)) AND push_bit 16 (mask 16) OR
     push_bit 32 (take_bit 32 (drop_bit 32 offset)) = offset"
  proof (rule bit_word_eqI)
    fix n show "bit (take_bit 16 offset AND mask 16 OR push_bit 16 (take_bit 16 (drop_bit 16 offset)) AND push_bit 16 (mask 16) OR
        push_bit 32 (take_bit 32 (drop_bit 32 offset))) n = bit offset n"
      by (cases "n < 32") (auto simp: bit_simps dest: bit_imp_le_length)
  qed
  show "bit (take_bit 8 (ucast flags :: u64)) 7 = bit flags 7" by (simp add: bit_simps)
qed (rule bit_word_eqI; auto simp: bit_simps dest: bit_imp_le_length)+
lemma gdt_gate_decode:
  assumes "room (gdt s + 8 * scast num) 8"
  shows "hw_segment (gdt s + 8 * scast num) (bytes (gdt_set_gate num base limit access gran s))
    = \<lparr>seg_base = take_bit 32 base, seg_limit = ucast (take_bit 20 limit), seg_access = ucast access,
       seg_flags = ucast (drop_bit 4 gran)\<rparr>"
  using assms by (simp add: gdt_set_gate_def hw_segment_def Let_def field_simps' segment_words(1-3))
    (rule segment_words(4))

lemma idt_gate_decode:
  assumes "room (idt s + 16 * ucast num) 16"
  shows "hw_gate (idt s + 16 * ucast num) (bytes (idt_set_gate num offset sel flags s))
    = (if bit flags 7 then Some \<lparr>gate_offset = offset, gate_sel = ucast sel, gate_ist = 0,
         gate_type = ucast (flags AND 0x0F)\<rparr> else None)"
  using assms by (simp add: idt_set_gate_def hw_gate_def Let_def field_simps' gate_words)

lemma gdt_gate_other:
  assumes "apart (gdt s + 8 * scast num) e 8" "room (gdt s + 8 * scast num) 8" "room e 8"
  shows "hw_segment e (bytes (gdt_set_gate num base limit access gran s)) = hw_segment e (bytes s)"
  using assms by (simp add: gdt_set_gate_def hw_segment_def Let_def apart_simps)

lemma idt_gate_other:
  assumes "apart (idt s + 16 * ucast num) e 16" "room (idt s + 16 * ucast num) 16" "room e 16"
  shows "hw_gate e (bytes (idt_set_gate num offset sel flags s)) = hw_gate e (bytes s)"
  using assms by (simp add: idt_set_gate_def hw_gate_def Let_def apart_simps)

text \<open>The places of the 256 gates.\<close>

lemma idt_slots:
  assumes "room b 4096"
  shows "unat (b + 16 * ucast (v :: u8)) = unat b + 16 * unat v" "room (b + 16 * ucast v) 16"
    "v \<noteq> w \<Longrightarrow> apart (b + 16 * ucast v) (b + 16 * ucast w) 16"
proof -
  have u: "unat (b + 16 * ucast v) = unat b + 16 * unat v" for v :: u8
  proof -
    have v: "unat v < 256" using unsigned_less [of v] by simp
    then have "take_bit 64 (unat v) = unat v" by (intro take_bit_nat_eq_self) simp
    then have m: "unat (16 * ucast v :: u64) = 16 * unat v" using v by (simp add: unat_word_ariths unsigned_ucast_eq)
    show ?thesis using field_addr [OF assms, of "16 * ucast v"] v by (simp add: m)
  qed
  show "unat (b + 16 * ucast v) = unat b + 16 * unat v" by (rule u)
  have "unat v < 256" using unsigned_less [of v] by simp
  then show "room (b + 16 * ucast v) 16" using assms by (simp add: room_def u)
  show "apart (b + 16 * ucast v) (b + 16 * ucast w) 16" if "v \<noteq> w"
    using that by (auto simp: apart_def u word_unat_eq_iff)
qed

lemma memset_gate:
  assumes "room b 4096"
  shows "hw_gate (b + 16 * ucast (v :: u8)) (memset b 0 4096 m) = None"
proof -
  have u: "unat (b + 16 * ucast v + 5) = unat b + 16 * unat v + 5"
    using field_addr [OF idt_slots(2) [OF assms], of 5 v] by (simp add: idt_slots(1) [OF assms])
  have v: "unat v < 256" using unsigned_less [of v] by simp
  have "load 1 (of_nat (unat (b + 16 * ucast v + 5))) (memset (of_nat (unat b)) 0 4096 m) = 0"
    by (rule load_memset_0) (use assms v in \<open>simp_all add: u room_def\<close>)
  then show ?thesis by (simp add: hw_gate_def)
qed

lemma bit_and_0x80: "(sc :: u8) AND 0x80 = 0 \<longleftrightarrow> \<not> bit sc 7"
  using and_exp_eq_0_iff_not_bit [of sc 7] by simp

section \<open>Properties\<close>

definition interrupt_gate :: "u64 \<Rightarrow> gate option" where
  "interrupt_gate f = Some \<lparr>gate_offset = f, gate_sel = 8, gate_ist = 0, gate_type = 14\<rparr>"

lemma init_idt_gate:
  fixes s :: "'a tables_scheme" and v :: u8
  assumes "room (idt s) 4096"
  shows "hw_gate (idt s + 16 * ucast v) (bytes (init_idt isr0 isr1 isr14 s)) =
      (if v = 14 then interrupt_gate isr14 else if v = 32 then interrupt_gate isr0
       else if v = 33 then interrupt_gate isr1 else None)"
proof -
  note S = idt_slots [OF assms]
  define t where "t = set_bytes (memset (idt s) 0 4096 (bytes s)) (s\<lparr>idt_p := (4095, idt s)\<rparr>)"
  have t: "idt t = idt s" "bytes t = memset (idt s) 0 4096 (bytes s)" by (simp_all add: t_def set_bytes_def)
  have b: "bytes (init_idt isr0 isr1 isr14 s)
      = bytes (idt_set_gate 33 isr1 8 0x8E (idt_set_gate 32 isr0 8 0x8E (idt_set_gate 14 isr14 8 0x8E t)))"
    by (simp add: init_idt_def idt_flush_def Let_def t_def set_bytes_def emit_def)
  have step: "hw_gate (idt s + 16 * ucast v) (bytes (idt_set_gate n f 8 0x8E u))
      = (if v = n then interrupt_gate f else hw_gate (idt s + 16 * ucast v) (bytes u))"
    if "idt u = idt s" for n :: u8 and f and u :: "'a tables_scheme"
  proof (cases "v = n")
    case True
    then show ?thesis
      using idt_gate_decode [of u n f 8 "0x8E"] S(2) [of n] that by (simp add: interrupt_gate_def)
  next
    case False
    then show ?thesis
      using idt_gate_other [of u n "idt s + 16 * ucast v"] S(2) [of v] S(2) [of n] S(3) [of n v] that by simp
  qed
  show ?thesis
    unfolding b by (simp only: step t idt_set_gate_fields memset_gate [OF assms]) auto
qed

lemma idt_step_fields [simp]: "idt_p (set_bytes m s) = idt_p s" "idt (set_bytes m s) = idt s"
  "hw_log (set_bytes m s) = hw_log s" "bytes (set_bytes m s) = m" "gdt (set_bytes m s) = gdt s"
  by (simp_all add: set_bytes_def)

text \<open>A concrete machine: both tables inside the kernel image at 1 MiB.\<close>

definition tables_start :: tables where
  "tables_start = \<lparr>hw_log = [], port_in = (\<lambda>_ _. 0x1E), tsc_in = (\<lambda>_. 0), cr2_in = (\<lambda>_. 0),
     if_flag = False, vga_buffer = (\<lambda>_. 0), cursor_x = 0, cursor_y = 0,
     bitmap = (\<lambda>_. 0), total_pages = MAX_PAGES, free_pages = 0, mem = (\<lambda>_. 0), initial_pml4 = 0x101000,
     initial_pdpt = 0x102000, initial_pd = 0x103000, paging_enabled = False,
     kbd_buffer = (\<lambda>_. 0), kbd_head = 0, kbd_tail = 0,
     kheap = \<lparr>heap_bytes = (\<lambda>_. 0xAA), memory_pool = 0x200000, free_list = 0, allocator_initialized = False\<rparr>,
     gdt = 0x104000, idt = 0x105000, gdt_p = (0, 0), idt_p = (0, 0)\<rparr>"

lemma tables_start_facts:
  "gdt tables_start = 0x104000" "idt tables_start = 0x105000" "hw_log tables_start = []"
  "room (idt tables_start) 4096" "room (gdt tables_start) 24" "room (gdt tables_start + 8) 8"
  by (simp_all add: tables_start_def room_def)

text \<open>
  After \<open>init_idt\<close> the processor finds an interrupt gate with the kernel's code selector at the vectors
  14, 32 and 33, each with the address of its stub, and no present gate at any other vector; the IDT
  register holds the table's address and its 4095-byte limit.
\<close>

theorem init_idt_gates:
  fixes v :: u8
  assumes "room (idt s) 4096"
  shows "hw_gate (idt s + 16 * ucast v) (bytes (init_idt isr0 isr1 isr14 s)) =
      (if v = 14 then interrupt_gate isr14 else if v = 32 then interrupt_gate isr0
       else if v = 33 then interrupt_gate isr1 else None)
    \<and> hw_log (init_idt isr0 isr1 isr14 s) = LoadIdt 4095 (idt s) # hw_log s"
  unfolding init_idt_gate [OF assms] by (simp add: init_idt_def idt_flush_def Let_def)

theorem init_idt_gates_witness:
  "hw_gate (0x105000 + 16 * 33) (bytes (init_idt 0x1000 0x1010 0x1020 tables_start)) = interrupt_gate 0x1010"
  using init_idt_gates [OF tables_start_facts(4), of 33 "0x1000" "0x1010" "0x1020"] by (simp add: tables_start_facts)

text \<open>
  \<open>gdt_set_gate\<close> encodes what it is given: the processor decodes from the entry the low 32 bits of the
  base, the low 20 bits of the limit, the access byte and the upper half of the granularity byte, for every
  entry of the table, and the other entries keep their meaning.
\<close>

theorem gdt_set_gate_decodes:
  assumes "room (gdt s + 8 * scast num) 8"
  shows "hw_segment (gdt s + 8 * scast num) (bytes (gdt_set_gate num base limit access gran s))
      = \<lparr>seg_base = take_bit 32 base, seg_limit = ucast (take_bit 20 limit), seg_access = ucast access,
         seg_flags = ucast (drop_bit 4 gran)\<rparr>
    \<and> (room e 8 \<longrightarrow> apart (gdt s + 8 * scast num) e 8 \<longrightarrow>
       hw_segment e (bytes (gdt_set_gate num base limit access gran s)) = hw_segment e (bytes s))"
  using gdt_gate_decode [OF assms] gdt_gate_other [OF _ assms] by blast

theorem gdt_set_gate_decodes_witness:
  "seg_limit (hw_segment 0x104008 (bytes (gdt_set_gate 1 0xFF123456 0xABCDE 0x9A 0xA0 tables_start))) = 0xABCDE"
proof -
  have "room (gdt tables_start + 8 * scast (1 :: u32)) 8" using tables_start_facts(6) by simp
  from gdt_set_gate_decodes [OF this, of "0xFF123456" "0xABCDE" "0x9A" "0xA0" 0] show ?thesis
    by (simp add: tables_start_facts)
qed

text \<open>
  \<open>init_gdt\<close> builds the flat long-mode segments: a null descriptor, a ring-0 code segment with the
  long-mode bit, and a ring-0 data segment of 4 GiB, and loads the table with its 23-byte limit.
\<close>

theorem init_gdt_segments:
  fixes s :: "'a tables_scheme"
  assumes "room (gdt s) 24"
  shows "hw_segment (gdt s) (bytes (init_gdt s)) = \<lparr>seg_base = 0, seg_limit = 0, seg_access = 0, seg_flags = 0\<rparr>
    \<and> hw_segment (gdt s + 8) (bytes (init_gdt s)) = \<lparr>seg_base = 0, seg_limit = 0, seg_access = 0x9A, seg_flags = 0xA\<rparr>
    \<and> hw_segment (gdt s + 16) (bytes (init_gdt s)) = \<lparr>seg_base = 0, seg_limit = 0xFFFFF, seg_access = 0x92, seg_flags = 0xC\<rparr>
    \<and> hw_log (init_gdt s) = LoadGdt 23 (gdt s) # hw_log s"
proof -
  let ?t = "s\<lparr>gdt_p := (23, gdt s)\<rparr>"
  have b: "bytes (init_gdt s) = bytes (gdt_set_gate 2 0 0xFFFFFFFF 0x92 0xCF
      (gdt_set_gate 1 0 0 0x9A 0xA0 (gdt_set_gate 0 0 0 0 0 ?t)))"
    by (simp add: init_gdt_def gdt_flush_def Let_def emit_def)
  have u: "unat (gdt s + 8) = unat (gdt s) + 8" "unat (gdt s + 16) = unat (gdt s) + 16"
    using field_addr [OF assms, of 8] field_addr [OF assms, of 16] by simp_all
  have r: "room (gdt s) 8" "room (gdt s + 8) 8" "room (gdt s + 16) 8"
    using assms by (simp_all add: room_def u)
  have a: "apart (gdt s + 8) (gdt s) 8" "apart (gdt s + 16) (gdt s) 8" "apart (gdt s + 16) (gdt s + 8) 8"
    by (simp_all add: apart_def u)
  have own: "hw_segment (gdt s + 8 * scast n) (bytes (gdt_set_gate n base limit access gran t))
      = \<lparr>seg_base = take_bit 32 base, seg_limit = ucast (take_bit 20 limit), seg_access = ucast access,
         seg_flags = ucast (drop_bit 4 gran)\<rparr>"
    if "gdt t = gdt s" "room (gdt s + 8 * scast n) 8" for n base limit access gran and t :: "'a tables_scheme"
    using gdt_gate_decode [of t n] that by simp
  have other: "hw_segment e (bytes (gdt_set_gate n base limit access gran t)) = hw_segment e (bytes t)"
    if "gdt t = gdt s" "apart (gdt s + 8 * scast n) e 8" "room (gdt s + 8 * scast n) 8" "room e 8"
    for n e base limit access gran and t :: "'a tables_scheme"
    using gdt_gate_other [of t n e] that by simp
  have l: "hw_log (init_gdt s) = LoadGdt 23 (gdt s) # hw_log s"
    by (simp add: init_gdt_def gdt_flush_def Let_def)
  note own012 = own [of _ 0, simplified] own [of _ 1, simplified] own [of _ 2, simplified]
    and other12 = other [of _ 1, simplified] other [of _ 2, simplified]
  show ?thesis
    unfolding b l by (simp add: own012 other12 r a)
qed

theorem init_gdt_segments_witness:
  "seg_access (hw_segment 0x104008 (bytes (init_gdt tables_start))) = 0x9A"
  using init_gdt_segments [OF tables_start_facts(5)] by (simp add: tables_start_facts)

text \<open>
  Whatever state the two interrupt controllers are in, \<open>pic_remap\<close> leaves both initialized: the vector
  bases are the two offsets (a controller ignores the low three bits), the slave hangs on line 2 of the
  master, both are in 8086 mode, and every line of both is unmasked.
\<close>

theorem pic_remap_initializes:
  "pic_after 0x20 p (hw_log (pic_remap offset1 offset2 s))
      = \<lparr>icw = 0, vector_base = ucast offset1 AND 0xF8, cascade = 4, mode_word = 1, irq_mask = 0\<rparr>
   \<and> pic_after 0xA0 p (hw_log (pic_remap offset1 offset2 s))
      = \<lparr>icw = 0, vector_base = ucast offset2 AND 0xF8, cascade = 2, mode_word = 1, irq_mask = 0\<rparr>"
  by (simp add: pic_remap_def machine_defs Let_def PIC1_COMMAND_def PIC1_DATA_def PIC2_COMMAND_def
      PIC2_DATA_def ICW1_ICW4_def ICW1_INIT_def pic_command_def pic_data_def)

text \<open>
  With the vectors the kernel chooses, the lines 2 to 15 of the controllers are unmasked but the IDT has
  no present gate for them: only the timer (line 0) and the keyboard (line 1) can be served.
\<close>

theorem unmasked_irq_without_gate:
  fixes line :: u8
  assumes "room (idt s) 4096" "line < 16" "2 \<le> line"
  shows "hw_gate (idt s + 16 * ucast (0x20 + line)) (bytes (init_idt isr0 isr1 isr14 s)) = None
    \<and> irq_mask (pic_after 0x20 p (hw_log (pic_remap 0x20 0x28 (init_idt isr0 isr1 isr14 s)))) = 0
    \<and> irq_mask (pic_after 0xA0 p (hw_log (pic_remap 0x20 0x28 (init_idt isr0 isr1 isr14 s)))) = 0"
proof -
  have u: "unat (0x20 + line) = 32 + unat line" using assms(2) by (simp add: unat_word_ariths word_less_nat_alt)
  have "unat line < 16" "2 \<le> unat line" using assms(2,3) by (simp_all add: word_less_nat_alt word_le_nat_alt)
  then have "0x20 + line \<noteq> 14" "0x20 + line \<noteq> 32" "0x20 + line \<noteq> 33"
    using u by (auto simp: word_unat_eq_iff)
  then show ?thesis
    using init_idt_gate [OF assms(1), of "0x20 + line"] by (simp add: pic_remap_def machine_defs Let_def PIC1_COMMAND_def PIC1_DATA_def PIC2_COMMAND_def
      PIC2_DATA_def ICW1_ICW4_def ICW1_INIT_def pic_command_def pic_data_def)
qed

theorem unmasked_irq_without_gate_witness:
  "hw_gate (0x105000 + 16 * 44) (bytes (init_idt 0x1000 0x1010 0x1020 tables_start)) = None"
  using unmasked_irq_without_gate [OF tables_start_facts(4), of 12 "0x1000" "0x1010" "0x1020"]
  by (simp add: tables_start_facts)

text \<open>
  The handler acknowledges what it must: an exception writes to no controller, an interrupt of the master
  (vectors 32 to 39) sends the end-of-interrupt to the master alone, one of the slave (40 and above) to the
  slave and then to the master.  The keyboard's vector reads one scancode and queues it unless it is a release
  code; no other vector touches the queue.
\<close>

theorem isr_handler_acknowledges:
  assumes "int_no r \<noteq> 14"
  shows "\<exists>t. isr_handler r s = Inr (Returned t)
    \<and> hw_log t = (if int_no r < 32 then [] else if int_no r < 40 then [Out8 0x20 0x20]
          else [Out8 0x20 0x20, Out8 0xA0 0x20])
        @ (if int_no r = 33 then [In8 0x60] else []) @ hw_log s
    \<and> kbd_buffer t = kbd_buffer (if int_no r = 33 \<and> \<not> bit (fst (inb 0x60 s)) 7 then kbd_push (fst (inb 0x60 s)) s else s)
    \<and> kbd_head t = kbd_head (if int_no r = 33 \<and> \<not> bit (fst (inb 0x60 s)) 7 then kbd_push (fst (inb 0x60 s)) s else s)
    \<and> kbd_tail t = kbd_tail s"
  using assms
  by (auto simp: isr_handler_def machine_defs kbd_push_def Let_def bit_and_0x80)

definition timer_frame :: regs where
  "timer_frame = \<lparr>rax = 0, rbx = 0, rcx = 0, rdx = 0, rbp = 0, rdi = 0, rsi = 0, r8 = 0, r9 = 0, r10 = 0,
     r11 = 0, r12 = 0, r13 = 0, r14 = 0, r15 = 0, int_no = 32, err_code = 0, rip = 0x100000, cs = 8,
     rflags = 0x202, rsp = 0x7000, ss = 0x10\<rparr>"

theorem isr_handler_acknowledges_witness:
  "\<exists>t. isr_handler (timer_frame\<lparr>int_no := 33\<rparr>) tables_start = Inr (Returned t)
    \<and> hw_log t = [Out8 0x20 0x20, In8 0x60]"
proof -
  have "int_no (timer_frame\<lparr>int_no := 33\<rparr>) \<noteq> 14" by simp
  from isr_handler_acknowledges [OF this, of tables_start] show ?thesis
    by (auto simp: tables_start_facts)
qed

end
