(* ===== verification/AcpiMap.thy ===== *)
theory AcpiMap
  imports Paging Descriptors
begin

text \<open>
  The mapping window of \<open>kernel/acpi/kernel_apis.c\<close>: 16384 pages of virtual addresses from
  0xFFFF800000000000 on, handed out by a bitmap of slots, with a table of at most 256 mappings.
  \<open>uacpi_kernel_map\<close> and \<open>uacpi_kernel_unmap\<close> put physical memory above the first GiB there
  through \<open>map_page\<close> and \<open>unmap_page\<close>.
\<close>

section \<open>State\<close>

record acpi_mapping =
  virtual_base :: u64
  page_count :: u64

record acpi = tables +
  map_slots :: "u32 \<Rightarrow> u8"
  mappings :: "u32 \<Rightarrow> acpi_mapping"
  start_ticks :: u64

definition ACPI_PAGE_SIZE :: u64 where "ACPI_PAGE_SIZE = 0x1000"
definition ACPI_MAP_WINDOW_BASE :: u64 where "ACPI_MAP_WINDOW_BASE = 0xFFFF800000000000"
definition ACPI_MAP_WINDOW_PAGES :: u32 where "ACPI_MAP_WINDOW_PAGES = 16384"
definition ACPI_MAP_RECORDS :: u32 where "ACPI_MAP_RECORDS = 256"
definition ACPI_PAGE_FLAG_WRITABLE :: u64 where "ACPI_PAGE_FLAG_WRITABLE = 0x002"
definition ACPI_IDENTITY_MAP_LIMIT :: u64 where "ACPI_IDENTITY_MAP_LIMIT = 1024 * 1024 * 1024"
definition UACPI_MAP_FAILED :: u64 where "UACPI_MAP_FAILED = - 1"

lemma ACPI_IDENTITY_MAP_LIMIT_val: "ACPI_IDENTITY_MAP_LIMIT = 0x40000000"
  by (simp add: ACPI_IDENTITY_MAP_LIMIT_def)

lemmas acpi_consts = ACPI_PAGE_SIZE_def ACPI_MAP_WINDOW_BASE_def ACPI_MAP_WINDOW_PAGES_def
  ACPI_MAP_RECORDS_def ACPI_PAGE_FLAG_WRITABLE_def ACPI_IDENTITY_MAP_LIMIT_val UACPI_MAP_FAILED_def

section \<open>Slots\<close>

definition slot_is_used :: "u32 \<Rightarrow> 'a acpi_scheme \<Rightarrow> bool" where
  "slot_is_used slot s = byte_test (map_slots s (slot div 8)) (unat (slot mod 8))"

definition set_slot :: "u32 \<Rightarrow> 'a acpi_scheme \<Rightarrow> 'a acpi_scheme" where
  "set_slot slot s = s\<lparr>map_slots := (map_slots s)
     (slot div 8 := byte_set (map_slots s (slot div 8)) (unat (slot mod 8)))\<rparr>"

definition clear_slot :: "u32 \<Rightarrow> 'a acpi_scheme \<Rightarrow> 'a acpi_scheme" where
  "clear_slot slot s = s\<lparr>map_slots := (map_slots s)
     (slot div 8 := byte_clear (map_slots s (slot div 8)) (unat (slot mod 8)))\<rparr>"

text \<open>
  The result is \<open>*out_start\<close>, or \<open>None\<close> where the code returns 0; no caller passes a null
  \<open>out_start\<close>.
\<close>

definition reserve_slots :: "u32 \<Rightarrow> 'a acpi_scheme \<Rightarrow> (u32 \<times> 'a acpi_scheme) option" where
  "reserve_slots count s =
     (if count = 0 \<or> count > ACPI_MAP_WINDOW_PAGES then None
      else
        (case scan_up 0 (Suc (unat (ACPI_MAP_WINDOW_PAGES - count)))
           (\<lambda>start. scan_up 0 (unat count) (\<lambda>index. slot_is_used (of_nat start + of_nat index) s) = None) of
           Some start \<Rightarrow>
             Some (of_nat start, for_up 0 (unat count) (\<lambda>index. set_slot (of_nat start + of_nat index)) s)
         | None \<Rightarrow> None))"

definition release_slots :: "u32 \<Rightarrow> u32 \<Rightarrow> 'a acpi_scheme \<Rightarrow> 'a acpi_scheme" where
  "release_slots start count s =
     (if start \<ge> ACPI_MAP_WINDOW_PAGES \<or> count > ACPI_MAP_WINDOW_PAGES - start then s
      else for_up 0 (unat count) (\<lambda>index. clear_slot (start + of_nat index)) s)"

section \<open>Records\<close>

text \<open>A pointer into \<open>mappings\<close> is its index, NULL is \<open>None\<close>.\<close>

definition reserve_mapping_record :: "'a acpi_scheme \<Rightarrow> u32 option" where
  "reserve_mapping_record s =
     map_option of_nat (scan_up 0 (unat ACPI_MAP_RECORDS) (\<lambda>index. page_count (mappings s (of_nat index)) = 0))"

definition find_mapping :: "u64 \<Rightarrow> u64 \<Rightarrow> 'a acpi_scheme \<Rightarrow> u32 option" where
  "find_mapping base count s =
     map_option of_nat (scan_up 0 (unat ACPI_MAP_RECORDS) (\<lambda>index.
       virtual_base (mappings s (of_nat index)) = base \<and> page_count (mappings s (of_nat index)) = count))"

definition mapping_was_installed :: "u64 \<Rightarrow> u64 \<Rightarrow> 'a vmm_scheme \<Rightarrow> bool" where
  "mapping_was_installed virtual_address physical_address s =
     (let page_table = get_page_table virtual_address s in
      if page_table = 0 then False
      else
        (let page_index = va_index 12 virtual_address
         in get_entry page_table page_index s AND 0x000FFFFFFFFFF000 = physical_address))"

section \<open>uacpi_kernel_map\<close>

definition window_page :: "u32 \<Rightarrow> u32 \<Rightarrow> u64" where
  "window_page slot_start index = ACPI_MAP_WINDOW_BASE + (ucast slot_start + ucast index) * ACPI_PAGE_SIZE"

text \<open>The rollback, \<open>while (index != 0) { --index; unmap_page(...); }\<close>.\<close>

fun unmap_back :: "u32 \<Rightarrow> nat \<Rightarrow> 'a vmm_scheme \<Rightarrow> 'a vmm_scheme" where
  "unmap_back slot_start 0 s = s"
| "unmap_back slot_start (Suc index) s = unmap_back slot_start index (unmap_page (window_page slot_start (of_nat index)) s)"

text \<open>
  The loop that maps the pages: from \<open>index\<close> on, \<open>n\<close> more pages.  The result tells whether it ran
  to the end or stopped at a page that was not installed, after the rollback.
\<close>

fun map_pages :: "u32 \<Rightarrow> u64 \<Rightarrow> nat \<Rightarrow> nat \<Rightarrow> 'a vmm_scheme \<Rightarrow> bool \<times> 'a vmm_scheme" where
  "map_pages slot_start physical_base index 0 s = (True, s)"
| "map_pages slot_start physical_base index (Suc n) s =
     (let virtual_page = window_page slot_start (of_nat index);
          physical_page = physical_base + of_nat index * ACPI_PAGE_SIZE;
          s = map_page virtual_page physical_page ACPI_PAGE_FLAG_WRITABLE s
      in if \<not> mapping_was_installed virtual_page physical_page s
         then (False, unmap_back slot_start index s)
         else map_pages slot_start physical_base (Suc index) n s)"

definition uacpi_kernel_map :: "u64 \<Rightarrow> u64 \<Rightarrow> 'a acpi_scheme \<Rightarrow> u64 \<times> 'a acpi_scheme" where
  "uacpi_kernel_map physical_address requested_length s =
     (if requested_length = 0 then (UACPI_MAP_FAILED, s)
      else if physical_address < ACPI_IDENTITY_MAP_LIMIT
          \<and> requested_length \<le> ACPI_IDENTITY_MAP_LIMIT - physical_address
      then (physical_address, s)
      else
        (let offset = physical_address AND (ACPI_PAGE_SIZE - 1) in
         if requested_length > NOT 0 - offset then (UACPI_MAP_FAILED, s)
         else
           (let mapped_length = requested_length + offset in
            if mapped_length > NOT 0 - (ACPI_PAGE_SIZE - 1) then (UACPI_MAP_FAILED, s)
            else
              (let mapped_length = (mapped_length + ACPI_PAGE_SIZE - 1) AND NOT (ACPI_PAGE_SIZE - 1);
                   count = mapped_length div ACPI_PAGE_SIZE
               in if count = 0 \<or> count > ucast ACPI_MAP_WINDOW_PAGES then (UACPI_MAP_FAILED, s)
                  else
                    (case reserve_mapping_record s of
                       None \<Rightarrow> (UACPI_MAP_FAILED, s)
                     | Some record \<Rightarrow>
                         (case reserve_slots (ucast count) s of
                            None \<Rightarrow> (UACPI_MAP_FAILED, s)
                          | Some (slot_start, s) \<Rightarrow>
                              (let physical_base = physical_address - offset;
                                   (installed, s) = map_pages slot_start physical_base 0 (unat count) s
                               in if \<not> installed
                                  then (UACPI_MAP_FAILED, release_slots slot_start (ucast count) s)
                                  else
                                    (let r = \<lparr>virtual_base = ACPI_MAP_WINDOW_BASE + ucast slot_start * ACPI_PAGE_SIZE,
                                              page_count = count\<rparr>;
                                         s = s\<lparr>mappings := (mappings s)(record := r)\<rparr>
                                     in (virtual_base r + offset, s)))))))))"

section \<open>uacpi_kernel_unmap\<close>

definition uacpi_kernel_unmap :: "u64 \<Rightarrow> u64 \<Rightarrow> 'a acpi_scheme \<Rightarrow> 'a acpi_scheme" where
  "uacpi_kernel_unmap virtual_address requested_length s =
     (if virtual_address = 0 \<or> virtual_address = UACPI_MAP_FAILED \<or> requested_length = 0 then s
      else
        (let offset = virtual_address AND (ACPI_PAGE_SIZE - 1) in
         if requested_length > NOT 0 - offset then s
         else
           (let mapped_length = requested_length + offset in
            if mapped_length > NOT 0 - (ACPI_PAGE_SIZE - 1) then s
            else
              (let mapped_length = (mapped_length + ACPI_PAGE_SIZE - 1) AND NOT (ACPI_PAGE_SIZE - 1);
                   count = mapped_length div ACPI_PAGE_SIZE;
                   base = virtual_address - offset
               in if base < ACPI_MAP_WINDOW_BASE \<or> count = 0 \<or> count > ucast ACPI_MAP_WINDOW_PAGES
                    \<or> base > ACPI_MAP_WINDOW_BASE + (ucast ACPI_MAP_WINDOW_PAGES - count) * ACPI_PAGE_SIZE
                  then s
                  else
                    (case find_mapping base count s of
                       None \<Rightarrow> s
                     | Some record \<Rightarrow>
                         (let slot_start = (base - ACPI_MAP_WINDOW_BASE) div ACPI_PAGE_SIZE;
                              s = for_up 0 (unat count) (\<lambda>index. unmap_page (base + of_nat index * ACPI_PAGE_SIZE)) s;
                              s = release_slots (ucast slot_start) (ucast count) s
                          in s\<lparr>mappings := (mappings s)(record := \<lparr>virtual_base = 0, page_count = 0\<rparr>)\<rparr>))))))"

section \<open>The slots as an allocation bitmap\<close>

lemma slot_used_bit: "slot_is_used p s = bit (map_slots s (p div 8)) (unat p mod 8)"
  by (simp add: slot_is_used_def byte_test_bit unat_mod_distrib)

lemma same_slot: "p div 8 = q div 8 \<and> unat p mod 8 = unat q mod 8 \<longleftrightarrow> p = (q :: u32)"
proof
  assume a: "p div 8 = q div 8 \<and> unat p mod 8 = unat q mod 8"
  then have "unat (p div 8) = unat (q div 8)" by simp
  then have "unat p div 8 = unat q div 8" by (simp add: unat_div_distrib)
  with a show "p = q" by (metis div_mult_mod_eq word_unat_eq_iff)
qed simp

lemma slot_used_set: "slot_is_used q (set_slot p s) \<longleftrightarrow> q = p \<or> slot_is_used q s"
  using same_slot [of q p]
  by (cases "q div 8 = p div 8") (auto simp: slot_used_bit set_slot_def byte_set_bit unat_mod_distrib)

lemma slot_used_clear: "slot_is_used q (clear_slot p s) \<longleftrightarrow> q \<noteq> p \<and> slot_is_used q s"
  using same_slot [of q p]
  by (cases "q div 8 = p div 8") (auto simp: slot_used_bit clear_slot_def byte_clear_bit unat_mod_distrib)

lemma slot_nat: "p < 16384 \<Longrightarrow> unat (of_nat p :: u32) = p"
  by (simp add: unat_of_nat take_bit_nat_eq_self_iff)

interpretation slots: bit_array
  "\<lambda>p. slot_is_used (of_nat p)" "\<lambda>p. set_slot (of_nat p)" "\<lambda>p. clear_slot (of_nat p)" 16384
proof unfold_locales
  fix p q :: nat and s :: "'a acpi_scheme"
  assume "p < 16384" "q < 16384"
  then have "(of_nat q :: u32) = of_nat p \<longleftrightarrow> q = p" by (metis slot_nat)
  then show "slot_is_used (of_nat q) (set_slot (of_nat p) s) \<longleftrightarrow> q = p \<or> slot_is_used (of_nat q) s"
    and "slot_is_used (of_nat q) (clear_slot (of_nat p) s) \<longleftrightarrow> q \<noteq> p \<and> slot_is_used (of_nat q) s"
    by (simp_all add: slot_used_set slot_used_clear)
qed

definition free_slots :: "'a acpi_scheme \<Rightarrow> nat set" where
  "free_slots s = {p. p < 16384 \<and> \<not> slot_is_used (of_nat p) s}"

lemma free_slots_eq: "free_slots s = slots.free_set s"
  by (simp add: free_slots_def slots.free_set_def)

text \<open>First fit over runs of free slots.\<close>

lemma reserve_slots_spec:
  assumes "0 < n" "n \<le> 16384"
  shows "reserve_slots (of_nat n) s = None \<longleftrightarrow> (\<forall>k. k + n \<le> 16384 \<longrightarrow> \<not> {k..<k + n} \<subseteq> free_slots s)"
    and "reserve_slots (of_nat n) s = Some (st, s') \<Longrightarrow>
      unat st + n \<le> 16384 \<and> {unat st..<unat st + n} \<subseteq> free_slots s
      \<and> free_slots s' = free_slots s - {unat st..<unat st + n}
      \<and> (\<forall>k < unat st. \<not> {k..<k + n} \<subseteq> free_slots s)
      \<and> (\<exists>m. s' = s\<lparr>map_slots := m\<rparr>)"
proof -
  have n: "unat (of_nat n :: u32) = n" using assms(2) by (simp add: unat_of_nat take_bit_nat_eq_self_iff)
  have g: "\<not> ((of_nat n :: u32) = 0 \<or> of_nat n > ACPI_MAP_WINDOW_PAGES)"
    using assms n by (auto simp: ACPI_MAP_WINDOW_PAGES_def word_less_nat_alt word_unat_eq_iff)
  have b: "unat (ACPI_MAP_WINDOW_PAGES - of_nat n) = 16384 - n"
    using assms n by (simp add: ACPI_MAP_WINDOW_PAGES_def unat_sub word_le_nat_alt)
  let ?P = "\<lambda>k. {k..<k + n} \<subseteq> free_slots s"
  have P: "scan_up 0 n (\<lambda>i. slot_is_used (of_nat k + of_nat i) s) = None \<longleftrightarrow> ?P k" if "k + n \<le> 16384" for k
  proof -
    have "(\<forall>i<n. \<not> slot_is_used (of_nat k + of_nat i) s) \<longleftrightarrow> (\<forall>p. k \<le> p \<and> p < k + n \<longrightarrow> \<not> slot_is_used (of_nat p) s)"
    proof safe
      fix p assume a: "\<forall>i<n. \<not> slot_is_used (of_nat k + of_nat i) s" "k \<le> p" "p < k + n" "slot_is_used (of_nat p) s"
      then have "p - k < n" "of_nat k + of_nat (p - k) = (of_nat p :: u32)" by (simp_all flip: of_nat_add)
      with a show False by auto
    next
      fix i assume "\<forall>p. k \<le> p \<and> p < k + n \<longrightarrow> \<not> slot_is_used (of_nat p) s" "i < n" "slot_is_used (of_nat k + of_nat i) s"
      then show False by (metis add_less_cancel_left le_add1 of_nat_add)
    qed
    then show ?thesis using that by (auto simp: scan_up_None free_slots_def)
  qed
  have S: "scan_up 0 (Suc (16384 - n)) (\<lambda>k. scan_up 0 n (\<lambda>i. slot_is_used (of_nat k + of_nat i) s) = None)
      = scan_up 0 (Suc (16384 - n)) ?P"
    by (rule scan_up_cong) (use P assms in auto)
  have R: "reserve_slots (of_nat n) s = (case scan_up 0 (Suc (16384 - n)) ?P of
      Some k \<Rightarrow> Some (of_nat k, for_up 0 n (\<lambda>i. set_slot (of_nat (k + i))) s) | None \<Rightarrow> None)"
    using g by (simp add: reserve_slots_def n b S split: option.split)
  show "reserve_slots (of_nat n) s = None \<longleftrightarrow> (\<forall>k. k + n \<le> 16384 \<longrightarrow> \<not> ?P k)"
    using scan_up_None [of 0 "Suc (16384 - n)" ?P] assms(2)
    unfolding R by (auto simp: less_Suc_eq_le le_diff_conv2 split: option.split)
  assume "reserve_slots (of_nat n) s = Some (st, s')"
  then obtain k where k: "scan_up 0 (Suc (16384 - n)) ?P = Some k" "st = of_nat k"
    "s' = for_up 0 n (\<lambda>i. set_slot (of_nat (k + i))) s"
    unfolding R by (auto split: option.splits)
  have K: "k \<le> 16384 - n" "?P k" "\<forall>j<k. \<not> ?P j" using scan_up_SomeD [OF k(1)] by auto
  have "k + n \<le> 16384" using K(1) assms by simp
  moreover from this assms have "unat st = k" unfolding k(2) by (intro slot_nat) simp
  moreover have "free_slots s' = free_slots s - {k..<k + n}"
    unfolding free_slots_eq k(3) using \<open>k + n \<le> 16384\<close> by (rule slots.free_set_mark_range)
  moreover have "\<exists>m. s' = s\<lparr>map_slots := m\<rparr>"
    unfolding k(3)
    by (rule for_up_preserves [where P = "\<lambda>t. \<exists>m. t = s\<lparr>map_slots := m\<rparr>"])
      (auto simp: set_slot_def intro: exI [of _ "map_slots s"])
  ultimately show "unat st + n \<le> 16384 \<and> {unat st..<unat st + n} \<subseteq> free_slots s
      \<and> free_slots s' = free_slots s - {unat st..<unat st + n}
      \<and> (\<forall>k < unat st. \<not> {k..<k + n} \<subseteq> free_slots s) \<and> (\<exists>m. s' = s\<lparr>map_slots := m\<rparr>)"
    using K by blast
qed

lemma release_slots_spec:
  assumes "unat st + n \<le> 16384" "0 < n"
  shows "free_slots (release_slots st (of_nat n) s) = free_slots s \<union> {unat st..<unat st + n}"
    "\<exists>m. release_slots st (of_nat n) s = s\<lparr>map_slots := m\<rparr>"
proof -
  have n: "unat (of_nat n :: u32) = n" using assms by (simp add: unat_of_nat take_bit_nat_eq_self_iff)
  have st: "st = of_nat (unat st)" by simp
  have le: "st < ACPI_MAP_WINDOW_PAGES" using assms by (simp add: ACPI_MAP_WINDOW_PAGES_def word_less_nat_alt)
  then have "unat (ACPI_MAP_WINDOW_PAGES - st) = 16384 - unat st"
    by (simp add: ACPI_MAP_WINDOW_PAGES_def unat_sub order_less_imp_le)
  then have g: "\<not> (st \<ge> ACPI_MAP_WINDOW_PAGES \<or> of_nat n > ACPI_MAP_WINDOW_PAGES - st)"
    using assms le n by (simp add: word_less_nat_alt not_le not_less word_le_nat_alt)
  have R: "release_slots st (of_nat n) s = for_up 0 n (\<lambda>i. clear_slot (of_nat (unat st + i))) s"
    using g by (simp add: release_slots_def n)
  show "free_slots (release_slots st (of_nat n) s) = free_slots s \<union> {unat st..<unat st + n}"
    unfolding free_slots_eq R using assms(1) by (rule slots.free_set_clear_range)
  show "\<exists>m. release_slots st (of_nat n) s = s\<lparr>map_slots := m\<rparr>"
    unfolding R
    by (rule for_up_preserves [where P = "\<lambda>t. \<exists>m. t = s\<lparr>map_slots := m\<rparr>"])
      (auto simp: clear_slot_def intro: exI [of _ "map_slots s"])
qed

section \<open>Pages of the window\<close>

definition win :: "nat \<Rightarrow> u64" where
  "win k = ACPI_MAP_WINDOW_BASE + of_nat k * ACPI_PAGE_SIZE"

lemma unat_win: "k < 16384 \<Longrightarrow> unat (win k) = 0xFFFF800000000000 + k * 4096"
proof -
  assume k: "k < 16384"
  then have "unat (of_nat k :: u64) = k" by (intro unat_addr) simp
  then have m: "unat (of_nat k * 0x1000 :: u64) = k * 4096" using k by (subst unat_times_nowrap) simp_all
  then show ?thesis using k unfolding win_def acpi_consts by (subst unat_plus_nowrap) simp_all
qed

lemma drop_bit_word_nat: "unat w div 2 ^ n = unat v \<Longrightarrow> drop_bit n w = (v :: u64)"
  by (simp only: word_unat_eq_iff unat_drop_bit_eq) (simp add: drop_bit_eq_div)

lemma win_page: "k < 16384 \<Longrightarrow> drop_bit 12 (win k) = 0xFFFF800000000 + of_nat k"
proof -
  assume k: "k < 16384"
  then have "unat (of_nat k :: u64) = k" by (intro unat_addr) simp
  then have "unat (0xFFFF800000000 + of_nat k :: u64) = 0xFFFF800000000 + k"
    using k by (subst unat_plus_nowrap) simp_all
  then show ?thesis using k by (intro drop_bit_word_nat) (simp add: unat_win)
qed

lemma win_page_inj: "j < 16384 \<Longrightarrow> k < 16384 \<Longrightarrow> drop_bit 12 (win j) = drop_bit 12 (win k) \<longleftrightarrow> j = k"
  unfolding win_page using of_nat_addr_eq [of j k] by simp

lemma win_facts:
  assumes "k < 16384"
  shows "hw_canonical (win k)" "page_aligned_address (win k)" "\<not> in_identity (win k)" "canonical_address (win k)"
proof -
  have "drop_bit 47 (win k) = 0x1FFFF" by (rule drop_bit_word_nat) (use assms in \<open>simp add: unat_win\<close>)
  then show "hw_canonical (win k)" by (simp add: hw_canonical_def)
  then show "canonical_address (win k)" by (rule hw_canonical_canonical)
  show "page_aligned_address (win k)"
  proof -
    have "unat (win k) = 4096 * (0xFFFF800000000 + k)" using assms by (simp add: unat_win)
    then show ?thesis by (simp add: aligned_dvd)
  qed
  have "drop_bit 39 (win k) = 0x1FFFF00" by (rule drop_bit_word_nat) (use assms in \<open>simp add: unat_win\<close>)
  then show "\<not> in_identity (win k)" by (simp add: in_identity_def va_index_def)
qed

lemma window_page_win: "st + i < 2 ^ 32 \<Longrightarrow> window_page (of_nat st) (of_nat i) = win (st + i)"
proof -
  assume a: "st + i < 2 ^ 32"
  have "ucast (of_nat n :: u32) = (of_nat n :: u64)" if "n < 2 ^ 32" for n
  proof -
    have "unat (ucast (of_nat n :: u32) :: u64) = n"
      using that by (simp add: unsigned_ucast_eq unat_of_nat take_bit_nat_eq_self_iff)
    moreover have "unat (of_nat n :: u64) = n" using that by (intro unat_addr) simp
    ultimately show ?thesis by (simp only: word_unat_eq_iff)
  qed
  then show ?thesis using a by (simp add: window_page_def win_def)
qed

section \<open>One page\<close>

lemma map_one:
  assumes inv: "vm_inv s" and k: "k < 16384" and pa: "page_aligned_address pa"
    and s': "s' = map_page (win k) pa ACPI_PAGE_FLAG_WRITABLE s"
  shows "vm_inv s'"
    "mapping_was_installed (win k) pa s' \<Longrightarrow> translate s' =
       (\<lambda>x. if drop_bit 12 x = drop_bit 12 (win k) then Some (pa OR (x AND mask 12)) else translate s x)"
    "\<not> mapping_was_installed (win k) pa s' \<Longrightarrow> translate s' = translate s"
    "mapping_was_installed (win k) pa s' \<Longrightarrow> unat pa < 2 ^ 52"
proof -
  note W = win_facts [OF k]
  have mask: "0x000FFFFFFFFFF000 = PAGE_ADDRESS_MASK" by (simp add: PAGE_ADDRESS_MASK_def)
  have fl: "ACPI_PAGE_FLAG_WRITABLE AND NOT PAGE_FLAG_MASK = 0"
    by (simp add: ACPI_PAGE_FLAG_WRITABLE_def PAGE_FLAG_MASK_def)
  have inst: "mapping_was_installed (win k) pa t \<longleftrightarrow> tbl t (pt_path (win k)) \<noteq> 0
      \<and> get_entry (tbl t (pt_path (win k))) (va_index 12 (win k)) t AND PAGE_ADDRESS_MASK = pa"
    if "vm_inv t" for t
    using get_page_table_tbl [OF that W(4)] by (simp add: mapping_was_installed_def mask Let_def)
  have small: "unat pa < 2 ^ 52" if "mapping_was_installed (win k) pa t" "vm_inv t" for t
  proof -
    have "pa = x AND PAGE_ADDRESS_MASK \<Longrightarrow> unat pa < 2 ^ 52" for x
      by (simp add: unat_address_mask le_less_trans [OF div_times_less_eq_dividend])
    then show ?thesis using that(1) unfolding inst [OF that(2)] by metis
  qed
  note C = map_page_effect [OF inv _ W(1,3) s']
  have all: "vm_inv s' \<and> (mapping_was_installed (win k) pa s' \<longrightarrow> translate s' =
       (\<lambda>x. if drop_bit 12 x = drop_bit 12 (win k) then Some (pa OR (x AND mask 12)) else translate s x))
     \<and> (\<not> mapping_was_installed (win k) pa s' \<longrightarrow> translate s' = translate s)"
  proof (cases "map_guard (win k) pa ACPI_PAGE_FLAG_WRITABLE")
    case True
    note C = C [OF True]
    have e: "pte_value pa ACPI_PAGE_FLAG_WRITABLE AND PAGE_ADDRESS_MASK = pa"
      using pte_value_facts(1) [of pa] True by (simp add: map_guard_def)
    show ?thesis using C(2) unfolding inst [OF C(1)] pte_target_value [OF True] by (auto simp: C(1) e)
  next
    case False
    then have s: "s' = s" using s' by (simp add: map_page_walk)
    have "pa AND NOT PAGE_ADDRESS_MASK \<noteq> 0" using False W pa fl by (simp add: map_guard_def)
    then have "\<not> mapping_was_installed (win k) pa s"
      unfolding inst [OF inv] by (auto simp: and.assoc)
    then show ?thesis using inv by (simp add: s)
  qed
  show "vm_inv s'" and "mapping_was_installed (win k) pa s' \<Longrightarrow> unat pa < 2 ^ 52"
    and "mapping_was_installed (win k) pa s' \<Longrightarrow> translate s' =
       (\<lambda>x. if drop_bit 12 x = drop_bit 12 (win k) then Some (pa OR (x AND mask 12)) else translate s x)"
    and "\<not> mapping_was_installed (win k) pa s' \<Longrightarrow> translate s' = translate s"
    using all small by blast+
qed

section \<open>Runs of pages\<close>

text \<open>The page \<open>x\<close> lies in, counted from the slot \<open>st\<close>.\<close>

definition in_page :: "nat \<Rightarrow> u64 \<Rightarrow> bool" where
  "in_page k x \<longleftrightarrow> drop_bit 12 x = drop_bit 12 (win k)"

lemma in_page_unique: "in_page j x \<Longrightarrow> in_page k x \<Longrightarrow> j < 16384 \<Longrightarrow> k < 16384 \<Longrightarrow> j = k"
  unfolding in_page_def using win_page_inj [of j k] by auto

lemma unmap_one:
  assumes "vm_inv s" "k < 16384"
  shows "vm_inv (unmap_page (win k) s)"
    "translate (unmap_page (win k) s) = (\<lambda>x. if in_page k x then None else translate s x)"
  using unmap_page_effect [OF assms(1) win_facts(1,2,3) refl, OF assms(2,2,2)]
  by (auto simp: in_page_def fun_eq_iff)

lemma unmap_back_effect:
  assumes "vm_inv s" "st + n \<le> 16384"
  shows "vm_inv (unmap_back (of_nat st) n s)"
    "translate (unmap_back (of_nat st) n s) = (\<lambda>x. if \<exists>i<n. in_page (st + i) x then None else translate s x)"
proof -
  have "vm_inv (unmap_back (of_nat st) n s) \<and>
    translate (unmap_back (of_nat st) n s) = (\<lambda>x. if \<exists>i<n. in_page (st + i) x then None else translate s x)"
    using assms
  proof (induction n arbitrary: s)
    case (Suc n)
    have w: "window_page (of_nat st) (of_nat n) = win (st + n)"
      using Suc.prems(2) by (intro window_page_win) simp
    note U = unmap_one [OF Suc.prems(1), of "st + n"]
    have "st + n < 16384" "st + n \<le> 16384" using Suc.prems(2) by simp_all
    then show ?case using Suc.IH [OF U(1)] U(2) by (auto simp: w fun_eq_iff less_Suc_eq)
  qed simp
  then show "vm_inv (unmap_back (of_nat st) n s)"
    "translate (unmap_back (of_nat st) n s) = (\<lambda>x. if \<exists>i<n. in_page (st + i) x then None else translate s x)"
    by simp_all
qed

lemma unmap_run_effect:
  assumes "vm_inv s" "st + n \<le> 16384"
  shows "vm_inv (for_up 0 n (\<lambda>i. unmap_page (win st + of_nat i * ACPI_PAGE_SIZE)) s)"
    "translate (for_up 0 n (\<lambda>i. unmap_page (win st + of_nat i * ACPI_PAGE_SIZE)) s)
      = (\<lambda>x. if \<exists>i<n. in_page (st + i) x then None else translate s x)"
proof -
  let ?I = "\<lambda>n t. vm_inv t \<and> translate t = (\<lambda>x. if \<exists>i<n. in_page (st + i) x then None else translate s x)"
  have "?I n (for_up 0 n (\<lambda>i. unmap_page (win st + of_nat i * ACPI_PAGE_SIZE)) s)"
  proof (rule for_up_invariant [where I = ?I])
    fix i t assume i: "i < n" and I: "?I i t"
    have w: "win st + of_nat i * ACPI_PAGE_SIZE = win (st + i)" by (simp add: win_def algebra_simps)
    have k: "st + i < 16384" using i assms(2) by simp
    show "?I (Suc i) (unmap_page (win st + of_nat i * ACPI_PAGE_SIZE) t)"
      unfolding w using unmap_one [OF conjunct1 [OF I] k] conjunct2 [OF I] by (auto simp: fun_eq_iff less_Suc_eq)
  qed (use assms in simp_all)
  then show "vm_inv (for_up 0 n (\<lambda>i. unmap_page (win st + of_nat i * ACPI_PAGE_SIZE)) s)"
    "translate (for_up 0 n (\<lambda>i. unmap_page (win st + of_nat i * ACPI_PAGE_SIZE)) s)
      = (\<lambda>x. if \<exists>i<n. in_page (st + i) x then None else translate s x)"
    by simp_all
qed

text \<open>What the run of pages from \<open>st\<close> translates to when it maps the frames from \<open>pb\<close> on.\<close>

definition run_target :: "nat \<Rightarrow> u64 \<Rightarrow> nat \<Rightarrow> u64 \<Rightarrow> u64 option" where
  "run_target st pb i x = Some ((pb + of_nat i * 0x1000) OR (x AND mask 12))"

definition run_mapped :: "nat \<Rightarrow> u64 \<Rightarrow> nat \<Rightarrow> nat \<Rightarrow> 'a vmm_scheme \<Rightarrow> 'b vmm_scheme \<Rightarrow> bool" where
  "run_mapped st pb a b s t \<longleftrightarrow>
     (\<forall>i x. a \<le> i \<longrightarrow> i < b \<longrightarrow> in_page (st + i) x \<longrightarrow> translate t x = run_target st pb i x)
     \<and> (\<forall>x. (\<forall>i. a \<le> i \<longrightarrow> i < b \<longrightarrow> \<not> in_page (st + i) x) \<longrightarrow> translate t x = translate s x)
     \<and> (\<forall>i. a \<le> i \<longrightarrow> i < b \<longrightarrow> unat (pb + of_nat i * 0x1000) < 2 ^ 52)"

lemma aligned_step: "page_aligned_address pb \<Longrightarrow> page_aligned_address (pb + of_nat i * 0x1000)"
proof -
  assume a: "page_aligned_address pb"
  have dv: "(4096 :: nat) dvd 2 ^ LENGTH(64)" by simp
  have m: "unat (x + y) mod 4096 = (unat x + unat y) mod 4096" "unat (x * y) mod 4096 = unat x * unat y mod 4096" for x y :: u64
    unfolding unat_word_ariths using mod_mod_cancel [OF dv] by simp_all
  have "unat (of_nat i * 0x1000 :: u64) mod 4096 = 0" unfolding m(2) by simp
  then show ?thesis using a unfolding aligned_iff m(1) by (subst mod_add_eq [symmetric]) simp
qed

lemma map_pages_effect:
  assumes "vm_inv s" "st + (index + n) \<le> 16384" "page_aligned_address pb"
    and "map_pages (of_nat st) pb index n s = (ok, t)"
  shows "vm_inv t \<and> (if ok then run_mapped st pb index (index + n) s t
    else \<exists>m. index \<le> m \<and> m \<le> index + n \<and> translate t = (\<lambda>x. if \<exists>i<m. in_page (st + i) x then None else translate s x))"
  using assms(1,2,4)
proof (induction n arbitrary: index s)
  case 0
  then show ?case by (simp add: run_mapped_def)
next
  case (Suc n)
  let ?k = "st + index" and ?pa = "pb + of_nat index * 0x1000"
  define s1 where "s1 = map_page (win ?k) ?pa ACPI_PAGE_FLAG_WRITABLE s"
  have w: "window_page (of_nat st) (of_nat index) = win ?k"
    using Suc.prems(2) by (intro window_page_win) simp
  have k: "?k < 16384" using Suc.prems(2) by simp
  note M = map_one [OF Suc.prems(1) k aligned_step [OF assms(3)] s1_def]
  have step: "map_pages (of_nat st) pb index (Suc n) s =
      (if mapping_was_installed (win ?k) ?pa s1 then map_pages (of_nat st) pb (Suc index) n s1
       else (False, unmap_back (of_nat st) index s1))"
    by (simp add: w s1_def ACPI_PAGE_SIZE_def)
  show ?case
  proof (cases "mapping_was_installed (win ?k) ?pa s1")
    case True
    note T = M(2) [OF True, folded in_page_def]
    have IH: "vm_inv t \<and> (if ok then run_mapped st pb (Suc index) (Suc index + n) s1 t
        else \<exists>m. Suc index \<le> m \<and> m \<le> Suc index + n \<and> translate t = (\<lambda>x. if \<exists>i<m. in_page (st + i) x then None else translate s1 x))"
      using Suc.prems(2) Suc.prems(3) [unfolded step] True by (intro Suc.IH [OF M(1)]) simp_all
    show ?thesis
    proof (cases ok)
      case ok: True
      then have R: "vm_inv t" "run_mapped st pb (Suc index) (Suc index + n) s1 t" using IH by simp_all
      have one: "translate t x = run_target st pb index x" if "in_page ?k x" for x
      proof -
        have "\<not> in_page (st + i) x" if "Suc index \<le> i" "i < Suc index + n" for i
          using in_page_unique [OF \<open>in_page ?k x\<close>, of "st + i"] that k Suc.prems(2) by auto
        then have "translate t x = translate s1 x" using R(2) by (simp add: run_mapped_def)
        then show ?thesis using that by (simp add: T run_target_def)
      qed
      have rest: "translate t x = translate s x" if "\<forall>i. index \<le> i \<longrightarrow> i < index + Suc n \<longrightarrow> \<not> in_page (st + i) x" for x
      proof -
        have "translate t x = translate s1 x" using R(2) that by (simp add: run_mapped_def)
        then show ?thesis using that by (simp add: T)
      qed
      have "run_mapped st pb index (index + Suc n) s t"
        unfolding run_mapped_def
      proof (intro conjI allI impI)
        fix i x assume i: "index \<le> i" "i < index + Suc n" "in_page (st + i) x"
        show "translate t x = run_target st pb i x"
          using i one R(2) by (cases "i = index") (simp_all add: run_mapped_def)
      next
        fix i assume i: "index \<le> i" "i < index + Suc n"
        show "unat (pb + of_nat i * 0x1000) < 2 ^ 52"
          using i M(4) [OF True] R(2) by (cases "i = index") (simp_all add: run_mapped_def)
      qed (use rest in blast)
      then show ?thesis using ok R(1) by simp
    next
      case fail: False
      then obtain m where m: "vm_inv t" "Suc index \<le> m" "m \<le> Suc index + n"
        "translate t = (\<lambda>x. if \<exists>i<m. in_page (st + i) x then None else translate s1 x)"
        using IH by auto
      have "translate t = (\<lambda>x. if \<exists>i<m. in_page (st + i) x then None else translate s x)"
        using m(2) by (auto simp: m(4) T fun_eq_iff)
      then show ?thesis using fail m(1-3) by (auto intro!: exI [of _ m])
    qed
  next
    case False
    have u: "t = unmap_back (of_nat st) index s1" "\<not> ok" using Suc.prems(3) [unfolded step] False by simp_all
    have "st + index \<le> 16384" using k by simp
    note U = unmap_back_effect [OF M(1) this]
    have "translate t = (\<lambda>x. if \<exists>i<index. in_page (st + i) x then None else translate s x)"
      unfolding u(1) U(2) M(3) [OF False] ..
    then show ?thesis using U(1) u by (auto intro!: exI [of _ index])
  qed
qed

section \<open>Sizes\<close>

text \<open>The number of pages a range of bytes touches, and when the computation of it overflows.\<close>

definition page_span :: "u64 \<Rightarrow> u64 \<Rightarrow> nat" where
  "page_span a len = (unat a mod 4096 + unat len + 4095) div 4096"

definition span_overflows :: "u64 \<Rightarrow> u64 \<Rightarrow> bool" where
  "span_overflows a len \<longleftrightarrow> unat a mod 4096 + unat len + 4095 \<ge> 2 ^ 64"

lemma page_offset: "unat (a AND (ACPI_PAGE_SIZE - 1)) = unat a mod 4096"
proof -
  have "ACPI_PAGE_SIZE - 1 = mask 12" by (simp add: ACPI_PAGE_SIZE_def mask_numeral)
  then show ?thesis by (simp add: unat_and_mask)
qed

lemma not_0_minus: "unat (NOT 0 - x :: u64) = 2 ^ 64 - 1 - unat x"
proof -
  have "unat (NOT 0 :: u64) = 2 ^ 64 - 1" by (simp add: unsigned_minus_1_eq_mask mask_eq_exp_minus_1)
  then show ?thesis by (subst unat_sub) simp_all
qed

lemma span_guards:
  "len > NOT 0 - (a AND (ACPI_PAGE_SIZE - 1)) \<longleftrightarrow> unat a mod 4096 + unat len \<ge> 2 ^ 64"
  "unat a mod 4096 + unat len < 2 ^ 64 \<Longrightarrow>
    len + (a AND (ACPI_PAGE_SIZE - 1)) > NOT 0 - (ACPI_PAGE_SIZE - 1) \<longleftrightarrow> span_overflows a len"
  "\<not> span_overflows a len \<Longrightarrow>
    unat (((len + (a AND (ACPI_PAGE_SIZE - 1)) + ACPI_PAGE_SIZE - 1) AND NOT (ACPI_PAGE_SIZE - 1)) div ACPI_PAGE_SIZE)
      = page_span a len"
proof -
  let ?o = "a AND (ACPI_PAGE_SIZE - 1)"
  have o: "unat a mod 4096 < 4096" by simp
  have pp: "unat x + unat y < 2 ^ 64 \<Longrightarrow> unat (x + y) = unat x + unat y" for x y :: u64
    by (simp add: unat_plus_nowrap)
  have sub: "k \<le> M \<Longrightarrow> M - k < l \<longleftrightarrow> k + l \<ge> Suc M" for k l M :: nat by auto
  have g: "k < 4096 \<Longrightarrow> 2 ^ 64 - 1 - k < l \<longleftrightarrow> k + l \<ge> 2 ^ 64" for k l :: nat
    using sub [of k "2 ^ 64 - 1" l] by simp
  have four: "(4095 :: nat) < 4096" by simp
  have g2: "2 ^ 64 - 1 - 4095 < l \<longleftrightarrow> l + 4095 \<ge> 2 ^ 64" for l :: nat
    using g [OF four, of l] unfolding add.commute [of l 4095] .
  show "len > NOT 0 - ?o \<longleftrightarrow> unat a mod 4096 + unat len \<ge> 2 ^ 64"
    unfolding word_less_nat_alt not_0_minus page_offset using g [OF o] .
  have p: "unat (len + ?o) = unat a mod 4096 + unat len" if "unat a mod 4096 + unat len < 2 ^ 64"
    using pp [of len ?o] that unfolding page_offset add.commute [of "unat len"] by simp
  have c: "unat (ACPI_PAGE_SIZE - 1) = 4095" by (simp add: ACPI_PAGE_SIZE_def)
  show "len + ?o > NOT 0 - (ACPI_PAGE_SIZE - 1) \<longleftrightarrow> span_overflows a len"
    if "unat a mod 4096 + unat len < 2 ^ 64"
    unfolding word_less_nat_alt not_0_minus p [OF that] c span_overflows_def
    by (rule g2)
  assume n: "\<not> span_overflows a len"
  have s: "unat a mod 4096 + unat len < 2 ^ 64" "unat a mod 4096 + unat len + 4095 < 2 ^ 64"
    using n unfolding span_overflows_def not_le by simp_all
  have q: "unat (len + ?o + ACPI_PAGE_SIZE - 1) = unat a mod 4096 + unat len + 4095"
  proof -
    have "len + ?o + ACPI_PAGE_SIZE - 1 = (len + ?o) + (ACPI_PAGE_SIZE - 1)" by simp
    also have "unat \<dots> = unat (len + ?o) + unat (ACPI_PAGE_SIZE - 1)"
      by (rule pp) (unfold p [OF s(1)] c, rule s(2))
    finally show ?thesis unfolding p [OF s(1)] c .
  qed
  have m: "ACPI_PAGE_SIZE - 1 = mask 12" by (simp add: ACPI_PAGE_SIZE_def mask_numeral)
  have "unat ((len + ?o + ACPI_PAGE_SIZE - 1) AND NOT (ACPI_PAGE_SIZE - 1))
      = (unat a mod 4096 + unat len + 4095) div 4096 * 4096"
    using unat_and_not_mask [of "len + ?o + ACPI_PAGE_SIZE - 1" 12] unfolding q by (simp only: m) simp
  then show "unat (((len + ?o + ACPI_PAGE_SIZE - 1) AND NOT (ACPI_PAGE_SIZE - 1)) div ACPI_PAGE_SIZE) = page_span a len"
    unfolding unat_div page_span_def by (simp add: ACPI_PAGE_SIZE_def)
qed

definition in_gib :: "u64 \<Rightarrow> u64 \<Rightarrow> bool" where
  "in_gib a len \<longleftrightarrow> unat a + unat len \<le> 0x40000000 \<and> unat a < 0x40000000"

lemma in_gib_guard: "(a < ACPI_IDENTITY_MAP_LIMIT \<and> len \<le> ACPI_IDENTITY_MAP_LIMIT - a) \<longleftrightarrow> in_gib a len"
proof -
  have "unat (ACPI_IDENTITY_MAP_LIMIT - a) = 0x40000000 - unat a" if "unat a < 0x40000000"
    using that by (subst unat_sub) (simp_all add: ACPI_IDENTITY_MAP_LIMIT_val word_le_nat_alt)
  then show ?thesis
    by (auto simp: in_gib_def word_less_nat_alt word_le_nat_alt ACPI_IDENTITY_MAP_LIMIT_val)
qed

lemma page_span_pos: "len \<noteq> 0 \<Longrightarrow> 0 < page_span a len"
proof -
  assume "len \<noteq> 0"
  then have "0 < unat len" by (simp add: unat_gt_0)
  then show ?thesis by (simp add: page_span_def div_greater_zero_iff)
qed

lemma map_unfold:
  "uacpi_kernel_map a len s =
     (if len = 0 then (UACPI_MAP_FAILED, s)
      else if in_gib a len then (a, s)
      else if span_overflows a len \<or> page_span a len > 16384 then (UACPI_MAP_FAILED, s)
      else
        (case reserve_mapping_record s of
           None \<Rightarrow> (UACPI_MAP_FAILED, s)
         | Some record \<Rightarrow>
             (case reserve_slots (of_nat (page_span a len)) s of
                None \<Rightarrow> (UACPI_MAP_FAILED, s)
              | Some (st, s) \<Rightarrow>
                  (let (ok, s) = map_pages st (a - (a AND (ACPI_PAGE_SIZE - 1))) 0 (page_span a len) s
                   in if \<not> ok then (UACPI_MAP_FAILED, release_slots st (of_nat (page_span a len)) s)
                      else (win (unat st) + (a AND (ACPI_PAGE_SIZE - 1)),
                        s\<lparr>mappings := (mappings s)(record := \<lparr>virtual_base = win (unat st),
                          page_count = of_nat (page_span a len)\<rparr>)\<rparr>)))))"
proof (cases "len = 0 \<or> in_gib a len \<or> span_overflows a len")
  case True
  then show ?thesis
    using span_guards(1,2) [of a len] unfolding uacpi_kernel_map_def in_gib_guard
    by (auto simp: Let_def span_overflows_def)
next
  case False
  let ?c = "((len + (a AND (ACPI_PAGE_SIZE - 1)) + ACPI_PAGE_SIZE - 1) AND NOT (ACPI_PAGE_SIZE - 1)) div ACPI_PAGE_SIZE"
  have n: "\<not> span_overflows a len" "unat a mod 4096 + unat len < 2 ^ 64"
    using False by (auto simp: span_overflows_def)
  have w: "x = of_nat (unat x)" for x :: u64 by simp
  have c: "unat ?c = page_span a len" using span_guards(3) [OF n(1)] .
  then have cw: "?c = of_nat (page_span a len)" using w [of ?c] by simp
  have u: "\<not> len > NOT 0 - (a AND (ACPI_PAGE_SIZE - 1))"
    "\<not> len + (a AND (ACPI_PAGE_SIZE - 1)) > NOT 0 - (ACPI_PAGE_SIZE - 1)"
    using span_guards(1,2) [of a len] n by simp_all
  have z: "?c \<noteq> 0" using c page_span_pos [of len a] False by (metis unat_0 less_irrefl)
  have b: "?c > ucast ACPI_MAP_WINDOW_PAGES \<longleftrightarrow> page_span a len > 16384"
    unfolding word_less_nat_alt c by (simp add: ACPI_MAP_WINDOW_PAGES_def)
  have k: "ucast ?c = (of_nat (page_span a len) :: u32)" if "page_span a len \<le> 16384"
    using that unfolding word_unat_eq_iff unsigned_ucast_eq c by (simp add: unat_of_nat take_bit_nat_eq_self_iff)
  have v: "ACPI_MAP_WINDOW_BASE + ucast st * ACPI_PAGE_SIZE = win (unat st)" for st :: u32
    by (simp add: win_def)
  show ?thesis
    unfolding uacpi_kernel_map_def in_gib_guard
    using False n(1) u z b k c by (simp add: Let_def cw v split: option.split prod.split)
qed

end
