(* ===== verification/AcpiWindow.thy ===== *)
theory AcpiWindow
  imports AcpiMap
begin

text \<open>
  The contract of the mapping window: every slot is free or owned by one record and mapped, both calls
  keep that, a successful \<open>uacpi_kernel_map\<close> makes every byte of the range readable at the address it
  returns, a failed one undoes what it did, and \<open>uacpi_kernel_unmap\<close> gives everything back.
\<close>

section \<open>Mapping pages changes nothing else\<close>

lemma allocate_table_more [simp]: "vmm.more (snd (allocate_table s)) = vmm.more s"
proof -
  have z: "vmm.more (zero_page t s) = vmm.more s" for t and s :: "'a vmm_scheme"
    unfolding zero_page_def by (rule for_up_frame) (simp add: set_entry_def)
  have f: "vmm.more (pmm_free_page a s) = vmm.more s" for a and s :: "'a vmm_scheme"
    by (simp add: pmm_free_page_def clear_page_def Let_def)
  have a: "vmm.more (snd (pmm_alloc_page_low s)) = vmm.more s"
    by (simp add: pmm_alloc_page_low_def set_page_def Let_def split: option.split)
  then show ?thesis by (auto simp: allocate_table_def Let_def z f split: prod.split)
qed

lemma next_table_more [simp]: "vmm.more (snd (next_table t i s)) = vmm.more s"
  by (simp add: next_table_def Let_def set_entry_def case_prod_beta)

lemma walk_tables_more [simp]: "vmm.more (snd (walk_tables i4 i3 i2 s)) = vmm.more s"
  by (simp add: walk_tables_def Let_def case_prod_beta)

lemma map_page_more [simp]: "vmm.more (map_page va pa f s) = vmm.more s"
  by (simp add: map_page_walk Let_def case_prod_beta set_entry_def emit_def)

lemma unmap_page_more [simp]: "vmm.more (unmap_page va s) = vmm.more s"
  by (simp add: unmap_page_def flush_tlb_page_def set_entry_def emit_def Let_def)

lemma unmap_back_more [simp]: "vmm.more (unmap_back st n s) = vmm.more s"
  by (induction n arbitrary: s) simp_all

lemma map_pages_more [simp]: "vmm.more (snd (map_pages st pb i n s)) = vmm.more s"
  by (induction n arbitrary: i s) (simp_all add: Let_def)

lemma more_fields:
  assumes "vmm.more t = vmm.more s"
  shows "map_slots t = map_slots s" "mappings t = mappings s" "free_slots t = free_slots s"
    "kheap t = kheap s" "reserve_mapping_record t = reserve_mapping_record s"
proof -
  show 1: "map_slots t = map_slots s" "mappings t = mappings s" "kheap t = kheap s"
    using assms by (cases s; cases t; simp)+
  then show "free_slots t = free_slots s" "reserve_mapping_record t = reserve_mapping_record s"
    by (simp_all add: free_slots_def slot_is_used_def reserve_mapping_record_def)
qed

section \<open>The window's invariant\<close>

text \<open>
  The slots a record stands for; every slot is free or owned by exactly one record, and a page of the window
  is mapped exactly when its slot is not free.
\<close>

definition record_run :: "acpi_mapping \<Rightarrow> nat \<Rightarrow> bool" where
  "record_run r st \<longleftrightarrow> 0 < unat (page_count r) \<and> virtual_base r = win st \<and> st + unat (page_count r) \<le> 16384"

definition owned :: "acpi_mapping \<Rightarrow> nat set" where
  "owned r = {k. \<exists>st. record_run r st \<and> st \<le> k \<and> k < st + unat (page_count r)}"

definition acpi_inv :: "'a acpi_scheme \<Rightarrow> bool" where
  "acpi_inv s \<longleftrightarrow> vm_inv s
     \<and> (\<forall>k x. k < 16384 \<longrightarrow> in_page k x \<longrightarrow> (translate s x = None \<longleftrightarrow> k \<in> free_slots s))
     \<and> (\<forall>i<256. page_count (mappings s (of_nat i)) = 0 \<or> (\<exists>st. record_run (mappings s (of_nat i)) st))
     \<and> (\<forall>i<256. \<forall>j<256. i \<noteq> j \<longrightarrow> owned (mappings s (of_nat i)) \<inter> owned (mappings s (of_nat j)) = {})
     \<and> (\<forall>k<16384. k \<notin> free_slots s \<longleftrightarrow> (\<exists>i<256. k \<in> owned (mappings s (of_nat i))))"

lemma record_run_unique: "record_run r a \<Longrightarrow> record_run r b \<Longrightarrow> a = b"
proof -
  assume ab: "record_run r a" "record_run r b"
  then have "a < 16384" "b < 16384" "win a = win b" by (auto simp: record_run_def)
  then show ?thesis using win_page_inj [of a b] by simp
qed

lemma owned_run: "record_run r st \<Longrightarrow> owned r = {st..<st + unat (page_count r)}"
proof -
  assume r: "record_run r st"
  then have "(\<exists>st'. record_run r st' \<and> st' \<le> k \<and> k < st' + unat (page_count r))
      \<longleftrightarrow> st \<le> k \<and> k < st + unat (page_count r)" for k
    by (metis record_run_unique)
  then show ?thesis by (simp add: owned_def set_eq_iff)
qed

lemma owned_0: "page_count r = 0 \<Longrightarrow> owned r = {}"
  by (simp add: owned_def record_run_def)

lemma owned_bound: "k \<in> owned r \<Longrightarrow> k < 16384"
  unfolding owned_def record_run_def by (elim CollectE exE conjE) (rule less_le_trans)

lemma reserve_record:
  assumes "reserve_mapping_record s = Some r"
  obtains i where "i < 256" "r = of_nat i" "page_count (mappings s (of_nat i)) = 0"
proof -
  obtain i where i: "scan_up 0 256 (\<lambda>index. page_count (mappings s (of_nat index)) = 0) = Some i" "r = of_nat i"
    using assms by (auto simp: reserve_mapping_record_def ACPI_MAP_RECORDS_def)
  then show ?thesis using that [of i] scan_up_SomeD(2,3) [OF i(1)] by simp
qed

lemma record_index: "i < 256 \<Longrightarrow> j < 256 \<Longrightarrow> (of_nat i :: u32) = of_nat j \<longleftrightarrow> i = j"
proof -
  assume "i < 256" "j < 256"
  then have "unat (of_nat i :: u32) = i" "unat (of_nat j :: u32) = j" by (simp_all add: slot_nat)
  then show ?thesis by metis
qed

text \<open>The state of the window does not depend on the bitmap and the records.\<close>

lemma window_cong [simp]:
  "vm_inv (s\<lparr>map_slots := m\<rparr>) = vm_inv s" "vm_inv (s\<lparr>mappings := r\<rparr>) = vm_inv s"
  "translate (s\<lparr>map_slots := m\<rparr>) = translate s" "translate (s\<lparr>mappings := r\<rparr>) = translate s"
  "free_slots (s\<lparr>mappings := r\<rparr>) = free_slots s"
  "reserve_mapping_record (s\<lparr>map_slots := m\<rparr>) = reserve_mapping_record s"
proof -
  show "vm_inv (s\<lparr>map_slots := m\<rparr>) = vm_inv s" "vm_inv (s\<lparr>mappings := r\<rparr>) = vm_inv s"
    by (rule vm_inv_cong; simp)+
  show "translate (s\<lparr>map_slots := m\<rparr>) = translate s" "translate (s\<lparr>mappings := r\<rparr>) = translate s"
    by (rule ext, rule translate_cong; simp)+
qed (simp_all add: free_slots_def slot_is_used_def reserve_mapping_record_def)

section \<open>Every byte of a mapping\<close>

lemma page_base_aligned: "page_aligned_address (a - (a AND (ACPI_PAGE_SIZE - 1)))"
proof -
  have m: "ACPI_PAGE_SIZE - 1 = mask 12" by (simp add: ACPI_PAGE_SIZE_def mask_numeral)
  have "(a AND NOT (mask 12)) AND (a AND mask 12) = 0" by (rule bit_word_eqI) (simp add: bit_simps)
  from disjunctive_add_eq_or [OF this] have "a = (a AND NOT (mask 12)) + (a AND mask 12)"
    by (simp flip: bit.conj_disj_distrib)
  then have "a - (a AND mask 12) = a AND NOT (mask 12)" by (metis add_diff_cancel_right')
  moreover have "(a AND NOT (mask 12)) AND mask 12 = 0" by (rule bit_word_eqI) (simp add: bit_simps)
  ultimately show ?thesis by (simp only: m aligned_mask_iff)
qed

lemma map_byte:
  assumes "st + page_span a len \<le> 16384" "x < unat len"
  defines "i \<equiv> (unat a mod 4096 + x) div 4096" and "p \<equiv> win st + (a AND (ACPI_PAGE_SIZE - 1)) + of_nat x"
  shows "i < page_span a len" "in_page (st + i) p"
    "run_target st (a - (a AND (ACPI_PAGE_SIZE - 1))) i p = Some (a + of_nat x)"
proof -
  let ?o = "unat a mod 4096"
  have d: "?o + x = i * 4096 + (?o + x) mod 4096" by (simp add: i_def)
  have "?o + x < ?o + unat len" using assms(2) by simp
  then show i: "i < page_span a len" unfolding i_def page_span_def by linarith
  have k: "st + i < 16384" using i assms(1) by simp
  have off: "(a AND (ACPI_PAGE_SIZE - 1)) + of_nat x = of_nat (?o + x)"
  proof -
    have "a AND (ACPI_PAGE_SIZE - 1) = of_nat (unat (a AND (ACPI_PAGE_SIZE - 1)))" by simp
    then show ?thesis unfolding page_offset by simp
  qed
  define r where "r = (?o + x) mod 4096"
  have r: "r < 4096" by (simp add: r_def)
  have p: "p = win (st + i) + of_nat r"
    unfolding p_def add.assoc off by (subst d) (simp add: win_def r_def ACPI_PAGE_SIZE_def algebra_simps)
  have ur: "unat (of_nat r :: u64) = r" using r by (intro unat_addr) simp
  have up: "unat p = unat (win (st + i)) + r"
    unfolding p using unat_win [OF k] k r by (subst unat_plus_nowrap) (simp_all add: ur)
  have wn: "unat (win (st + i)) = 4096 * (0xFFFF800000000 + (st + i))" by (simp add: unat_win [OF k])
  have q: "r < 4096 \<Longrightarrow> (4096 * K + r) div 4096 = K" for r K :: nat by simp
  have q': "r < 4096 \<Longrightarrow> (4096 * K + r) mod 4096 = r" for r K :: nat by simp
  have t: "(2 :: nat) ^ 12 = 4096" by simp
  show "in_page (st + i) p"
  proof -
    have "unat p div 2 ^ 12 = unat (drop_bit 12 (win (st + i)))"
      unfolding unat_drop_bit_eq unfolding drop_bit_eq_div up wn t q [OF r] by simp
    then show ?thesis unfolding in_page_def by (rule drop_bit_word_nat)
  qed
  have m: "p AND mask 12 = of_nat r"
  proof -
    have "unat (p AND mask 12) = r" unfolding unat_and_mask up wn t by (rule q' [OF r])
    then show ?thesis by (metis ur word_unat_eq_iff)
  qed
  let ?pb = "a - (a AND (ACPI_PAGE_SIZE - 1))"
  have al: "(?pb + of_nat i * 0x1000) AND mask 12 = 0"
    using aligned_step [OF page_base_aligned] aligned_mask_iff by blast
  have "(?pb + of_nat i * 0x1000) AND of_nat r = ((?pb + of_nat i * 0x1000) AND mask 12) AND p"
    unfolding m [symmetric] by (simp only: ac_simps)
  then have "(?pb + of_nat i * 0x1000) AND of_nat r = 0" by (simp only: al) simp
  then have "(?pb + of_nat i * 0x1000) OR of_nat r = ?pb + of_nat i * 0x1000 + of_nat r"
    by (rule disjunctive_add_eq_or [symmetric])
  also have "\<dots> = ?pb + of_nat (i * 4096 + r)" by simp
  also have "i * 4096 + r = ?o + x" using d by (simp add: r_def)
  also have "?pb + of_nat (?o + x) = a + of_nat x" unfolding off [symmetric] by simp
  finally show "run_target st ?pb i p = Some (a + of_nat x)" by (simp add: run_target_def m)
qed

lemma win_not_special:
  assumes "k < 16384"
  shows "win k + (a AND (ACPI_PAGE_SIZE - 1)) \<noteq> UACPI_MAP_FAILED" "win k + (a AND (ACPI_PAGE_SIZE - 1)) \<noteq> 0"
proof -
  have "unat (win k + (a AND (ACPI_PAGE_SIZE - 1))) = 0xFFFF800000000000 + k * 4096 + unat a mod 4096"
    using assms by (subst unat_plus_nowrap) (simp_all add: unat_win page_offset order_less_imp_le
      add_less_le_mono less_le_trans [of _ 4096])
  moreover have "unat UACPI_MAP_FAILED = 2 ^ 64 - 1"
    by (simp add: UACPI_MAP_FAILED_def unsigned_minus_1_eq_mask mask_eq_exp_minus_1)
  moreover have "unat a mod 4096 < 4096" by simp
  ultimately show "win k + (a AND (ACPI_PAGE_SIZE - 1)) \<noteq> UACPI_MAP_FAILED"
    "win k + (a AND (ACPI_PAGE_SIZE - 1)) \<noteq> 0"
    using assms by (auto simp: word_unat_eq_iff)
qed

section \<open>What uacpi_kernel_map does\<close>

text \<open>The two outcomes for a range that is not in the identity map.\<close>

definition map_failed :: "'a acpi_scheme \<Rightarrow> 'a acpi_scheme \<Rightarrow> bool" where
  "map_failed s t \<longleftrightarrow> translate t = translate s \<and> free_slots t = free_slots s \<and> mappings t = mappings s"

definition map_done :: "u64 \<Rightarrow> u64 \<Rightarrow> 'a acpi_scheme \<Rightarrow> u64 \<Rightarrow> 'a acpi_scheme \<Rightarrow> nat \<Rightarrow> nat \<Rightarrow> bool" where
  "map_done a len s p t st i \<longleftrightarrow>
     i < 256 \<and> page_count (mappings s (of_nat i)) = 0 \<and> 0 < page_span a len \<and> st + page_span a len \<le> 16384
     \<and> {st..<st + page_span a len} \<subseteq> free_slots s
     \<and> free_slots t = free_slots s - {st..<st + page_span a len}
     \<and> mappings t = (mappings s)(of_nat i := \<lparr>virtual_base = win st, page_count = of_nat (page_span a len)\<rparr>)
     \<and> p = win st + (a AND (ACPI_PAGE_SIZE - 1))
     \<and> run_mapped st (a - (a AND (ACPI_PAGE_SIZE - 1))) 0 (page_span a len) s t"

lemma map_cases:
  assumes inv: "vm_inv s" "\<forall>k x. k \<in> free_slots s \<longrightarrow> in_page k x \<longrightarrow> translate s x = None"
    and "\<not> in_gib a len" "uacpi_kernel_map a len s = (p, t)"
  shows "vm_inv t \<and> (p = UACPI_MAP_FAILED \<and> map_failed s t \<or> (\<exists>st i. map_done a len s p t st i))"
proof (cases "len = 0 \<or> span_overflows a len \<or> page_span a len > 16384 \<or> reserve_mapping_record s = None")
  case True
  then have "p = UACPI_MAP_FAILED" "t = s" using assms(3,4) by (auto simp: map_unfold split: if_splits)
  then show ?thesis using inv by (simp add: map_failed_def)
next
  case False
  let ?n = "page_span a len" and ?pb = "a - (a AND (ACPI_PAGE_SIZE - 1))"
  have n: "0 < ?n" "?n \<le> 16384" using False page_span_pos [of len a] by auto
  obtain r where r: "reserve_mapping_record s = Some r" using False by auto
  obtain i where i: "i < 256" "r = of_nat i" "page_count (mappings s (of_nat i)) = 0"
    by (rule reserve_record [OF r])
  show ?thesis
  proof (cases "reserve_slots (of_nat ?n) s")
    case None
    then have "p = UACPI_MAP_FAILED" "t = s" using False assms(3,4) by (auto simp: map_unfold split: if_splits)
    then show ?thesis using inv by (simp add: map_failed_def)
  next
    case (Some q)
    obtain st s1 where q: "q = (st, s1)" by fastforce
    note R = reserve_slots_spec(2) [OF n Some [unfolded q]]
    obtain m where s1: "s1 = s\<lparr>map_slots := m\<rparr>" using R by blast
    have f1: "free_slots s1 = free_slots s - {unat st..<unat st + ?n}"
      and run: "unat st + ?n \<le> 16384" "{unat st..<unat st + ?n} \<subseteq> free_slots s" using R by blast+
    obtain ok u where u: "map_pages st ?pb 0 ?n s1 = (ok, u)" by fastforce
    have st: "st = of_nat (unat st)" by simp
    have E: "vm_inv u \<and> (if ok then run_mapped (unat st) ?pb 0 (0 + ?n) s1 u
        else \<exists>k. 0 \<le> k \<and> k \<le> 0 + ?n \<and> translate u = (\<lambda>x. if \<exists>i<k. in_page (unat st + i) x then None else translate s1 x))"
      using u run(1) by (intro map_pages_effect [OF _ _ page_base_aligned]) (simp_all add: s1 inv(1) flip: st)
    have ts: "translate s1 = translate s" by (simp add: s1)
    have um: "vmm.more u = vmm.more s1" using map_pages_more [of st ?pb 0 ?n s1] u by simp
    note M = more_fields [OF um]
    show ?thesis
    proof (cases ok)
      case True
      then have pt: "p = win (unat st) + (a AND (ACPI_PAGE_SIZE - 1))"
        "t = u\<lparr>mappings := (mappings u)(r := \<lparr>virtual_base = win (unat st), page_count = of_nat ?n\<rparr>)\<rparr>"
        using False assms(3,4) n u by (simp_all add: map_unfold r Some q split: if_splits)
      have rm: "run_mapped (unat st) ?pb 0 ?n s u"
        using E True by (simp add: run_mapped_def s1)
      have "run_mapped (unat st) ?pb 0 ?n s t"
        using rm unfolding run_mapped_def pt(2) window_cong .
      moreover have "mappings t = (mappings s)(of_nat i := \<lparr>virtual_base = win (unat st), page_count = of_nat ?n\<rparr>)"
        by (simp add: pt(2) M(2) s1 i(2))
      moreover have "free_slots t = free_slots s - {unat st..<unat st + ?n}"
        unfolding pt(2) window_cong M(3) f1 ..
      ultimately have "map_done a len s p t (unat st) i"
        using i n run pt(1) by (simp add: map_done_def)
      moreover have "vm_inv t" using E unfolding pt(2) window_cong by blast
      ultimately show ?thesis by blast
    next
      case fail: False
      then have pt: "p = UACPI_MAP_FAILED" "t = release_slots st (of_nat ?n) u"
        using False assms(3,4) n u by (simp_all add: map_unfold r Some q split: if_splits)
      obtain k where k: "k \<le> ?n" "translate u = (\<lambda>x. if \<exists>i<k. in_page (unat st + i) x then None else translate s x)"
        using E fail unfolding ts by auto
      have none: "translate s x = None" if "i < k" "in_page (unat st + i) x" for i x
        using inv(2) run(2) that k(1) by (meson atLeastLessThan_iff le_add1 add_less_cancel_left less_le_trans subsetD)
      then have tr: "translate u = translate s" unfolding k(2) by (auto simp: fun_eq_iff)
      note L = release_slots_spec [OF run(1) n(1), of u]
      obtain m' where m': "t = u\<lparr>map_slots := m'\<rparr>" using L(2) unfolding pt(2) by blast
      have "free_slots t = free_slots s"
        using L(1) run(2) unfolding pt(2) M(3) f1 by auto
      moreover have "translate t = translate s" unfolding m' window_cong by (rule tr)
      moreover have "mappings t = mappings s" by (simp add: m' M(2) s1)
      moreover have "vm_inv t" using E unfolding m' window_cong by blast
      ultimately show ?thesis using pt(1) by (simp add: map_failed_def)
    qed
  qed
qed

section \<open>Both calls keep the invariant\<close>

lemma acpi_invD:
  assumes "acpi_inv s"
  shows "vm_inv s" "k < 16384 \<Longrightarrow> in_page k x \<Longrightarrow> translate s x = None \<longleftrightarrow> k \<in> free_slots s"
    "i < 256 \<Longrightarrow> page_count (mappings s (of_nat i)) \<noteq> 0 \<Longrightarrow> \<exists>st. record_run (mappings s (of_nat i)) st"
    "i < 256 \<Longrightarrow> j < 256 \<Longrightarrow> i \<noteq> j \<Longrightarrow> owned (mappings s (of_nat i)) \<inter> owned (mappings s (of_nat j)) = {}"
    "k < 16384 \<Longrightarrow> k \<notin> free_slots s \<longleftrightarrow> (\<exists>i<256. k \<in> owned (mappings s (of_nat i)))"
  using assms unfolding acpi_inv_def by blast+

lemma free_slot_bound: "k \<in> free_slots s \<Longrightarrow> k < 16384"
  by (simp add: free_slots_def)

lemma map_done_inv:
  assumes inv: "acpi_inv s" and vm: "vm_inv t" and d: "map_done a len s p t st i"
  shows "acpi_inv t"
proof -
  let ?n = "page_span a len" and ?r = "\<lparr>virtual_base = win st, page_count = of_nat (page_span a len)\<rparr>"
  have D: "i < 256" "page_count (mappings s (of_nat i)) = 0" "0 < ?n" "st + ?n \<le> 16384"
    "{st..<st + ?n} \<subseteq> free_slots s" "free_slots t = free_slots s - {st..<st + ?n}"
    "mappings t = (mappings s)(of_nat i := ?r)"
    "run_mapped st (a - (a AND (ACPI_PAGE_SIZE - 1))) 0 ?n s t"
    using d by (simp_all add: map_done_def)
  have un: "unat (of_nat ?n :: u64) = ?n" using D(4) by (intro unat_addr) simp
  have run: "record_run ?r st" using D(3,4) by (simp add: record_run_def un)
  have own: "owned ?r = {st..<st + ?n}" using owned_run [OF run] by (simp add: un)
  have other: "mappings t (of_nat j) = mappings s (of_nat j)" if "j < 256" "j \<noteq> i" for j
    using that D(1,7) record_index [of j i] by simp
  have self: "mappings t (of_nat i) = ?r" using D(7) by simp
  note I = acpi_invD [OF inv]
  have ot: "owned (mappings t (of_nat j)) = (if j = i then {st..<st + ?n} else owned (mappings s (of_nat j)))" if "j < 256" for j
    using that other self own by simp
  have oi: "owned (mappings s (of_nat i)) = {}" by (rule owned_0 [OF D(2)])
  have used: "owned (mappings s (of_nat j)) \<inter> {st..<st + ?n} = {}" if "j < 256" for j
    using I(5) that D(5) free_slot_bound by blast
  show ?thesis
    unfolding acpi_inv_def
  proof (intro conjI allI impI)
    fix k x assume k: "k < 16384" "in_page k x"
    show "translate t x = None \<longleftrightarrow> k \<in> free_slots t"
    proof (cases "k \<in> {st..<st + ?n}")
      case True
      then have "translate t x = run_target st (a - (a AND (ACPI_PAGE_SIZE - 1))) (k - st) x"
        using D(8) k(2) unfolding run_mapped_def by auto
      then show ?thesis using True D(6) by (simp add: run_target_def)
    next
      case False
      have "\<not> in_page (st + j) x" if "j < ?n" for j
        using in_page_unique [OF k(2), of "st + j"] that k(1) D(4) False by auto
      then have "translate t x = translate s x" using D(8) by (simp add: run_mapped_def)
      then show ?thesis using I(2) [OF k] False D(6) by simp
    qed
  next
    fix j :: nat assume j: "j < 256"
    show "page_count (mappings t (of_nat j)) = 0 \<or> (\<exists>st. record_run (mappings t (of_nat j)) st)"
      using I(3) [OF j] other [OF j] self run by (cases "j = i") auto
  next
    fix j l :: nat assume jl: "j < 256" "l < 256" "j \<noteq> l"
    show "owned (mappings t (of_nat j)) \<inter> owned (mappings t (of_nat l)) = {}"
      using I(4) [OF jl] used [OF jl(1)] used [OF jl(2)] jl unfolding ot [OF jl(1)] ot [OF jl(2)] by auto
  next
    fix k :: nat assume k: "k < 16384"
    have "(\<exists>j<256. k \<in> owned (mappings t (of_nat j)))
        \<longleftrightarrow> (\<exists>j<256. k \<in> owned (mappings s (of_nat j))) \<or> k \<in> {st..<st + ?n}"
      using ot oi D(1) by (metis empty_iff)
    then show "k \<notin> free_slots t \<longleftrightarrow> (\<exists>j<256. k \<in> owned (mappings t (of_nat j)))"
      using I(5) [OF k] unfolding D(6) by blast
  qed (rule vm)
qed

lemma map_failed_inv:
  assumes "acpi_inv s" "vm_inv t" "map_failed s t"
  shows "acpi_inv t"
  using assms unfolding acpi_inv_def map_failed_def by simp

lemma map_inv:
  assumes "acpi_inv s"
  shows "acpi_inv (snd (uacpi_kernel_map a len s))"
proof (cases "in_gib a len")
  case True
  then have "snd (uacpi_kernel_map a len s) = s" by (simp add: map_unfold)
  then show ?thesis using assms by simp
next
  case False
  obtain p t where t: "uacpi_kernel_map a len s = (p, t)" by fastforce
  have "\<forall>k x. k \<in> free_slots s \<longrightarrow> in_page k x \<longrightarrow> translate s x = None"
    using acpi_invD(2) [OF assms] free_slot_bound by blast
  from map_cases [OF acpi_invD(1) [OF assms] this False t] show ?thesis
    using map_failed_inv [OF assms] map_done_inv [OF assms] unfolding t snd_conv by blast
qed

section \<open>What uacpi_kernel_unmap does\<close>

lemma find_record:
  assumes "find_mapping base count s = Some r"
  obtains i where "i < 256" "r = of_nat i" "virtual_base (mappings s (of_nat i)) = base"
    "page_count (mappings s (of_nat i)) = count"
proof -
  obtain i where i: "scan_up 0 256 (\<lambda>index. virtual_base (mappings s (of_nat index)) = base
      \<and> page_count (mappings s (of_nat index)) = count) = Some i" "r = of_nat i"
    using assms by (auto simp: find_mapping_def ACPI_MAP_RECORDS_def)
  then show ?thesis using that [of i] scan_up_SomeD(2,3) [OF i(1)] by simp
qed

definition unmap_done :: "'a acpi_scheme \<Rightarrow> 'a acpi_scheme \<Rightarrow> nat \<Rightarrow> nat \<Rightarrow> nat \<Rightarrow> bool" where
  "unmap_done s t st n i \<longleftrightarrow> i < 256 \<and> record_run (mappings s (of_nat i)) st
     \<and> n = unat (page_count (mappings s (of_nat i)))
     \<and> translate t = (\<lambda>x. if \<exists>k<n. in_page (st + k) x then None else translate s x)
     \<and> free_slots t = free_slots s \<union> {st..<st + n}
     \<and> mappings t = (mappings s)(of_nat i := \<lparr>virtual_base = 0, page_count = 0\<rparr>)"

lemma unmap_run_more [simp]: "vmm.more (for_up 0 n (\<lambda>i. unmap_page (f i)) s) = vmm.more s"
  by (rule for_up_frame) simp

lemma unmap_record:
  assumes inv: "acpi_inv s" and r: "find_mapping base count s = Some r" and c: "count \<noteq> 0"
    and t: "t = (let slot_start = (base - ACPI_MAP_WINDOW_BASE) div ACPI_PAGE_SIZE;
              s = for_up 0 (unat count) (\<lambda>index. unmap_page (base + of_nat index * ACPI_PAGE_SIZE)) s;
              s = release_slots (ucast slot_start) (ucast count) s
          in s\<lparr>mappings := (mappings s)(r := \<lparr>virtual_base = 0, page_count = 0\<rparr>)\<rparr>)"
  obtains st i where "unmap_done s t st (unat count) i" "vm_inv t" "base = win st"
proof -
  obtain i where i: "i < 256" "r = of_nat i" "virtual_base (mappings s (of_nat i)) = base"
    "page_count (mappings s (of_nat i)) = count"
    by (rule find_record [OF r])
  obtain st where st: "record_run (mappings s (of_nat i)) st" using acpi_invD(3) [OF inv i(1)] i(4) c by auto
  have b: "base = win st" "st + unat count \<le> 16384" "0 < unat count" using st i(3,4) by (simp_all add: record_run_def)
  have "st < 16384" using b(2,3) by simp
  then have us: "unat (of_nat st :: u64) = st" "unat (of_nat st :: u32) = st" by (simp_all add: unat_addr slot_nat)
  have "unat (of_nat st * 0x1000 :: u64) = st * 4096"
    using \<open>st < 16384\<close> by (subst unat_times_nowrap) (simp_all add: us)
  then have "unat ((base - ACPI_MAP_WINDOW_BASE) div ACPI_PAGE_SIZE) = st"
    by (simp add: b(1) win_def ACPI_PAGE_SIZE_def unat_div)
  then have sl: "ucast ((base - ACPI_MAP_WINDOW_BASE) div ACPI_PAGE_SIZE) = (of_nat st :: u32)"
    unfolding word_unat_eq_iff unsigned_ucast_eq us using \<open>st < 16384\<close> by (simp add: take_bit_nat_eq_self_iff)
  have ct: "ucast count = (of_nat (unat count) :: u32)" by simp
  define u where "u = for_up 0 (unat count) (\<lambda>index. unmap_page (win st + of_nat index * ACPI_PAGE_SIZE)) s"
  note U = unmap_run_effect [OF acpi_invD(1) [OF inv] b(2), folded u_def]
  have um: "vmm.more u = vmm.more s" by (simp add: u_def)
  note M = more_fields [OF um]
  define v where "v = release_slots (of_nat st) (of_nat (unat count)) u"
  have "unat (of_nat st :: u32) + unat count \<le> 16384" using b(2) us by simp
  note R = release_slots_spec [OF this b(3), of u, folded v_def, unfolded us]
  obtain m where m: "v = u\<lparr>map_slots := m\<rparr>" using R(2) by blast
  have tv: "t = v\<lparr>mappings := (mappings v)(r := \<lparr>virtual_base = 0, page_count = 0\<rparr>)\<rparr>"
    unfolding t Let_def sl ct unfolding b(1) by (simp add: u_def v_def)
  have "translate t = (\<lambda>x. if \<exists>k<unat count. in_page (st + k) x then None else translate s x)"
    unfolding tv window_cong m by (rule U(2))
  moreover have "free_slots t = free_slots s \<union> {st..<st + unat count}"
    unfolding tv window_cong R(1) M(3) ..
  moreover have "mappings t = (mappings s)(of_nat i := \<lparr>virtual_base = 0, page_count = 0\<rparr>)"
    by (simp add: tv m M(2) i(2))
  ultimately have "unmap_done s t st (unat count) i" using i st by (simp add: unmap_done_def)
  moreover have "vm_inv t" unfolding tv window_cong m by (rule U(1))
  ultimately show ?thesis using that b(1) by blast
qed

lemma unmap_cases:
  assumes inv: "acpi_inv s"
  obtains (same) "uacpi_kernel_unmap a len s = s"
  | (removed) st i where "unmap_done s (uacpi_kernel_unmap a len s) st (page_span a len) i"
      "vm_inv (uacpi_kernel_unmap a len s)" "a - (a AND (ACPI_PAGE_SIZE - 1)) = win st"
proof (cases "uacpi_kernel_unmap a len s = s")
  case False
  let ?o = "a AND (ACPI_PAGE_SIZE - 1)"
  let ?c = "((len + ?o + ACPI_PAGE_SIZE - 1) AND NOT (ACPI_PAGE_SIZE - 1)) div ACPI_PAGE_SIZE"
  have g: "len \<noteq> 0" "\<not> len > NOT 0 - ?o" "\<not> len + ?o > NOT 0 - (ACPI_PAGE_SIZE - 1)" "?c \<noteq> 0"
    using False unfolding uacpi_kernel_unmap_def by (auto simp: Let_def)
  have "\<not> span_overflows a len" using span_guards(1,2) [of a len] g(2,3) by simp
  note c = span_guards(3) [OF this]
  obtain r where r: "find_mapping (a - ?o) ?c s = Some r"
    using False unfolding uacpi_kernel_unmap_def by (auto simp: Let_def split: if_splits option.splits)
  have "uacpi_kernel_unmap a len s = (let slot_start = (a - ?o - ACPI_MAP_WINDOW_BASE) div ACPI_PAGE_SIZE;
              s = for_up 0 (unat ?c) (\<lambda>index. unmap_page (a - ?o + of_nat index * ACPI_PAGE_SIZE)) s;
              s = release_slots (ucast slot_start) (ucast ?c) s
          in s\<lparr>mappings := (mappings s)(r := \<lparr>virtual_base = 0, page_count = 0\<rparr>)\<rparr>)"
    using False unfolding uacpi_kernel_unmap_def Let_def r by (simp split: if_splits)
  from unmap_record [OF inv r g(4) this] show ?thesis
    using removed unfolding c by blast
qed (rule same)

lemma unmap_done_inv:
  assumes inv: "acpi_inv s" and vm: "vm_inv t" and d: "unmap_done s t st n i"
  shows "acpi_inv t"
proof -
  let ?z = "\<lparr>virtual_base = 0, page_count = 0\<rparr>"
  have D: "i < 256" "record_run (mappings s (of_nat i)) st" "n = unat (page_count (mappings s (of_nat i)))"
    "translate t = (\<lambda>x. if \<exists>k<n. in_page (st + k) x then None else translate s x)"
    "free_slots t = free_slots s \<union> {st..<st + n}" "mappings t = (mappings s)(of_nat i := ?z)"
    using d by (simp_all add: unmap_done_def)
  have b: "st + n \<le> 16384" using D(2,3) by (simp add: record_run_def)
  note I = acpi_invD [OF inv]
  have own: "owned (mappings s (of_nat i)) = {st..<st + n}" using owned_run [OF D(2)] D(3) by simp
  have other: "mappings t (of_nat j) = mappings s (of_nat j)" if "j < 256" "j \<noteq> i" for j
    using that D(1,6) record_index [of j i] by simp
  have ot: "owned (mappings t (of_nat j)) = (if j = i then {} else owned (mappings s (of_nat j)))" if "j < 256" for j
    using that other D(6) owned_0 [of ?z] by simp
  have dis: "owned (mappings s (of_nat j)) \<inter> {st..<st + n} = {}" if "j < 256" "j \<noteq> i" for j
    using I(4) [OF that(1) D(1) that(2)] own by simp
  show ?thesis
    unfolding acpi_inv_def
  proof (intro conjI allI impI)
    fix k x assume k: "k < 16384" "in_page k x"
    have "(\<exists>j<n. in_page (st + j) x) \<longleftrightarrow> k \<in> {st..<st + n}"
    proof
      assume "\<exists>j<n. in_page (st + j) x"
      then obtain j where j: "j < n" "in_page (st + j) x" by blast
      then have "st + j = k" using in_page_unique [OF j(2) k(2)] k(1) b by simp
      then show "k \<in> {st..<st + n}" using j(1) by auto
    next
      assume "k \<in> {st..<st + n}"
      then show "\<exists>j<n. in_page (st + j) x" using k(2) by (intro exI [of _ "k - st"]) auto
    qed
    then show "translate t x = None \<longleftrightarrow> k \<in> free_slots t" using I(2) [OF k] unfolding D(4,5) by auto
  next
    fix j :: nat assume j: "j < 256"
    show "page_count (mappings t (of_nat j)) = 0 \<or> (\<exists>st. record_run (mappings t (of_nat j)) st)"
      using I(3) [OF j] other [OF j] D(6) by (cases "j = i") auto
  next
    fix j l :: nat assume jl: "j < 256" "l < 256" "j \<noteq> l"
    show "owned (mappings t (of_nat j)) \<inter> owned (mappings t (of_nat l)) = {}"
      using I(4) [OF jl] unfolding ot [OF jl(1)] ot [OF jl(2)] by auto
  next
    fix k :: nat assume k: "k < 16384"
    have "(\<exists>j<256. k \<in> owned (mappings t (of_nat j)))
        \<longleftrightarrow> (\<exists>j<256. k \<in> owned (mappings s (of_nat j))) \<and> k \<notin> {st..<st + n}"
    proof
      assume "\<exists>j<256. k \<in> owned (mappings t (of_nat j))"
      then obtain j where j: "j < 256" "k \<in> owned (mappings t (of_nat j))" by blast
      then have "j \<noteq> i" "k \<in> owned (mappings s (of_nat j))" using ot [OF j(1)] by (auto split: if_splits)
      then show "(\<exists>j<256. k \<in> owned (mappings s (of_nat j))) \<and> k \<notin> {st..<st + n}"
        using dis [OF j(1)] j(1) by blast
    next
      assume "(\<exists>j<256. k \<in> owned (mappings s (of_nat j))) \<and> k \<notin> {st..<st + n}"
      then obtain j where j: "j < 256" "k \<in> owned (mappings s (of_nat j))" "k \<notin> {st..<st + n}" by blast
      then have "j \<noteq> i" using own by blast
      then show "\<exists>j<256. k \<in> owned (mappings t (of_nat j))" using ot [OF j(1)] j by (intro exI [of _ j]) simp
    qed
    then show "k \<notin> free_slots t \<longleftrightarrow> (\<exists>j<256. k \<in> owned (mappings t (of_nat j)))"
      using I(5) [OF k] unfolding D(5) by blast
  qed (rule vm)
qed

lemma unmap_inv:
  assumes "acpi_inv s"
  shows "acpi_inv (uacpi_kernel_unmap a len s)"
  using assms unmap_done_inv [OF assms] by (cases rule: unmap_cases [OF assms, of a len]) simp_all

section \<open>Enough frames\<close>

text \<open>Each page takes at most three new tables, so 3 free frames below 8 MiB per page are enough.\<close>

lemma allocate_table_low:
  fixes s :: "'a vmm_scheme"
  shows "low_frames s \<le> Suc (low_frames (snd (allocate_table s)))"
proof -
  have u: "free_frames (s\<lparr>free_pages := n\<rparr>) = free_frames s" for n and s :: "'a vmm_scheme"
    by (simp add: free_frames_def page_used_def)
  have z: "free_frames (zero_page t s) = free_frames s" for t and s :: "'a vmm_scheme"
    unfolding zero_page_def by (rule for_up_frame) simp
  obtain a s1 where a: "pmm_alloc_page_low s = (a, s1)" by fastforce
  have s1: "free_frames s1 = free_frames s \<or> (\<exists>f. free_frames s1 = free_frames s - {f})"
  proof (cases "scan_up 1 2048 (\<lambda>page. \<not> page_used (of_nat page) s)")
    case None
    then show ?thesis using a by (simp add: pmm_alloc_page_low_def)
  next
    case (Some f)
    then have "f < 16777216" "s1 = set_page (of_nat f) s\<lparr>free_pages := free_pages (set_page (of_nat f) s) - 1\<rparr>"
      using a scan_up_SomeD(2) [OF Some] by (auto simp: pmm_alloc_page_low_def Let_def)
    then have "free_frames s1 = free_frames s - {f}"
      using frames.free_set_mark [of f s] by (simp only: u free_frames_eq [symmetric])
    then show ?thesis by blast
  qed
  have f: "free_frames t \<subseteq> free_frames (pmm_free_page b t)" for b and t :: "'a vmm_scheme"
  proof
    fix p assume p: "p \<in> free_frames t"
    then show "p \<in> free_frames (pmm_free_page b t)"
      by (auto simp: free_frames_def pmm_free_page_def Let_def page_used_clear_page)
  qed
  have up: "low_frames t \<le> low_frames (pmm_free_page b t)" for b and t :: "'a vmm_scheme"
    unfolding low_frames_def using f [of t b] by (intro card_mono) auto
  have "low_frames (zero_page b t) = low_frames t" for b and t :: "'a vmm_scheme"
    by (simp add: low_frames_def z)
  then show ?thesis
    using low_frames_drop [OF s1] up [of s1 a] by (simp add: allocate_table_def a Let_def)
qed

lemma next_table_low:
  fixes s :: "'a vmm_scheme"
  shows "low_frames s \<le> Suc (low_frames (snd (next_table t i s)))"
proof -
  have "low_frames (set_entry t i v s) = low_frames s" for v and s :: "'a vmm_scheme"
    by (simp add: low_frames_def)
  then show ?thesis using allocate_table_low [of s]
    by (simp add: next_table_def Let_def case_prod_beta)
qed

lemma map_page_low:
  fixes s :: "'a vmm_scheme"
  shows "low_frames s \<le> low_frames (map_page va pa f s) + 3"
proof -
  have e: "low_frames (emit e s) = low_frames s" "low_frames (set_entry t i v s) = low_frames s"
    for e t i v and s :: "'a vmm_scheme" by (simp_all add: low_frames_def)
  have "low_frames s \<le> low_frames (snd (walk_tables i4 i3 i2 s)) + 3" for i4 i3 i2
  proof -
    obtain a s1 where 1: "next_table (initial_pml4 s) i4 s = (a, s1)" by fastforce
    obtain b s2 where 2: "next_table a i3 s1 = (b, s2)" by fastforce
    obtain c s3 where 3: "next_table b i2 s2 = (c, s3)" by fastforce
    have "low_frames s \<le> Suc (low_frames s1)" "low_frames s1 \<le> Suc (low_frames s2)" "low_frames s2 \<le> Suc (low_frames s3)"
      using next_table_low [of s "initial_pml4 s" i4] next_table_low [of s1 a i3] next_table_low [of s2 b i2]
      by (simp_all add: 1 2 3)
    then show ?thesis by (simp add: walk_tables_def 1 2 3 Let_def)
  qed
  then show ?thesis by (simp add: map_page_walk Let_def case_prod_beta e)
qed

lemma map_one_succeeds:
  assumes inv: "vm_inv s" and k: "k < 16384" and pa: "page_aligned_address pa" "unat pa < 2 ^ 52"
    and low: "3 \<le> low_frames s"
  shows "mapping_was_installed (win k) pa (map_page (win k) pa ACPI_PAGE_FLAG_WRITABLE s)"
proof -
  let ?t = "map_page (win k) pa ACPI_PAGE_FLAG_WRITABLE s"
  note W = win_facts [OF k]
  have mask: "0x000FFFFFFFFFF000 = PAGE_ADDRESS_MASK" by (simp add: PAGE_ADDRESS_MASK_def)
  have m: "pa AND PAGE_ADDRESS_MASK = pa" by (rule address_mask_id [OF pa])
  have "pa AND NOT PAGE_ADDRESS_MASK = (pa AND PAGE_ADDRESS_MASK) AND NOT PAGE_ADDRESS_MASK" by (simp only: m)
  then have "pa AND NOT PAGE_ADDRESS_MASK = 0" by (simp add: and.assoc)
  then have g: "map_guard (win k) pa ACPI_PAGE_FLAG_WRITABLE"
    using W pa by (simp add: map_guard_def ACPI_PAGE_FLAG_WRITABLE_def PAGE_FLAG_MASK_def)
  note C = map_page_effect [OF inv g W(1,3) refl]
  have t: "tbl ?t (pt_path (win k)) \<noteq> 0"
    "get_entry (tbl ?t (pt_path (win k))) (va_index 12 (win k)) ?t = pte_value pa ACPI_PAGE_FLAG_WRITABLE"
    using C(2) low by linarith+
  have "pte_value pa ACPI_PAGE_FLAG_WRITABLE AND PAGE_ADDRESS_MASK = pa"
    using pte_value_facts(1) [of pa] g by (simp add: map_guard_def)
  then show ?thesis
    using get_page_table_tbl [OF C(1) W(4)] t by (simp add: mapping_was_installed_def mask Let_def)
qed

lemma map_pages_succeeds:
  assumes "vm_inv s" "st + (index + n) \<le> 16384" "page_aligned_address pb"
    and "\<forall>i. index \<le> i \<longrightarrow> i < index + n \<longrightarrow> unat (pb + of_nat i * 0x1000) < 2 ^ 52" "3 * n \<le> low_frames s"
  shows "fst (map_pages (of_nat st) pb index n s)"
  using assms(1,2,4,5)
proof (induction n arbitrary: index s)
  case (Suc n)
  let ?k = "st + index" and ?pa = "pb + of_nat index * 0x1000"
  define s1 where "s1 = map_page (win ?k) ?pa ACPI_PAGE_FLAG_WRITABLE s"
  have w: "window_page (of_nat st) (of_nat index) = win ?k"
    using Suc.prems(2) by (intro window_page_win) simp
  have k: "?k < 16384" and pa: "unat ?pa < 2 ^ 52" and low: "3 \<le> low_frames s" using Suc.prems by simp_all
  have i: "mapping_was_installed (win ?k) ?pa s1"
    unfolding s1_def by (rule map_one_succeeds [OF Suc.prems(1) k aligned_step [OF assms(3)] pa low])
  have "3 * n \<le> low_frames s1" using map_page_low [of s "win ?k" ?pa ACPI_PAGE_FLAG_WRITABLE] Suc.prems(4) by (simp add: s1_def)
  then have "fst (map_pages (of_nat st) pb (Suc index) n s1)"
    using Suc.prems(2,3) by (intro Suc.IH map_one(1) [OF Suc.prems(1) k aligned_step [OF assms(3)] s1_def]) auto
  then show ?case using i by (simp add: w s1_def [symmetric] ACPI_PAGE_SIZE_def Let_def)
qed simp

section \<open>Consequences\<close>

lemma map_window:
  assumes inv: "acpi_inv s" and g: "\<not> in_gib a len" and m: "uacpi_kernel_map a len s = (p, t)"
  shows "acpi_inv t" "p = UACPI_MAP_FAILED \<and> map_failed s t \<or> (\<exists>st i. map_done a len s p t st i)"
proof -
  have "\<forall>k x. k \<in> free_slots s \<longrightarrow> in_page k x \<longrightarrow> translate s x = None"
    using acpi_invD(2) [OF inv] free_slot_bound by blast
  from map_cases [OF acpi_invD(1) [OF inv] this g m]
  show "p = UACPI_MAP_FAILED \<and> map_failed s t \<or> (\<exists>st i. map_done a len s p t st i)" by blast
  show "acpi_inv t" using map_inv [OF inv, of a len] by (simp add: m)
qed

lemma map_done_bytes:
  assumes inv: "acpi_inv s" and d: "map_done a len s p t st i"
  shows "p \<noteq> UACPI_MAP_FAILED" "x < unat len \<Longrightarrow> translate t (p + of_nat x) = Some (a + of_nat x)"
    "translate s y \<noteq> None \<Longrightarrow> translate t y = translate s y"
proof -
  have D: "0 < page_span a len" "st + page_span a len \<le> 16384" "{st..<st + page_span a len} \<subseteq> free_slots s"
    "p = win st + (a AND (ACPI_PAGE_SIZE - 1))"
    "run_mapped st (a - (a AND (ACPI_PAGE_SIZE - 1))) 0 (page_span a len) s t"
    using d by (simp_all add: map_done_def)
  show "p \<noteq> UACPI_MAP_FAILED" unfolding D(4) using D(1,2) by (intro win_not_special(1)) simp
  show "translate t (p + of_nat x) = Some (a + of_nat x)" if "x < unat len"
    using map_byte [OF D(2) that] D(5) unfolding run_mapped_def D(4) by auto
  show "translate t y = translate s y" if "translate s y \<noteq> None"
  proof -
    have "\<not> in_page (st + j) y" if j: "j < page_span a len" for j
    proof
      assume y: "in_page (st + j) y"
      have "st + j \<in> free_slots s" "st + j < 16384" using D(2,3) j by auto
      then show False using acpi_invD(2) [OF inv _ y] \<open>translate s y \<noteq> None\<close> by blast
    qed
    then show ?thesis using D(5) by (simp add: run_mapped_def)
  qed
qed

text \<open>Unmapping a range that has a record.\<close>

lemma unmap_hits:
  assumes inv: "acpi_inv s" and i: "i < 256" "record_run (mappings s (of_nat i)) st"
    "unat (page_count (mappings s (of_nat i))) = page_span a len"
    and a: "a - (a AND (ACPI_PAGE_SIZE - 1)) = win st" and len: "len \<noteq> 0" "\<not> span_overflows a len"
  shows "uacpi_kernel_unmap a len s \<noteq> s"
proof -
  let ?o = "a AND (ACPI_PAGE_SIZE - 1)"
  let ?c = "((len + ?o + ACPI_PAGE_SIZE - 1) AND NOT (ACPI_PAGE_SIZE - 1)) div ACPI_PAGE_SIZE"
  let ?r = "mappings s (of_nat i)"
  have R: "0 < unat (page_count ?r)" "virtual_base ?r = win st" "st + unat (page_count ?r) \<le> 16384"
    using i(2) by (simp_all add: record_run_def)
  have st: "st < 16384" using R by simp
  note c = span_guards(3) [OF len(2)]
  have cr: "?c = page_count ?r" using c i(3) by (simp only: word_unat_eq_iff)
  have g: "\<not> len > NOT 0 - ?o" "\<not> len + ?o > NOT 0 - (ACPI_PAGE_SIZE - 1)"
    using span_guards(1,2) [of a len] len(2) by (auto simp: span_overflows_def)
  have av: "a = win st + ?o" using a by (metis diff_add_cancel)
  then have nz: "a \<noteq> 0" "a \<noteq> UACPI_MAP_FAILED" using win_not_special [OF st, of a] by metis+
  have base: "unat (win st) = 0xFFFF800000000000 + st * 4096" by (rule unat_win [OF st])
  have "unat (ucast ACPI_MAP_WINDOW_PAGES - page_count ?r) = 16384 - unat (page_count ?r)"
    using R(3) by (subst unat_sub) (simp_all add: ACPI_MAP_WINDOW_PAGES_def word_le_nat_alt)
  then have "unat ((ucast ACPI_MAP_WINDOW_PAGES - page_count ?r) * ACPI_PAGE_SIZE) = (16384 - unat (page_count ?r)) * 4096"
    by (subst unat_times_nowrap) (simp_all add: ACPI_PAGE_SIZE_def)
  then have "unat (ACPI_MAP_WINDOW_BASE + (ucast ACPI_MAP_WINDOW_PAGES - page_count ?r) * ACPI_PAGE_SIZE)
      = 0xFFFF800000000000 + (16384 - unat (page_count ?r)) * 4096"
    by (subst unat_plus_nowrap) (simp_all add: ACPI_MAP_WINDOW_BASE_def)
  then have w: "\<not> (win st < ACPI_MAP_WINDOW_BASE \<or> page_count ?r = 0 \<or> page_count ?r > ucast ACPI_MAP_WINDOW_PAGES
      \<or> win st > ACPI_MAP_WINDOW_BASE + (ucast ACPI_MAP_WINDOW_PAGES - page_count ?r) * ACPI_PAGE_SIZE)"
    using R by (auto simp: word_less_nat_alt base ACPI_MAP_WINDOW_BASE_def ACPI_MAP_WINDOW_PAGES_def)
  have "\<exists>k. scan_up 0 (unat ACPI_MAP_RECORDS) (\<lambda>index. virtual_base (mappings s (of_nat index)) = win st
      \<and> page_count (mappings s (of_nat index)) = page_count ?r) = Some k"
    by (rule scan_up_found [of _ i]) (use i(1) R(2) in \<open>simp_all add: ACPI_MAP_RECORDS_def\<close>)
  then obtain k where f: "find_mapping (win st) (page_count ?r) s = Some k"
    by (auto simp: find_mapping_def)
  define t where "t = (let slot_start = (win st - ACPI_MAP_WINDOW_BASE) div ACPI_PAGE_SIZE;
              s = for_up 0 (unat (page_count ?r)) (\<lambda>index. unmap_page (win st + of_nat index * ACPI_PAGE_SIZE)) s;
              s = release_slots (ucast slot_start) (ucast (page_count ?r)) s
          in s\<lparr>mappings := (mappings s)(k := \<lparr>virtual_base = 0, page_count = 0\<rparr>)\<rparr>)"
  have u: "uacpi_kernel_unmap a len s = t"
    using nz len(1) g w f by (simp add: uacpi_kernel_unmap_def a cr t_def Let_def)
  have "page_count ?r \<noteq> 0" using R(1) by auto
  from unmap_record [OF inv f this t_def] obtain st' i' where d: "unmap_done s t st' (unat (page_count ?r)) i'" by blast
  have z: "mappings t (of_nat i') = \<lparr>virtual_base = 0, page_count = 0\<rparr>" "page_count (mappings s (of_nat i')) \<noteq> 0"
    using d by (auto simp: unmap_done_def record_run_def)
  then show ?thesis unfolding u by (metis acpi_mapping.select_convs(2))
qed

lemma map_unmap:
  assumes inv: "acpi_inv s" and d: "map_done a len s p t st i" and t: "acpi_inv t" and len: "len \<noteq> 0" "\<not> span_overflows a len"
  shows "translate (uacpi_kernel_unmap p len t) = translate s" "free_slots (uacpi_kernel_unmap p len t) = free_slots s"
    "mappings (uacpi_kernel_unmap p len t) = (mappings s)(of_nat i := \<lparr>virtual_base = 0, page_count = 0\<rparr>)"
proof -
  let ?n = "page_span a len" and ?u = "uacpi_kernel_unmap p len t"
  have D: "i < 256" "page_count (mappings s (of_nat i)) = 0" "0 < ?n" "st + ?n \<le> 16384"
    "{st..<st + ?n} \<subseteq> free_slots s" "free_slots t = free_slots s - {st..<st + ?n}"
    "mappings t = (mappings s)(of_nat i := \<lparr>virtual_base = win st, page_count = of_nat ?n\<rparr>)"
    "p = win st + (a AND (ACPI_PAGE_SIZE - 1))"
    "run_mapped st (a - (a AND (ACPI_PAGE_SIZE - 1))) 0 ?n s t"
    using d by (simp_all add: map_done_def)
  have st: "st < 16384" using D(3,4) by simp
  have un: "unat (of_nat ?n :: u64) = ?n" using D(4) by (intro unat_addr) simp
  have run: "record_run (mappings t (of_nat i)) st" using D(3,4) by (simp add: D(7) record_run_def un)
  have po: "unat p mod 4096 = unat a mod 4096"
  proof -
    have "unat p = 0xFFFF800000000000 + st * 4096 + unat a mod 4096"
      unfolding D(8) using st by (subst unat_plus_nowrap) (simp_all add: unat_win page_offset add_less_le_mono order_less_imp_le less_le_trans [of _ 4096])
    also have "\<dots> = 4096 * (0xFFFF800000000 + st) + unat a mod 4096" by simp
    finally show ?thesis by (simp only: mod_mult_self4 mod_mod_trivial)
  qed
  then have ps: "page_span p len = ?n" "span_overflows p len = span_overflows a len"
    by (simp_all add: page_span_def span_overflows_def)
  have "p AND (ACPI_PAGE_SIZE - 1) = a AND (ACPI_PAGE_SIZE - 1)"
    unfolding word_unat_eq_iff page_offset by (rule po)
  then have pb: "p - (p AND (ACPI_PAGE_SIZE - 1)) = win st" by (simp add: D(8))
  have mt: "mappings t (of_nat i) = \<lparr>virtual_base = win st, page_count = of_nat ?n\<rparr>" by (simp add: D(7))
  have pc: "unat (page_count (mappings t (of_nat i))) = page_span p len" by (simp only: mt un ps acpi_mapping.select_convs)
  have so: "\<not> span_overflows p len" using len(2) ps(2) by simp
  have "?u \<noteq> t" by (rule unmap_hits [OF t D(1) run pc pb len(1) so])
  then obtain st' i' where u: "unmap_done t ?u st' ?n i'" "win st' = win st"
    using unmap_cases [OF t, of p len] pb ps(1) by metis
  have U: "i' < 256" "record_run (mappings t (of_nat i')) st'"
    "translate ?u = (\<lambda>x. if \<exists>k<?n. in_page (st' + k) x then None else translate t x)"
    "free_slots ?u = free_slots t \<union> {st'..<st' + ?n}"
    "mappings ?u = (mappings t)(of_nat i' := \<lparr>virtual_base = 0, page_count = 0\<rparr>)"
    using u(1) by (simp_all add: unmap_done_def)
  have "st' < 16384" using U(2) by (auto simp: record_run_def)
  then have ss: "st' = st" using win_page_inj [of st' st] st u(2) by simp
  have ii: "i' = i"
  proof (rule ccontr)
    assume "i' \<noteq> i"
    then have "owned (mappings t (of_nat i')) \<inter> owned (mappings t (of_nat i)) = {}"
      by (rule acpi_invD(4) [OF t U(1) D(1)])
    moreover have "st \<in> owned (mappings t (of_nat i))" "st \<in> owned (mappings t (of_nat i'))"
      using U(2) run unfolding owned_run [OF run] owned_run [OF U(2)] by (auto simp: record_run_def ss)
    ultimately show False by blast
  qed
  show "mappings ?u = (mappings s)(of_nat i := \<lparr>virtual_base = 0, page_count = 0\<rparr>)"
    unfolding U(5) ii D(7) by simp
  show "free_slots ?u = free_slots s" unfolding U(4) ss D(6) using D(5) by blast
  show "translate ?u = translate s"
  proof
    fix x
    show "translate ?u x = translate s x"
    proof (cases "\<exists>k<?n. in_page (st + k) x")
      case True
      then obtain k where k: "k < ?n" "in_page (st + k) x" by blast
      have "st + k \<in> free_slots s" "st + k < 16384" using D(4,5) k(1) by auto
      then show ?thesis using acpi_invD(2) [OF inv _ k(2)] True by (simp add: U(3) ss)
    next
      case False
      then have "translate t x = translate s x" using D(9) unfolding run_mapped_def by auto
      then show ?thesis using False by (simp only: U(3) ss if_False)
    qed
  qed
qed

end
