(* ===== verification/AcpiProps.thy ===== *)
theory AcpiProps
  imports AcpiWindow
begin

text \<open>
  The properties of \<open>uacpi_kernel_map\<close> and \<open>uacpi_kernel_unmap\<close>: what a call returns and maps, that an unmap
  undoes a map, the invariant of every state the calls reach from \<open>vmm_init\<close>, and when a map succeeds.
\<close>

declare put_string_simps [simp del]

section \<open>A concrete machine\<close>

definition acpi_start :: acpi where
  "acpi_start = \<lparr>hw_log = [], port_in = (\<lambda>_ _. 0), tsc_in = (\<lambda>_. 0), cr2_in = (\<lambda>_. 0),
     if_flag = False, vga_buffer = (\<lambda>_. 0), cursor_x = 0, cursor_y = 0,
     bitmap = (\<lambda>i. if i = 1 then 0 else 0xFF), total_pages = MAX_PAGES, free_pages = 8,
     mem = (\<lambda>_. 0xDEAD), initial_pml4 = 0x101000, initial_pdpt = 0x102000, initial_pd = 0x103000,
     paging_enabled = False, kbd_buffer = (\<lambda>_. 0), kbd_head = 0, kbd_tail = 0,
     kheap = \<lparr>heap_bytes = (\<lambda>_. 0xAA), memory_pool = 0x200000, free_list = 0, allocator_initialized = False\<rparr>,
     gdt = 0x104000, idt = 0x105000, gdt_p = (0, 0), idt_p = (0, 0),
     map_slots = (\<lambda>_. 0), mappings = (\<lambda>_. \<lparr>virtual_base = 0, page_count = 0\<rparr>), start_ticks = 0\<rparr>"

lemma acpi_start_used: "page_used q acpi_start \<longleftrightarrow> q div 8 \<noteq> 1"
proof -
  have "bit (0xFF :: u8) (unat q mod 8)" by (rule byte_ff_bit) simp
  then show ?thesis by (simp add: page_used_bit acpi_start_def)
qed

lemma acpi_start_placed: "tables_placed acpi_start" "\<not> paging_enabled acpi_start"
proof -
  have "p \<notin> free_frames acpi_start" if "p \<in> {257, 258, 259}" for p
    using that by (auto simp: free_frames_def acpi_start_used)
  then show "tables_placed acpi_start"
    unfolding tables_placed_def table_frame_def
    by (simp add: aligned_mask_iff BOOTSTRAP_IDENTITY_LIMIT_val mask_numeral acpi_start_def)
  show "\<not> paging_enabled acpi_start" by (simp add: acpi_start_def)
qed

section \<open>The window after vmm_init\<close>

lemma putchar_more: "vmm.more (putchar c s) = vmm.more s"
  by (simp add: putchar_def set_cell_def scroll_screen_def update_cursor_def machine_defs Let_def
      for_up_frame [where g = vmm.more])

lemma put_string_more: "vmm.more (put_string c s) = vmm.more s"
  by (rule put_string_frame, rule putchar_more)

lemma vmm_init_more: "vmm.more (vmm_init s) = vmm.more s" for s :: "'a vmm_scheme"
proof -
  have e: "vmm.more (set_entry t i v s) = vmm.more s" for t i v and s :: "'a vmm_scheme"
    by (simp add: set_entry_def)
  have "vmm.more (zero_page t s) = vmm.more s" for t and s :: "'a vmm_scheme"
    unfolding zero_page_def by (rule for_up_frame) (simp add: set_entry_def)
  moreover have "vmm.more (for_up 0 512 (\<lambda>index s. set_entry (initial_pd s) (of_nat index) (v index) s) t) = vmm.more t"
    for v and t :: "'a vmm_scheme" by (rule for_up_frame) (rule e)
  ultimately show ?thesis
    by (simp add: vmm_init_def paging_init_def reload_page_directory_def e emit_def put_string_more Let_def)
qed

lemma boot_window:
  assumes "tables_placed s" "\<not> paging_enabled s" "\<forall>i. map_slots s i = 0" "\<forall>i. page_count (mappings s i) = 0"
  shows "acpi_inv (vmm_init s)" "free_slots (vmm_init s) = {..<16384}"
    "page_count (mappings (vmm_init s) i) = 0"
proof -
  note M = more_fields [OF vmm_init_more [of s]]
  show f: "free_slots (vmm_init s) = {..<16384}"
    unfolding M(3) using assms(3) by (auto simp: free_slots_def slot_used_bit)
  show z: "page_count (mappings (vmm_init s) i) = 0" for i by (simp add: M(2) assms(4))
  have t: "translate (vmm_init s) x = None" if k: "k < 16384" "in_page k x" for k x
  proof -
    have "\<not> x < BOOTSTRAP_IDENTITY_LIMIT"
    proof
      assume "x < BOOTSTRAP_IDENTITY_LIMIT"
      then have "unat x < 2 ^ 30" by (simp add: BOOTSTRAP_IDENTITY_LIMIT_val word_less_nat_alt)
      moreover have "unat x div 2 ^ 12 = unat (win k) div 2 ^ 12"
        using k(2) unfolding in_page_def by (metis unat_drop_bit_eq drop_bit_eq_div)
      ultimately show False using unat_win [OF k(1)] by simp
    qed
    then show ?thesis using vmm_init_translate [OF assms(1,2), of x] by simp
  qed
  show "acpi_inv (vmm_init s)"
    using vmm_init_translate [OF assms(1,2)] t
    by (simp add: acpi_inv_def f z owned_0)
qed


lemma acpi_booted: "acpi_inv (vmm_init acpi_start)" "free_slots (vmm_init acpi_start) = {..<16384}"
    "page_count (mappings (vmm_init acpi_start) i) = 0" "3 \<le> low_frames (vmm_init acpi_start)"
proof -
  have "\<forall>i. map_slots acpi_start i = 0" "\<forall>i. page_count (mappings acpi_start i) = 0"
    by (simp_all add: acpi_start_def)
  from boot_window [OF acpi_start_placed this]
  show "acpi_inv (vmm_init acpi_start)" "free_slots (vmm_init acpi_start) = {..<16384}"
    "page_count (mappings (vmm_init acpi_start) i) = 0" by blast+
  have "free_frames (vmm_init acpi_start) = free_frames acpi_start"
    unfolding vmm_init_def Let_def put_string_free_frames paging_init_fields(3) ..
  then have "{8, 9, 10} \<subseteq> free_frames (vmm_init acpi_start) \<inter> {1..<2048}"
    by (auto simp: free_frames_def acpi_start_used)
  from card_mono [OF _ this] show "3 \<le> low_frames (vmm_init acpi_start)" by (simp add: low_frames_def)
qed

section \<open>When a map succeeds\<close>

lemma map_succeeds:
  assumes inv: "acpi_inv s" and a: "len \<noteq> 0" "\<not> in_gib a len" "unat a + unat len \<le> 2 ^ 52"
    and r: "i < 256" "page_count (mappings s (of_nat i)) = 0"
    and run: "{k..<k + page_span a len} \<subseteq> free_slots s" and low: "3 * page_span a len \<le> low_frames s"
  shows "fst (uacpi_kernel_map a len s) \<noteq> UACPI_MAP_FAILED"
proof -
  let ?n = "page_span a len" and ?o = "a AND (ACPI_PAGE_SIZE - 1)"
  have n: "0 < ?n" by (rule page_span_pos [OF a(1)])
  then have "k + ?n - 1 \<in> free_slots s" using run by (intro subsetD [OF run]) simp
  then have kn: "k + ?n \<le> 16384" using free_slot_bound [of "k + ?n - 1" s] by simp
  then have n2: "?n \<le> 16384" by simp
  have o: "unat a mod 4096 \<le> unat a" by simp
  have "(2 :: nat) ^ 52 + 4095 < 2 ^ 64" by simp
  then have so: "\<not> span_overflows a len" using a(3) o unfolding span_overflows_def by linarith
  have "\<exists>k. scan_up 0 (unat ACPI_MAP_RECORDS) (\<lambda>index. page_count (mappings s (of_nat index)) = 0) = Some k"
    by (rule scan_up_found [of _ i]) (use r in \<open>simp_all add: ACPI_MAP_RECORDS_def\<close>)
  then obtain rec where rec: "reserve_mapping_record s = Some rec" by (auto simp: reserve_mapping_record_def)
  have "reserve_slots (of_nat ?n) s \<noteq> None" using reserve_slots_spec(1) [OF n n2, of s] run kn by blast
  then obtain st s1 where q: "reserve_slots (of_nat ?n) s = Some (st, s1)" by auto
  note R = reserve_slots_spec(2) [OF n n2 q]
  obtain m where s1: "s1 = s\<lparr>map_slots := m\<rparr>" using R by blast
  have stn: "unat st + ?n \<le> 16384" using R by blast
  have ps: "unat (a - ?o) = unat a - unat a mod 4096"
    unfolding page_offset [symmetric] by (rule unat_sub) (simp add: word_le_nat_alt page_offset)
  have bound: "unat (a - ?o + of_nat j * 0x1000) < 2 ^ 52" if j: "j < ?n" for j
  proof -
    have j2: "j * 4096 < unat a mod 4096 + unat len"
      using j a(1) unfolding page_span_def by (simp add: less_eq_div_iff_mult_less_eq Suc_le_eq [symmetric])
    have uj: "unat (of_nat j :: u64) = j" using j n2 by (intro unat_addr) simp
    have "unat (of_nat j * 0x1000 :: u64) = j * 4096"
      using j n2 by (subst unat_times_nowrap) (simp_all add: uj)
    then have "unat (a - ?o + of_nat j * 0x1000) = unat a - unat a mod 4096 + j * 4096"
      using j2 a(3) o by (subst unat_plus_nowrap) (simp_all add: ps)
    then show ?thesis using j2 a(3) o by linarith
  qed
  have st: "st = of_nat (unat st)" by simp
  have "low_frames s1 = low_frames s" by (simp add: s1 low_frames_def free_frames_def page_used_def)
  then have ok: "fst (map_pages st (a - ?o) 0 ?n s1)"
    by (subst st, intro map_pages_succeeds [OF _ _ page_base_aligned])
       (use acpi_invD(1) [OF inv] stn bound low in \<open>simp_all add: s1\<close>)
  have "unat st < 16384" using stn n by simp
  then show ?thesis
    using ok a so n2 win_not_special(1) [of "unat st" a]
    by (auto simp: map_unfold rec q split: prod.splits)
qed

section \<open>Properties\<close>

text \<open>
  A request inside the first GiB is answered with the address itself: nothing is mapped, the state does
  not change, and every byte of the range is already readable at its own address.
\<close>

theorem uacpi_kernel_map_identity:
  assumes "acpi_inv s" "len \<noteq> 0" "unat a + unat len \<le> 2 ^ 30"
  shows "uacpi_kernel_map a len s = (a, s) \<and> (\<forall>x. unat x < unat len \<longrightarrow> translate s (a + x) = Some (a + x))"
proof -
  have "0 < unat len" using assms(2) by (simp add: unat_gt_0)
  then have "in_gib a len" using assms(3) by (simp add: in_gib_def)
  moreover have "translate s (a + x) = Some (a + x)" if "unat x < unat len" for x
  proof -
    have "unat (a + x) = unat a + unat x" using that assms(3) by (subst unat_plus_nowrap) simp_all
    then have "unat (a + x) < 2 ^ 30" using that assms(3) by simp
    note L = low_address [OF this]
    show ?thesis using translate_identity [OF acpi_invD(1) [OF assms(1)] L(1-3)] L(4) by simp
  qed
  ultimately show ?thesis using assms(2) by (simp add: map_unfold)
qed

lemma map_done_record:
  assumes "map_done a len s p t st i"
  shows "\<exists>i<256. \<exists>r. page_count (mappings s (of_nat i)) = 0 \<and> mappings t = (mappings s)(of_nat i := r)
    \<and> unat (page_count r) = page_span a len \<and> page_count r \<noteq> 0 \<and> p = virtual_base r + (a AND (ACPI_PAGE_SIZE - 1))"
proof -
  have n: "0 < page_span a len" "st + page_span a len \<le> 16384" using assms by (simp_all add: map_done_def)
  then have "unat (of_nat (page_span a len) :: u64) = page_span a len" by (intro unat_addr) simp
  moreover from this n have "(of_nat (page_span a len) :: u64) \<noteq> 0" by (metis less_numeral_extra(3) unat_0)
  ultimately show ?thesis using assms
    by (intro exI [of _ i] conjI exI [of _ "\<lparr>virtual_base = win st, page_count = of_nat (page_span a len)\<rparr>"])
      (simp_all add: map_done_def)
qed

text \<open>
  C18. With the window as boot and any earlier calls leave it (\<open>acpi_inv\<close>), a request that the first GiB does not
  serve either fails, and then no translation, slot or record has changed, or it
  returns an address at which every byte of the range is readable; what was mapped before stays as it
  was, the slots taken were free, as many as the range spans pages, and exactly one record changed: it was unused
  and now counts these pages from the page the returned address is in.
\<close>

theorem uacpi_kernel_map_translates:
  assumes "acpi_inv s" "\<not> in_gib a len" "uacpi_kernel_map a len s = (p, t)"
  shows "acpi_inv t \<and>
    (if p = UACPI_MAP_FAILED then translate t = translate s \<and> free_slots t = free_slots s \<and> mappings t = mappings s
     else (\<forall>x. unat x < unat len \<longrightarrow> translate t (p + x) = Some (a + x))
       \<and> (\<forall>y. translate s y \<noteq> None \<longrightarrow> translate t y = translate s y)
       \<and> free_slots t \<subset> free_slots s \<and> card (free_slots s - free_slots t) = page_span a len
       \<and> (\<exists>i<256. \<exists>r. page_count (mappings s (of_nat i)) = 0 \<and> mappings t = (mappings s)(of_nat i := r)
            \<and> unat (page_count r) = page_span a len \<and> page_count r \<noteq> 0
            \<and> p = virtual_base r + (a AND (ACPI_PAGE_SIZE - 1))))"
proof -
  note M = map_window [OF assms]
  show ?thesis
  proof (cases "p = UACPI_MAP_FAILED")
    case True
    then have "map_failed s t" using M(2) map_done_bytes(1) [OF assms(1)] by blast
    then show ?thesis using M(1) True by (simp add: map_failed_def)
  next
    case False
    then obtain st i where d: "map_done a len s p t st i" using M(2) by blast
    have D: "{st..<st + page_span a len} \<subseteq> free_slots s" "0 < page_span a len"
      "free_slots t = free_slots s - {st..<st + page_span a len}"
      using d by (simp_all add: map_done_def)
    have "free_slots s - free_slots t = {st..<st + page_span a len}" using D(1,3) by auto
    moreover have "free_slots t \<subset> free_slots s"
    proof
      show "free_slots t \<subseteq> free_slots s" unfolding D(3) by blast
      have "st \<in> free_slots s" "st \<notin> free_slots t" using D by auto
      then show "free_slots t \<noteq> free_slots s" by blast
    qed
    moreover have "translate t (p + x) = Some (a + x)" if "unat x < unat len" for x
      using map_done_bytes(2) [OF assms(1) d that] by simp
    moreover have "\<exists>i<256. \<exists>r. page_count (mappings s (of_nat i)) = 0 \<and> mappings t = (mappings s)(of_nat i := r)
        \<and> unat (page_count r) = page_span a len \<and> page_count r \<noteq> 0 \<and> p = virtual_base r + (a AND (ACPI_PAGE_SIZE - 1))"
      by (rule map_done_record [OF d])
    ultimately show ?thesis using False M(1) map_done_bytes(3) [OF assms(1) d] by simp
  qed
qed

text \<open>
  C19. Unmapping what \<open>uacpi_kernel_map\<close> returned, with the same length, gives everything back: the address
  translation, the free slots and the number of pages of every record are those of before the call.
\<close>

theorem uacpi_map_unmap_roundtrip:
  assumes "acpi_inv s" "\<not> in_gib a len" "uacpi_kernel_map a len s = (p, t)" "p \<noteq> UACPI_MAP_FAILED"
  shows "acpi_inv (uacpi_kernel_unmap p len t) \<and> translate (uacpi_kernel_unmap p len t) = translate s
    \<and> free_slots (uacpi_kernel_unmap p len t) = free_slots s
    \<and> page_count \<circ> mappings (uacpi_kernel_unmap p len t) = page_count \<circ> mappings s"
proof -
  note M = map_window [OF assms(1-3)]
  obtain st i where d: "map_done a len s p t st i" using M(2) assms(4) by blast
  have len: "len \<noteq> 0" "\<not> span_overflows a len"
    using assms(2-4) by (auto simp: map_unfold split: if_splits)
  note U = map_unmap [OF assms(1) d M(1) len]
  have "page_count (mappings s (of_nat i)) = 0" using d by (simp add: map_done_def)
  then show ?thesis using U unmap_inv [OF M(1)] by (auto simp: fun_eq_iff)
qed


text \<open>
  A map of \<open>len\<close> bytes that touch \<open>n\<close> pages succeeds whenever a record is unused, \<open>n\<close> consecutive
  slots are free, 3 frames below 8 MiB are free per page and the range ends below 2^52.
\<close>

theorem uacpi_kernel_map_succeeds:
  assumes "acpi_inv s" "len \<noteq> 0" "\<not> in_gib a len" "unat a + unat len \<le> 2 ^ 52"
    and "i < 256" "page_count (mappings s (of_nat i)) = 0"
    and "{k..<k + page_span a len} \<subseteq> free_slots s" "3 * page_span a len \<le> low_frames s"
  shows "fst (uacpi_kernel_map a len s) \<noteq> UACPI_MAP_FAILED"
  by (rule map_succeeds [OF assms])

text \<open>The request of the witnesses: 16 bytes of the local APIC's page.\<close>

lemma apic_request:
  "page_span 0xFEE00020 16 = 1" "\<not> in_gib 0xFEE00020 16" "unat (0xFEE00020 :: u64) + unat (16 :: u64) \<le> 2 ^ 52"
  by (simp_all add: page_span_def in_gib_def)

lemma apic_mapped:
  "fst (uacpi_kernel_map 0xFEE00020 16 (vmm_init acpi_start)) \<noteq> UACPI_MAP_FAILED"
  by (rule map_succeeds [of _ _ _ 0 0])
     (use apic_request acpi_booted in \<open>simp_all add: card_1_singleton_iff\<close>)

theorem uacpi_kernel_map_succeeds_witness:
  "fst (uacpi_kernel_map 0xFEE00020 16 (vmm_init acpi_start)) \<noteq> UACPI_MAP_FAILED"
  by (rule uacpi_kernel_map_succeeds [of _ _ _ 0 0])
     (use apic_request acpi_booted in \<open>simp_all add: card_1_singleton_iff\<close>)

theorem uacpi_kernel_map_identity_witness:
  "uacpi_kernel_map 0xE0000 0x20000 (vmm_init acpi_start) = (0xE0000, vmm_init acpi_start)
    \<and> translate (vmm_init acpi_start) 0xE0014 = Some 0xE0014"
  using uacpi_kernel_map_identity [OF acpi_booted(1), of "0x20000" "0xE0000"] by (auto dest: spec [of _ "0x14"])

theorem uacpi_kernel_map_translates_witness:
  "translate (snd (uacpi_kernel_map 0xFEE00020 16 (vmm_init acpi_start)))
     (fst (uacpi_kernel_map 0xFEE00020 16 (vmm_init acpi_start)) + 4) = Some 0xFEE00024"
  using uacpi_kernel_map_translates [OF acpi_booted(1) apic_request(2) prod.collapse [symmetric]] apic_mapped
  by (auto dest: spec [of _ 4])

theorem uacpi_map_unmap_roundtrip_witness:
  "free_slots (uacpi_kernel_unmap (fst (uacpi_kernel_map 0xFEE00020 16 (vmm_init acpi_start))) 16
     (snd (uacpi_kernel_map 0xFEE00020 16 (vmm_init acpi_start)))) = {..<16384}"
  using uacpi_map_unmap_roundtrip [OF acpi_booted(1) apic_request(2) prod.collapse [symmetric] apic_mapped]
  by (simp add: acpi_booted(2))

text \<open>The states \<open>uacpi_kernel_map\<close> and \<open>uacpi_kernel_unmap\<close> reach, called in any order with any arguments.\<close>

inductive acpi_reach :: "acpi \<Rightarrow> bool" where
  boot: "tables_placed s \<Longrightarrow> \<not> paging_enabled s \<Longrightarrow> \<forall>i. map_slots s i = 0
    \<Longrightarrow> \<forall>i. page_count (mappings s i) = 0 \<Longrightarrow> acpi_reach (vmm_init s)"
| map_call: "acpi_reach s \<Longrightarrow> acpi_reach (snd (uacpi_kernel_map a len s))"
| unmap_call: "acpi_reach s \<Longrightarrow> acpi_reach (uacpi_kernel_unmap a len s)"

lemma map_call_inv:
  assumes "acpi_inv s"
  shows "acpi_inv (snd (uacpi_kernel_map a len s))"
proof (cases "in_gib a len")
  case True
  then show ?thesis using assms by (simp add: map_unfold)
next
  case False
  show ?thesis by (rule map_window(1) [OF assms False prod.collapse [symmetric]])
qed

lemma acpi_reach_inv: "acpi_reach s \<Longrightarrow> acpi_inv s"
  by (induction rule: acpi_reach.induct) (auto intro: boot_window map_call_inv unmap_inv)

lemma slots_accounted:
  assumes inv: "acpi_inv s"
  shows "card (free_slots s) + (\<Sum>i<256. unat (page_count (mappings s (of_nat i)))) = 16384"
proof -
  note I = acpi_invD [OF inv]
  have own: "card (owned (mappings s (of_nat i))) = unat (page_count (mappings s (of_nat i)))" if "i < 256" for i
    using I(3) [OF that] owned_run owned_0 by force
  have fin: "finite (owned (mappings s (of_nat i)))" for i
    by (rule finite_subset [of _ "{..<16384}"]) (auto intro: owned_bound)
  have "{..<16384} - free_slots s = (\<Union>i<256. owned (mappings s (of_nat i)))"
    using I(5) owned_bound by blast
  moreover have "card (\<Union>i<256. owned (mappings s (of_nat i))) = (\<Sum>i<256. card (owned (mappings s (of_nat i))))"
    using I(4) fin by (intro card_UN_disjoint) auto
  moreover have f: "free_slots s \<subseteq> {..<16384}" using free_slot_bound by blast
  moreover have "card ({..<16384} - free_slots s) = 16384 - card (free_slots s)"
    using f by (subst card_Diff_subset) (auto intro: finite_subset)
  moreover have "card (free_slots s) \<le> 16384" using card_mono [OF _ f] by simp
  ultimately show ?thesis using own by simp
qed

lemma slot_owner:
  assumes "acpi_inv s" "k < 16384"
  shows "k \<notin> free_slots s \<longleftrightarrow> (\<exists>!i. i < 256 \<and> k \<in> owned (mappings s (of_nat i)))"
  using acpi_invD(4) [OF assms(1)] acpi_invD(5) [OF assms] by blast

text \<open>
  C20. In every state that calls of \<open>uacpi_kernel_map\<close> and \<open>uacpi_kernel_unmap\<close> reach, in any order and with any
  arguments, no slot leaks: each of the 16384 slots is either free or among the slots of exactly one record, and the
  free slots and the page counts of the records add up to 16384; a page of the window translates exactly when its
  slot is not free, and the first GiB is still mapped to itself.
\<close>

theorem acpi_slots_accounted:
  assumes "acpi_reach s"
  shows "(\<forall>k<16384. k \<notin> free_slots s \<longleftrightarrow> (\<exists>!i. i < 256 \<and> k \<in> owned (mappings s (of_nat i))))
    \<and> card (free_slots s) + (\<Sum>i<256. unat (page_count (mappings s (of_nat i)))) = 16384
    \<and> (\<forall>k x. k < 16384 \<longrightarrow> in_page k x \<longrightarrow> (translate s x = None \<longleftrightarrow> k \<in> free_slots s))
    \<and> (\<forall>x. unat x < 2 ^ 30 \<longrightarrow> translate s x = Some x)"
proof -
  note inv = acpi_reach_inv [OF assms]
  have "translate s x = Some x" if "unat x < 2 ^ 30" for x
    using translate_identity [OF acpi_invD(1) [OF inv] low_address(1-3) [OF that]] low_address(4) [OF that] by simp
  then show ?thesis using slots_accounted [OF inv] slot_owner [OF inv] acpi_invD(2) [OF inv] by blast
qed

theorem acpi_slots_accounted_witness:
  "translate (uacpi_kernel_unmap 5 6 (snd (uacpi_kernel_map 0xFEE00020 16 (vmm_init acpi_start)))) 0xB8000 = Some 0xB8000"
proof -
  have "\<forall>i. map_slots acpi_start i = 0" "\<forall>i. page_count (mappings acpi_start i) = 0"
    by (simp_all add: acpi_start_def)
  from unmap_call [OF map_call [OF boot [OF acpi_start_placed this]]]
  have "acpi_reach (uacpi_kernel_unmap 5 6 (snd (uacpi_kernel_map 0xFEE00020 16 (vmm_init acpi_start))))" .
  from acpi_slots_accounted [OF this] show ?thesis by simp
qed

end
