(* ===== verification/AcpiString.thy ===== *)
theory AcpiString
  imports Memory
begin

text \<open>
  The memory and string functions of \<open>external/uacpi/source/stdlib.c\<close>, on a byte-addressed memory.
  Functions that only write memory return the new memory; the address they also return is their
  first argument.
\<close>

section \<open>Blocks of bytes\<close>

definition uacpi_memcpy :: "u64 \<Rightarrow> u64 \<Rightarrow> u64 \<Rightarrow> (u64 \<Rightarrow> u8) \<Rightarrow> u64 \<Rightarrow> u8" where
  "uacpi_memcpy dest src count =
     for_up 0 (unat count) (\<lambda>i m. m(dest + of_nat i := m (src + of_nat i)))"

text \<open>\<open>while (count--) *--cd = *--cs;\<close>\<close>

primrec copy_down :: "u64 \<Rightarrow> u64 \<Rightarrow> nat \<Rightarrow> (u64 \<Rightarrow> u8) \<Rightarrow> u64 \<Rightarrow> u8" where
  "copy_down dest src 0 m = m"
| "copy_down dest src (Suc n) m = copy_down dest src n (m(dest + of_nat n := m (src + of_nat n)))"

definition uacpi_memmove :: "u64 \<Rightarrow> u64 \<Rightarrow> u64 \<Rightarrow> (u64 \<Rightarrow> u8) \<Rightarrow> u64 \<Rightarrow> u8" where
  "uacpi_memmove dest src count m =
     (if src < dest then copy_down dest src (unat count) m
      else for_up 0 (unat count) (\<lambda>i m. m(dest + of_nat i := m (src + of_nat i))) m)"

definition uacpi_memset :: "u64 \<Rightarrow> u32 \<Rightarrow> u64 \<Rightarrow> (u64 \<Rightarrow> u8) \<Rightarrow> u64 \<Rightarrow> u8" where
  "uacpi_memset dest ch count =
     (let fill = ucast ch in for_up 0 (unat count) (\<lambda>i m. m(dest + of_nat i := fill)))"

text \<open>The two arrays as functions from an index to the byte there; C subtracts them as \<open>int\<close>.\<close>

definition uacpi_memcmp :: "(u64 \<Rightarrow> u8) \<Rightarrow> (u64 \<Rightarrow> u8) \<Rightarrow> u64 \<Rightarrow> u32" where
  "uacpi_memcmp byte_lhs byte_rhs count =
     (case scan_up 0 (unat count) (\<lambda>i. byte_lhs (of_nat i) \<noteq> byte_rhs (of_nat i)) of
        Some i \<Rightarrow> ucast (byte_lhs (of_nat i)) - ucast (byte_rhs (of_nat i))
      | None \<Rightarrow> 0)"

definition uacpi_memcpy_zerout :: "u64 \<Rightarrow> u64 \<Rightarrow> u64 \<Rightarrow> u64 \<Rightarrow> (u64 \<Rightarrow> u8) \<Rightarrow> u64 \<Rightarrow> u8" where
  "uacpi_memcpy_zerout dst src dst_size src_size m =
     (let bytes_to_copy = (if src_size < dst_size then src_size else dst_size);
          m = (if bytes_to_copy \<noteq> 0 then uacpi_memcpy dst src bytes_to_copy m else m)
      in if dst_size > bytes_to_copy
         then uacpi_memset (dst + bytes_to_copy) 0 (dst_size - bytes_to_copy) m else m)"

section \<open>Strings\<close>

text \<open>A string without a terminator has no length: the loop does not end.\<close>

partial_function (option) find_nul :: "u64 \<Rightarrow> (u64 \<Rightarrow> u8) \<Rightarrow> u64 option" where
  "find_nul str1 m = (if m str1 \<noteq> 0 then find_nul (str1 + 1) m else Some str1)"

definition uacpi_strlen :: "u64 \<Rightarrow> (u64 \<Rightarrow> u8) \<Rightarrow> u64 option" where
  "uacpi_strlen str m = map_option (\<lambda>str1. str1 - str) (find_nul str m)"

definition uacpi_strnlen :: "u64 \<Rightarrow> u64 \<Rightarrow> (u64 \<Rightarrow> u8) \<Rightarrow> u64" where
  "uacpi_strnlen str limit m =
     (case scan_up 0 (unat limit) (\<lambda>i. m (str + of_nat i) = 0) of
        Some i \<Rightarrow> of_nat i
      | None \<Rightarrow> limit)"

partial_function (option) strcmp_from :: "u64 \<Rightarrow> u64 \<Rightarrow> u64 \<Rightarrow> (u64 \<Rightarrow> u8) \<Rightarrow> u32 option" where
  "strcmp_from i lhs rhs m =
     (if m (lhs + i) \<noteq> 0 \<and> m (rhs + i) \<noteq> 0
      then if m (lhs + i) \<noteq> m (rhs + i) then Some (ucast (m (lhs + i)) - ucast (m (rhs + i)))
           else strcmp_from (i + 1) lhs rhs m
      else Some (ucast (m (lhs + i)) - ucast (m (rhs + i))))"

definition uacpi_strcmp :: "u64 \<Rightarrow> u64 \<Rightarrow> (u64 \<Rightarrow> u8) \<Rightarrow> u32 option" where
  "uacpi_strcmp lhs rhs m = strcmp_from 0 lhs rhs m"

section \<open>Bit scans\<close>

text \<open>
  The compiler's \<open>__builtin_ffsll\<close> (one more than the index of the lowest set bit, 0 for 0) and
  \<open>__builtin_clzll\<close> (the number of zeros above the highest set bit).
\<close>

definition builtin_ffsll :: "u64 \<Rightarrow> nat" where
  "builtin_ffsll v = (case scan_up 0 64 (bit v) of Some i \<Rightarrow> Suc i | None \<Rightarrow> 0)"

definition builtin_clzll :: "u64 \<Rightarrow> nat" where
  "builtin_clzll v = (case scan_up 0 64 (\<lambda>i. bit v (63 - i)) of Some i \<Rightarrow> i | None \<Rightarrow> 64)"

definition uacpi_bit_scan_forward :: "u64 \<Rightarrow> u8" where
  "uacpi_bit_scan_forward v = of_nat (builtin_ffsll v)"

definition uacpi_bit_scan_backward :: "u64 \<Rightarrow> u8" where
  "uacpi_bit_scan_backward v = (if v = 0 then 0 else of_nat (64 - builtin_clzll v))"

section \<open>Copying\<close>

lemma addr_neq:
  assumes "unat d + n \<le> 2 ^ 64" "i < n" "j < n"
  shows "d + of_nat i = (d + of_nat j :: u64) \<longleftrightarrow> i = j"
  using assms of_nat_addr_eq [of i j] by simp

lemma addr_out:
  assumes "unat d + n \<le> 2 ^ 64" "unat s + n \<le> 2 ^ 64" "i < n" "j < n"
  shows "d + of_nat i = (s + of_nat j :: u64) \<longleftrightarrow> unat d + i = unat s + j"
proof -
  have "d + of_nat i = of_nat (unat d + i)" "s + of_nat j = of_nat (unat s + j)" by simp_all
  then show ?thesis using of_nat_addr_eq [of "unat d + i" "unat s + j"] assms by simp
qed

text \<open>What a copy from low to high addresses does when it never reads a byte it has already written.\<close>

lemma copy_up_bytes:
  fixes m :: "u64 \<Rightarrow> u8"
  assumes d: "unat d + n \<le> 2 ^ 64" and s: "unat s + n \<le> 2 ^ 64"
    and safe: "\<And>i j. i < j \<Longrightarrow> j < n \<Longrightarrow> unat d + i \<noteq> unat s + j" and k: "k \<le> n"
  defines "m' \<equiv> for_up 0 k (\<lambda>i m. m(d + of_nat i := m (s + of_nat i))) m"
  shows "i < k \<Longrightarrow> m' (d + of_nat i) = m (s + of_nat i)"
    and "(\<And>i. i < k \<Longrightarrow> x \<noteq> d + of_nat i) \<Longrightarrow> m' x = m x"
proof -
  let ?f = "\<lambda>i m. m(d + of_nat i := m (s + of_nat i))"
  let ?I = "\<lambda>k m'. (\<forall>i<k. m' (d + of_nat i) = m (s + of_nat i))
    \<and> (\<forall>x. (\<forall>i<k. x \<noteq> d + of_nat i) \<longrightarrow> m' x = m x)"
  have "?I k (for_up 0 k ?f m)"
  proof (rule for_up_invariant [where I = ?I])
    fix j t assume j: "0 \<le> j" "j < k" and I: "?I j t"
    have "t (s + of_nat j) = m (s + of_nat j)"
    proof -
      have "s + of_nat j \<noteq> d + of_nat i" if "i < j" for i
        using addr_out [OF d s, of i j] safe [of i j] that j(2) k by auto
      then show ?thesis using I by blast
    qed
    moreover have "d + of_nat i \<noteq> (d + of_nat j :: u64)" if "i < j" for i
      using addr_neq [OF d, of i j] that j(2) k by simp
    ultimately show "?I (Suc j) (?f j t)"
      using I by (auto simp: less_Suc_eq all_conj_distrib)
  qed simp_all
  then show "i < k \<Longrightarrow> m' (d + of_nat i) = m (s + of_nat i)"
    and "(\<And>i. i < k \<Longrightarrow> x \<noteq> d + of_nat i) \<Longrightarrow> m' x = m x" by (simp_all add: m'_def)
qed

lemma copy_down_bytes:
  assumes d: "unat d + n \<le> 2 ^ 64" and s: "unat s + n \<le> 2 ^ 64" and less: "unat s < unat d" and k: "k \<le> n"
  shows "(\<forall>i<k. copy_down d s k m (d + of_nat i) = m (s + of_nat i))
    \<and> (\<forall>x. (\<forall>i<k. x \<noteq> d + of_nat i) \<longrightarrow> copy_down d s k m x = m x)"
  using k
proof (induction k arbitrary: m)
  case (Suc k)
  let ?m = "m(d + of_nat k := m (s + of_nat k))"
  have IH: "\<forall>i<k. copy_down d s k ?m (d + of_nat i) = ?m (s + of_nat i)"
    "\<forall>x. (\<forall>i<k. x \<noteq> d + of_nat i) \<longrightarrow> copy_down d s k ?m x = ?m x"
    by (rule conjunct1 [OF Suc.IH] conjunct2 [OF Suc.IH], use Suc.prems in simp)+
  have "s + of_nat i \<noteq> d + of_nat k" if "i < k" for i
    using addr_out [OF s d, of i k] that Suc.prems less by auto
  then have low: "\<forall>i<k. copy_down d s k ?m (d + of_nat i) = m (s + of_nat i)" using IH(1) by simp
  have "\<forall>i<k. d + of_nat k \<noteq> d + of_nat i" using addr_neq [OF d, of k] Suc.prems by auto
  then have high: "copy_down d s k ?m (d + of_nat k) = m (s + of_nat k)" using IH(2) by simp
  show ?case
  proof (intro conjI allI impI)
    fix i assume "i < Suc k"
    then show "copy_down d s (Suc k) m (d + of_nat i) = m (s + of_nat i)"
      using low high by (cases "i = k") simp_all
  next
    fix x assume x: "\<forall>i<Suc k. x \<noteq> d + of_nat i"
    then have "copy_down d s k ?m x = ?m x" using IH(2) by simp
    then show "copy_down d s (Suc k) m x = m x" using x by simp
  qed
qed simp

lemma memmove_bytes:
  assumes d: "unat d + unat n \<le> 2 ^ 64" and s: "unat s + unat n \<le> 2 ^ 64"
  shows "i < unat n \<Longrightarrow> uacpi_memmove d s n m (d + of_nat i) = m (s + of_nat i)"
    and "(\<And>i. i < unat n \<Longrightarrow> x \<noteq> d + of_nat i) \<Longrightarrow> uacpi_memmove d s n m x = m x"
proof -
  have safe: "unat d + i \<noteq> unat s + j" if "\<not> s < d" "i < j" for i j
    using that by (simp add: word_less_nat_alt)
  show "uacpi_memmove d s n m (d + of_nat i) = m (s + of_nat i)" if "i < unat n"
    using copy_down_bytes [OF d s _ order_refl, of m] copy_up_bytes(1) [OF d s safe order_refl] that
    by (simp add: uacpi_memmove_def word_less_nat_alt)
  show "uacpi_memmove d s n m x = m x" if "\<And>i. i < unat n \<Longrightarrow> x \<noteq> d + of_nat i"
    using copy_down_bytes [OF d s _ order_refl, of m] copy_up_bytes(2) [OF d s safe order_refl] that
    by (simp add: uacpi_memmove_def word_less_nat_alt)
qed

lemma memcpy_bytes:
  assumes d: "unat d + unat n \<le> 2 ^ 64" and s: "unat s + unat n \<le> 2 ^ 64"
    and "unat d + unat n \<le> unat s \<or> unat s + unat n \<le> unat d"
  shows "i < unat n \<Longrightarrow> uacpi_memcpy d s n m (d + of_nat i) = m (s + of_nat i)"
    and "(\<And>i. i < unat n \<Longrightarrow> x \<noteq> d + of_nat i) \<Longrightarrow> uacpi_memcpy d s n m x = m x"
proof -
  have safe: "unat d + i \<noteq> unat s + j" if "i < j" "j < unat n" for i j using that assms(3) by auto
  note B = copy_up_bytes [OF d s safe order_refl, folded uacpi_memcpy_def]
  show "i < unat n \<Longrightarrow> uacpi_memcpy d s n m (d + of_nat i) = m (s + of_nat i)" by (rule B(1))
  show "(\<And>i. i < unat n \<Longrightarrow> x \<noteq> d + of_nat i) \<Longrightarrow> uacpi_memcpy d s n m x = m x" by (rule B(2))
qed

lemma memset_u64_byte:
  assumes "unat d + unat n \<le> 2 ^ 64" "x < 2 ^ 64"
  shows "uacpi_memset d c n m (of_nat x) = (if unat d \<le> x \<and> x < unat d + unat n then ucast c else m (of_nat x))"
  using fill_byte [OF assms, of "ucast c" m] unfolding uacpi_memset_def Let_def by (simp only: of_nat_unat ucast_id)

section \<open>Comparing\<close>

lemma ucast_u8_inj: "(ucast (x :: u8) :: u32) = ucast y \<longleftrightarrow> x = y"
proof -
  have "(ucast (ucast z :: u32) :: u8) = z" for z :: u8 by (rule bit_word_eqI) (simp add: bit_simps)
  then show ?thesis by metis
qed

lemma memcmp_zero: "uacpi_memcmp f g n = 0 \<longleftrightarrow> (\<forall>i < unat n. f (of_nat i) = g (of_nat i))"
proof (cases "scan_up 0 (unat n) (\<lambda>i. f (of_nat i) \<noteq> g (of_nat i))")
  case (Some i)
  have "(ucast (f (of_nat i)) :: u32) \<noteq> ucast (g (of_nat i))"
    using scan_up_SomeD(3) [OF Some] ucast_u8_inj by blast
  then show ?thesis using Some scan_up_SomeD [OF Some] by (auto simp: uacpi_memcmp_def)
next
  case None
  then have "\<forall>i < unat n. f (of_nat i) = g (of_nat i)" by (simp add: scan_up_None)
  then show ?thesis using None by (simp add: uacpi_memcmp_def)
qed

section \<open>Scanning bits\<close>

lemma bit_scan_forward_spec:
  "uacpi_bit_scan_forward v = (if v = 0 then 0 else of_nat (Suc (LEAST i. bit v i)))"
proof (cases "scan_up 0 64 (bit v)")
  case None
  then have "\<not> bit v i" for i using bit_imp_le_length [of v i] by (auto simp: scan_up_None)
  then have "v = 0" by (simp add: bit_eq_iff)
  then show ?thesis using None by (simp add: uacpi_bit_scan_forward_def builtin_ffsll_def)
next
  case (Some i)
  then have "(LEAST i. bit v i) = i" "bit v i"
    using scan_up_SomeD [OF Some] by (auto intro!: Least_equality leI)
  then show ?thesis using Some by (auto simp: uacpi_bit_scan_forward_def builtin_ffsll_def)
qed

lemma bit_scan_backward_spec:
  assumes "v \<noteq> 0"
  shows "\<exists>k<64. unat (uacpi_bit_scan_backward v) = Suc k \<and> bit v k \<and> (\<forall>j>k. \<not> bit v j)"
proof -
  obtain b where b: "bit v b" using assms by (auto simp: bit_eq_iff)
  then have "b < 64" using bit_imp_le_length [of v b] by simp
  then have "\<exists>i. scan_up 0 64 (\<lambda>i. bit v (63 - i)) = Some i"
    using b by (intro scan_up_found [of _ "63 - b"]) auto
  then obtain i where i: "scan_up 0 64 (\<lambda>i. bit v (63 - i)) = Some i" by blast
  note I = scan_up_SomeD [OF i]
  have "\<not> bit v j" if "j > 63 - i" for j
  proof (cases "j < 64")
    case True
    then show ?thesis using I(4) [of "63 - j"] that I(2) by auto
  qed (use bit_imp_le_length [of v j] in auto)
  moreover have "unat (uacpi_bit_scan_backward v) = Suc (63 - i)"
  proof -
    have "uacpi_bit_scan_backward v = of_nat (64 - i)"
      using assms i by (simp only: uacpi_bit_scan_backward_def builtin_clzll_def if_False option.case)
    moreover have "unat (of_nat (64 - i) :: u8) = 64 - i" by (simp only: unat_of_nat) (simp add: take_bit_nat_eq_self_iff)
    ultimately show ?thesis using I(2) by simp
  qed
  ultimately show ?thesis using I(2,3) by (intro exI [of _ "63 - i"]) auto
qed

end
