(* ===== verification/AcpiOs.thy ===== *)
theory AcpiOs
  imports AcpiMap AcpiString Pci Status
begin

text \<open>
  The rest of \<open>kernel/acpi/kernel_apis.c\<close>, the services the ACPI library asks of the kernel: logging,
  handles for PCI functions and ranges of I/O ports, memory, time, and the stubs for mutexes, events,
  spinlocks, interrupts and deferred work.

  A handle is the address of its structure in memory, NULL is 0, and an \<open>out\<close> pointer is an address the
  function stores to.  A result \<open>None\<close> stands for a call that does not return: a list walk or a wait that
  never ends.
\<close>

section \<open>Memory\<close>

definition uacpi_kernel_alloc :: "u64 \<Rightarrow> 'a acpi_scheme \<Rightarrow> (u64 \<times> 'a acpi_scheme) option" where
  "uacpi_kernel_alloc sz s =
     Option.bind (malloc sz (kheap s)) (\<lambda>(ptr, h).
       let s = s\<lparr>kheap := h\<rparr> in
       if ptr = 0
       then (case printf (CHR 0x0A # ''[uACPI OSL] CRITICAL: malloc(%d) returned NULL!'' @ [CHR 0x0A])
               [VInt (ucast sz)] s of
               Inl fault \<Rightarrow> None
             | Inr s \<Rightarrow> Some (ptr, s))
       else Some (ptr, s))"

definition uacpi_kernel_free :: "u64 \<Rightarrow> 'a acpi_scheme \<Rightarrow> 'a acpi_scheme option" where
  "uacpi_kernel_free q s = map_option (\<lambda>h. s\<lparr>kheap := h\<rparr>) (free q (kheap s))"

definition uacpi_builtin_alloc_zeroed :: "u64 \<Rightarrow> 'a acpi_scheme \<Rightarrow> (u64 \<times> 'a acpi_scheme) option" where
  "uacpi_builtin_alloc_zeroed sz s =
     Option.bind (uacpi_kernel_alloc sz s) (\<lambda>(ptr, s).
       if ptr = 0 then Some (ptr, s)
       else Some (ptr, set_bytes (uacpi_memset ptr 0 sz (bytes s)) s))"

section \<open>Log\<close>

definition uacpi_kernel_log :: "string \<Rightarrow> 'a acpi_scheme \<Rightarrow> printf_fault + 'a acpi_scheme" where
  "uacpi_kernel_log message s =
     (case printf ''[uACPI] %s'' [VStr message] s of
        Inl fault \<Rightarrow> Inl fault
      | Inr s \<Rightarrow> map_sum id scroll_screen (printf [CHR 0x0A] [] s))"

section \<open>PCI handles\<close>

text \<open>\<open>tinos_pci_handle_t\<close>: segment at 0, bus at 2, device at 3, function at 4; six bytes.\<close>

record uacpi_pci_address =
  segment :: u16
  bus :: u8
  device :: u8
  func :: u8

definition uacpi_kernel_pci_device_open ::
  "uacpi_pci_address \<Rightarrow> u64 \<Rightarrow> 'a acpi_scheme \<Rightarrow> (uacpi_status \<times> 'a acpi_scheme) option" where
  "uacpi_kernel_pci_device_open address out_handle s =
     (if out_handle = 0 then Some (UACPI_STATUS_INVALID_ARGUMENT, s)
      else
        Option.bind (uacpi_kernel_alloc 6 s) (\<lambda>(handle, s).
          if handle = 0 then Some (UACPI_STATUS_OUT_OF_MEMORY, s)
          else
            (let s = poke 2 handle (ucast (segment address)) s;
                 s = poke 1 (handle + 2) (ucast (bus address)) s;
                 s = poke 1 (handle + 3) (ucast (device address)) s;
                 s = poke 1 (handle + 4) (ucast (func address)) s
             in Some (UACPI_STATUS_OK, poke 8 out_handle handle s))))"

definition uacpi_kernel_pci_device_close :: "u64 \<Rightarrow> 'a acpi_scheme \<Rightarrow> 'a acpi_scheme option" where
  "uacpi_kernel_pci_device_close handle s = (if handle = 0 then Some s else uacpi_kernel_free handle s)"

definition pci_handle :: "u64 \<Rightarrow> 'a acpi_scheme \<Rightarrow> uacpi_pci_address" where
  "pci_handle handle s =
     \<lparr>segment = ucast (load 2 handle (bytes s)), bus = ucast (load 1 (handle + 2) (bytes s)),
      device = ucast (load 1 (handle + 3) (bytes s)), func = ucast (load 1 (handle + 4) (bytes s))\<rparr>"

definition uacpi_kernel_pci_read8 :: "u64 \<Rightarrow> u64 \<Rightarrow> u64 \<Rightarrow> 'a acpi_scheme \<Rightarrow> uacpi_status \<times> 'a acpi_scheme" where
  "uacpi_kernel_pci_read8 dev offset value_out s =
     (if dev = 0 \<or> value_out = 0 then (UACPI_STATUS_INVALID_ARGUMENT, s)
      else
        (let pci = pci_handle dev s;
             (v, s) = pci_config_read8 (bus pci) (device pci) (func pci) (ucast offset) s
         in (UACPI_STATUS_OK, poke 1 value_out (ucast v) s)))"

definition uacpi_kernel_pci_read16 :: "u64 \<Rightarrow> u64 \<Rightarrow> u64 \<Rightarrow> 'a acpi_scheme \<Rightarrow> uacpi_status \<times> 'a acpi_scheme" where
  "uacpi_kernel_pci_read16 dev offset value_out s =
     (if dev = 0 \<or> value_out = 0 then (UACPI_STATUS_INVALID_ARGUMENT, s)
      else
        (let pci = pci_handle dev s;
             (v, s) = pci_config_read16 (bus pci) (device pci) (func pci) (ucast offset) s
         in (UACPI_STATUS_OK, poke 2 value_out (ucast v) s)))"

definition uacpi_kernel_pci_read32 :: "u64 \<Rightarrow> u64 \<Rightarrow> u64 \<Rightarrow> 'a acpi_scheme \<Rightarrow> uacpi_status \<times> 'a acpi_scheme" where
  "uacpi_kernel_pci_read32 dev offset value_out s =
     (if dev = 0 \<or> value_out = 0 then (UACPI_STATUS_INVALID_ARGUMENT, s)
      else
        (let pci = pci_handle dev s;
             (v, s) = pci_config_read32 (bus pci) (device pci) (func pci) (ucast offset) s
         in (UACPI_STATUS_OK, poke 4 value_out (ucast v) s)))"

definition uacpi_kernel_pci_write8 :: "u64 \<Rightarrow> u64 \<Rightarrow> u8 \<Rightarrow> 'a acpi_scheme \<Rightarrow> uacpi_status \<times> 'a acpi_scheme" where
  "uacpi_kernel_pci_write8 dev offset v s =
     (if dev = 0 then (UACPI_STATUS_INVALID_ARGUMENT, s)
      else
        (let pci = pci_handle dev s
         in (UACPI_STATUS_OK, pci_config_write8 (bus pci) (device pci) (func pci) (ucast offset) v s)))"

definition uacpi_kernel_pci_write16 :: "u64 \<Rightarrow> u64 \<Rightarrow> u16 \<Rightarrow> 'a acpi_scheme \<Rightarrow> uacpi_status \<times> 'a acpi_scheme" where
  "uacpi_kernel_pci_write16 dev offset v s =
     (if dev = 0 then (UACPI_STATUS_INVALID_ARGUMENT, s)
      else
        (let pci = pci_handle dev s
         in (UACPI_STATUS_OK, pci_config_write16 (bus pci) (device pci) (func pci) (ucast offset) v s)))"

definition uacpi_kernel_pci_write32 :: "u64 \<Rightarrow> u64 \<Rightarrow> u32 \<Rightarrow> 'a acpi_scheme \<Rightarrow> uacpi_status \<times> 'a acpi_scheme" where
  "uacpi_kernel_pci_write32 dev offset v s =
     (if dev = 0 then (UACPI_STATUS_INVALID_ARGUMENT, s)
      else
        (let pci = pci_handle dev s
         in (UACPI_STATUS_OK, pci_config_write32 (bus pci) (device pci) (func pci) (ucast offset) v s)))"

section \<open>I/O port handles\<close>

text \<open>\<open>tinos_io_handle_t\<close>: base at 0, len at 8; sixteen bytes.\<close>

definition io_base :: "u64 \<Rightarrow> 'a acpi_scheme \<Rightarrow> u64" where
  "io_base io s = load 8 io (bytes s)"

definition io_len :: "u64 \<Rightarrow> 'a acpi_scheme \<Rightarrow> u64" where
  "io_len io s = load 8 (io + 8) (bytes s)"

definition uacpi_kernel_io_map :: "u64 \<Rightarrow> u64 \<Rightarrow> u64 \<Rightarrow> 'a acpi_scheme \<Rightarrow> (uacpi_status \<times> 'a acpi_scheme) option" where
  "uacpi_kernel_io_map base len out_handle s =
     (if out_handle = 0 \<or> len = 0 then Some (UACPI_STATUS_INVALID_ARGUMENT, s)
      else
        Option.bind (uacpi_kernel_alloc 16 s) (\<lambda>(io, s).
          if io = 0 then Some (UACPI_STATUS_OUT_OF_MEMORY, s)
          else
            (let s = poke 8 io base s;
                 s = poke 8 (io + 8) len s
             in Some (UACPI_STATUS_OK, poke 8 out_handle io s))))"

definition uacpi_kernel_io_unmap :: "u64 \<Rightarrow> 'a acpi_scheme \<Rightarrow> 'a acpi_scheme option" where
  "uacpi_kernel_io_unmap handle s = (if handle = 0 then Some s else uacpi_kernel_free handle s)"

definition uacpi_kernel_io_read8 :: "u64 \<Rightarrow> u64 \<Rightarrow> u64 \<Rightarrow> 'a acpi_scheme \<Rightarrow> uacpi_status \<times> 'a acpi_scheme" where
  "uacpi_kernel_io_read8 handle offset out_value s =
     (if handle = 0 \<or> out_value = 0 then (UACPI_STATUS_INVALID_ARGUMENT, s)
      else if offset \<ge> io_len handle s then (UACPI_STATUS_INVALID_ARGUMENT, s)
      else (let (v, s) = inb (ucast (io_base handle s + offset)) s
            in (UACPI_STATUS_OK, poke 1 out_value (ucast v) s)))"

definition uacpi_kernel_io_read16 :: "u64 \<Rightarrow> u64 \<Rightarrow> u64 \<Rightarrow> 'a acpi_scheme \<Rightarrow> uacpi_status \<times> 'a acpi_scheme" where
  "uacpi_kernel_io_read16 handle offset out_value s =
     (if handle = 0 \<or> out_value = 0 then (UACPI_STATUS_INVALID_ARGUMENT, s)
      else if offset + 2 > io_len handle s then (UACPI_STATUS_INVALID_ARGUMENT, s)
      else (let (v, s) = inw (ucast (io_base handle s + offset)) s
            in (UACPI_STATUS_OK, poke 2 out_value (ucast v) s)))"

definition uacpi_kernel_io_read32 :: "u64 \<Rightarrow> u64 \<Rightarrow> u64 \<Rightarrow> 'a acpi_scheme \<Rightarrow> uacpi_status \<times> 'a acpi_scheme" where
  "uacpi_kernel_io_read32 handle offset out_value s =
     (if handle = 0 \<or> out_value = 0 then (UACPI_STATUS_INVALID_ARGUMENT, s)
      else if offset + 4 > io_len handle s then (UACPI_STATUS_INVALID_ARGUMENT, s)
      else (let (v, s) = inl (ucast (io_base handle s + offset)) s
            in (UACPI_STATUS_OK, poke 4 out_value (ucast v) s)))"

definition uacpi_kernel_io_write8 :: "u64 \<Rightarrow> u64 \<Rightarrow> u8 \<Rightarrow> 'a acpi_scheme \<Rightarrow> uacpi_status \<times> 'a acpi_scheme" where
  "uacpi_kernel_io_write8 handle offset in_value s =
     (if handle = 0 then (UACPI_STATUS_INVALID_ARGUMENT, s)
      else if offset \<ge> io_len handle s then (UACPI_STATUS_INVALID_ARGUMENT, s)
      else (UACPI_STATUS_OK, outb (ucast (io_base handle s + offset)) in_value s))"

definition uacpi_kernel_io_write16 :: "u64 \<Rightarrow> u64 \<Rightarrow> u16 \<Rightarrow> 'a acpi_scheme \<Rightarrow> uacpi_status \<times> 'a acpi_scheme" where
  "uacpi_kernel_io_write16 handle offset in_value s =
     (if handle = 0 then (UACPI_STATUS_INVALID_ARGUMENT, s)
      else if offset \<ge> io_len handle s then (UACPI_STATUS_INVALID_ARGUMENT, s)
      else (UACPI_STATUS_OK, outw (ucast (io_base handle s + offset)) in_value s))"

definition uacpi_kernel_io_write32 :: "u64 \<Rightarrow> u64 \<Rightarrow> u32 \<Rightarrow> 'a acpi_scheme \<Rightarrow> uacpi_status \<times> 'a acpi_scheme" where
  "uacpi_kernel_io_write32 handle offset in_value s =
     (if handle = 0 then (UACPI_STATUS_INVALID_ARGUMENT, s)
      else if offset \<ge> io_len handle s then (UACPI_STATUS_INVALID_ARGUMENT, s)
      else (UACPI_STATUS_OK, outl (ucast (io_base handle s + offset)) in_value s))"

section \<open>Time\<close>

definition time_get_ns :: "'a acpi_scheme \<Rightarrow> u64 \<times> 'a acpi_scheme" where
  "time_get_ns s =
     (let (ticks, s) = rdtsc s;
          s = (if start_ticks s = 0 then s\<lparr>start_ticks := ticks\<rparr> else s)
      in ((ticks - start_ticks s) div 3, s))"

definition uacpi_kernel_get_nanoseconds_since_boot :: "'a acpi_scheme \<Rightarrow> u64 \<times> 'a acpi_scheme" where
  "uacpi_kernel_get_nanoseconds_since_boot = time_get_ns"

text \<open>\<open>while ((time_get_ns() - start) < duration) pause;\<close>\<close>

partial_function (option) spin_until :: "u64 \<Rightarrow> u64 \<Rightarrow> 'a acpi_scheme \<Rightarrow> 'a acpi_scheme option" where
  "spin_until start duration s =
     (if fst (time_get_ns s) - start < duration then spin_until start duration (snd (time_get_ns s))
      else Some (snd (time_get_ns s)))"

definition uacpi_kernel_stall :: "u8 \<Rightarrow> 'a acpi_scheme \<Rightarrow> 'a acpi_scheme option" where
  "uacpi_kernel_stall usec s =
     (let (start, s) = time_get_ns s in spin_until start (ucast usec * 1000) s)"

definition uacpi_kernel_sleep :: "u64 \<Rightarrow> 'a acpi_scheme \<Rightarrow> 'a acpi_scheme option" where
  "uacpi_kernel_sleep msec s =
     (let (start, s) = time_get_ns s; duration = msec * 1000000 in spin_until start duration s)"

section \<open>Mutexes, events and threads\<close>

definition uacpi_kernel_create_mutex :: "'a acpi_scheme \<Rightarrow> (u64 \<times> 'a acpi_scheme) option" where
  "uacpi_kernel_create_mutex = uacpi_kernel_alloc 1"

definition uacpi_kernel_free_mutex :: "u64 \<Rightarrow> 'a acpi_scheme \<Rightarrow> 'a acpi_scheme option" where
  "uacpi_kernel_free_mutex = uacpi_kernel_free"

definition uacpi_kernel_acquire_mutex :: "u64 \<Rightarrow> u16 \<Rightarrow> 'a acpi_scheme \<Rightarrow> uacpi_status \<times> 'a acpi_scheme" where
  "uacpi_kernel_acquire_mutex handle timeout s = (UACPI_STATUS_OK, s)"

definition uacpi_kernel_release_mutex :: "u64 \<Rightarrow> 'a acpi_scheme \<Rightarrow> 'a acpi_scheme" where
  "uacpi_kernel_release_mutex handle s = s"

text \<open>An event is one byte, \<open>signaled\<close>; a \<open>bool\<close> that is not 0 is true.\<close>

definition uacpi_kernel_create_event :: "'a acpi_scheme \<Rightarrow> (u64 \<times> 'a acpi_scheme) option" where
  "uacpi_kernel_create_event s =
     map_option (\<lambda>(event, h).
       let s = s\<lparr>kheap := h\<rparr> in if event = 0 then (0, s) else (event, poke 1 event 0 s))
       (malloc 1 (kheap s))"

definition uacpi_kernel_free_event :: "u64 \<Rightarrow> 'a acpi_scheme \<Rightarrow> 'a acpi_scheme option" where
  "uacpi_kernel_free_event handle s =
     (if handle = 0 then Some s else map_option (\<lambda>h. s\<lparr>kheap := h\<rparr>) (free handle (kheap s)))"

text \<open>
  The function returns a \<open>uacpi_status\<close> where its type says \<open>uacpi_bool\<close>: C turns every status but 0
  into \<open>true\<close>.
\<close>

definition uacpi_kernel_wait_for_event :: "u64 \<Rightarrow> u16 \<Rightarrow> 'a acpi_scheme \<Rightarrow> bool \<times> 'a acpi_scheme" where
  "uacpi_kernel_wait_for_event handle timeout s =
     (let (ret, s) =
        (if handle = 0 then (UACPI_STATUS_INVALID_ARGUMENT, s)
         else if load 1 handle (bytes s) \<noteq> 0 then (UACPI_STATUS_OK, poke 1 handle 0 s)
         else if timeout = 0 then (UACPI_STATUS_TIMEOUT, s)
         else (UACPI_STATUS_TIMEOUT, s))
      in (status_value ret \<noteq> 0, s))"

definition uacpi_kernel_signal_event :: "u64 \<Rightarrow> 'a acpi_scheme \<Rightarrow> 'a acpi_scheme" where
  "uacpi_kernel_signal_event handle s = (if handle = 0 then s else poke 1 handle 1 s)"

definition uacpi_kernel_reset_event :: "u64 \<Rightarrow> 'a acpi_scheme \<Rightarrow> 'a acpi_scheme" where
  "uacpi_kernel_reset_event handle s = (if handle \<noteq> 0 then poke 1 handle 0 s else s)"

definition uacpi_kernel_get_thread_id :: u64 where
  "uacpi_kernel_get_thread_id = 1"

section \<open>Interrupts and spinlocks\<close>

text \<open>The flags register: \<open>rest\<close> holds its other bits, bit 9 is the interrupt flag.\<close>

definition uacpi_kernel_disable_interrupts :: "u64 \<Rightarrow> 'a acpi_scheme \<Rightarrow> u64 \<times> 'a acpi_scheme" where
  "uacpi_kernel_disable_interrupts rest s =
     (let flags = (rest AND NOT (push_bit 9 1)) OR (if if_flag s then push_bit 9 1 else 0)
      in (flags, cli s))"

definition uacpi_kernel_restore_interrupts :: "u64 \<Rightarrow> 'a acpi_scheme \<Rightarrow> 'a acpi_scheme" where
  "uacpi_kernel_restore_interrupts flags s = (if flags AND push_bit 9 1 \<noteq> 0 then sti s else s)"

definition uacpi_kernel_install_interrupt_handler :: "u32 \<Rightarrow> u64 \<Rightarrow> 'a acpi_scheme \<Rightarrow> uacpi_status \<times> 'a acpi_scheme" where
  "uacpi_kernel_install_interrupt_handler irq out_irq_handle s =
     (UACPI_STATUS_OK, poke 8 out_irq_handle (ucast irq) s)"

definition uacpi_kernel_uninstall_interrupt_handler :: "u64 \<Rightarrow> 'a acpi_scheme \<Rightarrow> uacpi_status \<times> 'a acpi_scheme" where
  "uacpi_kernel_uninstall_interrupt_handler irq_handle s = (UACPI_STATUS_OK, s)"

definition uacpi_kernel_create_spinlock :: u64 where
  "uacpi_kernel_create_spinlock = 0xBAD010C"

definition uacpi_kernel_free_spinlock :: "u64 \<Rightarrow> 'a acpi_scheme \<Rightarrow> 'a acpi_scheme" where
  "uacpi_kernel_free_spinlock handle s = s"

definition uacpi_kernel_lock_spinlock :: "u64 \<Rightarrow> 'a acpi_scheme \<Rightarrow> u64 \<times> 'a acpi_scheme" where
  "uacpi_kernel_lock_spinlock handle s = (0, s)"

definition uacpi_kernel_unlock_spinlock :: "u64 \<Rightarrow> u64 \<Rightarrow> 'a acpi_scheme \<Rightarrow> 'a acpi_scheme" where
  "uacpi_kernel_unlock_spinlock handle flags s = s"

section \<open>Firmware and deferred work\<close>

definition uacpi_kernel_handle_firmware_request :: "'a acpi_scheme \<Rightarrow> uacpi_status \<times> 'a acpi_scheme" where
  "uacpi_kernel_handle_firmware_request s = (UACPI_STATUS_UNIMPLEMENTED, s)"

text \<open>The string literal \<open>"RSD PTR "\<close> as the bytes \<open>uacpi_memcmp\<close> reads.\<close>

definition rsdp_signature :: "u64 \<Rightarrow> u8" where
  "rsdp_signature i = of_char (''RSD PTR '' ! unat i)"

definition uacpi_kernel_get_rsdp :: "u64 \<Rightarrow> 'a acpi_scheme \<Rightarrow> uacpi_status \<times> 'a acpi_scheme" where
  "uacpi_kernel_get_rsdp out_rsdp_address s =
     (let bios_mem = 0xE0000 in
      case scan_up 0 (0x20000 div 16) (\<lambda>k.
        uacpi_memcmp (\<lambda>j. bytes s (bios_mem + of_nat (16 * k) + j)) rsdp_signature 8 = 0) of
        Some k \<Rightarrow> (UACPI_STATUS_OK, poke 8 out_rsdp_address (0xE0000 + of_nat (16 * k)) s)
      | None \<Rightarrow> (UACPI_STATUS_NOT_FOUND, s))"

definition uacpi_kernel_schedule_work ::
  "(u64 \<Rightarrow> 'a acpi_scheme \<Rightarrow> 'a acpi_scheme) \<Rightarrow> u64 \<Rightarrow> 'a acpi_scheme \<Rightarrow> uacpi_status \<times> 'a acpi_scheme" where
  "uacpi_kernel_schedule_work handler ctx s = (UACPI_STATUS_OK, handler ctx s)"

definition uacpi_kernel_wait_for_work_completion :: "'a acpi_scheme \<Rightarrow> uacpi_status \<times> 'a acpi_scheme" where
  "uacpi_kernel_wait_for_work_completion s = (UACPI_STATUS_OK, s)"

end
