(* ===== verification/AcpiOsProps.thy ===== *)
theory AcpiOsProps
  imports AcpiOs AcpiProps HeapProps
begin

text \<open>
  What the services of \<open>AcpiOs\<close> guarantee: memory and handles that overlap nothing in use, port accesses
  confined to a mapped range, the readings of the clock a wait takes, the protocol of events and the
  search for the RSDP.
\<close>

declare put_string_simps [simp del]

section \<open>Memory\<close>

lemma poke_changes:
  assumes "unat a + n \<le> 2 ^ 64"
  shows "changes (kheap s) (kheap (poke n a v s)) {unat a..<unat a + n}"
proof -
  have "store n a v m (of_nat x) = m (of_nat x)" if "x < 2 ^ 64" "x \<notin> {unat a..<unat a + n}" for m x
    using store_byte [OF assms that(1), of v m] that(2) by auto
  then show ?thesis by (simp add: changes_def poke_def set_bytes_def)
qed

definition outside :: "heap \<Rightarrow> u64 \<Rightarrow> nat \<Rightarrow> bool" where
  "outside h a n \<longleftrightarrow> unat a + n \<le> 2 ^ 64 \<and> (unat a + n \<le> pool h \<or> pool h + 0x100000 \<le> unat a)"

lemma poke_outside:
  assumes "heap_ok (kheap s)" "outside (kheap s) a n"
  shows "heap_ok (kheap (poke n a v s))" "pool (kheap (poke n a v s)) = pool (kheap s)"
    "live_bytes (kheap (poke n a v s)) = live_bytes (kheap s)" "extent (kheap (poke n a v s)) q = extent (kheap s) q"
proof -
  have "unat a + n \<le> 2 ^ 64" using assms(2) by (simp add: outside_def)
  note H = heap_write [OF assms(1) poke_changes [OF this, of s v]]
  show "heap_ok (kheap (poke n a v s))" "pool (kheap (poke n a v s)) = pool (kheap s)"
    "live_bytes (kheap (poke n a v s)) = live_bytes (kheap s)" "extent (kheap (poke n a v s)) q = extent (kheap s) q"
    using assms(2) by (intro H; auto simp: outside_def)+
qed

lemma poke_inside:
  assumes "heap_ok (kheap s)" "{unat a..<unat a + n} \<subseteq> live_bytes (kheap s)" "0 < n"
  shows "heap_ok (kheap (poke n a v s))" "pool (kheap (poke n a v s)) = pool (kheap s)"
    "live_bytes (kheap (poke n a v s)) = live_bytes (kheap s)" "extent (kheap (poke n a v s)) q = extent (kheap s) q"
proof -
  have "unat a + n - 1 \<in> live_bytes (kheap s)" using assms(2,3) by auto
  then have "unat a + n \<le> 2 ^ 64" using live_bytes_small [OF assms(1)] assms(3) by fastforce
  note H = heap_write [OF assms(1) poke_changes [OF this, of s v]]
  show "heap_ok (kheap (poke n a v s))" "pool (kheap (poke n a v s)) = pool (kheap s)"
    "live_bytes (kheap (poke n a v s)) = live_bytes (kheap s)" "extent (kheap (poke n a v s)) q = extent (kheap s) q"
    using assms(2) by (intro H; blast)+
qed

text \<open>What a successful allocation gives: a payload of its own, and nothing else moves.\<close>

definition fresh :: "heap \<Rightarrow> heap \<Rightarrow> u64 \<Rightarrow> nat \<Rightarrow> bool" where
  "fresh h h' q n \<longleftrightarrow> q \<noteq> 0 \<and> n \<le> extent h' q \<and> 0 < extent h' q \<and> pool h < unat q
     \<and> unat q + extent h' q \<le> pool h + 0x100000
     \<and> live_bytes h' = live_bytes h \<union> {unat q..<unat q + extent h' q}
     \<and> live_bytes h \<inter> {unat q..<unat q + extent h' q} = {}"

lemma put_string_kheap: "kheap (put_string c s) = kheap s" for s :: "'a acpi_scheme"
  by (rule more_fields(4)) (rule put_string_more)

lemma kernel_alloc:
  assumes "heap_ok (kheap s)"
  obtains q t where "uacpi_kernel_alloc sz s = Some (q, t)" "heap_ok (kheap t)" "pool (kheap t) = pool (kheap s)"
    "\<forall>x \<in> live_bytes (kheap s). byte (kheap t) x = byte (kheap s) x"
    "q = 0 \<and> live_bytes (kheap t) = live_bytes (kheap s) \<or> fresh (kheap s) (kheap t) q (unat sz) \<and> t = s\<lparr>kheap := kheap t\<rparr>"
proof -
  obtain q h where m: "malloc sz (kheap s) = Some (q, h)" "heap_ok h" "pool h = pool (kheap s)"
    "\<forall>x \<in> live_bytes (kheap s). byte h x = byte (kheap s) x"
    "q = 0 \<and> live_bytes h = live_bytes (kheap s) \<or> fresh (kheap s) h q (unat sz)"
    using malloc_contract [OF assms, of sz] unfolding fresh_def by blast
  show ?thesis
  proof (cases "q = 0")
    case True
    obtain t where t: "uacpi_kernel_alloc sz s = Some (q, t)" "kheap t = h"
      using m(1) True by (simp add: uacpi_kernel_alloc_def printf_render put_string_kheap)
    then show ?thesis using m True that [OF t(1)] by (simp add: fresh_def)
  next
    case False
    then have "uacpi_kernel_alloc sz s = Some (q, s\<lparr>kheap := h\<rparr>)" using m(1) by (simp add: uacpi_kernel_alloc_def)
    then show ?thesis using m False by (intro that [of q "s\<lparr>kheap := h\<rparr>"]) simp_all
  qed
qed

lemma kernel_free:
  assumes "heap_ok (kheap s)" "0 < extent (kheap s) q"
  obtains t where "uacpi_kernel_free q s = Some t" "heap_ok (kheap t)"
    "live_bytes (kheap t) = live_bytes (kheap s) - {unat q..<unat q + extent (kheap s) q}"
    "\<forall>x \<in> live_bytes (kheap t). byte (kheap t) x = byte (kheap s) x"
proof -
  obtain h where h: "free q (kheap s) = Some h" "heap_ok h"
    "live_bytes h = live_bytes (kheap s) - {unat q..<unat q + extent (kheap s) q}"
    "\<forall>x \<in> live_bytes h. byte h x = byte (kheap s) x"
    using free_contract [OF assms] by blast
  then show ?thesis by (intro that [of "s\<lparr>kheap := h\<rparr>"]) (simp_all add: uacpi_kernel_free_def)
qed


section \<open>Ranges of I/O ports\<close>

text \<open>
  \<open>uacpi_kernel_io_map\<close> either reports that memory ran out or stores a handle at \<open>out_handle\<close> that lets 8-bit
  accesses through exactly at the offsets below \<open>len\<close>, to the port \<open>base + offset\<close>; memory in use is not
  touched, and \<open>uacpi_kernel_io_unmap\<close> gives back precisely what the handle took.
\<close>

lemma io_handle:
  assumes ok: "heap_ok (kheap s)" and q: "fresh (kheap s) (kheap u) q 16" "heap_ok (kheap u)" "pool (kheap u) = pool (kheap s)"
    and out: "outside (kheap s) out 8"
    and t: "t = poke 8 out q (poke 8 (q + 8) len (poke 8 q base u))"
  shows "heap_ok (kheap t)" "pool (kheap t) = pool (kheap s)" "live_bytes (kheap t) = live_bytes (kheap u)"
    "extent (kheap t) q = extent (kheap u) q" "load 8 out (bytes t) = q" "io_base q t = base" "io_len q t = len"
    "x \<in> live_bytes (kheap s) \<Longrightarrow> byte (kheap t) x = byte (kheap u) x"
proof -
  have Q: "pool (kheap s) < unat q" "unat q + extent (kheap u) q \<le> pool (kheap s) + 0x100000" "16 \<le> extent (kheap u) q"
    "{unat q..<unat q + extent (kheap u) q} \<subseteq> live_bytes (kheap u)"
    "live_bytes (kheap s) \<inter> {unat q..<unat q + extent (kheap u) q} = {}"
    using q(1) by (auto simp: fresh_def)
  have lim: "pool (kheap s) + 0x100000 \<le> 2 ^ 64" by (rule heap_ok_pool(2) [OF ok])
  have room: "room q 16" using Q lim by (simp add: room_def)
  have q8: "unat (q + 8) = unat q + 8" using field_addr [OF room, of 8] by simp
  define v where "v = poke 8 q base u"
  define w where "w = poke 8 (q + 8) len v"
  have iv: "{unat q..<unat q + 8} \<subseteq> live_bytes (kheap u)" using Q(3,4) by auto
  note V = poke_inside [OF q(2) iv, where v = base, folded v_def, simplified]
  have iw: "{unat (q + 8)..<unat (q + 8) + 8} \<subseteq> live_bytes (kheap v)" using Q(3,4) by (auto simp: q8 V)
  note W = poke_inside [OF V(1) iw, where v = len, folded w_def, simplified]
  have o: "outside (kheap w) out 8" using out by (simp add: outside_def W V q(3))
  have tw: "t = poke 8 out q w" by (simp add: t w_def v_def)
  note T = poke_outside [OF W(1) o, where v = q, folded tw]
  show "heap_ok (kheap t)" "pool (kheap t) = pool (kheap s)" "live_bytes (kheap t) = live_bytes (kheap u)"
    "extent (kheap t) q = extent (kheap u) q"
    using T by (simp_all add: W V q(3))
  have bt: "bytes t = store 8 out q (store 8 (q + 8) len (store 8 q base (bytes u)))"
    by (simp add: t poke_def set_bytes_def)
  have O: "unat out + 8 \<le> 2 ^ 64" "unat out + 8 \<le> unat q \<or> unat q + 16 \<le> unat out"
    using out Q by (auto simp: outside_def)
  have ro: "room out 8" using O(1) by (simp add: room_def)
  show "load 8 out (bytes t) = q" unfolding bt using field_same_0 [OF ro, of 8] by (simp add: take_bit_word_eq_self)
  have away: "load 8 p (store 8 out v' m) = load 8 p m" if "unat q \<le> unat p" "unat p + 8 \<le> unat q + 16" for p v' m
    using load_store_other [of "unat out" 8 "unat p" 8 v' m] O that Q lim by auto
  show "io_base q t = base" "io_len q t = len"
    unfolding io_base_def io_len_def bt
    by (simp_all add: away q8 field_same_0 [OF room] field_other_0 [OF room] field_same [OF room] take_bit_word_eq_self)
  assume x: "x \<in> live_bytes (kheap s)"
  have xs: "x < 2 ^ 64" by (rule live_bytes_small [OF ok x])
  have xq: "x \<notin> {unat q..<unat q + 16}" using x Q(3,5) by fastforce
  have xo: "x \<notin> {unat out..<unat out + 8}"
    using live_bound [of x "pool (kheap s)" "blocks (kheap s)"] x out heap_ok_span(1) [OF ok]
    by (auto simp: outside_def live_bytes_def)
  have "changes (kheap u) (kheap v) {unat q..<unat q + 16}"
    unfolding v_def using Q lim by (intro changes_mono [OF poke_changes]) auto
  moreover have "changes (kheap v) (kheap w) {unat q..<unat q + 16}"
    unfolding w_def using Q lim by (intro changes_mono [OF poke_changes]) (auto simp: q8)
  moreover have "changes (kheap w) (kheap t) {unat out..<unat out + 8}"
    unfolding tw by (rule poke_changes [OF O(1)])
  ultimately show "byte (kheap t) x = byte (kheap u) x" using xs xq xo by (simp add: changes_def)
qed


section \<open>Events\<close>

text \<open>Waits, signals and resets on one event, in any order, with the results of the waits.\<close>

datatype event_op = Wait u16 | Signal | Reset

fun run_event :: "u64 \<Rightarrow> event_op list \<Rightarrow> 'a acpi_scheme \<Rightarrow> bool list \<times> 'a acpi_scheme" where
  "run_event h [] s = ([], s)"
| "run_event h (Wait timeout # ops) s =
     (let (r, s) = uacpi_kernel_wait_for_event h timeout s; (rs, s) = run_event h ops s in (r # rs, s))"
| "run_event h (Signal # ops) s = run_event h ops (uacpi_kernel_signal_event h s)"
| "run_event h (Reset # ops) s = run_event h ops (uacpi_kernel_reset_event h s)"

definition signaled :: "u64 \<Rightarrow> 'a acpi_scheme \<Rightarrow> bool" where
  "signaled h s \<longleftrightarrow> load 1 h (bytes s) \<noteq> 0"

lemma signaled_poke: "\<not> signaled h (poke (Suc 0) h 0 s)" "signaled h (poke (Suc 0) h 1 s)"
  by (simp_all add: signaled_def poke_def set_bytes_def)

text \<open>
  The event of \<open>kernel_api.h\<close>: a counter that a signal increments and a reset sets to 0; a wait finds it positive,
  decrements it and answers true, or times out and answers false (a run in which nobody signals meanwhile).
\<close>

fun documented_event :: "event_op list \<Rightarrow> nat \<Rightarrow> bool list \<times> nat" where
  "documented_event [] n = ([], n)"
| "documented_event (Wait timeout # ops) n = (let (rs, m) = documented_event ops (n - 1) in ((0 < n) # rs, m))"
| "documented_event (Signal # ops) n = documented_event ops (n + 1)"
| "documented_event (Reset # ops) n = documented_event ops 0"

text \<open>No signal comes while the counter is positive, and no infinite wait (a timeout of 0xFFFF) while it is 0.\<close>

fun paced :: "event_op list \<Rightarrow> nat \<Rightarrow> bool" where
  "paced [] n = True"
| "paced (Wait timeout # ops) n = ((timeout = 0xFFFF \<longrightarrow> 0 < n) \<and> paced ops (n - 1))"
| "paced (Signal # ops) n = (n = 0 \<and> paced ops (n + 1))"
| "paced (Reset # ops) n = paced ops 0"

lemma wait_flag:
  assumes "h \<noteq> 0"
  shows "uacpi_kernel_wait_for_event h timeout s = (\<not> signaled h s, if signaled h s then poke 1 h 0 s else s)"
  using assms by (simp add: uacpi_kernel_wait_for_event_def signaled_def)

lemma run_event_counter:
  assumes "h \<noteq> 0" "paced ops n" "n = (if signaled h s then 1 else 0)"
  shows "fst (run_event h ops s) = map Not (fst (documented_event ops n))
    \<and> (if signaled h (snd (run_event h ops s)) then 1 else 0) = snd (documented_event ops n)"
  using assms(2,3)
proof (induction ops arbitrary: s n)
  case Nil
  then show ?case by simp
next
  case (Cons op ops)
  show ?case
  proof (cases op)
    case (Wait timeout)
    let ?s = "if signaled h s then poke 1 h 0 s else s"
    have "\<not> signaled h ?s" by (simp add: signaled_poke)
    then show ?thesis using Cons.IH [of 0 ?s] Cons.prems
      by (cases "signaled h s") (simp_all add: Wait wait_flag [OF assms(1)] Let_def case_prod_beta)
  next
    case Signal
    then have "paced ops 1" "n = 0" using Cons.prems by auto
    then show ?thesis using Cons.IH [of 1 "poke 1 h 1 s"] assms(1)
      by (simp add: Signal uacpi_kernel_signal_event_def signaled_poke)
  next
    case Reset
    then show ?thesis using Cons.IH [of 0 "poke 1 h 0 s"] Cons.prems assms(1)
      by (simp add: uacpi_kernel_reset_event_def signaled_poke)
  qed
qed

lemma run_event_lost:
  assumes "h \<noteq> 0"
  shows "fst (run_event h [Signal, Signal, Wait a, Wait b] s) = [False, True]"
  using assms
  by (simp add: uacpi_kernel_signal_event_def wait_flag signaled_poke Let_def case_prod_beta)

section \<open>The RSDP\<close>

definition rsdp_at :: "'a acpi_scheme \<Rightarrow> nat \<Rightarrow> bool" where
  "rsdp_at s a \<longleftrightarrow> map (\<lambda>j. bytes s (of_nat (a + j))) [0..<8] = map of_char ''RSD PTR ''"

lemma rsdp_at_memcmp:
  "uacpi_memcmp (\<lambda>j. bytes s (of_nat a + j)) rsdp_signature 8 = 0 \<longleftrightarrow> rsdp_at s a"
proof -
  define xs where "xs = ''RSD PTR ''"
  have len: "length xs = 8" by (simp add: xs_def)
  have e: "map of_char xs = map (\<lambda>j. of_char (xs ! j) :: u8) [0..<8]"
    by (rule nth_equalityI) (simp_all add: len)
  have u: "unat (of_nat i :: u64) = i" if "i < 8" for i using that by (intro unat_addr) simp
  have "unat (8 :: u64) = 8" by simp
  then show ?thesis
    unfolding memcmp_zero rsdp_at_def rsdp_signature_def xs_def [symmetric] e by (auto simp: u)
qed

section \<open>The clock\<close>

text \<open>The value of the time-stamp counter at the \<open>k\<close>-th reading from a state on.\<close>

definition reading :: "'a acpi_scheme \<Rightarrow> nat \<Rightarrow> u64" where
  "reading s k = tsc_in s (replicate k Rdtsc @ hw_log s)"

definition epoch :: "'a acpi_scheme \<Rightarrow> u64" where
  "epoch s = (if start_ticks s = 0 then reading s 0 else start_ticks s)"

definition ns_at :: "'a acpi_scheme \<Rightarrow> nat \<Rightarrow> u64" where
  "ns_at s k = (reading s k - epoch s) div 3"

definition after_readings :: "nat \<Rightarrow> 'a acpi_scheme \<Rightarrow> 'a acpi_scheme" where
  "after_readings k s = s\<lparr>hw_log := replicate k Rdtsc @ hw_log s, start_ticks := epoch s\<rparr>"

lemma time_first: "time_get_ns s = (ns_at s 0, after_readings 1 s)"
  by (simp add: time_get_ns_def rdtsc_def emit_def Let_def ns_at_def epoch_def after_readings_def reading_def)

lemma time_later:
  assumes "epoch s \<noteq> 0"
  shows "time_get_ns (after_readings k s) = (ns_at s k, after_readings (Suc k) s)"
  using assms
  by (simp add: time_get_ns_def rdtsc_def emit_def Let_def ns_at_def after_readings_def reading_def)


definition first_late :: "'a acpi_scheme \<Rightarrow> u64 \<Rightarrow> u64 \<Rightarrow> nat \<Rightarrow> nat \<Rightarrow> bool" where
  "first_late s start d k j \<longleftrightarrow> k \<le> j \<and> \<not> ns_at s j - start < d \<and> (\<forall>i. k \<le> i \<longrightarrow> i < j \<longrightarrow> ns_at s i - start < d)"

lemma spin_until_sound:
  assumes e: "epoch s \<noteq> 0" and run: "spin_until start d u = Some t"
  shows "\<forall>k. u = after_readings k s \<longrightarrow> (\<exists>j. first_late s start d k j \<and> t = after_readings (Suc j) s)"
  using run
proof (rule spin_until.raw_induct [rotated, where P = "\<lambda>start d u t. \<forall>k. u = after_readings k s \<longrightarrow>
    (\<exists>j. first_late s start d k j \<and> t = after_readings (Suc j) s)"])
  fix spin start d u t
  assume IH: "\<And>start d u t. spin start d u = Some t \<Longrightarrow>
      \<forall>k. u = after_readings k s \<longrightarrow> (\<exists>j. first_late s start d k j \<and> t = after_readings (Suc j) s)"
    and step: "(if fst (time_get_ns u) - start < d then spin start d (snd (time_get_ns u))
      else Some (snd (time_get_ns u))) = Some t"
  show "\<forall>k. u = after_readings k s \<longrightarrow> (\<exists>j. first_late s start d k j \<and> t = after_readings (Suc j) s)"
  proof (intro allI impI)
    fix k assume u: "u = after_readings k s"
    note T = time_later [OF e, of k]
    show "\<exists>j. first_late s start d k j \<and> t = after_readings (Suc j) s"
    proof (cases "ns_at s k - start < d")
      case True
      then have "spin start d (after_readings (Suc k) s) = Some t" using step by (simp add: u T)
      from IH [OF this] obtain j where j: "first_late s start d (Suc k) j" "t = after_readings (Suc j) s" by blast
      have "ns_at s i - start < d" if "k \<le> i" "i < j" for i
        using j(1) that True by (cases "i = k") (simp_all add: first_late_def)
      then show ?thesis using j by (intro exI [of _ j]) (simp add: first_late_def)
    next
      case False
      then show ?thesis using step by (intro exI [of _ k]) (simp add: u T first_late_def)
    qed
  qed
qed

lemma spin_until_ends:
  assumes e: "epoch s \<noteq> 0" and l: "first_late s start d k j"
  shows "spin_until start d (after_readings k s) = Some (after_readings (Suc j) s)"
  using l
proof (induction "j - k" arbitrary: k)
  case 0
  then have "k = j" by (simp add: first_late_def)
  then show ?case using 0(2) time_later [OF e, of k] by (subst spin_until.simps) (simp add: first_late_def)
next
  case (Suc n)
  then have k: "k < j" "ns_at s k - start < d" by (simp_all add: first_late_def)
  have "spin_until start d (after_readings (Suc k) s) = Some (after_readings (Suc j) s)"
    using Suc.hyps(2) Suc.prems k by (intro Suc.hyps(1)) (auto simp: first_late_def)
  then show ?case using k time_later [OF e, of k] by (subst spin_until.simps) simp
qed

lemma spin_until_iff:
  assumes "epoch s \<noteq> 0"
  shows "spin_until start d (after_readings k s) = Some t \<longleftrightarrow>
    (\<exists>j. first_late s start d k j \<and> t = after_readings (Suc j) s)"
  using spin_until_sound [OF assms, of start d "after_readings k s" t] spin_until_ends [OF assms, of start d k]
  by auto

section \<open>Properties\<close>

text \<open>
  \<open>uacpi_builtin_alloc_zeroed\<close> always returns; what it returns is NULL or \<open>sz\<close> zero bytes that overlap no
  byte in use, and no byte that was in use changes.
\<close>

theorem acpi_alloc_zeroed:
  assumes "heap_ok (kheap s)"
  shows "\<exists>q t. uacpi_builtin_alloc_zeroed sz s = Some (q, t) \<and> heap_ok (kheap t)
    \<and> (\<forall>x \<in> live_bytes (kheap s). byte (kheap t) x = byte (kheap s) x)
    \<and> (if q = 0 then live_bytes (kheap t) = live_bytes (kheap s)
       else live_bytes (kheap s) \<union> {unat q..<unat q + unat sz} \<subseteq> live_bytes (kheap t)
         \<and> live_bytes (kheap s) \<inter> {unat q..<unat q + unat sz} = {}
         \<and> (\<forall>i < unat sz. bytes t (q + of_nat i) = 0))"
proof -
  obtain q u where a: "uacpi_kernel_alloc sz s = Some (q, u)" "heap_ok (kheap u)" "pool (kheap u) = pool (kheap s)"
    "\<forall>x \<in> live_bytes (kheap s). byte (kheap u) x = byte (kheap s) x"
    "q = 0 \<and> live_bytes (kheap u) = live_bytes (kheap s) \<or> fresh (kheap s) (kheap u) q (unat sz)"
    using kernel_alloc [OF assms, of sz] by metis
  show ?thesis
  proof (cases "q = 0")
    case True
    then show ?thesis using a by (simp add: uacpi_builtin_alloc_zeroed_def fresh_def)
  next
    case False
    then have Q: "unat sz \<le> extent (kheap u) q" "unat q + extent (kheap u) q \<le> pool (kheap s) + 0x100000"
      "live_bytes (kheap u) = live_bytes (kheap s) \<union> {unat q..<unat q + extent (kheap u) q}"
      "live_bytes (kheap s) \<inter> {unat q..<unat q + extent (kheap u) q} = {}"
      using a(5) by (simp_all add: fresh_def)
    have lim: "unat q + unat sz \<le> 2 ^ 64" using Q(1,2) heap_ok_pool(2) [OF assms] by simp
    define t where "t = set_bytes (uacpi_memset q 0 sz (bytes u)) u"
    have b: "bytes t (of_nat x) = (if unat q \<le> x \<and> x < unat q + unat sz then 0 else bytes u (of_nat x))" if "x < 2 ^ 64" for x
      using memset_u64_byte [OF lim that] by (simp add: t_def set_bytes_def)
    have c: "changes (kheap u) (kheap t) {unat q..<unat q + unat sz}"
      using b by (auto simp: changes_def t_def set_bytes_def)
    note H = heap_write [OF a(2) c]
    have S: "x \<in> live_bytes (kheap u)" if "x \<in> {unat q..<unat q + unat sz}" for x using that Q(1,3) by auto
    have z: "bytes t (q + of_nat i) = 0" if "i < unat sz" for i
      using b [of "unat q + i"] that lim by simp
    have "byte (kheap t) x = byte (kheap s) x" if x: "x \<in> live_bytes (kheap s)" for x
      using b [OF live_bytes_small [OF assms x]] a(4) x Q(1,4) by fastforce
    moreover have "uacpi_builtin_alloc_zeroed sz s = Some (q, t)"
      using a(1) False by (simp add: uacpi_builtin_alloc_zeroed_def t_def)
    moreover have "heap_ok (kheap t)" "live_bytes (kheap t) = live_bytes (kheap u)" using H(1,4) S by blast+
    ultimately show ?thesis using False Q z by fastforce
  qed
qed


lemma acpi_start_heap: "kheap acpi_start = heap_start"
  by (simp add: acpi_start_def heap_start_def)

theorem acpi_alloc_zeroed_witness:
  "\<exists>q t. uacpi_builtin_alloc_zeroed 48 acpi_start = Some (q, t) \<and> heap_ok (kheap t) \<and> (q \<noteq> 0 \<longrightarrow> bytes t (q + 47) = 0)"
proof -
  have "heap_ok (kheap acpi_start)" by (simp add: acpi_start_heap heap_start_ok)
  from acpi_alloc_zeroed [OF this, of 48] obtain q t where
    t: "uacpi_builtin_alloc_zeroed 48 acpi_start = Some (q, t)" "heap_ok (kheap t)"
      "q \<noteq> 0 \<longrightarrow> (\<forall>i < unat (48 :: u64). bytes t (q + of_nat i) = 0)" by (auto split: if_splits)
  have "q \<noteq> 0 \<longrightarrow> bytes t (q + of_nat 47) = 0" using t(3) by (auto dest: spec [of _ 47])
  then show ?thesis using t(1,2) by auto
qed

text \<open>
  \<open>uacpi_kernel_io_map\<close> either reports that memory ran out or stores a handle at \<open>out_handle\<close> that lets
  8-bit accesses through exactly at the offsets below \<open>len\<close>, to the port \<open>base + offset\<close>; no byte in use
  changes, and \<open>uacpi_kernel_io_unmap\<close> gives back precisely the memory the handle took.
\<close>

theorem io_map_window:
  assumes "heap_ok (kheap s)" "len \<noteq> 0" "out \<noteq> 0" "outside (kheap s) out 8"
  shows "\<exists>status t. uacpi_kernel_io_map base len out s = Some (status, t) \<and> heap_ok (kheap t)
    \<and> (\<forall>x \<in> live_bytes (kheap s). byte (kheap t) x = byte (kheap s) x)
    \<and> (if status = UACPI_STATUS_OK
       then (let io = load 8 out (bytes t) in
           (\<forall>offset v. uacpi_kernel_io_write8 io offset v t =
              (if offset < len then (UACPI_STATUS_OK, outb (ucast (base + offset)) v t) else (UACPI_STATUS_INVALID_ARGUMENT, t)))
         \<and> (\<forall>offset r. r \<noteq> 0 \<longrightarrow> uacpi_kernel_io_read8 io offset r t =
              (if offset < len then (let (v, u) = inb (ucast (base + offset)) t in (UACPI_STATUS_OK, poke 1 r (ucast v) u))
               else (UACPI_STATUS_INVALID_ARGUMENT, t)))
         \<and> (\<exists>u. uacpi_kernel_io_unmap io t = Some u \<and> heap_ok (kheap u) \<and> live_bytes (kheap u) = live_bytes (kheap s)))
       else status = UACPI_STATUS_OUT_OF_MEMORY \<and> live_bytes (kheap t) = live_bytes (kheap s))"
proof -
  obtain q u where a: "uacpi_kernel_alloc 16 s = Some (q, u)" "heap_ok (kheap u)" "pool (kheap u) = pool (kheap s)"
    "\<forall>x \<in> live_bytes (kheap s). byte (kheap u) x = byte (kheap s) x"
    "q = 0 \<and> live_bytes (kheap u) = live_bytes (kheap s) \<or> fresh (kheap s) (kheap u) q (unat (16 :: u64))"
    using kernel_alloc [OF assms(1), of 16] by metis
  show ?thesis
  proof (cases "q = 0")
    case True
    then show ?thesis using a assms(2,3) by (simp add: uacpi_kernel_io_map_def fresh_def)
  next
    case False
    then have f: "fresh (kheap s) (kheap u) q 16" using a(5) by simp
    define t where "t = poke 8 out q (poke 8 (q + 8) len (poke 8 q base u))"
    note T = io_handle [OF assms(1) f a(2,3) assms(4) t_def]
    have F: "0 < extent (kheap t) q" "live_bytes (kheap s) \<inter> {unat q..<unat q + extent (kheap t) q} = {}"
      "live_bytes (kheap t) = live_bytes (kheap s) \<union> {unat q..<unat q + extent (kheap t) q}"
      using f by (simp_all add: T fresh_def)
    obtain w where w: "uacpi_kernel_free q t = Some w" "heap_ok (kheap w)"
      "live_bytes (kheap w) = live_bytes (kheap t) - {unat q..<unat q + extent (kheap t) q}"
      using kernel_free [OF T(1) F(1)] by metis
    have "live_bytes (kheap w) = live_bytes (kheap s)" unfolding w(3) F(3) using F(2) by blast
    moreover have "uacpi_kernel_io_map base len out s = Some (UACPI_STATUS_OK, t)"
      using a(1) False assms(2,3) by (simp add: uacpi_kernel_io_map_def t_def Let_def)
    ultimately show ?thesis using w(1,2) T(1,8) a(4) False
      by (simp add: T(5-7) uacpi_kernel_io_write8_def uacpi_kernel_io_read8_def uacpi_kernel_io_unmap_def not_le [symmetric])
  qed
qed

theorem io_map_window_witness:
  "\<exists>status t. uacpi_kernel_io_map 0x60 5 0x1000 acpi_start = Some (status, t) \<and> heap_ok (kheap t)"
proof -
  have "heap_ok (kheap acpi_start)" "outside (kheap acpi_start) 0x1000 8"
    by (simp_all add: acpi_start_heap heap_start_ok outside_def heap_start_facts)
  from io_map_window [OF this(1) _ _ this(2), of 5 "0x60"] show ?thesis by auto
qed

text \<open>
  The wider writes of a handle check less than the reads: a 16-bit or 32-bit write at the last offset of
  the range goes out, to ports beyond it, where the read of the same width is refused.
\<close>

theorem io_write16_beyond_window:
  assumes "handle \<noteq> 0" "1 < io_len handle s" "io_len handle s < - 4" "r \<noteq> 0"
  shows "uacpi_kernel_io_write16 handle (io_len handle s - 1) v s
      = (UACPI_STATUS_OK, outw (ucast (io_base handle s + (io_len handle s - 1))) v s)
    \<and> uacpi_kernel_io_read16 handle (io_len handle s - 1) r s = (UACPI_STATUS_INVALID_ARGUMENT, s)"
proof -
  have "unat (- 4 :: u64) = 2 ^ 64 - 4" by simp
  then have u: "1 < unat (io_len handle s)" "unat (io_len handle s) < 2 ^ 64 - 4"
    using assms(2,3) by (simp_all add: word_less_nat_alt)
  have "io_len handle s - 1 + 2 = io_len handle s + 1" by simp
  moreover have "unat (io_len handle s + 1) = unat (io_len handle s) + 1"
    using u by (subst unat_plus_nowrap) simp_all
  ultimately have "io_len handle s < io_len handle s - 1 + 2" by (simp only: word_less_nat_alt)
  moreover have "io_len handle s - 1 < io_len handle s"
    using u by (simp add: word_less_nat_alt unat_sub word_le_nat_alt)
  ultimately show ?thesis
    using assms(1,4) by (simp add: uacpi_kernel_io_write16_def uacpi_kernel_io_read16_def)
qed

text \<open>
  C24. Measured against the event of \<open>kernel_api.h\<close>, a counter whose wait answers true when it found it positive,
  the kernel's event, of a handle that is not null, answers the opposite: as long as no signal comes while the counter is positive and no
  infinite wait while it is 0, the results of the waits are the negations of the documented ones
  and the flag in the event holds the documented counter.  A signal that comes while it is positive is lost: after two signals the second wait reports what a timeout reports, where the
  documented one succeeds.
\<close>

theorem event_results_inverted:
  assumes "h \<noteq> 0"
  shows "(paced ops (if signaled h s then 1 else 0) \<longrightarrow>
      fst (run_event h ops s) = map Not (fst (documented_event ops (if signaled h s then 1 else 0)))
      \<and> (if signaled h (snd (run_event h ops s)) then 1 else 0) = snd (documented_event ops (if signaled h s then 1 else 0)))
    \<and> fst (run_event h [Signal, Signal, Wait a, Wait b] s) = [False, True]
    \<and> fst (documented_event [Signal, Signal, Wait a, Wait b] 0) = [True, True]"
  using run_event_counter [OF assms _ refl, of ops s] run_event_lost [OF assms, of a b s] by (simp add: Let_def)

theorem event_results_inverted_witness:
  "fst (run_event 0x1000 [Reset, Wait 5, Signal, Wait 5, Wait 5] acpi_start) = [True, False, True]"
  using event_results_inverted [of "0x1000" "[Reset, Wait 5, Signal, Wait 5, Wait 5]" acpi_start] by simp

text \<open>
  \<open>uacpi_kernel_get_rsdp\<close> stores the lowest 16-byte aligned address of the BIOS area, from 0xE0000 to
  0xFFFFF, at which the 8 bytes of the signature stand, and reports NOT_FOUND without a store when there
  is none.
\<close>

theorem get_rsdp_first:
  "uacpi_kernel_get_rsdp out s =
     (if \<exists>k<0x2000. rsdp_at s (0xE0000 + 16 * k)
      then (UACPI_STATUS_OK, poke 8 out (of_nat (0xE0000 + 16 * (LEAST k. rsdp_at s (0xE0000 + 16 * k)))) s)
      else (UACPI_STATUS_NOT_FOUND, s))"
proof -
  have m: "uacpi_memcmp (\<lambda>j. bytes s (0xE0000 + of_nat (16 * k) + j)) rsdp_signature 8 = 0
      \<longleftrightarrow> rsdp_at s (0xE0000 + 16 * k)" for k
  proof -
    have "(0xE0000 + of_nat (16 * k) :: u64) = of_nat (0xE0000 + 16 * k)" by simp
    then show ?thesis using rsdp_at_memcmp by (simp only:)
  qed
  show ?thesis
  proof (cases "scan_up 0 (0x20000 div 16) (\<lambda>k. rsdp_at s (0xE0000 + 16 * k))")
    case None
    then have none: "\<not> (\<exists>k<0x2000. rsdp_at s (0xE0000 + 16 * k))" by (auto simp: scan_up_None)
    show ?thesis unfolding uacpi_kernel_get_rsdp_def Let_def m by (simp only: None option.case none if_False)
  next
    case (Some k)
    note K = scan_up_SomeD [OF Some]
    have "(LEAST k. rsdp_at s (0xE0000 + 16 * k)) = k"
      using K(3,4) by (intro Least_equality) (auto intro: leI)
    then show ?thesis using K Some unfolding uacpi_kernel_get_rsdp_def Let_def m by auto
  qed
qed

text \<open>
  \<open>uacpi_kernel_stall\<close> returns exactly when some later reading of the clock is at least \<open>usec\<close>
  microseconds after the first one, and then after the first such reading; it reads the time-stamp
  counter once per round and does nothing else.
\<close>

theorem stall_waits:
  assumes "epoch s \<noteq> 0"
  shows "uacpi_kernel_stall usec s = Some t \<longleftrightarrow>
    (\<exists>j\<ge>1. 1000 * ucast usec \<le> ns_at s j - ns_at s 0
      \<and> (\<forall>i. 1 \<le> i \<longrightarrow> i < j \<longrightarrow> ns_at s i - ns_at s 0 < 1000 * ucast usec) \<and> t = after_readings (Suc j) s)"
  using spin_until_iff [OF assms, of "ns_at s 0" "ucast usec * 1000" 1 t]
  by (simp add: uacpi_kernel_stall_def time_first first_late_def mult.commute not_less)

text \<open>A clock of 9000 ticks, 3000 ns, per reading.\<close>

theorem stall_waits_witness:
  "uacpi_kernel_stall 2 (acpi_start\<lparr>start_ticks := 9000, tsc_in := \<lambda>log. 9000 + 9000 * of_nat (length log)\<rparr>)
     = Some (after_readings 2 (acpi_start\<lparr>start_ticks := 9000, tsc_in := \<lambda>log. 9000 + 9000 * of_nat (length log)\<rparr>))"
proof -
  define s where "s = acpi_start\<lparr>start_ticks := 9000, tsc_in := \<lambda>log. 9000 + 9000 * of_nat (length log)\<rparr>"
  have e: "epoch s = 9000" by (simp add: epoch_def s_def)
  have "ns_at s 0 = 0" "ns_at s 1 = 3000" unfolding ns_at_def e by (simp_all add: reading_def s_def acpi_start_def)
  then have "uacpi_kernel_stall 2 s = Some (after_readings (Suc 1) s)"
    by (intro stall_waits [THEN iffD2] exI [of _ 1]) (simp_all add: e)
  then show ?thesis by (simp add: s_def numeral_2_eq_2)
qed

text \<open>
  \<open>uacpi_kernel_sleep\<close> multiplies its argument in 64 bits: 2^58 milliseconds wrap to 0 and it returns at
  once, whatever the clock says.
\<close>

theorem sleep_wraps:
  "uacpi_kernel_sleep (2 ^ 58) s = Some (snd (time_get_ns (snd (time_get_ns s))))"
proof -
  have z: "(2 ^ 58 * 1000000 :: u64) = 0" by simp
  show ?thesis unfolding uacpi_kernel_sleep_def Let_def case_prod_beta z
    by (subst spin_until.simps) simp
qed

end
