(* ===== verification/Boot.thy ===== *)
theory Boot
  imports AcpiOs Console
begin

text \<open>
  The kernel's entry point, \<open>kernel/main.c\<close>, and the structures of \<open>kernel/lib/multiboot.h\<close> it reads:
  descriptor tables, interrupt controller, physical memory from the boot loader's memory map, paging,
  the ACPI library, the PCI scan and the console, in the code's order.  The calls into the ACPI library
  are parameters, and so are the addresses the linker and the assembler provide.
\<close>

section \<open>multiboot.h\<close>

definition MULTIBOOT_MAGIC :: u32 where "MULTIBOOT_MAGIC = 0x1BADB002"
definition MULTIBOOT_FLAGS :: u32 where "MULTIBOOT_FLAGS = 0"
definition MULTIBOOT_MEMORY_AVAILABLE :: u32 where "MULTIBOOT_MEMORY_AVAILABLE = 1"

record multiboot_header_t =
  mb_magic :: u32
  mb_flags :: u32
  mb_checksum :: u32
  mb_rest :: "u32 list"

definition mboot_header :: multiboot_header_t where
  "mboot_header = \<lparr>mb_magic = MULTIBOOT_MAGIC, mb_flags = MULTIBOOT_FLAGS,
     mb_checksum = - (MULTIBOOT_MAGIC + MULTIBOOT_FLAGS), mb_rest = replicate 9 0\<rparr>"

text \<open>The packed structures, field after field; of \<open>multiboot_info_t\<close> the kernel reads two fields.\<close>

record multiboot_memory_map_t =
  mm_size :: u32
  addr_low :: u32
  addr_high :: u32
  len_low :: u32
  len_high :: u32
  mm_type :: u32

definition mmap_entry :: "u64 \<Rightarrow> (u64 \<Rightarrow> u8) \<Rightarrow> multiboot_memory_map_t" where
  "mmap_entry e m = \<lparr>mm_size = ucast (load 4 e m), addr_low = ucast (load 4 (e + 4) m),
     addr_high = ucast (load 4 (e + 8) m), len_low = ucast (load 4 (e + 12) m),
     len_high = ucast (load 4 (e + 16) m), mm_type = ucast (load 4 (e + 20) m)\<rparr>"

definition mmap_length :: "u64 \<Rightarrow> (u64 \<Rightarrow> u8) \<Rightarrow> u32" where
  "mmap_length mboot_info m = ucast (load 4 (mboot_info + 44) m)"

definition mmap_addr :: "u64 \<Rightarrow> (u64 \<Rightarrow> u8) \<Rightarrow> u32" where
  "mmap_addr mboot_info m = ucast (load 4 (mboot_info + 48) m)"

section \<open>internal_panic\<close>

text \<open>The message is the format string of a \<open>printf\<close> without arguments.\<close>

definition internal_panic :: "string \<Rightarrow> 'a screen_scheme \<Rightarrow> printf_fault + 'a screen_scheme outcome" where
  "internal_panic message s =
     bindE (printf ''[PANIC] '' [] s) (\<lambda>s.
     bindE (printf message [] s) (\<lambda>s.
       map_sum id Halted (printf [CHR 0x0A] [] s)))"

section \<open>init_acpi\<close>

record 's uacpi_library =
  uacpi_initialize :: "'s \<Rightarrow> uacpi_status \<times> 's"
  uacpi_namespace_load :: "'s \<Rightarrow> uacpi_status \<times> 's"
  uacpi_namespace_initialize :: "'s \<Rightarrow> uacpi_status \<times> 's"
  uacpi_set_interrupt_model :: "'s \<Rightarrow> 's"
  uacpi_finalize_gpe_initialization :: "'s \<Rightarrow> uacpi_status \<times> 's"
  uacpi_enter_sleep_state_simple :: "'s \<Rightarrow> uacpi_status \<times> 's"

definition ENODEV :: int where "ENODEV = 19"

definition init_acpi :: "'a screen_scheme uacpi_library \<Rightarrow> 'a screen_scheme \<Rightarrow> printf_fault + int \<times> 'a screen_scheme" where
  "init_acpi lib s =
     (let (ret, s) = uacpi_initialize lib s in
      if unlikely_error ret
      then map_sum id (Pair (- ENODEV)) (printf (''uacpi_initialize error: %s'' @ [CHR 0x0A]) [VStr (uacpi_status_to_string ret)] s)
      else
        (let s = scroll_screen s; (ret, s) = uacpi_namespace_load lib s in
         if unlikely_error ret
         then map_sum id (Pair (- ENODEV)) (printf (''uacpi_namespace_load error: %s'' @ [CHR 0x0A]) [VStr (uacpi_status_to_string ret)] s)
         else
           (let (ret, s) = uacpi_namespace_initialize lib s in
            if unlikely_error ret
            then map_sum id (Pair (- ENODEV)) (printf (''uacpi_namespace_initialize error: %s'' @ [CHR 0x0A]) [VStr (uacpi_status_to_string ret)] s)
            else
              (let s = uacpi_set_interrupt_model lib s; (ret, s) = uacpi_finalize_gpe_initialization lib s in
               if unlikely_error ret
               then map_sum id (Pair (- ENODEV)) (printf (''uACPI GPE initialization error: %s'' @ [CHR 0x0A]) [VStr (uacpi_status_to_string ret)] s)
               else Inr (0, s)))))"

section \<open>_main\<close>

text \<open>One turn of the loop over the memory map; the loop.\<close>

definition mmap_base :: "multiboot_memory_map_t \<Rightarrow> u64" where
  "mmap_base e = push_bit 32 (ucast (addr_high e)) OR ucast (addr_low e)"

definition mmap_len :: "multiboot_memory_map_t \<Rightarrow> u64" where
  "mmap_len e = push_bit 32 (ucast (len_high e)) OR ucast (len_low e)"

definition mmap_body :: "multiboot_memory_map_t \<Rightarrow> u64 \<times> 'a tables_scheme \<Rightarrow> u64 \<times> 'a tables_scheme" where
  "mmap_body e = (\<lambda>(total_memory, s).
     if mm_type e = MULTIBOOT_MEMORY_AVAILABLE
     then (total_memory + mmap_len e, pmm_add_region (mmap_base e) (mmap_len e) s)
     else (total_memory, s))"

partial_function (option) mmap_loop ::
  "u64 \<Rightarrow> u64 \<Rightarrow> u64 \<times> 'a tables_scheme \<Rightarrow> (u64 \<times> 'a tables_scheme) option" where
  "mmap_loop entry mmap_end ts =
     (if entry < mmap_end
      then mmap_loop (entry + ucast (mm_size (mmap_entry entry (bytes (snd ts)))) + 4) mmap_end
             (mmap_body (mmap_entry entry (bytes (snd ts))) ts)
      else Some ts)"

definition boot_memory :: "u64 \<Rightarrow> u64 \<Rightarrow> u64 \<Rightarrow> 'a tables_scheme \<Rightarrow> (u64 \<times> 'a tables_scheme) option" where
  "boot_memory mboot_info kernel_start kernel_end s =
     (let s = pmm_init s;
          mmap_start = ucast (mmap_addr mboot_info (bytes s));
          mmap_end = mmap_start + ucast (mmap_length mboot_info (bytes s))
      in map_option (\<lambda>(total_memory, s).
           (total_memory, pmm_reserve_region kernel_start (kernel_end - kernel_start) s))
         (mmap_loop mmap_start mmap_end (0, s)))"

text \<open>
  \<open>console\<close> does not return in the code: for a list of interrupts it is still running after them, unless
  the user halted the machine.  The \<open>internal_panic\<close> after it is never reached.
\<close>

definition kernel_main ::
  "'a acpi_scheme uacpi_library \<Rightarrow> u64 \<Rightarrow> u64 \<Rightarrow> u64 \<Rightarrow> u64 \<Rightarrow> u64 \<Rightarrow> u64 \<Rightarrow> (int \<Rightarrow> char) \<Rightarrow> u8 option list
    \<Rightarrow> 'a acpi_scheme \<Rightarrow> (printf_fault + (console_vars \<times> 'a acpi_scheme) outcome) option" where
  "kernel_main lib isr0 isr1 isr14 kernel_start kernel_end mboot_info b irqs s =
     (let s = init_gdt s;
          s = init_idt isr0 isr1 isr14 s;
          s = pic_remap 0x20 0x28 s;
          s = sti s
      in map_option (\<lambda>(total_memory, s).
           bindE (printf (''Usable memory: %u bytes'' @ [CHR 0x0A]) [VU64 (total_memory div (1024 * 1024))] s) (\<lambda>s.
             (let s = scroll_screen (scroll_screen (scroll_screen s));
                  s = vmm_init s
              in bindE (init_acpi lib s) (\<lambda>(ret, s).
                   console (uacpi_enter_sleep_state_simple lib) b irqs (pci_init s)))))
         (boot_memory mboot_info kernel_start kernel_end s))"

end
