(* ===== verification/BootProps.thy ===== *)
theory BootProps
  imports Boot AcpiProps
begin

text \<open>
  What \<open>_main\<close> establishes before it hands the machine to the ACPI library: the loop over the memory map
  ends, the free frames are those the boot loader reported less the kernel's own, and the page tables and
  the mapping window start in their invariant.
\<close>

declare put_string_simps [simp del]

section \<open>The memory map\<close>

lemma pmm_add_region_more: "pmm.more (pmm_add_region base len s) = pmm.more s" for s :: "'a pmm_scheme"
proof -
  have b: "pmm.more (add_body p t) = pmm.more t" for p and t :: "'a pmm_scheme"
    by (simp add: add_body_def clear_page_def Let_def)
  have "pmm.more (region_loop body a stop t) = pmm.more t" if "body = add_body" for body a stop and t :: "'a pmm_scheme"
    using that by (induction body a stop t rule: region_loop.induct) (subst region_loop.simps, simp add: b Let_def)
  then show ?thesis by (simp add: pmm_add_region_def Let_def)
qed

lemma pmm_more_kheap: "pmm.more t = pmm.more s \<Longrightarrow> kheap t = kheap s" for s t :: "'a tables_scheme"
  by (cases s; cases t; simp)

lemma mmap_body_bytes [simp]: "kheap (snd (mmap_body e ts)) = kheap (snd ts)"
  by (cases ts) (simp add: mmap_body_def pmm_more_kheap [OF pmm_add_region_more])

text \<open>The entries of a memory map that starts at an address and runs to an end.\<close>

fun mmap_layout :: "(u64 \<Rightarrow> u8) \<Rightarrow> u64 \<Rightarrow> multiboot_memory_map_t list \<Rightarrow> u64 \<Rightarrow> bool" where
  "mmap_layout m a [] stop \<longleftrightarrow> \<not> a < stop"
| "mmap_layout m a (e # es) stop \<longleftrightarrow> a < stop \<and> mmap_entry a m = e \<and> mmap_layout m (a + ucast (mm_size e) + 4) es stop"

lemma mmap_loop_fold:
  assumes "mmap_layout m a es stop" "bytes (snd ts) = m"
  shows "mmap_loop a stop ts = Some (fold mmap_body es ts)"
  using assms
proof (induction es arbitrary: a ts)
  case Nil
  then show ?case by (subst mmap_loop.simps) simp
next
  case (Cons e es)
  have "mmap_loop (a + ucast (mm_size e) + 4) stop (mmap_body e ts) = Some (fold mmap_body es (mmap_body e ts))"
    using Cons.prems by (intro Cons.IH) simp_all
  then show ?case using Cons.prems by (subst mmap_loop.simps) simp
qed

lemma mmap_loop_ends:
  assumes "unat stop < 2 ^ 63" "unat a < 2 ^ 63"
  shows "\<exists>r. mmap_loop a stop ts = Some r"
  using assms(2)
proof (induction "unat stop - unat a" arbitrary: a ts rule: less_induct)
  case less
  show ?case
  proof (cases "a < stop")
    case False
    then show ?thesis by (subst mmap_loop.simps) simp
  next
    case True
    let ?e = "mmap_entry a (bytes (snd ts))"
    let ?b = "a + ucast (mm_size ?e) + 4"
    have z: "unat (ucast (mm_size ?e) :: u64) < 2 ^ 32"
      using unat_u32_less [of "mm_size ?e"] by (simp add: unsigned_ucast_eq take_bit_nat_eq_self)
    have b1: "unat (a + ucast (mm_size ?e)) = unat a + unat (ucast (mm_size ?e) :: u64)"
      using less.prems z by (subst unat_plus_nowrap) simp_all
    have b: "unat ?b = unat a + unat (ucast (mm_size ?e) :: u64) + 4"
      unfolding b1 [symmetric] using less.prems z b1 by (subst unat_plus_nowrap) simp_all
    have ab: "unat a < unat stop" using True by (simp add: word_less_nat_alt)
    have "\<exists>r. mmap_loop ?b stop (mmap_body ?e ts) = Some r"
    proof (cases "unat ?b < 2 ^ 63")
      case True
      then show ?thesis using less.hyps [of ?b "mmap_body ?e ts"] b ab by simp
    next
      case False
      then have "\<not> ?b < stop" using assms(1) by (simp only: word_less_nat_alt)
      then show ?thesis by (subst mmap_loop.simps) simp
    qed
    then show ?thesis using True by (subst mmap_loop.simps) simp
  qed
qed

definition available :: "multiboot_memory_map_t \<Rightarrow> bool" where
  "available e \<longleftrightarrow> mm_type e = MULTIBOOT_MEMORY_AVAILABLE"

definition entry_fits :: "multiboot_memory_map_t \<Rightarrow> bool" where
  "entry_fits e \<longleftrightarrow> unat (mmap_base e) + 4095 < 2 ^ 64 \<and> unat (mmap_base e) + unat (mmap_len e) < 2 ^ 64"

definition frames_within :: "multiboot_memory_map_t \<Rightarrow> nat set" where
  "frames_within e = {p. p < 16777216 \<and> unat (mmap_base e) \<le> 4096 * p
     \<and> 4096 * (p + 1) \<le> unat (mmap_base e) + unat (mmap_len e)}"

lemma mmap_fold_effect:
  assumes "\<forall>e \<in> set es. available e \<longrightarrow> entry_fits e" "pmm_inv (snd ts)"
  shows "pmm_inv (snd (fold mmap_body es ts))"
    "free_frames (snd (fold mmap_body es ts)) = free_frames (snd ts) \<union> (\<Union>e \<in> {e \<in> set es. available e}. frames_within e)"
    "fst (fold mmap_body es ts) = fst ts + sum_list (map mmap_len (filter available es))"
proof -
  have "pmm_inv (snd (fold mmap_body es ts)) \<and>
    free_frames (snd (fold mmap_body es ts)) = free_frames (snd ts) \<union> (\<Union>e \<in> {e \<in> set es. available e}. frames_within e)
    \<and> fst (fold mmap_body es ts) = fst ts + sum_list (map mmap_len (filter available es))"
    using assms
  proof (induction es arbitrary: ts)
    case (Cons e es)
    have s: "pmm_inv (snd (mmap_body e ts))"
      using Cons.prems(2) by (cases ts) (simp add: mmap_body_def pmm_add_region_inv)
    have f: "free_frames (snd (mmap_body e ts)) = free_frames (snd ts) \<union> (if available e then frames_within e else {})"
      using Cons.prems(1) pmm_add_region_frames [of "mmap_base e" "mmap_len e" "snd ts"]
      by (cases ts) (auto simp: mmap_body_def available_def entry_fits_def frames_within_def)
    have t: "fst (mmap_body e ts) = fst ts + (if available e then mmap_len e else 0)"
      by (cases ts) (simp add: mmap_body_def available_def)
    have r: "{x. (x = e \<or> x \<in> set es) \<and> available x} = (if available e then insert e {x \<in> set es. available x} else {x \<in> set es. available x})"
      by auto
    show ?case using Cons.IH [OF _ s] Cons.prems(1) by (auto simp: f t r add.assoc)
  qed simp
  then show "pmm_inv (snd (fold mmap_body es ts))"
    "free_frames (snd (fold mmap_body es ts)) = free_frames (snd ts) \<union> (\<Union>e \<in> {e \<in> set es. available e}. frames_within e)"
    "fst (fold mmap_body es ts) = fst ts + sum_list (map mmap_len (filter available es))" by blast+
qed


section \<open>Before the memory map\<close>

lemma pmm_init_more: "pmm.more (pmm_init s) = pmm.more s" for s :: "'a pmm_scheme"
proof -
  have c: "pmm.more (put_string c t) = pmm.more t" for c and t :: "'b pmm_scheme"
    by (rule put_string_frame) (simp add: putchar_def set_cell_def scroll_screen_def update_cursor_def machine_defs Let_def
      for_up_frame [where g = pmm.more])
  show ?thesis by (simp add: pmm_init_def c Let_def for_up_frame [where g = pmm.more])
qed

lemma pmm_init_bytes: "kheap (pmm_init s) = kheap s" for s :: "'a tables_scheme"
  by (rule pmm_more_kheap [OF pmm_init_more])

definition mmap_start_of :: "u64 \<Rightarrow> 'a tables_scheme \<Rightarrow> u64" where
  "mmap_start_of mboot_info s = ucast (mmap_addr mboot_info (bytes s))"

definition mmap_end_of :: "u64 \<Rightarrow> 'a tables_scheme \<Rightarrow> u64" where
  "mmap_end_of mboot_info s = mmap_start_of mboot_info s + ucast (mmap_length mboot_info (bytes s))"

lemma boot_memory_unfold:
  "boot_memory mboot_info ks ke s = map_option (\<lambda>(n, s). (n, pmm_reserve_region ks (ke - ks) s))
     (mmap_loop (mmap_start_of mboot_info s) (mmap_end_of mboot_info s) (0, pmm_init s))"
  by (simp add: boot_memory_def mmap_start_of_def mmap_end_of_def pmm_init_bytes Let_def)

lemma mmap_bounds: "unat (mmap_start_of mboot_info s) < 2 ^ 63" "unat (mmap_end_of mboot_info s) < 2 ^ 63"
proof -
  have z: "unat (ucast (w :: u32) :: u64) < 2 ^ 32" for w
    using unat_u32_less [of w] by (simp add: unsigned_ucast_eq take_bit_nat_eq_self)
  show a: "unat (mmap_start_of mboot_info s) < 2 ^ 63" using z [of "mmap_addr mboot_info (bytes s)"] by (simp add: mmap_start_of_def)
  show "unat (mmap_end_of mboot_info s) < 2 ^ 63"
    using z [of "mmap_length mboot_info (bytes s)"] z [of "mmap_addr mboot_info (bytes s)"]
    unfolding mmap_end_of_def mmap_start_of_def by (subst unat_plus_nowrap) simp_all
qed

lemma pmm_reserve_region_more: "pmm.more (pmm_reserve_region base len s) = pmm.more s" for s :: "'a pmm_scheme"
proof -
  have b: "pmm.more (reserve_body p t) = pmm.more t" for p and t :: "'a pmm_scheme"
    by (simp add: reserve_body_def set_page_def Let_def)
  have "pmm.more (region_loop body a stop t) = pmm.more t" if "body = reserve_body" for body a stop and t :: "'a pmm_scheme"
    using that by (induction body a stop t rule: region_loop.induct) (subst region_loop.simps, simp add: b Let_def)
  then show ?thesis by (simp add: pmm_reserve_region_def Let_def)
qed

lemma mmap_loop_more:
  assumes "mmap_loop a stop ts = Some r"
  shows "pmm.more (snd r) = pmm.more (snd ts)"
  using assms
proof (rule mmap_loop.raw_induct [rotated, where P = "\<lambda>a stop ts r. pmm.more (snd r) = pmm.more (snd ts)"])
  fix loop a stop and ts r :: "u64 \<times> 'a tables_scheme"
  assume IH: "\<And>a stop ts r. loop a stop ts = Some r \<Longrightarrow> pmm.more (snd r) = pmm.more (snd ts)"
    and step: "(if a < stop
      then loop (a + ucast (mm_size (mmap_entry a (bytes (snd ts)))) + 4) stop
        (mmap_body (mmap_entry a (bytes (snd ts))) ts)
      else Some ts) = Some r"
  have b: "pmm.more (snd (mmap_body e ts)) = pmm.more (snd ts)" for e
    by (cases ts) (simp add: mmap_body_def pmm_add_region_more)
  show "pmm.more (snd r) = pmm.more (snd ts)"
    using step IH b by (metis option.inject)
qed

lemma boot_memory_more:
  assumes "boot_memory mboot_info ks ke s = Some (usable, t)"
  shows "pmm.more t = pmm.more s"
proof -
  obtain r where "mmap_loop (mmap_start_of mboot_info s) (mmap_end_of mboot_info s) (0, pmm_init s) = Some r"
    "t = pmm_reserve_region ks (ke - ks) (snd r)"
    using assms by (auto simp: boot_memory_unfold)
  then show ?thesis using mmap_loop_more pmm_init_more [of s] by (fastforce simp: pmm_reserve_region_more)
qed

section \<open>Properties\<close>

text \<open>
  C21. The loop over the memory map ends whatever the boot loader left in memory, since it advances by at least
  4 bytes and the map lies below 8 GiB.
\<close>

theorem boot_memory_ends:
  "boot_memory mboot_info kernel_start kernel_end s \<noteq> None"
  using mmap_loop_ends [OF mmap_bounds(2,1), of mboot_info s mboot_info s "(0, pmm_init s)"]
  by (auto simp: boot_memory_unfold)

text \<open>
  C22. For a memory map whose available regions do not wrap 2^64 (\<open>entry_fits\<close>: neither the end of the region nor
  its base rounded up to a page), and a kernel image whose start is not above its end and whose end rounded up to a page
  does not wrap either: after the memory map the free frames are exactly those that lie wholly inside a region of type 1
  and below 64 GiB, less every frame the kernel's image touches, the counter is their number, and the total is the sum
  modulo 2^64 of the lengths of the available regions; regions of any other type add nothing.
\<close>

theorem boot_memory_frames:
  assumes "mmap_layout (bytes s) (mmap_start_of mboot_info s) es (mmap_end_of mboot_info s)"
    and "\<forall>e \<in> set es. available e \<longrightarrow> entry_fits e"
    and "kernel_start \<le> kernel_end" "unat kernel_end + 4095 < 2 ^ 64"
  shows "\<exists>usable t. boot_memory mboot_info kernel_start kernel_end s = Some (usable, t)
    \<and> usable = sum_list (map mmap_len (filter available es))
    \<and> free_frames t = (\<Union>e \<in> {e \<in> set es. available e}. frames_within e)
        - {p. unat kernel_start < 4096 * (p + 1) \<and> 4096 * p < unat kernel_end}
    \<and> unat (pmm_get_free_pages t) = card (free_frames t)"
proof -
  let ?r = "fold mmap_body es (0, pmm_init s)"
  have l: "mmap_loop (mmap_start_of mboot_info s) (mmap_end_of mboot_info s) (0, pmm_init s) = Some ?r"
    using assms(1) by (intro mmap_loop_fold) (simp_all add: pmm_init_bytes)
  have "pmm_inv (snd (0 :: u64, pmm_init s))" by (simp add: pmm_init_inv)
  note F = mmap_fold_effect [OF assms(2) this]
  have k: "unat kernel_start + unat (kernel_end - kernel_start) = unat kernel_end"
    using assms(3) by (simp add: unat_sub word_le_nat_alt)
  then have "unat kernel_start + unat (kernel_end - kernel_start) + 4095 < 2 ^ 64" using assms(4) by simp
  note R = pmm_reserve_region_frames [OF this, of "snd ?r", unfolded k]
  have "pmm_inv (pmm_reserve_region kernel_start (kernel_end - kernel_start) (snd ?r))"
    by (rule pmm_reserve_region_inv [OF F(1)])
  then show ?thesis
    using R F(2,3) by (simp add: boot_memory_unfold l case_prod_beta pmm_init_free_frames pmm_inv_def pmm_get_free_pages_def)
qed

text \<open>
  When the static page tables lie in the kernel's image, page-aligned, distinct and below 1 GiB, and the
  mapping window is empty, the page tables \<open>vmm_init\<close> builds after the memory map put the first GiB and
  the window in the state the ACPI services rely on.
\<close>

theorem boot_window_ready:
  assumes "boot_memory mboot_info kernel_start kernel_end s = Some (usable, t)"
    and "kernel_start \<le> kernel_end" "unat kernel_end + 4095 < 2 ^ 64"
    and "distinct [initial_pml4 s, initial_pdpt s, initial_pd s]"
    and "\<forall>a \<in> {initial_pml4 s, initial_pdpt s, initial_pd s}. a \<noteq> 0 \<and> page_aligned_address a
      \<and> a < BOOTSTRAP_IDENTITY_LIMIT \<and> kernel_start \<le> a \<and> a < kernel_end"
    and "\<not> paging_enabled s" "\<forall>i. map_slots s i = 0" "\<forall>i. page_count (mappings s i) = 0"
  shows "acpi_inv (vmm_init (scroll_screen (scroll_screen (scroll_screen (put_string c t)))))"
proof -
  have M: "pmm.more t = pmm.more s" by (rule boot_memory_more [OF assms(1)])
  have T: "initial_pml4 t = initial_pml4 s" "initial_pdpt t = initial_pdpt s" "initial_pd t = initial_pd s"
    "paging_enabled t = paging_enabled s" "map_slots t = map_slots s" "mappings t = mappings s"
    using M by (cases s; cases t; simp)+
  define u where "u = scroll_screen (scroll_screen (scroll_screen (put_string c t)))"
  have sc: "vmm.more (scroll_screen w) = vmm.more w" "initial_pml4 (scroll_screen w) = initial_pml4 w"
    "initial_pdpt (scroll_screen w) = initial_pdpt w" "initial_pd (scroll_screen w) = initial_pd w"
    "paging_enabled (scroll_screen w) = paging_enabled w" for w :: "'b vmm_scheme"
    by (simp_all add: scroll_screen_def set_cell_def Let_def for_up_frame [where g = vmm.more]
      for_up_frame [where g = initial_pml4] for_up_frame [where g = initial_pdpt]
      for_up_frame [where g = initial_pd] for_up_frame [where g = paging_enabled])
  have um: "vmm.more u = vmm.more t" by (simp add: u_def sc put_string_more)
  have U: "initial_pml4 u = initial_pml4 s" "initial_pdpt u = initial_pdpt s" "initial_pd u = initial_pd s"
    "paging_enabled u = paging_enabled s" "free_frames u = free_frames t"
    by (simp_all add: u_def sc T free_frames_def page_used_def)
  have W: "map_slots u = map_slots s" "mappings u = mappings s" using more_fields [OF um] by (simp_all add: T)
  obtain r where t: "t = pmm_reserve_region kernel_start (kernel_end - kernel_start) (snd r)"
    using assms(1) by (auto simp: boot_memory_unfold)
  have k: "unat kernel_start + unat (kernel_end - kernel_start) = unat kernel_end"
    using assms(2) by (simp add: unat_sub word_le_nat_alt)
  then have "unat kernel_start + unat (kernel_end - kernel_start) + 4095 < 2 ^ 64" using assms(3) by simp
  note R = pmm_reserve_region_frames [OF this, of "snd r", unfolded k, folded t]
  have nf: "unat a div 4096 \<notin> free_frames t" if "kernel_start \<le> a" "a < kernel_end" for a
  proof -
    have "unat kernel_start \<le> unat a" "unat a < unat kernel_end"
      using that by (simp_all add: word_le_nat_alt word_less_nat_alt)
    moreover have "unat a < 4096 * (unat a div 4096 + 1)" "4096 * (unat a div 4096) \<le> unat a" by simp_all
    ultimately show ?thesis unfolding R by (auto intro: le_less_trans)
  qed
  have "tables_placed u"
    unfolding tables_placed_def table_frame_def U using assms(4,5) nf by blast
  moreover have "\<not> paging_enabled u" using assms(6) U(4) by simp
  ultimately show ?thesis
    unfolding u_def [symmetric] by (rule boot_window(1)) (simp_all add: W assms(7,8))
qed


text \<open>
  A machine as the boot loader leaves it: the information structure at 0x9000, one entry of the memory map
  at 0xA000 with 9 MiB of available memory from 0 on, and the kernel from 1 MiB to 0x106000.
\<close>

definition boot_start :: acpi where
  "boot_start = acpi_start\<lparr>kheap := (kheap acpi_start)\<lparr>heap_bytes := (\<lambda>_. 0)
     (0x902C := 24, 0x9031 := 0xA0, 0xA000 := 20, 0xA00E := 0x90, 0xA014 := 1)\<rparr>\<rparr>"

definition boot_entry :: multiboot_memory_map_t where
  "boot_entry = \<lparr>mm_size = 20, addr_low = 0, addr_high = 0, len_low = 0x900000, len_high = 0, mm_type = 1\<rparr>"

lemma load_4: "load 4 a m = ucast (m a) OR push_bit 8 (ucast (m (a + 1)) OR push_bit 8 (ucast (m (a + 2))
    OR push_bit 8 (ucast (m (a + 3)))))"
  by (simp add: eval_nat_numeral add.commute)

lemma boot_start_facts:
  "mmap_start_of 0x9000 boot_start = 0xA000" "mmap_end_of 0x9000 boot_start = 0xA018"
  "mmap_entry 0xA000 (bytes boot_start) = boot_entry"
  by (simp_all add: mmap_end_of_def mmap_start_of_def mmap_addr_def mmap_length_def mmap_entry_def load_4
      boot_start_def boot_entry_def)

lemma boot_start_layout: "mmap_layout (bytes boot_start) (mmap_start_of 0x9000 boot_start) [boot_entry] (mmap_end_of 0x9000 boot_start)"
  by (simp add: boot_start_facts) (simp add: boot_entry_def)

theorem boot_memory_frames_witness:
  "\<exists>usable t. boot_memory 0x9000 0x100000 0x106000 boot_start = Some (usable, t) \<and> usable = 0x900000
    \<and> 255 \<in> free_frames t \<and> 256 \<notin> free_frames t \<and> 262 \<in> free_frames t"
proof -
  have b: "mmap_base boot_entry = 0" "mmap_len boot_entry = 0x900000" "available boot_entry"
    by (simp_all add: boot_entry_def mmap_base_def mmap_len_def available_def MULTIBOOT_MEMORY_AVAILABLE_def)
  have "\<forall>e \<in> set [boot_entry]. available e \<longrightarrow> entry_fits e" by (simp add: entry_fits_def b)
  from boot_memory_frames [OF boot_start_layout this, of "0x100000" "0x106000"]
  obtain usable t where t: "boot_memory 0x9000 0x100000 0x106000 boot_start = Some (usable, t)"
    "usable = sum_list (map mmap_len (filter available [boot_entry]))"
    "free_frames t = (\<Union>e \<in> {e \<in> set [boot_entry]. available e}. frames_within e)
        - {p. unat (0x100000 :: u64) < 4096 * (p + 1) \<and> 4096 * p < unat (0x106000 :: u64)}" by auto
  have "{e \<in> set [boot_entry]. available e} = {boot_entry}" using b(3) by auto
  then show ?thesis using t(1) by (simp add: t(2,3) b frames_within_def)
qed

theorem boot_window_ready_witness:
  "\<exists>usable t. boot_memory 0x9000 0x100000 0x106000 boot_start = Some (usable, t)
    \<and> acpi_inv (vmm_init (scroll_screen (scroll_screen (scroll_screen (put_string ''9'' t)))))"
proof -
  obtain usable t where t: "boot_memory 0x9000 0x100000 0x106000 boot_start = Some (usable, t)"
    using mmap_loop_ends [OF mmap_bounds(2,1), of "0x9000" boot_start "0x9000" boot_start "(0, pmm_init boot_start)"]
    by (auto simp: boot_memory_unfold)
  have f: "initial_pml4 boot_start = 0x101000" "initial_pdpt boot_start = 0x102000" "initial_pd boot_start = 0x103000"
    "\<not> paging_enabled boot_start" "\<forall>i. map_slots boot_start i = 0" "\<forall>i. page_count (mappings boot_start i) = 0"
    by (simp_all add: boot_start_def acpi_start_def)
  have "acpi_inv (vmm_init (scroll_screen (scroll_screen (scroll_screen (put_string ''9'' t)))))"
    by (rule boot_window_ready [OF t])
       (use f in \<open>simp_all add: aligned_mask_iff BOOTSTRAP_IDENTITY_LIMIT_val mask_numeral\<close>)
  with t show ?thesis by blast
qed

text \<open>Named calls in order, up to the first that fails.\<close>

fun run_steps :: "(string \<times> ('a screen_scheme \<Rightarrow> uacpi_status \<times> 'a screen_scheme)) list \<Rightarrow> 'a screen_scheme
    \<Rightarrow> int \<times> 'a screen_scheme" where
  "run_steps [] s = (0, s)"
| "run_steps ((what, call) # rest) s =
     (case call s of (ret, s) \<Rightarrow>
       if ret = UACPI_STATUS_OK then run_steps rest s
       else (- 19, put_string (what @ '' error: '' @ uacpi_status_to_string ret @ [CHR 0x0A]) s))"

text \<open>
  \<open>init_acpi\<close> makes its calls in order and stops at the first that fails: then it prints that call's name
  and the status and returns -ENODEV; with no failure it prints nothing and returns 0.
\<close>

theorem init_acpi_first_error:
  "init_acpi lib s = Inr (run_steps
     [(''uacpi_initialize'', uacpi_initialize lib),
      (''uacpi_namespace_load'', uacpi_namespace_load lib \<circ> scroll_screen),
      (''uacpi_namespace_initialize'', uacpi_namespace_initialize lib),
      (''uACPI GPE initialization'', uacpi_finalize_gpe_initialization lib \<circ> uacpi_set_interrupt_model lib)] s)"
  by (simp add: init_acpi_def unlikely_error_def ENODEV_def printf_render Let_def split: prod.split)

text \<open>The header the boot loader looks for: its three words add up to 0.\<close>

lemma mboot_header_checksum: "mb_magic mboot_header + mb_flags mboot_header + mb_checksum mboot_header = 0"
  by (simp add: mboot_header_def)

end
