(* ===== verification/AcpiNumber.thy ===== *)
theory AcpiNumber
  imports Printf Status
begin

text \<open>
  Characters and numbers of the ACPI library, \<open>external/uacpi/source/utilities.c\<close>: the character classes,
  \<open>uacpi_string_to_integer\<close>, the check of a name segment and the text of an EISA identifier.

  A pair of a pointer and the number of characters that may be read from it is the list of those
  characters; \<open>consume\<close> functions return what is left of it.
\<close>

section \<open>Character classes\<close>

definition CHAR_TYPE_CONTROL :: u8 where "CHAR_TYPE_CONTROL = 1"
definition CHAR_TYPE_SPACE :: u8 where "CHAR_TYPE_SPACE = 2"
definition CHAR_TYPE_BLANK :: u8 where "CHAR_TYPE_BLANK = 4"
definition CHAR_TYPE_PUNCTUATION :: u8 where "CHAR_TYPE_PUNCTUATION = 8"
definition CHAR_TYPE_LOWER :: u8 where "CHAR_TYPE_LOWER = 16"
definition CHAR_TYPE_UPPER :: u8 where "CHAR_TYPE_UPPER = 32"
definition CHAR_TYPE_DIGIT :: u8 where "CHAR_TYPE_DIGIT = 64"
definition CHAR_TYPE_HEX_DIGIT :: u8 where "CHAR_TYPE_HEX_DIGIT = 128"
definition CHAR_TYPE_ALPHA :: u8 where "CHAR_TYPE_ALPHA = CHAR_TYPE_LOWER OR CHAR_TYPE_UPPER"
definition CHAR_TYPE_ALHEX :: u8 where "CHAR_TYPE_ALHEX = CHAR_TYPE_ALPHA OR CHAR_TYPE_HEX_DIGIT"
definition CHAR_TYPE_ALNUM :: u8 where "CHAR_TYPE_ALNUM = CHAR_TYPE_ALPHA OR CHAR_TYPE_DIGIT"

lemmas char_types = CHAR_TYPE_CONTROL_def CHAR_TYPE_SPACE_def CHAR_TYPE_BLANK_def CHAR_TYPE_PUNCTUATION_def
  CHAR_TYPE_LOWER_def CHAR_TYPE_UPPER_def CHAR_TYPE_DIGIT_def CHAR_TYPE_HEX_DIGIT_def CHAR_TYPE_ALPHA_def
  CHAR_TYPE_ALHEX_def CHAR_TYPE_ALNUM_def

text \<open>The initializer of the table, run after run; the entries it does not give are 0.\<close>

definition ascii_map :: "u8 list" where
  "ascii_map =
     replicate 9 CHAR_TYPE_CONTROL
     @ [CHAR_TYPE_CONTROL OR CHAR_TYPE_SPACE OR CHAR_TYPE_BLANK]
     @ replicate 4 (CHAR_TYPE_CONTROL OR CHAR_TYPE_SPACE)
     @ replicate 18 CHAR_TYPE_CONTROL
     @ [CHAR_TYPE_SPACE OR CHAR_TYPE_BLANK]
     @ replicate 15 CHAR_TYPE_PUNCTUATION
     @ replicate 10 (CHAR_TYPE_DIGIT OR CHAR_TYPE_HEX_DIGIT)
     @ replicate 7 CHAR_TYPE_PUNCTUATION
     @ replicate 6 (CHAR_TYPE_UPPER OR CHAR_TYPE_HEX_DIGIT)
     @ replicate 20 CHAR_TYPE_UPPER
     @ replicate 6 CHAR_TYPE_PUNCTUATION
     @ replicate 6 (CHAR_TYPE_LOWER OR CHAR_TYPE_HEX_DIGIT)
     @ replicate 20 CHAR_TYPE_LOWER
     @ replicate 4 CHAR_TYPE_PUNCTUATION
     @ [CHAR_TYPE_CONTROL]
     @ replicate 128 0"

definition char_class :: "char \<Rightarrow> u8" where
  "char_class c = ascii_map ! of_char c"

definition is_char :: "char \<Rightarrow> u8 \<Rightarrow> bool" where
  "is_char c kind \<longleftrightarrow> char_class c AND kind = kind"

definition to_lower :: "char \<Rightarrow> char" where
  "to_lower c = (if is_char c CHAR_TYPE_UPPER then char_of (of_char c + (of_char CHR ''a'' - of_char CHR ''A'') :: nat) else c)"

section \<open>Consuming characters\<close>

definition peek_one :: "string \<Rightarrow> char option" where
  "peek_one str = (case str of [] \<Rightarrow> None | c # rest \<Rightarrow> Some c)"

definition consume_one :: "string \<Rightarrow> (char \<times> string) option" where
  "consume_one str = map_option (\<lambda>c. (c, tl str)) (peek_one str)"

definition consume_if :: "u8 \<Rightarrow> string \<Rightarrow> string option" where
  "consume_if kind str =
     (case peek_one str of None \<Rightarrow> None | Some c \<Rightarrow> if \<not> is_char c kind then None else Some (tl str))"

definition consume_if_equals :: "char \<Rightarrow> string \<Rightarrow> string option" where
  "consume_if_equals c str =
     (case peek_one str of None \<Rightarrow> None | Some c1 \<Rightarrow> if to_lower c1 \<noteq> c then None else Some (tl str))"

section \<open>uacpi_string_to_integer\<close>

datatype uacpi_base = UACPI_BASE_AUTO | UACPI_BASE_OCT | UACPI_BASE_DEC | UACPI_BASE_HEX

fun base_value :: "uacpi_base \<Rightarrow> u64" where
  "base_value UACPI_BASE_AUTO = 0"
| "base_value UACPI_BASE_OCT = 8"
| "base_value UACPI_BASE_DEC = 10"
| "base_value UACPI_BASE_HEX = 16"

text \<open>\<open>while (consume_if(&str, &max_chars, CHAR_TYPE_SPACE));\<close>\<close>

fun skip_spaces :: "string \<Rightarrow> string" where
  "skip_spaces [] = []"
| "skip_spaces (c # str) = (case consume_if CHAR_TYPE_SPACE (c # str) of None \<Rightarrow> c # str | Some rest \<Rightarrow> skip_spaces str)"

text \<open>The \<open>switch\<close> on the class of a character; \<open>None\<close> is \<open>goto out\<close>.\<close>

definition digit_value :: "uacpi_base \<Rightarrow> char \<Rightarrow> u64 option" where
  "digit_value base c =
     (let kind = char_class c AND (CHAR_TYPE_DIGIT OR CHAR_TYPE_ALHEX) in
      if kind = CHAR_TYPE_DIGIT OR CHAR_TYPE_HEX_DIGIT then
        (let next = of_char c - of_char CHR ''0'' in if base = UACPI_BASE_OCT \<and> next > 7 then None else Some next)
      else if kind = CHAR_TYPE_LOWER OR CHAR_TYPE_HEX_DIGIT \<or> kind = CHAR_TYPE_UPPER OR CHAR_TYPE_HEX_DIGIT then
        (if base \<noteq> UACPI_BASE_HEX then None else Some (10 + (of_char (to_lower c) - of_char CHR ''a'')))
      else None)"

text \<open>The loop over the digits: the value, the last character read and the characters left.\<close>

fun read_digits :: "uacpi_base \<Rightarrow> u64 \<Rightarrow> char \<Rightarrow> string \<Rightarrow> u64 \<times> char \<times> string" where
  "read_digits base v c [] = (v, c, [])"
| "read_digits base v _ (c # str) =
     (case digit_value base c of
        None \<Rightarrow> (v, c, str)
      | Some digit \<Rightarrow>
          (let next = v * base_value base + digit in
           if next div base_value base \<noteq> v then (0xFFFFFFFFFFFFFFFF, c, str)
           else read_digits base next c str))"

definition uacpi_string_to_integer :: "string \<Rightarrow> uacpi_base \<Rightarrow> uacpi_status \<times> u64" where
  "uacpi_string_to_integer str base =
     (let str = skip_spaces str;
          (negative, str) =
            (case consume_if_equals CHR ''-'' str of
               Some str \<Rightarrow> (True, str)
             | None \<Rightarrow> (False, case consume_if_equals CHR ''+'' str of Some str \<Rightarrow> str | None \<Rightarrow> str));
          (base, str) =
            (if base = UACPI_BASE_AUTO then
               (case consume_if_equals CHR ''0'' str of
                  None \<Rightarrow> (UACPI_BASE_DEC, str)
                | Some str \<Rightarrow>
                    (case consume_if_equals CHR ''x'' str of
                       None \<Rightarrow> (UACPI_BASE_OCT, str)
                     | Some str \<Rightarrow> (UACPI_BASE_HEX, str)))
             else (base, str));
          (v, c, str) = read_digits base 0 CHR 0x00 str;
          v = (if negative then 0 - v else v)
      in (if str = [] \<or> c = CHR 0x00 then UACPI_STATUS_OK else UACPI_STATUS_INVALID_ARGUMENT, v))"

section \<open>Names and identifiers\<close>

definition is_valid_name_byte :: "u8 \<Rightarrow> bool" where
  "is_valid_name_byte c \<longleftrightarrow>
     (if c = 0x5F then True else ascii_map ! unat c AND (CHAR_TYPE_DIGIT OR CHAR_TYPE_UPPER) \<noteq> 0)"

definition uacpi_is_valid_nameseg :: "(nat \<Rightarrow> u8) \<Rightarrow> bool" where
  "uacpi_is_valid_nameseg nameseg \<longleftrightarrow>
     is_valid_name_byte (nameseg 0) \<and> is_valid_name_byte (nameseg 1)
     \<and> is_valid_name_byte (nameseg 2) \<and> is_valid_name_byte (nameseg 3)"

text \<open>The eight bytes it stores, the terminator included.\<close>

definition uacpi_eisa_id_to_string :: "u32 \<Rightarrow> string" where
  "uacpi_eisa_id_to_string eisa_id =
     (let byte = (\<lambda>i. ucast (drop_bit (8 * i) eisa_id) :: u8);
          swapped = (ucast (byte 3) :: u32) OR push_bit 8 (ucast (byte 2)) OR push_bit 16 (ucast (byte 1))
            OR push_bit 24 (ucast (byte 0));
          letter = (\<lambda>n. char_of (unat (0x40 + (drop_bit n swapped AND 0x1F))));
          digit = (\<lambda>n. hex_digits ! unat (drop_bit n swapped AND 0x0F))
      in [letter 26, letter 21, letter 16, digit 12, digit 8, digit 4, digit 0, CHR 0x00])"

end
