(* ===== verification/AcpiPrint.thy ===== *)
theory AcpiPrint
  imports AcpiNumber
begin

text \<open>
  \<open>uacpi_vsnprintf\<close> of \<open>external/uacpi/source/stdlib.c\<close>.  The buffer is a function from an index to the
  character there, a format or argument string is the list of its characters before the NUL, a pointer
  into it the rest of the list.  A wrong argument type or a write past the 32 characters of
  \<open>repr_buffer\<close> has no defined effect in C and is an error of the model.
\<close>

section \<open>State\<close>

record fmt_buf_state =
  fb_buffer :: "u64 \<Rightarrow> char"
  fb_capacity :: u64
  bytes_written :: u64

record fmt_spec =
  is_signed :: bool
  prepend :: bool
  uppercase :: bool
  left_justify :: bool
  alternate_form :: bool
  has_precision :: bool
  pad_char :: char
  prepend_char :: char
  min_width :: u64
  precision :: u64
  fm_base :: u32

datatype va = VaInt u32 | VaLong u64 | VaString "string option" | VaPointer u64

datatype vs_fault = VaMismatch | ReprOverrun

section \<open>Writing\<close>

definition write_one :: "char \<Rightarrow> fmt_buf_state \<Rightarrow> fmt_buf_state" where
  "write_one c fb =
     (let fb = (if bytes_written fb < fb_capacity fb
                then fb\<lparr>fb_buffer := (fb_buffer fb)(bytes_written fb := c)\<rparr> else fb)
      in fb\<lparr>bytes_written := bytes_written fb + 1\<rparr>)"

definition write_many :: "string \<Rightarrow> u64 \<Rightarrow> fmt_buf_state \<Rightarrow> fmt_buf_state" where
  "write_many str count fb =
     (let fb = (if bytes_written fb < fb_capacity fb
                then (let room = fb_capacity fb - bytes_written fb;
                          count_to_write = (if count < room then count else room)
                      in fb\<lparr>fb_buffer := for_up 0 (unat count_to_write)
                            (\<lambda>i b. b(bytes_written fb + of_nat i := str ! i)) (fb_buffer fb)\<rparr>)
                else fb)
      in fb\<lparr>bytes_written := bytes_written fb + count\<rparr>)"

definition hex_char :: "bool \<Rightarrow> u64 \<Rightarrow> char" where
  "hex_char upper v = (if upper then ''0123456789ABCDEF'' else ''0123456789abcdef'') ! unat v"

definition write_padding :: "fmt_spec \<Rightarrow> u64 \<Rightarrow> fmt_buf_state \<Rightarrow> fmt_buf_state" where
  "write_padding fm repr_size fb =
     (let mw = min_width fm in
      if mw \<le> repr_size then fb
      else for_up 0 (unat (mw - repr_size))
             (\<lambda>_. write_one (if left_justify fm then CHR '' '' else pad_char fm)) fb)"

section \<open>Integers\<close>

definition REPR_BUFFER_SIZE :: nat where "REPR_BUFFER_SIZE = 32"

text \<open>
  The stack buffer from \<open>index\<close> on is a list; \<open>repr_buffer[--index] = c\<close> puts \<open>c\<close> in front of it as long
  as \<open>index\<close> is not 0.
\<close>

definition repr_push :: "char \<Rightarrow> nat \<times> string \<Rightarrow> vs_fault + nat \<times> string" where
  "repr_push c = (\<lambda>(index, repr). case index of 0 \<Rightarrow> Inl ReprOverrun | Suc i \<Rightarrow> Inr (i, c # repr))"

definition digit_char :: "fmt_spec \<Rightarrow> u64 \<Rightarrow> char" where
  "digit_char fm remainder =
     (if fm_base fm = 16 then hex_char (uppercase fm) remainder
      else if fm_base fm = 8 \<or> fm_base fm = 10 then char_of (unat remainder + of_char CHR ''0'')
      else CHR ''?'')"

fun repr_loop :: "fmt_spec \<Rightarrow> nat \<Rightarrow> u64 \<Rightarrow> string \<Rightarrow> vs_fault + nat \<times> string" where
  "repr_loop fm index v repr =
     (if v = 0 then Inr (index, repr)
      else
        (let remainder = v mod ucast (fm_base fm); v = v div ucast (fm_base fm)
         in case index of
              0 \<Rightarrow> Inl ReprOverrun
            | Suc i \<Rightarrow> repr_loop fm i v (digit_char fm remainder # repr)))"

declare repr_loop.simps [simp del]

definition bindF :: "vs_fault + 'x \<Rightarrow> ('x \<Rightarrow> vs_fault + 'y) \<Rightarrow> vs_fault + 'y" where
  "bindF x f = (case x of Inl e \<Rightarrow> Inl e | Inr a \<Rightarrow> f a)"

definition integer_repr :: "fmt_spec \<Rightarrow> u64 \<Rightarrow> vs_fault + string \<times> u64" where
  "integer_repr fm v =
     bindF (repr_loop fm REPR_BUFFER_SIZE v []) (\<lambda>(index, repr).
     (let repr_size = of_nat (REPR_BUFFER_SIZE - index) in
      bindF (if repr_size = 0 then bindF (repr_push CHR ''0'' (index, repr)) (\<lambda>r. Inr (r, 1)) else Inr ((index, repr), repr_size))
        (\<lambda>(r, repr_size).
           if alternate_form fm then
             (if fm_base fm = 16 then
                bindF (repr_push (if uppercase fm then CHR ''X'' else CHR ''x'') r) (\<lambda>r.
                bindF (repr_push CHR ''0'' r) (\<lambda>r. Inr (snd r, repr_size + 2)))
              else if fm_base fm = 8 then bindF (repr_push CHR ''0'' r) (\<lambda>r. Inr (snd r, repr_size + 1))
              else Inr (snd r, repr_size))
           else Inr (snd r, repr_size))))"

definition write_integer :: "fmt_spec \<Rightarrow> u64 \<Rightarrow> fmt_buf_state \<Rightarrow> vs_fault + fmt_buf_state" where
  "write_integer fm v fb =
     (let negative = (is_signed fm \<and> sint v < 0);
          v = (if negative then - v else v);
          fb = (if prepend fm \<or> negative then write_one (if negative then CHR ''-'' else prepend_char fm) fb else fb)
      in bindF (integer_repr fm v) (\<lambda>(repr, repr_size).
           Inr (if left_justify fm then write_padding fm repr_size (write_many repr repr_size fb)
                else write_many repr repr_size (write_padding fm repr_size fb))))"

section \<open>Consuming the format\<close>

fun string_has_at_least :: "string \<Rightarrow> u64 \<Rightarrow> bool" where
  "string_has_at_least [] characters = False"
| "string_has_at_least (c # str) characters =
     (if characters - 1 = 0 then True else string_has_at_least str (characters - 1))"

fun count_digits :: "string \<Rightarrow> nat" where
  "count_digits [] = 0"
| "count_digits (c # str) = (if (of_char c :: nat) < of_char CHR ''0'' \<or> (of_char c :: nat) > of_char CHR ''9'' then 0 else Suc (count_digits str))"

text \<open>The result: whether digits were found, how many, and the string after them.\<close>

definition consume_digits :: "string \<Rightarrow> (nat \<times> string) option" where
  "consume_digits str = (let sz = count_digits str in if sz = 0 then None else Some (sz, drop sz str))"

datatype parse_number_mode = PARSE_NUMBER_MODE_MAYBE | PARSE_NUMBER_MODE_MUST

text \<open>\<open>None\<close> for false; otherwise the number, the old value when there was none, and the rest.\<close>

definition parse_number :: "parse_number_mode \<Rightarrow> u64 \<Rightarrow> string \<Rightarrow> (u64 \<times> string) option" where
  "parse_number mode old fmt =
     (case consume_digits fmt of
        None \<Rightarrow> if mode \<noteq> PARSE_NUMBER_MODE_MUST then Some (old, fmt) else None
      | Some (num_digits, rest) \<Rightarrow>
          (let (ret, v) = uacpi_string_to_integer (take num_digits fmt) UACPI_BASE_DEC
           in if ret = UACPI_STATUS_OK then Some (v, rest) else None))"

definition consume :: "string \<Rightarrow> string \<Rightarrow> string option" where
  "consume token str =
     (let token_size = length token in
      if \<not> string_has_at_least str (of_nat token_size) then None
      else if take token_size str = token then Some (drop token_size str) else None)"

fun is_one_of :: "char \<Rightarrow> string \<Rightarrow> bool" where
  "is_one_of c [] = False"
| "is_one_of c (d # chars) = (if c = d then True else is_one_of c chars)"

definition consume_one_of :: "string \<Rightarrow> string \<Rightarrow> (char \<times> string) option" where
  "consume_one_of chars str =
     (case str of [] \<Rightarrow> None | c # rest \<Rightarrow> if is_one_of c chars then Some (c, rest) else None)"

definition base_from_specifier :: "char \<Rightarrow> u32" where
  "base_from_specifier specifier =
     (if specifier = CHR ''x'' \<or> specifier = CHR ''X'' then 16 else if specifier = CHR ''o'' then 8 else 10)"

definition is_uppercase_specifier :: "char \<Rightarrow> bool" where
  "is_uppercase_specifier specifier \<longleftrightarrow> specifier = CHR ''X''"

text \<open>The text before the next \<open>%\<close>, and the rest from it on when there is one.\<close>

fun find_next_conversion :: "string \<Rightarrow> string option \<times> nat" where
  "find_next_conversion [] = (None, 0)"
| "find_next_conversion (c # fmt) =
     (if c = CHR ''%'' then (Some (c # fmt), 0)
      else (let (conversion, offset) = find_next_conversion fmt in (conversion, Suc offset)))"


section \<open>One conversion\<close>

text \<open>
  What a conversion writes.  Parsing it reads the format and the arguments only, so the body of the loop of
  \<open>uacpi_vsnprintf\<close> is split into the parsing, \<open>conversion\<close>, and the writing, \<open>perform\<close>.
\<close>

datatype directive = WriteChar char | WriteString string fmt_spec | WriteInteger fmt_spec u64

definition empty_spec :: fmt_spec where
  "empty_spec = \<lparr>is_signed = False, prepend = False, uppercase = False, left_justify = False,
     alternate_form = False, has_precision = False, pad_char = CHR '' '', prepend_char = CHR 0x00,
     min_width = 0, precision = 0, fm_base = 10\<rparr>"

fun parse_flags :: "string \<Rightarrow> fmt_spec \<Rightarrow> string \<times> fmt_spec" where
  "parse_flags [] fm = ([], fm)"
| "parse_flags (c # fmt) fm =
     (case consume_one_of ''+- 0#'' (c # fmt) of
        None \<Rightarrow> (c # fmt, fm)
      | Some (flag, rest) \<Rightarrow>
          parse_flags fmt
            (if flag = CHR ''+'' \<or> flag = CHR '' '' then fm\<lparr>prepend := True, prepend_char := flag\<rparr>
             else if flag = CHR ''-'' then fm\<lparr>left_justify := True\<rparr>
             else if flag = CHR ''0'' then fm\<lparr>pad_char := CHR ''0''\<rparr>
             else fm\<lparr>alternate_form := True\<rparr>))"

text \<open>\<open>va_arg(vlist, int)\<close>, \<open>va_arg(vlist, long)\<close>.\<close>

fun va_int :: "va list \<Rightarrow> vs_fault + u32 \<times> va list" where
  "va_int (VaInt w # args) = Inr (w, args)"
| "va_int _ = Inl VaMismatch"

fun va_long :: "va list \<Rightarrow> vs_fault + u64 \<times> va list" where
  "va_long (VaLong w # args) = Inr (w, args)"
| "va_long _ = Inl VaMismatch"

text \<open>The value of a field that is a number or \<open>*\<close>; \<open>None\<close> is the return of -1.\<close>

definition parse_field :: "parse_number_mode \<Rightarrow> u64 \<Rightarrow> string \<Rightarrow> va list \<Rightarrow> vs_fault + (u64 \<times> string \<times> va list) option" where
  "parse_field mode old fmt args =
     (case consume ''*'' fmt of
        Some fmt \<Rightarrow> bindF (va_int args) (\<lambda>(w, args). Inr (Some (scast w, fmt, args)))
      | None \<Rightarrow> Inr (map_option (\<lambda>(v, fmt). (v, fmt, args)) (parse_number mode old fmt)))"

text \<open>
  The five blocks \<open>if (consume(&fmt, "d") || consume(&fmt, "i")) ... else if (consume_one_of(&fmt, "oxXu", &flag))\<close>
  differ in how they read the argument for a signed and for an unsigned conversion; then \<open>write_int\<close>.
\<close>

definition int_conversion ::
  "(va list \<Rightarrow> vs_fault + u64 \<times> va list) \<Rightarrow> (va list \<Rightarrow> vs_fault + u64 \<times> va list) \<Rightarrow> fmt_spec \<Rightarrow> string \<Rightarrow> va list
    \<Rightarrow> vs_fault + (directive \<times> string \<times> va list) option" where
  "int_conversion signed_arg unsigned_arg fm fmt args =
     (case (case consume ''d'' fmt of Some rest \<Rightarrow> Some rest | None \<Rightarrow> consume ''i'' fmt) of
        Some fmt \<Rightarrow> bindF (signed_arg args) (\<lambda>(v, args). Inr (Some (WriteInteger (fm\<lparr>is_signed := True\<rparr>) v, fmt, args)))
      | None \<Rightarrow>
          (case consume_one_of ''oxXu'' fmt of
             Some (flag, fmt) \<Rightarrow>
               bindF (unsigned_arg args) (\<lambda>(v, args). Inr (Some (WriteInteger
                 (fm\<lparr>fm_base := base_from_specifier flag, uppercase := is_uppercase_specifier flag\<rparr>) v, fmt, args)))
           | None \<Rightarrow> Inr None))"

definition map_arg :: "('x \<Rightarrow> u64) \<Rightarrow> vs_fault + 'x \<times> va list \<Rightarrow> vs_fault + u64 \<times> va list" where
  "map_arg f r = map_sum id (\<lambda>(w, args). (f w, args)) r"

definition type_conversion :: "fmt_spec \<Rightarrow> string \<Rightarrow> va list \<Rightarrow> vs_fault + (directive \<times> string \<times> va list) option" where
  "type_conversion fm fmt args =
     (case consume ''c'' fmt of Some fmt \<Rightarrow>
        bindF (va_int args) (\<lambda>(w, args). Inr (Some (WriteChar (char_of (unat (ucast w :: u8))), fmt, args)))
      | None \<Rightarrow>
     (case consume ''s'' fmt of Some fmt \<Rightarrow>
        (case args of
           VaString str # args \<Rightarrow>
             Inr (Some (WriteString (case str of None \<Rightarrow> ''<null>'' | Some str \<Rightarrow> str) fm, fmt, args))
         | _ \<Rightarrow> Inl VaMismatch)
      | None \<Rightarrow>
     (case consume ''p'' fmt of Some fmt \<Rightarrow>
        (case args of
           VaPointer v # args \<Rightarrow>
             Inr (Some (WriteInteger (fm\<lparr>fm_base := 16, min_width := 8 * 2, pad_char := CHR ''0''\<rparr>) v, fmt, args))
         | _ \<Rightarrow> Inl VaMismatch)
      | None \<Rightarrow>
     (case consume ''hh'' fmt of Some fmt \<Rightarrow>
        int_conversion (\<lambda>args. map_arg scast (va_int args)) (\<lambda>args. map_arg (\<lambda>w. ucast (ucast w :: u8)) (va_int args)) fm fmt args
      | None \<Rightarrow>
     (case consume ''h'' fmt of Some fmt \<Rightarrow>
        int_conversion (\<lambda>args. map_arg (\<lambda>w. scast (ucast w :: u16)) (va_int args))
          (\<lambda>args. map_arg (\<lambda>w. ucast (ucast w :: u16)) (va_int args)) fm fmt args
      | None \<Rightarrow>
     (case (case consume ''ll'' fmt of Some fmt \<Rightarrow> Some fmt | None \<Rightarrow> consume ''z'' fmt) of Some fmt \<Rightarrow>
        int_conversion va_long va_long fm fmt args
      | None \<Rightarrow>
     (case (case consume ''l'' fmt of Some fmt \<Rightarrow> Some fmt | None \<Rightarrow> consume ''z'' fmt) of Some fmt \<Rightarrow>
        int_conversion va_long va_long fm fmt args
      | None \<Rightarrow>
        int_conversion (\<lambda>args. map_arg scast (va_int args)) (\<lambda>args. map_arg ucast (va_int args)) fm fmt args)))))))"

text \<open>After the \<open>%\<close>: flags, width, precision, then the type; \<open>Inr None\<close> is the return of -1.\<close>

definition conversion :: "string \<Rightarrow> va list \<Rightarrow> vs_fault + (directive \<times> string \<times> va list) option" where
  "conversion fmt args =
     (let (fmt, fm) = parse_flags fmt empty_spec in
      bindF (parse_field PARSE_NUMBER_MODE_MAYBE (min_width fm) fmt args) (\<lambda>width.
        case width of None \<Rightarrow> Inr None | Some (w, fmt, args) \<Rightarrow>
          (let fm = fm\<lparr>min_width := w\<rparr> in
           case consume ''.'' fmt of
             None \<Rightarrow> type_conversion fm fmt args
           | Some fmt \<Rightarrow>
               bindF (parse_field PARSE_NUMBER_MODE_MUST (precision fm) fmt args) (\<lambda>prec.
                 case prec of None \<Rightarrow> Inr None | Some (p, fmt, args) \<Rightarrow>
                   type_conversion (fm\<lparr>has_precision := True, precision := p\<rparr>) fmt args))))"

fun perform :: "directive \<Rightarrow> fmt_buf_state \<Rightarrow> vs_fault + fmt_buf_state" where
  "perform (WriteChar c) fb = Inr (write_one c fb)"
| "perform (WriteString str fm) fb =
     (let shown = (if has_precision fm then take (unat (precision fm)) str else str);
          fb = fold write_one shown fb
      in Inr (for_up (length shown) (unat (min_width fm)) (\<lambda>_. write_one CHR '' '') fb))"
| "perform (WriteInteger fm v) fb = write_integer fm v fb"

section \<open>uacpi_vsnprintf\<close>

text \<open>One round of the loop: it returns -1, leaves the loop, or goes on.\<close>

datatype vs_round = RoundFails fmt_buf_state | RoundLast fmt_buf_state | RoundNext string "va list" fmt_buf_state

definition vs_step :: "string \<Rightarrow> va list \<Rightarrow> fmt_buf_state \<Rightarrow> vs_fault + vs_round" where
  "vs_step fmt args fb =
     (let (next_conversion, next_offset) = find_next_conversion fmt;
          fb = (if next_offset \<noteq> 0 then write_many fmt (of_nat next_offset) fb else fb)
      in case next_conversion of
           None \<Rightarrow> Inr (RoundLast fb)
         | Some fmt \<Rightarrow>
             (case consume ''%%'' fmt of
                Some fmt \<Rightarrow> Inr (RoundNext fmt args (write_one CHR ''%'' fb))
              | None \<Rightarrow>
                  bindF (conversion (tl fmt) args) (\<lambda>r.
                    case r of
                      None \<Rightarrow> Inr (RoundFails fb)
                    | Some (d, fmt, args) \<Rightarrow> bindF (perform d fb) (\<lambda>fb. Inr (RoundNext fmt args fb)))))"


lemma consume_Some: "consume token str = Some rest \<Longrightarrow> str = token @ rest"
  unfolding consume_def Let_def
  by (metis append_take_drop_id option.distinct(1) option.inject)

lemma consume_length: "consume token str = Some rest \<Longrightarrow> length rest \<le> length str"
  using consume_Some by fastforce

lemma consume_one_of_length: "consume_one_of chars str = Some (c, rest) \<Longrightarrow> length rest \<le> length str"
  by (auto simp: consume_one_of_def split: list.splits if_splits)

lemma parse_flags_length: "length (fst (parse_flags fmt fm)) \<le> length fmt"
  by (induction fmt fm rule: parse_flags.induct) (auto simp: le_SucI split: option.splits)

lemma parse_number_length: "parse_number mode old fmt = Some (v, rest) \<Longrightarrow> length rest \<le> length fmt"
  by (auto simp: parse_number_def consume_digits_def Let_def split: option.splits prod.splits if_splits)

lemma parse_field_length:
  "parse_field mode old fmt args = Inr (Some (v, rest, args')) \<Longrightarrow> length rest \<le> length fmt"
  unfolding parse_field_def bindF_def
  by (auto split: option.splits sum.splits dest: consume_length parse_number_length)

lemma int_conversion_length:
  "int_conversion f g fm fmt args = Inr (Some (d, rest, args')) \<Longrightarrow> length rest \<le> length fmt"
  unfolding int_conversion_def bindF_def
  by (auto split: option.splits sum.splits dest: consume_length consume_one_of_length)

lemma type_conversion_length:
  "type_conversion fm fmt args = Inr (Some (d, rest, args')) \<Longrightarrow> length rest \<le> length fmt"
  unfolding type_conversion_def
  by (auto simp: bindF_def split: option.splits sum.splits list.splits va.splits
      dest!: int_conversion_length consume_length)

lemma conversion_length:
  "conversion fmt args = Inr (Some (d, rest, args')) \<Longrightarrow> length rest \<le> length fmt"
  using parse_flags_length [of fmt empty_spec] unfolding conversion_def
  by (auto simp: bindF_def Let_def split: option.splits sum.splits prod.splits
      dest!: type_conversion_length parse_field_length consume_length)

lemma find_next_conversion_Some:
  "find_next_conversion fmt = (Some rest, n) \<Longrightarrow> \<exists>tail. rest = CHR ''%'' # tail \<and> fmt = take n fmt @ rest \<and> length rest + n = length fmt"
  by (induction fmt arbitrary: n) (auto split: if_splits prod.splits)

lemma vs_step_length:
  assumes "vs_step fmt args fb = Inr (RoundNext fmt' args' fb')"
  shows "length fmt' < length fmt"
proof -
  obtain rest n where n: "find_next_conversion fmt = (Some rest, n)"
    using assms by (cases "find_next_conversion fmt") (auto simp: vs_step_def Let_def split: option.splits)
  then obtain tail where t: "rest = CHR ''%'' # tail" "length rest + n = length fmt"
    using find_next_conversion_Some by blast
  show ?thesis
  proof (cases "consume ''%%'' rest")
    case None
    then obtain d where "conversion tail args = Inr (Some (d, fmt', args'))"
      using assms by (auto simp: vs_step_def n t(1) bindF_def Let_def split: option.splits sum.splits)
    from conversion_length [OF this] show ?thesis using t by simp
  next
    case (Some r)
    then have "fmt' = r" using assms by (simp add: vs_step_def n Let_def)
    then show ?thesis using consume_Some [OF Some] t by simp
  qed
qed

function vs_loop :: "string \<Rightarrow> va list \<Rightarrow> fmt_buf_state \<Rightarrow> vs_fault + bool \<times> fmt_buf_state" where
  "vs_loop fmt args fb =
     (if fmt = [] then Inr (True, fb)
      else
        (case vs_step fmt args fb of
           Inl fault \<Rightarrow> Inl fault
         | Inr (RoundFails fb) \<Rightarrow> Inr (False, fb)
         | Inr (RoundLast fb) \<Rightarrow> Inr (True, fb)
         | Inr (RoundNext fmt args fb) \<Rightarrow> vs_loop fmt args fb))"
  by pat_completeness auto
termination
  by (relation "measure (\<lambda>(fmt, args, fb). length fmt)") (simp_all add: vs_step_length)

declare vs_loop.simps [simp del]

text \<open>The result of the call and the buffer it leaves; -1 is the value of all ones.\<close>

definition uacpi_vsnprintf :: "(u64 \<Rightarrow> char) \<Rightarrow> u64 \<Rightarrow> string \<Rightarrow> va list \<Rightarrow> vs_fault + u32 \<times> (u64 \<Rightarrow> char)" where
  "uacpi_vsnprintf buf capacity fmt vlist =
     bindF (vs_loop fmt vlist \<lparr>fb_buffer = buf, fb_capacity = capacity, bytes_written = 0\<rparr>) (\<lambda>(ok, fb).
       if \<not> ok then Inr (- 1, fb_buffer fb)
       else
         (let buf =
            (if fb_capacity fb \<noteq> 0
             then (let last_char = (if bytes_written fb < fb_capacity fb - 1 then bytes_written fb else fb_capacity fb - 1)
                   in (fb_buffer fb)(last_char := CHR 0x00))
             else fb_buffer fb)
          in Inr (ucast (bytes_written fb), buf)))"

definition uacpi_snprintf :: "(u64 \<Rightarrow> char) \<Rightarrow> u64 \<Rightarrow> string \<Rightarrow> va list \<Rightarrow> vs_fault + u32 \<times> (u64 \<Rightarrow> char)" where
  "uacpi_snprintf buf capacity fmt args = uacpi_vsnprintf buf capacity fmt args"

end
