(* ===== verification/AcpiPrintProps.thy ===== *)
theory AcpiPrintProps
  imports AcpiPrint AcpiString
begin

text \<open>
  \<open>uacpi_vsnprintf\<close> writes a text that depends on the format and the arguments only, cut to the capacity and
  terminated; the digits of an integer always fit the stack buffer; and what it prints
  \<open>uacpi_string_to_integer\<close> reads back.
\<close>

section \<open>Writing characters\<close>

lemma emit_fields [simp]:
  "fb_capacity (fold write_one t fb) = fb_capacity fb"
  "bytes_written (fold write_one t fb) = bytes_written fb + of_nat (length t)"
  by (induction t arbitrary: fb) (simp_all add: write_one_def Let_def)

lemma emit_buffer:
  assumes "unat (bytes_written fb) + length t < 2 ^ 64"
  shows "fb_buffer (fold write_one t fb) i =
    (if bytes_written fb \<le> i \<and> unat i < unat (bytes_written fb) + length t \<and> i < fb_capacity fb
     then t ! (unat i - unat (bytes_written fb)) else fb_buffer fb i)"
  using assms
proof (induction t arbitrary: fb)
  case (Cons c t)
  let ?w = "bytes_written fb" and ?fb = "write_one c fb"
  have s: "unat (?w + 1) = unat ?w + 1" using Cons.prems by (subst unat_plus_nowrap) simp_all
  have W: "bytes_written ?fb = ?w + 1" "fb_capacity ?fb = fb_capacity fb"
    "fb_buffer ?fb i = (if i = ?w \<and> i < fb_capacity fb then c else fb_buffer fb i)"
    by (auto simp: write_one_def Let_def)
  have IH: "fb_buffer (fold write_one t ?fb) i =
    (if ?w + 1 \<le> i \<and> unat i < unat ?w + 1 + length t \<and> i < fb_capacity fb
     then t ! (unat i - (unat ?w + 1)) else fb_buffer ?fb i)"
    using Cons.IH [of ?fb] Cons.prems by (simp add: W(1,2) s)
  consider "unat i < unat ?w" | "i = ?w" | "unat ?w < unat i" by (metis linorder_neqE_nat word_unat_eq_iff)
  then show ?case
  proof cases
    case 3
    then have "unat i - unat ?w = Suc (unat i - (unat ?w + 1))" by simp
    then show ?thesis using 3 IH W(3) by (auto simp: word_le_nat_alt s)
  qed (use IH W(3) in \<open>auto simp: word_le_nat_alt s\<close>)
qed (auto simp: word_le_nat_alt)

lemma fill_list:
  fixes a :: u64
  assumes "unat a + n \<le> 2 ^ 64"
  shows "for_up 0 n (\<lambda>i b. b(a + of_nat i := xs ! i)) b j =
    (if unat a \<le> unat j \<and> unat j < unat a + n then xs ! (unat j - unat a) else b j)"
  using assms
proof (induction n)
  case 0
  show ?case by (subst if_not_P) (linarith, simp)
next
  case (Suc n)
  have "unat (of_nat n :: u64) = n" using Suc.prems by (intro unat_addr) simp
  then have u: "unat (a + of_nat n) = unat a + n" using Suc.prems by (subst unat_plus_nowrap) simp_all
  have e: "j = a + of_nat n \<longleftrightarrow> unat j = unat a + n" using u by (metis word_unat_eq_iff)
  show ?case using Suc by (auto simp: for_up_last e less_Suc_eq)
qed

lemma write_many_emit:
  assumes "unat (bytes_written fb) + unat count < 2 ^ 64" "unat count \<le> length str"
  shows "write_many str count fb = fold write_one (take (unat count) str) fb"
proof -
  let ?w = "bytes_written fb" and ?c = "fb_capacity fb"
  have l: "length (take (unat count) str) = unat count" using assms(2) by simp
  have "fb_buffer (write_many str count fb) i = fb_buffer (fold write_one (take (unat count) str) fb) i" for i
  proof (cases "?w < ?c")
    case True
    let ?n = "unat (if count < ?c - ?w then count else ?c - ?w)"
    have cw: "unat (?c - ?w) = unat ?c - unat ?w" using True by (simp add: unat_sub word_le_nat_alt word_less_nat_alt)
    then have n: "?n = min (unat count) (unat ?c - unat ?w)" by (simp add: word_less_nat_alt min_def)
    have "unat ?w + ?n \<le> 2 ^ 64" using assms(1) unfolding n by simp
    note F = fill_list [OF this, of str "fb_buffer fb" i]
    have "fb_buffer (write_many str count fb) i =
        (if unat ?w \<le> unat i \<and> unat i < unat ?w + ?n then str ! (unat i - unat ?w) else fb_buffer fb i)"
      using True F by (simp add: write_many_def Let_def)
    moreover have "unat i < unat ?w + ?n \<longleftrightarrow> unat i < unat ?w + unat count \<and> i < ?c"
      unfolding n using True by (auto simp: word_less_nat_alt)
    ultimately show ?thesis
      using emit_buffer [of fb "take (unat count) str" i] assms by (auto simp: l word_le_nat_alt)
  next
    case False
    then show ?thesis
      using emit_buffer [of fb "take (unat count) str" i] assms by (auto simp: l write_many_def)
  qed
  moreover have "fb_capacity (write_many str count fb) = ?c" "bytes_written (write_many str count fb) = ?w + count"
    by (simp_all add: write_many_def Let_def)
  ultimately show ?thesis using l by (intro fmt_buf_state.equality) (auto simp: fun_eq_iff)
qed

lemma for_up_emit: "for_up a b (\<lambda>_. write_one c) fb = fold write_one (replicate (b - a) c) fb"
proof (induction b)
  case (Suc b)
  then show ?case by (cases "a \<le> b") (simp_all add: for_up_last Suc_diff_le replicate_append_same [symmetric] del: replicate.simps)
qed simp

section \<open>Integers\<close>

lemma repr_loop_length:
  "repr_loop fm index v repr = Inr (i, r) \<Longrightarrow> i \<le> index \<and> i + length r = index + length repr"
  by (induction fm index v repr arbitrary: i r rule: repr_loop.induct)
     (subst (asm) repr_loop.simps, fastforce split: if_splits nat.splits simp: Let_def)

lemma repr_push_Inr: "repr_push c (i, r) = Inr x \<longleftrightarrow> (\<exists>j. i = Suc j \<and> x = (j, c # r))"
  by (auto simp: repr_push_def split: nat.splits)

lemma bindF_Inr: "bindF x f = Inr y \<longleftrightarrow> (\<exists>a. x = Inr a \<and> f a = Inr y)"
  by (cases x) (simp_all add: bindF_def)

lemma integer_repr_length:
  assumes "integer_repr fm v = Inr (repr, n)"
  shows "n = of_nat (length repr)" "length repr \<le> 32"
proof -
  obtain index r where r: "repr_loop fm REPR_BUFFER_SIZE v [] = Inr (index, r)"
    using assms by (auto simp: integer_repr_def bindF_Inr)
  have l: "index \<le> 32" "length r = 32 - index"
    using repr_loop_length [OF r] by (auto simp: REPR_BUFFER_SIZE_def)
  have z: "(of_nat (32 - index) :: u64) = 0 \<longleftrightarrow> index = 32"
    using of_nat_addr_eq [of "32 - index" 0] l(1) by auto
  show "n = of_nat (length repr)" "length repr \<le> 32"
    using assms l z unfolding integer_repr_def r
    by (auto simp: bindF_def REPR_BUFFER_SIZE_def repr_push_def Let_def split: if_splits nat.splits)
qed

section \<open>The text of a format\<close>

text \<open>The characters a conversion stands for, and those of a whole format with its arguments.\<close>

fun dir_text :: "directive \<Rightarrow> vs_fault + string" where
  "dir_text (WriteChar c) = Inr [c]"
| "dir_text (WriteString str fm) =
     (let shown = (if has_precision fm then take (unat (precision fm)) str else str)
      in Inr (shown @ replicate (unat (min_width fm) - length shown) CHR '' ''))"
| "dir_text (WriteInteger fm v) =
     (let negative = (is_signed fm \<and> sint v < 0);
          sign = (if negative then [CHR ''-''] else if prepend fm then [prepend_char fm] else [])
      in bindF (integer_repr fm (if negative then - v else v)) (\<lambda>(repr, _).
           (let pad = replicate (unat (min_width fm) - length repr) (if left_justify fm then CHR '' '' else pad_char fm)
            in Inr (sign @ (if left_justify fm then repr @ pad else pad @ repr)))))"

lemma next_percent_length:
  "find_next_conversion fmt = (Some rest, n) \<Longrightarrow> consume ''%%'' rest = Some r \<Longrightarrow> length r < length fmt"
  using find_next_conversion_Some [of fmt rest n] consume_Some [of "''%%''" rest r] by fastforce

lemma next_conversion_length:
  "find_next_conversion fmt = (Some rest, n) \<Longrightarrow> conversion (tl rest) args = Inr (Some (d, r, args')) \<Longrightarrow> length r < length fmt"
  using find_next_conversion_Some [of fmt rest n] conversion_length [of "tl rest" args d r args'] by fastforce

function vs_text :: "string \<Rightarrow> va list \<Rightarrow> vs_fault + bool \<times> string" where
  "vs_text fmt args =
     (if fmt = [] then Inr (True, [])
      else
        (case find_next_conversion fmt of
           (None, n) \<Rightarrow> Inr (True, fmt)
         | (Some rest, n) \<Rightarrow>
             (case consume ''%%'' rest of
                Some rest \<Rightarrow> bindF (vs_text rest args) (\<lambda>(ok, t). Inr (ok, take n fmt @ ''%'' @ t))
              | None \<Rightarrow>
                  (case conversion (tl rest) args of
                     Inl e \<Rightarrow> Inl e
                   | Inr None \<Rightarrow> Inr (False, take n fmt)
                   | Inr (Some (d, rest, args)) \<Rightarrow>
                       bindF (dir_text d) (\<lambda>u.
                         bindF (vs_text rest args) (\<lambda>(ok, t). Inr (ok, take n fmt @ u @ t)))))))"
  by pat_completeness auto
termination
  by (relation "measure (\<lambda>(fmt, args). length fmt)")
     (auto dest: next_percent_length [OF sym] next_conversion_length [OF sym])

declare vs_text.simps [simp del]

lemma find_next_conversion_None: "find_next_conversion fmt = (None, n) \<Longrightarrow> n = length fmt"
  by (induction fmt arbitrary: n) (auto split: if_splits prod.splits)

lemma write_padding_emit:
  "write_padding fm sz fb =
    fold write_one (replicate (unat (min_width fm) - unat sz) (if left_justify fm then CHR '' '' else pad_char fm)) fb"
  by (auto simp: write_padding_def Let_def for_up_emit unat_sub word_le_nat_alt)

lemma perform_emit:
  assumes "dir_text d = Inr t" "unat (bytes_written fb) + length t < 2 ^ 64"
  shows "perform d fb = Inr (fold write_one t fb)"
proof (cases d)
  case (WriteChar c)
  then show ?thesis using assms(1) by auto
next
  case (WriteString str fm)
  then show ?thesis using assms(1) by (auto simp: Let_def for_up_emit)
next
  case (WriteInteger fm v)
  define neg where "neg = (is_signed fm \<and> sint v < 0)"
  define sign where "sign = (if neg then [CHR ''-''] else if prepend fm then [prepend_char fm] else [])"
  obtain repr n where r: "integer_repr fm (if neg then - v else v) = Inr (repr, n)"
    and t: "t = sign @ (if left_justify fm
        then repr @ replicate (unat (min_width fm) - length repr) CHR '' ''
        else replicate (unat (min_width fm) - length repr) (pad_char fm) @ repr)"
    using assms(1) WriteInteger by (auto simp: bindF_Inr Let_def neg_def sign_def split: if_splits)
  note L = integer_repr_length [OF r]
  have un: "unat n = length repr" using L by (simp add: unat_addr)
  define fb1 where "fb1 = fold write_one sign fb"
  have f1: "(if prepend fm \<or> neg then write_one (if neg then CHR ''-'' else prepend_char fm) fb else fb) = fb1"
    by (simp add: fb1_def sign_def)
  have len: "unat (bytes_written fb) + length sign + length repr
      + (unat (min_width fm) - length repr) < 2 ^ 64" using assms(2) by (simp add: t split: if_splits)
  have w1: "unat (bytes_written fb1) = unat (bytes_written fb) + length sign"
  proof -
    have "unat (of_nat (length sign) :: u64) = length sign" using len by (intro unat_addr) simp
    then show ?thesis using len by (simp add: fb1_def) (subst unat_plus_nowrap, simp_all)
  qed
  have many: "write_many repr n g = fold write_one repr g" if "unat (bytes_written g) + length repr < 2 ^ 64" for g
    using write_many_emit [of g n repr] that un by simp
  have pad: "write_padding fm n g =
      fold write_one (replicate (unat (min_width fm) - length repr) (if left_justify fm then CHR '' '' else pad_char fm)) g" for g
    using write_padding_emit [of fm n g] un by simp
  have w2: "unat (bytes_written (fold write_one (replicate (unat (min_width fm) - length repr) c) fb1))
      = unat (bytes_written fb1) + (unat (min_width fm) - length repr)" for c
  proof -
    have "unat (of_nat (unat (min_width fm) - length repr) :: u64) = unat (min_width fm) - length repr"
      using len by (intro unat_addr) simp
    then show ?thesis unfolding emit_fields length_replicate using len w1 by (subst unat_plus_nowrap) simp_all
  qed
  have "write_integer fm v fb = Inr (if left_justify fm then write_padding fm n (write_many repr n fb1)
      else write_many repr n (write_padding fm n fb1))"
    using r by (simp add: write_integer_def neg_def [symmetric] f1 bindF_def Let_def)
  also have "\<dots> = Inr (fold write_one t fb)"
    using len w1 w2 by (simp add: many pad t fb1_def [symmetric])
  finally show ?thesis by (simp add: WriteInteger)
qed

text \<open>The loop appends the text, or fails where the text does.\<close>

lemma emit_length:
  assumes "unat (bytes_written fb) + length t < 2 ^ 64"
  shows "unat (bytes_written (fold write_one t fb)) = unat (bytes_written fb) + length t"
proof -
  have "unat (of_nat (length t) :: u64) = length t" using assms by (intro unat_addr) simp
  then show ?thesis unfolding emit_fields using assms by (subst unat_plus_nowrap) simp_all
qed

lemma vs_loop_text:
  assumes "vs_text fmt args = Inr (ok, t)" "unat (bytes_written fb) + length t < 2 ^ 64"
  shows "vs_loop fmt args fb = Inr (ok, fold write_one t fb)"
  using assms
proof (induction fmt args arbitrary: fb ok t rule: vs_text.induct)
  case (1 fmt args)
  show ?case
  proof (cases "fmt = []")
    case True
    then show ?thesis using "1.prems"(1) by (simp add: vs_text.simps vs_loop.simps)
  next
    case ne: False
    obtain conv n where c: "find_next_conversion fmt = (conv, n)" by fastforce
    define fb1 where "fb1 = (if n \<noteq> 0 then write_many fmt (of_nat n) fb else fb)"
    have step: "vs_step fmt args fb = (case conv of None \<Rightarrow> Inr (RoundLast fb1)
       | Some f \<Rightarrow> (case consume ''%%'' f of Some f \<Rightarrow> Inr (RoundNext f args (write_one CHR ''%'' fb1))
         | None \<Rightarrow> bindF (conversion (tl f) args) (\<lambda>r. case r of None \<Rightarrow> Inr (RoundFails fb1)
             | Some (d, f, args) \<Rightarrow> bindF (perform d fb1) (\<lambda>fb. Inr (RoundNext f args fb)))))"
      unfolding vs_step_def c Let_def prod.case fb1_def ..
    have fb1: "fb1 = fold write_one (take n fmt) fb" if "n \<le> length fmt" "unat (bytes_written fb) + n < 2 ^ 64"
    proof -
      have "unat (of_nat n :: u64) = n" using that by (intro unat_addr) simp
      then show ?thesis using write_many_emit [of fb "of_nat n" fmt] that by (simp add: fb1_def)
    qed
    show ?thesis
    proof (cases conv)
      case None
      have n: "n = length fmt" using find_next_conversion_None c None by blast
      have t: "t = fmt" "ok" using "1.prems"(1) ne by (simp_all add: vs_text.simps [of fmt] c None)
      then show ?thesis using ne fb1 n "1.prems"(2)
        by (subst vs_loop.simps) (simp add: step None)
    next
      case (Some rest)
      note F = find_next_conversion_Some [OF c [unfolded Some]]
      have n: "n \<le> length fmt" using F by auto
      have nt: "length (take n fmt) = n" using n by simp
      show ?thesis
      proof (cases "consume ''%%'' rest")
        case p: (Some r)
        obtain t' where t: "vs_text r args = Inr (ok, t')" "t = take n fmt @ ''%'' @ t'"
          using "1.prems"(1) ne by (auto simp: vs_text.simps [of fmt] c Some p bindF_Inr)
        have len: "unat (bytes_written fb) + n + 1 + length t' < 2 ^ 64" using "1.prems"(2) n by (simp add: t(2))
        have b: "fb1 = fold write_one (take n fmt) fb" using len by (intro fb1 n) simp
        have w: "unat (bytes_written (write_one CHR ''%'' fb1)) = unat (bytes_written fb) + n + 1"
          using emit_length [of fb "take n fmt @ ''%''"] len n by (simp add: b)
        have "vs_loop r args (write_one CHR ''%'' fb1) = Inr (ok, fold write_one t' (write_one CHR ''%'' fb1))"
          using len w by (intro "1.IH"(2) [OF ne c [symmetric] Some p t(1)]) simp
        then show ?thesis using ne b
          by (subst vs_loop.simps) (simp add: step Some p t(2))
      next
        case p: None
        show ?thesis
        proof (cases "conversion (tl rest) args")
          case (Inl e)
          then show ?thesis using "1.prems"(1) ne by (simp add: vs_text.simps [of fmt] c Some p)
        next
          case v: (Inr r)
          show ?thesis
          proof (cases r)
            case r: None
            then have t: "\<not> ok" "t = take n fmt"
              using "1.prems"(1) ne by (simp_all add: vs_text.simps [of fmt] c Some p v)
            have "fb1 = fold write_one (take n fmt) fb" using "1.prems"(2) nt by (intro fb1 n) (simp add: t(2))
            then show ?thesis using ne t
              by (subst vs_loop.simps) (simp add: step Some p v r bindF_def)
          next
            case r: (Some x)
            obtain d s args' where x: "x = (d, s, args')" by (cases x)
            obtain u t' where t: "dir_text d = Inr u" "vs_text s args' = Inr (ok, t')" "t = take n fmt @ u @ t'"
              using "1.prems"(1) ne by (auto simp: vs_text.simps [of fmt] c Some p v r x bindF_Inr)
            have len: "unat (bytes_written fb) + n + length u + length t' < 2 ^ 64" using "1.prems"(2) n by (simp add: t(3))
            have b: "fb1 = fold write_one (take n fmt) fb" using len by (intro fb1 n) simp
            have w: "unat (bytes_written fb1) = unat (bytes_written fb) + n"
              using emit_length [of fb "take n fmt"] len n by (simp add: b)
            have pf: "perform d fb1 = Inr (fold write_one u fb1)" using len w by (intro perform_emit t(1)) simp
            have w2: "unat (bytes_written (fold write_one u fb1)) = unat (bytes_written fb1) + length u"
              using len w by (intro emit_length) simp
            have "vs_loop s args' (fold write_one u fb1) = Inr (ok, fold write_one t' (fold write_one u fb1))"
              using len w w2 by (intro "1.IH"(1) [OF ne c [symmetric] Some p v r x [symmetric] refl t(2)]) simp
            then show ?thesis using ne b
              by (subst vs_loop.simps) (simp add: step Some p v r x bindF_def pf [unfolded b] t(3))
          qed
        qed
      qed
    qed
  qed
qed

section \<open>Digits\<close>

text \<open>The digits of a number in a base, the highest first, and none for 0.\<close>

function radix :: "nat \<Rightarrow> (nat \<Rightarrow> char) \<Rightarrow> nat \<Rightarrow> string" where
  "radix b f n = (if n = 0 \<or> b < 2 then [] else radix b f (n div b) @ [f (n mod b)])"
  by pat_completeness auto
termination by (relation "measure (\<lambda>(b, f, n). n)") auto

declare radix.simps [simp del]

lemma radix_length: "n < b ^ k \<Longrightarrow> 2 \<le> b \<Longrightarrow> length (radix b f n) \<le> k"
proof (induction k arbitrary: n)
  case 0
  then show ?case by (simp add: radix.simps)
next
  case (Suc k)
  have "n div b < b ^ k" using Suc.prems by (simp add: less_mult_imp_div_less mult.commute)
  then show ?case using Suc.IH [of "n div b"] Suc.prems(2) by (subst radix.simps) simp
qed

lemma repr_loop_radix:
  assumes "2 \<le> unat (fm_base fm)" "length (radix (unat (fm_base fm)) (\<lambda>d. digit_char fm (of_nat d)) (unat v)) \<le> index"
  shows "repr_loop fm index v repr =
    Inr (index - length (radix (unat (fm_base fm)) (\<lambda>d. digit_char fm (of_nat d)) (unat v)),
      radix (unat (fm_base fm)) (\<lambda>d. digit_char fm (of_nat d)) (unat v) @ repr)"
  using assms(2)
proof (induction index arbitrary: v repr)
  case 0
  have "v = 0"
  proof (rule ccontr)
    assume "v \<noteq> 0"
    then show False using 0 assms(1) by (simp add: radix.simps [of _ _ "unat v"] unat_eq_0)
  qed
  then show ?case by (simp add: repr_loop.simps radix.simps)
next
  case (Suc index)
  let ?b = "unat (fm_base fm)" and ?f = "\<lambda>d. digit_char fm (of_nat d)"
  show ?case
  proof (cases "v = 0")
    case True
    then show ?thesis by (simp add: repr_loop.simps radix.simps)
  next
    case False
    have u: "unat (ucast (fm_base fm) :: u64) = ?b"
      using unat_u32_less [of "fm_base fm"] by (simp add: unsigned_ucast_eq take_bit_nat_eq_self)
    have dv: "unat (v div ucast (fm_base fm)) = unat v div ?b" "v mod ucast (fm_base fm) = of_nat (unat v mod ?b)"
    proof -
      show "unat (v div ucast (fm_base fm)) = unat v div ?b" by (simp only: unat_div u)
      have "v mod ucast (fm_base fm) = of_nat (unat (v mod ucast (fm_base fm)))" by (simp only: of_nat_unat ucast_id)
      then show "v mod ucast (fm_base fm) = of_nat (unat v mod ?b)" by (simp only: unat_mod u)
    qed
    have r: "radix ?b ?f (unat v) = radix ?b ?f (unat v div ?b) @ [?f (unat v mod ?b)]"
      using False assms(1) by (subst radix.simps) (simp add: unat_eq_0)
    have "length (radix ?b ?f (unat (v div ucast (fm_base fm)))) \<le> index"
      using Suc.prems unfolding r dv(1) by simp
    note IH = Suc.IH [OF this, of "digit_char fm (v mod ucast (fm_base fm)) # repr"]
    show ?thesis using False by (subst repr_loop.simps) (simp add: IH [unfolded dv] dv(2) r)
  qed
qed

text \<open>In base 8, 10 or 16 a 64-bit number has at most 22 digits; the buffer has room for 32.\<close>

definition good_base :: "fmt_spec \<Rightarrow> bool" where
  "good_base fm \<longleftrightarrow> fm_base fm \<in> {8, 10, 16}"

definition digits :: "fmt_spec \<Rightarrow> u64 \<Rightarrow> string" where
  "digits fm v = radix (unat (fm_base fm)) (\<lambda>d. digit_char fm (of_nat d)) (unat v)"

lemma digits_length: "good_base fm \<Longrightarrow> length (digits fm v) \<le> 22"
proof -
  assume "good_base fm"
  then have b: "8 \<le> unat (fm_base fm)" by (auto simp: good_base_def)
  have "unat v < 2 ^ 64" using unat_u64_less [of v] by simp
  also have "(2 :: nat) ^ 64 \<le> 8 ^ 22" by simp
  also have "(8 :: nat) ^ 22 \<le> unat (fm_base fm) ^ 22" using b by (rule power_mono) simp
  finally show ?thesis unfolding digits_def using b by (intro radix_length) simp_all
qed

lemma integer_repr_digits:
  assumes "good_base fm"
  shows "\<exists>n. integer_repr fm v = Inr
    ((if alternate_form fm \<and> fm_base fm = 16 then [CHR ''0'', if uppercase fm then CHR ''X'' else CHR ''x'']
      else if alternate_form fm \<and> fm_base fm = 8 then ''0'' else [])
     @ (if v = 0 then ''0'' else digits fm v), n)"
proof -
  have b: "2 \<le> unat (fm_base fm)" using assms by (auto simp: good_base_def)
  have l: "length (digits fm v) \<le> 22" by (rule digits_length [OF assms])
  have r: "repr_loop fm 32 v [] = Inr (32 - length (digits fm v), digits fm v)"
    using repr_loop_radix [OF b, of v 32 "[]"] l by (simp add: digits_def)
  have z: "digits fm v = [] \<longleftrightarrow> v = 0"
    using b by (subst digits_def, subst radix.simps) (simp add: unat_eq_0)
  have sz: "(of_nat (length (digits fm v)) :: u64) = 0 \<longleftrightarrow> v = 0"
    using of_nat_addr_eq [of "length (digits fm v)" 0] l z by simp
  have c: "32 - (32 - length (digits fm v)) = length (digits fm v)" using l by simp
  have push: "repr_push ch (i, s) = Inr (i - 1, ch # s)" if "0 < i" for ch i s
    using that by (cases i) (simp_all add: repr_push_def)
  have bind: "bindF (Inr a) f = f a" for a :: 'x and f :: "'x \<Rightarrow> vs_fault + 'y" by (simp add: bindF_def)
  define i where "i = 32 - length (digits fm v)"
  have i: "10 \<le> i" "32 - i = length (digits fm v)" using l by (simp_all add: i_def)
  obtain j and n :: u64 where start: "(if (of_nat (32 - i) :: u64) = 0 then bindF (repr_push CHR ''0'' (i, digits fm v)) (\<lambda>r. Inr (r, 1))
      else Inr ((i, digits fm v), of_nat (32 - i))) = Inr ((j, if v = 0 then ''0'' else digits fm v), n)" "2 < j"
  proof (cases "v = 0")
    case True
    then show ?thesis using i sz z by (intro that [of "i - 1" 1]) (simp_all add: push bind)
  next
    case False
    then show ?thesis using i sz by (intro that [of i "of_nat (32 - i)"]) simp_all
  qed
  show ?thesis
    unfolding integer_repr_def REPR_BUFFER_SIZE_def r i_def [symmetric] bind prod.case Let_def start
    using start(2) by (simp add: push bind)
qed

section \<open>Every conversion fits\<close>

definition fits_buffer :: "directive \<Rightarrow> bool" where
  "fits_buffer d = (case d of WriteInteger fm v \<Rightarrow> good_base fm | _ \<Rightarrow> True)"

lemma parse_flags_base: "fm_base (snd (parse_flags fmt fm)) = fm_base fm"
  by (induction fmt fm rule: parse_flags.induct) (auto split: option.splits)

lemma int_conversion_fits:
  "int_conversion f g fm fmt args = Inr (Some (d, rest, args')) \<Longrightarrow> fm_base fm \<in> {10, 16} \<Longrightarrow> fits_buffer d"
  unfolding int_conversion_def
  by (auto simp: bindF_Inr fits_buffer_def good_base_def base_from_specifier_def split: option.splits prod.splits)

lemma type_conversion_fits:
  "type_conversion fm fmt args = Inr (Some (d, rest, args')) \<Longrightarrow> fm_base fm \<in> {10, 16} \<Longrightarrow> fits_buffer d"
  unfolding type_conversion_def
  by (auto simp: bindF_Inr split: option.splits list.splits va.splits dest: int_conversion_fits)
     (simp_all add: fits_buffer_def good_base_def)

lemma conversion_fits:
  assumes "conversion fmt args = Inr (Some (d, rest, args'))"
  shows "fits_buffer d"
proof -
  obtain f fm where pf: "parse_flags fmt empty_spec = (f, fm)" by fastforce
  then have b: "fm_base fm = 10" using parse_flags_base [of fmt empty_spec] by (simp add: empty_spec_def)
  obtain w f1 a1 where w: "parse_field PARSE_NUMBER_MODE_MAYBE (min_width fm) f args = Inr (Some (w, f1, a1))"
    using assms unfolding conversion_def pf prod.case Let_def bindF_Inr by (elim exE conjE) (auto split: option.split_asm)
  obtain fm' f' a where "type_conversion fm' f' a = Inr (Some (d, rest, args'))" "fm_base fm' = 10"
  proof (cases "consume ''.'' f1")
    case None
    then show ?thesis using assms b unfolding conversion_def pf prod.case Let_def
      by (intro that [of "fm\<lparr>min_width := w\<rparr>" f1 a1]) (simp_all add: w bindF_def)
  next
    case (Some f2)
    then obtain q f3 a3 where "parse_field PARSE_NUMBER_MODE_MUST (precision fm) f2 a1 = Inr (Some (q, f3, a3))"
      using assms unfolding conversion_def pf prod.case Let_def
      by (auto simp: w bindF_def split: option.split_asm sum.split_asm)
    then show ?thesis using assms b Some unfolding conversion_def pf prod.case Let_def
      by (intro that [of "fm\<lparr>min_width := w, has_precision := True, precision := q\<rparr>" f3 a3]) (simp_all add: w bindF_def)
  qed
  then show ?thesis by (intro type_conversion_fits [of fm' f' a d rest args']) simp_all
qed

lemma va_int_defined: "va_int args \<noteq> Inl ReprOverrun"
  by (cases args rule: va_int.cases) simp_all

lemma va_long_defined: "va_long args \<noteq> Inl ReprOverrun"
  by (cases args rule: va_long.cases) simp_all

lemma map_arg_defined: "map_arg f x = Inl ReprOverrun \<longleftrightarrow> x = Inl ReprOverrun"
  by (cases x) (simp_all add: map_arg_def)

lemmas args_defined = va_int_defined va_long_defined map_arg_defined

lemma bindF_Inl: "bindF x f = Inl e \<longleftrightarrow> x = Inl e \<or> (\<exists>a. x = Inr a \<and> f a = Inl e)"
  by (cases x) (simp_all add: bindF_def)

lemma int_conversion_defined:
  assumes "f args \<noteq> Inl ReprOverrun" "g args \<noteq> Inl ReprOverrun"
  shows "int_conversion f g fm fmt args \<noteq> Inl ReprOverrun"
  using assms by (auto simp: int_conversion_def bindF_Inl split: option.splits prod.splits)

lemma type_conversion_defined: "type_conversion fm fmt args \<noteq> Inl ReprOverrun"
  unfolding type_conversion_def
  by (auto simp: bindF_Inl args_defined int_conversion_defined split: option.splits list.splits va.splits)

lemma parse_field_defined: "parse_field mode old fmt args \<noteq> Inl ReprOverrun"
  by (auto simp: parse_field_def bindF_Inl args_defined split: option.splits)

lemma conversion_defined: "conversion fmt args \<noteq> Inl ReprOverrun"
proof -
  obtain f fm where pf: "parse_flags fmt empty_spec = (f, fm)" by fastforce
  show ?thesis unfolding conversion_def pf prod.case Let_def
    by (auto simp: bindF_Inl type_conversion_defined parse_field_defined split: option.splits prod.splits)
qed

lemma perform_fits: "fits_buffer d \<Longrightarrow> \<exists>fb'. perform d fb = Inr fb'"
proof (cases d)
  case (WriteInteger fm v)
  assume "fits_buffer d"
  then have "good_base fm" by (simp add: fits_buffer_def WriteInteger)
  then show ?thesis
    using integer_repr_digits [of fm "if is_signed fm \<and> sint v < 0 then - v else v"]
    by (auto simp: WriteInteger write_integer_def Let_def bindF_Inr)
qed (simp_all add: Let_def)

lemma vs_step_defined: "vs_step fmt args fb \<noteq> Inl ReprOverrun"
proof -
  obtain conv n where c: "find_next_conversion fmt = (conv, n)" by fastforce
  define fb1 where "fb1 = (if n \<noteq> 0 then write_many fmt (of_nat n) fb else fb)"
  have p: "perform d fb1 \<noteq> Inl ReprOverrun" if "conversion f args = Inr (Some (d, rest, args'))" for f d rest args'
    using perform_fits [OF conversion_fits [OF that], of fb1] by auto
  have step: "vs_step fmt args fb = (case conv of None \<Rightarrow> Inr (RoundLast fb1)
       | Some f \<Rightarrow> (case consume ''%%'' f of Some f \<Rightarrow> Inr (RoundNext f args (write_one CHR ''%'' fb1))
         | None \<Rightarrow> bindF (conversion (tl f) args) (\<lambda>r. case r of None \<Rightarrow> Inr (RoundFails fb1)
             | Some (d, f, args) \<Rightarrow> bindF (perform d fb1) (\<lambda>fb. Inr (RoundNext f args fb)))))"
    unfolding vs_step_def c Let_def prod.case fb1_def ..
  show ?thesis unfolding step
    by (auto simp: bindF_Inl conversion_defined split: option.splits dest: p)
qed

lemma vs_loop_fits: "vs_loop fmt args fb \<noteq> Inl ReprOverrun"
proof (induction fmt args fb rule: vs_loop.induct)
  case (1 fmt args fb)
  show ?case
  proof (cases "vs_step fmt args fb")
    case (Inl e)
    then show ?thesis using vs_step_defined [of fmt args fb] by (subst vs_loop.simps) auto
  next
    case (Inr r)
    then show ?thesis using 1 by (subst vs_loop.simps) (auto split: vs_round.splits)
  qed
qed

section \<open>What the caller gets\<close>

lemma word_bits_of_nat: "(ucast (of_nat n :: u64) :: u32) = of_nat n"
  by (simp only: word_unat_eq_iff) (simp add: unsigned_ucast_eq unsigned_of_nat take_bit_take_bit)

lemma vsnprintf_buffer:
  fixes t :: string and cap :: u64
  assumes "length t < 2 ^ 64"
  defines "w \<equiv> min (length t) (unat cap - 1)"
  shows "fb_buffer (fold write_one t \<lparr>fb_buffer = buf, fb_capacity = cap, bytes_written = 0\<rparr>) i
    = (if unat i < length t \<and> i < cap then t ! unat i else buf i)"
  using emit_buffer [of "\<lparr>fb_buffer = buf, fb_capacity = cap, bytes_written = 0\<rparr>" t i] assms by simp

lemma vsnprintf_cells:
  assumes t: "vs_text fmt args = Inr (True, t)" "length t < 2 ^ 64"
  shows "uacpi_vsnprintf buf cap fmt args = Inr (of_nat (length t), (\<lambda>i.
    if cap = 0 then buf i
    else if unat i = min (length t) (unat cap - 1) then CHR 0x00
    else if unat i < min (length t) (unat cap - 1) then t ! unat i else buf i))"
proof -
  define fb where "fb = \<lparr>fb_buffer = buf, fb_capacity = cap, bytes_written = 0\<rparr>"
  have loop: "vs_loop fmt args fb = Inr (True, fold write_one t fb)"
    using t by (intro vs_loop_text) (simp_all add: fb_def)
  have f: "fb_capacity fb = cap" "bytes_written fb = 0" by (simp_all add: fb_def)
  have b: "fb_buffer (fold write_one t fb) i = (if unat i < length t \<and> i < cap then t ! unat i else buf i)" for i
    unfolding fb_def by (rule vsnprintf_buffer [OF t(2)])
  have u: "unat (of_nat (length t) :: u64) = length t" using t(2) by (intro unat_addr)
  have r: "(ucast (of_nat (length t) :: u64) :: u32) = of_nat (length t)" by (rule word_bits_of_nat)
  have last: "unat (if of_nat (length t) < cap - 1 then of_nat (length t) else cap - 1) = min (length t) (unat cap - 1)"
    if "cap \<noteq> 0"
  proof -
    have "unat (cap - 1) = unat cap - 1" using that by (simp add: unat_minus_one)
    then show ?thesis by (simp add: word_less_nat_alt u min_def)
  qed
  define last_char where "last_char = (if of_nat (length t) < cap - 1 then of_nat (length t) else cap - 1)"
  have eq: "i = last_char \<longleftrightarrow> unat i = min (length t) (unat cap - 1)" if "cap \<noteq> 0" for i
    using last [OF that] unfolding last_char_def [symmetric] by (metis word_unat_eq_iff)
  have cap: "0 < unat cap" if "cap \<noteq> 0" using that by (simp add: unat_gt_0)
  have B: "(if cap \<noteq> 0 then (fb_buffer (fold write_one t fb))(last_char := CHR 0x00) else fb_buffer (fold write_one t fb))
    = (\<lambda>i. if cap = 0 then buf i
       else if unat i = min (length t) (unat cap - 1) then CHR 0x00
       else if unat i < min (length t) (unat cap - 1) then t ! unat i else buf i)"
  proof (cases "cap = 0")
    case True
    show ?thesis by (rule ext) (simp add: True b)
  next
    case ne: False
    show ?thesis
    proof (rule ext)
      fix i
      have less: "unat i < min (length t) (unat cap - 1) \<longleftrightarrow> unat i < length t \<and> i < cap"
        if "unat i \<noteq> min (length t) (unat cap - 1)"
        using that cap [OF ne] unfolding word_less_nat_alt by linarith
      show "(if cap \<noteq> 0 then (fb_buffer (fold write_one t fb))(last_char := CHR 0x00) else fb_buffer (fold write_one t fb)) i
        = (if cap = 0 then buf i
           else if unat i = min (length t) (unat cap - 1) then CHR 0x00
           else if unat i < min (length t) (unat cap - 1) then t ! unat i else buf i)"
      proof (cases "i = last_char")
        case True
        then show ?thesis using ne eq [OF ne, of i] by simp
      next
        case False
        then have n: "unat i \<noteq> min (length t) (unat cap - 1)" using eq [OF ne, of i] by simp
        show ?thesis unfolding if_not_P [OF ne] if_not_P [OF n] less [OF n] if_P [OF ne] fun_upd_other [OF False] b ..
      qed
    qed
  qed
  show ?thesis
    unfolding uacpi_vsnprintf_def fb_def [symmetric] loop bindF_def sum.case prod.case not_True_eq_False if_False
      emit_fields f add_0 Let_def last_char_def [symmetric] r B ..
qed

text \<open>
  C25. The text of a format and its arguments does not depend on the buffer.  When the format is valid the call
  returns its length, cut to an \<open>int\<close>; the buffer holds as much of it as fits before a terminating NUL, and no
  other cell changes.  With capacity 0 nothing is written.
\<close>
theorem vsnprintf_truncates:
  assumes t: "vs_text fmt args = Inr (True, t)" "length t < 2 ^ 64"
  shows "uacpi_vsnprintf buf cap fmt args = Inr (of_nat (length t), (\<lambda>i.
    if cap = 0 then buf i
    else if unat i = min (length t) (unat cap - 1) then CHR 0x00
    else if unat i < min (length t) (unat cap - 1) then t ! unat i else buf i))"
  by (rule vsnprintf_cells [OF t])

theorem vsnprintf_truncates_witness:
  "uacpi_vsnprintf (\<lambda>_. CHR ''.'') 6 ''IRQ%3u'' [VaInt 7] = Inr (6, (\<lambda>i.
    if (6 :: u64) = 0 then CHR ''.''
    else if unat i = min (length ''IRQ  7'') (unat (6 :: u64) - 1) then CHR 0x00
    else if unat i < min (length ''IRQ  7'') (unat (6 :: u64) - 1) then ''IRQ  7'' ! unat i else CHR ''.''))"
proof -
  have t: "vs_text ''IRQ%3u'' [VaInt 7] = Inr (True, ''IRQ  7'')" by code_simp
  have "length ''IRQ  7'' < 2 ^ 64" "(of_nat (length ''IRQ  7'') :: u32) = 6" by simp_all
  then show ?thesis using vsnprintf_truncates [OF t, of "\<lambda>_. CHR ''.''" 6] by (simp only:)
qed

text \<open>
  Whatever the format and the arguments, no conversion writes outside the 32 characters of the stack buffer
  in which the digits of an integer are put together.
\<close>
theorem vsnprintf_repr_fits: "uacpi_vsnprintf buf cap fmt args \<noteq> Inl ReprOverrun"
  using vs_loop_fits [of fmt args "\<lparr>fb_buffer = buf, fb_capacity = cap, bytes_written = 0\<rparr>"]
  by (auto simp: uacpi_vsnprintf_def bindF_Inl split: if_splits)

section \<open>Reading back\<close>

lemma read_digits_radix:
  assumes b: "2 \<le> b" "base_value base = of_nat b" "b < 2 ^ 64"
    and f: "\<And>d. d < b \<Longrightarrow> digit_value base (f d) = Some (of_nat d)"
  shows "n < 2 ^ 64 \<Longrightarrow> \<exists>c'. read_digits base 0 c (radix b f n @ rest) = read_digits base (of_nat n) c' rest"
proof (induction n arbitrary: rest rule: less_induct)
  case (less n)
  show ?case
  proof (cases "n = 0")
    case True
    then show ?thesis by (auto simp: radix.simps)
  next
    case False
    have lt: "n div b < n" using False b(1) by simp
    define d where "d = n mod b"
    have d: "d < b" using b(1) by (simp add: d_def)
    obtain c' where IH: "read_digits base 0 c (radix b f (n div b) @ f d # rest)
        = read_digits base (of_nat (n div b)) c' (f d # rest)"
      using less.IH [OF lt, of "f d # rest"] lt less.prems by auto
    have ub: "unat (of_nat b :: u64) = b" and un: "unat (of_nat n :: u64) = n"
      using b(3) less.prems by (simp_all add: unat_addr)
    have uq: "unat (of_nat (n div b) :: u64) = n div b" using lt less.prems by (intro unat_addr) simp
    have next_eq: "(of_nat (n div b) :: u64) * of_nat b + of_nat d = of_nat n"
      unfolding d_def by (metis div_mult_mod_eq of_nat_add of_nat_mult)
    have quot: "(of_nat n :: u64) div of_nat b = of_nat (n div b)"
      by (simp only: word_unat_eq_iff unat_div ub un uq)
    have "radix b f n = radix b f (n div b) @ [f d]" using False b(1) by (subst radix.simps) (simp add: d_def)
    then have "read_digits base 0 c (radix b f n @ rest) = read_digits base (of_nat n) (f d) rest"
      using IH by (simp add: f [OF d] b(2) next_eq quot Let_def)
    then show ?thesis by blast
  qed
qed

lemma decimal_digit:
  assumes "fm_base fm = 10" "d < 10"
  shows "digit_value UACPI_BASE_DEC (digit_char fm (of_nat d)) = Some (of_nat d)"
proof -
  have "\<forall>d \<in> set [0..<10]. digit_value UACPI_BASE_DEC (digit_char (empty_spec\<lparr>fm_base := 10\<rparr>) (of_nat d)) = Some (of_nat d)"
    by code_simp
  moreover have "digit_char fm = digit_char (empty_spec\<lparr>fm_base := 10\<rparr>)"
    using assms(1) by (simp add: digit_char_def fun_eq_iff)
  ultimately show ?thesis using assms(2) by simp
qed

lemma hex_digit:
  assumes "fm_base fm = 16" "d < 16"
  shows "digit_value UACPI_BASE_HEX (digit_char fm (of_nat d)) = Some (of_nat d)"
proof -
  have "\<forall>up \<in> {True, False}. \<forall>d \<in> set [0..<16].
      digit_value UACPI_BASE_HEX (digit_char (empty_spec\<lparr>fm_base := 16, uppercase := up\<rparr>) (of_nat d)) = Some (of_nat d)"
    by code_simp
  moreover have "digit_char fm = digit_char (empty_spec\<lparr>fm_base := 16, uppercase := uppercase fm\<rparr>)"
    using assms(1) by (simp add: digit_char_def fun_eq_iff)
  ultimately show ?thesis using assms(2) by (cases "uppercase fm") simp_all
qed

lemma digits_last_ne: "good_base fm \<Longrightarrow> v \<noteq> 0 \<Longrightarrow> digits fm v \<noteq> []"
  by (auto simp: digits_def radix.simps [of _ _ "unat v"] good_base_def unat_eq_0)

lemma read_decimal:
  assumes "fm_base fm = 10"
  shows "\<exists>c'. read_digits UACPI_BASE_DEC 0 c (if v = 0 then ''0'' else digits fm v) = (v, c', [])"
proof (cases "v = 0")
  case True
  have "read_digits UACPI_BASE_DEC 0 c ''0'' = (0, CHR ''0'', [])" by code_simp
  then show ?thesis using True by auto
next
  case False
  have u: "unat (fm_base fm) = 10" using assms by simp
  obtain c' where "read_digits UACPI_BASE_DEC 0 c (digits fm v @ []) = read_digits UACPI_BASE_DEC (of_nat (unat v)) c' []"
    unfolding digits_def u
    using read_digits_radix [of 10 UACPI_BASE_DEC "\<lambda>d. digit_char fm (of_nat d)" "unat v" c "[]"]
      decimal_digit [OF assms] unat_u64_less [of v] by auto
  then show ?thesis using False by auto
qed

lemma read_hex:
  assumes "fm_base fm = 16" "v \<noteq> 0"
  shows "\<exists>c'. read_digits UACPI_BASE_HEX 0 c (digits fm v) = (v, c', [])"
proof -
  have u: "unat (fm_base fm) = 16" using assms by simp
  obtain c' where "read_digits UACPI_BASE_HEX 0 c (digits fm v @ []) = read_digits UACPI_BASE_HEX (of_nat (unat v)) c' []"
    unfolding digits_def u
    using read_digits_radix [of 16 UACPI_BASE_HEX "\<lambda>d. digit_char fm (of_nat d)" "unat v" c "[]"]
      hex_digit [OF assms(1)] unat_u64_less [of v] by auto
  then show ?thesis by auto
qed

text \<open>The texts of \<open>%llu\<close> and \<open>%#llx\<close>.\<close>

lemma plain_text:
  assumes "good_base fm" "\<not> is_signed fm" "\<not> prepend fm" "min_width fm = 0"
  shows "dir_text (WriteInteger fm v) = Inr
    ((if alternate_form fm \<and> fm_base fm = 16 then [CHR ''0'', if uppercase fm then CHR ''X'' else CHR ''x'']
      else if alternate_form fm \<and> fm_base fm = 8 then ''0'' else [])
     @ (if v = 0 then ''0'' else digits fm v))"
  using integer_repr_digits [OF assms(1), of v] assms(2,3,4) by (auto simp: bindF_def)

lemma one_conversion:
  assumes "find_next_conversion fmt = (Some fmt, 0)" "consume ''%%'' fmt = None" "fmt \<noteq> []"
    and "conversion (tl fmt) args = Inr (Some (d, [], []))" "dir_text d = Inr t"
  shows "vs_text fmt args = Inr (True, t)"
  using assms by (subst vs_text.simps) (simp add: bindF_def vs_text.simps [of "[]"])

lemma vs_text_llu:
  "\<exists>fm. fm_base fm = 10 \<and> vs_text ''%llu'' [VaLong v] = Inr (True, if v = 0 then ''0'' else digits fm v)"
proof -
  define fm where "fm = empty_spec\<lparr>fm_base := 10\<rparr>"
  have c: "conversion ''llu'' [VaLong v] = Inr (Some (WriteInteger fm v, [], []))"
    unfolding fm_def by code_simp
  have g: "good_base fm" "fm_base fm = 10" "\<not> is_signed fm" "\<not> prepend fm" "min_width fm = 0" "\<not> alternate_form fm"
    by (simp_all add: fm_def good_base_def empty_spec_def)
  have f: "find_next_conversion ''%llu'' = (Some ''%llu'', 0)" "consume ''%%'' ''%llu'' = None" by code_simp+
  have "vs_text ''%llu'' [VaLong v] = Inr (True, if v = 0 then ''0'' else digits fm v)"
    using plain_text [of fm v] g c by (intro one_conversion [OF f, where d = "WriteInteger fm v"]) simp_all
  then show ?thesis using g(2) by blast
qed

lemma vs_text_llx:
  "\<exists>fm. fm_base fm = 16 \<and> vs_text ''%#llx'' [VaLong v] = Inr (True, ''0x'' @ (if v = 0 then ''0'' else digits fm v))"
proof -
  define fm where "fm = empty_spec\<lparr>fm_base := 16, alternate_form := True\<rparr>"
  have c: "conversion ''#llx'' [VaLong v] = Inr (Some (WriteInteger fm v, [], []))"
    unfolding fm_def by code_simp
  have g: "good_base fm" "fm_base fm = 16" "\<not> is_signed fm" "\<not> prepend fm" "min_width fm = 0" "alternate_form fm"
    "\<not> uppercase fm"
    by (simp_all add: fm_def good_base_def empty_spec_def)
  have f: "find_next_conversion ''%#llx'' = (Some ''%#llx'', 0)" "consume ''%%'' ''%#llx'' = None" by code_simp+
  have "vs_text ''%#llx'' [VaLong v] = Inr (True, ''0x'' @ (if v = 0 then ''0'' else digits fm v))"
    using plain_text [of fm v] g c by (intro one_conversion [OF f, where d = "WriteInteger fm v"]) simp_all
  then show ?thesis using g(2) by blast
qed

text \<open>A text of decimal digits has no space and no sign in front.\<close>

lemma radix_chars: "c \<in> set (radix b f n) \<Longrightarrow> 2 \<le> b \<Longrightarrow> \<exists>d < b. c = f d"
proof (induction b f n rule: radix.induct)
  case (1 b f n)
  show ?case
  proof (cases "n = 0")
    case False
    then have "radix b f n = radix b f (n div b) @ [f (n mod b)]" using 1 by (subst radix.simps) simp
    then show ?thesis using 1 False by (auto intro: exI [of _ "n mod b"])
  qed (use 1 in \<open>simp add: radix.simps\<close>)
qed

lemma decimal_start:
  assumes "c \<in> set ''0123456789''"
  shows "skip_spaces (c # s) = c # s" "consume_if_equals CHR ''-'' (c # s) = None" "consume_if_equals CHR ''+'' (c # s) = None"
proof -
  have a: "\<forall>c \<in> set ''0123456789''. \<not> is_char c CHAR_TYPE_SPACE \<and> to_lower c \<noteq> CHR ''-'' \<and> to_lower c \<noteq> CHR ''+''"
    by code_simp
  then show "skip_spaces (c # s) = c # s" "consume_if_equals CHR ''-'' (c # s) = None" "consume_if_equals CHR ''+'' (c # s) = None"
    using bspec [OF a assms] by (simp_all add: consume_if_def consume_if_equals_def peek_one_def)
qed

lemma decimal_text:
  assumes "fm_base fm = 10"
  obtains c s where "(if v = 0 then ''0'' else digits fm v) = c # s" "c \<in> set ''0123456789''"
proof (cases "v = 0")
  case False
  have g: "good_base fm" using assms by (simp add: good_base_def)
  then obtain c s where d: "digits fm v = c # s" using digits_last_ne [of fm v] False by (cases "digits fm v") auto
  then have "c \<in> set (digits fm v)" by simp
  then obtain k where k: "k < 10" "c = digit_char fm (of_nat k)"
    unfolding digits_def using radix_chars [of c "unat (fm_base fm)" _ "unat v"] assms by auto
  have "\<forall>k \<in> set [0..<10]. digit_char (empty_spec\<lparr>fm_base := 10\<rparr>) (of_nat k) \<in> set ''0123456789''" by code_simp
  moreover have "digit_char fm = digit_char (empty_spec\<lparr>fm_base := 10\<rparr>)"
    using assms by (simp add: digit_char_def fun_eq_iff)
  ultimately have "c \<in> set ''0123456789''" using k by simp
  then show ?thesis using that d False by simp
qed (use that in simp)

lemma digits_fit:
  assumes "good_base fm" "2 ^ 64 \<le> unat (fm_base fm) ^ k" "0 < k"
  shows "length (if v = 0 then ''0'' else digits fm v) \<le> k"
proof -
  have "unat v < unat (fm_base fm) ^ k" using unat_u64_less [of v] assms(2) by simp
  moreover have "2 \<le> unat (fm_base fm)" using assms(1) by (auto simp: good_base_def)
  ultimately have "length (digits fm v) \<le> k" unfolding digits_def by (rule radix_length)
  then show ?thesis using assms(3) by simp
qed

lemma reads_decimal:
  "\<exists>t. vs_text ''%llu'' [VaLong v] = Inr (True, t) \<and> length t \<le> 20 \<and> uacpi_string_to_integer t UACPI_BASE_DEC = (UACPI_STATUS_OK, v)"
proof -
  obtain fm where fm: "fm_base fm = 10"
    and t: "vs_text ''%llu'' [VaLong v] = Inr (True, if v = 0 then ''0'' else digits fm v)"
    using vs_text_llu by blast
  obtain c s where cs: "(if v = 0 then ''0'' else digits fm v) = c # s" "c \<in> set ''0123456789''"
    by (rule decimal_text [OF fm])
  obtain c' where r: "read_digits UACPI_BASE_DEC 0 CHR 0x00 (c # s) = (v, c', [])"
    using read_decimal [OF fm, of "CHR 0x00" v] cs(1) by auto
  have "uacpi_string_to_integer (c # s) UACPI_BASE_DEC = (UACPI_STATUS_OK, v)"
    by (simp add: uacpi_string_to_integer_def decimal_start [OF cs(2)] r Let_def del: read_digits.simps skip_spaces.simps)
  moreover have "length (c # s) \<le> 20"
    unfolding cs(1) [symmetric] by (rule digits_fit) (simp_all add: good_base_def fm)
  ultimately show ?thesis using t cs(1) by auto
qed


lemma reads_hex:
  "\<exists>t. vs_text ''%#llx'' [VaLong v] = Inr (True, t) \<and> length t \<le> 20 \<and> uacpi_string_to_integer t UACPI_BASE_AUTO = (UACPI_STATUS_OK, v)"
proof -
  obtain fm where fm: "fm_base fm = 16"
    and t: "vs_text ''%#llx'' [VaLong v] = Inr (True, ''0x'' @ (if v = 0 then ''0'' else digits fm v))"
    using vs_text_llx by blast
  define s where "s = (if v = 0 then ''0'' else digits fm v)"
  have "read_digits UACPI_BASE_HEX 0 CHR 0x00 ''0'' = (0, CHR ''0'', [])" by code_simp
  then obtain c' where r: "read_digits UACPI_BASE_HEX 0 CHR 0x00 s = (v, c', [])"
    using read_hex [OF fm, of v "CHR 0x00"] unfolding s_def by (cases "v = 0") auto
  have z: "CHR ''0'' \<in> set ''0123456789''" by simp
  have p: "consume_if_equals CHR ''0'' (CHR ''0'' # x) = Some x" "consume_if_equals CHR ''x'' (CHR ''x'' # x) = Some x" for x
  proof -
    have "to_lower CHR ''0'' = CHR ''0''" "to_lower CHR ''x'' = CHR ''x''" by code_simp+
    then show "consume_if_equals CHR ''0'' (CHR ''0'' # x) = Some x" "consume_if_equals CHR ''x'' (CHR ''x'' # x) = Some x"
      by (simp_all add: consume_if_equals_def peek_one_def)
  qed
  have "uacpi_string_to_integer (CHR ''0'' # CHR ''x'' # s) UACPI_BASE_AUTO = (UACPI_STATUS_OK, v)"
    by (simp add: uacpi_string_to_integer_def decimal_start [OF z] p r Let_def del: read_digits.simps skip_spaces.simps)
  moreover have "length s \<le> 16"
    unfolding s_def by (rule digits_fit) (simp_all add: good_base_def fm)
  ultimately show ?thesis using t unfolding s_def by auto
qed

text \<open>The string in a buffer, when its length is the result of the call.\<close>

definition printed :: "(u64 \<Rightarrow> char) \<Rightarrow> u32 \<Rightarrow> string" where
  "printed buf n = map (\<lambda>i. buf (of_nat i)) [0..<unat n]"

lemma vsnprintf_printed:
  assumes "vs_text fmt args = Inr (True, t)" "length t \<le> 20" "21 \<le> cap"
  shows "\<exists>n buf'. uacpi_vsnprintf buf cap fmt args = Inr (n, buf') \<and> printed buf' n = t \<and> buf' (ucast n) = CHR 0x00"
proof -
  have c: "21 \<le> unat cap" "cap \<noteq> 0" using assms(3) by (auto simp: word_le_nat_alt)
  have m: "min (length t) (unat cap - 1) = length t" using assms(2) c(1) by simp
  have n: "unat (of_nat (length t) :: u32) = length t" using assms(2) by (simp add: unat_of_nat)
  have u: "unat (of_nat i :: u64) = i" if "i \<le> 20" for i using that by (intro unat_addr) simp
  have z: "(ucast (of_nat (length t) :: u32) :: u64) = of_nat (length t)"
    using assms(2) by (simp add: word_unat_eq_iff unsigned_ucast_eq n u take_bit_nat_eq_self)
  have "length t < 2 ^ 64" using assms(2) by simp
  note v = vsnprintf_cells [OF assms(1) this, of buf cap, unfolded m]
  show ?thesis
  proof (intro exI conjI)
    show "uacpi_vsnprintf buf cap fmt args = Inr (of_nat (length t), (\<lambda>i.
        if cap = 0 then buf i else if unat i = length t then CHR 0x00 else if unat i < length t then t ! unat i else buf i))"
      by (rule v)
  qed (use assms(2) c(2) in \<open>auto simp: printed_def n z u intro!: nth_equalityI\<close>)
qed

text \<open>
  C40. What \<open>uacpi_vsnprintf\<close> prints with \<open>%llu\<close> and \<open>%#llx\<close> into a buffer of at least 21 characters
  \<open>uacpi_string_to_integer\<close> reads back, for every 64-bit value: the string of the returned length, with a NUL behind
  it, gives the value in base 10, and in the base the parser derives from the prefix.
\<close>
theorem print_parse_roundtrip:
  assumes "21 \<le> cap"
  shows "(\<exists>n buf'. uacpi_vsnprintf buf cap ''%llu'' [VaLong v] = Inr (n, buf') \<and> buf' (ucast n) = CHR 0x00
      \<and> uacpi_string_to_integer (printed buf' n) UACPI_BASE_DEC = (UACPI_STATUS_OK, v))
   \<and> (\<exists>n buf'. uacpi_vsnprintf buf cap ''%#llx'' [VaLong v] = Inr (n, buf') \<and> buf' (ucast n) = CHR 0x00
      \<and> uacpi_string_to_integer (printed buf' n) UACPI_BASE_AUTO = (UACPI_STATUS_OK, v))"
proof -
  obtain t where t: "vs_text ''%llu'' [VaLong v] = Inr (True, t)" "length t \<le> 20"
    "uacpi_string_to_integer t UACPI_BASE_DEC = (UACPI_STATUS_OK, v)"
    using reads_decimal by blast
  obtain t' where t': "vs_text ''%#llx'' [VaLong v] = Inr (True, t')" "length t' \<le> 20"
    "uacpi_string_to_integer t' UACPI_BASE_AUTO = (UACPI_STATUS_OK, v)"
    using reads_hex by blast
  from vsnprintf_printed [OF t(1,2) assms, of buf] vsnprintf_printed [OF t'(1,2) assms, of buf] t(3) t'(3)
  show ?thesis by metis
qed

theorem print_parse_roundtrip_witness:
  "\<exists>n buf'. uacpi_vsnprintf (\<lambda>_. CHR ''.'') 21 ''%llu'' [VaLong 0xFFFFFFFFFFFFFFFF] = Inr (n, buf')
     \<and> uacpi_string_to_integer (printed buf' n) UACPI_BASE_DEC = (UACPI_STATUS_OK, 0xFFFFFFFFFFFFFFFF)"
  using print_parse_roundtrip [of 21 "\<lambda>_. CHR ''.''" "0xFFFFFFFFFFFFFFFF"] by auto

text \<open>The last character is not checked: a text that ends in a character that is no digit is accepted.\<close>

lemma string_to_integer_last:
  "uacpi_string_to_integer ''12g'' UACPI_BASE_DEC = (UACPI_STATUS_OK, 12)
   \<and> uacpi_string_to_integer ''12gh'' UACPI_BASE_DEC = (UACPI_STATUS_INVALID_ARGUMENT, 12)"
  by code_simp

end
