(* ===== verification/AcpiOpcodes.thy ===== *)
theory AcpiOpcodes
  imports Main
begin

text \<open>
  The table of AML operations of the ACPI library, \<open>external/uacpi/include/uacpi/internal/opcodes.h\<close> and
  \<open>external/uacpi/source/opcodes.c\<close>: for every opcode its name, its properties and the program of parse
  operations that the interpreter runs to take an instruction apart.  A byte is a natural number; that every byte
  of the tables is below 256 is a property.  A macro of the header is a definition with the same parameters,
  where an argument that is pasted into a name is a string.
\<close>

section \<open>Parse operations\<close>

datatype (plugins only: code size) uacpi_parse_op =
    UACPI_PARSE_OP_END
  | UACPI_PARSE_OP_SKIP_WITH_WARN_IF_NULL
  | UACPI_PARSE_OP_EMIT_SKIP_WARN
  | UACPI_PARSE_OP_SIMPLE_NAME
  | UACPI_PARSE_OP_SUPERNAME
  | UACPI_PARSE_OP_SUPERNAME_OR_UNRESOLVED
  | UACPI_PARSE_OP_TERM_ARG
  | UACPI_PARSE_OP_TERM_ARG_UNWRAP_INTERNAL
  | UACPI_PARSE_OP_TERM_ARG_OR_NAMED_OBJECT
  | UACPI_PARSE_OP_TERM_ARG_OR_NAMED_OBJECT_OR_UNRESOLVED
  | UACPI_PARSE_OP_OPERAND
  | UACPI_PARSE_OP_STRING
  | UACPI_PARSE_OP_COMPUTATIONAL_DATA
  | UACPI_PARSE_OP_TARGET
  | UACPI_PARSE_OP_PKGLEN
  | UACPI_PARSE_OP_TRACKED_PKGLEN
  | UACPI_PARSE_OP_CREATE_NAMESTRING
  | UACPI_PARSE_OP_CREATE_NAMESTRING_OR_NULL_IF_LOAD
  | UACPI_PARSE_OP_EXISTING_NAMESTRING
  | UACPI_PARSE_OP_EXISTING_NAMESTRING_OR_NULL
  | UACPI_PARSE_OP_EXISTING_NAMESTRING_OR_NULL_IF_LOAD
  | UACPI_PARSE_OP_INVOKE_HANDLER
  | UACPI_PARSE_OP_OBJECT_ALLOC
  | UACPI_PARSE_OP_EMPTY_OBJECT_ALLOC
  | UACPI_PARSE_OP_OBJECT_CONVERT_TO_SHALLOW_COPY
  | UACPI_PARSE_OP_OBJECT_CONVERT_TO_DEEP_COPY
  | UACPI_PARSE_OP_OBJECT_ALLOC_TYPED
  | UACPI_PARSE_OP_RECORD_AML_PC
  | UACPI_PARSE_OP_LOAD_INLINE_IMM_AS_OBJECT
  | UACPI_PARSE_OP_LOAD_INLINE_IMM
  | UACPI_PARSE_OP_LOAD_ZERO_IMM
  | UACPI_PARSE_OP_LOAD_IMM
  | UACPI_PARSE_OP_LOAD_IMM_AS_OBJECT
  | UACPI_PARSE_OP_LOAD_FALSE_OBJECT
  | UACPI_PARSE_OP_LOAD_TRUE_OBJECT
  | UACPI_PARSE_OP_TRUNCATE_NUMBER
  | UACPI_PARSE_OP_TYPECHECK
  | UACPI_PARSE_OP_TYPECHECK_ONE_OF
  | UACPI_PARSE_OP_INSTALL_NAMESPACE_NODE
  | UACPI_PARSE_OP_OBJECT_TRANSFER_TO_PREV
  | UACPI_PARSE_OP_OBJECT_COPY_TO_PREV
  | UACPI_PARSE_OP_STORE_TO_TARGET
  | UACPI_PARSE_OP_STORE_TO_TARGET_INDIRECT
  | UACPI_PARSE_OP_AML_PC_DECREMENT
  | UACPI_PARSE_OP_IMM_DECREMENT
  | UACPI_PARSE_OP_ITEM_POP
  | UACPI_PARSE_OP_DISPATCH_METHOD_CALL
  | UACPI_PARSE_OP_DISPATCH_TABLE_LOAD
  | UACPI_PARSE_OP_CONVERT_NAMESTRING
  | UACPI_PARSE_OP_IF_HAS_DATA
  | UACPI_PARSE_OP_IF_NULL
  | UACPI_PARSE_OP_IF_LAST_NULL
  | UACPI_PARSE_OP_IF_NOT_NULL
  | UACPI_PARSE_OP_IF_LAST_NOT_NULL
  | UACPI_PARSE_OP_IF_LAST_EQUALS
  | UACPI_PARSE_OP_IF_LAST_FALSE
  | UACPI_PARSE_OP_IF_LAST_TRUE
  | UACPI_PARSE_OP_SWITCH_TO_NEXT_IF_EQUALS
  | UACPI_PARSE_OP_IF_SWITCHED_FROM
  | UACPI_PARSE_OP_JMP

text \<open>The value of an enumerator: its place in the declaration.\<close>

definition parse_ops :: "uacpi_parse_op list" where
  "parse_ops = [UACPI_PARSE_OP_END,
    UACPI_PARSE_OP_SKIP_WITH_WARN_IF_NULL,
    UACPI_PARSE_OP_EMIT_SKIP_WARN,
    UACPI_PARSE_OP_SIMPLE_NAME,
    UACPI_PARSE_OP_SUPERNAME,
    UACPI_PARSE_OP_SUPERNAME_OR_UNRESOLVED,
    UACPI_PARSE_OP_TERM_ARG,
    UACPI_PARSE_OP_TERM_ARG_UNWRAP_INTERNAL,
    UACPI_PARSE_OP_TERM_ARG_OR_NAMED_OBJECT,
    UACPI_PARSE_OP_TERM_ARG_OR_NAMED_OBJECT_OR_UNRESOLVED,
    UACPI_PARSE_OP_OPERAND,
    UACPI_PARSE_OP_STRING,
    UACPI_PARSE_OP_COMPUTATIONAL_DATA,
    UACPI_PARSE_OP_TARGET,
    UACPI_PARSE_OP_PKGLEN,
    UACPI_PARSE_OP_TRACKED_PKGLEN,
    UACPI_PARSE_OP_CREATE_NAMESTRING,
    UACPI_PARSE_OP_CREATE_NAMESTRING_OR_NULL_IF_LOAD,
    UACPI_PARSE_OP_EXISTING_NAMESTRING,
    UACPI_PARSE_OP_EXISTING_NAMESTRING_OR_NULL,
    UACPI_PARSE_OP_EXISTING_NAMESTRING_OR_NULL_IF_LOAD,
    UACPI_PARSE_OP_INVOKE_HANDLER,
    UACPI_PARSE_OP_OBJECT_ALLOC,
    UACPI_PARSE_OP_EMPTY_OBJECT_ALLOC,
    UACPI_PARSE_OP_OBJECT_CONVERT_TO_SHALLOW_COPY,
    UACPI_PARSE_OP_OBJECT_CONVERT_TO_DEEP_COPY,
    UACPI_PARSE_OP_OBJECT_ALLOC_TYPED,
    UACPI_PARSE_OP_RECORD_AML_PC,
    UACPI_PARSE_OP_LOAD_INLINE_IMM_AS_OBJECT,
    UACPI_PARSE_OP_LOAD_INLINE_IMM,
    UACPI_PARSE_OP_LOAD_ZERO_IMM,
    UACPI_PARSE_OP_LOAD_IMM,
    UACPI_PARSE_OP_LOAD_IMM_AS_OBJECT,
    UACPI_PARSE_OP_LOAD_FALSE_OBJECT,
    UACPI_PARSE_OP_LOAD_TRUE_OBJECT,
    UACPI_PARSE_OP_TRUNCATE_NUMBER,
    UACPI_PARSE_OP_TYPECHECK,
    UACPI_PARSE_OP_TYPECHECK_ONE_OF,
    UACPI_PARSE_OP_INSTALL_NAMESPACE_NODE,
    UACPI_PARSE_OP_OBJECT_TRANSFER_TO_PREV,
    UACPI_PARSE_OP_OBJECT_COPY_TO_PREV,
    UACPI_PARSE_OP_STORE_TO_TARGET,
    UACPI_PARSE_OP_STORE_TO_TARGET_INDIRECT,
    UACPI_PARSE_OP_AML_PC_DECREMENT,
    UACPI_PARSE_OP_IMM_DECREMENT,
    UACPI_PARSE_OP_ITEM_POP,
    UACPI_PARSE_OP_DISPATCH_METHOD_CALL,
    UACPI_PARSE_OP_DISPATCH_TABLE_LOAD,
    UACPI_PARSE_OP_CONVERT_NAMESTRING,
    UACPI_PARSE_OP_IF_HAS_DATA,
    UACPI_PARSE_OP_IF_NULL,
    UACPI_PARSE_OP_IF_LAST_NULL,
    UACPI_PARSE_OP_IF_NOT_NULL,
    UACPI_PARSE_OP_IF_LAST_NOT_NULL,
    UACPI_PARSE_OP_IF_LAST_EQUALS,
    UACPI_PARSE_OP_IF_LAST_FALSE,
    UACPI_PARSE_OP_IF_LAST_TRUE,
    UACPI_PARSE_OP_SWITCH_TO_NEXT_IF_EQUALS,
    UACPI_PARSE_OP_IF_SWITCHED_FROM,
    UACPI_PARSE_OP_JMP]"

primrec pop :: "uacpi_parse_op \<Rightarrow> nat" where
  "pop UACPI_PARSE_OP_END = 0"
| "pop UACPI_PARSE_OP_SKIP_WITH_WARN_IF_NULL = 1"
| "pop UACPI_PARSE_OP_EMIT_SKIP_WARN = 2"
| "pop UACPI_PARSE_OP_SIMPLE_NAME = 3"
| "pop UACPI_PARSE_OP_SUPERNAME = 4"
| "pop UACPI_PARSE_OP_SUPERNAME_OR_UNRESOLVED = 5"
| "pop UACPI_PARSE_OP_TERM_ARG = 6"
| "pop UACPI_PARSE_OP_TERM_ARG_UNWRAP_INTERNAL = 7"
| "pop UACPI_PARSE_OP_TERM_ARG_OR_NAMED_OBJECT = 8"
| "pop UACPI_PARSE_OP_TERM_ARG_OR_NAMED_OBJECT_OR_UNRESOLVED = 9"
| "pop UACPI_PARSE_OP_OPERAND = 10"
| "pop UACPI_PARSE_OP_STRING = 11"
| "pop UACPI_PARSE_OP_COMPUTATIONAL_DATA = 12"
| "pop UACPI_PARSE_OP_TARGET = 13"
| "pop UACPI_PARSE_OP_PKGLEN = 14"
| "pop UACPI_PARSE_OP_TRACKED_PKGLEN = 15"
| "pop UACPI_PARSE_OP_CREATE_NAMESTRING = 16"
| "pop UACPI_PARSE_OP_CREATE_NAMESTRING_OR_NULL_IF_LOAD = 17"
| "pop UACPI_PARSE_OP_EXISTING_NAMESTRING = 18"
| "pop UACPI_PARSE_OP_EXISTING_NAMESTRING_OR_NULL = 19"
| "pop UACPI_PARSE_OP_EXISTING_NAMESTRING_OR_NULL_IF_LOAD = 20"
| "pop UACPI_PARSE_OP_INVOKE_HANDLER = 21"
| "pop UACPI_PARSE_OP_OBJECT_ALLOC = 22"
| "pop UACPI_PARSE_OP_EMPTY_OBJECT_ALLOC = 23"
| "pop UACPI_PARSE_OP_OBJECT_CONVERT_TO_SHALLOW_COPY = 24"
| "pop UACPI_PARSE_OP_OBJECT_CONVERT_TO_DEEP_COPY = 25"
| "pop UACPI_PARSE_OP_OBJECT_ALLOC_TYPED = 26"
| "pop UACPI_PARSE_OP_RECORD_AML_PC = 27"
| "pop UACPI_PARSE_OP_LOAD_INLINE_IMM_AS_OBJECT = 28"
| "pop UACPI_PARSE_OP_LOAD_INLINE_IMM = 29"
| "pop UACPI_PARSE_OP_LOAD_ZERO_IMM = 30"
| "pop UACPI_PARSE_OP_LOAD_IMM = 31"
| "pop UACPI_PARSE_OP_LOAD_IMM_AS_OBJECT = 32"
| "pop UACPI_PARSE_OP_LOAD_FALSE_OBJECT = 33"
| "pop UACPI_PARSE_OP_LOAD_TRUE_OBJECT = 34"
| "pop UACPI_PARSE_OP_TRUNCATE_NUMBER = 35"
| "pop UACPI_PARSE_OP_TYPECHECK = 36"
| "pop UACPI_PARSE_OP_TYPECHECK_ONE_OF = 37"
| "pop UACPI_PARSE_OP_INSTALL_NAMESPACE_NODE = 38"
| "pop UACPI_PARSE_OP_OBJECT_TRANSFER_TO_PREV = 39"
| "pop UACPI_PARSE_OP_OBJECT_COPY_TO_PREV = 40"
| "pop UACPI_PARSE_OP_STORE_TO_TARGET = 41"
| "pop UACPI_PARSE_OP_STORE_TO_TARGET_INDIRECT = 42"
| "pop UACPI_PARSE_OP_AML_PC_DECREMENT = 43"
| "pop UACPI_PARSE_OP_IMM_DECREMENT = 44"
| "pop UACPI_PARSE_OP_ITEM_POP = 45"
| "pop UACPI_PARSE_OP_DISPATCH_METHOD_CALL = 46"
| "pop UACPI_PARSE_OP_DISPATCH_TABLE_LOAD = 47"
| "pop UACPI_PARSE_OP_CONVERT_NAMESTRING = 48"
| "pop UACPI_PARSE_OP_IF_HAS_DATA = 49"
| "pop UACPI_PARSE_OP_IF_NULL = 50"
| "pop UACPI_PARSE_OP_IF_LAST_NULL = 51"
| "pop UACPI_PARSE_OP_IF_NOT_NULL = 52"
| "pop UACPI_PARSE_OP_IF_LAST_NOT_NULL = 53"
| "pop UACPI_PARSE_OP_IF_LAST_EQUALS = 54"
| "pop UACPI_PARSE_OP_IF_LAST_FALSE = 55"
| "pop UACPI_PARSE_OP_IF_LAST_TRUE = 56"
| "pop UACPI_PARSE_OP_SWITCH_TO_NEXT_IF_EQUALS = 57"
| "pop UACPI_PARSE_OP_IF_SWITCHED_FROM = 58"
| "pop UACPI_PARSE_OP_JMP = 59"

definition UACPI_PARSE_OP_MAX :: nat where "UACPI_PARSE_OP_MAX = pop UACPI_PARSE_OP_JMP"

text \<open>The operation a byte stands for.\<close>

definition parse_op_of :: "nat \<Rightarrow> uacpi_parse_op option" where
  "parse_op_of b = (if b < length parse_ops then Some (parse_ops ! b) else None)"

section \<open>Constants\<close>

definition UACPI_OBJECT_UNINITIALIZED :: nat where "UACPI_OBJECT_UNINITIALIZED = 0"
definition UACPI_OBJECT_INTEGER :: nat where "UACPI_OBJECT_INTEGER = 1"
definition UACPI_OBJECT_STRING :: nat where "UACPI_OBJECT_STRING = 2"
definition UACPI_OBJECT_BUFFER :: nat where "UACPI_OBJECT_BUFFER = 3"
definition UACPI_OBJECT_PACKAGE :: nat where "UACPI_OBJECT_PACKAGE = 4"
definition UACPI_OBJECT_FIELD_UNIT :: nat where "UACPI_OBJECT_FIELD_UNIT = 5"
definition UACPI_OBJECT_DEVICE :: nat where "UACPI_OBJECT_DEVICE = 6"
definition UACPI_OBJECT_EVENT :: nat where "UACPI_OBJECT_EVENT = 7"
definition UACPI_OBJECT_METHOD :: nat where "UACPI_OBJECT_METHOD = 8"
definition UACPI_OBJECT_MUTEX :: nat where "UACPI_OBJECT_MUTEX = 9"
definition UACPI_OBJECT_OPERATION_REGION :: nat where "UACPI_OBJECT_OPERATION_REGION = 10"
definition UACPI_OBJECT_POWER_RESOURCE :: nat where "UACPI_OBJECT_POWER_RESOURCE = 11"
definition UACPI_OBJECT_PROCESSOR :: nat where "UACPI_OBJECT_PROCESSOR = 12"
definition UACPI_OBJECT_THERMAL_ZONE :: nat where "UACPI_OBJECT_THERMAL_ZONE = 13"
definition UACPI_OBJECT_BUFFER_FIELD :: nat where "UACPI_OBJECT_BUFFER_FIELD = 14"
definition UACPI_OBJECT_DEBUG :: nat where "UACPI_OBJECT_DEBUG = 16"
definition UACPI_OBJECT_REFERENCE :: nat where "UACPI_OBJECT_REFERENCE = 20"
definition UACPI_OBJECT_BUFFER_INDEX :: nat where "UACPI_OBJECT_BUFFER_INDEX = 21"

definition UACPI_OP_PROPERTY_TERM_ARG :: nat where "UACPI_OP_PROPERTY_TERM_ARG = 1"
definition UACPI_OP_PROPERTY_SUPERNAME :: nat where "UACPI_OP_PROPERTY_SUPERNAME = 2"
definition UACPI_OP_PROPERTY_SIMPLE_NAME :: nat where "UACPI_OP_PROPERTY_SIMPLE_NAME = 4"
definition UACPI_OP_PROPERTY_TARGET :: nat where "UACPI_OP_PROPERTY_TARGET = 8"
definition UACPI_OP_PROPERTY_OUT_OF_LINE :: nat where "UACPI_OP_PROPERTY_OUT_OF_LINE = 16"
definition UACPI_OP_PROPERTY_INVALID :: nat where "UACPI_OP_PROPERTY_INVALID = 64"
definition UACPI_OP_PROPERTY_INTERNAL :: nat where "UACPI_OP_PROPERTY_INTERNAL = 128"

definition UACPI_EXT_PREFIX :: nat where "UACPI_EXT_PREFIX = 0x5B"
definition UACPI_EXT_OP :: "nat \<Rightarrow> nat" where "UACPI_EXT_OP code = UACPI_EXT_PREFIX * 256 + code"

lemmas object_types = UACPI_OBJECT_UNINITIALIZED_def UACPI_OBJECT_INTEGER_def UACPI_OBJECT_STRING_def UACPI_OBJECT_BUFFER_def UACPI_OBJECT_PACKAGE_def UACPI_OBJECT_FIELD_UNIT_def UACPI_OBJECT_DEVICE_def UACPI_OBJECT_EVENT_def UACPI_OBJECT_METHOD_def UACPI_OBJECT_MUTEX_def UACPI_OBJECT_OPERATION_REGION_def UACPI_OBJECT_POWER_RESOURCE_def UACPI_OBJECT_PROCESSOR_def UACPI_OBJECT_THERMAL_ZONE_def UACPI_OBJECT_BUFFER_FIELD_def UACPI_OBJECT_DEBUG_def UACPI_OBJECT_REFERENCE_def UACPI_OBJECT_BUFFER_INDEX_def

lemmas op_properties = UACPI_OP_PROPERTY_TERM_ARG_def UACPI_OP_PROPERTY_SUPERNAME_def UACPI_OP_PROPERTY_SIMPLE_NAME_def UACPI_OP_PROPERTY_TARGET_def UACPI_OP_PROPERTY_OUT_OF_LINE_def UACPI_OP_PROPERTY_INVALID_def UACPI_OP_PROPERTY_INTERNAL_def

section \<open>Operation descriptions\<close>

text \<open>
  The union of the 16 bytes \<open>decode_ops\<close> and of the pointer \<open>indirect_decode_ops\<close>; which one is meant is
  told by a property of the operation.
\<close>

record uacpi_op_spec =
  op_name :: string
  decode_ops :: "nat list"
  indirect_decode_ops :: "nat list"
  op_props :: "nat set"
  op_code :: nat

text \<open>An initializer with fewer than 16 values leaves the other bytes 0.\<close>

definition UACPI_OP :: "string \<Rightarrow> nat \<Rightarrow> nat list \<Rightarrow> nat list \<Rightarrow> uacpi_op_spec" where
  "UACPI_OP opname opcode props ops =
     \<lparr>op_name = opname, decode_ops = ops @ replicate (16 - length ops) 0, indirect_decode_ops = [],
      op_props = set props, op_code = opcode\<rparr>"

definition UACPI_OUT_OF_LINE_OP :: "string \<Rightarrow> nat \<Rightarrow> nat list \<Rightarrow> nat list \<Rightarrow> uacpi_op_spec" where
  "UACPI_OUT_OF_LINE_OP opname opcode out_of_line_buf props =
     \<lparr>op_name = opname, decode_ops = [], indirect_decode_ops = out_of_line_buf,
      op_props = set props, op_code = opcode\<rparr>"

section \<open>Families of operations\<close>

definition UACPI_INVALID_OPCODE :: "string \<Rightarrow> nat \<Rightarrow> uacpi_op_spec" where
  "UACPI_INVALID_OPCODE what code = UACPI_OP (''Invalid_'' @ what) code [UACPI_OP_PROPERTY_INVALID] [pop UACPI_PARSE_OP_END]"

definition UACPI_METHOD_CALL_OPCODE :: "string \<Rightarrow> nat \<Rightarrow> uacpi_op_spec" where
  "UACPI_METHOD_CALL_OPCODE what nargs =
     UACPI_OP (''InternalOpMethodCall'' @ what @ ''Args'') (0xF7 + nargs) [UACPI_OP_PROPERTY_TERM_ARG, UACPI_OP_PROPERTY_INTERNAL]
     ([pop UACPI_PARSE_OP_LOAD_INLINE_IMM, 1, nargs,
      pop UACPI_PARSE_OP_IF_NOT_NULL, 1, 6,
      pop UACPI_PARSE_OP_TERM_ARG_UNWRAP_INTERNAL,
      pop UACPI_PARSE_OP_OBJECT_CONVERT_TO_SHALLOW_COPY,
      pop UACPI_PARSE_OP_IMM_DECREMENT, 1,
      pop UACPI_PARSE_OP_JMP, 3,
      pop UACPI_PARSE_OP_OBJECT_ALLOC,
      pop UACPI_PARSE_OP_DISPATCH_METHOD_CALL,
      pop UACPI_PARSE_OP_OBJECT_TRANSFER_TO_PREV])"

definition UACPI_UNRESOLVED_NAME_STRING_OP :: "string \<Rightarrow> nat \<Rightarrow> uacpi_op_spec" where
  "UACPI_UNRESOLVED_NAME_STRING_OP character code =
     UACPI_OP (''UnresolvedNameString_'' @ character) (code) [UACPI_OP_PROPERTY_SIMPLE_NAME, UACPI_OP_PROPERTY_SUPERNAME, UACPI_OP_PROPERTY_TERM_ARG]
     ([pop UACPI_PARSE_OP_AML_PC_DECREMENT,
      pop UACPI_PARSE_OP_EXISTING_NAMESTRING_OR_NULL,
      pop UACPI_PARSE_OP_CONVERT_NAMESTRING])"

definition UACPI_BUILD_LOCAL_OR_ARG_OP :: "string \<Rightarrow> nat \<Rightarrow> nat \<Rightarrow> uacpi_op_spec" where
  "UACPI_BUILD_LOCAL_OR_ARG_OP prefix base offset =
     UACPI_OP (prefix @ ''Op'') (base + offset) [UACPI_OP_PROPERTY_SUPERNAME, UACPI_OP_PROPERTY_TERM_ARG, UACPI_OP_PROPERTY_SIMPLE_NAME]
     ([pop UACPI_PARSE_OP_EMPTY_OBJECT_ALLOC,
      pop UACPI_PARSE_OP_INVOKE_HANDLER,
      pop UACPI_PARSE_OP_OBJECT_TRANSFER_TO_PREV])"

definition UACPI_LOCALX_OP :: "string \<Rightarrow> nat \<Rightarrow> uacpi_op_spec" where
  "UACPI_LOCALX_OP what idx = UACPI_BUILD_LOCAL_OR_ARG_OP (''Local'' @ what) 0x60 idx"

definition UACPI_ARGX_OP :: "string \<Rightarrow> nat \<Rightarrow> uacpi_op_spec" where
  "UACPI_ARGX_OP what idx = UACPI_BUILD_LOCAL_OR_ARG_OP (''Arg'' @ what) 0x68 idx"

definition UACPI_BUILD_PACKAGE_OP :: "string \<Rightarrow> nat \<Rightarrow> nat \<Rightarrow> nat list \<Rightarrow> uacpi_op_spec" where
  "UACPI_BUILD_PACKAGE_OP opname code jmp_off extra =
     UACPI_OP (opname @ ''Op'') (code) [UACPI_OP_PROPERTY_TERM_ARG]
     ([pop UACPI_PARSE_OP_TRACKED_PKGLEN]
     @ extra @
     [pop UACPI_PARSE_OP_IF_HAS_DATA, 4,
      pop UACPI_PARSE_OP_RECORD_AML_PC,
      pop UACPI_PARSE_OP_TERM_ARG_OR_NAMED_OBJECT_OR_UNRESOLVED,
      pop UACPI_PARSE_OP_JMP, jmp_off,
      pop UACPI_PARSE_OP_OBJECT_ALLOC_TYPED, UACPI_OBJECT_PACKAGE,
      pop UACPI_PARSE_OP_INVOKE_HANDLER,
      pop UACPI_PARSE_OP_OBJECT_TRANSFER_TO_PREV])"

definition UACPI_BUILD_BINARY_MATH_OP :: "string \<Rightarrow> nat \<Rightarrow> uacpi_op_spec" where
  "UACPI_BUILD_BINARY_MATH_OP prefix code =
     UACPI_OP (prefix @ ''Op'') (code) [UACPI_OP_PROPERTY_TERM_ARG]
     ([pop UACPI_PARSE_OP_OPERAND,
      pop UACPI_PARSE_OP_OPERAND,
      pop UACPI_PARSE_OP_TARGET,
      pop UACPI_PARSE_OP_OBJECT_ALLOC_TYPED, UACPI_OBJECT_INTEGER,
      pop UACPI_PARSE_OP_INVOKE_HANDLER,
      pop UACPI_PARSE_OP_TRUNCATE_NUMBER,
      pop UACPI_PARSE_OP_STORE_TO_TARGET, 2,
      pop UACPI_PARSE_OP_OBJECT_COPY_TO_PREV])"

definition UACPI_BUILD_UNARY_MATH_OP :: "string \<Rightarrow> nat \<Rightarrow> uacpi_op_spec" where
  "UACPI_BUILD_UNARY_MATH_OP what code =
     UACPI_OP (what @ ''Op'') (code) [UACPI_OP_PROPERTY_TERM_ARG]
     ([pop UACPI_PARSE_OP_OPERAND,
      pop UACPI_PARSE_OP_TARGET,
      pop UACPI_PARSE_OP_OBJECT_ALLOC_TYPED, UACPI_OBJECT_INTEGER,
      pop UACPI_PARSE_OP_INVOKE_HANDLER,
      pop UACPI_PARSE_OP_STORE_TO_TARGET, 1,
      pop UACPI_PARSE_OP_OBJECT_TRANSFER_TO_PREV])"

definition UACPI_DO_BUILD_BUFFER_FIELD_OP :: "string \<Rightarrow> nat \<Rightarrow> nat \<Rightarrow> nat list \<Rightarrow> uacpi_op_spec" where
  "UACPI_DO_BUILD_BUFFER_FIELD_OP what code node_idx extra =
     UACPI_OP (what @ ''FieldOp'') (code) []
     ([pop UACPI_PARSE_OP_TERM_ARG_UNWRAP_INTERNAL,
      pop UACPI_PARSE_OP_TYPECHECK, UACPI_OBJECT_BUFFER,
      pop UACPI_PARSE_OP_OPERAND]
     @ extra @
     [pop UACPI_PARSE_OP_CREATE_NAMESTRING_OR_NULL_IF_LOAD,
      pop UACPI_PARSE_OP_SKIP_WITH_WARN_IF_NULL, node_idx,
      pop UACPI_PARSE_OP_OBJECT_ALLOC_TYPED, UACPI_OBJECT_BUFFER_FIELD,
      pop UACPI_PARSE_OP_INVOKE_HANDLER,
      pop UACPI_PARSE_OP_INSTALL_NAMESPACE_NODE, node_idx])"

definition UACPI_BUILD_BUFFER_FIELD_OP :: "string \<Rightarrow> nat \<Rightarrow> uacpi_op_spec" where
  "UACPI_BUILD_BUFFER_FIELD_OP what code = UACPI_DO_BUILD_BUFFER_FIELD_OP (''Create'' @ what) code 2 []"

definition UACPI_INTEGER_LITERAL_OP :: "string \<Rightarrow> nat \<Rightarrow> nat \<Rightarrow> uacpi_op_spec" where
  "UACPI_INTEGER_LITERAL_OP what code bytes =
     UACPI_OP (what @ ''Prefix'') (code) [UACPI_OP_PROPERTY_TERM_ARG]
     ([pop UACPI_PARSE_OP_LOAD_IMM_AS_OBJECT, bytes,
      pop UACPI_PARSE_OP_OBJECT_TRANSFER_TO_PREV])"

definition UACPI_BUILD_BINARY_LOGIC_OP :: "string \<Rightarrow> nat \<Rightarrow> uacpi_op_spec" where
  "UACPI_BUILD_BINARY_LOGIC_OP what code =
     UACPI_OP (what @ ''Op'') (code) [UACPI_OP_PROPERTY_TERM_ARG]
     ([pop UACPI_PARSE_OP_COMPUTATIONAL_DATA,
      pop UACPI_PARSE_OP_COMPUTATIONAL_DATA,
      pop UACPI_PARSE_OP_OBJECT_ALLOC_TYPED, UACPI_OBJECT_INTEGER,
      pop UACPI_PARSE_OP_INVOKE_HANDLER,
      pop UACPI_PARSE_OP_OBJECT_TRANSFER_TO_PREV])"

definition UACPI_BUILD_TO_OP :: "string \<Rightarrow> nat \<Rightarrow> nat \<Rightarrow> uacpi_op_spec" where
  "UACPI_BUILD_TO_OP kind code dst_type =
     UACPI_OP (''To'' @ kind @ ''Op'') (code) [UACPI_OP_PROPERTY_TERM_ARG]
     ([pop UACPI_PARSE_OP_COMPUTATIONAL_DATA,
      pop UACPI_PARSE_OP_TARGET,
      pop UACPI_PARSE_OP_OBJECT_ALLOC_TYPED, dst_type,
      pop UACPI_PARSE_OP_INVOKE_HANDLER,
      pop UACPI_PARSE_OP_STORE_TO_TARGET, 1,
      pop UACPI_PARSE_OP_OBJECT_TRANSFER_TO_PREV])"

definition UACPI_BUILD_INC_DEC_OP :: "string \<Rightarrow> nat \<Rightarrow> uacpi_op_spec" where
  "UACPI_BUILD_INC_DEC_OP prefix code =
     UACPI_OP (prefix @ ''Op'') (code) [UACPI_OP_PROPERTY_TERM_ARG]
     ([pop UACPI_PARSE_OP_SUPERNAME,
      pop UACPI_PARSE_OP_OBJECT_ALLOC_TYPED, UACPI_OBJECT_INTEGER,
      pop UACPI_PARSE_OP_INVOKE_HANDLER,
      pop UACPI_PARSE_OP_TRUNCATE_NUMBER,
      pop UACPI_PARSE_OP_STORE_TO_TARGET, 0,
      pop UACPI_PARSE_OP_OBJECT_TRANSFER_TO_PREV])"

definition UACPI_BUILD_NAMED_SCOPE_OBJECT_OP :: "string \<Rightarrow> nat \<Rightarrow> nat \<Rightarrow> nat list \<Rightarrow> uacpi_op_spec" where
  "UACPI_BUILD_NAMED_SCOPE_OBJECT_OP opname code what extra =
     UACPI_OP (opname @ ''Op'') (UACPI_EXT_OP code) []
     ([pop UACPI_PARSE_OP_TRACKED_PKGLEN,
      pop UACPI_PARSE_OP_CREATE_NAMESTRING_OR_NULL_IF_LOAD]
     @ extra @
     [pop UACPI_PARSE_OP_SKIP_WITH_WARN_IF_NULL, 1,
      pop UACPI_PARSE_OP_OBJECT_ALLOC_TYPED, what,
      pop UACPI_PARSE_OP_INVOKE_HANDLER,
      pop UACPI_PARSE_OP_INSTALL_NAMESPACE_NODE, 1])"

definition UACPI_BUILD_TO_FROM_BCD :: "string \<Rightarrow> nat \<Rightarrow> uacpi_op_spec" where
  "UACPI_BUILD_TO_FROM_BCD what code =
     UACPI_OP (what @ ''BCDOp'') (UACPI_EXT_OP code) [UACPI_OP_PROPERTY_TERM_ARG]
     ([pop UACPI_PARSE_OP_OPERAND,
      pop UACPI_PARSE_OP_TARGET,
      pop UACPI_PARSE_OP_OBJECT_ALLOC_TYPED, UACPI_OBJECT_INTEGER,
      pop UACPI_PARSE_OP_INVOKE_HANDLER,
      pop UACPI_PARSE_OP_STORE_TO_TARGET, 1,
      pop UACPI_PARSE_OP_OBJECT_TRANSFER_TO_PREV])"

section \<open>Programs out of line\<close>

definition PARSE_FIELD_ELEMENTS :: "nat \<Rightarrow> nat list" where
  "PARSE_FIELD_ELEMENTS parse_loop_pc =
     [pop UACPI_PARSE_OP_IF_HAS_DATA, 44,
      pop UACPI_PARSE_OP_LOAD_IMM, 1,
      pop UACPI_PARSE_OP_IF_LAST_EQUALS, 0x00, 3,
      pop UACPI_PARSE_OP_PKGLEN,
      pop UACPI_PARSE_OP_JMP, parse_loop_pc,
      pop UACPI_PARSE_OP_IF_LAST_EQUALS, 0x01, 6,
      pop UACPI_PARSE_OP_LOAD_IMM, 1,
      pop UACPI_PARSE_OP_LOAD_IMM, 1,
      pop UACPI_PARSE_OP_JMP, parse_loop_pc,
      pop UACPI_PARSE_OP_IF_LAST_EQUALS, 0x02, 5,
      pop UACPI_PARSE_OP_TERM_ARG_UNWRAP_INTERNAL,
      pop UACPI_PARSE_OP_TYPECHECK, UACPI_OBJECT_BUFFER,
      pop UACPI_PARSE_OP_JMP, parse_loop_pc,
      pop UACPI_PARSE_OP_IF_LAST_EQUALS, 0x03, 8,
      pop UACPI_PARSE_OP_LOAD_IMM, 1,
      pop UACPI_PARSE_OP_LOAD_IMM, 1,
      pop UACPI_PARSE_OP_LOAD_IMM, 1,
      pop UACPI_PARSE_OP_JMP, parse_loop_pc,
      pop UACPI_PARSE_OP_ITEM_POP,
      pop UACPI_PARSE_OP_AML_PC_DECREMENT,
      pop UACPI_PARSE_OP_CREATE_NAMESTRING,
      pop UACPI_PARSE_OP_PKGLEN,
      pop UACPI_PARSE_OP_OBJECT_ALLOC_TYPED, UACPI_OBJECT_FIELD_UNIT,
      pop UACPI_PARSE_OP_JMP, parse_loop_pc,
      pop UACPI_PARSE_OP_INVOKE_HANDLER,
      pop UACPI_PARSE_OP_END]"

definition uacpi_field_op_decode_ops :: "nat list" where
  "uacpi_field_op_decode_ops =
     [pop UACPI_PARSE_OP_TRACKED_PKGLEN,
      pop UACPI_PARSE_OP_EXISTING_NAMESTRING,
      pop UACPI_PARSE_OP_LOAD_IMM, 1]
     @ PARSE_FIELD_ELEMENTS 4"

definition uacpi_bank_field_op_decode_ops :: "nat list" where
  "uacpi_bank_field_op_decode_ops =
     [pop UACPI_PARSE_OP_TRACKED_PKGLEN,
      pop UACPI_PARSE_OP_EXISTING_NAMESTRING,
      pop UACPI_PARSE_OP_EXISTING_NAMESTRING,
      pop UACPI_PARSE_OP_OPERAND,
      pop UACPI_PARSE_OP_LOAD_IMM, 1]
     @ PARSE_FIELD_ELEMENTS 6"

definition uacpi_index_field_op_decode_ops :: "nat list" where
  "uacpi_index_field_op_decode_ops =
     [pop UACPI_PARSE_OP_TRACKED_PKGLEN,
      pop UACPI_PARSE_OP_EXISTING_NAMESTRING,
      pop UACPI_PARSE_OP_EXISTING_NAMESTRING,
      pop UACPI_PARSE_OP_LOAD_IMM, 1]
     @ PARSE_FIELD_ELEMENTS 5"

definition uacpi_load_op_decode_ops :: "nat list" where
  "uacpi_load_op_decode_ops =
     [pop UACPI_PARSE_OP_LOAD_ZERO_IMM,
      pop UACPI_PARSE_OP_OBJECT_ALLOC_TYPED, UACPI_OBJECT_METHOD,
      pop UACPI_PARSE_OP_LOAD_ZERO_IMM,
      pop UACPI_PARSE_OP_TERM_ARG_UNWRAP_INTERNAL,
      pop UACPI_PARSE_OP_TARGET,
      pop UACPI_PARSE_OP_INVOKE_HANDLER,
      pop UACPI_PARSE_OP_IF_NULL, 0, 3,
      pop UACPI_PARSE_OP_LOAD_FALSE_OBJECT,
      pop UACPI_PARSE_OP_JMP, 16,
      pop UACPI_PARSE_OP_LOAD_TRUE_OBJECT,
      pop UACPI_PARSE_OP_DISPATCH_TABLE_LOAD,
      pop UACPI_PARSE_OP_INVOKE_HANDLER,
      pop UACPI_PARSE_OP_STORE_TO_TARGET, 4,
      pop UACPI_PARSE_OP_OBJECT_TRANSFER_TO_PREV,
      pop UACPI_PARSE_OP_END]"

definition uacpi_load_table_op_decode_ops :: "nat list" where
  "uacpi_load_table_op_decode_ops =
     [pop UACPI_PARSE_OP_LOAD_ZERO_IMM,
      pop UACPI_PARSE_OP_OBJECT_ALLOC_TYPED, UACPI_OBJECT_METHOD,
      pop UACPI_PARSE_OP_LOAD_ZERO_IMM,
      pop UACPI_PARSE_OP_LOAD_ZERO_IMM,
      pop UACPI_PARSE_OP_LOAD_INLINE_IMM, 1, 5,
      pop UACPI_PARSE_OP_IF_NOT_NULL, 4, 5,
      pop UACPI_PARSE_OP_STRING,
      pop UACPI_PARSE_OP_IMM_DECREMENT, 4,
      pop UACPI_PARSE_OP_JMP, 8,
      pop UACPI_PARSE_OP_TERM_ARG_UNWRAP_INTERNAL,
      pop UACPI_PARSE_OP_INVOKE_HANDLER,
      pop UACPI_PARSE_OP_LOAD_TRUE_OBJECT,
      pop UACPI_PARSE_OP_DISPATCH_TABLE_LOAD,
      pop UACPI_PARSE_OP_INVOKE_HANDLER,
      pop UACPI_PARSE_OP_IF_NOT_NULL, 3, 3,
      pop UACPI_PARSE_OP_STORE_TO_TARGET_INDIRECT, 3, 10,
      pop UACPI_PARSE_OP_OBJECT_TRANSFER_TO_PREV,
      pop UACPI_PARSE_OP_END]"

section \<open>The tables\<close>

definition opcodes_0 :: "uacpi_op_spec list" where
  "opcodes_0 =
    [UACPI_OP ''ZeroOp'' 0x00 [UACPI_OP_PROPERTY_TARGET, UACPI_OP_PROPERTY_TERM_ARG]
      [pop UACPI_PARSE_OP_LOAD_INLINE_IMM_AS_OBJECT, 0x00, 0x00, 0x00, 0x00, 0x00, 0x00, 0x00, 0x00,
       pop UACPI_PARSE_OP_OBJECT_TRANSFER_TO_PREV],
     UACPI_OP ''OneOp'' 0x01 [UACPI_OP_PROPERTY_TERM_ARG]
      [pop UACPI_PARSE_OP_LOAD_INLINE_IMM_AS_OBJECT, 0x01, 0x00, 0x00, 0x00, 0x00, 0x00, 0x00, 0x00,
       pop UACPI_PARSE_OP_OBJECT_TRANSFER_TO_PREV],
     UACPI_INVALID_OPCODE ''0x02'' 0x02,
     UACPI_INVALID_OPCODE ''0x03'' 0x03,
     UACPI_INVALID_OPCODE ''0x04'' 0x04,
     UACPI_INVALID_OPCODE ''0x05'' 0x05,
     UACPI_OP ''AliasOp'' 0x06 []
      [pop UACPI_PARSE_OP_EXISTING_NAMESTRING_OR_NULL_IF_LOAD,
       pop UACPI_PARSE_OP_CREATE_NAMESTRING_OR_NULL_IF_LOAD,
       pop UACPI_PARSE_OP_SKIP_WITH_WARN_IF_NULL, 0,
       pop UACPI_PARSE_OP_SKIP_WITH_WARN_IF_NULL, 1,
       pop UACPI_PARSE_OP_INVOKE_HANDLER,
       pop UACPI_PARSE_OP_INSTALL_NAMESPACE_NODE, 1],
     UACPI_INVALID_OPCODE ''0x07'' 0x07,
     UACPI_OP ''NameOp'' 0x08 []
      [pop UACPI_PARSE_OP_CREATE_NAMESTRING_OR_NULL_IF_LOAD,
       pop UACPI_PARSE_OP_TERM_ARG_UNWRAP_INTERNAL,
       pop UACPI_PARSE_OP_SKIP_WITH_WARN_IF_NULL, 0,
       pop UACPI_PARSE_OP_OBJECT_CONVERT_TO_DEEP_COPY,
       pop UACPI_PARSE_OP_INVOKE_HANDLER,
       pop UACPI_PARSE_OP_INSTALL_NAMESPACE_NODE, 0],
     UACPI_INVALID_OPCODE ''0x09'' 0x09,
     UACPI_INTEGER_LITERAL_OP ''Byte'' 0x0A 1,
     UACPI_INTEGER_LITERAL_OP ''Word'' 0x0B 2,
     UACPI_INTEGER_LITERAL_OP ''DWord'' 0x0C 4,
     UACPI_OP ''StringPrefix'' 0x0D [UACPI_OP_PROPERTY_TERM_ARG]
      [pop UACPI_PARSE_OP_OBJECT_ALLOC_TYPED, UACPI_OBJECT_STRING,
       pop UACPI_PARSE_OP_INVOKE_HANDLER,
       pop UACPI_PARSE_OP_OBJECT_TRANSFER_TO_PREV],
     UACPI_INTEGER_LITERAL_OP ''QWord'' 0x0E 8,
     UACPI_INVALID_OPCODE ''0x0F'' 0x0F,
     UACPI_OP ''ScopeOp'' 0x10 []
      [pop UACPI_PARSE_OP_TRACKED_PKGLEN,
       pop UACPI_PARSE_OP_EXISTING_NAMESTRING_OR_NULL_IF_LOAD,
       pop UACPI_PARSE_OP_SKIP_WITH_WARN_IF_NULL, 1,
       pop UACPI_PARSE_OP_INVOKE_HANDLER],
     UACPI_OP ''BufferOp'' 0x11 [UACPI_OP_PROPERTY_TERM_ARG]
      [pop UACPI_PARSE_OP_TRACKED_PKGLEN,
       pop UACPI_PARSE_OP_OPERAND,
       pop UACPI_PARSE_OP_RECORD_AML_PC,
       pop UACPI_PARSE_OP_OBJECT_ALLOC_TYPED, UACPI_OBJECT_BUFFER,
       pop UACPI_PARSE_OP_INVOKE_HANDLER,
       pop UACPI_PARSE_OP_OBJECT_TRANSFER_TO_PREV],
     UACPI_BUILD_PACKAGE_OP ''Package'' 0x12 3 [pop UACPI_PARSE_OP_LOAD_IMM, 1],
     UACPI_BUILD_PACKAGE_OP ''VarPackage'' 0x13 2 [pop UACPI_PARSE_OP_OPERAND],
     UACPI_OP ''MethodOp'' 0x14 []
      [pop UACPI_PARSE_OP_TRACKED_PKGLEN,
       pop UACPI_PARSE_OP_CREATE_NAMESTRING_OR_NULL_IF_LOAD,
       pop UACPI_PARSE_OP_LOAD_IMM, 1,
       pop UACPI_PARSE_OP_SKIP_WITH_WARN_IF_NULL, 1,
       pop UACPI_PARSE_OP_RECORD_AML_PC,
       pop UACPI_PARSE_OP_OBJECT_ALLOC_TYPED, UACPI_OBJECT_METHOD,
       pop UACPI_PARSE_OP_INVOKE_HANDLER,
       pop UACPI_PARSE_OP_INSTALL_NAMESPACE_NODE, 1],
     UACPI_OP ''ExternalOp'' 0x15 []
      [pop UACPI_PARSE_OP_EXISTING_NAMESTRING_OR_NULL,
       pop UACPI_PARSE_OP_LOAD_IMM, 1,
       pop UACPI_PARSE_OP_LOAD_IMM, 1],
     UACPI_INVALID_OPCODE ''0x16'' 0x16,
     UACPI_INVALID_OPCODE ''0x17'' 0x17,
     UACPI_INVALID_OPCODE ''0x18'' 0x18,
     UACPI_INVALID_OPCODE ''0x19'' 0x19,
     UACPI_INVALID_OPCODE ''0x1A'' 0x1A,
     UACPI_INVALID_OPCODE ''0x1B'' 0x1B,
     UACPI_INVALID_OPCODE ''0x1C'' 0x1C,
     UACPI_INVALID_OPCODE ''0x1D'' 0x1D,
     UACPI_INVALID_OPCODE ''0x1E'' 0x1E,
     UACPI_INVALID_OPCODE ''0x1F'' 0x1F]"

definition opcodes_1 :: "uacpi_op_spec list" where
  "opcodes_1 =
    [UACPI_INVALID_OPCODE ''0x20'' 0x20,
     UACPI_INVALID_OPCODE ''0x21'' 0x21,
     UACPI_INVALID_OPCODE ''0x22'' 0x22,
     UACPI_INVALID_OPCODE ''0x23'' 0x23,
     UACPI_INVALID_OPCODE ''0x24'' 0x24,
     UACPI_INVALID_OPCODE ''0x25'' 0x25,
     UACPI_INVALID_OPCODE ''0x26'' 0x26,
     UACPI_INVALID_OPCODE ''0x27'' 0x27,
     UACPI_INVALID_OPCODE ''0x28'' 0x28,
     UACPI_INVALID_OPCODE ''0x29'' 0x29,
     UACPI_INVALID_OPCODE ''0x2A'' 0x2A,
     UACPI_INVALID_OPCODE ''0x2B'' 0x2B,
     UACPI_INVALID_OPCODE ''0x2C'' 0x2C,
     UACPI_INVALID_OPCODE ''0x2D'' 0x2D,
     UACPI_UNRESOLVED_NAME_STRING_OP ''DualNamePrefix'' 0x2E,
     UACPI_UNRESOLVED_NAME_STRING_OP ''MultiNamePrefix'' 0x2F,
     UACPI_INVALID_OPCODE ''0x30'' 0x30,
     UACPI_INVALID_OPCODE ''0x31'' 0x31,
     UACPI_INVALID_OPCODE ''0x32'' 0x32,
     UACPI_INVALID_OPCODE ''0x33'' 0x33,
     UACPI_INVALID_OPCODE ''0x34'' 0x34,
     UACPI_INVALID_OPCODE ''0x35'' 0x35,
     UACPI_INVALID_OPCODE ''0x36'' 0x36,
     UACPI_INVALID_OPCODE ''0x37'' 0x37,
     UACPI_INVALID_OPCODE ''0x38'' 0x38,
     UACPI_INVALID_OPCODE ''0x39'' 0x39,
     UACPI_INVALID_OPCODE ''0x3A'' 0x3A,
     UACPI_INVALID_OPCODE ''0x3B'' 0x3B,
     UACPI_INVALID_OPCODE ''0x3C'' 0x3C,
     UACPI_INVALID_OPCODE ''0x3D'' 0x3D,
     UACPI_INVALID_OPCODE ''0x3E'' 0x3E,
     UACPI_INVALID_OPCODE ''0x3F'' 0x3F,
     UACPI_INVALID_OPCODE ''0x40'' 0x40,
     UACPI_UNRESOLVED_NAME_STRING_OP ''A'' 0x41,
     UACPI_UNRESOLVED_NAME_STRING_OP ''B'' 0x42,
     UACPI_UNRESOLVED_NAME_STRING_OP ''C'' 0x43,
     UACPI_UNRESOLVED_NAME_STRING_OP ''D'' 0x44,
     UACPI_UNRESOLVED_NAME_STRING_OP ''E'' 0x45,
     UACPI_UNRESOLVED_NAME_STRING_OP ''F'' 0x46,
     UACPI_UNRESOLVED_NAME_STRING_OP ''G'' 0x47,
     UACPI_UNRESOLVED_NAME_STRING_OP ''H'' 0x48,
     UACPI_UNRESOLVED_NAME_STRING_OP ''I'' 0x49,
     UACPI_UNRESOLVED_NAME_STRING_OP ''J'' 0x4A,
     UACPI_UNRESOLVED_NAME_STRING_OP ''K'' 0x4B,
     UACPI_UNRESOLVED_NAME_STRING_OP ''L'' 0x4C,
     UACPI_UNRESOLVED_NAME_STRING_OP ''M'' 0x4D,
     UACPI_UNRESOLVED_NAME_STRING_OP ''N'' 0x4E,
     UACPI_UNRESOLVED_NAME_STRING_OP ''O'' 0x4F,
     UACPI_UNRESOLVED_NAME_STRING_OP ''P'' 0x50,
     UACPI_UNRESOLVED_NAME_STRING_OP ''Q'' 0x51,
     UACPI_UNRESOLVED_NAME_STRING_OP ''R'' 0x52,
     UACPI_UNRESOLVED_NAME_STRING_OP ''S'' 0x53,
     UACPI_UNRESOLVED_NAME_STRING_OP ''T'' 0x54,
     UACPI_UNRESOLVED_NAME_STRING_OP ''U'' 0x55,
     UACPI_UNRESOLVED_NAME_STRING_OP ''V'' 0x56,
     UACPI_UNRESOLVED_NAME_STRING_OP ''W'' 0x57,
     UACPI_UNRESOLVED_NAME_STRING_OP ''X'' 0x58,
     UACPI_UNRESOLVED_NAME_STRING_OP ''Y'' 0x59,
     UACPI_UNRESOLVED_NAME_STRING_OP ''Z'' 0x5A,
     UACPI_INVALID_OPCODE ''0x5B'' 0x5B,
     UACPI_UNRESOLVED_NAME_STRING_OP ''RootChar'' 0x5C,
     UACPI_INVALID_OPCODE ''0x5D'' 0x5D,
     UACPI_UNRESOLVED_NAME_STRING_OP ''ParentPrefixChar'' 0x5E,
     UACPI_UNRESOLVED_NAME_STRING_OP ''Underscore'' 0x5F,
     UACPI_LOCALX_OP ''0'' 0,
     UACPI_LOCALX_OP ''1'' 1,
     UACPI_LOCALX_OP ''2'' 2,
     UACPI_LOCALX_OP ''3'' 3,
     UACPI_LOCALX_OP ''4'' 4,
     UACPI_LOCALX_OP ''5'' 5,
     UACPI_LOCALX_OP ''6'' 6,
     UACPI_LOCALX_OP ''7'' 7,
     UACPI_ARGX_OP ''0'' 0,
     UACPI_ARGX_OP ''1'' 1,
     UACPI_ARGX_OP ''2'' 2,
     UACPI_ARGX_OP ''3'' 3,
     UACPI_ARGX_OP ''4'' 4,
     UACPI_ARGX_OP ''5'' 5,
     UACPI_ARGX_OP ''6'' 6,
     UACPI_INVALID_OPCODE ''0x6F'' 0x6F,
     UACPI_OP ''StoreOp'' 0x70 [UACPI_OP_PROPERTY_TERM_ARG]
      [pop UACPI_PARSE_OP_TERM_ARG,
       pop UACPI_PARSE_OP_SUPERNAME,
       pop UACPI_PARSE_OP_INVOKE_HANDLER,
       pop UACPI_PARSE_OP_ITEM_POP,
       pop UACPI_PARSE_OP_OBJECT_COPY_TO_PREV],
     UACPI_OP ''RefOfOp'' 0x71 [UACPI_OP_PROPERTY_TERM_ARG]
      [pop UACPI_PARSE_OP_SUPERNAME,
       pop UACPI_PARSE_OP_OBJECT_ALLOC,
       pop UACPI_PARSE_OP_INVOKE_HANDLER,
       pop UACPI_PARSE_OP_OBJECT_TRANSFER_TO_PREV],
     UACPI_BUILD_BINARY_MATH_OP ''Add'' 0x72,
     UACPI_OP ''ConcatOp'' 0x73 [UACPI_OP_PROPERTY_TERM_ARG]
      [pop UACPI_PARSE_OP_COMPUTATIONAL_DATA,
       pop UACPI_PARSE_OP_COMPUTATIONAL_DATA,
       pop UACPI_PARSE_OP_TARGET,
       pop UACPI_PARSE_OP_OBJECT_ALLOC_TYPED, UACPI_OBJECT_BUFFER,
       pop UACPI_PARSE_OP_INVOKE_HANDLER,
       pop UACPI_PARSE_OP_STORE_TO_TARGET, 2,
       pop UACPI_PARSE_OP_OBJECT_COPY_TO_PREV],
     UACPI_BUILD_BINARY_MATH_OP ''Subtract'' 0x74,
     UACPI_BUILD_INC_DEC_OP ''Increment'' 0x75,
     UACPI_BUILD_INC_DEC_OP ''Decrement'' 0x76,
     UACPI_BUILD_BINARY_MATH_OP ''Multiply'' 0x77]"

definition opcodes_2 :: "uacpi_op_spec list" where
  "opcodes_2 =
    [UACPI_OP ''DivideOp'' 0x78 [UACPI_OP_PROPERTY_TERM_ARG]
      [pop UACPI_PARSE_OP_OPERAND,
       pop UACPI_PARSE_OP_OPERAND,
       pop UACPI_PARSE_OP_TARGET,
       pop UACPI_PARSE_OP_TARGET,
       pop UACPI_PARSE_OP_OBJECT_ALLOC_TYPED, UACPI_OBJECT_INTEGER,
       pop UACPI_PARSE_OP_OBJECT_ALLOC_TYPED, UACPI_OBJECT_INTEGER,
       pop UACPI_PARSE_OP_INVOKE_HANDLER,
       pop UACPI_PARSE_OP_STORE_TO_TARGET, 3,
       pop UACPI_PARSE_OP_OBJECT_COPY_TO_PREV,
       pop UACPI_PARSE_OP_STORE_TO_TARGET_INDIRECT, 2, 4],
     UACPI_BUILD_BINARY_MATH_OP ''ShiftLeft'' 0x79,
     UACPI_BUILD_BINARY_MATH_OP ''ShiftRight'' 0x7A,
     UACPI_BUILD_BINARY_MATH_OP ''And'' 0x7B,
     UACPI_BUILD_BINARY_MATH_OP ''Nand'' 0x7C,
     UACPI_BUILD_BINARY_MATH_OP ''Or'' 0x7D,
     UACPI_BUILD_BINARY_MATH_OP ''Nor'' 0x7E,
     UACPI_BUILD_BINARY_MATH_OP ''Xor'' 0x7F,
     UACPI_BUILD_UNARY_MATH_OP ''Not'' 0x80,
     UACPI_BUILD_UNARY_MATH_OP ''FindSetLeftBit'' 0x81,
     UACPI_BUILD_UNARY_MATH_OP ''FindSetRightBit'' 0x82,
     UACPI_OP ''DerefOfOp'' 0x83 [UACPI_OP_PROPERTY_TERM_ARG]
      [pop UACPI_PARSE_OP_TERM_ARG_UNWRAP_INTERNAL,
       pop UACPI_PARSE_OP_TYPECHECK_ONE_OF, 2, UACPI_OBJECT_REFERENCE, UACPI_OBJECT_BUFFER_INDEX,
       pop UACPI_PARSE_OP_OBJECT_ALLOC,
       pop UACPI_PARSE_OP_INVOKE_HANDLER,
       pop UACPI_PARSE_OP_OBJECT_TRANSFER_TO_PREV],
     UACPI_OP ''ConcatResOp'' 0x84 [UACPI_OP_PROPERTY_TERM_ARG]
      [pop UACPI_PARSE_OP_TERM_ARG_UNWRAP_INTERNAL,
       pop UACPI_PARSE_OP_TYPECHECK, UACPI_OBJECT_BUFFER,
       pop UACPI_PARSE_OP_TERM_ARG_UNWRAP_INTERNAL,
       pop UACPI_PARSE_OP_TYPECHECK, UACPI_OBJECT_BUFFER,
       pop UACPI_PARSE_OP_TARGET,
       pop UACPI_PARSE_OP_OBJECT_ALLOC_TYPED, UACPI_OBJECT_BUFFER,
       pop UACPI_PARSE_OP_INVOKE_HANDLER,
       pop UACPI_PARSE_OP_STORE_TO_TARGET, 2,
       pop UACPI_PARSE_OP_OBJECT_TRANSFER_TO_PREV],
     UACPI_BUILD_BINARY_MATH_OP ''Mod'' 0x85,
     UACPI_OP ''NotifyOp'' 0x86 []
      [pop UACPI_PARSE_OP_EXISTING_NAMESTRING_OR_NULL_IF_LOAD,
       pop UACPI_PARSE_OP_OPERAND,
       pop UACPI_PARSE_OP_SKIP_WITH_WARN_IF_NULL, 0,
       pop UACPI_PARSE_OP_INVOKE_HANDLER],
     UACPI_OP ''SizeOfOp'' 0x87 [UACPI_OP_PROPERTY_TERM_ARG]
      [pop UACPI_PARSE_OP_SUPERNAME,
       pop UACPI_PARSE_OP_OBJECT_ALLOC_TYPED, UACPI_OBJECT_INTEGER,
       pop UACPI_PARSE_OP_INVOKE_HANDLER,
       pop UACPI_PARSE_OP_OBJECT_TRANSFER_TO_PREV],
     UACPI_OP ''IndexOp'' 0x88 [UACPI_OP_PROPERTY_TERM_ARG, UACPI_OP_PROPERTY_SUPERNAME, UACPI_OP_PROPERTY_SIMPLE_NAME]
      [pop UACPI_PARSE_OP_TERM_ARG_UNWRAP_INTERNAL,
       pop UACPI_PARSE_OP_OPERAND,
       pop UACPI_PARSE_OP_TARGET,
       pop UACPI_PARSE_OP_EMPTY_OBJECT_ALLOC,
       pop UACPI_PARSE_OP_INVOKE_HANDLER,
       pop UACPI_PARSE_OP_STORE_TO_TARGET, 2,
       pop UACPI_PARSE_OP_OBJECT_TRANSFER_TO_PREV],
     UACPI_OP ''MatchOp'' 0x89 [UACPI_OP_PROPERTY_TERM_ARG]
      [pop UACPI_PARSE_OP_TERM_ARG_UNWRAP_INTERNAL,
       pop UACPI_PARSE_OP_TYPECHECK, UACPI_OBJECT_PACKAGE,
       pop UACPI_PARSE_OP_LOAD_IMM, 1,
       pop UACPI_PARSE_OP_OPERAND,
       pop UACPI_PARSE_OP_LOAD_IMM, 1,
       pop UACPI_PARSE_OP_OPERAND,
       pop UACPI_PARSE_OP_OPERAND,
       pop UACPI_PARSE_OP_OBJECT_ALLOC_TYPED, UACPI_OBJECT_INTEGER,
       pop UACPI_PARSE_OP_INVOKE_HANDLER,
       pop UACPI_PARSE_OP_OBJECT_TRANSFER_TO_PREV],
     UACPI_BUILD_BUFFER_FIELD_OP ''DWord'' 0x8A,
     UACPI_BUILD_BUFFER_FIELD_OP ''Word'' 0x8B,
     UACPI_BUILD_BUFFER_FIELD_OP ''Byte'' 0x8C,
     UACPI_BUILD_BUFFER_FIELD_OP ''Bit'' 0x8D]"

definition opcodes_3 :: "uacpi_op_spec list" where
  "opcodes_3 =
    [UACPI_OP ''ObjectTypeOp'' 0x8E [UACPI_OP_PROPERTY_TERM_ARG]
      [pop UACPI_PARSE_OP_TERM_ARG_OR_NAMED_OBJECT,
       pop UACPI_PARSE_OP_OBJECT_ALLOC_TYPED, UACPI_OBJECT_INTEGER,
       pop UACPI_PARSE_OP_INVOKE_HANDLER,
       pop UACPI_PARSE_OP_OBJECT_TRANSFER_TO_PREV],
     UACPI_BUILD_BUFFER_FIELD_OP ''QWord'' 0x8F,
     UACPI_BUILD_BINARY_LOGIC_OP ''Land'' 0x90,
     UACPI_BUILD_BINARY_LOGIC_OP ''Lor'' 0x91,
     UACPI_OP ''LnotOp'' 0x92 [UACPI_OP_PROPERTY_TERM_ARG]
      [pop UACPI_PARSE_OP_OPERAND,
       pop UACPI_PARSE_OP_OBJECT_ALLOC,
       pop UACPI_PARSE_OP_INVOKE_HANDLER,
       pop UACPI_PARSE_OP_OBJECT_TRANSFER_TO_PREV],
     UACPI_BUILD_BINARY_LOGIC_OP ''LEqual'' 0x93,
     UACPI_BUILD_BINARY_LOGIC_OP ''LGreater'' 0x94,
     UACPI_BUILD_BINARY_LOGIC_OP ''LLess'' 0x95,
     UACPI_BUILD_TO_OP ''Buffer'' 0x96 UACPI_OBJECT_BUFFER,
     UACPI_BUILD_TO_OP ''DecimalString'' 0x97 UACPI_OBJECT_STRING,
     UACPI_BUILD_TO_OP ''HexString'' 0x98 UACPI_OBJECT_STRING,
     UACPI_BUILD_TO_OP ''Integer'' 0x99 UACPI_OBJECT_INTEGER,
     UACPI_INVALID_OPCODE ''0x9A'' 0x9A,
     UACPI_INVALID_OPCODE ''0x9B'' 0x9B,
     UACPI_OP ''ToStringOp'' 0x9C [UACPI_OP_PROPERTY_TERM_ARG]
      [pop UACPI_PARSE_OP_TERM_ARG_UNWRAP_INTERNAL,
       pop UACPI_PARSE_OP_TYPECHECK, UACPI_OBJECT_BUFFER,
       pop UACPI_PARSE_OP_OPERAND,
       pop UACPI_PARSE_OP_TARGET,
       pop UACPI_PARSE_OP_OBJECT_ALLOC_TYPED, UACPI_OBJECT_STRING,
       pop UACPI_PARSE_OP_INVOKE_HANDLER,
       pop UACPI_PARSE_OP_STORE_TO_TARGET, 2,
       pop UACPI_PARSE_OP_OBJECT_TRANSFER_TO_PREV],
     UACPI_OP ''CopyObjectOp'' 0x9D [UACPI_OP_PROPERTY_TERM_ARG]
      [pop UACPI_PARSE_OP_TERM_ARG,
       pop UACPI_PARSE_OP_OBJECT_COPY_TO_PREV,
       pop UACPI_PARSE_OP_SIMPLE_NAME,
       pop UACPI_PARSE_OP_INVOKE_HANDLER],
     UACPI_OP ''MidOp'' 0x9E [UACPI_OP_PROPERTY_TERM_ARG]
      [pop UACPI_PARSE_OP_TERM_ARG_UNWRAP_INTERNAL,
       pop UACPI_PARSE_OP_OPERAND,
       pop UACPI_PARSE_OP_OPERAND,
       pop UACPI_PARSE_OP_TARGET,
       pop UACPI_PARSE_OP_OBJECT_ALLOC_TYPED, UACPI_OBJECT_BUFFER,
       pop UACPI_PARSE_OP_INVOKE_HANDLER,
       pop UACPI_PARSE_OP_STORE_TO_TARGET, 3,
       pop UACPI_PARSE_OP_OBJECT_TRANSFER_TO_PREV],
     UACPI_OP ''ContinueOp'' 0x9F []
      [pop UACPI_PARSE_OP_INVOKE_HANDLER],
     UACPI_OP ''IfOp'' 0xA0 []
      [pop UACPI_PARSE_OP_TRACKED_PKGLEN,
       pop UACPI_PARSE_OP_OPERAND,
       pop UACPI_PARSE_OP_IF_LAST_NULL, 3,
       pop UACPI_PARSE_OP_EMIT_SKIP_WARN,
       pop UACPI_PARSE_OP_JMP, 9,
       pop UACPI_PARSE_OP_IF_LAST_FALSE, 4,
       pop UACPI_PARSE_OP_SWITCH_TO_NEXT_IF_EQUALS, 0xA1, 0x00,
       pop UACPI_PARSE_OP_END,
       pop UACPI_PARSE_OP_INVOKE_HANDLER],
     UACPI_OP ''ElseOp'' 0xA1 []
      [pop UACPI_PARSE_OP_IF_SWITCHED_FROM, 0xA0, 0x00, 10,
       pop UACPI_PARSE_OP_IF_LAST_NULL, 3,
       pop UACPI_PARSE_OP_TRACKED_PKGLEN,
       pop UACPI_PARSE_OP_EMIT_SKIP_WARN,
       pop UACPI_PARSE_OP_END,
       pop UACPI_PARSE_OP_ITEM_POP,
       pop UACPI_PARSE_OP_ITEM_POP,
       pop UACPI_PARSE_OP_PKGLEN,
       pop UACPI_PARSE_OP_INVOKE_HANDLER,
       pop UACPI_PARSE_OP_END,
       pop UACPI_PARSE_OP_TRACKED_PKGLEN],
     UACPI_OP ''WhileOp'' 0xA2 []
      [pop UACPI_PARSE_OP_TRACKED_PKGLEN,
       pop UACPI_PARSE_OP_OPERAND,
       pop UACPI_PARSE_OP_SKIP_WITH_WARN_IF_NULL, 1,
       pop UACPI_PARSE_OP_IF_LAST_TRUE, 1,
       pop UACPI_PARSE_OP_INVOKE_HANDLER]]"

definition opcodes_4 :: "uacpi_op_spec list" where
  "opcodes_4 =
    [UACPI_OP ''NoopOp'' 0xA3 []
      [pop UACPI_PARSE_OP_END],
     UACPI_OP ''ReturnOp'' 0xA4 []
      [pop UACPI_PARSE_OP_TERM_ARG_UNWRAP_INTERNAL,
       pop UACPI_PARSE_OP_INVOKE_HANDLER],
     UACPI_OP ''BreakOp'' 0xA5 []
      [pop UACPI_PARSE_OP_INVOKE_HANDLER],
     UACPI_INVALID_OPCODE ''0xA6'' 0xA6,
     UACPI_INVALID_OPCODE ''0xA7'' 0xA7,
     UACPI_INVALID_OPCODE ''0xA8'' 0xA8,
     UACPI_INVALID_OPCODE ''0xA9'' 0xA9,
     UACPI_INVALID_OPCODE ''0xAA'' 0xAA,
     UACPI_INVALID_OPCODE ''0xAB'' 0xAB,
     UACPI_INVALID_OPCODE ''0xAC'' 0xAC,
     UACPI_INVALID_OPCODE ''0xAD'' 0xAD,
     UACPI_INVALID_OPCODE ''0xAE'' 0xAE,
     UACPI_INVALID_OPCODE ''0xAF'' 0xAF,
     UACPI_INVALID_OPCODE ''0xB0'' 0xB0,
     UACPI_INVALID_OPCODE ''0xB1'' 0xB1,
     UACPI_INVALID_OPCODE ''0xB2'' 0xB2,
     UACPI_INVALID_OPCODE ''0xB3'' 0xB3,
     UACPI_INVALID_OPCODE ''0xB4'' 0xB4,
     UACPI_INVALID_OPCODE ''0xB5'' 0xB5,
     UACPI_INVALID_OPCODE ''0xB6'' 0xB6,
     UACPI_INVALID_OPCODE ''0xB7'' 0xB7,
     UACPI_INVALID_OPCODE ''0xB8'' 0xB8,
     UACPI_INVALID_OPCODE ''0xB9'' 0xB9,
     UACPI_INVALID_OPCODE ''0xBA'' 0xBA,
     UACPI_INVALID_OPCODE ''0xBB'' 0xBB,
     UACPI_INVALID_OPCODE ''0xBC'' 0xBC,
     UACPI_INVALID_OPCODE ''0xBD'' 0xBD,
     UACPI_INVALID_OPCODE ''0xBE'' 0xBE,
     UACPI_INVALID_OPCODE ''0xBF'' 0xBF,
     UACPI_INVALID_OPCODE ''0xC0'' 0xC0,
     UACPI_INVALID_OPCODE ''0xC1'' 0xC1,
     UACPI_INVALID_OPCODE ''0xC2'' 0xC2,
     UACPI_INVALID_OPCODE ''0xC3'' 0xC3,
     UACPI_INVALID_OPCODE ''0xC4'' 0xC4,
     UACPI_INVALID_OPCODE ''0xC5'' 0xC5,
     UACPI_INVALID_OPCODE ''0xC6'' 0xC6,
     UACPI_INVALID_OPCODE ''0xC7'' 0xC7,
     UACPI_INVALID_OPCODE ''0xC8'' 0xC8,
     UACPI_INVALID_OPCODE ''0xC9'' 0xC9,
     UACPI_INVALID_OPCODE ''0xCA'' 0xCA,
     UACPI_INVALID_OPCODE ''0xCB'' 0xCB,
     UACPI_OP ''BreakPointOp'' 0xCC []
      [pop UACPI_PARSE_OP_INVOKE_HANDLER],
     UACPI_INVALID_OPCODE ''0xCD'' 0xCD,
     UACPI_INVALID_OPCODE ''0xCE'' 0xCE,
     UACPI_INVALID_OPCODE ''0xCF'' 0xCF,
     UACPI_INVALID_OPCODE ''0xD0'' 0xD0,
     UACPI_INVALID_OPCODE ''0xD1'' 0xD1,
     UACPI_INVALID_OPCODE ''0xD2'' 0xD2,
     UACPI_INVALID_OPCODE ''0xD3'' 0xD3,
     UACPI_INVALID_OPCODE ''0xD4'' 0xD4,
     UACPI_INVALID_OPCODE ''0xD5'' 0xD5,
     UACPI_INVALID_OPCODE ''0xD6'' 0xD6,
     UACPI_INVALID_OPCODE ''0xD7'' 0xD7,
     UACPI_INVALID_OPCODE ''0xD8'' 0xD8,
     UACPI_INVALID_OPCODE ''0xD9'' 0xD9,
     UACPI_INVALID_OPCODE ''0xDA'' 0xDA,
     UACPI_INVALID_OPCODE ''0xDB'' 0xDB,
     UACPI_INVALID_OPCODE ''0xDC'' 0xDC,
     UACPI_INVALID_OPCODE ''0xDD'' 0xDD,
     UACPI_INVALID_OPCODE ''0xDE'' 0xDE,
     UACPI_INVALID_OPCODE ''0xDF'' 0xDF,
     UACPI_INVALID_OPCODE ''0xE0'' 0xE0,
     UACPI_INVALID_OPCODE ''0xE1'' 0xE1,
     UACPI_INVALID_OPCODE ''0xE2'' 0xE2,
     UACPI_INVALID_OPCODE ''0xE3'' 0xE3,
     UACPI_INVALID_OPCODE ''0xE4'' 0xE4,
     UACPI_INVALID_OPCODE ''0xE5'' 0xE5,
     UACPI_INVALID_OPCODE ''0xE6'' 0xE6,
     UACPI_INVALID_OPCODE ''0xE7'' 0xE7,
     UACPI_INVALID_OPCODE ''0xE8'' 0xE8,
     UACPI_INVALID_OPCODE ''0xE9'' 0xE9,
     UACPI_INVALID_OPCODE ''0xEA'' 0xEA,
     UACPI_INVALID_OPCODE ''0xEB'' 0xEB,
     UACPI_INVALID_OPCODE ''0xEC'' 0xEC,
     UACPI_INVALID_OPCODE ''0xED'' 0xED,
     UACPI_INVALID_OPCODE ''0xEE'' 0xEE,
     UACPI_INVALID_OPCODE ''0xEF'' 0xEF,
     UACPI_INVALID_OPCODE ''0xF0'' 0xF0,
     UACPI_INVALID_OPCODE ''0xF1'' 0xF1,
     UACPI_INVALID_OPCODE ''0xF2'' 0xF2,
     UACPI_INVALID_OPCODE ''0xF3'' 0xF3,
     UACPI_OP ''InternalOpReadFieldAsBuffer'' 0xF4 [UACPI_OP_PROPERTY_TERM_ARG, UACPI_OP_PROPERTY_INTERNAL]
      [pop UACPI_PARSE_OP_OBJECT_ALLOC_TYPED, UACPI_OBJECT_BUFFER,
       pop UACPI_PARSE_OP_INVOKE_HANDLER,
       pop UACPI_PARSE_OP_OBJECT_TRANSFER_TO_PREV]]"

definition opcodes_5 :: "uacpi_op_spec list" where
  "opcodes_5 =
    [UACPI_OP ''InternalOpReadFieldAsInteger'' 0xF5 [UACPI_OP_PROPERTY_TERM_ARG, UACPI_OP_PROPERTY_INTERNAL]
      [pop UACPI_PARSE_OP_OBJECT_ALLOC_TYPED, UACPI_OBJECT_INTEGER,
       pop UACPI_PARSE_OP_INVOKE_HANDLER,
       pop UACPI_PARSE_OP_OBJECT_TRANSFER_TO_PREV],
     UACPI_OP ''InternalOpNamedObject'' 0xF6 [UACPI_OP_PROPERTY_SIMPLE_NAME, UACPI_OP_PROPERTY_SUPERNAME, UACPI_OP_PROPERTY_TERM_ARG, UACPI_OP_PROPERTY_INTERNAL]
      [pop UACPI_PARSE_OP_EMPTY_OBJECT_ALLOC,
       pop UACPI_PARSE_OP_INVOKE_HANDLER,
       pop UACPI_PARSE_OP_OBJECT_TRANSFER_TO_PREV],
     UACPI_METHOD_CALL_OPCODE ''0'' 0,
     UACPI_METHOD_CALL_OPCODE ''1'' 1,
     UACPI_METHOD_CALL_OPCODE ''2'' 2,
     UACPI_METHOD_CALL_OPCODE ''3'' 3,
     UACPI_METHOD_CALL_OPCODE ''4'' 4,
     UACPI_METHOD_CALL_OPCODE ''5'' 5,
     UACPI_METHOD_CALL_OPCODE ''6'' 6,
     UACPI_METHOD_CALL_OPCODE ''7'' 7,
     UACPI_OP ''OnesOp'' 0xFF [UACPI_OP_PROPERTY_TERM_ARG]
      [pop UACPI_PARSE_OP_LOAD_INLINE_IMM_AS_OBJECT, 0xFF, 0xFF, 0xFF, 0xFF, 0xFF, 0xFF, 0xFF, 0xFF,
       pop UACPI_PARSE_OP_TRUNCATE_NUMBER,
       pop UACPI_PARSE_OP_OBJECT_TRANSFER_TO_PREV]]"

definition opcode_table :: "uacpi_op_spec list" where
  "opcode_table = opcodes_0 @ opcodes_1 @ opcodes_2 @ opcodes_3 @ opcodes_4 @ opcodes_5"

definition ext_opcodes_0 :: "uacpi_op_spec list" where
  "ext_opcodes_0 =
    [UACPI_OP ''InvalidExtOp'' 0 [UACPI_OP_PROPERTY_INVALID]
      [pop UACPI_PARSE_OP_END],
     UACPI_OP ''MutexOp'' (UACPI_EXT_OP 0x01) []
      [pop UACPI_PARSE_OP_CREATE_NAMESTRING_OR_NULL_IF_LOAD,
       pop UACPI_PARSE_OP_LOAD_IMM, 1,
       pop UACPI_PARSE_OP_SKIP_WITH_WARN_IF_NULL, 0,
       pop UACPI_PARSE_OP_OBJECT_ALLOC_TYPED, UACPI_OBJECT_MUTEX,
       pop UACPI_PARSE_OP_INVOKE_HANDLER,
       pop UACPI_PARSE_OP_INSTALL_NAMESPACE_NODE, 0],
     UACPI_OP ''EventOp'' (UACPI_EXT_OP 0x02) []
      [pop UACPI_PARSE_OP_CREATE_NAMESTRING_OR_NULL_IF_LOAD,
       pop UACPI_PARSE_OP_SKIP_WITH_WARN_IF_NULL, 0,
       pop UACPI_PARSE_OP_OBJECT_ALLOC_TYPED, UACPI_OBJECT_EVENT,
       pop UACPI_PARSE_OP_INVOKE_HANDLER,
       pop UACPI_PARSE_OP_INSTALL_NAMESPACE_NODE, 0],
     UACPI_OP ''CondRefOfOp'' (UACPI_EXT_OP 0x12) [UACPI_OP_PROPERTY_TERM_ARG]
      [pop UACPI_PARSE_OP_SUPERNAME_OR_UNRESOLVED,
       pop UACPI_PARSE_OP_TARGET,
       pop UACPI_PARSE_OP_IF_NULL, 0, 3,
       pop UACPI_PARSE_OP_LOAD_FALSE_OBJECT,
       pop UACPI_PARSE_OP_OBJECT_TRANSFER_TO_PREV,
       pop UACPI_PARSE_OP_END,
       pop UACPI_PARSE_OP_OBJECT_ALLOC,
       pop UACPI_PARSE_OP_INVOKE_HANDLER,
       pop UACPI_PARSE_OP_STORE_TO_TARGET, 1,
       pop UACPI_PARSE_OP_LOAD_TRUE_OBJECT,
       pop UACPI_PARSE_OP_OBJECT_TRANSFER_TO_PREV],
     UACPI_DO_BUILD_BUFFER_FIELD_OP ''Create'' (UACPI_EXT_OP 0x13) 3 [pop UACPI_PARSE_OP_OPERAND],
     UACPI_OUT_OF_LINE_OP ''LoadTableOp'' (UACPI_EXT_OP 0x1F) uacpi_load_table_op_decode_ops [UACPI_OP_PROPERTY_TERM_ARG, UACPI_OP_PROPERTY_OUT_OF_LINE],
     UACPI_OUT_OF_LINE_OP ''LoadOp'' (UACPI_EXT_OP 0x20) uacpi_load_op_decode_ops [UACPI_OP_PROPERTY_TERM_ARG, UACPI_OP_PROPERTY_OUT_OF_LINE],
     UACPI_OP ''StallOp'' (UACPI_EXT_OP 0x21) []
      [pop UACPI_PARSE_OP_OPERAND,
       pop UACPI_PARSE_OP_INVOKE_HANDLER],
     UACPI_OP ''SleepOp'' (UACPI_EXT_OP 0x22) []
      [pop UACPI_PARSE_OP_OPERAND,
       pop UACPI_PARSE_OP_INVOKE_HANDLER],
     UACPI_OP ''AcquireOp'' (UACPI_EXT_OP 0x23) [UACPI_OP_PROPERTY_TERM_ARG]
      [pop UACPI_PARSE_OP_SUPERNAME,
       pop UACPI_PARSE_OP_LOAD_IMM, 2,
       pop UACPI_PARSE_OP_LOAD_TRUE_OBJECT,
       pop UACPI_PARSE_OP_INVOKE_HANDLER,
       pop UACPI_PARSE_OP_OBJECT_TRANSFER_TO_PREV],
     UACPI_OP ''SignalOp'' (UACPI_EXT_OP 0x24) []
      [pop UACPI_PARSE_OP_SUPERNAME,
       pop UACPI_PARSE_OP_INVOKE_HANDLER],
     UACPI_OP ''WaitOp'' (UACPI_EXT_OP 0x25) [UACPI_OP_PROPERTY_TERM_ARG]
      [pop UACPI_PARSE_OP_SUPERNAME,
       pop UACPI_PARSE_OP_OPERAND,
       pop UACPI_PARSE_OP_LOAD_TRUE_OBJECT,
       pop UACPI_PARSE_OP_INVOKE_HANDLER,
       pop UACPI_PARSE_OP_OBJECT_TRANSFER_TO_PREV],
     UACPI_OP ''ResetOp'' (UACPI_EXT_OP 0x26) []
      [pop UACPI_PARSE_OP_SUPERNAME,
       pop UACPI_PARSE_OP_INVOKE_HANDLER],
     UACPI_OP ''ReleaseOp'' (UACPI_EXT_OP 0x27) []
      [pop UACPI_PARSE_OP_SUPERNAME,
       pop UACPI_PARSE_OP_INVOKE_HANDLER],
     UACPI_BUILD_TO_FROM_BCD ''From'' 0x28,
     UACPI_BUILD_TO_FROM_BCD ''To'' 0x29]"

definition ext_opcodes_1 :: "uacpi_op_spec list" where
  "ext_opcodes_1 =
    [UACPI_OP ''UnloadOp'' (UACPI_EXT_OP 0x2A) []
      [pop UACPI_PARSE_OP_SUPERNAME,
       pop UACPI_PARSE_OP_INVOKE_HANDLER],
     UACPI_OP ''RevisionOp'' (UACPI_EXT_OP 0x30) [UACPI_OP_PROPERTY_TERM_ARG]
      [pop UACPI_PARSE_OP_LOAD_INLINE_IMM_AS_OBJECT, 0x01, 0x00, 0x00, 0x00, 0x00, 0x00, 0x00, 0x00,
       pop UACPI_PARSE_OP_OBJECT_TRANSFER_TO_PREV],
     UACPI_OP ''DebugOp'' (UACPI_EXT_OP 0x31) [UACPI_OP_PROPERTY_TERM_ARG, UACPI_OP_PROPERTY_SUPERNAME, UACPI_OP_PROPERTY_TARGET]
      [pop UACPI_PARSE_OP_OBJECT_ALLOC_TYPED, UACPI_OBJECT_DEBUG,
       pop UACPI_PARSE_OP_OBJECT_TRANSFER_TO_PREV],
     UACPI_OP ''FatalOp'' (UACPI_EXT_OP 0x32) []
      [pop UACPI_PARSE_OP_LOAD_IMM, 1,
       pop UACPI_PARSE_OP_LOAD_IMM, 4,
       pop UACPI_PARSE_OP_OPERAND,
       pop UACPI_PARSE_OP_INVOKE_HANDLER],
     UACPI_OP ''TimerOp'' (UACPI_EXT_OP 0x33) [UACPI_OP_PROPERTY_TERM_ARG]
      [pop UACPI_PARSE_OP_OBJECT_ALLOC_TYPED, UACPI_OBJECT_INTEGER,
       pop UACPI_PARSE_OP_INVOKE_HANDLER,
       pop UACPI_PARSE_OP_OBJECT_TRANSFER_TO_PREV],
     UACPI_OP ''OpRegionOp'' (UACPI_EXT_OP 0x80) []
      [pop UACPI_PARSE_OP_CREATE_NAMESTRING_OR_NULL_IF_LOAD,
       pop UACPI_PARSE_OP_LOAD_IMM, 1,
       pop UACPI_PARSE_OP_OPERAND,
       pop UACPI_PARSE_OP_OPERAND,
       pop UACPI_PARSE_OP_SKIP_WITH_WARN_IF_NULL, 0,
       pop UACPI_PARSE_OP_OBJECT_ALLOC_TYPED, UACPI_OBJECT_OPERATION_REGION,
       pop UACPI_PARSE_OP_INVOKE_HANDLER,
       pop UACPI_PARSE_OP_INSTALL_NAMESPACE_NODE, 0],
     UACPI_OUT_OF_LINE_OP ''FieldOp'' (UACPI_EXT_OP 0x81) uacpi_field_op_decode_ops [UACPI_OP_PROPERTY_OUT_OF_LINE],
     UACPI_BUILD_NAMED_SCOPE_OBJECT_OP ''Device'' 0x82 UACPI_OBJECT_DEVICE [],
     UACPI_BUILD_NAMED_SCOPE_OBJECT_OP ''Processor'' 0x83 UACPI_OBJECT_PROCESSOR [pop UACPI_PARSE_OP_LOAD_IMM, 1,
      pop UACPI_PARSE_OP_LOAD_IMM, 4,
      pop UACPI_PARSE_OP_LOAD_IMM, 1],
     UACPI_BUILD_NAMED_SCOPE_OBJECT_OP ''PowerRes'' 0x84 UACPI_OBJECT_POWER_RESOURCE [pop UACPI_PARSE_OP_LOAD_IMM, 1,
      pop UACPI_PARSE_OP_LOAD_IMM, 2],
     UACPI_BUILD_NAMED_SCOPE_OBJECT_OP ''ThermalZone'' 0x85 UACPI_OBJECT_THERMAL_ZONE [],
     UACPI_OUT_OF_LINE_OP ''IndexFieldOp'' (UACPI_EXT_OP 0x86) uacpi_index_field_op_decode_ops [UACPI_OP_PROPERTY_OUT_OF_LINE],
     UACPI_OUT_OF_LINE_OP ''BankFieldOp'' (UACPI_EXT_OP 0x87) uacpi_bank_field_op_decode_ops [UACPI_OP_PROPERTY_OUT_OF_LINE],
     UACPI_OP ''DataRegionOp'' (UACPI_EXT_OP 0x88) []
      [pop UACPI_PARSE_OP_CREATE_NAMESTRING_OR_NULL_IF_LOAD,
       pop UACPI_PARSE_OP_STRING,
       pop UACPI_PARSE_OP_STRING,
       pop UACPI_PARSE_OP_STRING,
       pop UACPI_PARSE_OP_SKIP_WITH_WARN_IF_NULL, 0,
       pop UACPI_PARSE_OP_OBJECT_ALLOC_TYPED, UACPI_OBJECT_OPERATION_REGION,
       pop UACPI_PARSE_OP_INVOKE_HANDLER,
       pop UACPI_PARSE_OP_INSTALL_NAMESPACE_NODE, 0]]"

definition ext_opcode_table :: "uacpi_op_spec list" where
  "ext_opcode_table = ext_opcodes_0 @ ext_opcodes_1"

text \<open>\<open>enum uacpi_aml_op\<close>, without the invalid opcodes.\<close>

definition UACPI_AML_OP_ZeroOp :: nat where "UACPI_AML_OP_ZeroOp = 0x00"
definition UACPI_AML_OP_OneOp :: nat where "UACPI_AML_OP_OneOp = 0x01"
definition UACPI_AML_OP_AliasOp :: nat where "UACPI_AML_OP_AliasOp = 0x06"
definition UACPI_AML_OP_NameOp :: nat where "UACPI_AML_OP_NameOp = 0x08"
definition UACPI_AML_OP_BytePrefix :: nat where "UACPI_AML_OP_BytePrefix = 0x0A"
definition UACPI_AML_OP_WordPrefix :: nat where "UACPI_AML_OP_WordPrefix = 0x0B"
definition UACPI_AML_OP_DWordPrefix :: nat where "UACPI_AML_OP_DWordPrefix = 0x0C"
definition UACPI_AML_OP_StringPrefix :: nat where "UACPI_AML_OP_StringPrefix = 0x0D"
definition UACPI_AML_OP_QWordPrefix :: nat where "UACPI_AML_OP_QWordPrefix = 0x0E"
definition UACPI_AML_OP_ScopeOp :: nat where "UACPI_AML_OP_ScopeOp = 0x10"
definition UACPI_AML_OP_BufferOp :: nat where "UACPI_AML_OP_BufferOp = 0x11"
definition UACPI_AML_OP_PackageOp :: nat where "UACPI_AML_OP_PackageOp = 0x12"
definition UACPI_AML_OP_VarPackageOp :: nat where "UACPI_AML_OP_VarPackageOp = 0x13"
definition UACPI_AML_OP_MethodOp :: nat where "UACPI_AML_OP_MethodOp = 0x14"
definition UACPI_AML_OP_ExternalOp :: nat where "UACPI_AML_OP_ExternalOp = 0x15"
definition UACPI_AML_OP_UnresolvedNameString_DualNamePrefix :: nat where "UACPI_AML_OP_UnresolvedNameString_DualNamePrefix = 0x2E"
definition UACPI_AML_OP_UnresolvedNameString_MultiNamePrefix :: nat where "UACPI_AML_OP_UnresolvedNameString_MultiNamePrefix = 0x2F"
definition UACPI_AML_OP_UnresolvedNameString_A :: nat where "UACPI_AML_OP_UnresolvedNameString_A = 0x41"
definition UACPI_AML_OP_UnresolvedNameString_B :: nat where "UACPI_AML_OP_UnresolvedNameString_B = 0x42"
definition UACPI_AML_OP_UnresolvedNameString_C :: nat where "UACPI_AML_OP_UnresolvedNameString_C = 0x43"
definition UACPI_AML_OP_UnresolvedNameString_D :: nat where "UACPI_AML_OP_UnresolvedNameString_D = 0x44"
definition UACPI_AML_OP_UnresolvedNameString_E :: nat where "UACPI_AML_OP_UnresolvedNameString_E = 0x45"
definition UACPI_AML_OP_UnresolvedNameString_F :: nat where "UACPI_AML_OP_UnresolvedNameString_F = 0x46"
definition UACPI_AML_OP_UnresolvedNameString_G :: nat where "UACPI_AML_OP_UnresolvedNameString_G = 0x47"
definition UACPI_AML_OP_UnresolvedNameString_H :: nat where "UACPI_AML_OP_UnresolvedNameString_H = 0x48"
definition UACPI_AML_OP_UnresolvedNameString_I :: nat where "UACPI_AML_OP_UnresolvedNameString_I = 0x49"
definition UACPI_AML_OP_UnresolvedNameString_J :: nat where "UACPI_AML_OP_UnresolvedNameString_J = 0x4A"
definition UACPI_AML_OP_UnresolvedNameString_K :: nat where "UACPI_AML_OP_UnresolvedNameString_K = 0x4B"
definition UACPI_AML_OP_UnresolvedNameString_L :: nat where "UACPI_AML_OP_UnresolvedNameString_L = 0x4C"
definition UACPI_AML_OP_UnresolvedNameString_M :: nat where "UACPI_AML_OP_UnresolvedNameString_M = 0x4D"
definition UACPI_AML_OP_UnresolvedNameString_N :: nat where "UACPI_AML_OP_UnresolvedNameString_N = 0x4E"
definition UACPI_AML_OP_UnresolvedNameString_O :: nat where "UACPI_AML_OP_UnresolvedNameString_O = 0x4F"
definition UACPI_AML_OP_UnresolvedNameString_P :: nat where "UACPI_AML_OP_UnresolvedNameString_P = 0x50"
definition UACPI_AML_OP_UnresolvedNameString_Q :: nat where "UACPI_AML_OP_UnresolvedNameString_Q = 0x51"
definition UACPI_AML_OP_UnresolvedNameString_R :: nat where "UACPI_AML_OP_UnresolvedNameString_R = 0x52"
definition UACPI_AML_OP_UnresolvedNameString_S :: nat where "UACPI_AML_OP_UnresolvedNameString_S = 0x53"
definition UACPI_AML_OP_UnresolvedNameString_T :: nat where "UACPI_AML_OP_UnresolvedNameString_T = 0x54"
definition UACPI_AML_OP_UnresolvedNameString_U :: nat where "UACPI_AML_OP_UnresolvedNameString_U = 0x55"
definition UACPI_AML_OP_UnresolvedNameString_V :: nat where "UACPI_AML_OP_UnresolvedNameString_V = 0x56"
definition UACPI_AML_OP_UnresolvedNameString_W :: nat where "UACPI_AML_OP_UnresolvedNameString_W = 0x57"
definition UACPI_AML_OP_UnresolvedNameString_X :: nat where "UACPI_AML_OP_UnresolvedNameString_X = 0x58"
definition UACPI_AML_OP_UnresolvedNameString_Y :: nat where "UACPI_AML_OP_UnresolvedNameString_Y = 0x59"
definition UACPI_AML_OP_UnresolvedNameString_Z :: nat where "UACPI_AML_OP_UnresolvedNameString_Z = 0x5A"
definition UACPI_AML_OP_UnresolvedNameString_RootChar :: nat where "UACPI_AML_OP_UnresolvedNameString_RootChar = 0x5C"
definition UACPI_AML_OP_UnresolvedNameString_ParentPrefixChar :: nat where "UACPI_AML_OP_UnresolvedNameString_ParentPrefixChar = 0x5E"
definition UACPI_AML_OP_UnresolvedNameString_Underscore :: nat where "UACPI_AML_OP_UnresolvedNameString_Underscore = 0x5F"
definition UACPI_AML_OP_Local0Op :: nat where "UACPI_AML_OP_Local0Op = 0x60"
definition UACPI_AML_OP_Local1Op :: nat where "UACPI_AML_OP_Local1Op = 0x61"
definition UACPI_AML_OP_Local2Op :: nat where "UACPI_AML_OP_Local2Op = 0x62"
definition UACPI_AML_OP_Local3Op :: nat where "UACPI_AML_OP_Local3Op = 0x63"
definition UACPI_AML_OP_Local4Op :: nat where "UACPI_AML_OP_Local4Op = 0x64"
definition UACPI_AML_OP_Local5Op :: nat where "UACPI_AML_OP_Local5Op = 0x65"
definition UACPI_AML_OP_Local6Op :: nat where "UACPI_AML_OP_Local6Op = 0x66"
definition UACPI_AML_OP_Local7Op :: nat where "UACPI_AML_OP_Local7Op = 0x67"
definition UACPI_AML_OP_Arg0Op :: nat where "UACPI_AML_OP_Arg0Op = 0x68"
definition UACPI_AML_OP_Arg1Op :: nat where "UACPI_AML_OP_Arg1Op = 0x69"
definition UACPI_AML_OP_Arg2Op :: nat where "UACPI_AML_OP_Arg2Op = 0x6A"
definition UACPI_AML_OP_Arg3Op :: nat where "UACPI_AML_OP_Arg3Op = 0x6B"
definition UACPI_AML_OP_Arg4Op :: nat where "UACPI_AML_OP_Arg4Op = 0x6C"
definition UACPI_AML_OP_Arg5Op :: nat where "UACPI_AML_OP_Arg5Op = 0x6D"
definition UACPI_AML_OP_Arg6Op :: nat where "UACPI_AML_OP_Arg6Op = 0x6E"
definition UACPI_AML_OP_StoreOp :: nat where "UACPI_AML_OP_StoreOp = 0x70"
definition UACPI_AML_OP_RefOfOp :: nat where "UACPI_AML_OP_RefOfOp = 0x71"
definition UACPI_AML_OP_AddOp :: nat where "UACPI_AML_OP_AddOp = 0x72"
definition UACPI_AML_OP_ConcatOp :: nat where "UACPI_AML_OP_ConcatOp = 0x73"
definition UACPI_AML_OP_SubtractOp :: nat where "UACPI_AML_OP_SubtractOp = 0x74"
definition UACPI_AML_OP_IncrementOp :: nat where "UACPI_AML_OP_IncrementOp = 0x75"
definition UACPI_AML_OP_DecrementOp :: nat where "UACPI_AML_OP_DecrementOp = 0x76"
definition UACPI_AML_OP_MultiplyOp :: nat where "UACPI_AML_OP_MultiplyOp = 0x77"
definition UACPI_AML_OP_DivideOp :: nat where "UACPI_AML_OP_DivideOp = 0x78"
definition UACPI_AML_OP_ShiftLeftOp :: nat where "UACPI_AML_OP_ShiftLeftOp = 0x79"
definition UACPI_AML_OP_ShiftRightOp :: nat where "UACPI_AML_OP_ShiftRightOp = 0x7A"
definition UACPI_AML_OP_AndOp :: nat where "UACPI_AML_OP_AndOp = 0x7B"
definition UACPI_AML_OP_NandOp :: nat where "UACPI_AML_OP_NandOp = 0x7C"
definition UACPI_AML_OP_OrOp :: nat where "UACPI_AML_OP_OrOp = 0x7D"
definition UACPI_AML_OP_NorOp :: nat where "UACPI_AML_OP_NorOp = 0x7E"
definition UACPI_AML_OP_XorOp :: nat where "UACPI_AML_OP_XorOp = 0x7F"
definition UACPI_AML_OP_NotOp :: nat where "UACPI_AML_OP_NotOp = 0x80"
definition UACPI_AML_OP_FindSetLeftBitOp :: nat where "UACPI_AML_OP_FindSetLeftBitOp = 0x81"
definition UACPI_AML_OP_FindSetRightBitOp :: nat where "UACPI_AML_OP_FindSetRightBitOp = 0x82"
definition UACPI_AML_OP_DerefOfOp :: nat where "UACPI_AML_OP_DerefOfOp = 0x83"
definition UACPI_AML_OP_ConcatResOp :: nat where "UACPI_AML_OP_ConcatResOp = 0x84"
definition UACPI_AML_OP_ModOp :: nat where "UACPI_AML_OP_ModOp = 0x85"
definition UACPI_AML_OP_NotifyOp :: nat where "UACPI_AML_OP_NotifyOp = 0x86"
definition UACPI_AML_OP_SizeOfOp :: nat where "UACPI_AML_OP_SizeOfOp = 0x87"
definition UACPI_AML_OP_IndexOp :: nat where "UACPI_AML_OP_IndexOp = 0x88"
definition UACPI_AML_OP_MatchOp :: nat where "UACPI_AML_OP_MatchOp = 0x89"
definition UACPI_AML_OP_CreateDWordFieldOp :: nat where "UACPI_AML_OP_CreateDWordFieldOp = 0x8A"
definition UACPI_AML_OP_CreateWordFieldOp :: nat where "UACPI_AML_OP_CreateWordFieldOp = 0x8B"
definition UACPI_AML_OP_CreateByteFieldOp :: nat where "UACPI_AML_OP_CreateByteFieldOp = 0x8C"
definition UACPI_AML_OP_CreateBitFieldOp :: nat where "UACPI_AML_OP_CreateBitFieldOp = 0x8D"
definition UACPI_AML_OP_ObjectTypeOp :: nat where "UACPI_AML_OP_ObjectTypeOp = 0x8E"
definition UACPI_AML_OP_CreateQWordFieldOp :: nat where "UACPI_AML_OP_CreateQWordFieldOp = 0x8F"
definition UACPI_AML_OP_LandOp :: nat where "UACPI_AML_OP_LandOp = 0x90"
definition UACPI_AML_OP_LorOp :: nat where "UACPI_AML_OP_LorOp = 0x91"
definition UACPI_AML_OP_LnotOp :: nat where "UACPI_AML_OP_LnotOp = 0x92"
definition UACPI_AML_OP_LEqualOp :: nat where "UACPI_AML_OP_LEqualOp = 0x93"
definition UACPI_AML_OP_LGreaterOp :: nat where "UACPI_AML_OP_LGreaterOp = 0x94"
definition UACPI_AML_OP_LLessOp :: nat where "UACPI_AML_OP_LLessOp = 0x95"
definition UACPI_AML_OP_ToBufferOp :: nat where "UACPI_AML_OP_ToBufferOp = 0x96"
definition UACPI_AML_OP_ToDecimalStringOp :: nat where "UACPI_AML_OP_ToDecimalStringOp = 0x97"
definition UACPI_AML_OP_ToHexStringOp :: nat where "UACPI_AML_OP_ToHexStringOp = 0x98"
definition UACPI_AML_OP_ToIntegerOp :: nat where "UACPI_AML_OP_ToIntegerOp = 0x99"
definition UACPI_AML_OP_ToStringOp :: nat where "UACPI_AML_OP_ToStringOp = 0x9C"
definition UACPI_AML_OP_CopyObjectOp :: nat where "UACPI_AML_OP_CopyObjectOp = 0x9D"
definition UACPI_AML_OP_MidOp :: nat where "UACPI_AML_OP_MidOp = 0x9E"
definition UACPI_AML_OP_ContinueOp :: nat where "UACPI_AML_OP_ContinueOp = 0x9F"
definition UACPI_AML_OP_IfOp :: nat where "UACPI_AML_OP_IfOp = 0xA0"
definition UACPI_AML_OP_ElseOp :: nat where "UACPI_AML_OP_ElseOp = 0xA1"
definition UACPI_AML_OP_WhileOp :: nat where "UACPI_AML_OP_WhileOp = 0xA2"
definition UACPI_AML_OP_NoopOp :: nat where "UACPI_AML_OP_NoopOp = 0xA3"
definition UACPI_AML_OP_ReturnOp :: nat where "UACPI_AML_OP_ReturnOp = 0xA4"
definition UACPI_AML_OP_BreakOp :: nat where "UACPI_AML_OP_BreakOp = 0xA5"
definition UACPI_AML_OP_BreakPointOp :: nat where "UACPI_AML_OP_BreakPointOp = 0xCC"
definition UACPI_AML_OP_InternalOpReadFieldAsBuffer :: nat where "UACPI_AML_OP_InternalOpReadFieldAsBuffer = 0xF4"
definition UACPI_AML_OP_InternalOpReadFieldAsInteger :: nat where "UACPI_AML_OP_InternalOpReadFieldAsInteger = 0xF5"
definition UACPI_AML_OP_InternalOpNamedObject :: nat where "UACPI_AML_OP_InternalOpNamedObject = 0xF6"
definition UACPI_AML_OP_InternalOpMethodCall0Args :: nat where "UACPI_AML_OP_InternalOpMethodCall0Args = 0xF7"
definition UACPI_AML_OP_InternalOpMethodCall1Args :: nat where "UACPI_AML_OP_InternalOpMethodCall1Args = 0xF8"
definition UACPI_AML_OP_InternalOpMethodCall2Args :: nat where "UACPI_AML_OP_InternalOpMethodCall2Args = 0xF9"
definition UACPI_AML_OP_InternalOpMethodCall3Args :: nat where "UACPI_AML_OP_InternalOpMethodCall3Args = 0xFA"
definition UACPI_AML_OP_InternalOpMethodCall4Args :: nat where "UACPI_AML_OP_InternalOpMethodCall4Args = 0xFB"
definition UACPI_AML_OP_InternalOpMethodCall5Args :: nat where "UACPI_AML_OP_InternalOpMethodCall5Args = 0xFC"
definition UACPI_AML_OP_InternalOpMethodCall6Args :: nat where "UACPI_AML_OP_InternalOpMethodCall6Args = 0xFD"
definition UACPI_AML_OP_InternalOpMethodCall7Args :: nat where "UACPI_AML_OP_InternalOpMethodCall7Args = 0xFE"
definition UACPI_AML_OP_OnesOp :: nat where "UACPI_AML_OP_OnesOp = 0xFF"
definition UACPI_AML_OP_InvalidExtOp :: nat where "UACPI_AML_OP_InvalidExtOp = 0"
definition UACPI_AML_OP_MutexOp :: nat where "UACPI_AML_OP_MutexOp = UACPI_EXT_OP 0x01"
definition UACPI_AML_OP_EventOp :: nat where "UACPI_AML_OP_EventOp = UACPI_EXT_OP 0x02"
definition UACPI_AML_OP_CondRefOfOp :: nat where "UACPI_AML_OP_CondRefOfOp = UACPI_EXT_OP 0x12"
definition UACPI_AML_OP_CreateFieldOp :: nat where "UACPI_AML_OP_CreateFieldOp = UACPI_EXT_OP 0x13"
definition UACPI_AML_OP_LoadTableOp :: nat where "UACPI_AML_OP_LoadTableOp = UACPI_EXT_OP 0x1F"
definition UACPI_AML_OP_LoadOp :: nat where "UACPI_AML_OP_LoadOp = UACPI_EXT_OP 0x20"
definition UACPI_AML_OP_StallOp :: nat where "UACPI_AML_OP_StallOp = UACPI_EXT_OP 0x21"
definition UACPI_AML_OP_SleepOp :: nat where "UACPI_AML_OP_SleepOp = UACPI_EXT_OP 0x22"
definition UACPI_AML_OP_AcquireOp :: nat where "UACPI_AML_OP_AcquireOp = UACPI_EXT_OP 0x23"
definition UACPI_AML_OP_SignalOp :: nat where "UACPI_AML_OP_SignalOp = UACPI_EXT_OP 0x24"
definition UACPI_AML_OP_WaitOp :: nat where "UACPI_AML_OP_WaitOp = UACPI_EXT_OP 0x25"
definition UACPI_AML_OP_ResetOp :: nat where "UACPI_AML_OP_ResetOp = UACPI_EXT_OP 0x26"
definition UACPI_AML_OP_ReleaseOp :: nat where "UACPI_AML_OP_ReleaseOp = UACPI_EXT_OP 0x27"
definition UACPI_AML_OP_FromBCDOp :: nat where "UACPI_AML_OP_FromBCDOp = UACPI_EXT_OP 0x28"
definition UACPI_AML_OP_ToBCDOp :: nat where "UACPI_AML_OP_ToBCDOp = UACPI_EXT_OP 0x29"
definition UACPI_AML_OP_UnloadOp :: nat where "UACPI_AML_OP_UnloadOp = UACPI_EXT_OP 0x2A"
definition UACPI_AML_OP_RevisionOp :: nat where "UACPI_AML_OP_RevisionOp = UACPI_EXT_OP 0x30"
definition UACPI_AML_OP_DebugOp :: nat where "UACPI_AML_OP_DebugOp = UACPI_EXT_OP 0x31"
definition UACPI_AML_OP_FatalOp :: nat where "UACPI_AML_OP_FatalOp = UACPI_EXT_OP 0x32"
definition UACPI_AML_OP_TimerOp :: nat where "UACPI_AML_OP_TimerOp = UACPI_EXT_OP 0x33"
definition UACPI_AML_OP_OpRegionOp :: nat where "UACPI_AML_OP_OpRegionOp = UACPI_EXT_OP 0x80"
definition UACPI_AML_OP_FieldOp :: nat where "UACPI_AML_OP_FieldOp = UACPI_EXT_OP 0x81"
definition UACPI_AML_OP_DeviceOp :: nat where "UACPI_AML_OP_DeviceOp = UACPI_EXT_OP 0x82"
definition UACPI_AML_OP_ProcessorOp :: nat where "UACPI_AML_OP_ProcessorOp = UACPI_EXT_OP 0x83"
definition UACPI_AML_OP_PowerResOp :: nat where "UACPI_AML_OP_PowerResOp = UACPI_EXT_OP 0x84"
definition UACPI_AML_OP_ThermalZoneOp :: nat where "UACPI_AML_OP_ThermalZoneOp = UACPI_EXT_OP 0x85"
definition UACPI_AML_OP_IndexFieldOp :: nat where "UACPI_AML_OP_IndexFieldOp = UACPI_EXT_OP 0x86"
definition UACPI_AML_OP_BankFieldOp :: nat where "UACPI_AML_OP_BankFieldOp = UACPI_EXT_OP 0x87"
definition UACPI_AML_OP_DataRegionOp :: nat where "UACPI_AML_OP_DataRegionOp = UACPI_EXT_OP 0x88"

lemmas aml_ops =
  UACPI_AML_OP_ZeroOp_def
  UACPI_AML_OP_OneOp_def
  UACPI_AML_OP_AliasOp_def
  UACPI_AML_OP_NameOp_def
  UACPI_AML_OP_BytePrefix_def
  UACPI_AML_OP_WordPrefix_def
  UACPI_AML_OP_DWordPrefix_def
  UACPI_AML_OP_StringPrefix_def
  UACPI_AML_OP_QWordPrefix_def
  UACPI_AML_OP_ScopeOp_def
  UACPI_AML_OP_BufferOp_def
  UACPI_AML_OP_PackageOp_def
  UACPI_AML_OP_VarPackageOp_def
  UACPI_AML_OP_MethodOp_def
  UACPI_AML_OP_ExternalOp_def
  UACPI_AML_OP_UnresolvedNameString_DualNamePrefix_def
  UACPI_AML_OP_UnresolvedNameString_MultiNamePrefix_def
  UACPI_AML_OP_UnresolvedNameString_A_def
  UACPI_AML_OP_UnresolvedNameString_B_def
  UACPI_AML_OP_UnresolvedNameString_C_def
  UACPI_AML_OP_UnresolvedNameString_D_def
  UACPI_AML_OP_UnresolvedNameString_E_def
  UACPI_AML_OP_UnresolvedNameString_F_def
  UACPI_AML_OP_UnresolvedNameString_G_def
  UACPI_AML_OP_UnresolvedNameString_H_def
  UACPI_AML_OP_UnresolvedNameString_I_def
  UACPI_AML_OP_UnresolvedNameString_J_def
  UACPI_AML_OP_UnresolvedNameString_K_def
  UACPI_AML_OP_UnresolvedNameString_L_def
  UACPI_AML_OP_UnresolvedNameString_M_def
  UACPI_AML_OP_UnresolvedNameString_N_def
  UACPI_AML_OP_UnresolvedNameString_O_def
  UACPI_AML_OP_UnresolvedNameString_P_def
  UACPI_AML_OP_UnresolvedNameString_Q_def
  UACPI_AML_OP_UnresolvedNameString_R_def
  UACPI_AML_OP_UnresolvedNameString_S_def
  UACPI_AML_OP_UnresolvedNameString_T_def
  UACPI_AML_OP_UnresolvedNameString_U_def
  UACPI_AML_OP_UnresolvedNameString_V_def
  UACPI_AML_OP_UnresolvedNameString_W_def
  UACPI_AML_OP_UnresolvedNameString_X_def
  UACPI_AML_OP_UnresolvedNameString_Y_def
  UACPI_AML_OP_UnresolvedNameString_Z_def
  UACPI_AML_OP_UnresolvedNameString_RootChar_def
  UACPI_AML_OP_UnresolvedNameString_ParentPrefixChar_def
  UACPI_AML_OP_UnresolvedNameString_Underscore_def
  UACPI_AML_OP_Local0Op_def
  UACPI_AML_OP_Local1Op_def
  UACPI_AML_OP_Local2Op_def
  UACPI_AML_OP_Local3Op_def
  UACPI_AML_OP_Local4Op_def
  UACPI_AML_OP_Local5Op_def
  UACPI_AML_OP_Local6Op_def
  UACPI_AML_OP_Local7Op_def
  UACPI_AML_OP_Arg0Op_def
  UACPI_AML_OP_Arg1Op_def
  UACPI_AML_OP_Arg2Op_def
  UACPI_AML_OP_Arg3Op_def
  UACPI_AML_OP_Arg4Op_def
  UACPI_AML_OP_Arg5Op_def
  UACPI_AML_OP_Arg6Op_def
  UACPI_AML_OP_StoreOp_def
  UACPI_AML_OP_RefOfOp_def
  UACPI_AML_OP_AddOp_def
  UACPI_AML_OP_ConcatOp_def
  UACPI_AML_OP_SubtractOp_def
  UACPI_AML_OP_IncrementOp_def
  UACPI_AML_OP_DecrementOp_def
  UACPI_AML_OP_MultiplyOp_def
  UACPI_AML_OP_DivideOp_def
  UACPI_AML_OP_ShiftLeftOp_def
  UACPI_AML_OP_ShiftRightOp_def
  UACPI_AML_OP_AndOp_def
  UACPI_AML_OP_NandOp_def
  UACPI_AML_OP_OrOp_def
  UACPI_AML_OP_NorOp_def
  UACPI_AML_OP_XorOp_def
  UACPI_AML_OP_NotOp_def
  UACPI_AML_OP_FindSetLeftBitOp_def
  UACPI_AML_OP_FindSetRightBitOp_def
  UACPI_AML_OP_DerefOfOp_def
  UACPI_AML_OP_ConcatResOp_def
  UACPI_AML_OP_ModOp_def
  UACPI_AML_OP_NotifyOp_def
  UACPI_AML_OP_SizeOfOp_def
  UACPI_AML_OP_IndexOp_def
  UACPI_AML_OP_MatchOp_def
  UACPI_AML_OP_CreateDWordFieldOp_def
  UACPI_AML_OP_CreateWordFieldOp_def
  UACPI_AML_OP_CreateByteFieldOp_def
  UACPI_AML_OP_CreateBitFieldOp_def
  UACPI_AML_OP_ObjectTypeOp_def
  UACPI_AML_OP_CreateQWordFieldOp_def
  UACPI_AML_OP_LandOp_def
  UACPI_AML_OP_LorOp_def
  UACPI_AML_OP_LnotOp_def
  UACPI_AML_OP_LEqualOp_def
  UACPI_AML_OP_LGreaterOp_def
  UACPI_AML_OP_LLessOp_def
  UACPI_AML_OP_ToBufferOp_def
  UACPI_AML_OP_ToDecimalStringOp_def
  UACPI_AML_OP_ToHexStringOp_def
  UACPI_AML_OP_ToIntegerOp_def
  UACPI_AML_OP_ToStringOp_def
  UACPI_AML_OP_CopyObjectOp_def
  UACPI_AML_OP_MidOp_def
  UACPI_AML_OP_ContinueOp_def
  UACPI_AML_OP_IfOp_def
  UACPI_AML_OP_ElseOp_def
  UACPI_AML_OP_WhileOp_def
  UACPI_AML_OP_NoopOp_def
  UACPI_AML_OP_ReturnOp_def
  UACPI_AML_OP_BreakOp_def
  UACPI_AML_OP_BreakPointOp_def
  UACPI_AML_OP_InternalOpReadFieldAsBuffer_def
  UACPI_AML_OP_InternalOpReadFieldAsInteger_def
  UACPI_AML_OP_InternalOpNamedObject_def
  UACPI_AML_OP_InternalOpMethodCall0Args_def
  UACPI_AML_OP_InternalOpMethodCall1Args_def
  UACPI_AML_OP_InternalOpMethodCall2Args_def
  UACPI_AML_OP_InternalOpMethodCall3Args_def
  UACPI_AML_OP_InternalOpMethodCall4Args_def
  UACPI_AML_OP_InternalOpMethodCall5Args_def
  UACPI_AML_OP_InternalOpMethodCall6Args_def
  UACPI_AML_OP_InternalOpMethodCall7Args_def
  UACPI_AML_OP_OnesOp_def
  UACPI_AML_OP_InvalidExtOp_def
  UACPI_AML_OP_MutexOp_def
  UACPI_AML_OP_EventOp_def
  UACPI_AML_OP_CondRefOfOp_def
  UACPI_AML_OP_CreateFieldOp_def
  UACPI_AML_OP_LoadTableOp_def
  UACPI_AML_OP_LoadOp_def
  UACPI_AML_OP_StallOp_def
  UACPI_AML_OP_SleepOp_def
  UACPI_AML_OP_AcquireOp_def
  UACPI_AML_OP_SignalOp_def
  UACPI_AML_OP_WaitOp_def
  UACPI_AML_OP_ResetOp_def
  UACPI_AML_OP_ReleaseOp_def
  UACPI_AML_OP_FromBCDOp_def
  UACPI_AML_OP_ToBCDOp_def
  UACPI_AML_OP_UnloadOp_def
  UACPI_AML_OP_RevisionOp_def
  UACPI_AML_OP_DebugOp_def
  UACPI_AML_OP_FatalOp_def
  UACPI_AML_OP_TimerOp_def
  UACPI_AML_OP_OpRegionOp_def
  UACPI_AML_OP_FieldOp_def
  UACPI_AML_OP_DeviceOp_def
  UACPI_AML_OP_ProcessorOp_def
  UACPI_AML_OP_PowerResOp_def
  UACPI_AML_OP_ThermalZoneOp_def
  UACPI_AML_OP_IndexFieldOp_def
  UACPI_AML_OP_BankFieldOp_def
  UACPI_AML_OP_DataRegionOp_def

section \<open>opcodes.c\<close>

text \<open>A table given by designated initializers: the last one for an index counts, an index without one holds 0.\<close>

definition designated :: "(nat \<times> nat) list \<Rightarrow> nat \<Rightarrow> nat" where
  "designated inits i = (case map_of (rev inits) i of Some v \<Rightarrow> v | None \<Rightarrow> 0)"

definition ext_op_entries :: "(nat \<times> nat) list" where
  "ext_op_entries =
    [(UACPI_AML_OP_MutexOp mod 256, 1),
     (UACPI_AML_OP_EventOp mod 256, 2),
     (UACPI_AML_OP_CondRefOfOp mod 256, 3),
     (UACPI_AML_OP_CreateFieldOp mod 256, 4),
     (UACPI_AML_OP_LoadTableOp mod 256, 5),
     (UACPI_AML_OP_LoadOp mod 256, 6),
     (UACPI_AML_OP_StallOp mod 256, 7),
     (UACPI_AML_OP_SleepOp mod 256, 8),
     (UACPI_AML_OP_AcquireOp mod 256, 9),
     (UACPI_AML_OP_SignalOp mod 256, 10),
     (UACPI_AML_OP_WaitOp mod 256, 11),
     (UACPI_AML_OP_ResetOp mod 256, 12),
     (UACPI_AML_OP_ReleaseOp mod 256, 13),
     (UACPI_AML_OP_FromBCDOp mod 256, 14),
     (UACPI_AML_OP_ToBCDOp mod 256, 15),
     (UACPI_AML_OP_UnloadOp mod 256, 16),
     (UACPI_AML_OP_RevisionOp mod 256, 17),
     (UACPI_AML_OP_DebugOp mod 256, 18),
     (UACPI_AML_OP_FatalOp mod 256, 19),
     (UACPI_AML_OP_TimerOp mod 256, 20),
     (UACPI_AML_OP_OpRegionOp mod 256, 21),
     (UACPI_AML_OP_FieldOp mod 256, 22),
     (UACPI_AML_OP_DeviceOp mod 256, 23),
     (UACPI_AML_OP_ProcessorOp mod 256, 24),
     (UACPI_AML_OP_PowerResOp mod 256, 25),
     (UACPI_AML_OP_ThermalZoneOp mod 256, 26),
     (UACPI_AML_OP_IndexFieldOp mod 256, 27),
     (UACPI_AML_OP_BankFieldOp mod 256, 28),
     (UACPI_AML_OP_DataRegionOp mod 256, 29)]"

definition ext_op_to_idx :: "nat \<Rightarrow> nat" where
  "ext_op_to_idx = designated ext_op_entries"

definition uacpi_get_op_spec :: "nat \<Rightarrow> uacpi_op_spec" where
  "uacpi_get_op_spec op = (if op > 0xFF then ext_opcode_table ! ext_op_to_idx (op mod 256) else opcode_table ! op)"

primrec pop_names :: "uacpi_parse_op \<Rightarrow> string" where
  "pop_names UACPI_PARSE_OP_END = ''<END-OF-OP>''"
| "pop_names UACPI_PARSE_OP_SKIP_WITH_WARN_IF_NULL = ''SKIP_WITH_WARN_IF_NULL''"
| "pop_names UACPI_PARSE_OP_EMIT_SKIP_WARN = ''EMIT_SKIP_WARN''"
| "pop_names UACPI_PARSE_OP_SIMPLE_NAME = ''SIMPLE_NAME''"
| "pop_names UACPI_PARSE_OP_SUPERNAME = ''SUPERNAME''"
| "pop_names UACPI_PARSE_OP_SUPERNAME_OR_UNRESOLVED = ''SUPERNAME_OR_UNRESOLVED''"
| "pop_names UACPI_PARSE_OP_TERM_ARG = ''TERM_ARG''"
| "pop_names UACPI_PARSE_OP_TERM_ARG_UNWRAP_INTERNAL = ''TERM_ARG_UNWRAP_INTERNAL''"
| "pop_names UACPI_PARSE_OP_TERM_ARG_OR_NAMED_OBJECT = ''TERM_ARG_OR_NAMED_OBJECT''"
| "pop_names UACPI_PARSE_OP_TERM_ARG_OR_NAMED_OBJECT_OR_UNRESOLVED = ''TERM_ARG_OR_NAMED_OBJECT_OR_UNRESOLVED''"
| "pop_names UACPI_PARSE_OP_OPERAND = ''OPERAND''"
| "pop_names UACPI_PARSE_OP_STRING = ''STRING''"
| "pop_names UACPI_PARSE_OP_COMPUTATIONAL_DATA = ''COMPUTATIONAL_DATA''"
| "pop_names UACPI_PARSE_OP_TARGET = ''TARGET''"
| "pop_names UACPI_PARSE_OP_PKGLEN = ''PKGLEN''"
| "pop_names UACPI_PARSE_OP_TRACKED_PKGLEN = ''TRACKED_PKGLEN''"
| "pop_names UACPI_PARSE_OP_CREATE_NAMESTRING = ''CREATE_NAMESTRING''"
| "pop_names UACPI_PARSE_OP_CREATE_NAMESTRING_OR_NULL_IF_LOAD = ''CREATE_NAMESTRING_OR_NULL_IF_LOAD''"
| "pop_names UACPI_PARSE_OP_EXISTING_NAMESTRING = ''EXISTING_NAMESTRING''"
| "pop_names UACPI_PARSE_OP_EXISTING_NAMESTRING_OR_NULL = ''EXISTING_NAMESTRING_OR_NULL''"
| "pop_names UACPI_PARSE_OP_EXISTING_NAMESTRING_OR_NULL_IF_LOAD = ''EXISTING_NAMESTRING_OR_NULL_IF_LOAD''"
| "pop_names UACPI_PARSE_OP_INVOKE_HANDLER = ''INVOKE_HANDLER''"
| "pop_names UACPI_PARSE_OP_OBJECT_ALLOC = ''OBJECT_ALLOC''"
| "pop_names UACPI_PARSE_OP_EMPTY_OBJECT_ALLOC = ''EMPTY_OBJECT_ALLOC''"
| "pop_names UACPI_PARSE_OP_OBJECT_CONVERT_TO_SHALLOW_COPY = ''OBJECT_CONVERT_TO_SHALLOW_COPY''"
| "pop_names UACPI_PARSE_OP_OBJECT_CONVERT_TO_DEEP_COPY = ''OBJECT_CONVERT_TO_DEEP_COPY''"
| "pop_names UACPI_PARSE_OP_OBJECT_ALLOC_TYPED = ''OBJECT_ALLOC_TYPED''"
| "pop_names UACPI_PARSE_OP_RECORD_AML_PC = ''RECORD_AML_PC''"
| "pop_names UACPI_PARSE_OP_LOAD_INLINE_IMM_AS_OBJECT = ''LOAD_INLINE_IMM_AS_OBJECT''"
| "pop_names UACPI_PARSE_OP_LOAD_INLINE_IMM = ''LOAD_INLINE_IMM''"
| "pop_names UACPI_PARSE_OP_LOAD_ZERO_IMM = ''LOAD_ZERO_IMM''"
| "pop_names UACPI_PARSE_OP_LOAD_IMM = ''LOAD_IMM''"
| "pop_names UACPI_PARSE_OP_LOAD_IMM_AS_OBJECT = ''LOAD_IMM_AS_OBJECT''"
| "pop_names UACPI_PARSE_OP_LOAD_FALSE_OBJECT = ''LOAD_FALSE_OBJECT''"
| "pop_names UACPI_PARSE_OP_LOAD_TRUE_OBJECT = ''LOAD_TRUE_OBJECT''"
| "pop_names UACPI_PARSE_OP_TRUNCATE_NUMBER = ''TRUNCATE_NUMBER''"
| "pop_names UACPI_PARSE_OP_TYPECHECK = ''TYPECHECK''"
| "pop_names UACPI_PARSE_OP_TYPECHECK_ONE_OF = ''TYPECHECK_ONE_OF''"
| "pop_names UACPI_PARSE_OP_INSTALL_NAMESPACE_NODE = ''INSTALL_NAMESPACE_NODE''"
| "pop_names UACPI_PARSE_OP_OBJECT_TRANSFER_TO_PREV = ''OBJECT_TRANSFER_TO_PREV''"
| "pop_names UACPI_PARSE_OP_OBJECT_COPY_TO_PREV = ''OBJECT_COPY_TO_PREV''"
| "pop_names UACPI_PARSE_OP_STORE_TO_TARGET = ''STORE_TO_TARGET''"
| "pop_names UACPI_PARSE_OP_STORE_TO_TARGET_INDIRECT = ''STORE_TO_TARGET_INDIRECT''"
| "pop_names UACPI_PARSE_OP_AML_PC_DECREMENT = ''AML_PC_DECREMENT''"
| "pop_names UACPI_PARSE_OP_IMM_DECREMENT = ''IMM_DECREMENT''"
| "pop_names UACPI_PARSE_OP_ITEM_POP = ''ITEM_POP''"
| "pop_names UACPI_PARSE_OP_DISPATCH_METHOD_CALL = ''DISPATCH_METHOD_CALL''"
| "pop_names UACPI_PARSE_OP_DISPATCH_TABLE_LOAD = ''DISPATCH_TABLE_LOAD''"
| "pop_names UACPI_PARSE_OP_CONVERT_NAMESTRING = ''CONVERT_NAMESTRING''"
| "pop_names UACPI_PARSE_OP_IF_HAS_DATA = ''IF_HAS_DATA''"
| "pop_names UACPI_PARSE_OP_IF_NULL = ''IF_NULL''"
| "pop_names UACPI_PARSE_OP_IF_LAST_NULL = ''IF_LAST_NULL''"
| "pop_names UACPI_PARSE_OP_IF_NOT_NULL = ''IF_NOT_NULL''"
| "pop_names UACPI_PARSE_OP_IF_LAST_NOT_NULL = ''IF_NOT_NULL''"
| "pop_names UACPI_PARSE_OP_IF_LAST_EQUALS = ''IF_LAST_EQUALS''"
| "pop_names UACPI_PARSE_OP_IF_LAST_FALSE = ''IF_LAST_FALSE''"
| "pop_names UACPI_PARSE_OP_IF_LAST_TRUE = ''IF_LAST_TRUE''"
| "pop_names UACPI_PARSE_OP_SWITCH_TO_NEXT_IF_EQUALS = ''SWITCH_TO_NEXT_IF_EQUALS''"
| "pop_names UACPI_PARSE_OP_IF_SWITCHED_FROM = ''IF_SWITCHED_FROM''"
| "pop_names UACPI_PARSE_OP_JMP = ''JMP''"

definition uacpi_parse_op_to_string :: "nat \<Rightarrow> string" where
  "uacpi_parse_op_to_string op =
     (if op > UACPI_PARSE_OP_MAX then ''<INVALID-OP>'' else pop_names (parse_ops ! op))"

end
