(* ===== verification/AcpiParse.thy ===== *)
theory AcpiParse
  imports AcpiOpcodes
begin

text \<open>
  The machine that runs the parse programs of \<open>AcpiOpcodes\<close>: \<open>exec_op\<close> of
  \<open>external/uacpi/source/interpreter.c\<close>.  What is modelled is the machine itself: the pending operations of a
  call frame, their program counters, their items with the type and the 64-bit contents of each, the tracked
  package, the local pointer \<open>item\<close>, and how each parse operation changes them.  What depends on the bytes of
  the AML code, on objects and on the namespace is an input of every round, the record \<open>input\<close>: whether the
  allocations and the call the operation makes succeed, the value it yields, the outcome of the test it makes.  The theorems hold
  for every input.
\<close>

section \<open>State\<close>

datatype item_type =
    ITEM_NONE
  | ITEM_NAMESPACE_NODE
  | ITEM_OBJECT
  | ITEM_EMPTY_OBJECT
  | ITEM_PACKAGE_LENGTH
  | ITEM_IMMEDIATE

text \<open>An item: its type and the 8 bytes of the union as a number; a null handle is 0.\<close>

record item =
  it_type :: item_type
  it_value :: nat

record op_context =
  pc :: nat
  preempted :: bool
  tracked_pkg_idx :: nat
  switched_from :: nat
  oc_op :: nat
  items :: "item list"

text \<open>
  The local \<open>item\<close> of \<open>exec_op\<close>: null, the item with an index of the current operation, or a pointer into an
  operation that has been popped.
\<close>

datatype item_ptr = NoItem | Item nat | Stale

text \<open>
  Accesses without a defined effect; and the two default branches for a parse operation the interpreter does
  not know (\<open>UnknownOp\<close>), which return an error.
\<close>

datatype parse_fault = PastProgram | NoSuchItem | NullItem | StaleItem | WrongItem | ItemOverrun | UnknownOp | NoContext

record input =
  allocates :: bool
  creates :: bool
  succeeds :: bool
  yields :: nat
  holds :: bool
  becomes :: nat
  item_edits :: "item list"

text \<open>A round of the loop fails, leaves \<open>exec_op\<close> or goes on; the pending operations, the last one first.\<close>

datatype round = Fault parse_fault | Fails | Leaves "op_context list" | Goes item_ptr "op_context list"

section \<open>The program\<close>

definition op_program :: "op_context \<Rightarrow> nat list" where
  "op_program oc =
     (let spec = uacpi_get_op_spec (oc_op oc) in
      if UACPI_OP_PROPERTY_OUT_OF_LINE \<in> op_props spec then indirect_decode_ops spec else decode_ops spec)"

definition op_decode_byte :: "op_context \<Rightarrow> (nat \<Rightarrow> op_context \<Rightarrow> round) \<Rightarrow> round" where
  "op_decode_byte oc k =
     (if pc oc < length (op_program oc)
      then k (op_program oc ! pc oc) (oc\<lparr>pc := (pc oc + 1) mod 256\<rparr>)
      else Fault PastProgram)"

definition op_decode_aml_op :: "op_context \<Rightarrow> (nat \<Rightarrow> op_context \<Rightarrow> round) \<Rightarrow> round" where
  "op_decode_aml_op oc k = op_decode_byte oc (\<lambda>lo oc. op_decode_byte oc (\<lambda>hi oc. k (lo + hi * 256) oc))"

definition skip :: "nat \<Rightarrow> op_context \<Rightarrow> op_context" where
  "skip n oc = oc\<lparr>pc := (pc oc + n) mod 256\<rparr>"

section \<open>Items\<close>

definition parse_op_generates_item :: "uacpi_parse_op \<Rightarrow> item_type" where
  "parse_op_generates_item p =
     (case p of
        UACPI_PARSE_OP_SIMPLE_NAME \<Rightarrow> ITEM_EMPTY_OBJECT
      | UACPI_PARSE_OP_SUPERNAME \<Rightarrow> ITEM_EMPTY_OBJECT
      | UACPI_PARSE_OP_SUPERNAME_OR_UNRESOLVED \<Rightarrow> ITEM_EMPTY_OBJECT
      | UACPI_PARSE_OP_TERM_ARG \<Rightarrow> ITEM_EMPTY_OBJECT
      | UACPI_PARSE_OP_TERM_ARG_UNWRAP_INTERNAL \<Rightarrow> ITEM_EMPTY_OBJECT
      | UACPI_PARSE_OP_TERM_ARG_OR_NAMED_OBJECT \<Rightarrow> ITEM_EMPTY_OBJECT
      | UACPI_PARSE_OP_TERM_ARG_OR_NAMED_OBJECT_OR_UNRESOLVED \<Rightarrow> ITEM_EMPTY_OBJECT
      | UACPI_PARSE_OP_OPERAND \<Rightarrow> ITEM_EMPTY_OBJECT
      | UACPI_PARSE_OP_STRING \<Rightarrow> ITEM_EMPTY_OBJECT
      | UACPI_PARSE_OP_COMPUTATIONAL_DATA \<Rightarrow> ITEM_EMPTY_OBJECT
      | UACPI_PARSE_OP_TARGET \<Rightarrow> ITEM_EMPTY_OBJECT
      | UACPI_PARSE_OP_PKGLEN \<Rightarrow> ITEM_PACKAGE_LENGTH
      | UACPI_PARSE_OP_TRACKED_PKGLEN \<Rightarrow> ITEM_PACKAGE_LENGTH
      | UACPI_PARSE_OP_CREATE_NAMESTRING \<Rightarrow> ITEM_NAMESPACE_NODE
      | UACPI_PARSE_OP_CREATE_NAMESTRING_OR_NULL_IF_LOAD \<Rightarrow> ITEM_NAMESPACE_NODE
      | UACPI_PARSE_OP_EXISTING_NAMESTRING \<Rightarrow> ITEM_NAMESPACE_NODE
      | UACPI_PARSE_OP_EXISTING_NAMESTRING_OR_NULL \<Rightarrow> ITEM_NAMESPACE_NODE
      | UACPI_PARSE_OP_EXISTING_NAMESTRING_OR_NULL_IF_LOAD \<Rightarrow> ITEM_NAMESPACE_NODE
      | UACPI_PARSE_OP_LOAD_INLINE_IMM_AS_OBJECT \<Rightarrow> ITEM_OBJECT
      | UACPI_PARSE_OP_LOAD_INLINE_IMM \<Rightarrow> ITEM_IMMEDIATE
      | UACPI_PARSE_OP_LOAD_ZERO_IMM \<Rightarrow> ITEM_IMMEDIATE
      | UACPI_PARSE_OP_LOAD_IMM \<Rightarrow> ITEM_IMMEDIATE
      | UACPI_PARSE_OP_LOAD_IMM_AS_OBJECT \<Rightarrow> ITEM_OBJECT
      | UACPI_PARSE_OP_LOAD_FALSE_OBJECT \<Rightarrow> ITEM_OBJECT
      | UACPI_PARSE_OP_LOAD_TRUE_OBJECT \<Rightarrow> ITEM_OBJECT
      | UACPI_PARSE_OP_OBJECT_ALLOC \<Rightarrow> ITEM_OBJECT
      | UACPI_PARSE_OP_OBJECT_ALLOC_TYPED \<Rightarrow> ITEM_OBJECT
      | UACPI_PARSE_OP_EMPTY_OBJECT_ALLOC \<Rightarrow> ITEM_EMPTY_OBJECT
      | UACPI_PARSE_OP_OBJECT_CONVERT_TO_SHALLOW_COPY \<Rightarrow> ITEM_OBJECT
      | UACPI_PARSE_OP_OBJECT_CONVERT_TO_DEEP_COPY \<Rightarrow> ITEM_OBJECT
      | UACPI_PARSE_OP_RECORD_AML_PC \<Rightarrow> ITEM_IMMEDIATE
      | _ \<Rightarrow> ITEM_NONE)"

definition last_item :: "op_context \<Rightarrow> item_ptr" where
  "last_item oc = (if items oc = [] then NoItem else Item (length (items oc) - 1))"

text \<open>\<open>item_array_at(&op_ctx->items, i)\<close> dereferenced; where the union is read as a package length, a node to
  install or a counter, the item must be one.\<close>

definition at_item :: "op_context \<Rightarrow> nat \<Rightarrow> (item \<Rightarrow> round) \<Rightarrow> round" where
  "at_item oc i k = (if i < length (items oc) then k (items oc ! i) else Fault NoSuchItem)"

definition typed_item :: "item_type set \<Rightarrow> item \<Rightarrow> round \<Rightarrow> round" where
  "typed_item ts it r = (if it_type it \<in> ts then r else Fault WrongItem)"

text \<open>
  The slots that the programs of Load and LoadTable reserve with \<open>LOAD_ZERO_IMM\<close> and their handlers fill with a
  pointer: the scope to load into, and the target \<open>handle_load_table\<close> is given by name.  The program reads them as a
  node and as an object whatever the tag of the item; \<open>handle_load\<close> leaves it an immediate.
\<close>

definition handler_slot :: "nat \<Rightarrow> nat \<Rightarrow> bool" where
  "handler_slot code i \<longleftrightarrow>
     (code = UACPI_AML_OP_LoadOp \<or> code = UACPI_AML_OP_LoadTableOp) \<and> i = 0
     \<or> code = UACPI_AML_OP_LoadTableOp \<and> i = 3"

definition typed_slot :: "nat \<Rightarrow> nat \<Rightarrow> item_type set \<Rightarrow> item \<Rightarrow> round \<Rightarrow> round" where
  "typed_slot code i ts it r = (if handler_slot code i then r else typed_item ts it r)"

text \<open>The local \<open>item\<close> dereferenced.\<close>

definition with_item :: "item_ptr \<Rightarrow> op_context \<Rightarrow> (item \<Rightarrow> round) \<Rightarrow> round" where
  "with_item p oc k =
     (case p of NoItem \<Rightarrow> Fault NullItem | Stale \<Rightarrow> Fault StaleItem
      | Item i \<Rightarrow> if i < length (items oc) then k (items oc ! i) else Fault StaleItem)"

definition ITEM_OBJECTS :: "item_type set" where "ITEM_OBJECTS = {ITEM_OBJECT, ITEM_EMPTY_OBJECT}"

definition set_value :: "item_ptr \<Rightarrow> nat \<Rightarrow> op_context \<Rightarrow> op_context" where
  "set_value p v oc =
     (case p of Item i \<Rightarrow> oc\<lparr>items := (items oc)[i := (items oc ! i)\<lparr>it_value := v\<rparr>]\<rparr> | _ \<Rightarrow> oc)"

definition pop_item :: "op_context \<Rightarrow> op_context" where
  "pop_item oc = oc\<lparr>items := butlast (items oc)\<rparr>"

text \<open>
  The allocation in front of the switch; a new object takes one more byte of the program when its type is
  given there.
\<close>

definition alloc_item :: "input \<Rightarrow> uacpi_parse_op \<Rightarrow> item_ptr \<Rightarrow> op_context \<Rightarrow> (item_ptr \<Rightarrow> op_context \<Rightarrow> round) \<Rightarrow> round" where
  "alloc_item inp p ptr oc k =
     (let t = parse_op_generates_item p in
      if t \<noteq> ITEM_NONE then
        (let n = length (items oc);
             oc = oc\<lparr>items := items oc @ [\<lparr>it_type = t, it_value = 0\<rparr>]\<rparr>;
             create = (\<lambda>oc. if creates inp then k (Item n) (set_value (Item n) (yields inp) oc) else Fails)
         in if \<not> allocates inp then Fails
            else if t = ITEM_OBJECT then
              (if p = UACPI_PARSE_OP_OBJECT_ALLOC_TYPED then op_decode_byte oc (\<lambda>_ oc. create oc) else create oc)
            else k (Item n) oc)
      else if ptr = NoItem then k (last_item oc) oc
      else k ptr oc)"

section \<open>Pending operations\<close>

definition new_op_context :: "nat \<Rightarrow> op_context" where
  "new_op_context code =
     \<lparr>pc = 0, preempted = False, tracked_pkg_idx = 0, switched_from = 0, oc_op = code, items = []\<rparr>"

text \<open>\<open>apply_tracked_pkg\<close> reads the end of the tracked package.\<close>

definition apply_tracked_pkg :: "op_context \<Rightarrow> round \<Rightarrow> round" where
  "apply_tracked_pkg oc r =
     (if tracked_pkg_idx oc = 0 then r
      else at_item oc (tracked_pkg_idx oc - 1) (\<lambda>it. typed_item {ITEM_PACKAGE_LENGTH} it r))"

text \<open>\<open>pop_op\<close>, and what the end of an operation does to the one that waits for it.\<close>

fun resume_op :: "op_context list \<Rightarrow> op_context list" where
  "resume_op [] = []"
| "resume_op (oc # rest) = skip 1 (oc\<lparr>preempted := False\<rparr>) # rest"

section \<open>Groups of parse operations\<close>

definition ARG_OPS :: "uacpi_parse_op set" where
  "ARG_OPS = {UACPI_PARSE_OP_SIMPLE_NAME, UACPI_PARSE_OP_SUPERNAME, UACPI_PARSE_OP_SUPERNAME_OR_UNRESOLVED,
     UACPI_PARSE_OP_TERM_ARG, UACPI_PARSE_OP_TERM_ARG_UNWRAP_INTERNAL, UACPI_PARSE_OP_TERM_ARG_OR_NAMED_OBJECT,
     UACPI_PARSE_OP_TERM_ARG_OR_NAMED_OBJECT_OR_UNRESOLVED, UACPI_PARSE_OP_OPERAND, UACPI_PARSE_OP_STRING,
     UACPI_PARSE_OP_COMPUTATIONAL_DATA, UACPI_PARSE_OP_TARGET}"

text \<open>The operation a pending operation waits at.\<close>

definition waits_at :: "op_context \<Rightarrow> uacpi_parse_op option" where
  "waits_at oc = (if pc oc < length (op_program oc) then parse_op_of (op_program oc ! pc oc) else None)"

definition op_typecheck :: "uacpi_parse_op option \<Rightarrow> uacpi_op_spec \<Rightarrow> bool" where
  "op_typecheck prev spec =
     (case prev of
        None \<Rightarrow> False
      | Some p \<Rightarrow>
          (let ok_mask =
             (if p = UACPI_PARSE_OP_SIMPLE_NAME then {UACPI_OP_PROPERTY_SIMPLE_NAME}
              else if p = UACPI_PARSE_OP_TARGET then {UACPI_OP_PROPERTY_TARGET, UACPI_OP_PROPERTY_SUPERNAME}
              else if p \<in> {UACPI_PARSE_OP_SUPERNAME, UACPI_PARSE_OP_SUPERNAME_OR_UNRESOLVED}
              then {UACPI_OP_PROPERTY_SUPERNAME}
              else if p \<in> ARG_OPS then {UACPI_OP_PROPERTY_TERM_ARG}
              else {})
           in op_props spec \<inter> ok_mask \<noteq> {}))"

section \<open>exec_op\<close>

text \<open>The end of an operation, also the early one with a warning.\<close>

definition end_op :: "op_context \<Rightarrow> op_context list \<Rightarrow> round" where
  "end_op oc rest = apply_tracked_pkg oc (Leaves (resume_op rest))"

definition op_skip_if_null :: "item_ptr \<Rightarrow> op_context \<Rightarrow> op_context list \<Rightarrow> round" where
  "op_skip_if_null ptr oc rest =
     op_decode_byte oc (\<lambda>idx oc. at_item oc idx (\<lambda>it.
       if it_value it \<noteq> 0 then Goes ptr (oc # rest) else end_op oc rest))"

text \<open>The bytes of an inline number, the lowest one first.\<close>

fun inline_value :: "nat list \<Rightarrow> nat" where
  "inline_value [] = 0"
| "inline_value (b # bs) = b + 256 * inline_value bs"

definition op_load :: "input \<Rightarrow> uacpi_parse_op \<Rightarrow> item_ptr \<Rightarrow> op_context \<Rightarrow> op_context list \<Rightarrow> round" where
  "op_load inp p ptr oc rest =
     (if p = UACPI_PARSE_OP_LOAD_INLINE_IMM_AS_OBJECT then
        (if pc oc + 8 \<le> length (op_program oc) then Goes ptr (skip 8 oc # rest) else Fault PastProgram)
      else if p = UACPI_PARSE_OP_LOAD_INLINE_IMM then
        op_decode_byte oc (\<lambda>src_width oc.
          if pc oc + src_width \<le> length (op_program oc)
          then Goes ptr (skip src_width (set_value ptr
                 (inline_value (take (min 8 src_width) (drop (pc oc) (op_program oc)))) oc) # rest)
          else Fault PastProgram)
      else if p \<in> {UACPI_PARSE_OP_LOAD_IMM, UACPI_PARSE_OP_LOAD_IMM_AS_OBJECT} then
        op_decode_byte oc (\<lambda>width oc.
          if \<not> succeeds inp then Fails
          else if width > 8 then Fault ItemOverrun
          else Goes ptr ((if p = UACPI_PARSE_OP_LOAD_IMM then set_value ptr (yields inp) oc else oc) # rest))
      else Goes ptr ((if p = UACPI_PARSE_OP_RECORD_AML_PC then set_value ptr (yields inp) oc else oc) # rest))"

text \<open>The bytes after \<open>TYPECHECK_ONE_OF\<close>.\<close>

fun decode_bytes :: "nat \<Rightarrow> op_context \<Rightarrow> (op_context \<Rightarrow> round) \<Rightarrow> round" where
  "decode_bytes 0 oc k = k oc"
| "decode_bytes (Suc n) oc k = op_decode_byte oc (\<lambda>_ oc. decode_bytes n oc k)"

definition op_check :: "input \<Rightarrow> uacpi_parse_op \<Rightarrow> item_ptr \<Rightarrow> op_context \<Rightarrow> op_context list \<Rightarrow> round" where
  "op_check inp p ptr oc rest =
     (let check = (\<lambda>oc. with_item ptr oc (\<lambda>it. typed_item ITEM_OBJECTS it
                     (if succeeds inp then Goes ptr (oc # rest) else Fails)))
      in if p = UACPI_PARSE_OP_TYPECHECK then op_decode_byte oc (\<lambda>expected_type oc. check oc)
         else if p = UACPI_PARSE_OP_TYPECHECK_ONE_OF then
           op_decode_byte oc (\<lambda>num_types oc. decode_bytes num_types oc check)
         else with_item ptr oc (\<lambda>it. typed_item ITEM_OBJECTS it (Goes ptr (oc # rest))))"

definition op_change :: "uacpi_parse_op \<Rightarrow> item_ptr \<Rightarrow> op_context \<Rightarrow> op_context list \<Rightarrow> round" where
  "op_change p ptr oc rest =
     (if p = UACPI_PARSE_OP_IMM_DECREMENT then
        op_decode_byte oc (\<lambda>idx oc. at_item oc idx (\<lambda>it. typed_item {ITEM_IMMEDIATE} it
          (Goes ptr (set_value (Item idx) ((it_value it + (2 ^ 64 - 1)) mod 2 ^ 64) oc # rest))))
      else if p = UACPI_PARSE_OP_ITEM_POP then
        (let oc = pop_item oc in Goes (last_item oc) (oc # rest))
      else Goes ptr (oc # rest))"

text \<open>The conditional skips and the jump.\<close>

definition op_branch :: "input \<Rightarrow> uacpi_parse_op \<Rightarrow> item_ptr \<Rightarrow> op_context \<Rightarrow> op_context list \<Rightarrow> round" where
  "op_branch inp p ptr oc rest =
     (let go = (\<lambda>skips oc. op_decode_byte oc (\<lambda>bytes_skip oc. Goes ptr ((if skips then skip bytes_skip oc else oc) # rest)))
      in if p = UACPI_PARSE_OP_IF_HAS_DATA then
           op_decode_byte oc (\<lambda>bytes_skip oc.
             if tracked_pkg_idx oc = 0 then Fault NoSuchItem
             else at_item oc (tracked_pkg_idx oc - 1) (\<lambda>it. typed_item {ITEM_PACKAGE_LENGTH} it
               (Goes ptr ((if \<not> holds inp then skip bytes_skip oc else oc) # rest))))
         else if p \<in> {UACPI_PARSE_OP_IF_LAST_NULL, UACPI_PARSE_OP_IF_LAST_NOT_NULL} then
           with_item ptr oc (\<lambda>it. go ((it_value it = 0) = (p = UACPI_PARSE_OP_IF_LAST_NOT_NULL)) oc)
         else if p \<in> {UACPI_PARSE_OP_IF_NULL, UACPI_PARSE_OP_IF_NOT_NULL} then
           op_decode_byte oc (\<lambda>idx oc. at_item oc idx (\<lambda>it.
             go ((it_value it = 0) = (p = UACPI_PARSE_OP_IF_NOT_NULL)) oc))
         else if p = UACPI_PARSE_OP_IF_LAST_EQUALS then
           op_decode_byte oc (\<lambda>v oc. op_decode_byte oc (\<lambda>bytes_skip oc.
             with_item ptr oc (\<lambda>it. typed_item {ITEM_IMMEDIATE} it
               (Goes ptr ((if it_value it \<noteq> v then skip bytes_skip oc else oc) # rest)))))
         else if p \<in> {UACPI_PARSE_OP_IF_LAST_FALSE, UACPI_PARSE_OP_IF_LAST_TRUE} then
           op_decode_byte oc (\<lambda>bytes_skip oc. with_item ptr oc (\<lambda>it. typed_item ITEM_OBJECTS it
             (Goes ptr ((if holds inp = (p = UACPI_PARSE_OP_IF_LAST_TRUE) then skip bytes_skip oc else oc) # rest))))
         else if p = UACPI_PARSE_OP_IF_SWITCHED_FROM then
           op_decode_aml_op oc (\<lambda>target_op oc. go (switched_from oc \<noteq> target_op) oc)
         else op_decode_byte oc (\<lambda>target oc. Goes ptr (oc\<lparr>pc := target\<rparr> # rest)))"

text \<open>
  A name string.  When it cannot be resolved while a table is loaded and the first pending operation is a
  While or an If, all others are dropped and that one goes on; the local \<open>item\<close> keeps its value.
\<close>

definition op_namestring :: "input \<Rightarrow> item_ptr \<Rightarrow> op_context \<Rightarrow> op_context list \<Rightarrow> round" where
  "op_namestring inp ptr oc rest =
     (if succeeds inp then Goes ptr (set_value ptr (yields inp) oc # rest)
      else if holds inp \<and> oc_op (last (oc # rest)) \<in> {UACPI_AML_OP_WhileOp, UACPI_AML_OP_IfOp}
      then (if rest = [] then Goes ptr [skip 1 (oc\<lparr>preempted := False\<rparr>)]
            else Goes Stale (resume_op [last rest]))
      else Fails)"

text \<open>
  A handler may rewrite the contents of items and turn an empty object into an object; \<open>handle_load_table\<close>
  also changes the type of the items 0 and 3.  Only \<open>handle_deref_of\<close> removes an item, when it turns the
  operation into the read of a field.
\<close>

definition may_edit :: "nat \<Rightarrow> nat \<Rightarrow> item \<Rightarrow> item \<Rightarrow> bool" where
  "may_edit code i old new \<longleftrightarrow>
     it_type new = it_type old
     \<or> it_type old = ITEM_EMPTY_OBJECT \<and> it_type new = ITEM_OBJECT
     \<or> code = UACPI_AML_OP_LoadTableOp \<and> i \<in> {0, 3}"

definition edited :: "input \<Rightarrow> op_context \<Rightarrow> op_context" where
  "edited inp oc = oc\<lparr>items := map (\<lambda>i.
     if i < length (item_edits inp) \<and> may_edit (oc_op oc) i (items oc ! i) (item_edits inp ! i)
     then item_edits inp ! i else items oc ! i) [0..<length (items oc)]\<rparr>"

definition FIELD_READS :: "nat set" where
  "FIELD_READS = {UACPI_AML_OP_InternalOpReadFieldAsBuffer, UACPI_AML_OP_InternalOpReadFieldAsInteger}"

definition op_invoke :: "input \<Rightarrow> item_ptr \<Rightarrow> op_context \<Rightarrow> op_context list \<Rightarrow> round" where
  "op_invoke inp ptr oc rest =
     (if \<not> succeeds inp then Fails
      else if oc_op oc = UACPI_AML_OP_DerefOfOp \<and> becomes inp \<in> FIELD_READS
      then Goes ptr ((pop_item (edited inp oc))\<lparr>oc_op := becomes inp, pc := 0\<rparr> # rest)
      else Goes ptr (edited inp oc # rest))"

definition op_install :: "input \<Rightarrow> op_context \<Rightarrow> op_context list \<Rightarrow> round" where
  "op_install inp oc rest =
     op_decode_byte oc (\<lambda>idx oc. at_item oc idx (\<lambda>it. typed_item {ITEM_NAMESPACE_NODE} it
       (if succeeds inp then Goes (Item idx) (set_value (Item idx) 0 oc # rest) else Fails)))"

text \<open>The object becomes the last item of the operation that waits for it.\<close>

definition op_transfer :: "input \<Rightarrow> item_ptr \<Rightarrow> op_context \<Rightarrow> op_context list \<Rightarrow> round" where
  "op_transfer inp ptr oc rest =
     (case rest of
        [] \<Rightarrow> Goes ptr (oc # rest)
      | prev # others \<Rightarrow>
          (case waits_at prev of
             None \<Rightarrow> Fault UnknownOp
           | Some q \<Rightarrow>
               if q \<notin> ARG_OPS then Fault UnknownOp
               else with_item ptr oc (\<lambda>it. typed_item ITEM_OBJECTS it
                 (if \<not> succeeds inp then Fails
                  else if items prev = [] then Fault NoSuchItem
                  else Goes ptr (oc # prev\<lparr>items := butlast (items prev) @
                         [\<lparr>it_type = ITEM_OBJECT, it_value = yields inp\<rparr>]\<rparr> # others)))))"

definition op_store :: "input \<Rightarrow> uacpi_parse_op \<Rightarrow> item_ptr \<Rightarrow> op_context \<Rightarrow> op_context list \<Rightarrow> round" where
  "op_store inp p ptr oc rest =
     op_decode_byte oc (\<lambda>dst oc. at_item oc dst (\<lambda>it. typed_slot (oc_op oc) dst ITEM_OBJECTS it
       (let store = (\<lambda>oc. if succeeds inp then Goes ptr (oc # rest) else Fails) in
        if p = UACPI_PARSE_OP_STORE_TO_TARGET_INDIRECT
        then op_decode_byte oc (\<lambda>src oc. at_item oc src (\<lambda>it. typed_item ITEM_OBJECTS it (store oc)))
        else with_item ptr oc (\<lambda>it. typed_item ITEM_OBJECTS it (store oc)))))"

text \<open>The object allocated last takes the place of the one before it, as a copy.\<close>

definition op_convert :: "input \<Rightarrow> item_ptr \<Rightarrow> op_context \<Rightarrow> op_context list \<Rightarrow> round" where
  "op_convert inp ptr oc rest =
     with_item ptr oc (\<lambda>temp. typed_item ITEM_OBJECTS temp
       (let oc = pop_item oc; ptr = last_item oc in
        with_item ptr oc (\<lambda>it. typed_item ITEM_OBJECTS it
          (if succeeds inp then Goes ptr (set_value ptr (it_value temp) oc # rest) else Fails))))"

definition op_dispatch :: "input \<Rightarrow> uacpi_parse_op \<Rightarrow> op_context \<Rightarrow> op_context list \<Rightarrow> round" where
  "op_dispatch inp p oc rest =
     (let call = (if succeeds inp then Leaves (oc # rest) else Fails) in
      if p = UACPI_PARSE_OP_DISPATCH_METHOD_CALL
      then at_item oc 0 (\<lambda>it. typed_item {ITEM_NAMESPACE_NODE} it call)
      else at_item oc 0 (\<lambda>it. typed_slot (oc_op oc) 0 {ITEM_NAMESPACE_NODE} it
        (at_item oc 1 (\<lambda>it. typed_item ITEM_OBJECTS it call))))"

text \<open>
  A name string that has been resolved becomes a reference to the object, a method call with the number of
  arguments of the method, or the read of a field.
\<close>

definition NAMED_OPS :: "nat set" where
  "NAMED_OPS = {UACPI_AML_OP_InternalOpNamedObject} \<union> FIELD_READS
     \<union> (\<lambda>args. UACPI_AML_OP_InternalOpMethodCall0Args + args) ` {0..7}"

definition op_convert_namestring :: "input \<Rightarrow> item_ptr \<Rightarrow> op_context \<Rightarrow> op_context list \<Rightarrow> round" where
  "op_convert_namestring inp ptr oc rest =
     with_item ptr oc (\<lambda>it. typed_item {ITEM_NAMESPACE_NODE} it
       (if it_value it = 0 then (if holds inp then Goes ptr (oc # rest) else Fails)
        else if succeeds inp \<and> becomes inp \<in> NAMED_OPS
        then Goes ptr (oc\<lparr>pc := 0, oc_op := becomes inp\<rparr> # rest)
        else Fails))"

definition op_switch :: "input \<Rightarrow> item_ptr \<Rightarrow> op_context \<Rightarrow> op_context list \<Rightarrow> round" where
  "op_switch inp ptr oc rest =
     apply_tracked_pkg oc (op_decode_aml_op oc (\<lambda>target_op oc.
       if \<not> holds inp then Goes ptr (oc # rest)
       else Goes ptr (oc\<lparr>switched_from := oc_op oc, oc_op := target_op, pc := 0\<rparr> # rest)))"

text \<open>The switch of \<open>exec_op\<close>.\<close>

definition exec_switch :: "input \<Rightarrow> uacpi_parse_op \<Rightarrow> item_ptr \<Rightarrow> op_context \<Rightarrow> op_context list \<Rightarrow> round" where
  "exec_switch inp p ptr oc rest =
     (case p of
        UACPI_PARSE_OP_END \<Rightarrow> end_op oc rest
      | UACPI_PARSE_OP_SKIP_WITH_WARN_IF_NULL \<Rightarrow> op_skip_if_null ptr oc rest
      | UACPI_PARSE_OP_EMIT_SKIP_WARN \<Rightarrow> Goes ptr (oc # rest)
      | UACPI_PARSE_OP_TRACKED_PKGLEN \<Rightarrow>
          (let oc = oc\<lparr>tracked_pkg_idx := length (items oc)\<rparr> in
           if succeeds inp then Goes ptr (set_value ptr (yields inp) oc # rest) else Fails)
      | UACPI_PARSE_OP_PKGLEN \<Rightarrow>
          if succeeds inp then Goes ptr (set_value ptr (yields inp) oc # rest) else Fails
      | UACPI_PARSE_OP_LOAD_INLINE_IMM \<Rightarrow> op_load inp p ptr oc rest
      | UACPI_PARSE_OP_LOAD_INLINE_IMM_AS_OBJECT \<Rightarrow> op_load inp p ptr oc rest
      | UACPI_PARSE_OP_LOAD_ZERO_IMM \<Rightarrow> op_load inp p ptr oc rest
      | UACPI_PARSE_OP_LOAD_IMM \<Rightarrow> op_load inp p ptr oc rest
      | UACPI_PARSE_OP_LOAD_IMM_AS_OBJECT \<Rightarrow> op_load inp p ptr oc rest
      | UACPI_PARSE_OP_LOAD_FALSE_OBJECT \<Rightarrow> op_load inp p ptr oc rest
      | UACPI_PARSE_OP_LOAD_TRUE_OBJECT \<Rightarrow> op_load inp p ptr oc rest
      | UACPI_PARSE_OP_RECORD_AML_PC \<Rightarrow> op_load inp p ptr oc rest
      | UACPI_PARSE_OP_TRUNCATE_NUMBER \<Rightarrow> op_check inp p ptr oc rest
      | UACPI_PARSE_OP_TYPECHECK \<Rightarrow> op_check inp p ptr oc rest
      | UACPI_PARSE_OP_TYPECHECK_ONE_OF \<Rightarrow> op_check inp p ptr oc rest
      | UACPI_PARSE_OP_AML_PC_DECREMENT \<Rightarrow> op_change p ptr oc rest
      | UACPI_PARSE_OP_IMM_DECREMENT \<Rightarrow> op_change p ptr oc rest
      | UACPI_PARSE_OP_ITEM_POP \<Rightarrow> op_change p ptr oc rest
      | UACPI_PARSE_OP_IF_HAS_DATA \<Rightarrow> op_branch inp p ptr oc rest
      | UACPI_PARSE_OP_IF_NULL \<Rightarrow> op_branch inp p ptr oc rest
      | UACPI_PARSE_OP_IF_NOT_NULL \<Rightarrow> op_branch inp p ptr oc rest
      | UACPI_PARSE_OP_IF_LAST_NULL \<Rightarrow> op_branch inp p ptr oc rest
      | UACPI_PARSE_OP_IF_LAST_NOT_NULL \<Rightarrow> op_branch inp p ptr oc rest
      | UACPI_PARSE_OP_IF_LAST_EQUALS \<Rightarrow> op_branch inp p ptr oc rest
      | UACPI_PARSE_OP_IF_LAST_FALSE \<Rightarrow> op_branch inp p ptr oc rest
      | UACPI_PARSE_OP_IF_LAST_TRUE \<Rightarrow> op_branch inp p ptr oc rest
      | UACPI_PARSE_OP_IF_SWITCHED_FROM \<Rightarrow> op_branch inp p ptr oc rest
      | UACPI_PARSE_OP_JMP \<Rightarrow> op_branch inp p ptr oc rest
      | UACPI_PARSE_OP_CREATE_NAMESTRING \<Rightarrow> op_namestring inp ptr oc rest
      | UACPI_PARSE_OP_CREATE_NAMESTRING_OR_NULL_IF_LOAD \<Rightarrow> op_namestring inp ptr oc rest
      | UACPI_PARSE_OP_EXISTING_NAMESTRING \<Rightarrow> op_namestring inp ptr oc rest
      | UACPI_PARSE_OP_EXISTING_NAMESTRING_OR_NULL \<Rightarrow> op_namestring inp ptr oc rest
      | UACPI_PARSE_OP_EXISTING_NAMESTRING_OR_NULL_IF_LOAD \<Rightarrow> op_namestring inp ptr oc rest
      | UACPI_PARSE_OP_INVOKE_HANDLER \<Rightarrow> op_invoke inp ptr oc rest
      | UACPI_PARSE_OP_INSTALL_NAMESPACE_NODE \<Rightarrow> op_install inp oc rest
      | UACPI_PARSE_OP_OBJECT_TRANSFER_TO_PREV \<Rightarrow> op_transfer inp ptr oc rest
      | UACPI_PARSE_OP_OBJECT_COPY_TO_PREV \<Rightarrow> op_transfer inp ptr oc rest
      | UACPI_PARSE_OP_STORE_TO_TARGET \<Rightarrow> op_store inp p ptr oc rest
      | UACPI_PARSE_OP_STORE_TO_TARGET_INDIRECT \<Rightarrow> op_store inp p ptr oc rest
      | UACPI_PARSE_OP_OBJECT_ALLOC \<Rightarrow> Goes ptr (oc # rest)
      | UACPI_PARSE_OP_OBJECT_ALLOC_TYPED \<Rightarrow> Goes ptr (oc # rest)
      | UACPI_PARSE_OP_EMPTY_OBJECT_ALLOC \<Rightarrow> Goes ptr (oc # rest)
      | UACPI_PARSE_OP_OBJECT_CONVERT_TO_SHALLOW_COPY \<Rightarrow> op_convert inp ptr oc rest
      | UACPI_PARSE_OP_OBJECT_CONVERT_TO_DEEP_COPY \<Rightarrow> op_convert inp ptr oc rest
      | UACPI_PARSE_OP_DISPATCH_METHOD_CALL \<Rightarrow> op_dispatch inp p oc rest
      | UACPI_PARSE_OP_DISPATCH_TABLE_LOAD \<Rightarrow> op_dispatch inp p oc rest
      | UACPI_PARSE_OP_CONVERT_NAMESTRING \<Rightarrow> op_convert_namestring inp ptr oc rest
      | UACPI_PARSE_OP_SWITCH_TO_NEXT_IF_EQUALS \<Rightarrow> op_switch inp ptr oc rest
      | _ \<Rightarrow> Leaves (oc\<lparr>preempted := True, pc := pc oc - 1\<rparr> # rest))"

text \<open>One round of the loop.\<close>

definition exec_round :: "input \<Rightarrow> item_ptr \<Rightarrow> op_context list \<Rightarrow> round" where
  "exec_round inp ptr ocs =
     (case ocs of
        [] \<Rightarrow> Fault NoContext
      | oc # rest \<Rightarrow>
          if pc oc = 0 \<and> rest \<noteq> [] \<and> \<not> op_typecheck (waits_at (hd rest)) (uacpi_get_op_spec (oc_op oc)) then Fails
          else op_decode_byte oc (\<lambda>b oc.
            case parse_op_of b of
              None \<Rightarrow> Fault UnknownOp
            | Some p \<Rightarrow> alloc_item inp p ptr oc (\<lambda>ptr oc. exec_switch inp p ptr oc rest)))"

text \<open>
  The loop of a call frame: \<open>get_op\<close> reads the next opcode when no operation is pending or the last one
  waits for an argument, and refuses one that is internal or invalid; then \<open>exec_op\<close> runs rounds until one
  leaves it.  \<open>None\<close> is the place between two calls of \<open>exec_op\<close>.
\<close>

definition op_is_internal :: "uacpi_op_spec \<Rightarrow> bool" where
  "op_is_internal spec \<longleftrightarrow> UACPI_OP_PROPERTY_INTERNAL \<in> op_props spec"

definition op_is_invalid :: "uacpi_op_spec \<Rightarrow> bool" where
  "op_is_invalid spec \<longleftrightarrow> UACPI_OP_PROPERTY_INVALID \<in> op_props spec"

text \<open>The opcodes \<open>peek_next_op\<close> reads: one byte other than the prefix, or the prefix and one byte.\<close>

definition AML_OPS :: "nat set" where
  "AML_OPS = {op. op < 256 \<and> op \<noteq> UACPI_EXT_PREFIX} \<union> UACPI_EXT_OP ` {op. op < 256}"

inductive frame_step :: "item_ptr option \<times> op_context list \<Rightarrow> item_ptr option \<times> op_context list \<Rightarrow> bool" where
  begin_op: "\<lbrakk>ocs = [] \<or> preempted (hd ocs); op \<in> AML_OPS;
      \<not> op_is_internal (uacpi_get_op_spec op); \<not> op_is_invalid (uacpi_get_op_spec op)\<rbrakk>
    \<Longrightarrow> frame_step (None, ocs) (Some NoItem, new_op_context op # ocs)"
| resume: "\<lbrakk>ocs \<noteq> []; \<not> preempted (hd ocs)\<rbrakk> \<Longrightarrow> frame_step (None, ocs) (Some NoItem, ocs)"
| goes: "exec_round inp ptr ocs = Goes ptr' ocs' \<Longrightarrow> frame_step (Some ptr, ocs) (Some ptr', ocs')"
| leaves: "exec_round inp ptr ocs = Leaves ocs' \<Longrightarrow> frame_step (Some ptr, ocs) (None, ocs')"

inductive frame_reach :: "item_ptr option \<times> op_context list \<Rightarrow> bool" where
  start: "frame_reach (None, [])"
| step: "\<lbrakk>frame_reach s; frame_step s t\<rbrakk> \<Longrightarrow> frame_reach t"

end
