(* ===== verification/AcpiParseCheck.thy ===== *)
theory AcpiParseCheck
  imports AcpiParse "HOL-Library.Code_Target_Nat"
begin

text \<open>
  A checker for parse programs, and the proof that a program it accepts runs without a fault.  A state of the
  checker describes all states of an operation at one place of its program: the kinds of its first items, and
  either that there are no more or the kinds of the last ones.
\<close>

section \<open>Evaluation\<close>

text \<open>The place of an operation in the declaration, by bisection.\<close>

definition parse_op_at :: "nat \<Rightarrow> uacpi_parse_op" where
  "parse_op_at b =
       (if b < 30 then (if b < 15 then (if b < 7 then (if b < 3 then (if b < 1 then UACPI_PARSE_OP_END
            else (if b < 2 then UACPI_PARSE_OP_SKIP_WITH_WARN_IF_NULL
             else UACPI_PARSE_OP_EMIT_SKIP_WARN))
           else (if b < 5 then (if b < 4 then UACPI_PARSE_OP_SIMPLE_NAME
             else UACPI_PARSE_OP_SUPERNAME)
            else (if b < 6 then UACPI_PARSE_OP_SUPERNAME_OR_UNRESOLVED
             else UACPI_PARSE_OP_TERM_ARG)))
          else (if b < 11 then (if b < 9 then (if b < 8 then UACPI_PARSE_OP_TERM_ARG_UNWRAP_INTERNAL
             else UACPI_PARSE_OP_TERM_ARG_OR_NAMED_OBJECT)
            else (if b < 10 then UACPI_PARSE_OP_TERM_ARG_OR_NAMED_OBJECT_OR_UNRESOLVED
             else UACPI_PARSE_OP_OPERAND))
           else (if b < 13 then (if b < 12 then UACPI_PARSE_OP_STRING
             else UACPI_PARSE_OP_COMPUTATIONAL_DATA)
            else (if b < 14 then UACPI_PARSE_OP_TARGET
             else UACPI_PARSE_OP_PKGLEN))))
         else (if b < 22 then (if b < 18 then (if b < 16 then UACPI_PARSE_OP_TRACKED_PKGLEN
            else (if b < 17 then UACPI_PARSE_OP_CREATE_NAMESTRING
             else UACPI_PARSE_OP_CREATE_NAMESTRING_OR_NULL_IF_LOAD))
           else (if b < 20 then (if b < 19 then UACPI_PARSE_OP_EXISTING_NAMESTRING
             else UACPI_PARSE_OP_EXISTING_NAMESTRING_OR_NULL)
            else (if b < 21 then UACPI_PARSE_OP_EXISTING_NAMESTRING_OR_NULL_IF_LOAD
             else UACPI_PARSE_OP_INVOKE_HANDLER)))
          else (if b < 26 then (if b < 24 then (if b < 23 then UACPI_PARSE_OP_OBJECT_ALLOC
             else UACPI_PARSE_OP_EMPTY_OBJECT_ALLOC)
            else (if b < 25 then UACPI_PARSE_OP_OBJECT_CONVERT_TO_SHALLOW_COPY
             else UACPI_PARSE_OP_OBJECT_CONVERT_TO_DEEP_COPY))
           else (if b < 28 then (if b < 27 then UACPI_PARSE_OP_OBJECT_ALLOC_TYPED
             else UACPI_PARSE_OP_RECORD_AML_PC)
            else (if b < 29 then UACPI_PARSE_OP_LOAD_INLINE_IMM_AS_OBJECT
             else UACPI_PARSE_OP_LOAD_INLINE_IMM)))))
        else (if b < 45 then (if b < 37 then (if b < 33 then (if b < 31 then UACPI_PARSE_OP_LOAD_ZERO_IMM
            else (if b < 32 then UACPI_PARSE_OP_LOAD_IMM
             else UACPI_PARSE_OP_LOAD_IMM_AS_OBJECT))
           else (if b < 35 then (if b < 34 then UACPI_PARSE_OP_LOAD_FALSE_OBJECT
             else UACPI_PARSE_OP_LOAD_TRUE_OBJECT)
            else (if b < 36 then UACPI_PARSE_OP_TRUNCATE_NUMBER
             else UACPI_PARSE_OP_TYPECHECK)))
          else (if b < 41 then (if b < 39 then (if b < 38 then UACPI_PARSE_OP_TYPECHECK_ONE_OF
             else UACPI_PARSE_OP_INSTALL_NAMESPACE_NODE)
            else (if b < 40 then UACPI_PARSE_OP_OBJECT_TRANSFER_TO_PREV
             else UACPI_PARSE_OP_OBJECT_COPY_TO_PREV))
           else (if b < 43 then (if b < 42 then UACPI_PARSE_OP_STORE_TO_TARGET
             else UACPI_PARSE_OP_STORE_TO_TARGET_INDIRECT)
            else (if b < 44 then UACPI_PARSE_OP_AML_PC_DECREMENT
             else UACPI_PARSE_OP_IMM_DECREMENT))))
         else (if b < 52 then (if b < 48 then (if b < 46 then UACPI_PARSE_OP_ITEM_POP
            else (if b < 47 then UACPI_PARSE_OP_DISPATCH_METHOD_CALL
             else UACPI_PARSE_OP_DISPATCH_TABLE_LOAD))
           else (if b < 50 then (if b < 49 then UACPI_PARSE_OP_CONVERT_NAMESTRING
             else UACPI_PARSE_OP_IF_HAS_DATA)
            else (if b < 51 then UACPI_PARSE_OP_IF_NULL
             else UACPI_PARSE_OP_IF_LAST_NULL)))
          else (if b < 56 then (if b < 54 then (if b < 53 then UACPI_PARSE_OP_IF_NOT_NULL
             else UACPI_PARSE_OP_IF_LAST_NOT_NULL)
            else (if b < 55 then UACPI_PARSE_OP_IF_LAST_EQUALS
             else UACPI_PARSE_OP_IF_LAST_FALSE))
           else (if b < 58 then (if b < 57 then UACPI_PARSE_OP_IF_LAST_TRUE
             else UACPI_PARSE_OP_SWITCH_TO_NEXT_IF_EQUALS)
            else (if b < 59 then UACPI_PARSE_OP_IF_SWITCHED_FROM
             else UACPI_PARSE_OP_JMP))))))"

lemma parse_op_at: "b < length parse_ops \<Longrightarrow> parse_ops ! b = parse_op_at b"
proof -
  assume "b < length parse_ops"
  then have "b < 60" by (simp add: parse_ops_def)
  moreover have "list_all (\<lambda>b. parse_ops ! b = parse_op_at b) [0..<60]" by code_simp
  ultimately show ?thesis by (simp only: list_all_iff set_upt atLeastLessThan_iff) simp
qed

lemma length_parse_ops: "length parse_ops = 60"
  by (simp add: parse_ops_def)

lemma parse_op_of_code [code]: "parse_op_of b = (if b < 60 then Some (parse_op_at b) else None)"
  by (simp add: parse_op_of_def parse_op_at length_parse_ops)

section \<open>Abstract states\<close>

datatype akind = KNode | KObj | KEmpty | KPkg | KImm "nat option" | KAny

datatype aptr = ANone | ALast | AIdx nat | AStale | ADead

record astate =
  a_op :: nat
  a_pc :: nat
  a_from :: nat
  a_tracked :: nat
  a_front :: "akind list"
  a_back :: "akind list option"
  a_ptr :: aptr

definition abyte :: "nat list \<Rightarrow> astate \<Rightarrow> (nat \<Rightarrow> astate \<Rightarrow> astate list option) \<Rightarrow> astate list option" where
  "abyte prog a k =
     (if a_pc a < length prog then k (prog ! a_pc a) (a\<lparr>a_pc := (a_pc a + 1) mod 256\<rparr>) else None)"

lemma abyte_inline [code_unfold]:
  "abyte prog a k =
     (if a_pc a < length prog then let b = prog ! a_pc a; a = a\<lparr>a_pc := (a_pc a + 1) mod 256\<rparr> in k b a else None)"
  by (simp add: abyte_def)

definition askip :: "nat \<Rightarrow> astate \<Rightarrow> astate" where
  "askip n a = a\<lparr>a_pc := (a_pc a + n) mod 256\<rparr>"

definition apush :: "akind \<Rightarrow> astate \<Rightarrow> astate" where
  "apush k a =
     (case a_back a of
        None \<Rightarrow> a\<lparr>a_front := a_front a @ [k], a_ptr := ALast\<rparr>
      | Some t \<Rightarrow> a\<lparr>a_back := Some (t @ [k]), a_ptr := ALast\<rparr>)"

definition aset_last :: "akind \<Rightarrow> astate \<Rightarrow> astate" where
  "aset_last k a =
     (case a_back a of
        None \<Rightarrow> a\<lparr>a_front := butlast (a_front a) @ [k]\<rparr>
      | Some t \<Rightarrow> a\<lparr>a_back := Some (butlast t @ [k])\<rparr>)"

text \<open>A new value for the last item, which \<open>item\<close> points to.\<close>

definition same_type :: "akind \<Rightarrow> akind \<Rightarrow> bool" where
  "same_type k l =
     (case k of KImm v \<Rightarrow> (case l of KImm w \<Rightarrow> True | _ \<Rightarrow> False) | KAny \<Rightarrow> False | _ \<Rightarrow> l = k)"

definition alast :: "astate \<Rightarrow> akind option" where
  "alast a =
     (case a_back a of
        None \<Rightarrow> if a_front a = [] then None else Some (last (a_front a))
      | Some t \<Rightarrow> if t = [] then None else Some (last t))"

definition aset :: "akind \<Rightarrow> astate \<Rightarrow> (astate \<Rightarrow> astate list option) \<Rightarrow> astate list option" where
  "aset k a r =
     (if a_ptr a = ALast
      then (case alast a of None \<Rightarrow> None | Some l \<Rightarrow> if same_type l k then r (aset_last k a) else None)
      else None)"

lemma aset_inline [code_unfold]:
  "aset k a r =
     (if a_ptr a = ALast
      then (case alast a of None \<Rightarrow> None | Some l \<Rightarrow> if same_type l k then let a = aset_last k a in r a else None)
      else None)"
  unfolding aset_def Let_def by (rule refl)

definition apop :: "astate \<Rightarrow> astate option" where
  "apop a =
     (case a_back a of
        None \<Rightarrow> if a_front a = [] then None else Some (a\<lparr>a_front := butlast (a_front a)\<rparr>)
      | Some t \<Rightarrow> if t = [] then None else Some (a\<lparr>a_back := Some (butlast t)\<rparr>))"

text \<open>Null becomes the last item.\<close>

definition arefresh :: "astate \<Rightarrow> astate option" where
  "arefresh a =
     (if a_front a \<noteq> [] then Some (a\<lparr>a_ptr := ALast\<rparr>)
      else case a_back a of None \<Rightarrow> Some (a\<lparr>a_ptr := ANone\<rparr>) | Some t \<Rightarrow> if t = [] then None else Some (a\<lparr>a_ptr := ALast\<rparr>))"

definition aat :: "astate \<Rightarrow> nat \<Rightarrow> (akind \<Rightarrow> astate list option) \<Rightarrow> astate list option" where
  "aat a i k = (if i < length (a_front a) then k (a_front a ! i) else None)"

lemma aat_inline [code_unfold]:
  "aat a i k = (if i < length (a_front a) then let l = a_front a ! i in k l else None)"
  by (simp add: aat_def)

definition aitem :: "astate \<Rightarrow> akind option" where
  "aitem a =
     (case a_ptr a of
        ALast \<Rightarrow> (case alast a of None \<Rightarrow> if a_front a = [] then None else Some KAny | Some l \<Rightarrow> Some l)
      | AIdx i \<Rightarrow> if i < length (a_front a) then Some (a_front a ! i) else None
      | _ \<Rightarrow> None)"

definition athe :: "astate \<Rightarrow> (akind \<Rightarrow> astate list option) \<Rightarrow> astate list option" where
  "athe a k =
     (if a_ptr a = AStale
      then if a_op a = UACPI_AML_OP_WhileOp \<or> a_op a = UACPI_AML_OP_IfOp then Some [] else None
      else case aitem a of None \<Rightarrow> None | Some l \<Rightarrow> k l)"

lemma athe_inline [code_unfold]:
  "athe a k =
     (if a_ptr a = AStale
      then if a_op a = UACPI_AML_OP_WhileOp \<or> a_op a = UACPI_AML_OP_IfOp then Some [] else None
      else case aitem a of None \<Rightarrow> None | Some l \<Rightarrow> let l = l in k l)"
  unfolding athe_def Let_def by (rule refl)

definition is_obj :: "akind \<Rightarrow> bool" where "is_obj k \<longleftrightarrow> k = KObj \<or> k = KEmpty"

definition is_imm :: "akind \<Rightarrow> bool" where "is_imm k \<longleftrightarrow> (case k of KImm v \<Rightarrow> True | _ \<Rightarrow> False)"

definition need :: "bool \<Rightarrow> astate list option \<Rightarrow> astate list option" where
  "need b r = (if b then r else None)"

definition atracked :: "astate \<Rightarrow> astate list option \<Rightarrow> astate list option" where
  "atracked a r = (if a_tracked a = 0 then r else aat a (a_tracked a - 1) (\<lambda>k. need (k = KPkg) r))"

text \<open>The outcomes of a test for 0 and of a test for a value.\<close>

definition zero_tests :: "akind \<Rightarrow> bool list" where
  "zero_tests k = (case k of KImm (Some v) \<Rightarrow> [v = 0] | _ \<Rightarrow> [True, False])"

definition equal_tests :: "nat \<Rightarrow> akind \<Rightarrow> bool list" where
  "equal_tests w k = (case k of KImm (Some v) \<Rightarrow> [v \<noteq> w] | _ \<Rightarrow> [True, False])"

section \<open>One step\<close>

definition akind_of :: "item_type \<Rightarrow> akind" where
  "akind_of t =
     (case t of
        ITEM_NONE \<Rightarrow> KAny | ITEM_NAMESPACE_NODE \<Rightarrow> KNode | ITEM_OBJECT \<Rightarrow> KObj | ITEM_EMPTY_OBJECT \<Rightarrow> KEmpty
      | ITEM_PACKAGE_LENGTH \<Rightarrow> KPkg | ITEM_IMMEDIATE \<Rightarrow> KImm (Some 0))"

definition aalloc :: "nat list \<Rightarrow> uacpi_parse_op \<Rightarrow> astate \<Rightarrow> astate option" where
  "aalloc prog p a =
     (let t = parse_op_generates_item p in
      if t \<noteq> ITEM_NONE then
        (let a = apush (akind_of t) a in
         if p = UACPI_PARSE_OP_OBJECT_ALLOC_TYPED
         then if a_pc a < length prog then Some (a\<lparr>a_pc := (a_pc a + 1) mod 256\<rparr>) else None
         else Some a)
      else if a_ptr a = ANone then arefresh a
      else Some a)"

definition aload :: "nat list \<Rightarrow> uacpi_parse_op \<Rightarrow> astate \<Rightarrow> astate list option" where
  "aload prog p a =
     (if p = UACPI_PARSE_OP_LOAD_INLINE_IMM_AS_OBJECT then need (a_pc a + 8 \<le> length prog) (Some [askip 8 a])
      else if p = UACPI_PARSE_OP_LOAD_INLINE_IMM then
        abyte prog a (\<lambda>w a. need (a_pc a + w \<le> length prog)
          (aset (KImm (Some (inline_value (take (min 8 w) (drop (a_pc a) prog))))) a (\<lambda>a. Some [askip w a])))
      else if p = UACPI_PARSE_OP_LOAD_IMM then
        abyte prog a (\<lambda>w a. need (w \<le> 8) (aset (KImm None) a (\<lambda>a. Some [a])))
      else if p = UACPI_PARSE_OP_LOAD_IMM_AS_OBJECT then abyte prog a (\<lambda>w a. need (w \<le> 8) (Some [a]))
      else if p = UACPI_PARSE_OP_RECORD_AML_PC then aset (KImm None) a (\<lambda>a. Some [a])
      else Some [a])"

definition aobject :: "astate \<Rightarrow> astate list option" where
  "aobject a = athe a (\<lambda>k. need (is_obj k) (Some [a]))"

fun abytes :: "nat list \<Rightarrow> nat \<Rightarrow> astate \<Rightarrow> astate list option" where
  "abytes prog 0 a = aobject a"
| "abytes prog (Suc n) a = abyte prog a (\<lambda>_ a. abytes prog n a)"

definition acheck :: "nat list \<Rightarrow> uacpi_parse_op \<Rightarrow> astate \<Rightarrow> astate list option" where
  "acheck prog p a =
     (if p = UACPI_PARSE_OP_TYPECHECK then abyte prog a (\<lambda>_ a. aobject a)
      else if p = UACPI_PARSE_OP_TYPECHECK_ONE_OF then abyte prog a (\<lambda>n a. abytes prog n a)
      else aobject a)"

definition decrement :: "akind \<Rightarrow> akind" where
  "decrement k =
     (case k of KImm (Some v) \<Rightarrow> if 0 < v \<and> v < 256 then KImm (Some (v - 1)) else KImm None | _ \<Rightarrow> KImm None)"

definition achange :: "nat list \<Rightarrow> uacpi_parse_op \<Rightarrow> astate \<Rightarrow> astate list option" where
  "achange prog p a =
     (if p = UACPI_PARSE_OP_IMM_DECREMENT then
        abyte prog a (\<lambda>i a. aat a i (\<lambda>k. need (is_imm k)
          (Some [a\<lparr>a_front := (a_front a)[i := decrement k]\<rparr>])))
      else if p = UACPI_PARSE_OP_ITEM_POP then
        (case apop a of None \<Rightarrow> None | Some a \<Rightarrow> (case arefresh a of None \<Rightarrow> None | Some a \<Rightarrow> Some [a]))
      else Some [a])"

fun branches :: "bool list \<Rightarrow> nat \<Rightarrow> astate \<Rightarrow> astate list" where
  "branches [] n a = []"
| "branches (skips # tests) n a = (if skips then askip n a else a) # branches tests n a"

definition ago :: "nat list \<Rightarrow> bool list \<Rightarrow> astate \<Rightarrow> astate list option" where
  "ago prog tests a = abyte prog a (\<lambda>n a. Some (branches tests n a))"

definition abranch :: "nat list \<Rightarrow> uacpi_parse_op \<Rightarrow> astate \<Rightarrow> astate list option" where
  "abranch prog p a =
     (if p = UACPI_PARSE_OP_IF_HAS_DATA then
        abyte prog a (\<lambda>n a. need (a_tracked a \<noteq> 0) (atracked a (Some [a, askip n a])))
      else if p = UACPI_PARSE_OP_IF_LAST_NULL \<or> p = UACPI_PARSE_OP_IF_LAST_NOT_NULL then
        athe a (\<lambda>k. ago prog (map (\<lambda>z. z = (p = UACPI_PARSE_OP_IF_LAST_NOT_NULL)) (zero_tests k)) a)
      else if p = UACPI_PARSE_OP_IF_NULL \<or> p = UACPI_PARSE_OP_IF_NOT_NULL then
        abyte prog a (\<lambda>i a. aat a i (\<lambda>k. ago prog (map (\<lambda>z. z = (p = UACPI_PARSE_OP_IF_NOT_NULL)) (zero_tests k)) a))
      else if p = UACPI_PARSE_OP_IF_LAST_EQUALS then
        abyte prog a (\<lambda>v a. abyte prog a (\<lambda>n a. athe a (\<lambda>k. need (is_imm k)
          (Some (branches (equal_tests v k) n a)))))
      else if p = UACPI_PARSE_OP_IF_LAST_FALSE \<or> p = UACPI_PARSE_OP_IF_LAST_TRUE then
        abyte prog a (\<lambda>n a. athe a (\<lambda>k. need (is_obj k) (Some [a, askip n a])))
      else if p = UACPI_PARSE_OP_IF_SWITCHED_FROM then
        abyte prog a (\<lambda>lo a. abyte prog a (\<lambda>hi a. ago prog [a_from a \<noteq> lo + hi * 256] a))
      else abyte prog a (\<lambda>t a. Some [a\<lparr>a_pc := t\<rparr>]))"

text \<open>A handler makes the value of an immediate unknown.\<close>

fun forget_kind :: "akind \<Rightarrow> akind" where
  "forget_kind (KImm v) = KImm None"
| "forget_kind k = k"

fun forget_type :: "akind \<Rightarrow> akind" where
  "forget_type k = KAny"

definition aforget :: "astate \<Rightarrow> astate" where
  "aforget a =
     (let f = map forget_kind (a_front a);
          g = (case a_back a of None \<Rightarrow> None | Some t \<Rightarrow> Some (map forget_kind t))
      in if a_op a = UACPI_AML_OP_LoadTableOp
         then a\<lparr>a_front := f[0 := KAny, 3 := KAny],
                a_back := (case g of None \<Rightarrow> None | Some t \<Rightarrow> Some (map forget_type t))\<rparr>
         else a\<lparr>a_front := f, a_back := g\<rparr>)"

definition FIELD_READ_list :: "nat list" where
  "FIELD_READ_list = [UACPI_AML_OP_InternalOpReadFieldAsBuffer, UACPI_AML_OP_InternalOpReadFieldAsInteger]"

definition NAMED_list :: "nat list" where
  "NAMED_list = UACPI_AML_OP_InternalOpNamedObject # FIELD_READ_list
     @ map (\<lambda>n. UACPI_AML_OP_InternalOpMethodCall0Args + n) [0, 1, 2, 3, 4, 5, 6, 7]"

text \<open>The operation turns into one of a list.\<close>

fun become :: "astate \<Rightarrow> nat list \<Rightarrow> astate list" where
  "become a [] = []"
| "become a (c # cs) = a\<lparr>a_pc := 0, a_op := c\<rparr> # become a cs"

definition ainvoke :: "astate \<Rightarrow> astate list option" where
  "ainvoke a =
     (let a = aforget a in
      if a_op a = UACPI_AML_OP_DerefOfOp
      then (case apop a of None \<Rightarrow> None
            | Some b \<Rightarrow> need (a_ptr a \<noteq> ANone) (Some (a # become (b\<lparr>a_ptr := ADead\<rparr>) FIELD_READ_list)))
      else Some [a])"

definition astore :: "nat list \<Rightarrow> uacpi_parse_op \<Rightarrow> astate \<Rightarrow> astate list option" where
  "astore prog p a =
     abyte prog a (\<lambda>dst a. aat a dst (\<lambda>d. need (handler_slot (a_op a) dst \<or> is_obj d)
       (if p = UACPI_PARSE_OP_STORE_TO_TARGET_INDIRECT
        then abyte prog a (\<lambda>src a. aat a src (\<lambda>k. need (is_obj k) (Some [a])))
        else athe a (\<lambda>k. need (is_obj k) (Some [a])))))"

definition atransfer :: "astate \<Rightarrow> astate list option" where
  "atransfer a = need (a_ptr a \<noteq> AStale) (athe a (\<lambda>k. need (is_obj k) (Some [a])))"

definition aconvert :: "astate \<Rightarrow> astate list option" where
  "aconvert a =
     athe a (\<lambda>t. need (is_obj t) (case apop a of None \<Rightarrow> None
       | Some a \<Rightarrow> (case arefresh a of None \<Rightarrow> None | Some a \<Rightarrow> athe a (\<lambda>k. need (is_obj k) (aset k a (\<lambda>a. Some [a]))))))"

definition adispatch :: "uacpi_parse_op \<Rightarrow> astate \<Rightarrow> astate list option" where
  "adispatch p a =
     (if p = UACPI_PARSE_OP_DISPATCH_METHOD_CALL
      then aat a 0 (\<lambda>k. need (k = KNode) (Some [a\<lparr>a_ptr := ANone\<rparr>]))
      else aat a 0 (\<lambda>k. need (handler_slot (a_op a) 0 \<or> k = KNode)
        (aat a 1 (\<lambda>k. need (is_obj k) (Some [a\<lparr>a_ptr := ANone\<rparr>])))))"

definition anamestring :: "astate \<Rightarrow> astate list option" where
  "anamestring a =
     need (a_op a \<noteq> UACPI_AML_OP_WhileOp \<and> a_op a \<noteq> UACPI_AML_OP_IfOp) (aset KNode a (\<lambda>a. Some [a]))"

definition aswitch :: "nat list \<Rightarrow> uacpi_parse_op \<Rightarrow> astate \<Rightarrow> astate list option" where
  "aswitch prog p a =
     (case p of
        UACPI_PARSE_OP_END \<Rightarrow> atracked a (Some [])
      | UACPI_PARSE_OP_SKIP_WITH_WARN_IF_NULL \<Rightarrow> abyte prog a (\<lambda>i a. aat a i (\<lambda>_. atracked a (Some [a])))
      | UACPI_PARSE_OP_EMIT_SKIP_WARN \<Rightarrow> Some [a]
      | UACPI_PARSE_OP_TRACKED_PKGLEN \<Rightarrow> need (a_back a = None)
          (let a = a\<lparr>a_tracked := length (a_front a)\<rparr> in aset KPkg a (\<lambda>a. Some [a]))
      | UACPI_PARSE_OP_PKGLEN \<Rightarrow> aset KPkg a (\<lambda>a. Some [a])
      | UACPI_PARSE_OP_LOAD_INLINE_IMM \<Rightarrow> aload prog p a
      | UACPI_PARSE_OP_LOAD_INLINE_IMM_AS_OBJECT \<Rightarrow> aload prog p a
      | UACPI_PARSE_OP_LOAD_ZERO_IMM \<Rightarrow> aload prog p a
      | UACPI_PARSE_OP_LOAD_IMM \<Rightarrow> aload prog p a
      | UACPI_PARSE_OP_LOAD_IMM_AS_OBJECT \<Rightarrow> aload prog p a
      | UACPI_PARSE_OP_LOAD_FALSE_OBJECT \<Rightarrow> aload prog p a
      | UACPI_PARSE_OP_LOAD_TRUE_OBJECT \<Rightarrow> aload prog p a
      | UACPI_PARSE_OP_RECORD_AML_PC \<Rightarrow> aload prog p a
      | UACPI_PARSE_OP_TRUNCATE_NUMBER \<Rightarrow> acheck prog p a
      | UACPI_PARSE_OP_TYPECHECK \<Rightarrow> acheck prog p a
      | UACPI_PARSE_OP_TYPECHECK_ONE_OF \<Rightarrow> acheck prog p a
      | UACPI_PARSE_OP_AML_PC_DECREMENT \<Rightarrow> achange prog p a
      | UACPI_PARSE_OP_IMM_DECREMENT \<Rightarrow> achange prog p a
      | UACPI_PARSE_OP_ITEM_POP \<Rightarrow> achange prog p a
      | UACPI_PARSE_OP_IF_HAS_DATA \<Rightarrow> abranch prog p a
      | UACPI_PARSE_OP_IF_NULL \<Rightarrow> abranch prog p a
      | UACPI_PARSE_OP_IF_NOT_NULL \<Rightarrow> abranch prog p a
      | UACPI_PARSE_OP_IF_LAST_NULL \<Rightarrow> abranch prog p a
      | UACPI_PARSE_OP_IF_LAST_NOT_NULL \<Rightarrow> abranch prog p a
      | UACPI_PARSE_OP_IF_LAST_EQUALS \<Rightarrow> abranch prog p a
      | UACPI_PARSE_OP_IF_LAST_FALSE \<Rightarrow> abranch prog p a
      | UACPI_PARSE_OP_IF_LAST_TRUE \<Rightarrow> abranch prog p a
      | UACPI_PARSE_OP_IF_SWITCHED_FROM \<Rightarrow> abranch prog p a
      | UACPI_PARSE_OP_JMP \<Rightarrow> abranch prog p a
      | UACPI_PARSE_OP_CREATE_NAMESTRING \<Rightarrow> anamestring a
      | UACPI_PARSE_OP_CREATE_NAMESTRING_OR_NULL_IF_LOAD \<Rightarrow> anamestring a
      | UACPI_PARSE_OP_EXISTING_NAMESTRING \<Rightarrow> anamestring a
      | UACPI_PARSE_OP_EXISTING_NAMESTRING_OR_NULL \<Rightarrow> anamestring a
      | UACPI_PARSE_OP_EXISTING_NAMESTRING_OR_NULL_IF_LOAD \<Rightarrow> anamestring a
      | UACPI_PARSE_OP_INVOKE_HANDLER \<Rightarrow> ainvoke a
      | UACPI_PARSE_OP_INSTALL_NAMESPACE_NODE \<Rightarrow> abyte prog a (\<lambda>i a. aat a i (\<lambda>k. need (k = KNode) (Some [a\<lparr>a_ptr := AIdx i\<rparr>])))
      | UACPI_PARSE_OP_OBJECT_TRANSFER_TO_PREV \<Rightarrow> atransfer a
      | UACPI_PARSE_OP_OBJECT_COPY_TO_PREV \<Rightarrow> atransfer a
      | UACPI_PARSE_OP_STORE_TO_TARGET \<Rightarrow> astore prog p a
      | UACPI_PARSE_OP_STORE_TO_TARGET_INDIRECT \<Rightarrow> astore prog p a
      | UACPI_PARSE_OP_OBJECT_ALLOC \<Rightarrow> Some [a]
      | UACPI_PARSE_OP_OBJECT_ALLOC_TYPED \<Rightarrow> Some [a]
      | UACPI_PARSE_OP_EMPTY_OBJECT_ALLOC \<Rightarrow> Some [a]
      | UACPI_PARSE_OP_OBJECT_CONVERT_TO_SHALLOW_COPY \<Rightarrow> aconvert a
      | UACPI_PARSE_OP_OBJECT_CONVERT_TO_DEEP_COPY \<Rightarrow> aconvert a
      | UACPI_PARSE_OP_DISPATCH_METHOD_CALL \<Rightarrow> adispatch p a
      | UACPI_PARSE_OP_DISPATCH_TABLE_LOAD \<Rightarrow> adispatch p a
      | UACPI_PARSE_OP_CONVERT_NAMESTRING \<Rightarrow> athe a (\<lambda>k. need (k = KNode)
          (Some (a # become a NAMED_list)))
      | UACPI_PARSE_OP_SWITCH_TO_NEXT_IF_EQUALS \<Rightarrow>
          atracked a (abyte prog a (\<lambda>lo a. abyte prog a (\<lambda>hi a.
            Some [a, a\<lparr>a_from := a_op a, a_op := lo + hi * 256, a_pc := 0\<rparr>])))
      | _ \<Rightarrow> need (a_pc a \<noteq> 0) (Some (a\<lparr>a_ptr := ANone\<rparr> #
          (if a_op a = UACPI_AML_OP_WhileOp \<or> a_op a = UACPI_AML_OP_IfOp then [a\<lparr>a_ptr := AStale\<rparr>] else []))))"

definition astep :: "nat list \<Rightarrow> astate \<Rightarrow> astate list option" where
  "astep prog a =
     need (a_pc a < 256) (abyte prog a (\<lambda>b a.
       case parse_op_of b of
         None \<Rightarrow> None
       | Some p \<Rightarrow> (case aalloc prog p a of None \<Rightarrow> None | Some a \<Rightarrow> aswitch prog p a)))"

section \<open>The checker\<close>

fun kind_le :: "akind \<Rightarrow> akind \<Rightarrow> bool" where
  "kind_le k KAny = True"
| "kind_le (KImm v) (KImm None) = True"
| "kind_le KObj KEmpty = True"
| "kind_le k l = (k = l)"

fun kinds_le :: "akind list \<Rightarrow> akind list \<Rightarrow> bool" where
  "kinds_le [] [] = True"
| "kinds_le (k # ks) (l # ls) = (kind_le k l \<and> kinds_le ks ls)"
| "kinds_le ks ls = False"

text \<open>The second state stands for all that the first one stands for.\<close>

definition covers :: "astate \<Rightarrow> astate \<Rightarrow> bool" where
  "covers d c \<longleftrightarrow>
     a_pc d = a_pc c \<and> a_op d = a_op c \<and> a_from d = a_from c \<and> a_tracked d = a_tracked c \<and> a_ptr d = a_ptr c
     \<and> (let n = length (a_front d) in
        case a_back d of
          None \<Rightarrow> a_back c = None \<and> kinds_le (a_front c) (a_front d)
        | Some t \<Rightarrow> n \<le> length (a_front c) \<and> kinds_le (take n (a_front c)) (a_front d)
            \<and> (let rest = (case a_back c of None \<Rightarrow> drop n (a_front c) | Some s \<Rightarrow> s)
               in length t \<le> length rest \<and> kinds_le (drop (length rest - length t) rest) t))"

fun covered :: "astate list \<Rightarrow> astate \<Rightarrow> bool" where
  "covered [] c = False"
| "covered (d # ds) c = (covers d c \<or> covered ds c)"

definition fresh_entry :: "nat \<Rightarrow> astate" where
  "fresh_entry c = \<lparr>a_op = c, a_pc = 0, a_from = 0, a_tracked = 0, a_front = [], a_back = None, a_ptr = ANone\<rparr>"

text \<open>The states in which an operation begins: fresh, or switched to from another one.\<close>

definition entries :: "nat \<Rightarrow> astate list" where
  "entries c =
     (if c \<in> set NAMED_list then [(fresh_entry c)\<lparr>a_front := [KNode], a_ptr := ALast\<rparr>] else [fresh_entry c])
     @ (if c \<in> set FIELD_READ_list then [(fresh_entry c)\<lparr>a_front := [KEmpty], a_ptr := ADead\<rparr>] else [])
     @ (if c = UACPI_AML_OP_ElseOp
        then [(fresh_entry c)\<lparr>a_from := UACPI_AML_OP_IfOp, a_tracked := 1, a_front := [KPkg, KEmpty], a_ptr := ALast\<rparr>]
        else [])"

text \<open>The invariants of the loops that add items, at the place a loop goes back to.\<close>

definition loop_state :: "nat \<Rightarrow> nat \<Rightarrow> akind list \<Rightarrow> astate" where
  "loop_state c n ks = (fresh_entry c)\<lparr>a_pc := n, a_tracked := 1, a_front := ks, a_back := Some [], a_ptr := ALast\<rparr>"

definition loop_states :: "nat \<Rightarrow> astate list" where
  "loop_states c =
     (if c = UACPI_AML_OP_PackageOp then [loop_state c 3 [KPkg, KImm None]]
      else if c = UACPI_AML_OP_VarPackageOp then [loop_state c 2 [KPkg, KEmpty]]
      else if c = UACPI_AML_OP_FieldOp then [loop_state c 4 [KPkg, KNode, KImm None]]
      else if c = UACPI_AML_OP_IndexFieldOp then [loop_state c 5 [KPkg, KNode, KNode, KImm None]]
      else if c = UACPI_AML_OP_BankFieldOp then [loop_state c 6 [KPkg, KNode, KNode, KEmpty, KImm None]]
      else [])"

text \<open>
  The states still to visit: one of another operation has to be an entry of that one, one at the invariant of a
  loop is done, any other is followed.
\<close>

fun work :: "nat list \<Rightarrow> nat \<Rightarrow> astate list \<Rightarrow> nat \<Rightarrow> astate list \<Rightarrow> bool" where
  "work prog c loops n todo =
     (if n = 0 then False
      else case todo of
        [] \<Rightarrow> True
      | a # todo \<Rightarrow>
          if a_op a \<noteq> c then a_op a < 256 \<and> covered (entries (a_op a)) a \<and> work prog c loops (n - 1) todo
          else if covered loops a then work prog c loops (n - 1) todo
          else (case astep prog a of None \<Rightarrow> False | Some l \<Rightarrow> work prog c loops (n - 1) (l @ todo)))"

declare work.simps [simp del]

fun checked :: "nat list \<Rightarrow> nat \<Rightarrow> astate list \<Rightarrow> astate list \<Rightarrow> bool" where
  "checked prog c loops [] = True"
| "checked prog c loops (a # as) =
     ((case astep prog a of None \<Rightarrow> False | Some l \<Rightarrow> work prog c loops 400 l) \<and> checked prog c loops as)"

definition spec_program :: "uacpi_op_spec \<Rightarrow> nat list" where
  "spec_program spec =
     (if UACPI_OP_PROPERTY_OUT_OF_LINE \<in> op_props spec then indirect_decode_ops spec else decode_ops spec)"

definition accepts :: "uacpi_op_spec \<Rightarrow> bool" where
  "accepts spec \<longleftrightarrow>
     (let c = op_code spec; loops = loop_states c in checked (spec_program spec) c loops (entries c @ loops))"

end
