(* ===== verification/AcpiParseSound.thy ===== *)
theory AcpiParseSound
  imports AcpiParseCheck
begin

text \<open>
  The checker of \<open>AcpiParseCheck\<close> is sound: what an abstract state stands for, one lemma for each way the
  machine reads its program and its items, and one for each group of parse operations.
\<close>

section \<open>What an abstract state stands for\<close>

primrec fits :: "akind \<Rightarrow> item \<Rightarrow> bool" where
  "fits KNode it \<longleftrightarrow> it_type it = ITEM_NAMESPACE_NODE"
| "fits KObj it \<longleftrightarrow> it_type it = ITEM_OBJECT"
| "fits KEmpty it \<longleftrightarrow> it_type it \<in> ITEM_OBJECTS"
| "fits KPkg it \<longleftrightarrow> it_type it = ITEM_PACKAGE_LENGTH"
| "fits (KImm v) it \<longleftrightarrow> it_type it = ITEM_IMMEDIATE \<and> (\<forall>n. v = Some n \<longrightarrow> it_value it = n)"
| "fits KAny it \<longleftrightarrow> True"

definition shape :: "akind list \<Rightarrow> akind list option \<Rightarrow> item list \<Rightarrow> bool" where
  "shape front rear its \<longleftrightarrow>
     (case rear of
        None \<Rightarrow> list_all2 fits front its
      | Some t \<Rightarrow> length front + length t \<le> length its \<and> list_all2 fits front (take (length front) its)
          \<and> list_all2 fits t (drop (length its - length t) its))"

definition points :: "aptr \<Rightarrow> item_ptr \<Rightarrow> item list \<Rightarrow> bool" where
  "points a p its \<longleftrightarrow>
     (case a of
        ANone \<Rightarrow> p = NoItem
      | ALast \<Rightarrow> its \<noteq> [] \<and> p = Item (length its - 1)
      | AIdx i \<Rightarrow> p = Item i
      | AStale \<Rightarrow> p = Stale
      | ADead \<Rightarrow> p \<noteq> NoItem)"

definition stands :: "astate \<Rightarrow> item_ptr \<Rightarrow> op_context \<Rightarrow> bool" where
  "stands a p oc \<longleftrightarrow>
     \<not> preempted oc \<and> a_op a = oc_op oc \<and> a_pc a = pc oc \<and> a_from a = switched_from oc
     \<and> a_tracked a = tracked_pkg_idx oc \<and> shape (a_front a) (a_back a) (items oc) \<and> points (a_ptr a) p (items oc)"

definition runs :: "nat list \<Rightarrow> astate \<Rightarrow> item_ptr \<Rightarrow> op_context \<Rightarrow> bool" where
  "runs prog a p oc \<longleftrightarrow> stands a p oc \<and> op_program oc = prog"

lemma op_program_update [simp]:
  "op_program (oc\<lparr>pc := n\<rparr>) = op_program oc"
  "op_program (oc\<lparr>items := its\<rparr>) = op_program oc"
  "op_program (oc\<lparr>preempted := b\<rparr>) = op_program oc"
  "op_program (oc\<lparr>tracked_pkg_idx := n\<rparr>) = op_program oc"
  "op_program (oc\<lparr>switched_from := n\<rparr>) = op_program oc"
  by (simp_all add: op_program_def)

lemma runs_stands: "runs prog a p oc \<Longrightarrow> stands a p oc"
  by (simp add: runs_def)

lemma need_Some [simp]: "need b r = Some l \<longleftrightarrow> b \<and> r = Some l"
  by (simp add: need_def)

lemma fits_object: "\<lbrakk>is_obj k; fits k it\<rbrakk> \<Longrightarrow> it_type it \<in> ITEM_OBJECTS"
  by (auto simp: is_obj_def ITEM_OBJECTS_def)

lemma fits_imm: "\<lbrakk>is_imm k; fits k it\<rbrakk> \<Longrightarrow> it_type it = ITEM_IMMEDIATE"
  by (cases k) (auto simp: is_imm_def)

lemma fits_value: "\<lbrakk>fits l it; same_type l k; \<forall>n. k = KImm (Some n) \<longrightarrow> v = n\<rbrakk> \<Longrightarrow> fits k (it\<lparr>it_value := v\<rparr>)"
  by (cases l; cases k) (auto simp: same_type_def)

section \<open>Items of a shape\<close>

lemma list_all2_butlast: "list_all2 P xs ys \<Longrightarrow> list_all2 P (butlast xs) (butlast ys)"
  by (auto simp: list_all2_conv_all_nth nth_butlast)

lemma list_all2_last: "\<lbrakk>list_all2 P xs ys; xs \<noteq> []\<rbrakk> \<Longrightarrow> P (last xs) (last ys)"
  by (induct xs ys rule: list_all2_induct) auto

lemma drop_butlast_tail: "\<lbrakk>n < length xs\<rbrakk> \<Longrightarrow> drop n (butlast xs) = butlast (drop n xs)"
  by (simp add: butlast_drop)

lemma shape_length: "shape f b its \<Longrightarrow> length f \<le> length its"
  by (auto simp: shape_def dest: list_all2_lengthD split: option.splits)

lemma shape_at:
  assumes "shape f b its" "i < length f"
  shows "i < length its" "fits (f ! i) (its ! i)"
proof -
  show "i < length its" using assms shape_length by fastforce
  show "fits (f ! i) (its ! i)"
    using assms by (auto simp: shape_def list_all2_conv_all_nth split: option.splits)
qed

lemma shape_push_front: "\<lbrakk>shape f None its; fits k it\<rbrakk> \<Longrightarrow> shape (f @ [k]) None (its @ [it])"
  by (simp add: shape_def list_all2_appendI)

lemma shape_push_back: "\<lbrakk>shape f (Some t) its; fits k it\<rbrakk> \<Longrightarrow> shape f (Some (t @ [k])) (its @ [it])"
  by (auto simp: shape_def list_all2_appendI)

lemma shape_pop_front: "shape f None its \<Longrightarrow> shape (butlast f) None (butlast its)"
  by (simp add: shape_def list_all2_butlast)

lemma shape_pop_back: "\<lbrakk>shape f (Some t) its; t \<noteq> []\<rbrakk> \<Longrightarrow> shape f (Some (butlast t)) (butlast its)"
proof -
  assume s: "shape f (Some t) its" and t: "t \<noteq> []"
  then have l: "length f + length t \<le> length its" "0 < length t"
    by (auto simp: shape_def)
  then have "length f < length its" by linarith
  note l = this l
  have "list_all2 fits (butlast t) (butlast (drop (length its - length t) its))"
    using s by (simp add: shape_def list_all2_butlast)
  moreover have "butlast (drop (length its - length t) its) = drop (length its - length t) (butlast its)"
    by (simp add: butlast_drop)
  moreover have "length (butlast its) - length (butlast t) = length its - length t" using l by simp
  moreover have "take (length f) (butlast its) = take (length f) its"
    by (rule take_butlast) (use l in linarith)
  moreover have "length f + length (butlast t) \<le> length (butlast its)"
    unfolding length_butlast using l by linarith
  ultimately show ?thesis using s unfolding shape_def by simp
qed

lemma shape_last_front: "\<lbrakk>shape f None its; f \<noteq> []\<rbrakk> \<Longrightarrow> its \<noteq> [] \<and> fits (last f) (last its)"
  by (auto simp: shape_def list_all2_last)

lemma shape_last_back: "\<lbrakk>shape f (Some t) its; t \<noteq> []\<rbrakk> \<Longrightarrow> its \<noteq> [] \<and> fits (last t) (last its)"
proof -
  assume s: "shape f (Some t) its" and t: "t \<noteq> []"
  then have l: "length its - length t < length its" by (cases its) (auto simp: shape_def)
  have "fits (last t) (last (drop (length its - length t) its))"
    using s t by (auto simp: shape_def intro: list_all2_last)
  then show ?thesis using l by (auto simp: last_drop)
qed

lemma shape_empty: "shape f b its \<Longrightarrow> its = [] \<Longrightarrow> f = [] \<and> (b = None \<or> b = Some [])"
  by (auto simp: shape_def split: option.splits)

lemma shape_nonempty: "\<lbrakk>shape f b its; f \<noteq> []\<rbrakk> \<Longrightarrow> its \<noteq> []"
  using shape_empty by blast

lemma shape_update: "\<lbrakk>shape f b its; i < length f; fits k it\<rbrakk> \<Longrightarrow> shape (f[i := k]) b (its[i := it])"
  by (auto simp: shape_def list_all2_update_cong take_update_swap split: option.splits)

lemma update_last: "its \<noteq> [] \<Longrightarrow> its[length its - 1 := it] = butlast its @ [it]"
  by (cases its rule: rev_cases) simp_all

lemma shape_alast:
  assumes "shape (a_front a) (a_back a) its" "alast a = Some k"
  shows "its \<noteq> []" "fits k (last its)"
  using assms shape_last_front shape_last_back
  by (fastforce simp: alast_def split: option.splits if_splits)+

lemma shape_set_last:
  assumes "shape (a_front a) (a_back a) its" "alast a = Some l" "fits k it"
  shows "shape (a_front (aset_last k a)) (a_back (aset_last k a)) (butlast its @ [it])"
proof (cases "a_back a")
  case None
  with assms show ?thesis by (auto simp: aset_last_def intro: shape_push_front shape_pop_front)
next
  case (Some t)
  with assms have "t \<noteq> []" by (auto simp: alast_def split: if_splits)
  with Some assms show ?thesis by (auto simp: aset_last_def intro: shape_push_back shape_pop_back)
qed

lemma aset_last_other [simp]:
  "a_op (aset_last k a) = a_op a" "a_pc (aset_last k a) = a_pc a" "a_from (aset_last k a) = a_from a"
  "a_tracked (aset_last k a) = a_tracked a" "a_ptr (aset_last k a) = a_ptr a"
  by (simp_all add: aset_last_def split: option.split)

section \<open>Reading the program and the items\<close>

lemma runsD:
  assumes "runs prog a p oc"
  shows "\<not> preempted oc" "a_op a = oc_op oc" "a_pc a = pc oc" "a_from a = switched_from oc"
    "a_tracked a = tracked_pkg_idx oc" "shape (a_front a) (a_back a) (items oc)"
    "points (a_ptr a) p (items oc)" "op_program oc = prog"
  using assms by (simp_all add: runs_def stands_def)

lemma runs_pc: "runs prog a p oc \<Longrightarrow> runs prog (a\<lparr>a_pc := n\<rparr>) p (oc\<lparr>pc := n\<rparr>)"
  by (simp add: runs_def stands_def)

lemma runs_skip: "runs prog a p oc \<Longrightarrow> runs prog (askip n a) p (skip n oc)"
  by (simp add: runs_def stands_def askip_def skip_def)

lemma decode:
  assumes r: "runs prog a p oc" and a: "abyte prog a k = Some l"
    and q: "\<And>b a' oc'. \<lbrakk>runs prog a' p oc'; k b a' = Some l; oc_op oc' = oc_op oc\<rbrakk> \<Longrightarrow> Q (c b oc')"
  shows "Q (op_decode_byte oc c)"
proof -
  have n: "pc oc < length prog" "k (prog ! pc oc) (a\<lparr>a_pc := (pc oc + 1) mod 256\<rparr>) = Some l"
    using a by (auto simp: abyte_def runsD [OF r] split: if_splits)
  have "Q (c (prog ! pc oc) (oc\<lparr>pc := (pc oc + 1) mod 256\<rparr>))"
    by (rule q [OF runs_pc [OF r] n(2)]) simp
  then show ?thesis using n(1) by (simp add: op_decode_byte_def runsD(8) [OF r])
qed

lemma at_front:
  assumes "runs prog a p oc" "aat a i k = Some l"
    and "\<And>kd. \<lbrakk>fits kd (items oc ! i); k kd = Some l; i < length (a_front a); kd = a_front a ! i\<rbrakk> \<Longrightarrow> Q (c (items oc ! i))"
  shows "Q (at_item oc i c)"
  using assms(2,3) shape_at [OF runsD(6) [OF assms(1)]]
  by (auto simp: aat_def at_item_def split: if_splits)

lemma the_item:
  assumes "runs prog a p oc" "athe a k = Some l"
    and "\<And>kd i. \<lbrakk>p = Item i; i < length (items oc); fits kd (items oc ! i); k kd = Some l\<rbrakk> \<Longrightarrow> Q (c (items oc ! i))"
    and "oc_op oc \<in> {UACPI_AML_OP_WhileOp, UACPI_AML_OP_IfOp} \<Longrightarrow> Q (Fault StaleItem)"
  shows "Q (with_item p oc c)"
proof (cases "a_ptr a")
  case ALast
  then have p: "items oc \<noteq> []" "p = Item (length (items oc) - 1)"
    using runsD(7) [OF assms(1)] by (simp_all add: points_def)
  then have at: "last (items oc) = items oc ! (length (items oc) - 1)" by (simp add: last_conv_nth)
  have "\<exists>kd. fits kd (last (items oc)) \<and> k kd = Some l"
  proof (cases "alast a")
    case None
    then have "k KAny = Some l" using assms(2) ALast by (simp add: athe_def aitem_def split: if_splits)
    then show ?thesis using fits.simps(6) by blast
  next
    case (Some kd)
    then have "k kd = Some l" using assms(2) ALast by (simp add: athe_def aitem_def)
    then show ?thesis using shape_alast [OF runsD(6) [OF assms(1)] Some] by blast
  qed
  then show ?thesis using p at assms(3) by (auto simp: with_item_def)
next
  case (AIdx i)
  then have "p = Item i" using runsD(7) [OF assms(1)] by (simp add: points_def)
  moreover have "i < length (a_front a) \<and> k (a_front a ! i) = Some l"
    using assms(2) AIdx by (auto simp: athe_def aitem_def split: if_splits)
  ultimately show ?thesis
    using shape_at [OF runsD(6) [OF assms(1)]] assms(3) by (auto simp: with_item_def)
next
  case AStale
  then have "p = Stale" using runsD(7) [OF assms(1)] by (simp add: points_def)
  moreover have "oc_op oc \<in> {UACPI_AML_OP_WhileOp, UACPI_AML_OP_IfOp}"
    using assms(2) AStale runsD(2) [OF assms(1)] by (auto simp: athe_def split: if_splits)
  ultimately show ?thesis using assms(4) by (simp add: with_item_def)
qed (use assms(2) in \<open>simp_all add: athe_def aitem_def\<close>)

lemma tracked:
  assumes "runs prog a p oc" "atracked a r = Some l" "r = Some l \<Longrightarrow> Q x"
  shows "Q (apply_tracked_pkg oc x)"
proof (cases "tracked_pkg_idx oc = 0")
  case True
  then show ?thesis using assms runsD(5) [OF assms(1)] by (simp add: atracked_def apply_tracked_pkg_def)
next
  case False
  then have "aat a (tracked_pkg_idx oc - 1) (\<lambda>k. need (k = KPkg) r) = Some l"
    using assms(2) runsD(5) [OF assms(1)] by (simp add: atracked_def)
  then have "Q (at_item oc (tracked_pkg_idx oc - 1) (\<lambda>it. typed_item {ITEM_PACKAGE_LENGTH} it x))"
    by (rule at_front [OF assms(1)]) (use assms(3) in \<open>auto simp: typed_item_def\<close>)
  then show ?thesis using False by (simp add: apply_tracked_pkg_def)
qed

lemma set_item:
  assumes "runs prog a p oc" "aset k a r = Some l" "\<forall>n. k = KImm (Some n) \<longrightarrow> v = n"
    and "\<And>a'. \<lbrakk>runs prog a' p (set_value p v oc); r a' = Some l\<rbrakk> \<Longrightarrow> Q (c (set_value p v oc))"
  shows "Q (c (set_value p v oc))"
proof -
  from assms(2) obtain l' where a: "a_ptr a = ALast" "alast a = Some l'" "same_type l' k" "r (aset_last k a) = Some l"
    by (auto simp: aset_def split: if_splits option.splits)
  then have p: "items oc \<noteq> []" "p = Item (length (items oc) - 1)"
    using runsD(7) [OF assms(1)] by (simp_all add: points_def)
  have f: "fits l' (last (items oc))" using shape_alast [OF runsD(6) [OF assms(1)] a(2)] by simp
  let ?it = "(last (items oc))\<lparr>it_value := v\<rparr>"
  have s: "set_value p v oc = oc\<lparr>items := butlast (items oc) @ [?it]\<rparr>"
    using p by (simp add: set_value_def update_last [symmetric] last_conv_nth)
  have "shape (a_front (aset_last k a)) (a_back (aset_last k a)) (butlast (items oc) @ [?it])"
    by (rule shape_set_last [OF runsD(6) [OF assms(1)] a(2) fits_value [OF f a(3) assms(3)]])
  then have "runs prog (aset_last k a) p (set_value p v oc)"
    using runsD [OF assms(1)] a(1) p unfolding s runs_def stands_def points_def by simp
  then show ?thesis using assms(4) a(4) by blast
qed

section \<open>The outcome of a round\<close>

definition waiting :: "astate list \<Rightarrow> op_context \<Rightarrow> bool" where
  "waiting l oc \<longleftrightarrow>
     preempted oc \<and> (\<exists>q\<in>ARG_OPS. waits_at oc = Some q)
     \<and> (\<exists>a\<in>set l. alast a = Some KEmpty \<and> stands a NoItem (skip 1 (oc\<lparr>preempted := False\<rparr>))
          \<and> (a_op a \<in> {UACPI_AML_OP_WhileOp, UACPI_AML_OP_IfOp} \<longrightarrow> a\<lparr>a_ptr := AStale\<rparr> \<in> set l))"

text \<open>The object handed to the operation that waits for it.\<close>

definition given :: "op_context list \<Rightarrow> op_context list \<Rightarrow> bool" where
  "given rest rest' \<longleftrightarrow>
     rest' = rest
     \<or> (\<exists>w others it. rest = w # others \<and> items w \<noteq> [] \<and> it_type it = ITEM_OBJECT
          \<and> rest' = w\<lparr>items := butlast (items w) @ [it]\<rparr> # others)"

definition outcome :: "astate list \<Rightarrow> nat \<Rightarrow> op_context list \<Rightarrow> round \<Rightarrow> bool" where
  "outcome l c rest r \<longleftrightarrow>
     (case r of
        Fault f \<Rightarrow> f = StaleItem \<and> c \<in> {UACPI_AML_OP_WhileOp, UACPI_AML_OP_IfOp}
      | Fails \<Rightarrow> True
      | Goes p ocs \<Rightarrow>
          (\<exists>oc rest'. ocs = oc # rest' \<and> given rest rest' \<and> (\<exists>a\<in>set l. stands a p oc))
          \<or> rest \<noteq> [] \<and> ocs = resume_op [last rest] \<and> p = Stale
            \<and> oc_op (last rest) \<in> {UACPI_AML_OP_WhileOp, UACPI_AML_OP_IfOp}
      | Leaves ocs \<Rightarrow>
          ocs = resume_op rest
          \<or> (\<exists>oc. ocs = oc # rest \<and> ((\<exists>a\<in>set l. stands a NoItem oc) \<or> waiting l oc)))"

text \<open>The operation behind the current one waits for an argument.\<close>

definition behind :: "op_context list \<Rightarrow> bool" where
  "behind rest \<longleftrightarrow> (\<forall>w others. rest = w # others \<longrightarrow> items w \<noteq> [] \<and> (\<exists>q\<in>ARG_OPS. waits_at w = Some q))"

lemma outcome_fails [simp]: "outcome l c rest Fails"
  by (simp add: outcome_def)

lemma outcome_stale: "c \<in> {UACPI_AML_OP_WhileOp, UACPI_AML_OP_IfOp} \<Longrightarrow> outcome l c rest (Fault StaleItem)"
  by (simp add: outcome_def)

lemma outcome_goes: "\<lbrakk>runs prog a p oc; a \<in> set l\<rbrakk> \<Longrightarrow> outcome l c rest (Goes p (oc # rest))"
  by (auto simp: outcome_def given_def dest: runs_stands)

lemma outcome_stands: "\<lbrakk>stands a p oc; a \<in> set l\<rbrakk> \<Longrightarrow> outcome l c rest (Goes p (oc # rest))"
  by (auto simp: outcome_def given_def)

section \<open>The groups of parse operations\<close>

lemma end_op_sound: "\<lbrakk>runs prog a p oc; atracked a (Some l') = Some l\<rbrakk> \<Longrightarrow> outcome l c rest (end_op oc rest)"
  unfolding end_op_def by (rule tracked [of prog a p]) (auto simp: outcome_def)

lemma op_skip_if_null_sound:
  assumes "runs prog a p oc" "abyte prog a (\<lambda>i a. aat a i (\<lambda>_. atracked a (Some [a]))) = Some l"
  shows "outcome l c rest (op_skip_if_null p oc rest)"
  unfolding op_skip_if_null_def
proof (rule decode [OF assms], goal_cases)
  case (1 b a' oc')
  have t: "atracked a' (Some [a']) = Some l"
    using 1(2) by (auto simp: aat_def split: if_splits)
  then have l: "l = [a']" by (auto simp: atracked_def aat_def split: if_splits)
  show ?case
    by (rule at_front [OF 1(1,2)]) (use 1 t l in \<open>auto intro: outcome_goes end_op_sound\<close>)
qed

lemma op_load_sound:
  assumes "runs prog a p oc" "aload prog q a = Some l"
  shows "outcome l c rest (op_load inp q p oc rest)"
proof -
  consider "q = UACPI_PARSE_OP_LOAD_INLINE_IMM_AS_OBJECT" | "q = UACPI_PARSE_OP_LOAD_INLINE_IMM"
    | "q = UACPI_PARSE_OP_LOAD_IMM" | "q = UACPI_PARSE_OP_LOAD_IMM_AS_OBJECT" | "q = UACPI_PARSE_OP_RECORD_AML_PC"
    | "q \<notin> {UACPI_PARSE_OP_LOAD_INLINE_IMM_AS_OBJECT, UACPI_PARSE_OP_LOAD_INLINE_IMM, UACPI_PARSE_OP_LOAD_IMM,
          UACPI_PARSE_OP_LOAD_IMM_AS_OBJECT, UACPI_PARSE_OP_RECORD_AML_PC}"
    by blast
  then show ?thesis
  proof cases
    case 1
    then show ?thesis
      using assms runs_skip [OF assms(1), of 8] by (auto simp: aload_def op_load_def runsD [OF assms(1)] intro: outcome_goes)
  next
    case 2
    then have a: "abyte prog a (\<lambda>w a. need (a_pc a + w \<le> length prog)
          (aset (KImm (Some (inline_value (take (min 8 w) (drop (a_pc a) prog))))) a (\<lambda>a. Some [askip w a]))) = Some l"
      using assms(2) by (simp add: aload_def)
    have "outcome l c rest (op_decode_byte oc (\<lambda>src_width oc.
          if pc oc + src_width \<le> length (op_program oc)
          then Goes p (skip src_width (set_value p
                 (inline_value (take (min 8 src_width) (drop (pc oc) (op_program oc)))) oc) # rest)
          else Fault PastProgram))"
    proof (rule decode [OF assms(1) a], goal_cases)
      case (1 w a' oc')
      let ?v = "inline_value (take (min 8 w) (drop (pc oc') prog))"
      have "outcome l c rest (Goes p (skip w (set_value p ?v oc') # rest))"
        by (rule set_item [OF 1(1), where k = "KImm (Some ?v)" and r = "\<lambda>a. Some [askip w a]" and v = ?v])
          (use 1 in \<open>auto simp: runsD [OF 1(1)] intro: outcome_goes runs_skip\<close>)
      then show ?case using 1(2) by (simp add: runsD [OF 1(1)])
    qed
    then show ?thesis using 2 by (simp add: op_load_def)
  next
    case 3
    then have a: "abyte prog a (\<lambda>w a. need (w \<le> 8) (aset (KImm None) a (\<lambda>a. Some [a]))) = Some l"
      using assms(2) by (simp add: aload_def)
    have "outcome l c rest (op_decode_byte oc (\<lambda>width oc.
          if \<not> succeeds inp then Fails
          else if width > 8 then Fault ItemOverrun
          else Goes p (set_value p (yields inp) oc # rest)))"
    proof (rule decode [OF assms(1) a], goal_cases)
      case (1 w a' oc')
      have "outcome l c rest (Goes p (set_value p (yields inp) oc' # rest))"
        by (rule set_item [OF 1(1), where k = "KImm None" and r = "\<lambda>a. Some [a]"]) (use 1 in \<open>auto intro: outcome_goes\<close>)
      then show ?case using 1(2) by simp
    qed
    then show ?thesis using 3 by (simp add: op_load_def cong: if_cong)
  next
    case 4
    then have a: "abyte prog a (\<lambda>w a. need (w \<le> 8) (Some [a])) = Some l"
      using assms(2) by (simp add: aload_def)
    have "outcome l c rest (op_decode_byte oc (\<lambda>width oc.
          if \<not> succeeds inp then Fails else if width > 8 then Fault ItemOverrun else Goes p (oc # rest)))"
      by (rule decode [OF assms(1) a]) (auto intro: outcome_goes)
    then show ?thesis using 4 by (simp add: op_load_def cong: if_cong)
  next
    case 5
    have "outcome l c rest (Goes p (set_value p (yields inp) oc # rest))"
      by (rule set_item [OF assms(1), where k = "KImm None" and r = "\<lambda>a. Some [a]"])
        (use assms(2) 5 in \<open>auto simp: aload_def intro: outcome_goes\<close>)
    then show ?thesis using 5 by (simp add: op_load_def)
  next
    case 6
    then show ?thesis using assms by (auto simp: aload_def op_load_def intro: outcome_goes)
  qed
qed

lemma object_sound:
  assumes "runs prog a p oc" "aobject a = Some l"
  shows "outcome l (oc_op oc) rest (with_item p oc (\<lambda>it. typed_item ITEM_OBJECTS it
    (if succeeds inp then Goes p (oc # rest) else Fails)))"
  by (rule the_item [OF assms(1) assms(2) [unfolded aobject_def]])
    (use assms(1) in \<open>auto simp: typed_item_def fits_object intro: outcome_goes outcome_stale\<close>)

lemma decode_bytes_sound:
  assumes "runs prog a p oc" "abytes prog n a = Some l" "oc_op oc = c"
  shows "outcome l c rest (decode_bytes n oc (\<lambda>oc. with_item p oc (\<lambda>it. typed_item ITEM_OBJECTS it
    (if succeeds inp then Goes p (oc # rest) else Fails))))"
  using assms
proof (induction n arbitrary: a oc)
  case 0
  then show ?case using object_sound [of prog a p oc l rest inp] by simp
next
  case (Suc n)
  have "outcome l c rest (op_decode_byte oc (\<lambda>_ oc. decode_bytes n oc (\<lambda>oc. with_item p oc (\<lambda>it.
    typed_item ITEM_OBJECTS it (if succeeds inp then Goes p (oc # rest) else Fails)))))"
    by (rule decode [OF Suc.prems(1) Suc.prems(2) [unfolded abytes.simps]]) (use Suc in auto)
  then show ?case by simp
qed

lemma op_check_sound:
  assumes "runs prog a p oc" "acheck prog q a = Some l"
  shows "outcome l (oc_op oc) rest (op_check inp q p oc rest)"
proof -
  let ?check = "\<lambda>oc. with_item p oc (\<lambda>it. typed_item ITEM_OBJECTS it
                     (if succeeds inp then Goes p (oc # rest) else Fails))"
  consider "q = UACPI_PARSE_OP_TYPECHECK" | "q = UACPI_PARSE_OP_TYPECHECK_ONE_OF"
    | "q \<notin> {UACPI_PARSE_OP_TYPECHECK, UACPI_PARSE_OP_TYPECHECK_ONE_OF}" by blast
  then show ?thesis
  proof cases
    case 1
    then have a: "abyte prog a (\<lambda>_ a. aobject a) = Some l" using assms(2) by (simp add: acheck_def)
    have "outcome l (oc_op oc) rest (op_decode_byte oc (\<lambda>_ oc. ?check oc))"
      by (rule decode [OF assms(1) a]) (metis object_sound)
    then show ?thesis using 1 by (simp add: op_check_def)
  next
    case 2
    then have a: "abyte prog a (\<lambda>n a. abytes prog n a) = Some l" using assms(2) by (simp add: acheck_def)
    have "outcome l (oc_op oc) rest (op_decode_byte oc (\<lambda>n oc. decode_bytes n oc ?check))"
      by (rule decode [OF assms(1) a]) (auto intro: decode_bytes_sound)
    then show ?thesis using 2 by (simp add: op_check_def)
  next
    case 3
    then have a: "aobject a = Some l" using assms(2) by (simp add: acheck_def)
    have "outcome l (oc_op oc) rest (with_item p oc (\<lambda>it. typed_item ITEM_OBJECTS it (Goes p (oc # rest))))"
      by (rule the_item [OF assms(1) a [unfolded aobject_def]])
        (use assms(1) in \<open>auto simp: typed_item_def fits_object intro: outcome_goes outcome_stale\<close>)
    then show ?thesis using 3 by (simp add: op_check_def)
  qed
qed

lemma apop_runs:
  assumes "runs prog a p oc" "apop a = Some b" "arefresh b = Some d"
  shows "runs prog d (last_item (pop_item oc)) (pop_item oc)"
proof -
  have s: "shape (a_front b) (a_back b) (butlast (items oc))"
    using runsD(6) [OF assms(1)] assms(2)
    by (auto simp: apop_def split: option.splits if_splits intro: shape_pop_front shape_pop_back)
  have b: "a_op b = a_op a" "a_pc b = a_pc a" "a_from b = a_from a" "a_tracked b = a_tracked a"
    using assms(2) by (auto simp: apop_def split: option.splits if_splits)
  have "points (a_ptr d) (last_item (pop_item oc)) (butlast (items oc))"
    using assms(3) shape_nonempty [OF s] s
    by (auto simp: arefresh_def points_def last_item_def pop_item_def shape_def split: option.splits if_splits)
  moreover have "a_op d = a_op b" "a_pc d = a_pc b" "a_from d = a_from b" "a_tracked d = a_tracked b"
    "a_front d = a_front b" "a_back d = a_back b"
    using assms(3) by (auto simp: arefresh_def split: option.splits if_splits)
  ultimately show ?thesis
    using s b runsD [OF assms(1)] by (simp add: runs_def stands_def pop_item_def)
qed

lemma fits_decrement: "fits k it \<Longrightarrow> is_imm k \<Longrightarrow>
   fits (decrement k) (it\<lparr>it_value := (it_value it + (2 ^ 64 - 1)) mod 2 ^ 64\<rparr>)"
proof (cases k)
  case (KImm v)
  assume f: "fits k it"
  have "(n + (2 ^ 64 - 1)) mod 2 ^ 64 = n - 1" if "0 < n" "n < 256" for n :: nat
    using that by (simp add: mod_if)
  then show ?thesis using KImm f by (auto simp: decrement_def split: option.splits)
qed (auto simp: is_imm_def)

lemma runs_front:
  assumes "runs prog a p oc" "i < length (a_front a)" "fits k ((items oc ! i)\<lparr>it_value := v\<rparr>)"
  shows "runs prog (a\<lparr>a_front := (a_front a)[i := k]\<rparr>) p (set_value (Item i) v oc)"
  using assms shape_update [OF runsD(6) [OF assms(1)] assms(2,3)]
  by (auto simp: runs_def stands_def set_value_def points_def split: aptr.split)

lemma op_change_sound:
  assumes "runs prog a p oc" "achange prog q a = Some l"
  shows "outcome l c rest (op_change q p oc rest)"
proof -
  consider "q = UACPI_PARSE_OP_IMM_DECREMENT" | "q = UACPI_PARSE_OP_ITEM_POP"
    | "q \<notin> {UACPI_PARSE_OP_IMM_DECREMENT, UACPI_PARSE_OP_ITEM_POP}" by blast
  then show ?thesis
  proof cases
    case 1
    then have a: "abyte prog a (\<lambda>i a. aat a i (\<lambda>k. need (is_imm k)
          (Some [a\<lparr>a_front := (a_front a)[i := decrement k]\<rparr>]))) = Some l"
      using assms(2) by (simp add: achange_def)
    have "outcome l c rest (op_decode_byte oc (\<lambda>idx oc. at_item oc idx (\<lambda>it. typed_item {ITEM_IMMEDIATE} it
          (Goes p (set_value (Item idx) ((it_value it + (2 ^ 64 - 1)) mod 2 ^ 64) oc # rest)))))"
    proof (rule decode [OF assms(1) a], goal_cases)
      case (1 i a' oc')
      show ?case
      proof (rule at_front [OF 1(1,2)], goal_cases)
        case (1 kd)
        note this(1) and r = \<open>runs prog a' p oc'\<close>
        have "runs prog (a'\<lparr>a_front := (a_front a')[i := decrement kd]\<rparr>) p
            (set_value (Item i) ((it_value (items oc' ! i) + (2 ^ 64 - 1)) mod 2 ^ 64) oc')"
          by (rule runs_front [OF r 1(3)], rule fits_decrement) (use 1 in auto)
        then show ?case using 1 fits_imm [of kd "items oc' ! i"]
          unfolding typed_item_def by (auto intro: outcome_goes)
      qed
    qed
    then show ?thesis using 1 by (simp add: op_change_def)
  next
    case 2
    then show ?thesis
      using assms(2) outcome_goes [OF apop_runs [OF assms(1)]]
      by (auto simp: achange_def op_change_def Let_def split: option.splits)
  next
    case 3
    then show ?thesis using assms by (auto simp: achange_def op_change_def intro: outcome_goes)
  qed
qed

lemma branches_set: "set (branches tests n a) = (\<lambda>skips. if skips then askip n a else a) ` set tests"
  by (induction tests) auto

lemma go_sound:
  assumes "runs prog a p oc" "ago prog tests a = Some l" "b \<in> set tests"
  shows "outcome l c rest (op_decode_byte oc (\<lambda>n oc. Goes p ((if b then skip n oc else oc) # rest)))"
  by (rule decode [OF assms(1) assms(2) [unfolded ago_def]])
    (use assms(3) in \<open>auto simp: branches_set image_iff intro!: outcome_goes runs_skip\<close>)

lemma zero_tests: "fits k it \<Longrightarrow> (it_value it = 0) \<in> set (zero_tests k)"
  by (cases k) (auto simp: zero_tests_def split: option.splits)

lemma equal_tests: "fits k it \<Longrightarrow> (it_value it \<noteq> w) \<in> set (equal_tests w k)"
  by (cases k) (auto simp: equal_tests_def split: option.splits)

lemma both_goes:
  assumes "runs prog a p oc"
  shows "outcome [a, askip n a] c rest (Goes p (oc # rest))"
    and "outcome [a, askip n a] c rest (Goes p (skip n oc # rest))"
  using outcome_goes [OF assms] outcome_goes [OF runs_skip [OF assms]] by simp_all

lemma last_test_sound:
  assumes "runs prog a p oc" "athe a (\<lambda>k. ago prog (map (\<lambda>z. z = f) (zero_tests k)) a) = Some l"
  shows "outcome l (oc_op oc) rest (with_item p oc (\<lambda>it.
    op_decode_byte oc (\<lambda>n oc. Goes p ((if (it_value it = 0) = f then skip n oc else oc) # rest))))"
proof (rule the_item [OF assms], goal_cases)
  case (1 kd i)
  show ?case by (rule go_sound [OF assms(1) 1(4)]) (use zero_tests [OF 1(3)] in auto)
qed (simp add: outcome_stale)

lemma front_test_sound:
  assumes "runs prog a p oc"
    and "abyte prog a (\<lambda>i a. aat a i (\<lambda>k. ago prog (map (\<lambda>z. z = f) (zero_tests k)) a)) = Some l"
  shows "outcome l c rest (op_decode_byte oc (\<lambda>i oc. at_item oc i (\<lambda>it.
    op_decode_byte oc (\<lambda>n oc. Goes p ((if (it_value it = 0) = f then skip n oc else oc) # rest)))))"
proof (rule decode [OF assms], goal_cases)
  case (1 i a' oc')
  note r = 1
  show ?case
  proof (rule at_front [OF 1(1,2)], goal_cases)
    case (1 kd)
    show ?case by (rule go_sound [OF r(1) 1(2)]) (use zero_tests [OF 1(1)] in auto)
  qed
qed

lemma equals_sound:
  assumes "runs prog a p oc"
    and "abyte prog a (\<lambda>v a. abyte prog a (\<lambda>n a. athe a (\<lambda>k. need (is_imm k)
          (Some (branches (equal_tests v k) n a))))) = Some l"
  shows "outcome l (oc_op oc) rest (op_decode_byte oc (\<lambda>v oc. op_decode_byte oc (\<lambda>n oc.
    with_item p oc (\<lambda>it. typed_item {ITEM_IMMEDIATE} it
      (Goes p ((if it_value it \<noteq> v then skip n oc else oc) # rest))))))"
proof (rule decode [OF assms], goal_cases)
  case (1 v a1 oc1)
  show ?case
  proof (rule decode [OF 1(1,2)], goal_cases)
    case (1 n a2 oc2)
    note r = this
    have "outcome l (oc_op oc2) rest (with_item p oc2 (\<lambda>it. typed_item {ITEM_IMMEDIATE} it
        (Goes p ((if it_value it \<noteq> v then skip n oc2 else oc2) # rest))))"
    proof (rule the_item [OF r(1,2)], goal_cases)
      case (1 kd i)
      then have "is_imm kd" and l: "l = branches (equal_tests v kd) n a2" by auto
      then have "it_type (items oc2 ! i) = ITEM_IMMEDIATE" using 1 fits_imm by blast
      then show ?case
        using equal_tests [OF 1(3), of v] r(1) l
        by (auto simp: typed_item_def branches_set image_iff intro!: outcome_goes runs_skip)
    qed (simp add: outcome_stale)
    then show ?case using r(3) \<open>oc_op oc1 = oc_op oc\<close> by simp
  qed
qed

lemma false_true_sound:
  assumes "runs prog a p oc" "abyte prog a (\<lambda>n a. athe a (\<lambda>k. need (is_obj k) (Some [a, askip n a]))) = Some l"
  shows "outcome l (oc_op oc) rest (op_decode_byte oc (\<lambda>n oc. with_item p oc (\<lambda>it. typed_item ITEM_OBJECTS it
    (Goes p ((if b then skip n oc else oc) # rest)))))"
proof (rule decode [OF assms], goal_cases)
  case (1 n a' oc')
  have "outcome l (oc_op oc') rest (with_item p oc' (\<lambda>it. typed_item ITEM_OBJECTS it
    (Goes p ((if b then skip n oc' else oc') # rest))))"
    by (rule the_item [OF 1(1,2)])
      (use both_goes [OF 1(1)] in \<open>auto simp: typed_item_def fits_object outcome_stale\<close>)
  then show ?case using 1(3) by simp
qed

lemma has_data_sound:
  assumes "runs prog a p oc"
    and "abyte prog a (\<lambda>n a. need (a_tracked a \<noteq> 0) (atracked a (Some [a, askip n a]))) = Some l"
  shows "outcome l c rest (op_decode_byte oc (\<lambda>n oc.
    if tracked_pkg_idx oc = 0 then Fault NoSuchItem
    else at_item oc (tracked_pkg_idx oc - 1) (\<lambda>it. typed_item {ITEM_PACKAGE_LENGTH} it
      (Goes p ((if b then skip n oc else oc) # rest)))))"
proof (rule decode [OF assms], goal_cases)
  case (1 n a' oc')
  have t: "tracked_pkg_idx oc' \<noteq> 0"
    and a: "aat a' (tracked_pkg_idx oc' - 1) (\<lambda>k. need (k = KPkg) (Some [a', askip n a'])) = Some l"
    using 1(2) runsD(5) [OF 1(1)] by (auto simp: atracked_def)
  have "outcome l c rest (at_item oc' (tracked_pkg_idx oc' - 1) (\<lambda>it. typed_item {ITEM_PACKAGE_LENGTH} it
      (Goes p ((if b then skip n oc' else oc') # rest))))"
    by (rule at_front [OF 1(1) a]) (use both_goes [OF 1(1)] in \<open>auto simp: typed_item_def\<close>)
  then show ?case using t by simp
qed

lemma switched_sound:
  assumes "runs prog a p oc"
    and "abyte prog a (\<lambda>lo a. abyte prog a (\<lambda>hi a. ago prog [a_from a \<noteq> lo + hi * 256] a)) = Some l"
  shows "outcome l c rest (op_decode_aml_op oc (\<lambda>target oc.
    op_decode_byte oc (\<lambda>n oc'. Goes p ((if switched_from oc \<noteq> target then skip n oc' else oc') # rest))))"
  unfolding op_decode_aml_op_def
proof (rule decode [OF assms], goal_cases)
  case (1 lo a1 oc1)
  show ?case
  proof (rule decode [OF 1(1,2)], goal_cases)
    case (1 hi a2 oc2)
    show ?case by (rule go_sound [OF 1(1,2)]) (simp add: runsD(4) [OF 1(1)])
  qed
qed

lemma op_branch_sound:
  assumes "runs prog a p oc" "abranch prog q a = Some l"
  shows "outcome l (oc_op oc) rest (op_branch inp q p oc rest)"
proof -
  have last: "outcome l (oc_op oc) rest (op_branch inp q p oc rest)"
    if "q = UACPI_PARSE_OP_IF_LAST_NULL \<or> q = UACPI_PARSE_OP_IF_LAST_NOT_NULL"
    using last_test_sound [OF assms(1), of "q = UACPI_PARSE_OP_IF_LAST_NOT_NULL"] that assms(2)
    by (auto simp: abranch_def op_branch_def)
  have front: "outcome l (oc_op oc) rest (op_branch inp q p oc rest)"
    if "q = UACPI_PARSE_OP_IF_NULL \<or> q = UACPI_PARSE_OP_IF_NOT_NULL"
    using front_test_sound [OF assms(1), of "q = UACPI_PARSE_OP_IF_NOT_NULL"] that assms(2)
    by (auto simp: abranch_def op_branch_def)
  have truth: "outcome l (oc_op oc) rest (op_branch inp q p oc rest)"
    if "q = UACPI_PARSE_OP_IF_LAST_FALSE \<or> q = UACPI_PARSE_OP_IF_LAST_TRUE"
    using false_true_sound [OF assms(1), where b = "holds inp = (q = UACPI_PARSE_OP_IF_LAST_TRUE)"] that assms(2)
    by (auto simp: abranch_def op_branch_def)
  consider "q = UACPI_PARSE_OP_IF_LAST_NULL \<or> q = UACPI_PARSE_OP_IF_LAST_NOT_NULL"
    | "q = UACPI_PARSE_OP_IF_NULL \<or> q = UACPI_PARSE_OP_IF_NOT_NULL"
    | "q = UACPI_PARSE_OP_IF_LAST_FALSE \<or> q = UACPI_PARSE_OP_IF_LAST_TRUE"
    | "q = UACPI_PARSE_OP_IF_HAS_DATA" | "q = UACPI_PARSE_OP_IF_LAST_EQUALS" | "q = UACPI_PARSE_OP_IF_SWITCHED_FROM"
    | "q \<notin> {UACPI_PARSE_OP_IF_LAST_NULL, UACPI_PARSE_OP_IF_LAST_NOT_NULL, UACPI_PARSE_OP_IF_NULL,
         UACPI_PARSE_OP_IF_NOT_NULL, UACPI_PARSE_OP_IF_LAST_FALSE, UACPI_PARSE_OP_IF_LAST_TRUE,
         UACPI_PARSE_OP_IF_HAS_DATA, UACPI_PARSE_OP_IF_LAST_EQUALS, UACPI_PARSE_OP_IF_SWITCHED_FROM}"
    by blast
  then show ?thesis
  proof cases
    case 4
    have "outcome l (oc_op oc) rest (op_decode_byte oc (\<lambda>n oc.
        if tracked_pkg_idx oc = 0 then Fault NoSuchItem
        else at_item oc (tracked_pkg_idx oc - 1) (\<lambda>it. typed_item {ITEM_PACKAGE_LENGTH} it
          (Goes p ((if \<not> holds inp then skip n oc else oc) # rest)))))"
      by (rule has_data_sound [OF assms(1)]) (use 4 assms(2) in \<open>simp add: abranch_def\<close>)
    then show ?thesis using 4 by (simp add: op_branch_def)
  next
    case 5
    show ?thesis
      using equals_sound [OF assms(1)] assms(2) 5 by (simp add: abranch_def op_branch_def)
  next
    case 6
    show ?thesis
      using switched_sound [OF assms(1)] assms(2) 6 by (simp add: abranch_def op_branch_def)
  next
    case 7
    then have "abyte prog a (\<lambda>t a. Some [a\<lparr>a_pc := t\<rparr>]) = Some l"
      using assms(2) by (simp add: abranch_def)
    then have "outcome l (oc_op oc) rest (op_decode_byte oc (\<lambda>t oc. Goes p (oc\<lparr>pc := t\<rparr> # rest)))"
      by (rule decode [OF assms(1)]) (auto intro!: outcome_goes runs_pc)
    then show ?thesis using 7 by (simp add: op_branch_def)
  qed (use last front truth in auto)
qed

lemma op_namestring_sound:
  assumes "runs prog a p oc" "anamestring a = Some l"
  shows "outcome l c rest (op_namestring inp p oc rest)"
proof (cases "succeeds inp")
  case True
  have "aset KNode a (\<lambda>a. Some [a]) = Some l" using assms(2) by (simp add: anamestring_def)
  then have "outcome l c rest (Goes p (set_value p (yields inp) oc # rest))"
    by (rule set_item [OF assms(1)]) (auto intro: outcome_goes)
  then show ?thesis using True by (simp add: op_namestring_def)
next
  case False
  have "oc_op oc \<notin> {UACPI_AML_OP_WhileOp, UACPI_AML_OP_IfOp}"
    using assms(2) runsD(2) [OF assms(1)] by (simp add: anamestring_def)
  then show ?thesis using False by (auto simp: op_namestring_def outcome_def)
qed

lemma fits_edit:
  assumes "may_edit c i old new" "fits k old"
  shows "fits (if c = UACPI_AML_OP_LoadTableOp \<and> i \<in> {0, 3} then KAny else forget_kind k) new"
  using assms by (cases k) (auto simp: may_edit_def ITEM_OBJECTS_def)

lemma fits_forget: "fits k it \<Longrightarrow> fits (forget_kind k) it"
  by (cases k) auto

lemma edited_items:
  "length (items (edited inp oc)) = length (items oc)"
  "i < length (items oc) \<Longrightarrow> fits k (items oc ! i)
    \<Longrightarrow> fits (if oc_op oc = UACPI_AML_OP_LoadTableOp \<and> i \<in> {0, 3} then KAny else forget_kind k) (items (edited inp oc) ! i)"
  by (auto simp: edited_def fits_forget dest: fits_edit)

lemma aforget_other [simp]:
  "a_op (aforget a) = a_op a" "a_pc (aforget a) = a_pc a" "a_from (aforget a) = a_from a"
  "a_tracked (aforget a) = a_tracked a" "a_ptr (aforget a) = a_ptr a"
  by (simp_all add: aforget_def Let_def)

lemma edited_other [simp]:
  "oc_op (edited inp oc) = oc_op oc" "pc (edited inp oc) = pc oc" "preempted (edited inp oc) = preempted oc"
  "switched_from (edited inp oc) = switched_from oc" "tracked_pkg_idx (edited inp oc) = tracked_pkg_idx oc"
  "op_program (edited inp oc) = op_program oc"
  by (simp_all add: edited_def)

lemma edited_runs:
  assumes "runs prog a p oc"
  shows "runs prog (aforget a) p (edited inp oc)"
proof -
  note s = runsD(6) [OF assms]
  have f: "list_all2 fits (a_front (aforget a)) (take (length (a_front a)) (items (edited inp oc)))"
  proof -
    have "fits (a_front (aforget a) ! i) (items (edited inp oc) ! i)" if i: "i < length (a_front a)" for i
    proof -
      have "a_front (aforget a) ! i
          = (if a_op a = UACPI_AML_OP_LoadTableOp \<and> i \<in> {0, 3} then KAny else forget_kind (a_front a ! i))"
        using i by (cases "i = 0"; cases "i = 3") (auto simp: aforget_def Let_def)
      then show ?thesis using edited_items(2) [OF shape_at [OF s i]] runsD(2) [OF assms] by simp
    qed
    then show ?thesis
      using shape_length [OF s] edited_items(1) [of inp oc]
      by (auto simp: list_all2_conv_all_nth aforget_def Let_def)
  qed
  have "shape (a_front (aforget a)) (a_back (aforget a)) (items (edited inp oc))"
  proof (cases "a_back a")
    case None
    then have "length (a_front a) = length (items oc)" using s by (auto simp: shape_def list_all2_lengthD)
    then have "list_all2 fits (a_front (aforget a)) (items (edited inp oc))"
      using f edited_items(1) [of inp oc] by simp
    moreover have "a_back (aforget a) = None" using None by (simp add: aforget_def Let_def)
    ultimately show ?thesis by (simp add: shape_def)
  next
    case (Some t)
    let ?n = "length (items oc) - length t"
    define g where "g = (\<lambda>k. if a_op a = UACPI_AML_OP_LoadTableOp then KAny else forget_kind k)"
    have b: "a_back (aforget a) = Some (map g t)"
      using Some by (auto simp: aforget_def Let_def g_def)
    have l: "length (a_front a) + length t \<le> length (items oc)" and t: "list_all2 fits t (drop ?n (items oc))"
      using s Some by (auto simp: shape_def)
    have "fits (map g t ! i) (items (edited inp oc) ! (?n + i))" if i: "i < length t" for i
    proof -
      have "fits (t ! i) (items oc ! (?n + i))" "?n + i < length (items oc)"
        using t l i by (auto simp: list_all2_conv_all_nth)
      from edited_items(2) [OF this(2,1)] show ?thesis
        using i runsD(2) [OF assms] by (auto simp: g_def split: if_splits)
    qed
    then have "list_all2 fits (map g t) (drop ?n (items (edited inp oc)))"
      using l edited_items(1) [of inp oc] by (auto simp: list_all2_conv_all_nth)
    moreover have "length (a_front (aforget a)) = length (a_front a)" by (simp add: aforget_def Let_def)
    ultimately show ?thesis
      using f b l edited_items(1) [of inp oc] by (simp add: shape_def)
  qed
  moreover have "points (a_ptr a) p (items (edited inp oc))"
  proof -
    have "items (edited inp oc) = [] \<longleftrightarrow> items oc = []"
      using edited_items(1) [of inp oc] by (metis length_0_conv)
    then show ?thesis
      using runsD(7) [OF assms] edited_items(1) [of inp oc] by (simp add: points_def split: aptr.splits)
  qed
  ultimately show ?thesis
    using runsD [OF assms] by (simp add: runs_def stands_def)
qed

lemma become_set: "set (become a cs) = (\<lambda>c. a\<lparr>a_pc := 0, a_op := c\<rparr>) ` set cs"
  by (induction cs) auto

lemma FIELD_READS_list: "FIELD_READS = set FIELD_READ_list"
  by (simp add: FIELD_READS_def FIELD_READ_list_def)

lemma NAMED_OPS_list: "NAMED_OPS = set NAMED_list"
proof -
  have "{0..7::nat} = {0, 1, 2, 3, 4, 5, 6, 7}" by auto
  then show ?thesis by (simp add: NAMED_OPS_def NAMED_list_def FIELD_READS_list insert_commute Un_commute)
qed

lemma pop_shape:
  assumes "shape (a_front a) (a_back a) its" "apop a = Some b"
  shows "shape (a_front b) (a_back b) (butlast its)"
    and "a_from b = a_from a" "a_tracked b = a_tracked a"
  using assms by (auto simp: apop_def split: option.splits if_splits intro: shape_pop_front shape_pop_back)

lemma op_invoke_sound:
  assumes "runs prog a p oc" "ainvoke a = Some l"
  shows "outcome l c rest (op_invoke inp p oc rest)"
proof -
  have r: "runs prog (aforget a) p (edited inp oc)" by (rule edited_runs [OF assms(1)])
  have op: "a_op (aforget a) = oc_op oc"
    using runsD(2) [OF assms(1)] by simp
  have in_l: "aforget a \<in> set l"
    using assms(2) by (auto simp: ainvoke_def Let_def split: if_splits option.splits)
  show ?thesis
  proof (cases "oc_op oc = UACPI_AML_OP_DerefOfOp \<and> becomes inp \<in> FIELD_READS")
    case False
    then show ?thesis using outcome_goes [OF r in_l] by (auto simp: op_invoke_def)
  next
    case True
    then obtain b where b: "apop (aforget a) = Some b" and n: "a_ptr a \<noteq> ANone"
      and l: "l = aforget a # become (b\<lparr>a_ptr := ADead\<rparr>) FIELD_READ_list"
      using assms(2) op by (auto simp: ainvoke_def Let_def split: option.splits)
    have "p \<noteq> NoItem" using n runsD(7) [OF assms(1)] by (auto simp: points_def split: aptr.splits)
    then have "stands (b\<lparr>a_ptr := ADead, a_pc := 0, a_op := becomes inp\<rparr>) p
        ((pop_item (edited inp oc))\<lparr>oc_op := becomes inp, pc := 0\<rparr>)"
      using pop_shape [OF runsD(6) [OF r] b] runsD [OF r]
      by (simp add: stands_def pop_item_def points_def)
    moreover have "b\<lparr>a_ptr := ADead, a_pc := 0, a_op := becomes inp\<rparr> \<in> set l"
      using True by (auto simp: l become_set FIELD_READS_list)
    ultimately show ?thesis using True outcome_stands by (simp add: op_invoke_def)
  qed
qed

lemma op_install_sound:
  assumes "runs prog a p oc"
    and "abyte prog a (\<lambda>i a. aat a i (\<lambda>k. need (k = KNode) (Some [a\<lparr>a_ptr := AIdx i\<rparr>]))) = Some l"
  shows "outcome l c rest (op_install inp oc rest)"
  unfolding op_install_def
proof (rule decode [OF assms], goal_cases)
  case (1 i a' oc')
  note r = this
  show ?case
  proof (rule at_front [OF r(1,2)], goal_cases)
    case (1 kd)
    then have k: "kd = KNode" "l = [a'\<lparr>a_ptr := AIdx i\<rparr>]" by auto
    have "a'\<lparr>a_front := (a_front a')[i := KNode]\<rparr> = a'" using 1(4) k(1) list_update_id [of "a_front a'" i] by simp
    then have "runs prog a' p (set_value (Item i) 0 oc')"
      using runs_front [OF r(1) 1(3), of KNode 0] 1(1) k(1) by simp
    then have "runs prog (a'\<lparr>a_ptr := AIdx i\<rparr>) (Item i) (set_value (Item i) 0 oc')"
      by (simp add: runs_def stands_def points_def)
    then have "outcome l c rest (Goes (Item i) (set_value (Item i) 0 oc' # rest))"
      by (rule outcome_goes) (simp add: k(2))
    then show ?case using 1(1) k(1) by (simp add: typed_item_def)
  qed
qed

lemma op_transfer_sound:
  assumes "runs prog a p oc" "atransfer a = Some l" "behind rest"
  shows "outcome l (oc_op oc) rest (op_transfer inp p oc rest)"
proof (cases rest)
  case Nil
  have "a \<in> set l"
    using assms(2) by (auto simp: atransfer_def athe_def split: if_splits option.splits)
  then show ?thesis using Nil outcome_goes [OF assms(1)] by (auto simp: op_transfer_def)
next
  case (Cons w others)
  then obtain q where w: "items w \<noteq> []" "waits_at w = Some q" "q \<in> ARG_OPS"
    using assms(3) by (auto simp: behind_def)
  have t: "athe a (\<lambda>k. need (is_obj k) (Some [a])) = Some l" using assms(2) by (simp add: atransfer_def)
  have goes: "outcome [a] (oc_op oc) (w # others) (Goes p (oc # w\<lparr>items := butlast (items w) @
      [\<lparr>it_type = ITEM_OBJECT, it_value = v\<rparr>]\<rparr> # others))" for v
  proof -
    have "given (w # others) (w\<lparr>items := butlast (items w) @ [it]\<rparr> # others)" if "it_type it = ITEM_OBJECT" for it
      using w(1) that by (auto simp: given_def)
    then show ?thesis using runs_stands [OF assms(1)] by (simp add: outcome_def)
  qed
  have "outcome l (oc_op oc) rest (with_item p oc (\<lambda>it. typed_item ITEM_OBJECTS it
      (if \<not> succeeds inp then Fails
       else if items w = [] then Fault NoSuchItem
       else Goes p (oc # w\<lparr>items := butlast (items w) @
              [\<lparr>it_type = ITEM_OBJECT, it_value = yields inp\<rparr>]\<rparr> # others))))"
    by (rule the_item [OF assms(1) t])
      (use Cons w goes in \<open>auto simp: typed_item_def fits_object outcome_stale\<close>)
  then show ?thesis using Cons w by (simp add: op_transfer_def)
qed

lemma op_store_sound:
  assumes "runs prog a p oc" "astore prog q a = Some l"
  shows "outcome l (oc_op oc) rest (op_store inp q p oc rest)"
  unfolding op_store_def
proof (rule decode [OF assms(1) assms(2) [unfolded astore_def]], goal_cases)
  case (1 dst a' oc')
  note r = this
  show ?case
  proof (rule at_front [OF r(1,2)], goal_cases)
    case (1 kd)
    have s: "typed_slot (oc_op oc') dst ITEM_OBJECTS (items oc' ! dst) R = R" for R
      using 1(1,2) runsD(2) [OF r(1)] fits_object by (auto simp: typed_slot_def typed_item_def)
    show ?case
    proof (cases "q = UACPI_PARSE_OP_STORE_TO_TARGET_INDIRECT")
      case True
      then have a: "abyte prog a' (\<lambda>src a. aat a src (\<lambda>k. need (is_obj k) (Some [a]))) = Some l" using 1(2) by simp
      have "outcome l (oc_op oc) rest (op_decode_byte oc' (\<lambda>src oc. at_item oc src (\<lambda>it. typed_item ITEM_OBJECTS it
          (if succeeds inp then Goes p (oc # rest) else Fails))))"
      proof (rule decode [OF r(1) a], goal_cases)
        case (1 src a2 oc2)
        show ?case
          by (rule at_front [OF 1(1,2)]) (use 1(1) in \<open>auto simp: typed_item_def fits_object intro: outcome_goes\<close>)
      qed
      then show ?thesis using True by (simp add: Let_def s)
    next
      case False
      then have a: "athe a' (\<lambda>k. need (is_obj k) (Some [a'])) = Some l" using 1(2) by simp
      have "outcome l (oc_op oc') rest (with_item p oc' (\<lambda>it. typed_item ITEM_OBJECTS it
          (if succeeds inp then Goes p (oc' # rest) else Fails)))"
        by (rule object_sound [OF r(1) a [folded aobject_def]])
      then show ?thesis using False r(3) by (simp add: Let_def s [unfolded r(3)])
    qed
  qed
qed

lemma op_convert_sound:
  assumes "runs prog a p oc" "aconvert a = Some l"
  shows "outcome l (oc_op oc) rest (op_convert inp p oc rest)"
  unfolding op_convert_def
proof (rule the_item [OF assms(1) assms(2) [unfolded aconvert_def]], goal_cases)
  case (1 kd i)
  let ?oc = "pop_item oc" and ?p = "last_item (pop_item oc)" and ?v = "it_value (items oc ! i)"
  obtain b d where b: "apop a = Some b" "arefresh b = Some d"
    and d: "athe d (\<lambda>k. need (is_obj k) (aset k d (\<lambda>a. Some [a]))) = Some l"
    using 1(4) by (auto split: option.splits)
  have t: "it_type (items oc ! i) \<in> ITEM_OBJECTS" using 1(3,4) fits_object by auto
  have r: "runs prog d ?p ?oc" by (rule apop_runs [OF assms(1) b])
  have "outcome l (oc_op ?oc) rest (with_item ?p ?oc (\<lambda>it. typed_item ITEM_OBJECTS it
      (if succeeds inp then Goes ?p (set_value ?p ?v ?oc # rest) else Fails)))"
  proof (rule the_item [OF r d], goal_cases)
    case (1 k j)
    then have k: "is_obj k" and s: "aset k d (\<lambda>a. Some [a]) = Some l" by auto
    have "outcome l (oc_op ?oc) rest (Goes ?p (set_value ?p ?v ?oc # rest))"
      by (rule set_item [OF r s]) (use k in \<open>auto simp: is_obj_def intro: outcome_goes\<close>)
    then show ?case using 1(3) k fits_object by (simp add: typed_item_def)
  qed (simp add: outcome_stale)
  moreover have "oc_op ?oc = oc_op oc" by (simp add: pop_item_def)
  ultimately show ?case by (simp only: Let_def typed_item_def t if_True)
qed (simp add: outcome_stale)

lemma alast_ptr [simp]: "alast (a\<lparr>a_ptr := x\<rparr>) = alast a"
  by (cases "a_back a") (simp_all add: alast_def)

lemma runs_none: "runs prog a p oc \<Longrightarrow> stands (a\<lparr>a_ptr := ANone\<rparr>) NoItem oc"
  by (simp add: runs_def stands_def points_def)

lemma outcome_leaves: "runs prog a p oc \<Longrightarrow> outcome [a\<lparr>a_ptr := ANone\<rparr>] c rest (Leaves (oc # rest))"
  by (auto simp: outcome_def dest: runs_none)

lemma op_dispatch_sound:
  assumes "runs prog a p oc" "adispatch q a = Some l"
  shows "outcome l c rest (op_dispatch inp q oc rest)"
proof (cases "q = UACPI_PARSE_OP_DISPATCH_METHOD_CALL")
  case True
  then have a: "aat a 0 (\<lambda>k. need (k = KNode) (Some [a\<lparr>a_ptr := ANone\<rparr>])) = Some l"
    using assms(2) by (simp add: adispatch_def)
  have "outcome l c rest (at_item oc 0 (\<lambda>it. typed_item {ITEM_NAMESPACE_NODE} it
      (if succeeds inp then Leaves (oc # rest) else Fails)))"
    by (rule at_front [OF assms(1) a]) (use outcome_leaves [OF assms(1)] in \<open>auto simp: typed_item_def\<close>)
  then show ?thesis using True by (simp add: op_dispatch_def)
next
  case False
  then have a: "aat a 0 (\<lambda>k. need (handler_slot (a_op a) 0 \<or> k = KNode)
      (aat a 1 (\<lambda>k. need (is_obj k) (Some [a\<lparr>a_ptr := ANone\<rparr>])))) = Some l"
    using assms(2) by (simp add: adispatch_def)
  have "outcome l c rest (at_item oc 0 (\<lambda>it. typed_slot (oc_op oc) 0 {ITEM_NAMESPACE_NODE} it
      (at_item oc 1 (\<lambda>it. typed_item ITEM_OBJECTS it (if succeeds inp then Leaves (oc # rest) else Fails)))))"
  proof (rule at_front [OF assms(1) a], goal_cases)
    case (1 k0)
    then have a1: "aat a 1 (\<lambda>k. need (is_obj k) (Some [a\<lparr>a_ptr := ANone\<rparr>])) = Some l"
      and "handler_slot (oc_op oc) 0 \<or> it_type (items oc ! 0) = ITEM_NAMESPACE_NODE"
      using runsD(2) [OF assms(1)] by (auto simp: need_def split: if_splits)
    then have "typed_slot (oc_op oc) 0 {ITEM_NAMESPACE_NODE} (items oc ! 0) R = R" for R
      by (auto simp: typed_slot_def typed_item_def)
    then show ?case
      by (simp only:) (rule at_front [OF assms(1) a1],
        use outcome_leaves [OF assms(1)] in \<open>auto simp: typed_item_def fits_object\<close>)
  qed
  then show ?thesis using False by (simp add: op_dispatch_def)
qed

lemma op_convert_namestring_sound:
  assumes "runs prog a p oc" "athe a (\<lambda>k. need (k = KNode) (Some (a # become a NAMED_list))) = Some l"
  shows "outcome l (oc_op oc) rest (op_convert_namestring inp p oc rest)"
  unfolding op_convert_namestring_def
proof (rule the_item [OF assms], goal_cases)
  case (1 kd i)
  then have l: "l = a # become a NAMED_list" and t: "it_type (items oc ! i) = ITEM_NAMESPACE_NODE" by auto
  have "outcome l (oc_op oc) rest (Goes p (oc\<lparr>pc := 0, oc_op := becomes inp\<rparr> # rest))" if "becomes inp \<in> NAMED_OPS"
  proof (rule outcome_stands)
    show "stands (a\<lparr>a_pc := 0, a_op := becomes inp\<rparr>) p (oc\<lparr>pc := 0, oc_op := becomes inp\<rparr>)"
      using runs_stands [OF assms(1)] by (simp add: stands_def)
    show "a\<lparr>a_pc := 0, a_op := becomes inp\<rparr> \<in> set l"
      using that by (auto simp: l become_set NAMED_OPS_list)
  qed
  moreover have "outcome l (oc_op oc) rest (Goes p (oc # rest))"
    by (rule outcome_goes [OF assms(1)]) (simp add: l)
  ultimately show ?case using t by (simp add: typed_item_def)
qed (simp add: outcome_stale)

lemma op_switch_sound:
  assumes "runs prog a p oc"
    and "atracked a (abyte prog a (\<lambda>lo a. abyte prog a (\<lambda>hi a.
            Some [a, a\<lparr>a_from := a_op a, a_op := lo + hi * 256, a_pc := 0\<rparr>]))) = Some l"
  shows "outcome l c rest (op_switch inp p oc rest)"
  unfolding op_switch_def op_decode_aml_op_def
proof (rule tracked [OF assms], goal_cases)
  case 1
  show ?case
  proof (rule decode [OF assms(1) 1], goal_cases)
    case (1 lo a1 oc1)
    show ?case
    proof (rule decode [OF 1(1,2)], goal_cases)
      case (1 hi a2 oc2)
      let ?op = "lo + hi * 256"
      have "stands (a2\<lparr>a_from := a_op a2, a_op := ?op, a_pc := 0\<rparr>) p
          (oc2\<lparr>switched_from := oc_op oc2, oc_op := ?op, pc := 0\<rparr>)"
        using runs_stands [OF 1(1)] by (simp add: stands_def)
      then show ?case
        using 1(2) outcome_goes [OF 1(1)] by (auto intro: outcome_stands)
    qed
  qed
qed

section \<open>One round\<close>

lemma pkglen_sound:
  assumes "runs prog a p oc" "aset KPkg a (\<lambda>a. Some [a]) = Some l"
  shows "outcome l c rest (if succeeds inp then Goes p (set_value p (yields inp) oc # rest) else Fails)"
proof -
  have "outcome l c rest (Goes p (set_value p (yields inp) oc # rest))"
    by (rule set_item [OF assms]) (auto intro: outcome_goes)
  then show ?thesis by simp
qed

lemma tracked_pkglen_sound:
  assumes "runs prog a p oc"
    and "need (a_back a = None) (let a = a\<lparr>a_tracked := length (a_front a)\<rparr> in aset KPkg a (\<lambda>a. Some [a])) = Some l"
  shows "outcome l c rest (let oc = oc\<lparr>tracked_pkg_idx := length (items oc)\<rparr> in
    if succeeds inp then Goes p (set_value p (yields inp) oc # rest) else Fails)"
proof -
  have b: "a_back a = None" using assms(2) by simp
  then have "length (a_front a) = length (items oc)"
    using runsD(6) [OF assms(1)] by (simp add: shape_def list_all2_lengthD)
  then have "runs prog (a\<lparr>a_tracked := length (a_front a)\<rparr>) p (oc\<lparr>tracked_pkg_idx := length (items oc)\<rparr>)"
    using assms(1) by (simp add: runs_def stands_def)
  moreover have "aset KPkg (a\<lparr>a_tracked := length (a_front a)\<rparr>) (\<lambda>a. Some [a]) = Some l"
    using assms(2) by (simp add: Let_def)
  ultimately show ?thesis unfolding Let_def by (rule pkglen_sound)
qed

text \<open>At an argument the operation is left with its program counter on the parse operation.\<close>

lemma wait_sound:
  assumes "runs prog a p oc" "alast a = Some KEmpty" "q \<in> ARG_OPS"
    and "0 < pc oc" "pc oc < 256" "waits_at (oc\<lparr>pc := pc oc - 1\<rparr>) = Some q"
    and "l = a\<lparr>a_ptr := ANone\<rparr> #
      (if a_op a = UACPI_AML_OP_WhileOp \<or> a_op a = UACPI_AML_OP_IfOp then [a\<lparr>a_ptr := AStale\<rparr>] else [])"
  shows "outcome l c rest (Leaves (oc\<lparr>preempted := True, pc := pc oc - 1\<rparr> # rest))"
proof -
  let ?w = "oc\<lparr>preempted := True, pc := pc oc - 1\<rparr>" and ?a = "a\<lparr>a_ptr := ANone\<rparr>"
  have "skip 1 (?w\<lparr>preempted := False\<rparr>) = oc"
    using assms(4,5) runsD(1) [OF assms(1)] by (cases oc) (simp add: skip_def)
  moreover have "waits_at ?w = waits_at (oc\<lparr>pc := pc oc - 1\<rparr>)" unfolding waits_at_def op_program_update by simp
  moreover have "alast ?a = Some KEmpty" using assms(2) by simp
  moreover have "?a \<in> set l" "a_op ?a \<in> {UACPI_AML_OP_WhileOp, UACPI_AML_OP_IfOp} \<longrightarrow> ?a\<lparr>a_ptr := AStale\<rparr> \<in> set l"
    using assms(7) by simp_all
  moreover have "stands ?a NoItem oc" by (rule runs_none [OF assms(1)])
  ultimately have "waiting l ?w"
    unfolding waiting_def using assms(3,6) by (intro conjI bexI [of _ ?a] bexI [of _ q]) simp_all
  then show ?thesis by (auto simp: outcome_def)
qed

lemma exec_switch_sound:
  assumes "runs prog a p oc" "aswitch prog q a = Some l" "behind rest"
    and "q \<in> ARG_OPS \<Longrightarrow> alast a = Some KEmpty"
    and "q \<in> ARG_OPS \<Longrightarrow> pc oc < 256"
    and "\<lbrakk>q \<in> ARG_OPS; 0 < pc oc\<rbrakk> \<Longrightarrow> waits_at (oc\<lparr>pc := pc oc - 1\<rparr>) = Some q"
  shows "outcome l (oc_op oc) rest (exec_switch inp q p oc rest)"
proof (cases "q \<in> ARG_OPS")
  case True
  then have "a_pc a \<noteq> 0" and "l = a\<lparr>a_ptr := ANone\<rparr> #
      (if a_op a = UACPI_AML_OP_WhileOp \<or> a_op a = UACPI_AML_OP_IfOp then [a\<lparr>a_ptr := AStale\<rparr>] else [])"
    using assms(2) by (auto simp: ARG_OPS_def aswitch_def split: if_splits)
  then have "outcome l (oc_op oc) rest (Leaves (oc\<lparr>preempted := True, pc := pc oc - 1\<rparr> # rest))"
    using True assms runsD(3) [OF assms(1)] by (intro wait_sound) auto
  then show ?thesis using True by (auto simp: ARG_OPS_def exec_switch_def)
next
  case False
  note groups = end_op_sound [OF assms(1)] op_skip_if_null_sound [OF assms(1)] op_load_sound [OF assms(1)]
    op_check_sound [OF assms(1)] op_change_sound [OF assms(1)] op_branch_sound [OF assms(1)]
    op_namestring_sound [OF assms(1)] op_invoke_sound [OF assms(1)] op_install_sound [OF assms(1)]
    op_transfer_sound [OF assms(1) _ assms(3)] op_store_sound [OF assms(1)] op_convert_sound [OF assms(1)]
    op_dispatch_sound [OF assms(1)] op_convert_namestring_sound [OF assms(1)] op_switch_sound [OF assms(1)]
    pkglen_sound [OF assms(1)] tracked_pkglen_sound [OF assms(1)] outcome_goes [OF assms(1)]
  have "q \<notin> ARG_OPS \<longrightarrow> aswitch prog q a = Some l \<longrightarrow> outcome l (oc_op oc) rest (exec_switch inp q p oc rest)"
    by (cases q; ((simp add: ARG_OPS_def; fail)
      | (simp only: exec_switch_def aswitch_def uacpi_parse_op.case, intro impI, rule groups, (assumption | auto))))
  then show ?thesis using False assms(2) by simp
qed

lemma runs_push:
  assumes "runs prog a p oc" "fits k it"
  shows "runs prog (apush k a) (Item (length (items oc))) (oc\<lparr>items := items oc @ [it]\<rparr>)"
proof -
  have "shape (a_front (apush k a)) (a_back (apush k a)) (items oc @ [it])"
    using runsD(6) [OF assms(1)] assms(2)
    by (auto simp: apush_def split: option.splits intro: shape_push_front shape_push_back)
  moreover have "a_op (apush k a) = a_op a" "a_pc (apush k a) = a_pc a" "a_from (apush k a) = a_from a"
    "a_tracked (apush k a) = a_tracked a" "a_ptr (apush k a) = ALast"
    by (simp_all add: apush_def split: option.splits)
  ultimately show ?thesis using runsD [OF assms(1)] by (simp add: runs_def stands_def points_def)
qed

lemma apush_last: "alast (apush k a) = Some k"
  by (auto simp: alast_def apush_def split: option.splits)

lemma refresh_runs:
  assumes "runs prog a NoItem oc" "arefresh a = Some b"
  shows "runs prog b (last_item oc) oc"
proof -
  have "points (a_ptr b) (last_item oc) (items oc)"
    using assms(2) runsD(6) [OF assms(1)] shape_nonempty
    by (auto simp: arefresh_def points_def last_item_def shape_def split: option.splits if_splits)
  moreover have "a_op b = a_op a" "a_pc b = a_pc a" "a_from b = a_from a" "a_tracked b = a_tracked a"
    "a_front b = a_front a" "a_back b = a_back a"
    using assms(2) by (auto simp: arefresh_def split: option.splits if_splits)
  ultimately show ?thesis using runsD [OF assms(1)] by (simp add: runs_def stands_def)
qed

lemma points_none: "points a p its \<Longrightarrow> p = NoItem \<longleftrightarrow> a = ANone"
  by (cases a) (auto simp: points_def)

lemma alloc_sound:
  assumes r: "runs prog a p oc" and a: "aalloc prog q a = Some b" and f: "Q Fails"
    and q: "\<And>p' oc'. \<lbrakk>runs prog b p' oc'; oc_op oc' = oc_op oc;
        q \<in> ARG_OPS \<Longrightarrow> alast b = Some KEmpty; q \<noteq> UACPI_PARSE_OP_OBJECT_ALLOC_TYPED \<Longrightarrow> pc oc' = pc oc\<rbrakk>
      \<Longrightarrow> Q (c p' oc')"
  shows "Q (alloc_item inp q p oc c)"
proof (cases "parse_op_generates_item q = ITEM_NONE")
  case True
  have n: "q \<notin> ARG_OPS" using True by (auto simp: ARG_OPS_def parse_op_generates_item_def)
  show ?thesis
  proof (cases "p = NoItem")
    case True
    then have "arefresh a = Some b"
      using a \<open>parse_op_generates_item q = ITEM_NONE\<close> points_none [OF runsD(7) [OF r]] by (simp add: aalloc_def)
    then have "Q (c (last_item oc) oc)" using True n refresh_runs [OF r [unfolded True]] by (intro q) auto
    then show ?thesis using True \<open>parse_op_generates_item q = ITEM_NONE\<close> by (simp add: alloc_item_def)
  next
    case False
    then have "b = a"
      using a True points_none [OF runsD(7) [OF r]] by (simp add: aalloc_def)
    then have "Q (c p oc)" using n r by (intro q) auto
    then show ?thesis using True False by (simp add: alloc_item_def)
  qed
next
  case False
  let ?t = "parse_op_generates_item q" and ?n = "length (items oc)"
  let ?oc = "\<lambda>v. oc\<lparr>items := items oc @ [\<lparr>it_type = ?t, it_value = v\<rparr>]\<rparr>"
  have arg: "?t = ITEM_EMPTY_OBJECT" "q \<noteq> UACPI_PARSE_OP_OBJECT_ALLOC_TYPED" if "q \<in> ARG_OPS"
    using that by (auto simp: ARG_OPS_def parse_op_generates_item_def)
  have fit: "fits (akind_of ?t) \<lparr>it_type = ?t, it_value = v\<rparr>" if "v = 0 \<or> ?t = ITEM_OBJECT" for v
    using that by (cases ?t) (auto simp: akind_of_def ITEM_OBJECTS_def)
  have last: "alast b = Some KEmpty" if "q \<in> ARG_OPS"
    using a arg [OF that] by (auto simp: aalloc_def Let_def apush_last akind_of_def)
  show ?thesis
  proof (cases "q = UACPI_PARSE_OP_OBJECT_ALLOC_TYPED")
    case typed: True
    then have t: "?t = ITEM_OBJECT" by (simp add: parse_op_generates_item_def)
    let ?a = "apush (akind_of ?t) a" and ?pc = "(pc oc + 1) mod 256"
    have r': "runs prog ?a (Item ?n) (?oc v)" for v using runs_push [OF r fit] t by simp
    then have n: "pc oc < length prog" and b: "b = ?a\<lparr>a_pc := ?pc\<rparr>"
      using a typed False runsD(3) [OF r'] by (auto simp: aalloc_def Let_def split: if_splits)
    have "Q (c (Item ?n) ((?oc (yields inp))\<lparr>pc := ?pc\<rparr>))"
      by (rule q) (use runs_pc [OF r', of ?pc "yields inp"] b last typed in auto)
    moreover have eq: "(?oc (yields inp))\<lparr>pc := ?pc\<rparr>
        = oc\<lparr>pc := ?pc, items := items oc @ [\<lparr>it_type = ?t, it_value = yields inp\<rparr>]\<rparr>" by simp
    ultimately have "Q (c (Item ?n) (oc\<lparr>pc := ?pc, items := items oc @ [\<lparr>it_type = ?t, it_value = yields inp\<rparr>]\<rparr>))"
      by (rule_tac subst [OF eq])
    then show ?thesis
      using typed t n f runsD(8) [OF r]
      by (simp add: alloc_item_def Let_def op_decode_byte_def set_value_def)
  next
    case untyped: False
    then have b: "b = apush (akind_of ?t) a" using a False by (simp add: aalloc_def Let_def)
    have oc: "Q (c (Item ?n) (?oc v))" if "v = 0 \<or> ?t = ITEM_OBJECT" for v
      by (rule q) (use runs_push [OF r fit [OF that]] b last in auto)
    show ?thesis
      using untyped False f oc [of 0] oc [of "yields inp"]
      by (cases "?t = ITEM_OBJECT") (auto simp: alloc_item_def Let_def set_value_def)
  qed
qed

theorem round_sound:
  assumes "stands a p oc" "astep (op_program oc) a = Some l" "behind rest"
  shows "outcome l (oc_op oc) rest (exec_round inp p (oc # rest))"
proof -
  let ?prog = "op_program oc"
  have r: "runs ?prog a p oc" using assms(1) by (simp add: runs_def)
  have n: "pc oc < length ?prog" "pc oc < 256"
    and s: "(case parse_op_of (?prog ! pc oc) of None \<Rightarrow> None
        | Some q \<Rightarrow> (case aalloc ?prog q (a\<lparr>a_pc := (pc oc + 1) mod 256\<rparr>) of None \<Rightarrow> None | Some b \<Rightarrow> aswitch ?prog q b))
      = Some l"
    using assms(2) unfolding astep_def abyte_def runsD(3) [OF r] by (auto split: if_splits)
  then obtain q b where q: "parse_op_of (?prog ! pc oc) = Some q"
    and b: "aalloc ?prog q (a\<lparr>a_pc := (pc oc + 1) mod 256\<rparr>) = Some b" and l: "aswitch ?prog q b = Some l"
    by (auto split: option.splits)
  let ?oc = "oc\<lparr>pc := (pc oc + 1) mod 256\<rparr>"
  have "outcome l (oc_op oc) rest (alloc_item inp q p ?oc (\<lambda>ptr oc. exec_switch inp q ptr oc rest))"
  proof (rule alloc_sound [OF runs_pc [OF r] b], goal_cases)
    case (2 p' oc')
    have "outcome l (oc_op oc') rest (exec_switch inp q p' oc' rest)"
    proof (rule exec_switch_sound [OF 2(1) l assms(3)])
      show "alast b = Some KEmpty" if "q \<in> ARG_OPS" using 2(3) that by simp
      assume "q \<in> ARG_OPS"
      then have pc: "pc oc' = (pc oc + 1) mod 256" using 2(4) by (auto simp: ARG_OPS_def)
      then show "pc oc' < 256" by simp
      assume "0 < pc oc'"
      then have "pc oc' - 1 = pc oc" using pc n(2) by (simp add: mod_if split: if_splits)
      then show "waits_at (oc'\<lparr>pc := pc oc' - 1\<rparr>) = Some q"
        using n q runsD(8) [OF 2(1)] unfolding waits_at_def by simp
    qed
    then show ?case using 2(2) by simp
  qed simp
  then show ?thesis
    using n q by (simp add: exec_round_def op_decode_byte_def)
qed

end
