(* ===== verification/AcpiParseFrame.thy ===== *)
theory AcpiParseFrame
  imports AcpiParseSound
begin

text \<open>
  From one round to a call frame: every operation of the tables is accepted by the checker, and in every
  reachable state the current operation is one the checker has been through while the others wait for an
  argument.
\<close>

section \<open>The tables\<close>

lemma accepts_0: "list_all accepts opcodes_0" by code_simp
lemma accepts_1: "list_all accepts opcodes_1" by code_simp
lemma accepts_2: "list_all accepts opcodes_2" by code_simp
lemma accepts_3: "list_all accepts opcodes_3" by code_simp
lemma accepts_4: "list_all accepts opcodes_4" by code_simp
lemma accepts_5: "list_all accepts opcodes_5" by code_simp
lemma accepts_ext_0: "list_all accepts ext_opcodes_0" by code_simp
lemma accepts_ext_1: "list_all accepts (take 6 ext_opcodes_1)" by code_simp
lemma accepts_ext_2: "list_all accepts (take 1 (drop 6 ext_opcodes_1))" by code_simp
lemma accepts_ext_3: "list_all accepts (take 4 (drop 7 ext_opcodes_1))" by code_simp
lemma accepts_ext_4: "list_all accepts (take 1 (drop 11 ext_opcodes_1))" by code_simp
lemma accepts_ext_5: "list_all accepts (drop 12 ext_opcodes_1)" by code_simp

lemma accepts_table: "list_all accepts opcode_table"
  by (simp add: opcode_table_def accepts_0 accepts_1 accepts_2 accepts_3 accepts_4 accepts_5)

lemma list_all_cut: "list_all P (take m (drop n xs)) \<Longrightarrow> list_all P (drop (n + m) xs) \<Longrightarrow> list_all P (drop n xs)"
  by (metis add.commute append_take_drop_id drop_drop list_all_append)

lemma accepts_ext_table: "list_all accepts ext_opcode_table"
proof -
  have "list_all accepts (drop 11 ext_opcodes_1)"
    by (rule list_all_cut [OF accepts_ext_4]) (simp add: accepts_ext_5)
  then have "list_all accepts (drop 7 ext_opcodes_1)" by (intro list_all_cut [OF accepts_ext_3]) simp
  then have "list_all accepts (drop 6 ext_opcodes_1)" by (intro list_all_cut [OF accepts_ext_2]) simp
  then have "list_all accepts ext_opcodes_1" using list_all_cut [of accepts 6 0 ext_opcodes_1] accepts_ext_1 by simp
  then show ?thesis by (simp add: ext_opcode_table_def accepts_ext_0)
qed

lemma table_codes: "map op_code opcode_table = [0..<256]"
  by code_simp

text \<open>Every entry of the index of the extended opcodes leads to the operation with that opcode.\<close>

definition entry_ok :: "nat list \<Rightarrow> nat \<times> nat \<Rightarrow> bool" where
  "entry_ok codes e \<longleftrightarrow> snd e < length codes \<and> codes ! snd e = UACPI_EXT_OP (fst e)"

lemma ext_entries: "list_all (entry_ok (map op_code ext_opcode_table)) ext_op_entries"
  by code_simp

lemma designated_cases: "designated inits i = 0 \<or> (i, designated inits i) \<in> set inits"
  by (cases "map_of (rev inits) i") (auto simp: designated_def dest: map_of_SomeD)

lemma ext_spec:
  assumes "i < 256"
  shows "uacpi_get_op_spec (UACPI_EXT_OP i) \<in> set ext_opcode_table"
    and "uacpi_get_op_spec (UACPI_EXT_OP i) = hd ext_opcode_table
      \<or> op_code (uacpi_get_op_spec (UACPI_EXT_OP i)) = UACPI_EXT_OP i"
proof -
  have spec: "uacpi_get_op_spec (UACPI_EXT_OP i) = ext_opcode_table ! ext_op_to_idx i"
  proof -
    have "(UACPI_EXT_PREFIX * 256 + i) mod 256 = i" using assms by (simp only: mod_mult_self3 mod_less)
    moreover have "255 < UACPI_EXT_PREFIX * 256 + i" by (simp add: UACPI_EXT_PREFIX_def)
    ultimately show ?thesis by (simp add: uacpi_get_op_spec_def UACPI_EXT_OP_def)
  qed
  have ne: "ext_opcode_table \<noteq> []" by (simp add: ext_opcode_table_def ext_opcodes_0_def)
  consider "ext_op_to_idx i = 0" | "(i, ext_op_to_idx i) \<in> set ext_op_entries"
    using designated_cases [of ext_op_entries i] by (auto simp: ext_op_to_idx_def)
  then have "ext_op_to_idx i < length ext_opcode_table
      \<and> (ext_op_to_idx i = 0 \<or> op_code (ext_opcode_table ! ext_op_to_idx i) = UACPI_EXT_OP i)"
  proof cases
    case 2
    then have "entry_ok (map op_code ext_opcode_table) (i, ext_op_to_idx i)"
      using ext_entries by (simp only: list_all_iff)
    then show ?thesis by (auto simp: entry_ok_def)
  qed (use ne in simp)
  then show "uacpi_get_op_spec (UACPI_EXT_OP i) \<in> set ext_opcode_table"
    "uacpi_get_op_spec (UACPI_EXT_OP i) = hd ext_opcode_table
      \<or> op_code (uacpi_get_op_spec (UACPI_EXT_OP i)) = UACPI_EXT_OP i"
    unfolding spec using ne by (auto simp: hd_conv_nth)
qed

lemma spec_byte:
  assumes "c < 256"
  shows "uacpi_get_op_spec c \<in> set opcode_table" "op_code (uacpi_get_op_spec c) = c"
proof -
  have l: "length opcode_table = 256" using arg_cong [OF table_codes, of length] by simp
  have spec: "uacpi_get_op_spec c = opcode_table ! c" using assms by (simp add: uacpi_get_op_spec_def)
  show "uacpi_get_op_spec c \<in> set opcode_table" using l assms by (simp add: spec)
  have "map op_code opcode_table ! c = [0..<256] ! c" by (simp only: table_codes)
  then show "op_code (uacpi_get_op_spec c) = c" using l assms by (simp add: spec)
qed

section \<open>Covering\<close>

lemma kind_le_fits: "\<lbrakk>kind_le k l; fits k it\<rbrakk> \<Longrightarrow> fits l it"
  by (cases "(k, l)" rule: kind_le.cases) (auto simp: ITEM_OBJECTS_def)

lemma kinds_le_fits: "\<lbrakk>kinds_le ks ls; list_all2 fits ks its\<rbrakk> \<Longrightarrow> list_all2 fits ls its"
  by (induction ks ls arbitrary: its rule: kinds_le.induct) (auto simp: list_all2_Cons1 intro: kind_le_fits)

lemma list_all2_drop: "list_all2 P xs ys \<Longrightarrow> list_all2 P (drop n xs) (drop n ys)"
  by (rule list_all2_dropI)

lemma covers_shape:
  assumes "covers d c" "shape (a_front c) (a_back c) its"
  shows "shape (a_front d) (a_back d) its"
proof (cases "a_back d")
  case None
  then show ?thesis using assms by (auto simp: covers_def shape_def intro: kinds_le_fits)
next
  case (Some t)
  let ?n = "length (a_front d)"
  let ?rest = "case a_back c of None \<Rightarrow> drop ?n (a_front c) | Some s \<Rightarrow> s"
  have n: "?n \<le> length (a_front c)" "kinds_le (take ?n (a_front c)) (a_front d)"
    and t: "length t \<le> length ?rest" "kinds_le (drop (length ?rest - length t) ?rest) t"
    using assms(1) Some by (auto simp: covers_def Let_def)
  have front: "list_all2 fits (a_front c) (take (length (a_front c)) its)"
    using assms(2) by (auto simp: shape_def list_all2_lengthD split: option.splits)
  have "list_all2 fits (take ?n (a_front c)) (take ?n its)"
    using list_all2_takeI [OF front, of ?n] n(1) by (simp add: min_def)
  then have 1: "list_all2 fits (a_front d) (take ?n its)" by (rule kinds_le_fits [OF n(2)])
  have "list_all2 fits ?rest (drop (length its - length ?rest) its) \<and> ?n + length ?rest \<le> length its"
  proof (cases "a_back c")
    case None
    then have "list_all2 fits (a_front c) its" using assms(2) by (simp add: shape_def)
    moreover from this have "length its = length (a_front c)" by (simp add: list_all2_lengthD)
    ultimately show ?thesis using None n(1) list_all2_dropI [of fits "a_front c" its ?n] by simp
  next
    case (Some s)
    then show ?thesis using assms(2) n(1) by (auto simp: shape_def)
  qed
  then have rest: "list_all2 fits ?rest (drop (length its - length ?rest) its)" "?n + length ?rest \<le> length its"
    by simp_all
  have "length its - length ?rest + (length ?rest - length t) = length its - length t" using t(1) rest(2) by simp
  then have "list_all2 fits (drop (length ?rest - length t) ?rest) (drop (length its - length t) its)"
    using list_all2_dropI [OF rest(1), of "length ?rest - length t"] by (simp add: add.commute)
  then have 2: "list_all2 fits t (drop (length its - length t) its)" by (rule kinds_le_fits [OF t(2)])
  show ?thesis using Some 1 2 rest(2) t(1) by (simp add: shape_def)
qed

lemma covers_stands: "\<lbrakk>covers d c; stands c p oc\<rbrakk> \<Longrightarrow> stands d p oc"
proof -
  assume c: "covers d c" and s: "stands c p oc"
  then have "shape (a_front d) (a_back d) (items oc)" by (auto simp: stands_def intro: covers_shape)
  then show ?thesis using c s by (simp add: stands_def covers_def)
qed

lemma covered_stands: "\<lbrakk>covered ds c; stands c p oc\<rbrakk> \<Longrightarrow> \<exists>d\<in>set ds. stands d p oc"
  by (induction ds) (auto intro: covers_stands)

section \<open>What the checker has been through\<close>

lemma work_prefix: "work prog c loops n (l @ t) \<Longrightarrow> work prog c loops n l"
proof (induction n arbitrary: l t)
  case (Suc n)
  show ?case
  proof (cases l)
    case Nil
    then show ?thesis by (simp add: work.simps)
  next
    case (Cons a as)
    show ?thesis
      using Suc.prems Suc.IH [of as t] Suc.IH [of "_ @ as" t]
      by (subst work.simps, subst (asm) work.simps) (auto simp: Cons split: if_splits option.splits)
  qed
qed (simp add: work.simps)

lemma work_member:
  assumes "work prog c loops n todo" "a \<in> set todo"
  shows "a_op a \<noteq> c \<and> a_op a < 256 \<and> covered (entries (a_op a)) a
    \<or> a_op a = c \<and> (covered loops a \<or> (\<exists>l m. astep prog a = Some l \<and> work prog c loops m l))"
  using assms
proof (induction n arbitrary: todo)
  case (Suc n)
  then obtain b bs where todo: "todo = b # bs" by (cases todo) auto
  have w: "work prog c loops (Suc n) (b # bs)" using Suc.prems todo by simp
  show ?case
  proof (cases "a = b")
    case True
    then show ?thesis
      using w by (subst (asm) work.simps) (auto split: if_splits option.splits dest: work_prefix)
  next
    case False
    then have m: "a \<in> set bs" using Suc.prems(2) todo by simp
    have "\<exists>l. work prog c loops n (l @ bs)"
      using w by (subst (asm) work.simps) (auto split: if_splits option.splits intro: exI [of _ "[]"])
    then obtain l where l: "work prog c loops n (l @ bs)" ..
    show ?thesis by (rule Suc.IH [OF l]) (simp add: m)
  qed
qed (simp add: work.simps)

definition VALID :: "nat set" where
  "VALID = {c. op_code (uacpi_get_op_spec c) = c \<and> accepts (uacpi_get_op_spec c)}"

definition verified :: "nat \<Rightarrow> astate \<Rightarrow> bool" where
  "verified c a \<longleftrightarrow>
     (let prog = spec_program (uacpi_get_op_spec c)
      in \<exists>l n. astep prog a = Some l \<and> work prog c (loop_states c) n l)"

definition known :: "item_ptr \<Rightarrow> op_context \<Rightarrow> bool" where
  "known p oc \<longleftrightarrow> oc_op oc \<in> VALID \<and> (\<exists>a. stands a p oc \<and> verified (oc_op oc) a)"

lemma op_program_spec: "op_program oc = spec_program (uacpi_get_op_spec (oc_op oc))"
  by (simp add: op_program_def spec_program_def Let_def)

lemma VALID_byte: "c < 256 \<Longrightarrow> c \<in> VALID"
  using accepts_table spec_byte by (simp add: VALID_def list_all_iff)

lemma VALID_ext:
  assumes "i < 256" "\<not> op_is_invalid (uacpi_get_op_spec (UACPI_EXT_OP i))"
  shows "UACPI_EXT_OP i \<in> VALID"
proof -
  have "op_is_invalid (hd ext_opcode_table)"
    by (simp add: ext_opcode_table_def ext_opcodes_0_def op_is_invalid_def UACPI_INVALID_OPCODE_def UACPI_OP_def)
  then show ?thesis
    using assms ext_spec [OF assms(1)] accepts_ext_table by (auto simp: VALID_def list_all_iff)
qed

lemma checked_verified:
  "\<lbrakk>checked prog c loops as; a \<in> set as\<rbrakk> \<Longrightarrow> \<exists>l n. astep prog a = Some l \<and> work prog c loops n l"
  by (induction as) (auto split: option.splits)

lemma VALID_verified:
  assumes "c \<in> VALID" "a \<in> set (entries c) \<union> set (loop_states c)"
  shows "verified c a"
proof -
  have "checked (spec_program (uacpi_get_op_spec c)) c (loop_states c) (entries c @ loop_states c)"
    using assms(1) by (auto simp: VALID_def accepts_def Let_def)
  from checked_verified [OF this] show ?thesis using assms(2) by (auto simp: verified_def Let_def)
qed

lemma work_known:
  assumes "work (spec_program (uacpi_get_op_spec c)) c (loop_states c) n l" "c \<in> VALID"
    and "a \<in> set l" "stands a p oc"
  shows "known p oc"
proof -
  have op: "oc_op oc = a_op a" using assms(4) by (simp add: stands_def)
  from work_member [OF assms(1,3)] consider
      "a_op a < 256" "covered (entries (a_op a)) a"
    | "a_op a = c" "covered (loop_states c) a"
    | "a_op a = c" "verified c a"
    by (auto simp: verified_def Let_def)
  then show ?thesis
  proof cases
    case 1
    then obtain d where d: "d \<in> set (entries (a_op a))" "stands d p oc"
      using covered_stands assms(4) by blast
    then show ?thesis
      using VALID_byte [OF 1(1)] VALID_verified [of "a_op a" d] op by (auto simp: known_def)
  next
    case 2
    then obtain d where d: "d \<in> set (loop_states c)" "stands d p oc"
      using covered_stands assms(4) by blast
    then show ?thesis using VALID_verified [of c d] assms(2) 2 op by (auto simp: known_def)
  next
    case 3
    then show ?thesis using assms(2,4) op by (auto simp: known_def)
  qed
qed

text \<open>An operation that waits for an argument can be resumed, also after the last one has been aborted.\<close>

definition suspended :: "op_context \<Rightarrow> bool" where
  "suspended w \<longleftrightarrow>
     preempted w \<and> (\<exists>q\<in>ARG_OPS. waits_at w = Some q)
     \<and> (\<exists>a. alast a = Some KEmpty \<and> stands a NoItem (skip 1 (w\<lparr>preempted := False\<rparr>))
          \<and> (\<forall>p oc. stands a p oc \<longrightarrow> known p oc)
          \<and> (a_op a \<in> {UACPI_AML_OP_WhileOp, UACPI_AML_OP_IfOp}
              \<longrightarrow> (\<forall>p oc. stands (a\<lparr>a_ptr := AStale\<rparr>) p oc \<longrightarrow> known p oc)))"

lemma waiting_suspended:
  assumes "waiting l w" "\<And>a p oc. \<lbrakk>a \<in> set l; stands a p oc\<rbrakk> \<Longrightarrow> known p oc"
  shows "suspended w"
  using assms unfolding waiting_def suspended_def by blast

lemma skip_other [simp]:
  "items (skip n oc) = items oc" "oc_op (skip n oc) = oc_op oc" "preempted (skip n oc) = preempted oc"
  "switched_from (skip n oc) = switched_from oc" "tracked_pkg_idx (skip n oc) = tracked_pkg_idx oc"
  by (simp_all add: skip_def)

lemma suspended_items: "suspended w \<Longrightarrow> items w \<noteq> []"
  using shape_alast by (fastforce simp: suspended_def stands_def)

lemma suspended_behind: "\<forall>w\<in>set rest. suspended w \<Longrightarrow> behind rest"
  using suspended_items by (auto simp: behind_def suspended_def)

lemma suspended_resume:
  assumes "suspended w"
  shows "known NoItem (skip 1 (w\<lparr>preempted := False\<rparr>))"
  using assms by (auto simp: suspended_def)

lemma suspended_abort:
  assumes "suspended w" "oc_op w \<in> {UACPI_AML_OP_WhileOp, UACPI_AML_OP_IfOp}"
  shows "known Stale (skip 1 (w\<lparr>preempted := False\<rparr>))"
proof -
  let ?w = "skip 1 (w\<lparr>preempted := False\<rparr>)"
  obtain a where a: "stands a NoItem ?w"
    and k: "a_op a \<in> {UACPI_AML_OP_WhileOp, UACPI_AML_OP_IfOp} \<longrightarrow>
      (\<forall>p oc. stands (a\<lparr>a_ptr := AStale\<rparr>) p oc \<longrightarrow> known p oc)"
    using assms(1) unfolding suspended_def by blast
  have "stands (a\<lparr>a_ptr := AStale\<rparr>) Stale ?w" "a_op a = oc_op w"
    using a by (simp_all add: stands_def points_def)
  then show ?thesis using k assms(2) by metis
qed

lemma aset_last_same: "alast a = Some k \<Longrightarrow> aset_last k a = a"
  by (cases a) (auto simp: alast_def aset_last_def split: option.splits if_splits)

lemma suspended_given:
  assumes "suspended w" "it_type it = ITEM_OBJECT"
  shows "suspended (w\<lparr>items := butlast (items w) @ [it]\<rparr>)"
proof -
  let ?w = "w\<lparr>items := butlast (items w) @ [it]\<rparr>"
  obtain a where a: "alast a = Some KEmpty" "stands a NoItem (skip 1 (w\<lparr>preempted := False\<rparr>))"
    and k: "\<forall>p oc. stands a p oc \<longrightarrow> known p oc"
      "a_op a \<in> {UACPI_AML_OP_WhileOp, UACPI_AML_OP_IfOp} \<longrightarrow>
        (\<forall>p oc. stands (a\<lparr>a_ptr := AStale\<rparr>) p oc \<longrightarrow> known p oc)"
    using assms(1) unfolding suspended_def by blast
  have "shape (a_front a) (a_back a) (items w)" using a(2) by (simp add: stands_def)
  then have "shape (a_front a) (a_back a) (items ?w)"
    using shape_set_last [of a "items w" KEmpty KEmpty it] a(1) assms(2) aset_last_same [OF a(1)]
    by (simp add: ITEM_OBJECTS_def)
  then have "stands a NoItem (skip 1 (?w\<lparr>preempted := False\<rparr>))"
    using a(2) by (auto simp: stands_def points_def skip_def split: aptr.splits)
  moreover have "waits_at ?w = waits_at w" unfolding waits_at_def op_program_update by simp
  moreover have "preempted ?w" using assms(1) by (simp add: suspended_def)
  ultimately show ?thesis using assms(1) a(1) k unfolding suspended_def by metis
qed

lemma given_suspended:
  assumes "given rest rest'" "\<forall>w\<in>set rest. suspended w"
  shows "\<forall>w\<in>set rest'. suspended w"
  using assms suspended_given unfolding given_def by (elim disjE exE conjE) auto

section \<open>The invariant of a call frame\<close>

definition frame_inv :: "item_ptr option \<times> op_context list \<Rightarrow> bool" where
  "frame_inv s \<longleftrightarrow>
     (case s of
        (Some p, ocs) \<Rightarrow> (\<exists>oc rest. ocs = oc # rest \<and> known p oc \<and> (\<forall>w\<in>set rest. suspended w))
      | (None, ocs) \<Rightarrow> (\<forall>w\<in>set ocs. suspended w)
          \<or> (\<exists>oc rest. ocs = oc # rest \<and> known NoItem oc \<and> (\<forall>w\<in>set rest. suspended w)))"

lemma known_running: "known p oc \<Longrightarrow> \<not> preempted oc"
  by (auto simp: known_def stands_def)

lemma suspended_preempted: "suspended w \<Longrightarrow> preempted w"
  by (simp add: suspended_def)

lemma known_outcome:
  assumes "known p oc" "\<forall>w\<in>set rest. suspended w"
  obtains l where "outcome l (oc_op oc) rest (exec_round inp p (oc # rest))"
    and "\<And>a p' oc'. \<lbrakk>a \<in> set l; stands a p' oc'\<rbrakk> \<Longrightarrow> known p' oc'"
proof -
  from assms(1) obtain a l n where a: "stands a p oc" and v: "oc_op oc \<in> VALID"
    and l: "astep (op_program oc) a = Some l"
      "work (spec_program (uacpi_get_op_spec (oc_op oc))) (oc_op oc) (loop_states (oc_op oc)) n l"
    by (auto simp: known_def verified_def Let_def op_program_spec)
  show ?thesis
  proof (rule that [of l])
    show "outcome l (oc_op oc) rest (exec_round inp p (oc # rest))"
      by (rule round_sound [OF a l(1) suspended_behind [OF assms(2)]])
    show "known p' oc'" if "a \<in> set l" "stands a p' oc'" for a p' oc'
      by (rule work_known [OF l(2) v that])
  qed
qed

lemma resume_inv:
  assumes "\<forall>w\<in>set rest. suspended w"
  shows "frame_inv (None, resume_op rest)"
  using assms suspended_resume by (cases rest) (auto simp: frame_inv_def)

lemma goes_inv:
  assumes "known p oc" "\<forall>w\<in>set rest. suspended w" "exec_round inp p (oc # rest) = Goes p' ocs"
  shows "frame_inv (Some p', ocs)"
proof -
  obtain l where o: "outcome l (oc_op oc) rest (Goes p' ocs)"
    and k: "\<And>a p oc. \<lbrakk>a \<in> set l; stands a p oc\<rbrakk> \<Longrightarrow> known p oc"
    using known_outcome [OF assms(1,2)] assms(3) by metis
  from o consider oc' rest' where "ocs = oc' # rest'" "given rest rest'" "\<exists>a\<in>set l. stands a p' oc'"
    | "rest \<noteq> []" "ocs = resume_op [last rest]" "p' = Stale"
      "oc_op (last rest) \<in> {UACPI_AML_OP_WhileOp, UACPI_AML_OP_IfOp}"
    by (auto simp: outcome_def)
  then show ?thesis
  proof cases
    case 1
    then show ?thesis using k given_suspended [OF 1(2) assms(2)] by (auto simp: frame_inv_def)
  next
    case 2
    then show ?thesis using suspended_abort [of "last rest"] assms(2) by (auto simp: frame_inv_def)
  qed
qed

lemma leaves_inv:
  assumes "known p oc" "\<forall>w\<in>set rest. suspended w" "exec_round inp p (oc # rest) = Leaves ocs"
  shows "frame_inv (None, ocs)"
proof -
  obtain l where o: "outcome l (oc_op oc) rest (Leaves ocs)"
    and k: "\<And>a p oc. \<lbrakk>a \<in> set l; stands a p oc\<rbrakk> \<Longrightarrow> known p oc"
    using known_outcome [OF assms(1,2)] assms(3) by metis
  from o consider "ocs = resume_op rest"
    | oc' where "ocs = oc' # rest" "\<exists>a\<in>set l. stands a NoItem oc'"
    | oc' where "ocs = oc' # rest" "waiting l oc'"
    by (auto simp: outcome_def)
  then show ?thesis
  proof cases
    case 1
    then show ?thesis using resume_inv [OF assms(2)] by simp
  next
    case 2
    then show ?thesis using k assms(2) by (auto simp: frame_inv_def)
  next
    case 3
    then show ?thesis using waiting_suspended [OF 3(2) k] assms(2) by (auto simp: frame_inv_def)
  qed
qed

text \<open>An operation begins in the state the checker begins in.\<close>

definition named_internal :: "uacpi_op_spec \<Rightarrow> bool" where
  "named_internal spec \<longleftrightarrow> (if op_code spec \<in> set NAMED_list then op_is_internal spec else True)"

lemma table_named: "list_all named_internal opcode_table"
  by code_simp

lemma NAMED_byte: "c \<in> set NAMED_list \<Longrightarrow> c < 256"
  by (auto simp: NAMED_list_def FIELD_READ_list_def aml_ops)

lemma NAMED_internal: "c \<in> set NAMED_list \<Longrightarrow> op_is_internal (uacpi_get_op_spec c)"
  using table_named spec_byte [OF NAMED_byte] by (fastforce simp: list_all_iff named_internal_def)

lemma fresh_stands: "stands (fresh_entry c) NoItem (new_op_context c)"
  by (simp add: stands_def fresh_entry_def new_op_context_def shape_def points_def)

lemma new_known:
  assumes "c \<in> AML_OPS" "\<not> op_is_internal (uacpi_get_op_spec c)" "\<not> op_is_invalid (uacpi_get_op_spec c)"
  shows "known NoItem (new_op_context c)"
proof -
  have v: "c \<in> VALID" using assms VALID_byte VALID_ext by (auto simp: AML_OPS_def)
  have "c \<notin> set NAMED_list" using NAMED_internal assms(2) by blast
  then have "fresh_entry c \<in> set (entries c)" by (simp add: entries_def)
  then have "verified c (fresh_entry c)" using VALID_verified [OF v] by simp
  then show ?thesis using v fresh_stands [of c] by (auto simp: known_def new_op_context_def)
qed

lemma step_inv: "\<lbrakk>frame_step s t; frame_inv s\<rbrakk> \<Longrightarrow> frame_inv t"
proof (induction rule: frame_step.induct)
  case (begin_op ocs op)
  then have "\<forall>w\<in>set ocs. suspended w"
    using known_running by (fastforce simp: frame_inv_def)
  then show ?case using new_known [OF begin_op(2-4)] by (simp add: frame_inv_def)
next
  case (resume ocs)
  then show ?case using suspended_preempted by (cases ocs) (auto simp: frame_inv_def)
next
  case (goes inp ptr ocs ptr' ocs')
  then show ?case by (auto simp: frame_inv_def [of "(Some ptr, ocs)"] intro: goes_inv)
next
  case (leaves inp ptr ocs ocs')
  then show ?case by (auto simp: frame_inv_def [of "(Some ptr, ocs)"] intro: leaves_inv)
qed

theorem reach_inv: "frame_reach s \<Longrightarrow> frame_inv s"
  by (induction rule: frame_reach.induct) (auto simp: frame_inv_def [of "(None, [])"] intro: step_inv)

lemma reach_fault:
  assumes "frame_reach (Some p, ocs)" "exec_round inp p ocs = Fault f"
  shows "f = StaleItem \<and> ocs \<noteq> [] \<and> oc_op (hd ocs) \<in> {UACPI_AML_OP_WhileOp, UACPI_AML_OP_IfOp}"
proof -
  obtain oc rest where ocs: "ocs = oc # rest" and k: "known p oc" "\<forall>w\<in>set rest. suspended w"
    using reach_inv [OF assms(1)] by (auto simp: frame_inv_def)
  obtain l where "outcome l (oc_op oc) rest (exec_round inp p (oc # rest))"
    by (rule known_outcome [OF k])
  then show ?thesis using assms(2) ocs by (simp add: outcome_def)
qed

end
