(* ===== verification/AcpiParseProps.thy ===== *)
theory AcpiParseProps
  imports AcpiParseFrame
begin

text \<open>
  The properties of the opcode tables and of the machine that runs their programs, and a run that reads the
  item of an operation that has been dropped.
\<close>

section \<open>A run with an abort\<close>

definition ok_input :: input where
  "ok_input = \<lparr>allocates = True, creates = True, succeeds = True, yields = 0, holds = True, becomes = 0, item_edits = []\<rparr>"

definition unresolved_input :: input where
  "unresolved_input = ok_input\<lparr>succeeds := False\<rparr>"

definition if_context :: "nat \<Rightarrow> bool \<Rightarrow> item_type list \<Rightarrow> op_context" where
  "if_context n b ts = \<lparr>pc = n, preempted = b, tracked_pkg_idx = (if ts = [] then 0 else 1), switched_from = 0,
     oc_op = UACPI_AML_OP_IfOp, items = map (\<lambda>t. \<lparr>it_type = t, it_value = 0\<rparr>) ts\<rparr>"

lemma if_program:
  "spec_program (uacpi_get_op_spec UACPI_AML_OP_IfOp) =
     [15, 10, 51, 3, 2, 59, 9, 55, 4, 57, 0xA1, 0, 0, 21, 0, 0]"
  by code_simp

lemma name_program:
  "spec_program (uacpi_get_op_spec 0x41) = [43, 19, 48] @ replicate 13 0"
  by code_simp

lemma name_props: "UACPI_OP_PROPERTY_TERM_ARG \<in> op_props (uacpi_get_op_spec 0x41)"
  by code_simp

lemma begin_if: "\<not> op_is_internal (uacpi_get_op_spec UACPI_AML_OP_IfOp) \<and> \<not> op_is_invalid (uacpi_get_op_spec UACPI_AML_OP_IfOp)"
  by code_simp

lemma begin_name: "\<not> op_is_internal (uacpi_get_op_spec 0x41) \<and> \<not> op_is_invalid (uacpi_get_op_spec 0x41)"
  by code_simp

lemma if_op_program [simp]: "op_program (if_context n b ts) = [15, 10, 51, 3, 2, 59, 9, 55, 4, 57, 0xA1, 0, 0, 21, 0, 0]"
  by (simp add: op_program_spec if_context_def if_program)

lemma round_pkglen:
  "exec_round ok_input NoItem [if_context 0 False []] = Goes (Item 0) [if_context 1 False [ITEM_PACKAGE_LENGTH]]"
  by (simp add: exec_round_def op_decode_byte_def if_program op_program_spec parse_op_of_code parse_op_at_def if_context_def
      alloc_item_def parse_op_generates_item_def exec_switch_def ok_input_def set_value_def)

lemma round_operand:
  "exec_round ok_input (Item 0) [if_context 1 False [ITEM_PACKAGE_LENGTH]]
     = Leaves [if_context 1 True [ITEM_PACKAGE_LENGTH, ITEM_EMPTY_OBJECT]]"
  by (simp add: exec_round_def op_decode_byte_def if_program op_program_spec parse_op_of_code parse_op_at_def if_context_def
      alloc_item_def parse_op_generates_item_def exec_switch_def ok_input_def)

lemma round_name_decrement:
  "exec_round ok_input NoItem [new_op_context 0x41, if_context 1 True [ITEM_PACKAGE_LENGTH, ITEM_EMPTY_OBJECT]]
     = Goes NoItem [(new_op_context 0x41)\<lparr>pc := 1\<rparr>, if_context 1 True [ITEM_PACKAGE_LENGTH, ITEM_EMPTY_OBJECT]]"
  using name_props
  by (simp add: exec_round_def op_decode_byte_def if_program name_program op_program_spec parse_op_of_code parse_op_at_def
      if_context_def new_op_context_def waits_at_def op_typecheck_def ARG_OPS_def last_item_def
      alloc_item_def parse_op_generates_item_def exec_switch_def op_change_def)

lemma round_name_abort:
  "exec_round unresolved_input NoItem [(new_op_context 0x41)\<lparr>pc := 1\<rparr>, if_context 1 True [ITEM_PACKAGE_LENGTH, ITEM_EMPTY_OBJECT]]
     = Goes Stale [if_context 2 False [ITEM_PACKAGE_LENGTH, ITEM_EMPTY_OBJECT]]"
  by (simp add: exec_round_def op_decode_byte_def name_program op_program_spec parse_op_of_code parse_op_at_def
      if_context_def new_op_context_def alloc_item_def parse_op_generates_item_def exec_switch_def op_namestring_def
      unresolved_input_def ok_input_def skip_def)

lemma round_stale:
  "exec_round inp Stale [if_context 2 False [ITEM_PACKAGE_LENGTH, ITEM_EMPTY_OBJECT]] = Fault StaleItem"
  by (simp add: exec_round_def op_decode_byte_def if_program op_program_spec parse_op_of_code parse_op_at_def if_context_def
      alloc_item_def parse_op_generates_item_def exec_switch_def op_branch_def with_item_def)

lemma abort_reached:
  "frame_reach (Some Stale, [if_context 2 False [ITEM_PACKAGE_LENGTH, ITEM_EMPTY_OBJECT]])"
proof -
  have "frame_reach (Some NoItem, [new_op_context UACPI_AML_OP_IfOp])"
    by (rule frame_reach.step [OF frame_reach.start], rule frame_step.begin_op)
      (use begin_if in \<open>auto simp: AML_OPS_def aml_ops UACPI_EXT_PREFIX_def\<close>)
  then have "frame_reach (Some NoItem, [if_context 0 False []])"
    by (simp add: new_op_context_def if_context_def)
  then have "frame_reach (Some (Item 0), [if_context 1 False [ITEM_PACKAGE_LENGTH]])"
    by (rule frame_reach.step) (rule frame_step.goes [OF round_pkglen])
  then have "frame_reach (None, [if_context 1 True [ITEM_PACKAGE_LENGTH, ITEM_EMPTY_OBJECT]])"
    by (rule frame_reach.step) (rule frame_step.leaves [OF round_operand])
  then have "frame_reach (Some NoItem, [new_op_context 0x41, if_context 1 True [ITEM_PACKAGE_LENGTH, ITEM_EMPTY_OBJECT]])"
    by (rule frame_reach.step, intro frame_step.begin_op)
      (use begin_name in \<open>auto simp: AML_OPS_def if_context_def UACPI_EXT_PREFIX_def\<close>)
  then have "frame_reach (Some NoItem, [(new_op_context 0x41)\<lparr>pc := 1\<rparr>, if_context 1 True [ITEM_PACKAGE_LENGTH, ITEM_EMPTY_OBJECT]])"
    by (rule frame_reach.step) (rule frame_step.goes [OF round_name_decrement])
  then show ?thesis
    by (rule frame_reach.step) (rule frame_step.goes [OF round_name_abort])
qed

section \<open>Properties\<close>

text \<open>
  C26. In every state a call frame can reach, whatever the AML code holds and whichever calls fail, a round of the
  interpreter's loop reads no byte past its parse program, no item that does not exist and no item whose tag says
  another type than the one it is read as, decodes only parse operations and finds an operation that waits for each
  object it hands on.  There are two exceptions.  The slots a handler fills (\<open>handler_slot\<close>: item 0 of Load and
  LoadTable, item 3 of LoadTable) are read as a node or an object whatever their tag: \<open>handle_load\<close> leaves item 0 an
  immediate.  And an If or While that has been aborted while a table is loaded may read the item of an operation that
  has been dropped.  What the handlers themselves read is not part of the machine.
\<close>
theorem parse_machine_safe:
  assumes "frame_reach (Some p, ocs)" "exec_round inp p ocs = Fault f"
  shows "f = StaleItem \<and> ocs \<noteq> [] \<and> oc_op (hd ocs) \<in> {UACPI_AML_OP_WhileOp, UACPI_AML_OP_IfOp}"
  by (rule reach_fault [OF assms])

theorem parse_machine_safe_witness:
  "\<exists>inp p ocs. frame_reach (Some p, ocs) \<and> exec_round inp p ocs = Fault StaleItem
     \<and> oc_op (hd ocs) \<in> {UACPI_AML_OP_WhileOp, UACPI_AML_OP_IfOp}"
  using parse_machine_safe [OF abort_reached round_stale [of ok_input]] abort_reached round_stale [of ok_input] by blast

text \<open>The bytes of a program are bytes, and a program in the table itself fits the sixteen bytes there.\<close>

definition spec_wf :: "uacpi_op_spec \<Rightarrow> bool" where
  "spec_wf spec \<longleftrightarrow> list_all (\<lambda>b. b < 256) (spec_program spec) \<and> length (decode_ops spec) \<le> 16 \<and> spec_program spec \<noteq> []"

lemma opcodes_wf: "list_all spec_wf opcode_table"
  by code_simp

lemma ext_opcodes_wf: "list_all spec_wf ext_opcode_table"
  by code_simp

text \<open>
  The tables are indexed by the opcode they hold: entry i of the first table is the operation with opcode i, an
  entry of the index of the extended opcodes leads to the operation with the opcode 0x5B followed by its index.
  Every program consists of bytes and fits where it is stored.
\<close>
theorem opcode_tables_wf:
  "map op_code opcode_table = [0..<256] \<and>
   list_all (entry_ok (map op_code ext_opcode_table)) ext_op_entries \<and>
   list_all spec_wf (opcode_table @ ext_opcode_table)"
  using table_codes ext_entries opcodes_wf ext_opcodes_wf by simp

end
