(* ===== verification/AcpiMutex.thy ===== *)
theory AcpiMutex
  imports Status
begin

text \<open>
  The locks of the ACPI library (\<open>source/mutex.c\<close>, \<open>include/uacpi/internal/mutex.h\<close>): the wrappers of the
  mutexes the kernel provides, the recursive lock, the lock of many readers or one writer, the mutexes of AML
  and the global lock shared with the firmware.

  The kernel's services and the accesses to the word the firmware shares are the fields of a record \<open>os\<close>;
  \<open>'w\<close> is the state they work on.  A handle is an address, NULL is 0.  The texts the code logs are left out.
  Result \<open>None\<close> stands for a call that does not return.
\<close>

section \<open>The kernel's services\<close>

record 'w os =
  os_create_mutex :: "'w \<Rightarrow> (u64 \<times> 'w) option"
  os_free_mutex :: "u64 \<Rightarrow> 'w \<Rightarrow> 'w option"
  os_acquire_mutex :: "u64 \<Rightarrow> u16 \<Rightarrow> 'w \<Rightarrow> uacpi_status \<times> 'w"
  os_release_mutex :: "u64 \<Rightarrow> 'w \<Rightarrow> 'w"
  os_thread_id :: "'w \<Rightarrow> u64"
  os_lock_spinlock :: "u64 \<Rightarrow> 'w \<Rightarrow> u64 \<times> 'w"
  os_unlock_spinlock :: "u64 \<Rightarrow> u64 \<Rightarrow> 'w \<Rightarrow> 'w"
  os_wait_for_event :: "u64 \<Rightarrow> u16 \<Rightarrow> 'w \<Rightarrow> bool \<times> 'w"
  os_signal_event :: "u64 \<Rightarrow> 'w \<Rightarrow> 'w"
  os_mmio_read32 :: "'w \<Rightarrow> u32 \<times> 'w"
  os_cmpxchg32 :: "u32 \<Rightarrow> u32 \<Rightarrow> 'w \<Rightarrow> (bool \<times> u32) \<times> 'w"
  os_write_gbl_rls :: "'w \<Rightarrow> 'w"

definition UACPI_THREAD_ID_NONE :: u64 where
  "UACPI_THREAD_ID_NONE = - 1"

section \<open>Native mutexes\<close>

definition uacpi_acquire_native_mutex :: "'w os \<Rightarrow> u64 \<Rightarrow> 'w \<Rightarrow> uacpi_status \<times> 'w" where
  "uacpi_acquire_native_mutex os mtx w =
     (if mtx = 0 then (UACPI_STATUS_INVALID_ARGUMENT, w) else os_acquire_mutex os mtx 0xFFFF w)"

definition uacpi_acquire_native_mutex_with_timeout :: "'w os \<Rightarrow> u64 \<Rightarrow> u16 \<Rightarrow> 'w \<Rightarrow> uacpi_status \<times> 'w" where
  "uacpi_acquire_native_mutex_with_timeout os mtx timeout w =
     (if mtx = 0 then (UACPI_STATUS_INVALID_ARGUMENT, w) else os_acquire_mutex os mtx timeout w)"

definition uacpi_release_native_mutex :: "'w os \<Rightarrow> u64 \<Rightarrow> 'w \<Rightarrow> uacpi_status \<times> 'w" where
  "uacpi_release_native_mutex os mtx w =
     (if mtx = 0 then (UACPI_STATUS_INVALID_ARGUMENT, w) else (UACPI_STATUS_OK, os_release_mutex os mtx w))"

definition uacpi_acquire_native_mutex_may_be_null :: "'w os \<Rightarrow> u64 \<Rightarrow> 'w \<Rightarrow> uacpi_status \<times> 'w" where
  "uacpi_acquire_native_mutex_may_be_null os mtx w =
     (if mtx = 0 then (UACPI_STATUS_OK, w) else os_acquire_mutex os mtx 0xFFFF w)"

definition uacpi_release_native_mutex_may_be_null :: "'w os \<Rightarrow> u64 \<Rightarrow> 'w \<Rightarrow> uacpi_status \<times> 'w" where
  "uacpi_release_native_mutex_may_be_null os mtx w =
     (if mtx = 0 then (UACPI_STATUS_OK, w) else (UACPI_STATUS_OK, os_release_mutex os mtx w))"

section \<open>The recursive lock\<close>

record uacpi_recursive_lock =
  rl_mutex :: u64
  rl_depth :: u64
  rl_owner :: u64

definition uacpi_recursive_lock_init ::
  "'w os \<Rightarrow> uacpi_recursive_lock \<Rightarrow> 'w \<Rightarrow> (uacpi_status \<times> uacpi_recursive_lock \<times> 'w) option" where
  "uacpi_recursive_lock_init os lock w =
     map_option (\<lambda>(h, w).
       let lock = lock\<lparr>rl_mutex := h\<rparr> in
       if h = 0 then (UACPI_STATUS_OUT_OF_MEMORY, lock, w)
       else (UACPI_STATUS_OK, lock\<lparr>rl_owner := UACPI_THREAD_ID_NONE, rl_depth := 0\<rparr>, w))
     (os_create_mutex os w)"

definition uacpi_recursive_lock_deinit ::
  "'w os \<Rightarrow> uacpi_recursive_lock \<Rightarrow> 'w \<Rightarrow> (uacpi_status \<times> uacpi_recursive_lock \<times> 'w) option" where
  "uacpi_recursive_lock_deinit os lock w =
     (let lock = (if rl_depth lock \<noteq> 0 then lock\<lparr>rl_depth := 0\<rparr> else lock);
          lock = lock\<lparr>rl_owner := UACPI_THREAD_ID_NONE\<rparr> in
      if rl_mutex lock \<noteq> 0
      then map_option (\<lambda>w. (UACPI_STATUS_OK, lock\<lparr>rl_mutex := 0\<rparr>, w)) (os_free_mutex os (rl_mutex lock) w)
      else Some (UACPI_STATUS_OK, lock, w))"

definition uacpi_recursive_lock_acquire ::
  "'w os \<Rightarrow> uacpi_recursive_lock \<Rightarrow> 'w \<Rightarrow> uacpi_status \<times> uacpi_recursive_lock \<times> 'w" where
  "uacpi_recursive_lock_acquire os lock w =
     (let this_id = os_thread_id os w in
      if rl_owner lock = this_id then (UACPI_STATUS_OK, lock\<lparr>rl_depth := rl_depth lock + 1\<rparr>, w)
      else
        (let (ret, w) = uacpi_acquire_native_mutex os (rl_mutex lock) w in
         if ret \<noteq> UACPI_STATUS_OK then (ret, lock, w)
         else (ret, lock\<lparr>rl_owner := this_id, rl_depth := 1\<rparr>, w)))"

definition uacpi_recursive_lock_release ::
  "'w os \<Rightarrow> uacpi_recursive_lock \<Rightarrow> 'w \<Rightarrow> uacpi_status \<times> uacpi_recursive_lock \<times> 'w" where
  "uacpi_recursive_lock_release os lock w =
     (let depth = rl_depth lock; lock = lock\<lparr>rl_depth := depth - 1\<rparr> in
      if depth > 1 then (UACPI_STATUS_OK, lock, w)
      else
        (let lock = lock\<lparr>rl_owner := UACPI_THREAD_ID_NONE\<rparr>;
             (ret, w) = uacpi_release_native_mutex os (rl_mutex lock) w
         in (ret, lock, w)))"

section \<open>The lock of many readers or one writer\<close>

record uacpi_rw_lock =
  read_mutex :: u64
  write_mutex :: u64
  num_readers :: u64

definition uacpi_rw_lock_init ::
  "'w os \<Rightarrow> uacpi_rw_lock \<Rightarrow> 'w \<Rightarrow> (uacpi_status \<times> uacpi_rw_lock \<times> 'w) option" where
  "uacpi_rw_lock_init os lock w =
     Option.bind (os_create_mutex os w) (\<lambda>(r, w).
       let lock = lock\<lparr>read_mutex := r\<rparr> in
       if r = 0 then Some (UACPI_STATUS_OUT_OF_MEMORY, lock, w)
       else
         Option.bind (os_create_mutex os w) (\<lambda>(v, w).
           let lock = lock\<lparr>write_mutex := v\<rparr> in
           if v = 0
           then map_option (\<lambda>w. (UACPI_STATUS_OUT_OF_MEMORY, lock\<lparr>read_mutex := 0\<rparr>, w))
                  (os_free_mutex os (read_mutex lock) w)
           else Some (UACPI_STATUS_OK, lock\<lparr>num_readers := 0\<rparr>, w)))"

definition uacpi_rw_lock_deinit ::
  "'w os \<Rightarrow> uacpi_rw_lock \<Rightarrow> 'w \<Rightarrow> (uacpi_status \<times> uacpi_rw_lock \<times> 'w) option" where
  "uacpi_rw_lock_deinit os lock w =
     (let lock = (if num_readers lock \<noteq> 0 then lock\<lparr>num_readers := 0\<rparr> else lock) in
      Option.bind
        (if read_mutex lock \<noteq> 0
         then map_option (\<lambda>w. (lock\<lparr>read_mutex := 0\<rparr>, w)) (os_free_mutex os (read_mutex lock) w)
         else Some (lock, w))
        (\<lambda>(lock, w).
          if write_mutex lock \<noteq> 0
          then map_option (\<lambda>w. (UACPI_STATUS_OK, lock\<lparr>write_mutex := 0\<rparr>, w)) (os_free_mutex os (write_mutex lock) w)
          else Some (UACPI_STATUS_OK, lock, w)))"

definition uacpi_rw_lock_read :: "'w os \<Rightarrow> uacpi_rw_lock \<Rightarrow> 'w \<Rightarrow> uacpi_status \<times> uacpi_rw_lock \<times> 'w" where
  "uacpi_rw_lock_read os lock w =
     (let (ret, w) = uacpi_acquire_native_mutex os (read_mutex lock) w in
      if ret \<noteq> UACPI_STATUS_OK then (ret, lock, w)
      else
        (let n = num_readers lock;
             lock = lock\<lparr>num_readers := n + 1\<rparr>;
             (ret, lock, w) =
               (if n = 0
                then (let (ret, w) = uacpi_acquire_native_mutex os (write_mutex lock) w
                      in (ret, if ret \<noteq> UACPI_STATUS_OK then lock\<lparr>num_readers := 0\<rparr> else lock, w))
                else (ret, lock, w))
         in (ret, lock, os_release_mutex os (read_mutex lock) w)))"

definition uacpi_rw_unlock_read :: "'w os \<Rightarrow> uacpi_rw_lock \<Rightarrow> 'w \<Rightarrow> uacpi_status \<times> uacpi_rw_lock \<times> 'w" where
  "uacpi_rw_unlock_read os lock w =
     (let (ret, w) = uacpi_acquire_native_mutex os (read_mutex lock) w in
      if ret \<noteq> UACPI_STATUS_OK then (ret, lock, w)
      else
        (let n = num_readers lock;
             lock = lock\<lparr>num_readers := n - 1\<rparr>;
             w = (if n = 1 then snd (uacpi_release_native_mutex os (write_mutex lock) w) else w)
         in (ret, lock, os_release_mutex os (read_mutex lock) w)))"

definition uacpi_rw_lock_write :: "'w os \<Rightarrow> uacpi_rw_lock \<Rightarrow> 'w \<Rightarrow> uacpi_status \<times> 'w" where
  "uacpi_rw_lock_write os lock w = uacpi_acquire_native_mutex os (write_mutex lock) w"

definition uacpi_rw_unlock_write :: "'w os \<Rightarrow> uacpi_rw_lock \<Rightarrow> 'w \<Rightarrow> uacpi_status \<times> 'w" where
  "uacpi_rw_unlock_write os lock w = uacpi_release_native_mutex os (write_mutex lock) w"

section \<open>The word shared with the firmware\<close>

definition GLOBAL_LOCK_PENDING :: u32 where
  "GLOBAL_LOCK_PENDING = push_bit 0 1"

definition GLOBAL_LOCK_OWNED_BIT :: nat where
  "GLOBAL_LOCK_OWNED_BIT = 1"

definition GLOBAL_LOCK_OWNED :: u32 where
  "GLOBAL_LOCK_OWNED = push_bit GLOBAL_LOCK_OWNED_BIT 1"

definition GLOBAL_LOCK_MASK :: u32 where
  "GLOBAL_LOCK_MASK = 3"

text \<open>\<open>was_owned\<close>, and the bodies of the two loops: the new value for the one that was read.\<close>

definition was_owned :: "u32 \<Rightarrow> bool" where
  "was_owned v \<longleftrightarrow> drop_bit GLOBAL_LOCK_OWNED_BIT (v AND GLOBAL_LOCK_OWNED) \<noteq> 0"

definition taken :: "u32 \<Rightarrow> u32" where
  "taken v =
     (let new_value = v AND NOT GLOBAL_LOCK_MASK;
          new_value = new_value OR GLOBAL_LOCK_OWNED
      in if was_owned v then new_value OR GLOBAL_LOCK_PENDING else new_value)"

definition dropped :: "u32 \<Rightarrow> u32" where
  "dropped v = v AND NOT GLOBAL_LOCK_MASK"

text \<open>
  \<open>do new_value = f(value); while (!cmpxchg(lock, &value, new_value))\<close>: a failed exchange stores the word's value
  in \<open>value\<close>.  The loop returns the value it replaced.
\<close>

partial_function (option) cmpxchg_loop :: "'w os \<Rightarrow> (u32 \<Rightarrow> u32) \<Rightarrow> u32 \<Rightarrow> 'w \<Rightarrow> (u32 \<times> 'w) option" where
  "cmpxchg_loop os f v w =
     (if fst (fst (os_cmpxchg32 os v (f v) w)) then Some (v, snd (os_cmpxchg32 os v (f v) w))
      else cmpxchg_loop os f (snd (fst (os_cmpxchg32 os v (f v) w))) (snd (os_cmpxchg32 os v (f v) w)))"

definition try_acquire_global_lock_from_firmware :: "'w os \<Rightarrow> 'w \<Rightarrow> (bool \<times> 'w) option" where
  "try_acquire_global_lock_from_firmware os w =
     (let (v, w) = os_mmio_read32 os w
      in map_option (\<lambda>(v, w). (\<not> was_owned v, w)) (cmpxchg_loop os taken v w))"

definition do_release_global_lock_to_firmware :: "'w os \<Rightarrow> 'w \<Rightarrow> (bool \<times> 'w) option" where
  "do_release_global_lock_to_firmware os w =
     (let (v, w) = os_mmio_read32 os w
      in map_option (\<lambda>(v, w). (v AND GLOBAL_LOCK_PENDING \<noteq> 0, w)) (cmpxchg_loop os dropped v w))"

section \<open>The global lock\<close>

text \<open>
  The fields of \<open>g_uacpi_rt_ctx\<close> the locks use, with the handle of \<open>global_lock_mutex\<close>, the lock of the
  namespace and the state the kernel's services work on.
\<close>

record 'w rt =
  world :: 'w
  init_level :: u8
  has_global_lock :: bool
  global_lock_pending :: bool
  global_lock_acquired :: bool
  global_lock_seq_num :: u32
  global_lock_handle :: u64
  global_lock_event :: u64
  global_lock_spinlock :: u64
  namespace_lock :: uacpi_rw_lock

text \<open>The \<open>for (;;)\<close> of \<open>uacpi_acquire_global_lock_from_firmware\<close>, from \<open>spins++\<close> on.\<close>

function global_lock_attempts :: "'w os \<Rightarrow> u16 \<Rightarrow> u64 \<Rightarrow> 'w rt \<Rightarrow> (bool \<times> u64 \<times> 'w rt) option" where
  "global_lock_attempts os spins flags s =
     (case try_acquire_global_lock_from_firmware os (world s) of
        None \<Rightarrow> None
      | Some (success, w) \<Rightarrow>
          if success \<or> spins + 1 = 0xFFFF then Some (success, flags, s\<lparr>world := w\<rparr>)
          else
            (let w = os_unlock_spinlock os (global_lock_spinlock s) flags w;
                 w = snd (os_wait_for_event os (global_lock_event s) 0xFFFF w);
                 (flags, w) = os_lock_spinlock os (global_lock_spinlock s) w
             in global_lock_attempts os (spins + 1) flags (s\<lparr>global_lock_pending := True, world := w\<rparr>)))"
  by pat_completeness auto

termination
proof (relation "measure (\<lambda>(os, spins, flags, s). unat (0xFFFE - spins))", goal_cases)
  case (2 os spins flags s a success w w1 w2 flags' w3 flags'')
  then have "spins \<noteq> 0xFFFE" by auto
  then have "unat (0xFFFE - spins - 1) < unat (0xFFFE - spins)"
    by (metis eq_iff_diff_eq_0 unat_gt_0 unat_minus_one diff_less zero_less_one)
  moreover have "0xFFFE - (spins + 1) = 0xFFFE - spins - 1" by (simp add: algebra_simps)
  ultimately show ?case by (simp del: diff_diff_eq)
qed simp

declare global_lock_attempts.simps [simp del]

definition uacpi_acquire_global_lock_from_firmware :: "'w os \<Rightarrow> 'w rt \<Rightarrow> (uacpi_status \<times> 'w rt) option" where
  "uacpi_acquire_global_lock_from_firmware os s =
     (if \<not> has_global_lock s then Some (UACPI_STATUS_OK, s)
      else
        (let (flags, w) = os_lock_spinlock os (global_lock_spinlock s) (world s) in
         map_option (\<lambda>(success, flags, s).
           let s = s\<lparr>global_lock_pending := False,
                     world := os_unlock_spinlock os (global_lock_spinlock s) flags (world s)\<rparr>
           in (if \<not> success then UACPI_STATUS_HARDWARE_TIMEOUT else UACPI_STATUS_OK, s))
         (global_lock_attempts os 0 flags (s\<lparr>world := w\<rparr>))))"

definition uacpi_release_global_lock_to_firmware :: "'w os \<Rightarrow> 'w rt \<Rightarrow> 'w rt option" where
  "uacpi_release_global_lock_to_firmware os s =
     (if \<not> has_global_lock s then Some s
      else map_option (\<lambda>(pending, w). s\<lparr>world := if pending then os_write_gbl_rls os w else w\<rparr>)
             (do_release_global_lock_to_firmware os (world s)))"

text \<open>\<open>out_seq\<close> is an address; the second result is the number stored there, if one is.\<close>

definition uacpi_acquire_global_lock ::
  "'w os \<Rightarrow> u16 \<Rightarrow> u64 \<Rightarrow> 'w rt \<Rightarrow> (uacpi_status \<times> u32 option \<times> 'w rt) option" where
  "uacpi_acquire_global_lock os timeout out_seq s =
     (if init_level s < 1 then Some (UACPI_STATUS_INIT_LEVEL_MISMATCH, None, s)
      else if out_seq = 0 then Some (UACPI_STATUS_INVALID_ARGUMENT, None, s)
      else
        (let (ret, w) = uacpi_acquire_native_mutex_with_timeout os (global_lock_handle s) timeout (world s);
             s = s\<lparr>world := w\<rparr> in
         if ret \<noteq> UACPI_STATUS_OK then Some (ret, None, s)
         else
           map_option (\<lambda>(ret, s).
             if ret \<noteq> UACPI_STATUS_OK
             then (ret, None, s\<lparr>world := snd (uacpi_release_native_mutex os (global_lock_handle s) (world s))\<rparr>)
             else
               (let s = (if global_lock_seq_num s = 0xFFFFFFFF then s\<lparr>global_lock_seq_num := 0\<rparr> else s);
                    seq = global_lock_seq_num s
                in (UACPI_STATUS_OK, Some seq, s\<lparr>global_lock_seq_num := seq + 1, global_lock_acquired := True\<rparr>)))
           (uacpi_acquire_global_lock_from_firmware os s)))"

definition uacpi_release_global_lock :: "'w os \<Rightarrow> u32 \<Rightarrow> 'w rt \<Rightarrow> (uacpi_status \<times> 'w rt) option" where
  "uacpi_release_global_lock os seq s =
     (if init_level s < 1 then Some (UACPI_STATUS_INIT_LEVEL_MISMATCH, s)
      else if \<not> global_lock_acquired s \<or> seq \<noteq> global_lock_seq_num s then Some (UACPI_STATUS_INVALID_ARGUMENT, s)
      else
        map_option (\<lambda>s. (UACPI_STATUS_OK, s\<lparr>world := snd (uacpi_release_native_mutex os (global_lock_handle s) (world s))\<rparr>))
          (uacpi_release_global_lock_to_firmware os (s\<lparr>global_lock_acquired := False\<rparr>)))"

text \<open>The firmware's notification that it released the lock (\<open>handle_global_lock\<close> of \<open>source/event.c\<close>).\<close>

definition handle_global_lock :: "'w os \<Rightarrow> 'w rt \<Rightarrow> 'w rt" where
  "handle_global_lock os s =
     (if \<not> has_global_lock s then s
      else
        (let (flags, w) = os_lock_spinlock os (global_lock_spinlock s) (world s);
             (s, w) =
               (if \<not> global_lock_pending s then (s, w)
                else (s\<lparr>global_lock_pending := False\<rparr>, os_signal_event os (global_lock_event s) w))
         in s\<lparr>world := os_unlock_spinlock os (global_lock_spinlock s) flags w\<rparr>))"

section \<open>Mutexes of AML\<close>

record uacpi_mutex =
  m_handle :: u64
  m_owner :: u64
  m_depth :: u16
  m_sync_level :: u8

definition uacpi_this_thread_owns_aml_mutex :: "'w os \<Rightarrow> uacpi_mutex \<Rightarrow> 'w \<Rightarrow> bool" where
  "uacpi_this_thread_owns_aml_mutex os mutex w \<longleftrightarrow> m_owner mutex = os_thread_id os w"

definition uacpi_namespace_write_lock :: "'w os \<Rightarrow> 'w rt \<Rightarrow> 'w rt" where
  "uacpi_namespace_write_lock os s = s\<lparr>world := snd (uacpi_rw_lock_write os (namespace_lock s) (world s))\<rparr>"

definition uacpi_namespace_write_unlock :: "'w os \<Rightarrow> 'w rt \<Rightarrow> 'w rt" where
  "uacpi_namespace_write_unlock os s = s\<lparr>world := snd (uacpi_rw_unlock_write os (namespace_lock s) (world s))\<rparr>"

definition uacpi_acquire_aml_mutex ::
  "'w os \<Rightarrow> uacpi_mutex \<Rightarrow> u16 \<Rightarrow> 'w rt \<Rightarrow> (uacpi_status \<times> uacpi_mutex \<times> 'w rt) option" where
  "uacpi_acquire_aml_mutex os mutex timeout s =
     (let this_id = os_thread_id os (world s) in
      if m_owner mutex = this_id
      then
        (if m_depth mutex = 0xFFFF then Some (UACPI_STATUS_DENIED, mutex, s)
         else Some (UACPI_STATUS_OK, mutex\<lparr>m_depth := m_depth mutex + 1\<rparr>, s))
      else
        (let s = uacpi_namespace_write_unlock os s;
             (ret, w) = uacpi_acquire_native_mutex_with_timeout os (m_handle mutex) timeout (world s);
             s = s\<lparr>world := w\<rparr>;
             locked = mutex\<lparr>m_owner := this_id, m_depth := 1\<rparr> in
         map_option (\<lambda>(ret, mutex, s). (ret, mutex, uacpi_namespace_write_lock os s))
           (if ret \<noteq> UACPI_STATUS_OK then Some (ret, mutex, s)
            else if m_handle mutex = global_lock_handle s
            then
              map_option (\<lambda>(ret, s).
                if ret \<noteq> UACPI_STATUS_OK
                then (ret, mutex, s\<lparr>world := snd (uacpi_release_native_mutex os (m_handle mutex) (world s))\<rparr>)
                else (ret, locked, s))
              (uacpi_acquire_global_lock_from_firmware os s)
            else Some (ret, locked, s))))"

definition uacpi_release_aml_mutex :: "'w os \<Rightarrow> uacpi_mutex \<Rightarrow> 'w rt \<Rightarrow> (uacpi_status \<times> uacpi_mutex \<times> 'w rt) option" where
  "uacpi_release_aml_mutex os mutex s =
     (let depth = m_depth mutex; mutex = mutex\<lparr>m_depth := depth - 1\<rparr> in
      if depth > 1 then Some (UACPI_STATUS_OK, mutex, s)
      else
        map_option (\<lambda>s.
          (UACPI_STATUS_OK, mutex\<lparr>m_owner := UACPI_THREAD_ID_NONE\<rparr>,
           s\<lparr>world := snd (uacpi_release_native_mutex os (m_handle mutex) (world s))\<rparr>))
          (if m_handle mutex = global_lock_handle s then uacpi_release_global_lock_to_firmware os s else Some s))"

end
