(* ===== verification/AcpiGlobalLock.thy ===== *)
theory AcpiGlobalLock
  imports AcpiMutex
begin

text \<open>
  The global lock of ACPI, a word in memory the operating system shares with the firmware, under interleaving.
  The rules \<open>os_*\<close> and \<open>handler\<close> are the pieces of \<open>uacpi_acquire_global_lock_from_firmware\<close>,
  \<open>uacpi_release_global_lock_to_firmware\<close> (\<open>source/mutex.c\<close>) and \<open>handle_global_lock\<close> (\<open>source/event.c\<close>) between
  two points where the other side can act.  The rules \<open>fw_*\<close> are the protocol the ACPI specification (section on
  the global lock) obliges the firmware to follow; it is the same one with the two notifications exchanged.
  A loop around a compare-and-exchange is one step, since only its last exchange changes the word
  (lemma \<open>cmpxchg_loop_atomic\<close>).  The parameter \<open>masks\<close> says what the spinlock does: when it is true it keeps the
  interrupt handler out, as \<open>kernel_api.h\<close> requires; when it is false it does nothing, as in this kernel
  (\<open>uacpi_kernel_lock_spinlock\<close> of \<open>kernel_apis.c\<close>).
\<close>

section \<open>The bits of the word\<close>

lemma one_bit: "bit (push_bit k (1 :: u32)) n \<longleftrightarrow> n = k \<and> n < 32"
  by (auto simp: bit_exp_iff dest: bit_imp_le_length)

lemma lock_bits: "bit GLOBAL_LOCK_OWNED n \<longleftrightarrow> n = 1" "bit GLOBAL_LOCK_PENDING n \<longleftrightarrow> n = 0"
  unfolding GLOBAL_LOCK_OWNED_def GLOBAL_LOCK_OWNED_BIT_def GLOBAL_LOCK_PENDING_def one_bit by auto

lemma mask_bits: "bit GLOBAL_LOCK_MASK n \<longleftrightarrow> n < 2"
proof -
  have "GLOBAL_LOCK_MASK = mask 2" by (simp add: GLOBAL_LOCK_MASK_def mask_eq_exp_minus_1)
  then show ?thesis unfolding \<open>GLOBAL_LOCK_MASK = mask 2\<close> bit_mask_iff by auto
qed

lemma was_owned_bit: "was_owned v \<longleftrightarrow> bit v 1"
proof -
  have "bit (drop_bit GLOBAL_LOCK_OWNED_BIT (v AND GLOBAL_LOCK_OWNED)) n \<longleftrightarrow> n = 0 \<and> bit v 1" for n
    unfolding bit_drop_bit_eq o_def bit_and_iff lock_bits by (auto simp: GLOBAL_LOCK_OWNED_BIT_def)
  then show ?thesis
    unfolding was_owned_def by (metis bit_0_eq bot_fun_def bot_bool_def bit_eqI)
qed

lemma pending_bit: "v AND GLOBAL_LOCK_PENDING \<noteq> 0 \<longleftrightarrow> bit v 0"
  by (simp add: GLOBAL_LOCK_PENDING_def and_one_eq odd_iff_mod_2_eq_one [symmetric] bit_0)

lemma taken_bits: "n < 32 \<Longrightarrow> bit (taken v) n \<longleftrightarrow> (if n = 0 then bit v 1 else n = 1 \<or> bit v n)"
  by (auto simp: taken_def was_owned_bit bit_simps mask_bits lock_bits Let_def)

lemma dropped_bits: "n < 32 \<Longrightarrow> bit (dropped v) n \<longleftrightarrow> n \<ge> 2 \<and> bit v n"
  by (auto simp: dropped_def bit_simps mask_bits)

lemma cmpxchg_loop_atomic:
  assumes "cmpxchg_loop os f v w = Some r"
  shows "\<exists>w0. fst (fst (os_cmpxchg32 os (fst r) (f (fst r)) w0)) \<and> snd r = snd (os_cmpxchg32 os (fst r) (f (fst r)) w0)"
  using assms
proof (rule cmpxchg_loop.raw_induct [rotated, where P = "\<lambda>os f v w r.
    \<exists>w0. fst (fst (os_cmpxchg32 os (fst r) (f (fst r)) w0)) \<and> snd r = snd (os_cmpxchg32 os (fst r) (f (fst r)) w0)"])
  fix loop and os :: "'w os" and f v w r
  assume IH: "\<And>os f v w r. loop os f v w = Some r \<Longrightarrow>
      \<exists>w0. fst (fst (os_cmpxchg32 os (fst r) (f (fst r)) w0)) \<and> snd r = snd (os_cmpxchg32 os (fst r) (f (fst r)) w0)"
    and step: "(if fst (fst (os_cmpxchg32 os v (f v) w)) then Some (v, snd (os_cmpxchg32 os v (f v) w))
      else loop os f (snd (fst (os_cmpxchg32 os v (f v) w))) (snd (os_cmpxchg32 os v (f v) w))) = Some r"
  show "\<exists>w0. fst (fst (os_cmpxchg32 os (fst r) (f (fst r)) w0)) \<and> snd r = snd (os_cmpxchg32 os (fst r) (f (fst r)) w0)"
    using step by (auto split: if_splits intro: IH)
qed

section \<open>The two sides\<close>

text \<open>
  The operating system: idle; about to try, having failed, having succeeded (these three hold the spinlock);
  waiting for the event; owner; owner no more, about to notify the firmware.
\<close>

datatype os_pc = Idle | Trying | Marked | Got | Waiting | Owner | Notifying

datatype fw_pc = FW_Idle | FW_Waiting | FW_Owner | FW_Notifying

record gl_state =
  lock_word :: u32
  os_at :: os_pc
  attempts :: u16
  pending :: bool
  events :: nat
  sci :: bool
  fw_at :: fw_pc
  gbl_rls :: bool

definition spinlock_held :: "gl_state \<Rightarrow> bool" where
  "spinlock_held s \<longleftrightarrow> os_at s \<in> {Trying, Marked, Got}"

text \<open>
  A signal increments the counter of the event, as \<open>kernel_api.h\<close> documents, or sets the flag that is the event of
  this kernel.
\<close>

inductive gl_step :: "bool \<Rightarrow> gl_state \<Rightarrow> gl_state \<Rightarrow> bool" for masks where
  os_enter: "os_at s = Idle \<Longrightarrow> gl_step masks s (s\<lparr>os_at := Trying, attempts := 0\<rparr>)"
| os_try: "os_at s = Trying \<Longrightarrow>
    gl_step masks s (s\<lparr>attempts := attempts s + 1, lock_word := taken (lock_word s),
                 os_at := if was_owned (lock_word s) then Marked else Got\<rparr>)"
| os_give_up: "os_at s = Marked \<Longrightarrow> attempts s = 0xFFFF \<Longrightarrow> gl_step masks s (s\<lparr>pending := False, os_at := Idle\<rparr>)"
| os_wait: "os_at s = Marked \<Longrightarrow> attempts s \<noteq> 0xFFFF \<Longrightarrow> gl_step masks s (s\<lparr>pending := True, os_at := Waiting\<rparr>)"
| os_wake: "os_at s = Waiting \<Longrightarrow> events s > 0 \<Longrightarrow> gl_step masks s (s\<lparr>events := events s - 1, os_at := Trying\<rparr>)"
| os_wake_early: "os_at s = Waiting \<Longrightarrow> gl_step masks s (s\<lparr>os_at := Trying\<rparr>)"
| os_own: "os_at s = Got \<Longrightarrow> gl_step masks s (s\<lparr>pending := False, os_at := Owner\<rparr>)"
| os_release: "os_at s = Owner \<Longrightarrow>
    gl_step masks s (s\<lparr>lock_word := dropped (lock_word s),
                 os_at := if lock_word s AND GLOBAL_LOCK_PENDING \<noteq> 0 then Notifying else Idle\<rparr>)"
| os_notify: "os_at s = Notifying \<Longrightarrow> gl_step masks s (s\<lparr>gbl_rls := True, os_at := Idle\<rparr>)"
| handler: "sci s \<Longrightarrow> (masks \<longrightarrow> \<not> spinlock_held s) \<Longrightarrow> n \<in> {1, events s + 1} \<Longrightarrow>
    gl_step masks s (if pending s then s\<lparr>sci := False, events := n, pending := False\<rparr> else s\<lparr>sci := False\<rparr>)"
| fw_try: "fw_at s = FW_Idle \<Longrightarrow>
    gl_step masks s (s\<lparr>lock_word := taken (lock_word s), fw_at := if was_owned (lock_word s) then FW_Waiting else FW_Owner\<rparr>)"
| fw_retry: "fw_at s = FW_Waiting \<Longrightarrow> gbl_rls s \<Longrightarrow>
    gl_step masks s (s\<lparr>gbl_rls := False, lock_word := taken (lock_word s),
                 fw_at := if was_owned (lock_word s) then FW_Waiting else FW_Owner\<rparr>)"
| fw_release: "fw_at s = FW_Owner \<Longrightarrow>
    gl_step masks s (s\<lparr>lock_word := dropped (lock_word s),
                 fw_at := if lock_word s AND GLOBAL_LOCK_PENDING \<noteq> 0 then FW_Notifying else FW_Idle\<rparr>)"
| fw_notify: "fw_at s = FW_Notifying \<Longrightarrow> gl_step masks s (s\<lparr>sci := True, fw_at := FW_Idle\<rparr>)"

definition gl_start :: "u32 \<Rightarrow> gl_state" where
  "gl_start v = \<lparr>lock_word = dropped v, os_at = Idle, attempts = 0, pending = False, events = 0, sci = False,
     fw_at = FW_Idle, gbl_rls = False\<rparr>"

section \<open>The invariant\<close>

definition os_owns :: "gl_state \<Rightarrow> bool" where
  "os_owns s \<longleftrightarrow> os_at s \<in> {Got, Owner}"

definition fw_owns :: "gl_state \<Rightarrow> bool" where
  "fw_owns s \<longleftrightarrow> fw_at s = FW_Owner"

text \<open>What will wake a waiter: the owner has yet to release the word, the notification is on its way, or it is there.\<close>

definition fw_will_notify :: "gl_state \<Rightarrow> bool" where
  "fw_will_notify s \<longleftrightarrow> sci s \<or> fw_at s = FW_Notifying \<or> fw_owns s \<and> bit (lock_word s) 0"

definition os_will_notify :: "gl_state \<Rightarrow> bool" where
  "os_will_notify s \<longleftrightarrow> gbl_rls s \<or> os_at s = Notifying \<or> os_owns s \<and> bit (lock_word s) 0"

definition gl_inv :: "u32 \<Rightarrow> gl_state \<Rightarrow> bool" where
  "gl_inv v s \<longleftrightarrow>
     (bit (lock_word s) 1 \<longleftrightarrow> os_owns s \<or> fw_owns s) \<and> \<not> (os_owns s \<and> fw_owns s) \<and>
     (\<forall>n. 2 \<le> n \<and> n < 32 \<longrightarrow> bit (lock_word s) n = bit v n) \<and>
     (os_at s = Marked \<longrightarrow> fw_will_notify s) \<and>
     (os_at s = Waiting \<longrightarrow> events s > 0 \<or> pending s \<and> fw_will_notify s) \<and>
     (fw_at s = FW_Waiting \<longrightarrow> os_will_notify s)"

lemmas gl_defs = gl_inv_def fw_will_notify_def os_will_notify_def os_owns_def fw_owns_def spinlock_held_def

lemma gl_step_inv: "gl_step True s s' \<Longrightarrow> gl_inv v s \<Longrightarrow> gl_inv v s'"
  by (induction rule: gl_step.induct)
    (auto simp: gl_defs taken_bits dropped_bits was_owned_bit pending_bit split: if_splits)

lemma gl_start_inv: "gl_inv v (gl_start v)"
  by (simp add: gl_defs gl_start_def dropped_bits)

lemma gl_reachable_inv: "(gl_step True)\<^sup>*\<^sup>* (gl_start v) s \<Longrightarrow> gl_inv v s"
  by (induction rule: rtranclp_induct) (auto intro: gl_start_inv gl_step_inv)

section \<open>Two runs\<close>

definition gl_at :: "u32 \<Rightarrow> os_pc \<Rightarrow> u16 \<Rightarrow> bool \<Rightarrow> bool \<Rightarrow> fw_pc \<Rightarrow> gl_state" where
  "gl_at w q a p i f = \<lparr>lock_word = w, os_at = q, attempts = a, pending = p, events = 0, sci = i, fw_at = f, gbl_rls = False\<rparr>"

lemmas word_steps = taken_def dropped_def was_owned_def GLOBAL_LOCK_OWNED_def GLOBAL_LOCK_OWNED_BIT_def
  GLOBAL_LOCK_MASK_def GLOBAL_LOCK_PENDING_def

lemma gl_start_at: "gl_start 0 = gl_at 0 Idle 0 False False FW_Idle"
  by (simp add: gl_start_def gl_at_def dropped_def)

text \<open>The firmware owns the lock and the operating system has marked the word.\<close>

lemma marked_reachable: "(gl_step masks)\<^sup>*\<^sup>* (gl_start 0) (gl_at 3 Marked 1 False False FW_Owner)"
proof -
  have "(gl_step masks)\<^sup>*\<^sup>* (gl_start 0) (gl_at 2 Idle 0 False False FW_Owner)"
    using fw_try [of "gl_at 0 Idle 0 False False FW_Idle" masks] by (simp add: gl_start_at gl_at_def word_steps)
  also have "(gl_step masks)\<^sup>*\<^sup>* \<dots> (gl_at 2 Trying 0 False False FW_Owner)"
    using os_enter [of "gl_at 2 Idle 0 False False FW_Owner" masks] by (simp add: gl_at_def)
  also have "(gl_step masks)\<^sup>*\<^sup>* \<dots> (gl_at 3 Marked 1 False False FW_Owner)"
    using os_try [of "gl_at 2 Trying 0 False False FW_Owner" masks] by (simp add: gl_at_def word_steps)
  finally show ?thesis .
qed

text \<open>The operating system waits and the firmware releases.\<close>

lemma hand_over_reachable: "(gl_step masks)\<^sup>*\<^sup>* (gl_start 0) (gl_at 0 Waiting 1 True False FW_Notifying)"
proof -
  note marked_reachable
  also have "(gl_step masks)\<^sup>*\<^sup>* (gl_at 3 Marked 1 False False FW_Owner) (gl_at 3 Waiting 1 True False FW_Owner)"
    using os_wait [of "gl_at 3 Marked 1 False False FW_Owner" masks] by (simp add: gl_at_def)
  also have "(gl_step masks)\<^sup>*\<^sup>* \<dots> (gl_at 0 Waiting 1 True False FW_Notifying)"
    using fw_release [of "gl_at 3 Waiting 1 True False FW_Owner" masks] by (simp add: gl_at_def word_steps)
  finally show ?thesis .
qed

text \<open>The firmware releases and notifies, and the handler runs, before the operating system says that it waits.\<close>

lemma wake_up_lost:
  "\<exists>s. (gl_step False)\<^sup>*\<^sup>* (gl_start 0) s \<and> os_at s = Waiting \<and> events s = 0 \<and> \<not> sci s \<and>
     fw_at s = FW_Idle \<and> \<not> was_owned (lock_word s)"
proof -
  note marked_reachable
  also have "(gl_step False)\<^sup>*\<^sup>* (gl_at 3 Marked 1 False False FW_Owner) (gl_at 0 Marked 1 False False FW_Notifying)"
    using fw_release [of "gl_at 3 Marked 1 False False FW_Owner" False] by (simp add: gl_at_def word_steps)
  also have "(gl_step False)\<^sup>*\<^sup>* \<dots> (gl_at 0 Marked 1 False True FW_Idle)"
    using fw_notify [of "gl_at 0 Marked 1 False False FW_Notifying" False] by (simp add: gl_at_def)
  also have "(gl_step False)\<^sup>*\<^sup>* \<dots> (gl_at 0 Marked 1 False False FW_Idle)"
    using handler [of "gl_at 0 Marked 1 False True FW_Idle" False 1] by (simp add: gl_at_def)
  also have "(gl_step False)\<^sup>*\<^sup>* \<dots> (gl_at 0 Waiting 1 True False FW_Idle)"
    using os_wait [of "gl_at 0 Marked 1 False False FW_Idle" False] by (simp add: gl_at_def)
  finally show ?thesis
    by (intro exI [of _ "gl_at 0 Waiting 1 True False FW_Idle"]) (simp add: gl_at_def word_steps)
qed

section \<open>Properties\<close>

text \<open>
  C29. When the spinlock keeps the interrupt handler out, as \<open>kernel_api.h\<close> requires: whatever the order in which the
  operating system, its interrupt handler and the firmware act, the two never own the lock together, the owned bit says
  whether one of them does, the other 30 bits of the word never change,
  and no wake-up is lost. A waiting operating system has its event signalled already, or the handler will
  signal it because the firmware's release notification is pending or the firmware still has to release
  the word, with the pending bit set; likewise for a waiting firmware.  With the spinlock of this kernel, which does
  nothing, the wake-up can be lost: the operating system can wait while the lock is free, the firmware idle, no
  interrupt pending and its event not signalled.
\<close>
theorem global_lock_handshake:
  assumes "(gl_step True)\<^sup>*\<^sup>* (gl_start v) s"
  shows "\<not> (os_at s = Owner \<and> fw_at s = FW_Owner) \<and>
    (was_owned (lock_word s) \<longleftrightarrow> os_at s \<in> {Got, Owner} \<or> fw_at s = FW_Owner) \<and>
    drop_bit 2 (lock_word s) = drop_bit 2 v \<and>
    (os_at s = Waiting \<longrightarrow> events s > 0 \<or> pending s \<and>
       (sci s \<or> fw_at s = FW_Notifying \<or> fw_at s = FW_Owner \<and> lock_word s AND GLOBAL_LOCK_PENDING \<noteq> 0)) \<and>
    (fw_at s = FW_Waiting \<longrightarrow> gbl_rls s \<or> os_at s = Notifying \<or>
       os_at s \<in> {Got, Owner} \<and> lock_word s AND GLOBAL_LOCK_PENDING \<noteq> 0) \<and>
    (\<exists>s'. (gl_step False)\<^sup>*\<^sup>* (gl_start 0) s' \<and> os_at s' = Waiting \<and> events s' = 0 \<and> \<not> sci s' \<and>
       fw_at s' = FW_Idle \<and> \<not> was_owned (lock_word s'))"
proof -
  have inv: "gl_inv v s" using gl_reachable_inv [OF assms] .
  have "drop_bit 2 (lock_word s) = drop_bit 2 v"
  proof (rule bit_eqI)
    fix n
    have "bit (lock_word s) (2 + n) = bit v (2 + n)" if "2 + n < 32"
      using inv that by (simp add: gl_inv_def)
    then show "bit (drop_bit 2 (lock_word s)) n = bit (drop_bit 2 v) n"
      using bit_imp_le_length [of "lock_word s" "2 + n"] bit_imp_le_length [of v "2 + n"]
      by (auto simp: bit_drop_bit_eq)
  qed
  then show ?thesis using inv
    by - (intro conjI wake_up_lost, auto simp: gl_defs was_owned_bit pending_bit)
qed

theorem global_lock_handshake_witness:
  "pending (gl_at 0 Waiting 1 True False FW_Notifying) \<and> \<not> was_owned 0"
  using global_lock_handshake [OF hand_over_reachable] by (simp add: gl_at_def)

end
