(* ===== verification/AcpiRwLock.thy ===== *)
theory AcpiRwLock
  imports AcpiMutex
begin

text \<open>
  The lock of many readers or one writer (\<open>uacpi_rw_lock_*\<close> of \<open>source/mutex.c\<close>) under interleaving.  Each rule
  of \<open>rw_step\<close> is what a thread does between two points where another thread can run: one call of the native
  mutex or one access to \<open>num_readers\<close>.  The parameter \<open>excl\<close> says what the native mutexes are.  When it is true
  they behave as \<open>kernel_api.h\<close> documents them: an acquire with infinite wait succeeds only when the mutex is free,
  and may fail with an error of the host; any thread may release the write mutex, as the last reader does for the
  first.  When it is false they are those of this kernel (\<open>uacpi_kernel_acquire_mutex\<close> of \<open>kernel_apis.c\<close>), whose
  acquire succeeds whether the mutex is held or not.  Threads have every identifier but \<open>UACPI_THREAD_ID_NONE\<close>, so at
  most 2^64 - 1 of them exist and the counter cannot wrap.
\<close>

section \<open>The interleaved program\<close>

text \<open>
  Where a thread is: outside; in \<open>uacpi_rw_lock_read\<close> (before the count, waiting for the write mutex, about to
  return with success or with the error); reading; in \<open>uacpi_rw_unlock_read\<close> (before the count, about to release
  the write mutex, about to return); writing.
\<close>

datatype rw_pc = Outside | Counting | First | Counted | Failed | Reading | Uncounting | Last | Leaving | Writing

record rw_state =
  readers :: u64
  read_held :: "u64 option"
  write_held :: bool
  pc :: "u64 \<Rightarrow> rw_pc"

definition goto :: "u64 \<Rightarrow> rw_pc \<Rightarrow> rw_state \<Rightarrow> rw_state" where
  "goto t p s = s\<lparr>pc := (pc s)(t := p)\<rparr>"

inductive rw_step :: "bool \<Rightarrow> rw_state \<Rightarrow> rw_state \<Rightarrow> bool" for excl where
  read_enter: "t \<noteq> UACPI_THREAD_ID_NONE \<Longrightarrow> pc s t = Outside \<Longrightarrow> (excl \<longrightarrow> read_held s = None) \<Longrightarrow>
    rw_step excl s (goto t Counting (s\<lparr>read_held := Some t\<rparr>))"
| read_count: "pc s t = Counting \<Longrightarrow>
    rw_step excl s (goto t (if readers s = 0 then First else Counted) (s\<lparr>readers := readers s + 1\<rparr>))"
| read_first: "pc s t = First \<Longrightarrow> (excl \<longrightarrow> \<not> write_held s) \<Longrightarrow> rw_step excl s (goto t Counted (s\<lparr>write_held := True\<rparr>))"
| read_error: "pc s t = First \<Longrightarrow> rw_step excl s (goto t Failed (s\<lparr>readers := 0\<rparr>))"
| read_ok: "pc s t = Counted \<Longrightarrow> rw_step excl s (goto t Reading (s\<lparr>read_held := None\<rparr>))"
| read_fail: "pc s t = Failed \<Longrightarrow> rw_step excl s (goto t Outside (s\<lparr>read_held := None\<rparr>))"
| unread_enter: "pc s t = Reading \<Longrightarrow> (excl \<longrightarrow> read_held s = None) \<Longrightarrow>
    rw_step excl s (goto t Uncounting (s\<lparr>read_held := Some t\<rparr>))"
| unread_count: "pc s t = Uncounting \<Longrightarrow>
    rw_step excl s (goto t (if readers s = 1 then Last else Leaving) (s\<lparr>readers := readers s - 1\<rparr>))"
| unread_last: "pc s t = Last \<Longrightarrow> rw_step excl s (goto t Leaving (s\<lparr>write_held := False\<rparr>))"
| unread_ok: "pc s t = Leaving \<Longrightarrow> rw_step excl s (goto t Outside (s\<lparr>read_held := None\<rparr>))"
| write_enter: "t \<noteq> UACPI_THREAD_ID_NONE \<Longrightarrow> pc s t = Outside \<Longrightarrow> (excl \<longrightarrow> \<not> write_held s) \<Longrightarrow>
    rw_step excl s (goto t Writing (s\<lparr>write_held := True\<rparr>))"
| write_leave: "pc s t = Writing \<Longrightarrow> rw_step excl s (goto t Outside (s\<lparr>write_held := False\<rparr>))"

definition rw_start :: rw_state where
  "rw_start = \<lparr>readers = 0, read_held = None, write_held = False, pc = (\<lambda>t. Outside)\<rparr>"

section \<open>The invariant\<close>

definition in_section :: "rw_pc \<Rightarrow> bool" where
  "in_section p \<longleftrightarrow> p \<notin> {Outside, Reading, Writing}"

definition counted :: "rw_state \<Rightarrow> u64 set" where
  "counted s = {t. pc s t \<in> {First, Counted, Reading, Uncounting}}"

definition sharing :: "rw_state \<Rightarrow> u64 set" where
  "sharing s = {t. pc s t \<in> {Counted, Reading, Uncounting, Last}}"

definition writers :: "rw_state \<Rightarrow> u64 set" where
  "writers s = {t. pc s t = Writing}"

definition rw_inv :: "rw_state \<Rightarrow> bool" where
  "rw_inv s \<longleftrightarrow>
     pc s UACPI_THREAD_ID_NONE = Outside \<and>
     (\<forall>t. in_section (pc s t) \<longleftrightarrow> read_held s = Some t) \<and>
     readers s = of_nat (card (counted s)) \<and>
     (\<forall>t. pc s t = First \<longrightarrow> counted s = {t}) \<and>
     (\<forall>t. pc s t \<in> {Last, Failed} \<longrightarrow> counted s = {}) \<and>
     (write_held s \<longleftrightarrow> writers s \<noteq> {} \<or> sharing s \<noteq> {}) \<and>
     (\<forall>t \<in> writers s. writers s = {t} \<and> sharing s = {})"

lemma counted_goto:
  "counted (goto t p s) =
     (if p \<in> {First, Counted, Reading, Uncounting} then insert t (counted s) else counted s - {t})"
  by (auto simp: counted_def goto_def)

lemma sharing_goto:
  "sharing (goto t p s) =
     (if p \<in> {Counted, Reading, Uncounting, Last} then insert t (sharing s) else sharing s - {t})"
  by (auto simp: sharing_def goto_def)

lemma writers_goto: "writers (goto t p s) = (if p = Writing then insert t (writers s) else writers s - {t})"
  by (auto simp: writers_def goto_def)

lemma goto_fields [simp]:
  "readers (goto t p s) = readers s" "read_held (goto t p s) = read_held s" "write_held (goto t p s) = write_held s"
  "pc (goto t p s) u = (if u = t then p else pc s u)"
  by (simp_all add: goto_def)

lemma sets_update [simp]:
  "counted (s\<lparr>readers := n\<rparr>) = counted s" "counted (s\<lparr>read_held := h\<rparr>) = counted s"
  "counted (s\<lparr>write_held := b\<rparr>) = counted s"
  "sharing (s\<lparr>readers := n\<rparr>) = sharing s" "sharing (s\<lparr>read_held := h\<rparr>) = sharing s"
  "sharing (s\<lparr>write_held := b\<rparr>) = sharing s"
  "writers (s\<lparr>readers := n\<rparr>) = writers s" "writers (s\<lparr>read_held := h\<rparr>) = writers s"
  "writers (s\<lparr>write_held := b\<rparr>) = writers s"
  by (simp_all add: counted_def sharing_def writers_def)

text \<open>The counter holds the number of counted readers, so it is 0 or 1 exactly when they are none or one.\<close>

lemma card_readers:
  assumes "A \<subseteq> UNIV - {UACPI_THREAD_ID_NONE}"
  shows "unat (of_nat (card A) :: u64) = card A"
proof -
  have "card A \<le> card (UNIV - {UACPI_THREAD_ID_NONE})" using assms by (intro card_mono) auto
  also have "\<dots> < 2 ^ 64" by (simp add: card_Diff_singleton card_word)
  finally show ?thesis by (simp add: unat_of_nat)
qed

lemma readers_card:
  assumes "rw_inv s" shows "unat (readers s) = card (counted s)"
proof -
  have "UACPI_THREAD_ID_NONE \<notin> counted s" using assms by (simp add: rw_inv_def counted_def)
  then show ?thesis using assms card_readers [of "counted s"] by (auto simp: rw_inv_def)
qed

lemma readers_none: "rw_inv s \<Longrightarrow> readers s = 0 \<longleftrightarrow> counted s = {}"
  using readers_card [of s] by (simp add: unat_eq_zero [symmetric] del: unat_eq_zero)

lemma readers_one: "rw_inv s \<Longrightarrow> readers s = 1 \<longleftrightarrow> (\<exists>t. counted s = {t})"
  using readers_card [of s] by (metis One_nat_def card_1_singleton_iff unat_1 word_unat_eq_iff)

text \<open>While a thread is inside the section of the read mutex, every other thread is outside, reading or writing.\<close>

lemma others_away:
  assumes "rw_inv s" "in_section (pc s t)" "u \<noteq> t"
  shows "pc s u \<noteq> Counting" "pc s u \<noteq> First" "pc s u \<noteq> Counted" "pc s u \<noteq> Failed"
    "pc s u \<noteq> Uncounting" "pc s u \<noteq> Last" "pc s u \<noteq> Leaving"
proof -
  have "\<not> in_section (pc s u)" using assms by (auto simp: rw_inv_def)
  then show "pc s u \<noteq> Counting" "pc s u \<noteq> First" "pc s u \<noteq> Counted" "pc s u \<noteq> Failed"
    "pc s u \<noteq> Uncounting" "pc s u \<noteq> Last" "pc s u \<noteq> Leaving" by (auto simp: in_section_def)
qed

lemma counted_others:
  assumes "rw_inv s" "in_section (pc s t)" "u \<in> counted s" "u \<noteq> t"
  shows "pc s u = Reading" "u \<in> sharing s" "writers s = {}" "write_held s"
proof -
  show r: "pc s u = Reading" using assms others_away [OF assms(1,2,4)] by (auto simp: counted_def)
  then show "u \<in> sharing s" by (simp add: sharing_def)
  then show "writers s = {}" "write_held s" using assms(1) by (auto simp: rw_inv_def)
qed

lemma sharing_others:
  assumes "rw_inv s" "in_section (pc s t)" "u \<in> sharing s" "u \<noteq> t"
  shows "u \<in> counted s"
  using assms(3) others_away [OF assms(1,2,4)] by (auto simp: sharing_def counted_def)

lemma step_count:
  assumes "rw_inv s" "pc s t = Counting"
  shows "rw_inv (goto t (if readers s = 0 then First else Counted) (s\<lparr>readers := readers s + 1\<rparr>))"
proof -
  have sec: "in_section (pc s t)" using assms(2) by (simp add: in_section_def)
  note away = others_away [OF assms(1) sec]
  have t: "t \<notin> counted s" "t \<notin> sharing s" "t \<notin> writers s" using assms(2) by (auto simp: counted_def sharing_def writers_def)
  show ?thesis
  proof (cases "readers s = 0")
    case True
    with readers_none assms have "counted s = {}" by blast
    with assms True t away show ?thesis
      unfolding rw_inv_def counted_goto sharing_goto writers_goto
      by (auto simp: in_section_def split: if_splits)
  next
    case False
    with readers_none assms obtain r where "r \<in> counted s" by blast
    with counted_others [OF assms(1) sec] t have "write_held s" "writers s = {}" by blast+
    with assms False t away show ?thesis
      unfolding rw_inv_def counted_goto sharing_goto writers_goto
      by (auto simp: in_section_def split: if_splits)
  qed
qed

lemma step_uncount:
  assumes "rw_inv s" "pc s t = Uncounting"
  shows "rw_inv (goto t (if readers s = 1 then Last else Leaving) (s\<lparr>readers := readers s - 1\<rparr>))"
proof -
  have sec: "in_section (pc s t)" using assms(2) by (simp add: in_section_def)
  note away = others_away [OF assms(1) sec]
  have t: "t \<in> counted s" "t \<in> sharing s" using assms(2) by (auto simp: counted_def sharing_def)
  have w: "write_held s" "writers s = {}" using assms(1) t by (auto simp: rw_inv_def)
  have less: "readers s - 1 = of_nat (card (counted s - {t}))"
    using assms(1) t by (simp add: rw_inv_def card_Suc_Diff1 [symmetric, of _ t] del: card_Diff_insert)
  show ?thesis
  proof (cases "readers s = 1")
    case True
    then have "counted s = {t}" using readers_one [OF assms(1)] t(1) by auto
    with assms True t away w show ?thesis
      unfolding rw_inv_def counted_goto sharing_goto writers_goto
      by (auto simp: in_section_def split: if_splits)
  next
    case False
    then obtain r where r: "r \<in> counted s" "r \<noteq> t" using readers_one [OF assms(1)] t(1) by blast
    with counted_others [OF assms(1) sec] have "r \<in> sharing s" by blast
    with r assms False t away w less show ?thesis
      unfolding rw_inv_def counted_goto sharing_goto writers_goto
      by (auto simp: in_section_def split: if_splits)
  qed
qed

lemma in_section_simps [simp]:
  "in_section Counting" "in_section First" "in_section Counted" "in_section Failed" "in_section Uncounting"
  "in_section Last" "in_section Leaving" "\<not> in_section Outside" "\<not> in_section Reading" "\<not> in_section Writing"
  by (simp_all add: in_section_def)

lemma others_not_in_section: "rw_inv s \<Longrightarrow> in_section (pc s t) \<Longrightarrow> u \<noteq> t \<Longrightarrow> \<not> in_section (pc s u)"
  by (auto simp: rw_inv_def)

lemmas rw_goto = rw_inv_def counted_goto sharing_goto writers_goto

lemma rw_sets:
  "t \<in> counted s \<longleftrightarrow> pc s t \<in> {First, Counted, Reading, Uncounting}"
  "t \<in> sharing s \<longleftrightarrow> pc s t \<in> {Counted, Reading, Uncounting, Last}"
  "t \<in> writers s \<longleftrightarrow> pc s t = Writing"
  by (simp_all add: counted_def sharing_def writers_def)

lemma step_read_enter:
  assumes "rw_inv s" "t \<noteq> UACPI_THREAD_ID_NONE" "pc s t = Outside" "read_held s = None"
  shows "rw_inv (goto t Counting (s\<lparr>read_held := Some t\<rparr>))"
proof -
  have t: "t \<notin> counted s" "t \<notin> sharing s" "t \<notin> writers s" using assms by (simp_all add: rw_sets)
  have "\<not> in_section (pc s u)" for u using assms by (auto simp: rw_inv_def)
  with assms t show ?thesis unfolding rw_goto by (auto simp: in_section_def)
qed

lemma step_unread_enter:
  assumes "rw_inv s" "pc s t = Reading" "read_held s = None"
  shows "rw_inv (goto t Uncounting (s\<lparr>read_held := Some t\<rparr>))"
proof -
  have t: "t \<in> counted s" "t \<in> sharing s" "t \<notin> writers s" using assms by (simp_all add: rw_sets)
  have "\<not> in_section (pc s u)" for u using assms by (auto simp: rw_inv_def)
  with assms t show ?thesis unfolding rw_goto by (auto simp: in_section_def insert_absorb)
qed

lemma step_write:
  assumes "rw_inv s"
  shows "t \<noteq> UACPI_THREAD_ID_NONE \<Longrightarrow> pc s t = Outside \<Longrightarrow> \<not> write_held s \<Longrightarrow>
      rw_inv (goto t Writing (s\<lparr>write_held := True\<rparr>))"
    and "pc s t = Writing \<Longrightarrow> rw_inv (goto t Outside (s\<lparr>write_held := False\<rparr>))"
proof -
  assume t: "t \<noteq> UACPI_THREAD_ID_NONE" "pc s t = Outside" "\<not> write_held s"
  then have "t \<notin> counted s" "t \<notin> sharing s" "writers s = {}" "sharing s = {}"
    using assms by (auto simp: rw_sets(1,2) rw_inv_def)
  with assms t show "rw_inv (goto t Writing (s\<lparr>write_held := True\<rparr>))"
    unfolding rw_goto by (auto simp: in_section_def)
next
  assume t: "pc s t = Writing"
  then have "t \<in> writers s" by (simp add: rw_sets)
  then have "writers s = {t}" "sharing s = {}" "t \<notin> counted s"
    using assms t by (auto simp: rw_inv_def rw_sets(1))
  with assms t show "rw_inv (goto t Outside (s\<lparr>write_held := False\<rparr>))"
    unfolding rw_goto by (auto simp: in_section_def)
qed

lemma rw_invI:
  assumes "pc s UACPI_THREAD_ID_NONE = Outside"
    and "\<And>t. in_section (pc s t) \<longleftrightarrow> read_held s = Some t"
    and "readers s = of_nat (card (counted s))"
    and "\<And>t. pc s t = First \<Longrightarrow> counted s = {t}"
    and "\<And>t. pc s t = Last \<or> pc s t = Failed \<Longrightarrow> counted s = {}"
    and "write_held s \<longleftrightarrow> writers s \<noteq> {} \<or> sharing s \<noteq> {}"
    and "\<And>t. t \<in> writers s \<Longrightarrow> writers s = {t} \<and> sharing s = {}"
  shows "rw_inv s"
  using assms by (simp add: rw_inv_def)

lemma rw_invD:
  assumes "rw_inv s"
  shows "pc s UACPI_THREAD_ID_NONE = Outside"
    and "in_section (pc s t) \<longleftrightarrow> read_held s = Some t"
    and "pc s t = First \<Longrightarrow> counted s = {t}"
    and "pc s t = Last \<or> pc s t = Failed \<Longrightarrow> counted s = {}"
    and "write_held s \<longleftrightarrow> writers s \<noteq> {} \<or> sharing s \<noteq> {}"
    and "t \<in> writers s \<Longrightarrow> writers s = {t} \<and> sharing s = {}"
  using assms by (auto simp: rw_inv_def)

lemma step_first:
  assumes "rw_inv s" "pc s t = First"
  shows "\<not> write_held s \<Longrightarrow> rw_inv (goto t Counted (s\<lparr>write_held := True\<rparr>))"
    and "rw_inv (goto t Failed (s\<lparr>readers := 0\<rparr>))"
proof -
  have sec: "in_section (pc s t)" using assms(2) by simp
  note away = others_away [OF assms(1) sec] others_not_in_section [OF assms(1) sec]
  have held: "read_held s = Some t" using rw_invD(2) [OF assms(1), of t] sec by simp
  have t: "t \<noteq> UACPI_THREAD_ID_NONE" using rw_invD(1) [OF assms(1)] assms(2) by auto
  have c: "counted s = {t}" using rw_invD(3) [OF assms] .
  have out: "t \<notin> sharing s" "t \<notin> writers s" using assms by (auto simp: rw_sets)
  have "u \<notin> sharing s" for u
    using sharing_others [OF assms(1) sec, of u] c out(1) by (cases "u = t") auto
  then have sh: "sharing s = {}" by blast
  show "rw_inv (goto t Failed (s\<lparr>readers := 0\<rparr>))"
    by (rule rw_invI)
      (use rw_invD(1,2,5,6) [OF assms(1)] held t c out away in
        \<open>auto simp: counted_goto sharing_goto writers_goto split: if_splits\<close>)
  assume "\<not> write_held s"
  then have w: "writers s = {}" "sharing s = {}" using rw_invD(5) [OF assms(1)] by auto
  show "rw_inv (goto t Counted (s\<lparr>write_held := True\<rparr>))"
    by (rule rw_invI)
      (use rw_invD(1,2) [OF assms(1)] assms(1) held t c out away w in
        \<open>auto simp: rw_inv_def counted_goto sharing_goto writers_goto split: if_splits\<close>)
qed

lemma step_last:
  assumes "rw_inv s" "pc s t = Last"
  shows "rw_inv (goto t Leaving (s\<lparr>write_held := False\<rparr>))"
proof -
  have sec: "in_section (pc s t)" using assms(2) by simp
  note away = others_away [OF assms(1) sec] others_not_in_section [OF assms(1) sec]
  have held: "read_held s = Some t" using rw_invD(2) [OF assms(1), of t] sec by simp
  have t: "t \<noteq> UACPI_THREAD_ID_NONE" using rw_invD(1) [OF assms(1)] assms(2) by auto
  have c: "counted s = {}" using rw_invD(4) [OF assms(1), of t] assms(2) by simp
  have out: "t \<in> sharing s" "t \<notin> writers s" using assms by (auto simp: rw_sets)
  have w: "writers s = {}" using rw_invD(6) [OF assms(1)] out(1) by blast
  have "u = t" if "u \<in> sharing s" for u
    using sharing_others [OF assms(1) sec that] c by blast
  then have "sharing s - {t} = {}" by blast
  then show ?thesis
    by (intro rw_invI)
      (use rw_invD(1,2) [OF assms(1)] assms(1) held t c w away in
        \<open>auto simp: rw_inv_def counted_goto sharing_goto writers_goto split: if_splits\<close>)
qed

lemma step_leave:
  assumes "rw_inv s"
  shows "pc s t = Counted \<Longrightarrow> rw_inv (goto t Reading (s\<lparr>read_held := None\<rparr>))"
    and "pc s t \<in> {Failed, Leaving} \<Longrightarrow> rw_inv (goto t Outside (s\<lparr>read_held := None\<rparr>))"
proof -
  assume t: "pc s t = Counted"
  then have sec: "in_section (pc s t)" by simp
  have "t \<in> counted s" "t \<in> sharing s" "t \<notin> writers s" using t by (simp_all add: rw_sets)
  then show "rw_inv (goto t Reading (s\<lparr>read_held := None\<rparr>))"
    using assms t others_away [OF assms sec] others_not_in_section [OF assms sec] unfolding rw_goto by (auto simp: insert_absorb)
next
  assume t: "pc s t \<in> {Failed, Leaving}"
  then have sec: "in_section (pc s t)" by auto
  have "t \<notin> counted s" "t \<notin> sharing s" "t \<notin> writers s" using t by (auto simp: rw_sets)
  then show "rw_inv (goto t Outside (s\<lparr>read_held := None\<rparr>))"
    using assms t others_away [OF assms sec] others_not_in_section [OF assms sec] unfolding rw_goto by auto
qed

lemma rw_step_inv: "rw_step True s s' \<Longrightarrow> rw_inv s \<Longrightarrow> rw_inv s'"
  by (induction rule: rw_step.induct)
    (simp_all add: step_read_enter step_count step_first step_leave step_unread_enter step_uncount step_last
      step_write del: fun_upd_apply goto_fields)

lemma rw_start_inv: "rw_inv rw_start"
  by (simp add: rw_inv_def rw_start_def in_section_def counted_def sharing_def writers_def)

lemma rw_reachable_inv: "(rw_step True)\<^sup>*\<^sup>* rw_start s \<Longrightarrow> rw_inv s"
  by (induction rule: rtranclp_induct) (auto intro: rw_start_inv rw_step_inv)

section \<open>Runs of one thread\<close>

text \<open>The state of the program for a lock, the holder \<open>fst w\<close> of its read mutex and whether its write mutex is held.\<close>

definition rw_of :: "uacpi_rw_lock \<Rightarrow> u64 option \<times> bool \<Rightarrow> (u64 \<Rightarrow> rw_pc) \<Rightarrow> rw_state" where
  "rw_of lock w p = \<lparr>readers = num_readers lock, read_held = fst w, write_held = snd w, pc = p\<rparr>"

lemma rw_of_goto: "goto t q (rw_of lock w p) = rw_of lock w (p(t := q))"
  by (simp add: goto_def rw_of_def)

lemma rw_of_update:
  "(rw_of lock w p)\<lparr>readers := n\<rparr> = rw_of (lock\<lparr>num_readers := n\<rparr>) w p"
  "(rw_of lock w p)\<lparr>read_held := h\<rparr> = rw_of lock (h, snd w) p"
  "(rw_of lock w p)\<lparr>write_held := b\<rparr> = rw_of lock (fst w, b) p"
  "readers (rw_of lock w p) = num_readers lock" "read_held (rw_of lock w p) = fst w"
  "write_held (rw_of lock w p) = snd w" "pc (rw_of lock w p) = p"
  by (simp_all add: rw_of_def)

lemmas rw_run = rw_step.intros [where s = "rw_of lock w p" for lock w p, unfolded rw_of_update rw_of_goto]

lemmas rw_then = converse_rtranclp_into_rtranclp [of "rw_step excl" for excl]
lemmas rw_one = r_into_rtranclp [of "rw_step excl" for excl]

lemma run_read:
  assumes t: "t \<noteq> UACPI_THREAD_ID_NONE" "p t = Outside" and free: "excl \<longrightarrow> h = None \<and> (num_readers lock = 0 \<longrightarrow> \<not> b)"
  shows "(rw_step excl)\<^sup>*\<^sup>* (rw_of lock (h, b) p)
    (rw_of (lock\<lparr>num_readers := num_readers lock + 1\<rparr>) (None, num_readers lock = 0 \<or> b) (p(t := Reading)))"
proof -
  let ?n = "num_readers lock + 1"
  have s1: "rw_step excl (rw_of lock (h, b) p) (rw_of lock (Some t, b) (p(t := Counting)))"
    using rw_run(1) [of t p excl "(h, b)" lock] t free by simp
  note s2 = rw_run(2) [of "p(t := Counting)" t excl lock "(Some t, b)", simplified]
  note s3 = rw_run(3) [of "p(t := First)" t excl "(Some t, b)" "lock\<lparr>num_readers := ?n\<rparr>", simplified]
  note s5 = rw_run(5) [of "p(t := Counted)" t excl "lock\<lparr>num_readers := ?n\<rparr>" "(Some t, c)" for c, simplified]
  show ?thesis
  proof (cases "num_readers lock = 0")
    case False
    then have "rw_step excl (rw_of lock (Some t, b) (p(t := Counting)))
        (rw_of (lock\<lparr>num_readers := ?n\<rparr>) (Some t, b) (p(t := Counted)))"
      using s2 by simp
    from rw_then [OF s1 rw_then [OF this rw_one [OF s5]]] show ?thesis using False by simp
  next
    case True
    then have s2: "rw_step excl (rw_of lock (Some t, b) (p(t := Counting)))
        (rw_of (lock\<lparr>num_readers := ?n\<rparr>) (Some t, b) (p(t := First)))"
      using s2 by simp
    have s3: "rw_step excl (rw_of (lock\<lparr>num_readers := ?n\<rparr>) (Some t, b) (p(t := First)))
        (rw_of (lock\<lparr>num_readers := ?n\<rparr>) (Some t, True) (p(t := Counted)))"
      using s3 free True by simp
    from rw_then [OF s1 rw_then [OF s2 rw_then [OF s3 rw_one [OF s5]]]] show ?thesis using True by simp
  qed
qed

lemma run_unread:
  assumes t: "p t = Reading" and free: "excl \<longrightarrow> h = None"
  shows "(rw_step excl)\<^sup>*\<^sup>* (rw_of lock (h, b) p)
    (rw_of (lock\<lparr>num_readers := num_readers lock - 1\<rparr>) (None, num_readers lock \<noteq> 1 \<and> b) (p(t := Outside)))"
proof -
  let ?n = "num_readers lock - 1"
  have s1: "rw_step excl (rw_of lock (h, b) p) (rw_of lock (Some t, b) (p(t := Uncounting)))"
    using rw_run(7) [of p t excl "(h, b)" lock] t free by simp
  note s2 = rw_run(8) [of "p(t := Uncounting)" t excl lock "(Some t, b)", simplified]
  note s3 = rw_run(9) [of "p(t := Last)" t excl "lock\<lparr>num_readers := ?n\<rparr>" "(Some t, b)", simplified]
  note s5 = rw_run(10) [of "p(t := Leaving)" t excl "lock\<lparr>num_readers := ?n\<rparr>" "(Some t, c)" for c, simplified]
  show ?thesis
  proof (cases "num_readers lock = 1")
    case False
    then have "rw_step excl (rw_of lock (Some t, b) (p(t := Uncounting)))
        (rw_of (lock\<lparr>num_readers := ?n\<rparr>) (Some t, b) (p(t := Leaving)))"
      using s2 by simp
    from rw_then [OF s1 rw_then [OF this rw_one [OF s5]]] show ?thesis using False by simp
  next
    case True
    then have s2: "rw_step excl (rw_of lock (Some t, b) (p(t := Uncounting)))
        (rw_of (lock\<lparr>num_readers := ?n\<rparr>) (Some t, b) (p(t := Last)))"
      using s2 by simp
    from rw_then [OF s1 rw_then [OF s2 rw_then [OF s3 rw_one [OF s5]]]] show ?thesis using True by simp
  qed
qed

lemma run_write:
  assumes "t \<noteq> UACPI_THREAD_ID_NONE" "p t = Outside" "excl \<longrightarrow> \<not> b"
  shows "(rw_step excl)\<^sup>*\<^sup>* (rw_of lock (h, b) p) (rw_of lock (h, True) (p(t := Writing)))"
  using rw_one [OF rw_run(11) [of t p excl "(h, b)" lock]] assms by simp

lemma run_unwrite:
  assumes "p t = Writing"
  shows "(rw_step excl)\<^sup>*\<^sup>* (rw_of lock (h, b) p) (rw_of lock (h, False) (p(t := Outside)))"
  using rw_one [OF rw_run(12) [of p t excl lock "(h, b)"]] assms by simp

text \<open>With mutexes that do not exclude, thread 2 reads while thread 1 writes.\<close>

definition empty_lock :: uacpi_rw_lock where
  "empty_lock = \<lparr>read_mutex = 1, write_mutex = 2, num_readers = 0\<rparr>"

lemma rw_start_of: "rw_start = rw_of empty_lock (None, False) (\<lambda>t. Outside)"
  by (simp add: rw_start_def rw_of_def empty_lock_def)

lemma writer_and_reader:
  "\<exists>s. (rw_step False)\<^sup>*\<^sup>* rw_start s \<and> pc s 1 = Writing \<and> pc s 2 = Reading"
proof -
  let ?p = "(\<lambda>t. Outside)((1 :: u64) := Writing)"
  have "(rw_step False)\<^sup>*\<^sup>* rw_start (rw_of empty_lock (None, True) ?p)"
    unfolding rw_start_of by (rule run_write) (simp_all add: UACPI_THREAD_ID_NONE_def)
  also have "(rw_step False)\<^sup>*\<^sup>* (rw_of empty_lock (None, True) ?p)
      (rw_of (empty_lock\<lparr>num_readers := num_readers empty_lock + 1\<rparr>) (None, num_readers empty_lock = 0 \<or> True) (?p(2 := Reading)))"
    by (rule run_read) (simp_all add: UACPI_THREAD_ID_NONE_def)
  finally show ?thesis by - (intro exI conjI, assumption, simp_all add: rw_of_update)
qed

section \<open>Properties\<close>

text \<open>
  C27. When the native mutexes exclude, as \<open>kernel_api.h\<close> requires: whatever the threads do and in whichever order,
  and even when acquiring a native mutex fails, a thread that writes is alone, no other thread writes or reads; the count
  of readers is the number of threads that are counted and not above the number of threads; and when every thread is
  outside, both mutexes are free and the count is 0, so nothing stays locked.  With the mutexes of this kernel,
  whose acquire succeeds whether the mutex is held or not, a thread can write while another one reads.
\<close>
theorem rw_lock_exclusion:
  assumes "(rw_step True)\<^sup>*\<^sup>* rw_start s"
  shows "(pc s t = Writing \<and> pc s u \<in> {Reading, Writing} \<longrightarrow> u = t) \<and>
    unat (readers s) = card {v. pc s v \<in> {First, Counted, Reading, Uncounting}} \<and>
    ((\<forall>v. pc s v = Outside) \<longrightarrow> \<not> write_held s \<and> read_held s = None \<and> readers s = 0) \<and>
    (\<exists>s'. (rw_step False)\<^sup>*\<^sup>* rw_start s' \<and> pc s' 1 = Writing \<and> pc s' 2 = Reading)"
proof -
  have inv: "rw_inv s" using rw_reachable_inv [OF assms] .
  have "u = t" if "pc s t = Writing" "pc s u \<in> {Reading, Writing}"
  proof -
    have "t \<in> writers s" using that by (simp add: rw_sets)
    then have "writers s = {t}" "sharing s = {}" using inv by (auto simp: rw_inv_def)
    then show ?thesis using that(2) rw_sets(2,3) [of u s] by auto
  qed
  moreover have "\<not> write_held s \<and> read_held s = None \<and> readers s = 0" if out: "\<forall>v. pc s v = Outside"
  proof -
    have "counted s = {}" "sharing s = {}" "writers s = {}" using out by (simp_all add: counted_def sharing_def writers_def)
    moreover have "read_held s \<noteq> Some v" for v using inv out by (auto simp: rw_inv_def in_section_def)
    ultimately show ?thesis using inv by (auto simp: rw_inv_def)
  qed
  ultimately show ?thesis using readers_card [OF inv] writer_and_reader by (auto simp: counted_def)
qed

text \<open>Thread 1 reads.\<close>

definition one_reader :: rw_state where
  "one_reader = rw_of (empty_lock\<lparr>num_readers := 1\<rparr>) (None, True) ((\<lambda>t. Outside)(1 := Reading))"

lemma one_reader_reachable: "(rw_step True)\<^sup>*\<^sup>* rw_start one_reader"
  using run_read [of 1 "\<lambda>t. Outside" True None empty_lock False]
  by (simp add: one_reader_def rw_start_of UACPI_THREAD_ID_NONE_def) (simp add: empty_lock_def)

theorem rw_lock_exclusion_witness:
  "pc one_reader 1 = Reading \<and> pc one_reader 2 \<noteq> Writing \<and>
   unat (readers one_reader) = card {v. pc one_reader v \<in> {First, Counted, Reading, Uncounting}}"
  using rw_lock_exclusion [OF one_reader_reachable, of 2 1]
  by (simp add: one_reader_def rw_of_def)

end
