(* ===== verification/AcpiMutexProps.thy ===== *)
theory AcpiMutexProps
  imports AcpiGlobalLock AcpiRwLock AcpiProps AcpiOs
begin

text \<open>
  The sequential behaviour of the locks: an interface \<open>mutex_services\<close> with what the locks ask of the kernel, the
  nesting of the recursive lock and of the AML mutexes under it, and its interpretation on the services of
  \<open>kernel_apis.c\<close>.
\<close>

section \<open>The interface\<close>

text \<open>
  What \<open>kernel_api.h\<close> promises and the nesting needs: an acquire with infinite wait succeeds, the identifier of the
  running thread is a real one and does not change while it runs.
\<close>

locale mutex_services =
  fixes os :: "'w os"
  assumes acquire_waits: "h \<noteq> 0 \<Longrightarrow> fst (os_acquire_mutex os h 0xFFFF w) = UACPI_STATUS_OK"
    and thread_real: "os_thread_id os w \<noteq> UACPI_THREAD_ID_NONE"
    and thread_acquire: "os_thread_id os (snd (os_acquire_mutex os h timeout w)) = os_thread_id os w"
    and thread_release: "os_thread_id os (os_release_mutex os h w) = os_thread_id os w"

definition rl_acquires :: "'w os \<Rightarrow> nat \<Rightarrow> uacpi_recursive_lock \<times> 'w \<Rightarrow> uacpi_recursive_lock \<times> 'w" where
  "rl_acquires os n = (\<lambda>(lock, w). snd (uacpi_recursive_lock_acquire os lock w)) ^^ n"

definition rl_releases :: "'w os \<Rightarrow> nat \<Rightarrow> uacpi_recursive_lock \<times> 'w \<Rightarrow> uacpi_recursive_lock \<times> 'w" where
  "rl_releases os n = (\<lambda>(lock, w). snd (uacpi_recursive_lock_release os lock w)) ^^ n"

context mutex_services
begin

lemma acquire_wait_result: "h \<noteq> 0 \<Longrightarrow> os_acquire_mutex os h 0xFFFF w = (UACPI_STATUS_OK, snd (os_acquire_mutex os h 0xFFFF w))"
  using acquire_waits [of h w] by (metis prod.collapse)

lemma rl_acquire_free:
  assumes "rl_mutex lock \<noteq> 0" "rl_owner lock = UACPI_THREAD_ID_NONE"
  shows "uacpi_recursive_lock_acquire os lock w =
    (UACPI_STATUS_OK, lock\<lparr>rl_owner := os_thread_id os w, rl_depth := 1\<rparr>,
     snd (os_acquire_mutex os (rl_mutex lock) 0xFFFF w))"
  using assms thread_real [of w] acquire_wait_result [of "rl_mutex lock" w]
  by (auto simp: uacpi_recursive_lock_acquire_def uacpi_acquire_native_mutex_def Let_def split: prod.splits)

lemma rl_acquires_owner:
  assumes "rl_owner lock = os_thread_id os w"
  shows "rl_acquires os n (lock, w) = (lock\<lparr>rl_depth := rl_depth lock + of_nat n\<rparr>, w)"
proof (induction n)
  case (Suc n)
  then show ?case using assms
    by (simp add: rl_acquires_def uacpi_recursive_lock_acquire_def add.commute add.left_commute)
qed (simp add: rl_acquires_def)

lemma rl_releases_inner:
  assumes "n < unat (rl_depth lock)"
  shows "rl_releases os n (lock, w) = (lock\<lparr>rl_depth := rl_depth lock - of_nat n\<rparr>, w)"
  using assms
proof (induction n)
  case (Suc n)
  then have "n < 2 ^ 64" using unsigned_less [of "rl_depth lock", where ?'a = nat] by simp
  then have "unat (rl_depth lock - of_nat n) = unat (rl_depth lock) - n"
    using Suc.prems by (simp add: unat_sub word_le_nat_alt unat_of_nat)
  then have "1 < rl_depth lock - of_nat n" using Suc.prems by (simp add: word_less_nat_alt)
  with Suc show ?case
    by (simp add: rl_releases_def uacpi_recursive_lock_release_def Let_def diff_diff_eq add.commute)
qed (simp add: rl_releases_def)

lemma recursive_lock_nests:
  assumes "rl_mutex lock \<noteq> 0" "rl_owner lock = UACPI_THREAD_ID_NONE" "0 < n" "n < 2 ^ 64"
  shows "rl_releases os n (rl_acquires os n (lock, w)) =
    (lock\<lparr>rl_depth := 0, rl_owner := UACPI_THREAD_ID_NONE\<rparr>,
     os_release_mutex os (rl_mutex lock) (snd (os_acquire_mutex os (rl_mutex lock) 0xFFFF w)))"
proof -
  obtain m where n: "n = Suc m" using assms(3) by (cases n) auto
  define w1 where "w1 = snd (os_acquire_mutex os (rl_mutex lock) 0xFFFF w)"
  have "rl_acquires os n (lock, w) = rl_acquires os m (lock\<lparr>rl_owner := os_thread_id os w, rl_depth := 1\<rparr>, w1)"
    by (simp add: n rl_acquires_def funpow_Suc_right rl_acquire_free assms w1_def del: funpow.simps)
  also have "\<dots> = (lock\<lparr>rl_owner := os_thread_id os w, rl_depth := of_nat n\<rparr>, w1)"
    by (subst rl_acquires_owner) (simp_all add: w1_def thread_acquire n)
  finally have a: "rl_acquires os n (lock, w) = (lock\<lparr>rl_owner := os_thread_id os w, rl_depth := of_nat n\<rparr>, w1)" .
  have "unat (of_nat n :: u64) = n" using assms(4) by (simp add: unat_of_nat)
  then have "rl_releases os m (lock\<lparr>rl_owner := os_thread_id os w, rl_depth := of_nat n\<rparr>, w1) =
      (lock\<lparr>rl_owner := os_thread_id os w, rl_depth := 1\<rparr>, w1)"
    by (subst rl_releases_inner) (simp_all add: n)
  then have "rl_releases os n (lock\<lparr>rl_owner := os_thread_id os w, rl_depth := of_nat n\<rparr>, w1) =
      snd (uacpi_recursive_lock_release os (lock\<lparr>rl_owner := os_thread_id os w, rl_depth := 1\<rparr>) w1)"
    by (simp add: n rl_releases_def)
  then show ?thesis
    using assms(1) unfolding a
    by (simp add: uacpi_recursive_lock_release_def uacpi_release_native_mutex_def Let_def w1_def)
qed

end

section \<open>The services of the kernel\<close>

text \<open>
  \<open>kernel_apis.c\<close> as the record of services: \<open>facs\<close> is the address of the shared word, which nobody else changes
  here, and \<open>rls\<close> stands for the write of the register field that tells the firmware of a release.
\<close>

definition kernel_os :: "u64 \<Rightarrow> ('a acpi_scheme \<Rightarrow> 'a acpi_scheme) \<Rightarrow> 'a acpi_scheme os" where
  "kernel_os facs rls =
     \<lparr>os_create_mutex = uacpi_kernel_create_mutex, os_free_mutex = uacpi_kernel_free_mutex,
      os_acquire_mutex = uacpi_kernel_acquire_mutex, os_release_mutex = uacpi_kernel_release_mutex,
      os_thread_id = (\<lambda>w. uacpi_kernel_get_thread_id),
      os_lock_spinlock = uacpi_kernel_lock_spinlock, os_unlock_spinlock = uacpi_kernel_unlock_spinlock,
      os_wait_for_event = uacpi_kernel_wait_for_event, os_signal_event = uacpi_kernel_signal_event,
      os_mmio_read32 = (\<lambda>w. (ucast (load 4 facs (bytes w)), w)),
      os_cmpxchg32 = (\<lambda>expected desired w.
        let value = ucast (load 4 facs (bytes w)) in
        if value = expected then ((True, expected), poke 4 facs (ucast desired) w) else ((False, value), w)),
      os_write_gbl_rls = rls\<rparr>"

lemma kernel_os_simps [simp]:
  "os_acquire_mutex (kernel_os facs rls) h timeout w = (UACPI_STATUS_OK, w)"
  "os_release_mutex (kernel_os facs rls) h w = w"
  "os_thread_id (kernel_os facs rls) w = 1"
  by (simp_all add: kernel_os_def uacpi_kernel_acquire_mutex_def uacpi_kernel_release_mutex_def
      uacpi_kernel_get_thread_id_def)

interpretation kernel_locks: mutex_services "kernel_os facs rls"
  by unfold_locales (simp_all add: UACPI_THREAD_ID_NONE_def)

section \<open>The reader-writer lock on this kernel\<close>



section \<open>Mutexes of AML\<close>

definition aml_acquires :: "'w os \<Rightarrow> u16 \<Rightarrow> nat \<Rightarrow> uacpi_mutex \<Rightarrow> 'w rt \<Rightarrow> (uacpi_status \<times> uacpi_mutex \<times> 'w rt) option" where
  "aml_acquires os timeout n m s =
     ((\<lambda>r. Option.bind r (\<lambda>(ret, m, s).
        if ret = UACPI_STATUS_OK then uacpi_acquire_aml_mutex os m timeout s else Some (ret, m, s))) ^^ n)
     (Some (UACPI_STATUS_OK, m, s))"

definition aml_releases :: "'w os \<Rightarrow> nat \<Rightarrow> uacpi_mutex \<Rightarrow> 'w rt \<Rightarrow> (uacpi_status \<times> uacpi_mutex \<times> 'w rt) option" where
  "aml_releases os n m s =
     ((\<lambda>r. Option.bind r (\<lambda>(ret, m, s).
        if ret = UACPI_STATUS_OK then uacpi_release_aml_mutex os m s else Some (ret, m, s))) ^^ n)
     (Some (UACPI_STATUS_OK, m, s))"

text \<open>What the first acquire does to the state: the namespace is unlocked around it.\<close>

definition aml_entered :: "'w os \<Rightarrow> u64 \<Rightarrow> u16 \<Rightarrow> 'w rt \<Rightarrow> 'w rt" where
  "aml_entered os h timeout s =
     uacpi_namespace_write_lock os
       ((uacpi_namespace_write_unlock os s)\<lparr>world :=
          snd (os_acquire_mutex os h timeout (world (uacpi_namespace_write_unlock os s)))\<rparr>)"

context mutex_services
begin

lemma namespace_thread:
  "os_thread_id os (world (uacpi_namespace_write_lock os s)) = os_thread_id os (world s)"
  "os_thread_id os (world (uacpi_namespace_write_unlock os s)) = os_thread_id os (world s)"
  by (simp_all add: uacpi_namespace_write_lock_def uacpi_namespace_write_unlock_def uacpi_rw_lock_write_def
      uacpi_rw_unlock_write_def uacpi_acquire_native_mutex_def uacpi_release_native_mutex_def
      thread_acquire thread_release)

lemma aml_acquire_free:
  assumes "m_handle m \<noteq> 0" "m_owner m = UACPI_THREAD_ID_NONE" "m_handle m \<noteq> global_lock_handle s"
  shows "uacpi_acquire_aml_mutex os m 0xFFFF s =
    Some (UACPI_STATUS_OK, m\<lparr>m_owner := os_thread_id os (world s), m_depth := 1\<rparr>, aml_entered os (m_handle m) 0xFFFF s)"
proof -
  obtain w where "os_acquire_mutex os (m_handle m) 0xFFFF (world (uacpi_namespace_write_unlock os s)) = (UACPI_STATUS_OK, w)"
    using acquire_wait_result [OF assms(1)] by blast
  then show ?thesis using assms thread_real [of "world s"]
    by (simp add: uacpi_acquire_aml_mutex_def uacpi_acquire_native_mutex_with_timeout_def aml_entered_def Let_def
        uacpi_namespace_write_unlock_def)
qed

lemma aml_acquire_again:
  assumes "m_owner m = os_thread_id os (world s)"
  shows "uacpi_acquire_aml_mutex os m timeout s =
    (if m_depth m = 0xFFFF then Some (UACPI_STATUS_DENIED, m, s)
     else Some (UACPI_STATUS_OK, m\<lparr>m_depth := m_depth m + 1\<rparr>, s))"
  using assms by (simp add: uacpi_acquire_aml_mutex_def)

lemma aml_acquires_owner:
  assumes "m_owner m = os_thread_id os (world s)" "n + unat (m_depth m) < 2 ^ 16"
  shows "aml_acquires os timeout n m s = Some (UACPI_STATUS_OK, m\<lparr>m_depth := m_depth m + of_nat n\<rparr>, s)"
  using assms(2)
proof (induction n)
  case (Suc n)
  have "unat (m_depth m + of_nat n) = unat (m_depth m) + n"
    using Suc.prems by (simp add: unat_word_ariths unat_of_nat)
  then have "m_depth m + of_nat n \<noteq> 0xFFFF" using Suc.prems by (auto simp: word_unat_eq_iff)
  with Suc assms(1) show ?case
    by (simp add: aml_acquires_def aml_acquire_again add.commute add.left_commute)
qed (simp add: aml_acquires_def)

lemma aml_releases_inner:
  assumes "n < unat (m_depth m)"
  shows "aml_releases os n m s = Some (UACPI_STATUS_OK, m\<lparr>m_depth := m_depth m - of_nat n\<rparr>, s)"
  using assms
proof (induction n)
  case (Suc n)
  then have "n < 2 ^ 16" using unsigned_less [of "m_depth m", where ?'a = nat] by simp
  then have "unat (m_depth m - of_nat n) = unat (m_depth m) - n"
    using Suc.prems by (simp add: unat_sub word_le_nat_alt unat_of_nat)
  then have "1 < m_depth m - of_nat n" using Suc.prems by (simp add: word_less_nat_alt)
  with Suc show ?case
    by (simp add: aml_releases_def uacpi_release_aml_mutex_def Let_def diff_diff_eq add.commute)
qed (simp add: aml_releases_def)

lemma aml_nests:
  assumes "m_handle m \<noteq> 0" "m_owner m = UACPI_THREAD_ID_NONE" "m_handle m \<noteq> global_lock_handle s"
    and "0 < n" "n < 2 ^ 16"
  defines "s1 \<equiv> aml_entered os (m_handle m) 0xFFFF s"
    and "m1 \<equiv> m\<lparr>m_owner := os_thread_id os (world s), m_depth := of_nat n\<rparr>"
  shows "aml_acquires os 0xFFFF n m s = Some (UACPI_STATUS_OK, m1, s1)"
    and "aml_releases os n m1 s1 =
      Some (UACPI_STATUS_OK, m\<lparr>m_owner := UACPI_THREAD_ID_NONE, m_depth := 0\<rparr>,
        s1\<lparr>world := os_release_mutex os (m_handle m) (world s1)\<rparr>)"
proof -
  obtain k where n: "n = Suc k" using assms(4) by (cases n) auto
  have t: "os_thread_id os (world s1) = os_thread_id os (world s)"
    by (simp add: s1_def aml_entered_def namespace_thread thread_acquire)
  have "aml_acquires os 0xFFFF n m s =
      aml_acquires os 0xFFFF k (m\<lparr>m_owner := os_thread_id os (world s), m_depth := 1\<rparr>) s1"
    by (simp add: n aml_acquires_def funpow_Suc_right aml_acquire_free [OF assms(1-3)] s1_def del: funpow.simps)
  also have "\<dots> = Some (UACPI_STATUS_OK, m1, s1)"
    using assms(5) by (subst aml_acquires_owner) (simp_all add: t n m1_def)
  finally show "aml_acquires os 0xFFFF n m s = Some (UACPI_STATUS_OK, m1, s1)" .
  have "unat (of_nat n :: u16) = n" using assms(5) by (simp add: unat_of_nat)
  then have "aml_releases os k m1 s1 = Some (UACPI_STATUS_OK, m1\<lparr>m_depth := 1\<rparr>, s1)"
    by (subst aml_releases_inner) (simp_all add: n m1_def)
  moreover have "global_lock_handle s1 = global_lock_handle s"
    by (simp add: s1_def aml_entered_def uacpi_namespace_write_lock_def uacpi_namespace_write_unlock_def)
  ultimately show "aml_releases os n m1 s1 =
      Some (UACPI_STATUS_OK, m\<lparr>m_owner := UACPI_THREAD_ID_NONE, m_depth := 0\<rparr>,
        s1\<lparr>world := os_release_mutex os (m_handle m) (world s1)\<rparr>)"
    using assms(1,3)
    by (simp add: n aml_releases_def uacpi_release_aml_mutex_def uacpi_release_native_mutex_def Let_def m1_def)
qed

end

section \<open>Properties\<close>

lemma depth_full: "n < 2 ^ 16 \<Longrightarrow> (of_nat n :: u16) = 0xFFFF \<longleftrightarrow> n = 0xFFFF"
  by (auto simp: word_unat_eq_iff unat_of_nat)

lemma kernel_entered: "aml_entered (kernel_os facs rls) h timeout s = s"
  by (simp add: aml_entered_def uacpi_namespace_write_lock_def uacpi_namespace_write_unlock_def uacpi_rw_lock_write_def
      uacpi_rw_unlock_write_def uacpi_acquire_native_mutex_def uacpi_release_native_mutex_def)

text \<open>
  C38. An AML mutex with a native mutex (its handle is not null) other than the mutex of \<open>\_GL\<close>, for which both
  functions also take the firmware's lock: on this kernel a thread can acquire it when it is free up to 65535 times:
  every acquire (with the timeout that waits for ever) returns OK, the depth counts them and the thread is the owner; one acquire more is denied and changes
  nothing; and as many releases as acquires leave the mutex free with depth 0, the rest of the state as it was.
\<close>
theorem aml_mutex_nests:
  assumes "m_handle m \<noteq> 0" "m_owner m = UACPI_THREAD_ID_NONE" "m_handle m \<noteq> global_lock_handle s"
    and "0 < n" "n < 2 ^ 16"
  shows "\<exists>m1. aml_acquires (kernel_os facs rls) 0xFFFF n m s = Some (UACPI_STATUS_OK, m1, s) \<and>
    unat (m_depth m1) = n \<and> uacpi_this_thread_owns_aml_mutex (kernel_os facs rls) m1 (world s) \<and>
    uacpi_acquire_aml_mutex (kernel_os facs rls) m1 timeout s =
      Some (if n = 0xFFFF then (UACPI_STATUS_DENIED, m1, s)
            else (UACPI_STATUS_OK, m1\<lparr>m_depth := of_nat n + 1\<rparr>, s)) \<and>
    aml_releases (kernel_os facs rls) n m1 s =
      Some (UACPI_STATUS_OK, m\<lparr>m_owner := UACPI_THREAD_ID_NONE, m_depth := 0\<rparr>, s)"
proof (intro exI conjI)
  let ?m1 = "m\<lparr>m_owner := 1, m_depth := of_nat n\<rparr>"
  note nest = kernel_locks.aml_nests [OF assms, of facs rls, unfolded kernel_entered, simplified]
  show "aml_acquires (kernel_os facs rls) 0xFFFF n m s = Some (UACPI_STATUS_OK, ?m1, s)"
    and "aml_releases (kernel_os facs rls) n ?m1 s =
      Some (UACPI_STATUS_OK, m\<lparr>m_owner := UACPI_THREAD_ID_NONE, m_depth := 0\<rparr>, s)"
    using nest by simp_all
  show u: "unat (m_depth ?m1) = n" using assms(5) by (simp add: unat_of_nat)
  show "uacpi_this_thread_owns_aml_mutex (kernel_os facs rls) ?m1 (world s)"
    by (simp add: uacpi_this_thread_owns_aml_mutex_def)
  show "uacpi_acquire_aml_mutex (kernel_os facs rls) ?m1 timeout s =
      Some (if n = 0xFFFF then (UACPI_STATUS_DENIED, ?m1, s)
            else (UACPI_STATUS_OK, ?m1\<lparr>m_depth := of_nat n + 1\<rparr>, s))"
    using depth_full [OF assms(5)] kernel_locks.aml_acquire_again [of ?m1 facs rls s timeout]
    by (cases "n = 0xFFFF") simp_all
qed

definition rt_start :: "acpi rt" where
  "rt_start = \<lparr>world = acpi_start, init_level = 1, has_global_lock = False, global_lock_pending = False,
     global_lock_acquired = False, global_lock_seq_num = 0xFFFFFFFF, global_lock_handle = 0x2000, global_lock_event = 0,
     global_lock_spinlock = 0, namespace_lock = \<lparr>read_mutex = 0x2001, write_mutex = 0x2002, num_readers = 0\<rparr>\<rparr>"

theorem aml_mutex_nests_witness:
  "\<exists>m1. aml_acquires (kernel_os 0 id) 0xFFFF 65535
      \<lparr>m_handle = 0x2003, m_owner = UACPI_THREAD_ID_NONE, m_depth = 0, m_sync_level = 0\<rparr> rt_start
        = Some (UACPI_STATUS_OK, m1, rt_start) \<and>
     uacpi_acquire_aml_mutex (kernel_os 0 id) m1 5 rt_start = Some (UACPI_STATUS_DENIED, m1, rt_start)"
proof -
  let ?m = "\<lparr>m_handle = 0x2003, m_owner = UACPI_THREAD_ID_NONE, m_depth = 0, m_sync_level = 0\<rparr>"
  have p: "m_handle ?m \<noteq> 0" "m_owner ?m = UACPI_THREAD_ID_NONE" "m_handle ?m \<noteq> global_lock_handle rt_start"
    "0 < (65535 :: nat)" "(65535 :: nat) < 2 ^ 16"
    by (simp_all add: rt_start_def)
  then show ?thesis using aml_mutex_nests [OF p, of 0 id 5] by auto
qed

lemma attempts_frame:
  "global_lock_attempts os spins flags s = Some (success, flags1, s1) \<Longrightarrow> init_level s1 = init_level s"
proof (induction os spins flags s rule: global_lock_attempts.induct)
  case (1 os spins flags s)
  obtain ok w where attempt: "try_acquire_global_lock_from_firmware os (world s) = Some (ok, w)"
    using "1.prems" by (subst (asm) global_lock_attempts.simps) (auto split: option.splits)
  show ?case
  proof (cases "ok \<or> spins + 1 = 0xFFFF")
    case True
    with "1.prems" attempt show ?thesis by (subst (asm) global_lock_attempts.simps) auto
  next
    case False
    obtain f v where l: "os_lock_spinlock os (global_lock_spinlock s)
        (snd (os_wait_for_event os (global_lock_event s) 0xFFFF
          (os_unlock_spinlock os (global_lock_spinlock s) flags w))) = (f, v)"
      by (cases "os_lock_spinlock os (global_lock_spinlock s)
        (snd (os_wait_for_event os (global_lock_event s) 0xFFFF
          (os_unlock_spinlock os (global_lock_spinlock s) flags w)))")
    have "global_lock_attempts os (spins + 1) f (s\<lparr>global_lock_pending := True, world := v\<rparr>) = Some (success, flags1, s1)"
      using "1.prems" attempt False l by (subst (asm) global_lock_attempts.simps) (simp add: Let_def)
    from "1.IH" [OF attempt refl False refl refl l [symmetric] refl this]
    show ?thesis by simp
  qed
qed

lemma from_firmware_frame:
  "uacpi_acquire_global_lock_from_firmware os s = Some (ret, s1) \<Longrightarrow> init_level s1 = init_level s"
  by (auto simp: uacpi_acquire_global_lock_from_firmware_def Let_def split: if_splits prod.splits dest: attempts_frame)

text \<open>
  C39. The number an acquire of the global lock hands out is not accepted by the release: the acquire returns the
  sequence number from before it increments it, the release compares with the incremented one. Whatever the kernel and
  the firmware do, right after a successful acquire a release with its number returns INVALID_ARGUMENT
  and the lock stays acquired, while the number plus one is accepted.
\<close>
theorem global_lock_number_refused:
  assumes "uacpi_acquire_global_lock os timeout out_seq s = Some (UACPI_STATUS_OK, Some seq, s1)"
  shows "uacpi_release_global_lock os seq s1 = Some (UACPI_STATUS_INVALID_ARGUMENT, s1) \<and> global_lock_acquired s1 \<and>
    global_lock_seq_num s1 = seq + 1 \<and>
    uacpi_release_global_lock os (seq + 1) s1 \<noteq> Some (UACPI_STATUS_INVALID_ARGUMENT, s1)"
proof -
  have s1: "init_level s1 = init_level s" "init_level s \<noteq> 0" "global_lock_acquired s1" "global_lock_seq_num s1 = seq + 1"
    using assms
    by (auto simp: uacpi_acquire_global_lock_def Let_def not_less split: if_splits prod.splits dest: from_firmware_frame)
  then show ?thesis by (auto simp: uacpi_release_global_lock_def)
qed

theorem global_lock_number_refused_witness:
  "\<exists>s1. uacpi_acquire_global_lock (kernel_os 0 id) 0xFFFF 0x3000 rt_start = Some (UACPI_STATUS_OK, Some 0, s1) \<and>
     uacpi_release_global_lock (kernel_os 0 id) 0 s1 = Some (UACPI_STATUS_INVALID_ARGUMENT, s1)"
proof -
  have "uacpi_acquire_global_lock (kernel_os 0 id) 0xFFFF 0x3000 rt_start =
      Some (UACPI_STATUS_OK, Some 0, rt_start\<lparr>global_lock_seq_num := 1, global_lock_acquired := True\<rparr>)"
    by (simp add: uacpi_acquire_global_lock_def uacpi_acquire_native_mutex_with_timeout_def
        uacpi_acquire_global_lock_from_firmware_def rt_start_def)
  with global_lock_number_refused [OF this] show ?thesis by blast
qed

end
