(* ===== verification/AcpiBits.thy ===== *)
theory AcpiBits
  imports Prelude
begin

text \<open>
  Copies between spans of bits and the buffer fields of AML (\<open>source/io.c\<close>, lines 11 to 176).  A buffer is the list
  of its bytes, a pointer into it an index; a read or write outside the list is \<open>None\<close>, so a result \<open>Some\<close> says
  that the code stayed inside its buffers.
\<close>

section \<open>Bounded arrays\<close>

definition byte_at :: "u8 list \<Rightarrow> nat \<Rightarrow> u8 option" where
  "byte_at xs i = (if i < length xs then Some (xs ! i) else None)"

definition put_byte :: "u8 list \<Rightarrow> nat \<Rightarrow> u8 \<Rightarrow> u8 list option" where
  "put_byte xs i b = (if i < length xs then Some (xs[i := b]) else None)"

text \<open>\<open>uacpi_memcpy\<close> and \<open>uacpi_memcpy_zerout\<close> from one array to another.\<close>

definition memcpy_array :: "u8 list \<Rightarrow> nat \<Rightarrow> u8 list \<Rightarrow> nat \<Rightarrow> nat \<Rightarrow> u8 list option" where
  "memcpy_array dst d src s n =
     (if d + n \<le> length dst \<and> s + n \<le> length src then Some (take d dst @ take n (drop s src) @ drop (d + n) dst) else None)"

definition memcpy_zerout_array :: "u8 list \<Rightarrow> nat \<Rightarrow> u8 list \<Rightarrow> nat \<Rightarrow> nat \<Rightarrow> u8 list option" where
  "memcpy_zerout_array dst d src dst_size src_size =
     (let bytes_to_copy = min src_size dst_size in
      Option.bind (memcpy_array dst d src 0 bytes_to_copy) (\<lambda>dst.
        memcpy_array dst (d + bytes_to_copy) (replicate (dst_size - bytes_to_copy) 0) 0 (dst_size - bytes_to_copy)))"

section \<open>Spans of bits\<close>

definition uacpi_round_up_bits_to_bytes :: "u64 \<Rightarrow> u64" where
  "uacpi_round_up_bits_to_bytes bit_length = ((bit_length + 7) AND NOT 7) div 8"

definition cut_misaligned_tail :: "u8 list \<Rightarrow> u64 \<Rightarrow> u32 \<Rightarrow> u8 list option" where
  "cut_misaligned_tail xs offset bit_length =
     (let remainder = unat (bit_length AND 7) in
      if remainder = 0 then Some xs
      else Option.bind (byte_at xs (unat offset)) (\<lambda>b. put_byte xs (unat offset) (b AND mask remainder)))"

record bit_span =
  span_data :: "u8 list"
  span_index :: u64
  span_length :: u64

definition bit_span_offset :: "bit_span \<Rightarrow> u64 \<Rightarrow> u64 \<times> bit_span" where
  "bit_span_offset span bits =
     (let delta = min (span_length span) bits
      in (delta, span\<lparr>span_index := span_index span + delta, span_length := span_length span - delta\<rparr>))"

text \<open>The body of the loop of \<open>bit_copy\<close>: the next bits of the source, and where they go.\<close>

definition next_bits :: "u8 list \<Rightarrow> nat \<Rightarrow> nat \<Rightarrow> u64 \<Rightarrow> (u8 \<times> nat \<times> u64) option" where
  "next_bits src src_ptr src_shift src_count =
     (if src_count = 0 then Some (0, src_ptr, src_count)
      else
        Option.bind (byte_at src src_ptr) (\<lambda>b.
          let bits = drop_bit src_shift b in
          Option.bind
            (if src_shift \<noteq> 0 \<and> src_count > of_nat (8 - src_shift)
             then map_option (\<lambda>c. bits OR push_bit (8 - src_shift) c) (byte_at src (src_ptr + 1))
             else Some bits)
            (\<lambda>bits.
              if src_count < 8 then Some (bits AND mask (unat src_count), src_ptr, 0)
              else Some (bits, src_ptr + 1, src_count - 8))))"

definition dst_mask :: "nat \<Rightarrow> u64 \<Rightarrow> u16" where
  "dst_mask dst_shift dst_count = push_bit dst_shift (if dst_count < 8 then mask (unat dst_count) else 0xFF)"

definition put_bits :: "u8 \<Rightarrow> u8 list \<Rightarrow> nat \<Rightarrow> nat \<Rightarrow> u64 \<Rightarrow> u8 list option" where
  "put_bits bits dst dst_ptr dst_shift dst_count =
     (let m = dst_mask dst_shift dst_count in
      Option.bind (byte_at dst dst_ptr) (\<lambda>d.
        Option.bind (put_byte dst dst_ptr (ucast ((ucast d AND NOT m) OR (push_bit dst_shift (ucast bits) AND m)))) (\<lambda>dst.
          if dst_shift \<noteq> 0 \<and> dst_count > of_nat (8 - dst_shift)
          then
            (let m = drop_bit 8 m in
             Option.bind (byte_at dst (dst_ptr + 1)) (\<lambda>e.
               put_byte dst (dst_ptr + 1)
                 (ucast ((ucast e AND NOT m) OR (drop_bit (8 - dst_shift) (ucast bits) AND m)))))
          else Some dst)))"

function bit_copy_loop :: "u8 list \<Rightarrow> nat \<Rightarrow> nat \<Rightarrow> u64 \<Rightarrow> u8 list \<Rightarrow> nat \<Rightarrow> nat \<Rightarrow> u64 \<Rightarrow> u8 list option" where
  "bit_copy_loop src src_ptr src_shift src_count dst dst_ptr dst_shift dst_count =
     (if dst_count = 0 then Some dst
      else
        (case next_bits src src_ptr src_shift src_count of
           None \<Rightarrow> None
         | Some (bits, src_ptr, src_count) \<Rightarrow>
             (case put_bits bits dst dst_ptr dst_shift dst_count of
                None \<Rightarrow> None
              | Some dst \<Rightarrow>
                  bit_copy_loop src src_ptr src_shift src_count dst (dst_ptr + 1) dst_shift
                    (if dst_count > 8 then dst_count - 8 else 0))))"
  by pat_completeness auto

termination
proof (relation "measure (\<lambda>(src, src_ptr, src_shift, src_count, dst, dst_ptr, dst_shift, dst_count). unat dst_count)", goal_cases)
  case (2 src src_ptr src_shift src_count dst dst_ptr dst_shift dst_count)
  then show ?case
    by (auto simp: unat_sub word_le_nat_alt word_less_nat_alt unat_gt_0)
qed simp

declare bit_copy_loop.simps [simp del]

definition bit_copy :: "bit_span \<Rightarrow> bit_span \<Rightarrow> u8 list option" where
  "bit_copy dst src =
     bit_copy_loop (span_data src) (unat (span_index src div 8)) (unat (span_index src AND 7)) (span_length src)
       (span_data dst) (unat (span_index dst div 8)) (unat (span_index dst AND 7)) (span_length dst)"

section \<open>Buffer fields\<close>

record uacpi_buffer_field =
  backing :: "u8 list"
  bit_index :: u64
  bit_length :: u32

definition do_misaligned_buffer_read :: "uacpi_buffer_field \<Rightarrow> u8 list \<Rightarrow> u8 list option" where
  "do_misaligned_buffer_read field dst =
     bit_copy
       \<lparr>span_data = dst, span_index = 0, span_length = uacpi_round_up_bits_to_bytes (ucast (bit_length field)) * 8\<rparr>
       \<lparr>span_data = backing field, span_index = bit_index field, span_length = ucast (bit_length field)\<rparr>"

definition uacpi_read_buffer_field :: "uacpi_buffer_field \<Rightarrow> u8 list \<Rightarrow> u8 list option" where
  "uacpi_read_buffer_field field dst =
     (if bit_index field AND 7 = 0
      then
        (let count = uacpi_round_up_bits_to_bytes (ucast (bit_length field)) in
         Option.bind (memcpy_array dst 0 (backing field) (unat (bit_index field div 8)) (unat count)) (\<lambda>dst.
           cut_misaligned_tail dst (count - 1) (bit_length field)))
      else do_misaligned_buffer_read field dst)"

definition do_write_misaligned_buffer_field :: "uacpi_buffer_field \<Rightarrow> u8 list \<Rightarrow> u64 \<Rightarrow> u8 list option" where
  "do_write_misaligned_buffer_field field src sz =
     bit_copy
       \<lparr>span_data = backing field, span_index = bit_index field, span_length = ucast (bit_length field)\<rparr>
       \<lparr>span_data = src, span_index = 0, span_length = sz * 8\<rparr>"

definition uacpi_write_buffer_field :: "uacpi_buffer_field \<Rightarrow> u8 list \<Rightarrow> u64 \<Rightarrow> u8 list option" where
  "uacpi_write_buffer_field field src sz =
     (if bit_index field AND 7 = 0
      then
        (let d = unat (bit_index field div 8);
             count = uacpi_round_up_bits_to_bytes (ucast (bit_length field));
             at = d + unat (count - 1) in
         Option.bind (byte_at (backing field) at) (\<lambda>last_byte.
           let tail_shift = unat (bit_length field AND 7) in
           Option.bind (memcpy_zerout_array (backing field) d src (unat count) (unat sz)) (\<lambda>dst.
             if tail_shift \<noteq> 0
             then
               (let last_shift = 8 - tail_shift in
                Option.bind (byte_at dst at) (\<lambda>b.
                  let b = push_bit last_shift b; b = drop_bit last_shift b;
                      b = b OR push_bit tail_shift (drop_bit tail_shift last_byte)
                  in put_byte dst at b))
             else Some dst)))
      else do_write_misaligned_buffer_field field src sz)"

section \<open>Bit by bit\<close>

definition bit_of :: "u8 list \<Rightarrow> nat \<Rightarrow> bool" where
  "bit_of xs n \<longleftrightarrow> n div 8 < length xs \<and> bit (xs ! (n div 8)) (n mod 8)"

lemma bit_of_split:
  assumes "s < 8" "k < 8"
  shows "bit_of xs (8 * p + s + k) \<longleftrightarrow>
    (if s + k < 8 then p < length xs \<and> bit (xs ! p) (s + k) else p + 1 < length xs \<and> bit (xs ! (p + 1)) (s + k - 8))"
proof (cases "s + k < 8")
  case True
  then have "(8 * p + (s + k)) div 8 = p" "(8 * p + (s + k)) mod 8 = s + k" by simp_all
  with True show ?thesis by (simp add: bit_of_def add.assoc)
next
  case False
  then obtain j where j: "s + k = 8 + j" by (metis le_Suc_ex not_less)
  with assms have "j < 8" by linarith
  then have "(8 * (p + 1) + j) div 8 = p + 1" "(8 * (p + 1) + j) mod 8 = j" by (simp_all only: div_mult_self4 mod_mult_self4) simp_all
  moreover have e: "8 * p + s + k = 8 * (p + 1) + j" using j by simp
  ultimately show ?thesis using j unfolding bit_of_def e by simp
qed

lemma bit_of_byte: "i < length xs \<Longrightarrow> k < 8 \<Longrightarrow> bit_of xs (8 * i + k) \<longleftrightarrow> bit (xs ! i) k"
  by (simp add: bit_of_def)

lemma next_bits_spec:
  assumes "s < 8" "c = 0 \<or> 8 * p + s + unat c \<le> 8 * length src"
  shows "\<exists>bits p' c'. next_bits src p s c = Some (bits, p', c') \<and>
    (\<forall>k<8. bit bits k \<longleftrightarrow> k < unat c \<and> bit_of src (8 * p + s + k)) \<and>
    (if c < 8 then c' = 0 else p' = p + 1 \<and> c' = c - 8)"
proof (cases "c = 0")
  case True
  then show ?thesis by (simp add: next_bits_def)
next
  case False
  then have c: "0 < unat c" by (simp add: unat_gt_0)
  have fits: "8 * p + s + unat c \<le> 8 * length src" using assms(2) False by blast
  with c assms(1) have p: "p < length src" by linarith
  define more where "more \<longleftrightarrow> s \<noteq> 0 \<and> c > of_nat (8 - s)"
  have m: "more \<longleftrightarrow> s \<noteq> 0 \<and> 8 - s < unat c"
    by (simp add: more_def word_less_nat_alt unat_of_nat)
  have p1: "p + 1 < length src" if "more" using that m fits assms(1) by linarith
  define bits where "bits = drop_bit s (src ! p) OR (if more then push_bit (8 - s) (src ! (p + 1)) else 0)"
  have bits: "bit bits k \<longleftrightarrow> bit_of src (8 * p + s + k)" if k: "k < 8" "k < unat c" for k
  proof (cases "s + k < 8")
    case True
    have "\<not> 8 - s \<le> k" using True by linarith
    with True k p assms(1) show ?thesis
      by (auto simp: bits_def bit_of_split bit_simps)
  next
    case False
    then have "more" using m k by auto
    moreover have "k - (8 - s) = s + k - 8" "8 - s \<le> k" using False assms(1) by linarith+
    moreover have "\<not> bit (src ! p) (s + k)" using False bit_imp_le_length [of "src ! p" "s + k"] by auto
    ultimately show ?thesis using False k p p1 assms(1)
      by (auto simp: bits_def bit_of_split bit_simps)
  qed
  have step: "next_bits src p s c = Some (if c < 8 then (bits AND mask (unat c), p, 0) else (bits, p + 1, c - 8))"
    using False p p1 by (auto simp: next_bits_def byte_at_def more_def bits_def Let_def)
  have "c < 8 \<longleftrightarrow> unat c < 8" by (simp add: word_less_nat_alt)
  then show ?thesis
    unfolding step using bits by (cases "c < 8") (auto simp: bit_simps)
qed

lemma dst_mask_bits:
  assumes "s < 8"
  shows "bit (dst_mask s c) k \<longleftrightarrow> s \<le> k \<and> k < s + min 8 (unat c)"
proof -
  have ff: "(0xFF :: u16) = mask 8" by (simp add: mask_eq_exp_minus_1)
  have "c < 8 \<longleftrightarrow> unat c < 8" by (simp add: word_less_nat_alt)
  then have "bit (dst_mask s c) k \<longleftrightarrow> k < 16 \<and> s \<le> k \<and> k - s < min 8 (unat c)"
    unfolding dst_mask_def ff by (auto simp: bit_simps)
  then show ?thesis using assms by auto
qed

lemma put_bits_spec:
  assumes s: "s < 8" and fits: "8 * p + s + unat c \<le> 8 * length dst" and c: "c \<noteq> 0"
  shows "\<exists>dst'. put_bits bits dst p s c = Some dst' \<and> length dst' = length dst \<and>
    (\<forall>n. bit_of dst' n \<longleftrightarrow>
       (if 8 * p + s \<le> n \<and> n < 8 * p + s + min 8 (unat c) then bit bits (n - (8 * p + s)) else bit_of dst n))"
proof -
  define m where "m = dst_mask s c"
  have c0: "0 < unat c" using c by (simp add: unat_gt_0)
  then have p: "p < length dst" using fits s by linarith
  define d where "d = (ucast ((ucast (dst ! p) AND NOT m) OR (push_bit s (ucast bits) AND m)) :: u8)"
  have d: "bit d k \<longleftrightarrow> (if s \<le> k \<and> k < s + min 8 (unat c) then bit bits (k - s) else bit (dst ! p) k)" if "k < 8" for k
    using that by (auto simp: d_def m_def bit_simps dst_mask_bits [OF s])
  define more where "more \<longleftrightarrow> s \<noteq> 0 \<and> 8 - s < unat c"
  have m': "s \<noteq> 0 \<and> c > of_nat (8 - s) \<longleftrightarrow> more"
    by (simp add: more_def word_less_nat_alt unat_of_nat)
  have p1: "p + 1 < length dst" if "more" using that fits s unfolding more_def by linarith
  define e where "e = (ucast ((ucast (dst ! (p + 1)) AND NOT (drop_bit 8 m)) OR (drop_bit (8 - s) (ucast bits) AND drop_bit 8 m)) :: u8)"
  have e: "bit e k \<longleftrightarrow> (if k + 8 < s + min 8 (unat c) then bit bits (k + 8 - s) else bit (dst ! (p + 1)) k)" if "k < 8" for k
    using that s by (auto simp: e_def m_def bit_simps dst_mask_bits [OF s] add.commute)
  define dst' where "dst' = (if more then dst[p := d, p + 1 := e] else dst[p := d])"
  have "put_bits bits dst p s c = Some dst'"
    using p p1 unfolding put_bits_def m' Let_def
    by (auto simp: m_def [symmetric] byte_at_def put_byte_def d_def [symmetric] dst'_def e_def)
  moreover have "bit_of dst' n \<longleftrightarrow>
       (if 8 * p + s \<le> n \<and> n < 8 * p + s + min 8 (unat c) then bit bits (n - (8 * p + s)) else bit_of dst n)" for n
  proof -
    define q k where "q = n div 8" and "k = n mod 8"
    have n: "n = 8 * q + k" and k: "k < 8" by (simp_all add: q_def k_def)
    have at: "bit_of xs n \<longleftrightarrow> q < length xs \<and> bit (xs ! q) k" for xs by (simp add: bit_of_def q_def k_def)
    consider "q = p" | "q = p + 1" "more" | "q = p + 1" "\<not> more" | "q \<noteq> p" "q \<noteq> p + 1" by blast
    then show ?thesis
    proof cases
      case 1
      with p d [OF k] show ?thesis unfolding at by (auto simp: dst'_def n)
    next
      case 2
      with p1 s e [OF k] show ?thesis unfolding at by (auto simp: dst'_def n add.commute)
    next
      case 3
      then have "s + min 8 (unat c) \<le> 8" unfolding more_def using s by linarith
      with 3 show ?thesis unfolding at by (auto simp: dst'_def n)
    next
      case 4
      then have "q < p \<or> q \<ge> p + 2" by linarith
      then have "\<not> (8 * p + s \<le> n \<and> n < 8 * p + s + min 8 (unat c))" using s k unfolding n by linarith
      with 4 show ?thesis unfolding at by (auto simp: dst'_def)
    qed
  qed
  ultimately show ?thesis by (auto simp: dst'_def)
qed

text \<open>What a copy of bits has to do, said bit by bit.\<close>

definition copied :: "u8 list \<Rightarrow> nat \<Rightarrow> nat \<Rightarrow> u8 list \<Rightarrow> nat \<Rightarrow> nat \<Rightarrow> u8 list \<Rightarrow> bool" where
  "copied src si sl dst di dl dst' \<longleftrightarrow> length dst' = length dst \<and>
     (\<forall>n. bit_of dst' n \<longleftrightarrow> (if di \<le> n \<and> n < di + dl then n - di < sl \<and> bit_of src (si + (n - di)) else bit_of dst n))"

lemma bit_copy_loop_spec:
  assumes "s < 8" "d < 8" "sc = 0 \<or> 8 * sp + s + unat sc \<le> 8 * length src"
    "dc = 0 \<or> 8 * dp + d + unat dc \<le> 8 * length dst"
  shows "\<exists>dst'. bit_copy_loop src sp s sc dst dp d dc = Some dst' \<and>
    copied src (8 * sp + s) (unat sc) dst (8 * dp + d) (unat dc) dst'"
  using assms
proof (induction src sp s sc dst dp d dc rule: bit_copy_loop.induct)
  case (1 src sp s sc dst dp d dc)
  show ?case
  proof (cases "dc = 0")
    case True
    then show ?thesis by (subst bit_copy_loop.simps) (auto simp: copied_def)
  next
    case False
    obtain bits sp' sc' where nb: "next_bits src sp s sc = Some (bits, sp', sc')"
      and bits: "\<And>k. k < 8 \<Longrightarrow> bit bits k \<longleftrightarrow> k < unat sc \<and> bit_of src (8 * sp + s + k)"
      and rest: "if sc < 8 then sc' = 0 else sp' = sp + 1 \<and> sc' = sc - 8"
      using next_bits_spec [OF "1.prems"(1,3)] by blast
    obtain dst1 where pb: "put_bits bits dst dp d dc = Some dst1" and len: "length dst1 = length dst"
      and dst1: "\<And>n. bit_of dst1 n \<longleftrightarrow>
        (if 8 * dp + d \<le> n \<and> n < 8 * dp + d + min 8 (unat dc) then bit bits (n - (8 * dp + d)) else bit_of dst n)"
      using put_bits_spec [OF "1.prems"(2) _ False, of dp dst bits] "1.prems"(4) False by blast
    define dc' where "dc' = (if dc > 8 then dc - 8 else 0)"
    have dc': "unat dc' = unat dc - 8"
      by (auto simp: dc'_def unat_sub word_less_nat_alt word_le_nat_alt)
    have sc': "unat sc' = unat sc - 8" "unat sc \<ge> 8 \<Longrightarrow> sp' = sp + 1"
      using rest by (auto simp: unat_sub word_less_nat_alt word_le_nat_alt split: if_splits)
    have src': "sc' = 0 \<or> 8 * sp' + s + unat sc' \<le> 8 * length src"
      using "1.prems"(3) rest sc' by (cases "unat sc < 8") (auto simp: word_less_nat_alt split: if_splits)
    have dst': "dc' = 0 \<or> 8 * (dp + 1) + d + unat dc' \<le> 8 * length dst1"
      using "1.prems"(4) dc' len False by (cases "unat dc \<le> 8") (auto simp: unat_eq_zero)
    obtain dst2 where loop: "bit_copy_loop src sp' s sc' dst1 (dp + 1) d dc' = Some dst2"
      and all: "copied src (8 * sp' + s) (unat sc') dst1 (8 * (dp + 1) + d) (unat dc') dst2"
      using "1.IH" [OF False nb refl refl pb "1.prems"(1,2) src' dst' [unfolded dc'_def]] unfolding dc'_def by blast
    have "bit_copy_loop src sp s sc dst dp d dc = Some dst2"
      using False nb pb loop by (subst bit_copy_loop.simps) (simp add: dc'_def)
    moreover have "copied src (8 * sp + s) (unat sc) dst (8 * dp + d) (unat dc) dst2"
      unfolding copied_def
    proof (intro conjI allI)
      show "length dst2 = length dst" using all len by (simp add: copied_def)
      fix n
      define i where "i = n - (8 * dp + d)"
      consider "n < 8 * dp + d" | "n = 8 * dp + d + i" "i < 8" | j where "n = 8 * dp + d + i" "i = 8 + j"
        unfolding i_def by (metis le_Suc_ex le_add_diff_inverse not_less)
      then show "bit_of dst2 n \<longleftrightarrow> (if 8 * dp + d \<le> n \<and> n < 8 * dp + d + unat dc
          then n - (8 * dp + d) < unat sc \<and> bit_of src (8 * sp + s + (n - (8 * dp + d))) else bit_of dst n)"
      proof cases
        case 1
        then show ?thesis using all dst1 [of n] by (simp add: copied_def)
      next
        case 2
        then have "bit_of dst2 n \<longleftrightarrow> bit_of dst1 n" using all by (simp add: copied_def)
        then show ?thesis using 2 dst1 [of n] bits [of i] by auto
      next
        case 3
        then have "bit_of dst2 n \<longleftrightarrow> (if j < unat dc' then j < unat sc' \<and> bit_of src (8 * sp' + s + j) else bit_of dst1 n)"
          using all by (auto simp: copied_def)
        moreover have "bit_of dst1 n \<longleftrightarrow> bit_of dst n" using 3 dst1 [of n] by auto
        moreover have "bit_of src (8 * sp' + s + j) \<longleftrightarrow> bit_of src (8 * sp + s + i)" if "j < unat sc'"
        proof -
          have "8 * sp' + s + j = 8 * sp + s + i" using that sc' 3 by auto
          then show ?thesis by (rule arg_cong)
        qed
        moreover have "j < unat dc' \<longleftrightarrow> i < unat dc" "j < unat sc' \<longleftrightarrow> i < unat sc" using dc' sc' 3 by auto
        ultimately show ?thesis using 3 by auto
      qed
    qed
    ultimately show ?thesis by blast
  qed
qed

lemma byte_index: "8 * unat (i div 8) + unat (i AND 7) = unat (i :: u64)" "unat (i AND 7) < 8"
proof -
  have "i AND 7 = i mod 8" using take_bit_eq_mask [of 3 i] take_bit_eq_mod [of 3 i] by (simp add: mask_eq_exp_minus_1)
  then show "8 * unat (i div 8) + unat (i AND 7) = unat i" "unat (i AND 7) < 8"
    by (simp_all add: unat_div unat_mod)
qed

lemma bit_copy_spec:
  assumes "unat (span_index src) + unat (span_length src) \<le> 8 * length (span_data src)"
    and "unat (span_index dst) + unat (span_length dst) \<le> 8 * length (span_data dst)"
  shows "\<exists>dst'. bit_copy dst src = Some dst' \<and>
    copied (span_data src) (unat (span_index src)) (unat (span_length src))
      (span_data dst) (unat (span_index dst)) (unat (span_length dst)) dst'"
  using bit_copy_loop_spec [of "unat (span_index src AND 7)" "unat (span_index dst AND 7)" "span_length src"
      "unat (span_index src div 8)" "span_data src" "span_length dst" "unat (span_index dst div 8)" "span_data dst"] assms
  by (simp add: byte_index bit_copy_def)

lemma memcpy_array_bits:
  assumes "d + n \<le> length dst" "s + n \<le> length src"
  shows "\<exists>dst'. memcpy_array dst d src s n = Some dst' \<and> length dst' = length dst \<and>
    (\<forall>i. i < length dst \<longrightarrow> dst' ! i = (if d \<le> i \<and> i < d + n then src ! (s + (i - d)) else dst ! i))"
  using assms by (auto simp: memcpy_array_def nth_append)

lemma memcpy_zerout_array_bytes:
  assumes "d + ds \<le> length dst" "ss \<le> length src"
  shows "\<exists>dst'. memcpy_zerout_array dst d src ds ss = Some dst' \<and> length dst' = length dst \<and>
    (\<forall>i. i < length dst \<longrightarrow>
      dst' ! i = (if d \<le> i \<and> i < d + ds then (if i - d < ss then src ! (i - d) else 0) else dst ! i))"
proof -
  define n where "n = min ss ds"
  obtain dst1 where 1: "memcpy_array dst d src 0 n = Some dst1" "length dst1 = length dst"
    "\<And>i. i < length dst \<Longrightarrow> dst1 ! i = (if d \<le> i \<and> i < d + n then src ! (i - d) else dst ! i)"
    using memcpy_array_bits [of d n dst 0 src] assms unfolding n_def by force
  obtain dst2 where 2: "memcpy_array dst1 (d + n) (replicate (ds - n) 0) 0 (ds - n) = Some dst2" "length dst2 = length dst1"
    "\<And>i. i < length dst1 \<Longrightarrow>
       dst2 ! i = (if d + n \<le> i \<and> i < d + n + (ds - n) then replicate (ds - n) 0 ! (i - (d + n)) else dst1 ! i)"
    using memcpy_array_bits [of "d + n" "ds - n" dst1 0 "replicate (ds - n) 0"] assms 1(2) by (auto simp: n_def)
  have "dst2 ! i = (if d \<le> i \<and> i < d + ds then (if i - d < ss then src ! (i - d) else 0) else dst ! i)"
    if "i < length dst" for i
    using that 1(2,3) 2(3) by (auto simp: n_def)
  with 1 2 show ?thesis by (auto simp: memcpy_zerout_array_def n_def [symmetric])
qed

lemma round_up: "unat (uacpi_round_up_bits_to_bytes (ucast (bl :: u32))) = (unat bl + 7) div 8"
proof -
  have "unat bl < 2 ^ 32" using unsigned_less [of bl, where ?'a = nat] by simp
  then have u: "unat (ucast bl + 7 :: u64) = unat bl + 7"
    by (simp add: unat_word_ariths unsigned_ucast_eq take_bit_nat_eq_self)
  have "drop_bit 3 ((ucast bl + 7 :: u64) AND NOT (mask 3)) = drop_bit 3 (ucast bl + 7)"
    by (rule bit_eqI) (auto simp: bit_simps dest: bit_imp_le_length)
  then have "((ucast bl + 7 :: u64) AND NOT 7) div 8 = (ucast bl + 7) div 8"
    by (simp add: drop_bit_eq_div mask_eq_exp_minus_1)
  then show ?thesis by (simp add: uacpi_round_up_bits_to_bytes_def unat_div u)
qed

lemma unat_ucast_len: "unat (ucast (bl :: u32) :: u64) = unat bl"
  using unsigned_less [of bl, where ?'a = nat] by (simp add: unsigned_ucast_eq take_bit_nat_eq_self)

lemma tail_bits: "unat (bl AND 7 :: u32) = unat bl mod 8"
proof -
  have "bl AND 7 = bl mod 8" using take_bit_eq_mask [of 3 bl] take_bit_eq_mod [of 3 bl] by (simp add: mask_eq_exp_minus_1)
  then show ?thesis by (simp add: unat_mod)
qed

text \<open>A field of at least one bit that lies inside its buffer.\<close>

definition field_ok :: "uacpi_buffer_field \<Rightarrow> bool" where
  "field_ok f \<longleftrightarrow> bit_length f \<noteq> 0 \<and> unat (bit_index f) + unat (bit_length f) \<le> 8 * length (backing f)"

definition field_bytes :: "uacpi_buffer_field \<Rightarrow> nat" where
  "field_bytes f = (unat (bit_length f) + 7) div 8"

lemma up8: "(x :: nat) mod 8 \<noteq> 0 \<Longrightarrow> (x + 7) div 8 = Suc (x div 8)" "x mod 8 = 0 \<Longrightarrow> (x + 7) div 8 = x div 8"
proof -
  have e: "(x + 7) div 8 = x div 8 + (x mod 8 + 7) div 8"
    using div_mult_self2 [of 8 "x mod 8 + 7" "x div 8"] mult_div_mod_eq [of 8 x] by (simp add: add.assoc [symmetric])
  have "(x mod 8 + 7) div 8 = 1" if "x mod 8 \<noteq> 0"
    by (rule div_nat_eqI) (use that in auto)
  with e show "x mod 8 \<noteq> 0 \<Longrightarrow> (x + 7) div 8 = Suc (x div 8)" by simp
  from e show "x mod 8 = 0 \<Longrightarrow> (x + 7) div 8 = x div 8" by simp
qed

lemma field_count:
  assumes "bit_length f \<noteq> 0"
  shows "unat (uacpi_round_up_bits_to_bytes (ucast (bit_length f)) - 1) = field_bytes f - 1" "0 < field_bytes f"
    "8 * (field_bytes f - 1) < unat (bit_length f)" "unat (bit_length f) \<le> 8 * field_bytes f"
    "unat (bit_length f) mod 8 \<noteq> 0 \<Longrightarrow> unat (bit_length f) = 8 * (field_bytes f - 1) + unat (bit_length f) mod 8"
    "unat (bit_length f) mod 8 = 0 \<Longrightarrow> unat (bit_length f) = 8 * field_bytes f"
proof -
  have b: "0 < unat (bit_length f)" using assms by (simp add: unat_gt_0)
  then show c: "0 < field_bytes f" by (simp add: field_bytes_def div_greater_zero_iff)
  have "uacpi_round_up_bits_to_bytes (ucast (bit_length f)) \<noteq> 0"
    using c round_up [of "bit_length f"] by (auto simp: field_bytes_def simp del: unat_0)
  then show "unat (uacpi_round_up_bits_to_bytes (ucast (bit_length f)) - 1) = field_bytes f - 1"
    by (simp add: unat_minus_one round_up field_bytes_def)
  show "8 * (field_bytes f - 1) < unat (bit_length f)" "unat (bit_length f) \<le> 8 * field_bytes f"
    "unat (bit_length f) mod 8 \<noteq> 0 \<Longrightarrow> unat (bit_length f) = 8 * (field_bytes f - 1) + unat (bit_length f) mod 8"
    "unat (bit_length f) mod 8 = 0 \<Longrightarrow> unat (bit_length f) = 8 * field_bytes f"
    using b up8 [of "unat (bit_length f)"] mult_div_mod_eq [of 8 "unat (bit_length f)"] unfolding field_bytes_def
    by (cases "unat (bit_length f) mod 8 = 0"; simp; linarith)+
qed

lemma round_up_field: "unat (uacpi_round_up_bits_to_bytes (ucast (bit_length f))) = field_bytes f"
  by (simp add: round_up field_bytes_def)

lemma cut_tail:
  assumes bl: "bl \<noteq> 0" and at: "unat offset = (unat bl + 7) div 8 - 1" and len: "(unat bl + 7) div 8 \<le> length xs"
  shows "\<exists>ys. cut_misaligned_tail xs offset bl = Some ys \<and> length ys = length xs \<and>
    (\<forall>k. bit_of ys k \<longleftrightarrow> bit_of xs k \<and> \<not> (unat bl \<le> k \<and> k < 8 * ((unat bl + 7) div 8)))"
proof -
  define n r where "n = (unat bl + 7) div 8" and "r = unat bl mod 8"
  have r8: "r < 8" by (simp add: r_def)
  have "0 < unat bl" using bl by (simp add: unat_gt_0)
  then have n: "0 < n" by (simp add: n_def div_greater_zero_iff)
  show ?thesis
  proof (cases "r = 0")
    case True
    then have "unat bl = 8 * n" using up8(2) [of "unat bl"] by (simp add: n_def r_def)
    moreover have "cut_misaligned_tail xs offset bl = Some xs"
      using True by (simp add: cut_misaligned_tail_def tail_bits r_def)
    ultimately show ?thesis unfolding n_def [symmetric] by simp
  next
    case False
    have bln: "unat bl = 8 * (n - 1) + r"
      using up8(1) [of "unat bl"] False mult_div_mod_eq [of 8 "unat bl"] by (simp add: n_def r_def)
    define b where "b = xs ! (n - 1) AND mask r"
    have last: "n - 1 < length xs" using n len by (simp add: n_def)
    have cut: "cut_misaligned_tail xs offset bl = Some (xs[n - 1 := b])"
      using last False at by (simp add: cut_misaligned_tail_def tail_bits r_def byte_at_def put_byte_def n_def b_def)
    have "bit_of (xs[n - 1 := b]) k \<longleftrightarrow> bit_of xs k \<and> \<not> (unat bl \<le> k \<and> k < 8 * n)" for k
    proof (cases "k div 8 = n - 1")
      case True
      then have "k = 8 * (n - 1) + k mod 8" by (metis mult_div_mod_eq)
      then have "unat bl \<le> k \<and> k < 8 * n \<longleftrightarrow> r \<le> k mod 8" using bln n by auto
      then show ?thesis using True last by (auto simp: bit_of_def b_def bit_simps)
    next
      case False
      have "k < 8 * (n - 1) \<or> 8 * (n - 1) + 8 \<le> k" using False mult_div_mod_eq [of 8 k] by linarith
      then have "\<not> (unat bl \<le> k \<and> k < 8 * n)" unfolding bln using r8 n by linarith
      with False show ?thesis by (auto simp: bit_of_def)
    qed
    with cut show ?thesis by (auto simp: n_def)
  qed
qed

lemma read_spec:
  assumes f: "field_ok f" and dst: "field_bytes f \<le> length dst"
  shows "\<exists>dst'. uacpi_read_buffer_field f dst = Some dst' \<and>
    copied (backing f) (unat (bit_index f)) (unat (bit_length f)) dst 0 (8 * field_bytes f) dst'"
proof (cases "bit_index f AND 7 = 0")
  case False
  have "unat (uacpi_round_up_bits_to_bytes (ucast (bit_length f)) * 8) = 8 * field_bytes f"
    using unsigned_less [of "bit_length f", where ?'a = nat]
    by (subst unat_word_ariths) (simp add: round_up field_bytes_def)
  with False f dst show ?thesis
    using bit_copy_spec [of "\<lparr>span_data = backing f, span_index = bit_index f, span_length = ucast (bit_length f)\<rparr>"
        "\<lparr>span_data = dst, span_index = 0, span_length = uacpi_round_up_bits_to_bytes (ucast (bit_length f)) * 8\<rparr>"]
    by (simp add: uacpi_read_buffer_field_def do_misaligned_buffer_read_def unat_ucast_len field_ok_def)
next
  case True
  note cnt = field_count [of f]
  have bl: "bit_length f \<noteq> 0" using f by (simp add: field_ok_def)
  define bi n where "bi = unat (bit_index f div 8)" and "n = field_bytes f"
  have i: "unat (bit_index f) = 8 * bi" using byte_index(1) [of "bit_index f"] True by (simp add: bi_def)
  have fit: "bi + n \<le> length (backing f)"
    using f i cnt(2-4) [OF bl] unfolding field_ok_def n_def by linarith
  obtain dst1 where 1: "memcpy_array dst 0 (backing f) bi n = Some dst1" "length dst1 = length dst"
    "\<And>k. k < length dst \<Longrightarrow> dst1 ! k = (if k < n then backing f ! (bi + k) else dst ! k)"
    using memcpy_array_bits [of 0 n dst bi "backing f"] fit dst unfolding n_def by force
  have bits: "bit_of dst1 k \<longleftrightarrow> (if k < 8 * n then bit_of (backing f) (8 * bi + k) else bit_of dst k)" for k
    using 1(2) 1(3) [of "k div 8"] fit dst by (auto simp: bit_of_def n_def [symmetric])
  have read: "uacpi_read_buffer_field f dst = cut_misaligned_tail dst1 (uacpi_round_up_bits_to_bytes (ucast (bit_length f)) - 1) (bit_length f)"
    using True 1(1) by (simp add: uacpi_read_buffer_field_def Let_def bi_def n_def round_up field_bytes_def)
  obtain dst2 where 2: "uacpi_read_buffer_field f dst = Some dst2" "length dst2 = length dst1"
    "\<And>k. bit_of dst2 k \<longleftrightarrow> bit_of dst1 k \<and> \<not> (unat (bit_length f) \<le> k \<and> k < 8 * n)"
    unfolding read
    using cut_tail [of "bit_length f" "uacpi_round_up_bits_to_bytes (ucast (bit_length f)) - 1" dst1]
      cnt(1) [OF bl] bl dst 1(2) unfolding n_def field_bytes_def by auto
  have "unat (bit_length f) \<le> 8 * n" using cnt(4) [OF bl] by (simp add: n_def)
  with 2 1(2) bits show ?thesis by (auto simp: copied_def i n_def)
qed

lemma write_spec:
  assumes f: "field_ok f" and src: "unat sz \<le> length src" "unat sz < 2 ^ 61"
  shows "\<exists>b. uacpi_write_buffer_field f src sz = Some b \<and>
    copied src 0 (8 * unat sz) (backing f) (unat (bit_index f)) (unat (bit_length f)) b"
proof (cases "bit_index f AND 7 = 0")
  case False
  have "unat (sz * 8) = 8 * unat sz" using src(2) by (simp add: unat_word_ariths)
  with False f src show ?thesis
    using bit_copy_spec [of "\<lparr>span_data = src, span_index = 0, span_length = sz * 8\<rparr>"
        "\<lparr>span_data = backing f, span_index = bit_index f, span_length = ucast (bit_length f)\<rparr>"]
    by (simp add: uacpi_write_buffer_field_def do_write_misaligned_buffer_field_def unat_ucast_len field_ok_def)
next
  case True
  note cnt = field_count [of f]
  have bl: "bit_length f \<noteq> 0" using f by (simp add: field_ok_def)
  define bi n where "bi = unat (bit_index f div 8)" and "n = field_bytes f"
  define r where "r = unat (bit_length f) mod 8"
  have i: "unat (bit_index f) = 8 * bi" using byte_index(1) [of "bit_index f"] True by (simp add: bi_def)
  have n: "0 < n" using cnt(2) [OF bl] by (simp add: n_def)
  have fit: "bi + n \<le> length (backing f)"
    using f i cnt(2-4) [OF bl] unfolding field_ok_def n_def by linarith
  obtain dst1 where 1: "memcpy_zerout_array (backing f) bi src n (unat sz) = Some dst1" "length dst1 = length (backing f)"
    "\<And>k. k < length (backing f) \<Longrightarrow>
      dst1 ! k = (if bi \<le> k \<and> k < bi + n then (if k - bi < unat sz then src ! (k - bi) else 0) else backing f ! k)"
    using memcpy_zerout_array_bytes [of bi n "backing f" "unat sz" src] fit src(1) by blast
  have bits: "bit_of dst1 k \<longleftrightarrow> (if 8 * bi \<le> k \<and> k < 8 * bi + 8 * n then k - 8 * bi < 8 * unat sz \<and> bit_of src (k - 8 * bi)
      else bit_of (backing f) k)" for k
  proof (cases "8 * bi \<le> k \<and> k < 8 * bi + 8 * n")
    case True
    then obtain j where j: "k = 8 * bi + j" "j < 8 * n" by (auto simp: le_iff_add)
    then have "bi + j div 8 < length (backing f)" "j div 8 < n" using fit by (auto simp: div_less_iff_less_mult)
    moreover have "j div 8 < unat sz \<longleftrightarrow> j < 8 * unat sz" by (auto simp: div_less_iff_less_mult)
    ultimately show ?thesis using True j 1(2) 1(3) [of "bi + j div 8"] src(1) by (auto simp: bit_of_def)
  next
    case False
    then have "\<not> (bi \<le> k div 8 \<and> k div 8 < bi + n)"
      by (auto simp: less_eq_div_iff_mult_less_eq div_less_iff_less_mult)
    then show ?thesis using False 1(2) 1(3) [of "k div 8"] by (auto simp: bit_of_def)
  qed
  define old where "old = backing f ! (bi + (n - 1))"
  have at: "bi + (n - 1) < length (backing f)" using fit n by linarith
  have wr: "uacpi_write_buffer_field f src sz =
      (if r \<noteq> 0
       then Some (dst1[bi + (n - 1) := drop_bit (8 - r) (push_bit (8 - r) (dst1 ! (bi + (n - 1)))) OR
                                      push_bit r (drop_bit r old)])
       else Some dst1)"
    unfolding uacpi_write_buffer_field_def Let_def round_up_field bi_def [symmetric] n_def [symmetric] tail_bits
      r_def [symmetric] cnt(1) [OF bl]
    using True 1(1,2) at by (simp add: byte_at_def put_byte_def old_def)
  show ?thesis
  proof (cases "r = 0")
    case True
    then have "unat (bit_length f) = 8 * n" using cnt(6) [OF bl] by (simp add: r_def n_def)
    with True show ?thesis unfolding wr using 1(2) bits by (simp add: copied_def i)
  next
    case False
    define last where "last = bi + (n - 1)"
    define b where "b = drop_bit (8 - r) (push_bit (8 - r) (dst1 ! last)) OR push_bit r (drop_bit r old)"
    have r: "r < 8" by (simp add: r_def)
    have len: "unat (bit_length f) = 8 * (n - 1) + r" using cnt(5) [OF bl] False by (simp add: r_def n_def)
    have b: "bit b j \<longleftrightarrow> (if j < r then bit (dst1 ! last) j else bit old j)" if "j < 8" for j
      using that r by (auto simp: b_def bit_simps)
    have "bit_of (dst1[last := b]) k \<longleftrightarrow>
        (if 8 * bi \<le> k \<and> k < 8 * bi + unat (bit_length f)
         then k - 8 * bi < 8 * unat sz \<and> bit_of src (k - 8 * bi) else bit_of (backing f) k)" for k
    proof (cases "k div 8 = last")
      case True
      define j where "j = k mod 8"
      have k: "k = 8 * last + j" "j < 8" using True mult_div_mod_eq [of 8 k] by (simp_all add: j_def)
      have "bit_of (dst1[last := b]) k \<longleftrightarrow> (if j < r then bit_of dst1 k else bit_of (backing f) k)"
        using True at 1(2) b [OF k(2)] by (auto simp: bit_of_def last_def old_def j_def)
      moreover have "8 * bi \<le> k \<and> k < 8 * bi + 8 * n" "j < r \<longleftrightarrow> k < 8 * bi + unat (bit_length f)"
        unfolding len k(1) last_def using n k(2) by auto
      ultimately show ?thesis using bits [of k] by auto
    next
      case False
      then have "bit_of (dst1[last := b]) k \<longleftrightarrow> bit_of dst1 k" by (simp add: bit_of_def)
      moreover have "k < 8 * bi + 8 * n \<longleftrightarrow> k < 8 * bi + unat (bit_length f)"
      proof -
        have "k < 8 * last \<or> 8 * last + 8 \<le> k" using False mult_div_mod_eq [of 8 k] by linarith
        then show ?thesis unfolding len last_def using n r by auto
      qed
      ultimately show ?thesis using bits [of k] by auto
    qed
    with False show ?thesis unfolding wr using 1(2) by (auto simp: copied_def i b_def last_def)
  qed
qed

section \<open>Properties\<close>

text \<open>
  C31. Copying bits between two spans that lie inside their buffers stays inside them, and does what its purpose says
  bit by bit: the destination span gets the bits of the source span in order, zeroes when the source is shorter, and every
  bit outside the destination span keeps its value.
\<close>
theorem bit_copy_exact:
  assumes "unat (span_index src) + unat (span_length src) \<le> 8 * length (span_data src)"
    and "unat (span_index dst) + unat (span_length dst) \<le> 8 * length (span_data dst)"
  shows "\<exists>out. bit_copy dst src = Some out \<and> length out = length (span_data dst) \<and>
    (\<forall>n. bit_of out n \<longleftrightarrow>
      (let k = n - unat (span_index dst) in
       if unat (span_index dst) \<le> n \<and> k < unat (span_length dst)
       then k < unat (span_length src) \<and> bit_of (span_data src) (unat (span_index src) + k)
       else bit_of (span_data dst) n))"
proof -
  obtain out where "bit_copy dst src = Some out"
    "copied (span_data src) (unat (span_index src)) (unat (span_length src))
      (span_data dst) (unat (span_index dst)) (unat (span_length dst)) out"
    using bit_copy_spec [OF assms] by blast
  then show ?thesis unfolding copied_def Let_def by (intro exI [of _ out]) (auto simp: less_diff_conv2)
qed

theorem bit_copy_exact_witness:
  "\<exists>out. bit_copy \<lparr>span_data = [0xFF, 0xFF, 0xFF], span_index = 6, span_length = 12\<rparr>
        \<lparr>span_data = [0x5A], span_index = 1, span_length = 7\<rparr> = Some out \<and>
     length out = 3 \<and> bit_of out 6 \<and> \<not> bit_of out 14 \<and> bit_of out 18"
proof -
  obtain out where r: "bit_copy \<lparr>span_data = [0xFF, 0xFF, 0xFF], span_index = 6, span_length = 12\<rparr>
        \<lparr>span_data = [0x5A], span_index = 1, span_length = 7\<rparr> = Some out" "length out = 3"
    and bits: "\<forall>n. bit_of out n \<longleftrightarrow>
      (if 6 \<le> n \<and> n - 6 < 12 then n - 6 < 7 \<and> bit_of [0x5A] (1 + (n - 6)) else bit_of [0xFF, 0xFF, 0xFF] n)"
    using bit_copy_exact [of "\<lparr>span_data = [0x5A], span_index = 1, span_length = 7\<rparr>"
        "\<lparr>span_data = [0xFF, 0xFF, 0xFF], span_index = 6, span_length = 12\<rparr>"]
    by (auto simp: Let_def)
  have "bit_of [0x5A] 1" "bit_of [0xFF, 0xFF, 0xFF] 18" by (simp_all add: bit_of_def)
  with bits have "bit_of out 6" "\<not> bit_of out 14" "bit_of out 18" by simp_all
  with r show ?thesis by blast
qed

text \<open>
  C32. A buffer field of at least one bit inside its buffer, at any bit offset: writing it stays inside the buffer and
  changes no bit outside the field, and reading it back gives the bits that were written, cut to the
  length of the field and extended with zeroes; reading stays inside both buffers, too.
\<close>
theorem buffer_field_roundtrip:
  assumes "field_ok f" "unat sz \<le> length src" "unat sz < 2 ^ 61" "field_bytes f \<le> length dst"
  shows "\<exists>data out. uacpi_write_buffer_field f src sz = Some data \<and> length data = length (backing f) \<and>
    (\<forall>n. n < unat (bit_index f) \<or> unat (bit_index f) + unat (bit_length f) \<le> n \<longrightarrow> bit_of data n = bit_of (backing f) n) \<and>
    uacpi_read_buffer_field (f\<lparr>backing := data\<rparr>) dst = Some out \<and>
    (\<forall>n < 8 * field_bytes f. bit_of out n \<longleftrightarrow> n < unat (bit_length f) \<and> n < 8 * unat sz \<and> bit_of src n)"
proof -
  obtain data where w: "uacpi_write_buffer_field f src sz = Some data"
    "copied src 0 (8 * unat sz) (backing f) (unat (bit_index f)) (unat (bit_length f)) data"
    using write_spec [OF assms(1-3)] by blast
  then have ok: "field_ok (f\<lparr>backing := data\<rparr>)" "field_bytes (f\<lparr>backing := data\<rparr>) \<le> length dst"
    using assms(1,4) by (auto simp: field_ok_def copied_def field_bytes_def)
  obtain out where r: "uacpi_read_buffer_field (f\<lparr>backing := data\<rparr>) dst = Some out"
    "copied data (unat (bit_index f)) (unat (bit_length f)) dst 0 (8 * field_bytes f) out"
    using read_spec [OF ok] by (auto simp: field_bytes_def)
  have "bit_of out n \<longleftrightarrow> n < unat (bit_length f) \<and> n < 8 * unat sz \<and> bit_of src n" if "n < 8 * field_bytes f" for n
    using that w(2) r(2) by (auto simp: copied_def)
  with w r show ?thesis by (auto simp: copied_def)
qed

theorem buffer_field_roundtrip_witness:
  "\<exists>data out. uacpi_write_buffer_field \<lparr>backing = [0xFF, 0, 0xFF], bit_index = 5, bit_length = 13\<rparr> [0x34, 0x12] 2 = Some data \<and>
     uacpi_read_buffer_field \<lparr>backing = data, bit_index = 5, bit_length = 13\<rparr> [0, 0] = Some out \<and> length data = 3 \<and>
     bit_of out 2 \<and> \<not> bit_of out 3"
proof -
  have "field_ok \<lparr>backing = [0xFF, 0, 0xFF], bit_index = 5, bit_length = 13\<rparr>" by (simp add: field_ok_def)
  from buffer_field_roundtrip [OF this, of 2 "[0x34, 0x12]" "[0, 0]"] obtain data out where
    w: "uacpi_write_buffer_field \<lparr>backing = [0xFF, 0, 0xFF], bit_index = 5, bit_length = 13\<rparr> [0x34, 0x12] 2 = Some data"
      "length data = 3"
    and r: "uacpi_read_buffer_field \<lparr>backing = data, bit_index = 5, bit_length = 13\<rparr> [0, 0] = Some out"
    and bits: "\<forall>n < 16. bit_of out n \<longleftrightarrow> n < 13 \<and> bit_of [0x34, 0x12] n"
    by (auto simp: field_bytes_def)
  have "bit_of [0x34, 0x12] 2" "\<not> bit_of [0x34, 0x12] 3" by (simp_all add: bit_of_def)
  with bits have "bit_of out 2" "\<not> bit_of out 3" by simp_all
  with w r show ?thesis by blast
qed

end
