(* ===== verification/AcpiField.thy ===== *)
theory AcpiField
  imports AcpiBits Status
begin

text \<open>
  Field units of operation regions (\<open>source/io.c\<close>, lines 178 to 690): a field is a run of bits that is read and written
  through accesses of a fixed width, with a rule for the bits of an access that do not belong to it.

  The fields an index or bank field uses are part of its value.  What the code reaches outside this file is a
  record \<open>field_env\<close>: the locks, the dispatch of an access to the handler of a region, and
  \<open>handle_special_field\<close> for regions that are no memory.  \<open>data.integer\<close> is passed by value and
  returned.  A result \<open>None\<close> stands for an access outside a buffer or a loop that does not end.
\<close>

section \<open>Numbers as bytes\<close>

definition bytes_of :: "nat \<Rightarrow> u64 \<Rightarrow> u8 list" where
  "bytes_of n v = map (\<lambda>i. ucast (drop_bit (8 * i) v)) [0..<n]"

definition of_bytes :: "u8 list \<Rightarrow> u64" where
  "of_bytes bs = foldr (\<lambda>b v. ucast b OR push_bit 8 v) bs 0"

section \<open>Fields\<close>

datatype update_rule =
    UACPI_UPDATE_RULE_PRESERVE | UACPI_UPDATE_RULE_WRITE_AS_ONES | UACPI_UPDATE_RULE_WRITE_AS_ZEROES | UPDATE_RULE_INVALID

datatype region_op = UACPI_REGION_OP_READ | UACPI_REGION_OP_WRITE

record field_info =
  byte_offset :: u32
  field_bits :: u32
  bit_offset_within_first_byte :: u8
  access_width_bytes :: u8
  update_rule :: update_rule
  lock_rule :: bool

datatype 'r uacpi_field_unit =
    Normal field_info 'r
  | Index field_info "'r uacpi_field_unit" "'r uacpi_field_unit"
  | Bank field_info 'r "'r uacpi_field_unit" u64

fun field_info_of :: "'r uacpi_field_unit \<Rightarrow> field_info" where
  "field_info_of (Normal i r) = i"
| "field_info_of (Index i idx dat) = i"
| "field_info_of (Bank i r sel v) = i"

type_synonym 's access = "region_op \<Rightarrow> u32 \<Rightarrow> u64 \<Rightarrow> 's \<Rightarrow> (uacpi_status \<times> u64 \<times> 's) option"

record ('r, 's) field_env =
  acquire_global :: "'s \<Rightarrow> uacpi_status \<times> 's"
  release_global :: "'s \<Rightarrow> 's"
  upgrade_to_opregion_lock :: "'s \<Rightarrow> uacpi_status \<times> 's"
  release_opregion_lock :: "'s \<Rightarrow> 's"
  handle_special :: "'r uacpi_field_unit \<Rightarrow> u8 list \<Rightarrow> region_op \<Rightarrow> 's \<Rightarrow> (uacpi_status \<times> u8 list \<times> 's) option"
  dispatch_opregion_io :: "'r uacpi_field_unit \<Rightarrow> 's access"

fun field_unit_needs_global_lock :: "'r uacpi_field_unit \<Rightarrow> bool" where
  "field_unit_needs_global_lock (Normal i r) = lock_rule i"
| "field_unit_needs_global_lock (Index i idx dat) =
     (lock_rule i \<or> field_unit_needs_global_lock idx \<or> field_unit_needs_global_lock dat)"
| "field_unit_needs_global_lock (Bank i r sel v) = (lock_rule i \<or> field_unit_needs_global_lock sel)"

definition lock_field_unit_transaction :: "('r, 's) field_env \<Rightarrow> 'r uacpi_field_unit \<Rightarrow> 's \<Rightarrow> uacpi_status \<times> 's" where
  "lock_field_unit_transaction env field s =
     (let (ret, s) = (if field_unit_needs_global_lock field then acquire_global env s else (UACPI_STATUS_OK, s)) in
      if ret \<noteq> UACPI_STATUS_OK then (ret, s)
      else
        (let (ret, s) = upgrade_to_opregion_lock env s
         in (ret, if ret \<noteq> UACPI_STATUS_OK \<and> field_unit_needs_global_lock field then release_global env s else s)))"

definition unlock_field_unit_transaction :: "('r, 's) field_env \<Rightarrow> 'r uacpi_field_unit \<Rightarrow> 's \<Rightarrow> 's" where
  "unlock_field_unit_transaction env field s =
     (let s = release_opregion_lock env s in if field_unit_needs_global_lock field then release_global env s else s)"

definition field_fits :: "'r uacpi_field_unit \<Rightarrow> u64 \<Rightarrow> bool" where
  "field_fits field v \<longleftrightarrow> field_bits (field_info_of field) \<ge> 64 \<or> v < push_bit (unat (field_bits (field_info_of field))) 1"

section \<open>Reading\<close>

text \<open>\<open>while (reads_to_do-- > 0)\<close>; \<open>out\<close> is the local the accesses store to.\<close>

fun read_loop :: "'s access \<Rightarrow> field_info \<Rightarrow> nat \<Rightarrow> u32 \<Rightarrow> u32 \<Rightarrow> u64 \<Rightarrow> bit_span \<Rightarrow> u64 \<Rightarrow> 's \<Rightarrow>
    (uacpi_status \<times> u8 list \<times> 's) option" where
  "read_loop access f 0 off bits_left src_index dst out s = Some (UACPI_STATUS_OK, span_data dst, s)"
| "read_loop access f (Suc n) off bits_left src_index dst out s =
     (let width_access_bits = access_width_bytes f * 8;
          len = min (ucast bits_left) (ucast width_access_bits - src_index) in
      Option.bind (access UACPI_REGION_OP_READ off out s) (\<lambda>(ret, out, s).
        if ret \<noteq> UACPI_STATUS_OK then Some (ret, span_data dst, s)
        else
          Option.bind (bit_copy dst \<lparr>span_data = bytes_of 8 out, span_index = src_index, span_length = len\<rparr>) (\<lambda>d.
            read_loop access f n (off + ucast (access_width_bytes f)) (ucast (ucast bits_left - len)) 0
              (snd (bit_span_offset (dst\<lparr>span_data := d\<rparr>) len)) out s)))"

definition reads_to_do :: "field_info \<Rightarrow> u32" where
  "reads_to_do f =
     (let width_access_bits = ucast (access_width_bytes f * 8) :: u32;
          bits = ucast (bit_offset_within_first_byte f) + field_bits f
      in ((bits + (width_access_bits - 1)) AND NOT (width_access_bits - 1)) div width_access_bits)"

definition do_read_misaligned_field_unit ::
  "'s access \<Rightarrow> field_info \<Rightarrow> u8 list \<Rightarrow> u64 \<Rightarrow> u64 \<Rightarrow> 's \<Rightarrow> (uacpi_status \<times> u8 list \<times> 's) option" where
  "do_read_misaligned_field_unit access f dst sz out s =
     read_loop access f (unat (reads_to_do f)) (byte_offset f) (field_bits f) (ucast (bit_offset_within_first_byte f))
       \<lparr>span_data = dst, span_index = 0, span_length = sz * 8\<rparr> out s"

text \<open>The body of \<open>uacpi_read_field_unit\<close> between lock and unlock, for a field that is not special.\<close>

definition read_generic :: "'s access \<Rightarrow> field_info \<Rightarrow> u8 list \<Rightarrow> u64 \<Rightarrow> u64 \<Rightarrow> 's \<Rightarrow> (uacpi_status \<times> u8 list \<times> 's) option" where
  "read_generic access f dst sz out s =
     (let field_byte_length = ucast (uacpi_round_up_bits_to_bytes (ucast (field_bits f))) :: u32 in
      if bit_offset_within_first_byte f = 0 \<and> field_byte_length \<le> ucast (access_width_bytes f)
      then
        Option.bind (access UACPI_REGION_OP_READ (byte_offset f) out s) (\<lambda>(ret, out, s).
          if ret \<noteq> UACPI_STATUS_OK then Some (ret, dst, s)
          else
            Option.bind (memcpy_zerout_array dst 0 (bytes_of 8 out) (unat sz) (unat field_byte_length)) (\<lambda>dst.
              if sz \<ge> ucast field_byte_length
              then map_option (\<lambda>dst. (UACPI_STATUS_OK, dst, s))
                     (cut_misaligned_tail dst (ucast (field_byte_length - 1)) (field_bits f))
              else Some (UACPI_STATUS_OK, dst, s)))
      else do_read_misaligned_field_unit access f dst sz out s)"

definition read_field :: "('r, 's) field_env \<Rightarrow> 's access \<Rightarrow> 'r uacpi_field_unit \<Rightarrow> u8 list \<Rightarrow> u64 \<Rightarrow> u64 \<Rightarrow> 's \<Rightarrow>
    (uacpi_status \<times> u8 list \<times> 's) option" where
  "read_field env access field dst sz out s =
     (let (ret, s) = lock_field_unit_transaction env field s in
      if ret \<noteq> UACPI_STATUS_OK then Some (ret, dst, s)
      else
        map_option (\<lambda>(ret, dst, s). (ret, dst, unlock_field_unit_transaction env field s))
          (case (case field of Index i idx dat \<Rightarrow> None | _ \<Rightarrow> handle_special env field (take (unat sz) dst) UACPI_REGION_OP_READ s) of
             Some (ret, bs, s) \<Rightarrow> Some (ret, bs @ drop (unat sz) dst, s)
           | None \<Rightarrow> read_generic access (field_info_of field) dst sz out s))"

section \<open>Writing\<close>

text \<open>What the bits of an access that do not belong to the field start from.\<close>

definition initial_bits :: "'s access \<Rightarrow> field_info \<Rightarrow> u32 \<Rightarrow> 's \<Rightarrow> (uacpi_status \<times> u64 \<times> 's) option" where
  "initial_bits access f off s =
     (case update_rule f of
        UACPI_UPDATE_RULE_PRESERVE \<Rightarrow> access UACPI_REGION_OP_READ off 0 s
      | UACPI_UPDATE_RULE_WRITE_AS_ONES \<Rightarrow> Some (UACPI_STATUS_OK, NOT 0, s)
      | UACPI_UPDATE_RULE_WRITE_AS_ZEROES \<Rightarrow> Some (UACPI_STATUS_OK, 0, s)
      | UPDATE_RULE_INVALID \<Rightarrow> Some (UACPI_STATUS_INVALID_ARGUMENT, 0, s))"

partial_function (option) write_loop :: "'s access \<Rightarrow> field_info \<Rightarrow> u32 \<Rightarrow> u32 \<Rightarrow> u64 \<Rightarrow> bit_span \<Rightarrow> 's \<Rightarrow>
    (uacpi_status \<times> 's) option" where
  "write_loop access f off bits_left dst_index src s =
     (if bits_left = 0 then Some (UACPI_STATUS_OK, s)
      else
        (let width_access_bits = ucast (access_width_bytes f * 8) :: u64;
             len = min (width_access_bits - dst_index) (ucast bits_left) in
         Option.bind
           (if dst_index \<noteq> 0 \<or> len < width_access_bits then initial_bits access f off s else Some (UACPI_STATUS_OK, 0, s))
           (\<lambda>(ret, inp, s).
             if ret \<noteq> UACPI_STATUS_OK then Some (ret, s)
             else
               Option.bind (bit_copy \<lparr>span_data = bytes_of 8 inp, span_index = dst_index, span_length = len\<rparr> src) (\<lambda>bs.
                 Option.bind (access UACPI_REGION_OP_WRITE off (of_bytes bs) s) (\<lambda>(ret, inp, s).
                   if ret \<noteq> UACPI_STATUS_OK then Some (ret, s)
                   else write_loop access f (off + ucast (access_width_bytes f)) (ucast (ucast bits_left - len)) 0
                          (snd (bit_span_offset src len)) s)))))"

definition write_generic_field_unit :: "'s access \<Rightarrow> field_info \<Rightarrow> u8 list \<Rightarrow> u64 \<Rightarrow> 's \<Rightarrow> (uacpi_status \<times> 's) option" where
  "write_generic_field_unit access f src sz s =
     write_loop access f (byte_offset f) (field_bits f) (ucast (bit_offset_within_first_byte f))
       \<lparr>span_data = src, span_index = 0, span_length = sz * 8\<rparr> s"

definition write_field :: "('r, 's) field_env \<Rightarrow> 's access \<Rightarrow> 'r uacpi_field_unit \<Rightarrow> u8 list \<Rightarrow> u64 \<Rightarrow> 's \<Rightarrow> (uacpi_status \<times> 's) option" where
  "write_field env access field src sz s =
     (let (ret, s) = lock_field_unit_transaction env field s in
      if ret \<noteq> UACPI_STATUS_OK then Some (ret, s)
      else
        map_option (\<lambda>(ret, s). (ret, unlock_field_unit_transaction env field s))
          (case (case field of Index i idx dat \<Rightarrow> None | _ \<Rightarrow> handle_special env field (take (unat sz) src) UACPI_REGION_OP_WRITE s) of
             Some (ret, bs, s) \<Rightarrow> Some (ret, s)
           | None \<Rightarrow> write_generic_field_unit access (field_info_of field) src sz s))"

section \<open>One access\<close>

fun access_field_unit :: "('r, 's) field_env \<Rightarrow> 'r uacpi_field_unit \<Rightarrow> 's access" where
  "access_field_unit env (Normal i r) op off v s = dispatch_opregion_io env (Normal i r) op off v s"
| "access_field_unit env (Bank i r sel bank_value) op off v s =
     (if \<not> field_fits sel bank_value then Some (UACPI_STATUS_AML_OUT_OF_BOUNDS_INDEX, v, s)
      else
        Option.bind (write_field env (access_field_unit env sel) sel (bytes_of 8 bank_value) 8 s) (\<lambda>(ret, s).
          if ret \<noteq> UACPI_STATUS_OK then Some (ret, v, s)
          else dispatch_opregion_io env (Bank i r sel bank_value) op off v s))"
| "access_field_unit env (Index i idx dat) op off v s =
     (if \<not> field_fits idx (ucast off) then Some (UACPI_STATUS_AML_OUT_OF_BOUNDS_INDEX, v, s)
      else
        Option.bind (write_field env (access_field_unit env idx) idx (bytes_of 4 (ucast off)) 4 s) (\<lambda>(ret, s).
          if ret \<noteq> UACPI_STATUS_OK then Some (ret, v, s)
          else
            (case op of
               UACPI_REGION_OP_READ \<Rightarrow>
                 map_option (\<lambda>(ret, bs, s). (ret, of_bytes bs, s))
                   (read_field env (access_field_unit env dat) dat (bytes_of 8 v) (ucast (access_width_bytes i)) v s)
             | UACPI_REGION_OP_WRITE \<Rightarrow>
                 map_option (\<lambda>(ret, s). (ret, v, s))
                   (write_field env (access_field_unit env dat) dat (bytes_of 8 v) (ucast (access_width_bytes i)) s))))"

definition uacpi_read_field_unit :: "('r, 's) field_env \<Rightarrow> 'r uacpi_field_unit \<Rightarrow> u8 list \<Rightarrow> u64 \<Rightarrow> u64 \<Rightarrow> 's \<Rightarrow>
    (uacpi_status \<times> u8 list \<times> 's) option" where
  "uacpi_read_field_unit env field = read_field env (access_field_unit env field) field"

definition uacpi_write_field_unit :: "('r, 's) field_env \<Rightarrow> 'r uacpi_field_unit \<Rightarrow> u8 list \<Rightarrow> u64 \<Rightarrow> 's \<Rightarrow> (uacpi_status \<times> 's) option" where
  "uacpi_write_field_unit env field = write_field env (access_field_unit env field) field"

end
