(* ===== verification/AcpiFieldProps.thy ===== *)
theory AcpiFieldProps
  imports AcpiField
begin

text \<open>
  Field units over a reference region: bytes in memory that an access of \<open>w\<close> bytes reads and writes in
  little-endian order.  The loops over the accesses are shown to do, bit by bit, what a field means.
\<close>

section \<open>Numbers, bytes and bits\<close>

lemma bit_of_nil [simp]: "\<not> bit_of [] n"
  by (simp add: bit_of_def)

lemma bit_of_cons: "bit_of (x # xs) n \<longleftrightarrow> (if n < 8 then bit x n else bit_of xs (n - 8))"
proof (cases "n < 8")
  case False
  then obtain m where n: "n = 8 + m" by (metis le_Suc_ex not_less)
  have "(8 + m) div 8 = Suc (m div 8)" by simp
  then show ?thesis unfolding bit_of_def n by simp
qed (simp add: bit_of_def)

lemma bit_of_append: "bit_of (xs @ ys) n \<longleftrightarrow> (if n < 8 * length xs then bit_of xs n else bit_of ys (n - 8 * length xs))"
proof (induction xs arbitrary: n)
  case (Cons x xs)
  then show ?case by (auto simp: bit_of_cons diff_diff_left)
qed simp

lemma bit_of_take: "bit_of (take k xs) n \<longleftrightarrow> n < 8 * k \<and> bit_of xs n"
  by (auto simp: bit_of_def div_less_iff_less_mult)

lemma bit_of_drop: "bit_of (drop k xs) n \<longleftrightarrow> bit_of xs (8 * k + n)"
  by (auto simp: bit_of_def)

lemma bit_of_length: "bit_of xs n \<Longrightarrow> n < 8 * length xs"
  by (auto simp: bit_of_def div_less_iff_less_mult)

lemma bytes_of_length [simp]: "length (bytes_of k v) = k"
  by (simp add: bytes_of_def)

lemma bytes_of_bits: "bit_of (bytes_of k v) n \<longleftrightarrow> n < 8 * k \<and> bit v n"
proof -
  have "8 * (n div 8) + n mod 8 = n" by simp
  then show ?thesis
    by (auto simp: bit_of_def bytes_of_def bit_simps div_less_iff_less_mult mult.commute dest: bit_imp_le_length)
qed

lemma of_bytes_bits: "bit (of_bytes bs) n \<longleftrightarrow> n < 64 \<and> bit_of bs n"
proof (induction bs arbitrary: n)
  case Nil
  then show ?case by (simp add: of_bytes_def)
next
  case (Cons b bs)
  have "of_bytes (b # bs) = ucast b OR push_bit 8 (of_bytes bs)" by (simp add: of_bytes_def)
  then show ?case
    using Cons.IH [of "n - 8"] bit_imp_le_length [of b n] by (auto simp: bit_simps bit_of_cons)
qed

section \<open>The reference region\<close>

definition ram_access :: "nat \<Rightarrow> u8 list access" where
  "ram_access w op off v mem =
     (if unat off + w \<le> length mem
      then
        (case op of
           UACPI_REGION_OP_READ \<Rightarrow> Some (UACPI_STATUS_OK, of_bytes (take w (drop (unat off) mem)), mem)
         | UACPI_REGION_OP_WRITE \<Rightarrow>
             Some (UACPI_STATUS_OK, v, take (unat off) mem @ bytes_of w v @ drop (unat off + w) mem))
      else Some (UACPI_STATUS_AML_OUT_OF_BOUNDS_INDEX, v, mem))"

lemma ram_read:
  assumes "unat off + w \<le> length mem" "w \<le> 8"
  obtains v where "ram_access w UACPI_REGION_OP_READ off out mem = Some (UACPI_STATUS_OK, v, mem)"
    and "\<And>n. bit v n \<longleftrightarrow> n < 8 * w \<and> bit_of mem (8 * unat off + n)"
  using assms by (intro that [of "of_bytes (take w (drop (unat off) mem))"])
    (auto simp: ram_access_def of_bytes_bits bit_of_take bit_of_drop)

lemma ram_write:
  assumes "unat off + w \<le> length mem" "w \<le> 8"
  obtains mem' where "ram_access w UACPI_REGION_OP_WRITE off v mem = Some (UACPI_STATUS_OK, v, mem')"
    and "length mem' = length mem"
    and "\<And>n. bit_of mem' n \<longleftrightarrow>
      (if 8 * unat off \<le> n \<and> n < 8 * unat off + 8 * w then bit v (n - 8 * unat off) else bit_of mem n)"
  using assms
  by (intro that [of "take (unat off) mem @ bytes_of w v @ drop (unat off + w) mem"])
    (auto simp: ram_access_def bit_of_append bit_of_take bit_of_drop bytes_of_bits algebra_simps)

fun fill_bit :: "update_rule \<Rightarrow> bool \<Rightarrow> bool" where
  "fill_bit UACPI_UPDATE_RULE_WRITE_AS_ONES old = True"
| "fill_bit UACPI_UPDATE_RULE_WRITE_AS_ZEROES old = False"
| "fill_bit rule old = old"

lemma initial_bits_ram:
  assumes "unat off + w \<le> length mem" "w \<le> 8" "update_rule f \<noteq> UPDATE_RULE_INVALID"
  obtains v where "initial_bits (ram_access w) f off mem = Some (UACPI_STATUS_OK, v, mem)"
    and "\<And>n. n < 8 * w \<Longrightarrow> bit v n \<longleftrightarrow> fill_bit (update_rule f) (bit_of mem (8 * unat off + n))"
proof (cases "update_rule f")
  case UACPI_UPDATE_RULE_PRESERVE
  obtain v where "ram_access w UACPI_REGION_OP_READ off 0 mem = Some (UACPI_STATUS_OK, v, mem)"
    "\<And>n. bit v n \<longleftrightarrow> n < 8 * w \<and> bit_of mem (8 * unat off + n)"
    using ram_read [OF assms(1,2), of 0] by blast
  with UACPI_UPDATE_RULE_PRESERVE show ?thesis by (intro that [of v]) (simp_all add: initial_bits_def)
next
  case UACPI_UPDATE_RULE_WRITE_AS_ONES
  then show ?thesis using assms(2) by (intro that [of "NOT 0"]) (auto simp: initial_bits_def bit_simps)
next
  case UACPI_UPDATE_RULE_WRITE_AS_ZEROES
  then show ?thesis by (intro that [of 0]) (auto simp: initial_bits_def)
next
  case UPDATE_RULE_INVALID
  then show ?thesis using assms(3) by simp
qed

section \<open>The write loop\<close>

definition units :: "nat \<Rightarrow> nat \<Rightarrow> nat" where
  "units w bits = (bits + (8 * w - 1)) div (8 * w)"

text \<open>What a write of \<open>k\<close> bits, \<open>b\<close> bits into the access at \<open>o\<close>, does to the bits of the region.\<close>

definition written :: "update_rule \<Rightarrow> nat \<Rightarrow> u8 list \<Rightarrow> nat \<Rightarrow> nat \<Rightarrow> nat \<Rightarrow> nat \<Rightarrow> nat \<Rightarrow> u8 list \<Rightarrow> u8 list \<Rightarrow> bool" where
  "written rule w src si sl off b k mem mem' \<longleftrightarrow> length mem' = length mem \<and>
     (\<forall>n. bit_of mem' n \<longleftrightarrow>
       (if 8 * off + b \<le> n \<and> n < 8 * off + b + k then n - (8 * off + b) < sl \<and> bit_of src (si + (n - (8 * off + b)))
        else if 8 * off \<le> n \<and> n < 8 * (off + w * units w (b + k)) then fill_bit rule (bit_of mem n)
        else bit_of mem n))"

definition width_ok :: "field_info \<Rightarrow> bool" where
  "width_ok f \<longleftrightarrow> access_width_bytes f \<in> {1, 2, 4, 8}"

lemma width:
  assumes "width_ok f"
  shows "unat (ucast (access_width_bytes f * 8) :: u64) = 8 * unat (access_width_bytes f)"
    "unat (ucast (access_width_bytes f * 8) :: u32) = 8 * unat (access_width_bytes f)"
    "unat (ucast (access_width_bytes f) :: u32) = unat (access_width_bytes f)"
    "0 < unat (access_width_bytes f)" "unat (access_width_bytes f) \<le> 8"
  using assms by (auto simp: width_ok_def)

lemma unat_min: "unat (min a b) = min (unat a) (unat (b :: u64))"
  by (auto simp: min_def word_le_nat_alt)

lemma units_first:
  assumes "0 < w" "b < 8 * w" "0 < k"
  shows "units w (b + k) = Suc (units w (k - min (8 * w - b) k))"
proof -
  have next_unit: "(x + 8 * w) div (8 * w) = Suc (x div (8 * w))" for x
    using assms(1) by (subst div_add_self2) simp_all
  have "b + k + (8 * w - 1) = (k - min (8 * w - b) k + (8 * w - 1)) + 8 * w \<or> k \<le> 8 * w - b"
    using assms by linarith
  then show ?thesis
  proof
    assume e: "b + k + (8 * w - 1) = (k - min (8 * w - b) k + (8 * w - 1)) + 8 * w"
    show ?thesis unfolding units_def e by (rule next_unit)
  next
    assume k: "k \<le> 8 * w - b"
    then have e: "b + k + (8 * w - 1) = (b + k - 1) + 8 * w" "b + k - 1 < 8 * w" "8 * w - 1 < 8 * w" using assms by linarith+
    have "units w (b + k) = Suc ((b + k - 1) div (8 * w))" unfolding units_def e(1) by (rule next_unit)
    with e(2,3) k show ?thesis by (simp add: units_def)
  qed
qed

lemma units_zero: "0 < w \<Longrightarrow> units w 0 = 0"
  by (simp add: units_def)

lemma copy_into_unit:
  assumes "b + k \<le> 64" "si + sl \<le> 8 * length src" "unat dst_index = b" "unat len = k" "unat (span_index sp) = si"
    "unat (span_length sp) = sl" "span_data sp = src"
  obtains bs where "bit_copy \<lparr>span_data = bytes_of 8 v, span_index = dst_index, span_length = len\<rparr> sp = Some bs"
    and "\<And>n. n < 64 \<Longrightarrow> bit (of_bytes bs) n \<longleftrightarrow>
      (if b \<le> n \<and> n < b + k then n - b < sl \<and> bit_of src (si + (n - b)) else bit v n)"
proof -
  let ?d = "\<lparr>span_data = bytes_of 8 v, span_index = dst_index, span_length = len\<rparr>"
  obtain bs where c: "bit_copy ?d sp = Some bs"
    "copied src si sl (bytes_of 8 v) b k bs"
    using bit_copy_spec [of sp ?d] assms by auto
  have "bit (of_bytes bs) n \<longleftrightarrow> (if b \<le> n \<and> n < b + k then n - b < sl \<and> bit_of src (si + (n - b)) else bit v n)"
    if "n < 64" for n
    using c(2) that by (simp add: copied_def of_bytes_bits bytes_of_bits)
  with c(1) show thesis by (rule that)
qed

lemma write_loop_ram:
  assumes wf: "width_ok f" "update_rule f \<noteq> UPDATE_RULE_INVALID" and w: "w = unat (access_width_bytes f)"
    and "unat bits_left = k" "unat dst_index = b" "b < 8 * w" "b = 0 \<or> 0 < k"
    and "unat (span_index sp) + unat (span_length sp) \<le> 8 * length (span_data sp)"
    and "8 * length (span_data sp) < 2 ^ 64"
    and "unat off + w * units w (b + k) \<le> length mem" "length mem < 2 ^ 32"
  shows "\<exists>mem'. write_loop (ram_access w) f off bits_left dst_index sp mem = Some (UACPI_STATUS_OK, mem') \<and>
    written (update_rule f) w (span_data sp) (unat (span_index sp)) (unat (span_length sp)) (unat off) b k mem mem'"
  using assms(4-)
proof (induction k arbitrary: off bits_left dst_index b sp mem rule: less_induct)
  case (less k)
  note W = width [OF wf(1), folded w]
  show ?case
  proof (cases "k = 0")
    case True
    then have "bits_left = 0" "b = 0" using less.prems(1,4) by (simp_all add: unat_eq_zero)
    then show ?thesis
      by (subst write_loop.simps) (auto simp: written_def units_zero W True)
  next
    case False
    define si sl src where "si = unat (span_index sp)" and "sl = unat (span_length sp)" and "src = span_data sp"
    define l where "l = min (8 * w - b) k"
    define len where "len = min (ucast (access_width_bytes f * 8) - dst_index) (ucast bits_left :: u64)"
    have len: "unat len = l"
      using less.prems(1-3) W(1) by (simp add: len_def l_def unat_min unat_sub word_le_nat_alt unat_ucast_len)
    have l: "0 < l" "b + l \<le> 8 * w" "l \<le> k" using False less.prems(3) by (auto simp: l_def)
    have first: "units w (b + k) = Suc (units w (k - l))"
      using units_first [of w b k] W(4) less.prems(3) False by (simp add: l_def)
    have fit: "unat off + w \<le> length mem" "unat off + w + w * units w (k - l) \<le> length mem"
      using less.prems(7) unfolding first by (simp_all add: algebra_simps)
    have w8: "w \<le> 8" by (rule W(5))
    obtain v where init: "(if dst_index \<noteq> 0 \<or> len < ucast (access_width_bytes f * 8) then initial_bits (ram_access w) f off mem
        else Some (UACPI_STATUS_OK, 0, mem)) = Some (UACPI_STATUS_OK, v, mem)"
      and v: "\<And>n. n < 8 * w \<Longrightarrow> \<not> (b \<le> n \<and> n < b + l) \<Longrightarrow> bit v n = fill_bit (update_rule f) (bit_of mem (8 * unat off + n))"
    proof (cases "dst_index \<noteq> 0 \<or> len < ucast (access_width_bytes f * 8)")
      case True
      then show ?thesis using initial_bits_ram [OF fit(1) w8 wf(2)] that by (metis (no_types, lifting))
    next
      case False
      then have "b = 0" "l \<ge> 8 * w" using less.prems(2) len W(1) by (auto simp: word_less_nat_alt)
      with False show ?thesis by (intro that [of 0]) auto
    qed
    obtain bs where copy: "bit_copy \<lparr>span_data = bytes_of 8 v, span_index = dst_index, span_length = len\<rparr> sp = Some bs"
      and bs: "\<And>n. n < 64 \<Longrightarrow> bit (of_bytes bs) n \<longleftrightarrow>
        (if b \<le> n \<and> n < b + l then n - b < sl \<and> bit_of src (si + (n - b)) else bit v n)"
      using copy_into_unit [of b l si sl src dst_index len sp v] l(2) w8 less.prems(2,5) len
      unfolding si_def sl_def src_def by auto
    obtain mem1 where wr: "ram_access w UACPI_REGION_OP_WRITE off (of_bytes bs) mem = Some (UACPI_STATUS_OK, of_bytes bs, mem1)"
      and len1: "length mem1 = length mem"
      and mem1: "\<And>n. bit_of mem1 n \<longleftrightarrow>
        (if 8 * unat off \<le> n \<and> n < 8 * unat off + 8 * w then bit (of_bytes bs) (n - 8 * unat off) else bit_of mem n)"
      using ram_write [OF fit(1) w8, of "of_bytes bs"] by blast
    define sp' where "sp' = snd (bit_span_offset sp len)"
    define off' where "off' = off + ucast (access_width_bytes f)"
    define left' where "left' = (ucast (ucast bits_left - len) :: u32)"
    have step: "write_loop (ram_access w) f off bits_left dst_index sp mem =
        write_loop (ram_access w) f off' left' 0 sp' mem1"
    proof -
      have "bits_left \<noteq> 0" using False less.prems(1) by auto
      then have "write_loop (ram_access w) f off bits_left dst_index sp mem =
          Option.bind (if dst_index \<noteq> 0 \<or> len < ucast (access_width_bytes f * 8) then initial_bits (ram_access w) f off mem
            else Some (UACPI_STATUS_OK, 0, mem))
          (\<lambda>(ret, inp, s).
             if ret \<noteq> UACPI_STATUS_OK then Some (ret, s)
             else
               Option.bind (bit_copy \<lparr>span_data = bytes_of 8 inp, span_index = dst_index, span_length = len\<rparr> sp) (\<lambda>bs.
                 Option.bind (ram_access w UACPI_REGION_OP_WRITE off (of_bytes bs) s) (\<lambda>(ret, inp, s).
                   if ret \<noteq> UACPI_STATUS_OK then Some (ret, s)
                   else write_loop (ram_access w) f off' left' 0 sp' s)))"
        unfolding len_def sp'_def off'_def left'_def by (subst write_loop.simps) (simp only: Let_def if_False)
      then show ?thesis unfolding init by (simp add: copy wr)
    qed
    have left': "unat left' = k - l"
    proof -
      have "unat (ucast bits_left - len) = k - l"
        using less.prems(1) len l(3) by (simp add: unat_sub word_le_nat_alt unat_ucast_len)
      then show ?thesis using unsigned_less [of bits_left, where ?'a = nat] less.prems(1)
        by (simp add: left'_def unsigned_ucast_eq take_bit_nat_eq_self)
    qed
    have off': "unat off' = unat off + w"
      using fit(1) less.prems(8) W(3) by (simp add: off'_def unat_word_ariths)
    have sp': "span_data sp' = src" "unat (span_index sp') = si + min sl l" "unat (span_length sp') = sl - min sl l"
      using less.prems(5,6) len
      by (auto simp: sp'_def bit_span_offset_def Let_def src_def si_def sl_def unat_min unat_sub unat_word_ariths
          word_le_nat_alt min_def)
    obtain mem2 where loop: "write_loop (ram_access w) f off' left' 0 sp' mem1 = Some (UACPI_STATUS_OK, mem2)"
      and mem2: "written (update_rule f) w src (si + min sl l) (sl - min sl l) (unat off + w) 0 (k - l) mem1 mem2"
    proof -
      have "k - l < k" using l(1,3) by simp
      moreover have "unat (span_index sp') + unat (span_length sp') \<le> 8 * length (span_data sp')"
        using less.prems(5) unfolding sp' si_def sl_def src_def by simp
      ultimately show ?thesis
        using less.IH [OF _ left', of 0 0 sp' off' mem1] W(4) fit(2) less.prems(6,8) that
        unfolding off' sp' len1 by (auto simp: src_def)
    qed
    have "written (update_rule f) w src si sl (unat off) b k mem mem2"
      unfolding written_def
    proof (intro conjI allI)
      show "length mem2 = length mem" using mem2 len1 by (simp add: written_def)
      fix n
      let ?o = "8 * unat off"
      have end_: "8 * (unat off + w * units w (b + k)) = ?o + 8 * w + 8 * (w * units w (k - l))"
        unfolding first by (simp add: algebra_simps)
      have m2: "bit_of mem2 n \<longleftrightarrow>
          (if ?o + 8 * w \<le> n \<and> n < ?o + 8 * w + (k - l)
           then n - (?o + 8 * w) < sl - min sl l \<and> bit_of src (si + min sl l + (n - (?o + 8 * w)))
           else if ?o + 8 * w \<le> n \<and> n < ?o + 8 * w + 8 * (w * units w (k - l)) then fill_bit (update_rule f) (bit_of mem1 n)
           else bit_of mem1 n)"
        using mem2 by (simp add: written_def algebra_simps)
      consider "n < ?o" | "?o \<le> n" "n < ?o + 8 * w" | "?o + 8 * w \<le> n" by linarith
      then show "bit_of mem2 n \<longleftrightarrow>
          (if ?o + b \<le> n \<and> n < ?o + b + k then n - (?o + b) < sl \<and> bit_of src (si + (n - (?o + b)))
           else if ?o \<le> n \<and> n < 8 * (unat off + w * units w (b + k)) then fill_bit (update_rule f) (bit_of mem n)
           else bit_of mem n)"
      proof cases
        case 1
        then show ?thesis using m2 mem1 [of n] by simp
      next
        case 2
        define m where "m = n - ?o"
        have n: "n = ?o + m" "m < 8 * w" using 2 by (simp_all add: m_def)
        have "bit_of mem2 n \<longleftrightarrow> bit (of_bytes bs) m" using m2 mem1 [of n] 2 by (simp add: m_def)
        also have "\<dots> \<longleftrightarrow> (if b \<le> m \<and> m < b + l then m - b < sl \<and> bit_of src (si + (m - b))
            else fill_bit (update_rule f) (bit_of mem n))"
          using bs [of m] v [of m] n w8 by auto
        moreover have "m < b + l \<longleftrightarrow> m < b + k" using n(2) less.prems(3) unfolding l_def by linarith
        ultimately show ?thesis unfolding end_ using n by auto
      next
        case 3
        then have m1: "bit_of mem1 n \<longleftrightarrow> bit_of mem n" using mem1 [of n] by simp
        show ?thesis
        proof (cases "l < k")
          case True
          then have e: "8 * w = b + l" unfolding l_def using less.prems(3) by linarith
          define m where "m = n - (?o + 8 * w)"
          have n: "n = ?o + b + l + m" using 3 e by (simp add: m_def)
          have "m < sl - min sl l \<and> bit_of src (si + min sl l + m) \<longleftrightarrow> l + m < sl \<and> bit_of src (si + (l + m))"
            by (auto simp: min_def add.assoc)
          then show ?thesis using m2 m1 3 True unfolding end_ n e by auto
        next
          case False
          then have "k = l" using l(3) by simp
          then show ?thesis using m2 m1 3 l(2) unfolding end_ by auto
        qed
      qed
    qed
    with step loop show ?thesis by (auto simp: si_def sl_def src_def)
  qed
qed

section \<open>The read loop\<close>

definition was_read :: "u8 list \<Rightarrow> nat \<Rightarrow> nat \<Rightarrow> u8 list \<Rightarrow> nat \<Rightarrow> nat \<Rightarrow> u8 list \<Rightarrow> bool" where
  "was_read mem at k d di dl d' \<longleftrightarrow> length d' = length d \<and>
     (\<forall>m. bit_of d' m \<longleftrightarrow> (if di \<le> m \<and> m < di + dl then m - di < k \<and> bit_of mem (at + (m - di)) else bit_of d m))"

lemma read_loop_ram:
  assumes wf: "width_ok f" and w: "w = unat (access_width_bytes f)"
    and "n = units w (b + k)" "0 < k" "unat bits_left = k" "unat src_index = b" "b < 8 * w"
    and "unat (span_index sp) + unat (span_length sp) \<le> 8 * length (span_data sp)"
    and "8 * length (span_data sp) < 2 ^ 64"
    and "unat off + w * n \<le> length mem" "length mem < 2 ^ 32"
  shows "\<exists>d'. read_loop (ram_access w) f n off bits_left src_index sp out mem = Some (UACPI_STATUS_OK, d', mem) \<and>
    was_read mem (8 * unat off + b) k (span_data sp) (unat (span_index sp)) (unat (span_length sp)) d'"
  using assms(3-)
proof (induction k arbitrary: n off bits_left src_index b sp out rule: less_induct)
  case (less k)
  note W = width [OF wf(1), folded w]
  define di dl d where "di = unat (span_index sp)" and "dl = unat (span_length sp)" and "d = span_data sp"
  define l where "l = min k (8 * w - b)"
  define len where "len = min (ucast bits_left) (ucast (access_width_bytes f * 8) - src_index :: u64)"
  have len: "unat len = l"
    using less.prems(3-5) W(1) by (simp add: len_def l_def unat_min unat_sub word_le_nat_alt unat_ucast_len)
  have l: "0 < l" "b + l \<le> 8 * w" "l \<le> k" using less.prems(2,5) by (auto simp: l_def)
  have n: "n = Suc (units w (k - l))"
    using units_first [of w b k] W(4) less.prems(1,2,5) by (simp add: l_def min.commute)
  have w8: "w \<le> 8" by (rule W(5))
  have fit: "unat off + w \<le> length mem" "unat off + w + w * units w (k - l) \<le> length mem"
    using less.prems(8) unfolding n by (simp_all add: algebra_simps)
  obtain v where rd: "ram_access w UACPI_REGION_OP_READ off out mem = Some (UACPI_STATUS_OK, v, mem)"
    and v: "\<And>i. bit v i \<longleftrightarrow> i < 8 * w \<and> bit_of mem (8 * unat off + i)"
    using ram_read [OF fit(1) w8] by blast
  obtain d1 where copy: "bit_copy sp \<lparr>span_data = bytes_of 8 v, span_index = src_index, span_length = len\<rparr> = Some d1"
    and d1: "copied (bytes_of 8 v) b l d di dl d1"
    using bit_copy_spec [of "\<lparr>span_data = bytes_of 8 v, span_index = src_index, span_length = len\<rparr>" sp]
      less.prems(4,6) len l(2) w8 by (auto simp: di_def dl_def d_def)
  define sp' where "sp' = snd (bit_span_offset (sp\<lparr>span_data := d1\<rparr>) len)"
  define off' where "off' = off + ucast (access_width_bytes f)"
  define left' where "left' = (ucast (ucast bits_left - len) :: u32)"
  have step: "read_loop (ram_access w) f n off bits_left src_index sp out mem =
      read_loop (ram_access w) f (units w (k - l)) off' left' 0 sp' v mem"
    by (simp add: n Let_def len_def [symmetric] rd copy sp'_def off'_def left'_def)
  have left': "unat left' = k - l"
  proof -
    have "unat (ucast bits_left - len) = k - l"
      using less.prems(3) len l(3) by (simp add: unat_sub word_le_nat_alt unat_ucast_len)
    then show ?thesis using unsigned_less [of bits_left, where ?'a = nat] less.prems(3)
      by (simp add: left'_def unsigned_ucast_eq take_bit_nat_eq_self)
  qed
  have off': "unat off' = unat off + w"
    using fit(1) less.prems(9) W(3) by (simp add: off'_def unat_word_ariths)
  have sp': "span_data sp' = d1" "unat (span_index sp') = di + min dl l" "unat (span_length sp') = dl - min dl l"
    using less.prems(6,7) len
    by (auto simp: sp'_def bit_span_offset_def Let_def di_def dl_def unat_min unat_sub unat_word_ariths
        word_le_nat_alt min_def)
  have first: "bit_of d1 m \<longleftrightarrow> (if di \<le> m \<and> m < di + dl then m - di < l \<and> bit_of mem (8 * unat off + b + (m - di)) else bit_of d m)"
    for m
    using d1 l(2) w8 by (auto simp: copied_def bytes_of_bits v add.assoc)
  show ?case
  proof (cases "l < k")
    case False
    then have "k = l" using l(3) by simp
    then have "read_loop (ram_access w) f n off bits_left src_index sp out mem = Some (UACPI_STATUS_OK, d1, mem)"
      unfolding step by (simp add: units_zero W(4) sp'(1))
    moreover have "was_read mem (8 * unat off + b) k d di dl d1"
      using first d1 \<open>k = l\<close> by (simp add: was_read_def copied_def)
    ultimately show ?thesis by (auto simp: di_def dl_def d_def)
  next
    case True
    then have e: "8 * w = b + l" unfolding l_def using less.prems(5) by linarith
    have lengths: "length d1 = length d" using d1 by (simp add: copied_def)
    obtain d2 where loop: "read_loop (ram_access w) f (units w (k - l)) off' left' 0 sp' v mem = Some (UACPI_STATUS_OK, d2, mem)"
      and d2: "was_read mem (8 * unat off') (k - l) d1 (di + min dl l) (dl - min dl l) d2"
    proof -
      have "k - l < k" "0 < k - l" using l(1) True by simp_all
      moreover have "unat (span_index sp') + unat (span_length sp') \<le> 8 * length (span_data sp')"
        using less.prems(6) lengths unfolding sp' di_def dl_def d_def by simp
      ultimately show ?thesis
        using less.IH [of "k - l" "units w (k - l)" 0 left' 0 sp' off' v] left' W(4) fit(2) less.prems(7,9) lengths that
        unfolding off' sp' by (auto simp: d_def)
    qed
    have "was_read mem (8 * unat off + b) k d di dl d2"
      unfolding was_read_def
    proof (intro conjI allI)
      show "length d2 = length d" using d2 lengths by (simp add: was_read_def)
      fix m
      have d2m: "bit_of d2 m \<longleftrightarrow>
          (if di + min dl l \<le> m \<and> m < di + dl
           then m - (di + l) < k - l \<and> bit_of mem (8 * unat off + b + l + (m - (di + l))) else bit_of d1 m)"
      proof (cases "l \<le> dl")
        case True
        then have "min dl l = l" "di + l + (dl - l) = di + dl" by simp_all
        moreover have "8 * (unat off + w) = 8 * unat off + b + l" using e by simp
        ultimately show ?thesis using d2 unfolding was_read_def off' by simp
      next
        case False
        then show ?thesis using d2 unfolding was_read_def by auto
      qed
      show "bit_of d2 m \<longleftrightarrow>
          (if di \<le> m \<and> m < di + dl then m - di < k \<and> bit_of mem (8 * unat off + b + (m - di)) else bit_of d m)"
      proof (cases "di + min dl l \<le> m \<and> m < di + dl")
        case True
        then have "di + l \<le> m" by (auto simp: min_def split: if_splits)
        then obtain i where "m = di + l + i" by (auto simp: le_iff_add)
        with True show ?thesis unfolding d2m by (auto simp: add.assoc)
      next
        case False
        then have "bit_of d2 m \<longleftrightarrow> bit_of d1 m" by (subst d2m) (simp only: if_False)
        then show ?thesis using False True first [of m] by (auto simp: min_def split: if_splits)
      qed
    qed
    with step loop show ?thesis by (auto simp: di_def dl_def d_def)
  qed
qed

section \<open>Fields\<close>

definition in_ram :: "field_info \<Rightarrow> u8 list \<Rightarrow> bool" where
  "in_ram f mem \<longleftrightarrow> width_ok f \<and> field_bits f \<noteq> 0 \<and>
     unat (bit_offset_within_first_byte f) < 8 * unat (access_width_bytes f) \<and>
     unat (byte_offset f) + unat (access_width_bytes f) *
       units (unat (access_width_bytes f)) (unat (bit_offset_within_first_byte f) + unat (field_bits f)) \<le> length mem \<and>
     length mem < 2 ^ 28"

definition first_bit :: "field_info \<Rightarrow> nat" where
  "first_bit f = 8 * unat (byte_offset f) + unat (bit_offset_within_first_byte f)"

lemma units_bits: "0 < w \<Longrightarrow> n \<le> 8 * w * units w n"
proof -
  assume "0 < w"
  then have "(8 * w) * ((n + (8 * w - 1)) div (8 * w)) + (n + (8 * w - 1)) mod (8 * w) = n + (8 * w - 1)"
    "(n + (8 * w - 1)) mod (8 * w) < 8 * w" by simp_all
  then show ?thesis unfolding units_def by linarith
qed

lemma in_ram_bits:
  assumes "in_ram f mem"
  shows "unat (bit_offset_within_first_byte f) + unat (field_bits f) < 2 ^ 31"
proof -
  let ?w = "unat (access_width_bytes f)" and ?n = "unat (bit_offset_within_first_byte f) + unat (field_bits f)"
  have w: "0 < ?w" using assms by (simp add: in_ram_def)
  have "?w * units ?w ?n \<le> length mem" "length mem < 2 ^ 28" using assms by (simp_all add: in_ram_def)
  then have "8 * (?w * units ?w ?n) < 2 ^ 31" by simp
  then have "8 * ?w * units ?w ?n < 2 ^ 31" by (simp only: mult.assoc)
  then show ?thesis using units_bits [OF w, of ?n] by linarith
qed

lemma reads_to_do_units:
  assumes "in_ram f mem"
  shows "unat (reads_to_do f) =
    units (unat (access_width_bytes f)) (unat (bit_offset_within_first_byte f) + unat (field_bits f))"
proof -
  define b k where "b = unat (bit_offset_within_first_byte f)" and "k = unat (field_bits f)"
  have wok: "width_ok f" using assms by (simp add: in_ram_def)
  note W = width [OF wok]
  obtain e :: nat where e: "ucast (access_width_bytes f * 8) = (2 ^ e :: u32)" "8 * unat (access_width_bytes f) = 2 ^ e" "e < 7"
  proof -
    from wok consider "access_width_bytes f = 1" | "access_width_bytes f = 2" | "access_width_bytes f = 4" | "access_width_bytes f = 8"
      by (auto simp: width_ok_def)
    then show thesis
      by cases (simp_all add: that [of 3] that [of 4] that [of 5] that [of 6])
  qed
  have less: "b + k < 2 ^ 31" using in_ram_bits [OF assms] by (simp add: b_def k_def)
  define x :: u32 where "x = ucast (bit_offset_within_first_byte f) + field_bits f"
  have x: "unat x = b + k"
    using less unsigned_less [of "bit_offset_within_first_byte f", where ?'a = nat]
    by (simp add: x_def unat_word_ariths unsigned_ucast_eq take_bit_nat_eq_self b_def k_def)
  have pow: "unat (2 ^ e :: u32) = 2 ^ e" using W(2) unfolding e(1,2) .
  then have "(2 ^ e :: u32) \<noteq> 0" by (metis power_not_zero unat_0 zero_neq_numeral)
  then have m: "unat (mask e :: u32) = 2 ^ e - 1" "(2 ^ e :: nat) \<le> 2 ^ 6"
    using pow e(3) power_increasing [of e 6 "2 :: nat"] by (simp_all add: mask_eq_exp_minus_1 unat_minus_one)
  have "reads_to_do f = drop_bit e ((x + mask e) AND NOT (mask e))"
    by (simp add: reads_to_do_def Let_def e(1) x_def mask_eq_exp_minus_1 drop_bit_eq_div)
  also have "\<dots> = drop_bit e (x + mask e)"
    by (rule bit_eqI) (auto simp: bit_simps dest: bit_imp_le_length)
  finally have "unat (reads_to_do f) = (b + k + (2 ^ e - 1)) div 2 ^ e"
    using less m x by (simp add: drop_bit_eq_div unat_div unat_word_ariths pow)
  then show ?thesis by (simp add: units_def e(2) b_def k_def)
qed

lemma width_times:
  assumes "width_ok f"
  shows "unat (access_width_bytes f) \<le> 8" "0 < unat (access_width_bytes f)"
  using width [OF assms] by simp_all

text \<open>The bits a read gives: those of the field in order, then zeroes.\<close>

definition field_read :: "field_info \<Rightarrow> u8 list \<Rightarrow> u8 list \<Rightarrow> nat \<Rightarrow> u8 list \<Rightarrow> bool" where
  "field_read f mem dst sz d' \<longleftrightarrow> was_read mem (first_bit f) (unat (field_bits f)) dst 0 (8 * sz) d'"

lemma byte_length32:
  "unat (ucast (uacpi_round_up_bits_to_bytes (ucast (bl :: u32))) :: u32) = (unat bl + 7) div 8"
  "unat (ucast (ucast (uacpi_round_up_bits_to_bytes (ucast bl)) :: u32) :: u64) = (unat bl + 7) div 8"
proof -
  have "(unat bl + 7) div 8 < 2 ^ 32" using unsigned_less [of bl, where ?'a = nat] by simp
  then show "unat (ucast (uacpi_round_up_bits_to_bytes (ucast bl)) :: u32) = (unat bl + 7) div 8"
    by (simp add: unsigned_ucast_eq round_up take_bit_nat_eq_self)
  then show "unat (ucast (ucast (uacpi_round_up_bits_to_bytes (ucast bl)) :: u32) :: u64) = (unat bl + 7) div 8"
    by (simp add: unat_ucast_len)
qed

lemma read_slow_ram:
  assumes f: "in_ram f mem" and sz: "unat sz \<le> length dst" "length dst < 2 ^ 61"
    and w: "w = unat (access_width_bytes f)"
  shows "\<exists>d'. do_read_misaligned_field_unit (ram_access w) f dst sz out mem = Some (UACPI_STATUS_OK, d', mem) \<and>
    field_read f mem dst (unat sz) d'"
proof -
  define b k where "b = unat (bit_offset_within_first_byte f)" and "k = unat (field_bits f)"
  have wok: "width_ok f" "0 < k" "b < 8 * w" using f by (auto simp: in_ram_def k_def b_def w unat_gt_0)
  have b: "unat (ucast (bit_offset_within_first_byte f) :: u64) = b"
    using unsigned_less [of "bit_offset_within_first_byte f", where ?'a = nat]
    by (simp add: b_def unsigned_ucast_eq take_bit_nat_eq_self)
  have s8: "unat (sz * 8) = 8 * unat sz" using sz by (simp add: unat_word_ariths)
  have "unat (byte_offset f) + w * units w (b + k) \<le> length mem" "length mem < 2 ^ 32"
    using f by (simp_all add: in_ram_def b_def k_def w)
  from read_loop_ram [OF wok(1) w refl wok(2) k_def [symmetric] b wok(3) _ _ this(1,2),
      of "\<lparr>span_data = dst, span_index = 0, span_length = sz * 8\<rparr>" out]
  show ?thesis
    using sz reads_to_do_units [OF f] s8
    by (simp add: do_read_misaligned_field_unit_def field_read_def first_bit_def b_def k_def w)
qed

lemma read_generic_ram:
  assumes f: "in_ram f mem" and sz: "unat sz \<le> length dst" "length dst < 2 ^ 61"
    and w: "w = unat (access_width_bytes f)"
  shows "\<exists>d'. read_generic (ram_access w) f dst sz out mem = Some (UACPI_STATUS_OK, d', mem) \<and>
    field_read f mem dst (unat sz) d'"
proof -
  define fbl where "fbl = (ucast (uacpi_round_up_bits_to_bytes (ucast (field_bits f))) :: u32)"
  define k n where "k = unat (field_bits f)" and "n = (unat (field_bits f) + 7) div 8"
  have fbl: "unat fbl = n" "unat (ucast fbl :: u64) = n" unfolding fbl_def n_def by (rule byte_length32)+
  have wok: "width_ok f" "0 < k" using f by (auto simp: in_ram_def k_def unat_gt_0)
  note W = width [OF wok(1), folded w]
  show ?thesis
  proof (cases "bit_offset_within_first_byte f = 0 \<and> fbl \<le> ucast (access_width_bytes f)")
    case False
    then have "read_generic (ram_access w) f dst sz out mem = do_read_misaligned_field_unit (ram_access w) f dst sz out mem"
      unfolding read_generic_def Let_def fbl_def [symmetric] by (simp only: if_False)
    then show ?thesis using read_slow_ram [OF assms, of out] by simp
  next
    case True
    then have nw: "n \<le> w" using W(3) fbl(1) by (simp add: word_le_nat_alt)
    have "k \<le> 8 * n" "8 * (n - 1) < k" "0 < n" using wok(2) unfolding n_def k_def by linarith+
    obtain v where rd: "ram_access w UACPI_REGION_OP_READ (byte_offset f) out mem = Some (UACPI_STATUS_OK, v, mem)"
      and v: "\<And>i. bit v i \<longleftrightarrow> i < 8 * w \<and> bit_of mem (8 * unat (byte_offset f) + i)"
    proof -
      have "0 < units w (unat (bit_offset_within_first_byte f) + k)"
        using units_first [of w 0 k] True W(4) wok(2) by simp
      then have "w \<le> w * units w (unat (bit_offset_within_first_byte f) + k)" by simp
      moreover have "unat (byte_offset f) + w * units w (unat (bit_offset_within_first_byte f) + k) \<le> length mem"
        using f by (simp add: in_ram_def w k_def)
      ultimately have "unat (byte_offset f) + w \<le> length mem" by linarith
      then show thesis using ram_read W(5) that by blast
    qed
    obtain d1 where copy: "memcpy_zerout_array dst 0 (bytes_of 8 v) (unat sz) n = Some d1" "length d1 = length dst"
      and d1: "\<And>i. i < length dst \<Longrightarrow> d1 ! i = (if i < unat sz then (if i < n then bytes_of 8 v ! i else 0) else dst ! i)"
      using memcpy_zerout_array_bytes [of 0 "unat sz" dst n "bytes_of 8 v"] sz(1) nw W(5) by auto
    have bits: "bit_of d1 m \<longleftrightarrow> (if m < 8 * unat sz then m < 8 * n \<and> bit v m else bit_of dst m)" for m
      using d1 [of "m div 8"] copy(2) sz(1) bytes_of_bits [of 8 v m] nw W(5)
      by (auto simp: bit_of_def div_less_iff_less_mult mult.commute)
    have start: "first_bit f = 8 * unat (byte_offset f)" using True by (simp add: first_bit_def)
    have gen: "read_generic (ram_access w) f dst sz out mem =
        (if sz \<ge> ucast fbl
         then map_option (\<lambda>dst. (UACPI_STATUS_OK, dst, mem)) (cut_misaligned_tail d1 (ucast (fbl - 1)) (field_bits f))
         else Some (UACPI_STATUS_OK, d1, mem))"
      using True by (simp add: read_generic_def Let_def fbl_def [symmetric] rd fbl(1) copy(1))
    show ?thesis
    proof (cases "n \<le> unat sz")
      case False
      then have "8 * unat sz \<le> k" using \<open>8 * (n - 1) < k\<close> by linarith
      then have "field_read f mem dst (unat sz) d1"
        using bits copy(2) False nw unfolding field_read_def was_read_def start k_def by (auto simp: v)
      with False show ?thesis by (auto simp: gen word_le_nat_alt fbl(2))
    next
      case True
      have "fbl \<noteq> 0" using fbl(1) \<open>0 < n\<close> by auto
      then have "unat (ucast (fbl - 1) :: u64) = n - 1" by (simp add: unat_ucast_len unat_minus_one fbl(1))
      then obtain d2 where d2: "cut_misaligned_tail d1 (ucast (fbl - 1)) (field_bits f) = Some d2" "length d2 = length d1"
        "\<And>m. bit_of d2 m \<longleftrightarrow> bit_of d1 m \<and> \<not> (k \<le> m \<and> m < 8 * n)"
        using cut_tail [of "field_bits f" "ucast (fbl - 1)" d1] f True sz(1) copy(2)
        unfolding n_def k_def in_ram_def by auto
      have "field_read f mem dst (unat sz) d2"
        using bits copy(2) d2(2,3) True nw \<open>k \<le> 8 * n\<close> unfolding field_read_def was_read_def start k_def [symmetric]
        by (auto simp: v)
      with True d2(1) show ?thesis by (auto simp: gen word_le_nat_alt fbl(2))
    qed
  qed
qed

section \<open>Properties\<close>

text \<open>The environment of a plain memory region: no lock fails and no field is special.\<close>

definition ram_env :: "(unit, u8 list) field_env" where
  "ram_env =
     \<lparr>acquire_global = Pair UACPI_STATUS_OK, release_global = id, upgrade_to_opregion_lock = Pair UACPI_STATUS_OK,
      release_opregion_lock = id, handle_special = (\<lambda>field buf op s. None),
      dispatch_opregion_io = (\<lambda>field. ram_access (unat (access_width_bytes (field_info_of field))))\<rparr>"

lemma ram_field_access: "access_field_unit ram_env (Normal i ()) = ram_access (unat (access_width_bytes i))"
  by (intro ext) (simp add: ram_env_def)

lemma ram_env_locks:
  "lock_field_unit_transaction ram_env field s = (UACPI_STATUS_OK, s)"
  "unlock_field_unit_transaction ram_env field s = s"
  by (simp_all add: lock_field_unit_transaction_def unlock_field_unit_transaction_def ram_env_def)

lemma ram_env_special: "handle_special ram_env field buf op s = None"
  by (simp add: ram_env_def)

lemma write_ram:
  assumes "in_ram i mem" "update_rule i \<noteq> UPDATE_RULE_INVALID" "unat sz \<le> length src" "length src < 2 ^ 61"
  shows "\<exists>mem'. uacpi_write_field_unit ram_env (Normal i ()) src sz mem = Some (UACPI_STATUS_OK, mem') \<and>
    written (update_rule i) (unat (access_width_bytes i)) src 0 (8 * unat sz) (unat (byte_offset i))
      (unat (bit_offset_within_first_byte i)) (unat (field_bits i)) mem mem'"
proof -
  let ?w = "unat (access_width_bytes i)"
  have b: "unat (ucast (bit_offset_within_first_byte i) :: u64) = unat (bit_offset_within_first_byte i)"
    using unsigned_less [of "bit_offset_within_first_byte i", where ?'a = nat]
    by (simp add: unsigned_ucast_eq take_bit_nat_eq_self)
  have s8: "unat (sz * 8) = 8 * unat sz" using assms(3,4) by (simp add: unat_word_ariths)
  have f: "width_ok i" "unat (bit_offset_within_first_byte i) < 8 * ?w" "0 < unat (field_bits i)"
    "unat (byte_offset i) + ?w * units ?w (unat (bit_offset_within_first_byte i) + unat (field_bits i)) \<le> length mem"
    "length mem < 2 ^ 32"
    using assms(1) by (auto simp: in_ram_def unat_gt_0)
  from write_loop_ram [OF f(1) assms(2) refl refl b f(2) _ _ _ f(4,5), of "\<lparr>span_data = src, span_index = 0, span_length = sz * 8\<rparr>"]
  show ?thesis
    using assms(3,4) f(3) s8
    by (simp add: uacpi_write_field_unit_def write_field_def ram_env_locks ram_env_special ram_field_access
        write_generic_field_unit_def)
qed

lemma read_ram:
  assumes "in_ram i mem" "unat sz \<le> length dst" "length dst < 2 ^ 61"
  shows "\<exists>d'. uacpi_read_field_unit ram_env (Normal i ()) dst sz out mem = Some (UACPI_STATUS_OK, d', mem) \<and>
    field_read i mem dst (unat sz) d'"
  using read_generic_ram [OF assms refl, of out]
  by (auto simp: uacpi_read_field_unit_def read_field_def ram_env_locks ram_env_special ram_field_access)

text \<open>
  C30. A field unit of a memory region, of any length, at any bit offset and with any access width, behaves like the run
  of bits it stands for. Writing returns OK, stores the bits of the source in the field (zeroes when
  the source is shorter), leaves the other bits of the accesses as the update rule says (kept, ones or zeroes) and every
  bit beyond these accesses alone; reading it back returns the bits written, extended with zeroes, and
  changes nothing, whatever the local variable of the read held before.
\<close>
theorem field_unit_exact:
  assumes "in_ram i mem" "update_rule i \<noteq> UPDATE_RULE_INVALID" "unat sz \<le> length src" "length src < 2 ^ 61"
    and "unat dsz \<le> length dst" "length dst < 2 ^ 61"
  shows "\<exists>mem' out. uacpi_write_field_unit ram_env (Normal i ()) src sz mem = Some (UACPI_STATUS_OK, mem') \<and>
    uacpi_read_field_unit ram_env (Normal i ()) dst dsz junk mem' = Some (UACPI_STATUS_OK, out, mem') \<and>
    length mem' = length mem \<and>
    (\<forall>n. let w = unat (access_width_bytes i); off = unat (byte_offset i);
             touched = w * units w (unat (bit_offset_within_first_byte i) + unat (field_bits i)) in
       bit_of mem' n \<longleftrightarrow>
         (if first_bit i \<le> n \<and> n < first_bit i + unat (field_bits i)
          then n - first_bit i < 8 * unat sz \<and> bit_of src (n - first_bit i)
          else if 8 * off \<le> n \<and> n < 8 * (off + touched) then fill_bit (update_rule i) (bit_of mem n)
          else bit_of mem n)) \<and>
    (\<forall>n < 8 * unat dsz. bit_of out n \<longleftrightarrow> n < unat (field_bits i) \<and> n < 8 * unat sz \<and> bit_of src n)"
proof -
  obtain mem' where w: "uacpi_write_field_unit ram_env (Normal i ()) src sz mem = Some (UACPI_STATUS_OK, mem')"
    "written (update_rule i) (unat (access_width_bytes i)) src 0 (8 * unat sz) (unat (byte_offset i))
      (unat (bit_offset_within_first_byte i)) (unat (field_bits i)) mem mem'"
    using write_ram [OF assms(1-4)] by blast
  then have "in_ram i mem'" using assms(1) by (simp add: in_ram_def written_def)
  then obtain out where r: "uacpi_read_field_unit ram_env (Normal i ()) dst dsz junk mem' = Some (UACPI_STATUS_OK, out, mem')"
    "field_read i mem' dst (unat dsz) out"
    using read_ram [OF _ assms(5,6)] by blast
  have "bit_of out n \<longleftrightarrow> n < unat (field_bits i) \<and> n < 8 * unat sz \<and> bit_of src n" if "n < 8 * unat dsz" for n
    using that r(2) w(2) unfolding field_read_def was_read_def written_def first_bit_def by auto
  then show ?thesis
    using w r(1) by (intro exI [of _ mem'] exI [of _ out]) (auto simp: written_def first_bit_def Let_def)
qed

theorem field_unit_exact_witness:
  "\<exists>mem' out. uacpi_write_field_unit ram_env
        (Normal \<lparr>byte_offset = 2, field_bits = 13, bit_offset_within_first_byte = 5, access_width_bytes = 2,
           update_rule = UACPI_UPDATE_RULE_WRITE_AS_ONES, lock_rule = False\<rparr> ()) [0x34, 0x12] 2 (replicate 8 0)
      = Some (UACPI_STATUS_OK, mem') \<and>
     uacpi_read_field_unit ram_env
        (Normal \<lparr>byte_offset = 2, field_bits = 13, bit_offset_within_first_byte = 5, access_width_bytes = 2,
           update_rule = UACPI_UPDATE_RULE_WRITE_AS_ONES, lock_rule = False\<rparr> ()) [0, 0] 2 77 mem'
      = Some (UACPI_STATUS_OK, out, mem') \<and>
     bit_of out 2 \<and> \<not> bit_of out 3 \<and> bit_of mem' 16 \<and> \<not> bit_of mem' 15"
proof -
  let ?i = "\<lparr>byte_offset = 2, field_bits = 13, bit_offset_within_first_byte = 5, access_width_bytes = 2,
     update_rule = UACPI_UPDATE_RULE_WRITE_AS_ONES, lock_rule = False\<rparr>"
  have "in_ram ?i (replicate 8 0)" by (simp add: in_ram_def width_ok_def units_def)
  from field_unit_exact [OF this, of 2 "[0x34, 0x12]" 2 "[0, 0]" 77] obtain mem' out where
    "uacpi_write_field_unit ram_env (Normal ?i ()) [0x34, 0x12] 2 (replicate 8 0) = Some (UACPI_STATUS_OK, mem')"
    "uacpi_read_field_unit ram_env (Normal ?i ()) [0, 0] 2 77 mem' = Some (UACPI_STATUS_OK, out, mem')"
    and mem': "\<forall>n. bit_of mem' n \<longleftrightarrow>
        (if 21 \<le> n \<and> n < 34 then n - 21 < 16 \<and> bit_of [0x34, 0x12] (n - 21)
         else if 16 \<le> n \<and> n < 48 then True else bit_of (replicate 8 0) n)"
    and out: "\<forall>n < 16. bit_of out n \<longleftrightarrow> n < 13 \<and> bit_of [0x34, 0x12] n"
    by (auto simp: first_bit_def units_def Let_def)
  moreover have "bit_of [0x34, 0x12] 2" "\<not> bit_of [0x34, 0x12] 3" "\<not> bit_of (replicate 8 0) 15" by (simp_all add: bit_of_def)
  ultimately show ?thesis using out mem' by auto
qed

end
