(* ===== verification/AcpiGas.thy ===== *)
theory AcpiGas
  imports AcpiOs AcpiField
begin

text \<open>
  Registers described by a generic address structure (\<open>source/io.c\<close>, lines 750 to 1242), over the services of the
  kernel.  The addresses of the local variables the code passes to the kernel are arguments \<open>tmp\<close>.
\<close>

section \<open>Accesses\<close>

definition uacpi_system_memory_read :: "u64 \<Rightarrow> u64 \<Rightarrow> u8 \<Rightarrow> u64 \<Rightarrow> 'a acpi_scheme \<Rightarrow> uacpi_status \<times> u64 \<times> 'a acpi_scheme" where
  "uacpi_system_memory_read base offset width out s =
     (let base = base + offset in
      if width \<in> {1, 2, 4, 8} then (UACPI_STATUS_OK, load (unat width) base (bytes s), s)
      else (UACPI_STATUS_INVALID_ARGUMENT, out, s))"

definition uacpi_system_memory_write :: "u64 \<Rightarrow> u64 \<Rightarrow> u8 \<Rightarrow> u64 \<Rightarrow> 'a acpi_scheme \<Rightarrow> uacpi_status \<times> 'a acpi_scheme" where
  "uacpi_system_memory_write base offset width inp s =
     (let base = base + offset in
      if width \<in> {1, 2, 4, 8} then (UACPI_STATUS_OK, poke (unat width) base inp s)
      else (UACPI_STATUS_INVALID_ARGUMENT, s))"

definition uacpi_system_io_read ::
  "u64 \<Rightarrow> u64 \<Rightarrow> u64 \<Rightarrow> u8 \<Rightarrow> u64 \<Rightarrow> 'a acpi_scheme \<Rightarrow> uacpi_status \<times> u64 \<times> 'a acpi_scheme" where
  "uacpi_system_io_read tmp handle offset width out s =
     (let s = poke 8 tmp 0 s in
      if width \<in> {1, 2, 4}
      then
        (let (ret, s) = (if width = 1 then uacpi_kernel_io_read8 handle offset tmp s
                         else if width = 2 then uacpi_kernel_io_read16 handle offset tmp s
                         else uacpi_kernel_io_read32 handle offset tmp s)
         in (ret, if ret = UACPI_STATUS_OK then load 8 tmp (bytes s) else out, s))
      else (UACPI_STATUS_INVALID_ARGUMENT, out, s))"

definition uacpi_system_io_write :: "u64 \<Rightarrow> u64 \<Rightarrow> u8 \<Rightarrow> u64 \<Rightarrow> 'a acpi_scheme \<Rightarrow> uacpi_status \<times> 'a acpi_scheme" where
  "uacpi_system_io_write handle offset width inp s =
     (if width = 1 then uacpi_kernel_io_write8 handle offset (ucast inp) s
      else if width = 2 then uacpi_kernel_io_write16 handle offset (ucast inp) s
      else if width = 4 then uacpi_kernel_io_write32 handle offset (ucast inp) s
      else (UACPI_STATUS_INVALID_ARGUMENT, s))"

definition uacpi_pci_read ::
  "u64 \<Rightarrow> u64 \<Rightarrow> u64 \<Rightarrow> u8 \<Rightarrow> u64 \<Rightarrow> 'a acpi_scheme \<Rightarrow> uacpi_status \<times> u64 \<times> 'a acpi_scheme" where
  "uacpi_pci_read tmp handle offset width out s =
     (let s = poke 8 tmp 0 s in
      if width \<in> {1, 2, 4}
      then
        (let (ret, s) = (if width = 1 then uacpi_kernel_pci_read8 handle offset tmp s
                         else if width = 2 then uacpi_kernel_pci_read16 handle offset tmp s
                         else uacpi_kernel_pci_read32 handle offset tmp s)
         in (ret, if ret = UACPI_STATUS_OK then load 8 tmp (bytes s) else out, s))
      else (UACPI_STATUS_INVALID_ARGUMENT, out, s))"

definition uacpi_pci_write :: "u64 \<Rightarrow> u64 \<Rightarrow> u8 \<Rightarrow> u64 \<Rightarrow> 'a acpi_scheme \<Rightarrow> uacpi_status \<times> 'a acpi_scheme" where
  "uacpi_pci_write handle offset width inp s =
     (if width = 1 then uacpi_kernel_pci_write8 handle offset (ucast inp) s
      else if width = 2 then uacpi_kernel_pci_write16 handle offset (ucast inp) s
      else if width = 4 then uacpi_kernel_pci_write32 handle offset (ucast inp) s
      else (UACPI_STATUS_INVALID_ARGUMENT, s))"

section \<open>The access width\<close>

record acpi_gas =
  address_space_id :: u8
  register_bit_width :: u8
  register_bit_offset :: u8
  access_size :: u8
  gas_address :: u64

definition UACPI_ADDRESS_SPACE_SYSTEM_MEMORY :: u8 where
  "UACPI_ADDRESS_SPACE_SYSTEM_MEMORY = 0"

definition UACPI_ADDRESS_SPACE_SYSTEM_IO :: u8 where
  "UACPI_ADDRESS_SPACE_SYSTEM_IO = 1"

text \<open>
  \<open>UACPI_IS_ALIGNED\<close> and \<open>UACPI_IS_POWER_OF_TWO\<close>: the mask is one less than the second argument.
\<close>

definition is_aligned8 :: "u8 \<Rightarrow> u8 \<Rightarrow> bool" where
  "is_aligned8 x v \<longleftrightarrow> x AND (v - 1) = 0"

text \<open>\<open>while (!aligned(address, access_bit_width / 8)) access_bit_width /= 2;\<close>: at most seven rounds, then the width is 1.\<close>

fun back_off :: "nat \<Rightarrow> u64 \<Rightarrow> u8 \<Rightarrow> u8" where
  "back_off 0 addr width = width"
| "back_off (Suc n) addr width =
     (if addr AND (ucast (width div 8) - 1) \<noteq> 0 then back_off n addr (width div 2) else width)"

definition gas_get_access_bit_width :: "acpi_gas \<Rightarrow> u8" where
  "gas_get_access_bit_width gas =
     (let access_bit_width =
        (if register_bit_offset gas = 0 \<and> is_aligned8 (register_bit_width gas) (register_bit_width gas)
            \<and> is_aligned8 (register_bit_width gas) 8
         then register_bit_width gas
         else if access_size gas \<noteq> 0 then access_size gas * 8
         else
           (let msb = uacpi_bit_scan_backward ((ucast (register_bit_offset gas) + ucast (register_bit_width gas)) - 1);
                width = push_bit (unat msb) 1
            in if width \<le> 8 then 8 else back_off 8 (gas_address gas) width))
      in min access_bit_width (if address_space_id gas = UACPI_ADDRESS_SPACE_SYSTEM_IO then 32 else 64))"

text \<open>The result is the status, and the two widths the code stores, if it does.\<close>

definition gas_validate :: "acpi_gas \<Rightarrow> uacpi_status \<times> (u8 \<times> u8)" where
  "gas_validate gas =
     (if gas_address gas = 0 then (UACPI_STATUS_NOT_FOUND, (0, 0))
      else if address_space_id gas \<noteq> UACPI_ADDRESS_SPACE_SYSTEM_IO
          \<and> address_space_id gas \<noteq> UACPI_ADDRESS_SPACE_SYSTEM_MEMORY
      then (UACPI_STATUS_UNIMPLEMENTED, (0, 0))
      else if access_size gas > 4 then (UACPI_STATUS_UNIMPLEMENTED, (0, 0))
      else
        (let access_bit_width = gas_get_access_bit_width gas;
             total_width = ucast (register_bit_offset gas) + ucast (register_bit_width gas) :: u64;
             m = ucast access_bit_width - 1;
             aligned_width = (total_width + m) AND NOT m
         in if aligned_width > 64 then (UACPI_STATUS_UNIMPLEMENTED, (access_bit_width, 0))
            else (UACPI_STATUS_OK, (access_bit_width, ucast total_width))))"

section \<open>Mapped registers\<close>

datatype gas_space = In_Memory | In_IO

record uacpi_mapped_gas =
  gas_mapping :: u64
  access_bit_width :: u8
  total_bit_width :: u8
  gas_bit_offset :: u8
  gas_space :: gas_space

definition gas_mask :: "u8 \<Rightarrow> u64" where
  "gas_mask width = (if width div 8 < 8 then NOT (push_bit (unat width) (NOT 0)) else NOT 0)"

text \<open>\<open>while (bits_left)\<close>; \<open>rd\<close> stands for the pointer \<open>read\<close> with the mapping as its argument.\<close>

partial_function (option) gas_read_loop ::
  "(u64 \<Rightarrow> u8 \<Rightarrow> u64 \<Rightarrow> 's \<Rightarrow> uacpi_status \<times> u64 \<times> 's) \<Rightarrow> u8 \<Rightarrow> u8 \<Rightarrow> u8 \<Rightarrow> nat \<Rightarrow> u64 \<Rightarrow> u64 \<Rightarrow> u64 \<Rightarrow> 's \<Rightarrow>
   (uacpi_status \<times> u64 \<times> 's) option" where
  "gas_read_loop rd width bit_offset bits_left idx offset dat out s =
     (if bits_left = 0 then Some (UACPI_STATUS_OK, out, s)
      else
        (let (ret, dat, s) =
           (if bit_offset \<ge> width then (UACPI_STATUS_OK, 0, s) else rd offset (width div 8) dat s) in
         if ret \<noteq> UACPI_STATUS_OK then Some (ret, out, s)
         else
           gas_read_loop rd width (if bit_offset \<ge> width then bit_offset - width else bit_offset)
             (bits_left - min bits_left width) (idx + 1) (offset + ucast (width div 8)) dat
             (out OR push_bit (idx * unat width) (dat AND gas_mask width)) s))"

partial_function (option) gas_write_loop ::
  "(u64 \<Rightarrow> u8 \<Rightarrow> u64 \<Rightarrow> 's \<Rightarrow> uacpi_status \<times> 's) \<Rightarrow> u8 \<Rightarrow> u8 \<Rightarrow> u8 \<Rightarrow> nat \<Rightarrow> u64 \<Rightarrow> u64 \<Rightarrow> 's \<Rightarrow> (uacpi_status \<times> 's) option" where
  "gas_write_loop wr width bit_offset bits_left idx offset in_value s =
     (if bits_left = 0 then Some (UACPI_STATUS_OK, s)
      else
        (let dat = drop_bit (idx * unat width) in_value AND gas_mask width;
             (ret, s) = (if bit_offset \<ge> width then (UACPI_STATUS_OK, s) else wr offset (width div 8) dat s) in
         if ret \<noteq> UACPI_STATUS_OK then Some (ret, s)
         else
           gas_write_loop wr width (if bit_offset \<ge> width then bit_offset - width else bit_offset)
             (bits_left - min bits_left width) (idx + 1) (offset + ucast (width div 8)) in_value s))"

definition gas_read :: "u64 \<Rightarrow> uacpi_mapped_gas \<Rightarrow> u64 \<Rightarrow> u8 \<Rightarrow> u64 \<Rightarrow> 'a acpi_scheme \<Rightarrow> uacpi_status \<times> u64 \<times> 'a acpi_scheme" where
  "gas_read tmp gas =
     (case gas_space gas of
        In_Memory \<Rightarrow> uacpi_system_memory_read (gas_mapping gas)
      | In_IO \<Rightarrow> uacpi_system_io_read tmp (gas_mapping gas))"

definition gas_write :: "uacpi_mapped_gas \<Rightarrow> u64 \<Rightarrow> u8 \<Rightarrow> u64 \<Rightarrow> 'a acpi_scheme \<Rightarrow> uacpi_status \<times> 'a acpi_scheme" where
  "gas_write gas =
     (case gas_space gas of
        In_Memory \<Rightarrow> uacpi_system_memory_write (gas_mapping gas)
      | In_IO \<Rightarrow> uacpi_system_io_write (gas_mapping gas))"

text \<open>\<open>dat\<close> is the local \<open>data\<close>, which the code does not set before the first access.\<close>

definition uacpi_gas_read_mapped :: "u64 \<Rightarrow> uacpi_mapped_gas \<Rightarrow> u64 \<Rightarrow> 'a acpi_scheme \<Rightarrow> (uacpi_status \<times> u64 \<times> 'a acpi_scheme) option" where
  "uacpi_gas_read_mapped tmp gas dat s =
     gas_read_loop (gas_read tmp gas) (access_bit_width gas) (gas_bit_offset gas) (total_bit_width gas) 0 0 dat 0 s"

definition uacpi_gas_write_mapped :: "uacpi_mapped_gas \<Rightarrow> u64 \<Rightarrow> 'a acpi_scheme \<Rightarrow> (uacpi_status \<times> 'a acpi_scheme) option" where
  "uacpi_gas_write_mapped gas in_value s =
     gas_write_loop (gas_write gas) (access_bit_width gas) (gas_bit_offset gas) (total_bit_width gas) 0 0 in_value s"

definition uacpi_map_gas_noalloc ::
  "u64 \<Rightarrow> acpi_gas \<Rightarrow> uacpi_mapped_gas \<Rightarrow> 'a acpi_scheme \<Rightarrow> (uacpi_status \<times> uacpi_mapped_gas \<times> 'a acpi_scheme) option" where
  "uacpi_map_gas_noalloc tmp gas out_mapped s =
     (let (ret, (width, total_width)) = gas_validate gas in
      if ret \<noteq> UACPI_STATUS_OK then Some (ret, out_mapped, s)
      else
        (let fill = (\<lambda>m. m\<lparr>access_bit_width := width, total_bit_width := total_width,
                           gas_bit_offset := register_bit_offset gas\<rparr>) in
         if address_space_id gas = UACPI_ADDRESS_SPACE_SYSTEM_MEMORY
         then
           (let (virt, s) = uacpi_kernel_map (gas_address gas) (ucast (total_width div 8)) s;
                m = out_mapped\<lparr>gas_mapping := virt\<rparr> in
            if virt = UACPI_MAP_FAILED then Some (UACPI_STATUS_MAPPING_FAILED, m, s)
            else Some (UACPI_STATUS_OK, fill (m\<lparr>gas_space := In_Memory\<rparr>), s))
         else
           Option.bind (uacpi_kernel_io_map (gas_address gas) (ucast (total_width div 8)) tmp s) (\<lambda>(ret, s).
             if ret \<noteq> UACPI_STATUS_OK then Some (ret, out_mapped, s)
             else Some (UACPI_STATUS_OK, fill (out_mapped\<lparr>gas_mapping := load 8 tmp (bytes s), gas_space := In_IO\<rparr>), s))))"

definition uacpi_unmap_gas_nofree :: "uacpi_mapped_gas \<Rightarrow> 'a acpi_scheme \<Rightarrow> 'a acpi_scheme option" where
  "uacpi_unmap_gas_nofree gas s =
     (case gas_space gas of
        In_Memory \<Rightarrow> Some (uacpi_kernel_unmap (gas_mapping gas) (ucast (access_bit_width gas div 8)) s)
      | In_IO \<Rightarrow> uacpi_kernel_io_unmap (gas_mapping gas) s)"

text \<open>The local \<open>mapping\<close> is not set before the call.\<close>

definition uacpi_gas_read ::
  "u64 \<Rightarrow> u64 \<Rightarrow> acpi_gas \<Rightarrow> uacpi_mapped_gas \<Rightarrow> u64 \<Rightarrow> 'a acpi_scheme \<Rightarrow> (uacpi_status \<times> u64 \<times> 'a acpi_scheme) option" where
  "uacpi_gas_read tmp dat gas mapping out s =
     Option.bind (uacpi_map_gas_noalloc tmp gas mapping s) (\<lambda>(ret, mapping, s).
       if ret \<noteq> UACPI_STATUS_OK then Some (ret, out, s)
       else
         Option.bind (uacpi_gas_read_mapped tmp mapping dat s) (\<lambda>(ret, out, s).
           map_option (\<lambda>s. (ret, out, s)) (uacpi_unmap_gas_nofree mapping s)))"

definition uacpi_gas_write ::
  "u64 \<Rightarrow> acpi_gas \<Rightarrow> uacpi_mapped_gas \<Rightarrow> u64 \<Rightarrow> 'a acpi_scheme \<Rightarrow> (uacpi_status \<times> 'a acpi_scheme) option" where
  "uacpi_gas_write tmp gas mapping in_value s =
     Option.bind (uacpi_map_gas_noalloc tmp gas mapping s) (\<lambda>(ret, mapping, s).
       if ret \<noteq> UACPI_STATUS_OK then Some (ret, s)
       else
         Option.bind (uacpi_gas_write_mapped mapping in_value s) (\<lambda>(ret, s).
           map_option (\<lambda>s. (ret, s)) (uacpi_unmap_gas_nofree mapping s)))"

end
