(* ===== verification/AcpiRegisters.thy ===== *)
theory AcpiRegisters
  imports AcpiGas
begin

text \<open>
  The fixed registers of the ACPI hardware (\<open>source/registers.c\<close>): a table of registers, each of up to two
  blocks described by generic address structures of the FADT, mapped on first use, and a table of the bit
  fields in them.  The state is the kernel's, extended by the mappings; the addresses \<open>tmp\<close> and values
  \<open>dat\<close> of locals are those of the accesses in \<open>AcpiGas\<close>.
\<close>

section \<open>Masks and indices\<close>

definition ACPI_PM1_STS_TMR_STS_MASK :: u64 where
  "ACPI_PM1_STS_TMR_STS_MASK = push_bit 0 1"

definition ACPI_PM1_STS_BM_STS_MASK :: u64 where
  "ACPI_PM1_STS_BM_STS_MASK = push_bit 4 1"

definition ACPI_PM1_STS_GBL_STS_MASK :: u64 where
  "ACPI_PM1_STS_GBL_STS_MASK = push_bit 5 1"

definition ACPI_PM1_STS_PWRBTN_STS_MASK :: u64 where
  "ACPI_PM1_STS_PWRBTN_STS_MASK = push_bit 8 1"

definition ACPI_PM1_STS_SLPBTN_STS_MASK :: u64 where
  "ACPI_PM1_STS_SLPBTN_STS_MASK = push_bit 9 1"

definition ACPI_PM1_STS_RTC_STS_MASK :: u64 where
  "ACPI_PM1_STS_RTC_STS_MASK = push_bit 10 1"

definition ACPI_PM1_STS_IGN0_MASK :: u64 where
  "ACPI_PM1_STS_IGN0_MASK = push_bit 11 1"

definition ACPI_PM1_STS_PCIEXP_WAKE_STS_MASK :: u64 where
  "ACPI_PM1_STS_PCIEXP_WAKE_STS_MASK = push_bit 14 1"

definition ACPI_PM1_STS_WAKE_STS_MASK :: u64 where
  "ACPI_PM1_STS_WAKE_STS_MASK = push_bit 15 1"

definition ACPI_PM1_STS_CLEAR :: u64 where
  "ACPI_PM1_STS_CLEAR = 1"

definition ACPI_PM1_EN_TMR_EN_MASK :: u64 where
  "ACPI_PM1_EN_TMR_EN_MASK = push_bit 0 1"

definition ACPI_PM1_EN_GBL_EN_MASK :: u64 where
  "ACPI_PM1_EN_GBL_EN_MASK = push_bit 5 1"

definition ACPI_PM1_EN_PWRBTN_EN_MASK :: u64 where
  "ACPI_PM1_EN_PWRBTN_EN_MASK = push_bit 8 1"

definition ACPI_PM1_EN_SLPBTN_EN_MASK :: u64 where
  "ACPI_PM1_EN_SLPBTN_EN_MASK = push_bit 9 1"

definition ACPI_PM1_EN_RTC_EN_MASK :: u64 where
  "ACPI_PM1_EN_RTC_EN_MASK = push_bit 10 1"

definition ACPI_PM1_EN_PCIEXP_WAKE_DIS_MASK :: u64 where
  "ACPI_PM1_EN_PCIEXP_WAKE_DIS_MASK = push_bit 14 1"

definition ACPI_PM1_CNT_SCI_EN_MASK :: u64 where
  "ACPI_PM1_CNT_SCI_EN_MASK = push_bit 0 1"

definition ACPI_PM1_CNT_BM_RLD_MASK :: u64 where
  "ACPI_PM1_CNT_BM_RLD_MASK = push_bit 1 1"

definition ACPI_PM1_CNT_GBL_RLS_MASK :: u64 where
  "ACPI_PM1_CNT_GBL_RLS_MASK = push_bit 2 1"

definition ACPI_PM1_CNT_SLP_TYP_MASK :: u64 where
  "ACPI_PM1_CNT_SLP_TYP_MASK = push_bit 10 7"

definition ACPI_PM1_CNT_SLP_EN_MASK :: u64 where
  "ACPI_PM1_CNT_SLP_EN_MASK = push_bit 13 1"

definition ACPI_PM1_CNT_PRESERVE_MASK :: u64 where
  "ACPI_PM1_CNT_PRESERVE_MASK = push_bit 3 1 OR push_bit 4 1 OR push_bit 5 1 OR push_bit 6 1 OR push_bit 7 1 OR push_bit 8 1 OR push_bit 9 1 OR push_bit 14 1 OR push_bit 15 1"

definition ACPI_PM2_CNT_ARB_DIS_MASK :: u64 where
  "ACPI_PM2_CNT_ARB_DIS_MASK = push_bit 0 1"

definition ACPI_PM2_CNT_PRESERVE_MASK :: u64 where
  "ACPI_PM2_CNT_PRESERVE_MASK = NOT ACPI_PM2_CNT_ARB_DIS_MASK"

definition ACPI_SLP_CNT_SLP_TYP_MASK :: u64 where
  "ACPI_SLP_CNT_SLP_TYP_MASK = push_bit 2 7"

definition ACPI_SLP_CNT_SLP_EN_MASK :: u64 where
  "ACPI_SLP_CNT_SLP_EN_MASK = push_bit 5 1"

definition ACPI_SLP_CNT_PRESERVE_MASK :: u64 where
  "ACPI_SLP_CNT_PRESERVE_MASK = push_bit 0 1 OR push_bit 1 1 OR push_bit 6 1 OR push_bit 7 1"

definition ACPI_SLP_STS_WAK_STS_MASK :: u64 where
  "ACPI_SLP_STS_WAK_STS_MASK = push_bit 7 1"

definition ACPI_SLP_STS_PRESERVE_MASK :: u64 where
  "ACPI_SLP_STS_PRESERVE_MASK = NOT ACPI_SLP_STS_WAK_STS_MASK"

definition UACPI_REGISTER_PM1_STS :: u8 where "UACPI_REGISTER_PM1_STS = 0"
definition UACPI_REGISTER_PM1_EN :: u8 where "UACPI_REGISTER_PM1_EN = 1"
definition UACPI_REGISTER_PM1_CNT :: u8 where "UACPI_REGISTER_PM1_CNT = 2"
definition UACPI_REGISTER_PM_TMR :: u8 where "UACPI_REGISTER_PM_TMR = 3"
definition UACPI_REGISTER_PM2_CNT :: u8 where "UACPI_REGISTER_PM2_CNT = 4"
definition UACPI_REGISTER_SLP_CNT :: u8 where "UACPI_REGISTER_SLP_CNT = 5"
definition UACPI_REGISTER_SLP_STS :: u8 where "UACPI_REGISTER_SLP_STS = 6"
definition UACPI_REGISTER_RESET :: u8 where "UACPI_REGISTER_RESET = 7"
definition UACPI_REGISTER_SMI_CMD :: u8 where "UACPI_REGISTER_SMI_CMD = 8"
definition UACPI_REGISTER_FIELD_TMR_STS :: u8 where "UACPI_REGISTER_FIELD_TMR_STS = 0"
definition UACPI_REGISTER_FIELD_BM_STS :: u8 where "UACPI_REGISTER_FIELD_BM_STS = 1"
definition UACPI_REGISTER_FIELD_GBL_STS :: u8 where "UACPI_REGISTER_FIELD_GBL_STS = 2"
definition UACPI_REGISTER_FIELD_PWRBTN_STS :: u8 where "UACPI_REGISTER_FIELD_PWRBTN_STS = 3"
definition UACPI_REGISTER_FIELD_SLPBTN_STS :: u8 where "UACPI_REGISTER_FIELD_SLPBTN_STS = 4"
definition UACPI_REGISTER_FIELD_RTC_STS :: u8 where "UACPI_REGISTER_FIELD_RTC_STS = 5"
definition UACPI_REGISTER_FIELD_PCIEX_WAKE_STS :: u8 where "UACPI_REGISTER_FIELD_PCIEX_WAKE_STS = 6"
definition UACPI_REGISTER_FIELD_HWR_WAK_STS :: u8 where "UACPI_REGISTER_FIELD_HWR_WAK_STS = 7"
definition UACPI_REGISTER_FIELD_WAK_STS :: u8 where "UACPI_REGISTER_FIELD_WAK_STS = 8"
definition UACPI_REGISTER_FIELD_TMR_EN :: u8 where "UACPI_REGISTER_FIELD_TMR_EN = 9"
definition UACPI_REGISTER_FIELD_GBL_EN :: u8 where "UACPI_REGISTER_FIELD_GBL_EN = 10"
definition UACPI_REGISTER_FIELD_PWRBTN_EN :: u8 where "UACPI_REGISTER_FIELD_PWRBTN_EN = 11"
definition UACPI_REGISTER_FIELD_SLPBTN_EN :: u8 where "UACPI_REGISTER_FIELD_SLPBTN_EN = 12"
definition UACPI_REGISTER_FIELD_RTC_EN :: u8 where "UACPI_REGISTER_FIELD_RTC_EN = 13"
definition UACPI_REGISTER_FIELD_PCIEXP_WAKE_DIS :: u8 where "UACPI_REGISTER_FIELD_PCIEXP_WAKE_DIS = 14"
definition UACPI_REGISTER_FIELD_SCI_EN :: u8 where "UACPI_REGISTER_FIELD_SCI_EN = 15"
definition UACPI_REGISTER_FIELD_BM_RLD :: u8 where "UACPI_REGISTER_FIELD_BM_RLD = 16"
definition UACPI_REGISTER_FIELD_GBL_RLS :: u8 where "UACPI_REGISTER_FIELD_GBL_RLS = 17"
definition UACPI_REGISTER_FIELD_SLP_TYP :: u8 where "UACPI_REGISTER_FIELD_SLP_TYP = 18"
definition UACPI_REGISTER_FIELD_HWR_SLP_TYP :: u8 where "UACPI_REGISTER_FIELD_HWR_SLP_TYP = 19"
definition UACPI_REGISTER_FIELD_SLP_EN :: u8 where "UACPI_REGISTER_FIELD_SLP_EN = 20"
definition UACPI_REGISTER_FIELD_HWR_SLP_EN :: u8 where "UACPI_REGISTER_FIELD_HWR_SLP_EN = 21"
definition UACPI_REGISTER_FIELD_ARB_DIS :: u8 where "UACPI_REGISTER_FIELD_ARB_DIS = 22"

definition UACPI_REGISTER_MAX :: u8 where
  "UACPI_REGISTER_MAX = UACPI_REGISTER_SMI_CMD"

definition UACPI_REGISTER_FIELD_MAX :: u8 where
  "UACPI_REGISTER_FIELD_MAX = UACPI_REGISTER_FIELD_ARB_DIS"

lemmas register_consts =
  ACPI_PM1_STS_TMR_STS_MASK_def ACPI_PM1_STS_BM_STS_MASK_def ACPI_PM1_STS_GBL_STS_MASK_def
  ACPI_PM1_STS_PWRBTN_STS_MASK_def ACPI_PM1_STS_SLPBTN_STS_MASK_def ACPI_PM1_STS_RTC_STS_MASK_def
  ACPI_PM1_STS_IGN0_MASK_def ACPI_PM1_STS_PCIEXP_WAKE_STS_MASK_def ACPI_PM1_STS_WAKE_STS_MASK_def
  ACPI_PM1_STS_CLEAR_def ACPI_PM1_EN_TMR_EN_MASK_def ACPI_PM1_EN_GBL_EN_MASK_def
  ACPI_PM1_EN_PWRBTN_EN_MASK_def ACPI_PM1_EN_SLPBTN_EN_MASK_def ACPI_PM1_EN_RTC_EN_MASK_def
  ACPI_PM1_EN_PCIEXP_WAKE_DIS_MASK_def ACPI_PM1_CNT_SCI_EN_MASK_def ACPI_PM1_CNT_BM_RLD_MASK_def
  ACPI_PM1_CNT_GBL_RLS_MASK_def ACPI_PM1_CNT_SLP_TYP_MASK_def ACPI_PM1_CNT_SLP_EN_MASK_def
  ACPI_PM1_CNT_PRESERVE_MASK_def ACPI_PM2_CNT_ARB_DIS_MASK_def ACPI_PM2_CNT_PRESERVE_MASK_def
  ACPI_SLP_CNT_SLP_TYP_MASK_def ACPI_SLP_CNT_SLP_EN_MASK_def ACPI_SLP_CNT_PRESERVE_MASK_def
  ACPI_SLP_STS_WAK_STS_MASK_def ACPI_SLP_STS_PRESERVE_MASK_def UACPI_REGISTER_PM1_STS_def
  UACPI_REGISTER_PM1_EN_def UACPI_REGISTER_PM1_CNT_def UACPI_REGISTER_PM_TMR_def
  UACPI_REGISTER_PM2_CNT_def UACPI_REGISTER_SLP_CNT_def UACPI_REGISTER_SLP_STS_def
  UACPI_REGISTER_RESET_def UACPI_REGISTER_SMI_CMD_def UACPI_REGISTER_FIELD_TMR_STS_def
  UACPI_REGISTER_FIELD_BM_STS_def UACPI_REGISTER_FIELD_GBL_STS_def UACPI_REGISTER_FIELD_PWRBTN_STS_def
  UACPI_REGISTER_FIELD_SLPBTN_STS_def UACPI_REGISTER_FIELD_RTC_STS_def UACPI_REGISTER_FIELD_PCIEX_WAKE_STS_def
  UACPI_REGISTER_FIELD_HWR_WAK_STS_def UACPI_REGISTER_FIELD_WAK_STS_def UACPI_REGISTER_FIELD_TMR_EN_def
  UACPI_REGISTER_FIELD_GBL_EN_def UACPI_REGISTER_FIELD_PWRBTN_EN_def UACPI_REGISTER_FIELD_SLPBTN_EN_def
  UACPI_REGISTER_FIELD_RTC_EN_def UACPI_REGISTER_FIELD_PCIEXP_WAKE_DIS_def UACPI_REGISTER_FIELD_SCI_EN_def
  UACPI_REGISTER_FIELD_BM_RLD_def UACPI_REGISTER_FIELD_GBL_RLS_def UACPI_REGISTER_FIELD_SLP_TYP_def
  UACPI_REGISTER_FIELD_HWR_SLP_TYP_def UACPI_REGISTER_FIELD_SLP_EN_def UACPI_REGISTER_FIELD_HWR_SLP_EN_def
  UACPI_REGISTER_FIELD_ARB_DIS_def
  UACPI_REGISTER_MAX_def UACPI_REGISTER_FIELD_MAX_def

section \<open>The tables\<close>

text \<open>The parts of the runtime context the registers are found in.\<close>

record fadt_regs =
  pm1a_status_blk :: acpi_gas
  pm1b_status_blk :: acpi_gas
  pm1a_enable_blk :: acpi_gas
  pm1b_enable_blk :: acpi_gas
  x_pm1a_cnt_blk :: acpi_gas
  x_pm1b_cnt_blk :: acpi_gas
  x_pm_tmr_blk :: acpi_gas
  x_pm2_cnt_blk :: acpi_gas
  sleep_control_reg :: acpi_gas
  sleep_status_reg :: acpi_gas
  reset_reg :: acpi_gas
  smi_cmd :: u32

datatype register_kind = REGISTER_KIND_GAS | REGISTER_KIND_IO

datatype register_access_kind =
    REGISTER_ACCESS_KIND_PRESERVE
  | REGISTER_ACCESS_KIND_WRITE_TO_CLEAR
  | REGISTER_ACCESS_KIND_NORMAL

text \<open>The values of the two enumerations, which are stored as bytes.\<close>

primrec kind_value :: "register_kind \<Rightarrow> u8" where
  "kind_value REGISTER_KIND_GAS = 0"
| "kind_value REGISTER_KIND_IO = 1"

primrec access_kind_value :: "register_access_kind \<Rightarrow> u8" where
  "access_kind_value REGISTER_ACCESS_KIND_PRESERVE = 0"
| "access_kind_value REGISTER_ACCESS_KIND_WRITE_TO_CLEAR = 1"
| "access_kind_value REGISTER_ACCESS_KIND_NORMAL = 2"

text \<open>An element of \<open>accessors\<close>: NULL, or the address of a part of the context.\<close>

datatype accessor = No_Accessor | Gas_Accessor "fadt_regs \<Rightarrow> acpi_gas" | Port_Accessor "fadt_regs \<Rightarrow> u32"

record register_spec =
  reg_kind :: u8
  access_kind :: u8
  access_width :: u8
  accessor0 :: accessor
  accessor1 :: accessor
  write_only_mask :: u64
  preserve_mask :: u64

definition gas_register :: "register_access_kind \<Rightarrow> accessor \<Rightarrow> accessor \<Rightarrow> u64 \<Rightarrow> u64 \<Rightarrow> register_spec" where
  "gas_register k a b write_only preserve =
     \<lparr>reg_kind = kind_value REGISTER_KIND_GAS, access_kind = access_kind_value k, access_width = 0,
      accessor0 = a, accessor1 = b, write_only_mask = write_only, preserve_mask = preserve\<rparr>"

definition g_registers :: "register_spec list" where
  "g_registers =
     [gas_register REGISTER_ACCESS_KIND_WRITE_TO_CLEAR (Gas_Accessor pm1a_status_blk) (Gas_Accessor pm1b_status_blk)
        0 ACPI_PM1_STS_IGN0_MASK,
      gas_register REGISTER_ACCESS_KIND_PRESERVE (Gas_Accessor pm1a_enable_blk) (Gas_Accessor pm1b_enable_blk) 0 0,
      gas_register REGISTER_ACCESS_KIND_PRESERVE (Gas_Accessor x_pm1a_cnt_blk) (Gas_Accessor x_pm1b_cnt_blk)
        (ACPI_PM1_CNT_SLP_EN_MASK OR ACPI_PM1_CNT_GBL_RLS_MASK) ACPI_PM1_CNT_PRESERVE_MASK,
      gas_register REGISTER_ACCESS_KIND_PRESERVE (Gas_Accessor x_pm_tmr_blk) No_Accessor 0 0,
      gas_register REGISTER_ACCESS_KIND_PRESERVE (Gas_Accessor x_pm2_cnt_blk) No_Accessor 0 ACPI_PM2_CNT_PRESERVE_MASK,
      gas_register REGISTER_ACCESS_KIND_PRESERVE (Gas_Accessor sleep_control_reg) No_Accessor
        ACPI_SLP_CNT_SLP_EN_MASK ACPI_SLP_CNT_PRESERVE_MASK,
      gas_register REGISTER_ACCESS_KIND_WRITE_TO_CLEAR (Gas_Accessor sleep_status_reg) No_Accessor
        0 ACPI_SLP_STS_PRESERVE_MASK,
      gas_register REGISTER_ACCESS_KIND_NORMAL (Gas_Accessor reset_reg) No_Accessor 0 0,
      \<lparr>reg_kind = kind_value REGISTER_KIND_IO, access_kind = access_kind_value REGISTER_ACCESS_KIND_NORMAL,
       access_width = 1, accessor0 = Port_Accessor smi_cmd, accessor1 = No_Accessor,
       write_only_mask = 0, preserve_mask = 0\<rparr>]"

record register_field =
  reg :: u8
  field_offset :: nat
  field_mask :: u64

definition g_fields :: "register_field list" where
  "g_fields =
     [\<lparr>reg = UACPI_REGISTER_PM1_STS, field_offset = 0, field_mask = ACPI_PM1_STS_TMR_STS_MASK\<rparr>,
      \<lparr>reg = UACPI_REGISTER_PM1_STS, field_offset = 4, field_mask = ACPI_PM1_STS_BM_STS_MASK\<rparr>,
      \<lparr>reg = UACPI_REGISTER_PM1_STS, field_offset = 5, field_mask = ACPI_PM1_STS_GBL_STS_MASK\<rparr>,
      \<lparr>reg = UACPI_REGISTER_PM1_STS, field_offset = 8, field_mask = ACPI_PM1_STS_PWRBTN_STS_MASK\<rparr>,
      \<lparr>reg = UACPI_REGISTER_PM1_STS, field_offset = 9, field_mask = ACPI_PM1_STS_SLPBTN_STS_MASK\<rparr>,
      \<lparr>reg = UACPI_REGISTER_PM1_STS, field_offset = 10, field_mask = ACPI_PM1_STS_RTC_STS_MASK\<rparr>,
      \<lparr>reg = UACPI_REGISTER_PM1_STS, field_offset = 14, field_mask = ACPI_PM1_STS_PCIEXP_WAKE_STS_MASK\<rparr>,
      \<lparr>reg = UACPI_REGISTER_SLP_STS, field_offset = 7, field_mask = ACPI_SLP_STS_WAK_STS_MASK\<rparr>,
      \<lparr>reg = UACPI_REGISTER_PM1_STS, field_offset = 15, field_mask = ACPI_PM1_STS_WAKE_STS_MASK\<rparr>,
      \<lparr>reg = UACPI_REGISTER_PM1_EN, field_offset = 0, field_mask = ACPI_PM1_EN_TMR_EN_MASK\<rparr>,
      \<lparr>reg = UACPI_REGISTER_PM1_EN, field_offset = 5, field_mask = ACPI_PM1_EN_GBL_EN_MASK\<rparr>,
      \<lparr>reg = UACPI_REGISTER_PM1_EN, field_offset = 8, field_mask = ACPI_PM1_EN_PWRBTN_EN_MASK\<rparr>,
      \<lparr>reg = UACPI_REGISTER_PM1_EN, field_offset = 9, field_mask = ACPI_PM1_EN_SLPBTN_EN_MASK\<rparr>,
      \<lparr>reg = UACPI_REGISTER_PM1_EN, field_offset = 10, field_mask = ACPI_PM1_EN_RTC_EN_MASK\<rparr>,
      \<lparr>reg = UACPI_REGISTER_PM1_EN, field_offset = 14, field_mask = ACPI_PM1_EN_PCIEXP_WAKE_DIS_MASK\<rparr>,
      \<lparr>reg = UACPI_REGISTER_PM1_CNT, field_offset = 0, field_mask = ACPI_PM1_CNT_SCI_EN_MASK\<rparr>,
      \<lparr>reg = UACPI_REGISTER_PM1_CNT, field_offset = 1, field_mask = ACPI_PM1_CNT_BM_RLD_MASK\<rparr>,
      \<lparr>reg = UACPI_REGISTER_PM1_CNT, field_offset = 2, field_mask = ACPI_PM1_CNT_GBL_RLS_MASK\<rparr>,
      \<lparr>reg = UACPI_REGISTER_PM1_CNT, field_offset = 10, field_mask = ACPI_PM1_CNT_SLP_TYP_MASK\<rparr>,
      \<lparr>reg = UACPI_REGISTER_SLP_CNT, field_offset = 2, field_mask = ACPI_SLP_CNT_SLP_TYP_MASK\<rparr>,
      \<lparr>reg = UACPI_REGISTER_PM1_CNT, field_offset = 13, field_mask = ACPI_PM1_CNT_SLP_EN_MASK\<rparr>,
      \<lparr>reg = UACPI_REGISTER_SLP_CNT, field_offset = 5, field_mask = ACPI_SLP_CNT_SLP_EN_MASK\<rparr>,
      \<lparr>reg = UACPI_REGISTER_PM2_CNT, field_offset = 0, field_mask = ACPI_PM2_CNT_ARB_DIS_MASK\<rparr>]"

section \<open>State\<close>

datatype register_mapping_state =
    REGISTER_MAPPING_STATE_NONE
  | REGISTER_MAPPING_STATE_NOT_NEEDED
  | REGISTER_MAPPING_STATE_MAPPED

text \<open>The arrays of two elements are functions from the index.\<close>

record register_mapping =
  reg_mappings :: "nat \<Rightarrow> uacpi_mapped_gas"
  reg_states :: "nat \<Rightarrow> register_mapping_state"

record acpi_regs = acpi +
  fadt :: fadt_regs
  rt_init_level :: u8
  g_reg_lock :: u64
  g_register_mappings :: "u8 \<Rightarrow> register_mapping"

definition UACPI_INIT_LEVEL_SUBSYSTEM_INITIALIZED :: u8 where
  "UACPI_INIT_LEVEL_SUBSYSTEM_INITIALIZED = 1"

section \<open>Mapping on first use\<close>

definition accessor_of :: "register_spec \<Rightarrow> nat \<Rightarrow> accessor" where
  "accessor_of spec idx = (if idx = 0 then accessor0 spec else accessor1 spec)"

text \<open>The status, the mapping and the state of the block \<open>idx\<close>.\<close>

definition map_one ::
  "u64 \<Rightarrow> register_spec \<Rightarrow> nat \<Rightarrow> u8 \<Rightarrow> 'a acpi_regs_scheme \<Rightarrow> (uacpi_status \<times> 'a acpi_regs_scheme) option" where
  "map_one tmp spec idx i s =
     (let mapping = g_register_mappings s i;
          set_state = (\<lambda>st s. s\<lparr>g_register_mappings := (g_register_mappings s)(i :=
             (g_register_mappings s i)\<lparr>reg_states := (reg_states (g_register_mappings s i))(idx := st)\<rparr>)\<rparr>);
          map_gas = (\<lambda>gas.
            Option.bind (uacpi_map_gas_noalloc tmp gas (reg_mappings mapping idx) s) (\<lambda>(ret, g, s).
              let s = s\<lparr>g_register_mappings := (g_register_mappings s)(i :=
                     (g_register_mappings s i)\<lparr>reg_mappings := (reg_mappings (g_register_mappings s i))(idx := g)\<rparr>)\<rparr>
              in Some (ret, if ret = UACPI_STATUS_OK then set_state REGISTER_MAPPING_STATE_MAPPED s else s)))
      in if reg_states mapping idx \<noteq> REGISTER_MAPPING_STATE_NONE then Some (UACPI_STATUS_OK, s)
         else if reg_kind spec = kind_value REGISTER_KIND_GAS
         then
           (case accessor_of spec idx of
              Gas_Accessor f \<Rightarrow>
                if gas_address (f (fadt s)) = 0
                then Some (UACPI_STATUS_OK, set_state REGISTER_MAPPING_STATE_NOT_NEEDED s)
                else map_gas (f (fadt s))
            | _ \<Rightarrow> Some (UACPI_STATUS_OK, set_state REGISTER_MAPPING_STATE_NOT_NEEDED s))
         else if idx \<noteq> 0 then Some (UACPI_STATUS_OK, set_state REGISTER_MAPPING_STATE_NOT_NEEDED s)
         else
           (case accessor0 spec of
              Port_Accessor f \<Rightarrow>
                map_gas \<lparr>address_space_id = UACPI_ADDRESS_SPACE_SYSTEM_IO, register_bit_width = access_width spec * 8,
                         register_bit_offset = 0, access_size = 0, gas_address = ucast (f (fadt s))\<rparr>
            | _ \<Rightarrow> None))"

definition ensure_register_mapped ::
  "u64 \<Rightarrow> register_spec \<Rightarrow> u8 \<Rightarrow> 'a acpi_regs_scheme \<Rightarrow> (uacpi_status \<times> 'a acpi_regs_scheme) option" where
  "ensure_register_mapped tmp spec i s =
     (if reg_states (g_register_mappings s i) 0 \<noteq> REGISTER_MAPPING_STATE_NONE
         \<and> reg_states (g_register_mappings s i) 1 \<noteq> REGISTER_MAPPING_STATE_NONE
      then Some (UACPI_STATUS_OK, s)
      else
        (let (flags, s) = uacpi_kernel_lock_spinlock (g_reg_lock s) s in
         Option.bind (map_one tmp spec 0 i s) (\<lambda>(ret, s).
           Option.bind (if ret \<noteq> UACPI_STATUS_OK then Some (ret, s) else map_one tmp spec 1 i s) (\<lambda>(ret, s).
             Some (ret, uacpi_kernel_unlock_spinlock (g_reg_lock s) flags s)))))"

section \<open>Registers\<close>

definition get_reg :: "u8 \<Rightarrow> register_spec option" where
  "get_reg idx = (if idx > UACPI_REGISTER_MAX then None else Some (g_registers ! unat idx))"

definition do_read_one ::
  "u64 \<Rightarrow> u64 \<Rightarrow> u8 \<Rightarrow> nat \<Rightarrow> u64 \<Rightarrow> 'a acpi_regs_scheme \<Rightarrow> (uacpi_status \<times> u64 \<times> 'a acpi_regs_scheme) option" where
  "do_read_one tmp dat i idx out s =
     (if reg_states (g_register_mappings s i) idx \<noteq> REGISTER_MAPPING_STATE_MAPPED then Some (UACPI_STATUS_OK, out, s)
      else uacpi_gas_read_mapped tmp (reg_mappings (g_register_mappings s i) idx) dat s)"

definition do_read_register ::
  "u64 \<Rightarrow> u64 \<Rightarrow> register_spec \<Rightarrow> u8 \<Rightarrow> u64 \<Rightarrow> 'a acpi_regs_scheme \<Rightarrow> (uacpi_status \<times> u64 \<times> 'a acpi_regs_scheme) option" where
  "do_read_register tmp dat spec i out s =
     Option.bind (do_read_one tmp dat i 0 0 s) (\<lambda>(ret, value0, s).
       if ret \<noteq> UACPI_STATUS_OK then Some (ret, out, s)
       else
         Option.bind (do_read_one tmp dat i 1 0 s) (\<lambda>(ret, value1, s).
           if ret \<noteq> UACPI_STATUS_OK then Some (ret, out, s)
           else
             (let out = value0 OR value1 in
              Some (UACPI_STATUS_OK,
                if write_only_mask spec \<noteq> 0 then out AND NOT (write_only_mask spec) else out, s))))"

definition uacpi_read_register ::
  "u64 \<Rightarrow> u64 \<Rightarrow> u8 \<Rightarrow> u64 \<Rightarrow> 'a acpi_regs_scheme \<Rightarrow> (uacpi_status \<times> u64 \<times> 'a acpi_regs_scheme) option" where
  "uacpi_read_register tmp dat reg_enum out s =
     (if rt_init_level s < UACPI_INIT_LEVEL_SUBSYSTEM_INITIALIZED then Some (UACPI_STATUS_INIT_LEVEL_MISMATCH, out, s)
      else
        (case get_reg reg_enum of
           None \<Rightarrow> Some (UACPI_STATUS_INVALID_ARGUMENT, out, s)
         | Some spec \<Rightarrow>
             Option.bind (ensure_register_mapped tmp spec reg_enum s) (\<lambda>(ret, s).
               if ret \<noteq> UACPI_STATUS_OK then Some (ret, out, s)
               else do_read_register tmp dat spec reg_enum out s)))"

definition do_write_one ::
  "u8 \<Rightarrow> nat \<Rightarrow> u64 \<Rightarrow> 'a acpi_regs_scheme \<Rightarrow> (uacpi_status \<times> 'a acpi_regs_scheme) option" where
  "do_write_one i idx in_value s =
     (if reg_states (g_register_mappings s i) idx \<noteq> REGISTER_MAPPING_STATE_MAPPED then Some (UACPI_STATUS_OK, s)
      else uacpi_gas_write_mapped (reg_mappings (g_register_mappings s i) idx) in_value s)"

text \<open>The two blocks, the first error ends the write.\<close>

definition write_blocks :: "u8 \<Rightarrow> u64 \<Rightarrow> u64 \<Rightarrow> 'a acpi_regs_scheme \<Rightarrow> (uacpi_status \<times> 'a acpi_regs_scheme) option" where
  "write_blocks i in_value0 in_value1 s =
     Option.bind (do_write_one i 0 in_value0 s) (\<lambda>(ret, s).
       if ret \<noteq> UACPI_STATUS_OK then Some (ret, s) else do_write_one i 1 in_value1 s)"

definition do_write_register ::
  "u64 \<Rightarrow> u64 \<Rightarrow> register_spec \<Rightarrow> u8 \<Rightarrow> u64 \<Rightarrow> 'a acpi_regs_scheme \<Rightarrow> (uacpi_status \<times> 'a acpi_regs_scheme) option" where
  "do_write_register tmp dat spec i in_value s =
     (if preserve_mask spec \<noteq> 0
      then
        (let in_value = in_value AND NOT (preserve_mask spec) in
         if access_kind spec = access_kind_value REGISTER_ACCESS_KIND_PRESERVE
         then
           Option.bind (do_read_register tmp dat spec i 0 s) (\<lambda>(ret, d, s).
             if ret \<noteq> UACPI_STATUS_OK then Some (ret, s)
             else (let in_value = in_value OR (d AND preserve_mask spec) in write_blocks i in_value in_value s))
         else write_blocks i in_value in_value s)
      else write_blocks i in_value in_value s)"

definition uacpi_write_register ::
  "u64 \<Rightarrow> u64 \<Rightarrow> u8 \<Rightarrow> u64 \<Rightarrow> 'a acpi_regs_scheme \<Rightarrow> (uacpi_status \<times> 'a acpi_regs_scheme) option" where
  "uacpi_write_register tmp dat reg_enum in_value s =
     (if rt_init_level s < UACPI_INIT_LEVEL_SUBSYSTEM_INITIALIZED then Some (UACPI_STATUS_INIT_LEVEL_MISMATCH, s)
      else
        (case get_reg reg_enum of
           None \<Rightarrow> Some (UACPI_STATUS_INVALID_ARGUMENT, s)
         | Some spec \<Rightarrow>
             Option.bind (ensure_register_mapped tmp spec reg_enum s) (\<lambda>(ret, s).
               if ret \<noteq> UACPI_STATUS_OK then Some (ret, s)
               else do_write_register tmp dat spec reg_enum in_value s)))"

definition uacpi_write_registers ::
  "u64 \<Rightarrow> u8 \<Rightarrow> u64 \<Rightarrow> u64 \<Rightarrow> 'a acpi_regs_scheme \<Rightarrow> (uacpi_status \<times> 'a acpi_regs_scheme) option" where
  "uacpi_write_registers tmp reg_enum in_value0 in_value1 s =
     (if rt_init_level s < UACPI_INIT_LEVEL_SUBSYSTEM_INITIALIZED then Some (UACPI_STATUS_INIT_LEVEL_MISMATCH, s)
      else
        (case get_reg reg_enum of
           None \<Rightarrow> Some (UACPI_STATUS_INVALID_ARGUMENT, s)
         | Some spec \<Rightarrow>
             Option.bind (ensure_register_mapped tmp spec reg_enum s) (\<lambda>(ret, s).
               if ret \<noteq> UACPI_STATUS_OK then Some (ret, s)
               else write_blocks reg_enum in_value0 in_value1 s)))"

section \<open>Fields\<close>

definition uacpi_read_register_field ::
  "u64 \<Rightarrow> u64 \<Rightarrow> u8 \<Rightarrow> u64 \<Rightarrow> 'a acpi_regs_scheme \<Rightarrow> (uacpi_status \<times> u64 \<times> 'a acpi_regs_scheme) option" where
  "uacpi_read_register_field tmp dat field_idx out s =
     (if rt_init_level s < UACPI_INIT_LEVEL_SUBSYSTEM_INITIALIZED then Some (UACPI_STATUS_INIT_LEVEL_MISMATCH, out, s)
      else if field_idx > UACPI_REGISTER_FIELD_MAX then Some (UACPI_STATUS_INVALID_ARGUMENT, out, s)
      else
        (let field = g_fields ! unat field_idx; spec = g_registers ! unat (reg field) in
         Option.bind (ensure_register_mapped tmp spec (reg field) s) (\<lambda>(ret, s).
           if ret \<noteq> UACPI_STATUS_OK then Some (ret, out, s)
           else
             Option.bind (do_read_register tmp dat spec (reg field) out s) (\<lambda>(ret, out, s).
               if ret \<noteq> UACPI_STATUS_OK then Some (ret, out, s)
               else Some (UACPI_STATUS_OK, drop_bit (field_offset field) (out AND field_mask field), s)))))"

definition write_field_locked ::
  "u64 \<Rightarrow> u64 \<Rightarrow> register_field \<Rightarrow> register_spec \<Rightarrow> u64 \<Rightarrow> 'a acpi_regs_scheme \<Rightarrow> (uacpi_status \<times> 'a acpi_regs_scheme) option" where
  "write_field_locked tmp dat field spec in_value s =
     (if reg_kind spec = access_kind_value REGISTER_ACCESS_KIND_WRITE_TO_CLEAR
      then
        (if in_value = 0 then Some (UACPI_STATUS_OK, s)
         else do_write_register tmp dat spec (reg field) in_value s)
      else
        Option.bind (do_read_register tmp dat spec (reg field) 0 s) (\<lambda>(ret, d, s).
          if ret \<noteq> UACPI_STATUS_OK then Some (ret, s)
          else do_write_register tmp dat spec (reg field) ((d AND NOT (field_mask field)) OR in_value) s))"

definition uacpi_write_register_field ::
  "u64 \<Rightarrow> u64 \<Rightarrow> u8 \<Rightarrow> u64 \<Rightarrow> 'a acpi_regs_scheme \<Rightarrow> (uacpi_status \<times> 'a acpi_regs_scheme) option" where
  "uacpi_write_register_field tmp dat field_idx in_value s =
     (if rt_init_level s < UACPI_INIT_LEVEL_SUBSYSTEM_INITIALIZED then Some (UACPI_STATUS_INIT_LEVEL_MISMATCH, s)
      else if field_idx > UACPI_REGISTER_FIELD_MAX then Some (UACPI_STATUS_INVALID_ARGUMENT, s)
      else
        (let field = g_fields ! unat field_idx; spec = g_registers ! unat (reg field) in
         Option.bind (ensure_register_mapped tmp spec (reg field) s) (\<lambda>(ret, s).
           if ret \<noteq> UACPI_STATUS_OK then Some (ret, s)
           else
             (let in_value = push_bit (field_offset field) in_value AND field_mask field;
                  (flags, s) = uacpi_kernel_lock_spinlock (g_reg_lock s) s
              in Option.bind (write_field_locked tmp dat field spec in_value s) (\<lambda>(ret, s).
                   Some (ret, uacpi_kernel_unlock_spinlock (g_reg_lock s) flags s))))))"

section \<open>Initialization\<close>

definition uacpi_initialize_registers :: "'a acpi_regs_scheme \<Rightarrow> uacpi_status \<times> 'a acpi_regs_scheme" where
  "uacpi_initialize_registers s =
     (let s = s\<lparr>g_reg_lock := uacpi_kernel_create_spinlock\<rparr> in
      if g_reg_lock s = 0 then (UACPI_STATUS_OUT_OF_MEMORY, s) else (UACPI_STATUS_OK, s))"

definition unmap_one :: "u8 \<Rightarrow> nat \<Rightarrow> 'a acpi_regs_scheme \<Rightarrow> 'a acpi_regs_scheme option" where
  "unmap_one i idx s =
     (if reg_states (g_register_mappings s i) idx = REGISTER_MAPPING_STATE_MAPPED
      then uacpi_unmap_gas_nofree (reg_mappings (g_register_mappings s i) idx) s
      else Some s)"

text \<open>The blocks of the registers \<open>0\<close> to \<open>n - 1\<close>.\<close>

primrec unmap_all :: "nat \<Rightarrow> 'a acpi_regs_scheme \<Rightarrow> 'a acpi_regs_scheme option" where
  "unmap_all 0 s = Some s"
| "unmap_all (Suc n) s =
     Option.bind (unmap_all n s) (\<lambda>s. Option.bind (unmap_one (of_nat n) 0 s) (unmap_one (of_nat n) 1))"

text \<open>\<open>uacpi_memzero\<close> of the mappings: every state is NONE again, the blocks are all zero, which no function reads.\<close>

definition zero_mapping :: register_mapping where
  "zero_mapping =
     \<lparr>reg_mappings = (\<lambda>_. \<lparr>gas_mapping = 0, access_bit_width = 0, total_bit_width = 0, gas_bit_offset = 0, gas_space = In_Memory\<rparr>),
      reg_states = (\<lambda>_. REGISTER_MAPPING_STATE_NONE)\<rparr>"

definition uacpi_deinitialize_registers :: "'a acpi_regs_scheme \<Rightarrow> 'a acpi_regs_scheme option" where
  "uacpi_deinitialize_registers s =
     (let s = (if g_reg_lock s \<noteq> 0 then (uacpi_kernel_free_spinlock (g_reg_lock s) s)\<lparr>g_reg_lock := 0\<rparr> else s) in
      map_option (\<lambda>s. s\<lparr>g_register_mappings := (\<lambda>_. zero_mapping)\<rparr>) (unmap_all (Suc (unat UACPI_REGISTER_MAX)) s))"

end
