(* ===== verification/AcpiGasProps.thy ===== *)
theory AcpiGasProps
  imports AcpiGas
begin

text \<open>
  What the loops over the access units of a register do, proved once for any device whose units behave like
  cells of memory, and the instance for registers in system memory.
\<close>

section \<open>The interface of a device\<close>

text \<open>
  A device of \<open>n\<close> units of \<open>B\<close> bytes: unit \<open>i\<close> is at offset \<open>i * B\<close>, a read returns it, a write changes it
  and no other unit; \<open>frame\<close> is the part of the state that is not the device's.
\<close>

locale register_units =
  fixes rd :: "u64 \<Rightarrow> u8 \<Rightarrow> u64 \<Rightarrow> 's \<Rightarrow> uacpi_status \<times> u64 \<times> 's"
    and wr :: "u64 \<Rightarrow> u8 \<Rightarrow> u64 \<Rightarrow> 's \<Rightarrow> uacpi_status \<times> 's"
    and unit_of :: "nat \<Rightarrow> 's \<Rightarrow> u64"
    and frame :: "'s \<Rightarrow> 'f"
    and n B :: nat
  assumes B: "B \<in> {1, 2, 4, 8}"
    and n: "n * B \<le> 8"
    and rd: "i < n \<Longrightarrow> rd (of_nat (i * B)) (of_nat B) d s = (UACPI_STATUS_OK, unit_of i s, s)"
    and wr: "i < n \<Longrightarrow> fst (wr (of_nat (i * B)) (of_nat B) v s) = UACPI_STATUS_OK"
    and wr_unit: "i < n \<Longrightarrow> j < n \<Longrightarrow>
      unit_of j (snd (wr (of_nat (i * B)) (of_nat B) v s)) = (if j = i then take_bit (8 * B) v else unit_of j s)"
    and wr_frame: "i < n \<Longrightarrow> frame (snd (wr (of_nat (i * B)) (of_nat B) v s)) = frame s"
    and unit_small: "i < n \<Longrightarrow> take_bit (8 * B) (unit_of i s) = unit_of i s"
begin

definition W :: u8 where
  "W = of_nat (8 * B)"

lemma W_nat: "unat W = 8 * B" "unat (W div 8) = B" "W div 8 = of_nat B" "W \<noteq> 0"
  using B by (auto simp: W_def)

lemma B_pos: "0 < B"
  using B by auto

lemma mask_W: "gas_mask W = mask (8 * B)"
proof -
  have "gas_mask 8 = mask 8" "gas_mask 16 = mask 16" "gas_mask 32 = mask 32" "gas_mask 64 = mask 64"
    by (simp_all add: gas_mask_def mask_eq_exp_minus_1)
  then show ?thesis using B by (auto simp: W_def)
qed

lemma next_offset: "(of_nat (i * B) :: u64) + ucast (W div 8) = of_nat (Suc i * B)"
proof -
  have "(ucast (of_nat B :: u8) :: u64) = of_nat B" using B by auto
  then show ?thesis by (simp only: W_nat(3)) (simp add: algebra_simps)
qed

text \<open>The bits that are left after a round, and the offset.\<close>

lemma left_nat: "unat (left - min left W) = unat left - 8 * B" for left :: u8
proof (cases "left \<le> W")
  case True
  then have "unat left \<le> 8 * B" using W_nat by (simp add: word_le_nat_alt)
  with True show ?thesis by (simp add: min_def)
next
  case False
  then show ?thesis using W_nat by (simp add: min_def unat_sub word_le_nat_alt)
qed

lemma offset_nat: "W \<le> off \<Longrightarrow> unat (off - W) = unat off - 8 * B" for off :: u8
  using W_nat by (simp add: unat_sub word_le_nat_alt)

lemma skip_test: "W \<le> off \<longleftrightarrow> 0 < unat off div (8 * B)" for off :: u8
  using B_pos W_nat by (simp add: word_le_nat_alt div_greater_zero_iff)

text \<open>
  The units a loop still visits, from \<open>idx\<close> to \<open>m\<close>; the first of them that is not skipped is \<open>first_unit idx off\<close>.
\<close>

definition rounds_left :: "nat \<Rightarrow> nat \<Rightarrow> u8 \<Rightarrow> bool" where
  "rounds_left m idx left \<longleftrightarrow>
     m \<le> n \<and> idx \<le> m \<and> unat left \<le> (m - idx) * (8 * B) \<and> (idx < m \<longrightarrow> (m - idx - 1) * (8 * B) < unat left)"

definition first_unit :: "nat \<Rightarrow> u8 \<Rightarrow> nat" where
  "first_unit idx off = idx + unat off div (8 * B)"

lemma rounds_done: "rounds_left m idx 0 \<Longrightarrow> idx = m"
  by (auto simp: rounds_left_def)

lemma rounds_next:
  assumes "rounds_left m idx left" "left \<noteq> 0"
  shows "idx < m" "rounds_left m (Suc idx) (left - min left W)"
proof -
  have pos: "0 < unat left" using assms(2) by (simp add: word_neq_0_conv word_less_nat_alt)
  then show lt: "idx < m" using assms(1) by (cases "idx = m") (auto simp: rounds_left_def)
  have mn: "m \<le> n" using assms(1) by (simp add: rounds_left_def)
  define k where "k = m - Suc idx"
  have k: "m - idx = Suc k" "m - Suc idx = k" using lt by (simp_all add: k_def)
  have "unat left \<le> Suc k * (8 * B)" "k * (8 * B) < unat left"
    using assms(1) lt unfolding rounds_left_def k by simp_all
  moreover have "m = Suc idx" if "k = 0" using that lt k_def by simp
  moreover have "k = 0 \<or> (\<exists>l. k = Suc l)" by (cases k) auto
  ultimately show "rounds_left m (Suc idx) (left - min left W)"
    using lt mn unfolding rounds_left_def left_nat k by auto
qed

lemma first_next:
  "first_unit (Suc idx) (if W \<le> off then off - W else off) = (if W \<le> off then first_unit idx off else Suc idx)"
proof (cases "W \<le> off")
  case True
  then have "8 * B \<le> unat off" using W_nat by (simp add: word_le_nat_alt)
  then have "unat off div (8 * B) = Suc ((unat off - 8 * B) div (8 * B))"
    using B_pos by (simp add: le_div_geq)
  with True show ?thesis by (simp add: first_unit_def offset_nat)
next
  case False
  then show ?thesis using skip_test [of off] by (simp add: first_unit_def)
qed

lemma skip_first: "W \<le> off \<longleftrightarrow> idx < first_unit idx off"
  using skip_test [of off] by (simp add: first_unit_def)

text \<open>The unit \<open>i\<close> of a value.\<close>

definition part :: "nat \<Rightarrow> u64 \<Rightarrow> u64" where
  "part i v = take_bit (8 * B) (drop_bit (i * (8 * B)) v)"

lemma part_and: "drop_bit (i * unat W) v AND gas_mask W = part i v"
  by (simp add: part_def mask_W W_nat(1) take_bit_eq_mask)

lemma write_loop_units:
  assumes "rounds_left m idx left"
  shows "\<exists>s'. gas_write_loop wr W off left idx (of_nat (idx * B)) v s = Some (UACPI_STATUS_OK, s')
    \<and> (\<forall>j<n. unit_of j s' = (if first_unit idx off \<le> j \<and> j < m then part j v else unit_of j s))
    \<and> frame s' = frame s"
  using assms
proof (induction "m - idx" arbitrary: idx left off s)
  case 0
  then have "left = 0" using rounds_next(1) [of m idx left] by auto
  moreover have "m \<le> first_unit idx off" using 0 by (simp add: first_unit_def)
  ultimately show ?case by (auto simp: gas_write_loop.simps)
next
  case (Suc k)
  then have ltm: "idx < m" by simp
  then have lt: "idx < n" using Suc.prems by (simp add: rounds_left_def)
  have l0: "left \<noteq> 0" using rounds_done [of m idx] Suc.prems ltm by auto
  note N = rounds_next [OF Suc.prems l0]
  have k: "k = m - Suc idx" using Suc.hyps(2) by simp
  note IH = Suc.hyps(1) [OF k N(2)]
  show ?case
  proof (cases "W \<le> off")
    case True
    from IH [of "off - W" s] obtain s' where s':
      "gas_write_loop wr W (off - W) (left - min left W) (Suc idx) (of_nat (Suc idx * B)) v s = Some (UACPI_STATUS_OK, s')"
      "\<And>j. j < n \<Longrightarrow> unit_of j s' = (if first_unit idx off \<le> j \<and> j < m then part j v else unit_of j s)"
      "frame s' = frame s"
      using first_next [of idx off] True by auto
    then show ?thesis using True l0
      by (subst gas_write_loop.simps) (simp add: next_offset del: mult_Suc of_nat_mult)
  next
    case False
    define s1 where "s1 = snd (wr (of_nat (idx * B)) (W div 8) (part idx v) s)"
    have w: "wr (of_nat (idx * B)) (W div 8) (part idx v) s = (UACPI_STATUS_OK, s1)"
      using wr [OF lt, of "part idx v" s] by (simp add: s1_def W_nat(3) prod_eq_iff)
    have u: "unit_of j s1 = (if j = idx then part idx v else unit_of j s)" if "j < n" for j
      using wr_unit [OF lt that, of "part idx v" s] by (simp add: s1_def W_nat(3) part_def)
    from IH [of off s1] obtain s' where s':
      "gas_write_loop wr W off (left - min left W) (Suc idx) (of_nat (Suc idx * B)) v s1 = Some (UACPI_STATUS_OK, s')"
      "\<And>j. j < n \<Longrightarrow> unit_of j s' = (if Suc idx \<le> j \<and> j < m then part j v else unit_of j s1)"
      "frame s' = frame s1"
      using first_next [of idx off] False by auto
    have "first_unit idx off = idx" using skip_first [of off idx] False by (simp add: first_unit_def)
    then have "unit_of j s' = (if first_unit idx off \<le> j \<and> j < m then part j v else unit_of j s)" if "j < n" for j
      using s'(2) [OF that] u [OF that] ltm by (cases "j = idx") auto
    moreover have "frame s1 = frame s" unfolding s1_def W_nat(3) by (rule wr_frame [OF lt])
    ultimately show ?thesis using s'(1,3) False l0 w
      by (subst gas_write_loop.simps) (simp add: next_offset part_and del: mult_Suc of_nat_mult)
  qed
qed

subsection \<open>Reading\<close>

lemma shifted_unit:
  assumes "idx < n"
  shows "bit (push_bit (idx * unat W) (unit_of idx s AND gas_mask W)) i
    \<longleftrightarrow> i div (8 * B) = idx \<and> bit (unit_of idx s) (i mod (8 * B))"
proof -
  have m: "unit_of idx s AND gas_mask W = unit_of idx s"
    using unit_small [OF assms, of s] by (simp add: mask_W take_bit_eq_mask)
  have small: "j < 8 * B" if "bit (unit_of idx s) j" for j
    using that unit_small [OF assms, of s] by (metis bit_take_bit_iff)
  have "Suc idx * B \<le> n * B" using assms by (intro mult_right_mono) auto
  then have room: "idx * (8 * B) + 8 * B \<le> 64" using n by simp
  show ?thesis
  proof
    assume "bit (push_bit (idx * unat W) (unit_of idx s AND gas_mask W)) i"
    then have b: "idx * (8 * B) \<le> i" "bit (unit_of idx s) (i - idx * (8 * B))"
      unfolding m W_nat(1) by (simp_all add: bit_push_bit_iff)
    define j where "j = i - idx * (8 * B)"
    have j: "i = j + idx * (8 * B)" "j < 8 * B" "bit (unit_of idx s) j"
      using b small by (auto simp: j_def)
    then show "i div (8 * B) = idx \<and> bit (unit_of idx s) (i mod (8 * B))" by simp
  next
    assume a: "i div (8 * B) = idx \<and> bit (unit_of idx s) (i mod (8 * B))"
    then have "i = idx * (8 * B) + i mod (8 * B)" using div_mult_mod_eq [of i "8 * B"] by simp
    moreover have "i mod (8 * B) < 8 * B" using B_pos by simp
    ultimately have "idx * (8 * B) \<le> i" "i - idx * (8 * B) = i mod (8 * B)" "i < 64" using room by linarith+
    then show "bit (push_bit (idx * unat W) (unit_of idx s AND gas_mask W)) i"
      unfolding m W_nat(1) using a by (simp add: bit_push_bit_iff)
  qed
qed

lemma one_more_unit:
  assumes "idx < m"
  shows "(a \<or> q = idx \<and> P idx) \<or> q < m \<and> Suc idx \<le> q \<and> P q \<longleftrightarrow> a \<or> q < m \<and> idx \<le> q \<and> P q"
  using assms by (cases "q = idx") auto

lemma read_loop_units:
  assumes "rounds_left m idx left"
  shows "\<exists>r. gas_read_loop rd W off left idx (of_nat (idx * B)) dat out s = Some (UACPI_STATUS_OK, r, s)
    \<and> (\<forall>i. bit r i \<longleftrightarrow> bit out i \<or> i div (8 * B) < m \<and> first_unit idx off \<le> i div (8 * B)
              \<and> bit (unit_of (i div (8 * B)) s) (i mod (8 * B)))"
  using assms
proof (induction "m - idx" arbitrary: idx left off dat out)
  case 0
  then have "left = 0" using rounds_next(1) [of m idx left] by auto
  moreover have "m \<le> first_unit idx off" using 0 by (simp add: first_unit_def)
  ultimately show ?case by (auto simp: gas_read_loop.simps)
next
  case (Suc k)
  then have ltm: "idx < m" by simp
  then have lt: "idx < n" using Suc.prems by (simp add: rounds_left_def)
  have l0: "left \<noteq> 0" using rounds_done [of m idx] Suc.prems ltm by auto
  note N = rounds_next [OF Suc.prems l0]
  have k: "k = m - Suc idx" using Suc.hyps(2) by simp
  note IH = Suc.hyps(1) [OF k N(2)]
  show ?case
  proof (cases "W \<le> off")
    case True
    from IH [of "off - W" 0 out] obtain r where r:
      "gas_read_loop rd W (off - W) (left - min left W) (Suc idx) (of_nat (Suc idx * B)) 0 out s = Some (UACPI_STATUS_OK, r, s)"
      "\<And>i. bit r i \<longleftrightarrow> bit out i \<or> i div (8 * B) < m \<and> first_unit idx off \<le> i div (8 * B)
              \<and> bit (unit_of (i div (8 * B)) s) (i mod (8 * B))"
      using first_next [of idx off] True by auto
    then show ?thesis using True l0
      by (subst gas_read_loop.simps) (simp add: next_offset del: mult_Suc of_nat_mult)
  next
    case False
    define out' where "out' = out OR push_bit (idx * unat W) (unit_of idx s AND gas_mask W)"
    from IH [of off "unit_of idx s" out'] obtain r where r:
      "gas_read_loop rd W off (left - min left W) (Suc idx) (of_nat (Suc idx * B)) (unit_of idx s) out' s = Some (UACPI_STATUS_OK, r, s)"
      "\<And>i. bit r i \<longleftrightarrow> bit out' i \<or> i div (8 * B) < m \<and> Suc idx \<le> i div (8 * B)
              \<and> bit (unit_of (i div (8 * B)) s) (i mod (8 * B))"
      using first_next [of idx off] False by auto
    have f: "first_unit idx off = idx" using skip_first [of off idx] False by (simp add: first_unit_def)
    have b: "bit out' i \<longleftrightarrow> bit out i \<or> i div (8 * B) = idx \<and> bit (unit_of idx s) (i mod (8 * B))" for i
      unfolding out'_def bit_or_iff shifted_unit [OF lt] by (rule refl)
    have "bit r i \<longleftrightarrow> bit out i \<or> i div (8 * B) < m \<and> first_unit idx off \<le> i div (8 * B)
              \<and> bit (unit_of (i div (8 * B)) s) (i mod (8 * B))" for i
      unfolding r(2) f b by (rule one_more_unit [OF ltm, of "bit out i" "i div (8 * B)" "\<lambda>q. bit (unit_of q s) (i mod (8 * B))"])
    moreover have "rd (of_nat (idx * B)) (W div 8) dat s = (UACPI_STATUS_OK, unit_of idx s, s)"
      unfolding W_nat(3) by (rule rd [OF lt])
    ultimately show ?thesis using False l0 r(1)
      by (subst gas_read_loop.simps) (simp add: next_offset out'_def del: mult_Suc of_nat_mult)
  qed
qed

subsection \<open>Reading back\<close>

lemma write_then_read:
  assumes "rounds_left m 0 t"
  shows "\<exists>s' r. gas_write_loop wr W off t 0 0 v s = Some (UACPI_STATUS_OK, s')
    \<and> gas_read_loop rd W off t 0 0 dat 0 s' = Some (UACPI_STATUS_OK, r, s')
    \<and> (\<forall>i. bit r i \<longleftrightarrow> bit v i \<and> unat off div (8 * B) \<le> i div (8 * B) \<and> i div (8 * B) < m)
    \<and> frame s' = frame s"
proof -
  have mn: "m \<le> n" using assms by (simp add: rounds_left_def)
  obtain s' where s': "gas_write_loop wr W off t 0 0 v s = Some (UACPI_STATUS_OK, s')"
    "\<And>j. j < n \<Longrightarrow> unit_of j s' = (if unat off div (8 * B) \<le> j \<and> j < m then part j v else unit_of j s)"
    "frame s' = frame s"
    using write_loop_units [OF assms, of off v s] by (auto simp: first_unit_def)
  obtain r where r: "gas_read_loop rd W off t 0 0 dat 0 s' = Some (UACPI_STATUS_OK, r, s')"
    "\<And>i. bit r i \<longleftrightarrow> i div (8 * B) < m \<and> unat off div (8 * B) \<le> i div (8 * B)
              \<and> bit (unit_of (i div (8 * B)) s') (i mod (8 * B))"
    using read_loop_units [OF assms, of off dat 0 s'] by (auto simp: first_unit_def)
  have p: "bit (part (i div (8 * B)) v) (i mod (8 * B)) \<longleftrightarrow> bit v i" for i
    unfolding part_def bit_take_bit_iff bit_drop_bit_eq comp_def div_mult_mod_eq using B_pos by simp
  have "bit r i \<longleftrightarrow> bit v i \<and> unat off div (8 * B) \<le> i div (8 * B) \<and> i div (8 * B) < m" for i
  proof (cases "unat off div (8 * B) \<le> i div (8 * B) \<and> i div (8 * B) < m")
    case True
    then have "unit_of (i div (8 * B)) s' = part (i div (8 * B)) v"
      using s'(2) [OF less_le_trans [OF conjunct2 mn]] by (simp only: simp_thms if_True)
    then show ?thesis unfolding r(2) using True p by (simp only: simp_thms)
  next
    case False
    then show ?thesis unfolding r(2) by blast
  qed
  with s'(1,3) r(1) show ?thesis by blast
qed

end

section \<open>Registers in memory\<close>

lemma store_word_byte:
  assumes "n \<le> 8"
  shows "store n a v m x = (if unat (x - a) < n then ucast (drop_bit (8 * unat (x - a)) v) else m x)"
  using assms
proof (induction n arbitrary: a v m)
  case (Suc n)
  have IH: "store (Suc n) a v m x
      = (if unat (x - (a + 1)) < n then ucast (drop_bit (8 * unat (x - (a + 1))) (drop_bit 8 v)) else (m(a := ucast v)) x)"
    unfolding store.simps(2) by (rule Suc.IH) (use Suc.prems in simp)
  show ?case
  proof (cases "x = a")
    case True
    then have "x - (a + 1) = - 1" by simp
    moreover have "\<not> unat (- 1 :: u64) < n" using Suc.prems by (simp add: unsigned_minus_1_eq_mask mask_eq_exp_minus_1)
    ultimately have "\<not> unat (x - (a + 1)) < n" by (simp only: not_False_eq_True)
    then show ?thesis unfolding IH using True by simp
  next
    case False
    then have 0: "x - a \<noteq> 0" by simp
    then have "unat (x - (a + 1)) = unat (x - a) - 1"
      using unat_minus_one [OF 0] by (simp add: diff_diff_eq)
    moreover obtain k where "unat (x - a) = Suc k" using 0 unat_eq_0 not0_implies_Suc by metis
    ultimately show ?thesis unfolding IH using False by (simp add: drop_bit_drop_bit add.commute)
  qed
qed simp

lemma load_word_bit:
  assumes "n \<le> 8"
  shows "bit (load n a m) k \<longleftrightarrow> k < 8 * n \<and> bit (m (a + of_nat (k div 8))) (k mod 8)"
  using assms
proof (induction n arbitrary: a k)
  case (Suc n)
  show ?case
  proof (cases "k < 8")
    case True
    then show ?thesis by (simp add: bit_simps)
  next
    case False
    then have k: "k div 8 = Suc ((k - 8) div 8)" "k mod 8 = (k - 8) mod 8"
      by (simp_all add: le_div_geq le_mod_geq)
    have "bit (load (Suc n) a m) k \<longleftrightarrow> k < 64 \<and> bit (load n (a + 1) m) (k - 8)"
      using False by (auto simp: bit_simps dest: bit_imp_le_length)
    also have "\<dots> \<longleftrightarrow> k < 8 * Suc n \<and> bit (m (a + of_nat (k div 8))) (k mod 8)"
      using Suc.IH [of "a + 1" "k - 8"] Suc.prems False unfolding k by (auto simp: algebra_simps)
    finally show ?thesis .
  qed
qed simp

lemma unit_distance:
  assumes "(i :: nat) * B + B \<le> 8" "j * B + B \<le> 8" "q < B"
  shows "unat (a + of_nat (j * B) + of_nat q - (a + of_nat (i * B)) :: u64) < B \<longleftrightarrow> j = i"
    and "j = i \<Longrightarrow> unat (a + of_nat (j * B) + of_nat q - (a + of_nat (i * B)) :: u64) = q"
proof -
  have e: "a + of_nat (j * B) + of_nat q - (a + of_nat (i * B)) = (of_nat (j * B + q) - of_nat (i * B) :: u64)"
    by (simp add: algebra_simps)
  have same: "unat (of_nat (j * B + q) - of_nat (i * B) :: u64) = q" if "j = i"
    using that assms by (simp add: unat_addr)
  consider "j = i" | "i < j" | "j < i" by linarith
  then have "unat (of_nat (j * B + q) - of_nat (i * B) :: u64) < B \<longleftrightarrow> j = i"
  proof cases
    case 1
    with same assms(3) show ?thesis by simp
  next
    case 2
    then have "Suc i * B \<le> j * B" by (intro mult_right_mono) simp_all
    then have "i * B + B \<le> j * B + q" by simp
    then have "(of_nat (j * B + q) - of_nat (i * B) :: u64) = of_nat (j * B + q - i * B)" "B \<le> j * B + q - i * B"
      by (simp_all only: of_nat_diff)
    moreover have "j * B + q - i * B < 2 ^ 64" using assms by simp
    ultimately show ?thesis using 2 by (simp add: unat_addr)
  next
    case 3
    then have "Suc j * B \<le> i * B" by (intro mult_right_mono) simp_all
    then have d: "j * B + q < i * B" using assms(3) by simp
    define y where "y = (of_nat (j * B + q) - of_nat (i * B) :: u64)"
    have "y + of_nat (i * B - (j * B + q)) = 0" using d by (simp add: y_def of_nat_diff)
    then have z: "(of_nat (unat y + (i * B - (j * B + q))) :: u64) = of_nat 0" by simp
    have "\<not> unat y < B"
    proof
      assume "unat y < B"
      then have "unat y + (i * B - (j * B + q)) < 2 ^ 64" using assms by simp
      then show False using z d of_nat_addr_eq [of "unat y + (i * B - (j * B + q))" 0] by simp
    qed
    with 3 show ?thesis by (simp add: y_def)
  qed
  then show "unat (a + of_nat (j * B) + of_nat q - (a + of_nat (i * B)) :: u64) < B \<longleftrightarrow> j = i" by (simp only: e)
  show "j = i \<Longrightarrow> unat (a + of_nat (j * B) + of_nat q - (a + of_nat (i * B)) :: u64) = q"
    unfolding e by (rule same)
qed

lemma load_units:
  assumes "(i :: nat) * B + B \<le> 8" "j * B + B \<le> 8"
  shows "load B (a + of_nat (j * B)) (store B (a + of_nat (i * B)) v m)
    = (if j = i then take_bit (8 * B) v else load B (a + of_nat (j * B)) m)"
proof (rule bit_word_eqI)
  fix k
  have B8: "B \<le> 8" using assms by simp
  show "bit (load B (a + of_nat (j * B)) (store B (a + of_nat (i * B)) v m)) k
    = bit (if j = i then take_bit (8 * B) v else load B (a + of_nat (j * B)) m) k"
  proof (cases "k < 8 * B")
    case True
    then have q: "k div 8 < B" by simp
    note D = unit_distance [OF assms q, of a]
    show ?thesis
    proof (cases "j = i")
      case True
      then have "store B (a + of_nat (i * B)) v m (a + of_nat (j * B) + of_nat (k div 8)) = ucast (drop_bit (8 * (k div 8)) v)"
        using D q unfolding store_word_byte [OF B8] by (simp only: if_True)
      moreover have "bit (ucast (drop_bit (8 * (k div 8)) v) :: u8) (k mod 8) \<longleftrightarrow> bit v k"
        by (simp add: bit_simps)
      ultimately show ?thesis unfolding load_word_bit [OF B8] using \<open>k < 8 * B\<close> True by (simp add: bit_take_bit_iff)
    next
      case False
      then have "store B (a + of_nat (i * B)) v m (a + of_nat (j * B) + of_nat (k div 8)) = m (a + of_nat (j * B) + of_nat (k div 8))"
        using D(1) unfolding store_word_byte [OF B8] by (simp only: if_False)
      then show ?thesis unfolding load_word_bit [OF B8] using False by (simp add: load_word_bit [OF B8])
    qed
  next
    case False
    then show ?thesis by (simp add: load_word_bit [OF B8] bit_take_bit_iff)
  qed
qed

lemma load_small: "n \<le> 8 \<Longrightarrow> take_bit (8 * n) (load n a m) = load n a m"
  by (rule bit_word_eqI) (auto simp: bit_take_bit_iff load_word_bit)

text \<open>The unit \<open>i\<close> of the register mapped at \<open>a\<close>.\<close>

definition memory_unit :: "nat \<Rightarrow> u64 \<Rightarrow> nat \<Rightarrow> 'a acpi_scheme \<Rightarrow> u64" where
  "memory_unit B a i s = load B (a + of_nat (i * B)) (bytes s)"

lemma memory_register:
  assumes B: "B \<in> {1, 2, 4, 8}" and n: "n * B \<le> 8"
  shows "register_units (uacpi_system_memory_read a) (uacpi_system_memory_write a) (memory_unit B a) (set_bytes (\<lambda>_. 0)) n B"
proof
  have w: "(of_nat B :: u8) \<in> {1, 2, 4, 8}" "unat (of_nat B :: u8) = B" "B \<le> 8" using B by auto
  have u: "i * B + B \<le> 8" if "i < n" for i
  proof -
    have "Suc i * B \<le> n * B" using that by (intro mult_right_mono) simp_all
    with n show ?thesis by simp
  qed
  fix i j d v and s :: "'a acpi_scheme"
  assume i: "i < n"
  show "uacpi_system_memory_read a (of_nat (i * B)) (of_nat B) d s = (UACPI_STATUS_OK, memory_unit B a i s, s)"
    using w by (simp add: uacpi_system_memory_read_def memory_unit_def Let_def del: of_nat_mult)
  show "fst (uacpi_system_memory_write a (of_nat (i * B)) (of_nat B) v s) = UACPI_STATUS_OK"
    using w by (simp add: uacpi_system_memory_write_def Let_def del: of_nat_mult)
  show "set_bytes (\<lambda>_. 0) (snd (uacpi_system_memory_write a (of_nat (i * B)) (of_nat B) v s)) = set_bytes (\<lambda>_. 0) s"
    using w by (simp add: uacpi_system_memory_write_def Let_def poke_def set_bytes_def del: of_nat_mult)
  show "take_bit (8 * B) (memory_unit B a i s) = memory_unit B a i s"
    using w by (simp add: memory_unit_def load_small)
  assume j: "j < n"
  show "memory_unit B a j (snd (uacpi_system_memory_write a (of_nat (i * B)) (of_nat B) v s))
      = (if j = i then take_bit (8 * B) v else memory_unit B a j s)"
    using w load_units [OF u [OF i] u [OF j], of a v "bytes s"]
    by (simp add: uacpi_system_memory_write_def memory_unit_def Let_def poke_def del: of_nat_mult)
qed (use B n in auto)

interpretation mem8: register_units "uacpi_system_memory_read a" "uacpi_system_memory_write a" "memory_unit 1 a"
    "set_bytes (\<lambda>_. 0)" 8 1 for a
  by (rule memory_register) simp_all

interpretation mem16: register_units "uacpi_system_memory_read a" "uacpi_system_memory_write a" "memory_unit 2 a"
    "set_bytes (\<lambda>_. 0)" 4 2 for a
  by (rule memory_register) simp_all

interpretation mem32: register_units "uacpi_system_memory_read a" "uacpi_system_memory_write a" "memory_unit 4 a"
    "set_bytes (\<lambda>_. 0)" 2 4 for a
  by (rule memory_register) simp_all

interpretation mem64: register_units "uacpi_system_memory_read a" "uacpi_system_memory_write a" "memory_unit 8 a"
    "set_bytes (\<lambda>_. 0)" 1 8 for a
  by (rule memory_register) simp_all

section \<open>A register written and read\<close>

definition unit_count :: "nat \<Rightarrow> u8 \<Rightarrow> nat" where
  "unit_count w t = (unat t + w - 1) div w"

lemma unit_count:
  assumes "w \<in> {8, 16, 32, 64}" "unat t \<le> 64"
  shows "unit_count w t \<le> 64 div w" "unat t \<le> unit_count w t * w"
    and "0 < unit_count w t \<longrightarrow> (unit_count w t - 1) * w < unat t"
proof -
  let ?c = "unit_count w t"
  have w: "0 < w" using assms(1) by auto
  have "?c \<le> (64 + w - 1) div w" unfolding unit_count_def using assms(2) by (intro div_le_mono) simp
  also have "\<dots> = 64 div w" using assms(1) by auto
  finally show "?c \<le> 64 div w" .
  have lo: "?c * w \<le> unat t + w - 1" by (simp add: unit_count_def)
  have hi: "unat t + w - 1 < ?c * w + w"
    using dividend_less_div_times [OF w, of "unat t + w - 1"] by (simp add: unit_count_def add.commute)
  from hi w show "unat t \<le> ?c * w" by linarith
  show "0 < ?c \<longrightarrow> (?c - 1) * w < unat t"
  proof
    assume "0 < ?c"
    then have "(?c - 1) * w + w = ?c * w" by (cases "?c") simp_all
    with lo w show "(?c - 1) * w < unat t" by linarith
  qed
qed

text \<open>The bits of a mapped register that its accesses reach.\<close>

definition covered :: "uacpi_mapped_gas \<Rightarrow> nat \<Rightarrow> bool" where
  "covered g k \<longleftrightarrow> unat (gas_bit_offset g) div unat (access_bit_width g) \<le> k div unat (access_bit_width g)
     \<and> k div unat (access_bit_width g) < unit_count (unat (access_bit_width g)) (total_bit_width g)"

lemma mapped_read:
  assumes "gas_space g = In_Memory" "access_bit_width g \<in> {8, 16, 32, 64}" "unat (total_bit_width g) \<le> 64"
  shows "\<exists>r. uacpi_gas_read_mapped tmp g dat s = Some (UACPI_STATUS_OK, r, s) \<and> (\<forall>k. bit r k \<longrightarrow> covered g k)"
proof -
  have m: "gas_read tmp g = uacpi_system_memory_read (gas_mapping g)"
    using assms(1) by (simp add: gas_read_def)
  note c = unit_count [OF _ assms(3)]
  note d = uacpi_gas_read_mapped_def m covered_def
  consider "access_bit_width g = 8" | "access_bit_width g = 16" | "access_bit_width g = 32" | "access_bit_width g = 64"
    using assms(2) by blast
  then show ?thesis
  proof cases
    case 1
    then show ?thesis
      using mem8.read_loop_units [of "unit_count 8 (total_bit_width g)" 0 "total_bit_width g" "gas_mapping g" "gas_bit_offset g" dat 0 s]
        c [of 8] by (auto simp: d mem8.W_def mem8.rounds_left_def mem8.first_unit_def simp del: One_nat_def)
  next
    case 2
    then show ?thesis
      using mem16.read_loop_units [of "unit_count 16 (total_bit_width g)" 0 "total_bit_width g" "gas_mapping g" "gas_bit_offset g" dat 0 s]
        c [of 16] by (auto simp: d mem16.W_def mem16.rounds_left_def mem16.first_unit_def simp del: One_nat_def)
  next
    case 3
    then show ?thesis
      using mem32.read_loop_units [of "unit_count 32 (total_bit_width g)" 0 "total_bit_width g" "gas_mapping g" "gas_bit_offset g" dat 0 s]
        c [of 32] by (auto simp: d mem32.W_def mem32.rounds_left_def mem32.first_unit_def simp del: One_nat_def)
  next
    case 4
    then show ?thesis
      using mem64.read_loop_units [of "unit_count 64 (total_bit_width g)" 0 "total_bit_width g" "gas_mapping g" "gas_bit_offset g" dat 0 s]
        c [of 64] by (auto simp: d mem64.W_def mem64.rounds_left_def mem64.first_unit_def simp del: One_nat_def)
  qed
qed

lemma mapped_write_read:
  assumes "gas_space g = In_Memory" "access_bit_width g \<in> {8, 16, 32, 64}" "unat (total_bit_width g) \<le> 64"
  shows "\<exists>s' r. uacpi_gas_write_mapped g v s = Some (UACPI_STATUS_OK, s')
    \<and> uacpi_gas_read_mapped tmp g dat s' = Some (UACPI_STATUS_OK, r, s')
    \<and> (\<forall>i. bit r i \<longleftrightarrow> bit v i \<and> covered g i)
    \<and> set_bytes (\<lambda>_. 0) s' = set_bytes (\<lambda>_. 0) s"
proof -
  have m: "gas_read tmp g = uacpi_system_memory_read (gas_mapping g)" "gas_write g = uacpi_system_memory_write (gas_mapping g)"
    using assms(1) by (simp_all add: gas_read_def gas_write_def)
  note c = unit_count [OF _ assms(3)]
  note d = uacpi_gas_write_mapped_def uacpi_gas_read_mapped_def m covered_def
  consider "access_bit_width g = 8" | "access_bit_width g = 16" | "access_bit_width g = 32" | "access_bit_width g = 64"
    using assms(2) by blast
  then show ?thesis
  proof cases
    case 1
    then show ?thesis
      using mem8.write_then_read [of "unit_count 8 (total_bit_width g)" "total_bit_width g" "gas_mapping g" "gas_bit_offset g" v s dat]
        c [of 8] by (simp add: d mem8.W_def mem8.rounds_left_def del: One_nat_def)
  next
    case 2
    then show ?thesis
      using mem16.write_then_read [of "unit_count 16 (total_bit_width g)" "total_bit_width g" "gas_mapping g" "gas_bit_offset g" v s dat]
        c [of 16] by (simp add: d mem16.W_def mem16.rounds_left_def del: One_nat_def)
  next
    case 3
    then show ?thesis
      using mem32.write_then_read [of "unit_count 32 (total_bit_width g)" "total_bit_width g" "gas_mapping g" "gas_bit_offset g" v s dat]
        c [of 32] by (simp add: d mem32.W_def mem32.rounds_left_def del: One_nat_def)
  next
    case 4
    then show ?thesis
      using mem64.write_then_read [of "unit_count 64 (total_bit_width g)" "total_bit_width g" "gas_mapping g" "gas_bit_offset g" v s dat]
        c [of 64] by (simp add: d mem64.W_def mem64.rounds_left_def del: One_nat_def)
  qed
qed

lemma identity_map:
  assumes "a < ACPI_IDENTITY_MAP_LIMIT" "len \<le> ACPI_IDENTITY_MAP_LIMIT - a" "len \<noteq> 0"
  shows "uacpi_kernel_map a len s = (a, s)"
  using assms by (simp add: uacpi_kernel_map_def)

lemma identity_unmap:
  assumes "a < ACPI_IDENTITY_MAP_LIMIT"
  shows "uacpi_kernel_unmap a len s = s"
proof -
  have "a - (a AND (ACPI_PAGE_SIZE - 1)) \<le> a"
    by (simp add: word_sub_le word_and_le2)
  then have "a - (a AND (ACPI_PAGE_SIZE - 1)) < ACPI_MAP_WINDOW_BASE"
    by (rule le_less_trans) (rule less_trans [OF assms], simp add: ACPI_IDENTITY_MAP_LIMIT_def ACPI_MAP_WINDOW_BASE_def)
  then show ?thesis by (simp add: uacpi_kernel_unmap_def Let_def)
qed

lemma round_up_ge:
  fixes x :: u64
  assumes "unat x < 2 ^ 32" "k \<in> {3, 4, 5, 6}"
  shows "unat x \<le> unat ((x + mask k) AND NOT (mask k))"
proof -
  have m: "unat (mask k :: u64) = 2 ^ k - 1" "(2 :: nat) ^ k \<le> 64" using assms(2) by (auto simp: mask_eq_exp_minus_1)
  then have a: "unat (x + mask k) = unat x + (2 ^ k - 1)"
    unfolding unat_word_ariths m(1) using assms(1) by simp
  have "unat ((x + mask k) AND NOT (mask k)) = 2 ^ k * (unat (x + mask k) div 2 ^ k)"
    by (simp add: unat_and_not_mask mult.commute)
  moreover have "unat (x + mask k) < 2 ^ k * (unat (x + mask k) div 2 ^ k) + 2 ^ k"
    by (metis dividend_less_times_div zero_less_numeral zero_less_power mult.commute add.commute)
  ultimately show ?thesis using a by linarith
qed

lemma validate_total:
  assumes "gas_validate gas = (UACPI_STATUS_OK, (w, t))" "w \<in> {8, 16, 32, 64}"
  shows "unat t \<le> 64" "gas_address gas \<noteq> 0" "unat t = unat (register_bit_offset gas) + unat (register_bit_width gas)"
proof -
  define total where "total = (ucast (register_bit_offset gas) + ucast (register_bit_width gas) :: u64)"
  define m where "m = (ucast w - 1 :: u64)"
  have V: "t = ucast total" "(total + m) AND NOT m \<le> 64" "gas_address gas \<noteq> 0"
    using assms(1) by (auto simp: gas_validate_def Let_def total_def m_def split: if_splits)
  have b: "unat total = unat (register_bit_offset gas) + unat (register_bit_width gas)" "unat total < 2 ^ 32"
    using unsigned_less [of "register_bit_offset gas", where ?'a = nat] unsigned_less [of "register_bit_width gas", where ?'a = nat]
    by (simp_all add: total_def unat_word_ariths unsigned_ucast_eq take_bit_nat_eq_self)
  obtain k where k: "m = mask k" "k \<in> {3, 4, 5, 6}"
  proof -
    have "m = mask 3 \<or> m = mask 4 \<or> m = mask 5 \<or> m = mask 6" using assms(2) by (auto simp: m_def mask_eq_exp_minus_1)
    then show thesis by (auto intro: that)
  qed
  have "unat total \<le> unat ((total + m) AND NOT m)" unfolding k(1) by (rule round_up_ge [OF b(2) k(2)])
  also have "\<dots> \<le> unat (64 :: u64)" using V(2) unfolding word_le_nat_alt .
  finally have "unat total \<le> 64" by simp
  moreover from this have "unat t = unat total" by (simp add: V(1) unsigned_ucast_eq take_bit_nat_eq_self)
  ultimately show "unat t \<le> 64" "gas_address gas \<noteq> 0" "unat t = unat (register_bit_offset gas) + unat (register_bit_width gas)"
    using V(3) b(1) by simp_all
qed

text \<open>
  C33. A register in system memory below the first GiB, of at least one byte and with an access width the
  accesses support, keeps what \<open>uacpi_gas_write\<close> writes: \<open>uacpi_gas_read\<close> returns the bits of the value in
  the access units that the register covers, without the leading units that the bit offset skips, and zero
  elsewhere.  Both functions return OK and the loops over the units end.
\<close>

theorem gas_write_read:
  assumes "address_space_id gas = UACPI_ADDRESS_SPACE_SYSTEM_MEMORY"
    and "gas_validate gas = (UACPI_STATUS_OK, (w, t))" "w \<in> {8, 16, 32, 64}" "8 \<le> t"
    and "gas_address gas < ACPI_IDENTITY_MAP_LIMIT" "ucast (t div 8) \<le> ACPI_IDENTITY_MAP_LIMIT - gas_address gas"
  shows "\<exists>s' r. uacpi_gas_write tmp gas m v s = Some (UACPI_STATUS_OK, s')
    \<and> uacpi_gas_read tmp dat gas m out s' = Some (UACPI_STATUS_OK, r, s')
    \<and> (\<forall>i. bit r i \<longleftrightarrow> bit v i \<and> unat (register_bit_offset gas) div unat w \<le> i div unat w
          \<and> i div unat w < unit_count (unat w) t)"
proof -
  define g where "g = m\<lparr>gas_mapping := gas_address gas, gas_space := In_Memory, access_bit_width := w,
      total_bit_width := t, gas_bit_offset := register_bit_offset gas\<rparr>"
  note V = validate_total [OF assms(2,3)]
  have "1 \<le> unat t div 8" using assms(4) by (simp add: word_le_nat_alt)
  then have "unat (ucast (t div 8) :: u64) \<noteq> 0"
    using unsigned_less [of t, where ?'a = nat] by (simp add: unsigned_ucast_eq take_bit_nat_eq_self unat_div)
  then have "(ucast (t div 8) :: u64) \<noteq> 0" by (metis unat_0)
  then have "uacpi_kernel_map (gas_address gas) (ucast (t div 8)) s = (gas_address gas, s)" for s :: "'a acpi_scheme"
    by (rule identity_map [OF assms(5,6)])
  moreover have "gas_address gas \<noteq> UACPI_MAP_FAILED"
    using assms(5) unfolding UACPI_MAP_FAILED_def ACPI_IDENTITY_MAP_LIMIT_def by auto
  ultimately have M: "uacpi_map_gas_noalloc tmp gas m s = Some (UACPI_STATUS_OK, g, s)" for s :: "'a acpi_scheme"
    using assms(1,2) by (simp add: uacpi_map_gas_noalloc_def g_def Let_def)
  have U: "uacpi_unmap_gas_nofree g s = Some s" for s :: "'a acpi_scheme"
    using identity_unmap [OF assms(5)] by (simp add: uacpi_unmap_gas_nofree_def g_def)
  from mapped_write_read [of g v s tmp dat] assms(3) V(1) obtain s' r where
    "uacpi_gas_write_mapped g v s = Some (UACPI_STATUS_OK, s')"
    "uacpi_gas_read_mapped tmp g dat s' = Some (UACPI_STATUS_OK, r, s')"
    "\<forall>i. bit r i \<longleftrightarrow> bit v i \<and> unat (register_bit_offset gas) div unat w \<le> i div unat w
          \<and> i div unat w < unit_count (unat w) t"
    by (auto simp: g_def covered_def)
  then show ?thesis
    using M U by (auto simp: uacpi_gas_write_def uacpi_gas_read_def)
qed

text \<open>The register of sixteen bits at \<open>0x30000010\<close> whose first byte is skipped: only bits 8 to 15 are kept.\<close>

definition apei_register :: acpi_gas where
  "apei_register = \<lparr>address_space_id = 0, register_bit_width = 8, register_bit_offset = 8, access_size = 1,
     gas_address = 0x30000010\<rparr>"

lemma apei_validates: "gas_validate apei_register = (UACPI_STATUS_OK, (8, 16))"
  by (simp add: gas_validate_def apei_register_def gas_get_access_bit_width_def UACPI_ADDRESS_SPACE_SYSTEM_IO_def
      UACPI_ADDRESS_SPACE_SYSTEM_MEMORY_def Let_def)

theorem gas_write_read_witness:
  "\<forall>(m :: uacpi_mapped_gas) (s :: unit acpi_scheme). \<exists>s' r. uacpi_gas_write 0 apei_register m 0xABCD s = Some (UACPI_STATUS_OK, s')
    \<and> uacpi_gas_read 0 0 apei_register m 0 s' = Some (UACPI_STATUS_OK, r, s')
    \<and> (\<forall>i. bit r i \<longleftrightarrow> bit (0xABCD :: u64) i \<and> 8 div 8 \<le> i div 8 \<and> i div 8 < unit_count 8 16)"
proof (intro allI)
  fix m :: uacpi_mapped_gas and s :: "unit acpi_scheme"
  have "register_bit_offset apei_register = 8" by (simp add: apei_register_def)
  then show "\<exists>s' r. uacpi_gas_write 0 apei_register m 0xABCD s = Some (UACPI_STATUS_OK, s')
    \<and> uacpi_gas_read 0 0 apei_register m 0 s' = Some (UACPI_STATUS_OK, r, s')
    \<and> (\<forall>i. bit r i \<longleftrightarrow> bit (0xABCD :: u64) i \<and> 8 div 8 \<le> i div 8 \<and> i div 8 < unit_count 8 16)"
    using gas_write_read [of apei_register 8 16 0 m "0xABCD" s 0 0] apei_validates
    by (simp add: apei_register_def UACPI_ADDRESS_SPACE_SYSTEM_MEMORY_def ACPI_IDENTITY_MAP_LIMIT_def)
qed

section \<open>The access size\<close>

lemma dword_register:
  assumes "access_size gas = 3"
    and "register_bit_offset gas \<noteq> 0 \<or> \<not> is_aligned8 (register_bit_width gas) (register_bit_width gas)
           \<or> \<not> is_aligned8 (register_bit_width gas) 8"
  shows "gas_get_access_bit_width gas = 24"
proof -
  have "\<not> (register_bit_offset gas = 0 \<and> is_aligned8 (register_bit_width gas) (register_bit_width gas)
      \<and> is_aligned8 (register_bit_width gas) 8)" using assms(2) by blast
  then show ?thesis unfolding gas_get_access_bit_width_def assms(1) by (simp only: if_False) (simp add: min_def)
qed

text \<open>
  C34. The access size of a generic address structure is an encoding, in which 3 stands for accesses of four
  bytes; \<open>gas_get_access_bit_width\<close> multiplies it by eight.  A register in memory that asks for such accesses, is
  not one of the simple registers whose own width is used, and that \<open>gas_validate\<close> accepts and the kernel can map (its
  bit offset is below 24, offset and width together are 8 to 40 bits, its address is not null and at least 8 bytes
  below the first GiB's end), is mapped with an access width of 24 bits, which no access function supports: its read
  and its write are refused as an invalid argument, and nothing in memory changes.
\<close>

theorem gas_dword_access_refused:
  assumes "address_space_id gas = UACPI_ADDRESS_SPACE_SYSTEM_MEMORY" "access_size gas = 3"
    and "register_bit_offset gas \<noteq> 0 \<or> \<not> is_aligned8 (register_bit_width gas) (register_bit_width gas)
           \<or> \<not> is_aligned8 (register_bit_width gas) 8"
    and "unat (register_bit_offset gas) < 24" "8 \<le> unat (register_bit_offset gas) + unat (register_bit_width gas)"
    and "unat (register_bit_offset gas) + unat (register_bit_width gas) \<le> 40"
    and "gas_address gas \<noteq> 0" "gas_address gas < ACPI_IDENTITY_MAP_LIMIT - 8"
  shows "(\<exists>g. uacpi_map_gas_noalloc tmp gas m s = Some (UACPI_STATUS_OK, g, s)
      \<and> gas_mapping g = gas_address gas \<and> gas_space g = In_Memory \<and> access_bit_width g = 24)
    \<and> uacpi_gas_write tmp gas m v s = Some (UACPI_STATUS_INVALID_ARGUMENT, s)
    \<and> (\<exists>r. uacpi_gas_read tmp dat gas m out s = Some (UACPI_STATUS_INVALID_ARGUMENT, r, s))"
proof -
  define total where "total = (ucast (register_bit_offset gas) + ucast (register_bit_width gas) :: u64)"
  define t where "t = (ucast total :: u8)"
  define g where "g = m\<lparr>gas_mapping := gas_address gas, gas_space := In_Memory, access_bit_width := 24,
      total_bit_width := t, gas_bit_offset := register_bit_offset gas\<rparr>"
  have W: "gas_get_access_bit_width gas = 24" by (rule dword_register [OF assms(2,3)])
  have total: "unat total = unat (register_bit_offset gas) + unat (register_bit_width gas)"
    using assms(6) by (simp add: total_def unat_word_ariths unsigned_ucast_eq take_bit_nat_eq_self)
  have t: "unat t = unat total" using assms(6) by (simp add: t_def unsigned_ucast_eq take_bit_nat_eq_self total)
  have "total + 23 \<le> 64"
    using assms(6) total by (simp add: word_le_nat_alt unat_word_ariths)
  then have "(total + 23) AND NOT 23 \<le> 64" using word_and_le2 order_trans by blast
  then have V: "gas_validate gas = (UACPI_STATUS_OK, (24, t))"
    using assms(1,2,7) by (simp add: gas_validate_def W total_def [symmetric] t_def Let_def
        UACPI_ADDRESS_SPACE_SYSTEM_IO_def UACPI_ADDRESS_SPACE_SYSTEM_MEMORY_def)
  have td: "unat (ucast (t div 8) :: u64) = unat t div 8"
    using unsigned_less [of t, where ?'a = nat] by (simp add: unsigned_ucast_eq take_bit_nat_eq_self unat_div)
  have "unat t div 8 \<noteq> 0" "unat t div 8 \<le> 8" using assms(5,6) t total by auto
  then have n0: "(ucast (t div 8) :: u64) \<noteq> 0" and n8: "(ucast (t div 8) :: u64) \<le> 8"
    using td by (auto simp: word_le_nat_alt)
  have lim: "gas_address gas < ACPI_IDENTITY_MAP_LIMIT"
    using assms(8) by (simp add: ACPI_IDENTITY_MAP_LIMIT_def word_less_nat_alt)
  have "8 \<le> ACPI_IDENTITY_MAP_LIMIT - gas_address gas"
    using assms(8) lim by (simp add: ACPI_IDENTITY_MAP_LIMIT_def word_less_nat_alt word_le_nat_alt unat_sub)
  then have "uacpi_kernel_map (gas_address gas) (ucast (t div 8)) s = (gas_address gas, s)"
    by (intro identity_map [OF lim _ n0] order_trans [OF n8])
  moreover have "gas_address gas \<noteq> UACPI_MAP_FAILED"
    using lim unfolding UACPI_MAP_FAILED_def ACPI_IDENTITY_MAP_LIMIT_def by auto
  ultimately have M: "uacpi_map_gas_noalloc tmp gas m s = Some (UACPI_STATUS_OK, g, s)"
    using assms(1) V by (simp add: uacpi_map_gas_noalloc_def g_def Let_def)
  have U: "uacpi_unmap_gas_nofree g s = Some s"
    using identity_unmap [OF lim] by (simp add: uacpi_unmap_gas_nofree_def g_def)
  have t0: "t \<noteq> 0" using assms(5) t total by auto
  have off: "\<not> 24 \<le> register_bit_offset gas" using assms(4) by (simp add: word_le_nat_alt)
  have "uacpi_gas_write_mapped g v s = Some (UACPI_STATUS_INVALID_ARGUMENT, s)"
    using t0 off by (simp add: uacpi_gas_write_mapped_def g_def gas_write_loop.simps gas_write_def uacpi_system_memory_write_def Let_def)
  moreover have "uacpi_gas_read_mapped tmp g dat s = Some (UACPI_STATUS_INVALID_ARGUMENT, 0, s)"
    using t0 off by (simp add: uacpi_gas_read_mapped_def g_def gas_read_loop.simps gas_read_def uacpi_system_memory_read_def Let_def)
  moreover have "gas_mapping g = gas_address gas" "gas_space g = In_Memory" "access_bit_width g = 24"
    by (simp_all add: g_def)
  ultimately show ?thesis
    using M U by (simp add: uacpi_gas_write_def uacpi_gas_read_def)
qed

definition dword_gas :: acpi_gas where
  "dword_gas = \<lparr>address_space_id = 0, register_bit_width = 24, register_bit_offset = 8, access_size = 3,
     gas_address = 0x30000010\<rparr>"

theorem gas_dword_access_refused_witness:
  "\<forall>(m :: uacpi_mapped_gas) (s :: unit acpi_scheme). uacpi_gas_write 0 dword_gas m 7 s = Some (UACPI_STATUS_INVALID_ARGUMENT, s)"
proof (intro allI)
  fix m :: uacpi_mapped_gas and s :: "unit acpi_scheme"
  show "uacpi_gas_write 0 dword_gas m 7 s = Some (UACPI_STATUS_INVALID_ARGUMENT, s)"
    using gas_dword_access_refused [of dword_gas 0 m s 7]
    by (simp add: dword_gas_def UACPI_ADDRESS_SPACE_SYSTEM_MEMORY_def ACPI_IDENTITY_MAP_LIMIT_def)
qed

end
