(* ===== verification/AcpiRegistersProps.thy ===== *)
theory AcpiRegistersProps
  imports AcpiRegisters AcpiGasProps AcpiProps
begin

text \<open>
  What the functions of \<open>AcpiRegisters\<close> do to a register whose first block is in memory and whose second block does
  not exist, and what a write to a status field does to the other status bits.
\<close>

section \<open>A register of one block in memory\<close>

definition single_block :: "u8 \<Rightarrow> uacpi_mapped_gas \<Rightarrow> 'a acpi_regs_scheme \<Rightarrow> bool" where
  "single_block i g s \<longleftrightarrow>
     reg_states (g_register_mappings s i) 0 = REGISTER_MAPPING_STATE_MAPPED
     \<and> reg_states (g_register_mappings s i) 1 = REGISTER_MAPPING_STATE_NOT_NEEDED
     \<and> reg_mappings (g_register_mappings s i) 0 = g
     \<and> gas_space g = In_Memory \<and> access_bit_width g \<in> {8, 16, 32, 64} \<and> unat (total_bit_width g) \<le> 64"

lemma same_regs:
  assumes "set_bytes (\<lambda>_. 0) s' = set_bytes (\<lambda>_. 0) (s :: 'a acpi_regs_scheme)"
  shows "g_register_mappings s' = g_register_mappings s" "rt_init_level s' = rt_init_level s" "g_reg_lock s' = g_reg_lock s"
proof -
  have "g_register_mappings (set_bytes m t) = g_register_mappings t" "rt_init_level (set_bytes m t) = rt_init_level t"
    "g_reg_lock (set_bytes m t) = g_reg_lock t" for m and t :: "'a acpi_regs_scheme"
    by (simp_all add: set_bytes_def)
  with assms show "g_register_mappings s' = g_register_mappings s" "rt_init_level s' = rt_init_level s" "g_reg_lock s' = g_reg_lock s"
    by metis+
qed

lemma single_ready: "single_block i g s \<Longrightarrow> ensure_register_mapped tmp spec i s = Some (UACPI_STATUS_OK, s)"
  by (simp add: single_block_def ensure_register_mapped_def)

lemma single_read:
  assumes "single_block i g s" "uacpi_gas_read_mapped tmp g dat s = Some (UACPI_STATUS_OK, r, s)"
  shows "do_read_register tmp dat spec i out s = Some (UACPI_STATUS_OK, r AND NOT (write_only_mask spec), s)"
  using assms by (simp add: do_read_register_def do_read_one_def single_block_def)

lemma single_write:
  assumes "single_block i g s"
  shows "\<exists>s' r. write_blocks i v v s = Some (UACPI_STATUS_OK, s') \<and> single_block i g s' \<and> rt_init_level s' = rt_init_level s
    \<and> uacpi_gas_read_mapped tmp g dat s' = Some (UACPI_STATUS_OK, r, s') \<and> (\<forall>k. bit r k \<longleftrightarrow> bit v k \<and> covered g k)"
proof -
  from assms have g: "gas_space g = In_Memory" "access_bit_width g \<in> {8, 16, 32, 64}" "unat (total_bit_width g) \<le> 64"
    by (simp_all add: single_block_def)
  from mapped_write_read [OF g, of v s tmp dat] obtain s' r where
    W: "uacpi_gas_write_mapped g v s = Some (UACPI_STATUS_OK, s')"
      "uacpi_gas_read_mapped tmp g dat s' = Some (UACPI_STATUS_OK, r, s')"
      "\<forall>k. bit r k \<longleftrightarrow> bit v k \<and> covered g k" "set_bytes (\<lambda>_. 0) s' = set_bytes (\<lambda>_. 0) s"
    by blast
  note R = same_regs [OF W(4)]
  have "write_blocks i v v s = Some (UACPI_STATUS_OK, s')"
    using assms W(1) R(1) by (simp add: write_blocks_def do_write_one_def single_block_def)
  moreover have "single_block i g s'" using assms R(1) by (simp add: single_block_def)
  ultimately show ?thesis using W R(2) by blast
qed

section \<open>The fields of a register that is preserved\<close>

lemma preserved_kind:
  assumes "i \<le> UACPI_REGISTER_MAX" "access_kind (g_registers ! unat i) = access_kind_value REGISTER_ACCESS_KIND_PRESERVE"
  shows "reg_kind (g_registers ! unat i) = 0"
proof -
  have "unat i < 9" using assms(1) by (simp add: register_consts word_le_nat_alt)
  then have "unat i \<in> {0, 1, 2, 3, 4, 5, 6, 7, 8}" by auto
  then show ?thesis using assms(2) by (auto simp: g_registers_def gas_register_def)
qed

lemma field_reg:
  assumes "f \<le> UACPI_REGISTER_FIELD_MAX"
  shows "reg (g_fields ! unat f) \<le> UACPI_REGISTER_MAX"
proof -
  have "length g_fields = 23" by (simp add: g_fields_def)
  moreover have "unat f < 23" using assms by (simp add: register_consts word_le_nat_alt)
  ultimately have "g_fields ! unat f \<in> set g_fields" by simp
  moreover have "\<forall>x \<in> set g_fields. reg x \<le> UACPI_REGISTER_MAX" by (simp add: g_fields_def register_consts)
  ultimately show ?thesis by blast
qed

text \<open>The value of a register after a write to one of its fields, and its bits.\<close>

definition with_field :: "register_field \<Rightarrow> u64 \<Rightarrow> u64 \<Rightarrow> u64" where
  "with_field fld v cur = (cur AND NOT (field_mask fld)) OR (push_bit (field_offset fld) v AND field_mask fld)"

lemma field_value:
  "drop_bit (field_offset fld) (with_field fld v cur AND field_mask fld) = v AND drop_bit (field_offset fld) (field_mask fld)"
proof (rule bit_word_eqI)
  fix k
  show "bit (drop_bit (field_offset fld) (with_field fld v cur AND field_mask fld)) k
    = bit (v AND drop_bit (field_offset fld) (field_mask fld)) k"
    by (auto simp: with_field_def bit_simps dest: bit_imp_le_length)
qed

lemma preserved_write:
  assumes "single_block i g s" "do_read_register tmp dat spec i 0 s = Some (UACPI_STATUS_OK, d, s)"
    and "access_kind spec = access_kind_value REGISTER_ACCESS_KIND_PRESERVE"
    and "\<forall>k. bit (preserve_mask spec) k \<longrightarrow> (bit v k \<longleftrightarrow> bit d k)"
  shows "do_write_register tmp dat spec i v s = write_blocks i v v s"
proof (cases "preserve_mask spec = 0")
  case False
  have "(v AND NOT (preserve_mask spec)) OR (d AND preserve_mask spec) = v"
    by (rule bit_word_eqI) (use assms(4) in \<open>auto simp: bit_simps\<close>)
  then show ?thesis using assms(2,3) False by (simp add: do_write_register_def Let_def)
qed (simp add: do_write_register_def)

text \<open>
  C35. A field of a register whose other bits are preserved, with one block in memory: a write to the field succeeds, a
  read of the field then returns the value (its bits inside the field), and a read of the whole register
  returns its previous value with only the field changed.  The field must lie inside the block and outside
  the bits that are write-only or preserved.
\<close>

theorem register_field_roundtrip:
  assumes "UACPI_INIT_LEVEL_SUBSYSTEM_INITIALIZED \<le> rt_init_level s" "f \<le> UACPI_REGISTER_FIELD_MAX"
    and "fld = g_fields ! unat f" "spec = g_registers ! unat (reg fld)"
    and "access_kind spec = access_kind_value REGISTER_ACCESS_KIND_PRESERVE" "single_block (reg fld) g s"
    and "\<forall>k. bit (field_mask fld) k \<longrightarrow> covered g k \<and> \<not> bit (write_only_mask spec) k \<and> \<not> bit (preserve_mask spec) k"
  shows "\<exists>cur s'. uacpi_read_register tmp dat (reg fld) out s = Some (UACPI_STATUS_OK, cur, s)
    \<and> uacpi_write_register_field tmp dat f v s = Some (UACPI_STATUS_OK, s')
    \<and> uacpi_read_register_field tmp dat f out s' = Some (UACPI_STATUS_OK, v AND drop_bit (field_offset fld) (field_mask fld), s')
    \<and> uacpi_read_register tmp dat (reg fld) out s' = Some (UACPI_STATUS_OK, with_field fld v cur, s')"
proof -
  define i where "i = reg fld"
  have i: "i \<le> UACPI_REGISTER_MAX" unfolding i_def assms(3) by (rule field_reg [OF assms(2)])
  have kind: "reg_kind spec = 0" unfolding assms(4) by (rule preserved_kind) (use i assms(4,5) i_def in simp_all)
  have spec: "get_reg i = Some spec" using i by (simp add: get_reg_def assms(4) i_def)
  from assms(6) have S: "single_block i g s" by (simp add: i_def)
  then obtain r where r: "uacpi_gas_read_mapped tmp g dat s = Some (UACPI_STATUS_OK, r, s)" "\<forall>k. bit r k \<longrightarrow> covered g k"
    using mapped_read [of g tmp dat s] by (auto simp: single_block_def)
  define cur where "cur = r AND NOT (write_only_mask spec)"
  note R = single_read [OF S r(1), of spec, folded cur_def]
  have W: "do_write_register tmp dat spec i (with_field fld v cur) s = write_blocks i (with_field fld v cur) (with_field fld v cur) s"
    by (rule preserved_write [OF S R assms(5)]) (use assms(7) in \<open>auto simp: with_field_def cur_def bit_simps\<close>)
  from single_write [OF S, of "with_field fld v cur" tmp dat] obtain s' r' where
    w: "write_blocks i (with_field fld v cur) (with_field fld v cur) s = Some (UACPI_STATUS_OK, s')"
      "single_block i g s'" "rt_init_level s' = rt_init_level s"
      "uacpi_gas_read_mapped tmp g dat s' = Some (UACPI_STATUS_OK, r', s')"
      "\<forall>k. bit r' k \<longleftrightarrow> bit (with_field fld v cur) k \<and> covered g k"
    by blast
  have "r' AND NOT (write_only_mask spec) = with_field fld v cur"
    by (rule bit_word_eqI) (use w(5) r(2) assms(7) in \<open>auto simp: with_field_def cur_def bit_simps\<close>)
  with single_read [OF w(2,4)] have R': "do_read_register tmp dat spec i out s' = Some (UACPI_STATUS_OK, with_field fld v cur, s')" for out
    by simp
  have lvl: "\<not> rt_init_level s < UACPI_INIT_LEVEL_SUBSYSTEM_INITIALIZED" "\<not> f > UACPI_REGISTER_FIELD_MAX"
    using assms(1,2) by (simp_all add: not_less)
  have "uacpi_read_register tmp dat i out s = Some (UACPI_STATUS_OK, cur, s)"
    using lvl spec single_ready [OF S, of tmp spec] R [of out] by (simp add: uacpi_read_register_def)
  moreover have "uacpi_read_register tmp dat i out s' = Some (UACPI_STATUS_OK, with_field fld v cur, s')"
    using lvl w(3) spec single_ready [OF w(2), of tmp spec] R' [of out] by (simp add: uacpi_read_register_def)
  moreover have "uacpi_write_register_field tmp dat f v s = Some (UACPI_STATUS_OK, s')"
    using lvl kind single_ready [OF S, of tmp spec] R [of 0] W w(1)
    by (simp add: uacpi_write_register_field_def write_field_locked_def Let_def uacpi_kernel_lock_spinlock_def
        uacpi_kernel_unlock_spinlock_def with_field_def i_def flip: assms(3,4))
  moreover have "uacpi_read_register_field tmp dat f out s' = Some (UACPI_STATUS_OK, v AND drop_bit (field_offset fld) (field_mask fld), s')"
    using lvl w(3) single_ready [OF w(2), of tmp spec] R' [of out]
    by (simp add: uacpi_read_register_field_def Let_def field_value [unfolded drop_bit_and] i_def flip: assms(3,4))
  ultimately show ?thesis unfolding i_def by blast
qed

section \<open>The status fields\<close>

text \<open>
  C36. When the library is initialised and the two blocks of the status register PM1_STS can be mapped and read, whether they are in memory or ports
  (the reads may change the state, as a port access does): a write to a field of the register, where a one clears an
  event, is meant to write only the bits of the field.  The code compares the kind of the register with an access
  kind, so it takes the path of
  a preserved register: it reads the events that are pending in both blocks and writes every one of them
  back, except the field's own bits, which come from the argument, and the ignored bit 11.  So clearing one
  event clears all others that are pending.
\<close>

theorem status_field_write_clears_all:
  assumes "UACPI_INIT_LEVEL_SUBSYSTEM_INITIALIZED \<le> rt_init_level s" "f \<le> UACPI_REGISTER_FIELD_MAX"
    and "reg (g_fields ! unat f) = UACPI_REGISTER_PM1_STS"
    and "ensure_register_mapped tmp (g_registers ! 0) UACPI_REGISTER_PM1_STS s = Some (UACPI_STATUS_OK, s0)"
    and "do_read_one tmp dat UACPI_REGISTER_PM1_STS 0 0 s0 = Some (UACPI_STATUS_OK, a, s1)"
    and "do_read_one tmp dat UACPI_REGISTER_PM1_STS 1 0 s1 = Some (UACPI_STATUS_OK, b, s2)"
  shows "\<exists>x. uacpi_write_register_field tmp dat f v s = write_blocks UACPI_REGISTER_PM1_STS x x s2
    \<and> (\<forall>k. bit x k \<longleftrightarrow> k \<noteq> 11 \<and> bit (with_field (g_fields ! unat f) v (a OR b)) k)"
proof (intro exI conjI)
  let ?fld = "g_fields ! unat f"
  let ?x = "with_field ?fld v (a OR b) AND NOT ACPI_PM1_STS_IGN0_MASK"
  have spec: "reg_kind (g_registers ! 0) = 0" "write_only_mask (g_registers ! 0) = 0"
    "preserve_mask (g_registers ! 0) = ACPI_PM1_STS_IGN0_MASK" "access_kind (g_registers ! 0) = 1"
    by (simp_all add: g_registers_def gas_register_def)
  have z: "unat UACPI_REGISTER_PM1_STS = 0" "ACPI_PM1_STS_IGN0_MASK \<noteq> 0" by (simp_all add: register_consts)
  have lvl: "\<not> rt_init_level s < UACPI_INIT_LEVEL_SUBSYSTEM_INITIALIZED" "\<not> f > UACPI_REGISTER_FIELD_MAX"
    using assms(1,2) by (simp_all add: not_less)
  have R: "do_read_register tmp dat (g_registers ! 0) UACPI_REGISTER_PM1_STS 0 s0 = Some (UACPI_STATUS_OK, a OR b, s2)"
    using assms(5,6) spec(2) by (simp add: do_read_register_def)
  have ign: "bit ACPI_PM1_STS_IGN0_MASK k \<longleftrightarrow> k = 11" for k
    unfolding ACPI_PM1_STS_IGN0_MASK_def bit_push_bit_iff by (auto simp: bit_1_iff)
  show "uacpi_write_register_field tmp dat f v s = write_blocks UACPI_REGISTER_PM1_STS ?x ?x s2"
    using lvl spec z assms(3,4) R
    by (simp add: uacpi_write_register_field_def write_field_locked_def do_write_register_def Let_def with_field_def
        uacpi_kernel_lock_spinlock_def uacpi_kernel_unlock_spinlock_def)
  show "\<forall>k. bit ?x k \<longleftrightarrow> k \<noteq> 11 \<and> bit (with_field ?fld v (a OR b)) k"
    by (auto simp: ign bit_simps dest: bit_imp_le_length)
qed

section \<open>Witnesses\<close>

text \<open>
  Sixteen-bit registers at \<open>0x30000010\<close> (status) and \<open>0x30000020\<close> (enable), in an otherwise empty machine; the
  other registers are not there.
\<close>

definition block_at :: "u64 \<Rightarrow> uacpi_mapped_gas" where
  "block_at a = \<lparr>gas_mapping = a, access_bit_width = 16, total_bit_width = 16, gas_bit_offset = 0, gas_space = In_Memory\<rparr>"

definition no_gas :: acpi_gas where
  "no_gas = \<lparr>address_space_id = 0, register_bit_width = 0, register_bit_offset = 0, access_size = 0, gas_address = 0\<rparr>"

definition two_registers :: acpi_regs where
  "two_registers = acpi.extend acpi_start
     (acpi_regs.fields
        \<lparr>pm1a_status_blk = no_gas, pm1b_status_blk = no_gas, pm1a_enable_blk = no_gas, pm1b_enable_blk = no_gas,
         x_pm1a_cnt_blk = no_gas, x_pm1b_cnt_blk = no_gas, x_pm_tmr_blk = no_gas, x_pm2_cnt_blk = no_gas,
         sleep_control_reg = no_gas, sleep_status_reg = no_gas, reset_reg = no_gas, smi_cmd = 0\<rparr>
        1 uacpi_kernel_create_spinlock
        (\<lambda>i. \<lparr>reg_mappings = (\<lambda>_. block_at (if i = 0 then 0x30000010 else 0x30000020)),
              reg_states = (\<lambda>idx. if idx = 0 then REGISTER_MAPPING_STATE_MAPPED else REGISTER_MAPPING_STATE_NOT_NEEDED)\<rparr>))"

lemma two_registers:
  "rt_init_level two_registers = 1" "single_block i (block_at (if i = 0 then 0x30000010 else 0x30000020)) two_registers"
  by (simp_all add: two_registers_def acpi.extend_def acpi_regs.fields_def single_block_def block_at_def)

theorem register_field_roundtrip_witness:
  "\<exists>s'. uacpi_write_register_field 0 0 UACPI_REGISTER_FIELD_PWRBTN_EN 1 two_registers = Some (UACPI_STATUS_OK, s')
    \<and> uacpi_read_register_field 0 0 UACPI_REGISTER_FIELD_PWRBTN_EN 0 s' = Some (UACPI_STATUS_OK, 1, s')"
proof -
  have "\<forall>k. bit (push_bit 8 1 :: u64) k \<longrightarrow> covered (block_at 0x30000020) k"
    unfolding bit_push_bit_iff by (auto simp: bit_1_iff covered_def block_at_def unit_count_def)
  then show ?thesis
    using register_field_roundtrip [OF _ _ refl refl, of two_registers UACPI_REGISTER_FIELD_PWRBTN_EN "block_at 0x30000020" 0 0 0 1]
      two_registers(1) two_registers(2) [of 1]
    by (auto simp: UACPI_INIT_LEVEL_SUBSYSTEM_INITIALIZED_def register_consts g_fields_def g_registers_def gas_register_def)
qed

text \<open>
  The status register as two blocks of ports behind one handle; the ports answer 0x21 (two events are pending), and the
  bytes of the handle say 0xAA everywhere, so the first port is 0xAAAA.
\<close>

definition port_block :: uacpi_mapped_gas where
  "port_block = \<lparr>gas_mapping = 0x5000, access_bit_width = 16, total_bit_width = 16, gas_bit_offset = 0, gas_space = In_IO\<rparr>"

definition port_registers :: acpi_regs where
  "port_registers = two_registers\<lparr>port_in := (\<lambda>l p. 0x21),
     g_register_mappings := (\<lambda>i. \<lparr>reg_mappings = (\<lambda>_. port_block), reg_states = (\<lambda>_. REGISTER_MAPPING_STATE_MAPPED)\<rparr>)\<rparr>"

lemma port_registers_facts:
  "rt_init_level port_registers = 1" "bytes port_registers = (\<lambda>_. 0xAA)"
  "g_register_mappings port_registers = (\<lambda>i. \<lparr>reg_mappings = (\<lambda>_. port_block), reg_states = (\<lambda>_. REGISTER_MAPPING_STATE_MAPPED)\<rparr>)"
  "port_in port_registers = (\<lambda>l p. 0x21)"
  by (simp_all add: port_registers_def two_registers_def acpi.extend_def acpi_regs.fields_def acpi_start_def)

lemma port_loads:
  "load 8 0x5000 (store 8 0x6000 0 (\<lambda>_. 0xAA)) = 0xAAAAAAAAAAAAAAAA"
  "load 8 0x5008 (store 8 0x6000 0 (\<lambda>_. 0xAA)) = 0xAAAAAAAAAAAAAAAA"
  "load 8 0x6000 (store 2 0x6000 0x21 (store 8 0x6000 0 (\<lambda>_. 0xAA))) = 0x21"
  "load 8 0x5000 (store 8 0x6000 0 (store 2 0x6000 0x21 (store 8 0x6000 0 (\<lambda>_. 0xAA)))) = 0xAAAAAAAAAAAAAAAA"
  "load 8 0x5008 (store 8 0x6000 0 (store 2 0x6000 0x21 (store 8 0x6000 0 (\<lambda>_. 0xAA)))) = 0xAAAAAAAAAAAAAAAA"
  "load 8 0x6000 (store 2 0x6000 0x21 (store 8 0x6000 0 (store 2 0x6000 0x21 (store 8 0x6000 0 (\<lambda>_. 0xAA))))) = 0x21"
  by code_simp+

lemma gas_read_loop_once:
  "gas_read_loop rd 16 0 16 0 0 dat 0 s = (let (ret, d, t) = rd 0 2 dat s in
     Some (ret, if ret = UACPI_STATUS_OK then d AND 0xFFFF else 0, t))"
  by (simp add: gas_read_loop.simps Let_def gas_mask_def mask_eq_exp_minus_1 split: prod.split)

lemma port_read:
  fixes s :: acpi_regs
  assumes "port_in s = (\<lambda>l p. 0x21)" "bytes s = (\<lambda>_. 0xAA) \<or> bytes s = store 2 0x6000 0x21 (store 8 0x6000 0 (\<lambda>_. 0xAA))"
  shows "\<exists>t. uacpi_gas_read_mapped 0x6000 port_block 0 s = Some (UACPI_STATUS_OK, 0x21, t) \<and> port_in t = port_in s
    \<and> bytes t = store 2 0x6000 0x21 (store 8 0x6000 0 (bytes s)) \<and> hw_log t = In16 0xAAAA # hw_log s
    \<and> g_register_mappings t = g_register_mappings s"
proof -
  have l: "load 8 0x5000 (store 8 0x6000 0 (bytes s)) = 0xAAAAAAAAAAAAAAAA"
    "load 8 0x5008 (store 8 0x6000 0 (bytes s)) = 0xAAAAAAAAAAAAAAAA"
    "load 8 0x6000 (store 2 0x6000 0x21 (store 8 0x6000 0 (bytes s))) = 0x21"
    using assms(2) port_loads by auto
  show ?thesis
    unfolding uacpi_gas_read_mapped_def port_block_def
    by (simp add: gas_read_loop_once gas_read_def uacpi_system_io_read_def uacpi_kernel_io_read16_def io_len_def io_base_def
        poke_def set_bytes_def l inw_def emit_def assms(1) Let_def)
qed

theorem status_field_write_clears_all_witness:
  "\<exists>x t. uacpi_write_register_field 0x6000 0 UACPI_REGISTER_FIELD_PWRBTN_STS 1 port_registers
      = write_blocks UACPI_REGISTER_PM1_STS x x t
    \<and> hw_log t = [In16 0xAAAA, In16 0xAAAA] @ hw_log port_registers \<and> bit x 0 \<and> bit x 5 \<and> bit x 8"
proof -
  let ?s = port_registers and ?f = "g_fields ! 3"
  note F = port_registers_facts
  obtain s1 where 1: "uacpi_gas_read_mapped 0x6000 port_block 0 ?s = Some (UACPI_STATUS_OK, 0x21, s1)" "port_in s1 = port_in ?s"
    "bytes s1 = store 2 0x6000 0x21 (store 8 0x6000 0 (bytes ?s))" "hw_log s1 = In16 0xAAAA # hw_log ?s"
    "g_register_mappings s1 = g_register_mappings ?s"
    using port_read [of ?s] F by auto
  obtain s2 where 2: "uacpi_gas_read_mapped 0x6000 port_block 0 s1 = Some (UACPI_STATUS_OK, 0x21, s2)"
    "hw_log s2 = In16 0xAAAA # hw_log s1"
    using port_read [of s1] F 1(2,3) by auto
  have R: "do_read_one 0x6000 0 UACPI_REGISTER_PM1_STS 0 0 ?s = Some (UACPI_STATUS_OK, 0x21, s1)"
    "do_read_one 0x6000 0 UACPI_REGISTER_PM1_STS 1 0 s1 = Some (UACPI_STATUS_OK, 0x21, s2)"
    using 1 2 F by (simp_all add: do_read_one_def)
  have n: "unat UACPI_REGISTER_FIELD_PWRBTN_STS = 3" "UACPI_REGISTER_FIELD_PWRBTN_STS \<le> UACPI_REGISTER_FIELD_MAX"
    "reg ?f = UACPI_REGISTER_PM1_STS" "field_offset ?f = 8" "field_mask ?f = push_bit 8 1"
    by (simp_all add: register_consts g_fields_def)
  have e: "ensure_register_mapped 0x6000 (g_registers ! 0) UACPI_REGISTER_PM1_STS ?s = Some (UACPI_STATUS_OK, ?s)"
    using F by (simp add: ensure_register_mapped_def)
  obtain x where x: "uacpi_write_register_field 0x6000 0 UACPI_REGISTER_FIELD_PWRBTN_STS 1 ?s
      = write_blocks UACPI_REGISTER_PM1_STS x x s2"
    "\<forall>k. bit x k \<longleftrightarrow> k \<noteq> 11 \<and> bit (with_field ?f 1 (0x21 OR 0x21)) k"
    using status_field_write_clears_all [of ?s UACPI_REGISTER_FIELD_PWRBTN_STS "0x6000" ?s 0 "0x21" s1 "0x21" s2 1] F(1) R e n(1-3)
    by (auto simp: UACPI_INIT_LEVEL_SUBSYSTEM_INITIALIZED_def)
  have "with_field ?f 1 (0x21 OR 0x21) = 0x121" by (simp add: with_field_def n)
  then have "bit x 0" "bit x 5" "bit x 8" using x(2) by simp_all
  with x(1) 1(4) 2(2) show ?thesis by auto
qed

end
