(* ===== verification/AcpiOsi.thy ===== *)
theory AcpiOsi
  imports AcpiOs AcpiMutex
begin

text \<open>
  The strings that the \<open>_OSI\<close> method of the firmware can ask about (\<open>source/osi.c\<close>): the predefined array, the list
  of interfaces with those installed at run time at its front, and the query.

  The linked list is the list of its elements, from its head.  A name is its characters, without the
  terminator, and \<open>uacpi_strcmp\<close> of two names is 0 when they are equal; \<open>iface\<close> and \<open>name_copy\<close> are the heap blocks of
  an interface installed at run time, which is what is freed.  The mutex is the one of the services \<open>os\<close>.
\<close>

section \<open>State\<close>

record registered_interface =
  iface :: u64
  name :: string
  name_copy :: u64
  weight :: u8
  kind :: u8
  host_type :: u8
  disabled :: bool
  dynamic :: bool

definition UACPI_INTERFACE_KIND_VENDOR :: u8 where
  "UACPI_INTERFACE_KIND_VENDOR = push_bit 0 1"

definition UACPI_INTERFACE_KIND_FEATURE :: u8 where
  "UACPI_INTERFACE_KIND_FEATURE = push_bit 1 1"

datatype uacpi_interface_action = UACPI_INTERFACE_ACTION_DISABLE | UACPI_INTERFACE_ACTION_ENABLE

definition windows :: "string \<Rightarrow> u8 \<Rightarrow> registered_interface" where
  "windows txt w =
     \<lparr>iface = 0, name = ''Windows '' @ txt, name_copy = 0, weight = w, kind = UACPI_INTERFACE_KIND_VENDOR, host_type = 0,
      disabled = False, dynamic = False\<rparr>"

definition host_feature :: "string \<Rightarrow> u8 \<Rightarrow> registered_interface" where
  "host_feature txt t =
     \<lparr>iface = 0, name = txt, name_copy = 0, weight = 0, kind = UACPI_INTERFACE_KIND_FEATURE, host_type = t,
      disabled = True, dynamic = False\<rparr>"

definition predefined_interfaces :: "registered_interface list" where
  "predefined_interfaces =
    [windows ''2000'' 1,
     windows ''2001'' 2,
     windows ''2001 SP1'' 3,
     windows ''2001.1'' 4,
     windows ''2001 SP2'' 5,
     windows ''2001.1 SP1'' 6,
     windows ''2006'' 7,
     windows ''2006.1'' 8,
     windows ''2006 SP1'' 9,
     windows ''2006 SP2'' 10,
     windows ''2009'' 11,
     windows ''2012'' 12,
     windows ''2013'' 13,
     windows ''2015'' 14,
     windows ''2016'' 15,
     windows ''2017'' 16,
     windows ''2017.2'' 17,
     windows ''2018'' 18,
     windows ''2018.2'' 19,
     windows ''2019'' 20,
     windows ''2020'' 21,
     windows ''2021'' 22,
     windows ''2022'' 23,
     host_feature ''Module Device'' 1,
     host_feature ''Processor Device'' 2,
     host_feature ''3.0 Thermal Model'' 3,
     host_feature ''3.0 _SCP Extensions'' 4,
     host_feature ''Processor Aggregator Device'' 5,
     \<lparr>iface = 0, name = ''Extended Address Space Descriptor'', name_copy = 0, weight = 0, kind = 0, host_type = 0,
      disabled = False, dynamic = False\<rparr>]"

text \<open>
  \<open>registered_interfaces\<close> is empty for NULL.  \<open>predefined\<close> is the array while it is not linked into the list;
  \<open>'w\<close> is the state of the kernel.
\<close>

record 'w osi =
  kernel :: 'w
  osi_init_level :: u8
  interface_mutex :: u64
  predefined :: "registered_interface list"
  registered_interfaces :: "registered_interface list"
  interface_handler :: "(string \<Rightarrow> bool \<Rightarrow> bool) option"
  latest_queried_interface :: u32

section \<open>Initialization\<close>

definition uacpi_initialize_interfaces :: "'w os \<Rightarrow> 'w osi \<Rightarrow> (uacpi_status \<times> 'w osi) option" where
  "uacpi_initialize_interfaces os s =
     map_option (\<lambda>(h, w).
       let s = s\<lparr>kernel := w, interface_mutex := h\<rparr> in
       if h = 0 then (UACPI_STATUS_OUT_OF_MEMORY, s\<lparr>registered_interfaces := take 1 (predefined s)\<rparr>)
       else (UACPI_STATUS_OK, s\<lparr>registered_interfaces := predefined s\<rparr>))
     (os_create_mutex os (kernel s))"

text \<open>The loop over the list; the result is the predefined interfaces it met, in order, and the state.\<close>

fun release_interfaces ::
  "registered_interface list \<Rightarrow> 'a acpi_scheme \<Rightarrow> (registered_interface list \<times> 'a acpi_scheme) option" where
  "release_interfaces [] w = Some ([], w)"
| "release_interfaces (i # rest) w =
     (if dynamic i
      then
        Option.bind (if name_copy i = 0 then Some w else uacpi_kernel_free (name_copy i) w) (\<lambda>w.
          Option.bind (uacpi_kernel_free (iface i) w) (release_interfaces rest))
      else
        map_option (\<lambda>(kept, w). (i\<lparr>disabled := (kind i = UACPI_INTERFACE_KIND_FEATURE)\<rparr> # kept, w))
          (release_interfaces rest w))"

definition uacpi_deinitialize_interfaces ::
  "'a acpi_scheme os \<Rightarrow> 'a acpi_scheme osi \<Rightarrow> 'a acpi_scheme osi option" where
  "uacpi_deinitialize_interfaces os s =
     Option.bind (release_interfaces (registered_interfaces s) (kernel s)) (\<lambda>(kept, w).
       Option.bind (if interface_mutex s \<noteq> 0 then os_free_mutex os (interface_mutex s) w else Some w) (\<lambda>w.
         Some (s\<lparr>kernel := w, predefined := kept @ drop (length kept) (predefined s), interface_mutex := 0,
                 interface_handler := None, latest_queried_interface := 0, registered_interfaces := []\<rparr>)))"

definition uacpi_latest_queried_vendor_interface :: "'w osi \<Rightarrow> u32" where
  "uacpi_latest_queried_vendor_interface s = latest_queried_interface s"

section \<open>Searches\<close>

fun find_interface_unlocked :: "string \<Rightarrow> registered_interface list \<Rightarrow> nat option" where
  "find_interface_unlocked nm [] = None"
| "find_interface_unlocked nm (i # rest) =
     (if name i = nm then Some 0 else map_option Suc (find_interface_unlocked nm rest))"

fun find_host_interface_unlocked :: "u8 \<Rightarrow> registered_interface list \<Rightarrow> nat option" where
  "find_host_interface_unlocked t [] = None"
| "find_host_interface_unlocked t (i # rest) =
     (if host_type i = t then Some 0 else map_option Suc (find_host_interface_unlocked t rest))"

section \<open>Operations\<close>

definition set_disabled :: "nat \<Rightarrow> bool \<Rightarrow> 'w osi \<Rightarrow> 'w osi" where
  "set_disabled p b s =
     s\<lparr>registered_interfaces := (registered_interfaces s)[p := (registered_interfaces s ! p)\<lparr>disabled := b\<rparr>]\<rparr>"

text \<open>The check of the level of initialization, and the body between acquire and release of the mutex.\<close>

definition locked ::
  "'w os \<Rightarrow> ('w osi \<Rightarrow> (uacpi_status \<times> 'w osi) option) \<Rightarrow> 'w osi \<Rightarrow> (uacpi_status \<times> 'w osi) option" where
  "locked os body s =
     (if osi_init_level s < 1 then Some (UACPI_STATUS_INIT_LEVEL_MISMATCH, s)
      else
        (let (ret, w) = uacpi_acquire_native_mutex os (interface_mutex s) (kernel s); s = s\<lparr>kernel := w\<rparr> in
         if ret \<noteq> UACPI_STATUS_OK then Some (ret, s)
         else
           map_option (\<lambda>(ret, s). (ret, s\<lparr>kernel := snd (uacpi_release_native_mutex os (interface_mutex s) (kernel s))\<rparr>))
             (body s)))"

text \<open>\<open>uacpi_install_interface\<close> under the mutex.\<close>

definition install_unlocked :: "string \<Rightarrow> u8 \<Rightarrow> 'a acpi_scheme osi \<Rightarrow> (uacpi_status \<times> 'a acpi_scheme osi) option" where
  "install_unlocked nm knd s =
     (case find_interface_unlocked nm (registered_interfaces s) of
        Some p \<Rightarrow>
          Some (UACPI_STATUS_ALREADY_EXISTS,
            if disabled (registered_interfaces s ! p) then set_disabled p False s else s)
      | None \<Rightarrow>
          Option.bind (uacpi_kernel_alloc 24 (kernel s)) (\<lambda>(i, w).
            if i = 0 then Some (UACPI_STATUS_OUT_OF_MEMORY, s\<lparr>kernel := w\<rparr>)
            else
              Option.bind (uacpi_kernel_alloc (of_nat (length nm) + 1) w) (\<lambda>(c, w).
                if c = 0
                then map_option (\<lambda>w. (UACPI_STATUS_OUT_OF_MEMORY, s\<lparr>kernel := w\<rparr>)) (uacpi_kernel_free i w)
                else
                  Some (UACPI_STATUS_OK,
                    s\<lparr>kernel := w,
                      registered_interfaces :=
                        \<lparr>iface = i, name = nm, name_copy = c, weight = 0, kind = knd, host_type = 0, disabled = False,
                         dynamic = True\<rparr> # registered_interfaces s\<rparr>))))"

definition uacpi_install_interface ::
  "'a acpi_scheme os \<Rightarrow> string \<Rightarrow> u8 \<Rightarrow> 'a acpi_scheme osi \<Rightarrow> (uacpi_status \<times> 'a acpi_scheme osi) option" where
  "uacpi_install_interface os nm knd = locked os (install_unlocked nm knd)"

text \<open>
  \<open>uacpi_uninstall_interface\<close> under the mutex, where an element installed at run time is unlinked; its blocks are freed
  after the release.
\<close>

definition uninstall_unlocked :: "string \<Rightarrow> 'w osi \<Rightarrow> (uacpi_status \<times> 'w osi) option" where
  "uninstall_unlocked nm s =
     (case find_interface_unlocked nm (registered_interfaces s) of
        None \<Rightarrow> Some (UACPI_STATUS_NOT_FOUND, s)
      | Some p \<Rightarrow>
          (let cur = registered_interfaces s ! p in
           if dynamic cur
           then Some (UACPI_STATUS_OK,
                  s\<lparr>registered_interfaces := take p (registered_interfaces s) @ drop (Suc p) (registered_interfaces s)\<rparr>)
           else if \<not> disabled cur then Some (UACPI_STATUS_OK, set_disabled p True s)
           else Some (UACPI_STATUS_NOT_FOUND, s)))"

definition uacpi_uninstall_interface ::
  "'a acpi_scheme os \<Rightarrow> string \<Rightarrow> 'a acpi_scheme osi \<Rightarrow> (uacpi_status \<times> 'a acpi_scheme osi) option" where
  "uacpi_uninstall_interface os nm s =
     (let unlinked = (case find_interface_unlocked nm (registered_interfaces s) of
                     Some p \<Rightarrow> if dynamic (registered_interfaces s ! p) then [registered_interfaces s ! p] else []
                   | None \<Rightarrow> [])
      in Option.bind (locked os (uninstall_unlocked nm) s) (\<lambda>(ret, s).
           if ret \<noteq> UACPI_STATUS_OK then Some (ret, s)
           else map_option (\<lambda>(kept, w). (ret, s\<lparr>kernel := w\<rparr>)) (release_interfaces unlinked (kernel s))))"

definition configure_host_interface :: "'w os \<Rightarrow> u8 \<Rightarrow> bool \<Rightarrow> 'w osi \<Rightarrow> (uacpi_status \<times> 'w osi) option" where
  "configure_host_interface os t enabled =
     locked os (\<lambda>s.
       case find_host_interface_unlocked t (registered_interfaces s) of
         None \<Rightarrow> Some (UACPI_STATUS_NOT_FOUND, s)
       | Some p \<Rightarrow> Some (UACPI_STATUS_OK, set_disabled p (\<not> enabled) s))"

definition uacpi_enable_host_interface :: "'w os \<Rightarrow> u8 \<Rightarrow> 'w osi \<Rightarrow> (uacpi_status \<times> 'w osi) option" where
  "uacpi_enable_host_interface os t = configure_host_interface os t True"

definition uacpi_disable_host_interface :: "'w os \<Rightarrow> u8 \<Rightarrow> 'w osi \<Rightarrow> (uacpi_status \<times> 'w osi) option" where
  "uacpi_disable_host_interface os t = configure_host_interface os t False"

definition uacpi_set_interface_query_handler ::
  "'w os \<Rightarrow> (string \<Rightarrow> bool \<Rightarrow> bool) option \<Rightarrow> 'w osi \<Rightarrow> (uacpi_status \<times> 'w osi) option" where
  "uacpi_set_interface_query_handler os handler =
     locked os (\<lambda>s.
       if interface_handler s \<noteq> None \<and> handler \<noteq> None then Some (UACPI_STATUS_ALREADY_EXISTS, s)
       else Some (UACPI_STATUS_OK, s\<lparr>interface_handler := handler\<rparr>))"

definition bulk_unlocked :: "uacpi_interface_action \<Rightarrow> u8 \<Rightarrow> registered_interface \<Rightarrow> registered_interface" where
  "bulk_unlocked action knd i =
     (if knd AND kind i \<noteq> 0 then i\<lparr>disabled := (action = UACPI_INTERFACE_ACTION_DISABLE)\<rparr> else i)"

definition uacpi_bulk_configure_interfaces ::
  "'w os \<Rightarrow> uacpi_interface_action \<Rightarrow> u8 \<Rightarrow> 'w osi \<Rightarrow> (uacpi_status \<times> 'w osi) option" where
  "uacpi_bulk_configure_interfaces os action knd =
     locked os (\<lambda>s. Some (UACPI_STATUS_OK,
       s\<lparr>registered_interfaces := map (bulk_unlocked action knd) (registered_interfaces s)\<rparr>))"

definition uacpi_handle_osi :: "'w os \<Rightarrow> string \<Rightarrow> bool \<Rightarrow> 'w osi \<Rightarrow> uacpi_status \<times> bool \<times> 'w osi" where
  "uacpi_handle_osi os txt out_value s =
     (let (ret, w) = uacpi_acquire_native_mutex os (interface_mutex s) (kernel s); s = s\<lparr>kernel := w\<rparr> in
      if ret \<noteq> UACPI_STATUS_OK then (ret, out_value, s)
      else
        (let (is_supported, s) =
           (case find_interface_unlocked txt (registered_interfaces s) of
              None \<Rightarrow> (False, s)
            | Some p \<Rightarrow>
                (let i = registered_interfaces s ! p;
                     s = (if ucast (weight i) > latest_queried_interface s then s\<lparr>latest_queried_interface := ucast (weight i)\<rparr> else s);
                     is_supported = (\<not> disabled i)
                 in (case interface_handler s of None \<Rightarrow> is_supported | Some h \<Rightarrow> h txt is_supported, s)))
         in (UACPI_STATUS_OK, is_supported,
             s\<lparr>kernel := snd (uacpi_release_native_mutex os (interface_mutex s) (kernel s))\<rparr>)))"

end
