(* ===== verification/AcpiOsiProps.thy ===== *)
theory AcpiOsiProps
  imports AcpiOsi AcpiMutexProps
begin

text \<open>
  The list of interfaces as a set of supported names: no name occurs twice, and every operation does to the set
  what its description in \<open>osi.h\<close> says.
\<close>

section \<open>The set of supported names\<close>

definition supported :: "'w osi \<Rightarrow> string set" where
  "supported s = name ` {i \<in> set (registered_interfaces s). \<not> disabled i}"

definition known :: "'w osi \<Rightarrow> string set" where
  "known s = name ` set (registered_interfaces s)"

definition osi_ok :: "'w osi \<Rightarrow> bool" where
  "osi_ok s \<longleftrightarrow> distinct (map name (registered_interfaces s)) \<and> interface_mutex s \<noteq> 0 \<and> \<not> osi_init_level s < 1"

lemma find_interface_some:
  "find_interface_unlocked nm l = Some p \<Longrightarrow> p < length l \<and> name (l ! p) = nm"
  by (induction l arbitrary: p) (auto split: if_splits)

lemma find_interface_none: "find_interface_unlocked nm l = None \<longleftrightarrow> nm \<notin> name ` set l"
  by (induction l) auto

lemma find_host_some:
  "find_host_interface_unlocked t l = Some p \<Longrightarrow> p < length l \<and> host_type (l ! p) = t"
  by (induction l arbitrary: p) (auto split: if_splits)

lemma one_of_name:
  assumes "distinct (map name l)" "p < length l" "i \<in> set l" "name i = name (l ! p)"
  shows "i = l ! p"
  using assms by (metis in_set_conv_nth length_map nth_eq_iff_index_eq nth_map)

lemma names_set_disabled [simp]: "map name (registered_interfaces (set_disabled p b s)) = map name (registered_interfaces s)"
  by (cases "p < length (registered_interfaces s)") (simp_all add: set_disabled_def map_update list_update_same_conv list_update_beyond)

lemma set_disabled_fields [simp]:
  "interface_mutex (set_disabled p b s) = interface_mutex s" "osi_init_level (set_disabled p b s) = osi_init_level s"
  "kernel (set_disabled p b s) = kernel s" "latest_queried_interface (set_disabled p b s) = latest_queried_interface s"
  by (simp_all add: set_disabled_def)

text \<open>A list around its element \<open>p\<close>.\<close>

lemma around:
  assumes "distinct (map name l)" "p < length l"
  obtains A B where "l = A @ l ! p # B" "length A = p" "name (l ! p) \<notin> name ` (set A \<union> set B)"
proof
  show l: "l = take p l @ l ! p # drop (Suc p) l" using assms(2) by (rule id_take_nth_drop)
  have "distinct (map name (take p l @ l ! p # drop (Suc p) l))" using assms(1) l by simp
  then show "name (l ! p) \<notin> name ` (set (take p l) \<union> set (drop (Suc p) l))" by auto
qed (use assms(2) in simp)

lemma supported_set_disabled:
  assumes "distinct (map name (registered_interfaces s))" "p < length (registered_interfaces s)"
  shows "supported (set_disabled p b s)
    = (if b then supported s - {name (registered_interfaces s ! p)} else insert (name (registered_interfaces s ! p)) (supported s))"
proof -
  from around [OF assms] obtain A B where l: "registered_interfaces s = A @ registered_interfaces s ! p # B" "length A = p"
    "name (registered_interfaces s ! p) \<notin> name ` (set A \<union> set B)" .
  define x where "x = registered_interfaces s ! p"
  have r: "registered_interfaces s = A @ x # B" "name x \<notin> name ` set A" "name x \<notin> name ` set B"
    using l by (auto simp: x_def)
  have n: "registered_interfaces s ! p = x" by (simp add: x_def)
  have u: "registered_interfaces (set_disabled p b s) = A @ x\<lparr>disabled := b\<rparr> # B"
    by (simp add: set_disabled_def n) (simp add: r(1) l(2) [symmetric] list_update_append)
  have e: "name ` {i \<in> set (A @ y # B). \<not> disabled i} = (if disabled y then {} else {name y}) \<union> name ` {i \<in> set A \<union> set B. \<not> disabled i}" for y
    by auto
  have "name x \<notin> name ` {i \<in> set A \<union> set B. \<not> disabled i}" using r(2,3) by auto
  then show ?thesis unfolding n supported_def u unfolding r(1) e by auto
qed

text \<open>What the removal of the element \<open>p\<close> does to the set.\<close>

lemma supported_remove:
  assumes "distinct (map name l)" "p < length l"
  shows "distinct (map name (take p l @ drop (Suc p) l))"
    and "name ` {i \<in> set (take p l @ drop (Suc p) l). \<not> disabled i} = name ` {i \<in> set l. \<not> disabled i} - {name (l ! p)}"
proof -
  from around [OF assms] obtain A B where l: "l = A @ l ! p # B" "length A = p" "name (l ! p) \<notin> name ` (set A \<union> set B)" .
  define x where "x = l ! p"
  have r: "l = A @ x # B" "name x \<notin> name ` set A" "name x \<notin> name ` set B" using l by (auto simp: x_def)
  have t: "take p l @ drop (Suc p) l = A @ B" using r(1) l(2) by simp
  show "distinct (map name (take p l @ drop (Suc p) l))" unfolding t using assms(1) r(1) by auto
  show "name ` {i \<in> set (take p l @ drop (Suc p) l). \<not> disabled i} = name ` {i \<in> set l. \<not> disabled i} - {name (l ! p)}"
    unfolding t x_def [symmetric] unfolding r(1) using r(2,3) by (auto simp: image_iff)
qed

lemma supported_kernel [simp]:
  "supported (s\<lparr>kernel := w\<rparr>) = supported s" "osi_ok (s\<lparr>kernel := w\<rparr>) \<longleftrightarrow> osi_ok s" "known (s\<lparr>kernel := w\<rparr>) = known s"
  by (simp_all add: supported_def osi_ok_def known_def)

lemma supported_latest [simp]:
  "supported (s\<lparr>latest_queried_interface := l\<rparr>) = supported s" "osi_ok (s\<lparr>latest_queried_interface := l\<rparr>) \<longleftrightarrow> osi_ok s"
  by (simp_all add: supported_def osi_ok_def)

lemma supported_name:
  assumes "distinct (map name (registered_interfaces s))" "p < length (registered_interfaces s)"
  shows "name (registered_interfaces s ! p) \<in> supported s \<longleftrightarrow> \<not> disabled (registered_interfaces s ! p)"
proof
  assume "name (registered_interfaces s ! p) \<in> supported s"
  then obtain i where "i \<in> set (registered_interfaces s)" "\<not> disabled i" "name i = name (registered_interfaces s ! p)"
    by (auto simp: supported_def)
  then show "\<not> disabled (registered_interfaces s ! p)" using one_of_name [OF assms] by auto
next
  assume "\<not> disabled (registered_interfaces s ! p)"
  then show "name (registered_interfaces s ! p) \<in> supported s"
    unfolding supported_def using assms(2) by (intro imageI) simp
qed

lemma install_unlocked_set:
  assumes "install_unlocked nm knd s = Some (ret, t)" "osi_ok s"
  shows "osi_ok t \<and> (ret = UACPI_STATUS_OUT_OF_MEMORY \<and> supported t = supported s
    \<or> ret = (if nm \<in> known s then UACPI_STATUS_ALREADY_EXISTS else UACPI_STATUS_OK) \<and> supported t = insert nm (supported s))"
proof (cases "find_interface_unlocked nm (registered_interfaces s)")
  case None
  then have "nm \<notin> known s" by (simp add: find_interface_none known_def)
  moreover from this have "supported (s\<lparr>kernel := w, registered_interfaces := x # registered_interfaces s\<rparr>) = insert nm (supported s)
      \<and> osi_ok (s\<lparr>kernel := w, registered_interfaces := x # registered_interfaces s\<rparr>)" if "name x = nm" "\<not> disabled x" for x w
    using that assms(2) by (auto simp: supported_def osi_ok_def known_def)
  ultimately show ?thesis
    using assms None by (auto simp: install_unlocked_def bind_eq_Some_conv split: if_splits)
next
  case (Some p)
  note f = find_interface_some [OF Some]
  have d: "distinct (map name (registered_interfaces s))" using assms(2) by (simp add: osi_ok_def)
  have k: "nm \<in> known s" using f by (auto simp: known_def)
  have t: "ret = UACPI_STATUS_ALREADY_EXISTS" "t = (if disabled (registered_interfaces s ! p) then set_disabled p False s else s)"
    using assms(1) Some by (simp_all add: install_unlocked_def split: if_splits)
  then show ?thesis
    using k f supported_name [OF d] supported_set_disabled [OF d] assms(2) by (auto simp: osi_ok_def)
qed

lemma uninstall_unlocked_set:
  assumes "uninstall_unlocked nm s = Some (ret, t)" "osi_ok s"
  shows "osi_ok t \<and> supported t = supported s - {nm} \<and> ret \<in> {UACPI_STATUS_OK, UACPI_STATUS_NOT_FOUND}
    \<and> (nm \<in> supported s \<longrightarrow> ret = UACPI_STATUS_OK) \<and> (nm \<notin> known s \<longrightarrow> ret = UACPI_STATUS_NOT_FOUND)"
proof (cases "find_interface_unlocked nm (registered_interfaces s)")
  case None
  then have "nm \<notin> known s" "supported s \<subseteq> known s" by (auto simp: find_interface_none known_def supported_def)
  then show ?thesis using assms None by (auto simp: uninstall_unlocked_def)
next
  case (Some p)
  note f = find_interface_some [OF Some]
  have d: "distinct (map name (registered_interfaces s))" using assms(2) by (simp add: osi_ok_def)
  have k: "nm \<in> known s" using f by (auto simp: known_def)
  have r: "supported (s\<lparr>registered_interfaces := take p (registered_interfaces s) @ drop (Suc p) (registered_interfaces s)\<rparr>) = supported s - {nm}"
    using supported_remove(2) [OF d, of p] f by (simp add: supported_def)
  have o: "osi_ok (s\<lparr>registered_interfaces := take p (registered_interfaces s) @ drop (Suc p) (registered_interfaces s)\<rparr>)"
    using supported_remove(1) [OF d, of p] f assms(2) by (simp add: osi_ok_def)
  show ?thesis
    using assms Some k f r o supported_name [OF d] supported_set_disabled [OF d]
    by (auto simp: uninstall_unlocked_def Let_def osi_ok_def split: if_splits)
qed

text \<open>The names of a kind.\<close>

definition of_kind :: "u8 \<Rightarrow> 'w osi \<Rightarrow> string set" where
  "of_kind knd s = name ` {i \<in> set (registered_interfaces s). knd AND kind i \<noteq> 0}"

lemma bulk_name [simp]: "name (bulk_unlocked action knd i) = name i"
  by (simp add: bulk_unlocked_def)

lemma bulk_ok: "osi_ok s \<Longrightarrow> osi_ok (s\<lparr>registered_interfaces := map (bulk_unlocked action knd) (registered_interfaces s)\<rparr>)"
  by (simp add: osi_ok_def comp_def)

lemma of_kind_kernel [simp]: "of_kind knd (s\<lparr>kernel := w\<rparr>) = of_kind knd s"
  by (simp add: of_kind_def)

lemma bulk_supported:
  assumes "osi_ok s"
  shows "supported (s\<lparr>registered_interfaces := map (bulk_unlocked action knd) (registered_interfaces s)\<rparr>)
    = (if action = UACPI_INTERFACE_ACTION_DISABLE then supported s - of_kind knd s else supported s \<union> of_kind knd s)"
proof -
  let ?f = "bulk_unlocked action knd" and ?L = "set (registered_interfaces s)"
  have d: "inj_on name ?L" using assms by (simp add: osi_ok_def distinct_map)
  have "{i \<in> ?f ` ?L. \<not> disabled i} = ?f ` {i \<in> ?L. \<not> disabled (?f i)}" by auto
  then have "supported (s\<lparr>registered_interfaces := map ?f (registered_interfaces s)\<rparr>) = name ` {i \<in> ?L. \<not> disabled (?f i)}"
    by (simp add: supported_def image_image)
  also have "{i \<in> ?L. \<not> disabled (?f i)} = (if action = UACPI_INTERFACE_ACTION_DISABLE
      then {i \<in> ?L. \<not> disabled i} - {i \<in> ?L. knd AND kind i \<noteq> 0} else {i \<in> ?L. \<not> disabled i} \<union> {i \<in> ?L. knd AND kind i \<noteq> 0})"
    by (auto simp: bulk_unlocked_def)
  finally show ?thesis
    using inj_on_image_set_diff [OF d, of "{i \<in> ?L. \<not> disabled i}" "{i \<in> ?L. knd AND kind i \<noteq> 0}"]
    by (auto simp: supported_def of_kind_def image_Un)
qed

section \<open>The operations\<close>

locale osi_services = mutex_services os for os :: "'a acpi_scheme os"
begin

lemma locked_some:
  assumes "locked os body s = Some (ret, s')" "osi_ok s"
  obtains w t where "body (s\<lparr>kernel := w\<rparr>) = Some (ret, t)" "s' = t\<lparr>kernel := kernel s'\<rparr>"
proof -
  from assms(2) have m: "interface_mutex s \<noteq> 0" "\<not> osi_init_level s < 1" by (simp_all add: osi_ok_def)
  define w where "w = snd (os_acquire_mutex os (interface_mutex s) 0xFFFF (kernel s))"
  have "uacpi_acquire_native_mutex os (interface_mutex s) (kernel s) = (UACPI_STATUS_OK, w)"
    using m acquire_wait_result [of "interface_mutex s" "kernel s"] by (simp add: uacpi_acquire_native_mutex_def w_def)
  then obtain t where "body (s\<lparr>kernel := w\<rparr>) = Some (ret, t)"
    "s' = t\<lparr>kernel := snd (uacpi_release_native_mutex os (interface_mutex t) (kernel t))\<rparr>"
    using assms(1) m by (auto simp: locked_def)
  then show thesis by (intro that) simp_all
qed

text \<open>The result of a body carries over, since only the kernel's state changes around it.\<close>

lemma locked_result:
  assumes "locked os body s = Some (ret, s')" "osi_ok s"
    and "\<And>w t. body (s\<lparr>kernel := w\<rparr>) = Some (ret, t) \<Longrightarrow> osi_ok t \<and> P ret (supported t)"
  shows "osi_ok s' \<and> P ret (supported s')"
proof -
  from locked_some [OF assms(1,2)] obtain w t where "body (s\<lparr>kernel := w\<rparr>) = Some (ret, t)" "s' = t\<lparr>kernel := kernel s'\<rparr>" .
  then show ?thesis using assms(3) by (metis supported_kernel)
qed

lemma install_set:
  assumes "uacpi_install_interface os nm knd s = Some (ret, s')" "osi_ok s"
  shows "osi_ok s' \<and> (ret = UACPI_STATUS_OUT_OF_MEMORY \<and> supported s' = supported s
    \<or> ret = (if nm \<in> known s then UACPI_STATUS_ALREADY_EXISTS else UACPI_STATUS_OK) \<and> supported s' = insert nm (supported s))"
proof (rule locked_result [OF assms(1) [unfolded uacpi_install_interface_def] assms(2)])
  fix w t
  assume b: "install_unlocked nm knd (s\<lparr>kernel := w\<rparr>) = Some (ret, t)"
  show "osi_ok t \<and> (ret = UACPI_STATUS_OUT_OF_MEMORY \<and> supported t = supported s
    \<or> ret = (if nm \<in> known s then UACPI_STATUS_ALREADY_EXISTS else UACPI_STATUS_OK) \<and> supported t = insert nm (supported s))"
    using install_unlocked_set [OF b] assms(2) by simp
qed

lemma uninstall_set:
  assumes "uacpi_uninstall_interface os nm s = Some (ret, s')" "osi_ok s"
  shows "osi_ok s' \<and> supported s' = supported s - {nm} \<and> ret \<in> {UACPI_STATUS_OK, UACPI_STATUS_NOT_FOUND}
    \<and> (nm \<in> supported s \<longrightarrow> ret = UACPI_STATUS_OK) \<and> (nm \<notin> known s \<longrightarrow> ret = UACPI_STATUS_NOT_FOUND)"
proof -
  let ?U = "case find_interface_unlocked nm (registered_interfaces s) of
      Some p \<Rightarrow> if dynamic (registered_interfaces s ! p) then [registered_interfaces s ! p] else [] | None \<Rightarrow> []"
  from assms(1) obtain y where y: "locked os (uninstall_unlocked nm) s = Some y"
    "(\<lambda>(ret, s). if ret \<noteq> UACPI_STATUS_OK then Some (ret, s)
       else map_option (\<lambda>(kept, w). (ret, s\<lparr>kernel := w\<rparr>)) (release_interfaces ?U (kernel s))) y = Some (ret, s')"
    unfolding uacpi_uninstall_interface_def Let_def bind_eq_Some_conv by (elim exE conjE)
  obtain r1 s1 where y1: "y = (r1, s1)" by (cases y)
  have l: "locked os (uninstall_unlocked nm) s = Some (r1, s1)"
    and r: "(if r1 \<noteq> UACPI_STATUS_OK then Some (r1, s1)
       else map_option (\<lambda>(kept, w). (r1, s1\<lparr>kernel := w\<rparr>)) (release_interfaces ?U (kernel s1))) = Some (ret, s')"
    using y unfolding y1 prod.case by simp_all
  from r have "r1 = ret" and e: "s' = s1 \<or> (\<exists>w. s' = s1\<lparr>kernel := w\<rparr>)" by (auto split: if_splits)
  then have s1: "locked os (uninstall_unlocked nm) s = Some (ret, s1)" using l by simp
  have "osi_ok s1 \<and> (supported s1 = supported s - {nm} \<and> ret \<in> {UACPI_STATUS_OK, UACPI_STATUS_NOT_FOUND}
    \<and> (nm \<in> supported s \<longrightarrow> ret = UACPI_STATUS_OK) \<and> (nm \<notin> known s \<longrightarrow> ret = UACPI_STATUS_NOT_FOUND))"
  proof (rule locked_result [OF s1 assms(2)])
    fix w t
    assume b: "uninstall_unlocked nm (s\<lparr>kernel := w\<rparr>) = Some (ret, t)"
    show "osi_ok t \<and> (supported t = supported s - {nm} \<and> ret \<in> {UACPI_STATUS_OK, UACPI_STATUS_NOT_FOUND}
      \<and> (nm \<in> supported s \<longrightarrow> ret = UACPI_STATUS_OK) \<and> (nm \<notin> known s \<longrightarrow> ret = UACPI_STATUS_NOT_FOUND))"
      using uninstall_unlocked_set [OF b] assms(2) by simp
  qed
  then show ?thesis using e by (elim disjE exE) simp_all
qed

lemma bulk_set:
  assumes "uacpi_bulk_configure_interfaces os action knd s = Some (ret, s')" "osi_ok s"
  shows "osi_ok s' \<and> (ret = UACPI_STATUS_OK \<and> supported s'
    = (if action = UACPI_INTERFACE_ACTION_DISABLE then supported s - of_kind knd s else supported s \<union> of_kind knd s))"
proof (rule locked_result [OF assms(1) [unfolded uacpi_bulk_configure_interfaces_def] assms(2)])
  fix w t
  assume b: "Some (UACPI_STATUS_OK, (s\<lparr>kernel := w\<rparr>)\<lparr>registered_interfaces :=
     map (bulk_unlocked action knd) (registered_interfaces (s\<lparr>kernel := w\<rparr>))\<rparr>) = Some (ret, t)"
  have o: "osi_ok (s\<lparr>kernel := w\<rparr>)" using assms(2) by simp
  show "osi_ok t \<and> (ret = UACPI_STATUS_OK \<and> supported t
    = (if action = UACPI_INTERFACE_ACTION_DISABLE then supported s - of_kind knd s else supported s \<union> of_kind knd s))"
    using b bulk_supported [OF o, of action knd] bulk_ok [OF o, of action knd] by auto
qed

lemma host_set:
  assumes "configure_host_interface os t b s = Some (ret, s')" "osi_ok s"
  shows "osi_ok s' \<and> (ret = UACPI_STATUS_NOT_FOUND \<and> supported s' = supported s
    \<or> ret = UACPI_STATUS_OK \<and> (\<exists>nm \<in> known s. supported s' = (if b then insert nm (supported s) else supported s - {nm})))"
proof (rule locked_result [OF assms(1) [unfolded configure_host_interface_def] assms(2)])
  fix w u
  define s0 where "s0 = s\<lparr>kernel := w\<rparr>"
  assume "(case find_host_interface_unlocked t (registered_interfaces (s\<lparr>kernel := w\<rparr>)) of
         None \<Rightarrow> Some (UACPI_STATUS_NOT_FOUND, s\<lparr>kernel := w\<rparr>)
       | Some p \<Rightarrow> Some (UACPI_STATUS_OK, set_disabled p (\<not> b) (s\<lparr>kernel := w\<rparr>))) = Some (ret, u)"
  then have b: "(case find_host_interface_unlocked t (registered_interfaces s0) of
         None \<Rightarrow> Some (UACPI_STATUS_NOT_FOUND, s0) | Some p \<Rightarrow> Some (UACPI_STATUS_OK, set_disabled p (\<not> b) s0)) = Some (ret, u)"
    by (simp only: s0_def)
  have o: "osi_ok s0" "supported s0 = supported s" "known s0 = known s" using assms(2) by (simp_all add: s0_def)
  have d: "distinct (map name (registered_interfaces s0))" using o(1) by (simp add: osi_ok_def)
  show "osi_ok u \<and> (ret = UACPI_STATUS_NOT_FOUND \<and> supported u = supported s
    \<or> ret = UACPI_STATUS_OK \<and> (\<exists>nm \<in> known s. supported u = (if b then insert nm (supported s) else supported s - {nm})))"
  proof (cases "find_host_interface_unlocked t (registered_interfaces s0)")
    case None
    with b o show ?thesis by simp
  next
    case (Some p)
    then have p: "p < length (registered_interfaces s0)" using find_host_some by blast
    then have "name (registered_interfaces s0 ! p) \<in> known s0" by (simp add: known_def)
    then have "name (registered_interfaces s0 ! p) \<in> known s" unfolding o(3) .
    moreover have "osi_ok (set_disabled p (\<not> b) s0)" using o(1) by (simp add: osi_ok_def)
    ultimately show ?thesis using b Some supported_set_disabled [OF d p, of "\<not> b"] o(2) by auto
  qed
qed

lemma handler_set:
  assumes "uacpi_set_interface_query_handler os h s = Some (ret, s')" "osi_ok s"
  shows "osi_ok s' \<and> supported s' = supported s"
proof (rule locked_result [OF assms(1) [unfolded uacpi_set_interface_query_handler_def] assms(2)])
  fix w t
  assume "(if interface_handler (s\<lparr>kernel := w\<rparr>) \<noteq> None \<and> h \<noteq> None then Some (UACPI_STATUS_ALREADY_EXISTS, s\<lparr>kernel := w\<rparr>)
       else Some (UACPI_STATUS_OK, (s\<lparr>kernel := w\<rparr>)\<lparr>interface_handler := h\<rparr>)) = Some (ret, t)"
  then show "osi_ok t \<and> supported t = supported s"
    using assms(2) by (auto simp: osi_ok_def supported_def split: if_splits)
qed

text \<open>The query, which answers no for a name that is not in the list without asking the handler.\<close>

lemma query_set:
  assumes "uacpi_handle_osi os txt b s = (ret, r, s')" "osi_ok s"
  shows "osi_ok s' \<and> supported s' = supported s \<and> ret = UACPI_STATUS_OK
    \<and> r = (txt \<in> known s \<and> (case interface_handler s of None \<Rightarrow> txt \<in> supported s | Some h \<Rightarrow> h txt (txt \<in> supported s)))"
proof -
  have d: "distinct (map name (registered_interfaces s))" "interface_mutex s \<noteq> 0" using assms(2) by (simp_all add: osi_ok_def)
  define w where "w = snd (os_acquire_mutex os (interface_mutex s) 0xFFFF (kernel s))"
  have A: "uacpi_acquire_native_mutex os (interface_mutex s) (kernel s) = (UACPI_STATUS_OK, w)"
    using d(2) acquire_wait_result [of "interface_mutex s" "kernel s"] by (simp add: uacpi_acquire_native_mutex_def w_def)
  show ?thesis
  proof (cases "find_interface_unlocked txt (registered_interfaces s)")
    case None
    then have "txt \<notin> known s" by (simp add: find_interface_none known_def)
    then show ?thesis using assms A None by (auto simp: uacpi_handle_osi_def Let_def)
  next
    case (Some p)
    note f = find_interface_some [OF Some]
    have k: "txt \<in> known s" using f by (auto simp: known_def)
    have "txt \<in> supported s \<longleftrightarrow> \<not> disabled (registered_interfaces s ! p)" using supported_name [OF d(1), of p] f by simp
    then show ?thesis using assms A Some k
      by (auto simp: uacpi_handle_osi_def Let_def split: if_splits option.splits)
  qed
qed

end

interpretation kernel_osi: osi_services "kernel_os facs rls" ..

section \<open>The list over any sequence of operations\<close>

inductive osi_reach :: "'a acpi_scheme os \<Rightarrow> 'a acpi_scheme osi \<Rightarrow> bool" for os where
  start: "\<not> osi_init_level s < 1 \<Longrightarrow> interface_mutex s \<noteq> 0 \<Longrightarrow> registered_interfaces s = predefined_interfaces \<Longrightarrow> osi_reach os s"
| install: "osi_reach os s \<Longrightarrow> uacpi_install_interface os nm knd s = Some (ret, s') \<Longrightarrow> osi_reach os s'"
| uninstall: "osi_reach os s \<Longrightarrow> uacpi_uninstall_interface os nm s = Some (ret, s') \<Longrightarrow> osi_reach os s'"
| host: "osi_reach os s \<Longrightarrow> configure_host_interface os t b s = Some (ret, s') \<Longrightarrow> osi_reach os s'"
| handler: "osi_reach os s \<Longrightarrow> uacpi_set_interface_query_handler os h s = Some (ret, s') \<Longrightarrow> osi_reach os s'"
| bulk: "osi_reach os s \<Longrightarrow> uacpi_bulk_configure_interfaces os action knd s = Some (ret, s') \<Longrightarrow> osi_reach os s'"
| query: "osi_reach os s \<Longrightarrow> uacpi_handle_osi os txt out s = (ret, r, s') \<Longrightarrow> osi_reach os s'"

lemma predefined_distinct: "distinct (map name predefined_interfaces)"
  by (simp add: predefined_interfaces_def windows_def host_feature_def)

lemma osi_reach_ok: "osi_reach (kernel_os facs rls) s \<Longrightarrow> osi_ok s"
proof (induction rule: osi_reach.induct)
  case (start s)
  then show ?case using predefined_distinct by (simp add: osi_ok_def)
next
  case (install s nm knd ret s')
  then show ?case by (elim kernel_osi.install_set [THEN conjunct1])
next
  case (uninstall s nm ret s')
  then show ?case by (elim kernel_osi.uninstall_set [THEN conjunct1])
next
  case (host s t b ret s')
  then show ?case by (elim kernel_osi.host_set [THEN conjunct1])
next
  case (handler s h ret s')
  then show ?case by (elim kernel_osi.handler_set [THEN conjunct1])
next
  case (bulk s action knd ret s')
  then show ?case by (elim kernel_osi.bulk_set [THEN conjunct1])
next
  case (query s nm out ret r s')
  then show ?case by (elim kernel_osi.query_set [THEN conjunct1])
qed

text \<open>
  C37. After any sequence of operations on the list of interfaces, it behaves as a set of supported names: an install adds
  its name (or leaves the set when there is no memory, and reports whether the name was known), an uninstall
  removes its name and succeeds for every supported name, a bulk configuration removes or adds all names of a
  kind, an enabled or disabled host interface adds or removes one known name, and a query changes nothing and answers
  whether the name is in the set, through the handler if there is one and the name is known.
\<close>

theorem osi_refines_set:
  assumes "osi_reach (kernel_os facs rls) s"
  shows "(\<forall>nm knd ret s'. uacpi_install_interface (kernel_os facs rls) nm knd s = Some (ret, s') \<longrightarrow>
      ret = UACPI_STATUS_OUT_OF_MEMORY \<and> supported s' = supported s
      \<or> ret = (if nm \<in> known s then UACPI_STATUS_ALREADY_EXISTS else UACPI_STATUS_OK) \<and> supported s' = insert nm (supported s))
    \<and> (\<forall>nm ret s'. uacpi_uninstall_interface (kernel_os facs rls) nm s = Some (ret, s') \<longrightarrow>
      supported s' = supported s - {nm} \<and> (nm \<in> supported s \<longrightarrow> ret = UACPI_STATUS_OK)
      \<and> (nm \<notin> known s \<longrightarrow> ret = UACPI_STATUS_NOT_FOUND))
    \<and> (\<forall>action knd ret s'. uacpi_bulk_configure_interfaces (kernel_os facs rls) action knd s = Some (ret, s') \<longrightarrow>
      ret = UACPI_STATUS_OK \<and> supported s'
        = (if action = UACPI_INTERFACE_ACTION_DISABLE then supported s - of_kind knd s else supported s \<union> of_kind knd s))
    \<and> (\<forall>t b ret s'. configure_host_interface (kernel_os facs rls) t b s = Some (ret, s') \<longrightarrow>
      ret = UACPI_STATUS_NOT_FOUND \<and> supported s' = supported s
      \<or> ret = UACPI_STATUS_OK \<and> (\<exists>nm \<in> known s. supported s' = (if b then insert nm (supported s) else supported s - {nm})))
    \<and> (\<forall>txt out ret r s'. uacpi_handle_osi (kernel_os facs rls) txt out s = (ret, r, s') \<longrightarrow>
      ret = UACPI_STATUS_OK \<and> supported s' = supported s
      \<and> r = (txt \<in> known s \<and> (case interface_handler s of None \<Rightarrow> txt \<in> supported s | Some h \<Rightarrow> h txt (txt \<in> supported s))))"
proof -
  note ok = osi_reach_ok [OF assms]
  show ?thesis
    using kernel_osi.install_set [OF _ ok] kernel_osi.uninstall_set [OF _ ok] kernel_osi.bulk_set [OF _ ok]
      kernel_osi.host_set [OF _ ok] kernel_osi.query_set [OF _ ok]
    by (intro conjI allI impI) (simp; blast)+
qed

definition osi_start :: "acpi osi" where
  "osi_start = \<lparr>kernel = acpi_start, osi_init_level = 1, interface_mutex = 0x2000, predefined = predefined_interfaces,
     registered_interfaces = predefined_interfaces, interface_handler = None, latest_queried_interface = 0\<rparr>"

theorem osi_refines_set_witness:
  "fst (snd (uacpi_handle_osi (kernel_os 0 id) ''Windows 2009'' False osi_start))
    \<and> \<not> fst (snd (uacpi_handle_osi (kernel_os 0 id) ''Linux'' True osi_start))"
proof -
  have r: "osi_reach (kernel_os 0 id) osi_start" by (rule osi_reach.start) (simp_all add: osi_start_def)
  have "\<exists>i \<in> set predefined_interfaces. name i = ''Windows 2009'' \<and> \<not> disabled i" "\<forall>i \<in> set predefined_interfaces. name i \<noteq> ''Linux''"
    by (simp_all add: predefined_interfaces_def windows_def host_feature_def)
  then have "''Windows 2009'' \<in> supported osi_start" "''Windows 2009'' \<in> known osi_start" "''Linux'' \<notin> known osi_start"
    by (auto simp: supported_def known_def osi_start_def image_iff) metis+
  moreover have "interface_handler osi_start = None" by (simp add: osi_start_def)
  ultimately show ?thesis
    using conjunct2 [OF conjunct2 [OF conjunct2 [OF conjunct2 [OF osi_refines_set [OF r]]]]]
    by (metis option.simps(4) prod.collapse)
qed

end
