(* ===== verification/Spec2Isabelle.thy ===== *)
theory Spec2Isabelle
  imports Paging ScreenProps HeapProps KeyboardProps Pci Console AcpiProps AcpiOsProps BootProps AcpiPrintProps AcpiParseProps AcpiMutexProps AcpiFieldProps AcpiRegistersProps AcpiOsiProps
begin

text \<open>
  A verification development for the Tinos3c kernel: the C code under \<open>src/kernel\<close> and the parts of the ACPI
  library under \<open>src/external/uacpi\<close> that rest on it without the AML interpreter's objects.  Paths below are
  relative to \<open>src/kernel\<close> or \<open>src/external/uacpi\<close>.

  \<^bold>\<open>The program.\<close>  \<open>main.c\<close> reads the memory map of the boot loader, hands the usable regions to the
  physical memory manager (\<open>mm/pmm.c\<close>), reserves what is in use, builds page tables (\<open>mm/vmm.c\<close>), sets up the
  descriptor tables and the interrupt controllers (\<open>gdt\<close>, \<open>idt\<close>, \<open>pic\<close>), starts the ACPI library and ends in the debug
  console.  Interrupts of the keyboard fill a ring of scancodes, which the input functions of the console empty.
  The ACPI library asks the kernel for memory, mappings, ports and time through \<open>acpi/kernel_apis.c\<close>.

  \<^bold>\<open>State.\<close>  One record, extended from theory to theory in the order of the calls: the log of instructions and the
  devices' answers (\<open>Machine\<close>), the screen (\<open>Screen\<close>), the frame bitmap (\<open>Pmm\<close>), the page tables (\<open>Vmm\<close>), the
  keyboard (\<open>Keyboard\<close>), the heap and the descriptor tables (\<open>Descriptors\<close>), the mapping window (\<open>AcpiMap\<close>), the
  fixed registers (\<open>AcpiRegisters\<close>).  An operation of C is one definition over the record of its component, so it
  runs unchanged on every later state.  Integers are words of their C width.  A result \<open>None\<close> of a function of option
  type is a call that does not return, or that leaves the array it works on; error codes are values.

  \<^bold>\<open>Theories.\<close>
  \<^item> \<open>Prelude\<close>, \<open>Memory\<close>, \<open>Machine\<close>, \<open>Queue\<close>, \<open>BitArray\<close>: loops, words, bytes in memory with \<open>memset\<close>, instructions, and
    the interfaces of a bounded queue and of an allocation bitmap.
  \<^item> \<open>Screen\<close>, \<open>Printf\<close>, \<open>ScreenProps\<close>: \<open>lib/std/stdio.c\<close>; \<open>printf\<close> prints the text a reference function renders, and
    the cursor stays on the screen.
  \<^item> \<open>Pmm\<close>, \<open>Vmm\<close>, \<open>Paging\<close>: \<open>mm/pmm.c\<close>, \<open>mm/vmm.c\<close>; the count of free frames agrees with the bitmap after any
    run, a region reserves exactly its frames, and the page walk of the processor finds what \<open>map_page\<close> mapped.
  \<^item> \<open>Heap\<close>, \<open>HeapProps\<close>: \<open>lib/std/stdlib.c\<close>; the list of blocks in memory refines an abstract allocator, every walk
    of the list ends after any run, contents survive \<open>realloc\<close>.
  \<^item> \<open>Keyboard\<close>, \<open>KeyboardProps\<close>, \<open>Console\<close>: \<open>drivers/keyboard/kb.c\<close>, \<open>lib/scancodes.c\<close>, the input functions of \<open>stdio.c\<close>
    and \<open>console/console.c\<close>; the ring is a queue also when the interrupt comes between its steps; a blocking
    read returns the oldest key once an interrupt ends its \<open>hlt\<close>, and misses a key that comes between the look at
    the ring and the \<open>hlt\<close>; a typed line is edited and returned, a turn of the console does what its command says.
  \<^item> \<open>Pci\<close>, \<open>Descriptors\<close>: \<open>drivers/pci\<close>, \<open>gdt\<close>, \<open>idt\<close>, \<open>pic\<close>; what a byte write makes of the register around it,
    for a device given by what a write leaves in each of its registers, and the lines of the controllers that have no gate.
  \<^item> \<open>AcpiMap\<close>, \<open>AcpiWindow\<close>, \<open>AcpiProps\<close>, \<open>AcpiOs\<close>, \<open>AcpiOsProps\<close>: \<open>acpi/kernel_apis.c\<close>; every slot of the mapping window is free
    or owned by one mapping in every reachable state, a mapping translates to the range asked for, unmap undoes it.
  \<^item> \<open>Boot\<close>, \<open>BootProps\<close>: \<open>main.c\<close>; the walk of the memory map ends, and the frames that are free afterwards.
  \<^item> \<open>Status\<close>, \<open>AcpiString\<close>, \<open>AcpiPrint\<close>, \<open>AcpiPrintProps\<close>, \<open>AcpiNumber\<close>: \<open>include/uacpi/status.h\<close>, \<open>source/stdlib.c\<close> and the
    first part of \<open>source/utilities.c\<close>; formatted output is a text cut to the capacity, and numbers printed are read back.
  \<^item> \<open>AcpiOpcodes\<close>, \<open>AcpiParse\<close>, \<open>AcpiParseCheck\<close>, \<open>AcpiParseSound\<close>, \<open>AcpiParseFrame\<close>, \<open>AcpiParseProps\<close>: the parse programs of every AML
    operation (\<open>include/uacpi/internal/opcodes.h\<close>, \<open>source/opcodes.c\<close>) and \<open>exec_op\<close> of \<open>source/interpreter.c\<close>, which runs
    them.  A checker accepts a program when no run of it reads an item that is not there or of another kind, but for the
    three items the table loading handlers fill themselves; it is proved sound and evaluated on all operations.  What an operation reads from the byte stream, and the handlers of
    the operations, are arguments of a round, so the result holds for every byte stream and every handler.
  \<^item> \<open>AcpiMutex\<close>, \<open>AcpiRwLock\<close>, \<open>AcpiGlobalLock\<close>, \<open>AcpiMutexProps\<close>: \<open>source/mutex.c\<close>; step relations for the interleaving of
    threads, and of the system with the firmware, with their invariants by rule induction, and the sequential nesting.
    Each relation takes as an argument whether the kernel's mutexes exclude, or its spinlocks mask interrupts, as
    \<open>include/uacpi/kernel_api.h\<close> demands: the invariants hold then, and fail for the services of \<open>kernel_apis.c\<close>, which
    do neither.
  \<^item> \<open>AcpiBits\<close>, \<open>AcpiField\<close>, \<open>AcpiFieldProps\<close>: \<open>source/io.c\<close> up to line 690; bit copies, buffer fields and field units against
    a reference that addresses single bits.
  \<^item> \<open>AcpiGas\<close>, \<open>AcpiGasProps\<close>, \<open>AcpiRegisters\<close>, \<open>AcpiRegistersProps\<close>: the rest of \<open>source/io.c\<close> and \<open>source/registers.c\<close>; registers
    described by the firmware, the fixed registers and their fields.
  \<^item> \<open>AcpiOsi\<close>, \<open>AcpiOsiProps\<close>: \<open>source/osi.c\<close>; the list of interfaces the firmware asks about refines a set of names.

  \<^bold>\<open>Interfaces.\<close>  \<open>bit_array\<close> (interpreted on the frames of \<open>pmm.c\<close> and on the slots of \<open>kernel_apis.c\<close>), \<open>bounded_queue\<close> (the
  scancode ring), \<open>allocator\<close> (the heap), \<open>mutex_services\<close> and its extension \<open>osi_services\<close> (the services of \<open>kernel_apis.c\<close>) and \<open>register_units\<close>
  (registers in memory, for each width of an access).

  \<^bold>\<open>Bounds.\<close>  A loop of C that need not end is a \<open>partial_function\<close>; that it ends is a theorem where the code
  makes it so (the heap's walks, the walk of the memory map, the register loops).  The only fuel is that of the checker of
  parse programs: 400 abstract steps per state, and a program that needed more would be rejected; none is.  The
  reference region of the field units has fewer than \<open>2 ^ 28\<close> bytes, so that bit offsets do not wrap around in 32 bits.
  The blocking reads of the keyboard and the console's loop run for a given finite list of interrupts.

  \<^bold>\<open>Parameters.\<close>  What a device answers (ports, time stamp counter), what a write leaves in a PCI register, the words the boot loader and the linker provide,
  the firmware's word of the global lock, the handler of an operation region and the handlers of AML operations are
  arguments of the definitions.

  \<^bold>\<open>Not modelled.\<close>  Assembly and the linker script.  In the ACPI library: namespace, objects, tables, resources, events but
  for the handler of the global lock, sleep states, the handlers of AML operations and the calls of methods.  They work on a graph of counted objects that
  AML code builds, so each of them needs the interpreter's objects first.  Log texts of the library are left out where
  they are the only effect of a branch.
\<close>

end
